(* ===== verification/Prelude.thy ===== *)
theory Prelude
  imports Main "HOL-Library.Word" "HOL-Library.Monad_Syntax"
begin

text \<open>
  Shared vocabulary of the development: the machine types, the wrap-around arithmetic of the
  32-bit guest address space, the pieces of the Rust standard library that the modelled code
  calls on vectors (\<open>swap_remove\<close>, \<open>rposition\<close>, integer \<open>ilog2\<close>), and the fact collections
  the component proofs draw on.

  A Rust operation that can panic (\<open>assert!\<close>, \<open>unwrap\<close>, an index out of range) returns an
  \<open>option\<close> in the model: \<open>None\<close> is the panic, and the option monad of the library is the early
  exit.  Additions and subtractions on \<open>u32\<close> values wrap, as in the release profile of
  \<open>Cargo.toml\<close> (which does not switch on \<open>overflow-checks\<close>).
\<close>

named_theorems wrap_simps \<open>wrap-around arithmetic whose operands stay in range\<close>
named_theorems chunk_defs \<open>definitions of the chunk layer\<close>

section \<open>Machine types\<close>

type_synonym u8 = "8 word"
type_synonym u16 = "16 word"
type_synonym u32 = "32 word"
type_synonym u64 = "64 word"

section \<open>Wrap-around on addresses kept as natural numbers\<close>

text \<open>4294967296 is \<open>2 ^ 32\<close>, the size of the guest address space.\<close>

definition wadd32 :: "nat \<Rightarrow> nat \<Rightarrow> nat" where
  "wadd32 a b = (a + b) mod 4294967296"

definition wsub32 :: "nat \<Rightarrow> nat \<Rightarrow> nat" where
  "wsub32 a b = (a + (4294967296 - b)) mod 4294967296"

lemma wadd32_exact [wrap_simps]: "a + b < 4294967296 \<Longrightarrow> wadd32 a b = a + b"
  by (simp add: wadd32_def)

lemma wsub32_exact [wrap_simps]:
  assumes "b \<le> a" "a < 4294967296"
  shows "wsub32 a b = a - b"
proof -
  have "a + (4294967296 - b) = (a - b) + 4294967296"
    using assms by simp
  then have "wsub32 a b = ((a - b) + 4294967296) mod 4294967296"
    unfolding wsub32_def by (simp only:)
  also have "((a - b) + 4294967296) mod 4294967296 = (a - b) mod (4294967296 :: nat)"
    by (rule mod_add_self2)
  also have "\<dots> = a - b" using assms by simp
  finally show ?thesis .
qed

lemma wadd32_bound: "wadd32 a b < 4294967296"
  by (simp add: wadd32_def)

text \<open>The address one past the top of the space is address 0 again.\<close>

lemma wadd32_top: "a + b = 4294967296 \<Longrightarrow> wadd32 a b = 0"
  by (simp add: wadd32_def)

lemma mod_zero_add: "a mod k = 0 \<Longrightarrow> b mod k = 0 \<Longrightarrow> (a + b) mod k = (0 :: nat)"
  by (simp add: mod_eq_0_iff_dvd)

lemma mod_zero_diff: "a mod k = 0 \<Longrightarrow> b mod k = 0 \<Longrightarrow> (a - b) mod k = (0 :: nat)"
  by (simp add: mod_eq_0_iff_dvd)

section \<open>Integer logarithm\<close>

fun ilog2 :: "nat \<Rightarrow> nat" where
  "ilog2 n = (if n < 2 then 0 else Suc (ilog2 (n div 2)))"

declare ilog2.simps [simp del]

lemma ilog2_lower: "0 < n \<Longrightarrow> 2 ^ ilog2 n \<le> n"
proof (induction n rule: ilog2.induct)
  case (1 n)
  show ?case
  proof (cases "n < 2")
    case True
    with 1 show ?thesis by (simp add: ilog2.simps [of n])
  next
    case False
    with 1 have "2 ^ ilog2 (n div 2) \<le> n div 2" by simp
    with False show ?thesis by (simp add: ilog2.simps [of n])
  qed
qed

lemma ilog2_upper: "n < 2 ^ Suc (ilog2 n)"
proof (induction n rule: ilog2.induct)
  case (1 n)
  show ?case
  proof (cases "n < 2")
    case True
    then show ?thesis by (simp add: ilog2.simps [of n])
  next
    case False
    with 1 have "n div 2 < 2 ^ Suc (ilog2 (n div 2))" by simp
    with False show ?thesis by (simp add: ilog2.simps [of n])
  qed
qed

lemma ilog2_mono: "0 < m \<Longrightarrow> m \<le> n \<Longrightarrow> ilog2 m \<le> ilog2 n"
proof -
  assume *: "0 < m" "m \<le> n"
  have "(2::nat) ^ ilog2 m \<le> n"
    using ilog2_lower * by (meson le_trans)
  also have "n < 2 ^ Suc (ilog2 n)" by (rule ilog2_upper)
  finally have "(2::nat) ^ ilog2 m < 2 ^ Suc (ilog2 n)" .
  then show "ilog2 m \<le> ilog2 n"
    by (simp only: power_strict_increasing_iff [of "2::nat"] less_Suc_eq_le)
qed

lemma ilog2_bound: "n < 2 ^ Suc k \<Longrightarrow> ilog2 n \<le> k"
proof -
  assume *: "n < 2 ^ Suc k"
  show ?thesis
  proof (cases "n = 0")
    case True
    then show ?thesis by (simp add: ilog2.simps)
  next
    case False
    then have "2 ^ ilog2 n \<le> n" by (simp add: ilog2_lower)
    with * have "(2::nat) ^ ilog2 n < 2 ^ Suc k" by simp
    then show ?thesis
      by (simp only: power_strict_increasing_iff [of "2::nat"] less_Suc_eq_le)
  qed
qed

lemma ilog2_eqI: "2 ^ k \<le> n \<Longrightarrow> n < 2 ^ Suc k \<Longrightarrow> ilog2 n = k"
proof -
  assume *: "2 ^ k \<le> n" "n < 2 ^ Suc k"
  have "(2::nat) ^ k < 2 ^ Suc (ilog2 n)" using *(1) ilog2_upper [of n] by simp
  then have "k \<le> ilog2 n"
    by (simp only: power_strict_increasing_iff [of "2::nat"] less_Suc_eq_le)
  moreover have "ilog2 n \<le> k" using *(2) by (rule ilog2_bound)
  ultimately show "ilog2 n = k" by simp
qed

lemma ilog2_less_imp_less: "ilog2 m < ilog2 n \<Longrightarrow> m < n"
proof (rule ccontr)
  assume *: "ilog2 m < ilog2 n" and "\<not> m < n"
  then have "n \<le> m" by simp
  show False
  proof (cases "n = 0")
    case True
    with * show False by (simp add: ilog2.simps)
  next
    case False
    with \<open>n \<le> m\<close> have "ilog2 n \<le> ilog2 m" by (simp add: ilog2_mono)
    with * show False by simp
  qed
qed

section \<open>Vector operations of the Rust standard library\<close>

text \<open>\<open>Vec::swap_remove\<close>: the last element takes the place of the removed one.\<close>

definition swap_remove :: "'a list \<Rightarrow> nat \<Rightarrow> ('a \<times> 'a list) option" where
  "swap_remove xs i =
     (if i < length xs then Some (xs ! i, butlast (xs[i := last xs])) else None)"

lemma swap_remove_mset:
  assumes "swap_remove xs i = Some (x, ys)"
  shows "x = xs ! i \<and> i < length xs \<and> set ys = set (take i xs) \<union> set (drop (Suc i) xs)
     \<and> (distinct xs \<longrightarrow> distinct ys \<and> x \<notin> set ys)
     \<and> (distinct (map f xs) \<longrightarrow> distinct (map f ys) \<and> f x \<notin> f ` set ys)"
proof -
  from assms have i: "i < length xs" and x: "x = xs ! i" and ys: "ys = butlast (xs[i := last xs])"
    by (auto simp: swap_remove_def split: if_splits)
  have ys_eq: "ys = (if i = length xs - 1 then take i xs
      else take i xs @ last xs # butlast (drop (Suc i) xs))"
  proof (cases "i = length xs - 1")
    case True
    with i have "xs[i := last xs] = xs"
      by (metis last_conv_nth length_0_conv list_update_id not_less_zero)
    with True ys show ?thesis by (simp add: butlast_conv_take)
  next
    case False
    with i have "drop (Suc i) xs \<noteq> []" by auto
    with i ys False show ?thesis by (simp add: upd_conv_take_nth_drop butlast_append)
  qed
  have split: "xs = take i xs @ xs ! i # drop (Suc i) xs"
    using i by (rule id_take_nth_drop)
  show ?thesis
  proof (cases "i = length xs - 1")
    case True
    with i have "drop (Suc i) xs = []" by simp
    with split have xs': "xs = take i xs @ [xs ! i]" by simp
    have "ys = take i xs" using ys_eq True by simp
    with xs' have "xs = ys @ [x]" using x by simp
    then have "distinct xs \<longleftrightarrow> distinct ys \<and> x \<notin> set ys"
      and "distinct (map f xs) \<longleftrightarrow> distinct (map f ys) \<and> f x \<notin> f ` set ys"
      by auto
    with i x \<open>ys = take i xs\<close> \<open>drop (Suc i) xs = []\<close> show ?thesis by simp
  next
    case False
    with i have ne: "drop (Suc i) xs \<noteq> []" by auto
    then have dec: "drop (Suc i) xs = butlast (drop (Suc i) xs) @ [last xs]"
      by (metis append_butlast_last_id last_drop length_drop length_greater_0_conv zero_less_diff)
    define A B l where "A = take i xs" and "B = butlast (drop (Suc i) xs)" and "l = last xs"
    have xs': "xs = A @ x # B @ [l]" using split dec x by (simp add: A_def B_def l_def)
    have ys': "ys = A @ l # B" using ys_eq False by (simp add: A_def B_def l_def)
    have "set (drop (Suc i) xs) = set B \<union> {l}" using dec by (metis B_def l_def set_append list.set(1) list.set(2))
    then have "set ys = set (take i xs) \<union> set (drop (Suc i) xs)" using ys' A_def by auto
    moreover have "distinct xs \<longleftrightarrow> distinct ys \<and> x \<notin> set ys"
      unfolding xs' ys' by auto
    moreover have "distinct (map f xs) \<longleftrightarrow> distinct (map f ys) \<and> f x \<notin> f ` set ys"
      unfolding xs' ys' by auto
    ultimately show ?thesis using i x by simp
  qed
qed

lemma swap_remove_set:
  assumes sr: "swap_remove xs i = Some (x, ys)" and d: "distinct (map f xs)"
  shows "set ys = set xs - {x} \<and> distinct (map f ys) \<and> x \<in> set xs"
proof -
  note * = swap_remove_mset [OF sr, of f]
  from d have dx: "distinct xs" by (simp add: distinct_map)
  from * have i: "i < length xs" and x: "x = xs ! i" by auto
  have "xs = take i xs @ x # drop (Suc i) xs" using i x by (simp add: id_take_nth_drop)
  then have "set xs = set (take i xs) \<union> set (drop (Suc i) xs) \<union> {x}"
    by (metis Un_insert_right list.set(2) set_append sup_bot_right)
  with * dx d i x show ?thesis by auto
qed

text \<open>
  \<open>iter().rposition(p)\<close>: the index of the last element satisfying the predicate.
\<close>

definition rposition :: "('a \<Rightarrow> bool) \<Rightarrow> 'a list \<Rightarrow> nat option" where
  "rposition p xs = (case filter (\<lambda>i. p (xs ! i)) [0..<length xs] of
       [] \<Rightarrow> None | is \<Rightarrow> Some (last is))"

lemma rposition_Some:
  assumes "rposition p xs = Some i"
  shows "i < length xs \<and> p (xs ! i)"
proof -
  let ?is = "filter (\<lambda>i. p (xs ! i)) [0..<length xs]"
  have ne: "?is \<noteq> []" and i: "i = last ?is"
    using assms by (auto simp: rposition_def split: list.splits)
  have "last ?is \<in> set ?is" using ne by (rule last_in_set)
  then show ?thesis using i by auto
qed

lemma rposition_None: "rposition p xs = None \<longleftrightarrow> (\<forall>x \<in> set xs. \<not> p x)"
proof -
  have "rposition p xs = None \<longleftrightarrow> filter (\<lambda>i. p (xs ! i)) [0..<length xs] = []"
    by (auto simp: rposition_def split: list.splits)
  also have "\<dots> \<longleftrightarrow> (\<forall>x \<in> set xs. \<not> p x)"
    by (auto simp: filter_empty_conv all_set_conv_all_nth)
  finally show ?thesis .
qed

lemma enumerate_mem: "(i, x) \<in> set (enumerate 0 xs) \<longleftrightarrow> i < length xs \<and> xs ! i = x"
  by (simp add: in_set_enumerate_eq)

lemma enumerate_all: "(\<forall>(i, x) \<in> set (enumerate 0 xs). P x) \<longleftrightarrow> (\<forall>x \<in> set xs. P x)"
proof -
  have "set (enumerate 0 xs) = {(i, xs ! i) | i. i < length xs}"
    by (auto simp: enumerate_mem)
  then show ?thesis by (auto simp: all_set_conv_all_nth)
qed

lemma the_cases_Some: "x \<noteq> None \<Longrightarrow> (\<And>y. x = Some y \<Longrightarrow> P) \<Longrightarrow> P"
  by blast

end
