(* ===== verification/Chunk_Map.thy ===== *)
theory Chunk_Map
  imports Prelude
begin

text \<open>
  Chunks and the base-indexed chunk map of \<open>src/mem/allocator.rs\<close>.

  A \<open>Chunk\<close> is a non-empty byte range; \<open>Chunk::new\<close> asserts that page-sized chunks are
  page-aligned.  \<open>ChunkMap\<close> wraps a \<open>BTreeMap<VAddr, NonZeroU32>\<close>, modelled as the key-sorted
  association list that its iterators enumerate.  The locale \<open>chunk_store\<close> is the interface the
  allocator uses for both of its collections.
\<close>

section \<open>Constants of the memory layout\<close>

definition MIN_CHUNK_SIZE :: nat where
  "MIN_CHUNK_SIZE = 16"

definition PAGE_SIZE :: nat where
  "PAGE_SIZE = 4096"

text \<open>\<open>addr & PAGE_SIZE_ALIGN_MASK == 0\<close>, the mask being \<open>0xfff\<close>.\<close>

definition page_aligned :: "nat \<Rightarrow> bool" where
  "page_aligned addr = (addr mod 4096 = 0)"

section \<open>Chunks\<close>

record chunk =
  cbase :: nat
  csize :: nat

definition chunk_new :: "nat \<Rightarrow> nat \<Rightarrow> chunk option" where
  "chunk_new b s =
     (if PAGE_SIZE \<le> s \<and> \<not> page_aligned b then None
      else if s = 0 then None
      else Some \<lparr> cbase = b, csize = s \<rparr>)"

definition last_byte :: "chunk \<Rightarrow> nat" where
  "last_byte c = wadd32 (cbase c) (csize c - 1)"

definition contains :: "chunk \<Rightarrow> nat \<Rightarrow> bool" where
  "contains c addr = (cbase c \<le> addr \<and> addr \<le> last_byte c)"

definition chunk_new_nonempty :: "nat \<Rightarrow> nat \<Rightarrow> chunk option option" where
  "chunk_new_nonempty b s =
     (if s = 0 then Some None else map_option Some (chunk_new b s))"

definition trisect_by :: "chunk \<Rightarrow> chunk \<Rightarrow> (chunk option \<times> chunk option) option option" where
  "trisect_by self middle =
     (if \<not> contains self (cbase middle) \<or> \<not> contains self (last_byte middle) then Some None
      else do {
        left \<leftarrow> chunk_new_nonempty (cbase self) (wsub32 (cbase middle) (cbase self));
        right \<leftarrow> chunk_new_nonempty (wadd32 (last_byte middle) 1)
                   (wsub32 (last_byte self) (last_byte middle));
        Some (Some (left, right)) })"

text \<open>
  A chunk that every operation keeps: non-empty, inside the address space, page-aligned when it
  is at least a page long.
\<close>

definition span_ok :: "nat \<Rightarrow> nat \<Rightarrow> bool" where
  "span_ok b s = (0 < s \<and> b + s \<le> 4294967296 \<and> s < 4294967296 \<and> (PAGE_SIZE \<le> s \<longrightarrow> page_aligned b))"

definition chunk_ok :: "chunk \<Rightarrow> bool" where
  "chunk_ok c = span_ok (cbase c) (csize c)"

declare MIN_CHUNK_SIZE_def [chunk_defs] PAGE_SIZE_def [chunk_defs] page_aligned_def [chunk_defs]

lemma chunk_new_ok:
  "span_ok b s \<Longrightarrow> chunk_new b s = Some \<lparr> cbase = b, csize = s \<rparr>"
  by (auto simp: chunk_new_def span_ok_def)

lemma chunk_new_SomeD: "chunk_new b s = Some c \<Longrightarrow> cbase c = b \<and> csize c = s"
  by (auto simp: chunk_new_def split: if_splits)

lemma chunk_eqI: "cbase c = cbase d \<Longrightarrow> csize c = csize d \<Longrightarrow> c = (d :: chunk)"
  by simp

lemma last_byte_ok [wrap_simps]:
  "chunk_ok c \<Longrightarrow> last_byte c = cbase c + csize c - 1"
  by (auto simp: last_byte_def chunk_ok_def span_ok_def wadd32_def)

lemma last_byte_end [wrap_simps]:
  "chunk_ok c \<Longrightarrow> cbase c + csize c < 4294967296 \<Longrightarrow> wadd32 (last_byte c) 1 = cbase c + csize c"
  by (simp add: last_byte_ok wadd32_exact chunk_ok_def span_ok_def)

section \<open>\<open>BTreeMap\<close>: a key-sorted association list\<close>

fun bt_insert :: "nat \<Rightarrow> 'v \<Rightarrow> (nat \<times> 'v) list \<Rightarrow> (nat \<times> 'v) list" where
  "bt_insert k v [] = [(k, v)]"
| "bt_insert k v ((k', v') # m) =
     (if k < k' then (k, v) # (k', v') # m
      else if k = k' then (k, v) # m
      else (k', v') # bt_insert k v m)"

fun bt_remove :: "nat \<Rightarrow> (nat \<times> 'v) list \<Rightarrow> (nat \<times> 'v) list" where
  "bt_remove k [] = []"
| "bt_remove k ((k', v') # m) = (if k = k' then m else (k', v') # bt_remove k m)"

text \<open>\<open>range(..end).next_back()\<close>: the last entry whose key is below the bound.\<close>

fun bt_last_below :: "nat \<Rightarrow> (nat \<times> 'v) list \<Rightarrow> (nat \<times> 'v) option" where
  "bt_last_below e [] = None"
| "bt_last_below e ((k, v) # m) =
     (if k < e then (case bt_last_below e m of None \<Rightarrow> Some (k, v) | Some r \<Rightarrow> Some r) else None)"

abbreviation bt_sorted :: "(nat \<times> 'v) list \<Rightarrow> bool" where
  "bt_sorted m \<equiv> sorted_wrt (<) (map fst m)"

lemma bt_insert_keys: "fst ` set (bt_insert k v m) = insert k (fst ` set m)"
  by (induction k v m rule: bt_insert.induct) auto

lemma bt_insert_sorted: "bt_sorted m \<Longrightarrow> bt_sorted (bt_insert k v m)"
proof (induction k v m rule: bt_insert.induct)
  case (2 k v k' v' m)
  have "fst ` set (bt_insert k v m) = insert k (fst ` set m)" by (rule bt_insert_keys)
  then have "(\<forall>x\<in>fst ` set m. k' < x) \<Longrightarrow> k' < k \<Longrightarrow> \<forall>x\<in>fst ` set (bt_insert k v m). k' < x"
    by simp
  with 2 show ?case by (fastforce simp: image_iff)
qed simp

lemma bt_sorted_not_in: "bt_sorted ((k', v') # m) \<Longrightarrow> k \<le> k' \<Longrightarrow> map_of m k = None"
proof -
  assume s: "bt_sorted ((k', v') # m)" and le: "k \<le> k'"
  have "k \<notin> fst ` set m"
  proof
    assume "k \<in> fst ` set m"
    with s have "k' < k" by auto
    with le show False by simp
  qed
  then show "map_of m k = None" by (simp add: map_of_eq_None_iff)
qed

lemma bt_insert_map_of: "bt_sorted m \<Longrightarrow> map_of (bt_insert k v m) = (map_of m)(k \<mapsto> v)"
  by (induction k v m rule: bt_insert.induct) (auto simp: fun_eq_iff)

lemma bt_remove_keys: "fst ` set (bt_remove k m) \<subseteq> fst ` set m"
  by (induction k m rule: bt_remove.induct) auto

lemma bt_remove_sorted: "bt_sorted m \<Longrightarrow> bt_sorted (bt_remove k m)"
proof (induction k m rule: bt_remove.induct)
  case (2 k k' v' m)
  then show ?case using bt_remove_keys [of k m] by (fastforce simp: subset_iff)
qed simp

lemma bt_remove_map_of: "bt_sorted m \<Longrightarrow> map_of (bt_remove k m) = (map_of m)(k := None)"
proof (induction k m rule: bt_remove.induct)
  case (2 k k' v' m)
  have "map_of m k' = None" using 2(2) by (rule bt_sorted_not_in) simp
  with 2 show ?case by (auto simp: fun_eq_iff)
qed simp

lemma bt_remove_absent: "map_of m k = None \<Longrightarrow> bt_remove k m = m"
  by (induction m) (auto split: if_splits)

lemma bt_sorted_distinct: "bt_sorted m \<Longrightarrow> distinct (map fst m)"
  by (simp add: strict_sorted_iff)

lemma bt_mem_map_of: "bt_sorted m \<Longrightarrow> (k, v) \<in> set m \<longleftrightarrow> map_of m k = Some v"
  by (simp add: bt_sorted_distinct map_of_eq_Some_iff)

lemma bt_last_below_None: "bt_sorted m \<Longrightarrow> bt_last_below e m = None \<longleftrightarrow> (\<forall>k \<in> dom (map_of m). e \<le> k)"
proof (induction e m rule: bt_last_below.induct)
  case (2 e k v m)
  have "\<forall>x \<in> dom (map_of m). k < x"
    using 2(2) by (auto simp: dom_map_of_conv_image_fst)
  then have "\<not> k < e \<Longrightarrow> \<forall>x \<in> dom (map_of m). e \<le> x"
    by (meson le_trans less_imp_le linorder_not_le)
  with 2 show ?case by (auto split: option.splits simp: dom_def)
qed simp

lemma bt_last_below_Some:
  "bt_sorted m \<Longrightarrow> bt_last_below e m = Some (k, v) \<Longrightarrow>
     k < e \<and> map_of m k = Some v \<and> (\<forall>k' \<in> dom (map_of m). k' < e \<longrightarrow> k' \<le> k)"
proof (induction e m rule: bt_last_below.induct)
  case (2 e k0 v0 m)
  note s = \<open>bt_sorted ((k0, v0) # m)\<close>
  from s have s': "bt_sorted m" by simp
  from 2(3) have lt: "k0 < e" by (auto split: if_splits)
  show ?case
  proof (cases "bt_last_below e m")
    case None
    with 2(3) lt have "k = k0" "v = v0" by auto
    moreover have "\<forall>k' \<in> dom (map_of m). e \<le> k'" using None bt_last_below_None [OF s'] by blast
    ultimately show ?thesis using lt by (auto simp: dom_def split: if_splits)
  next
    case (Some r)
    with 2(3) lt have r: "bt_last_below e m = Some (k, v)" by auto
    have IH: "k < e \<and> map_of m k = Some v \<and> (\<forall>k' \<in> dom (map_of m). k' < e \<longrightarrow> k' \<le> k)"
      using 2(1) [OF lt s' r] .
    have "(k, v) \<in> set m" using IH s' by (simp add: bt_mem_map_of)
    with s have "k0 < k" by force
    with IH show ?thesis by (auto simp: dom_def)
  qed
qed simp

section \<open>\<open>ChunkMap\<close>\<close>

type_synonym chunk_map = "(nat \<times> nat) list"

definition cm_insert :: "chunk \<Rightarrow> chunk_map \<Rightarrow> chunk_map option" where
  "cm_insert c m =
     (if map_of m (cbase c) = None then Some (bt_insert (cbase c) (csize c) m) else None)"

definition cm_remove_with_base :: "nat \<Rightarrow> chunk_map \<Rightarrow> (chunk option \<times> chunk_map) option" where
  "cm_remove_with_base b m =
     Some (map_option (\<lambda>s. \<lparr> cbase = b, csize = s \<rparr>) (map_of m b), bt_remove b m)"

definition cm_remove_with_end :: "nat \<Rightarrow> chunk_map \<Rightarrow> (chunk option \<times> chunk_map) option" where
  "cm_remove_with_end e m =
     (case bt_last_below e m of
        None \<Rightarrow> Some (None, m)
      | Some (b, s) \<Rightarrow>
          (if wadd32 (last_byte \<lparr> cbase = b, csize = s \<rparr>) 1 \<noteq> e then Some (None, m)
           else do {
             (r, m') \<leftarrow> cm_remove_with_base b m;
             c \<leftarrow> r;
             Some (Some c, m') }))"

definition cm_get_size_with_base :: "nat \<Rightarrow> chunk_map \<Rightarrow> nat option" where
  "cm_get_size_with_base b m = map_of m b"

definition cm_iter :: "chunk_map \<Rightarrow> chunk list" where
  "cm_iter m = map (\<lambda>(b, s). \<lparr> cbase = b, csize = s \<rparr>) m"

section \<open>The interface of a collection of chunks\<close>

text \<open>
  Both collections of the allocator are seen through the same view: a partial map from the base
  of a chunk to its size.  \<open>ok\<close> is what an implementation keeps of itself, \<open>fits\<close> the sizes it
  accepts.
\<close>

locale chunk_store =
  fixes insert :: "chunk \<Rightarrow> 's \<Rightarrow> 's option"
    and remove_base :: "nat \<Rightarrow> 's \<Rightarrow> (chunk option \<times> 's) option"
    and remove_end :: "nat \<Rightarrow> 's \<Rightarrow> (chunk option \<times> 's) option"
    and view :: "'s \<Rightarrow> nat \<Rightarrow> nat option"
    and ok :: "'s \<Rightarrow> bool"
    and fits :: "nat \<Rightarrow> bool"
  assumes view_span: "ok m \<Longrightarrow> view m b = Some s \<Longrightarrow> span_ok b s \<and> fits s"
    and insert_law:
      "ok m \<Longrightarrow> chunk_ok c \<Longrightarrow> fits (csize c) \<Longrightarrow> view m (cbase c) = None \<Longrightarrow>
       \<exists>m'. insert c m = Some m' \<and> ok m' \<and> view m' = (view m)(cbase c \<mapsto> csize c)"
    and remove_base_law:
      "ok m \<Longrightarrow>
       \<exists>m'. remove_base b m = Some (map_option (\<lambda>s. \<lparr> cbase = b, csize = s \<rparr>) (view m b), m')
          \<and> ok m' \<and> view m' = (view m)(b := None)"
    and remove_end_hit:
      "ok m \<Longrightarrow> view m b = Some s \<Longrightarrow> b + s = e \<Longrightarrow> e < 4294967296 \<Longrightarrow>
       (\<forall>b' s'. view m b' = Some s' \<and> b' \<noteq> b \<longrightarrow> b' + s' \<le> b \<or> b + s \<le> b') \<Longrightarrow>
       \<exists>m'. remove_end e m = Some (Some \<lparr> cbase = b, csize = s \<rparr>, m')
          \<and> ok m' \<and> view m' = (view m)(b := None)"
    and remove_end_cases:
      "ok m \<Longrightarrow>
       (remove_end e m = Some (None, m)) \<or>
       (\<exists>b s m'. view m b = Some s \<and> wadd32 (b + s - 1) 1 = e \<and> b < e
          \<and> remove_end e m = Some (Some \<lparr> cbase = b, csize = s \<rparr>, m')
          \<and> ok m' \<and> view m' = (view m)(b := None))"
begin

lemma view_pos: "ok m \<Longrightarrow> view m b = Some s \<Longrightarrow> 0 < s"
  using view_span by (auto simp: span_ok_def)

lemma remove_base_NoneD:
  assumes "ok m" "remove_base b m = Some (None, m')"
  shows "view m b = None \<and> view m' = view m \<and> ok m'"
  using remove_base_law [OF assms(1), of b] assms(2) by (auto simp: fun_upd_idem)

lemma remove_base_SomeD:
  assumes "ok m" "remove_base b m = Some (Some c, m')"
  shows "cbase c = b \<and> view m b = Some (csize c) \<and> chunk_ok c \<and> fits (csize c)
      \<and> view m' = (view m)(b := None) \<and> ok m'"
proof -
  from remove_base_law [OF assms(1), of b] assms(2) obtain s where s: "view m b = Some s"
    and c: "c = \<lparr> cbase = b, csize = s \<rparr>" and m': "ok m'" "view m' = (view m)(b := None)"
    by (auto simp: map_option_case split: option.splits)
  have "span_ok b s \<and> fits s" using assms(1) s by (rule view_span)
  with s c m' show ?thesis by (simp add: chunk_ok_def)
qed

text \<open>Inserting a chunk and removing it by its base gives the chunk back.\<close>

lemma insert_remove:
  assumes "ok m" "chunk_ok c" "fits (csize c)" "view m (cbase c) = None"
  shows "\<exists>m1 m2. insert c m = Some m1 \<and> remove_base (cbase c) m1 = Some (Some c, m2)
      \<and> view m2 = view m \<and> ok m2"
proof -
  from insert_law [OF assms] obtain m1 where m1: "insert c m = Some m1" "ok m1"
    "view m1 = (view m)(cbase c \<mapsto> csize c)" by blast
  from remove_base_law [OF m1(2), of "cbase c"] m1(3) obtain m2 where
    "remove_base (cbase c) m1 = Some (Some \<lparr> cbase = cbase c, csize = csize c \<rparr>, m2)"
    "ok m2" "view m2 = (view m1)(cbase c := None)" by auto
  moreover have "(view m1)(cbase c := None) = view m"
    using m1(3) assms(4) by (auto simp: fun_eq_iff)
  ultimately show ?thesis using m1(1) by (intro exI [of _ m1] exI [of _ m2]) auto
qed

end

text \<open>No two chunks of a view overlap.\<close>

definition disjoint_view :: "(nat \<Rightarrow> nat option) \<Rightarrow> bool" where
  "disjoint_view v = (\<forall>b s b' s'. v b = Some s \<and> v b' = Some s' \<and> b \<noteq> b' \<longrightarrow>
     b + s \<le> b' \<or> b' + s' \<le> b)"

text \<open>No chunk of a view meets the range from \<open>b\<close> of length \<open>s\<close>.\<close>

definition avoids :: "(nat \<Rightarrow> nat option) \<Rightarrow> nat \<Rightarrow> nat \<Rightarrow> bool" where
  "avoids v b s = (\<forall>b' s'. v b' = Some s' \<longrightarrow> b' + s' \<le> b \<or> b + s \<le> b')"

lemma disjoint_view_avoids:
  "disjoint_view v \<Longrightarrow> v b = Some s \<Longrightarrow> avoids (v(b := None)) b s"
  unfolding disjoint_view_def avoids_def by (metis fun_upd_apply option.distinct(1))

lemma avoids_sub: "avoids v b s \<Longrightarrow> b \<le> b' \<Longrightarrow> b' + s' \<le> b + s \<Longrightarrow> avoids v b' s'"
  unfolding avoids_def by fastforce

lemma avoids_upd: "avoids v b s \<Longrightarrow> b' + s' \<le> b \<or> b + s \<le> b' \<Longrightarrow> avoids (v(b' \<mapsto> s')) b s"
  unfolding avoids_def by auto

lemma avoids_del: "avoids v b s \<Longrightarrow> avoids (v(b' := None)) b s"
  unfolding avoids_def by auto

lemma avoids_None:
  assumes "avoids v b s" "b \<le> x" "x < b + s" "\<And>n. v x = Some n \<Longrightarrow> 0 < n"
  shows "v x = None"
proof (rule ccontr)
  assume "v x \<noteq> None"
  then obtain n where n: "v x = Some n" by auto
  with assms(1) have "x + n \<le> b \<or> b + s \<le> x" unfolding avoids_def by blast
  with assms(2,3) assms(4) [OF n] show False by simp
qed

lemma disjoint_view_insert:
  "disjoint_view v \<Longrightarrow> avoids v b s \<Longrightarrow> disjoint_view (v(b \<mapsto> s))"
  unfolding disjoint_view_def avoids_def by (auto split: if_splits)

lemma disjoint_view_del: "disjoint_view v \<Longrightarrow> disjoint_view (v(b := None))"
  unfolding disjoint_view_def by auto

section \<open>\<open>ChunkMap\<close> implements the interface\<close>

definition cm_ok :: "chunk_map \<Rightarrow> bool" where
  "cm_ok m = (bt_sorted m \<and> (\<forall>(b, s) \<in> set m. span_ok b s))"

lemma cm_ok_span: "cm_ok m \<Longrightarrow> map_of m b = Some s \<Longrightarrow> span_ok b s"
  unfolding cm_ok_def using map_of_SomeD by fastforce

lemma bt_insert_set: "set (bt_insert k v m) \<subseteq> insert (k, v) (set m)"
  by (induction k v m rule: bt_insert.induct) auto

lemma bt_remove_set: "set (bt_remove k m) \<subseteq> set m"
  by (induction k m rule: bt_remove.induct) auto

lemma cm_ok_insert: "cm_ok m \<Longrightarrow> span_ok b s \<Longrightarrow> cm_ok (bt_insert b s m)"
  using bt_insert_set [of b s m] unfolding cm_ok_def by (auto simp: bt_insert_sorted)

lemma cm_ok_remove: "cm_ok m \<Longrightarrow> cm_ok (bt_remove b m)"
  using bt_remove_set [of b m] unfolding cm_ok_def by (auto simp: bt_remove_sorted)

lemma cm_sorted: "cm_ok m \<Longrightarrow> bt_sorted m"
  by (simp add: cm_ok_def)

lemma cm_remove_base_eq:
  "cm_ok m \<Longrightarrow> map_of (bt_remove b m) = (map_of m)(b := None)"
  by (simp add: bt_remove_map_of cm_sorted)

lemma cm_remove_end_found:
  assumes ok: "cm_ok m" and below: "bt_last_below e m = Some (b, s)"
    and e: "wadd32 (b + s - 1) 1 = e"
  shows "cm_remove_with_end e m = Some (Some \<lparr> cbase = b, csize = s \<rparr>, bt_remove b m)"
proof -
  have get: "map_of m b = Some s"
    using bt_last_below_Some [OF cm_sorted [OF ok] below] by simp
  have "chunk_ok \<lparr> cbase = b, csize = s \<rparr>"
    using cm_ok_span [OF ok get] by (simp add: chunk_ok_def)
  then have "last_byte \<lparr> cbase = b, csize = s \<rparr> = b + s - 1"
    by (simp add: last_byte_ok)
  with below e get show ?thesis
    by (simp add: cm_remove_with_end_def cm_remove_with_base_def)
qed

interpretation cm: chunk_store cm_insert cm_remove_with_base cm_remove_with_end map_of cm_ok "\<lambda>_. True"
proof
  fix m b s assume "cm_ok m" "map_of m b = Some s"
  then show "span_ok b s \<and> True" by (simp add: cm_ok_span)
next
  fix m c assume *: "cm_ok m" "chunk_ok c" "map_of m (cbase c) = None"
  then show "\<exists>m'. cm_insert c m = Some m' \<and> cm_ok m' \<and> map_of m' = (map_of m)(cbase c \<mapsto> csize c)"
    by (simp add: cm_insert_def cm_ok_insert chunk_ok_def bt_insert_map_of cm_sorted)
next
  fix m b assume "cm_ok m"
  then show "\<exists>m'. cm_remove_with_base b m =
        Some (map_option (\<lambda>s. \<lparr> cbase = b, csize = s \<rparr>) (map_of m b), m')
      \<and> cm_ok m' \<and> map_of m' = (map_of m)(b := None)"
    by (simp add: cm_remove_with_base_def cm_ok_remove cm_remove_base_eq)
next
  fix m b s and e :: nat
  assume ok: "cm_ok m" and get: "map_of m b = Some s" and e: "b + s = e" and top: "e < 4294967296"
    and disj: "\<forall>b' s'. map_of m b' = Some s' \<and> b' \<noteq> b \<longrightarrow> b' + s' \<le> b \<or> b + s \<le> b'"
  have pos: "0 < s" using cm_ok_span [OF ok get] by (simp add: span_ok_def)
  have "bt_last_below e m \<noteq> None"
    using bt_last_below_None [OF cm_sorted [OF ok], of e] get e pos by (auto simp: dom_def)
  then obtain b' s' where below: "bt_last_below e m = Some (b', s')" by auto
  note last = bt_last_below_Some [OF cm_sorted [OF ok] below]
  have "b \<le> b'" using last get e pos by (auto simp: dom_def)
  moreover have "0 < s'" using cm_ok_span [OF ok, of b' s'] last by (simp add: span_ok_def)
  moreover have "b' < e" "b' \<noteq> b \<longrightarrow> b' + s' \<le> b \<or> b + s \<le> b'" using disj last by blast+
  ultimately have "b' = b" using e pos by linarith
  with last get have "s' = s" by simp
  have "wadd32 (b + s - 1) 1 = e" using pos e top by (simp add: wadd32_exact)
  then have "cm_remove_with_end e m = Some (Some \<lparr> cbase = b, csize = s \<rparr>, bt_remove b m)"
    using cm_remove_end_found [OF ok] below \<open>b' = b\<close> \<open>s' = s\<close> by simp
  then show "\<exists>m'. cm_remove_with_end e m = Some (Some \<lparr> cbase = b, csize = s \<rparr>, m')
      \<and> cm_ok m' \<and> map_of m' = (map_of m)(b := None)"
    using ok by (simp add: cm_ok_remove cm_remove_base_eq)
next
  fix m and e :: nat assume ok: "cm_ok m"
  show "(cm_remove_with_end e m = Some (None, m)) \<or>
       (\<exists>b s m'. map_of m b = Some s \<and> wadd32 (b + s - 1) 1 = e \<and> b < e
          \<and> cm_remove_with_end e m = Some (Some \<lparr> cbase = b, csize = s \<rparr>, m')
          \<and> cm_ok m' \<and> map_of m' = (map_of m)(b := None))"
  proof (cases "bt_last_below e m")
    case None
    then show ?thesis by (simp add: cm_remove_with_end_def)
  next
    case (Some r)
    obtain b s where r: "r = (b, s)" by fastforce
    note last = bt_last_below_Some [OF cm_sorted [OF ok] Some [unfolded r]]
    have sp: "span_ok b s" using cm_ok_span [OF ok] last by simp
    then have lb: "last_byte \<lparr> cbase = b, csize = s \<rparr> = b + s - 1"
      by (simp add: last_byte_ok chunk_ok_def)
    show ?thesis
    proof (cases "wadd32 (b + s - 1) 1 = e")
      case True
      have "cm_remove_with_end e m = Some (Some \<lparr> cbase = b, csize = s \<rparr>, bt_remove b m)"
        using cm_remove_end_found [OF ok Some [unfolded r] True] .
      moreover have "cm_ok (bt_remove b m)" "map_of (bt_remove b m) = (map_of m)(b := None)"
        using ok by (simp_all add: cm_ok_remove cm_remove_base_eq)
      ultimately show ?thesis using last True by blast
    next
      case False
      then have "cm_remove_with_end e m = Some (None, m)"
        using Some r lb by (simp add: cm_remove_with_end_def)
      then show ?thesis by simp
    qed
  qed
qed

end
