(* ===== verification/Chunk_Buckets.thy ===== *)
theory Chunk_Buckets
  imports Chunk_Map
begin

text \<open>
  \<open>SizeBucketedChunkMap\<close> of \<open>src/mem/allocator.rs\<close>: the free list.  Every free chunk is in the
  base-indexed map and in the bucket of the logarithm of its size; the two views are updated
  together, and the code asserts their agreement.  The theory models the code's operations,
  states the agreement as the invariant \<open>sb_ok\<close>, shows that no assertion fails under it, and
  interprets \<open>chunk_store\<close> on it.
\<close>

section \<open>State and operations\<close>

record sbm =
  sb_chunks :: chunk_map
  sb_buckets :: "chunk list list"

definition bucket_for :: "nat \<Rightarrow> nat" where
  "bucket_for s = wsub32 (ilog2 s) (ilog2 MIN_CHUNK_SIZE)"

definition sb_default :: sbm where
  "sb_default = \<lparr> sb_chunks = [], sb_buckets = replicate (bucket_for 4294967295 + 1) [] \<rparr>"

definition bucket_at :: "nat \<Rightarrow> sbm \<Rightarrow> chunk list option" where
  "bucket_at i s = (if i < length (sb_buckets s) then Some (sb_buckets s ! i) else None)"

definition sb_insert :: "chunk \<Rightarrow> sbm \<Rightarrow> sbm option" where
  "sb_insert c s =
     (if csize c < MIN_CHUNK_SIZE then None
      else do {
        m \<leftarrow> cm_insert c (sb_chunks s);
        bk \<leftarrow> bucket_at (bucket_for (csize c)) s;
        Some (s\<lparr> sb_chunks := m,
                 sb_buckets := (sb_buckets s)[bucket_for (csize c) := bk @ [c]] \<rparr>) })"

definition remove_from_bucket :: "chunk \<Rightarrow> sbm \<Rightarrow> sbm option" where
  "remove_from_bucket c s = do {
     bk \<leftarrow> bucket_at (bucket_for (csize c)) s;
     idx \<leftarrow> rposition (\<lambda>c2. cbase c = cbase c2) bk;
     (x, bk') \<leftarrow> swap_remove bk idx;
     (if c = x then Some (s\<lparr> sb_buckets := (sb_buckets s)[bucket_for (csize c) := bk'] \<rparr>)
      else None) }"

definition sb_remove_with_base :: "nat \<Rightarrow> sbm \<Rightarrow> (chunk option \<times> sbm) option" where
  "sb_remove_with_base b s = do {
     (r, m) \<leftarrow> cm_remove_with_base b (sb_chunks s);
     (case r of
        None \<Rightarrow> Some (None, s\<lparr> sb_chunks := m \<rparr>)
      | Some c \<Rightarrow> do {
          s' \<leftarrow> remove_from_bucket c (s\<lparr> sb_chunks := m \<rparr>);
          Some (Some c, s') }) }"

definition sb_remove_with_end :: "nat \<Rightarrow> sbm \<Rightarrow> (chunk option \<times> sbm) option" where
  "sb_remove_with_end e s = do {
     (r, m) \<leftarrow> cm_remove_with_end e (sb_chunks s);
     (case r of
        None \<Rightarrow> Some (None, s\<lparr> sb_chunks := m \<rparr>)
      | Some c \<Rightarrow> do {
          s' \<leftarrow> remove_from_bucket c (s\<lparr> sb_chunks := m \<rparr>);
          Some (Some c, s') }) }"

text \<open>
  The best-fit search of \<open>allocate_in_bucket\<close>: the bucket is walked from its end, an exact match
  stops the walk.
\<close>

fun best_chunk :: "nat \<Rightarrow> (nat \<times> chunk) list \<Rightarrow> (nat \<times> nat) option \<Rightarrow> (nat \<times> nat) option" where
  "best_chunk n [] best = best"
| "best_chunk n ((idx, c) # rest) best =
     (if n \<le> csize c \<and> (case best of None \<Rightarrow> True | Some (_, bs) \<Rightarrow> csize c < bs)
      then (if csize c = n then Some (idx, csize c) else best_chunk n rest (Some (idx, csize c)))
      else best_chunk n rest best)"

text \<open>What is left of an existing chunk once its front has been handed out.\<close>

definition split_existing :: "chunk \<Rightarrow> nat \<Rightarrow> sbm \<Rightarrow> (chunk \<times> sbm) option" where
  "split_existing existing n s = do {
     alloc \<leftarrow> chunk_new (cbase existing) n;
     let rump_base = wadd32 (cbase existing) n;
     let rump_size = wsub32 (csize existing) n;
     (if PAGE_SIZE \<le> rump_size \<and> \<not> page_aligned rump_base then
        (if \<not> page_aligned (cbase existing) then None
         else do {
           let left_size = wsub32 PAGE_SIZE n;
           left \<leftarrow> chunk_new (wadd32 (cbase existing) n) left_size;
           right \<leftarrow> chunk_new (wadd32 (cbase existing) PAGE_SIZE) (wsub32 (csize existing) PAGE_SIZE);
           (if wadd32 (last_byte left) 1 \<noteq> cbase right then None
            else if wadd32 (csize left) (csize right) \<noteq> rump_size then None
            else if MIN_CHUNK_SIZE \<le> left_size then do {
              s1 \<leftarrow> sb_insert left s;
              s2 \<leftarrow> sb_insert right s1;
              Some (alloc, s2) }
            else do {
              whole \<leftarrow> chunk_new (cbase existing) (csize existing);
              Some (whole, s) }) })
      else if MIN_CHUNK_SIZE \<le> rump_size then do {
        rump \<leftarrow> chunk_new rump_base rump_size;
        s1 \<leftarrow> sb_insert rump s;
        Some (alloc, s1) }
      else do {
        whole \<leftarrow> chunk_new (cbase existing) (csize existing);
        Some (whole, s) }) }"

definition allocate_in_bucket :: "nat \<Rightarrow> nat \<Rightarrow> sbm \<Rightarrow> (chunk option \<times> sbm) option" where
  "allocate_in_bucket n bucket s = do {
     bk \<leftarrow> bucket_at bucket s;
     (case best_chunk n (rev (enumerate 0 bk)) None of
        None \<Rightarrow> Some (None, s)
      | Some (idx, _) \<Rightarrow> do {
          (existing, bk') \<leftarrow> swap_remove bk idx;
          (existing2, m) \<leftarrow> cm_remove_with_base (cbase existing) (sb_chunks s);
          (if Some existing \<noteq> existing2 then None
           else do {
             let s1 = s\<lparr> sb_chunks := m, sb_buckets := (sb_buckets s)[bucket := bk'] \<rparr>;
             (if csize existing = n then Some (Some existing, s1)
              else do {
                (c, s2) \<leftarrow> split_existing existing n s1;
                Some (Some c, s2) }) }) }) }"

text \<open>\<open>iter().position(|bucket| !bucket.is_empty())\<close> on the buckets from an index on.\<close>

fun position :: "('a \<Rightarrow> bool) \<Rightarrow> 'a list \<Rightarrow> nat option" where
  "position p [] = None"
| "position p (x # xs) = (if p x then Some 0 else map_option Suc (position p xs))"

definition sb_allocate :: "nat \<Rightarrow> sbm \<Rightarrow> (chunk option \<times> sbm) option" where
  "sb_allocate n s =
     (if n < MIN_CHUNK_SIZE then None
      else do {
        let bucket = bucket_for n;
        (r, s1) \<leftarrow> allocate_in_bucket n bucket s;
        (case r of
           Some c \<Rightarrow> Some (Some c, s1)
         | None \<Rightarrow>
             (if length (sb_buckets s1) < bucket + 1 then None
              else (case position (\<lambda>bk. bk \<noteq> []) (drop (bucket + 1) (sb_buckets s1)) of
                      None \<Rightarrow> Some (None, s1)
                    | Some k \<Rightarrow> allocate_in_bucket n (k + bucket + 1) s1))) })"

definition sb_iter :: "sbm \<Rightarrow> chunk list" where
  "sb_iter s = concat (sb_buckets s)"

section \<open>Buckets\<close>

lemma ilog2_16: "ilog2 16 = 4"
  by (simp add: ilog2.simps)

lemma bucket_for_eq: "16 \<le> s \<Longrightarrow> s < 4294967296 \<Longrightarrow> bucket_for s = ilog2 s - 4 \<and> 4 \<le> ilog2 s"
proof -
  assume s: "16 \<le> s" "s < 4294967296"
  have "4 \<le> ilog2 s" using ilog2_mono [of 16 s] s by (simp add: ilog2_16)
  moreover have "ilog2 s \<le> 31" using ilog2_bound [of s 31] s by simp
  ultimately show ?thesis by (simp add: bucket_for_def MIN_CHUNK_SIZE_def ilog2_16 wsub32_exact)
qed

lemma bucket_for_bound: "16 \<le> s \<Longrightarrow> s < 4294967296 \<Longrightarrow> bucket_for s < 28"
  using bucket_for_eq [of s] ilog2_bound [of s 31] by auto

lemma bucket_count: "bucket_for 4294967295 + 1 = 28"
proof -
  have "ilog2 4294967295 = 31" by (rule ilog2_eqI) simp_all
  then show ?thesis using bucket_for_eq [of 4294967295] by simp
qed

section \<open>The invariant of the free list\<close>

definition sb_ok :: "sbm \<Rightarrow> bool" where
  "sb_ok s = (cm_ok (sb_chunks s) \<and> length (sb_buckets s) = 28
     \<and> (\<forall>i < 28. distinct (map cbase (sb_buckets s ! i)))
     \<and> (\<forall>i < 28. \<forall>c \<in> set (sb_buckets s ! i).
          bucket_for (csize c) = i \<and> map_of (sb_chunks s) (cbase c) = Some (csize c))
     \<and> (\<forall>b n. map_of (sb_chunks s) b = Some n \<longrightarrow>
          16 \<le> n \<and> \<lparr> cbase = b, csize = n \<rparr> \<in> set (sb_buckets s ! bucket_for n)))"

definition sb_view :: "sbm \<Rightarrow> nat \<Rightarrow> nat option" where
  "sb_view s = map_of (sb_chunks s)"

definition sb_fits :: "nat \<Rightarrow> bool" where
  "sb_fits n = (16 \<le> n)"

lemma sb_ok_default: "sb_ok sb_default"
  unfolding sb_ok_def sb_default_def bucket_count by (simp add: cm_ok_def)

lemma sb_ok_size: "sb_ok s \<Longrightarrow> map_of (sb_chunks s) b = Some n \<Longrightarrow> 16 \<le> n \<and> span_ok b n \<and> bucket_for n < 28"
  using cm_ok_span [of "sb_chunks s" b n] bucket_for_bound [of n] unfolding sb_ok_def span_ok_def by blast

lemma sb_ok_bucketD:
  "sb_ok s \<Longrightarrow> i < 28 \<Longrightarrow> c \<in> set (sb_buckets s ! i) \<Longrightarrow>
     bucket_for (csize c) = i \<and> map_of (sb_chunks s) (cbase c) = Some (csize c)
     \<and> 16 \<le> csize c \<and> chunk_ok c"
  using sb_ok_size [of s "cbase c" "csize c"] unfolding sb_ok_def chunk_ok_def by blast

lemma sb_ok_add:
  assumes ok: "sb_ok s" and c: "chunk_ok c" "16 \<le> csize c" and new: "map_of (sb_chunks s) (cbase c) = None"
    and j: "j = bucket_for (csize c)"
  shows "sb_ok (s\<lparr> sb_chunks := bt_insert (cbase c) (csize c) (sb_chunks s),
                  sb_buckets := (sb_buckets s)[j := (sb_buckets s ! j) @ [c]] \<rparr>)"
proof -
  have j28: "j < 28" using c j by (simp add: bucket_for_bound chunk_ok_def span_ok_def)
  have len: "length (sb_buckets s) = 28" and cm: "cm_ok (sb_chunks s)" using ok by (simp_all add: sb_ok_def)
  let ?m = "bt_insert (cbase c) (csize c) (sb_chunks s)"
  have m: "map_of ?m = (map_of (sb_chunks s))(cbase c \<mapsto> csize c)"
    using cm by (simp add: bt_insert_map_of cm_sorted)
  have notin: "cbase c \<notin> cbase ` set (sb_buckets s ! i)" if "i < 28" for i
    using sb_ok_bucketD [OF ok that] new by (metis imageE option.distinct(1))
  have d: "distinct (map cbase (sb_buckets s ! i))" if "i < 28" for i
    using ok that by (simp add: sb_ok_def)
  have "cm_ok ?m" using cm c by (simp add: cm_ok_insert chunk_ok_def)
  moreover have "distinct (map cbase ((sb_buckets s)[j := (sb_buckets s ! j) @ [c]] ! i))" if "i < 28" for i
    using d [OF that] notin [OF that] that len by (cases "i = j") auto
  moreover have "bucket_for (csize x) = i \<and> map_of ?m (cbase x) = Some (csize x)"
    if "i < 28" "x \<in> set ((sb_buckets s)[j := (sb_buckets s ! j) @ [c]] ! i)" for i x
  proof (cases "i = j \<and> x = c")
    case True
    then show ?thesis using j m by simp
  next
    case False
    with that len have x: "x \<in> set (sb_buckets s ! i)" by (cases "i = j") auto
    then have "cbase x \<noteq> cbase c" using notin [OF that(1)] by (metis image_eqI)
    then show ?thesis using sb_ok_bucketD [OF ok that(1) x] m by simp
  qed
  moreover have "16 \<le> n \<and> \<lparr> cbase = b, csize = n \<rparr> \<in> set ((sb_buckets s)[j := (sb_buckets s ! j) @ [c]] ! bucket_for n)"
    if "map_of ?m b = Some n" for b n
  proof (cases "b = cbase c")
    case True
    with that m have n: "n = csize c" by simp
    have "\<lparr> cbase = b, csize = n \<rparr> = c" using True n by simp
    then show ?thesis using j28 len c n j by simp
  next
    case False
    with that m have old: "map_of (sb_chunks s) b = Some n" by simp
    then have "16 \<le> n \<and> \<lparr> cbase = b, csize = n \<rparr> \<in> set (sb_buckets s ! bucket_for n)"
      using ok by (simp add: sb_ok_def)
    then show ?thesis using len j28 by (cases "bucket_for n = j") auto
  qed
  ultimately show ?thesis using len unfolding sb_ok_def by simp
qed

lemma sb_ok_del:
  assumes ok: "sb_ok s" and get: "map_of (sb_chunks s) b = Some n" and j: "j = bucket_for n"
    and sr: "swap_remove (sb_buckets s ! j) i = Some (\<lparr> cbase = b, csize = n \<rparr>, bk)"
  shows "sb_ok (s\<lparr> sb_chunks := bt_remove b (sb_chunks s), sb_buckets := (sb_buckets s)[j := bk] \<rparr>)"
proof -
  let ?c = "\<lparr> cbase = b, csize = n \<rparr>"
  let ?m = "bt_remove b (sb_chunks s)"
  have len: "length (sb_buckets s) = 28" and cm: "cm_ok (sb_chunks s)" using ok by (simp_all add: sb_ok_def)
  have j28: "j < 28" using sb_ok_size [OF ok get] j by simp
  have d: "distinct (map cbase (sb_buckets s ! i))" if "i < 28" for i
    using ok that by (simp add: sb_ok_def)
  from swap_remove_set [OF sr d [OF j28]]
  have bk: "set bk = set (sb_buckets s ! j) - {?c}" "distinct (map cbase bk)" "?c \<in> set (sb_buckets s ! j)"
    by auto
  have m: "map_of ?m = (map_of (sb_chunks s))(b := None)" using cm by (rule cm_remove_base_eq)
  have "distinct (map cbase ((sb_buckets s)[j := bk] ! i))" if "i < 28" for i
    using d [OF that] bk that len by (cases "i = j") auto
  moreover have "bucket_for (csize x) = i \<and> map_of ?m (cbase x) = Some (csize x)"
    if i: "i < 28" and x: "x \<in> set ((sb_buckets s)[j := bk] ! i)" for i x
  proof -
    have x': "x \<in> set (sb_buckets s ! i)" and ne: "x \<noteq> ?c"
      using x bk len i sb_ok_bucketD [OF ok i, of ?c] j by (cases "i = j"; force)+
    have "cbase x \<noteq> b" using sb_ok_bucketD [OF ok i x'] get ne by auto
    then show ?thesis using sb_ok_bucketD [OF ok i x'] m by simp
  qed
  moreover have "16 \<le> n' \<and> \<lparr> cbase = b', csize = n' \<rparr> \<in> set ((sb_buckets s)[j := bk] ! bucket_for n')"
    if "map_of ?m b' = Some n'" for b' n'
  proof -
    have b': "b' \<noteq> b" and old: "map_of (sb_chunks s) b' = Some n'"
      using that m by (auto split: if_splits)
    then have "16 \<le> n' \<and> \<lparr> cbase = b', csize = n' \<rparr> \<in> set (sb_buckets s ! bucket_for n')"
      using ok by (simp add: sb_ok_def)
    then show ?thesis using len j28 bk b' by (cases "bucket_for n' = j") auto
  qed
  moreover have "cm_ok ?m" using cm by (rule cm_ok_remove)
  ultimately show ?thesis using len unfolding sb_ok_def by simp
qed

section \<open>No assertion of the free list fails\<close>

lemma sb_insert_spec:
  assumes "sb_ok s" "chunk_ok c" "16 \<le> csize c" "sb_view s (cbase c) = None"
  shows "\<exists>s'. sb_insert c s = Some s' \<and> sb_ok s' \<and> sb_view s' = (sb_view s)(cbase c \<mapsto> csize c)"
proof -
  have "bucket_for (csize c) < length (sb_buckets s)"
    using assms by (simp add: bucket_for_bound chunk_ok_def span_ok_def sb_ok_def)
  moreover have "map_of (sb_chunks s) (cbase c) = None" using assms by (simp add: sb_view_def)
  moreover have "cm_ok (sb_chunks s)" using assms by (simp add: sb_ok_def)
  ultimately show ?thesis
    using assms sb_ok_add [OF assms(1-3) _ refl]
    by (simp add: sb_insert_def MIN_CHUNK_SIZE_def cm_insert_def bucket_at_def sb_view_def
        bt_insert_map_of cm_sorted)
qed

lemma remove_from_bucket_spec:
  assumes ok: "sb_ok s" and get: "map_of (sb_chunks s) b = Some n"
  shows "\<exists>bk. remove_from_bucket \<lparr> cbase = b, csize = n \<rparr> (s\<lparr> sb_chunks := bt_remove b (sb_chunks s) \<rparr>)
           = Some (s\<lparr> sb_chunks := bt_remove b (sb_chunks s),
                       sb_buckets := (sb_buckets s)[bucket_for n := bk] \<rparr>)
      \<and> sb_ok (s\<lparr> sb_chunks := bt_remove b (sb_chunks s),
                  sb_buckets := (sb_buckets s)[bucket_for n := bk] \<rparr>)"
proof -
  let ?c = "\<lparr> cbase = b, csize = n \<rparr>" and ?j = "bucket_for n"
  let ?bk = "sb_buckets s ! ?j"
  have j28: "?j < 28" using sb_ok_size [OF ok get] by simp
  have len: "length (sb_buckets s) = 28" using ok by (simp add: sb_ok_def)
  have mem: "?c \<in> set ?bk" using ok get by (simp add: sb_ok_def)
  then have "\<exists>x \<in> set ?bk. b = cbase x" by (metis chunk.select_convs(1))
  then have "rposition (\<lambda>c2. b = cbase c2) ?bk \<noteq> None" by (simp add: rposition_None)
  then obtain i where i: "rposition (\<lambda>c2. b = cbase c2) ?bk = Some i" by auto
  then have il: "i < length ?bk" and ib: "b = cbase (?bk ! i)" by (auto dest: rposition_Some)
  have "?bk ! i \<in> set ?bk" using il by simp
  then have "map_of (sb_chunks s) b = Some (csize (?bk ! i))"
    using sb_ok_bucketD [OF ok j28] ib by simp
  with get ib have ci: "?bk ! i = ?c" by simp
  then obtain bk where sr: "swap_remove ?bk i = Some (?c, bk)"
    using il by (simp add: swap_remove_def)
  have "remove_from_bucket ?c (s\<lparr> sb_chunks := bt_remove b (sb_chunks s) \<rparr>)
      = Some (s\<lparr> sb_chunks := bt_remove b (sb_chunks s), sb_buckets := (sb_buckets s)[?j := bk] \<rparr>)"
    using j28 len i sr by (simp add: remove_from_bucket_def bucket_at_def)
  with sb_ok_del [OF ok get refl sr] show ?thesis by blast
qed

lemma sb_remove_with_base_spec:
  assumes ok: "sb_ok s"
  shows "\<exists>s'. sb_remove_with_base b s = Some (map_option (\<lambda>n. \<lparr> cbase = b, csize = n \<rparr>) (sb_view s b), s')
      \<and> sb_ok s' \<and> sb_view s' = (sb_view s)(b := None)"
proof (cases "map_of (sb_chunks s) b")
  case None
  have "cm_ok (sb_chunks s)" using ok by (simp add: sb_ok_def)
  have rm: "bt_remove b (sb_chunks s) = sb_chunks s"
    using None by (rule bt_remove_absent)
  then show ?thesis using None ok
    by (auto simp: sb_remove_with_base_def cm_remove_with_base_def sb_view_def fun_upd_idem)
next
  case (Some n)
  have cm: "cm_ok (sb_chunks s)" using ok by (simp add: sb_ok_def)
  from remove_from_bucket_spec [OF ok Some] Some cm show ?thesis
    by (auto simp: sb_remove_with_base_def cm_remove_with_base_def sb_view_def cm_remove_base_eq)
qed

interpretation sb: chunk_store sb_insert sb_remove_with_base sb_remove_with_end sb_view sb_ok sb_fits
proof
  fix s b n assume "sb_ok s" "sb_view s b = Some n"
  then show "span_ok b n \<and> sb_fits n" using sb_ok_size by (simp add: sb_view_def sb_fits_def)
next
  fix s c assume "sb_ok s" "chunk_ok c" "sb_fits (csize c)" "sb_view s (cbase c) = None"
  then show "\<exists>s'. sb_insert c s = Some s' \<and> sb_ok s' \<and> sb_view s' = (sb_view s)(cbase c \<mapsto> csize c)"
    by (intro sb_insert_spec) (simp_all add: sb_fits_def)
next
  fix s b assume "sb_ok s"
  then show "\<exists>s'. sb_remove_with_base b s = Some (map_option (\<lambda>n. \<lparr> cbase = b, csize = n \<rparr>) (sb_view s b), s')
      \<and> sb_ok s' \<and> sb_view s' = (sb_view s)(b := None)"
    by (rule sb_remove_with_base_spec)
next
  fix s b n and e :: nat
  assume ok: "sb_ok s" and get: "sb_view s b = Some n" and e: "b + n = e" "e < 4294967296"
    and disj: "\<forall>b' s'. sb_view s b' = Some s' \<and> b' \<noteq> b \<longrightarrow> b' + s' \<le> b \<or> b + n \<le> b'"
  have cm: "cm_ok (sb_chunks s)" using ok by (simp add: sb_ok_def)
  from cm.remove_end_hit [OF cm get [unfolded sb_view_def] e disj [unfolded sb_view_def]]
  obtain m' where "cm_remove_with_end e (sb_chunks s) = Some (Some \<lparr> cbase = b, csize = n \<rparr>, m')" by blast
  moreover then have "m' = bt_remove b (sb_chunks s)"
    by (auto simp: cm_remove_with_end_def cm_remove_with_base_def split: option.splits prod.splits if_splits bind_splits)
  ultimately show "\<exists>s'. sb_remove_with_end e s = Some (Some \<lparr> cbase = b, csize = n \<rparr>, s')
      \<and> sb_ok s' \<and> sb_view s' = (sb_view s)(b := None)"
    using remove_from_bucket_spec [OF ok get [unfolded sb_view_def]] cm
    by (auto simp: sb_remove_with_end_def sb_view_def cm_remove_base_eq)
next
  fix s and e :: nat assume ok: "sb_ok s"
  have cm: "cm_ok (sb_chunks s)" using ok by (simp add: sb_ok_def)
  from cm.remove_end_cases [OF cm, of e]
  show "(sb_remove_with_end e s = Some (None, s)) \<or>
       (\<exists>b n s'. sb_view s b = Some n \<and> wadd32 (b + n - 1) 1 = e \<and> b < e
          \<and> sb_remove_with_end e s = Some (Some \<lparr> cbase = b, csize = n \<rparr>, s')
          \<and> sb_ok s' \<and> sb_view s' = (sb_view s)(b := None))"
  proof
    assume "cm_remove_with_end e (sb_chunks s) = Some (None, sb_chunks s)"
    then show ?thesis by (simp add: sb_remove_with_end_def)
  next
    assume "\<exists>b n m'. map_of (sb_chunks s) b = Some n \<and> wadd32 (b + n - 1) 1 = e \<and> b < e
        \<and> cm_remove_with_end e (sb_chunks s) = Some (Some \<lparr> cbase = b, csize = n \<rparr>, m')
        \<and> cm_ok m' \<and> map_of m' = (map_of (sb_chunks s))(b := None)"
    then obtain b n m' where get: "map_of (sb_chunks s) b = Some n" and e: "wadd32 (b + n - 1) 1 = e" "b < e"
      and rm: "cm_remove_with_end e (sb_chunks s) = Some (Some \<lparr> cbase = b, csize = n \<rparr>, m')" by blast
    have "m' = bt_remove b (sb_chunks s)" using rm
      by (auto simp: cm_remove_with_end_def cm_remove_with_base_def split: option.splits prod.splits if_splits bind_splits)
    with remove_from_bucket_spec [OF ok get] rm cm obtain s' where
      "sb_remove_with_end e s = Some (Some \<lparr> cbase = b, csize = n \<rparr>, s')" "sb_ok s'"
      "sb_view s' = (sb_view s)(b := None)"
      by (auto simp: sb_remove_with_end_def sb_view_def cm_remove_base_eq)
    with get e show ?thesis by (auto simp: sb_view_def)
  qed
qed

section \<open>The best-fit search\<close>

lemma best_chunk_Some:
  "best_chunk n xs (Some (i0, z0)) = r \<Longrightarrow> n \<le> z0 \<Longrightarrow>
     \<exists>i z. r = Some (i, z) \<and> n \<le> z \<and> z \<le> z0
       \<and> ((i, z) = (i0, z0) \<or> (\<exists>c. (i, c) \<in> set xs \<and> csize c = z))
       \<and> (\<forall>(j, d) \<in> set xs. n \<le> csize d \<longrightarrow> z \<le> csize d)"
proof (induction xs arbitrary: i0 z0)
  case Nil
  then show ?case by auto
next
  case (Cons x xs)
  obtain j c where x: "x = (j, c)" by fastforce
  show ?case
  proof (cases "n \<le> csize c \<and> csize c < z0")
    case True
    show ?thesis
    proof (cases "csize c = n")
      case True
      with \<open>n \<le> csize c \<and> csize c < z0\<close> Cons.prems x have "r = Some (j, n)" by auto
      with True Cons.prems x \<open>n \<le> csize c \<and> csize c < z0\<close> show ?thesis by fastforce
    next
      case False
      with True Cons.prems x have "best_chunk n xs (Some (j, csize c)) = r" by auto
      from Cons.IH [OF this] True x show ?thesis by fastforce
    qed
  next
    case False
    with Cons.prems x have "best_chunk n xs (Some (i0, z0)) = r" by auto
    from Cons.IH [OF this Cons.prems(2)] False x show ?thesis by fastforce
  qed
qed

lemma best_chunk_None:
  "best_chunk n xs None = None \<longleftrightarrow> (\<forall>(j, d) \<in> set xs. csize d < n)"
proof (induction xs)
  case (Cons x xs)
  obtain j c where x: "x = (j, c)" by fastforce
  show ?case
  proof (cases "n \<le> csize c")
    case True
    have "best_chunk n xs (Some (j, csize c)) \<noteq> None"
      using best_chunk_Some [OF refl True, of xs j] by auto
    with True x show ?thesis by auto
  next
    case False
    with Cons x show ?thesis by auto
  qed
qed simp

lemma best_chunk_best:
  assumes "best_chunk n xs None = Some (i, z)"
  shows "n \<le> z \<and> (\<exists>c. (i, c) \<in> set xs \<and> csize c = z)
      \<and> (\<forall>(j, d) \<in> set xs. n \<le> csize d \<longrightarrow> z \<le> csize d)"
  using assms
proof (induction xs)
  case (Cons x xs)
  obtain j c where x: "x = (j, c)" by fastforce
  show ?case
  proof (cases "n \<le> csize c")
    case fits: True
    show ?thesis
    proof (cases "csize c = n")
      case True
      with Cons.prems x fits have "i = j \<and> z = n" by simp
      with True x show ?thesis by fastforce
    next
      case False
      with fits x Cons.prems have "best_chunk n xs (Some (j, csize c)) = Some (i, z)" by simp
      from best_chunk_Some [OF this fits] x show ?thesis by fastforce
    qed
  next
    case False
    with Cons x show ?thesis by fastforce
  qed
qed simp

lemma position_Some: "position p xs = Some k \<Longrightarrow> k < length xs \<and> p (xs ! k) \<and> (\<forall>j < k. \<not> p (xs ! j))"
proof (induction xs arbitrary: k)
  case (Cons x xs)
  then show ?case by (auto split: if_splits simp: nth_Cons less_Suc_eq_0_disj split: nat.splits)
qed simp

lemma position_None: "position p xs = None \<longleftrightarrow> (\<forall>x \<in> set xs. \<not> p x)"
  by (induction xs) auto

section \<open>Splitting an existing chunk\<close>

text \<open>Sizes asked of the free list: at least the minimum, whole pages from a page on.\<close>

definition request_ok :: "nat \<Rightarrow> bool" where
  "request_ok n = (16 \<le> n \<and> n < 4294967296 \<and> (4096 \<le> n \<longrightarrow> n mod 4096 = 0))"

lemma sb_insert_avoiding:
  assumes "sb_ok s" "span_ok b n" "16 \<le> n" "avoids (sb_view s) b n"
  shows "\<exists>s'. sb_insert \<lparr> cbase = b, csize = n \<rparr> s = Some s' \<and> sb_ok s' \<and> sb_view s' = (sb_view s)(b \<mapsto> n)"
proof -
  have "sb_view s b = None"
    using assms(4) by (rule avoids_None) (use assms sb.view_pos in auto)
  with sb_insert_spec [OF assms(1), of "\<lparr> cbase = b, csize = n \<rparr>"] assms show ?thesis
    by (simp add: chunk_ok_def)
qed

lemma split_existing_spec:
  assumes ok: "sb_ok s" and ex: "span_ok b m" and n: "request_ok n" "n < m"
    and av: "avoids (sb_view s) b m"
  shows "\<exists>c s'. split_existing \<lparr> cbase = b, csize = m \<rparr> n s = Some (c, s') \<and> sb_ok s' \<and> cbase c = b \<and>
     (csize c = m \<and> s' = s \<and> m < n + 16 \<or>
      csize c = m \<and> s' = s \<and> n < 4096 \<and> 4096 < n + 16 \<or>
      csize c = n \<and> sb_view s' = (sb_view s)(b + n \<mapsto> m - n) \<and> n + 16 \<le> m \<or>
      csize c = n \<and> sb_view s' = (sb_view s)(b + n \<mapsto> 4096 - n, b + 4096 \<mapsto> m - 4096)
        \<and> n + 16 \<le> 4096 \<and> 4096 + n \<le> m)"
proof -
  note defs = split_existing_def PAGE_SIZE_def MIN_CHUNK_SIZE_def page_aligned_def span_ok_def request_ok_def
  have top: "b + m \<le> 4294967296" "m < 4294967296" "0 < m" using ex by (auto simp: span_ok_def)
  have al: "4096 \<le> m \<longrightarrow> b mod 4096 = 0" using ex by (auto simp: defs)
  have n16: "16 \<le> n" "4096 \<le> n \<longrightarrow> n mod 4096 = 0" using n by (auto simp: request_ok_def)
  have new1: "chunk_new b n = Some \<lparr> cbase = b, csize = n \<rparr>"
    using n16 al n(2) by (auto simp: chunk_new_def PAGE_SIZE_def page_aligned_def)
  have whole: "chunk_new b m = Some \<lparr> cbase = b, csize = m \<rparr>" using ex by (rule chunk_new_ok)
  have rb: "wadd32 b n = b + n" and rs: "wsub32 m n = m - n"
    using top n(2) by (simp_all add: wadd32_exact wsub32_exact)
  show ?thesis
  proof (cases "4096 \<le> m - n \<and> (b + n) mod 4096 \<noteq> 0")
    case True
    then have nm: "4096 + n \<le> m" "4096 \<le> m" by linarith+
    with al have b0: "b mod 4096 = 0" by simp
    have n4: "n < 4096"
    proof (rule ccontr)
      assume "\<not> n < 4096"
      then have "n mod 4096 = 0" using n16 by simp
      with b0 have "(b + n) mod 4096 = 0" by (rule mod_zero_add)
      with True show False by simp
    qed
    have ls: "wsub32 4096 n = 4096 - n" using n4 by (simp add: wsub32_exact)
    have rsz: "wsub32 m 4096 = m - 4096" using nm top by (simp add: wsub32_exact)
    have rbs: "wadd32 b 4096 = b + 4096" using nm top n16(1) by (simp add: wadd32_exact)
    have nle: "\<not> 4096 \<le> 4096 - n" using n4 n16(1) by linarith
    have left: "chunk_new (b + n) (4096 - n) = Some \<lparr> cbase = b + n, csize = 4096 - n \<rparr>"
      using n4 nle by (simp add: chunk_new_def PAGE_SIZE_def)
    have "(b + 4096) mod 4096 = 0" using b0 by simp
    then have right: "chunk_new (b + 4096) (m - 4096) = Some \<lparr> cbase = b + 4096, csize = m - 4096 \<rparr>"
      using nm n16 by (auto simp: chunk_new_def page_aligned_def)
    have lb: "wadd32 (last_byte \<lparr> cbase = b + n, csize = 4096 - n \<rparr>) 1 = b + 4096"
      using nm top n4 n16 by (simp add: last_byte_def wadd32_exact)
    have ss: "wadd32 (4096 - n) (m - 4096) = m - n"
      using nm top n4 by (simp add: wadd32_exact)
    have sp1: "span_ok (b + n) (4096 - n)" using nm top n4 nle by (simp add: span_ok_def PAGE_SIZE_def)
    have sp2: "span_ok (b + 4096) (m - 4096)" using nm top n16 b0 by (simp add: span_ok_def page_aligned_def)
    show ?thesis
    proof (cases "16 \<le> 4096 - n")
      case l16: True
      have av1: "avoids (sb_view s) (b + n) (4096 - n)"
        using av by (rule avoids_sub) (use nm n4 in auto)
      from sb_insert_avoiding [OF ok sp1 l16 av1] obtain s1 where s1:
        "sb_insert \<lparr> cbase = b + n, csize = 4096 - n \<rparr> s = Some s1" "sb_ok s1"
        "sb_view s1 = (sb_view s)(b + n \<mapsto> 4096 - n)" by blast
      have "avoids (sb_view s) (b + 4096) (m - 4096)"
        using av by (rule avoids_sub) (use nm in auto)
      then have av2: "avoids (sb_view s1) (b + 4096) (m - 4096)"
        unfolding s1(3) by (rule avoids_upd) (use n4 in auto)
      have r16: "16 \<le> m - 4096" using nm n16 by simp
      from sb_insert_avoiding [OF s1(2) sp2 r16 av2] obtain s2 where s2:
        "sb_insert \<lparr> cbase = b + 4096, csize = m - 4096 \<rparr> s1 = Some s2" "sb_ok s2"
        "sb_view s2 = (sb_view s1)(b + 4096 \<mapsto> m - 4096)" by blast
      have "split_existing \<lparr> cbase = b, csize = m \<rparr> n s = Some (\<lparr> cbase = b, csize = n \<rparr>, s2)"
        using True b0 new1 rb rs ls rsz rbs left right lb ss l16 s1(1) s2(1)
        by (simp add: split_existing_def PAGE_SIZE_def MIN_CHUNK_SIZE_def page_aligned_def Let_def)
      then show ?thesis using s1 s2 True l16 n4 by auto
    next
      case False
      then have "split_existing \<lparr> cbase = b, csize = m \<rparr> n s = Some (\<lparr> cbase = b, csize = m \<rparr>, s)"
        using True b0 new1 rb rs ls rsz rbs left right lb ss whole
        by (simp add: split_existing_def PAGE_SIZE_def MIN_CHUNK_SIZE_def page_aligned_def Let_def)
      then show ?thesis using False n4 ok by auto
    qed
  next
    case False
    show ?thesis
    proof (cases "16 \<le> m - n")
      case r16: True
      have sp: "span_ok (b + n) (m - n)"
        using False top n(2) by (auto simp: span_ok_def PAGE_SIZE_def page_aligned_def)
      have av1: "avoids (sb_view s) (b + n) (m - n)" using av by (rule avoids_sub) (use n in auto)
      from sb_insert_avoiding [OF ok sp r16 av1] obtain s1 where s1:
        "sb_insert \<lparr> cbase = b + n, csize = m - n \<rparr> s = Some s1" "sb_ok s1"
        "sb_view s1 = (sb_view s)(b + n \<mapsto> m - n)" by blast
      have "split_existing \<lparr> cbase = b, csize = m \<rparr> n s = Some (\<lparr> cbase = b, csize = n \<rparr>, s1)"
        using False new1 rb rs r16 s1(1) chunk_new_ok [OF sp]
        by (auto simp: split_existing_def PAGE_SIZE_def MIN_CHUNK_SIZE_def page_aligned_def Let_def)
      then show ?thesis using s1 r16 n by auto
    next
      case f16: False
      have "split_existing \<lparr> cbase = b, csize = m \<rparr> n s = Some (\<lparr> cbase = b, csize = m \<rparr>, s)"
        using False new1 rb rs f16 whole
        by (auto simp: split_existing_def PAGE_SIZE_def MIN_CHUNK_SIZE_def page_aligned_def Let_def)
      then show ?thesis using f16 ok n by auto
    qed
  qed
qed

text \<open>
  What handing out \<open>k\<close> bytes at the front of the free chunk \<open>(b, m)\<close> for a request of \<open>n\<close> bytes
  does to the free list: the whole chunk goes when the remainder would be a sliver, otherwise the
  remainder stays, in one piece or, when it would be page-sized but unaligned, in two.
\<close>

definition carve :: "(nat \<Rightarrow> nat option) \<Rightarrow> nat \<Rightarrow> nat \<Rightarrow> nat \<Rightarrow> nat \<Rightarrow> (nat \<Rightarrow> nat option) \<Rightarrow> bool" where
  "carve v b m n k v' =
     (k = m \<and> v' = v(b := None) \<and> (m < n + 16 \<or> n < 4096 \<and> 4096 < n + 16) \<or>
      k = n \<and> v' = v(b := None, b + n \<mapsto> m - n) \<and> n + 16 \<le> m \<or>
      k = n \<and> v' = v(b := None, b + n \<mapsto> 4096 - n, b + 4096 \<mapsto> m - 4096)
        \<and> n + 16 \<le> 4096 \<and> 4096 + n \<le> m)"

lemma carve_size: "carve v b m n k v' \<Longrightarrow> n \<le> m \<Longrightarrow> n \<le> k \<and> k \<le> m"
  unfolding carve_def by auto

lemma carve_disjoint:
  assumes c: "carve v b m n k v'" and d: "disjoint_view v" and get: "v b = Some m" and n: "n \<le> m"
  shows "disjoint_view v' \<and> avoids v' b k"
proof -
  let ?v = "v(b := None)"
  have av: "avoids ?v b m" using d get by (rule disjoint_view_avoids)
  have dv: "disjoint_view ?v" using d by (rule disjoint_view_del)
  consider (whole) "k = m" "v' = ?v"
    | (one) "k = n" "v' = ?v(b + n \<mapsto> m - n)"
    | (two) "k = n" "v' = ?v(b + n \<mapsto> 4096 - n, b + 4096 \<mapsto> m - 4096)" "n + 16 \<le> 4096" "4096 + n \<le> m"
    using c unfolding carve_def by blast
  then show ?thesis
  proof cases
    case whole
    then show ?thesis using av dv by simp
  next
    case one
    have "avoids ?v (b + n) (m - n)" using av by (rule avoids_sub) (use n in auto)
    then have "disjoint_view v'" using dv one by (simp add: disjoint_view_insert)
    moreover have "avoids ?v b n" using av by (rule avoids_sub) (use n in auto)
    then have "avoids v' b k" unfolding one by (rule avoids_upd) simp
    ultimately show ?thesis by simp
  next
    case two
    let ?w = "?v(b + n \<mapsto> 4096 - n)"
    have "avoids ?v (b + n) (4096 - n)" using av by (rule avoids_sub) (use two in auto)
    then have dw: "disjoint_view ?w" using dv by (simp add: disjoint_view_insert)
    have "avoids ?v (b + 4096) (m - 4096)" using av by (rule avoids_sub) (use two in auto)
    then have "avoids ?w (b + 4096) (m - 4096)" by (rule avoids_upd) (use two in auto)
    then have "disjoint_view v'" using dw two by (simp add: disjoint_view_insert)
    moreover have "avoids ?v b n" using av by (rule avoids_sub) (use n in auto)
    then have "avoids ?w b n" by (rule avoids_upd) simp
    then have "avoids v' b k" unfolding two by (rule avoids_upd) (use two in auto)
    ultimately show ?thesis by simp
  qed
qed

section \<open>Allocation from the free list\<close>

lemma allocate_in_bucket_spec:
  assumes ok: "sb_ok s" and d: "disjoint_view (sb_view s)" and n: "request_ok n" and j: "j < 28"
  shows "(allocate_in_bucket n j s = Some (None, s) \<and> (\<forall>x \<in> set (sb_buckets s ! j). csize x < n)) \<or>
    (\<exists>c s' m. allocate_in_bucket n j s = Some (Some c, s') \<and> sb_ok s'
       \<and> sb_view s (cbase c) = Some m \<and> n \<le> m \<and> bucket_for m = j
       \<and> (\<forall>x \<in> set (sb_buckets s ! j). n \<le> csize x \<longrightarrow> m \<le> csize x)
       \<and> carve (sb_view s) (cbase c) m n (csize c) (sb_view s'))"
proof (cases "best_chunk n (rev (enumerate 0 (sb_buckets s ! j))) None")
  case None
  have len: "length (sb_buckets s) = 28" using ok by (simp add: sb_ok_def)
  have "\<forall>x \<in> set (sb_buckets s ! j). csize x < n"
    using None unfolding best_chunk_None set_rev by (simp add: enumerate_all)
  moreover have "allocate_in_bucket n j s = Some (None, s)"
    using None len j by (simp add: allocate_in_bucket_def bucket_at_def)
  ultimately show ?thesis by blast
next
  case (Some iz)
  let ?bk = "sb_buckets s ! j"
  have len: "length (sb_buckets s) = 28" and cm: "cm_ok (sb_chunks s)" using ok by (simp_all add: sb_ok_def)
  obtain i z where iz: "iz = (i, z)" by fastforce
  from best_chunk_best [OF Some [unfolded iz]] have i: "i < length ?bk" and z: "csize (?bk ! i) = z" "n \<le> z"
    and best: "\<forall>x \<in> set ?bk. n \<le> csize x \<longrightarrow> z \<le> csize x"
    by (auto simp: enumerate_mem enumerate_all)
  let ?e = "?bk ! i"
  define b where "b = cbase ?e"
  have e: "?e = \<lparr> cbase = b, csize = z \<rparr>" using z by (simp add: b_def)
  have mem: "?e \<in> set ?bk" using i by simp
  from sb_ok_bucketD [OF ok j mem] have bz: "bucket_for z = j" "map_of (sb_chunks s) b = Some z"
    and sp: "span_ok b z" using z by (auto simp: b_def chunk_ok_def)
  obtain bk where sr: "swap_remove ?bk i = Some (?e, bk)" using i by (simp add: swap_remove_def)
  let ?s1 = "s\<lparr> sb_chunks := bt_remove b (sb_chunks s), sb_buckets := (sb_buckets s)[j := bk] \<rparr>"
  have ok1: "sb_ok ?s1" using sb_ok_del [OF ok bz(2), of j i bk] sr e bz by simp
  have v1: "sb_view ?s1 = (sb_view s)(b := None)" using cm by (simp add: sb_view_def cm_remove_base_eq)
  have step: "allocate_in_bucket n j s = (if z = n then Some (Some ?e, ?s1) else do {
      (c, s2) \<leftarrow> split_existing ?e n ?s1; Some (Some c, s2) })"
    using Some iz len j sr bz(2) z e
    by (simp add: allocate_in_bucket_def bucket_at_def cm_remove_with_base_def Let_def)
  have get: "sb_view s b = Some z" using bz by (simp add: sb_view_def)
  show ?thesis
  proof (cases "z = n")
    case True
    have "carve (sb_view s) b z n z (sb_view ?s1)" using True v1 by (simp add: carve_def)
    then show ?thesis using step True ok1 get z bz best b_def by auto
  next
    case False
    have av: "avoids (sb_view ?s1) b z" unfolding v1 using d get by (rule disjoint_view_avoids)
    have "n < z" using False z by simp
    from split_existing_spec [OF ok1 sp n this av] obtain c s2 where
      c: "split_existing ?e n ?s1 = Some (c, s2)" "sb_ok s2" "cbase c = b"
      and outcome: "csize c = z \<and> s2 = ?s1 \<and> z < n + 16 \<or>
      csize c = z \<and> s2 = ?s1 \<and> n < 4096 \<and> 4096 < n + 16 \<or>
      csize c = n \<and> sb_view s2 = (sb_view ?s1)(b + n \<mapsto> z - n) \<and> n + 16 \<le> z \<or>
      csize c = n \<and> sb_view s2 = (sb_view ?s1)(b + n \<mapsto> 4096 - n, b + 4096 \<mapsto> z - 4096)
        \<and> n + 16 \<le> 4096 \<and> 4096 + n \<le> z"
      unfolding e by blast
    have "carve (sb_view s) b z n (csize c) (sb_view s2)"
      using outcome v1 unfolding carve_def by auto
    moreover have "allocate_in_bucket n j s = Some (Some c, s2)" using step False c by simp
    ultimately show ?thesis using c get z bz best by auto
  qed
qed

lemma sb_view_bucket:
  "sb_ok s \<Longrightarrow> sb_view s b = Some m \<Longrightarrow>
     16 \<le> m \<and> m < 4294967296 \<and> \<lparr> cbase = b, csize = m \<rparr> \<in> set (sb_buckets s ! bucket_for m)"
  using sb_ok_size [of s b m] unfolding sb_ok_def sb_view_def span_ok_def by blast

lemma bucket_for_mono: "16 \<le> m \<Longrightarrow> m \<le> n \<Longrightarrow> n < 4294967296 \<Longrightarrow> bucket_for m \<le> bucket_for n"
  using bucket_for_eq [of m] bucket_for_eq [of n] ilog2_mono [of m n] by simp

lemma bucket_for_less: "16 \<le> m \<Longrightarrow> 16 \<le> n \<Longrightarrow> m < 4294967296 \<Longrightarrow> n < 4294967296 \<Longrightarrow>
    bucket_for m < bucket_for n \<Longrightarrow> m < n"
  using bucket_for_mono [of n m] by (meson linorder_not_le)

lemma sb_allocate_spec:
  assumes ok: "sb_ok s" and d: "disjoint_view (sb_view s)" and n: "request_ok n"
  shows "(sb_allocate n s = Some (None, s) \<and> (\<forall>b m. sb_view s b = Some m \<longrightarrow> m < n)) \<or>
    (\<exists>c s' m. sb_allocate n s = Some (Some c, s') \<and> sb_ok s'
       \<and> sb_view s (cbase c) = Some m \<and> n \<le> m
       \<and> (\<forall>b' m'. sb_view s b' = Some m' \<and> n \<le> m' \<longrightarrow> m \<le> m')
       \<and> carve (sb_view s) (cbase c) m n (csize c) (sb_view s'))"
proof -
  let ?j = "bucket_for n"
  have n16: "16 \<le> n" "n < 4294967296" using n by (auto simp: request_ok_def)
  have j28: "?j < 28" using n16 by (rule bucket_for_bound)
  have len: "length (sb_buckets s) = 28" using ok by (simp add: sb_ok_def)
  have above: "?j \<le> bucket_for m' \<and> \<lparr> cbase = b', csize = m' \<rparr> \<in> set (sb_buckets s ! bucket_for m')
      \<and> 16 \<le> m' \<and> m' < 4294967296 \<and> bucket_for m' < 28"
    if "sb_view s b' = Some m'" "n \<le> m'" for b' m'
    using sb_view_bucket [OF ok that(1)] bucket_for_mono [OF n16(1) that(2)] bucket_for_bound [of m'] by auto
  have first: "sb_allocate n s = (case allocate_in_bucket n ?j s of None \<Rightarrow> None
      | Some (Some c, s1) \<Rightarrow> Some (Some c, s1)
      | Some (None, s1) \<Rightarrow>
          (if length (sb_buckets s1) < ?j + 1 then None
           else (case position (\<lambda>bk. bk \<noteq> []) (drop (?j + 1) (sb_buckets s1)) of
                   None \<Rightarrow> Some (None, s1)
                 | Some k \<Rightarrow> allocate_in_bucket n (k + ?j + 1) s1)))"
    using n16 by (auto simp: sb_allocate_def MIN_CHUNK_SIZE_def Let_def split: option.splits bind_splits prod.splits)
  from allocate_in_bucket_spec [OF ok d n j28] show ?thesis
  proof
    assume "\<exists>c s' m. allocate_in_bucket n ?j s = Some (Some c, s') \<and> sb_ok s'
       \<and> sb_view s (cbase c) = Some m \<and> n \<le> m \<and> bucket_for m = ?j
       \<and> (\<forall>x \<in> set (sb_buckets s ! ?j). n \<le> csize x \<longrightarrow> m \<le> csize x)
       \<and> carve (sb_view s) (cbase c) m n (csize c) (sb_view s')"
    then obtain c s' m where 1: "allocate_in_bucket n ?j s = Some (Some c, s')" "sb_ok s'"
       "sb_view s (cbase c) = Some m" "n \<le> m" "bucket_for m = ?j"
       "\<forall>x \<in> set (sb_buckets s ! ?j). n \<le> csize x \<longrightarrow> m \<le> csize x"
       "carve (sb_view s) (cbase c) m n (csize c) (sb_view s')" by blast
    have "m \<le> m'" if "sb_view s b' = Some m'" "n \<le> m'" for b' m'
    proof (cases "bucket_for m' = ?j")
      case True
      with above [OF that] 1(6) that(2) show ?thesis by force
    next
      case False
      with above [OF that] have "bucket_for m < bucket_for m'" using 1(5) by simp
      then show ?thesis using bucket_for_less [of m m'] above [OF that] above [OF 1(3) 1(4)] by simp
    qed
    with 1 first show ?thesis by auto
  next
    assume none: "allocate_in_bucket n ?j s = Some (None, s) \<and> (\<forall>x \<in> set (sb_buckets s ! ?j). csize x < n)"
    have strict: "?j < bucket_for m'" if "sb_view s b' = Some m'" "n \<le> m'" for b' m'
      using above [OF that] none that(2) by (metis chunk.select_convs(2) le_neq_implies_less linorder_not_le)
    show ?thesis
    proof (cases "position (\<lambda>bk. bk \<noteq> []) (drop (?j + 1) (sb_buckets s))")
      case None
      have "m' < n" if v: "sb_view s b' = Some m'" for b' m'
      proof (rule ccontr)
        assume "\<not> m' < n"
        then have le: "n \<le> m'" by simp
        let ?d = "drop (?j + 1) (sb_buckets s)" and ?k = "bucket_for m' - (?j + 1)"
        have "bucket_for m' < 28" "?j < bucket_for m'"
          using above [OF v le] strict [OF v le] by blast+
        then have "?k < length ?d" "?d ! ?k = sb_buckets s ! bucket_for m'"
          unfolding length_drop len by (linarith, simp add: len)
        then have "sb_buckets s ! bucket_for m' \<in> set ?d" by (metis nth_mem)
        moreover have "sb_buckets s ! bucket_for m' \<noteq> []" using above [OF v le] by auto
        ultimately show False using None unfolding position_None by blast
      qed
      then show ?thesis using first none None len j28 by simp
    next
      case (Some k)
      from position_Some [OF Some] have k: "k < 28 - (?j + 1)" "sb_buckets s ! (?j + 1 + k) \<noteq> []"
        "\<forall>i < k. sb_buckets s ! (?j + 1 + i) = []" using len by auto
      let ?i = "k + ?j + 1"
      have i28: "?i < 28" using k(1) by simp
      have ne: "sb_buckets s ! ?i \<noteq> []" using k(2) by (simp add: ac_simps)
      have big: "n < csize x" if "x \<in> set (sb_buckets s ! ?i)" for x
      proof -
        from sb_ok_bucketD [OF ok i28 that] have "bucket_for (csize x) = ?i" "16 \<le> csize x" "csize x < 4294967296"
          by (auto simp: chunk_ok_def span_ok_def)
        then show ?thesis using bucket_for_less [of n "csize x"] n16 by simp
      qed
      have eq: "sb_allocate n s = allocate_in_bucket n ?i s" using first none Some len j28 by simp
      from allocate_in_bucket_spec [OF ok d n i28] ne big obtain c s' m where
        1: "allocate_in_bucket n ?i s = Some (Some c, s')" "sb_ok s'"
       "sb_view s (cbase c) = Some m" "n \<le> m" "bucket_for m = ?i"
       "\<forall>x \<in> set (sb_buckets s ! ?i). n \<le> csize x \<longrightarrow> m \<le> csize x"
       "carve (sb_view s) (cbase c) m n (csize c) (sb_view s')"
        by (metis last_in_set less_asym)
      have "m \<le> m'" if v: "sb_view s b' = Some m'" and le: "n \<le> m'" for b' m'
      proof -
        note a = above [OF v le] and st = strict [OF v le]
        have "\<not> bucket_for m' < ?i"
        proof
          assume lt: "bucket_for m' < ?i"
          then have "bucket_for m' = ?j + 1 + (bucket_for m' - ?j - 1)" "bucket_for m' - ?j - 1 < k"
            using st by auto
          then have "sb_buckets s ! bucket_for m' = []" using k(3) by metis
          with a show False by auto
        qed
        then consider "bucket_for m' = ?i" | "bucket_for m < bucket_for m'" using 1(5) by linarith
        then show ?thesis
        proof cases
          case 1
          with a \<open>\<forall>x \<in> set (sb_buckets s ! ?i). n \<le> csize x \<longrightarrow> m \<le> csize x\<close> le show ?thesis by force
        next
          case 2
          then show ?thesis using bucket_for_less [of m m'] a above [OF 1(3) 1(4)] by simp
        qed
      qed
      with 1 eq show ?thesis by auto
    qed
  qed
qed

end
