(* ===== verification/Allocator.thy ===== *)
theory Allocator
  imports Chunk_Buckets
begin

text \<open>
  \<open>Allocator\<close> of \<open>src/mem/allocator.rs\<close>: the used chunks and the free list together.  Every
  method of the Rust type is a function on the record; the well-formedness \<open>alloc_wf\<close> (no two
  chunks of the two collections overlap, page-sized chunks are page-aligned, both collections are
  in order) is what the methods keep and what makes their assertions hold.
\<close>

section \<open>State and operations\<close>

definition MAIN_THREAD_STACK_SIZE :: nat where
  "MAIN_THREAD_STACK_SIZE = 1024 * 1024"

definition MAIN_THREAD_STACK_LOW_END :: nat where
  "MAIN_THREAD_STACK_LOW_END = wsub32 0 MAIN_THREAD_STACK_SIZE"

record allocator =
  used_chunks :: chunk_map
  unused_chunks :: sbm

definition allocator_new :: "allocator option" where
  "allocator_new = do {
     main_thread_stack \<leftarrow> chunk_new MAIN_THREAD_STACK_LOW_END MAIN_THREAD_STACK_SIZE;
     rest \<leftarrow> chunk_new 0 MAIN_THREAD_STACK_LOW_END;
     used \<leftarrow> cm_insert main_thread_stack [];
     unused \<leftarrow> sb_insert rest sb_default;
     Some \<lparr> used_chunks = used, unused_chunks = unused \<rparr> }"

text \<open>The search loop of \<open>reserve\<close>: the first free chunk that \<open>trisect_by\<close> accepts.\<close>

fun reserve_find :: "chunk \<Rightarrow> chunk list \<Rightarrow> chunk option option" where
  "reserve_find c [] = Some None"
| "reserve_find c (u # us) = do {
     t \<leftarrow> trisect_by u c;
     (if t \<noteq> None then Some (Some u) else reserve_find c us) }"

definition insert_if_large :: "chunk option \<Rightarrow> sbm \<Rightarrow> sbm option" where
  "insert_if_large r s =
     (case r of
        None \<Rightarrow> Some s
      | Some c \<Rightarrow> (if MIN_CHUNK_SIZE \<le> csize c then sb_insert c s else Some s))"

definition allocator_reserve :: "chunk \<Rightarrow> allocator \<Rightarrow> allocator option" where
  "allocator_reserve c a = do {
     to_trisect \<leftarrow> reserve_find c (sb_iter (unused_chunks a));
     (case to_trisect of
        None \<Rightarrow> Some a
      | Some u \<Rightarrow> do {
          parts \<leftarrow> trisect_by u c;
          (case parts of
             None \<Rightarrow> Some a
           | Some (before, after) \<Rightarrow> do {
               (_, s0) \<leftarrow> sb_remove_with_base (cbase u) (unused_chunks a);
               s1 \<leftarrow> insert_if_large before s0;
               s2 \<leftarrow> insert_if_large after s1;
               used \<leftarrow> cm_insert c (used_chunks a);
               Some \<lparr> used_chunks = used, unused_chunks = s2 \<rparr> }) }) }"

definition checked_add32 :: "nat \<Rightarrow> nat \<Rightarrow> nat option" where
  "checked_add32 a b = (if a + b < 4294967296 then Some (a + b) else None)"

definition align :: "nat \<Rightarrow> nat \<Rightarrow> nat option" where
  "align n al = (if n mod al \<noteq> 0 then checked_add32 n (al - n mod al) else Some n)"

definition aligned_size_opt :: "nat \<Rightarrow> nat option" where
  "aligned_size_opt n =
     (if n < PAGE_SIZE then align (max n MIN_CHUNK_SIZE) MIN_CHUNK_SIZE else align n PAGE_SIZE)"

definition allocator_alloc :: "nat \<Rightarrow> allocator \<Rightarrow> (nat \<times> allocator) option" where
  "allocator_alloc n a =
     (case aligned_size_opt n of
        None \<Rightarrow> Some (0, a)
      | Some aligned_size \<Rightarrow> do {
          (r, s) \<leftarrow> sb_allocate aligned_size (unused_chunks a);
          (case r of
             None \<Rightarrow> Some (0, a\<lparr> unused_chunks := s \<rparr>)
           | Some c \<Rightarrow> do {
               used \<leftarrow> cm_insert c (used_chunks a);
               Some (cbase c, \<lparr> used_chunks = used, unused_chunks = s \<rparr>) }) })"

definition find_allocated_size :: "nat \<Rightarrow> allocator \<Rightarrow> nat" where
  "find_allocated_size b a =
     (case cm_get_size_with_base b (used_chunks a) of None \<Rightarrow> 0 | Some n \<Rightarrow> n)"

definition try_find_allocated_size :: "nat \<Rightarrow> allocator \<Rightarrow> nat option" where
  "try_find_allocated_size b a = cm_get_size_with_base b (used_chunks a)"

definition is_known_allocation :: "nat \<Rightarrow> allocator \<Rightarrow> bool" where
  "is_known_allocation b a = (cm_get_size_with_base b (used_chunks a) \<noteq> None)"

definition grown_size_for :: "nat \<Rightarrow> nat \<Rightarrow> nat \<Rightarrow> nat" where
  "grown_size_for old_size new_size adjacent_size =
     (if PAGE_SIZE \<le> adjacent_size then wadd32 old_size adjacent_size
      else if wsub32 adjacent_size (wsub32 new_size old_size) < MIN_CHUNK_SIZE
           then wadd32 old_size adjacent_size
           else new_size)"

definition grow_in_place :: "nat \<Rightarrow> nat \<Rightarrow> nat \<Rightarrow> allocator \<Rightarrow> (nat option \<times> allocator) option" where
  "grow_in_place b old_size new_size a = (
     let extra = wsub32 new_size old_size in
     if cm_get_size_with_base b (used_chunks a) = None then Some (None, a)
     else do {
       let adjacent_base = wadd32 b old_size;
       (r, s0) \<leftarrow> sb_remove_with_base adjacent_base (unused_chunks a);
       (case r of
          None \<Rightarrow> Some (None, a\<lparr> unused_chunks := s0 \<rparr>)
        | Some adjacent \<Rightarrow> (
            let adjacent_size = csize adjacent in
            if adjacent_size < extra then do {
              s1 \<leftarrow> sb_insert adjacent s0;
              Some (None, a\<lparr> unused_chunks := s1 \<rparr>) }
            else (
              let grown_size = grown_size_for old_size new_size adjacent_size in
              if PAGE_SIZE \<le> grown_size \<and> \<not> page_aligned b then do {
                s1 \<leftarrow> sb_insert adjacent s0;
                Some (None, a\<lparr> unused_chunks := s1 \<rparr>) }
              else do {
                s1 \<leftarrow> (if adjacent_size < PAGE_SIZE
                       then (let remainder = wsub32 adjacent_size extra in
                             if MIN_CHUNK_SIZE \<le> remainder
                             then do { c \<leftarrow> chunk_new (wadd32 adjacent_base extra) remainder; sb_insert c s0 }
                             else Some s0)
                       else Some s0);
                (old, used0) \<leftarrow> cm_remove_with_base b (used_chunks a);
                _ \<leftarrow> old;
                grown \<leftarrow> chunk_new b grown_size;
                used \<leftarrow> cm_insert grown used0;
                Some (Some grown_size, \<lparr> used_chunks = used, unused_chunks = s1 \<rparr>) }))) })"

text \<open>The neighbour \<open>free\<close> merges with: the following free chunk, else the preceding one.\<close>

definition take_adjacent :: "chunk \<Rightarrow> sbm \<Rightarrow> (chunk option \<times> sbm) option" where
  "take_adjacent freed s = do {
     (r, s1) \<leftarrow> sb_remove_with_base (wadd32 (last_byte freed) 1) s;
     (case r of
        Some c \<Rightarrow> Some (Some c, s1)
      | None \<Rightarrow> sb_remove_with_end (cbase freed) s1) }"

definition allocator_free :: "nat \<Rightarrow> allocator \<Rightarrow> (nat \<times> allocator) option" where
  "allocator_free b a = do {
     (r, used) \<leftarrow> cm_remove_with_base b (used_chunks a);
     (case r of
        None \<Rightarrow> Some (0, a\<lparr> used_chunks := used \<rparr>)
      | Some freed \<Rightarrow> do {
          (adj, s) \<leftarrow> take_adjacent freed (unused_chunks a);
          s' \<leftarrow> (case adj of
                  Some adjacent \<Rightarrow> (
                    let new_base = min (cbase freed) (cbase adjacent);
                        new_size = wadd32 (csize freed) (csize adjacent)
                    in if PAGE_SIZE \<le> new_size \<and> \<not> page_aligned new_base then do {
                         s1 \<leftarrow> insert_if_large (Some adjacent) s;
                         insert_if_large (Some freed) s1 }
                       else do {
                         combined \<leftarrow> chunk_new new_base new_size;
                         insert_if_large (Some combined) s })
                | None \<Rightarrow> insert_if_large (Some freed) s);
          Some (csize freed, \<lparr> used_chunks = used, unused_chunks = s' \<rparr>) }) }"

definition live_allocations :: "allocator \<Rightarrow> (nat \<times> nat) list" where
  "live_allocations a = map (\<lambda>c. (cbase c, csize c)) (cm_iter (used_chunks a))"

section \<open>Well-formedness\<close>

abbreviation used_view :: "allocator \<Rightarrow> nat \<Rightarrow> nat option" where
  "used_view a \<equiv> map_of (used_chunks a)"

abbreviation free_view :: "allocator \<Rightarrow> nat \<Rightarrow> nat option" where
  "free_view a \<equiv> sb_view (unused_chunks a)"

definition separate :: "(nat \<Rightarrow> nat option) \<Rightarrow> (nat \<Rightarrow> nat option) \<Rightarrow> bool" where
  "separate u v = (\<forall>b n. u b = Some n \<longrightarrow> avoids v b n)"

definition alloc_wf :: "allocator \<Rightarrow> bool" where
  "alloc_wf a = (cm_ok (used_chunks a) \<and> sb_ok (unused_chunks a)
     \<and> disjoint_view (used_view a) \<and> disjoint_view (free_view a)
     \<and> separate (used_view a) (free_view a))"

text \<open>The state \<open>Mem\<close> works in: the null segment at address 0 has been reserved.\<close>

definition alloc_inv :: "allocator \<Rightarrow> bool" where
  "alloc_inv a = (alloc_wf a \<and> used_view a 0 \<noteq> None)"

text \<open>The addresses a view accounts for.\<close>

definition covered :: "(nat \<Rightarrow> nat option) \<Rightarrow> nat set" where
  "covered v = {x. \<exists>b n. v b = Some n \<and> b \<le> x \<and> x < b + n}"

lemma covered_upd: "v b = None \<Longrightarrow> covered (v(b \<mapsto> n)) = covered v \<union> {b..<b + n}"
  unfolding covered_def by (auto split: if_splits)

lemma covered_del:
  assumes "v b = Some n"
  shows "covered v = covered (v(b := None)) \<union> {b..<b + n}"
proof -
  have "v = (v(b := None))(b \<mapsto> n)" using assms by auto
  then show ?thesis using covered_upd [of "v(b := None)" b n] by simp
qed

lemma separate_sym: "separate u v \<longleftrightarrow> separate v u"
  unfolding separate_def avoids_def by meson

lemma separate_add: "separate u v \<Longrightarrow> avoids v b n \<Longrightarrow> separate (u(b \<mapsto> n)) v"
  unfolding separate_def by auto

lemma separate_del: "separate u v \<Longrightarrow> separate (u(b := None)) v"
  unfolding separate_def by auto

lemma separate_shrink: "separate u v \<Longrightarrow> separate u (v(b := None))"
  unfolding separate_def by (auto intro: avoids_del)

lemma separate_into: "separate u v \<Longrightarrow> avoids u b n \<Longrightarrow> separate u (v(b \<mapsto> n))"
  by (metis separate_add separate_sym)

lemma separateD: "separate u v \<Longrightarrow> v b = Some n \<Longrightarrow> avoids u b n"
  by (metis separate_def separate_sym)

lemma separate_None: "separate u v \<Longrightarrow> u b = Some n \<Longrightarrow> 0 < n \<Longrightarrow> (\<And>m. v b = Some m \<Longrightarrow> 0 < m) \<Longrightarrow> v b = None"
  unfolding separate_def using avoids_None [of v b n b] by auto

lemma alloc_wf_used: "alloc_wf a \<Longrightarrow> used_view a b = Some n \<Longrightarrow> span_ok b n"
  unfolding alloc_wf_def using cm.view_span by blast

lemma alloc_wf_free: "alloc_wf a \<Longrightarrow> free_view a b = Some n \<Longrightarrow> span_ok b n \<and> 16 \<le> n"
  unfolding alloc_wf_def using sb.view_span by (auto simp: sb_fits_def)

lemma alloc_wf_used_not_free: "alloc_wf a \<Longrightarrow> used_view a b = Some n \<Longrightarrow> free_view a b = None"
  using separate_None [of "used_view a" "free_view a" b n] alloc_wf_used [of a b n] alloc_wf_free [of a b]
  unfolding alloc_wf_def span_ok_def by blast

section \<open>A fresh allocator\<close>

lemma stack_consts:
  "MAIN_THREAD_STACK_SIZE = 1048576" "MAIN_THREAD_STACK_LOW_END = 4293918720"
  by (simp_all add: MAIN_THREAD_STACK_SIZE_def MAIN_THREAD_STACK_LOW_END_def wsub32_def)

lemma allocator_new_spec:
  "\<exists>a. allocator_new = Some a \<and> alloc_wf a \<and> used_view a = [4293918720 \<mapsto> 1048576]
     \<and> free_view a = [0 \<mapsto> 4293918720]"
proof -
  let ?st = "\<lparr> cbase = 4293918720, csize = 1048576 \<rparr>" and ?rest = "\<lparr> cbase = 0, csize = 4293918720 \<rparr>"
  have st: "chunk_new 4293918720 1048576 = Some ?st" "chunk_ok ?st"
    and re: "chunk_new 0 4293918720 = Some ?rest" "chunk_ok ?rest"
    by (simp_all add: chunk_new_def chunk_ok_def span_ok_def page_aligned_def PAGE_SIZE_def)
  have used: "cm_insert ?st [] = Some [(4293918720, 1048576)]" by (simp add: cm_insert_def)
  have empty: "sb_view sb_default = Map.empty" by (simp add: sb_view_def sb_default_def)
  from sb_insert_spec [OF sb_ok_default re(2)] empty obtain s where
    s: "sb_insert ?rest sb_default = Some s" "sb_ok s" "sb_view s = [0 \<mapsto> 4293918720]" by auto
  have "allocator_new = Some \<lparr> used_chunks = [(4293918720, 1048576)], unused_chunks = s \<rparr>"
    using st re used s(1) by (simp add: allocator_new_def stack_consts)
  moreover have "alloc_wf \<lparr> used_chunks = [(4293918720, 1048576)], unused_chunks = s \<rparr>"
    using s by (auto simp: alloc_wf_def cm_ok_def disjoint_view_def separate_def avoids_def
        span_ok_def page_aligned_def PAGE_SIZE_def split: if_splits)
  ultimately show ?thesis using s(3) by auto
qed

section \<open>\<open>alloc\<close>\<close>

lemma align_spec:
  assumes "0 < al"
  shows "align n al = (if n mod al = 0 then Some n
     else if n - n mod al + al < 4294967296 then Some (n - n mod al + al) else None)"
proof -
  have "n + (al - n mod al) = n - n mod al + al"
    using assms mod_less_eq_dividend [of n al] mod_less_divisor [of al n] by linarith
  then show ?thesis by (simp add: align_def checked_add32_def)
qed

lemma align_Some:
  assumes "align n al = Some r" "0 < al" "n < 4294967296"
  shows "n \<le> r \<and> r < n + al \<and> r mod al = 0 \<and> r < 4294967296"
proof (cases "n mod al = 0")
  case True
  then show ?thesis using assms by (simp add: align_def)
next
  case False
  have r: "r = n - n mod al + al" "r < 4294967296"
    using assms(1) False unfolding align_spec [OF assms(2)] by (auto split: if_splits)
  have "n mod al < al" "n mod al \<le> n" using assms(2) by simp_all
  moreover have "(n - n mod al + al) mod al = 0"
    unfolding minus_mod_eq_mult_div by (simp add: mod_eq_0_iff_dvd)
  ultimately show ?thesis using r False by simp
qed

lemma aligned_size_Some:
  assumes "aligned_size_opt n = Some r" "n < 4294967296"
  shows "request_ok r \<and> n \<le> r \<and> r mod 16 = 0"
proof (cases "n < 4096")
  case True
  then have "align (max n 16) 16 = Some r"
    using assms(1) by (simp add: aligned_size_opt_def PAGE_SIZE_def MIN_CHUNK_SIZE_def)
  moreover have "max n 16 < 4294967296" using True by simp
  ultimately have r: "max n 16 \<le> r" "r < max n 16 + 16" "r mod 16 = 0"
    using align_Some [of "max n 16" 16 r] by auto
  have "4096 \<le> r \<Longrightarrow> r mod 4096 = 0"
  proof -
    assume "4096 \<le> r"
    with r True have "r < 4112" by simp
    obtain k where "r = 16 * k" using r(3) by blast
    with \<open>4096 \<le> r\<close> \<open>r < 4112\<close> have "r = 4096" by simp
    then show "r mod 4096 = 0" by simp
  qed
  with r True show ?thesis by (simp add: request_ok_def)
next
  case False
  then have al: "align n 4096 = Some r"
    using assms(1) by (simp add: aligned_size_opt_def PAGE_SIZE_def)
  from align_Some [OF al _ assms(2)] have r: "n \<le> r" "r mod 4096 = 0" "r < 4294967296" by auto
  have "(16::nat) dvd 4096" by simp
  then have "r mod 16 = 0" using r(2) by (meson dvd_trans mod_eq_0_iff_dvd)
  with r False show ?thesis by (simp add: request_ok_def)
qed

lemma aligned_size_None:
  assumes "n < 4294967296"
  shows "aligned_size_opt n = None \<longleftrightarrow> 4294963200 < n"
proof (cases "n < 4096")
  case True
  have "max n 16 - max n 16 mod 16 + 16 < 4294967296" using True by simp
  then show ?thesis
    using True by (simp add: aligned_size_opt_def PAGE_SIZE_def MIN_CHUNK_SIZE_def align_spec)
next
  case False
  define q m where "q = n div 4096" and "m = n mod 4096"
  have eq: "n = 4096 * q + m" and lt: "m < 4096" by (simp_all add: q_def m_def)
  have q: "n - n mod 4096 + 4096 = 4096 * q + 4096" unfolding minus_mod_eq_mult_div q_def by simp
  have "aligned_size_opt n = None \<longleftrightarrow> m \<noteq> 0 \<and> \<not> 4096 * q + 4096 < 4294967296"
    using False unfolding aligned_size_opt_def PAGE_SIZE_def align_spec [of 4096, simplified] q
    by (simp add: m_def)
  also have "\<dots> \<longleftrightarrow> 4294963200 < n"
  proof (cases "q < 1048575")
    case True
    then have "q \<le> 1048574" by simp
    then have "n < 4294963200" "4096 * q + 4096 < 4294967296" using eq lt by linarith+
    then show ?thesis by simp
  next
    case False
    then have "q = 1048575" using eq assms by linarith
    then show ?thesis using eq by auto
  qed
  finally show ?thesis .
qed

text \<open>What a successful \<open>alloc\<close> does.\<close>

definition alloc_effect :: "nat \<Rightarrow> allocator \<Rightarrow> nat \<Rightarrow> allocator \<Rightarrow> bool" where
  "alloc_effect r a b a' = (\<exists>m k. free_view a b = Some m \<and> r \<le> m
     \<and> (\<forall>b' m'. free_view a b' = Some m' \<and> r \<le> m' \<longrightarrow> m \<le> m')
     \<and> carve (free_view a) b m r k (free_view a')
     \<and> used_view a b = None \<and> used_view a' = (used_view a)(b \<mapsto> k))"

lemma carve_separate:
  assumes c: "carve v b m n k v'" and sep: "separate u v" and get: "v b = Some m" and n: "n \<le> m"
  shows "separate u v'"
proof -
  have av: "avoids u b m" using separateD [OF sep get] .
  have s0: "separate u (v(b := None))" using sep by (rule separate_shrink)
  consider (whole) "v' = v(b := None)"
    | (one) "v' = v(b := None, b + n \<mapsto> m - n)"
    | (two) "v' = v(b := None, b + n \<mapsto> 4096 - n, b + 4096 \<mapsto> m - 4096)" "n + 16 \<le> 4096" "4096 + n \<le> m"
    using c unfolding carve_def by blast
  then show ?thesis
  proof cases
    case whole
    then show ?thesis using s0 by simp
  next
    case one
    have "avoids u (b + n) (m - n)" using av by (rule avoids_sub) (use n in auto)
    then show ?thesis unfolding one using s0 by (rule separate_into [rotated])
  next
    case two
    have "avoids u (b + n) (4096 - n)" using av by (rule avoids_sub) (use two in auto)
    then have "separate u (v(b := None, b + n \<mapsto> 4096 - n))" using s0 by (rule separate_into [rotated])
    moreover have "avoids u (b + 4096) (m - 4096)" using av by (rule avoids_sub) (use two in auto)
    ultimately show ?thesis unfolding two by (rule separate_into)
  qed
qed

lemma allocator_alloc_cases:
  assumes wf: "alloc_wf a" and n: "n < 4294967296"
  shows "(aligned_size_opt n = None \<and> allocator_alloc n a = Some (0, a)) \<or>
    (\<exists>r. aligned_size_opt n = Some r \<and>
       ((allocator_alloc n a = Some (0, a) \<and> (\<forall>b m. free_view a b = Some m \<longrightarrow> m < r)) \<or>
        (\<exists>b a'. allocator_alloc n a = Some (b, a') \<and> alloc_wf a' \<and> alloc_effect r a b a')))"
proof (cases "aligned_size_opt n")
  case None
  then show ?thesis by (simp add: allocator_alloc_def)
next
  case (Some r)
  have req: "request_ok r" using aligned_size_Some [OF Some n] by simp
  have cmo: "cm_ok (used_chunks a)" and sbo: "sb_ok (unused_chunks a)"
    and du: "disjoint_view (used_view a)" and df: "disjoint_view (free_view a)"
    and sep: "separate (used_view a) (free_view a)"
    using wf by (simp_all add: alloc_wf_def)
  from sb_allocate_spec [OF sbo df req] show ?thesis
  proof
    assume "sb_allocate r (unused_chunks a) = Some (None, unused_chunks a)
        \<and> (\<forall>b m. free_view a b = Some m \<longrightarrow> m < r)"
    then show ?thesis using Some by (simp add: allocator_alloc_def)
  next
    assume "\<exists>c s' m. sb_allocate r (unused_chunks a) = Some (Some c, s') \<and> sb_ok s'
       \<and> free_view a (cbase c) = Some m \<and> r \<le> m
       \<and> (\<forall>b' m'. free_view a b' = Some m' \<and> r \<le> m' \<longrightarrow> m \<le> m')
       \<and> carve (free_view a) (cbase c) m r (csize c) (sb_view s')"
    then obtain c s' m where al: "sb_allocate r (unused_chunks a) = Some (Some c, s')" "sb_ok s'"
       and get: "free_view a (cbase c) = Some m" and rm: "r \<le> m"
       and best: "\<forall>b' m'. free_view a b' = Some m' \<and> r \<le> m' \<longrightarrow> m \<le> m'"
       and carve: "carve (free_view a) (cbase c) m r (csize c) (sb_view s')" by blast
    have sp: "span_ok (cbase c) m" using sbo get sb.view_span by blast
    have km: "r \<le> csize c" "csize c \<le> m" using carve_size [OF carve rm] by auto
    have r16: "16 \<le> r" using req by (simp add: request_ok_def)
    have cok: "chunk_ok c"
      using sp km r16 by (auto simp: chunk_ok_def span_ok_def PAGE_SIZE_def)
    have avu: "avoids (used_view a) (cbase c) m" using separateD [OF sep get] .
    have none: "used_view a (cbase c) = None"
      using avu by (rule avoids_None) (use sp cm.view_pos [OF cmo] in \<open>auto simp: span_ok_def\<close>)
    from cm.insert_law [OF cmo cok _ none] obtain used where
      used: "cm_insert c (used_chunks a) = Some used" "cm_ok used"
        "map_of used = (used_view a)(cbase c \<mapsto> csize c)" by auto
    let ?a' = "\<lparr> used_chunks = used, unused_chunks = s' \<rparr>"
    note cd = carve_disjoint [OF carve df get rm]
    have avk: "avoids (used_view a) (cbase c) (csize c)" using avu by (rule avoids_sub) (use km in auto)
    have "disjoint_view (map_of used)" unfolding used(3) using du avk by (rule disjoint_view_insert)
    moreover have "separate (map_of used) (sb_view s')"
      unfolding used(3) using carve_separate [OF carve sep get rm] cd by (simp add: separate_add)
    ultimately have "alloc_wf ?a'" using used(2) al(2) cd by (simp add: alloc_wf_def)
    moreover have "allocator_alloc n a = Some (cbase c, ?a')"
      using Some al(1) used(1) by (simp add: allocator_alloc_def)
    moreover have "alloc_effect r a (cbase c) ?a'"
      unfolding alloc_effect_def using get rm best carve none used(3) by auto
    ultimately show ?thesis using Some by blast
  qed
qed

section \<open>\<open>free\<close>\<close>

definition put :: "(nat \<Rightarrow> nat option) \<Rightarrow> nat \<Rightarrow> nat \<Rightarrow> (nat \<Rightarrow> nat option)" where
  "put v b n = (if 16 \<le> n then v(b \<mapsto> n) else v)"

definition may_combine :: "nat \<Rightarrow> nat \<Rightarrow> bool" where
  "may_combine b n = (4096 \<le> n \<longrightarrow> b mod 4096 = 0)"

text \<open>What \<open>free\<close> does to the free list: merge with the next chunk, else with the previous one.\<close>

definition free_effect :: "(nat \<Rightarrow> nat option) \<Rightarrow> nat \<Rightarrow> nat \<Rightarrow> (nat \<Rightarrow> nat option) \<Rightarrow> bool" where
  "free_effect v b n v' =
    (case v (b + n) of
       Some k \<Rightarrow> v' = (if may_combine b (n + k) then v(b + n := None, b \<mapsto> n + k) else put v b n)
     | None \<Rightarrow> (\<exists>p k. v p = Some k \<and> p + k = b
                  \<and> v' = (if may_combine p (k + n) then v(p \<mapsto> k + n) else put v b n))
              \<or> (\<forall>p k. v p = Some k \<longrightarrow> p + k \<noteq> b) \<and> v' = put v b n)"

lemma insert_if_large_spec:
  assumes "sb_ok s" "span_ok b n" "avoids (sb_view s) b n"
  shows "\<exists>s'. insert_if_large (Some \<lparr> cbase = b, csize = n \<rparr>) s = Some s' \<and> sb_ok s'
      \<and> sb_view s' = put (sb_view s) b n"
  using assms sb_insert_avoiding [OF assms(1,2) _ assms(3)]
  by (auto simp: insert_if_large_def put_def MIN_CHUNK_SIZE_def)

lemma avoids_neighbour:
  assumes d: "disjoint_view v" and g: "v b = Some n" "v b' = Some n'" and ne: "b \<noteq> b'"
  shows "b + n \<le> b' \<or> b' + n' \<le> b"
  using assms unfolding disjoint_view_def by blast

lemma take_adjacent_spec:
  assumes ok: "sb_ok s" and sp: "span_ok b n" and av: "avoids (sb_view s) b n"
    and d: "disjoint_view (sb_view s)" and zero: "sb_view s 0 = None"
  shows "(\<exists>k s'. sb_view s (b + n) = Some k
       \<and> take_adjacent \<lparr> cbase = b, csize = n \<rparr> s = Some (Some \<lparr> cbase = b + n, csize = k \<rparr>, s')
       \<and> sb_ok s' \<and> sb_view s' = (sb_view s)(b + n := None)) \<or>
     (sb_view s (b + n) = None \<and> (\<exists>p k s'. sb_view s p = Some k \<and> p + k = b
       \<and> take_adjacent \<lparr> cbase = b, csize = n \<rparr> s = Some (Some \<lparr> cbase = p, csize = k \<rparr>, s')
       \<and> sb_ok s' \<and> sb_view s' = (sb_view s)(p := None))) \<or>
     (sb_view s (b + n) = None \<and> (\<forall>p k. sb_view s p = Some k \<longrightarrow> p + k \<noteq> b)
       \<and> (\<exists>s'. take_adjacent \<lparr> cbase = b, csize = n \<rparr> s = Some (None, s')
       \<and> sb_ok s' \<and> sb_view s' = sb_view s))"
proof -
  let ?c = "\<lparr> cbase = b, csize = n \<rparr>"
  define e where "e = wadd32 (last_byte ?c) 1"
  have cok: "chunk_ok ?c" using sp by (simp add: chunk_ok_def)
  have e: "sb_view s e = sb_view s (b + n)"
  proof (cases "b + n < 4294967296")
    case True
    then show ?thesis using last_byte_end [OF cok] by (simp add: e_def)
  next
    case False
    then have top: "b + n = 4294967296" using sp by (simp add: span_ok_def)
    then have "e = 0" using last_byte_ok [OF cok] sp
      by (simp add: e_def wadd32_def span_ok_def)
    moreover have "sb_view s (b + n) = None"
      using top sb.view_span [OF ok, of "b + n"] by (cases "sb_view s (b + n)") (auto simp: span_ok_def)
    ultimately show ?thesis using zero by simp
  qed
  have e_pos: "e = b + n" if "e \<noteq> 0"
  proof (cases "b + n < 4294967296")
    case True
    then show ?thesis using last_byte_end [OF cok] by (simp add: e_def)
  next
    case False
    then have "b + n = 4294967296" using sp by (simp add: span_ok_def)
    then have "e = 0" using last_byte_ok [OF cok] sp by (simp add: e_def wadd32_def span_ok_def)
    with that show ?thesis by simp
  qed
  have take_eq: "take_adjacent ?c s = do { (r, s1) \<leftarrow> sb_remove_with_base e s;
      (case r of Some c \<Rightarrow> Some (Some c, s1) | None \<Rightarrow> sb_remove_with_end b s1) }"
    by (simp add: take_adjacent_def e_def cong: option.case_cong)
  have bmax: "b < 4294967296" using sp by (simp add: span_ok_def)
  from sb.remove_base_law [OF ok, of e] obtain s1 where
    s1: "sb_remove_with_base e s = Some (map_option (\<lambda>k. \<lparr> cbase = e, csize = k \<rparr>) (sb_view s e), s1)"
    "sb_ok s1" "sb_view s1 = (sb_view s)(e := None)" by blast
  show ?thesis
  proof (cases "sb_view s e")
    case (Some k)
    then have "e = b + n" using e_pos zero by (cases "e = 0") auto
    then show ?thesis using s1 Some by (auto simp: take_eq)
  next
    case None
    then have v1: "sb_view s1 = sb_view s" using s1(3) by (simp add: fun_upd_idem)
    have take: "take_adjacent ?c s = sb_remove_with_end b s1"
      using s1(1) None by (simp add: take_eq)
    have none: "sb_view s (b + n) = None" using None e by simp
    from sb.remove_end_cases [OF s1(2), of b] show ?thesis
    proof
      assume r: "sb_remove_with_end b s1 = Some (None, s1)"
      have "p + k \<noteq> b" if g: "sb_view s p = Some k" for p k
      proof
        assume pk: "p + k = b"
        have "\<forall>b' s'. sb_view s1 b' = Some s' \<and> b' \<noteq> p \<longrightarrow> b' + s' \<le> p \<or> p + k \<le> b'"
          unfolding v1 using d g unfolding disjoint_view_def by blast
        from sb.remove_end_hit [OF s1(2) _ pk bmax this] g v1 r show False by auto
      qed
      then have "\<forall>p k. sb_view s p = Some k \<longrightarrow> p + k \<noteq> b" by blast
      moreover have "take_adjacent ?c s = Some (None, s1)" using take r by simp
      ultimately show ?thesis using none s1(2) v1 by (intro disjI2 conjI exI [of _ s1])
    next
      assume "\<exists>p k s'. sb_view s1 p = Some k \<and> wadd32 (p + k - 1) 1 = b \<and> p < b
          \<and> sb_remove_with_end b s1 = Some (Some \<lparr> cbase = p, csize = k \<rparr>, s')
          \<and> sb_ok s' \<and> sb_view s' = (sb_view s1)(p := None)"
      then obtain p k s' where pk: "sb_view s1 p = Some k" "wadd32 (p + k - 1) 1 = b" "p < b"
        and r: "sb_remove_with_end b s1 = Some (Some \<lparr> cbase = p, csize = k \<rparr>, s')"
          "sb_ok s'" "sb_view s' = (sb_view s1)(p := None)" by blast
      have "span_ok p k" using sb.view_span [OF s1(2) pk(1)] by simp
      then have "p + k \<le> 4294967296" "0 < k" by (auto simp: span_ok_def)
      moreover have "p + k \<noteq> 4294967296" using pk(2,3) by (auto simp: wadd32_def)
      ultimately have "p + k = b" using pk(2) by (simp add: wadd32_exact)
      then show ?thesis using take none r pk(1) v1 by auto
    qed
  qed
qed

lemma avoids_merge:
  "avoids v b n \<Longrightarrow> avoids v (b + n) k \<Longrightarrow> (\<And>x m. v x = Some m \<Longrightarrow> 0 < m) \<Longrightarrow> 0 < n \<Longrightarrow> 0 < k \<Longrightarrow> avoids v b (n + k)"
  unfolding avoids_def
proof (intro allI impI)
  fix b' s' assume *: "\<forall>b' s'. v b' = Some s' \<longrightarrow> b' + s' \<le> b \<or> b + n \<le> b'"
    "\<forall>b' s'. v b' = Some s' \<longrightarrow> b' + s' \<le> b + n \<or> b + n + k \<le> b'"
    "\<And>x m. v x = Some m \<Longrightarrow> 0 < m" "v b' = Some s'"
  then have "b' + s' \<le> b \<or> b + n \<le> b'" "b' + s' \<le> b + n \<or> b + n + k \<le> b'" "0 < s'" by blast+
  then show "b' + s' \<le> b \<or> b + (n + k) \<le> b'" by linarith
qed

text \<open>The merge step of \<open>free\<close>, for the chunk \<open>(lo, x)\<close> directly below \<open>(lo + x, y)\<close>.\<close>

lemma combine_or_keep:
  assumes ok: "sb_ok s" and lo: "span_ok lo x" and hi: "span_ok (lo + x) y"
    and av: "avoids (sb_view s) lo x" "avoids (sb_view s) (lo + x) y" and pos: "0 < lo"
    and pieces: "(b, n) = (lo, x) \<and> (b', k) = (lo + x, y) \<or> (b, n) = (lo + x, y) \<and> (b', k) = (lo, x)"
    and k16: "16 \<le> k"
  shows "\<exists>s'. (let new_base = min b b'; new_size = wadd32 n k
          in if PAGE_SIZE \<le> new_size \<and> \<not> page_aligned new_base then do {
               s1 \<leftarrow> insert_if_large (Some \<lparr> cbase = b', csize = k \<rparr>) s;
               insert_if_large (Some \<lparr> cbase = b, csize = n \<rparr>) s1 }
             else do {
               combined \<leftarrow> chunk_new new_base new_size;
               insert_if_large (Some combined) s }) = Some s' \<and> sb_ok s'
      \<and> sb_view s' = (if may_combine lo (x + y) then (sb_view s)(lo \<mapsto> x + y)
                      else put ((sb_view s)(b' \<mapsto> k)) b n)"
proof -
  have top: "lo + x + y \<le> 4294967296" "0 < x" "0 < y" using lo hi by (auto simp: span_ok_def)
  have nb: "min b b' = lo" and ns: "wadd32 n k = x + y"
    using pieces top pos by (auto simp: wadd32_exact)
  have xy16: "16 \<le> x + y" using pieces k16 by auto
  have views_pos: "\<And>z m. sb_view s z = Some m \<Longrightarrow> 0 < m" using sb.view_pos [OF ok] .
  show ?thesis
  proof (cases "may_combine lo (x + y)")
    case True
    have sp: "span_ok lo (x + y)" using True top pos
      by (auto simp: span_ok_def may_combine_def PAGE_SIZE_def page_aligned_def)
    have "avoids (sb_view s) lo (x + y)" using av views_pos top by (intro avoids_merge) auto
    from insert_if_large_spec [OF ok sp this] obtain s' where
      "insert_if_large (Some \<lparr> cbase = lo, csize = x + y \<rparr>) s = Some s'" "sb_ok s'"
      "sb_view s' = put (sb_view s) lo (x + y)" by blast
    then show ?thesis using True nb ns chunk_new_ok [OF sp] xy16
      by (auto simp: may_combine_def PAGE_SIZE_def page_aligned_def put_def Let_def)
  next
    case False
    have sp: "span_ok b n" "span_ok b' k" and av': "avoids (sb_view s) b n" "avoids (sb_view s) b' k"
      using pieces lo hi av by auto
    from insert_if_large_spec [OF ok sp(2) av'(2)] k16 obtain s1 where
      s1: "insert_if_large (Some \<lparr> cbase = b', csize = k \<rparr>) s = Some s1" "sb_ok s1"
        "sb_view s1 = (sb_view s)(b' \<mapsto> k)" by (auto simp: put_def)
    have "avoids (sb_view s1) b n" unfolding s1(3) using av'(1) by (rule avoids_upd) (use pieces in auto)
    from insert_if_large_spec [OF s1(2) sp(1) this] obtain s' where
      "insert_if_large (Some \<lparr> cbase = b, csize = n \<rparr>) s1 = Some s'" "sb_ok s'"
      "sb_view s' = put (sb_view s1) b n" by blast
    then show ?thesis using False nb ns s1
      by (auto simp: may_combine_def PAGE_SIZE_def page_aligned_def Let_def)
  qed
qed

lemma alloc_inv_free0: "alloc_inv a \<Longrightarrow> free_view a 0 = None"
  using alloc_wf_used_not_free [of a 0] by (auto simp: alloc_inv_def)

lemma put_fits: "disjoint_view v \<Longrightarrow> avoids v b n \<Longrightarrow> disjoint_view (put v b n)"
  by (simp add: put_def disjoint_view_insert)

lemma separate_put: "separate u v \<Longrightarrow> avoids u b n \<Longrightarrow> separate u (put v b n)"
  by (simp add: put_def separate_into)

text \<open>The free list after \<open>free\<close> still fits together with the rest.\<close>

lemma free_effect_wf:
  assumes eff: "free_effect v b n v'" and d: "disjoint_view v" and av: "avoids v b n"
    and sep: "separate u v" and au: "avoids u b n"
    and pos: "\<And>x m. v x = Some m \<Longrightarrow> 0 < m" "\<And>x m. u x = Some m \<Longrightarrow> 0 < m" "0 < n"
  shows "disjoint_view v' \<and> separate u v'"
proof (cases "v (b + n)")
  case (Some k)
  have k: "avoids (v(b + n := None)) (b + n) k" using d Some by (rule disjoint_view_avoids)
  have av': "avoids (v(b + n := None)) b n" using av by (rule avoids_del)
  have "avoids (v(b + n := None)) b (n + k)"
    by (rule avoids_merge [OF av' k]) (use pos Some in \<open>auto split: if_splits\<close>)
  moreover have "avoids u b (n + k)"
    using avoids_merge [OF au separateD [OF sep Some]] pos Some by auto
  ultimately have "disjoint_view (v(b + n := None, b \<mapsto> n + k)) \<and> separate u (v(b + n := None, b \<mapsto> n + k))"
    using d sep by (simp add: disjoint_view_insert disjoint_view_del separate_into separate_shrink)
  moreover have "disjoint_view (put v b n) \<and> separate u (put v b n)"
    using d av sep au by (simp add: put_fits separate_put)
  ultimately show ?thesis using eff Some by (simp add: free_effect_def)
next
  case None
  have keep: "disjoint_view (put v b n) \<and> separate u (put v b n)"
    using d av sep au by (simp add: put_fits separate_put)
  consider (merge) p k where "v p = Some k" "p + k = b"
      "v' = (if may_combine p (k + n) then v(p \<mapsto> k + n) else put v b n)"
    | (keep) "v' = put v b n" using eff None by (auto simp: free_effect_def)
  then show ?thesis
  proof cases
    case merge
    have k: "avoids (v(p := None)) p k" using d merge(1) by (rule disjoint_view_avoids)
    have av': "avoids (v(p := None)) (p + k) n" unfolding merge(2) using av by (rule avoids_del)
    have "avoids (v(p := None)) p (k + n)"
      by (rule avoids_merge [OF k av']) (use pos merge(1) in \<open>auto split: if_splits\<close>)
    from disjoint_view_insert [OF disjoint_view_del [OF d] this]
    have "disjoint_view (v(p \<mapsto> k + n))" by simp
    moreover have "avoids u p (k + n)"
      using avoids_merge [OF separateD [OF sep merge(1)]] au pos merge by auto
    then have "separate u (v(p \<mapsto> k + n))" using sep by (simp add: separate_into)
    ultimately show ?thesis using merge(3) keep by simp
  next
    case keep
    then show ?thesis using \<open>disjoint_view (put v b n) \<and> separate u (put v b n)\<close> by simp
  qed
qed

lemma allocator_free_spec:
  assumes inv: "alloc_inv a" and b0: "b \<noteq> 0" and get: "used_view a b = Some n"
  shows "\<exists>a'. allocator_free b a = Some (n, a') \<and> alloc_inv a'
      \<and> used_view a' = (used_view a)(b := None) \<and> free_effect (free_view a) b n (free_view a')"
proof -
  have wf: "alloc_wf a" using inv by (simp add: alloc_inv_def)
  have cmo: "cm_ok (used_chunks a)" and sbo: "sb_ok (unused_chunks a)"
    and du: "disjoint_view (used_view a)" and df: "disjoint_view (free_view a)"
    and sep: "separate (used_view a) (free_view a)"
    using wf by (simp_all add: alloc_wf_def)
  have sp: "span_ok b n" using alloc_wf_used [OF wf get] .
  have av: "avoids (free_view a) b n" using sep get by (simp add: separate_def)
  have n0: "0 < n" using sp by (simp add: span_ok_def)
  let ?u = "bt_remove b (used_chunks a)"
  have u: "map_of ?u = (used_view a)(b := None)" "cm_ok ?u"
    using cmo by (simp_all add: cm_remove_base_eq cm_ok_remove)
  let ?freed = "\<lparr> cbase = b, csize = n \<rparr>"
  define finish where "finish adj s = (case adj of
                  Some adjacent \<Rightarrow> (
                    let new_base = min b (cbase adjacent);
                        new_size = wadd32 n (csize adjacent)
                    in if PAGE_SIZE \<le> new_size \<and> \<not> page_aligned new_base then do {
                         s1 \<leftarrow> insert_if_large (Some adjacent) s;
                         insert_if_large (Some ?freed) s1 }
                       else do {
                         combined \<leftarrow> chunk_new new_base new_size;
                         insert_if_large (Some combined) s })
                | None \<Rightarrow> insert_if_large (Some ?freed) s)" for adj s
  have run: "allocator_free b a = do { (adj, s) \<leftarrow> take_adjacent ?freed (unused_chunks a);
      s' \<leftarrow> finish adj s; Some (n, \<lparr> used_chunks = ?u, unused_chunks = s' \<rparr>) }"
    using get by (simp add: allocator_free_def cm_remove_with_base_def finish_def cong: option.case_cong)
  have "\<exists>adj s s'. take_adjacent ?freed (unused_chunks a) = Some (adj, s) \<and> finish adj s = Some s'
      \<and> sb_ok s' \<and> free_effect (free_view a) b n (sb_view s')"
    using take_adjacent_spec [OF sbo sp av df alloc_inv_free0 [OF inv]]
  proof (elim disjE exE conjE)
    fix k s assume k: "free_view a (b + n) = Some k"
      and t: "take_adjacent ?freed (unused_chunks a) = Some (Some \<lparr> cbase = b + n, csize = k \<rparr>, s)"
      and s: "sb_ok s" "sb_view s = (free_view a)(b + n := None)"
    have k': "span_ok (b + n) k" "16 \<le> k" using alloc_wf_free [OF wf k] by auto
    have a1: "avoids (sb_view s) b n" unfolding s(2) using av by (rule avoids_del)
    have a2: "avoids (sb_view s) (b + n) k" unfolding s(2) using df k by (rule disjoint_view_avoids)
    have "\<exists>s'. finish (Some \<lparr> cbase = b + n, csize = k \<rparr>) s = Some s' \<and> sb_ok s'
        \<and> sb_view s' = (if may_combine b (n + k) then (sb_view s)(b \<mapsto> n + k)
                        else put ((sb_view s)(b + n \<mapsto> k)) b n)"
      using combine_or_keep [OF s(1) sp k'(1) a1 a2 _ _ k'(2), of b n "b + n"] b0
      by (simp add: finish_def)
    moreover have "put ((sb_view s)(b + n \<mapsto> k)) b n = put (free_view a) b n"
      using s(2) k by (simp add: fun_upd_idem)
    ultimately show ?thesis using t k s(2) by (auto simp: free_effect_def)
  next
    fix p k s assume none: "free_view a (b + n) = None" and pk: "free_view a p = Some k" "p + k = b"
      and t: "take_adjacent ?freed (unused_chunks a) = Some (Some \<lparr> cbase = p, csize = k \<rparr>, s)"
      and s: "sb_ok s" "sb_view s = (free_view a)(p := None)"
    have k': "span_ok p k" "16 \<le> k" using alloc_wf_free [OF wf pk(1)] by auto
    have p0: "0 < p" using pk(1) alloc_inv_free0 [OF inv] by (cases "p = 0") auto
    have a1: "avoids (sb_view s) p k" unfolding s(2) using df pk(1) by (rule disjoint_view_avoids)
    have a2: "avoids (sb_view s) (p + k) n" unfolding s(2) pk(2) using av by (rule avoids_del)
    have "\<exists>s'. finish (Some \<lparr> cbase = p, csize = k \<rparr>) s = Some s' \<and> sb_ok s'
        \<and> sb_view s' = (if may_combine p (k + n) then (sb_view s)(p \<mapsto> k + n)
                        else put ((sb_view s)(p \<mapsto> k)) b n)"
      using combine_or_keep [OF s(1) k'(1) _ a1 a2 p0 _ k'(2), of b n p] sp pk(2)
      by (simp add: finish_def)
    moreover have "put ((sb_view s)(p \<mapsto> k)) b n = put (free_view a) b n"
      using s(2) pk(1) by (simp add: fun_upd_idem)
    moreover have "(sb_view s)(p \<mapsto> k + n) = (free_view a)(p \<mapsto> k + n)" using s(2) by simp
    ultimately show ?thesis using t pk none unfolding free_effect_def by (auto split: if_splits)
  next
    fix s assume none: "free_view a (b + n) = None" "\<forall>p k. free_view a p = Some k \<longrightarrow> p + k \<noteq> b"
      and t: "take_adjacent ?freed (unused_chunks a) = Some (None, s)"
      and s: "sb_ok s" "sb_view s = free_view a"
    from insert_if_large_spec [OF s(1) sp] av s(2) t none show ?thesis
      by (fastforce simp: finish_def free_effect_def)
  qed
  then obtain adj s s' where r: "take_adjacent ?freed (unused_chunks a) = Some (adj, s)"
    "finish adj s = Some s'" "sb_ok s'" "free_effect (free_view a) b n (sb_view s')" by blast
  let ?a' = "\<lparr> used_chunks = ?u, unused_chunks = s' \<rparr>"
  have au: "avoids ((used_view a)(b := None)) b n" using du get by (rule disjoint_view_avoids)
  have sep': "separate ((used_view a)(b := None)) (free_view a)" using sep by (rule separate_del)
  have "disjoint_view (sb_view s') \<and> separate ((used_view a)(b := None)) (sb_view s')"
    by (rule free_effect_wf [OF r(4) df av sep' au])
       (use sb.view_pos [OF sbo] cm.view_pos [OF cmo] n0 in \<open>auto split: if_splits\<close>)
  then have "alloc_wf ?a'" using u r(3) du by (simp add: alloc_wf_def disjoint_view_del)
  then have "alloc_inv ?a'" using inv u b0 by (simp add: alloc_inv_def)
  then show ?thesis using run r u(1) by auto
qed

lemma allocator_free_unknown:
  "used_view a b = None \<Longrightarrow> allocator_free b a = Some (0, a)"
  by (simp add: allocator_free_def cm_remove_with_base_def bt_remove_absent)

section \<open>\<open>grow_in_place\<close>\<close>

text \<open>
  Growing \<open>(b, old)\<close> to at least \<open>new\<close> bytes: either nothing changes, or the free chunk behind the
  block gives up its front, or all of itself.
\<close>

definition grow_effect :: "(nat \<Rightarrow> nat option) \<Rightarrow> nat \<Rightarrow> nat \<Rightarrow> nat \<Rightarrow> nat \<Rightarrow> (nat \<Rightarrow> nat option) \<Rightarrow> bool" where
  "grow_effect v b old new g v' = (\<exists>k. v (b + old) = Some k \<and> new - old \<le> k \<and>
     (g = old + k \<and> v' = v(b + old := None) \<or>
      g = new \<and> k < 4096 \<and> new - old + 16 \<le> k \<and> v' = v(b + old := None, b + new \<mapsto> old + k - new)))"

lemma grow_effect_bounds:
  "grow_effect v b old new g v' \<Longrightarrow> old \<le> new \<Longrightarrow> new \<le> g"
  unfolding grow_effect_def by auto

lemma grow_in_place_spec:
  assumes inv: "alloc_inv a" and b0: "b \<noteq> 0" and get: "used_view a b = Some old"
    and new: "old < new" "new < 4294967296"
  shows "(\<exists>a'. grow_in_place b old new a = Some (None, a') \<and> alloc_inv a'
            \<and> used_view a' = used_view a \<and> free_view a' = free_view a) \<or>
    (\<exists>g a'. grow_in_place b old new a = Some (Some g, a') \<and> alloc_inv a'
            \<and> used_view a' = (used_view a)(b \<mapsto> g) \<and> grow_effect (free_view a) b old new g (free_view a'))"
proof -
  have wf: "alloc_wf a" using inv by (simp add: alloc_inv_def)
  have cmo: "cm_ok (used_chunks a)" and sbo: "sb_ok (unused_chunks a)"
    and du: "disjoint_view (used_view a)" and df: "disjoint_view (free_view a)"
    and sep: "separate (used_view a) (free_view a)"
    using wf by (simp_all add: alloc_wf_def)
  have sp: "span_ok b old" using alloc_wf_used [OF wf get] .
  have top: "b + old \<le> 4294967296" "0 < old" using sp by (auto simp: span_ok_def)
  define e where "e = wadd32 b old"
  have extra: "wsub32 new old = new - old" using new by (simp add: wsub32_exact)
  have e0: "free_view a e \<noteq> None \<Longrightarrow> e = b + old"
    using alloc_inv_free0 [OF inv] top by (cases "b + old = 4294967296") (auto simp: e_def wadd32_exact wadd32_top)
  from sb.remove_base_law [OF sbo, of e] obtain s0 where
    s0: "sb_remove_with_base e (unused_chunks a) = Some (map_option (\<lambda>k. \<lparr> cbase = e, csize = k \<rparr>) (free_view a e), s0)"
    "sb_ok s0" "sb_view s0 = (free_view a)(e := None)" by blast
  have wf_same: "alloc_inv (a\<lparr> unused_chunks := s \<rparr>)" if "sb_ok s" "sb_view s = free_view a" for s
    using inv that by (simp add: alloc_inv_def alloc_wf_def)
  show ?thesis
  proof (cases "free_view a e")
    case None
    have "grow_in_place b old new a = Some (None, a\<lparr> unused_chunks := s0 \<rparr>)"
      using get s0(1) None by (simp add: grow_in_place_def cm_get_size_with_base_def Let_def e_def)
    moreover have "sb_view s0 = free_view a" using s0(3) None by (simp add: fun_upd_idem)
    ultimately show ?thesis using wf_same s0(2) by auto
  next
    case (Some k)
    then have e: "e = b + old" using e0 by simp
    have ks: "span_ok (b + old) k" "16 \<le> k" using alloc_wf_free [OF wf] Some e by auto
    have ktop: "b + old + k \<le> 4294967296" using ks by (simp add: span_ok_def)
    let ?adj = "\<lparr> cbase = e, csize = k \<rparr>"
    have "avoids (sb_view s0) (b + old) k" unfolding s0(3) e using df Some e by (intro disjoint_view_avoids) auto
    from sb_insert_avoiding [OF s0(2) ks this] obtain s1 where
      put_back: "sb_insert ?adj s0 = Some s1" "sb_ok s1" "sb_view s1 = free_view a"
      using s0(3) Some e by (auto simp: fun_upd_idem)
    have stay: "\<exists>a'. Some (None :: nat option, a\<lparr> unused_chunks := s1 \<rparr>) = Some (None, a') \<and> alloc_inv a'
            \<and> used_view a' = used_view a \<and> free_view a' = free_view a"
      using wf_same put_back by auto
    define g where "g = grown_size_for old new k"
    let ?fits = "\<not> k < new - old \<and> \<not> (PAGE_SIZE \<le> g \<and> \<not> page_aligned b)"
    show ?thesis
    proof (cases ?fits)
      case False
      then have "grow_in_place b old new a = Some (None, a\<lparr> unused_chunks := s1 \<rparr>)"
        using get s0(1) Some put_back(1) extra
        by (auto simp: grow_in_place_def cm_get_size_with_base_def Let_def e_def g_def)
      then show ?thesis using stay by metis
    next
      case True
      have oldk: "wadd32 old k = old + k" using ktop b0 top by (simp add: wadd32_exact)
      have rem: "wsub32 k (new - old) = k - (new - old)" using True ks by (simp add: wsub32_exact span_ok_def)
      define tail where "tail = (k < 4096 \<and> 16 \<le> k - (new - old))"
      have g: "g = (if tail then new else old + k)"
        by (auto simp: g_def grown_size_for_def oldk extra rem tail_def PAGE_SIZE_def MIN_CHUNK_SIZE_def)
      have gb: "b + g \<le> b + old + k" "old < g" using True new ks by (auto simp: g tail_def)
      have sg: "span_ok b g" using gb ktop b0 top True by (auto simp: span_ok_def)
      have "\<exists>s2. (if k < PAGE_SIZE
                       then (let remainder = wsub32 k (wsub32 new old) in
                             if MIN_CHUNK_SIZE \<le> remainder
                             then do { c \<leftarrow> chunk_new (wadd32 e (wsub32 new old)) remainder; sb_insert c s0 }
                             else Some s0)
                       else Some s0) = Some s2 \<and> sb_ok s2
          \<and> sb_view s2 = (if tail then (free_view a)(b + old := None, b + new \<mapsto> old + k - new)
                          else (free_view a)(b + old := None))"
      proof (cases tail)
        case t: True
        have pos: "wadd32 e (new - old) = b + new" using t e new ktop
          by (auto simp: wadd32_exact tail_def)
        have len: "k - (new - old) = old + k - new" using new by simp
        have sr: "span_ok (b + new) (old + k - new)"
          using t new ktop by (auto simp: span_ok_def tail_def PAGE_SIZE_def)
        have "avoids (sb_view s0) (b + new) (old + k - new)"
          using \<open>avoids (sb_view s0) (b + old) k\<close> by (rule avoids_sub) (use new True in auto)
        from sb_insert_avoiding [OF s0(2) sr _ this] t len obtain s2 where
          "sb_insert \<lparr> cbase = b + new, csize = old + k - new \<rparr> s0 = Some s2" "sb_ok s2"
          "sb_view s2 = (sb_view s0)(b + new \<mapsto> old + k - new)" by (auto simp: tail_def)
        then show ?thesis using t s0(3) e extra rem pos len chunk_new_ok [OF sr]
          by (simp add: tail_def PAGE_SIZE_def MIN_CHUNK_SIZE_def)
      next
        case False
        then show ?thesis using s0 e extra rem
          by (auto simp: tail_def PAGE_SIZE_def MIN_CHUNK_SIZE_def Let_def)
      qed
      then obtain s2 where s2: "(if k < PAGE_SIZE
                       then (let remainder = wsub32 k (wsub32 new old) in
                             if MIN_CHUNK_SIZE \<le> remainder
                             then do { c \<leftarrow> chunk_new (wadd32 e (wsub32 new old)) remainder; sb_insert c s0 }
                             else Some s0)
                       else Some s0) = Some s2" "sb_ok s2"
          "sb_view s2 = (if tail then (free_view a)(b + old := None, b + new \<mapsto> old + k - new)
                          else (free_view a)(b + old := None))" by blast
      let ?u = "bt_remove b (used_chunks a)"
      have u: "map_of ?u = (used_view a)(b := None)" "cm_ok ?u"
        using cmo by (simp_all add: cm_remove_base_eq cm_ok_remove)
      have gk: "chunk_ok \<lparr> cbase = b, csize = g \<rparr>" using sg by (simp add: chunk_ok_def)
      from cm.insert_law [OF u(2) gk] u(1) obtain used where
        used: "cm_insert \<lparr> cbase = b, csize = g \<rparr> ?u = Some used" "cm_ok used" "map_of used = (used_view a)(b \<mapsto> g)"
        by auto
      let ?a' = "\<lparr> used_chunks = used, unused_chunks = s2 \<rparr>"
      have no_stop: "(k < wsub32 new old) = False" "(PAGE_SIZE \<le> g \<and> \<not> page_aligned b) = False"
        using True extra by auto
      have known: "(cm_get_size_with_base b (used_chunks a) = None) = False"
        using get by (simp add: cm_get_size_with_base_def)
      have taken: "cm_remove_with_base b (used_chunks a) = Some (Some \<lparr> cbase = b, csize = old \<rparr>, ?u)"
        using get by (simp add: cm_remove_with_base_def)
      have run: "grow_in_place b old new a = Some (Some g, ?a')"
        unfolding grow_in_place_def
        by (simp only: Let_def e_def [symmetric] known s0(1) Some option.map Option.bind_lunit
            prod.case option.case chunk.select_convs g_def [symmetric] no_stop if_False
            s2(1) [unfolded Let_def] taken chunk_new_ok [OF sg] used(1))
      have eff: "grow_effect (free_view a) b old new g (sb_view s2)"
        using Some e True s2(3) g new by (auto simp: grow_effect_def tail_def)
      \<comment> \<open>the grown block takes over bytes that were free\<close>
      have grown_used: "avoids ((used_view a)(b := None)) b (old + k)"
        by (rule avoids_merge) (use du get sep Some e cm.view_pos [OF cmo] top ks in
          \<open>auto split: if_splits intro: disjoint_view_avoids avoids_del separateD\<close>)
      then have avg: "avoids ((used_view a)(b := None)) b g" by (rule avoids_sub) (use gb in auto)
      have "disjoint_view ((used_view a)(b := None, b \<mapsto> g))"
        using du avg by (intro disjoint_view_insert disjoint_view_del)
      then have d1: "disjoint_view (map_of used)" using used(3) by simp
      have rest: "avoids ((free_view a)(b + old := None)) b (old + k)"
        by (rule avoids_merge) (use df get sep Some e sb.view_pos [OF sbo] top ks in
          \<open>auto split: if_splits intro: disjoint_view_avoids avoids_del simp: separate_def\<close>)
      have tailspan: "tail \<Longrightarrow> b + new + (old + k - new) = b + (old + k)" using True new by auto
      have rest': "tail \<Longrightarrow> avoids ((free_view a)(b + old := None)) (b + new) (old + k - new)"
        using rest by (rule avoids_sub) (use tailspan new in auto)
      have av_free: "avoids (sb_view s2) b g"
      proof (cases tail)
        case True
        have "avoids ((free_view a)(b + old := None)) b g" using rest by (rule avoids_sub) (use gb in auto)
        then show ?thesis unfolding s2(3) using True g by (simp add: avoids_upd)
      next
        case False
        then show ?thesis using s2(3) g rest by simp
      qed
      have d2: "disjoint_view (sb_view s2)"
        using rest' df s2(3) by (auto simp: disjoint_view_insert disjoint_view_del)
      have "avoids ((used_view a)(b := None)) (b + new) (old + k - new)" if "tail"
        using grown_used by (rule avoids_sub) (use tailspan [OF that] new in auto)
      then have "separate ((used_view a)(b := None)) (sb_view s2)"
        using sep s2(3) by (auto simp: separate_into separate_shrink separate_del)
      then have "separate ((used_view a)(b := None, b \<mapsto> g)) (sb_view s2)"
        using av_free by (rule separate_add)
      then have "separate (map_of used) (sb_view s2)" using used(3) by simp
      then have "alloc_wf ?a'" using used(2) s2(2) d1 d2 by (simp add: alloc_wf_def)
      then have "alloc_inv ?a'" using inv used(3) by (auto simp: alloc_inv_def)
      then show ?thesis using run used(3) eff by auto
    qed
  qed
qed

section \<open>\<open>reserve\<close>\<close>

definition holds_chunk :: "chunk \<Rightarrow> chunk \<Rightarrow> bool" where
  "holds_chunk u c = (cbase u \<le> cbase c \<and> cbase c + csize c \<le> cbase u + csize u)"

text \<open>What is left of a free chunk to the left and to the right of a chunk it holds.\<close>

definition left_part :: "chunk \<Rightarrow> chunk \<Rightarrow> chunk option" where
  "left_part u c = (if cbase c = cbase u then None else Some \<lparr> cbase = cbase u, csize = cbase c - cbase u \<rparr>)"

definition right_part :: "chunk \<Rightarrow> chunk \<Rightarrow> chunk option" where
  "right_part u c = (let e = cbase c + csize c; n = cbase u + csize u - e
     in if n = 0 then None else Some \<lparr> cbase = e, csize = n \<rparr>)"

text \<open>The remainder on the right must not be a page or more from an unaligned address.\<close>

definition reservable :: "chunk \<Rightarrow> chunk \<Rightarrow> bool" where
  "reservable c u = (holds_chunk u c \<longrightarrow> 4096 \<le> cbase u + csize u - (cbase c + csize c) \<longrightarrow>
     (cbase c + csize c) mod 4096 = 0)"

lemma trisect_by_spec:
  assumes u: "chunk_ok u" and c: "chunk_ok c" and r: "reservable c u"
  shows "trisect_by u c = Some (if holds_chunk u c then Some (left_part u c, right_part u c) else None)"
proof (cases "holds_chunk u c")
  case False
  have "\<not> contains u (cbase c) \<or> \<not> contains u (last_byte c)"
    using False u c by (auto simp: holds_chunk_def contains_def last_byte_ok chunk_ok_def span_ok_def)
  then show ?thesis using False by (simp add: trisect_by_def)
next
  case True
  have uc: "cbase u \<le> cbase c" "cbase c + csize c \<le> cbase u + csize u"
    "0 < csize c" "cbase u + csize u \<le> 4294967296" "csize u < 4294967296"
    using True u c by (auto simp: holds_chunk_def chunk_ok_def span_ok_def)
  have cont: "contains u (cbase c)" "contains u (last_byte c)"
    using uc u c by (auto simp: contains_def last_byte_ok)
  have l: "wsub32 (cbase c) (cbase u) = cbase c - cbase u" using uc by (simp add: wsub32_exact)
  have rr: "wsub32 (last_byte u) (last_byte c) = cbase u + csize u - (cbase c + csize c)"
    using uc u c by (simp add: wsub32_exact last_byte_ok)
  have left: "chunk_new_nonempty (cbase u) (cbase c - cbase u) = Some (left_part u c)"
    using uc u by (auto simp: chunk_new_nonempty_def left_part_def chunk_new_def chunk_ok_def span_ok_def PAGE_SIZE_def)
  have right: "chunk_new_nonempty (wadd32 (last_byte c) 1) (cbase u + csize u - (cbase c + csize c))
      = Some (right_part u c)"
  proof (cases "cbase u + csize u = cbase c + csize c")
    case True
    then show ?thesis by (simp add: chunk_new_nonempty_def right_part_def)
  next
    case False
    then have "wadd32 (last_byte c) 1 = cbase c + csize c"
      by (intro last_byte_end [OF c]) (use uc in auto)
    then show ?thesis using False r True uc
      by (auto simp: chunk_new_nonempty_def right_part_def chunk_new_def PAGE_SIZE_def page_aligned_def
          reservable_def Let_def)
  qed
  show ?thesis using True cont l rr left right by (simp add: trisect_by_def)
qed

lemma reserve_find_spec:
  assumes "\<forall>u \<in> set us. chunk_ok u \<and> reservable c u" "chunk_ok c"
  shows "reserve_find c us = Some (List.find (\<lambda>u. holds_chunk u c) us)"
  using assms by (induction us) (auto simp: trisect_by_spec)

lemma sb_iter_set: "sb_ok s \<Longrightarrow> u \<in> set (sb_iter s) \<longleftrightarrow> sb_view s (cbase u) = Some (csize u)"
proof -
  assume ok: "sb_ok s"
  show ?thesis
  proof
    assume "u \<in> set (sb_iter s)"
    then obtain bk where "bk \<in> set (sb_buckets s)" "u \<in> set bk" by (auto simp: sb_iter_def)
    then obtain i where "i < length (sb_buckets s)" "u \<in> set (sb_buckets s ! i)"
      by (metis in_set_conv_nth)
    then show "sb_view s (cbase u) = Some (csize u)"
      using ok by (auto simp: sb_ok_def sb_view_def)
  next
    assume v: "sb_view s (cbase u) = Some (csize u)"
    have "u \<in> set (sb_buckets s ! bucket_for (csize u))" "bucket_for (csize u) < length (sb_buckets s)"
      using sb_view_bucket [OF ok v] bucket_for_bound [of "csize u"] ok by (cases u; auto simp: sb_ok_def)+
    then show "u \<in> set (sb_iter s)" unfolding sb_iter_def set_concat by (meson UN_iff nth_mem)
  qed
qed

lemma insert_part_spec:
  assumes ok: "sb_ok s" and p: "\<And>c. p = Some c \<Longrightarrow> span_ok (cbase c) (csize c) \<and> avoids (sb_view s) (cbase c) (csize c)"
  shows "\<exists>s'. insert_if_large p s = Some s' \<and> sb_ok s'
     \<and> sb_view s' = (case p of None \<Rightarrow> sb_view s | Some c \<Rightarrow> put (sb_view s) (cbase c) (csize c))"
proof (cases p)
  case None
  then show ?thesis using ok by (simp add: insert_if_large_def)
next
  case (Some c)
  have "\<lparr> cbase = cbase c, csize = csize c \<rparr> = c" by simp
  then show ?thesis using insert_if_large_spec [OF ok] p [OF Some] Some by (metis option.simps(5))
qed

text \<open>What a reservation does to the free list, for the free chunk \<open>u\<close> that holds it.\<close>

definition put_part :: "chunk option \<Rightarrow> (nat \<Rightarrow> nat option) \<Rightarrow> (nat \<Rightarrow> nat option)" where
  "put_part p v = (case p of None \<Rightarrow> v | Some c \<Rightarrow> put v (cbase c) (csize c))"

definition reserve_view :: "chunk \<Rightarrow> chunk \<Rightarrow> (nat \<Rightarrow> nat option) \<Rightarrow> (nat \<Rightarrow> nat option)" where
  "reserve_view u c v = put_part (right_part u c) (put_part (left_part u c) (v(cbase u := None)))"

lemma put_cases: "put v b n = v \<or> 16 \<le> n \<and> put v b n = v(b \<mapsto> n)"
  by (simp add: put_def)

lemma put_avoids: "avoids v b n \<Longrightarrow> b' + n' \<le> b \<or> b + n \<le> b' \<Longrightarrow> avoids (put v b' n') b n"
  by (simp add: put_def avoids_upd)

lemma allocator_reserve_nowhere:
  assumes wf: "alloc_wf a" and c: "chunk_ok c"
    and no: "\<forall>b m. free_view a b = Some m \<longrightarrow> \<not> holds_chunk \<lparr> cbase = b, csize = m \<rparr> c"
  shows "allocator_reserve c a = Some a"
proof -
  have sbo: "sb_ok (unused_chunks a)" using wf by (simp add: alloc_wf_def)
  have all: "chunk_ok u \<and> reservable c u" "\<not> holds_chunk u c" if "u \<in> set (sb_iter (unused_chunks a))" for u
  proof -
    have v: "free_view a (cbase u) = Some (csize u)" using that sb_iter_set [OF sbo] by blast
    show "\<not> holds_chunk u c" using no v by (cases u) auto
    then show "chunk_ok u \<and> reservable c u"
      using alloc_wf_free [OF wf v] by (simp add: chunk_ok_def reservable_def)
  qed
  have "List.find (\<lambda>u. holds_chunk u c) (sb_iter (unused_chunks a)) = None"
    unfolding find_None_iff using all(2) by blast
  then show ?thesis using reserve_find_spec [of "sb_iter (unused_chunks a)" c] all(1) c
    by (simp add: allocator_reserve_def)
qed

lemma holds_chunk_unique:
  assumes d: "disjoint_view v" and v: "v (cbase u) = Some (csize u)" "v (cbase w) = Some (csize w)"
    and h: "holds_chunk u c" "holds_chunk w c" and c: "0 < csize c"
  shows "u = w"
proof -
  have "cbase u = cbase w"
  proof (rule ccontr)
    assume ne: "cbase u \<noteq> cbase w"
    have "cbase u + csize u \<le> cbase w \<or> cbase w + csize w \<le> cbase u"
      using avoids_neighbour [OF d v ne] .
    then show False using h c unfolding holds_chunk_def by linarith
  qed
  then show ?thesis using v by simp
qed

lemma parts_inside:
  assumes u: "span_ok (cbase u) (csize u)" and c: "chunk_ok c" and h: "holds_chunk u c" and r: "reservable c u"
  shows "left_part u c = Some l \<Longrightarrow> span_ok (cbase l) (csize l) \<and> cbase l = cbase u \<and> cbase l + csize l = cbase c"
    and "right_part u c = Some q \<Longrightarrow> span_ok (cbase q) (csize q) \<and> cbase q = cbase c + csize c
           \<and> cbase q + csize q = cbase u + csize u"
proof -
  have in_u: "cbase u \<le> cbase c" "cbase c + csize c \<le> cbase u + csize u" "0 < csize c"
    "cbase u + csize u \<le> 4294967296" "csize u < 4294967296" "4096 \<le> csize u \<Longrightarrow> cbase u mod 4096 = 0"
    using u c h by (auto simp: holds_chunk_def chunk_ok_def span_ok_def PAGE_SIZE_def page_aligned_def)
  have r': "4096 \<le> cbase u + csize u - (cbase c + csize c) \<Longrightarrow> (cbase c + csize c) mod 4096 = 0"
    using r h by (simp add: reservable_def)
  show "span_ok (cbase l) (csize l) \<and> cbase l = cbase u \<and> cbase l + csize l = cbase c" if "left_part u c = Some l"
  proof -
    have "l = \<lparr> cbase = cbase u, csize = cbase c - cbase u \<rparr>" "cbase c \<noteq> cbase u"
      using that by (simp_all add: left_part_def split: if_splits)
    then show ?thesis using in_u by (simp add: span_ok_def PAGE_SIZE_def page_aligned_def)
  qed
  show "span_ok (cbase q) (csize q) \<and> cbase q = cbase c + csize c \<and> cbase q + csize q = cbase u + csize u"
    if "right_part u c = Some q"
  proof -
    have "q = \<lparr> cbase = cbase c + csize c, csize = cbase u + csize u - (cbase c + csize c) \<rparr>"
      "cbase u + csize u \<noteq> cbase c + csize c"
      using that in_u by (simp_all add: right_part_def Let_def split: if_splits)
    then show ?thesis using in_u(1,2,3,4,5) r' by (simp add: span_ok_def PAGE_SIZE_def page_aligned_def)
  qed
qed

lemma put_part_wf:
  assumes "disjoint_view v" "separate w v" and "\<And>l. p = Some l \<Longrightarrow> avoids v (cbase l) (csize l)"
    and "\<And>l. p = Some l \<Longrightarrow> avoids w (cbase l) (csize l)"
  shows "disjoint_view (put_part p v) \<and> separate w (put_part p v)"
  using assms by (cases p) (auto simp: put_part_def put_fits separate_put)

lemma avoids_put_part:
  assumes "avoids v b n" "\<And>l. p = Some l \<Longrightarrow> cbase l + csize l \<le> b \<or> b + n \<le> cbase l"
  shows "avoids (put_part p v) b n"
  using assms by (cases p) (auto simp: put_part_def intro: put_avoids)

lemma allocator_reserve_found:
  assumes wf: "alloc_wf a" and c: "chunk_ok c" and get: "free_view a (cbase u) = Some (csize u)"
    and h: "holds_chunk u c" and r: "reservable c u"
  shows "\<exists>a'. allocator_reserve c a = Some a' \<and> alloc_wf a'
      \<and> used_view a (cbase c) = None \<and> used_view a' = (used_view a)(cbase c \<mapsto> csize c)
      \<and> free_view a' = reserve_view u c (free_view a)"
proof -
  have cmo: "cm_ok (used_chunks a)" and sbo: "sb_ok (unused_chunks a)"
    and du: "disjoint_view (used_view a)" and df: "disjoint_view (free_view a)"
    and sep: "separate (used_view a) (free_view a)"
    using wf by (simp_all add: alloc_wf_def)
  have su: "span_ok (cbase u) (csize u)" using alloc_wf_free [OF wf get] by simp
  have cpos: "0 < csize c" using c by (simp add: chunk_ok_def span_ok_def)
  have only: "w = u" if "w \<in> set (sb_iter (unused_chunks a))" "holds_chunk w c" for w
    using holds_chunk_unique [OF df _ get that(2) h cpos] that(1) sb_iter_set [OF sbo] by blast
  have all: "\<forall>w \<in> set (sb_iter (unused_chunks a)). chunk_ok w \<and> reservable c w"
  proof
    fix w assume w: "w \<in> set (sb_iter (unused_chunks a))"
    then have "free_view a (cbase w) = Some (csize w)" using sb_iter_set [OF sbo] by blast
    then have "chunk_ok w" using alloc_wf_free [OF wf] by (simp add: chunk_ok_def)
    moreover have "reservable c w" using only [OF w] r by (cases "holds_chunk w c") (auto simp: reservable_def)
    ultimately show "chunk_ok w \<and> reservable c w" by simp
  qed
  have uin: "u \<in> set (sb_iter (unused_chunks a))" using sb_iter_set [OF sbo] get by blast
  have find: "List.find (\<lambda>w. holds_chunk w c) (sb_iter (unused_chunks a)) = Some u"
  proof -
    obtain w where w: "List.find (\<lambda>w. holds_chunk w c) (sb_iter (unused_chunks a)) = Some w"
      using uin h by (cases "List.find (\<lambda>w. holds_chunk w c) (sb_iter (unused_chunks a))")
        (auto simp: find_None_iff)
    then have "w \<in> set (sb_iter (unused_chunks a))" "holds_chunk w c"
      by (auto simp: find_Some_iff)
    then show ?thesis using only w by simp
  qed
  have tri: "trisect_by u c = Some (Some (left_part u c, right_part u c))"
    using trisect_by_spec [OF _ c r] su h by (simp add: chunk_ok_def)
  let ?v = "(free_view a)(cbase u := None)"
  from sb.remove_base_law [OF sbo, of "cbase u"] obtain x s0 where
    s0: "sb_remove_with_base (cbase u) (unused_chunks a) = Some (x, s0)" "sb_ok s0" "sb_view s0 = ?v" by auto
  note pin = parts_inside [OF su c h r]
  have av: "avoids ?v (cbase u) (csize u)" using df get by (rule disjoint_view_avoids)
  have avu: "avoids (used_view a) (cbase u) (csize u)" using separateD [OF sep get] .
  have cin: "cbase u \<le> cbase c" "cbase c + csize c \<le> cbase u + csize u" using h by (auto simp: holds_chunk_def)
  have sub: "avoids v (cbase u) (csize u) \<Longrightarrow> left_part u c = Some l \<Longrightarrow> avoids v (cbase l) (csize l)"
    "avoids v (cbase u) (csize u) \<Longrightarrow> right_part u c = Some l \<Longrightarrow> avoids v (cbase l) (csize l)"
    "avoids v (cbase u) (csize u) \<Longrightarrow> avoids v (cbase c) (csize c)" for v l
    using pin(1) [of l] pin(2) [of l] cin by (auto elim!: avoids_sub)
  have lspan: "\<And>l. left_part u c = Some l \<Longrightarrow> span_ok (cbase l) (csize l) \<and> avoids (sb_view s0) (cbase l) (csize l)"
    unfolding s0(3) using pin(1) sub(1) [OF av] by blast
  from insert_part_spec [of s0 "left_part u c", OF s0(2) lspan] obtain s1 where
    s1: "insert_if_large (left_part u c) s0 = Some s1" "sb_ok s1" "sb_view s1 = put_part (left_part u c) ?v"
    unfolding s0(3) put_part_def by blast
  have rav: "avoids (sb_view s1) (cbase l) (csize l)" if "right_part u c = Some l" for l
    unfolding s1(3)
  proof (rule avoids_put_part)
    show "avoids ?v (cbase l) (csize l)" using sub(2) [OF av that] .
    show "cbase l' + csize l' \<le> cbase l \<or> cbase l + csize l \<le> cbase l'" if "left_part u c = Some l'" for l'
      using pin(1) [OF that] pin(2) [OF \<open>right_part u c = Some l\<close>] by linarith
  qed
  then have rspan: "span_ok (cbase l) (csize l) \<and> avoids (sb_view s1) (cbase l) (csize l)"
    if "right_part u c = Some l" for l using that pin(2) by blast
  from insert_part_spec [of s1 "right_part u c", OF s1(2) rspan] obtain s2 where
    s2: "insert_if_large (right_part u c) s1 = Some s2" "sb_ok s2" "sb_view s2 = reserve_view u c (free_view a)"
    unfolding s1(3) reserve_view_def put_part_def by blast
  have none: "used_view a (cbase c) = None"
    using sub(3) [OF avu] by (rule avoids_None) (use cpos cm.view_pos [OF cmo] in auto)
  from cm.insert_law [OF cmo c _ none] obtain used where
    used: "cm_insert c (used_chunks a) = Some used" "cm_ok used" "map_of used = (used_view a)(cbase c \<mapsto> csize c)"
    by auto
  let ?a' = "\<lparr> used_chunks = used, unused_chunks = s2 \<rparr>"
  have run: "allocator_reserve c a = Some ?a'"
    using reserve_find_spec [OF all c] find tri s0(1) s1(1) s2(1) used(1) by (simp add: allocator_reserve_def)
  have "disjoint_view (sb_view s1) \<and> separate (used_view a) (sb_view s1)"
    unfolding s1(3) by (rule put_part_wf) (use df sep sub(1) av avu in \<open>auto simp: disjoint_view_del separate_shrink\<close>)
  then have "disjoint_view (sb_view s2) \<and> separate (used_view a) (sb_view s2)"
    unfolding s2(3) reserve_view_def s1(3) [symmetric]
    by (intro put_part_wf) (use rav in \<open>blast intro: sub(2) [OF avu]\<close>)+
  moreover have "avoids (sb_view s2) (cbase c) (csize c)"
    unfolding s2(3) reserve_view_def
  proof (rule avoids_put_part [OF avoids_put_part [OF sub(3) [OF av]]])
    show "cbase l + csize l \<le> cbase c \<or> cbase c + csize c \<le> cbase l" if "left_part u c = Some l" for l
      using pin(1) [OF that] by linarith
    show "cbase l + csize l \<le> cbase c \<or> cbase c + csize c \<le> cbase l" if "right_part u c = Some l" for l
      using pin(2) [OF that] by linarith
  qed
  moreover have "disjoint_view (map_of used)" using used(3) du sub(3) [OF avu] by (simp add: disjoint_view_insert)
  ultimately have "alloc_wf ?a'" using used(2,3) s2(2) by (simp add: alloc_wf_def separate_add)
  then show ?thesis using run none used(3) s2(3) by auto
qed

end
