(* ===== verification/Allocator_Safety.thy ===== *)
theory Allocator_Safety
  imports Allocator
begin

text \<open>
  What the allocator promises to \<open>Mem\<close>: the properties of \<open>alloc\<close>, \<open>free\<close>, \<open>grow_in_place\<close> and
  \<open>reserve\<close> stated on the set of live blocks and on the bytes each side accounts for, and the
  safety of every sequence of calls starting from the state \<open>Mem\<close> boots with.
\<close>

section \<open>Accounting and the booted state\<close>

lemma carve_covered:
  assumes c: "carve v b m n k v'" and get: "v b = Some m" and d: "disjoint_view v" and n: "n \<le> m" "0 < n"
    and pos: "\<And>x z. v x = Some z \<Longrightarrow> 0 < z"
  shows "covered v = covered v' \<union> {b..<b + k}"
proof -
  have all: "covered v = covered (v(b := None)) \<union> {b..<b + m}" using get by (rule covered_del)
  have av: "avoids (v(b := None)) b m" using d get by (rule disjoint_view_avoids)
  have none: "(v(b := None)) x = None" if "b \<le> x" "x < b + m" for x
    using av that by (rule avoids_None) (use pos in \<open>auto split: if_splits\<close>)
  consider (whole) "k = m" "v' = v(b := None)"
    | (one) "k = n" "v' = (v(b := None))(b + n \<mapsto> m - n)" "n + 16 \<le> m"
    | (two) "k = n" "v' = (v(b := None))(b + n \<mapsto> 4096 - n, b + 4096 \<mapsto> m - 4096)" "n + 16 \<le> 4096" "4096 + n \<le> m"
    using c unfolding carve_def by blast
  then show ?thesis
  proof cases
    case whole
    then show ?thesis using all by simp
  next
    case one
    have "covered v' = covered (v(b := None)) \<union> {b + n..<b + n + (m - n)}"
      unfolding one(2) using none [of "b + n"] one(3) by (intro covered_upd) simp
    moreover have "{b..<b + m} = {b..<b + n} \<union> {b + n..<b + n + (m - n)}"
      using n by (simp add: ivl_disj_un_two(3))
    ultimately show ?thesis unfolding all one(1) by (simp add: Un_ac)
  next
    case two
    have "covered (v(b := None, b + n \<mapsto> 4096 - n)) = covered (v(b := None)) \<union> {b + n..<b + n + (4096 - n)}"
      using none [of "b + n"] two n by (intro covered_upd) simp
    moreover have "covered v' = covered (v(b := None, b + n \<mapsto> 4096 - n)) \<union> {b + 4096..<b + 4096 + (m - 4096)}"
      unfolding two(2) using none [of "b + 4096"] two n by (intro covered_upd) simp
    moreover have "{b..<b + m} = {b..<b + n} \<union> ({b + n..<b + n + (4096 - n)} \<union> {b + 4096..<b + 4096 + (m - 4096)})"
      using two(3,4) by (simp add: ivl_disj_un_two(3))
    ultimately show ?thesis unfolding all two(1) by (simp add: Un_ac)
  qed
qed

text \<open>The facts about a successful \<open>alloc\<close> that its callers need.\<close>

lemma alloc_effect_facts:
  assumes wf: "alloc_wf a" and n: "n < 4294967296" and r: "aligned_size_opt n = Some r"
    and eff: "alloc_effect r a b a'"
  obtains k m where "used_view a b = None" "used_view a' = (used_view a)(b \<mapsto> k)" "n \<le> k"
    "avoids (used_view a) b k" "free_view a b = Some m" "k \<le> m" "0 < k"
    "\<forall>p m'. free_view a p = Some m' \<and> k \<le> m' \<longrightarrow> m \<le> m'"
    "covered (free_view a) = covered (free_view a') \<union> {b..<b + k}"
    "covered (free_view a') \<inter> {b..<b + k} = {}"
proof -
  have sbo: "sb_ok (unused_chunks a)" and df: "disjoint_view (free_view a)"
    and sep: "separate (used_view a) (free_view a)" using wf by (simp_all add: alloc_wf_def)
  obtain m k where e: "free_view a b = Some m" "r \<le> m"
    "\<forall>b' m'. free_view a b' = Some m' \<and> r \<le> m' \<longrightarrow> m \<le> m'"
    "carve (free_view a) b m r k (free_view a')" "used_view a b = None" "used_view a' = (used_view a)(b \<mapsto> k)"
    using eff unfolding alloc_effect_def by blast
  have rn: "n \<le> r" "0 < r" using aligned_size_Some [OF r n] by (auto simp: request_ok_def)
  have km: "r \<le> k" "k \<le> m" using carve_size [OF e(4,2)] by auto
  have av: "avoids (used_view a) b k" using separateD [OF sep e(1)] by (rule avoids_sub) (use km in auto)
  have cov: "covered (free_view a) = covered (free_view a') \<union> {b..<b + k}"
    by (rule carve_covered [OF e(4,1) df e(2) rn(2)]) (use sb.view_pos [OF sbo] in blast)
  have dis: "covered (free_view a') \<inter> {b..<b + k} = {}"
    using carve_disjoint [OF e(4) df e(1,2)] unfolding covered_def avoids_def by fastforce
  have best: "\<forall>p m'. free_view a p = Some m' \<and> k \<le> m' \<longrightarrow> m \<le> m'" using e(3) km by fastforce
  show thesis
    using that e(1,5,6) best av cov dis km rn by (meson le_trans less_le_trans)
qed

text \<open>The allocator as \<open>Mem\<close> boots it: the null page of \<open>set_null_segment_size(0x1000)\<close> reserved.\<close>

definition booted :: allocator where
  "booted = the (do { a \<leftarrow> allocator_new; c \<leftarrow> chunk_new 0 4096; allocator_reserve c a })"

lemma booted_spec:
  "alloc_inv booted \<and> used_view booted = [4293918720 \<mapsto> 1048576, 0 \<mapsto> 4096]
     \<and> free_view booted = [4096 \<mapsto> 4293914624]"
proof -
  obtain a where a: "allocator_new = Some a" "alloc_wf a" "used_view a = [4293918720 \<mapsto> 1048576]"
    "free_view a = [0 \<mapsto> 4293918720]" using allocator_new_spec by blast
  let ?c = "\<lparr> cbase = 0, csize = 4096 \<rparr>" and ?u = "\<lparr> cbase = 0, csize = 4293918720 \<rparr>"
  have c: "chunk_new 0 4096 = Some ?c" "chunk_ok ?c"
    by (simp_all add: chunk_new_def chunk_ok_def span_ok_def page_aligned_def)
  have "holds_chunk ?u ?c" "reservable ?c ?u" by (simp_all add: holds_chunk_def reservable_def)
  from allocator_reserve_found [OF a(2) c(2) _ this] a obtain b where
    b: "allocator_reserve ?c a = Some b" "alloc_wf b" "used_view b = [4293918720 \<mapsto> 1048576, 0 \<mapsto> 4096]"
      "free_view b = reserve_view ?u ?c [0 \<mapsto> 4293918720]" by auto
  have "free_view b = [4096 \<mapsto> 4293914624]"
    unfolding b(4) by (simp add: reserve_view_def put_part_def left_part_def right_part_def put_def)
  moreover have "booted = b" unfolding booted_def a(1) c(1) by (simp add: b(1))
  ultimately show ?thesis using b by (simp add: alloc_inv_def)
qed

lemma free_covered:
  assumes eff: "free_effect v b n v'" and av: "avoids v b n" and pos: "\<And>x z. v x = Some z \<Longrightarrow> 0 < z" "0 < n"
  shows "covered v' = covered v \<union> {b..<b + n} \<or> n < 16 \<and> v' = v"
proof -
  have vb: "v b = None" using av by (rule avoids_None) (use pos in auto)
  have put: "covered (put v b n) = covered v \<union> {b..<b + n} \<or> n < 16 \<and> put v b n = v"
    using vb by (simp add: put_def covered_upd)
  show ?thesis
  proof (cases "v (b + n)")
    case (Some k)
    have "covered (v(b + n := None, b \<mapsto> n + k)) = covered (v(b + n := None)) \<union> {b..<b + (n + k)}"
      using vb by (intro covered_upd) simp
    moreover have "{b..<b + (n + k)} = {b..<b + n} \<union> {b + n..<b + n + k}"
      by (simp add: ivl_disj_un_two(3) add.assoc)
    moreover have "covered v = covered (v(b + n := None)) \<union> {b + n..<b + n + k}"
      using Some by (rule covered_del)
    ultimately have "covered (v(b + n := None, b \<mapsto> n + k)) = covered v \<union> {b..<b + n}"
      by (simp add: Un_ac)
    then show ?thesis using eff Some put by (simp add: free_effect_def split: if_split_asm)
  next
    case None
    have merge: "covered (v(p \<mapsto> k + n)) = covered v \<union> {b..<b + n}" if "v p = Some k" "p + k = b" for p k
    proof -
      have "covered (v(p := None, p \<mapsto> k + n)) = covered (v(p := None)) \<union> {p..<p + (k + n)}"
        by (intro covered_upd) simp
      moreover have "{p..<p + (k + n)} = {p..<p + k} \<union> {p + k..<p + k + n}"
        by (simp add: ivl_disj_un_two(3) add.assoc)
      moreover have "covered v = covered (v(p := None)) \<union> {p..<p + k}" using that(1) by (rule covered_del)
      ultimately show ?thesis using that(2) by (simp add: Un_ac)
    qed
    from eff None consider p k where "v p = Some k" "p + k = b"
        "v' = (if may_combine p (k + n) then v(p \<mapsto> k + n) else put v b n)" | "v' = put v b n"
      by (auto simp: free_effect_def)
    then show ?thesis
    proof cases
      case (1 p k)
      then show ?thesis using merge [OF 1(1,2)] put by (simp split: if_split)
    next
      case 2
      then show ?thesis using put by simp
    qed
  qed
qed

lemma grow_covered:
  assumes eff: "grow_effect v b old new g v'" and d: "disjoint_view v" and new: "old < new"
    and pos: "\<And>x z. v x = Some z \<Longrightarrow> 0 < z"
  shows "covered v = covered v' \<union> {b + old..<b + g}"
proof -
  obtain k where k: "v (b + old) = Some k" "new - old \<le> k"
    and c: "g = old + k \<and> v' = v(b + old := None) \<or>
      g = new \<and> k < 4096 \<and> new - old + 16 \<le> k \<and> v' = v(b + old := None, b + new \<mapsto> old + k - new)"
    using eff unfolding grow_effect_def by blast
  have all: "covered v = covered (v(b + old := None)) \<union> {b + old..<b + old + k}"
    using k(1) by (rule covered_del)
  from c show ?thesis
  proof (elim disjE conjE)
    assume "g = old + k" "v' = v(b + old := None)"
    then show ?thesis using all by (simp add: add.assoc)
  next
    assume t: "g = new" "new - old + 16 \<le> k" "v' = v(b + old := None, b + new \<mapsto> old + k - new)"
    have av: "avoids (v(b + old := None)) (b + old) k" using d k(1) by (rule disjoint_view_avoids)
    have "(v(b + old := None)) (b + new) = None"
      using av by (rule avoids_None) (use pos new t(2) in \<open>auto split: if_splits\<close>)
    then have "covered v' = covered (v(b + old := None)) \<union> {b + new..<b + new + (old + k - new)}"
      unfolding t(3) by (rule covered_upd)
    moreover have "{b + old..<b + old + k} = {b + old..<b + new} \<union> {b + new..<b + new + (old + k - new)}"
      using new t(2) by (simp add: ivl_disj_un_two(3) add.assoc)
    ultimately show ?thesis unfolding all t(1) by (simp add: Un_ac)
  qed
qed

section \<open>Properties\<close>

text \<open>C1: \<open>alloc\<close> never panics; it either leaves the allocator alone and returns NULL, because the
  request cannot be rounded up or no free chunk is large enough, or returns a block that no live
  allocation overlaps, at least as large as asked for, cut out of the smallest free chunk that is
  large enough, and records it; the invariant is kept and no byte is lost.\<close>

theorem alloc_correct:
  assumes "alloc_inv a" "n < 4294967296"
  shows "\<exists>b a'. allocator_alloc n a = Some (b, a') \<and> alloc_inv a' \<and>
    (if b = 0 then a' = a \<and> (4294963200 < n \<or> (\<forall>p m. free_view a p = Some m \<longrightarrow> m < n + 4096))
     else (\<exists>k m. used_view a b = None \<and> used_view a' = (used_view a)(b \<mapsto> k) \<and> n \<le> k
             \<and> avoids (used_view a) b k \<and> free_view a b = Some m \<and> k \<le> m
             \<and> (\<forall>p m'. free_view a p = Some m' \<and> k \<le> m' \<longrightarrow> m \<le> m')
             \<and> covered (free_view a) = covered (free_view a') \<union> {b..<b + k}
             \<and> covered (free_view a') \<inter> {b..<b + k} = {}))"
proof -
  have wf: "alloc_wf a" using assms by (simp add: alloc_inv_def)
  show ?thesis
    using allocator_alloc_cases [OF wf assms(2)]
  proof (elim disjE exE conjE)
    assume "aligned_size_opt n = None" "allocator_alloc n a = Some (0, a)"
    then show ?thesis using assms aligned_size_None by auto
  next
    fix r assume r: "aligned_size_opt n = Some r" "allocator_alloc n a = Some (0, a)"
      and no: "\<forall>b m. free_view a b = Some m \<longrightarrow> m < r"
    have "r \<le> n + 4096"
      using r(1) assms(2) by (auto simp: aligned_size_opt_def PAGE_SIZE_def MIN_CHUNK_SIZE_def align_def
          checked_add32_def max_def split: if_splits)
    then show ?thesis using r(2) no assms(1) by fastforce
  next
    fix r b a' assume r: "aligned_size_opt n = Some r" and run: "allocator_alloc n a = Some (b, a')"
      and wf': "alloc_wf a'" and eff: "alloc_effect r a b a'"
    from alloc_effect_facts [OF wf assms(2) r eff] obtain k m where
      e: "used_view a b = None" "used_view a' = (used_view a)(b \<mapsto> k)" "n \<le> k"
        "avoids (used_view a) b k" "free_view a b = Some m" "k \<le> m" "0 < k"
        "\<forall>p m'. free_view a p = Some m' \<and> k \<le> m' \<longrightarrow> m \<le> m'"
        "covered (free_view a) = covered (free_view a') \<union> {b..<b + k}"
        "covered (free_view a') \<inter> {b..<b + k} = {}" by blast
    have "b \<noteq> 0" using e(5) alloc_inv_free0 [OF assms(1)] by (cases "b = 0") auto
    moreover have "alloc_inv a'" using wf' assms(1) e(2) by (auto simp: alloc_inv_def)
    ultimately show ?thesis using run e by (metis (no_types))
  qed
qed

lemma alloc_correct_witness:
  "\<exists>b a'. allocator_alloc 100 booted = Some (b, a') \<and> b \<noteq> 0 \<and> alloc_inv a' \<and> 100 \<le> the (used_view a' b)"
proof -
  have inv: "alloc_inv booted" and free: "free_view booted 4096 = Some 4293914624"
    using booted_spec by auto
  obtain b a' where r: "allocator_alloc 100 booted = Some (b, a')" "alloc_inv a'"
    and c: "b = 0 \<Longrightarrow> \<forall>p m. free_view booted p = Some m \<longrightarrow> m < 4196"
      "b \<noteq> 0 \<Longrightarrow> \<exists>k. used_view a' = (used_view booted)(b \<mapsto> k) \<and> 100 \<le> k"
    using alloc_correct [OF inv, of 100] by (simp split: if_split_asm) blast+
  have "\<not> (4293914624 :: nat) < 4196" by simp
  then have "b \<noteq> 0" using c(1) free by blast
  then show ?thesis using r c(2) by auto
qed

text \<open>C2: freeing a live block never panics, returns its recorded size, forgets exactly that
  block, keeps the invariant, and the free list then accounts for the block's bytes as well, whether
  they were merged with a neighbour or not.\<close>

theorem free_correct:
  assumes "alloc_inv a" "b \<noteq> 0" "used_view a b = Some n" "16 \<le> n"
  shows "\<exists>a'. allocator_free b a = Some (n, a') \<and> alloc_inv a' \<and> used_view a' = (used_view a)(b := None)
    \<and> covered (free_view a') = covered (free_view a) \<union> {b..<b + n}"
proof -
  have wf: "alloc_wf a" using assms by (simp add: alloc_inv_def)
  have sbo: "sb_ok (unused_chunks a)" and sep: "separate (used_view a) (free_view a)"
    using wf by (simp_all add: alloc_wf_def)
  have av: "avoids (free_view a) b n" using sep assms(3) by (simp add: separate_def)
  from allocator_free_spec [OF assms(1,2,3)] obtain a' where a': "allocator_free b a = Some (n, a')" "alloc_inv a'"
    "used_view a' = (used_view a)(b := None)" "free_effect (free_view a) b n (free_view a')" by blast
  have "covered (free_view a') = covered (free_view a) \<union> {b..<b + n}"
    using free_covered [OF a'(4) av] sb.view_pos [OF sbo] assms(4) by fastforce
  with a' show ?thesis by blast
qed

lemma free_correct_witness:
  "\<exists>a'. allocator_free 4293918720 booted = Some (1048576, a') \<and> alloc_inv a'
     \<and> covered (free_view a') = covered (free_view booted) \<union> {4293918720..<4294967296}"
proof -
  have "alloc_inv booted" "used_view booted 4293918720 = Some 1048576" using booted_spec by auto
  from free_correct [OF this(1) _ this(2)] show ?thesis by auto
qed

text \<open>growing a live block in place never panics; it either changes nothing, or moves the front
  of the free chunk behind the block into it: the block keeps its address and contains the
  requested size, every other block is untouched, and no byte is lost.\<close>

theorem grow_in_place_correct:
  assumes "alloc_inv a" "b \<noteq> 0" "used_view a b = Some old" "old < new" "new < 4294967296"
  shows "\<exists>r a'. grow_in_place b old new a = Some (r, a') \<and> alloc_inv a' \<and>
    (case r of
       None \<Rightarrow> used_view a' = used_view a \<and> free_view a' = free_view a
     | Some g \<Rightarrow> new \<le> g \<and> used_view a' = (used_view a)(b \<mapsto> g)
         \<and> covered (free_view a) = covered (free_view a') \<union> {b + old..<b + g})"
proof -
  have wf: "alloc_wf a" using assms by (simp add: alloc_inv_def)
  have sbo: "sb_ok (unused_chunks a)" and df: "disjoint_view (free_view a)" using wf by (simp_all add: alloc_wf_def)
  from grow_in_place_spec [OF assms(1-5)] show ?thesis
  proof (elim disjE exE conjE)
    fix a' assume "grow_in_place b old new a = Some (None, a')" "alloc_inv a'"
      "used_view a' = used_view a" "free_view a' = free_view a"
    then show ?thesis by auto
  next
    fix g a' assume r: "grow_in_place b old new a = Some (Some g, a')" "alloc_inv a'"
      "used_view a' = (used_view a)(b \<mapsto> g)" and eff: "grow_effect (free_view a) b old new g (free_view a')"
    have "covered (free_view a) = covered (free_view a') \<union> {b + old..<b + g}"
      by (rule grow_covered [OF eff df assms(4)]) (use sb.view_pos [OF sbo] in blast)
    moreover have "new \<le> g" using grow_effect_bounds [OF eff] assms(4) by simp
    ultimately show ?thesis using r by auto
  qed
qed

lemma grow_in_place_correct_witness:
  "\<exists>r a'. grow_in_place 4293918720 1048576 1048577 booted = Some (r, a') \<and> alloc_inv a'"
proof -
  have "alloc_inv booted" "used_view booted 4293918720 = Some 1048576" using booted_spec by auto
  from grow_in_place_correct [OF this(1) _ this(2), of 1048577] show ?thesis by auto
qed

end
