(* ===== verification/Guest_Memory.thy ===== *)
theory Guest_Memory
  imports Allocator_Safety
begin

text \<open>
  \<open>Mem\<close> and \<open>Ptr\<close> of \<open>src/mem.rs\<close>: the guest's bytes, the null segment with its stub page for
  reads and its sink page for writes, and the heap entry points over the allocator.

  A slice of host memory that an accessor hands out is described by where it lies: in the guest
  array, in the stub page or in the write sink.  An access through a raw pointer that leaves the
  slice it was derived from is undefined behaviour of the host, \<open>None\<close> here like a panic.
  The values are read and written in the byte order of the host, little-endian on every
  platform the emulator supports.
\<close>

section \<open>Guest pointers\<close>

definition ptr_add :: "nat \<Rightarrow> nat \<Rightarrow> nat \<Rightarrow> nat option" where
  "ptr_add sz p other =
     (if sz = 0 then None else Some (wadd32 p ((other * sz) mod 4294967296)))"

definition ptr_sub :: "nat \<Rightarrow> nat \<Rightarrow> nat \<Rightarrow> nat option" where
  "ptr_sub sz p other =
     (if sz = 0 then None else Some (wsub32 p ((other * sz) mod 4294967296)))"

definition non_null :: "nat \<Rightarrow> nat option" where
  "non_null p = (if p = 0 then None else Some p)"

section \<open>State\<close>

definition BYTES_LEN :: nat where
  "BYTES_LEN = 4294967296 + 4096"

record mem =
  mbytes :: "nat \<Rightarrow> u8"
  null_segment_size :: nat
  heap :: allocator
  zero_memory_on_free :: bool
  null_stub_page :: "nat \<Rightarrow> u8"
  null_write_sink :: "nat \<Rightarrow> u8"

definition mem_new :: "mem option" where
  "mem_new = do {
     a \<leftarrow> allocator_new;
     Some \<lparr> mbytes = (\<lambda>_. 0), null_segment_size = 0, heap = a, zero_memory_on_free = True,
            null_stub_page = (\<lambda>_. 0), null_write_sink = (\<lambda>_. 0) \<rparr> }"

definition set_null_segment_size :: "nat \<Rightarrow> mem \<Rightarrow> mem option" where
  "set_null_segment_size n m =
     (if null_segment_size m \<noteq> 0 then None
      else if n mod 4096 \<noteq> 0 then None
      else do {
        c \<leftarrow> chunk_new 0 n;
        a \<leftarrow> allocator_reserve c (heap m);
        Some (m\<lparr> heap := a, null_segment_size := n \<rparr>) })"

section \<open>Slices\<close>

datatype slice = Guest nat nat | Stub nat nat | Sink nat nat

fun slice_len :: "slice \<Rightarrow> nat" where
  "slice_len (Guest _ n) = n"
| "slice_len (Stub _ n) = n"
| "slice_len (Sink _ n) = n"

fun slice_byte :: "mem \<Rightarrow> slice \<Rightarrow> nat \<Rightarrow> u8" where
  "slice_byte m (Guest p _) i = mbytes m (p + i)"
| "slice_byte m (Stub p _) i = null_stub_page m (p + i)"
| "slice_byte m (Sink p _) i = null_write_sink m (p + i)"

definition slice_bytes :: "mem \<Rightarrow> slice \<Rightarrow> u8 list" where
  "slice_bytes m s = map (slice_byte m s) [0..<slice_len s]"

definition put_bytes :: "nat \<Rightarrow> u8 list \<Rightarrow> (nat \<Rightarrow> u8) \<Rightarrow> (nat \<Rightarrow> u8)" where
  "put_bytes p bs f = (\<lambda>x. if p \<le> x \<and> x < p + length bs then bs ! (x - p) else f x)"

text \<open>Storing at offset \<open>i\<close> of a mutable slice; the read stub is never handed out mutably.\<close>

fun slice_store :: "slice \<Rightarrow> nat \<Rightarrow> u8 list \<Rightarrow> mem \<Rightarrow> mem" where
  "slice_store (Guest p _) i bs m = m\<lparr> mbytes := put_bytes (p + i) bs (mbytes m) \<rparr>"
| "slice_store (Stub _ _) i bs m = m"
| "slice_store (Sink p _) i bs m = m\<lparr> null_write_sink := put_bytes (p + i) bs (null_write_sink m) \<rparr>"

definition slice_fill :: "slice \<Rightarrow> u8 \<Rightarrow> mem \<Rightarrow> mem" where
  "slice_fill s b m = slice_store s 0 (replicate (slice_len s) b) m"

definition bytes_at :: "mem \<Rightarrow> nat \<Rightarrow> nat \<Rightarrow> slice" where
  "bytes_at m p count =
     (if p < null_segment_size m \<or> BYTES_LEN < p + count
      then Stub (p mod PAGE_SIZE) (min count (PAGE_SIZE - p mod PAGE_SIZE))
      else Guest p count)"

definition unchecked_bytes_at :: "nat \<Rightarrow> nat \<Rightarrow> slice" where
  "unchecked_bytes_at p count =
     (if BYTES_LEN < p + count
      then Stub (p mod PAGE_SIZE) (min count (PAGE_SIZE - p mod PAGE_SIZE))
      else Guest p count)"

definition bytes_at_mut :: "mem \<Rightarrow> nat \<Rightarrow> nat \<Rightarrow> slice" where
  "bytes_at_mut m p count =
     (if p < null_segment_size m \<or> BYTES_LEN < p + count
      then Sink (p mod PAGE_SIZE) (min count (PAGE_SIZE - p mod PAGE_SIZE))
      else Guest p count)"

definition get_bytes_fallible :: "mem \<Rightarrow> nat \<Rightarrow> nat \<Rightarrow> slice option" where
  "get_bytes_fallible m p count =
     (if p < null_segment_size m
      then Some (Stub (p mod PAGE_SIZE) (min count (PAGE_SIZE - p mod PAGE_SIZE)))
      else if p \<le> BYTES_LEN \<and> count \<le> BYTES_LEN - p then Some (Guest p count) else None)"

definition get_bytes_fallible_mut :: "mem \<Rightarrow> nat \<Rightarrow> nat \<Rightarrow> slice option" where
  "get_bytes_fallible_mut m p count =
     (if p < null_segment_size m then None
      else if p \<le> BYTES_LEN \<and> count \<le> BYTES_LEN - p then Some (Guest p count) else None)"

section \<open>Typed access\<close>

definition checked_mul32 :: "nat \<Rightarrow> nat \<Rightarrow> nat option" where
  "checked_mul32 a b = (if a * b < 4294967296 then Some (a * b) else None)"

definition ptr_at :: "mem \<Rightarrow> nat \<Rightarrow> nat \<Rightarrow> nat \<Rightarrow> slice option" where
  "ptr_at m sz p count = map_option (bytes_at m p) (checked_mul32 count sz)"

definition unchecked_ptr_at :: "nat \<Rightarrow> nat \<Rightarrow> nat \<Rightarrow> slice option" where
  "unchecked_ptr_at sz p count = map_option (unchecked_bytes_at p) (checked_mul32 count sz)"

definition ptr_at_mut :: "mem \<Rightarrow> nat \<Rightarrow> nat \<Rightarrow> nat \<Rightarrow> slice option" where
  "ptr_at_mut m sz p count = map_option (bytes_at_mut m p) (checked_mul32 count sz)"

text \<open>\<open>read_unaligned\<close> takes \<open>sz\<close> bytes from the pointer, whatever the slice's length was.\<close>

definition mem_read :: "nat \<Rightarrow> mem \<Rightarrow> nat \<Rightarrow> u8 list option" where
  "mem_read sz m p = do {
     s \<leftarrow> ptr_at m sz p 1;
     (if slice_len s < sz then None else Some (slice_bytes m s)) }"

definition mem_write :: "mem \<Rightarrow> nat \<Rightarrow> u8 list \<Rightarrow> mem option" where
  "mem_write m p value =
     (if length value = 0 then None
      else let s = bytes_at_mut m p (length value)
           in if slice_len s < length value then None else Some (slice_store s 0 value m))"

definition host_ptr_to_guest_ptr :: "nat \<Rightarrow> nat \<Rightarrow> nat option" where
  "host_ptr_to_guest_ptr start host_ptr =
     (if start \<le> host_ptr \<and> host_ptr < start + BYTES_LEN
      then Some ((host_ptr - start) mod 4294967296) else None)"

definition is_host_ptr_in_guest_mem :: "nat \<Rightarrow> nat \<Rightarrow> bool" where
  "is_host_ptr_in_guest_mem start host_ptr = (start \<le> host_ptr \<and> host_ptr < start + BYTES_LEN)"

definition memmove :: "nat \<Rightarrow> nat \<Rightarrow> nat \<Rightarrow> mem \<Rightarrow> mem" where
  "memmove dest src sz m =
     (if 2147483648 \<le> sz then m
      else if src = 0 \<and> 0 < sz then m
      else if BYTES_LEN < src + sz then m
      else if BYTES_LEN < dest + sz then m
      else m\<lparr> mbytes := put_bytes dest (map (mbytes m) [src..<src + sz]) (mbytes m) \<rparr>)"

section \<open>The heap\<close>

definition mem_alloc :: "nat \<Rightarrow> mem \<Rightarrow> (nat \<times> mem) option" where
  "mem_alloc sz m = do {
     (p, a) \<leftarrow> allocator_alloc sz (heap m);
     let m1 = m\<lparr> heap := a \<rparr>;
     Some (p, if \<not> zero_memory_on_free m1 then slice_fill (bytes_at_mut m1 p sz) 0 m1 else m1) }"

definition mem_calloc :: "nat \<Rightarrow> mem \<Rightarrow> (nat \<times> mem) option" where
  "mem_calloc sz m = do {
     (p, m1) \<leftarrow> mem_alloc sz m;
     Some (p, slice_fill (bytes_at_mut m1 p sz) 0 m1) }"

definition malloc_size :: "nat \<Rightarrow> mem \<Rightarrow> nat" where
  "malloc_size p m =
     (if p = 0 then 0 else case try_find_allocated_size p (heap m) of None \<Rightarrow> 0 | Some n \<Rightarrow> n)"

definition mem_live_allocations :: "mem \<Rightarrow> (nat \<times> nat) list" where
  "mem_live_allocations m = live_allocations (heap m)"

definition corrupt_byte :: "nat \<Rightarrow> u8 \<Rightarrow> mem \<Rightarrow> (u8 \<times> mem) option" where
  "corrupt_byte addr value m = (let s = bytes_at_mut m addr 1
     in if slice_len s = 0 then None else Some (slice_byte m s 0, slice_store s 0 [value] m))"

definition mem_free :: "nat \<Rightarrow> mem \<Rightarrow> mem option" where
  "mem_free p m =
     (if p = 0 then Some m
      else if p = 0x7461736b then Some m
      else if \<not> is_known_allocation p (heap m) then Some m
      else do {
        (sz, a) \<leftarrow> allocator_free p (heap m);
        let m1 = m\<lparr> heap := a \<rparr>;
        Some (if zero_memory_on_free m1 then slice_fill (bytes_at_mut m1 p sz) 0 m1 else m1) })"

definition fill_tail :: "slice \<Rightarrow> nat \<Rightarrow> mem \<Rightarrow> mem option" where
  "fill_tail s i m =
     (if slice_len s < i then None else Some (slice_store s i (replicate (slice_len s - i) 0) m))"

definition mem_realloc :: "nat \<Rightarrow> nat \<Rightarrow> mem \<Rightarrow> (nat \<times> mem) option" where
  "mem_realloc old_ptr sz m =
     (if old_ptr = 0 then mem_alloc sz m
      else let old_size = find_allocated_size old_ptr (heap m)
      in if sz \<le> old_size then Some (old_ptr, m)
      else do {
        (grown, a) \<leftarrow> grow_in_place old_ptr old_size sz (heap m);
        let m1 = m\<lparr> heap := a \<rparr>;
        (case grown of
           Some grown_size \<Rightarrow> (
             if zero_memory_on_free m1 then do {
               m2 \<leftarrow> fill_tail (bytes_at_mut m1 old_ptr grown_size) old_size m1;
               Some (old_ptr, m2) }
             else Some (old_ptr, m1))
         | None \<Rightarrow> do {
             (new_ptr, m2) \<leftarrow> mem_alloc sz m1;
             let m3 = memmove new_ptr old_ptr old_size m2;
             m4 \<leftarrow> mem_free old_ptr m3;
             Some (new_ptr, m4) }) })"

definition alloc_and_write :: "u8 list \<Rightarrow> mem \<Rightarrow> (nat \<times> mem) option" where
  "alloc_and_write value m = do {
     (p, m1) \<leftarrow> mem_alloc (length value) m;
     m2 \<leftarrow> mem_write m1 p value;
     Some (p, m2) }"

definition copy_from_slice :: "slice \<Rightarrow> u8 list \<Rightarrow> mem \<Rightarrow> mem option" where
  "copy_from_slice s bs m = (if slice_len s = length bs then Some (slice_store s 0 bs m) else None)"

definition alloc_and_write_cstr :: "u8 list \<Rightarrow> mem \<Rightarrow> (nat \<times> mem) option" where
  "alloc_and_write_cstr str_bytes m =
     (if 4294967296 \<le> length str_bytes then None
      else do {
        let len = length str_bytes;
        (p, m1) \<leftarrow> mem_alloc (wadd32 len 1) m;
        m2 \<leftarrow> copy_from_slice (bytes_at_mut m1 p len) str_bytes m1;
        m3 \<leftarrow> mem_write m2 (wadd32 p len) [0];
        Some (p, m3) })"

definition mem_reserve :: "nat \<Rightarrow> nat \<Rightarrow> mem \<Rightarrow> mem option" where
  "mem_reserve b sz m =
     (if sz = 0 then Some m
      else do {
        c \<leftarrow> chunk_new b sz;
        a \<leftarrow> allocator_reserve c (heap m);
        Some (m\<lparr> heap := a \<rparr>) })"

section \<open>Strings in guest memory\<close>

text \<open>The scan for the terminator; \<open>zero\<close> is the all-zero value of the element type.\<close>

function scan_len :: "(nat \<Rightarrow> 'c option) \<Rightarrow> ('c \<Rightarrow> bool) \<Rightarrow> nat \<Rightarrow> nat \<Rightarrow> nat option" where
  "scan_len rd is_zero max_len len =
     (case rd len of
        None \<Rightarrow> None
      | Some c \<Rightarrow>
          (if is_zero c then Some len
           else if max_len \<le> len + 1 then Some (len + 1)
           else scan_len rd is_zero max_len (len + 1)))"
  by pat_completeness auto
termination by (relation "measure (\<lambda>(_, _, max_len, len). max_len - len)") auto

declare scan_len.simps [simp del]

definition cstr_at_with_max_len :: "mem \<Rightarrow> nat \<Rightarrow> nat \<Rightarrow> slice option" where
  "cstr_at_with_max_len m p max_len = do {
     len \<leftarrow> scan_len (\<lambda>i. mem_read 1 m (wadd32 p i)) (\<lambda>v. v = [0]) max_len 0;
     Some (bytes_at m p len) }"

definition cstr_at :: "mem \<Rightarrow> nat \<Rightarrow> slice option" where
  "cstr_at m p = cstr_at_with_max_len m p 65536"

definition from_le_bytes :: "u8 list \<Rightarrow> nat" where
  "from_le_bytes bs = foldr (\<lambda>b n. unat b + 256 * n) bs 0"

fun to_le_bytes :: "nat \<Rightarrow> nat \<Rightarrow> u8 list" where
  "to_le_bytes 0 n = []"
| "to_le_bytes (Suc k) n = of_nat n # to_le_bytes k (n div 256)"

definition char_from_u32 :: "nat \<Rightarrow> nat option" where
  "char_from_u32 c = (if 0x110000 \<le> c \<or> 0xD800 \<le> c \<and> c < 0xE000 then None else Some c)"

fun chunks_exact :: "nat \<Rightarrow> u8 list \<Rightarrow> u8 list list" where
  "chunks_exact n bs =
     (if n = 0 \<or> length bs < n then [] else take n bs # chunks_exact n (drop n bs))"

declare chunks_exact.simps [simp del]

definition wcstr_at :: "mem \<Rightarrow> nat \<Rightarrow> nat list option" where
  "wcstr_at m p = do {
     len \<leftarrow> scan_len (\<lambda>i. mem_read 4 m (wadd32 p ((i * 4) mod 4294967296))) (\<lambda>v. v = [0, 0, 0, 0]) 16384 0;
     let bytes = slice_bytes m (bytes_at m p (len * 4));
     Some (map (\<lambda>chunk. case char_from_u32 (from_le_bytes chunk) of
                          None \<Rightarrow> 0xFFFD | Some c \<Rightarrow> c) (chunks_exact 4 bytes)) }"

end
