(* ===== verification/Heap_Safety.thy ===== *)
theory Heap_Safety
  imports Guest_Memory
begin

text \<open>
  The heap entry points of \<open>Mem\<close> over the allocator: the invariant \<open>mem_ok\<close> that every one of them
  keeps, the rule that free memory is zero while \<open>zero_memory_on_free\<close> is set, what \<open>realloc\<close> keeps
  of a block's contents, and the safety of arbitrary sequences of calls with arbitrary pointers.
\<close>

section \<open>Bytes\<close>

lemma put_bytes_apply: "put_bytes p bs f x = (if p \<le> x \<and> x < p + length bs then bs ! (x - p) else f x)"
  by (simp add: put_bytes_def)

lemma put_bytes_other: "x < p \<or> p + length bs \<le> x \<Longrightarrow> put_bytes p bs f x = f x"
  by (auto simp: put_bytes_def)

lemma put_bytes_zero: "put_bytes p (replicate n 0) f x = (if p \<le> x \<and> x < p + n then 0 else f x)"
  by (auto simp: put_bytes_def)

lemma slice_bytes_length [simp]: "length (slice_bytes m s) = slice_len s"
  by (simp add: slice_bytes_def)

lemma bytes_at_guest: "null_segment_size m \<le> p \<Longrightarrow> p + n \<le> BYTES_LEN \<Longrightarrow> bytes_at m p n = Guest p n"
  by (simp add: bytes_at_def)

lemma bytes_at_mut_guest: "null_segment_size m \<le> p \<Longrightarrow> p + n \<le> BYTES_LEN \<Longrightarrow> bytes_at_mut m p n = Guest p n"
  by (simp add: bytes_at_mut_def)

text \<open>Whatever is stored through a mutable slice, the read stub and the heap's books stay as they are.\<close>

lemma slice_store_frame:
  "heap (slice_store s i bs m) = heap m"
  "null_segment_size (slice_store s i bs m) = null_segment_size m"
  "null_stub_page (slice_store s i bs m) = null_stub_page m"
  "zero_memory_on_free (slice_store s i bs m) = zero_memory_on_free m"
  by (cases s; simp)+

lemma slice_fill_frame:
  "heap (slice_fill s b m) = heap m"
  "null_segment_size (slice_fill s b m) = null_segment_size m"
  "null_stub_page (slice_fill s b m) = null_stub_page m"
  "zero_memory_on_free (slice_fill s b m) = zero_memory_on_free m"
  by (simp_all add: slice_fill_def slice_store_frame)

lemma memmove_frame:
  "heap (memmove d s n m) = heap m"
  "null_segment_size (memmove d s n m) = null_segment_size m"
  "null_stub_page (memmove d s n m) = null_stub_page m"
  "zero_memory_on_free (memmove d s n m) = zero_memory_on_free m"
  by (simp_all add: memmove_def)

lemmas frames = slice_store_frame slice_fill_frame memmove_frame

section \<open>The invariant\<close>

definition mem_ok :: "mem \<Rightarrow> bool" where
  "mem_ok m = (alloc_inv (heap m) \<and> used_view (heap m) 0 = Some (null_segment_size m)
     \<and> null_segment_size m mod 4096 = 0 \<and> null_stub_page m = (\<lambda>_. 0))"

definition free_zeroed :: "mem \<Rightarrow> bool" where
  "free_zeroed m = (\<forall>x \<in> covered (free_view (heap m)). mbytes m x = 0)"

lemma alloc_inv_parts:
  assumes "alloc_inv a"
  shows "alloc_wf a" "disjoint_view (used_view a)" "disjoint_view (free_view a)"
    "separate (used_view a) (free_view a)" "used_view a 0 \<noteq> None"
    "cm_ok (used_chunks a)" "sb_ok (unused_chunks a)"
  using assms by (simp_all add: alloc_inv_def alloc_wf_def)

lemma used_block:
  assumes "mem_ok m" "used_view (heap m) b = Some n" "b \<noteq> 0"
  shows "null_segment_size m \<le> b" "0 < n" "b + n \<le> 4294967296"
proof -
  have inv: "alloc_inv (heap m)" and z: "used_view (heap m) 0 = Some (null_segment_size m)"
    using assms(1) by (auto simp: mem_ok_def)
  have "0 + null_segment_size m \<le> b \<or> b + n \<le> 0"
    using avoids_neighbour [OF alloc_inv_parts(2) [OF inv] z assms(2)] assms(3) by simp
  moreover show "0 < n" "b + n \<le> 4294967296"
    using alloc_wf_used [OF alloc_inv_parts(1) [OF inv] assms(2)] by (auto simp: span_ok_def)
  ultimately show "null_segment_size m \<le> b" by simp
qed

lemma block_slice:
  assumes "mem_ok m" "used_view (heap m) b = Some n" "b \<noteq> 0" "k \<le> n"
  shows "bytes_at_mut m b k = Guest b k" "bytes_at m b k = Guest b k"
  using used_block [OF assms(1-3)] assms(4) by (auto intro!: bytes_at_mut_guest bytes_at_guest simp: BYTES_LEN_def)

lemma mem_ok_heap: "mem_ok m \<Longrightarrow> alloc_inv a \<Longrightarrow> used_view a 0 = used_view (heap m) 0 \<Longrightarrow> mem_ok (m\<lparr> heap := a \<rparr>)"
  by (simp add: mem_ok_def)

lemma mem_ok_fill: "mem_ok m \<Longrightarrow> mem_ok (slice_fill s b m)"
  by (simp add: mem_ok_def frames)

lemma mem_ok_store: "mem_ok m \<Longrightarrow> mem_ok (slice_store s i bs m)"
  by (simp add: mem_ok_def frames)

lemma mem_ok_memmove: "mem_ok m \<Longrightarrow> mem_ok (memmove d s n m)"
  by (simp add: mem_ok_def frames)

section \<open>\<open>alloc\<close>\<close>

text \<open>A block the heap did not have before, with the free list keeping the rest.\<close>

definition fresh_block :: "allocator \<Rightarrow> nat \<Rightarrow> nat \<Rightarrow> allocator \<Rightarrow> bool" where
  "fresh_block a p n a' = (\<exists>k. p \<noteq> 0 \<and> used_view a p = None \<and> n \<le> k \<and> 0 < k
     \<and> used_view a' = (used_view a)(p \<mapsto> k) \<and> avoids (used_view a) p k
     \<and> covered (free_view a) = covered (free_view a') \<union> {p..<p + k}
     \<and> covered (free_view a') \<inter> {p..<p + k} = {})"

lemma allocator_alloc_facts:
  assumes "alloc_inv a" "n < 4294967296"
  shows "allocator_alloc n a = Some (0, a) \<or>
    (\<exists>p a'. allocator_alloc n a = Some (p, a') \<and> alloc_inv a' \<and> fresh_block a p n a')"
  using allocator_alloc_cases [OF alloc_inv_parts(1) [OF assms(1)] assms(2)]
proof (elim disjE exE conjE)
  fix r b a' assume r: "aligned_size_opt n = Some r" and run: "allocator_alloc n a = Some (b, a')"
    and wf': "alloc_wf a'" and eff: "alloc_effect r a b a'"
  obtain k m where e: "used_view a b = None" "used_view a' = (used_view a)(b \<mapsto> k)" "n \<le> k"
      "avoids (used_view a) b k" "free_view a b = Some m" "0 < k"
      "covered (free_view a) = covered (free_view a') \<union> {b..<b + k}" "covered (free_view a') \<inter> {b..<b + k} = {}"
    using alloc_effect_facts [OF alloc_inv_parts(1) [OF assms(1)] assms(2) r eff] by metis
  have "b \<noteq> 0" using e(5) alloc_inv_free0 [OF assms(1)] by (cases "b = 0") auto
  moreover have "alloc_inv a'" using wf' assms(1) e(2) by (auto simp: alloc_inv_def)
  ultimately show ?thesis using run e unfolding fresh_block_def by blast
qed auto

lemma mem_alloc_facts:
  assumes ok: "mem_ok m" and n: "n < 4294967296"
  shows "\<exists>p m'. mem_alloc n m = Some (p, m') \<and> mem_ok m' \<and> null_segment_size m' = null_segment_size m
    \<and> zero_memory_on_free m' = zero_memory_on_free m
    \<and> (if p = 0 then heap m' = heap m \<and> mbytes m' = mbytes m
       else fresh_block (heap m) p n (heap m')
          \<and> mbytes m' = (\<lambda>x. if \<not> zero_memory_on_free m \<and> p \<le> x \<and> x < p + n then 0 else mbytes m x))"
proof -
  have inv: "alloc_inv (heap m)" and nz: "0 < null_segment_size m"
    using ok alloc_wf_used [of "heap m" 0] by (auto simp: mem_ok_def alloc_inv_def span_ok_def)
  from allocator_alloc_facts [OF inv n] show ?thesis
  proof (elim disjE exE conjE)
    assume "allocator_alloc n (heap m) = Some (0, heap m)"
    then show ?thesis using ok nz
      by (auto simp: mem_alloc_def frames mem_ok_def slice_fill_def bytes_at_mut_def)
  next
    fix p a' assume run: "allocator_alloc n (heap m) = Some (p, a')" and inv': "alloc_inv a'"
      and fr: "fresh_block (heap m) p n a'"
    let ?m1 = "m\<lparr> heap := a' \<rparr>"
    obtain k where k: "p \<noteq> 0" "n \<le> k" "used_view a' = (used_view (heap m))(p \<mapsto> k)"
      using fr unfolding fresh_block_def by blast
    have ok1: "mem_ok ?m1" using ok inv' k by (intro mem_ok_heap) auto
    have "bytes_at_mut ?m1 p n = Guest p n" using block_slice(1) [OF ok1 _ k(1,2)] k(3) by simp
    then have g: "mem_alloc n m = Some (p, if \<not> zero_memory_on_free m then slice_fill (Guest p n) 0 ?m1 else ?m1)"
      using run by (simp add: mem_alloc_def)
    have bytes: "mbytes (slice_fill (Guest p n) 0 ?m1) = (\<lambda>x. if p \<le> x \<and> x < p + n then 0 else mbytes m x)"
      by (simp add: slice_fill_def put_bytes_zero fun_eq_iff)
    show ?thesis
    proof (cases "zero_memory_on_free m")
      case True
      then show ?thesis using g ok1 fr k(1) by (intro exI [of _ p] exI [of _ ?m1]) simp
    next
      case False
      then show ?thesis using g mem_ok_fill [OF ok1] fr k(1) bytes
        by (intro exI [of _ p] exI [of _ "slice_fill (Guest p n) 0 ?m1"]) (simp add: frames)
    qed
  qed
qed

lemma mem_alloc_fresh:
  assumes ok: "mem_ok m" and n: "n < 4294967296" and run: "mem_alloc n m = Some (p, m')" and p: "p \<noteq> 0"
  shows "mem_ok m' \<and> fresh_block (heap m) p n (heap m') \<and> zero_memory_on_free m' = zero_memory_on_free m
    \<and> null_segment_size m' = null_segment_size m \<and> mbytes m' = (\<lambda>x. if \<not> zero_memory_on_free m \<and> p \<le> x \<and> x < p + n then 0 else mbytes m x)"
proof -
  from mem_alloc_facts [OF ok n] obtain q m2 where q: "mem_alloc n m = Some (q, m2)" "mem_ok m2"
    "zero_memory_on_free m2 = zero_memory_on_free m" "null_segment_size m2 = null_segment_size m"
    and c: "if q = 0 then heap m2 = heap m \<and> mbytes m2 = mbytes m else fresh_block (heap m) q n (heap m2)
       \<and> mbytes m2 = (\<lambda>x. if \<not> zero_memory_on_free m \<and> q \<le> x \<and> x < q + n then 0 else mbytes m x)" by blast
  have "q = p" "m2 = m'" using q(1) run by simp_all
  then show ?thesis using q c p by simp
qed

section \<open>\<open>free\<close>\<close>

text \<open>The pointers \<open>free\<close> ignores.\<close>

definition ignored_by_free :: "mem \<Rightarrow> nat \<Rightarrow> bool" where
  "ignored_by_free m p = (p = 0 \<or> p = 0x7461736b \<or> used_view (heap m) p = None)"

lemma mem_free_ignored: "ignored_by_free m p \<Longrightarrow> mem_free p m = Some m"
  by (auto simp: mem_free_def ignored_by_free_def is_known_allocation_def cm_get_size_with_base_def)

lemma mem_free_facts:
  assumes ok: "mem_ok m" and live: "\<not> ignored_by_free m p" "used_view (heap m) p = Some n"
  shows "\<exists>m'. mem_free p m = Some m' \<and> mem_ok m' \<and> null_segment_size m' = null_segment_size m
    \<and> zero_memory_on_free m' = zero_memory_on_free m
    \<and> used_view (heap m') = (used_view (heap m))(p := None)
    \<and> covered (free_view (heap m')) \<subseteq> covered (free_view (heap m)) \<union> {p..<p + n}
    \<and> mbytes m' = (\<lambda>x. if zero_memory_on_free m \<and> p \<le> x \<and> x < p + n then 0 else mbytes m x)"
proof -
  have inv: "alloc_inv (heap m)" using ok by (simp add: mem_ok_def)
  have p0: "p \<noteq> 0" and noted: "p \<noteq> 0x7461736b" using live(1) by (auto simp: ignored_by_free_def)
  from allocator_free_spec [OF inv p0 live(2)] obtain a' where
    a': "allocator_free p (heap m) = Some (n, a')" "alloc_inv a'" "used_view a' = (used_view (heap m))(p := None)"
      "free_effect (free_view (heap m)) p n (free_view a')" by blast
  have av: "avoids (free_view (heap m)) p n"
    using alloc_inv_parts(4) [OF inv] live(2) by (simp add: separate_def)
  have cov: "covered (free_view a') \<subseteq> covered (free_view (heap m)) \<union> {p..<p + n}"
    using free_covered [OF a'(4) av] sb.view_pos [OF alloc_inv_parts(7) [OF inv]] used_block(2) [OF ok live(2) p0]
    by fastforce
  let ?m1 = "m\<lparr> heap := a' \<rparr>"
  have ok1: "mem_ok ?m1" using ok a'(2,3) p0 by (intro mem_ok_heap) auto
  have sl: "bytes_at_mut ?m1 p n = Guest p n"
    using used_block [OF ok live(2) p0] by (intro bytes_at_mut_guest) (auto simp: BYTES_LEN_def)
  have run: "mem_free p m = Some (if zero_memory_on_free m then slice_fill (Guest p n) 0 ?m1 else ?m1)"
    using p0 noted live a'(1) sl
    by (simp add: mem_free_def is_known_allocation_def cm_get_size_with_base_def)
  have bytes: "mbytes (slice_fill (Guest p n) 0 ?m1) = (\<lambda>x. if p \<le> x \<and> x < p + n then 0 else mbytes m x)"
    by (simp add: slice_fill_def put_bytes_zero fun_eq_iff)
  show ?thesis
  proof (cases "zero_memory_on_free m")
    case True
    then show ?thesis using run mem_ok_fill [OF ok1] a'(3) cov bytes
      by (intro exI [of _ "slice_fill (Guest p n) 0 ?m1"]) (simp add: frames)
  next
    case False
    then show ?thesis using run ok1 a'(3) cov by (intro exI [of _ ?m1]) simp
  qed
qed

section \<open>\<open>realloc\<close>\<close>

lemma memmove_bytes:
  assumes "n < 2147483648" "s \<noteq> 0" "s + n \<le> BYTES_LEN" "d + n \<le> BYTES_LEN"
  shows "mbytes (memmove d s n m) = (\<lambda>x. if d \<le> x \<and> x < d + n then mbytes m (s + (x - d)) else mbytes m x)"
  using assms by (auto simp: memmove_def put_bytes_def fun_eq_iff)

lemma fill_tail_guest:
  "i \<le> n \<Longrightarrow> fill_tail (Guest p n) i m =
     Some (m\<lparr> mbytes := (\<lambda>x. if p + i \<le> x \<and> x < p + n then 0 else mbytes m x) \<rparr>)"
  by (auto simp: fill_tail_def put_bytes_zero fun_eq_iff)

text \<open>The ways \<open>realloc\<close> of a live block \<open>(p, old)\<close> to a larger size can go.\<close>

definition grown_in_place :: "mem \<Rightarrow> nat \<Rightarrow> nat \<Rightarrow> nat \<Rightarrow> mem \<Rightarrow> bool" where
  "grown_in_place m p old n m' = (\<exists>g \<ge> n. used_view (heap m') = (used_view (heap m))(p \<mapsto> g)
     \<and> covered (free_view (heap m)) = covered (free_view (heap m')) \<union> {p + old..<p + g}
     \<and> mbytes m' = (\<lambda>x. if zero_memory_on_free m \<and> p + old \<le> x \<and> x < p + g then 0 else mbytes m x))"

lemma mem_realloc_grow:
  assumes ok: "mem_ok m" and live: "used_view (heap m) p = Some old" "p \<noteq> 0" and n: "old < n" "n < 4294967296"
  shows "(\<exists>m'. mem_realloc p n m = Some (p, m') \<and> mem_ok m' \<and> zero_memory_on_free m' = zero_memory_on_free m
           \<and> null_segment_size m' = null_segment_size m \<and> grown_in_place m p old n m')
    \<or> (\<exists>a. alloc_inv a \<and> used_view a = used_view (heap m) \<and> free_view a = free_view (heap m)
        \<and> mem_realloc p n m = do {
             (new_ptr, m2) \<leftarrow> mem_alloc n (m\<lparr> heap := a \<rparr>);
             m4 \<leftarrow> mem_free p (memmove new_ptr p old m2);
             Some (new_ptr, m4) })"
proof -
  have inv: "alloc_inv (heap m)" using ok by (simp add: mem_ok_def)
  have old: "find_allocated_size p (heap m) = old" "\<not> n \<le> old"
    using live n by (simp_all add: find_allocated_size_def cm_get_size_with_base_def)
  from grow_in_place_spec [OF inv live(2,1) n] show ?thesis
  proof (elim disjE exE conjE)
    fix a assume a: "grow_in_place p old n (heap m) = Some (None, a)" "alloc_inv a"
      "used_view a = used_view (heap m)" "free_view a = free_view (heap m)"
    then show ?thesis using live(2) old by (intro disjI2 exI [of _ a]) (simp add: mem_realloc_def Let_def)
  next
    fix g a assume a: "grow_in_place p old n (heap m) = Some (Some g, a)" "alloc_inv a"
      and u: "used_view a = (used_view (heap m))(p \<mapsto> g)" and eff: "grow_effect (free_view (heap m)) p old n g (free_view a)"
    let ?m1 = "m\<lparr> heap := a \<rparr>"
    have ok1: "mem_ok ?m1" using ok a(2) u live(2) by (intro mem_ok_heap) auto
    have g: "n \<le> g" using grow_effect_bounds [OF eff] n by simp
    have cov: "covered (free_view (heap m)) = covered (free_view a) \<union> {p + old..<p + g}"
      using grow_covered [OF eff alloc_inv_parts(3) [OF inv] n(1)] sb.view_pos [OF alloc_inv_parts(7) [OF inv]] by blast
    have sl: "bytes_at_mut ?m1 p g = Guest p g" using block_slice(1) [OF ok1 _ live(2)] u by simp
    let ?m' = "?m1\<lparr> mbytes := (\<lambda>x. if p + old \<le> x \<and> x < p + g then 0 else mbytes m x) \<rparr>"
    have fill: "fill_tail (Guest p g) old ?m1 = Some ?m'"
    proof -
      have "old \<le> g" using g n by simp
      moreover have "mbytes ?m1 = mbytes m" by simp
      ultimately show ?thesis using fill_tail_guest [of old g p ?m1] by (simp only:)
    qed
    have ok': "mem_ok ?m'" using ok1 by (simp add: mem_ok_def)
    show ?thesis
    proof (cases "zero_memory_on_free m")
      case True
      have "grown_in_place m p old n ?m'"
        unfolding grown_in_place_def using g u cov True by (intro exI [of _ g]) simp
      moreover have "mem_realloc p n m = Some (p, ?m')"
        using True live(2) old a(1) sl fill by (simp add: mem_realloc_def Let_def)
      ultimately show ?thesis using ok' by (intro disjI1 exI [of _ ?m']) simp
    next
      case False
      have "grown_in_place m p old n ?m1"
        unfolding grown_in_place_def using g u cov False by (intro exI [of _ g]) simp
      moreover have "mem_realloc p n m = Some (p, ?m1)"
        using False live(2) old a(1) by (simp add: mem_realloc_def Let_def)
      ultimately show ?thesis using ok1 by (intro disjI1 exI [of _ ?m1]) simp
    qed
  qed
qed

definition moved :: "mem \<Rightarrow> nat \<Rightarrow> nat \<Rightarrow> nat \<Rightarrow> nat \<Rightarrow> mem \<Rightarrow> bool" where
  "moved m p old n q m' = (\<exists>k \<ge> n. q \<noteq> 0 \<and> used_view (heap m) q = None \<and> avoids (used_view (heap m)) q k
     \<and> used_view (heap m') = (used_view (heap m))(q \<mapsto> k, p := None)
     \<and> (\<forall>i < old. mbytes m' (q + i) = mbytes m (p + i))
     \<and> (\<forall>x. \<not> (q \<le> x \<and> x < q + k) \<and> \<not> (p \<le> x \<and> x < p + old) \<longrightarrow> mbytes m' x = mbytes m x))"

lemma fresh_block_span:
  assumes ok: "mem_ok m'" and fr: "fresh_block a q n (heap m')"
  obtains k where "q \<noteq> 0" "n \<le> k" "used_view a q = None" "avoids (used_view a) q k" "0 < k"
    "used_view (heap m') = (used_view a)(q \<mapsto> k)" "q + k \<le> 4294967296" "null_segment_size m' \<le> q"
proof -
  obtain k where k: "q \<noteq> 0" "used_view a q = None" "n \<le> k" "0 < k" "used_view (heap m') = (used_view a)(q \<mapsto> k)"
    "avoids (used_view a) q k" using fr unfolding fresh_block_def by blast
  have "used_view (heap m') q = Some k" using k(5) by simp
  from used_block [OF ok this k(1)] k that show thesis by blast
qed

lemma mem_realloc_move:
  assumes ok: "mem_ok m" and live: "used_view (heap m) p = Some old" "p \<noteq> 0" "p \<noteq> 0x7461736b"
    and n: "old < n" "n < 4294967296" "old < 2147483648"
  shows "\<exists>q m'. (do { (new_ptr, m2) \<leftarrow> mem_alloc n m; m4 \<leftarrow> mem_free p (memmove new_ptr p old m2); Some (new_ptr, m4) })
       = Some (q, m') \<and> mem_ok m' \<and> null_segment_size m' = null_segment_size m
       \<and> zero_memory_on_free m' = zero_memory_on_free m
       \<and> (q = 0 \<and> used_view (heap m') = (used_view (heap m))(p := None) \<or> moved m p old n q m')"
proof -
  from mem_alloc_facts [OF ok n(2)] obtain q m2 where
    m2: "mem_alloc n m = Some (q, m2)" "mem_ok m2" "null_segment_size m2 = null_segment_size m"
      "zero_memory_on_free m2 = zero_memory_on_free m"
    and c: "if q = 0 then heap m2 = heap m \<and> mbytes m2 = mbytes m else fresh_block (heap m) q n (heap m2) \<and>
       mbytes m2 = (\<lambda>x. if \<not> zero_memory_on_free m \<and> q \<le> x \<and> x < q + n then 0 else mbytes m x)"
    by blast
  have c0: "q = 0 \<Longrightarrow> heap m2 = heap m"
    and c1: "q \<noteq> 0 \<Longrightarrow> fresh_block (heap m) q n (heap m2) \<and>
       mbytes m2 = (\<lambda>x. if \<not> zero_memory_on_free m \<and> q \<le> x \<and> x < q + n then 0 else mbytes m x)"
    using c by simp_all
  let ?m3 = "memmove q p old m2"
  have ok3: "mem_ok ?m3" using m2(2) by (rule mem_ok_memmove)
  have h3: "heap ?m3 = heap m2" by (simp add: frames)
  have top: "p + old \<le> 4294967296" using used_block [OF ok live(1,2)] by simp
  show ?thesis
  proof (cases "q = 0")
    case True
    then have u: "used_view (heap ?m3) p = Some old" using c0 h3 live(1) by simp
    then have nig: "\<not> ignored_by_free ?m3 p" using live by (simp add: ignored_by_free_def)
    from mem_free_facts [OF ok3 nig u] obtain m4 where m4: "mem_free p ?m3 = Some m4" "mem_ok m4"
      "null_segment_size m4 = null_segment_size ?m3" "zero_memory_on_free m4 = zero_memory_on_free ?m3"
      "used_view (heap m4) = (used_view (heap ?m3))(p := None)" by blast
    have "used_view (heap m4) = (used_view (heap m))(p := None)" using m4(5) h3 c0 [OF True] by simp
    then show ?thesis using m2 m4 True by (intro exI [of _ q] exI [of _ m4]) (simp add: frames)
  next
    case False
    from c1 [OF False] have fr: "fresh_block (heap m) q n (heap m2)" and
      b2: "mbytes m2 = (\<lambda>x. if \<not> zero_memory_on_free m \<and> q \<le> x \<and> x < q + n then 0 else mbytes m x)" by auto
    from fresh_block_span [OF m2(2) fr] obtain k where k: "n \<le> k" "used_view (heap m) q = None"
      "avoids (used_view (heap m)) q k" "0 < k" "used_view (heap m2) = (used_view (heap m))(q \<mapsto> k)"
      "q + k \<le> 4294967296" by blast
    have qp: "q \<noteq> p" using k(2) live(1) by auto
    have apart: "p + old \<le> q \<or> q + k \<le> p" using k(3) live(1) unfolding avoids_def by blast
    have u: "used_view (heap ?m3) p = Some old" using k(5) h3 live(1) qp by simp
    then have nig: "\<not> ignored_by_free ?m3 p" using live by (simp add: ignored_by_free_def)
    from mem_free_facts [OF ok3 nig u] obtain m4 where m4: "mem_free p ?m3 = Some m4" "mem_ok m4"
      "null_segment_size m4 = null_segment_size ?m3" "zero_memory_on_free m4 = zero_memory_on_free ?m3"
      "used_view (heap m4) = (used_view (heap ?m3))(p := None)"
      "mbytes m4 = (\<lambda>x. if zero_memory_on_free ?m3 \<and> p \<le> x \<and> x < p + old then 0 else mbytes ?m3 x)" by blast
    have b3: "mbytes ?m3 = (\<lambda>x. if q \<le> x \<and> x < q + old then mbytes m2 (p + (x - q)) else mbytes m2 x)"
      using memmove_bytes [OF n(3) live(2)] top k n(1) by (simp add: BYTES_LEN_def)
    have copied: "mbytes m4 (q + i) = mbytes m (p + i)" if i: "i < old" for i
    proof -
      have "\<not> (p \<le> q + i \<and> q + i < p + old)" using apart i k(1) n(1) by linarith
      then have "mbytes m4 (q + i) = mbytes ?m3 (q + i)" unfolding m4(6) by auto
      also have "\<dots> = mbytes m2 (p + i)" unfolding b3 using i by simp
      also have "\<dots> = mbytes m (p + i)" unfolding b2 using apart i k(1) n(1) by auto
      finally show ?thesis .
    qed
    have frame: "mbytes m4 x = mbytes m x" if "\<not> (q \<le> x \<and> x < q + k)" "\<not> (p \<le> x \<and> x < p + old)" for x
    proof -
      have x: "\<not> (q \<le> x \<and> x < q + n)" "\<not> (q \<le> x \<and> x < q + old)" using that(1) k(1) n(1) by auto
      have "mbytes m4 x = mbytes ?m3 x" unfolding m4(6) using that(2) by auto
      also have "\<dots> = mbytes m2 x" unfolding b3 using x(2) by auto
      also have "\<dots> = mbytes m x" unfolding b2 using x(1) by auto
      finally show ?thesis .
    qed
    have "used_view (heap m4) = (used_view (heap m))(q \<mapsto> k, p := None)" using m4(5) h3 k(5) by simp
    then have "moved m p old n q m4" unfolding moved_def using k(1,2,3) False copied frame by blast
    then show ?thesis using m2 m4 by (intro exI [of _ q] exI [of _ m4]) (simp add: frames)
  qed
qed

section \<open>Totality\<close>

lemma mem_free_total: "mem_ok m \<Longrightarrow> \<exists>m'. mem_free p m = Some m' \<and> mem_ok m'"
proof (cases "ignored_by_free m p")
  case True
  assume "mem_ok m"
  then show ?thesis using mem_free_ignored [OF True] by auto
next
  case False
  assume "mem_ok m"
  then show ?thesis using mem_free_facts [OF _ False] False by (auto simp: ignored_by_free_def)
qed

lemma mem_alloc_total: "mem_ok m \<Longrightarrow> n < 4294967296 \<Longrightarrow> \<exists>p m'. mem_alloc n m = Some (p, m') \<and> mem_ok m'"
  using mem_alloc_facts by blast

lemma move_total:
  assumes "mem_ok m" "n < 4294967296"
  shows "\<exists>q m'. (do { (new_ptr, m2) \<leftarrow> mem_alloc n m; m4 \<leftarrow> mem_free p (memmove new_ptr p old m2); Some (new_ptr, m4) })
       = Some (q, m') \<and> mem_ok m'"
proof -
  from mem_alloc_total [OF assms] obtain q m2 where m2: "mem_alloc n m = Some (q, m2)" "mem_ok m2" by blast
  from mem_free_total [OF mem_ok_memmove [OF m2(2)]] obtain m4 where
    "mem_free p (memmove q p old m2) = Some m4" "mem_ok m4" by blast
  with m2(1) show ?thesis by auto
qed

lemma mem_realloc_total:
  assumes ok: "mem_ok m" and n: "n < 4294967296"
  shows "\<exists>q m'. mem_realloc p n m = Some (q, m') \<and> mem_ok m'"
proof (cases "p = 0")
  case True
  then show ?thesis using mem_alloc_total [OF ok n] by (simp add: mem_realloc_def)
next
  case p0: False
  show ?thesis
  proof (cases "used_view (heap m) p")
    case None
    then have f: "find_allocated_size p (heap m) = 0"
      and g: "grow_in_place p 0 n (heap m) = Some (None, heap m)"
      by (simp_all add: find_allocated_size_def grow_in_place_def cm_get_size_with_base_def)
    show ?thesis
    proof (cases "n = 0")
      case True
      then show ?thesis using p0 f ok by (simp add: mem_realloc_def)
    next
      case False
      then show ?thesis using p0 f g move_total [OF ok n, of p 0] by (simp add: mem_realloc_def)
    qed
  next
    case (Some old)
    show ?thesis
    proof (cases "n \<le> old")
      case True
      then show ?thesis using p0 Some ok
        by (simp add: mem_realloc_def find_allocated_size_def cm_get_size_with_base_def)
    next
      case False
      then have "old < n" by simp
      from mem_realloc_grow [OF ok Some p0 this n] show ?thesis
      proof (elim disjE exE conjE)
        fix a assume a: "alloc_inv a" "used_view a = used_view (heap m)"
          and run: "mem_realloc p n m = do { (new_ptr, m2) \<leftarrow> mem_alloc n (m\<lparr> heap := a \<rparr>);
             m4 \<leftarrow> mem_free p (memmove new_ptr p old m2); Some (new_ptr, m4) }"
        have "mem_ok (m\<lparr> heap := a \<rparr>)" using ok a by (intro mem_ok_heap) auto
        from move_total [OF this n] show ?thesis unfolding run .
      qed auto
    qed
  qed
qed

lemma mem_write_byte: "\<exists>m'. mem_write m p [b] = Some m' \<and> heap m' = heap m \<and> null_segment_size m' = null_segment_size m
   \<and> null_stub_page m' = null_stub_page m \<and> zero_memory_on_free m' = zero_memory_on_free m"
proof -
  have "p mod 4096 < 4096" by simp
  then have "1 \<le> slice_len (bytes_at_mut m p 1)" by (auto simp: bytes_at_mut_def PAGE_SIZE_def)
  then show ?thesis by (auto simp: mem_write_def Let_def frames)
qed

section \<open>The booted memory\<close>

definition mem_boot :: "nat \<Rightarrow> mem option" where
  "mem_boot n = do { m \<leftarrow> mem_new; set_null_segment_size n m }"

lemma mem_boot_spec:
  assumes "0 < n" "n < 4293918720" "n mod 4096 = 0"
  shows "\<exists>m. mem_boot n = Some m \<and> mem_ok m \<and> null_segment_size m = n \<and> zero_memory_on_free m
     \<and> mbytes m = (\<lambda>_. 0) \<and> used_view (heap m) = [4293918720 \<mapsto> 1048576, 0 \<mapsto> n]
     \<and> free_view (heap m) = [n \<mapsto> 4293918720 - n]"
proof -
  obtain a where a: "allocator_new = Some a" "alloc_wf a" "used_view a = [4293918720 \<mapsto> 1048576]"
    "free_view a = [0 \<mapsto> 4293918720]" using allocator_new_spec by blast
  let ?c = "\<lparr> cbase = 0, csize = n \<rparr>" and ?u = "\<lparr> cbase = 0, csize = 4293918720 \<rparr>"
  have c: "chunk_new 0 n = Some ?c" "chunk_ok ?c"
    using assms by (simp_all add: chunk_new_def chunk_ok_def span_ok_def page_aligned_def)
  have "holds_chunk ?u ?c" "reservable ?c ?u" using assms by (simp_all add: holds_chunk_def reservable_def)
  from allocator_reserve_found [OF a(2) c(2) _ this] a obtain b where
    b: "allocator_reserve ?c a = Some b" "alloc_wf b" "used_view b = [4293918720 \<mapsto> 1048576, 0 \<mapsto> n]"
      "free_view b = reserve_view ?u ?c [0 \<mapsto> 4293918720]" by auto
  have big: "16 \<le> 4293918720 - n"
  proof -
    obtain k where "n = 4096 * k" using assms(3) by blast
    then show ?thesis using assms(2) by simp
  qed
  have f: "free_view b = [n \<mapsto> 4293918720 - n]"
    unfolding b(4) using big assms by (simp add: reserve_view_def put_part_def left_part_def right_part_def put_def)
  let ?m = "\<lparr> mbytes = (\<lambda>_. 0), null_segment_size = n, heap = b, zero_memory_on_free = True,
       null_stub_page = (\<lambda>_. 0), null_write_sink = (\<lambda>_. 0) \<rparr>"
  have "mem_boot n = Some ?m"
    unfolding mem_boot_def mem_new_def a(1) set_null_segment_size_def
    using assms(3) c(1) by (simp add: b(1))
  moreover have "mem_ok ?m" using b(2,3) assms(3) by (simp add: mem_ok_def alloc_inv_def)
  ultimately show ?thesis using b(3) f by (intro exI [of _ ?m]) simp
qed

lemma mem_alloc_succeeds:
  assumes ok: "mem_ok m" and n: "n < 4294967296" "aligned_size_opt n = Some r"
    and room: "free_view (heap m) q = Some l" "r \<le> l"
  shows "\<exists>p m'. mem_alloc n m = Some (p, m') \<and> p \<noteq> 0"
proof -
  have inv: "alloc_inv (heap m)" using ok by (simp add: mem_ok_def)
  from allocator_alloc_cases [OF alloc_inv_parts(1) [OF inv] n(1)] obtain b a' where
    b: "allocator_alloc n (heap m) = Some (b, a')" "alloc_effect r (heap m) b a'"
    using n(2) room by (metis not_le option.distinct(1) option.inject)
  then have "free_view (heap m) b \<noteq> None" unfolding alloc_effect_def by blast
  then have "b \<noteq> 0" using alloc_inv_free0 [OF inv] by (cases "b = 0") simp_all
  then show ?thesis using b(1) by (simp add: mem_alloc_def Let_def)
qed

lemma boot_alloc:
  assumes "n \<le> 65536"
  shows "\<exists>m p m'. mem_boot 4096 = Some m \<and> mem_ok m \<and> mem_alloc n m = Some (p, m') \<and> p \<noteq> 0"
proof -
  obtain m where m: "mem_boot 4096 = Some m" "mem_ok m" "free_view (heap m) = [4096 \<mapsto> 4293914624]"
    using mem_boot_spec [of 4096] by auto
  have n: "n < 4294967296" using assms by simp
  then obtain r where r: "aligned_size_opt n = Some r" using aligned_size_None [OF n] assms by fastforce
  have "r \<le> n + 4096"
    using r assms by (auto simp: aligned_size_opt_def PAGE_SIZE_def MIN_CHUNK_SIZE_def align_def
        checked_add32_def max_def split: if_splits)
  then have "r \<le> 4293914624" using assms by simp
  from mem_alloc_succeeds [OF m(2) n r _ this, of 4096] m show ?thesis by auto
qed

section \<open>Sequences of heap calls\<close>

text \<open>The calls guest code can make into the heap, with whatever arguments it likes.\<close>

datatype heap_op =
    Malloc nat
  | Calloc nat
  | Realloc nat nat
  | Free nat
  | Memmove nat nat nat
  | Poke nat u8

fun heap_step :: "heap_op \<Rightarrow> mem \<Rightarrow> mem option" where
  "heap_step (Malloc n) m = map_option snd (mem_alloc n m)"
| "heap_step (Calloc n) m = map_option snd (mem_calloc n m)"
| "heap_step (Realloc p n) m = map_option snd (mem_realloc p n m)"
| "heap_step (Free p) m = mem_free p m"
| "heap_step (Memmove d s n) m = Some (memmove d s n m)"
| "heap_step (Poke p b) m = mem_write m p [b]"

fun u32_args :: "heap_op \<Rightarrow> bool" where
  "u32_args (Malloc n) = (n < 4294967296)"
| "u32_args (Calloc n) = (n < 4294967296)"
| "u32_args (Realloc p n) = (p < 4294967296 \<and> n < 4294967296)"
| "u32_args (Free p) = (p < 4294967296)"
| "u32_args (Memmove d s n) = (d < 4294967296 \<and> s < 4294967296 \<and> n < 4294967296)"
| "u32_args (Poke p b) = (p < 4294967296)"

inductive heap_reach :: "mem \<Rightarrow> bool" where
  boot: "mem_boot n = Some m \<Longrightarrow> 0 < n \<Longrightarrow> n < 4293918720 \<Longrightarrow> heap_reach m"
| step: "heap_reach m \<Longrightarrow> u32_args op \<Longrightarrow> heap_step op m = Some m' \<Longrightarrow> heap_reach m'"

lemma mem_boot_aligned: "mem_boot n = Some m \<Longrightarrow> n mod 4096 = 0"
  by (auto simp: mem_boot_def set_null_segment_size_def split: if_splits Option.bind_splits)

lemma heap_step_ok:
  assumes ok: "mem_ok m" and args: "u32_args op"
  shows "\<exists>m'. heap_step op m = Some m' \<and> mem_ok m'"
proof (cases op)
  case (Malloc n)
  then show ?thesis using mem_alloc_total [OF ok, of n] args by auto
next
  case (Calloc n)
  then obtain p m1 where "mem_alloc n m = Some (p, m1)" "mem_ok m1"
    using mem_alloc_total [OF ok, of n] args by auto
  then show ?thesis using Calloc by (simp add: mem_calloc_def mem_ok_fill)
next
  case (Realloc p n)
  then show ?thesis using mem_realloc_total [OF ok, of n p] args by auto
next
  case (Free p)
  then show ?thesis using mem_free_total [OF ok, of p] by simp
next
  case (Memmove d s n)
  then show ?thesis using mem_ok_memmove [OF ok, of d s n] by simp
next
  case (Poke p b)
  obtain m' where "mem_write m p [b] = Some m'" "heap m' = heap m" "null_segment_size m' = null_segment_size m"
    "null_stub_page m' = null_stub_page m" using mem_write_byte by blast
  then show ?thesis using Poke ok by (simp add: mem_ok_def)
qed

lemma heap_reach_ok: "heap_reach m \<Longrightarrow> mem_ok m"
proof (induction rule: heap_reach.induct)
  case (boot n m)
  then show ?case using mem_boot_spec [of n] mem_boot_aligned [of n m] by auto
next
  case (step m op m')
  then show ?case using heap_step_ok [of m op] by auto
qed

text \<open>C4: from a booted memory, no sequence of \<open>malloc\<close>, \<open>calloc\<close>, \<open>realloc\<close>, \<open>free\<close>, \<open>memmove\<close> and
  byte writes, with arbitrary pointers and sizes, makes the host panic: every next call returns,
  whatever the guest did before.\<close>

theorem heap_never_panics:
  assumes "heap_reach m" "u32_args op"
  shows "\<exists>m'. heap_step op m = Some m' \<and> heap_reach m'"
  using heap_step_ok [OF heap_reach_ok [OF assms(1)] assms(2)] heap_reach.step [OF assms] by blast

lemma heap_never_panics_witness: "\<exists>m m'. mem_boot 4096 = Some m \<and> heap_step (Realloc 12345 100) m = Some m' \<and> heap_reach m'"
proof -
  obtain m where m: "mem_boot 4096 = Some m" using mem_boot_spec [of 4096] by auto
  then have "heap_reach m" by (rule heap_reach.boot) simp_all
  then show ?thesis using heap_never_panics [of m "Realloc 12345 100"] m by auto
qed

section \<open>Contents across \<open>realloc\<close>\<close>

lemma mem_realloc_cases:
  assumes ok: "mem_ok m" and live: "used_view (heap m) p = Some old" "p \<noteq> 0" "p \<noteq> 0x7461736b"
    and n: "old < n" "n < 4294967296" "old < 2147483648"
  shows "\<exists>q m'. mem_realloc p n m = Some (q, m') \<and> mem_ok m' \<and> zero_memory_on_free m' = zero_memory_on_free m
    \<and> (q = p \<and> grown_in_place m p old n m'
       \<or> q = 0 \<and> used_view (heap m') = (used_view (heap m))(p := None)
       \<or> moved m p old n q m')"
  using mem_realloc_grow [OF ok live(1,2) n(1,2)]
proof (elim disjE exE conjE)
  fix a assume a: "alloc_inv a" "used_view a = used_view (heap m)"
    and run: "mem_realloc p n m = do { (new_ptr, m2) \<leftarrow> mem_alloc n (m\<lparr> heap := a \<rparr>);
       m4 \<leftarrow> mem_free p (memmove new_ptr p old m2); Some (new_ptr, m4) }"
  have "mem_ok (m\<lparr> heap := a \<rparr>)" using ok a by (intro mem_ok_heap) auto
  from mem_realloc_move [OF this _ live(2,3) n] a(2) live(1) obtain q m' where
    "mem_realloc p n m = Some (q, m')" "mem_ok m'" "zero_memory_on_free m' = zero_memory_on_free m"
    "q = 0 \<and> used_view (heap m') = (used_view a)(p := None) \<or> moved (m\<lparr> heap := a \<rparr>) p old n q m'"
    unfolding run by auto
  then show ?thesis using a(2) by (auto simp: moved_def)
qed blast

text \<open>C5: \<open>realloc\<close> of a live block to a larger size returns, and if the new pointer is not NULL the
  block it points to is live, holds at least the requested size, begins with the old contents, and no
  other live block has lost its entry or a byte of its contents.\<close>

theorem realloc_keeps_contents:
  assumes "mem_ok m" "used_view (heap m) p = Some old" "p \<noteq> 0" "p \<noteq> 0x7461736b"
    "old < n" "n < 4294967296" "old < 2147483648"
  shows "\<exists>q m'. mem_realloc p n m = Some (q, m') \<and> mem_ok m' \<and>
    (q \<noteq> 0 \<longrightarrow> (\<exists>k \<ge> n. used_view (heap m') q = Some k
        \<and> (\<forall>i < old. mbytes m' (q + i) = mbytes m (p + i))
        \<and> (\<forall>b s. b \<noteq> p \<and> used_view (heap m) b = Some s \<longrightarrow>
              used_view (heap m') b = Some s \<and> (\<forall>i < s. mbytes m' (b + i) = mbytes m (b + i)))))"
proof -
  have inv: "alloc_inv (heap m)" "alloc_inv (heap m')" if "mem_ok m'" for m'
    using assms(1) that by (auto simp: mem_ok_def)
  from mem_realloc_cases [OF assms] obtain q m' where
    r: "mem_realloc p n m = Some (q, m')" "mem_ok m'"
      "q = p \<and> grown_in_place m p old n m' \<or> q = 0 \<or> moved m p old n q m'" by blast
  from r(3) have "q \<noteq> 0 \<longrightarrow> (\<exists>k \<ge> n. used_view (heap m') q = Some k
        \<and> (\<forall>i < old. mbytes m' (q + i) = mbytes m (p + i))
        \<and> (\<forall>b s. b \<noteq> p \<and> used_view (heap m) b = Some s \<longrightarrow>
              used_view (heap m') b = Some s \<and> (\<forall>i < s. mbytes m' (b + i) = mbytes m (b + i))))"
  proof (elim disjE conjE)
    assume q: "q = p" and g: "grown_in_place m p old n m'"
    obtain g where g: "n \<le> g" "used_view (heap m') = (used_view (heap m))(p \<mapsto> g)"
      "mbytes m' = (\<lambda>x. if zero_memory_on_free m \<and> p + old \<le> x \<and> x < p + g then 0 else mbytes m x)"
      using g unfolding grown_in_place_def by blast
    have "used_view (heap m') b = Some s \<and> (\<forall>i < s. mbytes m' (b + i) = mbytes m (b + i))"
      if b: "b \<noteq> p" "used_view (heap m) b = Some s" for b s
    proof -
      have u: "used_view (heap m') b = Some s" "used_view (heap m') p = Some g" using b g(2) by simp_all
      have "b + s \<le> p \<or> p + g \<le> b"
        using avoids_neighbour [OF alloc_inv_parts(2) [OF inv(2) [OF r(2)]] u b(1)] .
      then show ?thesis using u(1) g(3) by auto
    qed
    then show ?thesis using q g by auto
  next
    assume "moved m p old n q m'"
    then obtain k where k: "n \<le> k" "q \<noteq> 0" "used_view (heap m) q = None" "avoids (used_view (heap m)) q k"
      "used_view (heap m') = (used_view (heap m))(q \<mapsto> k, p := None)"
      "\<forall>i < old. mbytes m' (q + i) = mbytes m (p + i)"
      "\<forall>x. \<not> (q \<le> x \<and> x < q + k) \<and> \<not> (p \<le> x \<and> x < p + old) \<longrightarrow> mbytes m' x = mbytes m x"
      unfolding moved_def by blast
    have qp: "q \<noteq> p" using k(3) assms(2) by auto
    have "used_view (heap m') b = Some s \<and> (\<forall>i < s. mbytes m' (b + i) = mbytes m (b + i))"
      if b: "b \<noteq> p" "used_view (heap m) b = Some s" for b s
    proof -
      have bq: "b \<noteq> q" using b(2) k(3) by auto
      have "b + s \<le> p \<or> p + old \<le> b"
        using avoids_neighbour [OF alloc_inv_parts(2) [OF inv(1) [OF r(2)]] b(2) assms(2) b(1)] .
      moreover have "b + s \<le> q \<or> q + k \<le> b" using k(4) b(2) unfolding avoids_def by blast
      ultimately have "\<forall>i < s. mbytes m' (b + i) = mbytes m (b + i)" using k(7) by auto
      then show ?thesis using b bq k(5) by simp
    qed
    then show ?thesis using k(1,5,6) qp by auto
  qed simp
  with r show ?thesis by blast
qed

lemma realloc_keeps_contents_witness:
  "\<exists>m q m'. mem_boot 4096 = Some m \<and> used_view (heap m) 4293918720 = Some 1048576
     \<and> mem_realloc 4293918720 1048577 m = Some (q, m') \<and> mem_ok m'"
proof -
  obtain m where m: "mem_boot 4096 = Some m" "mem_ok m" "used_view (heap m) = [4293918720 \<mapsto> 1048576, 0 \<mapsto> 4096]"
    using mem_boot_spec [of 4096] by auto
  then have live: "used_view (heap m) 4293918720 = Some 1048576" by simp
  from realloc_keeps_contents [OF m(2) live, of 1048577] m(1) live show ?thesis by auto
qed

section \<open>When \<open>realloc\<close> fails\<close>

lemma mem_alloc_too_big:
  assumes "mem_ok m" "4294963200 < n" "n < 4294967296"
  shows "\<exists>m2. mem_alloc n m = Some (0, m2) \<and> heap m2 = heap m \<and> mbytes m2 = mbytes m \<and> mem_ok m2
    \<and> zero_memory_on_free m2 = zero_memory_on_free m \<and> null_segment_size m2 = null_segment_size m"
proof -
  from mem_alloc_facts [OF assms(1,3)] obtain p m2 where
    m2: "mem_alloc n m = Some (p, m2)" "mem_ok m2" "null_segment_size m2 = null_segment_size m"
      "zero_memory_on_free m2 = zero_memory_on_free m"
      "if p = 0 then heap m2 = heap m \<and> mbytes m2 = mbytes m else fresh_block (heap m) p n (heap m2)"
    by (auto split: if_splits)
  have "allocator_alloc n (heap m) = Some (0, heap m)"
    using aligned_size_None [OF assms(3)] assms(2) by (simp add: allocator_alloc_def)
  then have "p = 0" using m2(1) by (simp add: mem_alloc_def Let_def)
  then show ?thesis using m2 by auto
qed

text \<open>C6: a \<open>realloc\<close> of a live block of less than 2 GB (at any address but the one \<open>free\<close> ignores) to a larger
  size that returns NULL, for whatever reason, has, unlike C's, freed the old block and copied the block's contents over
  the guest memory at address 0 and above, null segment or not.  It does return NULL for every size in the last page
  below 4 GB.\<close>

theorem realloc_failure_destroys:
  assumes ok: "mem_ok m" and live: "used_view (heap m) p = Some old" "p \<noteq> 0" "p \<noteq> 0x7461736b"
    and n: "old < n" "n < 4294967296" "old < 2147483648"
  shows "(\<forall>m'. mem_realloc p n m = Some (0, m') \<longrightarrow> used_view (heap m') = (used_view (heap m))(p := None)
      \<and> (\<forall>x < old. x < p \<longrightarrow> mbytes m' x = mbytes m (p + x)))
    \<and> (4294963200 < n \<longrightarrow> (\<exists>m'. mem_realloc p n m = Some (0, m')))"
proof -
  have inv: "alloc_inv (heap m)" using ok by (simp add: mem_ok_def)
  have nss: "4096 \<le> null_segment_size m"
  proof -
    have "0 < null_segment_size m" "null_segment_size m mod 4096 = 0"
      using ok alloc_wf_used [OF alloc_inv_parts(1) [OF inv], of 0] by (auto simp: mem_ok_def span_ok_def)
    then show ?thesis by (metis mod_less not_less neq0_conv)
  qed
  have p: "4096 \<le> p" "p + old \<le> 4294967296" using used_block [OF ok live(1,2)] nss by auto
  from mem_realloc_grow [OF ok live(1,2) n(1,2)] show ?thesis
  proof (elim disjE exE conjE)
    fix m' assume "mem_realloc p n m = Some (p, m')" "mem_ok m'" "grown_in_place m p old n m'"
    moreover from this obtain g where "n \<le> g" "used_view (heap m') p = Some g" by (auto simp: grown_in_place_def)
    then have "p + g \<le> 4294967296" using used_block(3) [OF \<open>mem_ok m'\<close> _ live(2)] by blast
    then have "\<not> 4294963200 < n" using \<open>n \<le> g\<close> p(1) by simp
    ultimately show ?thesis using live(2) by simp
  next
    fix a assume a: "alloc_inv a" "used_view a = used_view (heap m)"
      and run: "mem_realloc p n m = do { (new_ptr, m2) \<leftarrow> mem_alloc n (m\<lparr> heap := a \<rparr>);
         m4 \<leftarrow> mem_free p (memmove new_ptr p old m2); Some (new_ptr, m4) }"
    have ok1: "mem_ok (m\<lparr> heap := a \<rparr>)" using ok a by (intro mem_ok_heap) auto
    have effect: "\<exists>m4. mem_realloc p n m = Some (0, m4) \<and> used_view (heap m4) = (used_view (heap m))(p := None)
        \<and> (\<forall>x < old. x < p \<longrightarrow> mbytes m4 x = mbytes m (p + x))" if "mem_alloc n (m\<lparr> heap := a \<rparr>) = Some (0, m2)" for m2
    proof -
      have m2: "heap m2 = a" "mbytes m2 = mbytes m" "mem_ok m2"
        using mem_alloc_facts [OF ok1 n(2)] that by auto
      let ?m3 = "memmove 0 p old m2"
      have u: "used_view (heap ?m3) p = Some old" using m2(1) a(2) live(1) by (simp add: frames)
      then have nig: "\<not> ignored_by_free ?m3 p" using live by (simp add: ignored_by_free_def)
      from mem_free_facts [OF mem_ok_memmove [OF m2(3)] nig u] obtain m4 where
        m4: "mem_free p ?m3 = Some m4" "used_view (heap m4) = (used_view (heap ?m3))(p := None)"
          "mbytes m4 = (\<lambda>x. if zero_memory_on_free ?m3 \<and> p \<le> x \<and> x < p + old then 0 else mbytes ?m3 x)" by blast
      have b3: "mbytes ?m3 = (\<lambda>x. if 0 \<le> x \<and> x < 0 + old then mbytes m (p + (x - 0)) else mbytes m x)"
        unfolding m2(2) [symmetric] by (rule memmove_bytes) (use n(3) live(2) p in \<open>simp_all add: BYTES_LEN_def\<close>)
      have "mbytes m4 x = mbytes m (p + x)" if "x < old" "x < p" for x using that m4(3) b3 by simp
      then show ?thesis using run that m2(1) m4(1,2) a(2) by (auto simp: frames)
    qed
    obtain q m2 where q: "mem_alloc n (m\<lparr> heap := a \<rparr>) = Some (q, m2)" using mem_alloc_facts [OF ok1 n(2)] by blast
    have "q = 0" if failed: "mem_realloc p n m = Some (0, m')" for m' using failed run q by (auto simp: bind_eq_Some_conv)
    moreover have "\<exists>m2. mem_alloc n (m\<lparr> heap := a \<rparr>) = Some (0, m2)" if "4294963200 < n"
      using mem_alloc_too_big [OF ok1 that n(2)] by blast
    ultimately show ?thesis using effect q by fastforce
  qed
qed

lemma realloc_failure_destroys_witness:
  "\<exists>m m'. mem_boot 4096 = Some m \<and> mem_realloc 4293918720 4294967295 m = Some (0, m')
     \<and> used_view (heap m') 4293918720 = None"
proof -
  obtain m where m: "mem_boot 4096 = Some m" "mem_ok m" "used_view (heap m) = [4293918720 \<mapsto> 1048576, 0 \<mapsto> 4096]"
    using mem_boot_spec [of 4096] by auto
  then have live: "used_view (heap m) 4293918720 = Some 1048576" by simp
  from realloc_failure_destroys [OF m(2) live, of 4294967295] m(1) show ?thesis by auto
qed

section \<open>Free memory is zero\<close>

definition clean :: "mem \<Rightarrow> bool" where
  "clean m = (mem_ok m \<and> zero_memory_on_free m \<and> free_zeroed m)"

lemma free_zeroed_sub:
  assumes "free_zeroed m" "covered (free_view (heap m')) \<subseteq> covered (free_view (heap m)) \<union> Z"
    and "\<And>x. x \<in> covered (free_view (heap m')) \<Longrightarrow> mbytes m' x = mbytes m x \<or> mbytes m' x = 0"
    and "\<And>x. x \<in> Z \<Longrightarrow> x \<in> covered (free_view (heap m')) \<Longrightarrow> mbytes m' x = 0"
  shows "free_zeroed m'"
  unfolding free_zeroed_def
proof
  fix x assume x: "x \<in> covered (free_view (heap m'))"
  show "mbytes m' x = 0"
  proof (cases "x \<in> Z")
    case True
    then show ?thesis using assms(4) x by blast
  next
    case False
    then have "mbytes m x = 0" using x assms(1,2) by (auto simp: free_zeroed_def)
    then show ?thesis using assms(3) [OF x] by auto
  qed
qed

lemma clean_alloc:
  assumes c: "clean m" and n: "n < 4294967296" and run: "mem_alloc n m = Some (p, m')"
  shows "clean m'" "p \<noteq> 0 \<Longrightarrow> i < n \<Longrightarrow> mbytes m' (p + i) = 0"
proof -
  have ok: "mem_ok m" and z: "zero_memory_on_free m" and fz: "free_zeroed m" using c by (auto simp: clean_def)
  from mem_alloc_facts [OF ok n] run have f: "mem_ok m'" "zero_memory_on_free m'"
    "if p = 0 then heap m' = heap m \<and> mbytes m' = mbytes m else fresh_block (heap m) p n (heap m') \<and>
       mbytes m' = (\<lambda>x. if \<not> zero_memory_on_free m \<and> p \<le> x \<and> x < p + n then 0 else mbytes m x)"
    using z by auto
  have b: "mbytes m' = mbytes m" using f(3) z by (simp split: if_split_asm)
  have sub: "covered (free_view (heap m')) \<subseteq> covered (free_view (heap m)) \<union> {}"
    using f(3) by (auto simp: fresh_block_def split: if_split_asm)
  have "free_zeroed m'" by (rule free_zeroed_sub [OF fz sub]) (simp_all add: b)
  then show "clean m'" using f by (simp add: clean_def)
  assume p: "p \<noteq> 0" and i: "i < n"
  then obtain k where "n \<le> k" "covered (free_view (heap m)) = covered (free_view (heap m')) \<union> {p..<p + k}"
    using f(3) by (auto simp: fresh_block_def)
  then have "p + i \<in> covered (free_view (heap m))" using i by auto
  then show "mbytes m' (p + i) = 0" using fz by (simp add: free_zeroed_def b)
qed

lemma clean_free:
  assumes c: "clean m" and run: "mem_free p m = Some m'"
  shows "clean m'"
proof (cases "ignored_by_free m p")
  case True
  then show ?thesis using c run mem_free_ignored [OF True] by simp
next
  case False
  have ok: "mem_ok m" and z: "zero_memory_on_free m" and fz: "free_zeroed m" using c by (auto simp: clean_def)
  from False obtain n where n: "used_view (heap m) p = Some n" by (auto simp: ignored_by_free_def)
  from mem_free_facts [OF ok False n] run have f: "mem_ok m'" "zero_memory_on_free m'"
    "covered (free_view (heap m')) \<subseteq> covered (free_view (heap m)) \<union> {p..<p + n}"
    "mbytes m' = (\<lambda>x. if p \<le> x \<and> x < p + n then 0 else mbytes m x)"
    using z by auto
  have "free_zeroed m'" by (rule free_zeroed_sub [OF fz f(3)]) (simp_all add: f(4))
  then show ?thesis using f by (simp add: clean_def)
qed

text \<open>A store that stays inside one live block.\<close>

definition inside_block :: "mem \<Rightarrow> nat \<Rightarrow> nat \<Rightarrow> bool" where
  "inside_block m p n = (\<exists>b k. b \<noteq> 0 \<and> used_view (heap m) b = Some k \<and> b \<le> p \<and> p + n \<le> b + k)"

lemma inside_block_write:
  assumes ok: "mem_ok m" and ib: "inside_block m p (length bs)" and ne: "bs \<noteq> []"
  shows "mem_write m p bs = Some (m\<lparr> mbytes := put_bytes p bs (mbytes m) \<rparr>)"
proof -
  obtain b k where bk: "b \<noteq> 0" "used_view (heap m) b = Some k" "b \<le> p" "p + length bs \<le> b + k"
    using ib unfolding inside_block_def by blast
  have "bytes_at_mut m p (length bs) = Guest p (length bs)"
    using used_block [OF ok bk(2,1)] bk(3,4) by (intro bytes_at_mut_guest) (auto simp: BYTES_LEN_def)
  then show ?thesis using ne by (simp add: mem_write_def)
qed

lemma clean_write:
  assumes c: "clean m" and ib: "inside_block m p (length bs)" and run: "mem_write m p bs = Some m'"
  shows "clean m'"
proof -
  have ok: "mem_ok m" and fz: "free_zeroed m" using c by (auto simp: clean_def)
  have ne: "bs \<noteq> []" using run by (auto simp: mem_write_def)
  have m': "m' = m\<lparr> mbytes := put_bytes p bs (mbytes m) \<rparr>" using inside_block_write [OF ok ib ne] run by simp
  obtain b k where bk: "used_view (heap m) b = Some k" "b \<le> p" "p + length bs \<le> b + k"
    using ib unfolding inside_block_def by blast
  have "separate (used_view (heap m)) (free_view (heap m))"
    using ok alloc_inv_parts(4) by (auto simp: mem_ok_def)
  then have av: "avoids (free_view (heap m)) b k" using bk(1) by (simp add: separate_def)
  have "mbytes m' x = 0" if x: "x \<in> covered (free_view (heap m))" for x
  proof -
    obtain q l where q: "free_view (heap m) q = Some l" "q \<le> x" "x < q + l" using x unfolding covered_def by blast
    then have "q + l \<le> b \<or> b + k \<le> q" using av unfolding avoids_def by blast
    then have "x < p \<or> p + length bs \<le> x" using q bk by linarith
    then show ?thesis using fz x by (simp add: m' put_bytes_other free_zeroed_def)
  qed
  then show ?thesis using c by (simp add: clean_def mem_ok_def free_zeroed_def m')
qed

lemma clean_boot: "mem_boot n = Some m \<Longrightarrow> 0 < n \<Longrightarrow> n < 4293918720 \<Longrightarrow> clean m"
  using mem_boot_spec [of n] mem_boot_aligned [of n m] by (auto simp: clean_def free_zeroed_def)

text \<open>Programs that free what they allocated and write only inside live blocks.\<close>

inductive tidy_reach :: "mem \<Rightarrow> bool" where
  boot: "mem_boot n = Some m \<Longrightarrow> 0 < n \<Longrightarrow> n < 4293918720 \<Longrightarrow> tidy_reach m"
| malloc: "tidy_reach m \<Longrightarrow> n < 4294967296 \<Longrightarrow> mem_alloc n m = Some (p, m') \<Longrightarrow> tidy_reach m'"
| free: "tidy_reach m \<Longrightarrow> mem_free p m = Some m' \<Longrightarrow> tidy_reach m'"
| store: "tidy_reach m \<Longrightarrow> inside_block m p (length bs) \<Longrightarrow> mem_write m p bs = Some m' \<Longrightarrow> tidy_reach m'"

lemma tidy_reach_clean: "tidy_reach m \<Longrightarrow> clean m"
  by (induction rule: tidy_reach.induct) (auto intro: clean_boot clean_alloc(1) clean_free clean_write)

text \<open>C7: with \<open>zero_memory_on_free\<close>, a program that allocates, frees and writes only inside its live
  blocks always gets zeroed memory from \<open>alloc\<close>, although \<open>alloc\<close> itself does not clear anything.\<close>

theorem alloc_returns_zeroed:
  assumes "tidy_reach m" "n < 4294967296" "mem_alloc n m = Some (p, m')" "p \<noteq> 0"
  shows "\<forall>i < n. mbytes m' (p + i) = 0"
  using clean_alloc(2) [OF tidy_reach_clean [OF assms(1)] assms(2,3,4)] by blast

lemma alloc_returns_zeroed_witness:
  "\<exists>m p m'. mem_boot 4096 = Some m \<and> mem_alloc 100 m = Some (p, m') \<and> p \<noteq> 0 \<and> (\<forall>i < 100. mbytes m' (p + i) = 0)"
proof -
  from boot_alloc [of 100] obtain m p m' where
    m: "mem_boot 4096 = Some m" "mem_alloc 100 m = Some (p, m')" "p \<noteq> 0" by auto
  from m(1) have tidy: "tidy_reach m" by (rule tidy_reach.boot) simp_all
  from alloc_returns_zeroed [OF tidy _ m(2,3)] m show ?thesis by auto
qed

end
