(* ===== verification/Memory_Access.thy ===== *)
theory Memory_Access
  imports Heap_Safety
begin

text \<open>
  Typed access to guest memory: reading back what was written, the isolation of the null segment,
  little-endian encoding, pointer arithmetic, and C strings written by the emulator and read back.
\<close>

section \<open>Ordinary memory\<close>

text \<open>A range above the null segment that does not run off the guest's address space.\<close>

definition ordinary :: "mem \<Rightarrow> nat \<Rightarrow> nat \<Rightarrow> bool" where
  "ordinary m p n = (null_segment_size m \<le> p \<and> p + n \<le> 4294967296)"

lemma ordinary_sub: "ordinary m p n \<Longrightarrow> p \<le> q \<Longrightarrow> q + k \<le> p + n \<Longrightarrow> ordinary m q k"
  by (auto simp: ordinary_def)

lemma ordinary_bytes [simp]: "ordinary (m\<lparr> mbytes := f \<rparr>) p n = ordinary m p n"
  by (simp add: ordinary_def)

lemma read_ordinary:
  assumes "ordinary m p n" "n < 4294967296"
  shows "mem_read n m p = Some (map (\<lambda>i. mbytes m (p + i)) [0..<n])"
proof -
  have "bytes_at m p n = Guest p n" using assms by (intro bytes_at_guest) (auto simp: ordinary_def BYTES_LEN_def)
  moreover have "slice_byte m (Guest p n) = (\<lambda>i. mbytes m (p + i))" by (simp add: fun_eq_iff)
  ultimately show ?thesis using assms(2) by (simp add: mem_read_def ptr_at_def checked_mul32_def slice_bytes_def)
qed

lemma write_ordinary:
  assumes "ordinary m p (length bs)" "bs \<noteq> []"
  shows "mem_write m p bs = Some (m\<lparr> mbytes := put_bytes p bs (mbytes m) \<rparr>)"
proof -
  have "bytes_at_mut m p (length bs) = Guest p (length bs)"
    using assms by (intro bytes_at_mut_guest) (auto simp: ordinary_def BYTES_LEN_def)
  then show ?thesis using assms(2) by (simp add: mem_write_def)
qed

lemma put_bytes_get: "map (\<lambda>i. put_bytes p bs f (p + i)) [0..<length bs] = bs"
  by (rule nth_equalityI) (simp_all add: put_bytes_def)

lemma inside_block_ordinary: "mem_ok m \<Longrightarrow> inside_block m p n \<Longrightarrow> ordinary m p n"
  unfolding inside_block_def ordinary_def using used_block by (meson le_trans)

section \<open>The null segment\<close>

lemma stub_read:
  assumes stub: "null_stub_page m = (\<lambda>_. 0)" and p: "p < null_segment_size m" "p mod 4096 + n \<le> 4096"
  shows "mem_read n m p = Some (replicate n 0)"
proof -
  have s: "bytes_at m p n = Stub (p mod 4096) n" 
  proof -
    have "min n (4096 - p mod 4096) = n" using p(2) by linarith
    then show ?thesis using p(1) by (simp add: bytes_at_def PAGE_SIZE_def)
  qed
  have "slice_byte m (Stub (p mod 4096) n) = (\<lambda>_. 0)" using stub by (simp add: fun_eq_iff)
  then have "slice_bytes m (Stub (p mod 4096) n) = replicate n 0" by (simp add: slice_bytes_def map_replicate_const)
  moreover have "n < 4294967296" using p(2) by simp
  ultimately show ?thesis using s by (simp add: mem_read_def ptr_at_def checked_mul32_def)
qed

lemma sink_write:
  assumes p: "p < null_segment_size m" "p mod 4096 + length bs \<le> 4096" "bs \<noteq> []"
  shows "mem_write m p bs = Some (m\<lparr> null_write_sink := put_bytes (p mod 4096) bs (null_write_sink m) \<rparr>)"
  using assms by (simp add: mem_write_def bytes_at_mut_def PAGE_SIZE_def min_def)

text \<open>C8: in every reachable memory, an access inside a page of the null segment reads zeros and a
  write there is swallowed: it succeeds, no byte of guest memory and no entry of the heap changes, and
  the null segment still reads as zero afterwards.\<close>

theorem null_segment_isolated:
  assumes "heap_reach m" "p < null_segment_size m" "bs \<noteq> []" "p mod 4096 + length bs \<le> 4096"
  shows "mem_read (length bs) m p = Some (replicate (length bs) 0) \<and>
    (\<exists>m'. mem_write m p bs = Some m' \<and> mbytes m' = mbytes m \<and> heap m' = heap m
       \<and> mem_read (length bs) m' p = Some (replicate (length bs) 0))"
proof -
  have stub: "null_stub_page m = (\<lambda>_. 0)" using heap_reach_ok [OF assms(1)] by (simp add: mem_ok_def)
  let ?m' = "m\<lparr> null_write_sink := put_bytes (p mod 4096) bs (null_write_sink m) \<rparr>"
  have "mem_read (length bs) ?m' p = Some (replicate (length bs) 0)"
    by (rule stub_read) (use stub assms in simp_all)
  then show ?thesis using stub_read [OF stub assms(2,4)] sink_write [OF assms(2,4,3)] by simp
qed

lemma null_segment_isolated_witness:
  "\<exists>m m'. mem_boot 4096 = Some m \<and> mem_read 2 m 8 = Some [0, 0] \<and> mem_write m 8 [1, 2] = Some m'
     \<and> mem_read 2 m' 8 = Some [0, 0]"
proof -
  obtain m where m: "mem_boot 4096 = Some m" "null_segment_size m = 4096" using mem_boot_spec [of 4096] by auto
  from m(1) have "heap_reach m" by (rule heap_reach.boot) simp_all
  from null_segment_isolated [OF this, of 8 "[1, 2]"] m show ?thesis by (auto simp: numeral_2_eq_2)
qed

text \<open>An access that starts inside a page of the null segment and runs past the end of that page
  goes through a host pointer that was derived for fewer bytes: it leaves the stub page, which is
  undefined behaviour of the host.\<close>

lemma null_page_straddle_undefined:
  assumes "p < null_segment_size m" "4096 < p mod 4096 + n"
  shows "mem_read n m p = None"
proof -
  have "4096 - p mod 4096 < n" using assms(2) by linarith
  then show ?thesis using assms(1) by (simp add: mem_read_def ptr_at_def checked_mul32_def bytes_at_def PAGE_SIZE_def)
qed

lemma null_page_straddle_example: "\<exists>m. mem_boot 4096 = Some m \<and> mem_read 4 m 4094 = None"
proof -
  obtain m where m: "mem_boot 4096 = Some m" "null_segment_size m = 4096" using mem_boot_spec [of 4096] by auto
  have "mem_read 4 m 4094 = None" by (rule null_page_straddle_undefined) (use m(2) in simp_all)
  then show ?thesis using m(1) by blast
qed

section \<open>Reading back\<close>

text \<open>a value written inside a live block reads back, and every read of ordinary memory that does
  not overlap it is unaffected.\<close>

theorem read_after_write:
  assumes "mem_ok m" "inside_block m p (length bs)" "bs \<noteq> []" "length bs < 4294967296"
  shows "\<exists>m'. mem_write m p bs = Some m' \<and> mem_read (length bs) m' p = Some bs
     \<and> (\<forall>q k. ordinary m q k \<and> k < 4294967296 \<and> (q + k \<le> p \<or> p + length bs \<le> q) \<longrightarrow> mem_read k m' q = mem_read k m q)"
proof -
  let ?m' = "m\<lparr> mbytes := put_bytes p bs (mbytes m) \<rparr>"
  have o: "ordinary m p (length bs)" using inside_block_ordinary [OF assms(1,2)] .
  have "mem_read (length bs) ?m' p = Some bs"
    using read_ordinary [of ?m' p "length bs"] o assms(4) put_bytes_get by simp
  moreover have "mem_read k ?m' q = mem_read k m q"
    if q: "ordinary m q k" "k < 4294967296" "q + k \<le> p \<or> p + length bs \<le> q" for q k
  proof -
    have "map (\<lambda>i. put_bytes p bs (mbytes m) (q + i)) [0..<k] = map (\<lambda>i. mbytes m (q + i)) [0..<k]"
      using q(3) by (auto simp: put_bytes_def)
    then show ?thesis using read_ordinary [of ?m' q k] read_ordinary [OF q(1,2)] q(1,2) by simp
  qed
  ultimately show ?thesis using write_ordinary [OF o assms(3)] by blast
qed

lemma read_after_write_witness:
  "\<exists>m m'. mem_boot 4096 = Some m \<and> mem_write m 4293918720 [1, 2, 3] = Some m' \<and> mem_read 3 m' 4293918720 = Some [1, 2, 3]"
proof -
  obtain m where m: "mem_boot 4096 = Some m" "mem_ok m" "used_view (heap m) = [4293918720 \<mapsto> 1048576, 0 \<mapsto> 4096]"
    using mem_boot_spec [of 4096] by auto
  then have "inside_block m 4293918720 (length [1, 2, 3 :: u8])"
    unfolding inside_block_def by (intro exI [of _ 4293918720] exI [of _ 1048576]) simp
  from read_after_write [OF m(2) this] m(1) show ?thesis by (auto simp: numeral_3_eq_3)
qed

section \<open>Little-endian numbers and pointer arithmetic\<close>

lemma to_le_length [simp]: "length (to_le_bytes k n) = k"
  by (induction k arbitrary: n) simp_all

lemma from_le_Cons: "from_le_bytes (b # bs) = unat b + 256 * from_le_bytes bs"
  by (simp add: from_le_bytes_def)

lemma from_le_Nil: "from_le_bytes [] = 0"
  by (simp add: from_le_bytes_def)

lemma from_to_le: "from_le_bytes (to_le_bytes k n) = n mod 256 ^ k"
proof (induction k arbitrary: n)
  case 0
  then show ?case by (simp add: from_le_Nil)
next
  case (Suc k)
  have "unat (of_nat n :: u8) = n mod 256" by (simp add: unat_of_nat)
  then show ?case using Suc by (simp add: from_le_Cons mod_mult2_eq)
qed

lemma from_le_zero: "from_le_bytes (replicate k 0) = 0"
  by (induction k) (simp_all add: from_le_Nil from_le_Cons)

lemma wadd32_wsub32: "p < 4294967296 \<Longrightarrow> k < 4294967296 \<Longrightarrow> wsub32 (wadd32 p k) k = p"
  by (auto simp: wadd32_def wsub32_def mod_if)

text \<open>Guest pointer arithmetic never panics for a sized type, and stepping back undoes stepping
  forward, also across the end of the address space.\<close>

lemma ptr_add_sub:
  assumes "0 < sz" "p < 4294967296"
  shows "\<exists>q. ptr_add sz p k = Some q \<and> q < 4294967296 \<and> ptr_sub sz q k = Some p"
  using assms wadd32_wsub32 [of p "(k * sz) mod 4294967296"] wadd32_bound [of p "(k * sz) mod 4294967296"]
  by (simp add: ptr_add_def ptr_sub_def)

lemma ptr_add_sub_example: "\<exists>q. ptr_add 4 4294967292 2 = Some q \<and> ptr_sub 4 q 2 = Some 4294967292"
  using ptr_add_sub [of 4 4294967292 2] by auto

section \<open>Host strings in guest memory\<close>

lemma scan_len_spec:
  assumes "\<forall>i. len \<le> i \<and> i < n \<longrightarrow> (\<exists>c. f i = Some c \<and> \<not> z c)" "\<exists>c. f n = Some c \<and> z c" "len \<le> n"
  shows "scan_len f z mx len = Some (min n (max mx (len + 1)))"
  using assms
proof (induction "n - len" arbitrary: len)
  case 0
  then show ?case by (auto simp: scan_len.simps [of f z mx len])
next
  case (Suc d)
  then obtain c where c: "f len = Some c" "\<not> z c" by (metis Suc_neq_Zero diff_self_eq_0 le_neq_implies_less le_refl)
  have less: "len + 1 \<le> n" "d = n - (len + 1)" using Suc.hyps(2) by auto
  show ?case
  proof (cases "mx \<le> len + 1")
    case True
    then show ?thesis using c less by (simp add: scan_len.simps [of f z mx len] min_def max_def)
  next
    case False
    have "scan_len f z mx (len + 1) = Some (min n (max mx (len + 1 + 1)))"
      by (rule Suc.hyps(1)) (use less Suc.prems in auto)
    moreover have "max mx (len + 1 + 1) = max mx (len + 1)" using False by (simp add: max_def)
    ultimately show ?thesis using False c by (simp add: scan_len.simps [of f z mx len])
  qed
qed

lemma read_byte: "ordinary m p 1 \<Longrightarrow> mem_read 1 m p = Some [mbytes m p]"
  using read_ordinary [of m p 1] by simp

lemma cstr_at_spec:
  assumes o: "ordinary m p (length s + 1)" and s: "\<forall>i < length s. mbytes m (p + i) = s ! i"
    and z: "mbytes m (p + length s) = 0" and nz: "0 \<notin> set s" and mx: "length s \<le> mx"
  shows "cstr_at_with_max_len m p mx = Some (Guest p (length s)) \<and> slice_bytes m (Guest p (length s)) = s"
proof -
  let ?f = "\<lambda>i. mem_read 1 m (wadd32 p i)"
  have f: "?f i = Some [mbytes m (p + i)]" if "i \<le> length s" for i
  proof -
    have "wadd32 p i = p + i" using o that by (simp add: ordinary_def wadd32_exact)
    then show ?thesis using read_byte [of m "p + i"] ordinary_sub [OF o, of "p + i" 1] that by simp
  qed
  have "scan_len ?f (\<lambda>v. v = [0]) mx 0 = Some (min (length s) (max mx (0 + 1)))"
  proof (rule scan_len_spec)
    show "\<forall>i. 0 \<le> i \<and> i < length s \<longrightarrow> (\<exists>c. ?f i = Some c \<and> \<not> c = [0])"
      using f s nz by (metis less_or_eq_imp_le list.inject nth_mem)
    show "\<exists>c. ?f (length s) = Some c \<and> c = [0]" using f [of "length s"] z by simp
  qed simp
  moreover have "min (length s) (max mx (0 + 1)) = length s" using mx by simp
  moreover have "bytes_at m p (length s) = Guest p (length s)"
    using o by (intro bytes_at_guest) (auto simp: ordinary_def BYTES_LEN_def)
  moreover have "slice_bytes m (Guest p (length s)) = s"
    using s by (intro nth_equalityI) (simp_all add: slice_bytes_def)
  ultimately show ?thesis by (simp add: cstr_at_with_max_len_def)
qed

lemma alloc_and_write_cstr_spec:
  assumes ok: "mem_ok m" and len: "length s + 1 < 4294967296"
    and al: "mem_alloc (length s + 1) m = Some (p, m1)" and p0: "p \<noteq> 0"
  shows "\<exists>m'. alloc_and_write_cstr s m = Some (p, m') \<and> ordinary m' p (length s + 1)
    \<and> (\<forall>i < length s. mbytes m' (p + i) = s ! i) \<and> mbytes m' (p + length s) = 0 \<and> heap m' = heap m1"
proof -
  have f: "mem_ok m1" "fresh_block (heap m) p (length s + 1) (heap m1)"
    using mem_alloc_fresh [OF ok len al p0] by simp_all
  obtain k where k: "length s + 1 \<le> k" "p + k \<le> 4294967296" "null_segment_size m1 \<le> p"
    using fresh_block_span [OF f] by blast
  have span: "null_segment_size m1 \<le> p" "p + (length s + 1) \<le> 4294967296" using k by linarith+
  have sl: "bytes_at_mut m1 p (length s) = Guest p (length s)"
    using span by (intro bytes_at_mut_guest) (auto simp: BYTES_LEN_def)
  let ?m2 = "m1\<lparr> mbytes := put_bytes p s (mbytes m1) \<rparr>"
  have copy: "copy_from_slice (bytes_at_mut m1 p (length s)) s m1 = Some ?m2" by (simp add: sl copy_from_slice_def)
  have w: "wadd32 (length s) 1 = length s + 1" "wadd32 p (length s) = p + length s"
    using span len by (simp_all add: wadd32_exact)
  let ?m3 = "?m2\<lparr> mbytes := put_bytes (p + length s) [0] (put_bytes p s (mbytes m1)) \<rparr>"
  have "mem_write ?m2 (p + length s) [0] = Some ?m3"
    using write_ordinary [of ?m2 "p + length s" "[0]"] span by (simp add: ordinary_def)
  then have run: "alloc_and_write_cstr s m = Some (p, ?m3)"
    using len al copy w by (simp add: alloc_and_write_cstr_def)
  have "mbytes ?m3 (p + i) = s ! i" if "i < length s" for i using that by (simp add: put_bytes_def)
  moreover have "mbytes ?m3 (p + length s) = 0" by (simp add: put_bytes_def)
  ultimately show ?thesis using run span by (intro exI [of _ ?m3]) (simp add: ordinary_def)
qed

text \<open>a host string without NUL that \<open>alloc_and_write_cstr\<close> stored in a fresh block is what
  \<open>cstr_at_with_max_len\<close> reads back there, as long as the limit is not below its length.\<close>

theorem cstr_roundtrip:
  assumes "mem_ok m" "0 \<notin> set s" "length s + 1 < 4294967296" "length s \<le> mx"
    "mem_alloc (length s + 1) m = Some (p, m1)" "p \<noteq> 0"
  shows "\<exists>m' sl. alloc_and_write_cstr s m = Some (p, m') \<and> cstr_at_with_max_len m' p mx = Some sl
    \<and> slice_bytes m' sl = s"
  using alloc_and_write_cstr_spec [OF assms(1,3,5,6)] cstr_at_spec [OF _ _ _ assms(2,4)] by blast

lemma cstr_roundtrip_witness:
  "\<exists>m p m' sl. mem_boot 4096 = Some m \<and> alloc_and_write_cstr [72, 105] m = Some (p, m')
     \<and> cstr_at_with_max_len m' p 65536 = Some sl \<and> slice_bytes m' sl = [72, 105]"
proof -
  from boot_alloc [of 3] obtain m p m1 where
    m: "mem_boot 4096 = Some m" "mem_ok m" "mem_alloc 3 m = Some (p, m1)" "p \<noteq> 0" by auto
  then have "mem_alloc (length [72, 105 :: u8] + 1) m = Some (p, m1)" by (simp add: numeral_3_eq_3)
  from cstr_roundtrip [OF m(2) _ _ _ this m(4), of 65536] m(1) show ?thesis by simp blast
qed

end
