(* ===== verification/C_Chars.thy ===== *)
theory C_Chars
  imports Memory_Access
begin

text \<open>
  \<open>GenericChar<T>\<close> of \<open>src/libc/generic_char.rs\<close>: the C string and memory functions written once
  for a character type \<open>T\<close> and used for \<open>u8\<close> by \<open>libc/string.rs\<close> and for \<open>wchar_t\<close> by
  \<open>libc/wchar.rs\<close>.  The type parameter with its trait bounds is the record \<open>char_ty\<close>.  A loop that
  only ends when it finds a terminator is a partial function; \<open>None\<close> is a host panic or a loop that
  never ends.  Loop counters are \<open>u32\<close> and wrap.
\<close>

section \<open>The character type\<close>

record 'c char_ty =
  ct_size :: nat
  ct_dec :: "u8 list \<Rightarrow> 'c"
  ct_enc :: "'c \<Rightarrow> u8 list"
  ct_null :: 'c
  ct_less :: "'c \<Rightarrow> 'c \<Rightarrow> bool"

definition u8_ty :: "u8 char_ty" where
  "u8_ty = \<lparr> ct_size = 1, ct_dec = (\<lambda>bs. bs ! 0), ct_enc = (\<lambda>c. [c]), ct_null = 0, ct_less = (<) \<rparr>"

text \<open>\<open>wchar_t\<close> is \<open>i32\<close>: four bytes, little-endian, compared as a signed number.\<close>

definition wchar_ty :: "u32 char_ty" where
  "wchar_ty = \<lparr> ct_size = 4, ct_dec = (\<lambda>bs. of_nat (from_le_bytes bs)),
     ct_enc = (\<lambda>c. to_le_bytes 4 (unat c)), ct_null = 0, ct_less = (<s) \<rparr>"

definition rd :: "'c char_ty \<Rightarrow> mem \<Rightarrow> nat \<Rightarrow> nat \<Rightarrow> 'c option" where
  "rd T m p i = do {
     q \<leftarrow> ptr_add (ct_size T) p i;
     bs \<leftarrow> mem_read (ct_size T) m q;
     Some (ct_dec T bs) }"

definition wr :: "'c char_ty \<Rightarrow> mem \<Rightarrow> nat \<Rightarrow> nat \<Rightarrow> 'c \<Rightarrow> mem option" where
  "wr T m p i c = do {
     q \<leftarrow> ptr_add (ct_size T) p i;
     mem_write m q (ct_enc T c) }"

fun for_each :: "('i \<Rightarrow> 's \<Rightarrow> 's option) \<Rightarrow> 'i list \<Rightarrow> 's \<Rightarrow> 's option" where
  "for_each f [] s = Some s"
| "for_each f (i # is) s = do { s' \<leftarrow> f i s; for_each f is s' }"

definition U32_MAX :: nat where
  "U32_MAX = 4294967295"

section \<open>Blocks of memory\<close>

definition g_memset :: "'c char_ty \<Rightarrow> nat \<Rightarrow> 'c \<Rightarrow> nat \<Rightarrow> nat \<Rightarrow> mem \<Rightarrow> (nat \<times> mem) option" where
  "g_memset T dest ch count dest_count m = (
     let actual = (if dest_count < count then dest_count else count)
     in do {
       m' \<leftarrow> for_each (\<lambda>i m. wr T m dest i ch) [0..<actual] m;
       Some (dest, m') })"

definition g_memcpy :: "'c char_ty \<Rightarrow> nat \<Rightarrow> nat \<Rightarrow> nat \<Rightarrow> nat \<Rightarrow> mem \<Rightarrow> nat \<times> mem" where
  "g_memcpy T dest src n dest_size m = (
     let actual = (if dest_size < n then dest_size else n)
     in (dest, memmove dest src ((actual * ct_size T) mod 4294967296) m))"

definition g_memmove :: "'c char_ty \<Rightarrow> nat \<Rightarrow> nat \<Rightarrow> nat \<Rightarrow> nat \<Rightarrow> mem \<Rightarrow> nat \<times> mem" where
  "g_memmove T dest src n dest_size m = (
     let actual = (if dest_size < n then dest_size else n)
     in (dest, memmove dest src ((actual * ct_size T) mod 4294967296) m))"

fun memcmp_loop :: "'c char_ty \<Rightarrow> mem \<Rightarrow> nat \<Rightarrow> nat \<Rightarrow> nat list \<Rightarrow> int option" where
  "memcmp_loop T m a b [] = Some 0"
| "memcmp_loop T m a b (i # is) = do {
     x \<leftarrow> rd T m a i;
     y \<leftarrow> rd T m b i;
     (if ct_less T x y then Some (-1) else if ct_less T y x then Some 1 else memcmp_loop T m a b is) }"

definition g_memcmp :: "'c char_ty \<Rightarrow> mem \<Rightarrow> nat \<Rightarrow> nat \<Rightarrow> nat \<Rightarrow> int option" where
  "g_memcmp T m a b n = memcmp_loop T m a b [0..<n]"

fun find_cell :: "'c char_ty \<Rightarrow> mem \<Rightarrow> nat \<Rightarrow> 'c \<Rightarrow> nat list \<Rightarrow> nat option" where
  "find_cell T m s c [] = Some 0"
| "find_cell T m s c (i # is) = do {
     x \<leftarrow> rd T m s i;
     (if x = c then ptr_add (ct_size T) s i else find_cell T m s c is) }"

definition g_memchr :: "'c char_ty \<Rightarrow> mem \<Rightarrow> nat \<Rightarrow> 'c \<Rightarrow> nat \<Rightarrow> nat option" where
  "g_memchr T m s c n = find_cell T m s c [0..<n]"

section \<open>Strings\<close>

partial_function (option) strlen_from :: "'c char_ty \<Rightarrow> mem \<Rightarrow> nat \<Rightarrow> nat \<Rightarrow> nat option" where
  "strlen_from T m s i = do {
     c \<leftarrow> rd T m s i;
     (if c \<noteq> ct_null T then strlen_from T m s (wadd32 i 1) else Some i) }"

definition g_strlen :: "'c char_ty \<Rightarrow> mem \<Rightarrow> nat \<Rightarrow> nat option" where
  "g_strlen T m s = strlen_from T m s 0"

fun strcpy_loop :: "'c char_ty \<Rightarrow> nat \<Rightarrow> nat \<Rightarrow> nat \<Rightarrow> mem \<Rightarrow> mem option" where
  "strcpy_loop T d s 0 m = wr T m d 0 (ct_null T)"
| "strcpy_loop T d s (Suc bufsz) m = do {
     c \<leftarrow> rd T m s 0;
     m' \<leftarrow> wr T m d 0 c;
     (if c = ct_null T then Some m'
      else do {
        d' \<leftarrow> ptr_add (ct_size T) d 1;
        s' \<leftarrow> ptr_add (ct_size T) s 1;
        strcpy_loop T d' s' bufsz m' }) }"

definition g_strcpy :: "'c char_ty \<Rightarrow> nat \<Rightarrow> nat \<Rightarrow> nat \<Rightarrow> mem \<Rightarrow> (nat \<times> mem) option" where
  "g_strcpy T dest src bufsz m = do {
     m' \<leftarrow> strcpy_loop T dest src bufsz m;
     Some (dest, m') }"

definition g_strcat :: "'c char_ty \<Rightarrow> nat \<Rightarrow> nat \<Rightarrow> nat \<Rightarrow> mem \<Rightarrow> (nat \<times> mem) option" where
  "g_strcat T dest src bufsz m = do {
     dest_len \<leftarrow> g_strlen T m dest;
     tail \<leftarrow> ptr_add (ct_size T) dest dest_len;
     (if bufsz < dest_len then Some (dest, m)
      else do {
        (_, m') \<leftarrow> g_strcpy T tail src (bufsz - dest_len) m;
        Some (dest, m') }) }"

text \<open>The inner loops of \<open>strcspn\<close> (compare, then look for the end) and of \<open>strspn\<close>, \<open>strpbrk\<close>
  (look for the end, then compare).\<close>

partial_function (option) in_charset :: "'c char_ty \<Rightarrow> mem \<Rightarrow> 'c \<Rightarrow> nat \<Rightarrow> nat \<Rightarrow> bool option" where
  "in_charset T m c charset j = do {
     cc \<leftarrow> rd T m charset j;
     (if c = cc then Some True
      else if cc = ct_null T then Some False
      else in_charset T m c charset (wadd32 j 1)) }"

partial_function (option) in_accept :: "'c char_ty \<Rightarrow> mem \<Rightarrow> 'c \<Rightarrow> nat \<Rightarrow> nat \<Rightarrow> bool option" where
  "in_accept T m c accept j = do {
     a \<leftarrow> rd T m accept j;
     (if a = ct_null T then Some False
      else if c = a then Some True
      else in_accept T m c accept (wadd32 j 1)) }"

partial_function (option) strcspn_from :: "'c char_ty \<Rightarrow> mem \<Rightarrow> nat \<Rightarrow> nat \<Rightarrow> nat \<Rightarrow> nat option" where
  "strcspn_from T m s charset i = do {
     c \<leftarrow> rd T m s i;
     (if c = ct_null T then Some i
      else do {
        found \<leftarrow> in_charset T m c charset 0;
        (if found then Some i else strcspn_from T m s charset (wadd32 i 1)) }) }"

definition g_strcspn :: "'c char_ty \<Rightarrow> mem \<Rightarrow> nat \<Rightarrow> nat \<Rightarrow> nat option" where
  "g_strcspn T m s charset = strcspn_from T m s charset 0"

partial_function (option) strspn_from :: "'c char_ty \<Rightarrow> mem \<Rightarrow> nat \<Rightarrow> nat \<Rightarrow> nat \<Rightarrow> nat option" where
  "strspn_from T m s accept i = do {
     c \<leftarrow> rd T m s i;
     (if c = ct_null T then Some i
      else do {
        found \<leftarrow> in_accept T m c accept 0;
        (if \<not> found then Some i else strspn_from T m s accept (wadd32 i 1)) }) }"

definition g_strspn :: "'c char_ty \<Rightarrow> mem \<Rightarrow> nat \<Rightarrow> nat \<Rightarrow> nat option" where
  "g_strspn T m s accept = strspn_from T m s accept 0"

partial_function (option) strpbrk_from :: "'c char_ty \<Rightarrow> mem \<Rightarrow> nat \<Rightarrow> nat \<Rightarrow> nat \<Rightarrow> nat option" where
  "strpbrk_from T m s accept i = do {
     c \<leftarrow> rd T m s i;
     (if c = ct_null T then Some 0
      else do {
        found \<leftarrow> in_accept T m c accept 0;
        (if found then ptr_add (ct_size T) s i else strpbrk_from T m s accept (wadd32 i 1)) }) }"

definition g_strpbrk :: "'c char_ty \<Rightarrow> mem \<Rightarrow> nat \<Rightarrow> nat \<Rightarrow> nat option" where
  "g_strpbrk T m s accept = strpbrk_from T m s accept 0"

fun strncpy_loop :: "'c char_ty \<Rightarrow> nat \<Rightarrow> nat \<Rightarrow> bool \<Rightarrow> nat list \<Rightarrow> mem \<Rightarrow> mem option" where
  "strncpy_loop T d s ended [] m = Some m"
| "strncpy_loop T d s ended (i # is) m =
     (if \<not> ended then do {
        c \<leftarrow> rd T m s i;
        m' \<leftarrow> wr T m d i c;
        strncpy_loop T d s (c = ct_null T) is m' }
      else do {
        m' \<leftarrow> wr T m d i (ct_null T);
        strncpy_loop T d s ended is m' })"

definition g_strncpy :: "'c char_ty \<Rightarrow> nat \<Rightarrow> nat \<Rightarrow> nat \<Rightarrow> nat \<Rightarrow> mem \<Rightarrow> (nat \<times> mem) option" where
  "g_strncpy T dest src n dest_size m = (
     let actual = (if dest_size < n then dest_size else n)
     in do {
       m' \<leftarrow> strncpy_loop T dest src False [0..<actual] m;
       Some (dest, m') })"

definition g_strdup :: "'c char_ty \<Rightarrow> nat \<Rightarrow> mem \<Rightarrow> (nat \<times> mem) option" where
  "g_strdup T src m = do {
     len \<leftarrow> g_strlen T m src;
     (new, m1) \<leftarrow> mem_alloc ((wadd32 len 1 * ct_size T) mod 4294967296) m;
     g_strcpy T new src U32_MAX m1 }"

partial_function (option) strcmp_from :: "'c char_ty \<Rightarrow> mem \<Rightarrow> nat \<Rightarrow> nat \<Rightarrow> nat \<Rightarrow> int option" where
  "strcmp_from T m a b i = do {
     x \<leftarrow> rd T m a i;
     y \<leftarrow> rd T m b i;
     (if ct_less T x y then Some (-1)
      else if ct_less T y x then Some 1
      else if x = ct_null T then Some 0
      else strcmp_from T m a b (wadd32 i 1)) }"

definition g_strcmp :: "'c char_ty \<Rightarrow> mem \<Rightarrow> nat \<Rightarrow> nat \<Rightarrow> int option" where
  "g_strcmp T m a b = strcmp_from T m a b 0"

partial_function (option) strncmp_from :: "'c char_ty \<Rightarrow> mem \<Rightarrow> nat \<Rightarrow> nat \<Rightarrow> nat \<Rightarrow> nat \<Rightarrow> int option" where
  "strncmp_from T m a b n i = do {
     x \<leftarrow> rd T m a i;
     y \<leftarrow> rd T m b i;
     let j = wadd32 i 1;
     (if ct_less T x y then Some (-1)
      else if ct_less T y x then Some 1
      else if j = n \<or> x = ct_null T then Some 0
      else strncmp_from T m a b n j) }"

definition g_strncmp :: "'c char_ty \<Rightarrow> mem \<Rightarrow> nat \<Rightarrow> nat \<Rightarrow> nat \<Rightarrow> int option" where
  "g_strncmp T m a b n = (if n = 0 then Some 0 else strncmp_from T m a b n 0)"

text \<open>The copy loop of \<open>strncat\<close>: \<open>True\<close> when the terminator was copied.\<close>

fun strncat_loop :: "'c char_ty \<Rightarrow> nat \<Rightarrow> nat \<Rightarrow> nat list \<Rightarrow> mem \<Rightarrow> (bool \<times> mem) option" where
  "strncat_loop T d s [] m = Some (False, m)"
| "strncat_loop T d s (i # is) m = do {
     c \<leftarrow> rd T m s i;
     m' \<leftarrow> wr T m d i c;
     (if c = ct_null T then Some (True, m') else strncat_loop T d s is m') }"

definition g_strncat :: "'c char_ty \<Rightarrow> nat \<Rightarrow> nat \<Rightarrow> nat \<Rightarrow> mem \<Rightarrow> (nat \<times> mem) option" where
  "g_strncat T s1 s2 n m = do {
     len \<leftarrow> g_strlen T m s1;
     s1end \<leftarrow> ptr_add (ct_size T) s1 len;
     (finished, m1) \<leftarrow> strncat_loop T s1end s2 [0..<n] m;
     (if finished then Some (s1, m1)
      else do {
        m2 \<leftarrow> wr T m1 s1end n (ct_null T);
        Some (s1, m2) }) }"

text \<open>The inner loop of \<open>strstr\<close>: \<open>Inl\<close> is the answer of the whole search, \<open>Inr\<close> a mismatch.\<close>

partial_function (option) strstr_match :: "'c char_ty \<Rightarrow> mem \<Rightarrow> nat \<Rightarrow> nat \<Rightarrow> nat \<Rightarrow> (nat + unit) option" where
  "strstr_match T m here sub j = do {
     x \<leftarrow> rd T m here j;
     y \<leftarrow> rd T m sub j;
     (if y = ct_null T then Some (Inl here)
      else if x = ct_null T then Some (Inl 0)
      else if x \<noteq> y then Some (Inr ())
      else strstr_match T m here sub (wadd32 j 1)) }"

partial_function (option) strstr_from :: "'c char_ty \<Rightarrow> mem \<Rightarrow> nat \<Rightarrow> nat \<Rightarrow> nat \<Rightarrow> nat option" where
  "strstr_from T m s sub i = do {
     here \<leftarrow> ptr_add (ct_size T) s i;
     r \<leftarrow> strstr_match T m here sub 0;
     (case r of
        Inl answer \<Rightarrow> Some answer
      | Inr _ \<Rightarrow> strstr_from T m s sub (wadd32 i 1)) }"

definition g_strstr :: "'c char_ty \<Rightarrow> mem \<Rightarrow> nat \<Rightarrow> nat \<Rightarrow> nat option" where
  "g_strstr T m s sub = strstr_from T m s sub 0"

definition g_strchr :: "'c char_ty \<Rightarrow> mem \<Rightarrow> nat \<Rightarrow> 'c \<Rightarrow> nat option" where
  "g_strchr T m s c = do {
     len \<leftarrow> g_strlen T m s;
     find_cell T m s c [0..<Suc len] }"

definition g_strrchr :: "'c char_ty \<Rightarrow> mem \<Rightarrow> nat \<Rightarrow> 'c \<Rightarrow> nat option" where
  "g_strrchr T m s c = do {
     len \<leftarrow> g_strlen T m s;
     find_cell T m s c (rev [0..<Suc len]) }"

partial_function (option) strlcpy_from :: "'c char_ty \<Rightarrow> nat \<Rightarrow> nat \<Rightarrow> nat \<Rightarrow> nat \<Rightarrow> mem \<Rightarrow> (nat \<times> mem) option" where
  "strlcpy_from T dst src n i m = do {
     c \<leftarrow> rd T m src i;
     m' \<leftarrow> (if i < wsub32 n 1 then wr T m dst i c
            else if i = wsub32 n 1 then wr T m dst i (ct_null T)
            else Some m);
     (if c = ct_null T then Some (i, m') else strlcpy_from T dst src n (wadd32 i 1) m') }"

definition g_strlcpy :: "'c char_ty \<Rightarrow> nat \<Rightarrow> nat \<Rightarrow> nat \<Rightarrow> mem \<Rightarrow> (nat \<times> mem) option" where
  "g_strlcpy T dst src n m = strlcpy_from T dst src n 0 m"

definition g_strlcat :: "'c char_ty \<Rightarrow> nat \<Rightarrow> nat \<Rightarrow> nat \<Rightarrow> mem \<Rightarrow> (nat \<times> mem) option" where
  "g_strlcat T dst src n m = do {
     dst_len \<leftarrow> g_strlen T m dst;
     src_len \<leftarrow> g_strlen T m src;
     (if n \<le> dst_len then Some (wadd32 n src_len, m)
      else do {
        let copy_len = min (n - dst_len - 1) src_len;
        tail \<leftarrow> ptr_add (ct_size T) dst dst_len;
        m1 \<leftarrow> for_each (\<lambda>i m. do { c \<leftarrow> rd T m src i; wr T m tail i c }) [0..<copy_len] m;
        m2 \<leftarrow> wr T m1 tail copy_len (ct_null T);
        Some (wadd32 dst_len src_len, m2) }) }"

section \<open>The contract of a character type\<close>

text \<open>
  What \<open>GenericChar\<close> relies on: values have a fixed positive size of at most four bytes, decoding
  undoes encoding, the null character is the one whose bytes are all zero, and \<open>Ord\<close> is a strict
  total order.
\<close>

locale char_type =
  fixes T :: "'c char_ty"
  assumes size_pos: "0 < ct_size T"
    and size_max: "ct_size T \<le> 4"
    and enc_length: "length (ct_enc T c) = ct_size T"
    and dec_enc: "ct_dec T (ct_enc T c) = c"
    and null_zero: "ct_dec T (replicate (ct_size T) 0) = ct_null T"
    and less_irrefl: "\<not> ct_less T c c"
    and less_total: "c \<noteq> d \<Longrightarrow> ct_less T c d \<or> ct_less T d c"
    and less_asym: "ct_less T c d \<Longrightarrow> \<not> ct_less T d c"
begin

abbreviation sz :: nat where
  "sz \<equiv> ct_size T"

text \<open>The character whose bytes start at an address.\<close>

definition cell :: "(nat \<Rightarrow> u8) \<Rightarrow> nat \<Rightarrow> 'c" where
  "cell f a = ct_dec T (map (\<lambda>k. f (a + k)) [0..<sz])"

lemma cell_put_same: "cell (put_bytes a (ct_enc T c) f) a = c"
proof -
  have "map (\<lambda>k. put_bytes a (ct_enc T c) f (a + k)) [0..<sz] = ct_enc T c"
    using put_bytes_get [of a "ct_enc T c" f] by (simp add: enc_length)
  then show ?thesis by (simp add: cell_def dec_enc)
qed

lemma cell_cong: "(\<And>k. k < sz \<Longrightarrow> f (a + k) = g (a + k)) \<Longrightarrow> cell f a = cell g a"
  unfolding cell_def by (intro arg_cong [of _ _ "ct_dec T"] map_cong) simp_all

lemma cell_put_other: "b + sz \<le> a \<or> a + length bs \<le> b \<Longrightarrow> cell (put_bytes a bs f) b = cell f b"
  by (intro cell_cong) (auto simp: put_bytes_def)

text \<open>\<open>n\<close> characters of ordinary memory from an address on.\<close>

definition cells_ok :: "mem \<Rightarrow> nat \<Rightarrow> nat \<Rightarrow> bool" where
  "cells_ok m p n = ordinary m p (n * sz)"

lemma cells_ok_bytes [simp]: "cells_ok (m\<lparr> mbytes := f \<rparr>) p n = cells_ok m p n"
  by (simp add: cells_ok_def)

lemma cells_ok_mono: "cells_ok m p n \<Longrightarrow> k \<le> n \<Longrightarrow> cells_ok m p k"
  unfolding cells_ok_def by (erule ordinary_sub) (auto simp: mult_le_mono1)

lemma cell_addr:
  assumes "cells_ok m p n" "i < n"
  shows "ptr_add sz p i = Some (p + i * sz)" "ordinary m (p + i * sz) sz"
proof -
  have "Suc i * sz \<le> n * sz" using assms(2) by (intro mult_le_mono1) simp
  then have le: "i * sz + sz \<le> n * sz" by (simp add: add.commute)
  have top: "p + n * sz \<le> 4294967296" using assms(1) by (simp add: cells_ok_def ordinary_def)
  have small: "p + i * sz < 4294967296" using le top size_pos by linarith
  then have "i * sz mod 4294967296 = i * sz" by simp
  then show "ptr_add sz p i = Some (p + i * sz)" using small size_pos by (simp add: ptr_add_def wadd32_exact)
  show "ordinary m (p + i * sz) sz"
    using assms(1) unfolding cells_ok_def by (rule ordinary_sub) (use le in linarith)+
qed

lemma rd_ok:
  assumes "cells_ok m p n" "i < n"
  shows "rd T m p i = Some (cell (mbytes m) (p + i * sz))"
proof -
  have "sz < 4294967296" using size_max by linarith
  then show ?thesis using cell_addr [OF assms] read_ordinary [OF cell_addr(2) [OF assms]]
    by (simp add: rd_def cell_def)
qed

lemma wr_ok:
  assumes "cells_ok m p n" "i < n"
  shows "wr T m p i c = Some (m\<lparr> mbytes := put_bytes (p + i * sz) (ct_enc T c) (mbytes m) \<rparr>)"
proof -
  have "ct_enc T c \<noteq> []" using enc_length [of c] size_pos by auto
  then show ?thesis using cell_addr [OF assms] write_ordinary [of m "p + i * sz" "ct_enc T c"]
    by (simp add: wr_def enc_length)
qed

end

lemma unat_byte: "unat (b :: u8) < 256"
  using unsigned_less [of b] by simp

lemma from_to_le_u32: "of_nat (from_le_bytes (to_le_bytes 4 (unat (c :: u32)))) = c"
proof -
  have "unat c < 4294967296" using unsigned_less [of c] by simp
  then show ?thesis by (simp add: from_to_le)
qed

interpretation byte: char_type u8_ty
proof unfold_locales
  show "c \<noteq> d \<Longrightarrow> ct_less u8_ty c d \<or> ct_less u8_ty d c" for c d by (auto simp: u8_ty_def)
qed (auto simp: u8_ty_def)

interpretation wide: char_type wchar_ty
proof unfold_locales
  show "ct_dec wchar_ty (ct_enc wchar_ty c) = c" for c by (simp add: wchar_ty_def from_to_le_u32)
  show "ct_dec wchar_ty (replicate (ct_size wchar_ty) 0) = ct_null wchar_ty"
    by (simp add: wchar_ty_def from_le_zero)
  show "c \<noteq> d \<Longrightarrow> ct_less wchar_ty c d \<or> ct_less wchar_ty d c" for c d
  proof -
    assume "c \<noteq> d"
    then have "sint c \<noteq> sint d" by (metis signed_word_eqI)
    then show ?thesis by (auto simp: wchar_ty_def word_sless_alt)
  qed
qed (auto simp: wchar_ty_def word_sless_alt)

end
