(* ===== verification/C_Strings_Read.thy ===== *)
theory C_Strings_Read
  imports C_Chars "HOL-Library.Sublist"
begin

text \<open>
  The reading half of the C string functions: what \<open>strlen\<close>, the comparisons and the searches return
  on NUL-terminated strings in ordinary guest memory, proved once for every character type, and the
  fact that \<open>strlen\<close> ends on every memory.
\<close>

section \<open>NUL-terminated strings\<close>

text \<open>The comparison of two terminated strings, cell by cell.\<close>

fun str_order :: "'c char_ty \<Rightarrow> 'c list \<Rightarrow> 'c list \<Rightarrow> int" where
  "str_order T [] [] = 0"
| "str_order T [] (y # ys) = (if ct_less T (ct_null T) y then -1 else 1)"
| "str_order T (x # xs) [] = (if ct_less T x (ct_null T) then -1 else 1)"
| "str_order T (x # xs) (y # ys) =
     (if ct_less T x y then -1 else if ct_less T y x then 1 else str_order T xs ys)"

text \<open>The first place at which one string occurs in another.\<close>

definition find_sub :: "'c list \<Rightarrow> 'c list \<Rightarrow> nat option" where
  "find_sub sub s = List.find (\<lambda>i. prefix sub (drop i s)) [0..<Suc (length s)]"

context char_type
begin

definition cstr :: "mem \<Rightarrow> nat \<Rightarrow> 'c list \<Rightarrow> bool" where
  "cstr m p s = (cells_ok m p (length s + 1) \<and> ct_null T \<notin> set s
     \<and> (\<forall>i < length s. cell (mbytes m) (p + i * sz) = s ! i)
     \<and> cell (mbytes m) (p + length s * sz) = ct_null T)"

lemma cstr_rd:
  assumes "cstr m p s"
  shows "i < length s \<Longrightarrow> rd T m p i = Some (s ! i)" "rd T m p (length s) = Some (ct_null T)"
  using assms rd_ok [of m p "length s + 1"] by (auto simp: cstr_def)

lemma cstr_nonnull: "cstr m p s \<Longrightarrow> i < length s \<Longrightarrow> s ! i \<noteq> ct_null T"
  by (metis cstr_def nth_mem)

lemma cstr_length:
  assumes "cstr m p s"
  shows "p + length s * sz + sz \<le> 4294967296" "length s < 4294967296"
proof -
  show "p + length s * sz + sz \<le> 4294967296"
    using assms by (simp add: cstr_def cells_ok_def ordinary_def)
  then have "length s * sz < 4294967296" using size_pos by linarith
  moreover have "1 \<le> sz" using size_pos by simp
  then have "length s * 1 \<le> length s * sz" by (rule mult_le_mono2)
  ultimately show "length s < 4294967296" by linarith
qed

lemma cstr_step: "cstr m p s \<Longrightarrow> i < length s \<Longrightarrow> wadd32 i 1 = Suc i"
  using cstr_length(2) [of m p s] by (simp add: wadd32_exact)

lemma cstr_addr: "cstr m p s \<Longrightarrow> i \<le> length s \<Longrightarrow> ptr_add sz p i = Some (p + i * sz)"
  using cell_addr(1) [of m p "length s + 1" i] by (simp add: cstr_def)

lemma cstr_drop:
  assumes "cstr m p s" "i \<le> length s"
  shows "cstr m (p + i * sz) (drop i s)"
proof -
  have le: "i * sz + (length s - i) * sz = length s * sz"
    using assms(2) by (metis add_mult_distrib le_add_diff_inverse)
  have "ordinary m p ((length s + 1) * sz)" using assms(1) by (simp add: cstr_def cells_ok_def)
  then have "cells_ok m (p + i * sz) (length s - i + 1)"
    unfolding cells_ok_def add_mult_distrib
    by (rule ordinary_sub) (use le in linarith)+
  moreover have "cell (mbytes m) (p + i * sz + j * sz) = drop i s ! j" if "j < length s - i" for j
  proof -
    have "cell (mbytes m) (p + (i + j) * sz) = s ! (i + j)" using assms(1) that by (simp add: cstr_def)
    then show ?thesis using assms(2) by (simp add: add_mult_distrib add.assoc)
  qed
  moreover have "cell (mbytes m) (p + i * sz + (length s - i) * sz) = ct_null T"
    using assms(1) le by (simp add: cstr_def add.assoc)
  moreover have "ct_null T \<notin> set (drop i s)" using assms(1) by (meson cstr_def in_set_dropD)
  ultimately show ?thesis by (simp add: cstr_def)
qed

section \<open>\<open>strlen\<close> and the searches for characters\<close>

lemma strlen_ok: "cstr m p s \<Longrightarrow> g_strlen T m p = Some (length s)"
proof -
  assume s: "cstr m p s"
  have "strlen_from T m p 0 = Some (length s)"
  proof (rule inc_induct [of 0 "length s"])
    show "strlen_from T m p (length s) = Some (length s)"
      using cstr_rd(2) [OF s] by (simp add: strlen_from.simps)
    show "strlen_from T m p n = Some (length s)"
      if "n < length s" "strlen_from T m p (Suc n) = Some (length s)" for n
      using that cstr_rd(1) [OF s that(1)] cstr_nonnull [OF s that(1)] cstr_step [OF s that(1)]
      by (simp add: strlen_from.simps [of T m p n])
  qed simp
  then show ?thesis by (simp add: g_strlen_def)
qed

lemma find_cell_ok:
  "(\<And>j. j \<in> set is \<Longrightarrow> rd T m p j = Some (g j) \<and> ptr_add sz p j = Some (p + j * sz)) \<Longrightarrow>
   find_cell T m p c is = Some (case List.find (\<lambda>j. g j = c) is of None \<Rightarrow> 0 | Some j \<Rightarrow> p + j * sz)"
  by (induction "is") auto

lemma strchr_ok:
  assumes s: "cstr m p s"
  shows "g_strchr T m p c = Some (case List.find (\<lambda>j. (s @ [ct_null T]) ! j = c) [0..<Suc (length s)] of
     None \<Rightarrow> 0 | Some j \<Rightarrow> p + j * sz)"
    "g_strrchr T m p c = Some (case List.find (\<lambda>j. (s @ [ct_null T]) ! j = c) (rev [0..<Suc (length s)]) of
     None \<Rightarrow> 0 | Some j \<Rightarrow> p + j * sz)"
proof -
  have all: "rd T m p j = Some ((s @ [ct_null T]) ! j) \<and> ptr_add sz p j = Some (p + j * sz)"
    if "j \<in> set [0..<Suc (length s)]" for j
    using that cstr_rd [OF s] cstr_addr [OF s, of j] by (cases "j = length s") (auto simp: nth_append)
  show "g_strchr T m p c = Some (case List.find (\<lambda>j. (s @ [ct_null T]) ! j = c) [0..<Suc (length s)] of
     None \<Rightarrow> 0 | Some j \<Rightarrow> p + j * sz)"
    using find_cell_ok [OF all, of "[0..<Suc (length s)]" c] strlen_ok [OF s] by (simp add: g_strchr_def del: upt_Suc)
  have all': "rd T m p j = Some ((s @ [ct_null T]) ! j) \<and> ptr_add sz p j = Some (p + j * sz)"
    if "j \<in> set (rev [0..<Suc (length s)])" for j using that by (intro all) simp
  show "g_strrchr T m p c = Some (case List.find (\<lambda>j. (s @ [ct_null T]) ! j = c) (rev [0..<Suc (length s)]) of
     None \<Rightarrow> 0 | Some j \<Rightarrow> p + j * sz)"
    using find_cell_ok [OF all', of "rev [0..<Suc (length s)]" c] strlen_ok [OF s]
    by (simp add: g_strrchr_def del: upt_Suc)
qed

lemma in_charset_ok:
  assumes cs: "cstr m p s" and c: "c \<noteq> ct_null T"
  shows "in_charset T m c p 0 = Some (c \<in> set s)" "in_accept T m c p 0 = Some (c \<in> set s)"
proof -
  have step: "drop n s = s ! n # drop (Suc n) s" if "n < length s" for n using that by (simp add: Cons_nth_drop_Suc)
  have "in_charset T m c p 0 = Some (c \<in> set (drop 0 s))"
  proof (rule inc_induct [of 0 "length s"])
    show "in_charset T m c p (length s) = Some (c \<in> set (drop (length s) s))"
      using cstr_rd(2) [OF cs] c by (simp add: in_charset.simps)
    show "in_charset T m c p n = Some (c \<in> set (drop n s))"
      if "n < length s" "in_charset T m c p (Suc n) = Some (c \<in> set (drop (Suc n) s))" for n
      using that cstr_rd(1) [OF cs that(1)] cstr_nonnull [OF cs that(1)] cstr_step [OF cs that(1)] step
      by (simp add: in_charset.simps [of T m c p n])
  qed simp
  then show "in_charset T m c p 0 = Some (c \<in> set s)" by simp
  have "in_accept T m c p 0 = Some (c \<in> set (drop 0 s))"
  proof (rule inc_induct [of 0 "length s"])
    show "in_accept T m c p (length s) = Some (c \<in> set (drop (length s) s))"
      using cstr_rd(2) [OF cs] c by (simp add: in_accept.simps)
    show "in_accept T m c p n = Some (c \<in> set (drop n s))"
      if "n < length s" "in_accept T m c p (Suc n) = Some (c \<in> set (drop (Suc n) s))" for n
      using that cstr_rd(1) [OF cs that(1)] cstr_nonnull [OF cs that(1)] cstr_step [OF cs that(1)] step
      by (simp add: in_accept.simps [of T m c p n])
  qed simp
  then show "in_accept T m c p 0 = Some (c \<in> set s)" by simp
qed

lemma strcspn_ok:
  assumes s: "cstr m p s" and cs: "cstr m q cs"
  shows "g_strcspn T m p q = Some (length (takeWhile (\<lambda>c. c \<notin> set cs) s))"
proof -
  have "strcspn_from T m p q 0 = Some (0 + length (takeWhile (\<lambda>c. c \<notin> set cs) (drop 0 s)))"
  proof (rule inc_induct [of 0 "length s"])
    show "strcspn_from T m p q (length s) = Some (length s + length (takeWhile (\<lambda>c. c \<notin> set cs) (drop (length s) s)))"
      using cstr_rd(2) [OF s] by (simp add: strcspn_from.simps)
    show "strcspn_from T m p q n = Some (n + length (takeWhile (\<lambda>c. c \<notin> set cs) (drop n s)))"
      if n: "n < length s" and IH: "strcspn_from T m p q (Suc n)
         = Some (Suc n + length (takeWhile (\<lambda>c. c \<notin> set cs) (drop (Suc n) s)))" for n
      using n IH cstr_rd(1) [OF s n] cstr_nonnull [OF s n] cstr_step [OF s n] in_charset_ok(1) [OF cs, of "s ! n"]
        Cons_nth_drop_Suc [OF n, symmetric]
      by (simp add: strcspn_from.simps [of T m p q n])
  qed simp
  then show ?thesis by (simp add: g_strcspn_def)
qed

lemma strspn_ok:
  assumes s: "cstr m p s" and cs: "cstr m q cs"
  shows "g_strspn T m p q = Some (length (takeWhile (\<lambda>c. c \<in> set cs) s))"
proof -
  have "strspn_from T m p q 0 = Some (0 + length (takeWhile (\<lambda>c. c \<in> set cs) (drop 0 s)))"
  proof (rule inc_induct [of 0 "length s"])
    show "strspn_from T m p q (length s) = Some (length s + length (takeWhile (\<lambda>c. c \<in> set cs) (drop (length s) s)))"
      using cstr_rd(2) [OF s] by (simp add: strspn_from.simps)
    show "strspn_from T m p q n = Some (n + length (takeWhile (\<lambda>c. c \<in> set cs) (drop n s)))"
      if n: "n < length s" and IH: "strspn_from T m p q (Suc n)
         = Some (Suc n + length (takeWhile (\<lambda>c. c \<in> set cs) (drop (Suc n) s)))" for n
      using n IH cstr_rd(1) [OF s n] cstr_nonnull [OF s n] cstr_step [OF s n] in_charset_ok(2) [OF cs, of "s ! n"]
        Cons_nth_drop_Suc [OF n, symmetric]
      by (simp add: strspn_from.simps [of T m p q n])
  qed simp
  then show ?thesis by (simp add: g_strspn_def)
qed

lemma strpbrk_ok:
  assumes s: "cstr m p s" and cs: "cstr m q cs"
  shows "g_strpbrk T m p q = Some (let k = length (takeWhile (\<lambda>c. c \<notin> set cs) s)
     in if k = length s then 0 else p + k * sz)"
proof -
  have "strpbrk_from T m p q 0 = Some (let k = 0 + length (takeWhile (\<lambda>c. c \<notin> set cs) (drop 0 s))
     in if k = length s then 0 else p + k * sz)"
  proof (rule inc_induct [of 0 "length s" "\<lambda>n. strpbrk_from T m p q n =
      Some (let k = n + length (takeWhile (\<lambda>c. c \<notin> set cs) (drop n s)) in if k = length s then 0 else p + k * sz)"])
    show "strpbrk_from T m p q (length s) = Some (let k = length s + length (takeWhile (\<lambda>c. c \<notin> set cs) (drop (length s) s))
     in if k = length s then 0 else p + k * sz)"
      using cstr_rd(2) [OF s] by (simp add: strpbrk_from.simps)
    show "strpbrk_from T m p q n = Some (let k = n + length (takeWhile (\<lambda>c. c \<notin> set cs) (drop n s))
        in if k = length s then 0 else p + k * sz)"
      if n: "n < length s" and IH: "strpbrk_from T m p q (Suc n)
         = Some (let k = Suc n + length (takeWhile (\<lambda>c. c \<notin> set cs) (drop (Suc n) s))
             in if k = length s then 0 else p + k * sz)" for n
      using n IH cstr_rd(1) [OF s n] cstr_nonnull [OF s n] cstr_step [OF s n] in_charset_ok(2) [OF cs, of "s ! n"]
        Cons_nth_drop_Suc [OF n, symmetric] cstr_addr [OF s, of n]
      by (simp add: strpbrk_from.simps [of T m p q n] Let_def)
  qed simp
  then show ?thesis by (simp add: g_strpbrk_def)
qed

section \<open>Comparisons\<close>

lemma str_order_zero: "ct_null T \<notin> set xs \<Longrightarrow> ct_null T \<notin> set ys \<Longrightarrow> str_order T xs ys = 0 \<longleftrightarrow> xs = ys"
proof (induction xs arbitrary: ys)
  case Nil
  then show ?case by (cases ys) auto
next
  case (Cons x xs)
  show ?case
  proof (cases ys)
    case (Cons y ys')
    have "x \<noteq> y \<Longrightarrow> ct_less T x y \<or> ct_less T y x" using less_total by blast
    then show ?thesis using Cons.IH [of ys'] Cons.prems Cons less_irrefl by auto
  qed simp
qed

lemma str_order_anti: "ct_null T \<notin> set xs \<Longrightarrow> ct_null T \<notin> set ys \<Longrightarrow> str_order T xs ys = - str_order T ys xs"
proof (induction xs arbitrary: ys)
  case Nil
  then show ?case using less_total less_asym by (cases ys) auto
next
  case (Cons x xs)
  then show ?case using less_total less_asym by (cases ys) auto
qed

text \<open>One step of the comparison loops on the cell pair at index \<open>i\<close>.\<close>

lemma str_order_cells:
  assumes a: "cstr m p xs" and b: "cstr m q ys" and i: "i \<le> length xs" "i \<le> length ys"
  shows "\<exists>x y. rd T m p i = Some x \<and> rd T m q i = Some y \<and>
     (if ct_less T x y then str_order T (drop i xs) (drop i ys) = -1
      else if ct_less T y x then str_order T (drop i xs) (drop i ys) = 1
      else if x = ct_null T then i = length xs \<and> i = length ys
      else i < length xs \<and> i < length ys
         \<and> str_order T (drop i xs) (drop i ys) = str_order T (drop (Suc i) xs) (drop (Suc i) ys))"
proof -
  have na: "x \<noteq> ct_null T" if "i < length xs" "x = xs ! i" for x using cstr_nonnull [OF a] that by simp
  have nb: "y \<noteq> ct_null T" if "i < length ys" "y = ys ! i" for y using cstr_nonnull [OF b] that by simp
  have da: "i < length xs \<Longrightarrow> drop i xs = xs ! i # drop (Suc i) xs" by (simp add: Cons_nth_drop_Suc)
  have db: "i < length ys \<Longrightarrow> drop i ys = ys ! i # drop (Suc i) ys" by (simp add: Cons_nth_drop_Suc)
  consider "i < length xs" "i < length ys" | "i < length xs" "i = length ys" | "i = length xs" "i < length ys"
    | "i = length xs" "i = length ys" using i by linarith
  then show ?thesis
  proof cases
    case 1
    then show ?thesis using cstr_rd(1) [OF a 1(1)] cstr_rd(1) [OF b 1(2)] da db na by auto
  next
    case 2
    have "ct_less T (xs ! i) (ct_null T) \<or> ct_less T (ct_null T) (xs ! i)" using less_total na [OF 2(1)] by blast
    then show ?thesis using 2 cstr_rd(1) [OF a 2(1)] cstr_rd(2) [OF b] da less_asym by auto
  next
    case 3
    have "ct_less T (ys ! i) (ct_null T) \<or> ct_less T (ct_null T) (ys ! i)" using less_total nb [OF 3(2)] by blast
    then show ?thesis using 3 cstr_rd(1) [OF b 3(2)] cstr_rd(2) [OF a] db less_asym by auto
  next
    case 4
    then show ?thesis using cstr_rd(2) [OF a] cstr_rd(2) [OF b] less_irrefl by auto
  qed
qed

lemma strcmp_from_ok:
  assumes a: "cstr m p xs" and b: "cstr m q ys"
  shows "i \<le> length xs \<Longrightarrow> i \<le> length ys \<Longrightarrow>
    strcmp_from T m p q i = Some (str_order T (drop i xs) (drop i ys))"
proof (induction "length xs - i" arbitrary: i rule: less_induct)
  case (less i)
  from str_order_cells [OF a b less.prems] obtain x y where r: "rd T m p i = Some x" "rd T m q i = Some y" and
    c: "if ct_less T x y then str_order T (drop i xs) (drop i ys) = -1
      else if ct_less T y x then str_order T (drop i xs) (drop i ys) = 1
      else if x = ct_null T then i = length xs \<and> i = length ys
      else i < length xs \<and> i < length ys
         \<and> str_order T (drop i xs) (drop i ys) = str_order T (drop (Suc i) xs) (drop (Suc i) ys)"
    by blast
  show ?case
  proof (cases "ct_less T x y \<or> ct_less T y x \<or> x = ct_null T")
    case True
    then show ?thesis using c unfolding strcmp_from.simps [of T m p q i] r by (auto split: if_splits)
  next
    case False
    then have i: "i < length xs" "i < length ys"
      "str_order T (drop i xs) (drop i ys) = str_order T (drop (Suc i) xs) (drop (Suc i) ys)"
      using c by auto
    have "strcmp_from T m p q (Suc i) = Some (str_order T (drop (Suc i) xs) (drop (Suc i) ys))"
      by (rule less.hyps) (use i in auto)
    then show ?thesis using False i(3) cstr_step [OF a i(1)]
      unfolding strcmp_from.simps [of T m p q i] r by simp
  qed
qed

lemma strcmp_ok: "cstr m p xs \<Longrightarrow> cstr m q ys \<Longrightarrow> g_strcmp T m p q = Some (str_order T xs ys)"
  using strcmp_from_ok [of m p xs q ys 0] by (simp add: g_strcmp_def)

lemma str_order_take:
  "str_order T (take n (drop i xs)) (take n (drop i ys)) = str_order T (drop i (take (i + n) xs)) (drop i (take (i + n) ys))"
  by (simp add: drop_take)

lemma strncmp_from_ok:
  assumes a: "cstr m p xs" and b: "cstr m q ys"
  shows "i \<le> length xs \<Longrightarrow> i \<le> length ys \<Longrightarrow> 0 < n \<Longrightarrow> i + n < 4294967296 \<Longrightarrow>
    strncmp_from T m p q (i + n) i = Some (str_order T (take n (drop i xs)) (take n (drop i ys)))"
proof (induction n arbitrary: i)
  case 0
  then show ?case by simp
next
  case (Suc n i)
  from str_order_cells [OF a b Suc.prems(1,2)] obtain x y where r: "rd T m p i = Some x" "rd T m q i = Some y" by blast
  have w: "wadd32 i (Suc 0) = Suc i" using Suc.prems(4) by (simp add: wadd32_exact)
  have xs: "i < length xs \<Longrightarrow> drop i xs = x # drop (Suc i) xs \<and> x \<noteq> ct_null T"
    using cstr_rd(1) [OF a, of i] cstr_nonnull [OF a, of i] r(1) by (simp add: Cons_nth_drop_Suc)
  have ys: "i < length ys \<Longrightarrow> drop i ys = y # drop (Suc i) ys \<and> y \<noteq> ct_null T"
    using cstr_rd(1) [OF b, of i] cstr_nonnull [OF b, of i] r(2) by (simp add: Cons_nth_drop_Suc)
  have xe: "i = length xs \<Longrightarrow> drop i xs = [] \<and> x = ct_null T" using cstr_rd(2) [OF a] r(1) by simp
  have ye: "i = length ys \<Longrightarrow> drop i ys = [] \<and> y = ct_null T" using cstr_rd(2) [OF b] r(2) by simp
  consider "i < length xs" "i < length ys" | "i < length xs" "i = length ys" | "i = length xs" "i < length ys"
    | "i = length xs" "i = length ys" using Suc.prems(1,2) by linarith
  then show ?case
  proof cases
    case 1
    have step: "strncmp_from T m p q (i + Suc n) (Suc i)
        = Some (str_order T (take n (drop (Suc i) xs)) (take n (drop (Suc i) ys)))" if "0 < n"
      using Suc.IH [of "Suc i"] 1 that Suc.prems(4) by simp
    have last: "n = 0 \<Longrightarrow> str_order T (take n (drop (Suc i) xs)) (take n (drop (Suc i) ys)) = 0" by simp
    have "(Suc i = i + Suc n) = (n = 0)" by auto
    then show ?thesis using xs [OF 1(1)] ys [OF 1(2)] step last
      unfolding strncmp_from.simps [of T m p q "i + Suc n" i] r by (cases "n = 0") (simp_all add: w Let_def)
  next
    case 2
    then have "ct_less T x y \<or> ct_less T y x" using xs ye less_total by metis
    then show ?thesis using xs [OF 2(1)] ye [OF 2(2)] 2 less_asym
      unfolding strncmp_from.simps [of T m p q "i + Suc n" i] r by auto
  next
    case 3
    then have "ct_less T x y \<or> ct_less T y x" using xe ys less_total by metis
    then show ?thesis using xe [OF 3(1)] ys [OF 3(2)] 3 less_asym
      unfolding strncmp_from.simps [of T m p q "i + Suc n" i] r by auto
  next
    case 4
    then show ?thesis using xe [OF 4(1)] ye [OF 4(2)] less_irrefl
      unfolding strncmp_from.simps [of T m p q "i + Suc n" i] r by (simp add: w Let_def)
  qed
qed

lemma strncmp_ok:
  "cstr m p xs \<Longrightarrow> cstr m q ys \<Longrightarrow> n < 4294967296 \<Longrightarrow>
   g_strncmp T m p q n = Some (str_order T (take n xs) (take n ys))"
  using strncmp_from_ok [of m p xs q ys 0 n] by (cases "n = 0") (simp_all add: g_strncmp_def)

section \<open>\<open>strstr\<close>\<close>

lemma strstr_match_ok:
  assumes a: "cstr m p xs" and b: "cstr m q ys"
  shows "j \<le> length xs \<Longrightarrow> j \<le> length ys \<Longrightarrow> strstr_match T m p q j =
    Some (if prefix (drop j ys) (drop j xs) then Inl p else if prefix (drop j xs) (drop j ys) then Inl 0 else Inr ())"
proof (induction "length ys - j" arbitrary: j rule: less_induct)
  case (less j)
  have xs: "j < length xs \<Longrightarrow> rd T m p j = Some (xs ! j) \<and> xs ! j \<noteq> ct_null T \<and> drop j xs = xs ! j # drop (Suc j) xs"
    using cstr_rd(1) [OF a, of j] cstr_nonnull [OF a, of j] by (simp add: Cons_nth_drop_Suc)
  have ys: "j < length ys \<Longrightarrow> rd T m q j = Some (ys ! j) \<and> ys ! j \<noteq> ct_null T \<and> drop j ys = ys ! j # drop (Suc j) ys"
    using cstr_rd(1) [OF b, of j] cstr_nonnull [OF b, of j] by (simp add: Cons_nth_drop_Suc)
  have xe: "j = length xs \<Longrightarrow> rd T m p j = Some (ct_null T)" using cstr_rd(2) [OF a] by simp
  have ye: "j = length ys \<Longrightarrow> rd T m q j = Some (ct_null T)" using cstr_rd(2) [OF b] by simp
  consider "j = length ys" | "j < length ys" "j = length xs" | "j < length ys" "j < length xs"
    using less.prems by linarith
  then show ?case
  proof cases
    case 1
    have "rd T m p j \<noteq> None" using xs xe less.prems(1) by (cases "j = length xs") auto
    then show ?thesis using 1 ye unfolding strstr_match.simps [of T m p q j] by auto
  next
    case 2
    then show ?thesis using xe ys unfolding strstr_match.simps [of T m p q j] by auto
  next
    case 3
    have "strstr_match T m p q (Suc j) = Some (if prefix (drop (Suc j) ys) (drop (Suc j) xs) then Inl p
        else if prefix (drop (Suc j) xs) (drop (Suc j) ys) then Inl 0 else Inr ())"
      by (rule less.hyps) (use 3 in auto)
    then show ?thesis using 3 xs ys cstr_step [OF a 3(2)] unfolding strstr_match.simps [of T m p q j] by auto
  qed
qed

lemma find_upt_Cons: "i \<le> n \<Longrightarrow> List.find P [i..<Suc n] = (if P i then Some i else List.find P [Suc i..<Suc n])"
  by (simp add: upt_conv_Cons del: upt_Suc)

lemma strstr_ok:
  assumes a: "cstr m p xs" and b: "cstr m q ys"
  shows "g_strstr T m p q = Some (case find_sub ys xs of None \<Rightarrow> 0 | Some i \<Rightarrow> p + i * sz)"
proof -
  let ?P = "\<lambda>i. prefix ys (drop i xs)"
  let ?r = "\<lambda>i. case List.find ?P [i..<Suc (length xs)] of None \<Rightarrow> 0 | Some i \<Rightarrow> p + i * sz"
  have "i \<le> length xs \<Longrightarrow> strstr_from T m p q i = Some (?r i)" for i
  proof (induction "length xs - i" arbitrary: i rule: less_induct)
    case (less i)
    have here: "ptr_add sz p i = Some (p + i * sz)" using cstr_addr [OF a less.prems] .
    have m: "strstr_match T m (p + i * sz) q 0 = Some (if ?P i then Inl (p + i * sz)
        else if prefix (drop i xs) ys then Inl 0 else Inr ())"
      using strstr_match_ok [OF cstr_drop [OF a less.prems] b, of 0] by simp
    have find: "List.find ?P [i..<Suc (length xs)] = (if ?P i then Some i else List.find ?P [Suc i..<Suc (length xs)])"
      using less.prems by (rule find_upt_Cons)
    consider "?P i" | "\<not> ?P i" "prefix (drop i xs) ys" | "\<not> ?P i" "\<not> prefix (drop i xs) ys" by blast
    then show ?case
    proof cases
      case 1
      then show ?thesis using here m find unfolding strstr_from.simps [of T m p q i] by simp
    next
      case 2
      have "length (drop i xs) < length ys"
        using 2 by (metis le_neq_implies_less prefix_length_le prefix_order.eq_iff prefix_length_prefix)
      then have "\<not> ?P k" if "i \<le> k" for k using that prefix_length_le [of ys "drop k xs"] by auto
      then have "List.find ?P [i..<Suc (length xs)] = None" by (auto simp: find_None_iff)
      then show ?thesis using 2 here m unfolding strstr_from.simps [of T m p q i] by simp
    next
      case 3
      have i: "i < length xs" using 3(2) less.prems by (cases "i = length xs") auto
      have "strstr_from T m p q (Suc i) = Some (?r (Suc i))"
        by (rule less.hyps) (use i in auto)
      then show ?thesis using 3 here m find cstr_step [OF a i] unfolding strstr_from.simps [of T m p q i] by simp
    qed
  qed
  then show ?thesis by (simp add: g_strstr_def find_sub_def)
qed

section \<open>Memory comparisons and searches\<close>

definition cells :: "mem \<Rightarrow> nat \<Rightarrow> 'c list \<Rightarrow> bool" where
  "cells m p xs = (cells_ok m p (length xs) \<and> (\<forall>i < length xs. cell (mbytes m) (p + i * sz) = xs ! i))"

lemma memchr_ok:
  assumes "cells m p xs"
  shows "g_memchr T m p c (length xs) =
    Some (case List.find (\<lambda>j. xs ! j = c) [0..<length xs] of None \<Rightarrow> 0 | Some j \<Rightarrow> p + j * sz)"
proof -
  have "rd T m p j = Some (xs ! j) \<and> ptr_add sz p j = Some (p + j * sz)" if "j \<in> set [0..<length xs]" for j
    using that assms rd_ok [of m p "length xs" j] cell_addr(1) [of m p "length xs" j] by (simp add: cells_def)
  from find_cell_ok [of "[0..<length xs]" m p "\<lambda>j. xs ! j" c, OF this] show ?thesis by (simp add: g_memchr_def)
qed

lemma memcmp_loop_ok:
  assumes "\<And>i. i \<in> set is \<Longrightarrow> rd T m p i = Some (f i) \<and> rd T m q i = Some (g i)"
  shows "memcmp_loop T m p q is = Some (str_order T (map f is) (map g is))"
  using assms by (induction "is") auto

lemma memcmp_ok:
  assumes "cells m p xs" "cells m q ys" "length ys = length xs"
  shows "g_memcmp T m p q (length xs) = Some (str_order T xs ys)"
proof -
  have "rd T m p i = Some (xs ! i) \<and> rd T m q i = Some (ys ! i)" if "i \<in> set [0..<length xs]" for i
    using that assms rd_ok [of m p "length xs" i] rd_ok [of m q "length xs" i] by (simp add: cells_def)
  from memcmp_loop_ok [of "[0..<length xs]" m p "\<lambda>i. xs ! i" q "\<lambda>i. ys ! i", OF this]
  show ?thesis using map_nth [of xs] map_nth [of ys] assms(3) by (simp add: g_memcmp_def)
qed

end

section \<open>Properties\<close>

text \<open>Byte strings: the order of \<open>strcmp\<close> is the lexicographic one.\<close>

lemma byte_str_order_less:
  assumes "0 \<notin> set xs" "0 \<notin> set ys"
  shows "str_order u8_ty xs ys = (if xs = ys then 0 else if ord_class.lexordp xs ys then -1 else 1)"
  using assms
proof (induction xs arbitrary: ys)
  case Nil
  show ?case
  proof (cases ys)
    case (Cons y ys')
    then have "0 < y" using Nil by (simp add: word_gt_0)
    then show ?thesis using Cons by (simp add: u8_ty_def)
  qed simp
next
  case (Cons x xs)
  show ?case
  proof (cases ys)
    case Nil
    have "\<not> x < 0" by simp
    then show ?thesis using Nil by (simp add: u8_ty_def)
  next
    case (Cons y ys')
    then show ?thesis using Cons.IH [of ys'] Cons.prems by (auto simp: u8_ty_def)
  qed
qed

lemma byte_cell: "byte.cell f a = f a"
  unfolding byte.cell_def by (simp add: u8_ty_def)

lemma byte_size: "ct_size u8_ty = 1" and byte_null: "ct_null u8_ty = 0" and wide_size: "ct_size wchar_ty = 4"
  and wide_null: "ct_null wchar_ty = 0"
  by (simp_all add: u8_ty_def wchar_ty_def)

lemma byte_cstrI:
  "ordinary m p (length s + 1) \<Longrightarrow> 0 \<notin> set s \<Longrightarrow> \<forall>i < length s. mbytes m (p + i) = s ! i \<Longrightarrow>
   mbytes m (p + length s) = 0 \<Longrightarrow> byte.cstr m p s"
  by (simp add: byte.cstr_def byte.cells_ok_def byte_cell byte_size byte_null)

lemma wide_cell: "wide.cell f a = of_nat (from_le_bytes [f a, f (a + 1), f (a + 2), f (a + 3)])"
  unfolding wide.cell_def by (simp add: wchar_ty_def upt_rec numeral_2_eq_2 numeral_3_eq_3)

text \<open>A booted memory with some bytes put at address 8192, for concrete runs.\<close>

definition sample :: "u8 list \<Rightarrow> mem" where
  "sample bs = (let m = the (mem_boot 4096) in m\<lparr> mbytes := put_bytes 8192 bs (mbytes m) \<rparr>)"

lemma sample_facts:
  "null_segment_size (sample bs) = 4096" "mbytes (sample bs) = put_bytes 8192 bs (\<lambda>_. 0)" "mem_ok (sample bs)"
proof -
  obtain m where "mem_boot 4096 = Some m" "mem_ok m" "null_segment_size m = 4096" "mbytes m = (\<lambda>_. 0)"
    using mem_boot_spec [of 4096] by auto
  then show "null_segment_size (sample bs) = 4096" "mbytes (sample bs) = put_bytes 8192 bs (\<lambda>_. 0)" "mem_ok (sample bs)"
    by (simp_all add: sample_def mem_ok_def)
qed

lemma sample_byte: "mbytes (sample bs) (8192 + i) = (if i < length bs then bs ! i else 0)"
  by (simp add: sample_facts put_bytes_def)

lemma sample_ordinary: "4096 \<le> p \<Longrightarrow> p + n \<le> 4294967296 \<Longrightarrow> ordinary (sample bs) p n"
  by (simp add: ordinary_def sample_facts)

lemma sample_cstr:
  assumes "0 \<notin> set s" "length s < 65536"
  shows "byte.cstr (sample (s @ 0 # rest)) 8192 s"
proof (rule byte_cstrI)
  show "ordinary (sample (s @ 0 # rest)) 8192 (length s + 1)" using assms(2) by (intro sample_ordinary) simp_all
  show "\<forall>i < length s. mbytes (sample (s @ 0 # rest)) (8192 + i) = s ! i"
    by (simp add: sample_byte nth_append)
  show "mbytes (sample (s @ 0 # rest)) (8192 + length s) = 0" by (simp add: sample_byte nth_append)
qed (rule assms(1))

text \<open>on two C strings in ordinary memory, \<open>strcmp\<close> answers 0 for equal strings and otherwise the
  sign of the lexicographic order of their bytes, and \<open>strncmp\<close> does so on the strings cut to \<open>n\<close>.\<close>

theorem strcmp_is_lexicographic:
  assumes "byte.cstr m p xs" "byte.cstr m q ys" "n < 4294967296"
  shows "g_strcmp u8_ty m p q = Some (if xs = ys then 0 else if ord_class.lexordp xs ys then -1 else 1)
    \<and> g_strncmp u8_ty m p q n = Some (if take n xs = take n ys then 0
         else if ord_class.lexordp (take n xs) (take n ys) then -1 else 1)"
proof -
  have z: "0 \<notin> set xs" "0 \<notin> set ys" using assms by (simp_all add: byte.cstr_def byte_null)
  then have "0 \<notin> set (take n xs)" "0 \<notin> set (take n ys)" by (meson in_set_takeD)+
  then show ?thesis
    using byte.strcmp_ok [OF assms(1,2)] byte.strncmp_ok [OF assms] z by (simp add: byte_str_order_less)
qed

lemma strcmp_is_lexicographic_witness:
  "g_strcmp u8_ty (sample [97, 0, 97, 98, 0]) 8192 8194 = Some (-1)"
proof -
  let ?m = "sample [97, 0, 97, 98, 0]"
  have "byte.cstr ?m 8192 [97]"
    by (rule byte_cstrI) (use sample_byte [of "[97, 0, 97, 98, 0]" 0] sample_byte [of "[97, 0, 97, 98, 0]" 1]
      in \<open>simp_all add: sample_ordinary\<close>)
  moreover have "byte.cstr ?m 8194 [97, 98]"
    by (rule byte_cstrI) (use sample_byte [of "[97, 0, 97, 98, 0]" 2] sample_byte [of "[97, 0, 97, 98, 0]" 3]
      sample_byte [of "[97, 0, 97, 98, 0]" 4] in \<open>simp_all add: sample_ordinary less_Suc_eq\<close>)
  ultimately show ?thesis using strcmp_is_lexicographic [of ?m 8192 "[97]" 8194 "[97, 98]" 1] by simp
qed

text \<open>on wide strings, \<open>wcsstr\<close> returns the address of the first occurrence, or NULL when there is
  none, although it gives up as soon as the rest of the string is too short.\<close>

theorem wcsstr_first_occurrence:
  assumes "wide.cstr m p xs" "wide.cstr m q ys"
  shows "\<exists>r. g_strstr wchar_ty m p q = Some r \<and>
    (if \<exists>i \<le> length xs. prefix ys (drop i xs)
     then \<exists>i \<le> length xs. r = p + i * 4 \<and> prefix ys (drop i xs) \<and> (\<forall>j < i. \<not> prefix ys (drop j xs))
     else r = 0)"
proof (cases "find_sub ys xs")
  case None
  then have no: "\<not> (\<exists>i \<le> length xs. prefix ys (drop i xs))"
    by (auto simp: find_sub_def find_None_iff simp del: upt_Suc)
  show ?thesis unfolding if_not_P [OF no] using wide.strstr_ok [OF assms] None by simp
next
  case (Some i)
  then obtain k where k: "k < Suc (length xs)" "prefix ys (drop ([0..<Suc (length xs)] ! k) xs)"
    "i = [0..<Suc (length xs)] ! k" "\<forall>j < k. \<not> prefix ys (drop ([0..<Suc (length xs)] ! j) xs)"
    by (auto simp: find_sub_def find_Some_iff simp del: upt_Suc)
  have nth: "[0..<Suc (length xs)] ! j = j" if "j \<le> k" for j using that k(1) by (simp del: upt_Suc)
  then have "i = k" using k(3) by simp
  with k nth have "i \<le> length xs" "prefix ys (drop i xs)" "\<forall>j < i. \<not> prefix ys (drop j xs)"
    by (simp_all add: less_imp_le del: upt_Suc)
  then show ?thesis using wide.strstr_ok [OF assms] Some by (auto simp: wide_size)
qed

lemma wcsstr_first_occurrence_witness:
  "\<exists>r. g_strstr wchar_ty (sample [97, 0, 0, 0]) 8192 8196 = Some r \<and> r = 8192"
proof -
  let ?m = "sample [97, 0, 0, 0]"
  have b: "mbytes ?m x = (if x = 8192 then 97 else 0)" for x
    by (auto simp: sample_facts put_bytes_def nth_Cons split: nat.split)
  have z: "wide.cell (mbytes ?m) 8196 = 0" and a: "wide.cell (mbytes ?m) 8192 = 97"
    by (simp_all add: wide_cell b from_le_Cons from_le_Nil)
  have "wide.cstr ?m 8192 [97]" "wide.cstr ?m 8196 []"
    using a z by (simp_all add: wide.cstr_def wide.cells_ok_def wide_size wide_null sample_ordinary)
  from wcsstr_first_occurrence [OF this] have "\<exists>r. g_strstr wchar_ty ?m 8192 8196 = Some r \<and>
      (\<exists>i \<le> 1. r = 8192 + i * 4 \<and> (\<forall>j < i. \<not> prefix [] (drop j [97 :: u32])))" by (auto split: if_splits)
  then obtain r i where "g_strstr wchar_ty ?m 8192 8196 = Some r" "r = 8192 + i * 4" "\<forall>j < i. False" by auto
  then show ?thesis by (cases i) auto
qed

lemma read_byte_total: "q < 4294967296 \<Longrightarrow> \<exists>c. mem_read 1 m q = Some [c]"
proof -
  assume q: "q < 4294967296"
  have "q mod 4096 < 4096" by simp
  then have "slice_len (bytes_at m q 1) = 1" using q by (auto simp: bytes_at_def BYTES_LEN_def PAGE_SIZE_def)
  then show ?thesis using q
    by (cases "slice_bytes m (bytes_at m q 1)")
       (auto simp: mem_read_def ptr_at_def checked_mul32_def dest: arg_cong [of _ _ length])
qed

lemma rd_byte_total: "\<exists>c. rd u8_ty m p i = Some c"
  using read_byte_total [OF wadd32_bound, of m p "i mod 4294967296"]
  by (auto simp: rd_def ptr_add_def u8_ty_def)

text \<open>\<open>strlen\<close> on bytes always ends, on every reachable memory and for every pointer: a scan that
  finds no terminator wraps around the address space into the null segment, which reads as zero.\<close>

theorem strlen_terminates:
  assumes "heap_reach m" "p < 4294967296"
  shows "\<exists>n. g_strlen u8_ty m p = Some n \<and> n \<le> 4294967296 - p"
proof -
  have ok: "mem_ok m" using heap_reach_ok [OF assms(1)] .
  have nss: "0 < null_segment_size m" and stub: "null_stub_page m = (\<lambda>_. 0)"
    using ok alloc_wf_used [of "heap m" 0] by (auto simp: mem_ok_def alloc_inv_def span_ok_def)
  define k where "k = (4294967296 - p) mod 4294967296"
  have addr: "wadd32 p k = 0" using assms(2) by (auto simp: wadd32_def k_def mod_if)
  have kb: "k < 4294967296" "k \<le> 4294967296 - p" by (simp_all add: k_def)
  have "mem_read 1 m 0 = Some [0]" using stub_read [OF stub nss, of 1] by simp
  then have last: "rd u8_ty m p k = Some 0" using addr kb(1) by (simp add: rd_def ptr_add_def u8_ty_def)
  have "\<exists>n. strlen_from u8_ty m p 0 = Some n \<and> n \<le> k"
  proof (rule inc_induct [of 0 k])
    show "\<exists>n. strlen_from u8_ty m p k = Some n \<and> n \<le> k"
      using last by (simp add: strlen_from.simps byte_null)
    show "\<exists>n'. strlen_from u8_ty m p n = Some n' \<and> n' \<le> k"
      if "n < k" "\<exists>n'. strlen_from u8_ty m p (Suc n) = Some n' \<and> n' \<le> k" for n
    proof -
      obtain c where c: "rd u8_ty m p n = Some c" using rd_byte_total by blast
      have "wadd32 n (Suc 0) = Suc n" using that(1) kb(1) by (simp add: wadd32_exact)
      then show ?thesis using c that by (auto simp: strlen_from.simps [of u8_ty m p n])
    qed
  qed simp
  then show ?thesis using kb(2) by (auto simp: g_strlen_def)
qed

lemma strlen_terminates_witness: "\<exists>m n. mem_boot 4096 = Some m \<and> g_strlen u8_ty m 4294967295 = Some n"
proof -
  obtain m where m: "mem_boot 4096 = Some m" using mem_boot_spec [of 4096] by auto
  then have "heap_reach m" by (rule heap_reach.boot) simp_all
  from strlen_terminates [OF this, of 4294967295] m show ?thesis by auto
qed

end
