(* ===== verification/C_Strings_Write.thy ===== *)
theory C_Strings_Write
  imports C_Strings_Read
begin

text \<open>
  The writing half of the C string functions: \<open>memset\<close>, the copies and the concatenations, with what
  they leave alone.  The effect of a writing loop is stated with \<open>wrote\<close>: the characters now
  at the destination, and no byte outside them changed.
\<close>

context char_type
begin

definition wrote :: "mem \<Rightarrow> nat \<Rightarrow> 'c list \<Rightarrow> mem \<Rightarrow> bool" where
  "wrote m p xs m' = (\<exists>f. m' = m\<lparr> mbytes := f \<rparr> \<and> (\<forall>j < length xs. cell f (p + j * sz) = xs ! j)
     \<and> (\<forall>x. x < p \<or> p + length xs * sz \<le> x \<longrightarrow> f x = mbytes m x))"

definition apart :: "nat \<Rightarrow> nat \<Rightarrow> nat \<Rightarrow> nat \<Rightarrow> bool" where
  "apart p n q k = (p + n * sz \<le> q \<or> q + k * sz \<le> p)"

lemma apart_mono:
  assumes "apart p n q k" "n' \<le> n" "k' \<le> k"
  shows "apart p n' q k'"
proof -
  have "n' * sz \<le> n * sz" "k' * sz \<le> k * sz" using assms(2,3) by simp_all
  then show ?thesis using assms(1) unfolding apart_def by linarith
qed

lemma wrote_nil: "wrote m p [] m"
  unfolding wrote_def by (intro exI [of _ "mbytes m"]) simp

lemma wrote_cells_ok: "wrote m p xs m' \<Longrightarrow> cells_ok m' q n = cells_ok m q n"
  by (auto simp: wrote_def)

lemma cell_index_apart:
  assumes "i < (j :: nat)"
  shows "i * sz + sz \<le> j * sz"
proof -
  have "Suc i * sz \<le> j * sz" using assms by (intro mult_le_mono1) simp
  then show ?thesis by simp
qed

lemma wrote_snoc:
  assumes w: "wrote m p xs m1" and ok: "cells_ok m p (Suc (length xs))"
  shows "\<exists>m2. wr T m1 p (length xs) c = Some m2 \<and> wrote m p (xs @ [c]) m2"
proof -
  obtain f where f: "m1 = m\<lparr> mbytes := f \<rparr>" "\<forall>j < length xs. cell f (p + j * sz) = xs ! j"
    "\<forall>x. x < p \<or> p + length xs * sz \<le> x \<longrightarrow> f x = mbytes m x" using w unfolding wrote_def by blast
  let ?a = "p + length xs * sz" and ?g = "put_bytes (p + length xs * sz) (ct_enc T c) f"
  have run: "wr T m1 p (length xs) c = Some (m\<lparr> mbytes := ?g \<rparr>)"
    using wr_ok [of m1 p "Suc (length xs)" "length xs" c] ok f(1) by simp
  have "cell ?g (p + j * sz) = (xs @ [c]) ! j" if "j < Suc (length xs)" for j
  proof (cases "j = length xs")
    case True
    then show ?thesis using cell_put_same [of ?a c f] by simp
  next
    case False
    then have j: "j < length xs" using that by simp
    then have "cell ?g (p + j * sz) = cell f (p + j * sz)"
      using cell_index_apart [OF j] by (intro cell_put_other disjI1) simp
    then show ?thesis using f(2) j by (simp add: nth_append)
  qed
  moreover have "?g x = mbytes m x" if "x < p \<or> p + (length xs * sz + sz) \<le> x" for x
    using that f(3) by (auto simp: put_bytes_def enc_length)
  ultimately have "wrote m p (xs @ [c]) (m\<lparr> mbytes := ?g \<rparr>)"
    unfolding wrote_def by (intro exI [of _ ?g]) (simp add: add.commute)
  then show ?thesis using run by blast
qed

lemma cell_frame:
  assumes "wrote m p xs m'" "a + sz \<le> p \<or> p + length xs * sz \<le> a"
  shows "cell (mbytes m') a = cell (mbytes m) a"
proof -
  obtain f where f: "m' = m\<lparr> mbytes := f \<rparr>" "\<forall>x. x < p \<or> p + length xs * sz \<le> x \<longrightarrow> f x = mbytes m x"
    using assms(1) unfolding wrote_def by blast
  then have "cell f a = cell (mbytes m) a" using assms(2) by (intro cell_cong) auto
  then show ?thesis using f(1) by simp
qed

lemma cstr_frame:
  assumes w: "wrote m p xs m'" and s: "cstr m q s" and ap: "apart p (length xs) q (length s + 1)"
  shows "cstr m' q s"
proof -
  have "cell (mbytes m') (q + i * sz) = cell (mbytes m) (q + i * sz)" if "i \<le> length s" for i
  proof (rule cell_frame [OF w])
    have "i * sz + sz \<le> (length s + 1) * sz" using cell_index_apart [of i "length s + 1"] that by simp
    then show "q + i * sz + sz \<le> p \<or> p + length xs * sz \<le> q + i * sz" using ap unfolding apart_def by linarith
  qed
  then show ?thesis using s wrote_cells_ok [OF w] by (simp add: cstr_def)
qed

lemma rd_frame:
  assumes w: "wrote m p xs m'" and ok: "cells_ok m q n" "i < n" and ap: "apart p (length xs) q n"
  shows "rd T m' q i = rd T m q i"
proof -
  have "i * sz + sz \<le> n * sz" using cell_index_apart [OF ok(2)] .
  then have "q + i * sz + sz \<le> p \<or> p + length xs * sz \<le> q + i * sz" using ap unfolding apart_def by linarith
  then have "cell (mbytes m') (q + i * sz) = cell (mbytes m) (q + i * sz)" by (rule cell_frame [OF w])
  then show ?thesis using rd_ok [OF ok] rd_ok [of m' q n i] ok wrote_cells_ok [OF w] by simp
qed

lemma wrote_cstr:
  assumes w: "wrote m p (xs @ [ct_null T]) m'" and ok: "cells_ok m p (length xs + 1)" and nz: "ct_null T \<notin> set xs"
  shows "cstr m' p xs"
proof -
  obtain f where f: "m' = m\<lparr> mbytes := f \<rparr>"
    and c: "\<forall>j < length (xs @ [ct_null T]). cell f (p + j * sz) = (xs @ [ct_null T]) ! j"
    using w unfolding wrote_def by blast
  have "cell f (p + j * sz) = xs ! j" if "j < length xs" for j using c that by (simp add: nth_append)
  moreover have "cell f (p + length xs * sz) = ct_null T" using c by (simp add: nth_append)
  ultimately show ?thesis using f ok nz by (simp add: cstr_def)
qed

text \<open>Appending to a string: the copy starts where the terminator was.\<close>

lemma cstr_append:
  assumes s: "cstr m p ys" and w: "wrote m (p + length ys * sz) (xs @ [ct_null T]) m'"
    and ok: "cells_ok m p (length ys + length xs + 1)" and nz: "ct_null T \<notin> set xs"
  shows "cstr m' p (ys @ xs)"
proof -
  have "ct_null T \<notin> set (ys @ xs)" using s nz by (simp add: cstr_def)
  moreover have "cell (mbytes m') (p + j * sz) = ((ys @ xs) @ [ct_null T]) ! j"
    if j: "j < length ys + length xs + 1" for j
  proof (cases "j < length ys")
    case True
    have "cell (mbytes m') (p + j * sz) = cell (mbytes m) (p + j * sz)"
      using cell_index_apart [OF True] by (intro cell_frame [OF w]) simp
    then show ?thesis using s True by (simp add: cstr_def nth_append)
  next
    case False
    then obtain k where k: "j = length ys + k" by (metis add_diff_inverse_nat)
    have "cell (mbytes m') (p + length ys * sz + k * sz) = (xs @ [ct_null T]) ! k"
      using w k j unfolding wrote_def by auto
    then show ?thesis using k by (simp add: add_mult_distrib add.assoc nth_append)
  qed
  moreover have "cells_ok m' p (length ys + length xs + 1)" using ok wrote_cells_ok [OF w] by simp
  ultimately show ?thesis by (auto simp: cstr_def nth_append)
qed

section \<open>Loops that write one cell per step\<close>

lemma for_each_wrote:
  assumes ok: "cells_ok m p (length xs)"
    and body: "\<And>i m1. i < length xs \<Longrightarrow> wrote m p (take i xs) m1 \<Longrightarrow> f i m1 = wr T m1 p i (xs ! i)"
  shows "\<exists>m'. for_each f [0..<length xs] m = Some m' \<and> wrote m p xs m'"
proof -
  have "k \<le> length xs \<Longrightarrow> wrote m p (take k xs) m1 \<Longrightarrow>
      \<exists>m'. for_each f [k..<length xs] m1 = Some m' \<and> wrote m p xs m'" for k m1
  proof (induction "length xs - k" arbitrary: k m1)
    case 0
    then show ?case by simp
  next
    case (Suc d)
    then have k: "k < length xs" by simp
    have "cells_ok m p (Suc (length (take k xs)))" using ok by (rule cells_ok_mono) (use k in simp)
    from wrote_snoc [OF Suc.prems(2) this, of "xs ! k"] obtain m2 where
      m2: "wr T m1 p k (xs ! k) = Some m2" "wrote m p (take (Suc k) xs) m2"
      using k by (auto simp: take_Suc_conv_app_nth min_def)
    have "\<exists>m'. for_each f [Suc k..<length xs] m2 = Some m' \<and> wrote m p xs m'"
      by (rule Suc.hyps(1)) (use Suc.hyps(2) k m2(2) in auto)
    then show ?case using body [OF k Suc.prems(2)] m2(1) k by (simp add: upt_conv_Cons)
  qed
  from this [of 0 m] wrote_nil show ?thesis by simp
qed

lemma memset_ok:
  assumes "cells_ok m p (min n dn)"
  shows "\<exists>m'. g_memset T p c n dn m = Some (p, m') \<and> wrote m p (replicate (min n dn) c) m'"
proof -
  have "\<exists>m'. for_each (\<lambda>i m. wr T m p i c) [0..<length (replicate (min n dn) c)] m = Some m'
      \<and> wrote m p (replicate (min n dn) c) m'"
    by (rule for_each_wrote) (use assms in simp_all)
  moreover have "(if dn < n then dn else n) = min n dn" by (simp add: min_def)
  ultimately show ?thesis by (auto simp: g_memset_def)
qed

section \<open>Copies\<close>

text \<open>\<open>strcpy\<close> walks two pointers; the state of the loop after \<open>k\<close> characters.\<close>

lemma strcpy_loop_ok:
  assumes s: "cstr m q xs" and ok: "cells_ok m p (min b (length xs) + 1)"
    and ap: "apart p (min b (length xs) + 1) q (length xs + 1)"
  shows "k \<le> min b (length xs) \<Longrightarrow> wrote m p (take k xs) m1 \<Longrightarrow>
    \<exists>m'. strcpy_loop T (p + k * sz) (q + k * sz) (b - k) m1 = Some m'
       \<and> wrote m p (take b xs @ [ct_null T]) m'"
proof (induction "min b (length xs) - k" arbitrary: k m1)
  case 0
  then have k: "k = min b (length xs)" by simp
  have len: "length (take k xs) = k" using k by simp
  have ok': "cells_ok m p (Suc (length (take k xs)))" using ok k by simp
  from wrote_snoc [OF 0(3) ok', of "ct_null T"] len k obtain m2 where
    m2: "wr T m1 p k (ct_null T) = Some m2" "wrote m p (take b xs @ [ct_null T]) m2"
    by (metis min.cobounded1 min_def take_all)
  have okk: "cells_ok m1 p (Suc k)" using ok k wrote_cells_ok [OF 0(3)] by simp
  have at: "wr T m1 (p + k * sz) 0 c = wr T m1 p k c" for c
    using wr_ok [OF okk, of k c] wr_ok [of m1 "p + k * sz" 1 0 c] cell_addr(2) [OF okk, of k] by (simp add: cells_ok_def)
  show ?case
  proof (cases "k = b")
    case True
    then show ?thesis using m2 at by simp
  next
    case False
    then have kx: "k = length xs" and b: "b - k = Suc (b - k - 1)" using k by (auto simp: min_def)
    have "cstr m1 q xs" by (rule cstr_frame [OF 0(3) s]) (rule apart_mono [OF ap]; use k len in simp)
    then have "rd T m1 (q + k * sz) 0 = Some (ct_null T)"
      using cstr_rd(2) [OF cstr_drop [of m1 q xs k]] kx by simp
    then show ?thesis using m2 at by (subst b) simp
  qed
next
  case (Suc d)
  then have k: "k < b" "k < length xs" by auto
  have b: "b - k = Suc (b - Suc k)" using k by simp
  have len: "length (take k xs) = k" using k by simp
  have ok': "cells_ok m p (Suc (length (take k xs)))" using ok by (rule cells_ok_mono) (use k in simp)
  from wrote_snoc [OF Suc.prems(2) ok', of "xs ! k"] len obtain m2 where
    m2: "wr T m1 p k (xs ! k) = Some m2" "wrote m p (take (Suc k) xs) m2"
    using k by (auto simp: take_Suc_conv_app_nth)
  have okk: "cells_ok m1 p (Suc k)" using ok' wrote_cells_ok [OF Suc.prems(2)] len by simp
  have at: "wr T m1 (p + k * sz) 0 c = wr T m1 p k c" for c
    using wr_ok [OF okk, of k c] wr_ok [of m1 "p + k * sz" 1 0 c] cell_addr(2) [OF okk, of k] by (simp add: cells_ok_def)
  have s1: "cstr m1 q xs" by (rule cstr_frame [OF Suc.prems(2) s]) (rule apart_mono [OF ap]; use k len in simp)
  have rd: "rd T m1 (q + k * sz) 0 = Some (xs ! k)"
    using cstr_rd(1) [OF cstr_drop [OF s1, of k], of 0] k by simp
  have "ptr_add sz (q + k * sz) 1 = Some (q + k * sz + 1 * sz)"
    using cstr_addr [OF cstr_drop [OF s1, of k], of 1] k by simp
  then have q': "ptr_add sz (q + k * sz) 1 = Some (q + Suc k * sz)" by (simp add: add.assoc add.commute)
  have ok2: "cells_ok m p (k + 2)" using ok by (rule cells_ok_mono) (use k in simp)
  have "cells_ok m (p + k * sz) 2"
    using ok2 unfolding cells_ok_def by (rule ordinary_sub) (simp_all add: add_mult_distrib)
  from cell_addr(1) [OF this, of 1] have p': "ptr_add sz (p + k * sz) 1 = Some (p + Suc k * sz)"
    by (simp add: add.assoc add.commute)
  have "\<exists>m'. strcpy_loop T (p + Suc k * sz) (q + Suc k * sz) (b - Suc k) m2 = Some m'
       \<and> wrote m p (take b xs @ [ct_null T]) m'"
    by (rule Suc.hyps(1)) (use Suc.hyps(2) k m2(2) in auto)
  then show ?case unfolding b using rd at m2(1) p' q' cstr_nonnull [OF s k(2)] by simp
qed

lemma strcpy_ok:
  assumes "cstr m q xs" "cells_ok m p (min b (length xs) + 1)" "apart p (min b (length xs) + 1) q (length xs + 1)"
  shows "\<exists>m'. g_strcpy T p q b m = Some (p, m') \<and> wrote m p (take b xs @ [ct_null T]) m'"
  using strcpy_loop_ok [OF assms, of 0 m] wrote_nil by (auto simp: g_strcpy_def)

lemma strcat_ok:
  assumes d: "cstr m p ys" and s: "cstr m q xs" and b: "length ys + length xs < b"
    and ok: "cells_ok m p (length ys + length xs + 1)" and ap: "apart p (length ys + length xs + 1) q (length xs + 1)"
  shows "\<exists>m'. g_strcat T p q b m = Some (p, m') \<and> cstr m' p (ys @ xs)"
proof -
  let ?t = "p + length ys * sz"
  have ok_t: "cells_ok m ?t (length xs + 1)"
    using ok unfolding cells_ok_def by (rule ordinary_sub) (simp_all add: add_mult_distrib)
  have ap_t: "apart ?t (length xs + 1) q (length xs + 1)" using ap by (auto simp: apart_def add_mult_distrib)
  have mn: "min (b - length ys) (length xs) = length xs" and tk: "take (b - length ys) xs = xs" using b by simp_all
  obtain m' where m': "g_strcpy T ?t q (b - length ys) m = Some (?t, m')" "wrote m ?t (xs @ [ct_null T]) m'"
    using strcpy_ok [OF s, of ?t "b - length ys"] ok_t ap_t unfolding mn tk by blast
  have "cstr m' p (ys @ xs)"
    by (rule cstr_append [OF d m'(2) ok]) (use s in \<open>simp add: cstr_def\<close>)
  then show ?thesis using m'(1) strlen_ok [OF d] cstr_addr [OF d] b by (simp add: g_strcat_def)
qed

text \<open>\<open>strncpy\<close> pads with terminators up to \<open>n\<close> characters.\<close>

lemma strncpy_loop_ok:
  assumes s: "cstr m q xs" and ok: "cells_ok m p n" and ap: "apart p n q (length xs + 1)"
  defines "out \<equiv> take n (xs @ replicate (n - length xs) (ct_null T))"
  shows "k \<le> n \<Longrightarrow> wrote m p (take k out) m1 \<Longrightarrow>
    \<exists>m'. strncpy_loop T p q (length xs < k) [k..<n] m1 = Some m' \<and> wrote m p out m'"
proof (induction "n - k" arbitrary: k m1)
  case 0
  have "length out = n" by (simp add: out_def)
  then have "take k out = out" "k = n" using 0 by simp_all
  then show ?case using 0 by simp
next
  case (Suc d)
  have lout: "length out = n" by (simp add: out_def)
  have k: "k < n" using Suc.hyps(2) by simp
  have len: "length (take k out) = k" using k lout by simp
  have ok': "cells_ok m p (Suc (length (take k out)))" using ok by (rule cells_ok_mono) (use k len in simp)
  from wrote_snoc [OF Suc.prems(2) ok', of "out ! k"] len obtain m2 where
    m2: "wr T m1 p k (out ! k) = Some m2" "wrote m p (take (Suc k) out) m2"
    using k lout by (auto simp: take_Suc_conv_app_nth)
  have rest: "\<exists>m'. strncpy_loop T p q (length xs < Suc k) [Suc k..<n] m2 = Some m' \<and> wrote m p out m'"
    by (rule Suc.hyps(1)) (use Suc.hyps(2) k m2(2) in auto)
  have upt: "[k..<n] = k # [Suc k..<n]" using k by (rule upt_conv_Cons)
  show ?case
  proof (cases "length xs < k")
    case True
    then have "out ! k = ct_null T" using k by (simp add: out_def nth_append)
    then show ?thesis using True m2(1) rest unfolding upt by simp
  next
    case False
    have s1: "cstr m1 q xs" by (rule cstr_frame [OF Suc.prems(2) s]) (rule apart_mono [OF ap]; use k len in simp)
    have rd: "rd T m1 q k = Some (out ! k)" and "(out ! k = ct_null T) = (length xs < Suc k)"
      using False k cstr_rd [OF s1] cstr_nonnull [OF s, of k] by (cases "k = length xs"; simp add: out_def nth_append)+
    then show ?thesis using False m2(1) rest unfolding upt by simp
  qed
qed

lemma strncpy_ok:
  assumes "cstr m q xs" "cells_ok m p (min n dn)" "apart p (min n dn) q (length xs + 1)"
  shows "\<exists>m'. g_strncpy T p q n dn m = Some (p, m')
    \<and> wrote m p (take (min n dn) (xs @ replicate (min n dn - length xs) (ct_null T))) m'"
proof -
  have "(if dn < n then dn else n) = min n dn" by (simp add: min_def)
  then show ?thesis using strncpy_loop_ok [OF assms, of 0 m] wrote_nil by (auto simp: g_strncpy_def)
qed

section \<open>Bounded copies\<close>

lemma strlcpy_from_ok:
  assumes s: "cstr m q xs" and n1: "wsub32 n 1 = lim" and ok: "cells_ok m p (min (lim) (length xs) + 1)"
    and ap: "apart p (min (lim) (length xs) + 1) q (length xs + 1)"
  defines "out \<equiv> take (lim) xs @ [ct_null T]"
  shows "k \<le> length xs \<Longrightarrow> wrote m p (take k out) m1 \<Longrightarrow>
    \<exists>m'. strlcpy_from T p q n k m1 = Some (length xs, m') \<and> wrote m p out m'"
proof (induction "length xs - k" arbitrary: k m1 rule: less_induct)
  case (less k)
  have lout: "length out = min (lim) (length xs) + 1" by (simp add: out_def)
  have apx: "apart p (length (take k out)) q (length xs + 1)" using ap by (rule apart_mono) (simp_all add: lout)
  have s1: "cstr m1 q xs" by (rule cstr_frame [OF less.prems(2) s apx])
  define c where "c = (if k = length xs then ct_null T else xs ! k)"
  have rd: "rd T m1 q k = Some c" and nz: "(c = ct_null T) = (k = length xs)"
    using cstr_rd [OF s1] cstr_nonnull [OF s, of k] less.prems(1) by (auto simp: c_def)
  have "\<exists>m2. (if k < lim then wr T m1 p k c else if k = lim then wr T m1 p k (ct_null T) else Some m1) = Some m2
      \<and> wrote m p (take (Suc k) out) m2"
  proof (cases "k \<le> lim")
    case True
    have kl: "k < length out" using True less.prems(1) by (simp add: lout)
    have v: "out ! k = (if k < lim then c else ct_null T)"
      using True less.prems(1) by (auto simp: out_def c_def nth_append)
    have "length (take k out) = k" using kl by simp
    then have ok': "cells_ok m p (Suc (length (take k out)))"
      by (intro cells_ok_mono [OF ok]) (use kl lout in linarith)
    from wrote_snoc [OF less.prems(2) ok', of "out ! k"] obtain m2 where
      "wr T m1 p k (out ! k) = Some m2" "wrote m p (take (Suc k) out) m2"
      using kl by (auto simp: take_Suc_conv_app_nth min_def)
    then show ?thesis using v True by (auto split: if_splits)
  next
    case False
    then have "take (Suc k) out = take k out" using lout by simp
    then show ?thesis using False less.prems(2) by simp
  qed
  then obtain m2 where m2: "(if k < lim then wr T m1 p k c else if k = lim then wr T m1 p k (ct_null T) else Some m1) = Some m2"
    "wrote m p (take (Suc k) out) m2" by blast
  show ?case
  proof (cases "k = length xs")
    case True
    have "take (Suc k) out = out" using True lout by simp
    then show ?thesis using True nz m2(2)
      unfolding strlcpy_from.simps [of T p q n k m1] n1 rd Option.bind_lunit m2(1) by simp
  next
    case False
    then have k: "k < length xs" using less.prems(1) by simp
    have "\<exists>m'. strlcpy_from T p q n (Suc k) m2 = Some (length xs, m') \<and> wrote m p out m'"
      by (rule less.hyps) (use k m2(2) in auto)
    then show ?thesis using False nz cstr_step [OF s k]
      unfolding strlcpy_from.simps [of T p q n k m1] n1 rd Option.bind_lunit m2(1) by simp
  qed
qed

lemma strlcpy_ok:
  assumes "cstr m q xs" "wsub32 n 1 = lim" "cells_ok m p (min (lim) (length xs) + 1)"
    "apart p (min (lim) (length xs) + 1) q (length xs + 1)"
  shows "\<exists>m'. g_strlcpy T p q n m = Some (length xs, m') \<and> wrote m p (take (lim) xs @ [ct_null T]) m'"
  using strlcpy_from_ok [OF assms, of 0 m] wrote_nil by (simp add: g_strlcpy_def)

section \<open>Bounded concatenation\<close>

lemma tail_ok:
  assumes ok: "cells_ok m p (a + k)"
  shows "cells_ok m (p + a * sz) k"
  using ok unfolding cells_ok_def by (rule ordinary_sub) (simp_all add: add_mult_distrib)

lemma tail_apart: "apart p (a + k) q n \<Longrightarrow> apart (p + a * sz) k q n"
  by (auto simp: apart_def add_mult_distrib)

lemma strlcat_ok:
  assumes d: "cstr m p ys" and s: "cstr m q xs" and n: "n < 4294967296"
    and sum: "length ys + length xs < 4294967296" "n + length xs < 4294967296"
    and room: "length ys < n \<Longrightarrow> cells_ok m p (length ys + min (n - length ys - 1) (length xs) + 1)
       \<and> apart p (length ys + min (n - length ys - 1) (length xs) + 1) q (length xs + 1)"
  shows "g_strlcat T p q n m = Some (n + length xs, m) \<and> n \<le> length ys \<or>
    (\<exists>m'. g_strlcat T p q n m = Some (length ys + length xs, m') \<and> length ys < n
       \<and> cstr m' p (take (n - 1) (ys @ xs)))"
proof (cases "n \<le> length ys")
  case True
  then show ?thesis using strlen_ok [OF d] strlen_ok [OF s] sum by (simp add: g_strlcat_def wadd32_exact)
next
  case False
  define c where "c = min (n - length ys - 1) (length xs)"
  let ?t = "p + length ys * sz" and ?xs = "take c xs"
  have lt: "length ys < n" and ok: "cells_ok m p (length ys + c + 1)" and ap: "apart p (length ys + c + 1) q (length xs + 1)"
    using False room by (simp_all add: c_def)
  have lx: "length ?xs = c" by (simp add: c_def)
  have okt: "cells_ok m ?t (c + 1)" by (rule tail_ok) (use ok in \<open>simp add: add.assoc\<close>)
  have apt: "apart ?t (c + 1) q (length xs + 1)" by (rule tail_apart) (use ap in \<open>simp add: add.assoc\<close>)
  let ?f = "\<lambda>i m. do { ch \<leftarrow> rd T m q i; wr T m ?t i ch }"
  have okx: "cells_ok m ?t (length ?xs)" using okt by (rule cells_ok_mono) (simp add: lx)
  have "\<exists>m1. for_each ?f [0..<length ?xs] m = Some m1 \<and> wrote m ?t ?xs m1"
  proof (rule for_each_wrote [OF okx])
    fix i m1 assume i: "i < length ?xs" and w: "wrote m ?t (take i ?xs) m1"
    have "cstr m1 q xs" by (rule cstr_frame [OF w s]) (rule apart_mono [OF apt]; use lx i in simp)
    then have "rd T m1 q i = Some (?xs ! i)" using cstr_rd(1) [of m1 q xs i] i by simp
    then show "?f i m1 = wr T m1 ?t i (?xs ! i)" by simp
  qed
  then obtain m1 where m1: "for_each ?f [0..<c] m = Some m1" "wrote m ?t ?xs m1" using lx by auto
  have okc: "cells_ok m ?t (Suc (length ?xs))" using okt lx by simp
  obtain m2 where m2: "wr T m1 ?t c (ct_null T) = Some m2" "wrote m ?t (?xs @ [ct_null T]) m2"
    using wrote_snoc [OF m1(2) okc, of "ct_null T"] unfolding lx by blast
  have nz: "ct_null T \<notin> set ?xs" using s by (meson cstr_def in_set_takeD)
  have "cstr m2 p (ys @ ?xs)"
    by (rule cstr_append [OF d m2(2) _ nz]) (use ok lx in simp)
  moreover have "?xs = take (n - length ys - 1) xs" by (simp add: c_def min_def)
  then have "ys @ ?xs = take (n - 1) (ys @ xs)" using lt by simp
  moreover have "g_strlcat T p q n m = Some (length ys + length xs, m2)"
    using strlen_ok [OF d] strlen_ok [OF s] cstr_addr [OF d, of "length ys"] False m1(1) m2(1) sum(1)
    by (simp add: g_strlcat_def c_def wadd32_exact)
  ultimately show ?thesis using lt by auto
qed

text \<open>\<open>strncat\<close>: at most \<open>n\<close> characters, then a terminator.\<close>

lemma strncat_loop_ok:
  assumes s: "cstr m q xs" and ok: "cells_ok m p (min n (length xs) + 1)"
    and ap: "apart p (min n (length xs) + 1) q (length xs + 1)"
  shows "k \<le> n \<Longrightarrow> k \<le> length xs \<Longrightarrow> wrote m p (take k xs) m1 \<Longrightarrow>
    \<exists>m'. strncat_loop T p q [k..<n] m1 = Some (length xs < n, m')
      \<and> wrote m p (if length xs < n then xs @ [ct_null T] else take n xs) m'"
proof (induction "n - k" arbitrary: k m1)
  case 0
  then show ?case by simp
next
  case (Suc d)
  then have kn: "k < n" by simp
  have upt: "[k..<n] = k # [Suc k..<n]" using kn by (rule upt_conv_Cons)
  have len: "length (take k xs) = k" using Suc.prems(2) by simp
  have s1: "cstr m1 q xs" by (rule cstr_frame [OF Suc.prems(3) s]) (rule apart_mono [OF ap]; use kn Suc.prems(2) len in simp)
  have ok': "cells_ok m p (Suc (length (take k xs)))" using ok by (rule cells_ok_mono) (use kn Suc.prems(2) len in simp)
  show ?case
  proof (cases "k = length xs")
    case True
    from wrote_snoc [OF Suc.prems(3) ok', of "ct_null T"] True obtain m2 where
      "wr T m1 p k (ct_null T) = Some m2" "wrote m p (xs @ [ct_null T]) m2" by auto
    then show ?thesis using cstr_rd(2) [OF s1] True kn unfolding upt by simp
  next
    case False
    then have k: "k < length xs" using Suc.prems(2) by simp
    from wrote_snoc [OF Suc.prems(3) ok', of "xs ! k"] len k obtain m2 where
      m2: "wr T m1 p k (xs ! k) = Some m2" "wrote m p (take (Suc k) xs) m2" by (auto simp: take_Suc_conv_app_nth)
    have "\<exists>m'. strncat_loop T p q [Suc k..<n] m2 = Some (length xs < n, m')
      \<and> wrote m p (if length xs < n then xs @ [ct_null T] else take n xs) m'"
      by (rule Suc.hyps(1)) (use Suc.hyps(2) kn k m2(2) in auto)
    then show ?thesis using cstr_rd(1) [OF s1 k] cstr_nonnull [OF s k] m2(1) unfolding upt by simp
  qed
qed

lemma strncat_ok:
  assumes d: "cstr m p ys" and s: "cstr m q xs"
    and ok: "cells_ok m p (length ys + min n (length xs) + 1)"
    and ap: "apart p (length ys + min n (length xs) + 1) q (length xs + 1)"
  shows "\<exists>m'. g_strncat T p q n m = Some (p, m') \<and> cstr m' p (ys @ take n xs)"
proof -
  let ?t = "p + length ys * sz"
  have okt: "cells_ok m ?t (min n (length xs) + 1)" by (rule tail_ok) (use ok in \<open>simp add: add.assoc\<close>)
  have apt: "apart ?t (min n (length xs) + 1) q (length xs + 1)" by (rule tail_apart) (use ap in \<open>simp add: add.assoc\<close>)
  from strncat_loop_ok [OF s okt apt, of 0 m] wrote_nil obtain m1 where
    m1: "strncat_loop T ?t q [0..<n] m = Some (length xs < n, m1)"
      "wrote m ?t (if length xs < n then xs @ [ct_null T] else take n xs) m1" by auto
  have nz: "ct_null T \<notin> set (take n xs)" using s by (meson cstr_def in_set_takeD)
  have len: "length (take n xs) = min n (length xs)" by simp
  have t: "ptr_add sz p (length ys) = Some ?t" using cstr_addr [OF d] by simp
  show ?thesis
  proof (cases "length xs < n")
    case True
    have "cstr m1 p (ys @ take n xs)"
      by (rule cstr_append [OF d _ _ nz]) (use True m1(2) ok len in simp_all)
    then show ?thesis using strlen_ok [OF d] t m1(1) True by (simp add: g_strncat_def)
  next
    case False
    then have n: "length (take n xs) = n" by simp
    have ok2: "cells_ok m ?t (Suc (length (take n xs)))" using okt False by simp
    have w: "wrote m ?t (take n xs) m1" using m1(2) False by simp
    from wrote_snoc [OF w ok2, of "ct_null T"] obtain m2 where
      m2: "wr T m1 ?t (length (take n xs)) (ct_null T) = Some m2" "wrote m ?t (take n xs @ [ct_null T]) m2" by blast
    have "cstr m2 p (ys @ take n xs)"
      by (rule cstr_append [OF d m2(2) _ nz]) (use ok len in simp)
    then show ?thesis using strlen_ok [OF d] t m1(1) m2(1) n False by (simp add: g_strncat_def)
  qed
qed

section \<open>\<open>strdup\<close>\<close>

lemma strdup_ok:
  assumes ok: "mem_ok m" and s: "cstr m q xs" and blk: "inside_block m q ((length xs + 1) * sz)"
    and len: "(length xs + 1) * sz < 4294967296"
    and al: "mem_alloc ((length xs + 1) * sz) m = Some (p, m1)" "p \<noteq> 0"
  shows "\<exists>m'. g_strdup T q m = Some (p, m') \<and> cstr m' p xs"
proof -
  have fr: "mem_ok m1" "fresh_block (heap m) p ((length xs + 1) * sz) (heap m1)"
    "mbytes m1 = (\<lambda>x. if \<not> zero_memory_on_free m \<and> p \<le> x \<and> x < p + (length xs + 1) * sz then 0 else mbytes m x)"
    using mem_alloc_fresh [OF ok len al] by simp_all
  obtain k where k: "(length xs + 1) * sz \<le> k" "p + k \<le> 4294967296" "null_segment_size m1 \<le> p"
    "avoids (used_view (heap m)) p k" using fresh_block_span [OF fr(1,2)] by blast
  obtain b l where b: "used_view (heap m) b = Some l" "b \<le> q" "q + (length xs + 1) * sz \<le> b + l"
    using blk unfolding inside_block_def by blast
  have "b + l \<le> p \<or> p + k \<le> b" using k(4) b(1) unfolding avoids_def by blast
  then have ap: "apart p (length xs + 1) q (length xs + 1)" using b k(1) unfolding apart_def by linarith
  have nss: "null_segment_size m1 = null_segment_size m" using mem_alloc_fresh [OF ok len al] by simp
  have "cell (mbytes m1) (q + i * sz) = cell (mbytes m) (q + i * sz)" if "i \<le> length xs" for i
  proof (rule cell_cong)
    fix j assume "j < sz"
    then have "i * sz + j < (length xs + 1) * sz" using cell_index_apart [of i "length xs + 1"] that by linarith
    then show "mbytes m1 (q + i * sz + j) = mbytes m (q + i * sz + j)"
      using ap unfolding apart_def fr(3) by auto
  qed
  then have s1: "cstr m1 q xs" using s nss by (simp add: cstr_def cells_ok_def ordinary_def)
  have okp: "cells_ok m1 p (length xs + 1)" using k(1,2,3) by (simp add: cells_ok_def ordinary_def)
  have small: "length xs < U32_MAX"
  proof -
    have "1 \<le> sz" using size_pos by simp
    then have "(length xs + 1) * 1 \<le> (length xs + 1) * sz" by (rule mult_le_mono2)
    then show ?thesis using len by (simp add: U32_MAX_def)
  qed
  have mn: "min U32_MAX (length xs) = length xs" and tk: "take U32_MAX xs = xs" using small by simp_all
  obtain m' where m': "g_strcpy T p q U32_MAX m1 = Some (p, m')" "wrote m1 p (xs @ [ct_null T]) m'"
    using strcpy_ok [OF s1, of p U32_MAX] okp ap unfolding mn tk by blast
  have "wadd32 (length xs) 1 = length xs + 1" using small by (simp add: wadd32_exact U32_MAX_def)
  then have "g_strdup T q m = Some (p, m')"
    using strlen_ok [OF s] al(1) len m'(1) by (simp add: g_strdup_def)
  moreover have "cstr m' p xs" by (rule wrote_cstr [OF m'(2) okp]) (use s in \<open>simp add: cstr_def\<close>)
  ultimately show ?thesis by blast
qed

end

section \<open>Properties\<close>

lemma byte_apart: "byte.apart p n q k = (p + n \<le> q \<or> q + k \<le> p)"
  by (simp add: byte.apart_def byte_size)

lemma byte_cells_ok: "byte.cells_ok m p n = ordinary m p n"
  by (simp add: byte.cells_ok_def byte_size)

lemma byte_wroteD:
  assumes "byte.wrote m p xs m'"
  shows "\<forall>j < length xs. mbytes m' (p + j) = xs ! j" "\<forall>x. x < p \<or> p + length xs \<le> x \<longrightarrow> mbytes m' x = mbytes m x"
  using assms by (auto simp: byte.wrote_def byte_cell byte_size)

text \<open>The bound on the copied bytes, as the unsigned subtraction gives it.\<close>

definition strlcpy_limit :: "nat \<Rightarrow> nat" where
  "strlcpy_limit n = (if n = 0 then 4294967295 else n - 1)"

text \<open>C20: \<open>strlcpy\<close> of a string to a buffer apart from it, with room for the copy, returns the length of the
  source, leaves the source cut to \<open>n - 1\<close> bytes and terminated at the destination, and touches no other byte;
  but with size 0, where C writes nothing, the bound wraps around and the whole source is copied.\<close>

theorem strlcpy_bounded:
  assumes "byte.cstr m q xs" "n < 4294967296" "ordinary m p (min (strlcpy_limit n) (length xs) + 1)"
    "p + (min (strlcpy_limit n) (length xs) + 1) \<le> q \<or> q + (length xs + 1) \<le> p"
  shows "\<exists>m'. g_strlcpy u8_ty p q n m = Some (length xs, m') \<and> byte.cstr m' p (take (strlcpy_limit n) xs)
    \<and> (\<forall>x. x < p \<or> p + min (strlcpy_limit n + 1) (length xs + 1) \<le> x \<longrightarrow> mbytes m' x = mbytes m x)"
proof -
  let ?lim = "strlcpy_limit n"
  have lim: "wsub32 n 1 = ?lim" using assms(2) by (cases "n = 0") (simp_all add: strlcpy_limit_def wsub32_exact, simp add: wsub32_def)
  have ok: "byte.cells_ok m p (min ?lim (length xs) + 1)" using assms(3) by (simp add: byte_cells_ok)
  have ap: "byte.apart p (min ?lim (length xs) + 1) q (length xs + 1)" using assms(4) by (simp add: byte_apart)
  from byte.strlcpy_ok [OF assms(1) lim ok ap] obtain m' where
    m': "g_strlcpy u8_ty p q n m = Some (length xs, m')" "byte.wrote m p (take ?lim xs @ [ct_null u8_ty]) m'" by blast
  have "ct_null u8_ty \<notin> set (take ?lim xs)" using assms(1) by (meson byte.cstr_def in_set_takeD)
  then have "byte.cstr m' p (take ?lim xs)"
    using ok by (intro byte.wrote_cstr [OF m'(2)]) (simp_all add: min.commute)
  moreover have "length (take ?lim xs @ [ct_null u8_ty]) = min (?lim + 1) (length xs + 1)" by simp
  ultimately show ?thesis using m'(1) byte_wroteD(2) [OF m'(2)] by simp
qed

lemma sample_abc: "byte.cstr (sample [97, 98, 99, 0]) 8192 [97, 98, 99]"
  using sample_cstr [of "[97, 98, 99]" "[]"] by simp

lemma strlcpy_bounded_witness:
  "\<exists>n m'. g_strlcpy u8_ty 12288 8192 3 (sample [97, 98, 99, 0]) = Some (n, m') \<and> n = 3 \<and> byte.cstr m' 12288 [97, 98]"
proof -
  have "length [97, 98, 99 :: u8] = 3" by simp
  then show ?thesis using strlcpy_bounded [OF sample_abc, of 3 12288] by (auto simp: sample_ordinary strlcpy_limit_def)
qed

text \<open>a checked copy (\<open>__strcpy_chk\<close>, reached through \<open>strcpy\<close> with a finite buffer size) of a string
  that does not fit into its \<open>b\<close> bytes writes \<open>b\<close> bytes of it and then a terminator behind the
  buffer, not into its last byte.\<close>

theorem strcpy_chk_writes_past_buffer:
  assumes "byte.cstr m q xs" "b \<le> length xs" "ordinary m p (b + 1)" "p + (b + 1) \<le> q \<or> q + (length xs + 1) \<le> p"
  shows "\<exists>m'. g_strcpy u8_ty p q b m = Some (p, m') \<and> (\<forall>j < b. mbytes m' (p + j) = xs ! j)
    \<and> mbytes m' (p + b) = 0"
proof -
  have mn: "min b (length xs) = b" using assms(2) by simp
  have ok: "byte.cells_ok m p (min b (length xs) + 1)" unfolding mn using assms(3) by (simp add: byte_cells_ok)
  have ap: "byte.apart p (min b (length xs) + 1) q (length xs + 1)" unfolding mn using assms(4) by (simp add: byte_apart)
  from byte.strcpy_ok [OF assms(1) ok ap] obtain m' where
    m': "g_strcpy u8_ty p q b m = Some (p, m')" "byte.wrote m p (take b xs @ [ct_null u8_ty]) m'" by blast
  have "mbytes m' (p + j) = (take b xs @ [0]) ! j" if "j \<le> b" for j
    using byte_wroteD(1) [OF m'(2)] that assms(2) by (simp add: byte_null)
  then show ?thesis using m'(1) assms(2) by (intro exI [of _ m']) (simp add: nth_append)
qed

lemma strcpy_chk_writes_past_buffer_witness:
  "\<exists>m'. g_strcpy u8_ty 12288 8192 2 (sample [97, 98, 99, 0]) = Some (12288, m') \<and> mbytes m' 12290 = 0"
  using strcpy_chk_writes_past_buffer [OF sample_abc, of 2 12288] by (auto simp: sample_ordinary)

text \<open>concatenation.  \<open>strcat\<close> appends, \<open>strncat\<close> appends at most \<open>n\<close> bytes of the source, and both
  leave a terminated string at the destination.\<close>

theorem strcat_appends:
  assumes "byte.cstr m p ys" "byte.cstr m q xs" "length ys + length xs < b"
    "ordinary m p (length ys + length xs + 1)"
    "p + (length ys + length xs + 1) \<le> q \<or> q + (length xs + 1) \<le> p"
  shows "(\<exists>m'. g_strcat u8_ty p q b m = Some (p, m') \<and> byte.cstr m' p (ys @ xs))
    \<and> (\<exists>m'. g_strncat u8_ty p q n m = Some (p, m') \<and> byte.cstr m' p (ys @ take n xs))"
proof -
  have ok: "byte.cells_ok m p (length ys + length xs + 1)" using assms(4) by (simp add: byte_cells_ok)
  have ap: "byte.apart p (length ys + length xs + 1) q (length xs + 1)" using assms(5) by (simp add: byte_apart)
  have le: "length ys + min n (length xs) + 1 \<le> length ys + length xs + 1" by simp
  show ?thesis
    using byte.strcat_ok [OF assms(1,2,3) ok ap]
      byte.strncat_ok [OF assms(1,2) byte.cells_ok_mono [OF ok le] byte.apart_mono [OF ap le order_refl]]
    by blast
qed

lemma strcat_appends_witness:
  "\<exists>m'. g_strcat u8_ty 12288 8192 100 (sample [97, 98, 99, 0]) = Some (12288, m') \<and> byte.cstr m' 12288 [97, 98, 99]"
proof -
  have "byte.cstr (sample [97, 98, 99, 0]) 12288 []"
    by (rule byte_cstrI) (simp_all add: sample_ordinary sample_facts put_bytes_def)
  from strcat_appends [OF this sample_abc, of 100] show ?thesis by (simp add: sample_ordinary)
qed

end
