(* ===== verification/Environment.thy ===== *)
theory Environment
  imports Heap_Safety
begin

text \<open>
  The state shared by the guest threads and the ways a thread gives up the processor:
  \<open>Thread\<close>, \<open>ThreadBlock\<close>, \<open>Environment\<close> and its thread methods in \<open>src/environment.rs\<close>,
  with the host objects of mutexes (\<open>src/environment/mutex.rs\<close>), condition variables, keys
  and threads (\<open>src/libc/pthread/\<close>), semaphores (\<open>src/libc/semaphore.rs\<close>), \<open>errno\<close>
  (\<open>src/libc/errno.rs\<close>) and \<open>@synchronized\<close> (\<open>src/objc/synchronization.rs\<close>) as fields.

  Host execution contexts (coroutines, CPU registers) are not state of the model.  A call made by
  the current thread either returns (\<open>Done\<close>) or suspends the coroutine (\<open>Blocked\<close>), leaving
  the environment to the executor together with the rest of the call, to be applied to the
  environment the executor resumes it with.  \<open>None\<close> is a panic.  Clock readings are
  numbers of nanoseconds: instants of the monotonic clock in \<open>Sleeping\<close>, wall-clock times
  since 1970 in the deadline of \<open>Condition\<close>.
\<close>

section \<open>State\<close>

datatype thread_block =
    NotBlocked
  | Sleeping nat
  | Mutex nat
  | Semaphore nat
  | Condition nat "nat option"
  | Joining nat nat
  | WaitingForDebugger
  | Suspended nat thread_block

record thread =
  active :: bool
  blocked_by :: thread_block
  return_value :: "nat option"
  stack :: "(nat \<times> nat) option"

definition is_blocked :: "thread \<Rightarrow> bool" where
  "is_blocked t = (blocked_by t \<noteq> NotBlocked)"

datatype mutex_type = PTHREAD_MUTEX_NORMAL | PTHREAD_MUTEX_ERRORCHECK | PTHREAD_MUTEX_RECURSIVE

text \<open>The pair in \<open>locked\<close> is the owner and the number of its locks, which is never zero.\<close>

record mutex =
  mutex_kind :: mutex_type
  waiting_count :: nat
  locked :: "(nat \<times> nat) option"

record cond_host_object =
  waiting :: "nat list"
  waking :: "nat list"
  curr_mutex :: "nat option"
  timed_out :: "nat set"

record semaphore_host_object =
  sem_value :: int
  sem_waiting :: "nat set"
  guest_sem :: "nat option"
  named :: bool

text \<open>Attributes of a thread and its host object (\<open>libc/pthread/thread.rs\<close>).\<close>

record pthread_attr =
  pa_magic :: nat
  detachstate :: int
  stacksize :: nat
  sched_policy :: int
  sched_priority :: int
  pa_unused :: "u8 list"

record thread_host_object =
  ho_thread_id :: nat
  joined_by :: "nat option"
  ho_attr :: pthread_attr
  cancel_requested :: bool
  cancel_disabled :: bool
  cancel_async :: bool
  ho_name :: "u8 list"

text \<open>
  The reference-counted semaphore objects live in the list \<open>sem_cells\<close>; the two maps hold
  indices into it, so that an object opened by name and by pointer is one cell.  The thread
  objects are a list of pairs, because the code searches the values of that map.
\<close>

record env =
  e_mem :: mem
  current_thread :: nat
  threads :: "thread list"
  yielder :: bool
  mutexes :: "nat \<Rightarrow> mutex option"
  mutex_count :: nat
  condition_variables :: "nat \<Rightarrow> cond_host_object option"
  sem_cells :: "semaphore_host_object list"
  open_semaphores :: "nat \<Rightarrow> nat option"
  named_semaphores :: "u8 list \<Rightarrow> nat option"
  keys :: "((nat \<Rightarrow> nat option) \<times> nat) list"
  errnos :: "nat \<Rightarrow> nat option"
  strings_cache :: "int \<Rightarrow> nat option"
  sync_mutexes :: "nat \<Rightarrow> nat option"
  host_threads :: "(nat \<times> thread_host_object) list"
  main_thread_object_created :: bool

text \<open>
  The start: one main thread, no coroutine entered, no host objects.
\<close>

definition env_new :: "mem \<Rightarrow> env" where
  "env_new m = \<lparr> e_mem = m, current_thread = 0,
     threads = [\<lparr> active = True, blocked_by = NotBlocked, return_value = None, 
       stack = Some (MAIN_THREAD_STACK_LOW_END, wsub32 0 1) \<rparr>],
     yielder = False, mutexes = (\<lambda>_. None), mutex_count = 0, condition_variables = (\<lambda>_. None),
     sem_cells = [], open_semaphores = (\<lambda>_. None), named_semaphores = (\<lambda>_. None),
     keys = [], errnos = (\<lambda>_. None), strings_cache = (\<lambda>_. None),
     sync_mutexes = (\<lambda>_. None), host_threads = [], main_thread_object_created = False \<rparr>"

datatype 'r call = Done 'r env | Blocked env "env \<Rightarrow> ('r \<times> env) option"

text \<open>A call made inside another one: its result is converted when it is there.\<close>

fun map_call :: "('r \<Rightarrow> 's) \<Rightarrow> 'r call \<Rightarrow> 's call" where
  "map_call f (Done r e) = Done (f r) e"
| "map_call f (Blocked e k) = Blocked e (\<lambda>e1. map_option (\<lambda>(r, e2). (f r, e2)) (k e1))"

text \<open>A call whose result is worked on before it is handed to the guest.\<close>

fun bind_call :: "'r call \<Rightarrow> ('r \<Rightarrow> env \<Rightarrow> ('s \<times> env) option) \<Rightarrow> 's call option" where
  "bind_call (Done r e) f = map_option (\<lambda>(s, e1). Done s e1) (f r e)"
| "bind_call (Blocked e k) f = Some (Blocked e (\<lambda>e1. Option.bind (k e1) (\<lambda>(r, e2). f r e2)))"

section \<open>Giving up the processor\<close>

definition thread_at :: "nat \<Rightarrow> env \<Rightarrow> thread option" where
  "thread_at t e = (if t < length (threads e) then Some (threads e ! t) else None)"

definition block_of :: "nat \<Rightarrow> env \<Rightarrow> thread_block" where
  "block_of t e = blocked_by (threads e ! t)"

definition set_block :: "nat \<Rightarrow> thread_block \<Rightarrow> env \<Rightarrow> env" where
  "set_block t b e = e\<lparr> threads := (threads e)[t := (threads e ! t)\<lparr> blocked_by := b \<rparr>] \<rparr>"

definition yield_thread :: "thread_block \<Rightarrow> env \<Rightarrow> (env \<Rightarrow> ('r \<times> env) option) \<Rightarrow> 'r call option" where
  "yield_thread b e rest = do {
     th \<leftarrow> thread_at (current_thread e) e;
     (if is_blocked th then None
      else if \<not> yielder e then do {
        (r, e1) \<leftarrow> rest (set_block (current_thread e) NotBlocked e);
        Some (Done r e1) }
      else Some (Blocked (set_block (current_thread e) b e\<lparr> yielder := False \<rparr>)
             (\<lambda>e1. do {
                th1 \<leftarrow> thread_at (current_thread e1) e1;
                (if is_blocked th1 then None else rest (e1\<lparr> yielder := True \<rparr>)) }))) }"

definition sleep :: "nat \<Rightarrow> nat \<Rightarrow> env \<Rightarrow> unit call option" where
  "sleep now duration e = yield_thread (Sleeping (now + duration)) e (\<lambda>e1. Some ((), e1))"

definition suspend_thread :: "nat \<Rightarrow> env \<Rightarrow> unit call option" where
  "suspend_thread t e = do {
     th \<leftarrow> thread_at t e;
     (case blocked_by th of
        Suspended n b \<Rightarrow> Some (Done () (set_block t (Suspended (n + 1) b) e))
      | b \<Rightarrow>
          (let new_state = Suspended 1 b
           in if t = current_thread e
              then yield_thread new_state (set_block t NotBlocked e) (\<lambda>e1. Some ((), e1))
              else Some (Done () (set_block t new_state e)))) }"

definition resume_thread :: "nat \<Rightarrow> env \<Rightarrow> env option" where
  "resume_thread t e = do {
     th \<leftarrow> thread_at t e;
     (case blocked_by th of
        Suspended n b \<Rightarrow>
          (if n = 0 then None
           else if 1 < n then Some (set_block t (Suspended (n - 1) b) e)
           else Some (set_block t b e))
      | b \<Rightarrow> Some (set_block t b e)) }"

definition block_on_mutex :: "nat \<Rightarrow> env \<Rightarrow> (env \<Rightarrow> ('r \<times> env) option) \<Rightarrow> 'r call option" where
  "block_on_mutex mutex_id e rest = yield_thread (Mutex mutex_id) e rest"

definition join_with_thread ::
    "nat \<Rightarrow> nat \<Rightarrow> env \<Rightarrow> (env \<Rightarrow> ('r \<times> env) option) \<Rightarrow> 'r call option" where
  "join_with_thread joinee ptr e rest = yield_thread (Joining joinee ptr) e rest"

text \<open>
  \<open>new_thread\<close> up to the creation of the host coroutine: the guest stack is a heap block.
\<close>

definition new_thread :: "nat \<Rightarrow> env \<Rightarrow> (nat \<times> env) option" where
  "new_thread stack_size e = do {
     (stack_alloc, m) \<leftarrow> mem_alloc stack_size (e_mem e);
     let stack_high_addr = wadd32 stack_alloc stack_size;
     (if stack_high_addr mod 4 \<noteq> 0 then None
      else Some (length (threads e),
             e\<lparr> e_mem := m,
                threads := threads e @ [\<lparr> active = True, blocked_by = NotBlocked, return_value = None,
                  stack = Some (stack_alloc, wsub32 stack_high_addr 1) \<rparr>] \<rparr>)) }"

text \<open>The end of a thread's coroutine: what the closure in \<open>new_thread\<close> does after its guest code.\<close>

definition finish_thread :: "nat \<Rightarrow> env \<Rightarrow> env option" where
  "finish_thread value e = do {
     th \<leftarrow> thread_at (current_thread e) e;
     Some (e\<lparr> threads := (threads e)[current_thread e :=
                th\<lparr> return_value := Some value, active := False \<rparr>] \<rparr>) }"

section \<open>Facts about blocks\<close>

lemma set_block_simps [simp]:
  "length (threads (set_block t b e)) = length (threads e)"
  "current_thread (set_block t b e) = current_thread e"
  "yielder (set_block t b e) = yielder e"
  "mutexes (set_block t b e) = mutexes e"
  "mutex_count (set_block t b e) = mutex_count e"
  "e_mem (set_block t b e) = e_mem e"
  "condition_variables (set_block t b e) = condition_variables e"
  "sem_cells (set_block t b e) = sem_cells e"
  "open_semaphores (set_block t b e) = open_semaphores e"
  "named_semaphores (set_block t b e) = named_semaphores e"
  "keys (set_block t b e) = keys e"
  "errnos (set_block t b e) = errnos e"
  "host_threads (set_block t b e) = host_threads e"
  "sync_mutexes (set_block t b e) = sync_mutexes e"
  by (simp_all add: set_block_def)

lemma block_of_set_block:
  "t < length (threads e) \<Longrightarrow> block_of u (set_block t b e) = (if u = t then b else block_of u e)"
  by (simp add: block_of_def set_block_def nth_list_update)

lemma active_set_block [simp]:
  "active (threads (set_block t b e) ! u) = active (threads e ! u)"
  by (cases "t < length (threads e)"; cases "u = t")
     (simp_all add: set_block_def list_update_beyond nth_list_update)

lemma return_value_set_block [simp]:
  "return_value (threads (set_block t b e) ! u) = return_value (threads e ! u)"
  by (cases "t < length (threads e)"; cases "u = t")
     (simp_all add: set_block_def list_update_beyond nth_list_update)

lemma set_block_self:
  "set_block t (block_of t e) e = e"
  by (simp add: set_block_def block_of_def)

lemma set_block_twice [simp]: "set_block t a (set_block t b e) = set_block t a e"
  by (cases "t < length (threads e)") (simp_all add: set_block_def list_update_beyond)

text \<open>Suspension nests: as many resumes as suspends give the thread its block back.\<close>

lemma suspend_other:
  assumes "t < length (threads e)" "t \<noteq> current_thread e"
  shows "suspend_thread t e =
    Some (Done () (set_block t (case block_of t e of
       Suspended n b \<Rightarrow> Suspended (n + 1) b | b \<Rightarrow> Suspended 1 b) e))"
  using assms by (cases "block_of t e") (simp_all add: suspend_thread_def thread_at_def block_of_def)

lemma resume_after_suspend:
  assumes "t < length (threads e)" "t \<noteq> current_thread e"
    and counted: "\<forall>n b. block_of t e = Suspended n b \<longrightarrow> 0 < n"
    and "suspend_thread t e = Some (Done () e1)"
  shows "resume_thread t e1 = Some e"
proof -
  define b1 where "b1 = (case block_of t e of Suspended n b \<Rightarrow> Suspended (n + 1) b | b \<Rightarrow> Suspended 1 b)"
  have e1: "e1 = set_block t b1 e"
    using assms(4) suspend_other [OF assms(1,2)] by (simp add: b1_def)
  have at: "thread_at t e1 = Some (threads e1 ! t)" "blocked_by (threads e1 ! t) = b1"
    using assms(1) by (simp_all add: e1 thread_at_def block_of_def [symmetric] block_of_set_block)
  have undo: "set_block t (block_of t e) e1 = e"
    by (simp add: e1 set_block_self)
  show ?thesis
    using counted undo unfolding resume_thread_def at(1) bind.bind_lunit at(2) b1_def
    by (cases "block_of t e") simp_all
qed

end
