(* ===== verification/Mutexes.thy ===== *)
theory Mutexes
  imports Environment
begin

text \<open>
  The host-side mutexes of \<open>src/environment/mutex.rs\<close>: a table of mutexes with owner,
  lock depth and number of blocked threads, on which the guest's pthread mutexes, its
  read-write locks and \<open>@synchronized\<close> blocks are built.  A failing operation returns an
  errno (\<open>Inl\<close>), a succeeding one the lock depth (\<open>Inr\<close>).
\<close>

section \<open>Error numbers\<close>

definition EPERM :: int where "EPERM = 1"
definition ENOENT :: int where "ENOENT = 2"
definition ESRCH :: int where "ESRCH = 3"
definition EDEADLK :: int where "EDEADLK = 11"
definition EBUSY :: int where "EBUSY = 16"
definition EEXIST :: int where "EEXIST = 17"
definition EINVAL :: int where "EINVAL = 22"
definition EAGAIN :: int where "EAGAIN = 35"
definition ETIMEDOUT :: int where "ETIMEDOUT = 60"

lemmas errno_defs = EPERM_def ENOENT_def ESRCH_def EDEADLK_def EBUSY_def EEXIST_def EINVAL_def
  EAGAIN_def ETIMEDOUT_def

section \<open>The mutex table\<close>

definition mutex_type_of :: "int \<Rightarrow> mutex_type option" where
  "mutex_type_of v =
     (if v = 0 then Some PTHREAD_MUTEX_NORMAL
      else if v = 1 then Some PTHREAD_MUTEX_ERRORCHECK
      else if v = 2 then Some PTHREAD_MUTEX_RECURSIVE
      else None)"

definition put_mutex :: "nat \<Rightarrow> mutex \<Rightarrow> env \<Rightarrow> env" where
  "put_mutex mid x e = e\<lparr> mutexes := (mutexes e)(mid \<mapsto> x) \<rparr>"

definition init_mutex :: "mutex_type \<Rightarrow> env \<Rightarrow> (nat \<times> env) option" where
  "init_mutex kind e =
     (let mid = mutex_count e
      in if 18446744073709551616 \<le> mutex_count e + 1 then None
         else Some (mid, put_mutex mid \<lparr> mutex_kind = kind, waiting_count = 0, locked = None \<rparr>
                          (e\<lparr> mutex_count := mutex_count e + 1 \<rparr>)))"

definition destroy_mutex :: "nat \<Rightarrow> env \<Rightarrow> ((int + unit) \<times> env) option" where
  "destroy_mutex mid e = do {
     x \<leftarrow> mutexes e mid;
     (if locked x \<noteq> None then Some (Inl EBUSY, e)
      else if waiting_count x \<noteq> 0 then Some (Inl EBUSY, e)
      else Some (Inr (), e\<lparr> mutexes := (mutexes e)(mid := None) \<rparr>)) }"

definition mutex_is_locked :: "nat \<Rightarrow> env \<Rightarrow> bool" where
  "mutex_is_locked mid e = (case mutexes e mid of None \<Rightarrow> False | Some x \<Rightarrow> locked x \<noteq> None)"

definition mutex_is_recursive :: "nat \<Rightarrow> env \<Rightarrow> bool" where
  "mutex_is_recursive mid e =
     (case mutexes e mid of None \<Rightarrow> False | Some x \<Rightarrow> mutex_kind x = PTHREAD_MUTEX_RECURSIVE)"

definition mutex_is_locked_by :: "nat \<Rightarrow> nat \<Rightarrow> env \<Rightarrow> bool" where
  "mutex_is_locked_by mid t e =
     (case mutexes e mid of None \<Rightarrow> False
      | Some x \<Rightarrow> (case locked x of None \<Rightarrow> False | Some (owner, _) \<Rightarrow> owner = t))"

section \<open>Locking\<close>

definition relock_unblocked_mutex_for_thread :: "nat \<Rightarrow> nat \<Rightarrow> env \<Rightarrow> env option" where
  "relock_unblocked_mutex_for_thread t mid e = do {
     x \<leftarrow> mutexes e mid;
     (if locked x \<noteq> None then None
      else Some (put_mutex mid
             (x\<lparr> locked := Some (t, 1),
                 waiting_count :=
                   (if 0 < waiting_count x then waiting_count x - 1 else waiting_count x) \<rparr>) e)) }"

definition lock_mutex :: "nat \<Rightarrow> env \<Rightarrow> (int + nat) call option" where
  "lock_mutex mid e = do {
     x \<leftarrow> mutexes e mid;
     (case locked x of
        None \<Rightarrow> Some (Done (Inr 1) (put_mutex mid (x\<lparr> locked := Some (current_thread e, 1) \<rparr>) e))
      | Some (owner, lock_count) \<Rightarrow>
          (if owner = current_thread e then
             (case mutex_kind x of
                PTHREAD_MUTEX_NORMAL \<Rightarrow> Some (Done (Inl EDEADLK) e)
              | PTHREAD_MUTEX_ERRORCHECK \<Rightarrow> Some (Done (Inl EDEADLK) e)
              | PTHREAD_MUTEX_RECURSIVE \<Rightarrow>
                  (if 4294967296 \<le> lock_count + 1 then None
                   else Some (Done (Inr (lock_count + 1))
                          (put_mutex mid (x\<lparr> locked := Some (owner, lock_count + 1) \<rparr>) e))))
           else
             block_on_mutex mid
               (put_mutex mid (x\<lparr> waiting_count := wadd32 (waiting_count x) 1 \<rparr>) e)
               (\<lambda>e1. Some (Inr 1, e1)))) }"

definition unlock_mutex :: "nat \<Rightarrow> env \<Rightarrow> ((int + nat) \<times> env) option" where
  "unlock_mutex mid e = do {
     x \<leftarrow> mutexes e mid;
     (case locked x of
        None \<Rightarrow> Some (Inl EPERM, e)
      | Some (owner, lock_count) \<Rightarrow>
          (if owner \<noteq> current_thread e \<and> mutex_kind x \<noteq> PTHREAD_MUTEX_NORMAL
           then Some (Inl EPERM, e)
           else if lock_count = 1
           then Some (Inr 0, put_mutex mid (x\<lparr> locked := None \<rparr>) e)
           else if mutex_kind x \<noteq> PTHREAD_MUTEX_RECURSIVE \<or> lock_count - 1 = 0 then None
           else Some (Inr (lock_count - 1),
                  put_mutex mid (x\<lparr> locked := Some (owner, lock_count - 1) \<rparr>) e))) }"

section \<open>Facts\<close>

lemma put_mutex_simps [simp]:
  "mutexes (put_mutex mid x e) = (mutexes e)(mid \<mapsto> x)"
  "threads (put_mutex mid x e) = threads e"
  "current_thread (put_mutex mid x e) = current_thread e"
  "yielder (put_mutex mid x e) = yielder e"
  "mutex_count (put_mutex mid x e) = mutex_count e"
  "e_mem (put_mutex mid x e) = e_mem e"
  "condition_variables (put_mutex mid x e) = condition_variables e"
  "sem_cells (put_mutex mid x e) = sem_cells e"
  "open_semaphores (put_mutex mid x e) = open_semaphores e"
  "block_of t (put_mutex mid x e) = block_of t e"
  "thread_at t (put_mutex mid x e) = thread_at t e"
  by (simp_all add: put_mutex_def block_of_def thread_at_def)

text \<open>
  A mutex is well-formed if its depth is positive, and above one only for a recursive mutex; no
  mutex carries an identifier that has not been handed out.
\<close>

definition mutex_ok :: "mutex \<Rightarrow> bool" where
  "mutex_ok x = (case locked x of None \<Rightarrow> True
     | Some (_, n) \<Rightarrow> 0 < n \<and> n < 4294967296 \<and> (1 < n \<longrightarrow> mutex_kind x = PTHREAD_MUTEX_RECURSIVE))"

lemma mutex_ok_waiting [simp]: "mutex_ok (x\<lparr> waiting_count := n \<rparr>) = mutex_ok x"
  by (auto simp: mutex_ok_def split: option.splits)

definition mutexes_ok :: "env \<Rightarrow> bool" where
  "mutexes_ok e = ((\<forall>mid x. mutexes e mid = Some x \<longrightarrow> mutex_ok x \<and> mid < mutex_count e))"

lemma mutexes_okD: "mutexes_ok e \<Longrightarrow> mutexes e mid = Some x \<Longrightarrow> mutex_ok x \<and> mid < mutex_count e"
  by (simp add: mutexes_ok_def)

lemma mutexes_ok_put:
  assumes "mutexes_ok e" "mutexes e mid = Some x" "mutex_ok y"
  shows "mutexes_ok (put_mutex mid y e)"
  using assms by (simp add: mutexes_ok_def)

lemma unlock_total:
  assumes "mutexes_ok e" "mutexes e mid = Some x"
  shows "\<exists>r e1. unlock_mutex mid e = Some (r, e1) \<and> mutexes_ok e1"
proof -
  have ok: "mutex_ok x" using mutexes_okD assms by blast
  consider "locked x = None" | owner n where "locked x = Some (owner, n)"
    by (cases "locked x") auto
  then show ?thesis
  proof cases
    case 1
    with assms show ?thesis by (simp add: unlock_mutex_def)
  next
    case (2 owner n)
    then have "mutex_ok (x\<lparr>locked := None\<rparr>)" "n \<noteq> 1 \<Longrightarrow> mutex_ok (x\<lparr>locked := Some (owner, n - 1)\<rparr>)"
      using ok by (auto simp: mutex_ok_def)
    then show ?thesis using assms 2 ok mutexes_ok_put [OF assms]
      by (auto simp: unlock_mutex_def mutex_ok_def)
  qed
qed

text \<open>
  Releasing what was just acquired restores the table: \<open>lock\<close> then \<open>unlock\<close> by the same thread.
\<close>

lemma lock_unlock_inverse:
  assumes ok: "mutexes_ok e" and y: "yielder e"
    and lock: "lock_mutex mid e = Some (Done (Inr n) e1)"
  shows "unlock_mutex mid e1 = Some (Inr (n - 1), e)"
proof -
  obtain x where x: "mutexes e mid = Some x"
    using lock by (cases "mutexes e mid") (simp_all add: lock_mutex_def)
  have okx: "mutex_ok x" using mutexes_okD [OF ok x] by simp
  have restore: "put_mutex mid x (put_mutex mid y e) = e" for y
    using x by (simp add: put_mutex_def fun_upd_idem)
  consider "locked x = None" | k where "locked x = Some (current_thread e, k)"
    | u k where "locked x = Some (u, k)" "u \<noteq> current_thread e"
    by (cases "locked x") auto
  then show ?thesis
  proof cases
    case 1
    then have e1: "n = 1" "e1 = put_mutex mid (x\<lparr>locked := Some (current_thread e, 1)\<rparr>) e"
      using lock x by (auto simp: lock_mutex_def)
    have "x\<lparr>locked := None\<rparr> = x" using 1 by (cases x) simp
    then show ?thesis using e1 restore by (simp add: unlock_mutex_def)
  next
    case (2 k)
    then have e1: "mutex_kind x = PTHREAD_MUTEX_RECURSIVE" "n = k + 1"
        "e1 = put_mutex mid (x\<lparr>locked := Some (current_thread e, k + 1)\<rparr>) e"
      using lock x by (auto simp: lock_mutex_def split: mutex_type.splits if_splits)
    have "x\<lparr>locked := Some (current_thread e, k)\<rparr> = x" "0 < k"
      using 2 okx by (cases x, simp, simp add: mutex_ok_def)
    then show ?thesis using e1 restore by (simp add: unlock_mutex_def)
  next
    case (3 u k)
    then show ?thesis using lock x y
      by (auto simp: lock_mutex_def block_on_mutex_def yield_thread_def bind_eq_Some_conv
               split: if_splits)
  qed
qed

end
