(* ===== verification/Scheduler.thy ===== *)
theory Scheduler
  imports Mutexes
begin

text \<open>
  \<open>schedule_next_thread\<close> of \<open>src/environment.rs\<close>: the round-robin scan for a thread whose
  block can be lifted, with the bookkeeping that lifting it needs (relocking a mutex, taking a
  semaphore, leaving a condition variable, storing the result of a join).

  A clock reading is a pair: the monotonic clock and the wall clock.  One pass of the scan takes
  the reading it makes at its \<open>i\<close>-th candidate from a function; the loop around the pass takes
  one such function per attempt, so that the length of the list is the number of attempts.
\<close>

section \<open>One candidate\<close>

datatype candidate = Picked env | Passed "nat option" env

definition earliest :: "nat option \<Rightarrow> nat \<Rightarrow> nat option" where
  "earliest next_awakening at =
     (case next_awakening of None \<Rightarrow> Some at | Some other \<Rightarrow> Some (min other at))"

definition put_cond :: "nat \<Rightarrow> cond_host_object \<Rightarrow> env \<Rightarrow> env" where
  "put_cond c h e = e\<lparr> condition_variables := (condition_variables e)(c \<mapsto> h) \<rparr>"

definition put_sem :: "nat \<Rightarrow> semaphore_host_object \<Rightarrow> env \<Rightarrow> env" where
  "put_sem i h e = e\<lparr> sem_cells := (sem_cells e)[i := h] \<rparr>"

text \<open>Waiting on a condition variable ends by a wake-up or by the deadline.\<close>

definition try_condition ::
    "nat \<Rightarrow> nat \<Rightarrow> nat \<Rightarrow> nat \<Rightarrow> nat option \<Rightarrow> nat option \<Rightarrow> env \<Rightarrow> candidate option" where
  "try_condition now wall t c deadline next_awakening e = do {
     h \<leftarrow> condition_variables e c;
     m \<leftarrow> curr_mutex h;
     (if waking h \<noteq> [] \<and> hd (waking h) = t \<and> \<not> mutex_is_locked m e then do {
        e1 \<leftarrow> relock_unblocked_mutex_for_thread t m
                (set_block t NotBlocked (put_cond c (h\<lparr> waking := tl (waking h) \<rparr>) e));
        Some (Picked e1) }
      else case deadline of
        None \<Rightarrow> Some (Passed next_awakening e)
      | Some d \<Rightarrow>
          (if d \<le> wall then
             (if t \<in> timed_out h then None
              else let e1 = put_cond c (h\<lparr> timed_out := insert t (timed_out h),
                              waking := filter (\<lambda>u. u \<noteq> t) (waking h),
                              waiting := filter (\<lambda>u. u \<noteq> t) (waiting h) \<rparr>) e
              in if mutex_is_locked m e
                 then Some (Passed next_awakening (set_block t (Mutex m) e1))
                 else do {
                   e2 \<leftarrow> relock_unblocked_mutex_for_thread t m (set_block t NotBlocked e1);
                   Some (Picked e2) })
           else Some (Passed (earliest next_awakening (now + (d - wall))) e))) }"

definition try_semaphore :: "nat \<Rightarrow> nat \<Rightarrow> nat option \<Rightarrow> env \<Rightarrow> candidate" where
  "try_semaphore t s next_awakening e =
     (case open_semaphores e s of
        None \<Rightarrow> Picked (set_block t NotBlocked e)
      | Some i \<Rightarrow>
          (let h = sem_cells e ! i
           in if 0 < sem_value h
              then Picked (set_block t NotBlocked
                     (put_sem i (h\<lparr> sem_value := sem_value h - 1,
                                     sem_waiting := sem_waiting h - {t} \<rparr>) e))
              else Passed next_awakening e))"

definition try_join :: "nat \<Rightarrow> nat \<Rightarrow> nat \<Rightarrow> nat option \<Rightarrow> env \<Rightarrow> candidate option" where
  "try_join t joinee ptr next_awakening e = do {
     th \<leftarrow> thread_at joinee e;
     (if active th then Some (Passed next_awakening e)
      else if ptr = 0 then Some (Picked (set_block t NotBlocked e))
      else do {
        v \<leftarrow> return_value th;
        m \<leftarrow> mem_write (e_mem e) ptr (to_le_bytes 4 v);
        Some (Picked (set_block t NotBlocked (e\<lparr> e_mem := m \<rparr>))) }) }"

definition try_candidate :: "nat \<Rightarrow> nat \<Rightarrow> nat \<Rightarrow> nat option \<Rightarrow> env \<Rightarrow> candidate option" where
  "try_candidate now wall t next_awakening e =
     (case block_of t e of
        Sleeping until \<Rightarrow>
          (if until \<le> now then Some (Picked (set_block t NotBlocked e))
           else Some (Passed (earliest next_awakening until) e))
      | Mutex m \<Rightarrow>
          (if \<not> mutex_is_locked m e then do {
             e1 \<leftarrow> relock_unblocked_mutex_for_thread t m (set_block t NotBlocked e);
             Some (Picked e1) }
           else Some (Passed next_awakening e))
      | Semaphore s \<Rightarrow> Some (try_semaphore t s next_awakening e)
      | Condition c deadline \<Rightarrow> try_condition now wall t c deadline next_awakening e
      | Joining joinee ptr \<Rightarrow> try_join t joinee ptr next_awakening e
      | NotBlocked \<Rightarrow> Some (Picked e)
      | WaitingForDebugger \<Rightarrow> None
      | Suspended n _ \<Rightarrow> (if n = 0 then None else Some (Passed next_awakening e)))"

section \<open>One pass\<close>

datatype pass = Run nat env | Idle "nat option" env

fun scan :: "(nat \<Rightarrow> nat \<times> nat) \<Rightarrow> nat list \<Rightarrow> nat option \<Rightarrow> env \<Rightarrow> pass option" where
  "scan clk [] next_awakening e = Some (Idle next_awakening e)"
| "scan clk (i # is) next_awakening e =
     (let t = (current_thread e + 1 + i) mod length (threads e)
      in if \<not> active (threads e ! t) then scan clk is next_awakening e
         else case try_candidate (fst (clk i)) (snd (clk i)) t next_awakening e of
                None \<Rightarrow> None
              | Some (Picked e1) \<Rightarrow> Some (Run t e1)
              | Some (Passed next1 e1) \<Rightarrow> scan clk is next1 e1)"

definition schedule_pass :: "(nat \<Rightarrow> nat \<times> nat) \<Rightarrow> env \<Rightarrow> pass option" where
  "schedule_pass clk e = scan clk [0..<length (threads e)] None e"

section \<open>The loop\<close>

text \<open>
  \<open>grace\<close> is the value of the static \<open>DEADLOCK_GRACE_COUNT\<close>.  \<open>StillWaiting\<close> means that
  every attempt slept and tried again.
\<close>

datatype schedule = Scheduled nat env nat | StillWaiting env nat

fun schedule_next_thread ::
    "(nat \<Rightarrow> nat \<times> nat) list \<Rightarrow> nat \<Rightarrow> env \<Rightarrow> schedule option" where
  "schedule_next_thread [] grace e = Some (StillWaiting e grace)"
| "schedule_next_thread (clk # clks) grace e =
     (case schedule_pass clk e of
        None \<Rightarrow> None
      | Some (Run t e1) \<Rightarrow> Some (Scheduled t e1 grace)
      | Some (Idle (Some _) e1) \<Rightarrow> schedule_next_thread clks grace e1
      | Some (Idle None e1) \<Rightarrow>
          (if grace < 3 then schedule_next_thread clks (wadd32 grace 1) e1 else None))"

text \<open>The executor's step: the scheduled thread becomes the current one.\<close>

definition switch_thread :: "nat \<Rightarrow> env \<Rightarrow> env option" where
  "switch_thread new e = do {
     th \<leftarrow> thread_at new e;
     (if new = current_thread e \<or> \<not> active th then None
      else Some (e\<lparr> current_thread := new \<rparr>)) }"

definition dispatch :: "nat \<Rightarrow> env \<Rightarrow> env option" where
  "dispatch next e = (if next \<noteq> current_thread e then switch_thread next e else Some e)"

section \<open>What a passed candidate leaves behind\<close>

lemma put_cond_simps [simp]:
  "threads (put_cond c h e) = threads e"
  "current_thread (put_cond c h e) = current_thread e"
  "yielder (put_cond c h e) = yielder e"
  "mutexes (put_cond c h e) = mutexes e"
  "mutex_count (put_cond c h e) = mutex_count e"
  "condition_variables (put_cond c h e) = (condition_variables e)(c \<mapsto> h)"
  "sem_cells (put_cond c h e) = sem_cells e"
  "open_semaphores (put_cond c h e) = open_semaphores e"
  "e_mem (put_cond c h e) = e_mem e"
  "block_of t (put_cond c h e) = block_of t e"
  "mutex_is_locked m (put_cond c h e) = mutex_is_locked m e"
  by (simp_all add: put_cond_def block_of_def mutex_is_locked_def)

lemma put_sem_simps [simp]:
  "threads (put_sem i g e) = threads e"
  "current_thread (put_sem i g e) = current_thread e"
  "yielder (put_sem i g e) = yielder e"
  "mutexes (put_sem i g e) = mutexes e"
  "mutex_count (put_sem i g e) = mutex_count e"
  "condition_variables (put_sem i g e) = condition_variables e"
  "sem_cells (put_sem i g e) = (sem_cells e)[i := g]"
  "open_semaphores (put_sem i g e) = open_semaphores e"
  "e_mem (put_sem i g e) = e_mem e"
  "block_of t (put_sem i g e) = block_of t e"
  "mutex_is_locked m (put_sem i g e) = mutex_is_locked m e"
  by (simp_all add: put_sem_def block_of_def mutex_is_locked_def)

lemma mutex_is_locked_set_block [simp]:
  "mutex_is_locked m (set_block t b e) = mutex_is_locked m e"
  by (simp add: mutex_is_locked_def)

text \<open>
  A candidate that is passed over keeps every resource as it is.  Only a condition variable
  whose deadline has come can change: the thread leaves its queues and waits for the mutex.
\<close>

definition passed_frame :: "nat \<Rightarrow> env \<Rightarrow> env \<Rightarrow> bool" where
  "passed_frame t e e1 =
     (current_thread e1 = current_thread e \<and> yielder e1 = yielder e
      \<and> length (threads e1) = length (threads e) \<and> mutexes e1 = mutexes e
      \<and> mutex_count e1 = mutex_count e \<and> sem_cells e1 = sem_cells e
      \<and> open_semaphores e1 = open_semaphores e \<and> e_mem e1 = e_mem e
      \<and> (\<forall>u. active (threads e1 ! u) = active (threads e ! u))
      \<and> (\<forall>u. u \<noteq> t \<longrightarrow> block_of u e1 = block_of u e))"

lemma passed_frame_refl [simp]: "passed_frame t e e"
  by (simp add: passed_frame_def)

lemma passed_frame_timeout:
  assumes "t < length (threads e)"
  shows "passed_frame t e (set_block t b (put_cond c h e))"
  using assms by (simp add: passed_frame_def block_of_set_block)

lemma try_condition_passed:
  assumes "try_condition now wall t c deadline na e = Some (Passed na1 e1)" "t < length (threads e)"
  shows "(e1 = e \<and> (case deadline of None \<Rightarrow> na1 = na | Some d \<Rightarrow> na1 = earliest na (now + (d - wall)))) \<or>
         (\<exists>d h m. deadline = Some d \<and> na1 = na \<and> condition_variables e c = Some h
            \<and> curr_mutex h = Some m \<and> mutex_is_locked m e
            \<and> e1 = set_block t (Mutex m) (put_cond c (h\<lparr> timed_out := insert t (timed_out h),
                              waking := filter (\<lambda>u. u \<noteq> t) (waking h),
                              waiting := filter (\<lambda>u. u \<noteq> t) (waiting h) \<rparr>) e))"
proof -
  obtain h m where hm: "condition_variables e c = Some h" "curr_mutex h = Some m"
    using assms(1) by (auto simp: try_condition_def bind_eq_Some_conv)
  show ?thesis
    using assms(1) hm
    by (cases deadline) (auto simp: try_condition_def bind_eq_Some_conv Let_def split: if_splits)
qed

lemma try_candidate_passed_frame:
  assumes t: "t < length (threads e)" and passed: "try_candidate now wall t na e = Some (Passed na1 e1)"
  shows "passed_frame t e e1"
proof (cases "block_of t e")
  case (Condition c deadline)
  with passed have "try_condition now wall t c deadline na e = Some (Passed na1 e1)"
    by (simp add: try_candidate_def)
  from try_condition_passed [OF this t] show ?thesis
    using passed_frame_timeout [OF t] by auto
qed (use passed in \<open>auto simp: try_candidate_def try_semaphore_def try_join_def bind_eq_Some_conv
       Let_def split: if_splits option.splits\<close>)

end
