(* ===== verification/Scheduler_Facts.thy ===== *)
theory Scheduler_Facts
  imports Scheduler
begin

text \<open>
  What one pass of the scheduler guarantees: who is picked and what it is granted, that a
  runnable thread comes closer with every dispatch, and that an idle pass means that every
  thread waits for something nobody has provided.
\<close>

section \<open>Relocking\<close>

lemma relock_spec:
  "relock_unblocked_mutex_for_thread t m e = Some e1 \<longleftrightarrow>
     (\<exists>x. mutexes e m = Some x \<and> locked x = None \<and>
        e1 = put_mutex m (x\<lparr> locked := Some (t, 1),
               waiting_count := (if 0 < waiting_count x then waiting_count x - 1 else waiting_count x) \<rparr>) e)"
proof (cases "mutexes e m")
  case (Some x)
  then show ?thesis
    by (cases "locked x") (auto simp: relock_unblocked_mutex_for_thread_def)
qed (simp add: relock_unblocked_mutex_for_thread_def)

lemma relock_frame:
  assumes "relock_unblocked_mutex_for_thread t m e = Some e1"
  shows "threads e1 = threads e" "current_thread e1 = current_thread e" "yielder e1 = yielder e"
    "mutex_count e1 = mutex_count e" "sem_cells e1 = sem_cells e" "block_of u e1 = block_of u e"
    "condition_variables e1 = condition_variables e" "open_semaphores e1 = open_semaphores e"
    "mutex_is_locked_by m t e1"
  using assms by (auto simp: relock_spec mutex_is_locked_by_def)

section \<open>The picked thread\<close>

lemma try_condition_picked:
  assumes "try_condition now wall t c deadline na e = Some (Picked e1)"
  shows "\<exists>h m h1. condition_variables e c = Some h \<and> curr_mutex h = Some m \<and>
           relock_unblocked_mutex_for_thread t m (set_block t NotBlocked (put_cond c h1 e)) = Some e1 \<and>
           (waking h \<noteq> [] \<and> hd (waking h) = t \<and> h1 = h\<lparr> waking := tl (waking h) \<rparr> \<or>
            (\<exists>d. deadline = Some d \<and> d \<le> wall \<and> h1 = h\<lparr> timed_out := insert t (timed_out h),
                              waking := filter (\<lambda>u. u \<noteq> t) (waking h),
                              waiting := filter (\<lambda>u. u \<noteq> t) (waiting h) \<rparr>))"
proof -
  obtain h m where hm: "condition_variables e c = Some h" "curr_mutex h = Some m"
    using assms by (auto simp: try_condition_def bind_eq_Some_conv)
  show ?thesis
    using assms hm
    by (cases deadline) (auto simp: try_condition_def bind_eq_Some_conv Let_def split: if_splits)
qed

definition picked_frame :: "nat \<Rightarrow> env \<Rightarrow> env \<Rightarrow> bool" where
  "picked_frame t e e1 =
     (current_thread e1 = current_thread e \<and> yielder e1 = yielder e
      \<and> length (threads e1) = length (threads e)
      \<and> (\<forall>u. active (threads e1 ! u) = active (threads e ! u))
      \<and> block_of t e1 = NotBlocked
      \<and> (\<forall>u. u \<noteq> t \<longrightarrow> block_of u e1 = block_of u e))"

lemma picked_frame_relock:
  assumes "t < length (threads e)"
    and "relock_unblocked_mutex_for_thread t m (set_block t NotBlocked (put_cond c h e)) = Some e1"
  shows "picked_frame t e e1"
proof -
  note f = relock_frame [OF assms(2)]
  have "active (threads e1 ! u) = active (threads e ! u)" for u
    unfolding f(1) by simp
  then show ?thesis using assms(1) f by (simp add: picked_frame_def block_of_set_block)
qed

lemma try_candidate_picked_frame:
  assumes t: "t < length (threads e)" and picked: "try_candidate now wall t na e = Some (Picked e1)"
  shows "picked_frame t e e1"
proof (cases "block_of t e")
  case (Condition c deadline)
  with picked have "try_condition now wall t c deadline na e = Some (Picked e1)"
    by (simp add: try_candidate_def)
  from try_condition_picked [OF this] show ?thesis
    using picked_frame_relock [OF t] by blast
next
  case (Mutex m)
  with picked have *: "relock_unblocked_mutex_for_thread t m (set_block t NotBlocked e) = Some e1"
    by (auto simp: try_candidate_def bind_eq_Some_conv split: if_splits)
  note f = relock_frame [OF this]
  have "active (threads e1 ! u) = active (threads e ! u)" for u
    unfolding f(1) by simp
  then show ?thesis using t f by (simp add: picked_frame_def block_of_set_block)
next
  case (Joining j ptr)
  with picked have *: "e1 = set_block t NotBlocked e \<or>
      (\<exists>mm. e1 = set_block t NotBlocked (e\<lparr> e_mem := mm \<rparr>))"
    by (auto simp: try_candidate_def try_join_def bind_eq_Some_conv split: if_splits)
  have "block_of u (e\<lparr> e_mem := mm \<rparr>) = block_of u e" for u mm by (simp add: block_of_def)
  with * t show ?thesis by (auto simp: picked_frame_def block_of_set_block)
next
  case NotBlocked
  with picked show ?thesis by (auto simp: try_candidate_def picked_frame_def)
qed (use picked t in \<open>auto simp: try_candidate_def try_semaphore_def picked_frame_def
       block_of_set_block Let_def split: if_splits option.splits\<close>)

section \<open>The scan\<close>

text \<open>The candidate that the scan looks at in step \<open>i\<close>.\<close>

definition cand :: "env \<Rightarrow> nat \<Rightarrow> nat" where
  "cand e i = (current_thread e + 1 + i) mod length (threads e)"

lemma cand_bound: "threads e \<noteq> [] \<Longrightarrow> cand e i < length (threads e)"
  by (simp add: cand_def)

lemma cand_frame: "passed_frame t e e1 \<Longrightarrow> cand e1 = cand e"
  by (simp add: cand_def passed_frame_def fun_eq_iff)

lemma mod_shift_inj:
  assumes "i \<le> j" "j < n" "(a + i) mod n = (a + j) mod (n :: nat)"
  shows "i = j"
proof -
  have "n dvd (a + j) - (a + i)"
    using assms(1,3) mod_eq_dvd_iff_nat [of "a + i" "a + j" n] by simp
  then have "n dvd j - i" by simp
  then show ?thesis using assms(1,2) by (auto dest: dvd_imp_le)
qed

lemma cand_eqD:
  assumes "i < length (threads e)" "j < length (threads e)" "cand e i = cand e j"
  shows "i = j"
  using assms mod_shift_inj [of i j "length (threads e)" "current_thread e + 1"]
    mod_shift_inj [of j i "length (threads e)" "current_thread e + 1"]
  unfolding cand_def by (metis nat_le_linear)

lemma scan_step:
  "scan clk (i # is) na e =
     (if \<not> active (threads e ! cand e i) then scan clk is na e
      else case try_candidate (fst (clk i)) (snd (clk i)) (cand e i) na e of
             None \<Rightarrow> None
           | Some (Picked e1) \<Rightarrow> Some (Run (cand e i) e1)
           | Some (Passed next1 e1) \<Rightarrow> scan clk is next1 e1)"
  by (simp only: scan.simps(2) cand_def Let_def)

declare scan.simps(2) [simp del]

text \<open>
  Splitting a successful scan at the candidate it picked: every earlier active candidate was
  passed over.
\<close>

inductive passed_over :: "(nat \<Rightarrow> nat \<times> nat) \<Rightarrow> nat list \<Rightarrow> nat option \<Rightarrow> env \<Rightarrow> nat option \<Rightarrow> env \<Rightarrow> bool"
  for clk where
  none: "passed_over clk [] na e na e"
| inactive: "\<not> active (threads e ! cand e i) \<Longrightarrow> passed_over clk is na e na1 e1
     \<Longrightarrow> passed_over clk (i # is) na e na1 e1"
| passed: "active (threads e ! cand e i) \<Longrightarrow>
     try_candidate (fst (clk i)) (snd (clk i)) (cand e i) na e = Some (Passed na2 e2) \<Longrightarrow>
     passed_over clk is na2 e2 na1 e1 \<Longrightarrow> passed_over clk (i # is) na e na1 e1"

inductive_cases passed_over_nilE: "passed_over clk [] na e na1 e1"
inductive_cases passed_over_consE: "passed_over clk (i # is) na e na1 e1"

lemma scan_run:
  assumes "scan clk is na e = Some (Run t e1)"
  shows "\<exists>before i after na2 e2. is = before @ i # after \<and> passed_over clk before na e na2 e2 \<and>
           active (threads e2 ! cand e2 i) \<and> t = cand e2 i \<and>
           try_candidate (fst (clk i)) (snd (clk i)) t na2 e2 = Some (Picked e1)"
  using assms
proof (induction "is" arbitrary: na e)
  case Nil
  then show ?case by simp
next
  case (Cons i "is")
  show ?case
  proof (cases "active (threads e ! cand e i)")
    case False
    with Cons.prems have "scan clk is na e = Some (Run t e1)" by (simp add: scan_step)
    from Cons.IH [OF this] obtain before j after na2 e2 where
      "is = before @ j # after" "passed_over clk before na e na2 e2"
      "active (threads e2 ! cand e2 j)" "t = cand e2 j"
      "try_candidate (fst (clk j)) (snd (clk j)) t na2 e2 = Some (Picked e1)" by blast
    moreover have "passed_over clk (i # before) na e na2 e2"
      using passed_over.inactive [OF False] calculation(2) by blast
    ultimately show ?thesis by (metis append_Cons)
  next
    case True
    with Cons.prems consider
        "try_candidate (fst (clk i)) (snd (clk i)) (cand e i) na e = Some (Picked e1)" "t = cand e i"
      | na3 e3 where "try_candidate (fst (clk i)) (snd (clk i)) (cand e i) na e = Some (Passed na3 e3)"
          "scan clk is na3 e3 = Some (Run t e1)"
      by (auto simp: scan_step split: option.splits candidate.splits)
    then show ?thesis
    proof cases
      case 1
      with True passed_over.none [of clk na e] show ?thesis
        by (intro exI [of _ "[]"]) auto
    next
      case (2 na3 e3)
      from Cons.IH [OF 2(2)] obtain before j after na2 e2 where
        "is = before @ j # after" "passed_over clk before na3 e3 na2 e2"
        "active (threads e2 ! cand e2 j)" "t = cand e2 j"
        "try_candidate (fst (clk j)) (snd (clk j)) t na2 e2 = Some (Picked e1)" by blast
      moreover have "passed_over clk (i # before) na e na2 e2"
        by (rule passed_over.passed, rule True, rule 2(1), rule calculation(2))
      ultimately show ?thesis by (metis append_Cons)
    qed
  qed
qed

lemma scan_idle:
  assumes "scan clk is na e = Some (Idle na1 e1)"
  shows "passed_over clk is na e na1 e1"
  using assms
proof (induction "is" arbitrary: na e)
  case (Cons i "is")
  then show ?case
    by (auto simp: scan_step intro: passed_over.intros split: if_splits option.splits candidate.splits)
qed (auto intro: passed_over.none)

section \<open>What a whole scan keeps\<close>

text \<open>The only change of a thread that is passed over: a timed wait that has become a wait for the mutex.\<close>

definition gave_up :: "nat \<Rightarrow> env \<Rightarrow> env \<Rightarrow> bool" where
  "gave_up u e e1 =
     (\<exists>c d m. block_of u e = Condition c (Some d) \<and> block_of u e1 = Mutex m \<and> mutex_is_locked m e)"

definition scan_frame :: "nat set \<Rightarrow> env \<Rightarrow> env \<Rightarrow> bool" where
  "scan_frame T e e1 =
     (current_thread e1 = current_thread e \<and> yielder e1 = yielder e
      \<and> length (threads e1) = length (threads e) \<and> mutexes e1 = mutexes e
      \<and> mutex_count e1 = mutex_count e \<and> sem_cells e1 = sem_cells e
      \<and> open_semaphores e1 = open_semaphores e \<and> e_mem e1 = e_mem e
      \<and> (\<forall>u. active (threads e1 ! u) = active (threads e ! u))
      \<and> (\<forall>u. u \<notin> T \<longrightarrow> block_of u e1 = block_of u e)
      \<and> (\<forall>u. block_of u e1 = block_of u e \<or> gave_up u e e1))"

lemma scan_frame_locked: "scan_frame T e e1 \<Longrightarrow> mutex_is_locked m e1 = mutex_is_locked m e"
  by (simp add: scan_frame_def mutex_is_locked_def)

lemma scan_frame_cand: "scan_frame T e e1 \<Longrightarrow> cand e1 = cand e"
  by (simp add: scan_frame_def cand_def fun_eq_iff)

lemma try_candidate_scan_frame:
  assumes t: "t < length (threads e)" and passed: "try_candidate now wall t na e = Some (Passed na1 e1)"
  shows "scan_frame {t} e e1"
proof -
  have f: "passed_frame t e e1" by (rule try_candidate_passed_frame [OF t passed])
  have "block_of t e1 = block_of t e \<or> gave_up t e e1"
  proof (cases "block_of t e")
    case (Condition c deadline)
    with passed have "try_condition now wall t c deadline na e = Some (Passed na1 e1)"
      by (simp add: try_candidate_def)
    from try_condition_passed [OF this t] show ?thesis
      using Condition t by (auto simp: gave_up_def block_of_set_block)
  qed (use passed in \<open>auto simp: try_candidate_def try_semaphore_def try_join_def bind_eq_Some_conv
       Let_def split: if_splits option.splits\<close>)
  then have "block_of u e1 = block_of u e \<or> gave_up u e e1" for u
    using f by (cases "u = t") (simp_all add: passed_frame_def)
  then show ?thesis using f unfolding scan_frame_def passed_frame_def by simp
qed

lemma scan_frame_trans:
  assumes "scan_frame T e e1" "scan_frame U e1 e2" "T \<inter> U = {}"
  shows "scan_frame (T \<union> U) e e2"
proof -
  have "block_of u e2 = block_of u e \<or> gave_up u e e2" for u
  proof (cases "u \<in> T")
    case True
    then have "block_of u e2 = block_of u e1" using assms(2,3) unfolding scan_frame_def by blast
    moreover have "block_of u e1 = block_of u e \<or> gave_up u e e1"
      using assms(1) unfolding scan_frame_def by blast
    ultimately show ?thesis unfolding gave_up_def by metis
  next
    case False
    then have "block_of u e1 = block_of u e" using assms(1) unfolding scan_frame_def by blast
    moreover have "block_of u e2 = block_of u e1 \<or> gave_up u e1 e2"
      using assms(2) unfolding scan_frame_def by blast
    ultimately show ?thesis
      using scan_frame_locked [OF assms(1)] unfolding gave_up_def by metis
  qed
  moreover have "block_of u e2 = block_of u e" if "u \<notin> T \<union> U" for u
    using assms(1,2) that unfolding scan_frame_def by (metis Un_iff)
  ultimately show ?thesis using assms(1,2) unfolding scan_frame_def by simp
qed

lemma scan_frame_mono: "scan_frame T e e1 \<Longrightarrow> T \<subseteq> U \<Longrightarrow> scan_frame U e e1"
  unfolding scan_frame_def by blast

lemma passed_over_frame:
  assumes "passed_over clk is na e na1 e1" "distinct is" "\<forall>i \<in> set is. i < length (threads e)"
  shows "scan_frame (cand e ` set is) e e1"
  using assms
proof (induction rule: passed_over.induct)
  case (none na e)
  then show ?case by (simp add: scan_frame_def)
next
  case (inactive e i "is" na na1 e1)
  then have "scan_frame (cand e ` set is) e e1" by simp
  then show ?case by (rule scan_frame_mono) auto
next
  case (passed e i na na2 e2 "is" na1 e1)
  have "cand e i < length (threads e)" using passed.prems(2) by (auto intro: cand_bound)
  then have first: "scan_frame {cand e i} e e2"
    using passed.hyps(2) by (rule try_candidate_scan_frame)
  then have len: "length (threads e2) = length (threads e)" by (simp add: scan_frame_def)
  have "scan_frame (cand e2 ` set is) e2 e1" using passed.IH passed.prems len by simp
  then have rest: "scan_frame (cand e ` set is) e2 e1" using scan_frame_cand [OF first] by simp
  have "cand e i \<notin> cand e ` set is"
  proof
    assume "cand e i \<in> cand e ` set is"
    then obtain j where j: "j \<in> set is" "cand e i = cand e j" by blast
    then have "i = j" using cand_eqD [of i e j] passed.prems(2) by simp
    then show False using j passed.prems(1) by simp
  qed
  then show ?case using scan_frame_trans [OF first rest] by simp
qed

section \<open>One pass\<close>

lemma upt_split_cons:
  assumes "[0..<n] = before @ i # after"
  shows "before = [0..<i]" "i < n"
proof -
  have "length before < n" using arg_cong [OF assms, of length] by simp
  moreover have "[0..<n] ! length before = i" using assms by (metis nth_append_length)
  ultimately have i: "i = length before" by simp
  then have "before = take i [0..<n]" using assms by (metis append_eq_conv_conj)
  then show "before = [0..<i]" "i < n" using i \<open>length before < n\<close> by (simp_all add: take_upt)
qed

lemma pass_run:
  assumes "schedule_pass clk e = Some (Run t e1)"
  obtains i na2 e2 where "i < length (threads e)" "t = cand e i" "t < length (threads e)"
    "active (threads e ! t)" "scan_frame (cand e ` {..<i}) e e2" "block_of t e2 = block_of t e"
    "passed_over clk [0..<i] None e na2 e2"
    "try_candidate (fst (clk i)) (snd (clk i)) t na2 e2 = Some (Picked e1)"
proof -
  obtain before i after na2 e2 where *: "[0..<length (threads e)] = before @ i # after"
    "passed_over clk before None e na2 e2" "active (threads e2 ! cand e2 i)" "t = cand e2 i"
    "try_candidate (fst (clk i)) (snd (clk i)) t na2 e2 = Some (Picked e1)"
    using scan_run [OF assms [unfolded schedule_pass_def]] by blast
  note b = upt_split_cons [OF *(1)]
  have f: "scan_frame (cand e ` {..<i}) e e2"
    using passed_over_frame [OF *(2)] b by (simp add: atLeast0LessThan)
  have t: "t = cand e i" using *(4) scan_frame_cand [OF f] by simp
  have "t \<notin> cand e ` {..<i}"
  proof
    assume "t \<in> cand e ` {..<i}"
    then obtain j where "j < i" "cand e j = cand e i" using t by auto
    then show False using cand_eqD [of j e i] b(2) by simp
  qed
  then have "block_of t e2 = block_of t e" using f unfolding scan_frame_def by blast
  moreover have "active (threads e ! t)" using *(3,4) f unfolding scan_frame_def by blast
  moreover have "t < length (threads e)" using t b(2) by (auto intro: cand_bound)
  ultimately show ?thesis using that [of i e2 na2] b * f t by simp
qed

text \<open>What lifting its block gave to thread \<open>t\<close> when it was picked.\<close>

definition granted :: "(nat \<Rightarrow> nat \<times> nat) \<Rightarrow> nat \<Rightarrow> env \<Rightarrow> env \<Rightarrow> bool" where
  "granted clk t e e1 =
     (case block_of t e of
        NotBlocked \<Rightarrow> mutexes e1 = mutexes e \<and> sem_cells e1 = sem_cells e
      | Sleeping until \<Rightarrow> (\<exists>i < length (threads e). until \<le> fst (clk i))
      | Mutex m \<Rightarrow> \<not> mutex_is_locked m e \<and> mutex_is_locked_by m t e1
      | Semaphore s \<Rightarrow>
          (case open_semaphores e s of None \<Rightarrow> True
           | Some i \<Rightarrow> 0 < sem_value (sem_cells e ! i) \<and>
               sem_cells e1 = (sem_cells e)[i := (sem_cells e ! i)\<lparr>
                 sem_value := sem_value (sem_cells e ! i) - 1,
                 sem_waiting := sem_waiting (sem_cells e ! i) - {t} \<rparr>])
      | Condition c deadline \<Rightarrow> (\<exists>m. \<not> mutex_is_locked m e \<and> mutex_is_locked_by m t e1)
      | Joining joinee ptr \<Rightarrow> \<not> active (threads e ! joinee)
      | WaitingForDebugger \<Rightarrow> False
      | Suspended n b \<Rightarrow> False)"

lemma picked_granted:
  assumes f: "scan_frame T e e2" and same: "block_of t e2 = block_of t e" and i: "i < length (threads e)"
    and picked: "try_candidate (fst (clk i)) (snd (clk i)) t na e2 = Some (Picked e1)"
  shows "granted clk t e e1"
proof (cases "block_of t e")
  case (Mutex m)
  with picked same have *: "relock_unblocked_mutex_for_thread t m (set_block t NotBlocked e2) = Some e1"
      "\<not> mutex_is_locked m e2"
    by (auto simp: try_candidate_def bind_eq_Some_conv split: if_splits)
  show ?thesis using Mutex *(2) relock_frame(9) [OF *(1)] scan_frame_locked [OF f]
    by (simp add: granted_def)
next
  case (Condition c deadline)
  with picked same have "try_condition (fst (clk i)) (snd (clk i)) t c deadline na e2 = Some (Picked e1)"
    by (simp add: try_candidate_def)
  then obtain m h1 where *:
      "relock_unblocked_mutex_for_thread t m (set_block t NotBlocked (put_cond c h1 e2)) = Some e1"
    using try_condition_picked by blast
  then have "\<not> mutex_is_locked m e2" by (auto simp: relock_spec mutex_is_locked_def)
  then show ?thesis using Condition relock_frame(9) [OF *] scan_frame_locked [OF f]
    by (auto simp: granted_def)
next
  case (Sleeping until)
  with picked same i show ?thesis
    by (auto simp: granted_def try_candidate_def split: if_splits)
next
  case (Semaphore s)
  have e2: "open_semaphores e2 = open_semaphores e" "sem_cells e2 = sem_cells e"
    using f by (simp_all add: scan_frame_def)
  from Semaphore picked same e2 show ?thesis
    by (auto simp: granted_def try_candidate_def try_semaphore_def Let_def
             split: if_splits option.splits)
next
  case (Joining j ptr)
  with picked same have "\<not> active (threads e2 ! j)"
    by (auto simp: try_candidate_def try_join_def thread_at_def bind_eq_Some_conv split: if_splits)
  then show ?thesis using Joining f by (simp add: granted_def scan_frame_def)
next
  case NotBlocked
  with picked same f show ?thesis by (auto simp: granted_def try_candidate_def scan_frame_def)
qed (use picked same in \<open>auto simp: try_candidate_def split: if_splits\<close>)

lemma picked_mutexes:
  assumes "try_candidate now wall t na e2 = Some (Picked e1)" "mutexes e1 m \<noteq> mutexes e2 m"
  shows "\<not> mutex_is_locked m e2 \<and> mutex_is_locked_by m t e1"
proof -
  have relocked: ?thesis
    if "relock_unblocked_mutex_for_thread t m1 e3 = Some e1" "mutexes e3 = mutexes e2" for m1 e3
    using that assms(2)
    by (auto simp: relock_spec mutex_is_locked_def mutex_is_locked_by_def split: if_splits)
  show ?thesis
  proof (cases "block_of t e2")
    case (Mutex m1)
    with assms(1) have "relock_unblocked_mutex_for_thread t m1 (set_block t NotBlocked e2) = Some e1"
      by (auto simp: try_candidate_def bind_eq_Some_conv split: if_splits)
    then show ?thesis by (rule relocked) simp
  next
    case (Condition c deadline)
    with assms(1) have "try_condition now wall t c deadline na e2 = Some (Picked e1)"
      by (simp add: try_candidate_def)
    then obtain m1 h1 where
        "relock_unblocked_mutex_for_thread t m1 (set_block t NotBlocked (put_cond c h1 e2)) = Some e1"
      using try_condition_picked by blast
    then show ?thesis by (rule relocked) simp
  qed (use assms in \<open>auto simp: try_candidate_def try_semaphore_def try_join_def bind_eq_Some_conv
         Let_def split: if_splits option.splits\<close>)
qed

end
