(* ===== verification/Scheduling.thy ===== *)
theory Scheduling
  imports Scheduler_Facts
begin

text \<open>
  The properties of the scheduler: soundness of what a picked thread is given, progress of
  every runnable thread, and what an idle pass says about the threads.
\<close>

section \<open>A small state\<close>

text \<open>Three threads: thread 0 runs, thread 1 waits for mutex 7, thread 2 is runnable.\<close>

definition three_threads :: "thread_block \<Rightarrow> thread_block \<Rightarrow> env" where
  "three_threads b1 b2 =
     (let e = env_new (the (mem_boot 4096))
      in e\<lparr> threads := threads e @
              [\<lparr> active = True, blocked_by = b1, return_value = None, stack = None \<rparr>,
               \<lparr> active = True, blocked_by = b2, return_value = None, stack = None \<rparr>],
            mutexes := [7 \<mapsto> \<lparr> mutex_kind = PTHREAD_MUTEX_NORMAL, waiting_count = 1, locked = None \<rparr>],
            mutex_count := 8 \<rparr>)"

lemma three_threads_simps [simp]:
  "length (threads (three_threads b1 b2)) = 3" "current_thread (three_threads b1 b2) = 0"
  "active (threads (three_threads b1 b2) ! 0)" "active (threads (three_threads b1 b2) ! Suc 0)"
  "active (threads (three_threads b1 b2) ! 2)"
  "block_of 0 (three_threads b1 b2) = NotBlocked" "block_of (Suc 0) (three_threads b1 b2) = b1"
  "block_of 2 (three_threads b1 b2) = b2"
  "mutexes (three_threads b1 b2) = [7 \<mapsto> \<lparr> mutex_kind = PTHREAD_MUTEX_NORMAL, waiting_count = 1, locked = None \<rparr>]"
  by (simp_all add: three_threads_def env_new_def block_of_def Let_def)

lemma three_threads_pass:
  "schedule_pass clk (three_threads (Mutex 7) NotBlocked) =
     Some (Run 1 (put_mutex 7 \<lparr> mutex_kind = PTHREAD_MUTEX_NORMAL, waiting_count = 0, locked = Some (1, 1) \<rparr>
                   (set_block 1 NotBlocked (three_threads (Mutex 7) NotBlocked))))"
  by (simp add: schedule_pass_def upt_rec [of _ 3] scan.simps Let_def try_candidate_def
        mutex_is_locked_def relock_unblocked_mutex_for_thread_def)

section \<open>Soundness\<close>

lemma pass_frame:
  assumes "schedule_pass clk e = Some (Run t e1)"
  shows "t < length (threads e)" "active (threads e ! t)" "block_of t e1 = NotBlocked"
    "current_thread e1 = current_thread e" "yielder e1 = yielder e"
    "length (threads e1) = length (threads e)"
    "active (threads e1 ! u) = active (threads e ! u)"
    "u \<noteq> t \<Longrightarrow> block_of u e1 = block_of u e \<or> gave_up u e e1"
proof -
  obtain i na2 e2 where t: "t < length (threads e)" "active (threads e ! t)"
    and f: "scan_frame (cand e ` {..<i}) e e2"
    and picked: "try_candidate (fst (clk i)) (snd (clk i)) t na2 e2 = Some (Picked e1)"
    using pass_run [OF assms] by metis
  have "t < length (threads e2)" using t(1) f by (simp add: scan_frame_def)
  then have p: "picked_frame t e2 e1" using picked by (rule try_candidate_picked_frame)
  show "t < length (threads e)" "active (threads e ! t)" by (rule t)+
  show "block_of t e1 = NotBlocked" "current_thread e1 = current_thread e" "yielder e1 = yielder e"
    "length (threads e1) = length (threads e)" "active (threads e1 ! u) = active (threads e ! u)"
    using p f unfolding picked_frame_def scan_frame_def by auto
  show "block_of u e1 = block_of u e \<or> gave_up u e e1" if "u \<noteq> t"
  proof -
    have "block_of u e1 = block_of u e2" using p that by (simp add: picked_frame_def)
    moreover have "block_of u e2 = block_of u e \<or> gave_up u e e2" using f by (simp add: scan_frame_def)
    ultimately show ?thesis by (metis gave_up_def)
  qed
qed

lemma pass_granted:
  assumes "schedule_pass clk e = Some (Run t e1)"
  shows "granted clk t e e1"
    "mutexes e1 m = mutexes e m \<or> \<not> mutex_is_locked m e \<and> mutex_is_locked_by m t e1"
proof -
  obtain i na2 e2 where i: "i < length (threads e)"
    and f: "scan_frame (cand e ` {..<i}) e e2" and same: "block_of t e2 = block_of t e"
    and picked: "try_candidate (fst (clk i)) (snd (clk i)) t na2 e2 = Some (Picked e1)"
    using pass_run [OF assms] by metis
  show "granted clk t e e1" using f same i picked by (rule picked_granted)
  show "mutexes e1 m = mutexes e m \<or> \<not> mutex_is_locked m e \<and> mutex_is_locked_by m t e1"
    using picked_mutexes [OF picked, of m] scan_frame_locked [OF f, of m] f
    by (auto simp: scan_frame_def)
qed

text \<open>
  a pass that picks thread \<open>t\<close> picks an active one and leaves it unblocked; it is given
  exactly what it waited for (the free mutex, one unit of the semaphore, its time has come, its
  joinee is finished); the current thread, the activity and the number of threads stay; every
  other thread keeps its block, except that a timed wait whose deadline has passed may have become
  a wait for the mutex; and no mutex changes but one that was free and now belongs to \<open>t\<close>.
\<close>

theorem schedule_grants:
  assumes "schedule_pass clk e = Some (Run t e1)"
  shows "t < length (threads e) \<and> active (threads e ! t) \<and> block_of t e1 = NotBlocked \<and>
    granted clk t e e1 \<and>
    current_thread e1 = current_thread e \<and> length (threads e1) = length (threads e) \<and>
    (\<forall>u. active (threads e1 ! u) = active (threads e ! u)) \<and>
    (\<forall>u. u \<noteq> t \<longrightarrow> block_of u e1 = block_of u e \<or> gave_up u e e1) \<and>
    (\<forall>m. mutexes e1 m = mutexes e m \<or> \<not> mutex_is_locked m e \<and> mutex_is_locked_by m t e1)"
  using pass_frame [OF assms] pass_granted [OF assms] by blast

lemma schedule_grants_witness:
  "\<exists>e1. schedule_pass (\<lambda>_. (0, 0)) (three_threads (Mutex 7) NotBlocked) = Some (Run 1 e1) \<and>
     mutex_is_locked_by 7 1 e1"
  using schedule_grants [OF three_threads_pass, of "\<lambda>_. (0, 0)"] three_threads_pass [of "\<lambda>_. (0, 0)"]
  by (auto simp: granted_def)

section \<open>Progress\<close>

text \<open>How many candidates the scan looks at before thread \<open>u\<close>.\<close>

definition ring_distance :: "nat \<Rightarrow> env \<Rightarrow> nat" where
  "ring_distance u e =
     (u + length (threads e) - (current_thread e + 1) mod length (threads e)) mod length (threads e)"

lemma ring_distance_cand:
  assumes "u < length (threads e)"
  shows "cand e (ring_distance u e) = u" "ring_distance u e < length (threads e)"
proof -
  let ?n = "length (threads e)" and ?c = "(current_thread e + 1) mod length (threads e)"
  have "?c < ?n" using assms by (intro mod_less_divisor) linarith
  have "cand e (ring_distance u e) = (?c + (u + ?n - ?c)) mod ?n"
    unfolding cand_def ring_distance_def by (simp only: mod_add_eq mod_add_left_eq mod_add_right_eq)
  also have "?c + (u + ?n - ?c) = u + ?n" using \<open>?c < ?n\<close> by linarith
  finally show "cand e (ring_distance u e) = u" using assms by simp
  show "ring_distance u e < ?n" unfolding ring_distance_def using assms by (intro mod_less_divisor) linarith
qed

lemma ring_distance_unique:
  assumes "i < length (threads e)" "cand e i = u"
  shows "ring_distance u e = i"
proof -
  have "u < length (threads e)" using assms cand_bound [of e i] by fastforce
  from ring_distance_cand [OF this] show ?thesis using cand_eqD assms by blast
qed

text \<open>A runnable thread is never passed over.\<close>

lemma runnable_not_passed:
  assumes "passed_over clk is na e na1 e1" "distinct is" "\<forall>i \<in> set is. i < length (threads e)"
    "i \<in> set is" "active (threads e ! cand e i)"
  shows "block_of (cand e i) e \<noteq> NotBlocked"
  using assms
proof (induction rule: passed_over.induct)
  case (inactive e j "is" na na1 e1)
  then show ?case by (cases "i = j") auto
next
  case (passed e j na na2 e2 "is" na1 e1)
  show ?case
  proof (cases "i = j")
    case True
    with passed.hyps(2) show ?thesis by (auto simp: try_candidate_def)
  next
    case False
    then have "i \<in> set is" using passed.prems(3) by simp
    have "cand e j < length (threads e)" using passed.prems(2) by (auto intro: cand_bound)
    then have f: "scan_frame {cand e j} e e2" using passed.hyps(2) by (rule try_candidate_scan_frame)
    have "cand e i \<noteq> cand e j" using False passed.prems(2,3) cand_eqD by auto
    then have same: "block_of (cand e i) e2 = block_of (cand e i) e"
      using f unfolding scan_frame_def by blast
    have len: "length (threads e2) = length (threads e)" and act: "active (threads e2 ! cand e i)"
      using f passed.prems(4) unfolding scan_frame_def by auto
    have "block_of (cand e2 i) e2 \<noteq> NotBlocked"
      using passed.IH passed.prems(1,2) \<open>i \<in> set is\<close> len act scan_frame_cand [OF f] by simp
    then show ?thesis using same scan_frame_cand [OF f] by simp
  qed
qed simp

text \<open>
  C23: a runnable thread waits for at most as many dispatches as there are threads between it and
  the current one: a pass never idles while thread \<open>u\<close> is active and not blocked, and if it
  picks another thread, then the dispatch of that thread makes the distance to \<open>u\<close> smaller
  (\<open>u\<close> being at distance zero means that it is looked at first).
\<close>

theorem round_robin_progress:
  assumes "u < length (threads e)" "active (threads e ! u)" "block_of u e = NotBlocked"
    and "schedule_pass clk e = Some p"
  shows "\<exists>t e1. p = Run t e1 \<and>
    (t = u \<or> (\<exists>e2. dispatch t e1 = Some e2 \<and> block_of u e2 = NotBlocked \<and>
       ring_distance u e2 < ring_distance u e))"
proof -
  note k = ring_distance_cand [OF assms(1)]
  have all: "passed_over clk is None e na1 e1 \<Longrightarrow> is = [0..<j] \<Longrightarrow> j \<le> length (threads e) \<Longrightarrow>
      j \<le> ring_distance u e" for "is" na1 e1 j
    using runnable_not_passed [of clk "is" None e na1 e1 "ring_distance u e"] k assms(2,3)
    by (cases "ring_distance u e < j") auto
  show ?thesis
  proof (cases p)
    case (Idle na1 e1)
    then have "passed_over clk [0..<length (threads e)] None e na1 e1"
      using assms(4) scan_idle by (simp add: schedule_pass_def)
    from all [OF this refl] k(2) show ?thesis by simp
  next
    case (Run t e1)
    with assms(4) have run: "schedule_pass clk e = Some (Run t e1)" by simp
    obtain i na2 e2 where i: "i < length (threads e)" "t = cand e i"
      and before: "passed_over clk [0..<i] None e na2 e2"
      using pass_run [OF run] by metis
    have "i \<le> ring_distance u e" using all [OF before refl] i(1) by simp
    note g = pass_frame [OF run]
    show ?thesis
    proof (cases "t = u")
      case False
      let ?e2 = "e1\<lparr> current_thread := t \<rparr>"
      have "i < ring_distance u e" using \<open>i \<le> ring_distance u e\<close> False i(2) k(1) by (cases "i = ring_distance u e") auto
      have len: "length (threads ?e2) = length (threads e)" using g by simp
      have d: "dispatch t e1 = Some ?e2"
        using g by (simp add: dispatch_def switch_thread_def thread_at_def)
      have same: "block_of u ?e2 = NotBlocked"
        using g(8) [of u] False assms(3) by (auto simp: block_of_def gave_up_def)
      have "cand ?e2 (ring_distance u e - i - 1) = (t + 1 + (ring_distance u e - i - 1)) mod length (threads e)"
        unfolding cand_def len by simp
      also have "\<dots> = (current_thread e + 1 + i + 1 + (ring_distance u e - i - 1)) mod length (threads e)"
        unfolding i(2) cand_def by (metis (no_types) mod_add_left_eq)
      also have "current_thread e + 1 + i + 1 + (ring_distance u e - i - 1) = current_thread e + 1 + ring_distance u e"
        using \<open>i < ring_distance u e\<close> by linarith
      also have "\<dots> mod length (threads e) = u" using k(1) by (simp add: cand_def)
      finally have "ring_distance u ?e2 = ring_distance u e - i - 1"
        using k(2) len by (intro ring_distance_unique) simp_all
      then show ?thesis using Run d same \<open>i < ring_distance u e\<close> by (intro exI conjI disjI2) auto
    qed (use Run in simp)
  qed
qed

lemma round_robin_progress_witness:
  "\<exists>e1 e2. schedule_pass (\<lambda>_. (0, 0)) (three_threads (Mutex 7) NotBlocked) = Some (Run 1 e1) \<and>
     dispatch 1 e1 = Some e2 \<and> block_of 2 e2 = NotBlocked \<and>
     ring_distance 2 e2 < ring_distance 2 (three_threads (Mutex 7) NotBlocked)"
  using round_robin_progress [of 2 "three_threads (Mutex 7) NotBlocked" "\<lambda>_. (0, 0)", OF _ _ _ three_threads_pass]
  by (simp add: three_threads_pass)

section \<open>Idle passes\<close>

text \<open>
  A thread is stuck in a state if no clock reading would let the scheduler run it there: only
  another thread (or the debugger) can lift its block.
\<close>

definition stuck :: "nat \<Rightarrow> env \<Rightarrow> bool" where
  "stuck t e =
     (case block_of t e of
        NotBlocked \<Rightarrow> False
      | Sleeping _ \<Rightarrow> False
      | Mutex m \<Rightarrow> mutex_is_locked m e
      | Semaphore s \<Rightarrow> (\<exists>i. open_semaphores e s = Some i \<and> sem_value (sem_cells e ! i) \<le> 0)
      | Condition c deadline \<Rightarrow> deadline = None \<and>
          (\<exists>h m. condition_variables e c = Some h \<and> curr_mutex h = Some m \<and>
             (waking h = [] \<or> hd (waking h) \<noteq> t \<or> mutex_is_locked m e))
      | Joining joinee _ \<Rightarrow> active (threads e ! joinee)
      | WaitingForDebugger \<Rightarrow> False
      | Suspended _ _ \<Rightarrow> True)"

text \<open>
  A candidate that is passed over without a wake-up time is stuck; one that stays stuck stays so
  while later candidates are passed over.  The delicate case is a condition variable from whose
  queue a later candidate drops out by its deadline: that thread was passed over only because the
  mutex is taken, which also keeps the new head of the queue from running.
\<close>

lemma passed_stuck:
  assumes t: "t < length (threads e)" and passed: "try_candidate now wall t na e = Some (Passed None e1)"
  shows "na = None \<and> stuck t e1"
proof (cases "block_of t e")
  case (Condition c deadline)
  with passed have "try_condition now wall t c deadline na e = Some (Passed None e1)"
    by (simp add: try_candidate_def)
  moreover obtain h m where "condition_variables e c = Some h" "curr_mutex h = Some m"
    using calculation by (auto simp: try_condition_def bind_eq_Some_conv)
  ultimately show ?thesis using Condition t
    by (cases deadline)
       (auto simp: try_condition_def Let_def bind_eq_Some_conv stuck_def earliest_def block_of_set_block
             split: if_splits option.splits)
qed (use passed in \<open>auto simp: try_candidate_def try_semaphore_def try_join_def thread_at_def stuck_def
       earliest_def Let_def bind_eq_Some_conv split: if_splits option.splits\<close>)

lemma stuck_kept:
  assumes t: "t < length (threads e)" and passed: "try_candidate now wall t na e = Some (Passed na1 e1)"
    and "stuck u e" "u \<noteq> t"
  shows "stuck u e1"
proof -
  have f: "passed_frame t e e1" by (rule try_candidate_passed_frame [OF t passed])
  have locked: "mutex_is_locked m e1 = mutex_is_locked m e" for m
    using f by (simp add: passed_frame_def mutex_is_locked_def)
  have conds: "\<exists>h1. condition_variables e1 c = Some h1 \<and> curr_mutex h1 = Some m \<and> (h1 = h \<or> mutex_is_locked m e)"
    if "condition_variables e c = Some h" "curr_mutex h = Some m" for c h m
  proof (cases "block_of t e")
    case (Condition c1 deadline)
    with passed have "try_condition now wall t c1 deadline na e = Some (Passed na1 e1)"
      by (simp add: try_candidate_def)
    from try_condition_passed [OF this t] that show ?thesis by (cases "c = c1") auto
  qed (use passed that in \<open>auto simp: try_candidate_def try_semaphore_def try_join_def bind_eq_Some_conv
         Let_def split: if_splits option.splits\<close>)
  have same: "block_of u e1 = block_of u e" using f assms(4) by (simp add: passed_frame_def)
  show ?thesis
  proof (cases "block_of u e")
    case (Condition c deadline)
    with assms(3) obtain h m where h: "deadline = None" "condition_variables e c = Some h"
      "curr_mutex h = Some m" "waking h = [] \<or> hd (waking h) \<noteq> u \<or> mutex_is_locked m e"
      by (auto simp: stuck_def)
    from conds [OF h(2,3)] show ?thesis using Condition h same locked by (auto simp: stuck_def)
  qed (use assms(3) f same locked in \<open>simp_all add: stuck_def passed_frame_def\<close>)
qed

lemma passed_over_none:
  assumes "passed_over clk is na e na1 e1" "na1 = None" "distinct is" "\<forall>i \<in> set is. i < length (threads e)"
  shows "na = None \<and> (\<forall>u. stuck u e \<longrightarrow> u \<notin> cand e ` set is \<longrightarrow> stuck u e1) \<and>
    (\<forall>i \<in> set is. active (threads e ! cand e i) \<longrightarrow> stuck (cand e i) e1)"
  using assms
proof (induction rule: passed_over.induct)
  case (passed e i na na2 e2 "is" na1 e1)
  have t: "cand e i < length (threads e)" using passed.prems(3) by (auto intro: cand_bound)
  note p = passed.hyps(2)
  have f: "scan_frame {cand e i} e e2" using t p by (rule try_candidate_scan_frame)
  have len: "length (threads e2) = length (threads e)" and c: "cand e2 = cand e"
    and act: "active (threads e2 ! u) = active (threads e ! u)" for u
    using f scan_frame_cand [OF f] by (simp_all add: scan_frame_def)
  have ih: "na2 = None" "\<forall>u. stuck u e2 \<longrightarrow> u \<notin> cand e ` set is \<longrightarrow> stuck u e1"
    "\<forall>i \<in> set is. active (threads e ! cand e i) \<longrightarrow> stuck (cand e i) e1"
    using passed.IH passed.prems len c act by simp_all
  have first: "na = None \<and> stuck (cand e i) e2" using passed_stuck [OF t] p ih(1) by simp
  have new: "cand e i \<notin> cand e ` set is"
  proof
    assume "cand e i \<in> cand e ` set is"
    then obtain j where "j \<in> set is" "cand e i = cand e j" by blast
    then show False using cand_eqD [of i e j] passed.prems(2,3) by auto
  qed
  have "stuck u e1" if "stuck u e" "u \<notin> cand e ` set (i # is)" for u
    using that stuck_kept [OF t p] ih(2) by auto
  then show ?case using first new ih(2,3) by auto
qed auto

text \<open>
  if a pass neither picks a thread nor finds a time to wait for, then every active thread is
  stuck: the deadlock that is reported after three such passes is a real one, and not a thread
  that the scan has overlooked.
\<close>

theorem idle_pass_is_deadlock:
  assumes "schedule_pass clk e = Some (Idle None e1)" and "t < length (threads e)" "active (threads e ! t)"
  shows "stuck t e1"
proof -
  have "passed_over clk [0..<length (threads e)] None e None e1"
    using assms(1) scan_idle by (simp add: schedule_pass_def)
  from passed_over_none [OF this refl] have "\<forall>i < length (threads e). active (threads e ! cand e i) \<longrightarrow> stuck (cand e i) e1"
    by simp
  then show ?thesis using ring_distance_cand [OF assms(2)] assms(3) by metis
qed

lemma idle_pass_is_deadlock_witness:
  "\<exists>e1. schedule_pass (\<lambda>_. (0, 0)) (set_block 0 (Joining (Suc 0) 0) (three_threads (Joining 2 0) (Joining 0 0))) =
     Some (Idle None e1) \<and> stuck 1 e1"
proof -
  let ?e = "set_block 0 (Joining (Suc 0) 0) (three_threads (Joining 2 0) (Joining 0 0))"
  have b: "block_of 0 ?e = Joining (Suc 0) 0" "block_of (Suc 0) ?e = Joining 2 0" "block_of 2 ?e = Joining 0 0"
    by (simp_all add: block_of_set_block)
  have "schedule_pass (\<lambda>_. (0, 0)) ?e = Some (Idle None ?e)"
    by (simp add: schedule_pass_def upt_rec [of _ 3] scan.simps Let_def try_candidate_def b
          try_join_def thread_at_def numeral_2_eq_2 [symmetric])
  from idle_pass_is_deadlock [OF this, of 1] this show ?thesis by simp
qed

end
