(* ===== verification/Mutex_System.thy ===== *)
theory Mutex_System
  imports Scheduling
begin

text \<open>
  Guest threads, host mutexes and the scheduler as one transition system.  A state is the
  environment together with the suspended rest of every blocked call and a ghost count of
  the locks each thread holds, which is computed from the results the calls return and not
  from the mutex table.  The steps are the calls of the running thread and the passes of the
  executor, in any order and with any clock readings.
\<close>

section \<open>The calls of a guest thread\<close>

datatype event = Took nat "int + nat" | Released nat "int + nat" | Quiet

datatype guest_call =
    Lock nat
  | Unlock nat
  | Init mutex_type
  | Destroy nat
  | Sleep nat nat
  | Preempt
  | Suspend nat
  | Resume nat
  | Join nat
  | Spawn nat

fun guest_step :: "guest_call \<Rightarrow> env \<Rightarrow> event call option" where
  "guest_step (Lock m) e = map_option (map_call (Took m)) (lock_mutex m e)"
| "guest_step (Unlock m) e = map_option (\<lambda>(r, e1). Done (Released m r) e1) (unlock_mutex m e)"
| "guest_step (Init kind) e = map_option (\<lambda>(_, e1). Done Quiet e1) (init_mutex kind e)"
| "guest_step (Destroy m) e = map_option (\<lambda>(_, e1). Done Quiet e1) (destroy_mutex m e)"
| "guest_step (Sleep now d) e = map_option (map_call (\<lambda>_. Quiet)) (sleep now d e)"
| "guest_step Preempt e = yield_thread NotBlocked e (\<lambda>e1. Some (Quiet, e1))"
| "guest_step (Suspend t) e = map_option (map_call (\<lambda>_. Quiet)) (suspend_thread t e)"
| "guest_step (Resume t) e = map_option (Done Quiet) (resume_thread t e)"
| "guest_step (Join t) e =
     (if t < length (threads e) then join_with_thread t 0 e (\<lambda>e1. Some (Quiet, e1)) else None)"
| "guest_step (Spawn n) e =
     (if length (threads e) < 4294967295 then map_option (\<lambda>(_, e1). Done Quiet e1) (new_thread n e) else None)"

section \<open>The system\<close>

record sys =
  s_env :: env
  pend :: "nat \<Rightarrow> (env \<Rightarrow> (event \<times> env) option) option"
  inside :: "nat \<Rightarrow> nat \<Rightarrow> nat"

fun count_lock :: "event \<Rightarrow> nat \<Rightarrow> (nat \<Rightarrow> nat \<Rightarrow> nat) \<Rightarrow> (nat \<Rightarrow> nat \<Rightarrow> nat)" where
  "count_lock (Took m (Inr _)) t f = f(m := (f m)(t := f m t + 1))"
| "count_lock (Released m (Inr _)) t f = f(m := (f m)(t := f m t - 1))"
| "count_lock _ t f = f"

inductive sys_step :: "sys \<Rightarrow> sys \<Rightarrow> bool" where
  call_returns:
    "yielder (s_env s) \<Longrightarrow> guest_step c (s_env s) = Some (Done ev e1) \<Longrightarrow>
     sys_step s (s\<lparr> s_env := e1, inside := count_lock ev (current_thread (s_env s)) (inside s) \<rparr>)"
| call_blocks:
    "yielder (s_env s) \<Longrightarrow> guest_step c (s_env s) = Some (Blocked e1 k) \<Longrightarrow>
     sys_step s (s\<lparr> s_env := e1, pend := (pend s)(current_thread (s_env s) \<mapsto> k) \<rparr>)"
| exits:
    "yielder (s_env s) \<Longrightarrow> finish_thread v (s_env s) = Some e1 \<Longrightarrow>
     sys_step s (s\<lparr> s_env := e1\<lparr> yielder := False \<rparr> \<rparr>)"
| resumes:
    "\<not> yielder (s_env s) \<Longrightarrow> schedule_pass clk (s_env s) = Some (Run t e1) \<Longrightarrow>
     dispatch t e1 = Some e2 \<Longrightarrow> pend s t = Some k \<Longrightarrow> k e2 = Some (ev, e3) \<Longrightarrow>
     sys_step s (s\<lparr> s_env := e3, pend := (pend s)(t := None), inside := count_lock ev t (inside s) \<rparr>)"
| starts:
    "\<not> yielder (s_env s) \<Longrightarrow> schedule_pass clk (s_env s) = Some (Run t e1) \<Longrightarrow>
     dispatch t e1 = Some e2 \<Longrightarrow> pend s t = None \<Longrightarrow>
     sys_step s (s\<lparr> s_env := e2\<lparr> yielder := True \<rparr> \<rparr>)"
| idles:
    "\<not> yielder (s_env s) \<Longrightarrow> schedule_pass clk (s_env s) = Some (Idle na e1) \<Longrightarrow>
     sys_step s (s\<lparr> s_env := e1 \<rparr>)"

inductive sys_reach :: "sys \<Rightarrow> bool" where
  boot: "sys_reach \<lparr> s_env = env_new m, pend = (\<lambda>_. None), inside = (\<lambda>_ _. 0) \<rparr>"
| step: "sys_reach s \<Longrightarrow> sys_step s s1 \<Longrightarrow> sys_reach s1"

section \<open>The invariant\<close>

fun core :: "thread_block \<Rightarrow> thread_block" where
  "core (Suspended n b) = b"
| "core b = b"

definition lock_rest :: "nat \<Rightarrow> env \<Rightarrow> (event \<times> env) option" where
  "lock_rest m e1 = do {
     th1 \<leftarrow> thread_at (current_thread e1) e1;
     (if is_blocked th1 then None else Some (Took m (Inr 1), e1\<lparr> yielder := True \<rparr>)) }"

definition quiet_rest :: "env \<Rightarrow> (event \<times> env) option" where
  "quiet_rest e1 = do {
     th1 \<leftarrow> thread_at (current_thread e1) e1;
     (if is_blocked th1 then None else Some (Quiet, e1\<lparr> yielder := True \<rparr>)) }"

text \<open>What a block says about a thread: the rest of its call, and what it may wait for.\<close>

definition block_ok :: "(env \<Rightarrow> (event \<times> env) option) option \<Rightarrow> thread_block \<Rightarrow> (nat \<Rightarrow> bool) \<Rightarrow> nat \<Rightarrow> bool" where
  "block_ok k b exists_mutex n =
     ((case b of Suspended i _ \<Rightarrow> 0 < i | _ \<Rightarrow> True) \<and>
      (case core b of
         NotBlocked \<Rightarrow> k = None \<or> k = Some quiet_rest
       | Sleeping _ \<Rightarrow> k = None \<or> k = Some quiet_rest
       | Joining j p \<Rightarrow> (k = None \<or> k = Some quiet_rest) \<and> j < n \<and> p = 0
       | Mutex m \<Rightarrow> k = Some (lock_rest m) \<and> exists_mutex m
       | _ \<Rightarrow> False))"

definition waiters :: "nat \<Rightarrow> env \<Rightarrow> nat set" where
  "waiters m e = {t. t < length (threads e) \<and> active (threads e ! t) \<and> core (block_of t e) = Mutex m}"

definition threads_inv :: "sys \<Rightarrow> bool" where
  "threads_inv s = (let e = s_env s in
     current_thread e < length (threads e) \<and> length (threads e) < 4294967296 \<and>
     (yielder e \<longrightarrow> active (threads e ! current_thread e) \<and> block_of (current_thread e) e = NotBlocked
         \<and> pend s (current_thread e) = None) \<and>
     (\<forall>t. length (threads e) \<le> t \<longrightarrow> pend s t = None) \<and>
     (\<forall>t < length (threads e). active (threads e ! t) \<longrightarrow>
         block_ok (pend s t) (block_of t e) (\<lambda>m. mutexes e m \<noteq> None) (length (threads e))))"

definition counts_inv :: "env \<Rightarrow> bool" where
  "counts_inv e = (\<forall>m x. mutexes e m = Some x \<longrightarrow> waiting_count x = card (waiters m e))"

definition depth :: "mutex \<Rightarrow> nat \<Rightarrow> nat" where
  "depth x t = (case locked x of None \<Rightarrow> 0 | Some (owner, n) \<Rightarrow> if t = owner then n else 0)"

definition inside_inv :: "env \<Rightarrow> (nat \<Rightarrow> nat \<Rightarrow> nat) \<Rightarrow> bool" where
  "inside_inv e f =
     ((\<forall>m x. mutexes e m = Some x \<longrightarrow> mutex_kind x \<noteq> PTHREAD_MUTEX_NORMAL \<longrightarrow> f m = depth x) \<and>
      (\<forall>m t. mutex_count e \<le> m \<longrightarrow> f m t = 0))"

definition sys_inv :: "sys \<Rightarrow> bool" where
  "sys_inv s = (mutexes_ok (s_env s) \<and> threads_inv s \<and> counts_inv (s_env s) \<and>
     inside_inv (s_env s) (inside s))"

lemma sys_inv_boot: "sys_inv \<lparr> s_env = env_new m, pend = (\<lambda>_. None), inside = (\<lambda>_ _. 0) \<rparr>"
  by (auto simp: sys_inv_def mutexes_ok_def threads_inv_def counts_inv_def inside_inv_def env_new_def
        block_ok_def block_of_def Let_def)

text \<open>The three parts under a change of one thread's block, and of one mutex.\<close>

lemma block_of_yielder [simp]: "block_of t (e\<lparr> yielder := b \<rparr>) = block_of t e"
  by (simp add: block_of_def)

lemma waiters_finite [simp]: "finite (waiters m e)"
  by (simp add: waiters_def)

lemma waiters_put_mutex [simp]: "waiters m (put_mutex i x e) = waiters m e"
  by (simp add: waiters_def)

lemma waiters_yielder [simp]: "waiters m (e\<lparr> yielder := b \<rparr>) = waiters m e"
  by (simp add: waiters_def block_of_def)

lemma waiters_set_block:
  assumes "t < length (threads e)"
  shows "waiters m (set_block t b e) =
    (if active (threads e ! t) \<and> core b = Mutex m then insert t (waiters m e) else waiters m e - {t})"
  using assms by (auto simp: waiters_def block_of_set_block)

lemma waiters_bound: "card (waiters m e) \<le> length (threads e)"
proof -
  have "waiters m e \<subseteq> {..<length (threads e)}" by (auto simp: waiters_def)
  then show ?thesis using card_mono [of "{..<length (threads e)}"] by fastforce
qed

section \<open>Calls that keep the invariant\<close>

lemma sys_invD:
  assumes "sys_inv s"
  shows "mutexes_ok (s_env s)" "threads_inv s" "counts_inv (s_env s)" "inside_inv (s_env s) (inside s)"
  using assms by (simp_all add: sys_inv_def)

lemma threads_invD:
  assumes "threads_inv s"
  shows "current_thread (s_env s) < length (threads (s_env s))" "length (threads (s_env s)) < 4294967296"
    "yielder (s_env s) \<Longrightarrow> active (threads (s_env s) ! current_thread (s_env s))"
    "yielder (s_env s) \<Longrightarrow> block_of (current_thread (s_env s)) (s_env s) = NotBlocked"
    "yielder (s_env s) \<Longrightarrow> pend s (current_thread (s_env s)) = None"
    "length (threads (s_env s)) \<le> t \<Longrightarrow> pend s t = None"
    "t < length (threads (s_env s)) \<Longrightarrow> active (threads (s_env s) ! t) \<Longrightarrow>
       block_ok (pend s t) (block_of t (s_env s)) (\<lambda>m. mutexes (s_env s) m \<noteq> None) (length (threads (s_env s)))"
  using assms by (simp_all add: threads_inv_def Let_def)

text \<open>A call that changes one mutex, but not the number of its waiters.\<close>

lemma put_mutex_keeps:
  assumes inv: "sys_inv s" and x: "mutexes (s_env s) m = Some x"
    and y: "mutex_ok y" "mutex_kind y = mutex_kind x" "waiting_count y = waiting_count x"
    and f: "mutex_kind x \<noteq> PTHREAD_MUTEX_NORMAL \<Longrightarrow> f m = depth y" "\<And>m1. m1 \<noteq> m \<Longrightarrow> f m1 = inside s m1"
  shows "sys_inv (s\<lparr> s_env := put_mutex m y (s_env s), inside := f \<rparr>)"
proof -
  note parts = sys_invD [OF inv]
  have "mutexes_ok (put_mutex m y (s_env s))" by (rule mutexes_ok_put [OF parts(1) x y(1)])
  moreover have "threads_inv (s\<lparr> s_env := put_mutex m y (s_env s), inside := f \<rparr>)"
  proof -
    have "(\<lambda>m1. ((mutexes (s_env s))(m \<mapsto> y)) m1 \<noteq> None) = (\<lambda>m1. mutexes (s_env s) m1 \<noteq> None)"
      using x by auto
    then show ?thesis using parts(2) unfolding threads_inv_def Let_def by simp
  qed
  moreover have "counts_inv (put_mutex m y (s_env s))"
    using parts(3) x y(3) by (auto simp: counts_inv_def)
  moreover have "inside_inv (put_mutex m y (s_env s)) f"
  proof -
    have "m < mutex_count (s_env s)" using mutexes_okD [OF parts(1) x] by simp
    then show ?thesis using parts(4) x y(2) f by (auto simp: inside_inv_def)
  qed
  ultimately show ?thesis by (simp add: sys_inv_def)
qed

lemma lock_returns_keeps:
  assumes inv: "sys_inv s" and y: "yielder (s_env s)"
    and call: "lock_mutex m (s_env s) = Some (Done r e1)"
  shows "sys_inv (s\<lparr> s_env := e1, inside := count_lock (Took m r) (current_thread (s_env s)) (inside s) \<rparr>)"
proof -
  let ?e = "s_env s"
  obtain x where x: "mutexes ?e m = Some x"
    using call by (cases "mutexes ?e m") (simp_all add: lock_mutex_def)
  have okx: "mutex_ok x" using mutexes_okD [OF sys_invD(1) [OF inv] x] by simp
  have ins: "mutex_kind x \<noteq> PTHREAD_MUTEX_NORMAL \<Longrightarrow> inside s m = depth x"
    using sys_invD(4) [OF inv] x by (simp add: inside_inv_def)
  consider "locked x = None" | k where "locked x = Some (current_thread ?e, k)"
    | u k where "locked x = Some (u, k)" "u \<noteq> current_thread ?e"
    by (cases "locked x") auto
  then show ?thesis
  proof cases
    case 1
    then have r: "r = Inr 1" "e1 = put_mutex m (x\<lparr> locked := Some (current_thread ?e, 1) \<rparr>) ?e"
      using call x by (auto simp: lock_mutex_def)
    show ?thesis unfolding r
      by (rule put_mutex_keeps [OF inv x]) (use 1 ins in \<open>auto simp: mutex_ok_def depth_def\<close>)
  next
    case (2 k)
    show ?thesis
    proof (cases r)
      case (Inl err)
      then have "e1 = ?e" using call x 2 by (auto simp: lock_mutex_def split: mutex_type.splits if_splits)
      then show ?thesis using inv Inl by simp
    next
      case (Inr n)
      then have r: "mutex_kind x = PTHREAD_MUTEX_RECURSIVE" "k + 1 < 4294967296"
          "e1 = put_mutex m (x\<lparr> locked := Some (current_thread ?e, k + 1) \<rparr>) ?e"
        using call x 2 by (auto simp: lock_mutex_def split: mutex_type.splits if_splits)
      show ?thesis unfolding r(3) Inr
        by (rule put_mutex_keeps [OF inv x]) (use 2 r(1,2) ins in \<open>auto simp: mutex_ok_def depth_def\<close>)
    qed
  next
    case (3 u k)
    then show ?thesis using call x y
      by (auto simp: lock_mutex_def block_on_mutex_def yield_thread_def bind_eq_Some_conv split: if_splits)
  qed
qed

lemma unlock_keeps:
  assumes inv: "sys_inv s" and call: "unlock_mutex m (s_env s) = Some (r, e1)"
  shows "sys_inv (s\<lparr> s_env := e1, inside := count_lock (Released m r) (current_thread (s_env s)) (inside s) \<rparr>)"
proof -
  let ?e = "s_env s"
  obtain x where x: "mutexes ?e m = Some x"
    using call by (cases "mutexes ?e m") (simp_all add: unlock_mutex_def)
  have okx: "mutex_ok x" using mutexes_okD [OF sys_invD(1) [OF inv] x] by simp
  have ins: "mutex_kind x \<noteq> PTHREAD_MUTEX_NORMAL \<Longrightarrow> inside s m = depth x"
    using sys_invD(4) [OF inv] x by (simp add: inside_inv_def)
  show ?thesis
  proof (cases r)
    case (Inl err)
    then have "e1 = ?e" using call x by (auto simp: unlock_mutex_def split: option.splits if_splits)
    then show ?thesis using inv Inl by simp
  next
    case (Inr n)
    then obtain owner k where k: "locked x = Some (owner, k)"
      using call x by (cases "locked x") (auto simp: unlock_mutex_def)
    then consider "k = 1" "e1 = put_mutex m (x\<lparr> locked := None \<rparr>) ?e"
        "owner = current_thread ?e \<or> mutex_kind x = PTHREAD_MUTEX_NORMAL"
      | "1 < k" "mutex_kind x = PTHREAD_MUTEX_RECURSIVE" "owner = current_thread ?e"
        "e1 = put_mutex m (x\<lparr> locked := Some (owner, k - 1) \<rparr>) ?e"
      using call x Inr okx by (auto simp: unlock_mutex_def mutex_ok_def split: if_splits)
    then show ?thesis
    proof cases
      case 1
      show ?thesis unfolding 1(2) Inr
        by (rule put_mutex_keeps [OF inv x]) (use 1 k ins in \<open>auto simp: mutex_ok_def depth_def fun_eq_iff\<close>)
    next
      case 2
      show ?thesis unfolding 2(4) Inr
        by (rule put_mutex_keeps [OF inv x]) (use 2 k ins okx in \<open>auto simp: mutex_ok_def depth_def fun_eq_iff\<close>)
    qed
  qed
qed

lemma init_keeps:
  assumes inv: "sys_inv s" and call: "init_mutex kind (s_env s) = Some (m, e1)"
  shows "sys_inv (s\<lparr> s_env := e1 \<rparr>)"
proof -
  let ?e = "s_env s"
  let ?y = "\<lparr> mutex_kind = kind, waiting_count = 0, locked = None \<rparr>"
  have e1: "m = mutex_count ?e" "e1 = put_mutex m ?y (?e\<lparr> mutex_count := mutex_count ?e + 1 \<rparr>)"
    using call by (auto simp: init_mutex_def Let_def split: if_splits)
  note parts = sys_invD [OF inv]
  have new: "mutexes ?e m = None" using mutexes_okD [OF parts(1)] e1(1) by (cases "mutexes ?e m") auto
  have same: "threads e1 = threads ?e" "current_thread e1 = current_thread ?e" "yielder e1 = yielder ?e"
    "mutexes e1 = (mutexes ?e)(m \<mapsto> ?y)" "mutex_count e1 = m + 1"
    unfolding e1 by simp_all
  have blocks: "block_of t e1 = block_of t ?e" for t by (simp add: block_of_def same)
  have "waiters m1 e1 = waiters m1 ?e" for m1 by (simp add: waiters_def same blocks)
  moreover have none: "waiters m ?e = {}"
  proof -
    have "core (block_of t ?e) \<noteq> Mutex m" if "t < length (threads ?e)" "active (threads ?e ! t)" for t
      using threads_invD(7) [OF parts(2) that] new by (auto simp: block_ok_def split: thread_block.splits)
    then show ?thesis by (auto simp: waiters_def)
  qed
  ultimately have "counts_inv e1" using parts(3) by (auto simp: counts_inv_def same)
  moreover have "mutexes_ok e1" using parts(1) by (auto simp: mutexes_ok_def same e1(1) mutex_ok_def intro: less_SucI)
  moreover have "inside_inv e1 (inside s)"
    using parts(4) by (auto simp: inside_inv_def same e1(1) depth_def fun_eq_iff)
  moreover have "threads_inv (s\<lparr> s_env := e1 \<rparr>)"
  proof -
    have "block_ok k b (\<lambda>m. mutexes e1 m \<noteq> None) n" if "block_ok k b (\<lambda>m. mutexes ?e m \<noteq> None) n" for k b n
      using that by (auto simp: block_ok_def same split: thread_block.splits)
    then show ?thesis using parts(2) unfolding threads_inv_def Let_def by (simp add: same blocks)
  qed
  ultimately show ?thesis by (simp add: sys_inv_def)
qed

lemma destroy_keeps:
  assumes inv: "sys_inv s" and call: "destroy_mutex m (s_env s) = Some (r, e1)"
  shows "sys_inv (s\<lparr> s_env := e1 \<rparr>)"
proof -
  let ?e = "s_env s"
  obtain x where x: "mutexes ?e m = Some x"
    using call by (cases "mutexes ?e m") (simp_all add: destroy_mutex_def)
  show ?thesis
  proof (cases "locked x = None \<and> waiting_count x = 0")
    case False
    then have "e1 = ?e" using call x by (auto simp: destroy_mutex_def split: if_splits)
    then show ?thesis using inv by simp
  next
    case True
    then have e1: "e1 = ?e\<lparr> mutexes := (mutexes ?e)(m := None) \<rparr>"
      using call x by (auto simp: destroy_mutex_def split: if_splits)
    note parts = sys_invD [OF inv]
    have none: "waiters m ?e = {}" using parts(3) x True by (simp add: counts_inv_def)
    have blocks: "block_of t e1 = block_of t ?e" for t by (simp add: block_of_def e1)
    have w: "waiters m1 e1 = waiters m1 ?e" for m1 by (simp add: waiters_def e1 block_of_def)
    have "threads_inv (s\<lparr> s_env := e1 \<rparr>)"
    proof -
      have "block_ok (pend s t) (block_of t ?e) (\<lambda>m. mutexes e1 m \<noteq> None) (length (threads ?e))"
        if "t < length (threads ?e)" "active (threads ?e ! t)" for t
      proof -
        have "core (block_of t ?e) \<noteq> Mutex m" using none that by (auto simp: waiters_def)
        then show ?thesis using threads_invD(7) [OF parts(2) that]
          by (auto simp: block_ok_def e1 split: thread_block.splits)
      qed
      then show ?thesis using parts(2) unfolding threads_inv_def Let_def by (simp add: e1 blocks [unfolded e1])
    qed
    moreover have "counts_inv e1" using parts(3) by (simp add: counts_inv_def w) (simp add: e1)
    moreover have "mutexes_ok e1" "inside_inv e1 (inside s)"
      using parts(1,4) by (simp_all add: mutexes_ok_def inside_inv_def e1)
    ultimately show ?thesis by (simp add: sys_inv_def)
  qed
qed

text \<open>
  A change of one thread's block and of the rest of its call that moves no waiter: new threads,
  sleeps, joins, suspensions.
\<close>

lemma set_block_keeps:
  assumes inv: "sys_inv s" and t: "t < length (threads (s_env s))"
    and same: "\<And>m. active (threads (s_env s) ! t) \<Longrightarrow> core b = Mutex m \<longleftrightarrow> core (block_of t (s_env s)) = Mutex m"
    and ok: "active (threads (s_env s) ! t) \<Longrightarrow>
      block_ok (q t) b (\<lambda>m. mutexes (s_env s) m \<noteq> None) (length (threads (s_env s)))"
    and q: "\<And>u. u \<noteq> t \<Longrightarrow> q u = pend s u" "t < length (threads (s_env s))"
    and y: "y \<Longrightarrow> yielder (s_env s) \<and>
      (t = current_thread (s_env s) \<longrightarrow> b = NotBlocked \<and> q t = None)"
  shows "sys_inv (s\<lparr> s_env := (set_block t b (s_env s))\<lparr> yielder := y \<rparr>, pend := q \<rparr>)"
proof -
  let ?e = "s_env s" and ?e1 = "(set_block t b (s_env s))\<lparr> yielder := y \<rparr>"
  note parts = sys_invD [OF inv]
  have "waiters m (set_block t b ?e) = waiters m ?e" for m
    unfolding waiters_set_block [OF t] using t same by (auto simp: waiters_def)
  then have "counts_inv ?e1" using parts(3) by (simp add: counts_inv_def)
  moreover have "mutexes_ok ?e1" "inside_inv ?e1 (inside s)"
    using parts(1,4) by (simp_all add: mutexes_ok_def inside_inv_def)
  moreover have "threads_inv (s\<lparr> s_env := ?e1, pend := q \<rparr>)"
    unfolding threads_inv_def Let_def
    using threads_invD [OF parts(2)] y q ok t by (auto simp: block_of_set_block)
  ultimately show ?thesis by (simp add: sys_inv_def)
qed

lemma quiet_rest_eq:
  "(\<lambda>e1. do { th1 \<leftarrow> thread_at (current_thread e1) e1;
     (if is_blocked th1 then None else Some (Quiet, e1\<lparr> yielder := True \<rparr>)) }) = quiet_rest"
  by (simp add: quiet_rest_def fun_eq_iff)

lemma map_rest:
  "map_option (\<lambda>(r, e2). (f r, e2)) (do { th1 \<leftarrow> x;
     (if is_blocked th1 then None else Some (v, e3)) }) =
   do { th1 \<leftarrow> x; (if is_blocked th1 then None else Some (f v, e3)) }"
  by (cases x) simp_all

lemma yield_keeps:
  assumes inv: "sys_inv s" and y: "yielder (s_env s)"
    and call: "yield_thread b (s_env s) (\<lambda>e1. Some (Quiet, e1)) = Some (Blocked e1 k)"
    and b: "core b = b \<or> b = Suspended 1 NotBlocked"
    "case core b of NotBlocked \<Rightarrow> True | Sleeping _ \<Rightarrow> True
       | Joining j p \<Rightarrow> j < length (threads (s_env s)) \<and> p = 0 | _ \<Rightarrow> False"
  shows "sys_inv (s\<lparr> s_env := e1, pend := (pend s)(current_thread (s_env s) \<mapsto> k) \<rparr>)"
proof -
  let ?e = "s_env s" and ?t = "current_thread (s_env s)"
  note ti = threads_invD [OF sys_invD(2) [OF inv]]
  have "\<not> is_blocked (threads ?e ! ?t)" using ti(4) y by (simp add: is_blocked_def block_of_def)
  then have e1: "e1 = (set_block ?t b ?e)\<lparr> yielder := False \<rparr>" "k = quiet_rest"
    using call y ti(1) by (auto simp: yield_thread_def thread_at_def quiet_rest_def fun_eq_iff)
  have nb: "block_of ?t ?e = NotBlocked" using ti(4) y by simp
  show ?thesis unfolding e1
  proof (rule set_block_keeps [OF inv ti(1)])
    show "core b = Mutex m \<longleftrightarrow> core (block_of ?t ?e) = Mutex m" for m
      using b nb by (cases "core b") auto
    show "block_ok (((pend s)(?t \<mapsto> quiet_rest)) ?t) b (\<lambda>m. mutexes ?e m \<noteq> None) (length (threads ?e))"
      using b by (cases b) (auto simp: block_ok_def)
  qed (simp_all add: ti(1))
qed

lemma lock_blocks_keeps:
  assumes inv: "sys_inv s" and y: "yielder (s_env s)"
    and call: "lock_mutex m (s_env s) = Some (Blocked e1 k0)"
    and k: "k = (\<lambda>e1. map_option (\<lambda>(r, e2). (Took m r, e2)) (k0 e1))"
  shows "sys_inv (s\<lparr> s_env := e1, pend := (pend s)(current_thread (s_env s) \<mapsto> k) \<rparr>)"
proof -
  let ?e = "s_env s" and ?t = "current_thread (s_env s)"
  note parts = sys_invD [OF inv]
  note ti = threads_invD [OF parts(2)]
  obtain x where x: "mutexes ?e m = Some x"
    using call by (cases "mutexes ?e m") (simp_all add: lock_mutex_def)
  have nb: "block_of ?t ?e = NotBlocked" using ti(4) y by simp
  have okx: "mutex_ok x" using mutexes_okD [OF parts(1) x] by simp
  let ?y = "x\<lparr> waiting_count := wadd32 (waiting_count x) 1 \<rparr>"
  have call1: "block_on_mutex m (put_mutex m ?y ?e) (\<lambda>e1. Some (Inr 1, e1)) = Some (Blocked e1 k0)"
    using call x by (auto simp: lock_mutex_def split: option.splits if_splits mutex_type.splits)
  have e1: "e1 = (set_block ?t (Mutex m) (put_mutex m ?y ?e))\<lparr> yielder := False \<rparr>"
    using call1 ti(1) y by (auto simp: block_on_mutex_def yield_thread_def bind_eq_Some_conv split: if_splits)
  have k0: "k0 = (\<lambda>e1. do { th1 \<leftarrow> thread_at (current_thread e1) e1;
      (if is_blocked th1 then None else Some (Inr (Suc 0), e1\<lparr> yielder := True \<rparr>)) })"
    using call1 ti(1) y
    by (auto simp: block_on_mutex_def yield_thread_def bind_eq_Some_conv split: if_splits)
  have k_eq: "k = lock_rest m"
    unfolding k k0 map_rest by (rule ext) (simp only: lock_rest_def One_nat_def)
  have wc: "waiting_count x = card (waiters m ?e)" using parts(3) x by (simp add: counts_inv_def)
  have out: "?t \<notin> waiters m ?e" using nb by (simp add: waiters_def)
  have w: "waiters m1 e1 = (if m1 = m then insert ?t (waiters m ?e) else waiters m1 ?e)" for m1
    unfolding e1 waiters_yielder using ti(1,3) y nb
    by (subst waiters_set_block) (auto simp: waiters_def)
  have "card (waiters m ?e) + 1 \<le> length (threads ?e)"
  proof -
    have "insert ?t (waiters m ?e) \<subseteq> {..<length (threads ?e)}" using ti(1) by (auto simp: waiters_def)
    then have "card (insert ?t (waiters m ?e)) \<le> card {..<length (threads ?e)}"
      by (intro card_mono) simp_all
    then show ?thesis using out by simp
  qed
  then have bound: "wadd32 (waiting_count x) 1 = card (waiters m ?e) + 1"
    using ti(2) wc by (simp add: wadd32_def)
  have mut: "mutexes e1 = (mutexes ?e)(m \<mapsto> ?y)" by (simp add: e1)
  have "counts_inv e1"
    using parts(3) out bound by (auto simp: counts_inv_def w mut)
  moreover have "mutexes_ok e1"
    using parts(1) okx mutexes_okD [OF parts(1) x] by (auto simp: mutexes_ok_def mut) (simp_all add: e1)
  moreover have "inside_inv e1 (inside s)"
    using parts(4) x by (auto simp: inside_inv_def mut e1 depth_def fun_eq_iff)
  moreover have "threads_inv (s\<lparr> s_env := e1, pend := (pend s)(?t \<mapsto> k) \<rparr>)"
  proof -
    have len: "length (threads e1) = length (threads ?e)" "current_thread e1 = ?t" "\<not> yielder e1"
      "active (threads e1 ! t) = active (threads ?e ! t)" for t
      by (simp_all add: e1)
    have blocks: "block_of u e1 = (if u = ?t then Mutex m else block_of u ?e)" for u
      using block_of_set_block [of ?t "put_mutex m ?y ?e"] ti(1) by (simp add: e1 block_of_def)
    have ex: "mutexes e1 m1 = None \<longleftrightarrow> mutexes ?e m1 = None" for m1 using x by (auto simp: mut)
    have "block_ok (Some (lock_rest m)) (Mutex m) (\<lambda>m. mutexes ?e m \<noteq> None) n" for n
      using x by (simp add: block_ok_def)
    then show ?thesis unfolding threads_inv_def Let_def
      using ti by (auto simp: len blocks ex k_eq simp del: not_None_eq)
  qed
  ultimately show ?thesis by (simp add: sys_inv_def)
qed

section \<open>One call\<close>

lemma suspend_same_waiters:
  "block_ok k b P n \<Longrightarrow>
   core (case b of Suspended n b \<Rightarrow> Suspended (n + 1) b | b \<Rightarrow> Suspended 1 b) = core b"
  by (cases b) (auto simp: block_ok_def)

lemma suspend_block_ok:
  "block_ok k b P n \<Longrightarrow>
   block_ok k (case b of Suspended n b \<Rightarrow> Suspended (n + 1) b | b \<Rightarrow> Suspended 1 b) P n"
  by (cases b) (auto simp: block_ok_def)

text \<open>\<open>set_block_keeps\<close> for another thread than the running one.\<close>

lemma set_other_keeps:
  assumes inv: "sys_inv s" and t: "t < length (threads (s_env s))" "t \<noteq> current_thread (s_env s)"
    and same: "active (threads (s_env s) ! t) \<Longrightarrow> core b = core (block_of t (s_env s))"
    and ok: "block_ok (pend s t) b (\<lambda>m. mutexes (s_env s) m \<noteq> None) (length (threads (s_env s)))
       \<or> \<not> active (threads (s_env s) ! t)"
    and y: "yielder (s_env s)"
  shows "sys_inv (s\<lparr> s_env := set_block t b (s_env s) \<rparr>)"
proof -
  have "sys_inv (s\<lparr> s_env := (set_block t b (s_env s))\<lparr> yielder := True \<rparr>, pend := pend s \<rparr>)"
    by (rule set_block_keeps [OF inv t(1)]) (use same ok t y in auto)
  moreover have "(set_block t b (s_env s))\<lparr> yielder := True \<rparr> = set_block t b (s_env s)"
    using y by (simp add: set_block_def)
  ultimately show ?thesis by simp
qed

lemma suspend_keeps:
  assumes inv: "sys_inv s" and y: "yielder (s_env s)"
    and call: "suspend_thread t (s_env s) = Some (Done v e1)"
  shows "sys_inv (s\<lparr> s_env := e1 \<rparr>)"
proof -
  let ?e = "s_env s"
  note ti = threads_invD [OF sys_invD(2) [OF inv]]
  have t: "t < length (threads ?e)"
    using call by (auto simp: suspend_thread_def thread_at_def split: if_splits)
  show ?thesis
  proof (cases "t = current_thread ?e")
    case True
    then show ?thesis using call t ti(4) y
      by (auto simp: suspend_thread_def thread_at_def block_of_def Let_def yield_thread_def
               bind_eq_Some_conv split: if_splits)
  next
    case False
    then have e1: "e1 = set_block t (case block_of t ?e of
         Suspended n b \<Rightarrow> Suspended (n + 1) b | b \<Rightarrow> Suspended 1 b) ?e"
      using call suspend_other [OF t] by simp
    show ?thesis unfolding e1
      by (rule set_other_keeps [OF inv t False])
         (use ti(7) [OF t] y suspend_same_waiters suspend_block_ok in blast)+
  qed
qed

lemma resume_keeps:
  assumes inv: "sys_inv s" and y: "yielder (s_env s)"
    and call: "resume_thread t (s_env s) = Some e1"
  shows "sys_inv (s\<lparr> s_env := e1 \<rparr>)"
proof -
  let ?e = "s_env s"
  note ti = threads_invD [OF sys_invD(2) [OF inv]]
  have t: "t < length (threads ?e)"
    using call by (auto simp: resume_thread_def thread_at_def split: if_splits)
  show ?thesis
  proof (cases "\<exists>n b. block_of t ?e = Suspended n b")
    case False
    then have "e1 = set_block t (block_of t ?e) ?e"
      using call t by (cases "block_of t ?e") (auto simp: resume_thread_def thread_at_def block_of_def)
    then show ?thesis using inv by (simp add: set_block_self)
  next
    case True
    then obtain n b where nb: "block_of t ?e = Suspended n b" by blast
    let ?b = "if 1 < n then Suspended (n - 1) b else b"
    have e1: "e1 = set_block t ?b ?e" "0 < n"
      using call t nb by (auto simp: resume_thread_def thread_at_def block_of_def split: if_splits)
    have "t \<noteq> current_thread ?e" using nb ti(4) y by auto
    moreover have "core ?b = core (block_of t ?e)"
      "block_ok (pend s t) ?b (\<lambda>m. mutexes ?e m \<noteq> None) (length (threads ?e))"
      if "active (threads ?e ! t)"
      using ti(7) [OF t that] nb by (cases b; simp add: block_ok_def)+
    ultimately show ?thesis unfolding e1 by (intro set_other_keeps [OF inv t]) (use y in blast)+
  qed
qed

lemma spawn_keeps:
  assumes inv: "sys_inv s" and room: "length (threads (s_env s)) < 4294967295"
    and call: "new_thread n (s_env s) = Some (i, e1)"
  shows "sys_inv (s\<lparr> s_env := e1 \<rparr>)"
proof -
  let ?e = "s_env s"
  note parts = sys_invD [OF inv]
  obtain mm th where e1: "e1 = ?e\<lparr> e_mem := mm, threads := threads ?e @ [th] \<rparr>"
    and th: "blocked_by th = NotBlocked"
    using call by (auto simp: new_thread_def bind_eq_Some_conv Let_def split: if_splits)
  have len: "length (threads e1) = length (threads ?e) + 1" by (simp add: e1)
  have blocks: "block_of t e1 = (if t < length (threads ?e) then block_of t ?e else NotBlocked)"
    "active (threads e1 ! t) = (if t < length (threads ?e) then active (threads ?e ! t) else active th)"
    if "t < length (threads e1)" for t
    using that len th by (auto simp: block_of_def e1 nth_append)
  have "waiters m e1 = waiters m ?e" for m
    using blocks len unfolding waiters_def by (auto split: if_splits)
  then have "counts_inv e1" using parts(3) by (simp add: counts_inv_def) (simp add: e1)
  moreover have "mutexes_ok e1" "inside_inv e1 (inside s)"
    using parts(1,4) by (simp_all add: mutexes_ok_def inside_inv_def e1)
  moreover have "threads_inv (s\<lparr> s_env := e1 \<rparr>)"
  proof -
    note ti = threads_invD [OF parts(2)]
    have same: "current_thread e1 = current_thread ?e" "yielder e1 = yielder ?e" "mutexes e1 = mutexes ?e"
      by (simp_all add: e1)
    have "block_ok (pend s t) (block_of t e1) (\<lambda>m. mutexes ?e m \<noteq> None) (length (threads ?e) + 1)"
      if "t < length (threads e1)" "active (threads e1 ! t)" for t
    proof (cases "t < length (threads ?e)")
      case True
      have "block_ok k b P m \<Longrightarrow> block_ok k b P (m + 1)" for k b P m
        by (auto simp: block_ok_def split: thread_block.splits)
      then show ?thesis using ti(7) [of t] that True blocks by simp
    next
      case False
      then show ?thesis using ti(6) [of t] that blocks by (simp add: block_ok_def)
    qed
    then show ?thesis unfolding threads_inv_def Let_def using ti room len blocks same by auto
  qed
  ultimately show ?thesis by (simp add: sys_inv_def)
qed

lemma yield_spec:
  assumes "yielder e"
  shows "yield_thread b e rest = Some c \<longleftrightarrow>
    (\<exists>th. thread_at (current_thread e) e = Some th \<and> \<not> is_blocked th \<and>
      c = Blocked ((set_block (current_thread e) b e)\<lparr> yielder := False \<rparr>)
            (\<lambda>e1. do { th1 \<leftarrow> thread_at (current_thread e1) e1;
               (if is_blocked th1 then None else rest (e1\<lparr> yielder := True \<rparr>)) }))"
  using assms by (auto simp: yield_thread_def bind_eq_Some_conv split: if_splits)

lemma yield_blocks:
  "yielder e \<Longrightarrow> yield_thread b e rest = Some c \<Longrightarrow> \<exists>e1 k. c = Blocked e1 k"
  unfolding yield_spec by blast

lemma quiet_blocked:
  assumes "yielder e" "yield_thread b e (\<lambda>e1. Some (v, e1)) = Some c"
  shows "\<exists>e1 k. c = Blocked e1 k \<and> yield_thread b e (\<lambda>e1. Some (Quiet, e1)) =
    Some (Blocked e1 (\<lambda>e1. map_option (\<lambda>(r, e2). (Quiet, e2)) (k e1)))"
proof -
  obtain th where th: "thread_at (current_thread e) e = Some th" "\<not> is_blocked th"
    and c: "c = Blocked ((set_block (current_thread e) b e)\<lparr> yielder := False \<rparr>)
            (\<lambda>e1. do { th1 \<leftarrow> thread_at (current_thread e1) e1;
               (if is_blocked th1 then None else Some (v, e1\<lparr> yielder := True \<rparr>)) })"
    using assms(2) unfolding yield_spec [OF assms(1)] by (elim exE conjE)
  have q: "yield_thread b e (\<lambda>e1. Some (Quiet, e1)) =
      Some (Blocked ((set_block (current_thread e) b e)\<lparr> yielder := False \<rparr>)
         (\<lambda>e1. do { th1 \<leftarrow> thread_at (current_thread e1) e1;
            (if is_blocked th1 then None else Some (Quiet, e1\<lparr> yielder := True \<rparr>)) }))"
    unfolding yield_spec [OF assms(1)] using th by blast
  show ?thesis by (rule exI, rule exI, rule conjI, rule c, simp only: q map_rest)
qed

lemma call_blocks_keeps:
  assumes inv: "sys_inv s" and y: "yielder (s_env s)"
    and call: "guest_step c (s_env s) = Some (Blocked e1 k)"
  shows "sys_inv (s\<lparr> s_env := e1, pend := (pend s)(current_thread (s_env s) \<mapsto> k) \<rparr>)"
proof -
  let ?e = "s_env s"
  note ti = threads_invD [OF sys_invD(2) [OF inv]]
  have idle: "set_block (current_thread ?e) NotBlocked ?e = ?e"
    using set_block_self [of "current_thread ?e" ?e] ti(4) y by simp
  have unit: ?thesis
    if q: "map_option (map_call (\<lambda>_. Quiet)) (yield_thread b ?e (\<lambda>e1. Some ((), e1))) = Some (Blocked e1 k)"
      and b: "core b = b \<or> b = Suspended 1 NotBlocked" "core b = NotBlocked \<or> (\<exists>u. core b = Sleeping u)" for b
  proof -
    obtain c where c: "yield_thread b ?e (\<lambda>e1. Some ((), e1)) = Some c" using q by auto
    from quiet_blocked [OF y this] obtain e2 k2 where *: "c = Blocked e2 k2"
      "yield_thread b ?e (\<lambda>e1. Some (Quiet, e1)) = Some (Blocked e2 (\<lambda>e1. map_option (\<lambda>(r, e2). (Quiet, e2)) (k2 e1)))"
      by blast
    then have "e2 = e1" "(\<lambda>e1. map_option (\<lambda>(r, e2). (Quiet, e2)) (k2 e1)) = k" using q c by simp_all
    then show ?thesis using yield_keeps [OF inv y, of b e1 k] * b by auto
  qed
  show ?thesis
  proof (cases c)
    case (Lock m)
    then obtain l where l: "lock_mutex m ?e = Some l" "map_call (Took m) l = Blocked e1 k"
      using call by auto
    then obtain k0 where "l = Blocked e1 k0" "k = (\<lambda>e1. map_option (\<lambda>(r, e2). (Took m r, e2)) (k0 e1))"
      by (cases l) auto
    then show ?thesis using lock_blocks_keeps [OF inv y] l(1) by simp
  next
    case (Sleep now d)
    then show ?thesis using unit [of "Sleeping (now + d)"] call by (simp add: sleep_def)
  next
    case Preempt
    then show ?thesis using yield_keeps [OF inv y, of NotBlocked e1 k] call by simp
  next
    case (Suspend t)
    show ?thesis
    proof (cases "t = current_thread ?e")
      case True
      then have "suspend_thread t ?e = yield_thread (Suspended 1 NotBlocked) ?e (\<lambda>e1. Some ((), e1))"
        using ti(1,4) y idle by (simp add: suspend_thread_def thread_at_def block_of_def Let_def)
      then show ?thesis using unit [of "Suspended 1 NotBlocked"] call Suspend by simp
    next
      case False
      then have "t < length (threads ?e) \<Longrightarrow> \<exists>e2. suspend_thread t ?e = Some (Done () e2)"
        using suspend_other [of t ?e] by blast
      moreover have "\<not> t < length (threads ?e) \<Longrightarrow> suspend_thread t ?e = None"
        by (simp add: suspend_thread_def thread_at_def)
      ultimately show ?thesis using call Suspend by (cases "t < length (threads ?e)") auto
    qed
  next
    case (Join t)
    then show ?thesis using yield_keeps [OF inv y, of "Joining t 0" e1 k] call
      by (auto simp: join_with_thread_def split: if_splits)
  qed (use call in \<open>auto split: if_splits\<close>)
qed

lemma call_returns_keeps:
  assumes inv: "sys_inv s" and y: "yielder (s_env s)"
    and call: "guest_step c (s_env s) = Some (Done ev e1)"
  shows "sys_inv (s\<lparr> s_env := e1, inside := count_lock ev (current_thread (s_env s)) (inside s) \<rparr>)"
proof -
  let ?e = "s_env s"
  note ti = threads_invD [OF sys_invD(2) [OF inv]]
  show ?thesis
  proof (cases c)
    case (Lock m)
    then obtain l where l: "lock_mutex m ?e = Some l" "map_call (Took m) l = Done ev e1"
      using call by auto
    then obtain r where "l = Done r e1" "ev = Took m r" by (cases l) auto
    then show ?thesis using lock_returns_keeps [OF inv y] l(1) by simp
  next
    case (Unlock m)
    then show ?thesis using call unlock_keeps [OF inv] by auto
  next
    case (Init kind)
    then show ?thesis using call init_keeps [OF inv] by auto
  next
    case (Destroy m)
    then show ?thesis using call destroy_keeps [OF inv] by auto
  next
    case (Resume t)
    then show ?thesis using call resume_keeps [OF inv y] by auto
  next
    case (Suspend t)
    then show ?thesis using call suspend_keeps [OF inv y] by (cases "suspend_thread t ?e") (auto elim: map_call.elims)
  next
    case (Spawn n)
    then show ?thesis using call spawn_keeps [OF inv] by (auto split: if_splits)
  qed (use call yield_blocks [OF y] in \<open>force simp: sleep_def join_with_thread_def split: if_splits\<close>)+
qed

end
