(* ===== verification/Guest_Values.thy ===== *)
theory Guest_Values
  imports Memory_Access
begin

text \<open>
  Numbers and structs in guest memory: little-endian, packed, signed values in two's complement.
  The lemmas say when a struct that was written reads back, as a whole and by its first word.
\<close>

section \<open>Numbers\<close>

definition i32_bytes :: "int \<Rightarrow> u8 list" where
  "i32_bytes v = to_le_bytes 4 (nat (v mod 4294967296))"

definition i32_of_bytes :: "u8 list \<Rightarrow> int" where
  "i32_of_bytes bs =
     (let n = int (from_le_bytes bs) in if n < 2147483648 then n else n - 4294967296)"

definition i32 :: "int \<Rightarrow> bool" where
  "i32 v = (-2147483648 \<le> v \<and> v < 2147483648)"

definition read_u32 :: "mem \<Rightarrow> nat \<Rightarrow> nat option" where
  "read_u32 m p = map_option from_le_bytes (mem_read 4 m p)"

definition read_i32 :: "mem \<Rightarrow> nat \<Rightarrow> int option" where
  "read_i32 m p = map_option i32_of_bytes (mem_read 4 m p)"

definition write_u32 :: "mem \<Rightarrow> nat \<Rightarrow> nat \<Rightarrow> mem option" where
  "write_u32 m p v = mem_write m p (to_le_bytes 4 v)"

definition write_i32 :: "mem \<Rightarrow> nat \<Rightarrow> int \<Rightarrow> mem option" where
  "write_i32 m p v = mem_write m p (i32_bytes v)"

text \<open>The bytes of a struct from offset \<open>i\<close>, \<open>n\<close> of them.\<close>

definition field :: "nat \<Rightarrow> nat \<Rightarrow> u8 list \<Rightarrow> u8 list" where
  "field i n bs = take n (drop i bs)"

lemma i32_bytes_length [simp]: "length (i32_bytes v) = 4"
  by (simp add: i32_bytes_def)

lemma i32_roundtrip: "i32 v \<Longrightarrow> i32_of_bytes (i32_bytes v) = v"
proof -
  assume v: "i32 v"
  have "from_le_bytes (i32_bytes v) = nat (v mod 4294967296)"
    by (simp add: i32_bytes_def from_to_le nat_less_iff)
  then have "int (from_le_bytes (i32_bytes v)) = v mod 4294967296" by simp
  moreover have "v mod 4294967296 = (if 0 \<le> v then v else v + 4294967296)"
  proof (cases "0 \<le> v")
    case False
    have "(v + 4294967296) mod 4294967296 = v mod 4294967296" by simp
    moreover have "(v + 4294967296) mod 4294967296 = v + 4294967296"
      using False v by (intro mod_pos_pos_trivial) (simp_all add: i32_def)
    ultimately show ?thesis using False by simp
  qed (use v in \<open>simp add: i32_def\<close>)
  ultimately show ?thesis using v by (simp add: i32_of_bytes_def i32_def Let_def)
qed

lemma field_append1 [simp]: "length xs = n \<Longrightarrow> field 0 n (xs @ ys) = xs"
  by (simp add: field_def)

lemma field_append2 [simp]: "i = length xs \<Longrightarrow> field i n (xs @ ys) = field 0 n ys"
  by (simp add: field_def)

lemma field_all [simp]: "length xs = n \<Longrightarrow> field 0 n xs = xs"
  by (simp add: field_def)

lemma field_skip [simp]: "length xs \<le> i \<Longrightarrow> field i n (xs @ ys) = field (i - length xs) n ys"
  by (simp add: field_def)

section \<open>Structs\<close>

lemma ordinary_write:
  assumes "ordinary m p (length bs)" "bs \<noteq> []"
  shows "\<exists>m1. mem_write m p bs = Some m1 \<and> m1 = m\<lparr> mbytes := put_bytes p bs (mbytes m) \<rparr>"
  using write_ordinary [OF assms] by blast

text \<open>The prefix of a struct that has just been written, and the whole of it.\<close>

lemma read_prefix:
  assumes "ordinary m p (length bs)" "n \<le> length bs" "length bs < 4294967296"
  shows "mem_read n (m\<lparr> mbytes := put_bytes p bs (mbytes m) \<rparr>) p = Some (take n bs)"
proof -
  let ?m = "m\<lparr> mbytes := put_bytes p bs (mbytes m) \<rparr>"
  have "ordinary ?m p n" using ordinary_sub [OF assms(1), of p n] assms(2) by simp
  then have "mem_read n ?m p = Some (map (\<lambda>i. mbytes ?m (p + i)) [0..<n])"
    using assms by (intro read_ordinary) simp_all
  also have "map (\<lambda>i. mbytes ?m (p + i)) [0..<n] = take n bs"
    by (rule nth_equalityI) (use assms(2) in \<open>simp_all add: put_bytes_def\<close>)
  finally show ?thesis .
qed

lemma read_apart:
  assumes "ordinary m q n" "n < 4294967296" "q + n \<le> p \<or> p + length bs \<le> q"
  shows "mem_read n (m\<lparr> mbytes := put_bytes p bs (mbytes m) \<rparr>) q = mem_read n m q"
proof -
  have "mem_read n (m\<lparr> mbytes := put_bytes p bs (mbytes m) \<rparr>) q =
      Some (map (\<lambda>i. put_bytes p bs (mbytes m) (q + i)) [0..<n])"
    using read_ordinary [of "m\<lparr> mbytes := put_bytes p bs (mbytes m) \<rparr>" q n] assms by simp
  also have "map (\<lambda>i. put_bytes p bs (mbytes m) (q + i)) [0..<n] = map (\<lambda>i. mbytes m (q + i)) [0..<n]"
    using assms(3) by (auto simp: put_bytes_def)
  finally show ?thesis using read_ordinary [OF assms(1,2)] by simp
qed

lemma read_total:
  assumes "ordinary m p n" "n < 4294967296"
  shows "\<exists>bs. mem_read n m p = Some bs \<and> length bs = n"
  using read_ordinary [OF assms] by simp

lemma field_take: "i + n \<le> k \<Longrightarrow> field i n (take k bs) = field i n bs"
  by (simp add: field_def drop_take min_absorb1)

text \<open>Reading the first word of a struct that can be read as a whole.\<close>

lemma read_first:
  assumes "ordinary m p n" "n < 4294967296" "k \<le> n" "mem_read n m p = Some bs"
  shows "mem_read k m p = Some (take k bs)"
proof -
  have "mem_read k m p = Some (map (\<lambda>i. mbytes m (p + i)) [0..<k])"
    using ordinary_sub [OF assms(1), of p k] assms(2,3) by (intro read_ordinary) simp_all
  moreover have "bs = map (\<lambda>i. mbytes m (p + i)) [0..<n]" using read_ordinary [OF assms(1,2)] assms(4) by simp
  ultimately show ?thesis using assms(3) by (simp add: take_map min_def)
qed

section \<open>Words\<close>

definition ranges_apart :: "nat \<Rightarrow> nat \<Rightarrow> nat \<Rightarrow> nat \<Rightarrow> bool" where
  "ranges_apart p n q k = (p + n \<le> q \<or> q + k \<le> p)"

text \<open>A word that was written reads back, and the words apart from it are as before.\<close>

lemma word_write:
  assumes "ordinary m p 4" "v < 4294967296"
  shows "\<exists>m1. write_u32 m p v = Some m1 \<and> m1 = m\<lparr> mbytes := put_bytes p (to_le_bytes 4 v) (mbytes m) \<rparr>
    \<and> read_u32 m1 p = Some v
    \<and> (\<forall>q. ordinary m q 4 \<and> ranges_apart q 4 p 4 \<longrightarrow> read_u32 m1 q = read_u32 m q)"
proof -
  let ?bs = "to_le_bytes 4 v"
  let ?m = "m\<lparr> mbytes := put_bytes p ?bs (mbytes m) \<rparr>"
  have len: "length ?bs = 4" by simp
  have o: "ordinary m p (length ?bs)" using assms(1) by simp
  have ne: "?bs \<noteq> []" using len by (metis list.size(3) zero_neq_numeral)
  have w: "write_u32 m p v = Some ?m" using write_ordinary [OF o ne] by (simp add: write_u32_def)
  have "mem_read 4 ?m p = Some (take 4 ?bs)" using o len by (intro read_prefix) simp_all
  then have r: "read_u32 ?m p = Some v" using assms(2) len by (simp add: read_u32_def from_to_le)
  have a: "read_u32 ?m q = read_u32 m q" if q: "ordinary m q 4" "ranges_apart q 4 p 4" for q
  proof -
    have "mem_read 4 ?m q = mem_read 4 m q"
      using q len by (intro read_apart) (simp_all add: ranges_apart_def)
    then show ?thesis by (simp add: read_u32_def)
  qed
  show ?thesis using w r a by blast
qed

section \<open>Lengths and bounds\<close>

lemma from_le_bytes_bound: "from_le_bytes bs < 256 ^ length bs"
proof (induction bs)
  case (Cons b bs)
  have "unat b < 2 ^ LENGTH(8)" by (rule unsigned_less)
  then have "unat b + 256 * from_le_bytes bs < 256 + 256 * from_le_bytes bs" by simp
  also have "\<dots> = 256 * (from_le_bytes bs + 1)" by simp
  also have "\<dots> \<le> 256 * 256 ^ length bs" using Cons by (intro mult_le_mono2) simp
  finally show ?case by (simp add: from_le_Cons)
qed (simp add: from_le_Nil)

lemma mem_read_length: "mem_read n m p = Some bs \<Longrightarrow> length bs = n"
proof -
  assume "mem_read n m p = Some bs"
  then obtain "\<not> slice_len (bytes_at m p n) < n" "length bs = slice_len (bytes_at m p n)"
    by (auto simp: mem_read_def ptr_at_def checked_mul32_def bind_eq_Some_conv slice_bytes_def split: if_splits)
  moreover have "slice_len (bytes_at m p n) \<le> n" by (simp add: bytes_at_def)
  ultimately show ?thesis by simp
qed

end
