(* ===== verification/Pthread_Mutex.thy ===== *)
theory Pthread_Mutex
  imports Mutex_Safety Guest_Values
begin

text \<open>
  The guest's mutexes and read-write locks: \<open>src/libc/pthread/mutex.rs\<close> and
  \<open>src/libc/pthread/rwlock.rs\<close>.  A guest object is a struct in guest memory with a magic number
  and the identifier of a host mutex; an object with the magic number of a static initialiser is
  registered when it is first used.
\<close>

section \<open>Magic numbers\<close>

definition MAGIC_MUTEXATTR :: nat where "MAGIC_MUTEXATTR = 0x4D754174"
definition MAGIC_MUTEX :: nat where "MAGIC_MUTEX = 0x4D555458"
definition MAGIC_MUTEX_STATIC :: nat where "MAGIC_MUTEX_STATIC = 0x32AAABA7"
definition MAGIC_RWLOCKATTR :: nat where "MAGIC_RWLOCKATTR = 0x52774174"
definition MAGIC_RWLOCK :: nat where "MAGIC_RWLOCK = 0x52574C4B"
definition MAGIC_RWLOCK_STATIC :: nat where "MAGIC_RWLOCK_STATIC = 0x2DA8B3B4"

lemmas magic_defs = MAGIC_MUTEXATTR_def MAGIC_MUTEX_def MAGIC_MUTEX_STATIC_def
  MAGIC_RWLOCKATTR_def MAGIC_RWLOCK_def MAGIC_RWLOCK_STATIC_def

text \<open>The macro \<open>check_magic!\<close>: return \<open>EINVAL\<close> from the function unless the magic number is right.\<close>

definition check_magic :: "nat \<Rightarrow> nat \<Rightarrow> env \<Rightarrow> (int \<times> env) option \<Rightarrow> (int \<times> env) option" where
  "check_magic expected p e body = do {
     actual \<leftarrow> read_u32 (e_mem e) p;
     (if actual \<noteq> expected then Some (EINVAL, e) else body) }"

definition put_mem :: "env \<Rightarrow> mem option \<Rightarrow> int \<Rightarrow> (int \<times> env) option" where
  "put_mem e m r = map_option (\<lambda>m1. (r, e\<lparr> e_mem := m1 \<rparr>)) m"

section \<open>Mutex attributes\<close>

record mutexattr =
  ma_magic :: nat
  ma_type :: int
  ma_unused :: nat

definition mutexattr_bytes :: "mutexattr \<Rightarrow> u8 list" where
  "mutexattr_bytes a = to_le_bytes 4 (ma_magic a) @ i32_bytes (ma_type a) @ to_le_bytes 4 (ma_unused a)"

definition read_mutexattr :: "mem \<Rightarrow> nat \<Rightarrow> mutexattr option" where
  "read_mutexattr m p = map_option (\<lambda>bs. \<lparr> ma_magic = from_le_bytes (field 0 4 bs),
     ma_type = i32_of_bytes (field 4 4 bs), ma_unused = from_le_bytes (field 8 4 bs) \<rparr>) (mem_read 12 m p)"

definition pthread_mutexattr_init :: "nat \<Rightarrow> env \<Rightarrow> (int \<times> env) option" where
  "pthread_mutexattr_init attr e =
     put_mem e (mem_write (e_mem e) attr
       (mutexattr_bytes \<lparr> ma_magic = MAGIC_MUTEXATTR, ma_type = 0, ma_unused = 0 \<rparr>)) 0"

definition pthread_mutexattr_setpshared :: "nat \<Rightarrow> int \<Rightarrow> env \<Rightarrow> (int \<times> env) option" where
  "pthread_mutexattr_setpshared attr pshared e =
     check_magic MAGIC_MUTEXATTR attr e (if pshared \<noteq> 2 then None else Some (0, e))"

definition pthread_mutexattr_settype :: "nat \<Rightarrow> int \<Rightarrow> env \<Rightarrow> (int \<times> env) option" where
  "pthread_mutexattr_settype attr kind e =
     check_magic MAGIC_MUTEXATTR attr e (do {
       attr_copy \<leftarrow> read_mutexattr (e_mem e) attr;
       put_mem e (mem_write (e_mem e) attr (mutexattr_bytes (attr_copy\<lparr> ma_type := kind \<rparr>))) 0 })"

definition pthread_mutexattr_gettype :: "nat \<Rightarrow> nat \<Rightarrow> env \<Rightarrow> (int \<times> env) option" where
  "pthread_mutexattr_gettype attr type_out e =
     check_magic MAGIC_MUTEXATTR attr e
       (if type_out = 0 then Some (EINVAL, e)
        else do {
          attr_copy \<leftarrow> read_mutexattr (e_mem e) attr;
          put_mem e (write_i32 (e_mem e) type_out (ma_type attr_copy)) 0 })"

definition pthread_mutexattr_setprotocol :: "nat \<Rightarrow> int \<Rightarrow> env \<Rightarrow> (int \<times> env) option" where
  "pthread_mutexattr_setprotocol attr protocol e =
     check_magic MAGIC_MUTEXATTR attr e
       (if protocol = 0 \<or> protocol = 1 \<or> protocol = 2 then Some (0, e) else Some (EINVAL, e))"

definition pthread_mutexattr_getprotocol :: "nat \<Rightarrow> nat \<Rightarrow> env \<Rightarrow> (int \<times> env) option" where
  "pthread_mutexattr_getprotocol attr out e =
     check_magic MAGIC_MUTEXATTR attr e
       (if out = 0 then Some (EINVAL, e) else put_mem e (write_i32 (e_mem e) out 0) 0)"

definition pthread_mutexattr_setprioceiling :: "nat \<Rightarrow> int \<Rightarrow> env \<Rightarrow> (int \<times> env) option" where
  "pthread_mutexattr_setprioceiling attr ceiling e = check_magic MAGIC_MUTEXATTR attr e (Some (0, e))"

definition pthread_mutexattr_getprioceiling :: "nat \<Rightarrow> nat \<Rightarrow> env \<Rightarrow> (int \<times> env) option" where
  "pthread_mutexattr_getprioceiling attr out e =
     check_magic MAGIC_MUTEXATTR attr e
       (if out = 0 then Some (EINVAL, e) else put_mem e (write_i32 (e_mem e) out 0) 0)"

definition pthread_mutexattr_destroy :: "nat \<Rightarrow> env \<Rightarrow> (int \<times> env) option" where
  "pthread_mutexattr_destroy attr e =
     check_magic MAGIC_MUTEXATTR attr e
       (put_mem e (mem_write (e_mem e) attr (mutexattr_bytes \<lparr> ma_magic = 0, ma_type = 0, ma_unused = 0 \<rparr>)) 0)"

section \<open>Mutexes\<close>

record guest_lock =
  gl_magic :: nat
  gl_id :: nat

definition lock_bytes :: "guest_lock \<Rightarrow> u8 list" where
  "lock_bytes g = to_le_bytes 4 (gl_magic g) @ to_le_bytes 8 (gl_id g)"

definition read_lock :: "mem \<Rightarrow> nat \<Rightarrow> guest_lock option" where
  "read_lock m p = map_option (\<lambda>bs. \<lparr> gl_magic = from_le_bytes (field 0 4 bs),
     gl_id = from_le_bytes (field 4 8 bs) \<rparr>) (mem_read 12 m p)"

definition pthread_mutex_init :: "nat \<Rightarrow> nat \<Rightarrow> env \<Rightarrow> (int \<times> env) option" where
  "pthread_mutex_init mutex attr e =
     (let start = (\<lambda>kind. do {
        (mutex_id, e1) \<leftarrow> init_mutex kind e;
        put_mem e1 (mem_write (e_mem e1) mutex (lock_bytes \<lparr> gl_magic = MAGIC_MUTEX, gl_id = mutex_id \<rparr>)) 0 })
      in if attr \<noteq> 0 then
           check_magic MAGIC_MUTEXATTR attr e (do {
             a \<leftarrow> read_mutexattr (e_mem e) attr;
             kind \<leftarrow> mutex_type_of (ma_type a);
             start kind })
         else start PTHREAD_MUTEX_NORMAL)"

definition check_or_register_mutex :: "nat \<Rightarrow> env \<Rightarrow> ((int + unit) \<times> env) option" where
  "check_or_register_mutex mutex e = do {
     magic \<leftarrow> read_u32 (e_mem e) mutex;
     (if magic = MAGIC_MUTEX_STATIC then do {
        (_, e1) \<leftarrow> pthread_mutex_init mutex 0 e;
        Some (Inr (), e1) }
      else if magic = MAGIC_MUTEX then Some (Inr (), e)
      else Some (Inl EINVAL, e)) }"

text \<open>\<open>result.err().unwrap_or(0)\<close>.\<close>

fun errno_of :: "int + 'a \<Rightarrow> int" where
  "errno_of (Inl err) = err"
| "errno_of (Inr _) = 0"

definition pthread_mutex_lock :: "nat \<Rightarrow> env \<Rightarrow> int call option" where
  "pthread_mutex_lock mutex e = do {
     (r, e1) \<leftarrow> check_or_register_mutex mutex e;
     (case r of
        Inl err \<Rightarrow> Some (Done err e1)
      | Inr _ \<Rightarrow> do {
          mutex_data \<leftarrow> read_lock (e_mem e1) mutex;
          c \<leftarrow> lock_mutex (gl_id mutex_data) e1;
          Some (map_call errno_of c) }) }"

definition pthread_mutex_trylock :: "nat \<Rightarrow> env \<Rightarrow> int call option" where
  "pthread_mutex_trylock mutex e = do {
     (r, e1) \<leftarrow> check_or_register_mutex mutex e;
     (case r of
        Inl err \<Rightarrow> Some (Done err e1)
      | Inr _ \<Rightarrow> do {
          mutex_data \<leftarrow> read_lock (e_mem e1) mutex;
          (if mutex_is_locked (gl_id mutex_data) e1 \<and>
              \<not> (mutex_is_recursive (gl_id mutex_data) e1 \<and>
                 mutex_is_locked_by (gl_id mutex_data) (current_thread e1) e1)
           then Some (Done EBUSY e1)
           else pthread_mutex_lock mutex e1) }) }"

definition pthread_mutex_unlock :: "nat \<Rightarrow> env \<Rightarrow> (int \<times> env) option" where
  "pthread_mutex_unlock mutex e = do {
     (r, e1) \<leftarrow> check_or_register_mutex mutex e;
     (case r of
        Inl err \<Rightarrow> Some (err, e1)
      | Inr _ \<Rightarrow> do {
          mutex_data \<leftarrow> read_lock (e_mem e1) mutex;
          (r1, e2) \<leftarrow> unlock_mutex (gl_id mutex_data) e1;
          Some (errno_of r1, e2) }) }"

definition pthread_mutex_destroy :: "nat \<Rightarrow> env \<Rightarrow> (int \<times> env) option" where
  "pthread_mutex_destroy mutex e = do {
     (r, e1) \<leftarrow> check_or_register_mutex mutex e;
     (case r of
        Inl err \<Rightarrow> Some (err, e1)
      | Inr _ \<Rightarrow> do {
          mutex_data \<leftarrow> read_lock (e_mem e1) mutex;
          m1 \<leftarrow> mem_write (e_mem e1) mutex (lock_bytes \<lparr> gl_magic = 0, gl_id = 0xFFFFFFFFFFFFFFFF \<rparr>);
          (r1, e2) \<leftarrow> destroy_mutex (gl_id mutex_data) (e1\<lparr> e_mem := m1 \<rparr>);
          Some (errno_of r1, e2) }) }"

section \<open>Read-write locks\<close>

definition rwlockattr_bytes :: "nat \<Rightarrow> u8 list" where
  "rwlockattr_bytes magic = to_le_bytes 4 magic @ replicate 16 0"

definition pthread_rwlockattr_init :: "nat \<Rightarrow> env \<Rightarrow> (int \<times> env) option" where
  "pthread_rwlockattr_init attr e = put_mem e (mem_write (e_mem e) attr (rwlockattr_bytes MAGIC_RWLOCKATTR)) 0"

definition pthread_rwlockattr_destroy :: "nat \<Rightarrow> env \<Rightarrow> (int \<times> env) option" where
  "pthread_rwlockattr_destroy attr e =
     check_magic MAGIC_RWLOCKATTR attr e (put_mem e (mem_write (e_mem e) attr (rwlockattr_bytes 0)) 0)"

definition pthread_rwlockattr_setpshared :: "nat \<Rightarrow> int \<Rightarrow> env \<Rightarrow> (int \<times> env) option" where
  "pthread_rwlockattr_setpshared attr pshared e = check_magic MAGIC_RWLOCKATTR attr e (Some (0, e))"

definition pthread_rwlockattr_getpshared :: "nat \<Rightarrow> nat \<Rightarrow> env \<Rightarrow> (int \<times> env) option" where
  "pthread_rwlockattr_getpshared attr pshared e =
     check_magic MAGIC_RWLOCKATTR attr e
       (if pshared = 0 then Some (EINVAL, e) else put_mem e (write_i32 (e_mem e) pshared 2) 0)"

definition pthread_rwlock_init :: "nat \<Rightarrow> nat \<Rightarrow> env \<Rightarrow> (int \<times> env) option" where
  "pthread_rwlock_init rwlock attr e =
     (let body = (do {
        (rwlock_id, e1) \<leftarrow> init_mutex PTHREAD_MUTEX_NORMAL e;
        put_mem e1 (mem_write (e_mem e1) rwlock (lock_bytes \<lparr> gl_magic = MAGIC_RWLOCK, gl_id = rwlock_id \<rparr>)) 0 })
      in if attr \<noteq> 0 then check_magic MAGIC_RWLOCKATTR attr e body else body)"

definition check_or_register_rwlock :: "nat \<Rightarrow> env \<Rightarrow> ((int + unit) \<times> env) option" where
  "check_or_register_rwlock rwlock e = do {
     magic \<leftarrow> read_u32 (e_mem e) rwlock;
     (if magic = MAGIC_RWLOCK_STATIC then do {
        (_, e1) \<leftarrow> pthread_rwlock_init rwlock 0 e;
        Some (Inr (), e1) }
      else if magic = MAGIC_RWLOCK then Some (Inr (), e)
      else Some (Inl EINVAL, e)) }"

definition lock_inner :: "nat \<Rightarrow> env \<Rightarrow> int call option" where
  "lock_inner rwlock e = do {
     (r, e1) \<leftarrow> check_or_register_rwlock rwlock e;
     (case r of
        Inl err \<Rightarrow> Some (Done err e1)
      | Inr _ \<Rightarrow> do {
          g \<leftarrow> read_lock (e_mem e1) rwlock;
          c \<leftarrow> lock_mutex (gl_id g) e1;
          Some (map_call errno_of c) }) }"

definition trylock_inner :: "nat \<Rightarrow> env \<Rightarrow> int call option" where
  "trylock_inner rwlock e = do {
     (r, e1) \<leftarrow> check_or_register_rwlock rwlock e;
     (case r of
        Inl err \<Rightarrow> Some (Done err e1)
      | Inr _ \<Rightarrow> do {
          g \<leftarrow> read_lock (e_mem e1) rwlock;
          (if mutex_is_locked (gl_id g) e1 then Some (Done EBUSY e1)
           else do {
             c \<leftarrow> lock_mutex (gl_id g) e1;
             Some (map_call errno_of c) }) }) }"

definition pthread_rwlock_rdlock :: "nat \<Rightarrow> env \<Rightarrow> int call option" where
  "pthread_rwlock_rdlock rwlock e = lock_inner rwlock e"

definition pthread_rwlock_tryrdlock :: "nat \<Rightarrow> env \<Rightarrow> int call option" where
  "pthread_rwlock_tryrdlock rwlock e = trylock_inner rwlock e"

definition pthread_rwlock_wrlock :: "nat \<Rightarrow> env \<Rightarrow> int call option" where
  "pthread_rwlock_wrlock rwlock e = lock_inner rwlock e"

definition pthread_rwlock_trywrlock :: "nat \<Rightarrow> env \<Rightarrow> int call option" where
  "pthread_rwlock_trywrlock rwlock e = trylock_inner rwlock e"

definition pthread_rwlock_unlock :: "nat \<Rightarrow> env \<Rightarrow> (int \<times> env) option" where
  "pthread_rwlock_unlock rwlock e = do {
     (r, e1) \<leftarrow> check_or_register_rwlock rwlock e;
     (case r of
        Inl err \<Rightarrow> Some (err, e1)
      | Inr _ \<Rightarrow> do {
          g \<leftarrow> read_lock (e_mem e1) rwlock;
          (r1, e2) \<leftarrow> unlock_mutex (gl_id g) e1;
          Some (errno_of r1, e2) }) }"

definition pthread_rwlock_destroy :: "nat \<Rightarrow> env \<Rightarrow> (int \<times> env) option" where
  "pthread_rwlock_destroy rwlock e = do {
     (r, e1) \<leftarrow> check_or_register_rwlock rwlock e;
     (case r of
        Inl err \<Rightarrow> Some (err, e1)
      | Inr _ \<Rightarrow> do {
          g \<leftarrow> read_lock (e_mem e1) rwlock;
          m1 \<leftarrow> mem_write (e_mem e1) rwlock (lock_bytes \<lparr> gl_magic = 0, gl_id = 0xFFFFFFFFFFFFFFFF \<rparr>);
          (r1, e2) \<leftarrow> destroy_mutex (gl_id g) (e1\<lparr> e_mem := m1 \<rparr>);
          Some (errno_of r1, e2) }) }"

end
