(* ===== verification/Pthread_Locks.thy ===== *)
theory Pthread_Locks
  imports Pthread_Mutex
begin

text \<open>
  What guest mutexes and read-write locks promise.  Both are the same construction over a host
  mutex: the locale below states it once, is interpreted for both, and its lemmas are the facts
  the properties rest on.
\<close>

section \<open>The struct in guest memory\<close>

lemma lock_bytes_length [simp]: "length (lock_bytes g) = 12" "lock_bytes g \<noteq> []"
proof -
  show "length (lock_bytes g) = 12" by (simp add: lock_bytes_def)
  then show "lock_bytes g \<noteq> []" by (metis list.size(3) zero_neq_numeral)
qed

lemma write_lock:
  assumes "ordinary m p 12"
  shows "mem_write m p (lock_bytes g) = Some (m\<lparr> mbytes := put_bytes p (lock_bytes g) (mbytes m) \<rparr>)"
  using write_ordinary [of m p "lock_bytes g"] assms by simp

lemma read_written_lock:
  assumes "ordinary m p 12" "gl_magic g < 4294967296" "gl_id g < 18446744073709551616"
  shows "read_lock (m\<lparr> mbytes := put_bytes p (lock_bytes g) (mbytes m) \<rparr>) p = Some g"
    "read_u32 (m\<lparr> mbytes := put_bytes p (lock_bytes g) (mbytes m) \<rparr>) p = Some (gl_magic g)"
proof -
  have "mem_read 12 (m\<lparr> mbytes := put_bytes p (lock_bytes g) (mbytes m) \<rparr>) p = Some (lock_bytes g)"
    using read_prefix [of m p "lock_bytes g" 12] assms(1) by simp
  then show "read_lock (m\<lparr> mbytes := put_bytes p (lock_bytes g) (mbytes m) \<rparr>) p = Some g"
    using assms(2,3) by (simp add: read_lock_def lock_bytes_def from_to_le)
  have "mem_read 4 (m\<lparr> mbytes := put_bytes p (lock_bytes g) (mbytes m) \<rparr>) p = Some (to_le_bytes 4 (gl_magic g))"
    using read_prefix [of m p "lock_bytes g" 4] assms(1) by (simp add: lock_bytes_def)
  then show "read_u32 (m\<lparr> mbytes := put_bytes p (lock_bytes g) (mbytes m) \<rparr>) p = Some (gl_magic g)"
    using assms(2) by (simp add: read_u32_def from_to_le)
qed

section \<open>Outcomes of locking\<close>

lemma lock_mutex_cases:
  assumes "lock_mutex m e = Some c" "yielder e"
  obtains (free) x where "mutexes e m = Some x" "locked x = None"
      "c = Done (Inr 1) (put_mutex m (x\<lparr> locked := Some (current_thread e, 1) \<rparr>) e)"
    | (own) x k where "mutexes e m = Some x" "locked x = Some (current_thread e, k)"
      "mutex_kind x \<noteq> PTHREAD_MUTEX_RECURSIVE" "c = Done (Inl EDEADLK) e"
    | (again) x k where "mutexes e m = Some x" "locked x = Some (current_thread e, k)"
      "mutex_kind x = PTHREAD_MUTEX_RECURSIVE"
      "c = Done (Inr (k + 1)) (put_mutex m (x\<lparr> locked := Some (current_thread e, k + 1) \<rparr>) e)"
    | (blocked) x u k e1 q where "mutexes e m = Some x" "locked x = Some (u, k)" "u \<noteq> current_thread e"
      "c = Blocked e1 q"
proof -
  obtain x where x: "mutexes e m = Some x"
    using assms(1) by (cases "mutexes e m") (simp_all add: lock_mutex_def)
  consider "locked x = None" | k where "locked x = Some (current_thread e, k)"
    | u k where "locked x = Some (u, k)" "u \<noteq> current_thread e"
    by (cases "locked x") auto
  then show ?thesis
  proof cases
    case 1
    then show ?thesis using free x assms(1) by (auto simp: lock_mutex_def)
  next
    case (2 k)
    show ?thesis
    proof (cases "mutex_kind x = PTHREAD_MUTEX_RECURSIVE")
      case True
      then have "c = Done (Inr (k + 1)) (put_mutex m (x\<lparr> locked := Some (current_thread e, k + 1) \<rparr>) e)"
        using x 2 assms(1) by (auto simp: lock_mutex_def split: if_splits)
      then show ?thesis using again x 2 True by blast
    next
      case False
      then have "c = Done (Inl EDEADLK) e"
        using x 2 assms(1) by (auto simp: lock_mutex_def split: mutex_type.splits)
      then show ?thesis using own x 2 False by blast
    qed
  next
    case (3 u k)
    then have "\<exists>e1 q. c = Blocked e1 q"
      using x assms by (auto simp: lock_mutex_def block_on_mutex_def yield_thread_def bind_eq_Some_conv split: if_splits)
    then show ?thesis using blocked x 3 by blast
  qed
qed

section \<open>The contract\<close>

locale guest_lock_ops =
  fixes handle :: "nat \<Rightarrow> env \<Rightarrow> ((int + nat) \<times> env) option"
    and lock :: "nat \<Rightarrow> env \<Rightarrow> int call option"
    and try_lock :: "nat \<Rightarrow> env \<Rightarrow> int call option"
    and unlock :: "nat \<Rightarrow> env \<Rightarrow> (int \<times> env) option"
    and reentrant :: bool
  assumes handle_again: "ordinary (e_mem e) p 12 \<Longrightarrow> handle p e = Some (Inr i, e1) \<Longrightarrow>
      handle p e1 = Some (Inr i, e1)"
    and handle_frame: "handle p e = Some (r, e1) \<Longrightarrow>
      threads e1 = threads e \<and> current_thread e1 = current_thread e \<and> yielder e1 = yielder e"
    and handle_err: "handle p e = Some (Inl err, e1) \<Longrightarrow> err = EINVAL \<and> e1 = e"
    and handle_ok: "handle p e = Some (r, e1) \<Longrightarrow> mutexes_ok e \<Longrightarrow> mutexes_ok e1"
    and handle_put: "handle p e = Some (Inr i, e) \<Longrightarrow>
      handle p (put_mutex j x e) = Some (Inr i, put_mutex j x e)"
    and lock_eq: "lock p e = do { (r, e1) \<leftarrow> handle p e;
      (case r of Inl err \<Rightarrow> Some (Done err e1)
       | Inr i \<Rightarrow> map_option (map_call errno_of) (lock_mutex i e1)) }"
    and unlock_eq: "unlock p e = do { (r, e1) \<leftarrow> handle p e;
      (case r of Inl err \<Rightarrow> Some (err, e1)
       | Inr i \<Rightarrow> map_option (\<lambda>(r1, e2). (errno_of r1, e2)) (unlock_mutex i e1)) }"
    and try_eq: "try_lock p e = do { (r, e1) \<leftarrow> handle p e;
      (case r of Inl err \<Rightarrow> Some (Done err e1)
       | Inr i \<Rightarrow>
          (if mutex_is_locked i e1 \<and> \<not> (reentrant \<and> mutex_is_recursive i e1 \<and>
               mutex_is_locked_by i (current_thread e1) e1)
           then Some (Done EBUSY e1)
           else if reentrant then lock p e1
           else map_option (map_call errno_of) (lock_mutex i e1))) }"
begin

lemma handle_stable_table:
  assumes "ordinary (e_mem e) p 12" "handle p e = Some (Inr i, e0)" "lock_mutex i e0 = Some (Done r e1)" "yielder e"
  shows "handle p e1 = Some (Inr i, e1)"
proof -
  have h: "handle p e0 = Some (Inr i, e0)" by (rule handle_again [OF assms(1,2)])
  have "yielder e0" using handle_frame [OF assms(2)] assms(4) by simp
  with assms(3) have "e1 = e0 \<or> (\<exists>x. e1 = put_mutex i x e0)"
    by (cases rule: lock_mutex_cases) auto
  then show ?thesis using h handle_put [OF h] by auto
qed

lemma lock_done:
  assumes "lock p e = Some (Done 0 e1)" "yielder e"
  obtains i e0 n where "handle p e = Some (Inr i, e0)" "lock_mutex i e0 = Some (Done (Inr n) e1)"
proof -
  obtain r e0 where h: "handle p e = Some (r, e0)" using assms by (auto simp: lock_eq bind_eq_Some_conv)
  show ?thesis
  proof (cases r)
    case (Inl err)
    then show ?thesis using assms h handle_err [of p e err e0] by (simp add: lock_eq EINVAL_def)
  next
    case (Inr i)
    then obtain c where c: "lock_mutex i e0 = Some c" "map_call errno_of c = Done 0 e1"
      using assms h by (auto simp: lock_eq)
    then obtain r1 where r1: "c = Done r1 e1" "errno_of r1 = 0" by (cases c) auto
    have "r1 \<noteq> Inl err" for err
    proof
      assume "r1 = Inl err"
      then have l: "lock_mutex i e0 = Some (Done (Inl 0) e1)" using c r1 by simp
      have "yielder e0" using handle_frame [OF h] assms(2) by simp
      with l show False by (cases rule: lock_mutex_cases) (simp_all add: EDEADLK_def)
    qed
    then show ?thesis using that h Inr c r1 by (cases r1) auto
  qed
qed

text \<open>A lock that returned success at once is undone by unlock, whose result is success.\<close>

lemma lock_then_unlock:
  assumes "ordinary (e_mem e) p 12" "mutexes_ok e" "yielder e" "lock p e = Some (Done 0 e1)"
  shows "\<exists>i e0. handle p e = Some (Inr i, e0) \<and> mutex_is_locked_by i (current_thread e) e1 \<and> unlock p e1 = Some (0, e0)"
proof -
  obtain i e0 n where h: "handle p e = Some (Inr i, e0)" and l: "lock_mutex i e0 = Some (Done (Inr n) e1)"
    using lock_done [OF assms(4,3)] by blast
  have y: "yielder e0" "current_thread e0 = current_thread e" using handle_frame [OF h] assms(3) by simp_all
  have "unlock_mutex i e1 = Some (Inr (n - 1), e0)"
    by (rule lock_unlock_inverse [OF handle_ok [OF h assms(2)] y(1) l])
  moreover have "handle p e1 = Some (Inr i, e1)" by (rule handle_stable_table [OF assms(1) h l assms(3)])
  moreover have "mutex_is_locked_by i (current_thread e) e1"
    using l y(1) by (cases rule: lock_mutex_cases) (auto simp: mutex_is_locked_by_def y(2))
  ultimately show ?thesis using h by (simp add: unlock_eq)
qed

text \<open>Trying never suspends the caller.\<close>

lemma try_returns:
  assumes "ordinary (e_mem e) p 12" "yielder e"
  shows "try_lock p e \<noteq> Some (Blocked e1 k)"
proof
  assume t: "try_lock p e = Some (Blocked e1 k)"
  then obtain r e0 where h: "handle p e = Some (r, e0)" by (auto simp: try_eq bind_eq_Some_conv)
  then obtain i where r: "r = Inr i" using t by (cases r) (simp_all add: try_eq)
  have again: "handle p e0 = Some (Inr i, e0)" using handle_again [OF assms(1)] h r by simp
  have "\<exists>c. lock_mutex i e0 = Some c \<and> map_call errno_of c = Blocked e1 k"
    using t h r again by (auto simp: try_eq lock_eq split: if_splits)
  then obtain c where c: "lock_mutex i e0 = Some c" "map_call errno_of c = Blocked e1 k" by blast
  then obtain k0 where "c = Blocked e1 k0" by (cases c) auto
  have "yielder e0" using handle_frame [OF h] assms(2) by simp
  with c(1) have "mutex_is_locked i e0 \<and> \<not> mutex_is_locked_by i (current_thread e0) e0"
    using \<open>c = Blocked e1 k0\<close>
    by (cases rule: lock_mutex_cases) (auto simp: mutex_is_locked_def mutex_is_locked_by_def)
  then show False using t h r by (auto simp: try_eq)
qed

text \<open>On a lock that another thread holds, trying fails without an effect and locking blocks.\<close>

lemma contended:
  assumes "handle p e = Some (Inr i, e0)" "yielder e" "mutex_is_locked_by i u e0" "u \<noteq> current_thread e"
    "current_thread e < length (threads e)" "block_of (current_thread e) e = NotBlocked"
  shows "try_lock p e = Some (Done EBUSY e0) \<and>
    (\<exists>e1 k. lock p e = Some (Blocked e1 k) \<and> block_of (current_thread e) e1 = Mutex i)"
proof -
  note f = handle_frame [OF assms(1)]
  obtain x n where x: "mutexes e0 i = Some x" "locked x = Some (u, n)"
    using assms(3) by (auto simp: mutex_is_locked_by_def split: option.splits)
  have "mutex_is_locked i e0" "\<not> mutex_is_locked_by i (current_thread e0) e0"
    using x f assms(4) by (simp_all add: mutex_is_locked_def mutex_is_locked_by_def)
  then have "try_lock p e = Some (Done EBUSY e0)" using assms(1) by (simp add: try_eq)
  moreover
  let ?e1 = "put_mutex i (x\<lparr> waiting_count := wadd32 (waiting_count x) 1 \<rparr>) e0"
  have "\<not> is_blocked (threads e ! current_thread e)" using assms(6) by (simp add: is_blocked_def block_of_def)
  then have "\<exists>k. lock_mutex i e0 = Some (Blocked ((set_block (current_thread e) (Mutex i) ?e1)\<lparr> yielder := False \<rparr>) k)"
    using x f assms(2,4,5) by (simp add: lock_mutex_def block_on_mutex_def yield_thread_def thread_at_def)
  then have "\<exists>k. lock p e = Some (Blocked ((set_block (current_thread e) (Mutex i) ?e1)\<lparr> yielder := False \<rparr>) k)"
    using assms(1) by (auto simp: lock_eq)
  ultimately show ?thesis using f assms(5) by (auto simp: block_of_set_block)
qed

end

section \<open>Mutexes and read-write locks fulfil it\<close>

definition handle_with :: "(nat \<Rightarrow> env \<Rightarrow> ((int + unit) \<times> env) option) \<Rightarrow> nat \<Rightarrow> env \<Rightarrow> ((int + nat) \<times> env) option" where
  "handle_with reg p e = do {
     (r, e1) \<leftarrow> reg p e;
     (case r of Inl err \<Rightarrow> Some (Inl err, e1)
      | Inr _ \<Rightarrow> map_option (\<lambda>g. (Inr (gl_id g), e1)) (read_lock (e_mem e1) p)) }"

text \<open>Both registrations are this one, for two pairs of magic numbers.\<close>

definition register :: "nat \<Rightarrow> nat \<Rightarrow> nat \<Rightarrow> env \<Rightarrow> ((int + unit) \<times> env) option" where
  "register magic static_magic p e = do {
     m \<leftarrow> read_u32 (e_mem e) p;
     (if m = static_magic then do {
        (i, e1) \<leftarrow> init_mutex PTHREAD_MUTEX_NORMAL e;
        m1 \<leftarrow> mem_write (e_mem e1) p (lock_bytes \<lparr> gl_magic = magic, gl_id = i \<rparr>);
        Some (Inr (), e1\<lparr> e_mem := m1 \<rparr>) }
      else if m = magic then Some (Inr (), e)
      else Some (Inl EINVAL, e)) }"

lemma bind_map_option: "Option.bind (map_option f x) g = Option.bind x (\<lambda>y. g (f y))"
  by (cases x) simp_all

lemma check_or_register_mutex_eq: "check_or_register_mutex = register MAGIC_MUTEX MAGIC_MUTEX_STATIC"
  by (intro ext) (simp add: check_or_register_mutex_def register_def pthread_mutex_init_def put_mem_def
      bind_map_option Let_def split_def cong: if_cong)

lemma check_or_register_rwlock_eq: "check_or_register_rwlock = register MAGIC_RWLOCK MAGIC_RWLOCK_STATIC"
  by (intro ext) (simp add: check_or_register_rwlock_def register_def pthread_rwlock_init_def put_mem_def
      bind_map_option Let_def split_def cong: if_cong)

lemma init_mutex_spec:
  "init_mutex kind e = Some (i, e1) \<longleftrightarrow>
     i = mutex_count e \<and> i + 1 < 18446744073709551616 \<and>
     e1 = put_mutex i \<lparr> mutex_kind = kind, waiting_count = 0, locked = None \<rparr> (e\<lparr> mutex_count := i + 1 \<rparr>)"
  by (auto simp: init_mutex_def Let_def)

lemma init_mutex_ok: "init_mutex kind e = Some (i, e1) \<Longrightarrow> mutexes_ok e \<Longrightarrow> mutexes_ok e1"
  by (auto simp: init_mutex_spec mutexes_ok_def intro: less_SucI) (simp add: mutex_ok_def)

lemma register_cases:
  assumes "register magic static_magic p e = Some (r, e1)"
  obtains (fresh) i e2 m1 where "read_u32 (e_mem e) p = Some static_magic"
      "init_mutex PTHREAD_MUTEX_NORMAL e = Some (i, e2)"
      "mem_write (e_mem e) p (lock_bytes \<lparr> gl_magic = magic, gl_id = i \<rparr>) = Some m1"
      "r = Inr ()" "e1 = e2\<lparr> e_mem := m1 \<rparr>"
    | (known) "read_u32 (e_mem e) p = Some magic" "static_magic \<noteq> magic" "r = Inr ()" "e1 = e"
    | (bad) "r = Inl EINVAL" "e1 = e"
proof -
  obtain m where m: "read_u32 (e_mem e) p = Some m"
    using assms by (auto simp: register_def bind_eq_Some_conv)
  have same: "e_mem e2 = e_mem e" if "init_mutex PTHREAD_MUTEX_NORMAL e = Some (i, e2)" for i e2
    using that by (auto simp: init_mutex_spec)
  show ?thesis
  proof (cases "m = static_magic")
    case True
    then obtain i e2 m1 where *: "init_mutex PTHREAD_MUTEX_NORMAL e = Some (i, e2)"
      "mem_write (e_mem e2) p (lock_bytes \<lparr> gl_magic = magic, gl_id = i \<rparr>) = Some m1"
      "r = Inr ()" "e1 = e2\<lparr> e_mem := m1 \<rparr>"
      using assms m by (auto simp: register_def bind_eq_Some_conv)
    have "e_mem e2 = e_mem e" by (rule same [OF *(1)])
    then have wr: "mem_write (e_mem e) p (lock_bytes \<lparr> gl_magic = magic, gl_id = i \<rparr>) = Some m1"
      using *(2) by simp
    have rd: "read_u32 (e_mem e) p = Some static_magic" using m True by simp
    show ?thesis by (rule fresh [OF rd *(1) wr *(3,4)])
  next
    case False
    then have "m = magic \<and> r = Inr () \<and> e1 = e \<or> r = Inl EINVAL \<and> e1 = e"
      using assms m by (auto simp: register_def split: if_splits)
    then show ?thesis
    proof
      assume k: "m = magic \<and> r = Inr () \<and> e1 = e"
      show ?thesis by (rule known) (use k m False in simp_all)
    next
      assume b: "r = Inl EINVAL \<and> e1 = e"
      show ?thesis by (rule bad) (use b in simp_all)
    qed
  qed
qed

text \<open>
  The laws of the locale, for any registration of this form: a registered object is recognised,
  with the same identifier, from then on.
\<close>

lemma register_again:
  assumes "ordinary (e_mem e) p 12" "register magic static_magic p e = Some (Inr u, e1)"
    "magic < 4294967296" "magic \<noteq> static_magic"
  shows "register magic static_magic p e1 = Some (Inr (), e1)"
  using assms(2)
proof (cases rule: register_cases)
  case (fresh i e2 m1)
  have "i < 18446744073709551616" using fresh(2) by (simp add: init_mutex_spec)
  moreover have "m1 = (e_mem e)\<lparr> mbytes := put_bytes p (lock_bytes \<lparr> gl_magic = magic, gl_id = i \<rparr>) (mbytes (e_mem e)) \<rparr>"
    using fresh(3) write_lock [OF assms(1)] by simp
  ultimately have "read_u32 m1 p = Some magic"
    using read_written_lock(2) [OF assms(1), of "\<lparr> gl_magic = magic, gl_id = i \<rparr>"] assms(3) by simp
  then show ?thesis using assms(4) fresh(5) by (simp add: register_def)
qed (use assms(4) in \<open>simp_all add: register_def\<close>)

lemma register_frame:
  assumes "register magic static_magic p e = Some (r, e1)"
  shows "threads e1 = threads e \<and> current_thread e1 = current_thread e \<and> yielder e1 = yielder e"
    "mutexes_ok e \<Longrightarrow> mutexes_ok e1" "r = Inl err \<Longrightarrow> err = EINVAL \<and> e1 = e"
proof -
  from assms show "threads e1 = threads e \<and> current_thread e1 = current_thread e \<and> yielder e1 = yielder e"
    by (cases rule: register_cases) (auto simp: init_mutex_spec)
  from assms show "mutexes_ok e1" if "mutexes_ok e"
  proof (cases rule: register_cases)
    case (fresh i e2 m1)
    then show ?thesis using init_mutex_ok [OF fresh(2) that] by (simp add: mutexes_ok_def)
  qed (use that in simp_all)
  from assms show "r = Inl err \<Longrightarrow> err = EINVAL \<and> e1 = e"
    by (cases rule: register_cases) simp_all
qed

lemma handle_with_spec:
  "handle_with reg p e = Some (r, e1) \<longleftrightarrow>
     (\<exists>err. r = Inl err \<and> reg p e = Some (Inl err, e1)) \<or>
     (\<exists>g u. r = Inr (gl_id g) \<and> reg p e = Some (Inr u, e1) \<and> read_lock (e_mem e1) p = Some g)"
proof (cases "reg p e")
  case (Some q)
  then obtain r1 e2 where "reg p e = Some (r1, e2)" by (cases q) simp
  then show ?thesis by (cases r1) (auto simp: handle_with_def)
qed (simp add: handle_with_def)

lemma handle_with_laws:
  fixes magic static_magic :: nat
  assumes "magic < 4294967296" "magic \<noteq> static_magic"
  defines "h \<equiv> handle_with (register magic static_magic)"
  shows "ordinary (e_mem e) p 12 \<Longrightarrow> h p e = Some (Inr i, e1) \<Longrightarrow> h p e1 = Some (Inr i, e1)"
    "h p e = Some (r, e1) \<Longrightarrow> threads e1 = threads e \<and> current_thread e1 = current_thread e \<and> yielder e1 = yielder e"
    "h p e = Some (Inl err, e1) \<Longrightarrow> err = EINVAL \<and> e1 = e"
    "h p e = Some (r, e1) \<Longrightarrow> mutexes_ok e \<Longrightarrow> mutexes_ok e1"
    "h p e = Some (Inr i, e) \<Longrightarrow> h p (put_mutex j x e) = Some (Inr i, put_mutex j x e)"
proof -
  show "h p e1 = Some (Inr i, e1)" if "ordinary (e_mem e) p 12" "h p e = Some (Inr i, e1)"
    using that register_again [OF that(1) _ assms(1,2), of _ e1] unfolding h_def handle_with_spec by auto
  show "threads e1 = threads e \<and> current_thread e1 = current_thread e \<and> yielder e1 = yielder e"
    if "h p e = Some (r, e1)"
    using that register_frame(1) unfolding h_def handle_with_spec by blast
  show "err = EINVAL \<and> e1 = e" if "h p e = Some (Inl err, e1)"
    using that register_frame(3) unfolding h_def handle_with_spec by blast
  show "mutexes_ok e1" if "h p e = Some (r, e1)" "mutexes_ok e"
    using that register_frame(2) unfolding h_def handle_with_spec by blast
  show "h p (put_mutex j x e) = Some (Inr i, put_mutex j x e)" if hp: "h p e = Some (Inr i, e)"
  proof -
    obtain g where g: "i = gl_id g" "register magic static_magic p e = Some (Inr (), e)" "read_lock (e_mem e) p = Some g"
      using hp unfolding h_def handle_with_spec by auto
    from g(2) have "register magic static_magic p (put_mutex j x e) = Some (Inr (), put_mutex j x e)"
    proof (cases rule: register_cases)
      case (fresh i e2 m1)
      have "mutex_count e = mutex_count e2" using arg_cong [OF fresh(5), of mutex_count] by simp
      moreover have "mutex_count e2 = mutex_count e + 1" using fresh(2) by (auto simp: init_mutex_spec)
      ultimately show ?thesis by simp
    qed (simp_all add: register_def)
    then show ?thesis using g unfolding h_def handle_with_spec by auto
  qed
qed

text \<open>The calls in terms of the handle.\<close>

lemma bind_handle:
  "Option.bind (reg p e) (\<lambda>(r, e1). case r of Inl err \<Rightarrow> f err e1
      | Inr _ \<Rightarrow> Option.bind (read_lock (e_mem e1) p) (\<lambda>g. k (gl_id g) e1)) =
   Option.bind (handle_with reg p e) (\<lambda>(r, e1). case r of Inl err \<Rightarrow> f err e1 | Inr i \<Rightarrow> k i e1)"
proof (cases "reg p e")
  case (Some q)
  then obtain r1 e2 where "reg p e = Some (r1, e2)" by (cases q) simp
  then show ?thesis by (cases r1) (simp_all add: handle_with_def bind_map_option)
qed (simp add: handle_with_def)

lemma map_option_bind: "map_option f x = Option.bind x (\<lambda>y. Some (f y))"
  by (cases x) simp_all

abbreviation mutex_handle :: "nat \<Rightarrow> env \<Rightarrow> ((int + nat) \<times> env) option" where
  "mutex_handle \<equiv> handle_with check_or_register_mutex"

abbreviation rwlock_handle :: "nat \<Rightarrow> env \<Rightarrow> ((int + nat) \<times> env) option" where
  "rwlock_handle \<equiv> handle_with check_or_register_rwlock"

lemma split_pair: "(\<lambda>(r1, e2). Some (errno_of r1, e2)) = (\<lambda>y. Some ((\<lambda>(r1, e2). (errno_of r1, e2)) y))"
  by (simp add: fun_eq_iff split: prod.splits)

interpretation pmutex: guest_lock_ops mutex_handle pthread_mutex_lock pthread_mutex_trylock
  pthread_mutex_unlock True
proof unfold_locales
  have magic: "MAGIC_MUTEX < 4294967296" "MAGIC_MUTEX \<noteq> MAGIC_MUTEX_STATIC" by (simp_all add: magic_defs)
  note laws = handle_with_laws [OF magic, folded check_or_register_mutex_eq]
  fix p e r e1 i err j x
  show "ordinary (e_mem e) p 12 \<Longrightarrow> mutex_handle p e = Some (Inr i, e1) \<Longrightarrow> mutex_handle p e1 = Some (Inr i, e1)"
    by (rule laws(1))
  show "mutex_handle p e = Some (r, e1) \<Longrightarrow>
      threads e1 = threads e \<and> current_thread e1 = current_thread e \<and> yielder e1 = yielder e" by (rule laws(2))
  show "mutex_handle p e = Some (Inl err, e1) \<Longrightarrow> err = EINVAL \<and> e1 = e" by (rule laws(3))
  show "mutex_handle p e = Some (r, e1) \<Longrightarrow> mutexes_ok e \<Longrightarrow> mutexes_ok e1" by (rule laws(4))
  show "mutex_handle p e = Some (Inr i, e) \<Longrightarrow> mutex_handle p (put_mutex j x e) = Some (Inr i, put_mutex j x e)"
    by (rule laws(5))
  show "pthread_mutex_lock p e = do { (r, e1) \<leftarrow> mutex_handle p e;
      (case r of Inl err \<Rightarrow> Some (Done err e1) | Inr i \<Rightarrow> map_option (map_call errno_of) (lock_mutex i e1)) }"
    unfolding pthread_mutex_lock_def map_option_bind
    by (rule bind_handle [where k = "\<lambda>i e1. Option.bind (lock_mutex i e1) (\<lambda>c. Some (map_call errno_of c))"])
  show "pthread_mutex_unlock p e = do { (r, e1) \<leftarrow> mutex_handle p e;
      (case r of Inl err \<Rightarrow> Some (err, e1)
       | Inr i \<Rightarrow> map_option (\<lambda>(r1, e2). (errno_of r1, e2)) (unlock_mutex i e1)) }"
    unfolding pthread_mutex_unlock_def map_option_bind split_pair
    by (rule bind_handle [where f = "\<lambda>err e1. Some (err, e1)" and
        k = "\<lambda>i e1. Option.bind (unlock_mutex i e1) (\<lambda>y. Some ((\<lambda>(r1, e2). (errno_of r1, e2)) y))"])
  show "pthread_mutex_trylock p e = do { (r, e1) \<leftarrow> mutex_handle p e;
      (case r of Inl err \<Rightarrow> Some (Done err e1)
       | Inr i \<Rightarrow>
          (if mutex_is_locked i e1 \<and> \<not> (True \<and> mutex_is_recursive i e1 \<and>
               mutex_is_locked_by i (current_thread e1) e1)
           then Some (Done EBUSY e1)
           else if True then pthread_mutex_lock p e1
           else map_option (map_call errno_of) (lock_mutex i e1))) }"
    unfolding pthread_mutex_trylock_def simp_thms if_True
    by (rule bind_handle [where k = "\<lambda>i e1. if mutex_is_locked i e1 \<and> \<not> (mutex_is_recursive i e1 \<and>
               mutex_is_locked_by i (current_thread e1) e1)
           then Some (Done EBUSY e1) else pthread_mutex_lock p e1"])
qed

interpretation rwlock: guest_lock_ops rwlock_handle lock_inner trylock_inner pthread_rwlock_unlock False
proof unfold_locales
  have magic: "MAGIC_RWLOCK < 4294967296" "MAGIC_RWLOCK \<noteq> MAGIC_RWLOCK_STATIC" by (simp_all add: magic_defs)
  note laws = handle_with_laws [OF magic, folded check_or_register_rwlock_eq]
  fix p e r e1 i err j x
  show "ordinary (e_mem e) p 12 \<Longrightarrow> rwlock_handle p e = Some (Inr i, e1) \<Longrightarrow> rwlock_handle p e1 = Some (Inr i, e1)"
    by (rule laws(1))
  show "rwlock_handle p e = Some (r, e1) \<Longrightarrow>
      threads e1 = threads e \<and> current_thread e1 = current_thread e \<and> yielder e1 = yielder e" by (rule laws(2))
  show "rwlock_handle p e = Some (Inl err, e1) \<Longrightarrow> err = EINVAL \<and> e1 = e" by (rule laws(3))
  show "rwlock_handle p e = Some (r, e1) \<Longrightarrow> mutexes_ok e \<Longrightarrow> mutexes_ok e1" by (rule laws(4))
  show "rwlock_handle p e = Some (Inr i, e) \<Longrightarrow> rwlock_handle p (put_mutex j x e) = Some (Inr i, put_mutex j x e)"
    by (rule laws(5))
  show "lock_inner p e = do { (r, e1) \<leftarrow> rwlock_handle p e;
      (case r of Inl err \<Rightarrow> Some (Done err e1) | Inr i \<Rightarrow> map_option (map_call errno_of) (lock_mutex i e1)) }"
    unfolding lock_inner_def map_option_bind
    by (rule bind_handle [where k = "\<lambda>i e1. Option.bind (lock_mutex i e1) (\<lambda>c. Some (map_call errno_of c))"])
  show "pthread_rwlock_unlock p e = do { (r, e1) \<leftarrow> rwlock_handle p e;
      (case r of Inl err \<Rightarrow> Some (err, e1)
       | Inr i \<Rightarrow> map_option (\<lambda>(r1, e2). (errno_of r1, e2)) (unlock_mutex i e1)) }"
    unfolding pthread_rwlock_unlock_def map_option_bind split_pair
    by (rule bind_handle [where f = "\<lambda>err e1. Some (err, e1)" and
        k = "\<lambda>i e1. Option.bind (unlock_mutex i e1) (\<lambda>y. Some ((\<lambda>(r1, e2). (errno_of r1, e2)) y))"])
  show "trylock_inner p e = do { (r, e1) \<leftarrow> rwlock_handle p e;
      (case r of Inl err \<Rightarrow> Some (Done err e1)
       | Inr i \<Rightarrow>
          (if mutex_is_locked i e1 \<and> \<not> (False \<and> mutex_is_recursive i e1 \<and>
               mutex_is_locked_by i (current_thread e1) e1)
           then Some (Done EBUSY e1)
           else if False then lock_inner p e1
           else map_option (map_call errno_of) (lock_mutex i e1))) }"
    unfolding trylock_inner_def simp_thms if_False map_option_bind
    by (rule bind_handle [where k = "\<lambda>i e1. if mutex_is_locked i e1 then Some (Done EBUSY e1)
           else Option.bind (lock_mutex i e1) (\<lambda>c. Some (map_call errno_of c))"])
qed

end
