(* ===== verification/Pthread_Lock_Props.thy ===== *)
theory Pthread_Lock_Props
  imports Pthread_Locks C_Strings_Read
begin

text \<open>
  The properties of guest mutexes and read-write locks: success is undone by unlock, trying
  never suspends, a held lock excludes readers as well as writers, what destroying a busy mutex does
  to it, and what a type written into the attributes leads to.
\<close>

section \<open>A running thread with one object\<close>

definition running :: "u8 list \<Rightarrow> env" where
  "running bs = (env_new (sample bs))\<lparr> yielder := True \<rparr>"

lemma running_simps [simp]:
  "yielder (running bs)" "current_thread (running bs) = 0" "length (threads (running bs)) = 1"
  "block_of 0 (running bs) = NotBlocked" "mutexes (running bs) = Map.empty" "mutex_count (running bs) = 0"
  "e_mem (running bs) = sample bs" "mutexes_ok (running bs)" "condition_variables (running bs) = Map.empty"
  by (simp_all add: running_def env_new_def block_of_def mutexes_ok_def)

lemma running_ordinary [simp]: "n \<le> 4294959104 \<Longrightarrow> ordinary (sample bs) 8192 n"
  by (rule sample_ordinary) simp_all

lemma sample_read:
  assumes "n \<le> length bs" "n \<le> 4294959104"
  shows "mem_read n (sample bs) 8192 = Some (take n bs)"
proof -
  have "map (\<lambda>i. mbytes (sample bs) (8192 + i)) [0..<n] = take n bs"
    by (rule nth_equalityI) (use assms(1) in \<open>simp_all add: sample_byte\<close>)
  then show ?thesis using read_ordinary [OF running_ordinary [OF assms(2)]] assms(2) by simp
qed

lemma sample_u32: "n < 4294967296 \<Longrightarrow> read_u32 (sample (to_le_bytes 4 n @ rest)) 8192 = Some n"
  by (simp add: read_u32_def sample_read from_to_le)

lemma sample_lock:
  assumes "gl_magic g < 4294967296" "gl_id g < 18446744073709551616"
  shows "read_lock (sample (lock_bytes g)) 8192 = Some g" "read_u32 (sample (lock_bytes g)) 8192 = Some (gl_magic g)"
proof -
  show "read_lock (sample (lock_bytes g)) 8192 = Some g"
    using assms by (simp add: read_lock_def sample_read) (simp add: lock_bytes_def from_to_le)
  show "read_u32 (sample (lock_bytes g)) 8192 = Some (gl_magic g)"
    using assms(1) by (simp add: lock_bytes_def sample_u32)
qed

abbreviation static_mutex :: env where
  "static_mutex \<equiv> running (to_le_bytes 4 MAGIC_MUTEX_STATIC @ [])"

abbreviation static_rwlock :: env where
  "static_rwlock \<equiv> running (to_le_bytes 4 MAGIC_RWLOCK_STATIC @ [])"

text \<open>The first use of a static object registers it and finds it unlocked.\<close>

lemma register_static:
  assumes "ordinary (e_mem e) p 12" "read_u32 (e_mem e) p = Some static_magic" "magic < 4294967296"
    "mutex_count e + 1 < 18446744073709551616"
  shows "\<exists>e0. handle_with (register magic static_magic) p e = Some (Inr (mutex_count e), e0) \<and>
     mutexes e0 = (mutexes e)(mutex_count e \<mapsto> \<lparr> mutex_kind = PTHREAD_MUTEX_NORMAL, waiting_count = 0, locked = None \<rparr>)"
proof -
  let ?g = "\<lparr> gl_magic = magic, gl_id = mutex_count e \<rparr>"
  let ?m = "(e_mem e)\<lparr> mbytes := put_bytes p (lock_bytes ?g) (mbytes (e_mem e)) \<rparr>"
  let ?x = "\<lparr> mutex_kind = PTHREAD_MUTEX_NORMAL, waiting_count = 0, locked = None \<rparr>"
  let ?e = "(put_mutex (mutex_count e) ?x (e\<lparr> mutex_count := mutex_count e + 1 \<rparr>))\<lparr> e_mem := ?m \<rparr>"
  have "init_mutex PTHREAD_MUTEX_NORMAL e = Some (mutex_count e,
      put_mutex (mutex_count e) ?x (e\<lparr> mutex_count := mutex_count e + 1 \<rparr>))"
    using assms(4) by (simp add: init_mutex_spec)
  then have "register magic static_magic p e = Some (Inr (), ?e)"
    using assms(2) write_lock [OF assms(1), of ?g] by (simp add: register_def)
  moreover have "read_lock ?m p = Some ?g" using read_written_lock(1) [OF assms(1), of ?g] assms(3,4) by simp
  ultimately have "handle_with (register magic static_magic) p e = Some (Inr (mutex_count e), ?e)"
    by (simp add: handle_with_def)
  then show ?thesis by (intro exI [of _ ?e]) simp
qed

lemma static_handles:
  "\<exists>e0. mutex_handle 8192 static_mutex = Some (Inr 0, e0) \<and>
     mutexes e0 = [0 \<mapsto> \<lparr> mutex_kind = PTHREAD_MUTEX_NORMAL, waiting_count = 0, locked = None \<rparr>]"
  "\<exists>e0. rwlock_handle 8192 static_rwlock = Some (Inr 0, e0) \<and>
     mutexes e0 = [0 \<mapsto> \<lparr> mutex_kind = PTHREAD_MUTEX_NORMAL, waiting_count = 0, locked = None \<rparr>]"
proof -
  have "read_u32 (e_mem static_mutex) 8192 = Some MAGIC_MUTEX_STATIC"
    "read_u32 (e_mem static_rwlock) 8192 = Some MAGIC_RWLOCK_STATIC"
    unfolding running_simps by (rule sample_u32, simp add: magic_defs)+
  then show "\<exists>e0. mutex_handle 8192 static_mutex = Some (Inr 0, e0) \<and>
     mutexes e0 = [0 \<mapsto> \<lparr> mutex_kind = PTHREAD_MUTEX_NORMAL, waiting_count = 0, locked = None \<rparr>]"
    "\<exists>e0. rwlock_handle 8192 static_rwlock = Some (Inr 0, e0) \<and>
     mutexes e0 = [0 \<mapsto> \<lparr> mutex_kind = PTHREAD_MUTEX_NORMAL, waiting_count = 0, locked = None \<rparr>]"
    using register_static [of static_mutex 8192 MAGIC_MUTEX_STATIC MAGIC_MUTEX]
      register_static [of static_rwlock 8192 MAGIC_RWLOCK_STATIC MAGIC_RWLOCK]
    by (simp_all add: check_or_register_mutex_eq check_or_register_rwlock_eq magic_defs)
qed

lemma static_locks:
  "\<exists>e1. pthread_mutex_lock 8192 static_mutex = Some (Done 0 e1)"
  "\<exists>e1. lock_inner 8192 static_rwlock = Some (Done 0 e1)"
  using static_handles by (auto simp: pmutex.lock_eq rwlock.lock_eq lock_mutex_def)

section \<open>Properties\<close>

text \<open>
  if locking a guest mutex, or a read-write lock for reading or for writing, returns success at
  once, then the caller owns the host mutex behind it, and unlocking it in the resulting state succeeds
  and gives back exactly the state in which the lock was found (that is, after the registration of
  a static object, if it was one).
\<close>

theorem guest_lock_roundtrip:
  assumes "ordinary (e_mem e) p 12" "mutexes_ok e" "yielder e"
  shows "(\<forall>e1. pthread_mutex_lock p e = Some (Done 0 e1) \<longrightarrow>
      (\<exists>i e0. mutex_handle p e = Some (Inr i, e0) \<and> mutex_is_locked_by i (current_thread e) e1 \<and>
         pthread_mutex_unlock p e1 = Some (0, e0))) \<and>
    (\<forall>e1. pthread_rwlock_rdlock p e = Some (Done 0 e1) \<or> pthread_rwlock_wrlock p e = Some (Done 0 e1) \<longrightarrow>
      (\<exists>i e0. rwlock_handle p e = Some (Inr i, e0) \<and> mutex_is_locked_by i (current_thread e) e1 \<and>
         pthread_rwlock_unlock p e1 = Some (0, e0)))"
  using pmutex.lock_then_unlock [OF assms] rwlock.lock_then_unlock [OF assms]
  unfolding pthread_rwlock_rdlock_def pthread_rwlock_wrlock_def by blast

lemma guest_lock_roundtrip_witness:
  "\<exists>e1 e0. pthread_mutex_lock 8192 static_mutex = Some (Done 0 e1) \<and> pthread_mutex_unlock 8192 e1 = Some (0, e0)"
  using static_locks(1) guest_lock_roundtrip [of static_mutex 8192] by fastforce

text \<open>
  none of the trying calls ever suspends the calling thread, whatever the state of the lock.
\<close>

theorem trying_never_blocks:
  assumes "ordinary (e_mem e) p 12" "yielder e"
  shows "pthread_mutex_trylock p e \<noteq> Some (Blocked e1 k) \<and>
    pthread_rwlock_tryrdlock p e \<noteq> Some (Blocked e1 k) \<and>
    pthread_rwlock_trywrlock p e \<noteq> Some (Blocked e1 k)"
  using pmutex.try_returns [OF assms] rwlock.try_returns [OF assms]
  by (simp add: pthread_rwlock_tryrdlock_def pthread_rwlock_trywrlock_def)

lemma trying_never_blocks_witness:
  "pthread_mutex_trylock 8192 static_mutex \<noteq> Some (Blocked static_mutex (\<lambda>_. None))"
  using trying_never_blocks [of static_mutex 8192 static_mutex "\<lambda>_. None"] by simp

text \<open>
  a lock that another thread holds excludes everybody else: trying returns \<open>EBUSY\<close> without
  a change, locking suspends the caller on the host mutex; for a read-write lock this is so for
  readers too, even when the holder only reads.
\<close>

theorem held_lock_excludes:
  assumes "yielder e" "u \<noteq> current_thread e" "current_thread e < length (threads e)"
    "block_of (current_thread e) e = NotBlocked"
  shows "(\<forall>i e0. mutex_handle p e = Some (Inr i, e0) \<and> mutex_is_locked_by i u e0 \<longrightarrow>
      pthread_mutex_trylock p e = Some (Done EBUSY e0) \<and>
      (\<exists>e1 k. pthread_mutex_lock p e = Some (Blocked e1 k) \<and> block_of (current_thread e) e1 = Mutex i)) \<and>
    (\<forall>i e0. rwlock_handle p e = Some (Inr i, e0) \<and> mutex_is_locked_by i u e0 \<longrightarrow>
      pthread_rwlock_tryrdlock p e = Some (Done EBUSY e0) \<and>
      pthread_rwlock_trywrlock p e = Some (Done EBUSY e0) \<and>
      (\<exists>e1 k. pthread_rwlock_rdlock p e = Some (Blocked e1 k) \<and> block_of (current_thread e) e1 = Mutex i))"
  using pmutex.contended [OF _ assms(1) _ assms(2-4)] rwlock.contended [OF _ assms(1) _ assms(2-4)]
  unfolding pthread_rwlock_tryrdlock_def pthread_rwlock_trywrlock_def pthread_rwlock_rdlock_def by blast

text \<open>An object whose host mutex 0 belongs to thread 1, while thread 0 runs.\<close>

definition held_by_1 :: "nat \<Rightarrow> env" where
  "held_by_1 magic = (running (lock_bytes \<lparr> gl_magic = magic, gl_id = 0 \<rparr>))\<lparr> mutex_count := 1,
     mutexes := [0 \<mapsto> \<lparr> mutex_kind = PTHREAD_MUTEX_NORMAL, waiting_count = 0, locked = Some (1, 1) \<rparr>] \<rparr>"

lemma held_by_1_simps [simp]:
  "yielder (held_by_1 magic)" "current_thread (held_by_1 magic) = 0" "length (threads (held_by_1 magic)) = 1"
  "block_of 0 (held_by_1 magic) = NotBlocked" "e_mem (held_by_1 magic) = sample (lock_bytes \<lparr> gl_magic = magic, gl_id = 0 \<rparr>)"
  "mutexes (held_by_1 magic) = [0 \<mapsto> \<lparr> mutex_kind = PTHREAD_MUTEX_NORMAL, waiting_count = 0, locked = Some (1, 1) \<rparr>]"
  using running_simps(4) by (simp_all add: held_by_1_def block_of_def)

lemma held_handles:
  "mutex_handle 8192 (held_by_1 MAGIC_MUTEX) = Some (Inr 0, held_by_1 MAGIC_MUTEX)"
  "rwlock_handle 8192 (held_by_1 MAGIC_RWLOCK) = Some (Inr 0, held_by_1 MAGIC_RWLOCK)"
  by (simp_all add: check_or_register_mutex_eq check_or_register_rwlock_eq handle_with_def register_def
      sample_lock magic_defs)

lemma held_lock_excludes_witness:
  "pthread_rwlock_tryrdlock 8192 (held_by_1 MAGIC_RWLOCK) = Some (Done EBUSY (held_by_1 MAGIC_RWLOCK))"
  using held_lock_excludes [of "held_by_1 MAGIC_RWLOCK" 1 8192] held_handles(2)
  by (auto simp: mutex_is_locked_by_def)

text \<open>
  destroying a mutex that is locked is refused with \<open>EBUSY\<close> and the host mutex stays locked,
  but the guest object is overwritten all the same: from then on unlocking it is refused as well
  (\<open>EINVAL\<close>), so that the host mutex can never be released through it.
\<close>

theorem destroy_busy_poisons:
  assumes "ordinary (e_mem e) p 12" "mutex_handle p e = Some (Inr i, e)" "mutex_is_locked i e"
  shows "\<exists>e1. pthread_mutex_destroy p e = Some (EBUSY, e1) \<and> mutexes e1 = mutexes e \<and>
    pthread_mutex_unlock p e1 = Some (EINVAL, e1) \<and> pthread_mutex_lock p e1 = Some (Done EINVAL e1)"
proof -
  let ?g = "\<lparr> gl_magic = 0, gl_id = 0xFFFFFFFFFFFFFFFF \<rparr>"
  let ?m = "(e_mem e)\<lparr> mbytes := put_bytes p (lock_bytes ?g) (mbytes (e_mem e)) \<rparr>"
  let ?e = "e\<lparr> e_mem := ?m \<rparr>"
  obtain g where g: "check_or_register_mutex p e = Some (Inr (), e)" "read_lock (e_mem e) p = Some g" "gl_id g = i"
    using assms(2) by (auto simp: handle_with_spec)
  obtain x where x: "mutexes e i = Some x" "locked x \<noteq> None"
    using assms(3) by (auto simp: mutex_is_locked_def split: option.splits)
  have "destroy_mutex i ?e = Some (Inl EBUSY, ?e)" using x by (auto simp: destroy_mutex_def)
  then have d: "pthread_mutex_destroy p e = Some (EBUSY, ?e)"
    using g write_lock [OF assms(1), of ?g] by (simp add: pthread_mutex_destroy_def)
  have "read_u32 ?m p = Some 0" using read_written_lock(2) [OF assms(1), of ?g] by simp
  then have r: "check_or_register_mutex p ?e = Some (Inl EINVAL, ?e)"
    by (simp add: check_or_register_mutex_def magic_defs)
  then have "pthread_mutex_unlock p ?e = Some (EINVAL, ?e)" "pthread_mutex_lock p ?e = Some (Done EINVAL ?e)"
    by (simp_all add: pthread_mutex_unlock_def pthread_mutex_lock_def)
  then show ?thesis using d by (intro exI [of _ ?e]) simp
qed

lemma destroy_busy_poisons_witness:
  "\<exists>e1. pthread_mutex_destroy 8192 (held_by_1 MAGIC_MUTEX) = Some (EBUSY, e1) \<and>
     pthread_mutex_unlock 8192 e1 = Some (EINVAL, e1)"
  using destroy_busy_poisons [of "held_by_1 MAGIC_MUTEX" 8192 0] held_handles(1)
  by (auto simp: mutex_is_locked_def)

lemma mutexattr_bytes_length [simp]: "length (mutexattr_bytes a) = 12" "mutexattr_bytes a \<noteq> []"
proof -
  show "length (mutexattr_bytes a) = 12" by (simp add: mutexattr_bytes_def)
  then show "mutexattr_bytes a \<noteq> []" by (metis list.size(3) zero_neq_numeral)
qed

lemma read_written_mutexattr:
  assumes "ordinary m p 12" "ma_magic a < 4294967296" "i32 (ma_type a)" "ma_unused a < 4294967296"
  shows "read_mutexattr (m\<lparr> mbytes := put_bytes p (mutexattr_bytes a) (mbytes m) \<rparr>) p = Some a"
    "read_u32 (m\<lparr> mbytes := put_bytes p (mutexattr_bytes a) (mbytes m) \<rparr>) p = Some (ma_magic a)"
proof -
  let ?m = "m\<lparr> mbytes := put_bytes p (mutexattr_bytes a) (mbytes m) \<rparr>"
  have "mem_read 12 ?m p = Some (mutexattr_bytes a)"
    using read_prefix [of m p "mutexattr_bytes a" 12] assms(1) by simp
  then show "read_mutexattr ?m p = Some a"
    using assms(2-4) by (simp add: read_mutexattr_def mutexattr_bytes_def from_to_le i32_roundtrip)
  have "mem_read 4 ?m p = Some (to_le_bytes 4 (ma_magic a))"
    using read_prefix [of m p "mutexattr_bytes a" 4] assms(1) by (simp add: mutexattr_bytes_def)
  then show "read_u32 ?m p = Some (ma_magic a)" using assms(2) by (simp add: read_u32_def from_to_le)
qed

text \<open>Initialising attributes and storing a type in them.\<close>

definition after_write :: "nat \<Rightarrow> u8 list \<Rightarrow> env \<Rightarrow> env" where
  "after_write p bs e = e\<lparr> e_mem := (e_mem e)\<lparr> mbytes := put_bytes p bs (mbytes (e_mem e)) \<rparr> \<rparr>"

lemma write_mutexattr:
  "ordinary (e_mem e) p 12 \<Longrightarrow>
     put_mem e (mem_write (e_mem e) p (mutexattr_bytes a)) r = Some (r, after_write p (mutexattr_bytes a) e)"
  using write_ordinary [of "e_mem e" p "mutexattr_bytes a"] by (simp add: put_mem_def after_write_def)

lemma mutexattr_run:
  assumes "ordinary (e_mem e) p 12" "i32 kind"
  defines "a \<equiv> \<lparr> ma_magic = MAGIC_MUTEXATTR, ma_type = 0, ma_unused = 0 \<rparr>"
  defines "e0 \<equiv> after_write p (mutexattr_bytes a) e"
  defines "e1 \<equiv> after_write p (mutexattr_bytes (a\<lparr> ma_type := kind \<rparr>)) e0"
  shows "pthread_mutexattr_init p e = Some (0, e0)" "pthread_mutexattr_settype p kind e0 = Some (0, e1)"
    "read_u32 (e_mem e1) p = Some MAGIC_MUTEXATTR" "read_mutexattr (e_mem e1) p = Some (a\<lparr> ma_type := kind \<rparr>)"
    "ordinary (e_mem e1) q n = ordinary (e_mem e) q n"
proof -
  have o: "ordinary (e_mem e0) p 12" using assms(1) by (simp add: e0_def after_write_def)
  show "pthread_mutexattr_init p e = Some (0, e0)"
    using write_mutexattr [OF assms(1)] by (simp add: pthread_mutexattr_init_def e0_def a_def)
  have "ma_magic a < 4294967296" "i32 (ma_type a)" "ma_unused a < 4294967296"
    by (simp_all add: a_def magic_defs i32_def)
  note ra = read_written_mutexattr [OF assms(1) this]
  have m0: "e_mem e0 = (e_mem e)\<lparr> mbytes := put_bytes p (mutexattr_bytes a) (mbytes (e_mem e)) \<rparr>"
    by (simp add: e0_def after_write_def)
  show "pthread_mutexattr_settype p kind e0 = Some (0, e1)"
    using ra write_mutexattr [OF o, of "a\<lparr> ma_type := kind \<rparr>" 0]
    by (simp add: pthread_mutexattr_settype_def check_magic_def m0 [symmetric] e1_def) (simp add: m0 a_def)
  have "ma_magic (a\<lparr> ma_type := kind \<rparr>) < 4294967296" "i32 (ma_type (a\<lparr> ma_type := kind \<rparr>))"
    "ma_unused (a\<lparr> ma_type := kind \<rparr>) < 4294967296" using assms(2) by (simp_all add: a_def magic_defs)
  from read_written_mutexattr [OF o this] show "read_u32 (e_mem e1) p = Some MAGIC_MUTEXATTR"
    "read_mutexattr (e_mem e1) p = Some (a\<lparr> ma_type := kind \<rparr>)"
    by (simp_all add: e1_def after_write_def) (simp add: a_def)
  show "ordinary (e_mem e1) q n = ordinary (e_mem e) q n" by (simp add: e1_def e0_def after_write_def)
qed

lemma write_i32_read:
  assumes "ordinary m q 4" "i32 v"
  shows "\<exists>m1. write_i32 m q v = Some m1 \<and> read_i32 m1 q = Some v"
proof -
  have "i32_bytes v \<noteq> []" by (metis i32_bytes_length list.size(3) zero_neq_numeral)
  then have "write_i32 m q v = Some (m\<lparr> mbytes := put_bytes q (i32_bytes v) (mbytes m) \<rparr>)"
    using write_ordinary [of m q "i32_bytes v"] assms(1) by (simp add: write_i32_def)
  moreover have "mem_read 4 (m\<lparr> mbytes := put_bytes q (i32_bytes v) (mbytes m) \<rparr>) q = Some (i32_bytes v)"
    using read_prefix [of m q "i32_bytes v" 4] assms(1) by simp
  ultimately show ?thesis using assms(2) by (simp add: read_i32_def i32_roundtrip)
qed

text \<open>
  \<open>pthread_mutexattr_settype\<close> accepts every type and \<open>gettype\<close> reports what was stored; but
  only 0, 1 and 2 are types that \<open>pthread_mutex_init\<close> can use, and with any other number it
  panics instead of returning \<open>EINVAL\<close>.
\<close>

lemma mutexattr_type:
  assumes "ordinary (e_mem e) p 12" "i32 kind" "p \<noteq> 0" "q \<noteq> 0" "ordinary (e_mem e) q 4"
  shows "\<exists>e0 e1 e2. pthread_mutexattr_init p e = Some (0, e0) \<and>
    pthread_mutexattr_settype p kind e0 = Some (0, e1) \<and>
    pthread_mutexattr_gettype p q e1 = Some (0, e2) \<and> read_i32 (e_mem e2) q = Some kind \<and>
    (mutex_type_of kind = None \<longrightarrow> pthread_mutex_init mutex p e1 = None)"
proof -
  note run = mutexattr_run [OF assms(1,2)]
  obtain e0 e1 where e: "pthread_mutexattr_init p e = Some (0, e0)" "pthread_mutexattr_settype p kind e0 = Some (0, e1)"
    "read_u32 (e_mem e1) p = Some MAGIC_MUTEXATTR"
    "read_mutexattr (e_mem e1) p = Some \<lparr> ma_magic = MAGIC_MUTEXATTR, ma_type = kind, ma_unused = 0 \<rparr>"
    "ordinary (e_mem e1) q 4"
    using run assms(5) by force
  obtain m1 where m1: "write_i32 (e_mem e1) q kind = Some m1" "read_i32 m1 q = Some kind"
    using write_i32_read [OF e(5) assms(2)] by blast
  have "pthread_mutexattr_gettype p q e1 = Some (0, e1\<lparr> e_mem := m1 \<rparr>)"
    using e(3,4) m1(1) assms(4) by (simp add: pthread_mutexattr_gettype_def check_magic_def put_mem_def)
  moreover have "pthread_mutex_init mutex p e1 = None" if "mutex_type_of kind = None"
    using e(3,4) that assms(3) by (simp add: pthread_mutex_init_def check_magic_def)
  ultimately show ?thesis using e(1,2) m1(2)
    by (intro exI [of _ e0] exI [of _ e1] exI [of _ "e1\<lparr> e_mem := m1 \<rparr>"]) simp
qed

lemma mutexattr_type_example:
  "\<exists>e0 e1. pthread_mutexattr_init 8192 (running []) = Some (0, e0) \<and>
     pthread_mutexattr_settype 8192 3 e0 = Some (0, e1) \<and> pthread_mutex_init 9000 8192 e1 = None"
  using mutexattr_type [of "running []" 8192 3 9000 9000]
  by (auto simp: i32_def mutex_type_of_def sample_ordinary)

end
