(* ===== verification/Pthread_Cond.thy ===== *)
theory Pthread_Cond
  imports Pthread_Lock_Props
begin

text \<open>
  Condition variables, one-time initialisation and thread-specific keys:
  \<open>src/libc/pthread/cond.rs\<close>, \<open>once.rs\<close> and \<open>key.rs\<close>.  The wall clock is an argument, in
  nanoseconds since 1970; guest code run by \<open>pthread_once\<close> is a parameter.
\<close>

section \<open>Condition variables\<close>

definition MAGIC_COND :: nat where "MAGIC_COND = 0x434F4E44"
definition MAGIC_COND_STATIC :: nat where "MAGIC_COND_STATIC = 0x3CB0B1BB"

definition cond_bytes :: "u8 list" where
  "cond_bytes = to_le_bytes 4 MAGIC_COND @ replicate 24 0"

definition pthread_cond_init :: "nat \<Rightarrow> nat \<Rightarrow> env \<Rightarrow> (int \<times> env) option" where
  "pthread_cond_init cond attr e = do {
     m1 \<leftarrow> mem_write (e_mem e) cond cond_bytes;
     Some (0, put_cond cond \<lparr> waiting = [], waking = [], curr_mutex = None, timed_out = {} \<rparr>
                (e\<lparr> e_mem := m1 \<rparr>)) }"

definition check_or_register_cond :: "nat \<Rightarrow> env \<Rightarrow> ((int + unit) \<times> env) option" where
  "check_or_register_cond cond e = do {
     magic \<leftarrow> read_u32 (e_mem e) cond;
     (if magic = MAGIC_COND_STATIC then do {
        (_, e1) \<leftarrow> pthread_cond_init cond 0 e;
        Some (Inr (), e1) }
      else if magic = MAGIC_COND then Some (Inr (), e)
      else Some (Inl EINVAL, e)) }"

text \<open>
  What both waits have in common up to the suspension: release the mutex, join the queue.
  \<open>rest\<close> is what the call does once it is resumed, with the number of the calling thread.
\<close>

definition enter_wait ::
    "nat \<Rightarrow> nat \<Rightarrow> nat option \<Rightarrow> (nat \<Rightarrow> env \<Rightarrow> (int \<times> env) option) \<Rightarrow> env \<Rightarrow> int call option" where
  "enter_wait cond mutex deadline rest e = do {
     (r, e1) \<leftarrow> check_or_register_cond cond e;
     (case r of
        Inl err \<Rightarrow> Some (Done err e1)
      | Inr _ \<Rightarrow> do {
          (res, e2) \<leftarrow> pthread_mutex_unlock mutex e1;
          (if res \<noteq> 0 then Some (Done res e2)
           else do {
             g \<leftarrow> read_lock (e_mem e2) mutex;
             h \<leftarrow> condition_variables e2 cond;
             (if curr_mutex h = Some (gl_id g) \<or> waking h = [] \<and> waiting h = [] then
                yield_thread (Condition cond deadline)
                  (put_cond cond (h\<lparr> curr_mutex := Some (gl_id g), waiting := waiting h @ [current_thread e2] \<rparr>) e2)
                  (rest (current_thread e2))
              else None) }) }) }"

definition timedwait_rest :: "nat \<Rightarrow> nat \<Rightarrow> env \<Rightarrow> (int \<times> env) option" where
  "timedwait_rest cond t e = do {
     h \<leftarrow> condition_variables e cond;
     (if t \<in> timed_out h
      then Some (ETIMEDOUT, put_cond cond (h\<lparr> timed_out := timed_out h - {t} \<rparr>) e)
      else Some (0, e)) }"

definition wait_rest :: "nat \<Rightarrow> nat \<Rightarrow> env \<Rightarrow> (int \<times> env) option" where
  "wait_rest cond t e = do {
     h \<leftarrow> condition_variables e cond;
     (if t \<in> timed_out h then None else Some (0, e)) }"

text \<open>A \<open>timespec\<close> as a duration: negative components count as zero.\<close>

definition duration_of :: "int \<Rightarrow> int \<Rightarrow> nat" where
  "duration_of tv_sec tv_nsec = nat (max 0 tv_sec) * 1000000000 + nat (max 0 tv_nsec)"

definition read_timespec :: "mem \<Rightarrow> nat \<Rightarrow> (int \<times> int) option" where
  "read_timespec m p = map_option (\<lambda>bs. (i32_of_bytes (field 0 4 bs), i32_of_bytes (field 4 4 bs))) (mem_read 8 m p)"

definition pthread_cond_timedwait :: "nat \<Rightarrow> nat \<Rightarrow> nat \<Rightarrow> env \<Rightarrow> int call option" where
  "pthread_cond_timedwait cond mutex abs_time e = do {
     (tv_sec, tv_nsec) \<leftarrow> read_timespec (e_mem e) abs_time;
     enter_wait cond mutex (Some (duration_of tv_sec tv_nsec)) (timedwait_rest cond) e }"

definition pthread_cond_wait :: "nat \<Rightarrow> nat \<Rightarrow> env \<Rightarrow> int call option" where
  "pthread_cond_wait cond mutex e = enter_wait cond mutex None (wait_rest cond) e"

definition pthread_cond_signal :: "nat \<Rightarrow> env \<Rightarrow> (int \<times> env) option" where
  "pthread_cond_signal cond e = do {
     (r, e1) \<leftarrow> check_or_register_cond cond e;
     (case r of
        Inl err \<Rightarrow> Some (err, e1)
      | Inr _ \<Rightarrow> do {
          h \<leftarrow> condition_variables e1 cond;
          (case waiting h of
             [] \<Rightarrow> Some (0, e1)
           | t # ts \<Rightarrow> Some (0, put_cond cond (h\<lparr> waiting := ts, waking := waking h @ [t] \<rparr>) e1)) }) }"

definition pthread_cond_broadcast :: "nat \<Rightarrow> env \<Rightarrow> (int \<times> env) option" where
  "pthread_cond_broadcast cond e = do {
     (r, e1) \<leftarrow> check_or_register_cond cond e;
     (case r of
        Inl err \<Rightarrow> Some (err, e1)
      | Inr _ \<Rightarrow> do {
          h \<leftarrow> condition_variables e1 cond;
          Some (0, put_cond cond (h\<lparr> waiting := [], waking := waking h @ waiting h \<rparr>) e1) }) }"

definition pthread_cond_destroy :: "nat \<Rightarrow> env \<Rightarrow> (int \<times> env) option" where
  "pthread_cond_destroy cond e = do {
     (r, e1) \<leftarrow> check_or_register_cond cond e;
     (case r of
        Inl err \<Rightarrow> Some (err, e1)
      | Inr _ \<Rightarrow> do {
          h \<leftarrow> condition_variables e1 cond;
          (if waiting h = [] \<and> waking h = []
           then Some (0, e1\<lparr> condition_variables := (condition_variables e1)(cond := None) \<rparr>)
           else None) }) }"

text \<open>
  The relative wait stores the absolute time, in whole seconds, in a heap block of its own.
\<close>

definition i32_cast :: "nat \<Rightarrow> int" where
  "i32_cast n = i32_of_bytes (to_le_bytes 4 n)"

definition free_after :: "nat \<Rightarrow> int \<times> env \<Rightarrow> (int \<times> env) option" where
  "free_after p = (\<lambda>(r, e). map_option (\<lambda>m1. (r, e\<lparr> e_mem := m1 \<rparr>)) (mem_free p (e_mem e)))"

definition pthread_cond_timedwait_relative_np ::
    "nat \<Rightarrow> nat \<Rightarrow> nat \<Rightarrow> nat \<Rightarrow> env \<Rightarrow> int call option" where
  "pthread_cond_timedwait_relative_np wall cond mutex reltime e = do {
     duration \<leftarrow> (if reltime = 0 then Some 0
       else map_option (\<lambda>(s, n). duration_of s n) (read_timespec (e_mem e) reltime));
     (abs_time, m1) \<leftarrow> alloc_and_write
       (i32_bytes (i32_cast ((wall + duration) div 1000000000)) @ i32_bytes 0) (e_mem e);
     result \<leftarrow> pthread_cond_timedwait cond mutex abs_time (e\<lparr> e_mem := m1 \<rparr>);
     (case result of
        Done r e1 \<Rightarrow> map_option (\<lambda>(r, e2). Done r e2) (free_after abs_time (r, e1))
      | Blocked e1 k \<Rightarrow> Some (Blocked e1 (\<lambda>e2. Option.bind (k e2) (free_after abs_time)))) }"

definition pthread_condattr_init :: "nat \<Rightarrow> env \<Rightarrow> (int \<times> env) option" where
  "pthread_condattr_init attr e =
     (if attr \<noteq> 0 then put_mem e (mem_write (e_mem e) attr [0, 0, 0, 0]) 0 else Some (0, e))"

definition pthread_condattr_destroy :: "nat \<Rightarrow> env \<Rightarrow> (int \<times> env) option" where
  "pthread_condattr_destroy attr e = Some (0, e)"

definition pthread_condattr_setpshared :: "nat \<Rightarrow> int \<Rightarrow> env \<Rightarrow> (int \<times> env) option" where
  "pthread_condattr_setpshared attr pshared e = Some (0, e)"

definition pthread_condattr_getpshared :: "nat \<Rightarrow> nat \<Rightarrow> env \<Rightarrow> (int \<times> env) option" where
  "pthread_condattr_getpshared attr pshared e =
     (if pshared \<noteq> 0 then put_mem e (write_i32 (e_mem e) pshared 0) 0 else Some (0, e))"

definition pthread_condattr_setclock :: "nat \<Rightarrow> int \<Rightarrow> env \<Rightarrow> (int \<times> env) option" where
  "pthread_condattr_setclock attr clock_id e = Some (0, e)"

definition pthread_condattr_getclock :: "nat \<Rightarrow> nat \<Rightarrow> env \<Rightarrow> (int \<times> env) option" where
  "pthread_condattr_getclock attr clock_id e =
     (if clock_id \<noteq> 0 then put_mem e (write_i32 (e_mem e) clock_id 0) 0 else Some (0, e))"

section \<open>One-time initialisation\<close>

definition MAGIC_ONCE :: nat where "MAGIC_ONCE = 0x30B1BCBA"

definition once_bytes :: "u8 list" where
  "once_bytes = to_le_bytes 4 MAGIC_ONCE @ to_le_bytes 4 0xFFFFFFFF"

definition pthread_once :: "(nat \<Rightarrow> env \<Rightarrow> env option) \<Rightarrow> nat \<Rightarrow> nat \<Rightarrow> env \<Rightarrow> (int \<times> env) option" where
  "pthread_once call_guest once_control init_routine e = do {
     bs \<leftarrow> mem_read 8 (e_mem e) once_control;
     let magic = from_le_bytes (field 0 4 bs);
     let init = from_le_bytes (field 4 4 bs);
     (if magic \<noteq> MAGIC_ONCE \<or> init = 0 then do {
        m1 \<leftarrow> mem_write (e_mem e) once_control once_bytes;
        e1 \<leftarrow> call_guest init_routine (e\<lparr> e_mem := m1 \<rparr>);
        Some (0, e1) }
      else Some (0, e)) }"

section \<open>Thread-specific data\<close>

definition pthread_key_create :: "nat \<Rightarrow> nat \<Rightarrow> env \<Rightarrow> (int \<times> env) option" where
  "pthread_key_create key_ptr destructor e =
     (if 4294967296 \<le> length (keys e) + 1 then None
      else do {
        m1 \<leftarrow> write_u32 (e_mem e) key_ptr (length (keys e) + 1);
        Some (0, e\<lparr> keys := keys e @ [(\<lambda>_. None, destructor)], e_mem := m1 \<rparr>) })"

definition key_index :: "nat \<Rightarrow> env \<Rightarrow> nat option" where
  "key_index key e = (if key = 0 then None else if key - 1 < length (keys e) then Some (key - 1) else None)"

definition pthread_getspecific :: "nat \<Rightarrow> env \<Rightarrow> nat" where
  "pthread_getspecific key e =
     (case key_index key e of None \<Rightarrow> 0
      | Some i \<Rightarrow> (case fst (keys e ! i) (current_thread e) of None \<Rightarrow> 0 | Some v \<Rightarrow> v))"

definition pthread_setspecific :: "nat \<Rightarrow> nat \<Rightarrow> env \<Rightarrow> int \<times> env" where
  "pthread_setspecific key value e =
     (case key_index key e of None \<Rightarrow> (22, e)
      | Some i \<Rightarrow> (0, e\<lparr> keys := (keys e)[i :=
          ((fst (keys e ! i))(current_thread e \<mapsto> value), snd (keys e ! i))] \<rparr>))"

definition pthread_key_delete :: "nat \<Rightarrow> env \<Rightarrow> int \<times> env" where
  "pthread_key_delete key e =
     (case key_index key e of None \<Rightarrow> (22, e)
      | Some i \<Rightarrow> (0, e\<lparr> keys := (keys e)[i := (\<lambda>_. None, snd (keys e ! i))] \<rparr>))"

end
