(* ===== verification/Pthread_Sync_Props.thy ===== *)
theory Pthread_Sync_Props
  imports Pthread_Cond
begin

text \<open>
  The properties of condition variables, one-time initialisation and thread-specific keys.
\<close>

section \<open>Signals\<close>

text \<open>A condition variable that has been initialised, statically or not, and used.\<close>

definition registered_cond :: "nat \<Rightarrow> env \<Rightarrow> bool" where
  "registered_cond c e = (read_u32 (e_mem e) c = Some MAGIC_COND)"

lemma registered_cond_check: "registered_cond c e \<Longrightarrow> check_or_register_cond c e = Some (Inr (), e)"
  by (simp add: registered_cond_def check_or_register_cond_def MAGIC_COND_def MAGIC_COND_STATIC_def)

lemma registered_cond_put [simp]: "registered_cond c (put_cond d h e) = registered_cond c e"
  by (simp add: registered_cond_def)

lemma put_cond_twice [simp]: "put_cond c h1 (put_cond c h e) = put_cond c h1 e"
  by (simp add: put_cond_def)

lemma put_cond_same: "condition_variables e c = Some h \<Longrightarrow> put_cond c h e = e"
  by (simp add: put_cond_def fun_upd_idem)

lemma signal_spec:
  assumes "registered_cond c e" "condition_variables e c = Some h"
  shows "pthread_cond_signal c e = Some (0, put_cond c (h\<lparr> waiting := tl (waiting h),
     waking := waking h @ take 1 (waiting h) \<rparr>) e)"
proof (cases "waiting h")
  case Nil
  then have eq: "h\<lparr> waiting := tl (waiting h), waking := waking h @ take 1 (waiting h) \<rparr> = h" by simp
  show ?thesis unfolding eq put_cond_same [OF assms(2)] using assms Nil
    by (simp add: pthread_cond_signal_def registered_cond_check)
qed (use assms in \<open>simp add: pthread_cond_signal_def registered_cond_check\<close>)

fun signals :: "nat \<Rightarrow> nat \<Rightarrow> env \<Rightarrow> env option" where
  "signals 0 c e = Some e"
| "signals (Suc n) c e = Option.bind (pthread_cond_signal c e) (\<lambda>(r, e1). if r = 0 then signals n c e1 else None)"

lemma signals_spec:
  assumes "registered_cond c e" "condition_variables e c = Some h"
  shows "signals n c e = Some (put_cond c (h\<lparr> waiting := drop n (waiting h),
     waking := waking h @ take n (waiting h) \<rparr>) e)"
  using assms
proof (induction n arbitrary: e h)
  case 0
  then show ?case using put_cond_same by simp
next
  case (Suc n)
  let ?h = "h\<lparr> waiting := tl (waiting h), waking := waking h @ take 1 (waiting h) \<rparr>"
  have "signals n c (put_cond c ?h e) = Some (put_cond c (?h\<lparr> waiting := drop n (waiting ?h),
     waking := waking ?h @ take n (waiting ?h) \<rparr>) (put_cond c ?h e))"
    using Suc.prems by (intro Suc.IH) simp_all
  also have "?h\<lparr> waiting := drop n (waiting ?h), waking := waking ?h @ take n (waiting ?h) \<rparr> =
      h\<lparr> waiting := drop (Suc n) (waiting h), waking := waking h @ take (Suc n) (waiting h) \<rparr>"
    by (cases "waiting h") (simp_all add: drop_Suc)
  finally show ?case using signal_spec [OF Suc.prems] by simp
qed

text \<open>
  C34: signals wake the waiting threads in the order in which they began to wait: \<open>n\<close> signals move the
  first \<open>n\<close> of them, in that order, to the end of the queue of threads to wake, and nothing else
  changes; a broadcast is the same as one signal for every waiting thread.
\<close>

theorem signals_are_fifo:
  assumes "registered_cond c e" "condition_variables e c = Some h"
  shows "signals n c e = Some (put_cond c (h\<lparr> waiting := drop n (waiting h),
     waking := waking h @ take n (waiting h) \<rparr>) e) \<and>
    map_option snd (pthread_cond_broadcast c e) = signals (length (waiting h)) c e"
  using signals_spec [OF assms] assms
  by (simp add: pthread_cond_broadcast_def registered_cond_check)

text \<open>A condition variable at address 8192 with a queue, in the memory of the running thread.\<close>

definition with_cond :: "nat list \<Rightarrow> env" where
  "with_cond ts = put_cond 8192 \<lparr> waiting = ts, waking = [], curr_mutex = Some 7, timed_out = {} \<rparr>
     (running (to_le_bytes 4 MAGIC_COND @ []))"

lemma with_cond_facts:
  "registered_cond 8192 (with_cond ts)"
  "condition_variables (with_cond ts) 8192 = Some \<lparr> waiting = ts, waking = [], curr_mutex = Some 7, timed_out = {} \<rparr>"
proof -
  have "read_u32 (sample (to_le_bytes 4 MAGIC_COND @ [])) 8192 = Some MAGIC_COND"
    by (rule sample_u32) (simp add: MAGIC_COND_def)
  then show "registered_cond 8192 (with_cond ts)" by (simp add: with_cond_def registered_cond_def)
  show "condition_variables (with_cond ts) 8192 = Some \<lparr> waiting = ts, waking = [], curr_mutex = Some 7, timed_out = {} \<rparr>"
    by (simp add: with_cond_def)
qed

lemma signals_are_fifo_witness:
  "\<exists>e1. signals 2 8192 (with_cond [4, 2, 3]) = Some e1 \<and>
     condition_variables e1 8192 = Some \<lparr> waiting = [3], waking = [4, 2], curr_mutex = Some 7, timed_out = {} \<rparr>"
  using signals_are_fifo [OF with_cond_facts, of 2 "[4, 2, 3]"] by (simp add: numeral_2_eq_2)

section \<open>Waiting\<close>

text \<open>Waiting with a mutex that is held once: the mutex is released and the thread joins the queue.\<close>

lemma wait_blocks:
  assumes "registered_cond c e" "condition_variables e c = Some h" "waiting h = []" "waking h = []"
    and "mutex_handle mutex e = Some (Inr i, e)" "mutexes e i = Some x" "locked x = Some (current_thread e, 1)"
    and "yielder e" "current_thread e < length (threads e)" "block_of (current_thread e) e = NotBlocked"
  defines "h1 \<equiv> h\<lparr> curr_mutex := Some i, waiting := [current_thread e] \<rparr>"
  defines "e1 \<equiv> (set_block (current_thread e) (Condition c None)
      (put_cond c h1 (put_mutex i (x\<lparr> locked := None \<rparr>) e)))\<lparr> yielder := False \<rparr>"
  shows "pthread_cond_wait c mutex e = Some (Blocked e1 (\<lambda>e1. do {
      th1 \<leftarrow> thread_at (current_thread e1) e1;
      (if is_blocked th1 then None else wait_rest c (current_thread e) (e1\<lparr> yielder := True \<rparr>)) }))"
proof -
  let ?e2 = "put_mutex i (x\<lparr> locked := None \<rparr>) e"
  have "unlock_mutex i e = Some (Inr 0, ?e2)" using assms(6,7) by (simp add: unlock_mutex_def)
  then have u: "pthread_mutex_unlock mutex e = Some (0, ?e2)" using assms(5) by (simp add: pmutex.unlock_eq)
  obtain g where g: "read_lock (e_mem e) mutex = Some g" "gl_id g = i"
    using assms(5) by (auto simp: handle_with_spec)
  have nb: "\<not> is_blocked (threads e ! current_thread e)" using assms(10) by (simp add: is_blocked_def block_of_def)
  have "pthread_cond_wait c mutex e =
      yield_thread (Condition c None) (put_cond c h1 ?e2) (wait_rest c (current_thread e))"
    using assms(1-4) u g by (simp add: pthread_cond_wait_def enter_wait_def registered_cond_check h1_def)
  also have "\<dots> = Some (Blocked e1 (\<lambda>e1. do { th1 \<leftarrow> thread_at (current_thread e1) e1;
      (if is_blocked th1 then None else wait_rest c (current_thread e) (e1\<lparr> yielder := True \<rparr>)) }))"
    using nb assms(8,9) by (simp add: yield_thread_def thread_at_def e1_def)
  finally show ?thesis .
qed

text \<open>
  no wake-up is lost and none is invented.  A thread that waits on a condition variable with a
  mutex it holds once has released the mutex when it is suspended, and the scheduler passes it over
  as long as nobody signals.  If any thread signals after that and the mutex is free, the scheduler
  picks the waiter, which owns the mutex again when its call returns success.
\<close>

theorem wait_signal_wakes:
  assumes "registered_cond c e" "condition_variables e c = Some h" "waiting h = []" "waking h = []" "timed_out h = {}"
    and "mutex_handle mutex e = Some (Inr i, e)" "mutexes e i = Some x" "locked x = Some (current_thread e, 1)"
    and "yielder e" "current_thread e < length (threads e)" "block_of (current_thread e) e = NotBlocked"
  shows "\<exists>e1 k. pthread_cond_wait c mutex e = Some (Blocked e1 k) \<and> \<not> mutex_is_locked i e1 \<and>
    try_candidate now wall (current_thread e) na e1 = Some (Passed na e1) \<and>
    (\<exists>e2. pthread_cond_signal c (e1\<lparr> current_thread := u \<rparr>) = Some (0, e2) \<and>
      (\<exists>e3 e4. try_candidate now wall (current_thread e) na e2 = Some (Picked e3) \<and>
         k (e3\<lparr> current_thread := current_thread e \<rparr>) = Some (0, e4) \<and>
         mutex_is_locked_by i (current_thread e) e4))"
proof -
  let ?t = "current_thread e"
  let ?h1 = "h\<lparr> curr_mutex := Some i, waiting := [?t] \<rparr>" and ?x1 = "x\<lparr> locked := None \<rparr>"
  let ?e1 = "(set_block ?t (Condition c None) (put_cond c ?h1 (put_mutex i ?x1 e)))\<lparr> yielder := False \<rparr>"
  let ?k = "\<lambda>e1. do { th1 \<leftarrow> thread_at (current_thread e1) e1;
      (if is_blocked th1 then None else wait_rest c ?t (e1\<lparr> yielder := True \<rparr>)) }"
  have w: "pthread_cond_wait c mutex e = Some (Blocked ?e1 ?k)"
    by (rule wait_blocks [OF assms(1-4,6-11)])
  have b: "block_of ?t ?e1 = Condition c None"
    using block_of_set_block [of ?t "put_cond c ?h1 (put_mutex i ?x1 e)" ?t "Condition c None"] assms(10)
    by simp
  have free: "\<not> mutex_is_locked i ?e1" by (simp add: mutex_is_locked_def)
  have asleep: "try_candidate now wall ?t na ?e1 = Some (Passed na ?e1)"
    unfolding try_candidate_def b thread_block.case using assms(4) by (simp add: try_condition_def)
  let ?u = "?e1\<lparr> current_thread := u \<rparr>"
  let ?h2 = "?h1\<lparr> waiting := [], waking := [?t] \<rparr>"
  have "registered_cond c ?u" "condition_variables ?u c = Some ?h1"
    using assms(1) by (simp_all add: registered_cond_def)
  from signal_spec [OF this] have s: "pthread_cond_signal c ?u = Some (0, put_cond c ?h2 ?u)"
    using assms(4) by simp
  have b2: "block_of ?t (put_cond c ?h2 ?u) = Condition c None" using b by (simp add: block_of_def)
  let ?y = "?x1\<lparr> locked := Some (?t, 1), waiting_count :=
      (if 0 < waiting_count ?x1 then waiting_count ?x1 - 1 else waiting_count ?x1) \<rparr>"
  let ?e3 = "put_mutex i ?y (set_block ?t NotBlocked (put_cond c (?h2\<lparr> waking := [] \<rparr>) (put_cond c ?h2 ?u)))"
  have m: "mutexes (put_cond c ?h2 ?u) i = Some ?x1" by simp
  have rel: "relock_unblocked_mutex_for_thread ?t i
      (set_block ?t NotBlocked (put_cond c (?h2\<lparr> waking := [] \<rparr>) (put_cond c ?h2 ?u))) = Some ?e3"
    unfolding relock_spec by (intro exI [of _ ?x1]) simp
  have "try_condition now wall ?t c None na (put_cond c ?h2 ?u) = Some (Picked ?e3)"
    unfolding try_condition_def using rel m by (simp add: mutex_is_locked_def del: put_cond_twice)
  then have p: "try_candidate now wall ?t na (put_cond c ?h2 ?u) = Some (Picked ?e3)"
    unfolding try_candidate_def b2 by simp
  let ?r = "?e3\<lparr> current_thread := ?t \<rparr>"
  have len: "?t < length (threads (put_cond c (?h2\<lparr> waking := [] \<rparr>) (put_cond c ?h2 ?u)))" using assms(10) by simp
  have "block_of ?t ?e3 = NotBlocked" using block_of_set_block [OF len, of ?t NotBlocked] by simp
  then have nb: "thread_at ?t ?r = Some (threads ?r ! ?t)" "\<not> is_blocked (threads ?r ! ?t)"
    using assms(10) by (simp_all add: thread_at_def is_blocked_def block_of_def)
  have "condition_variables ?r c = Some (?h2\<lparr> waking := [] \<rparr>)" by simp
  then have "?k ?r = Some (0, ?r\<lparr> yielder := True \<rparr>)"
    using nb assms(5) by (simp add: wait_rest_def)
  moreover have "mutex_is_locked_by i ?t (?r\<lparr> yielder := True \<rparr>)" by (simp add: mutex_is_locked_by_def)
  ultimately show ?thesis using w free asleep s p by blast
qed

text \<open>Thread 0 holds mutex 7, whose object is at 9000, and uses the condition variable at 8192.\<close>

definition about_to_wait :: env where
  "about_to_wait = (with_cond [])\<lparr>
     e_mem := (sample (to_le_bytes 4 MAGIC_COND @ []))\<lparr> mbytes := put_bytes 9000
       (lock_bytes \<lparr> gl_magic = MAGIC_MUTEX, gl_id = 7 \<rparr>) (mbytes (sample (to_le_bytes 4 MAGIC_COND @ []))) \<rparr>,
     mutexes := [7 \<mapsto> \<lparr> mutex_kind = PTHREAD_MUTEX_NORMAL, waiting_count = 0, locked = Some (0, 1) \<rparr>] \<rparr>"

lemma about_to_wait_lock:
  "read_lock (e_mem about_to_wait) 9000 = Some \<lparr> gl_magic = MAGIC_MUTEX, gl_id = 7 \<rparr>"
  "read_u32 (e_mem about_to_wait) 9000 = Some MAGIC_MUTEX"
proof -
  let ?m = "sample (to_le_bytes 4 MAGIC_COND @ [])" and ?g = "\<lparr> gl_magic = MAGIC_MUTEX, gl_id = 7 \<rparr>"
  have o: "ordinary ?m 9000 12" by (rule sample_ordinary; simp)
  show "read_lock (e_mem about_to_wait) 9000 = Some ?g" "read_u32 (e_mem about_to_wait) 9000 = Some MAGIC_MUTEX"
    using read_written_lock [OF o, of ?g] by (simp_all add: about_to_wait_def magic_defs)
qed

lemma about_to_wait_facts:
  "registered_cond 8192 about_to_wait" "mutex_handle 9000 about_to_wait = Some (Inr 7, about_to_wait)"
  "condition_variables about_to_wait 8192 = Some \<lparr> waiting = [], waking = [], curr_mutex = Some 7, timed_out = {} \<rparr>"
  "current_thread about_to_wait = 0" "yielder about_to_wait" "length (threads about_to_wait) = 1"
  "block_of 0 about_to_wait = NotBlocked"
  "mutexes about_to_wait 7 = Some \<lparr> mutex_kind = PTHREAD_MUTEX_NORMAL, waiting_count = 0, locked = Some (0, 1) \<rparr>"
proof -
  let ?m = "sample (to_le_bytes 4 MAGIC_COND @ [])" and ?g = "\<lparr> gl_magic = MAGIC_MUTEX, gl_id = 7 \<rparr>"
  have o: "ordinary ?m 9000 12" "ordinary ?m 8192 4" by (rule sample_ordinary; simp)+
  show "mutex_handle 9000 about_to_wait = Some (Inr 7, about_to_wait)"
    using about_to_wait_lock by (simp add: check_or_register_mutex_eq handle_with_def register_def magic_defs)
  have "mem_read 4 (e_mem about_to_wait) 8192 = mem_read 4 ?m 8192"
    unfolding about_to_wait_def using read_apart [OF o(2), of 9000 "lock_bytes ?g"] by simp
  then show "registered_cond 8192 about_to_wait"
    using with_cond_facts(1) [of "[]"] by (simp add: registered_cond_def with_cond_def read_u32_def)
qed (simp_all add: about_to_wait_def with_cond_def running_simps(4) [unfolded block_of_def] block_of_def)

lemma wait_signal_wakes_witness:
  "\<exists>e1 k e2 e3. pthread_cond_wait 8192 9000 about_to_wait = Some (Blocked e1 k) \<and>
     pthread_cond_signal 8192 (e1\<lparr> current_thread := 5 \<rparr>) = Some (0, e2) \<and>
     try_candidate 0 0 0 None e2 = Some (Picked e3)"
proof -
  note f = about_to_wait_facts
  have h: "waiting \<lparr> waiting = [], waking = [], curr_mutex = Some 7, timed_out = {} \<rparr> = []"
    "waking \<lparr> waiting = [], waking = [], curr_mutex = Some 7, timed_out = {} \<rparr> = []"
    "timed_out \<lparr> waiting = [], waking = [], curr_mutex = Some 7, timed_out = {} \<rparr> = {}" by simp_all
  have "locked \<lparr> mutex_kind = PTHREAD_MUTEX_NORMAL, waiting_count = 0, locked = Some (0, 1) \<rparr> =
      Some (current_thread about_to_wait, 1)" by (simp add: f(4))
  from wait_signal_wakes [OF f(1,3) h f(2,8) this f(5), of 0 0 None 5] f(4,6,7) show ?thesis
    by (metis less_one)
qed

text \<open>The executor lets thread \<open>u\<close> run.\<close>

definition as_thread :: "nat \<Rightarrow> env \<Rightarrow> env" where
  "as_thread u e = e\<lparr> current_thread := u, yielder := True \<rparr>"

lemma as_thread_simps [simp]:
  "current_thread (as_thread u e) = u" "yielder (as_thread u e)" "threads (as_thread u e) = threads e"
  "mutexes (as_thread u e) = mutexes e" "e_mem (as_thread u e) = e_mem e"
  "condition_variables (as_thread u e) = condition_variables e" "block_of v (as_thread u e) = block_of v e"
  "registered_cond c (as_thread u e) = registered_cond c e"
  by (simp_all add: as_thread_def block_of_def registered_cond_def)

lemma initialised_handle:
  "read_u32 (e_mem e) p = Some MAGIC_MUTEX \<Longrightarrow> read_lock (e_mem e) p = Some g \<Longrightarrow>
   mutex_handle p e = Some (Inr (gl_id g), e)"
  by (simp add: check_or_register_mutex_eq handle_with_def register_def magic_defs)

lemma lock_blocks:
  assumes "mutexes e i = Some x" "locked x = Some (owner, n)" "owner \<noteq> current_thread e"
    and "yielder e" "current_thread e < length (threads e)" "block_of (current_thread e) e = NotBlocked"
  shows "\<exists>k. lock_mutex i e = Some (Blocked ((set_block (current_thread e) (Mutex i)
    (put_mutex i (x\<lparr> waiting_count := wadd32 (waiting_count x) 1 \<rparr>) e))\<lparr> yielder := False \<rparr>) k)"
proof -
  have "\<not> is_blocked (threads e ! current_thread e)" using assms(6) by (simp add: is_blocked_def block_of_def)
  then show ?thesis
    using assms by (simp add: lock_mutex_def block_on_mutex_def yield_thread_def thread_at_def)
qed

lemma wakeup_uncounts:
  assumes "t < length (threads e)" "u < length (threads e)" "u \<noteq> t"
    and "block_of t e = Condition c d" "condition_variables e c = Some h" "waking h = t # ts" "curr_mutex h = Some i"
    and "mutexes e i = Some x" "locked x = None" "waiting_count x = 1" "block_of u e = Mutex i"
  shows "\<exists>e1 e2 e3. try_candidate now wall t na e = Some (Picked e1) \<and>
    map_option waiting_count (mutexes e1 i) = Some 0 \<and>
    unlock_mutex i (as_thread t e1) = Some (Inr 0, e2) \<and>
    destroy_mutex i e2 = Some (Inr (), e3) \<and>
    block_of u e3 = Mutex i \<and> try_candidate now2 wall2 u na2 e3 = None"
proof -
  let ?h = "h\<lparr> waking := ts \<rparr>" and ?y = "x\<lparr> locked := Some (t, 1), waiting_count := 0 \<rparr>"
  let ?s = "set_block t NotBlocked (put_cond c ?h e)"
  let ?e1 = "put_mutex i ?y ?s"
  have "relock_unblocked_mutex_for_thread t i ?s = Some ?e1"
    using assms(8-10) unfolding relock_spec by (intro exI [of _ x]) simp
  then have "try_condition now wall t c d na e = Some (Picked ?e1)"
    using assms(5-9) by (simp add: try_condition_def mutex_is_locked_def)
  then have p: "try_candidate now wall t na e = Some (Picked ?e1)"
    using assms(4) by (simp add: try_candidate_def)
  let ?c = "as_thread t ?e1" and ?z = "?y\<lparr> locked := None \<rparr>"
  let ?e2 = "put_mutex i ?z ?c"
  have un: "unlock_mutex i ?c = Some (Inr 0, ?e2)" by (simp add: unlock_mutex_def)
  let ?e3 = "?e2\<lparr> mutexes := (mutexes ?e2)(i := None) \<rparr>"
  have d: "destroy_mutex i ?e2 = Some (Inr (), ?e3)" by (simp add: destroy_mutex_def)
  have "block_of u ?s = Mutex i"
    using block_of_set_block [of t "put_cond c ?h e" u NotBlocked] assms(1,3,11) by simp
  then have b: "block_of u ?e3 = Mutex i" by (simp add: block_of_def)
  have none: "mutexes ?e3 i = None" "mutexes (set_block u NotBlocked ?e3) i = None" by simp_all
  have "try_candidate now2 wall2 u na2 ?e3 = None"
    unfolding try_candidate_def b thread_block.case mutex_is_locked_def relock_unblocked_mutex_for_thread_def none
    by simp
  moreover have "map_option waiting_count (mutexes ?e1 i) = Some 0" by simp
  ultimately show ?thesis using p un d b by blast
qed

text \<open>
  C35: the waiter count of a mutex is wrong as soon as condition variables are used.  Thread \<open>t\<close> holds
  an initialised mutex once and nobody waits for it.  Thread \<open>u\<close> blocks on it: the count is 1.  Then
  \<open>t\<close> calls \<open>pthread_cond_wait\<close>, which suspends it until it gets the mutex back, and leaves the count
  at 1.  After a signal by any thread, the scheduler gives \<open>t\<close> the mutex and drops the count to 0,
  although \<open>u\<close> is still blocked on the mutex.  So when \<open>t\<close> has unlocked the mutex it can destroy it,
  and the next time the scheduler looks at \<open>u\<close>, it panics.
\<close>

theorem cond_wakeup_loses_waiter:
  assumes "registered_cond c e" "condition_variables e c = Some h" "waiting h = []" "waking h = []"
    and "read_u32 (e_mem e) p = Some MAGIC_MUTEX" "read_lock (e_mem e) p = Some g" "gl_id g = i"
    and "mutexes e i = Some x" "locked x = Some (t, 1)" "waiting_count x = 0"
    and "t < length (threads e)" "u < length (threads e)" "u \<noteq> t"
    and "block_of t e = NotBlocked" "block_of u e = NotBlocked"
  shows "\<exists>e1 k1 e2 k2 e3 e4 e5 e6.
    lock_mutex i (as_thread u e) = Some (Blocked e1 k1) \<and> map_option waiting_count (mutexes e1 i) = Some 1 \<and>
    pthread_cond_wait c p (as_thread t e1) = Some (Blocked e2 k2) \<and> block_of t e2 = Condition c None \<and>
    map_option waiting_count (mutexes e2 i) = Some 1 \<and>
    pthread_cond_signal c (as_thread v e2) = Some (0, e3) \<and>
    try_candidate now wall t na e3 = Some (Picked e4) \<and> map_option waiting_count (mutexes e4 i) = Some 0 \<and>
    unlock_mutex i (as_thread t e4) = Some (Inr 0, e5) \<and> destroy_mutex i e5 = Some (Inr (), e6) \<and>
    block_of u e6 = Mutex i \<and> try_candidate now2 wall2 u na2 e6 = None"
proof -
  let ?x1 = "x\<lparr> waiting_count := wadd32 0 1 \<rparr>"
  let ?p1 = "put_mutex i ?x1 (as_thread u e)"
  let ?e1 = "(set_block u (Mutex i) ?p1)\<lparr> yielder := False \<rparr>"
  obtain k1 where lock: "lock_mutex i (as_thread u e) = Some (Blocked ?e1 k1)"
    using lock_blocks [of "as_thread u e" i x t 1] assms(8-13,15) by auto
  have blocks1: "block_of w ?e1 = (if w = u then Mutex i else block_of w e)" for w
    using block_of_set_block [of u ?p1 w "Mutex i"] assms(12) by simp
  let ?t1 = "as_thread t ?e1"
  let ?h2 = "h\<lparr> curr_mutex := Some i, waiting := [t] \<rparr>" and ?x2 = "?x1\<lparr> locked := None \<rparr>"
  let ?p2 = "put_cond c ?h2 (put_mutex i ?x2 ?t1)"
  let ?e2 = "(set_block t (Condition c None) ?p2)\<lparr> yielder := False \<rparr>"
  have reg: "registered_cond c ?t1" using assms(1) by (simp add: registered_cond_def)
  have handle: "mutex_handle p ?t1 = Some (Inr i, ?t1)"
    using initialised_handle [of ?t1 p g] assms(5-7) by simp
  obtain k2 where wait: "pthread_cond_wait c p ?t1 = Some (Blocked ?e2 k2)"
    using wait_blocks [OF reg _ assms(3,4) handle, of ?x1] assms(2,9,11,13,14) blocks1 by auto
  have blocks2: "block_of w ?e2 = (if w = t then Condition c None else block_of w ?e1)" for w
    using block_of_set_block [of t ?p2 w "Condition c None"] assms(11) by simp
  have reg2: "registered_cond c (as_thread v ?e2)" using reg by (simp add: registered_cond_def)
  let ?h3 = "?h2\<lparr> waiting := [], waking := [t] \<rparr>"
  let ?e3 = "put_cond c ?h3 (as_thread v ?e2)"
  have sig: "pthread_cond_signal c (as_thread v ?e2) = Some (0, ?e3)"
    using signal_spec [OF reg2, of ?h2] assms(4) by simp
  have at3: "t < length (threads ?e3)" "u < length (threads ?e3)" "block_of t ?e3 = Condition c None"
    "block_of u ?e3 = Mutex i" "condition_variables ?e3 c = Some ?h3" "mutexes ?e3 i = Some ?x2"
    using assms(11-13) blocks1 blocks2 by simp_all
  from wakeup_uncounts [OF at3(1,2) assms(13) at3(3,5) _ _ at3(6) _ _ at3(4), of "[]" now wall na now2 wall2 na2]
  obtain e4 e5 e6 where "try_candidate now wall t na ?e3 = Some (Picked e4)" "map_option waiting_count (mutexes e4 i) = Some 0"
    "unlock_mutex i (as_thread t e4) = Some (Inr 0, e5)" "destroy_mutex i e5 = Some (Inr (), e6)"
    "block_of u e6 = Mutex i" "try_candidate now2 wall2 u na2 e6 = None" by (auto simp: wadd32_def)
  moreover have "map_option waiting_count (mutexes ?e1 i) = Some 1" "map_option waiting_count (mutexes ?e2 i) = Some 1"
    by (simp_all add: wadd32_def)
  ultimately show ?thesis using lock wait sig blocks2 [of t] by auto
qed

text \<open>The state \<open>about_to_wait\<close> with a second thread.\<close>

definition two_about_to_wait :: env where
  "two_about_to_wait = about_to_wait\<lparr> threads := threads about_to_wait @
     [\<lparr> active = True, blocked_by = NotBlocked, return_value = None, stack = None \<rparr>] \<rparr>"

lemma cond_wakeup_loses_waiter_witness:
  "\<exists>e1 k1 e2 k2. lock_mutex 7 (as_thread 1 two_about_to_wait) = Some (Blocked e1 k1) \<and>
     pthread_cond_wait 8192 9000 (as_thread 0 e1) = Some (Blocked e2 k2)"
proof -
  let ?e = two_about_to_wait
  note f = about_to_wait_facts
  have m: "e_mem ?e = e_mem about_to_wait" "condition_variables ?e = condition_variables about_to_wait"
    "mutexes ?e = mutexes about_to_wait" by (simp_all add: two_about_to_wait_def)
  have len: "length (threads ?e) = 2" using f(6) by (simp add: two_about_to_wait_def)
  have b: "block_of 0 ?e = NotBlocked" "block_of 1 ?e = NotBlocked"
    using f(6,7) by (simp_all add: two_about_to_wait_def block_of_def nth_append)
  have reg: "registered_cond 8192 ?e" using f(1) m(1) by (simp add: registered_cond_def)
  have "condition_variables ?e 8192 = Some \<lparr> waiting = [], waking = [], curr_mutex = Some 7, timed_out = {} \<rparr>"
    "mutexes ?e 7 = Some \<lparr> mutex_kind = PTHREAD_MUTEX_NORMAL, waiting_count = 0, locked = Some (0, 1) \<rparr>"
    using f(3,8) m by simp_all
  from cond_wakeup_loses_waiter [OF reg this(1) _ _ _ _ _ this(2), of 9000 "\<lparr> gl_magic = MAGIC_MUTEX, gl_id = 7 \<rparr>" 0 1 3 0 0 None 0 0 None]
  show ?thesis using len b m about_to_wait_lock by simp blast
qed

section \<open>One-time initialisation\<close>

lemma once_bytes_length [simp]: "length once_bytes = 8" "once_bytes \<noteq> []"
proof -
  show "length once_bytes = 8" by (simp add: once_bytes_def)
  then show "once_bytes \<noteq> []" by (metis list.size(3) zero_neq_numeral)
qed

lemma once_done: "mem_read 8 (e_mem e) p = Some once_bytes \<Longrightarrow> pthread_once run p f e = Some (0, e)"
  by (simp add: pthread_once_def once_bytes_def from_to_le Let_def MAGIC_ONCE_def)

text \<open>
  the routine of a \<open>pthread_once\<close> control word is run once.  Whatever the word held before,
  after a call the word says that the routine has been run, and it says so already while the routine
  runs: a call from within the routine, and every call after it, succeeds without running anything.
  The routine is any guest code that leaves the control word alone.
\<close>

theorem once_runs_once:
  assumes "ordinary (e_mem e) p 8" "pthread_once run p f e = Some (r, e1)"
    and "\<And>g e2 e3. run g e2 = Some e3 \<Longrightarrow> mem_read 8 (e_mem e3) p = mem_read 8 (e_mem e2) p"
    and bs: "mem_read 8 (e_mem e) p = Some bs" "from_le_bytes (field 0 4 bs) \<noteq> MAGIC_ONCE \<or> from_le_bytes (field 4 4 bs) = 0"
  shows "r = 0 \<and> (\<forall>run2 g. pthread_once run2 p g e1 = Some (0, e1)) \<and>
    (\<exists>e0. run f e0 = Some e1 \<and> (\<forall>run2 g. pthread_once run2 p g e0 = Some (0, e0)))"
proof -
  let ?e0 = "e\<lparr> e_mem := (e_mem e)\<lparr> mbytes := put_bytes p once_bytes (mbytes (e_mem e)) \<rparr> \<rparr>"
  have w: "mem_write (e_mem e) p once_bytes = Some (e_mem ?e0)"
    using write_ordinary [of "e_mem e" p once_bytes] assms(1) by simp
  have r: "r = 0" "run f ?e0 = Some e1"
    using assms(2) bs w by (auto simp: pthread_once_def Let_def bind_eq_Some_conv)
  have "mem_read 8 (e_mem ?e0) p = Some once_bytes"
    using read_prefix [of "e_mem e" p once_bytes 8] assms(1) by simp
  moreover from this have "mem_read 8 (e_mem e1) p = Some once_bytes" using assms(3) [OF r(2)] by simp
  ultimately show ?thesis using r once_done by blast
qed

lemma once_runs_once_witness:
  "\<exists>e1. pthread_once (\<lambda>_ e. Some e) 8192 0x4000 (running (to_le_bytes 4 MAGIC_ONCE @ to_le_bytes 4 0)) = Some (0, e1) \<and>
     pthread_once (\<lambda>_ _. None) 8192 0x4000 e1 = Some (0, e1)"
proof -
  let ?b = "to_le_bytes 4 MAGIC_ONCE @ to_le_bytes 4 0" and ?run = "\<lambda>_ e. Some e"
  have o: "ordinary (e_mem (running ?b)) 8192 8" by simp
  have rd: "mem_read 8 (e_mem (running ?b)) 8192 = Some ?b" by (simp add: sample_read)
  have z: "from_le_bytes (field 4 4 ?b) = 0" by (simp add: from_to_le)
  have "\<exists>r e1. pthread_once ?run 8192 0x4000 (running ?b) = Some (r, e1)"
    using write_ordinary [of "sample ?b" 8192 once_bytes] rd z by (simp add: pthread_once_def Let_def)
  then obtain r e1 where c: "pthread_once ?run 8192 0x4000 (running ?b) = Some (r, e1)" by blast
  from once_runs_once [OF o c _ rd] z c show ?thesis by auto
qed

section \<open>Thread-specific data\<close>

text \<open>What a read returns after the table of one key has been replaced.\<close>

lemma getspecific_at:
  "key_index k e = Some i \<Longrightarrow> pthread_getspecific k (e\<lparr> current_thread := t \<rparr>) =
     (case fst (keys e ! i) t of None \<Rightarrow> 0 | Some w \<Rightarrow> w)"
  by (simp add: pthread_getspecific_def key_index_def split: if_splits)

lemma getspecific_update:
  assumes "i < length (keys e)"
  shows "pthread_getspecific k (e\<lparr> keys := (keys e)[i := z], current_thread := t \<rparr>) =
    (if key_index k e = Some i then (case fst z t of None \<Rightarrow> 0 | Some w \<Rightarrow> w)
     else pthread_getspecific k (e\<lparr> current_thread := t \<rparr>))"
  using assms by (simp add: pthread_getspecific_def key_index_def)

text \<open>
  a value stored under a key is read back by the same thread and by nobody else; other keys keep
  their values, for every thread; deleting a key forgets its values for all threads and leaves the other
  keys alone; and a key that was never created reads as NULL and is refused with \<open>EINVAL\<close>.
\<close>

theorem thread_specific_data:
  "(let e1 = snd (pthread_setspecific key v e); d = snd (pthread_key_delete key e) in if key_index key e = None
      then pthread_setspecific key v e = (EINVAL, e) \<and> pthread_key_delete key e = (EINVAL, e) \<and>
           pthread_getspecific key e = 0
      else fst (pthread_setspecific key v e) = 0 \<and> fst (pthread_key_delete key e) = 0 \<and>
           pthread_getspecific key e1 = v \<and>
           (t \<noteq> current_thread e \<or> k2 \<noteq> key \<longrightarrow> pthread_getspecific k2 (e1\<lparr> current_thread := t \<rparr>) =
              pthread_getspecific k2 (e\<lparr> current_thread := t \<rparr>)) \<and>
           pthread_getspecific key (d\<lparr> current_thread := t \<rparr>) = 0 \<and>
           (k2 \<noteq> key \<longrightarrow> pthread_getspecific k2 (d\<lparr> current_thread := t \<rparr>) =
              pthread_getspecific k2 (e\<lparr> current_thread := t \<rparr>)))"
proof (cases "key_index key e")
  case None
  then show ?thesis
    by (simp add: pthread_setspecific_def pthread_key_delete_def pthread_getspecific_def EINVAL_def)
next
  case (Some i)
  then have i: "i = key - 1" "key \<noteq> 0" "i < length (keys e)" by (auto simp: key_index_def split: if_splits)
  have e1: "pthread_setspecific key v e =
      (0, e\<lparr> keys := (keys e)[i := ((fst (keys e ! i))(current_thread e \<mapsto> v), snd (keys e ! i))] \<rparr>)"
    "pthread_key_delete key e = (0, e\<lparr> keys := (keys e)[i := (\<lambda>_. None, snd (keys e ! i))] \<rparr>)"
    using Some by (simp_all add: pthread_setspecific_def pthread_key_delete_def)
  have other: "k2 \<noteq> key \<Longrightarrow> key_index k2 e \<noteq> Some i"
    using i by (auto simp: key_index_def)
  note get = getspecific_update [OF i(3)]
  have "pthread_getspecific key (e\<lparr> keys := (keys e)[i := ((fst (keys e ! i))(current_thread e \<mapsto> v), snd (keys e ! i))] \<rparr>) = v"
    using get [where k = key and t = "current_thread e"] Some by simp
  moreover have "pthread_getspecific k2 (e\<lparr> keys := (keys e)[i := ((fst (keys e ! i))(current_thread e \<mapsto> v), snd (keys e ! i))], current_thread := t \<rparr>) =
      pthread_getspecific k2 (e\<lparr> current_thread := t \<rparr>)" if "t \<noteq> current_thread e \<or> k2 \<noteq> key"
    using that get other getspecific_at [of k2 e i t] by auto
  moreover have "pthread_getspecific key (e\<lparr> keys := (keys e)[i := (\<lambda>_. None, snd (keys e ! i))], current_thread := t \<rparr>) = 0"
    using get Some by simp
  moreover have "pthread_getspecific k2 (e\<lparr> keys := (keys e)[i := (\<lambda>_. None, snd (keys e ! i))], current_thread := t \<rparr>) =
      pthread_getspecific k2 (e\<lparr> current_thread := t \<rparr>)" if "k2 \<noteq> key"
    using get other [OF that] by simp
  ultimately show ?thesis using Some by (simp add: e1 Let_def)
qed

lemma thread_specific_data_witness:
  "pthread_getspecific 1 (snd (pthread_setspecific 1 42 ((running [])\<lparr> keys := [(\<lambda>_. None, 0)] \<rparr>))) = 42"
  using thread_specific_data [of 1 42 "(running [])\<lparr> keys := [(\<lambda>_. None, 0)] \<rparr>" 0 1]
  by (simp add: key_index_def Let_def)

end
