(* ===== verification/Utf8.thy ===== *)
theory Utf8
  imports Guest_Values
begin

text \<open>
  Byte strings as Rust strings: the validity check of \<open>std::str::from_utf8\<close>, the first characters
  of a string, and \<open>Mem::cstr_at_utf8\<close> (\<open>src/mem.rs\<close>) on top of them.
\<close>

definition bytes_of :: "string \<Rightarrow> u8 list" where
  "bytes_of s = map of_char s"

lemma bytes_of_length [simp]: "length (bytes_of s) = length s"
  by (simp add: bytes_of_def)

definition utf8_cont :: "u8 \<Rightarrow> bool" where
  "utf8_cont b = (0x80 \<le> b \<and> b \<le> 0xBF)"

text \<open>The well-formed sequences: no overlong form, no surrogate, nothing above U+10FFFF.\<close>

fun utf8_2 :: "u8 \<Rightarrow> u8 \<Rightarrow> bool" where
  "utf8_2 a b = (0xC2 \<le> a \<and> a \<le> 0xDF \<and> utf8_cont b)"

fun utf8_3 :: "u8 \<Rightarrow> u8 \<Rightarrow> u8 \<Rightarrow> bool" where
  "utf8_3 a b c =
     (0xE0 \<le> a \<and> a \<le> 0xEF \<and> utf8_cont b \<and> utf8_cont c \<and>
      (a = 0xE0 \<longrightarrow> 0xA0 \<le> b) \<and> (a = 0xED \<longrightarrow> b \<le> 0x9F))"

fun utf8_4 :: "u8 \<Rightarrow> u8 \<Rightarrow> u8 \<Rightarrow> u8 \<Rightarrow> bool" where
  "utf8_4 a b c d =
     (0xF0 \<le> a \<and> a \<le> 0xF4 \<and> utf8_cont b \<and> utf8_cont c \<and> utf8_cont d \<and>
      (a = 0xF0 \<longrightarrow> 0x90 \<le> b) \<and> (a = 0xF4 \<longrightarrow> b \<le> 0x8F))"

fun utf8_ok :: "u8 list \<Rightarrow> bool" where
  "utf8_ok [] = True"
| "utf8_ok (a # bs) =
     (if a < 0x80 then utf8_ok bs
      else case bs of
             [] \<Rightarrow> False
           | b # cs \<Rightarrow>
               (if utf8_2 a b then utf8_ok cs
                else case cs of
                       [] \<Rightarrow> False
                     | c # ds \<Rightarrow>
                         (if utf8_3 a b c then utf8_ok ds
                          else case ds of
                                 [] \<Rightarrow> False
                               | d # es \<Rightarrow> utf8_4 a b c d \<and> utf8_ok es)))"

lemma utf8_ok_ascii: "\<forall>b \<in> set bs. b < 0x80 \<Longrightarrow> utf8_ok bs"
  by (induction bs) simp_all

text \<open>The first \<open>n\<close> characters of a valid string.\<close>

definition utf8_width :: "u8 \<Rightarrow> nat" where
  "utf8_width a = (if a < 0x80 then 1 else if a < 0xE0 then 2 else if a < 0xF0 then 3 else 4)"

fun utf8_take :: "nat \<Rightarrow> u8 list \<Rightarrow> u8 list" where
  "utf8_take 0 bs = []"
| "utf8_take (Suc n) [] = []"
| "utf8_take (Suc n) (a # bs) =
     take (utf8_width a) (a # bs) @ utf8_take n (drop (utf8_width a) (a # bs))"

text \<open>\<open>Inr\<close> is the string, \<open>Inl\<close> the bytes that are not one.\<close>

definition cstr_at_utf8 :: "mem \<Rightarrow> nat \<Rightarrow> (u8 list + u8 list) option" where
  "cstr_at_utf8 m p = do {
     s \<leftarrow> cstr_at m p;
     let bytes = slice_bytes m s;
     Some (if utf8_ok bytes then Inr bytes else Inl bytes) }"

text \<open>The string itself, where the code unwraps.\<close>

definition str_at :: "mem \<Rightarrow> nat \<Rightarrow> u8 list option" where
  "str_at m p = do {
     r \<leftarrow> cstr_at_utf8 m p;
     (case r of Inl _ \<Rightarrow> None | Inr s \<Rightarrow> Some s) }"

end
