(* ===== verification/Errno.thy ===== *)
theory Errno
  imports Mutexes Utf8
begin

text \<open>
  \<open>errno\<close> (\<open>src/libc/errno.rs\<close>): every thread has a cell of its own in guest memory, allocated
  when it is first used, and the messages of \<open>strerror\<close> are strings in guest memory that are
  allocated once per error number.
\<close>

definition errno_ptr_for_thread :: "nat \<Rightarrow> env \<Rightarrow> (nat \<times> env) option" where
  "errno_ptr_for_thread t e =
     (case errnos e t of
        Some p \<Rightarrow> Some (p, e)
      | None \<Rightarrow> do {
          (p, m1) \<leftarrow> alloc_and_write (i32_bytes 0) (e_mem e);
          Some (p, e\<lparr> e_mem := m1, errnos := (errnos e)(t \<mapsto> p) \<rparr>) })"

definition set_errno_for_thread :: "nat \<Rightarrow> int \<Rightarrow> env \<Rightarrow> env option" where
  "set_errno_for_thread t v e = do {
     (p, e1) \<leftarrow> errno_ptr_for_thread t e;
     m1 \<leftarrow> write_i32 (e_mem e1) p v;
     Some (e1\<lparr> e_mem := m1 \<rparr>) }"

definition set_errno :: "int \<Rightarrow> env \<Rightarrow> env option" where
  "set_errno v e = set_errno_for_thread (current_thread e) v e"

definition get_errno :: "env \<Rightarrow> (int \<times> env) option" where
  "get_errno e = do {
     (p, e1) \<leftarrow> errno_ptr_for_thread (current_thread e) e;
     v \<leftarrow> read_i32 (e_mem e1) p;
     Some (v, e1) }"

definition errno_location :: "env \<Rightarrow> (nat \<times> env) option" where
  "errno_location e = errno_ptr_for_thread (current_thread e) e"

section \<open>Messages\<close>

definition error_messages :: "(int \<times> string) list" where
  "error_messages =
    [(0, ''Undefined error: 0''),
     (1, ''Operation not permitted''),
     (2, ''No such file or directory''),
     (3, ''No such process''),
     (4, ''Interrupted system call''),
     (5, ''Input/output error''),
     (6, ''No such device or address''),
     (7, ''Argument list too long''),
     (8, ''Exec format error''),
     (9, ''Bad file descriptor''),
     (10, ''No child processes''),
     (11, ''Resource deadlock avoided''),
     (12, ''Cannot allocate memory''),
     (13, ''Permission denied''),
     (14, ''Bad address''),
     (15, ''Block device required''),
     (16, ''Resource busy''),
     (17, ''File exists''),
     (18, ''Cross-device link''),
     (19, ''Operation not supported by device''),
     (20, ''Not a directory''),
     (21, ''Is a directory''),
     (22, ''Invalid argument''),
     (23, ''Too many open files in system''),
     (24, ''Too many open files''),
     (25, ''Inappropriate ioctl for device''),
     (26, ''Text file busy''),
     (27, ''File too large''),
     (28, ''No space left on device''),
     (29, ''Illegal seek''),
     (30, ''Read-only file system''),
     (31, ''Too many links''),
     (32, ''Broken pipe''),
     (33, ''Numerical argument out of domain''),
     (34, ''Result too large''),
     (35, ''Resource temporarily unavailable''),
     (36, ''Operation now in progress''),
     (37, ''Operation already in progress''),
     (38, ''Socket operation on non-socket''),
     (39, ''Destination address required''),
     (40, ''Message too long''),
     (41, ''Protocol wrong type for socket''),
     (42, ''Protocol not available''),
     (43, ''Protocol not supported''),
     (44, ''Socket type not supported''),
     (45, ''Operation not supported''),
     (46, ''Protocol family not supported''),
     (47, ''Address family not supported by protocol family''),
     (48, ''Address already in use''),
     (49, ''Can't assign requested address''),
     (50, ''Network is down''),
     (51, ''Network is unreachable''),
     (52, ''Network dropped connection on reset''),
     (53, ''Software caused connection abort''),
     (54, ''Connection reset by peer''),
     (55, ''No buffer space available''),
     (56, ''Socket is already connected''),
     (57, ''Socket is not connected''),
     (58, ''Can't send after socket shutdown''),
     (59, ''Too many references: can't splice''),
     (60, ''Operation timed out''),
     (61, ''Connection refused''),
     (62, ''Too many levels of symbolic links''),
     (63, ''File name too long''),
     (64, ''Host is down''),
     (65, ''No route to host''),
     (66, ''Directory not empty''),
     (67, ''Too many processes''),
     (68, ''Too many users''),
     (69, ''Disc quota exceeded''),
     (70, ''Stale NFS file handle''),
     (71, ''Too many levels of remote in path''),
     (72, ''RPC struct is bad''),
     (73, ''RPC version wrong''),
     (74, ''RPC program not available''),
     (75, ''Program version wrong''),
     (76, ''Bad procedure for program''),
     (77, ''No locks available''),
     (78, ''Function not implemented''),
     (79, ''Inappropriate file type or format''),
     (80, ''Authentication error''),
     (81, ''Need authenticator''),
     (82, ''Device power is off''),
     (83, ''Device error''),
     (84, ''Value too large to be stored in data type''),
     (85, ''Bad executable (or shared library)''),
     (86, ''Bad CPU type in executable''),
     (87, ''Shared library version mismatch''),
     (88, ''Malformed Mach-o file''),
     (89, ''Operation canceled''),
     (90, ''Identifier removed''),
     (91, ''No message of desired type''),
     (92, ''Illegal byte sequence''),
     (93, ''Attribute not found''),
     (94, ''Bad message''),
     (95, ''EMULTIHOP (Reserved)''),
     (96, ''No message available on STREAM''),
     (97, ''ENOLINK (Reserved)''),
     (98, ''No STREAM resources''),
     (99, ''Not a STREAM''),
     (100, ''Protocol error''),
     (101, ''STREAM ioctl timeout''),
     (102, ''Operation not supported on socket''),
     (103, ''Policy not found''),
     (104, ''State not recoverable''),
     (105, ''Previous owner died''),
     (106, ''Interface output queue is full'')]"

definition error_message :: "int \<Rightarrow> string" where
  "error_message n = (case map_of error_messages n of None \<Rightarrow> ''Unknown error'' | Some s \<Rightarrow> s)"

definition strerror :: "int \<Rightarrow> env \<Rightarrow> (nat \<times> env) option" where
  "strerror err_num e =
     (case strings_cache e err_num of
        Some p \<Rightarrow> Some (p, e)
      | None \<Rightarrow> do {
          (p, m1) \<leftarrow> alloc_and_write_cstr (bytes_of (error_message err_num)) (e_mem e);
          Some (p, e\<lparr> e_mem := m1, strings_cache := (strings_cache e)(err_num \<mapsto> p) \<rparr>) })"

text \<open>\<open>perror\<close>, with the line it writes to the host's standard error as its result.\<close>

definition perror :: "nat \<Rightarrow> env \<Rightarrow> (u8 list \<times> env) option" where
  "perror s e = do {
     (p, e1) \<leftarrow> errno_location e;
     n \<leftarrow> read_i32 (e_mem e1) p;
     (str_error, e2) \<leftarrow> strerror n e1;
     str \<leftarrow> str_at (e_mem e2) str_error;
     let errno_msg = str @ bytes_of [CHR 0x0A];
     (if s = 0 then Some (errno_msg, e2)
      else do {
        r \<leftarrow> cstr_at_utf8 (e_mem e2) s;
        Some (case r of Inl _ \<Rightarrow> errno_msg | Inr prefix \<Rightarrow> prefix @ bytes_of '': '' @ errno_msg, e2) }) }"

section \<open>Facts\<close>

text \<open>Setting \<open>errno\<close> touches guest memory and the table of cells, nothing else.\<close>

definition errno_frame :: "env \<Rightarrow> env \<Rightarrow> bool" where
  "errno_frame e e1 = (\<exists>m f. e1 = e\<lparr> e_mem := m, errnos := f \<rparr>)"

lemma errno_frameI: "errno_frame e (e\<lparr> e_mem := x, errnos := f \<rparr>)"
  by (auto simp: errno_frame_def)

lemma errno_frame_mem: "errno_frame e (e\<lparr> e_mem := x \<rparr>)"
  using errno_frameI [of e "errnos e" x] by simp

lemma errno_frame_trans:
  assumes "errno_frame e e1" "errno_frame e1 e2"
  shows "errno_frame e e2"
proof -
  from assms obtain m f n g where "e1 = e\<lparr> e_mem := m, errnos := f \<rparr>" "e2 = e1\<lparr> e_mem := n, errnos := g \<rparr>"
    unfolding errno_frame_def by blast
  then have "e2 = e\<lparr> e_mem := n, errnos := g \<rparr>" by simp
  then show ?thesis unfolding errno_frame_def by blast
qed

lemma errno_ptr_frame: "errno_ptr_for_thread t e = Some (p, e1) \<Longrightarrow> errno_frame e e1"
  using errno_frame_mem [of e "e_mem e"] errno_frameI [of e]
  by (auto simp: errno_ptr_for_thread_def bind_eq_Some_conv split: option.splits)

lemma set_errno_frame:
  assumes "set_errno v e = Some e1"
  shows "errno_frame e e1"
proof -
  obtain p e0 m where "errno_ptr_for_thread (current_thread e) e = Some (p, e0)" "e1 = e0\<lparr> e_mem := m \<rparr>"
    using assms unfolding set_errno_def set_errno_for_thread_def by (auto simp: bind_eq_Some_conv)
  then show ?thesis using errno_ptr_frame errno_frame_mem errno_frame_trans by blast
qed

lemma errno_frameD:
  assumes "errno_frame e e1"
  shows "threads e1 = threads e" "current_thread e1 = current_thread e" "yielder e1 = yielder e"
    "mutexes e1 = mutexes e" "sem_cells e1 = sem_cells e" "open_semaphores e1 = open_semaphores e"
    "named_semaphores e1 = named_semaphores e" "block_of t e1 = block_of t e" "keys e1 = keys e"
    "condition_variables e1 = condition_variables e" "host_threads e1 = host_threads e"
  using assms by (auto simp: errno_frame_def block_of_def)

lemma errno_frame_refl [simp]: "errno_frame e e"
  using errno_frame_mem [of e "e_mem e"] by simp

end
