(* ===== verification/Semaphores.thy ===== *)
theory Semaphores
  imports Errno Scheduler_Facts Pthread_Cond
begin

text \<open>
  Counting semaphores (\<open>src/libc/semaphore.rs\<close> and \<open>sem_decrement\<close>, \<open>sem_increment\<close> of
  \<open>src/environment.rs\<close>).  A semaphore object is a cell that a guest pointer opens and, for a
  named one, a name finds.  A blocked waiter gets its unit from the scheduler
  (\<open>Scheduler.try_semaphore\<close>), not from the post.
\<close>

unbundle bit_operations_syntax

definition O_CREAT :: int where "O_CREAT = 0x200"
definition O_EXCL :: int where "O_EXCL = 0x800"
definition SEM_FAILED :: nat where "SEM_FAILED = 0xFFFFFFFF"

text \<open>\<open>i32\<close> arithmetic wraps.\<close>

definition i32_wrap :: "int \<Rightarrow> int" where
  "i32_wrap v = i32_of_bytes (i32_bytes v)"

lemma i32_wrap_id [simp]: "i32 v \<Longrightarrow> i32_wrap v = v"
  by (simp add: i32_wrap_def i32_roundtrip)

section \<open>The value\<close>

definition sem_decrement :: "nat \<Rightarrow> bool \<Rightarrow> env \<Rightarrow> bool call option" where
  "sem_decrement sem wait_on_lock e =
     (case open_semaphores e sem of
        None \<Rightarrow> Some (Done False e)
      | Some i \<Rightarrow>
          (let h = sem_cells e ! i
           in if 0 < sem_value h
              then Some (Done True (put_sem i (h\<lparr> sem_value := sem_value h - 1 \<rparr>) e))
              else if \<not> wait_on_lock then Some (Done False e)
              else yield_thread (Semaphore sem)
                     (put_sem i (h\<lparr> sem_waiting := insert (current_thread e) (sem_waiting h) \<rparr>) e)
                     (\<lambda>e1. Some (True, e1))))"

definition sem_increment :: "nat \<Rightarrow> env \<Rightarrow> bool \<times> env" where
  "sem_increment sem e =
     (case open_semaphores e sem of
        None \<Rightarrow> (False, e)
      | Some i \<Rightarrow>
          (let h = sem_cells e ! i
           in (True, put_sem i (h\<lparr> sem_value := i32_wrap (sem_value h + 1) \<rparr>) e)))"

section \<open>The guest's calls\<close>

definition new_cell :: "semaphore_host_object \<Rightarrow> env \<Rightarrow> nat \<times> env" where
  "new_cell h e = (length (sem_cells e), e\<lparr> sem_cells := sem_cells e @ [h] \<rparr>)"

definition sem_init :: "nat \<Rightarrow> int \<Rightarrow> nat \<Rightarrow> env \<Rightarrow> (int \<times> env) option" where
  "sem_init sem pshared v e = do {
     e1 \<leftarrow> set_errno 0 e;
     (if pshared \<noteq> 0 then None
      else if open_semaphores e1 sem \<noteq> None then Some (0, e1)
      else let (i, e2) = new_cell \<lparr> sem_value = i32_cast v, sem_waiting = {},
                                     guest_sem = Some sem, named = False \<rparr> e1
           in Some (0, e2\<lparr> open_semaphores := (open_semaphores e2)(sem \<mapsto> i) \<rparr>)) }"

definition sem_destroy :: "nat \<Rightarrow> env \<Rightarrow> (int \<times> env) option" where
  "sem_destroy sem e =
     (case open_semaphores e sem of
        None \<Rightarrow> Some (EINVAL, e)
      | Some i \<Rightarrow>
          (if named (sem_cells e ! i) then None
           else Some (0, e\<lparr> open_semaphores := (open_semaphores e)(sem := None) \<rparr>)))"

definition fail_with :: "int \<Rightarrow> 'r \<Rightarrow> env \<Rightarrow> ('r \<times> env) option" where
  "fail_with err r e = map_option (Pair r) (set_errno err e)"

text \<open>The last part of \<open>sem_open\<close>: a fresh descriptor for the object.\<close>

definition open_cell :: "nat \<Rightarrow> env \<Rightarrow> (nat \<times> env) option" where
  "open_cell i e = do {
     (sem, m1) \<leftarrow> alloc_and_write (i32_bytes 0) (e_mem e);
     let e1 = put_sem i ((sem_cells e ! i)\<lparr> guest_sem := Some sem \<rparr>) (e\<lparr> e_mem := m1 \<rparr>);
     Some (sem, e1\<lparr> open_semaphores := (open_semaphores e1)(sem \<mapsto> i) \<rparr>) }"

definition sem_open :: "nat \<Rightarrow> int \<Rightarrow> nat \<Rightarrow> env \<Rightarrow> (nat \<times> env) option" where
  "sem_open name oflag v e = do {
     e1 \<leftarrow> set_errno 0 e;
     sem_name \<leftarrow> str_at (e_mem e1) name;
     (case named_semaphores e1 sem_name of
        Some i \<Rightarrow>
          (if oflag AND O_EXCL \<noteq> 0 then fail_with EEXIST SEM_FAILED e1
           else case guest_sem (sem_cells e1 ! i) of
                  Some existing_sem \<Rightarrow> Some (existing_sem, e1)
                | None \<Rightarrow> open_cell i e1)
      | None \<Rightarrow>
          (if oflag AND O_CREAT = 0 then fail_with ENOENT SEM_FAILED e1
           else let (i, e2) = new_cell \<lparr> sem_value = i32_cast v, sem_waiting = {},
                                          guest_sem = None, named = True \<rparr> e1
                in open_cell i (e2\<lparr> named_semaphores := (named_semaphores e2)(sem_name \<mapsto> i) \<rparr>))) }"

definition sem_post :: "nat \<Rightarrow> env \<Rightarrow> (int \<times> env) option" where
  "sem_post sem e = do {
     e1 \<leftarrow> set_errno 0 e;
     (case sem_increment sem e1 of
        (True, e2) \<Rightarrow> Some (0, e2)
      | (False, e2) \<Rightarrow> fail_with EINVAL (- 1) e2) }"

definition sem_wait :: "nat \<Rightarrow> env \<Rightarrow> int call option" where
  "sem_wait sem e = do {
     e1 \<leftarrow> set_errno 0 e;
     c \<leftarrow> sem_decrement sem True e1;
     bind_call c (\<lambda>ok e2. if ok then Some (0, e2) else fail_with EINVAL (- 1) e2) }"

definition sem_trywait :: "nat \<Rightarrow> env \<Rightarrow> int call option" where
  "sem_trywait sem e = do {
     e1 \<leftarrow> set_errno 0 e;
     c \<leftarrow> sem_decrement sem False e1;
     bind_call c (\<lambda>ok e2.
       if ok then Some (0, e2)
       else if open_semaphores e2 sem \<noteq> None then fail_with EAGAIN (- 1) e2
       else fail_with EINVAL (- 1) e2) }"

definition sem_close :: "nat \<Rightarrow> env \<Rightarrow> (int \<times> env) option" where
  "sem_close sem e = do {
     e1 \<leftarrow> set_errno 0 e;
     (case open_semaphores e1 sem of
        None \<Rightarrow> fail_with EINVAL (- 1) e1
      | Some i \<Rightarrow>
          (let h = sem_cells e1 ! i
           in if \<not> named h then fail_with EINVAL (- 1) e1
              else do {
                let e2 = e1\<lparr> open_semaphores := (open_semaphores e1)(sem := None) \<rparr>;
                m1 \<leftarrow> (case guest_sem h of None \<Rightarrow> Some (e_mem e2) | Some p \<Rightarrow> mem_free p (e_mem e2));
                Some (0, put_sem i (h\<lparr> guest_sem := None \<rparr>) (e2\<lparr> e_mem := m1 \<rparr>)) })) }"

definition sem_unlink :: "nat \<Rightarrow> env \<Rightarrow> (int \<times> env) option" where
  "sem_unlink name e = do {
     e1 \<leftarrow> set_errno 0 e;
     sem_name \<leftarrow> str_at (e_mem e1) name;
     Some (0, e1\<lparr> named_semaphores := (named_semaphores e1)(sem_name := None) \<rparr>) }"

definition sem_reported :: "semaphore_host_object \<Rightarrow> int" where
  "sem_reported h =
     (if 0 < sem_value h then sem_value h
      else i32_wrap (- i32_wrap (int (card (sem_waiting h)))))"

definition sem_getvalue :: "nat \<Rightarrow> nat \<Rightarrow> env \<Rightarrow> (int \<times> env) option" where
  "sem_getvalue sem sval e = do {
     e1 \<leftarrow> set_errno 0 e;
     (case open_semaphores e1 sem of
        None \<Rightarrow> fail_with EINVAL (- 1) e1
      | Some i \<Rightarrow>
          (if sval = 0 then Some (0, e1)
           else put_mem e1 (write_i32 (e_mem e1) sval (sem_reported (sem_cells e1 ! i))) 0)) }"

definition host_create_semaphore :: "nat \<Rightarrow> env \<Rightarrow> (nat \<times> env) option" where
  "host_create_semaphore v e = do {
     (sem, m1) \<leftarrow> alloc_and_write (i32_bytes 0) (e_mem e);
     (_, e1) \<leftarrow> sem_init sem 0 v (e\<lparr> e_mem := m1 \<rparr>);
     Some (sem, e1) }"

definition host_destroy_semaphore :: "nat \<Rightarrow> env \<Rightarrow> env option" where
  "host_destroy_semaphore sem e = do {
     (_, e1) \<leftarrow> sem_destroy sem e;
     m1 \<leftarrow> mem_free sem (e_mem e1);
     Some (e1\<lparr> e_mem := m1 \<rparr>) }"

end
