(* ===== verification/Semaphore_Props.thy ===== *)
theory Semaphore_Props
  imports Semaphores Pthread_Lock_Props
begin

text \<open>
  Semaphores against the counter they stand for.  Threads call the semaphore functions and are
  rescheduled by the executor in any order; every step is labelled with the unit it posts or
  takes, as the guest sees it in the return values.
\<close>

section \<open>Threads that use semaphores\<close>

datatype sem_event = Posted nat | Taken nat | Silent

datatype sem_call =
    Post nat
  | Wait nat
  | TryWait nat
  | Create nat nat
  | GetValue nat nat
  | Pause

definition outcome :: "sem_event \<Rightarrow> int \<Rightarrow> sem_event" where
  "outcome ev r = (if r = 0 then ev else Silent)"

fun sem_call_step :: "sem_call \<Rightarrow> env \<Rightarrow> sem_event call option" where
  "sem_call_step (Post p) e = map_option (\<lambda>(r, e1). Done (outcome (Posted p) r) e1) (sem_post p e)"
| "sem_call_step (Wait p) e = map_option (map_call (outcome (Taken p))) (sem_wait p e)"
| "sem_call_step (TryWait p) e = map_option (map_call (outcome (Taken p))) (sem_trywait p e)"
| "sem_call_step (Create p v) e = map_option (\<lambda>(r, e1). Done Silent e1) (sem_init p 0 v e)"
| "sem_call_step (GetValue p q) e = map_option (\<lambda>(r, e1). Done Silent e1) (sem_getvalue p q e)"
| "sem_call_step Pause e = yield_thread NotBlocked e (\<lambda>e1. Some (Silent, e1))"

record sem_sys =
  m_env :: env
  m_pend :: "nat \<Rightarrow> (env \<Rightarrow> (sem_event \<times> env) option) option"

inductive sem_step :: "sem_sys \<Rightarrow> sem_event \<Rightarrow> sem_sys \<Rightarrow> bool" where
  call_returns:
    "yielder (m_env s) \<Longrightarrow> sem_call_step c (m_env s) = Some (Done ev e1) \<Longrightarrow>
     sem_step s ev (s\<lparr> m_env := e1 \<rparr>)"
| call_blocks:
    "yielder (m_env s) \<Longrightarrow> sem_call_step c (m_env s) = Some (Blocked e1 k) \<Longrightarrow>
     sem_step s Silent (s\<lparr> m_env := e1, m_pend := (m_pend s)(current_thread (m_env s) \<mapsto> k) \<rparr>)"
| exits:
    "yielder (m_env s) \<Longrightarrow> finish_thread v (m_env s) = Some e1 \<Longrightarrow>
     sem_step s Silent (s\<lparr> m_env := e1\<lparr> yielder := False \<rparr> \<rparr>)"
| resumes:
    "\<not> yielder (m_env s) \<Longrightarrow> schedule_pass clk (m_env s) = Some (Run t e1) \<Longrightarrow>
     dispatch t e1 = Some e2 \<Longrightarrow> m_pend s t = Some k \<Longrightarrow> k e2 = Some (ev, e3) \<Longrightarrow>
     sem_step s ev (s\<lparr> m_env := e3, m_pend := (m_pend s)(t := None) \<rparr>)"
| starts:
    "\<not> yielder (m_env s) \<Longrightarrow> schedule_pass clk (m_env s) = Some (Run t e1) \<Longrightarrow>
     dispatch t e1 = Some e2 \<Longrightarrow> m_pend s t = None \<Longrightarrow>
     sem_step s Silent (s\<lparr> m_env := e2\<lparr> yielder := True \<rparr> \<rparr>)"
| idles:
    "\<not> yielder (m_env s) \<Longrightarrow> schedule_pass clk (m_env s) = Some (Idle na e1) \<Longrightarrow>
     sem_step s Silent (s\<lparr> m_env := e1 \<rparr>)"

inductive sem_run :: "sem_sys \<Rightarrow> sem_event list \<Rightarrow> sem_sys \<Rightarrow> bool" where
  here: "sem_run s [] s"
| there: "sem_run s evs s1 \<Longrightarrow> sem_step s1 ev s2 \<Longrightarrow> sem_run s (evs @ [ev]) s2"

section \<open>The specification: a counter that never goes below zero\<close>

fun counter :: "nat \<Rightarrow> int \<Rightarrow> sem_event list \<Rightarrow> int option" where
  "counter p v [] = Some v"
| "counter p v (Posted q # evs) = counter p (if q = p then v + 1 else v) evs"
| "counter p v (Taken q # evs) = (if q \<noteq> p then counter p v evs else if 0 < v then counter p (v - 1) evs else None)"
| "counter p v (Silent # evs) = counter p v evs"

lemma counter_append: "counter p v (xs @ ys) = Option.bind (counter p v xs) (\<lambda>u. counter p u ys)"
  by (induction p v xs rule: counter.induct) simp_all

lemma counter_bound: "counter p v evs = Some u \<Longrightarrow> u \<le> v + int (length evs)"
proof (induction p v evs rule: counter.induct)
  case (2 p v q evs)
  then show ?case by (cases "q = p") auto
next
  case (3 p v q evs)
  then show ?case by (cases "q = p"; cases "0 < v") auto
qed auto

lemma counter_nonneg: "counter p v evs = Some u \<Longrightarrow> 0 \<le> v \<Longrightarrow> 0 \<le> u"
proof (induction p v evs rule: counter.induct)
  case (2 p v q evs)
  then show ?case by (cases "q = p") auto
next
  case (3 p v q evs)
  then show ?case by (cases "q = p"; cases "0 < v") auto
qed auto

section \<open>What each call does to the semaphores\<close>

text \<open>The part of the environment that decides about semaphores.\<close>

definition sem_view :: "env \<Rightarrow> thread list \<times> nat \<times> bool \<times> (nat \<Rightarrow> nat option) \<times> semaphore_host_object list" where
  "sem_view e = (threads e, current_thread e, yielder e, open_semaphores e, sem_cells e)"

lemma errno_view: "errno_frame e e1 \<Longrightarrow> sem_view e1 = sem_view e"
  by (simp add: sem_view_def errno_frameD)

lemma fail_view: "fail_with err r e = Some (r1, e1) \<Longrightarrow> r1 = r \<and> sem_view e1 = sem_view e"
  by (auto simp: fail_with_def errno_view set_errno_frame)

lemma put_sem_view: "sem_view e1 = sem_view e \<Longrightarrow> sem_view (put_sem i h e1) = sem_view (put_sem i h e)"
  by (simp add: sem_view_def)

lemma view_fields:
  assumes "sem_view e1 = sem_view e"
  shows "threads e1 = threads e" "current_thread e1 = current_thread e" "yielder e1 = yielder e"
    "open_semaphores e1 = open_semaphores e" "sem_cells e1 = sem_cells e" "block_of t e1 = block_of t e"
  using assms by (simp_all add: sem_view_def block_of_def)

definition valued :: "nat \<Rightarrow> int \<Rightarrow> env \<Rightarrow> env \<Rightarrow> bool" where
  "valued i v e e1 = (sem_view e1 = sem_view (put_sem i ((sem_cells e ! i)\<lparr> sem_value := v \<rparr>) e))"

lemma post_effect:
  assumes "sem_post p e = Some (r, e1)"
  shows "(r = 0 \<and> (\<exists>i. open_semaphores e p = Some i \<and> valued i (i32_wrap (sem_value (sem_cells e ! i) + 1)) e e1)) \<or>
    (r = -1 \<and> sem_view e1 = sem_view e)"
proof -
  obtain e0 where e0: "set_errno 0 e = Some e0" using assms by (auto simp: sem_post_def bind_eq_Some_conv)
  note f = set_errno_frame [OF e0] and v = errno_view [OF set_errno_frame [OF e0]]
  show ?thesis
  proof (cases "open_semaphores e p")
    case None
    then have "fail_with EINVAL (-1) e0 = Some (r, e1)"
      using assms e0 errno_frameD [OF f] by (simp add: sem_post_def sem_increment_def)
    with fail_view [OF this] v show ?thesis by simp
  next
    case (Some i)
    have "r = 0 \<and> e1 = put_sem i ((sem_cells e ! i)\<lparr> sem_value := i32_wrap (sem_value (sem_cells e ! i) + 1) \<rparr>) e0"
      using assms e0 Some errno_frameD [OF f] by (auto simp: sem_post_def sem_increment_def Let_def)
    then show ?thesis using Some put_sem_view [OF v] by (auto simp: valued_def)
  qed
qed

text \<open>How a blocked wait ends once its thread runs again.\<close>

definition take_rest :: "nat \<Rightarrow> env \<Rightarrow> (sem_event \<times> env) option" where
  "take_rest p e1 = do {
     th1 \<leftarrow> thread_at (current_thread e1) e1;
     (if is_blocked th1 then None else Some (Taken p, e1\<lparr> yielder := True \<rparr>)) }"

definition silent_rest :: "env \<Rightarrow> (sem_event \<times> env) option" where
  "silent_rest e1 = do {
     th1 \<leftarrow> thread_at (current_thread e1) e1;
     (if is_blocked th1 then None else Some (Silent, e1\<lparr> yielder := True \<rparr>)) }"

definition waits :: "nat \<Rightarrow> nat \<Rightarrow> env \<Rightarrow> env \<Rightarrow> bool" where
  "waits p i e e1 = (sem_view e1 = sem_view (set_block (current_thread e) (Semaphore p)
     (put_sem i ((sem_cells e ! i)\<lparr> sem_waiting := insert (current_thread e) (sem_waiting (sem_cells e ! i)) \<rparr>) e)
       \<lparr> yielder := False \<rparr>))"

lemma decrement_cases:
  assumes "sem_decrement p w e = Some c" "yielder e"
  obtains
    (unknown) "open_semaphores e p = None" "c = Done False e"
  | (taken) i where "open_semaphores e p = Some i" "0 < sem_value (sem_cells e ! i)"
      "c = Done True (put_sem i ((sem_cells e ! i)\<lparr> sem_value := sem_value (sem_cells e ! i) - 1 \<rparr>) e)"
  | (refused) i where "open_semaphores e p = Some i" "\<not> 0 < sem_value (sem_cells e ! i)" "\<not> w" "c = Done False e"
  | (blocked) i k where "open_semaphores e p = Some i" "\<not> 0 < sem_value (sem_cells e ! i)" "w"
      "c = Blocked (set_block (current_thread e) (Semaphore p) (put_sem i ((sem_cells e ! i)
           \<lparr> sem_waiting := insert (current_thread e) (sem_waiting (sem_cells e ! i)) \<rparr>) e)\<lparr> yielder := False \<rparr>) k"
      "\<forall>e1. map_option (\<lambda>(r, e2). (outcome (Taken p) (if r then 0 else -1), e2)) (k e1) = take_rest p e1"
      "\<forall>e1 r e2. k e1 = Some (r, e2) \<longrightarrow> r"
proof (cases "open_semaphores e p")
  case None
  then show ?thesis using assms(1) unknown by (simp add: sem_decrement_def)
next
  case (Some i)
  consider "0 < sem_value (sem_cells e ! i)" | "\<not> 0 < sem_value (sem_cells e ! i)" "\<not> w"
    | "\<not> 0 < sem_value (sem_cells e ! i)" "w" by blast
  then show ?thesis
  proof cases
    case 1
    then show ?thesis using assms(1) Some by (intro taken [OF Some]) (simp_all add: sem_decrement_def Let_def)
  next
    case 2
    then show ?thesis using assms(1) Some by (intro refused [OF Some]) (simp_all add: sem_decrement_def Let_def)
  next
    case 3
    let ?e = "put_sem i ((sem_cells e ! i)\<lparr> sem_waiting := insert (current_thread e) (sem_waiting (sem_cells e ! i)) \<rparr>) e"
    let ?k = "\<lambda>e1. do { th1 \<leftarrow> thread_at (current_thread e1) e1;
                if is_blocked th1 then None else Some (True, e1\<lparr> yielder := True \<rparr>) }"
    have y: "yield_thread (Semaphore p) ?e (\<lambda>e1. Some (True, e1)) = Some c"
      using assms(1) Some 3 by (simp add: sem_decrement_def Let_def)
    have "c = Blocked (set_block (current_thread e) (Semaphore p) ?e\<lparr> yielder := False \<rparr>) ?k"
      using y assms(2) by (auto simp: yield_thread_def bind_eq_Some_conv split: if_splits)
    moreover have "map_option (\<lambda>(r, e2). (outcome (Taken p) (if r then 0 else -1), e2)) (?k e1) = take_rest p e1" for e1
      by (cases "thread_at (current_thread e1) e1") (simp_all add: take_rest_def outcome_def)
    moreover have "\<forall>e1 r e2. ?k e1 = Some (r, e2) \<longrightarrow> r" by (auto simp: bind_eq_Some_conv split: if_splits)
    ultimately show ?thesis using 3 by (intro blocked [OF Some, of ?k]) blast+
  qed
qed

lemma failing:
  assumes "map_option (map_call (outcome ev)) (map_option (\<lambda>(s, e1). Done s e1) (fail_with err (-1) e0)) = Some c"
  shows "\<exists>e1. c = Done Silent e1 \<and> sem_view e1 = sem_view e0"
proof -
  from assms obtain r e1 where "fail_with err (-1) e0 = Some (r, e1)" "c = Done (outcome ev r) e1" by auto
  then show ?thesis using fail_view [of err "-1" e0 r e1] by (auto simp: outcome_def)
qed

lemma wait_effect:
  assumes "sem_call_step (Wait p) e = Some c" "yielder e"
  shows "(\<exists>e1. c = Done Silent e1 \<and> sem_view e1 = sem_view e) \<or>
    (\<exists>i e1. open_semaphores e p = Some i \<and>
       (0 < sem_value (sem_cells e ! i) \<and> c = Done (Taken p) e1 \<and> valued i (sem_value (sem_cells e ! i) - 1) e e1 \<or>
        c = Blocked e1 (take_rest p) \<and> waits p i e e1))"
proof -
  obtain e0 d where e0: "set_errno 0 e = Some e0" and d: "sem_decrement p True e0 = Some d"
    and c: "map_option (map_call (outcome (Taken p)))
        (bind_call d (\<lambda>ok e2. if ok then Some (0, e2) else fail_with EINVAL (-1) e2)) = Some c"
    using assms(1) by (auto simp: sem_wait_def bind_eq_Some_conv)
  note f = set_errno_frame [OF e0] and v = errno_view [OF set_errno_frame [OF e0]]
  note same = view_fields [OF v]
  have "yielder e0" using assms(2) same by simp
  from d this show ?thesis
  proof (cases rule: decrement_cases)
    case unknown
    then have "\<exists>e1. c = Done Silent e1 \<and> sem_view e1 = sem_view e0" using c by (intro failing) simp
    then show ?thesis using v by auto
  next
    case (taken i)
    then have "c = Done (Taken p) (put_sem i ((sem_cells e ! i)\<lparr> sem_value := sem_value (sem_cells e ! i) - 1 \<rparr>) e0)"
      using c same by (simp add: outcome_def)
    then show ?thesis using taken same put_sem_view [OF v] by (auto simp: valued_def)
  next
    case (refused i)
    then show ?thesis by simp
  next
    case (blocked i k)
    let ?e1 = "set_block (current_thread e0) (Semaphore p) (put_sem i ((sem_cells e0 ! i)
           \<lparr> sem_waiting := insert (current_thread e0) (sem_waiting (sem_cells e0 ! i)) \<rparr>) e0)\<lparr> yielder := False \<rparr>"
    have "map_option (\<lambda>(r, e2). (outcome (Taken p) r, e2))
        (Option.bind (k e1) (\<lambda>(r, e2). if r then Some (0, e2) else fail_with EINVAL (-1) e2)) = take_rest p e1" for e1
    proof (cases "k e1")
      case (Some x)
      obtain r e2 where x: "x = (r, e2)" by (cases x)
      then have r: "r" using blocked(6) Some by blast
      have "Some (Taken p, e2) = take_rest p e1" using blocked(5) [rule_format, of e1] Some x r by (simp add: outcome_def)
      then show ?thesis using Some x r by (simp add: outcome_def)
    qed (use blocked(5) [rule_format, of e1] in simp)
    then have "c = Blocked ?e1 (take_rest p)" using c blocked(4) by auto
    moreover have "waits p i e ?e1" using v by (simp add: waits_def sem_view_def set_block_def)
    ultimately show ?thesis using blocked(1) same by auto
  qed
qed

lemma trywait_effect:
  assumes "sem_call_step (TryWait p) e = Some c" "yielder e"
  shows "(\<exists>e1. c = Done Silent e1 \<and> sem_view e1 = sem_view e) \<or>
    (\<exists>i e1. open_semaphores e p = Some i \<and> 0 < sem_value (sem_cells e ! i) \<and>
       c = Done (Taken p) e1 \<and> valued i (sem_value (sem_cells e ! i) - 1) e e1)"
proof -
  obtain e0 d where e0: "set_errno 0 e = Some e0" and d: "sem_decrement p False e0 = Some d"
    and c: "map_option (map_call (outcome (Taken p)))
        (bind_call d (\<lambda>ok e2. if ok then Some (0, e2)
           else if open_semaphores e2 p \<noteq> None then fail_with EAGAIN (- 1) e2
           else fail_with EINVAL (- 1) e2)) = Some c"
    using assms(1) by (auto simp: sem_trywait_def bind_eq_Some_conv)
  note v = errno_view [OF set_errno_frame [OF e0]]
  note same = view_fields [OF v]
  have "yielder e0" using assms(2) same by simp
  have quiet: ?thesis if "d = Done False e0"
  proof -
    have "\<exists>e1. c = Done Silent e1 \<and> sem_view e1 = sem_view e0"
      using c that by (auto dest!: fail_view simp: outcome_def split: if_splits)
    then show ?thesis using v by auto
  qed
  from d \<open>yielder e0\<close> show ?thesis
  proof (cases rule: decrement_cases)
    case (taken i)
    then have "c = Done (Taken p) (put_sem i ((sem_cells e ! i)\<lparr> sem_value := sem_value (sem_cells e ! i) - 1 \<rparr>) e0)"
      using c same by (simp add: outcome_def)
    then show ?thesis using taken same put_sem_view [OF v] by (auto simp: valued_def)
  qed (use quiet in simp_all)
qed

lemma create_effect:
  assumes "sem_call_step (Create p v) e = Some c"
  shows "\<exists>e1. c = Done Silent e1 \<and> (sem_view e1 = sem_view e \<or>
    (\<exists>h. open_semaphores e p = None \<and> sem_waiting h = {} \<and> sem_view e1 = sem_view
       (e\<lparr> sem_cells := sem_cells e @ [h], open_semaphores := (open_semaphores e)(p \<mapsto> length (sem_cells e)) \<rparr>)))"
proof -
  obtain e0 where e0: "set_errno 0 e = Some e0" using assms by (auto simp: sem_init_def bind_eq_Some_conv)
  note view = errno_view [OF set_errno_frame [OF e0]]
  note same = view_fields [OF view]
  show ?thesis
  proof (cases "open_semaphores e p = None")
    case True
    let ?h = "\<lparr> sem_value = i32_cast v, sem_waiting = {}, guest_sem = Some p, named = False \<rparr>"
    have "c = Done Silent (e0\<lparr> sem_cells := sem_cells e @ [?h],
        open_semaphores := (open_semaphores e)(p \<mapsto> length (sem_cells e)) \<rparr>)"
      using assms e0 True same by (simp add: sem_init_def new_cell_def)
    moreover have "sem_view (e0\<lparr> sem_cells := sem_cells e @ [?h],
        open_semaphores := (open_semaphores e)(p \<mapsto> length (sem_cells e)) \<rparr>) = sem_view
       (e\<lparr> sem_cells := sem_cells e @ [?h], open_semaphores := (open_semaphores e)(p \<mapsto> length (sem_cells e)) \<rparr>)"
      using same by (simp add: sem_view_def)
    moreover have "sem_waiting ?h = {}" by simp
    ultimately show ?thesis using True by blast
  qed (use assms e0 same view in \<open>auto simp: sem_init_def\<close>)
qed

lemma getvalue_effect:
  assumes "sem_call_step (GetValue p q) e = Some c"
  shows "\<exists>e1. c = Done Silent e1 \<and> sem_view e1 = sem_view e"
proof -
  obtain r e1 where g: "sem_getvalue p q e = Some (r, e1)" "c = Done Silent e1" using assms by auto
  then obtain e0 where e0: "set_errno 0 e = Some e0" by (auto simp: sem_getvalue_def bind_eq_Some_conv)
  note view = errno_view [OF set_errno_frame [OF e0]]
  have "sem_view e1 = sem_view e0"
  proof (cases "open_semaphores e0 p")
    case None
    then show ?thesis using g(1) e0 by (auto simp: sem_getvalue_def dest: fail_view)
  next
    case (Some i)
    then show ?thesis using g(1) e0 by (auto simp: sem_getvalue_def put_mem_def sem_view_def split: if_splits)
  qed
  then show ?thesis using g(2) view by simp
qed

end
