(* ===== verification/Semaphore_Safety.thy ===== *)
theory Semaphore_Safety
  imports Semaphore_Props Scheduling
begin

text \<open>
  The semaphore system refines the counter, loses no waiter and forgets no wake-up, in every
  interleaving of calls and passes of the scheduler.
\<close>

section \<open>The invariant\<close>

text \<open>What a block says about the rest of the thread's call; \<open>opened\<close> are the open semaphores.\<close>

fun block_fine :: "(env \<Rightarrow> (sem_event \<times> env) option) option \<Rightarrow> (nat \<Rightarrow> bool) \<Rightarrow> thread_block \<Rightarrow> bool" where
  "block_fine k opened NotBlocked = (k = None \<or> k = Some silent_rest)"
| "block_fine k opened (Semaphore q) = (k = Some (take_rest q) \<and> opened q)"
| "block_fine k opened _ = False"

definition opened :: "env \<Rightarrow> nat \<Rightarrow> bool" where
  "opened e q = (open_semaphores e q \<noteq> None)"

definition blocks_ok :: "sem_sys \<Rightarrow> bool" where
  "blocks_ok s = (\<forall>t < length (threads (m_env s)). active (threads (m_env s) ! t) \<longrightarrow>
     block_fine (m_pend s t) (opened (m_env s)) (block_of t (m_env s)))"

definition sem_waiters :: "nat \<Rightarrow> env \<Rightarrow> nat set" where
  "sem_waiters p e = {t. t < length (threads e) \<and> active (threads e ! t) \<and> block_of t e = Semaphore p}"

definition running_ok :: "sem_sys \<Rightarrow> bool" where
  "running_ok s = (let e = m_env s in current_thread e < length (threads e) \<and>
     (yielder e \<longrightarrow> active (threads e ! current_thread e) \<and> block_of (current_thread e) e = NotBlocked \<and>
        m_pend s (current_thread e) = None))"

definition cells_ok :: "nat \<Rightarrow> nat \<Rightarrow> env \<Rightarrow> bool" where
  "cells_ok p i e = (open_semaphores e p = Some i \<and>
     (\<forall>q j. open_semaphores e q = Some j \<longrightarrow> j < length (sem_cells e) \<and> (j = i \<longrightarrow> q = p)))"

definition sem_inv :: "nat \<Rightarrow> nat \<Rightarrow> sem_sys \<Rightarrow> bool" where
  "sem_inv p i s = (running_ok s \<and> blocks_ok s \<and> cells_ok p i (m_env s) \<and>
     sem_waiting (sem_cells (m_env s) ! i) = sem_waiters p (m_env s))"

abbreviation cell_value :: "nat \<Rightarrow> sem_sys \<Rightarrow> int" where
  "cell_value i s \<equiv> sem_value (sem_cells (m_env s) ! i)"

lemma cells_okD:
  assumes "cells_ok p i e"
  shows "open_semaphores e p = Some i" "i < length (sem_cells e)"
    "open_semaphores e q = Some j \<Longrightarrow> j < length (sem_cells e)"
    "open_semaphores e q = Some i \<longleftrightarrow> q = p"
  using assms unfolding cells_ok_def by auto

lemma sem_invD:
  assumes "sem_inv p i s"
  shows "running_ok s" "blocks_ok s" "cells_ok p i (m_env s)"
    "sem_waiting (sem_cells (m_env s) ! i) = sem_waiters p (m_env s)"
  using assms unfolding sem_inv_def by blast+

text \<open>Steps that keep the threads as they are.\<close>

lemma keep_threads:
  assumes "threads e1 = threads (m_env s)" "current_thread e1 = current_thread (m_env s)"
    "yielder e1 = yielder (m_env s)" "\<And>q. opened (m_env s) q \<Longrightarrow> opened e1 q"
  shows "running_ok s \<Longrightarrow> running_ok (s\<lparr> m_env := e1 \<rparr>)" "blocks_ok s \<Longrightarrow> blocks_ok (s\<lparr> m_env := e1 \<rparr>)"
    "sem_waiters p e1 = sem_waiters p (m_env s)"
proof -
  have b: "block_of t e1 = block_of t (m_env s)" for t using assms(1) by (simp add: block_of_def)
  show "running_ok s \<Longrightarrow> running_ok (s\<lparr> m_env := e1 \<rparr>)" using assms(1-3) b by (simp add: running_ok_def Let_def)
  show "sem_waiters p e1 = sem_waiters p (m_env s)" using assms(1) b by (simp add: sem_waiters_def)
  have "block_fine k (opened (m_env s)) x \<Longrightarrow> block_fine k (opened e1) x" for k x
    using assms(4) by (cases x) auto
  then show "blocks_ok s \<Longrightarrow> blocks_ok (s\<lparr> m_env := e1 \<rparr>)" using assms(1) b by (simp add: blocks_ok_def)
qed

lemma inv_keep:
  assumes inv: "sem_inv p i s" and same: "threads e1 = threads (m_env s)"
      "current_thread e1 = current_thread (m_env s)" "yielder e1 = yielder (m_env s)"
    and cells: "\<And>q. opened (m_env s) q \<Longrightarrow> opened e1 q" "cells_ok p i e1"
    and waiting: "sem_waiting (sem_cells e1 ! i) = sem_waiting (sem_cells (m_env s) ! i)"
  shows "sem_inv p i (s\<lparr> m_env := e1 \<rparr>)"
  using keep_threads [OF same cells(1)] sem_invD [OF inv] cells(2) waiting by (simp add: sem_inv_def)

lemma inv_view:
  assumes inv: "sem_inv p i s" and view: "sem_view e1 = sem_view (m_env s)"
  shows "sem_inv p i (s\<lparr> m_env := e1 \<rparr>)" "cell_value i (s\<lparr> m_env := e1 \<rparr>) = cell_value i s"
proof -
  note same = view_fields [OF view]
  show "sem_inv p i (s\<lparr> m_env := e1 \<rparr>)"
    by (rule inv_keep [OF inv same(1-3)]) (use same sem_invD(3) [OF inv] in \<open>simp_all add: opened_def cells_ok_def\<close>)
  show "cell_value i (s\<lparr> m_env := e1 \<rparr>) = cell_value i s" using same by simp
qed

text \<open>A change of the value of some semaphore.\<close>

lemma inv_valued:
  assumes inv: "sem_inv p i s" and q: "open_semaphores (m_env s) q = Some j" and e1: "valued j v (m_env s) e1"
  shows "sem_inv p i (s\<lparr> m_env := e1 \<rparr>)"
    "cell_value i (s\<lparr> m_env := e1 \<rparr>) = (if q = p then v else cell_value i s)"
proof -
  note same = view_fields [OF e1 [unfolded valued_def]]
  note c = sem_invD(3) [OF inv]
  have len: "i < length (sem_cells (m_env s))" "j < length (sem_cells (m_env s))"
    using cells_okD(2) [OF c] cells_okD(3) [OF c q] .
  have ij: "j = i \<longleftrightarrow> q = p" using cells_okD(4) [OF c, of q] q by auto
  have cell: "sem_cells e1 ! i = (if q = p then (sem_cells (m_env s) ! i)\<lparr> sem_value := v \<rparr> else sem_cells (m_env s) ! i)"
    using same(5) len ij by (auto simp: nth_list_update)
  show "sem_inv p i (s\<lparr> m_env := e1 \<rparr>)"
    by (rule inv_keep [OF inv]) (use same c cell in \<open>simp_all add: opened_def cells_ok_def\<close>)
  show "cell_value i (s\<lparr> m_env := e1 \<rparr>) = (if q = p then v else cell_value i s)" using cell by simp
qed

text \<open>A new semaphore at a pointer that opened none.\<close>

lemma inv_created:
  assumes inv: "sem_inv p i s" and q: "open_semaphores (m_env s) q = None"
    and e1: "sem_view e1 = sem_view ((m_env s)\<lparr> sem_cells := sem_cells (m_env s) @ [h],
       open_semaphores := (open_semaphores (m_env s))(q \<mapsto> length (sem_cells (m_env s))) \<rparr>)"
  shows "sem_inv p i (s\<lparr> m_env := e1 \<rparr>)" "cell_value i (s\<lparr> m_env := e1 \<rparr>) = cell_value i s"
proof -
  note same = view_fields [OF e1]
  note c = sem_invD(3) [OF inv]
  have cell: "sem_cells e1 ! i = sem_cells (m_env s) ! i" using same(5) cells_okD(2) [OF c] by (simp add: nth_append)
  have "open_semaphores e1 = (open_semaphores (m_env s))(q \<mapsto> length (sem_cells (m_env s)))"
    "length (sem_cells e1) = Suc (length (sem_cells (m_env s)))" using same(4,5) by simp_all
  then have o: "open_semaphores e1 r = (if r = q then Some (length (sem_cells (m_env s))) else open_semaphores (m_env s) r)"
      and l: "length (sem_cells e1) = Suc (length (sem_cells (m_env s)))" for r by simp_all
  have "q \<noteq> p" using cells_okD(1) [OF c] q by auto
  have "cells_ok p i e1" unfolding cells_ok_def
  proof (intro conjI allI impI)
    show "open_semaphores e1 p = Some i" using o \<open>q \<noteq> p\<close> cells_okD(1) [OF c] by simp
    fix r j assume r: "open_semaphores e1 r = Some j"
    show "j < length (sem_cells e1)"
      using r o [of r] l cells_okD(3) [OF c, of r j] by (cases "r = q") simp_all
    show "r = p" if "j = i"
      using r o [of r] that cells_okD(2,4) [OF c] by (cases "r = q") simp_all
  qed
  then show "sem_inv p i (s\<lparr> m_env := e1 \<rparr>)"
    by (intro inv_keep [OF inv]) (use same cell in \<open>simp_all add: opened_def\<close>)
  show "cell_value i (s\<lparr> m_env := e1 \<rparr>) = cell_value i s" using cell by simp
qed

section \<open>Steps of the running thread\<close>

lemma inv_returns:
  assumes inv: "sem_inv p i s" and y: "yielder (m_env s)" and step: "sem_call_step c (m_env s) = Some (Done ev e1)"
    and v: "0 \<le> cell_value i s" "cell_value i s < 2147483647"
  shows "sem_inv p i (s\<lparr> m_env := e1 \<rparr>) \<and> counter p (cell_value i s) [ev] = Some (cell_value i (s\<lparr> m_env := e1 \<rparr>))"
proof -
  have same: ?thesis if "ev = Silent" "sem_view e1 = sem_view (m_env s)"
    using inv_view [OF inv that(2)] that(1) by simp
  have take: ?thesis if "open_semaphores (m_env s) q = Some j" "0 < sem_value (sem_cells (m_env s) ! j)"
      "ev = Taken q" "valued j (sem_value (sem_cells (m_env s) ! j) - 1) (m_env s) e1" for q j
    using inv_valued [OF inv that(1,4)] that(1-3) cells_okD(1) [OF sem_invD(3) [OF inv]] by auto
  show ?thesis
  proof (cases c)
    case (Post q)
    then obtain r where r: "sem_post q (m_env s) = Some (r, e1)" "ev = outcome (Posted q) r" using step by auto
    from post_effect [OF r(1)] show ?thesis
    proof (elim disjE conjE exE)
      fix j assume j: "r = 0" "open_semaphores (m_env s) q = Some j"
        "valued j (i32_wrap (sem_value (sem_cells (m_env s) ! j) + 1)) (m_env s) e1"
      have "i32_wrap (cell_value i s + 1) = cell_value i s + 1" using v by (simp add: i32_def)
      then show ?thesis
        using inv_valued [OF inv j(2,3)] r(2) j(1,2) cells_okD(1) [OF sem_invD(3) [OF inv]] by (auto simp: outcome_def)
    qed (use r(2) same in \<open>simp add: outcome_def\<close>)
  next
    case (Wait q)
    from wait_effect [OF step [unfolded Wait] y] show ?thesis using same take by auto
  next
    case (TryWait q)
    from trywait_effect [OF step [unfolded TryWait] y] show ?thesis using same take by auto
  next
    case (Create q n)
    from create_effect [OF step [unfolded Create]] show ?thesis
      using same inv_created [OF inv] by auto
  next
    case (GetValue q r)
    from getvalue_effect [OF step [unfolded GetValue]] show ?thesis using same by auto
  next
    case Pause
    with step y show ?thesis
      by (auto simp: yield_thread_def bind_eq_Some_conv split: if_splits)
  qed
qed

text \<open>The running thread blocks.\<close>

lemma inv_suspended:
  assumes inv: "sem_inv p i s" and y: "yielder (m_env s)"
    and th: "threads e1 = threads (set_block (current_thread (m_env s)) b (m_env s))"
      "current_thread e1 = current_thread (m_env s)" "\<not> yielder e1" "open_semaphores e1 = open_semaphores (m_env s)"
      "length (sem_cells e1) = length (sem_cells (m_env s))"
    and fine: "block_fine (Some k) (opened (m_env s)) b"
    and waiting: "sem_waiting (sem_cells e1 ! i) =
      (if b = Semaphore p then insert (current_thread (m_env s)) else (\<lambda>w. w)) (sem_waiting (sem_cells (m_env s) ! i))"
  shows "sem_inv p i (s\<lparr> m_env := e1, m_pend := (m_pend s)(current_thread (m_env s) \<mapsto> k) \<rparr>)"
proof -
  let ?t = "current_thread (m_env s)" and ?e = "m_env s"
  have cur: "?t < length (threads ?e)" "active (threads ?e ! ?t)" "block_of ?t ?e = NotBlocked"
    using sem_invD(1) [OF inv] y by (simp_all add: running_ok_def Let_def)
  have len: "length (threads e1) = length (threads ?e)" using th(1) by simp
  have act: "active (threads e1 ! u) = active (threads ?e ! u)" for u using th(1) by simp
  have blk: "block_of u e1 = (if u = ?t then b else block_of u ?e)" for u
    using th(1) block_of_set_block [OF cur(1), of u b] by (simp add: block_of_def)
  have op: "opened e1 = opened ?e" using th(4) by (simp add: opened_def fun_eq_iff)
  have "blocks_ok (s\<lparr> m_env := e1, m_pend := (m_pend s)(?t \<mapsto> k) \<rparr>)"
    using sem_invD(2) [OF inv] len act blk op fine by (simp add: blocks_ok_def)
  moreover have "running_ok (s\<lparr> m_env := e1, m_pend := (m_pend s)(?t \<mapsto> k) \<rparr>)"
    using cur(1) len th(2,3) by (simp add: running_ok_def)
  moreover have "cells_ok p i e1" using sem_invD(3) [OF inv] th(4,5) by (simp add: cells_ok_def)
  moreover have "sem_waiters p e1 = (if b = Semaphore p then insert ?t (sem_waiters p ?e) else sem_waiters p ?e)"
    using len act blk cur by (auto simp: sem_waiters_def)
  ultimately show ?thesis using waiting sem_invD(4) [OF inv] by (simp add: sem_inv_def)
qed

lemma inv_blocks:
  assumes inv: "sem_inv p i s" and y: "yielder (m_env s)"
    and step: "sem_call_step c (m_env s) = Some (Blocked e1 k)"
  shows "sem_inv p i (s\<lparr> m_env := e1, m_pend := (m_pend s)(current_thread (m_env s) \<mapsto> k) \<rparr>) \<and>
    sem_value (sem_cells e1 ! i) = cell_value i s"
proof (cases c)
  case (Wait q)
  from wait_effect [OF step [unfolded Wait] y] obtain j where j: "open_semaphores (m_env s) q = Some j"
    "k = take_rest q" "waits q j (m_env s) e1" by auto
  note same = view_fields [OF j(3) [unfolded waits_def]]
  note ok = sem_invD(3) [OF inv]
  have len: "i < length (sem_cells (m_env s))" "j < length (sem_cells (m_env s))"
    using cells_okD(2) [OF ok] cells_okD(3) [OF ok j(1)] .
  have ij: "j = i \<longleftrightarrow> q = p" using cells_okD(4) [OF ok, of q] j(1) by auto
  have cell: "sem_cells e1 ! i = (if q = p then (sem_cells (m_env s) ! i)
      \<lparr> sem_waiting := insert (current_thread (m_env s)) (sem_waiting (sem_cells (m_env s) ! i)) \<rparr> else sem_cells (m_env s) ! i)"
    using same(5) len ij by (auto simp: nth_list_update)
  have "sem_inv p i (s\<lparr> m_env := e1, m_pend := (m_pend s)(current_thread (m_env s) \<mapsto> k) \<rparr>)"
    by (rule inv_suspended [OF inv y, of e1 "Semaphore q"])
      (use same j cell in \<open>simp_all add: opened_def set_block_def\<close>)
  then show ?thesis using cell by simp
next
  case Pause
  then have "k = silent_rest" "e1 = set_block (current_thread (m_env s)) NotBlocked (m_env s)\<lparr> yielder := False \<rparr>"
    using step y by (auto simp: yield_thread_def bind_eq_Some_conv silent_rest_def fun_eq_iff split: if_splits)
  then show ?thesis using inv_suspended [OF inv y, of e1 NotBlocked k] by simp
next
  case (TryWait q)
  from trywait_effect [OF step [unfolded TryWait] y] show ?thesis by auto
next
  case (Create q n)
  from create_effect [OF step [unfolded Create]] show ?thesis by auto
next
  case (GetValue q r)
  from getvalue_effect [OF step [unfolded GetValue]] show ?thesis by auto
qed (use step in auto)

lemma inv_exits:
  assumes inv: "sem_inv p i s" and y: "yielder (m_env s)" and fin: "finish_thread v (m_env s) = Some e1"
  shows "sem_inv p i (s\<lparr> m_env := e1\<lparr> yielder := False \<rparr> \<rparr>)"
proof -
  let ?t = "current_thread (m_env s)" and ?e = "m_env s"
  have cur: "?t < length (threads ?e)" "block_of ?t ?e = NotBlocked"
    using sem_invD(1) [OF inv] y by (simp_all add: running_ok_def Let_def)
  have e1: "e1 = ?e\<lparr> threads := (threads ?e)[?t := (threads ?e ! ?t)\<lparr> return_value := Some v, active := False \<rparr>] \<rparr>"
    using fin cur(1) by (simp add: finish_thread_def thread_at_def)
  have act: "active (threads e1 ! u) \<longleftrightarrow> u \<noteq> ?t \<and> active (threads ?e ! u)" if "u < length (threads ?e)" for u
    using that e1 by (cases "u = ?t") simp_all
  have blk: "block_of u e1 = block_of u ?e" for u
    using e1 cur(1) by (auto simp: block_of_def nth_list_update)
  have len: "length (threads e1) = length (threads ?e)" using e1 by simp
  have "sem_waiters p (e1\<lparr> yielder := False \<rparr>) = sem_waiters p ?e"
    using len act blk cur by (auto simp: sem_waiters_def block_of_def)
  moreover have "blocks_ok (s\<lparr> m_env := e1\<lparr> yielder := False \<rparr> \<rparr>)"
    using sem_invD(2) [OF inv] len act blk e1 unfolding blocks_ok_def opened_def block_of_def by simp
  ultimately show ?thesis
    using sem_invD [OF inv] cur(1) e1 by (simp add: sem_inv_def running_ok_def cells_ok_def)
qed

section \<open>Passes of the scheduler\<close>

lemma picked_open:
  assumes "try_candidate now wall t na e2 = Some (Picked e1)"
  shows "open_semaphores e1 = open_semaphores e2"
proof -
  have relocked: ?thesis
    if "relock_unblocked_mutex_for_thread t m1 e3 = Some e1" "open_semaphores e3 = open_semaphores e2" for m1 e3
    using that by (auto simp: relock_spec split: if_splits)
  show ?thesis
  proof (cases "block_of t e2")
    case (Mutex m1)
    with assms(1) have "relock_unblocked_mutex_for_thread t m1 (set_block t NotBlocked e2) = Some e1"
      by (auto simp: try_candidate_def bind_eq_Some_conv split: if_splits)
    then show ?thesis by (rule relocked) simp
  next
    case (Condition c deadline)
    with assms(1) have "try_condition now wall t c deadline na e2 = Some (Picked e1)"
      by (simp add: try_candidate_def)
    then obtain m1 h1 where
        "relock_unblocked_mutex_for_thread t m1 (set_block t NotBlocked (put_cond c h1 e2)) = Some e1"
      using try_condition_picked by blast
    then show ?thesis by (rule relocked) simp
  qed (use assms in \<open>auto simp: try_candidate_def try_semaphore_def try_join_def bind_eq_Some_conv
         Let_def split: if_splits option.splits\<close>)
qed

lemma pass_open:
  assumes "schedule_pass clk e = Some (Run t e1)"
  shows "open_semaphores e1 = open_semaphores e"
proof -
  obtain i na2 e2 where "scan_frame (cand e ` {..<i}) e e2"
      "try_candidate (fst (clk i)) (snd (clk i)) t na2 e2 = Some (Picked e1)"
    using pass_run [OF assms] by metis
  then show ?thesis using picked_open by (simp add: scan_frame_def)
qed

lemma fine_cases:
  assumes "block_fine k op b"
  shows "b = NotBlocked \<and> (k = None \<or> k = Some silent_rest) \<or>
    (\<exists>q. b = Semaphore q \<and> k = Some (take_rest q) \<and> op q)"
  using assms by (cases b) auto

lemma dispatch_env: "dispatch t e = Some e1 \<Longrightarrow> e1 = e\<lparr> current_thread := t \<rparr>"
  by (auto simp: dispatch_def switch_thread_def bind_eq_Some_conv split: if_splits)

lemma gave_up_not_fine: "gave_up u e e1 \<Longrightarrow> \<not> block_fine k op (block_of u e)"
  by (auto simp: gave_up_def)

text \<open>What the pass did to cell \<open>i\<close>.\<close>

lemma picked_cell:
  assumes inv: "sem_inv p i s" and pass: "schedule_pass clk (m_env s) = Some (Run t e1)"
  obtains
    (free) "block_of t (m_env s) = NotBlocked" "m_pend s t = None \<or> m_pend s t = Some silent_rest"
      "sem_cells e1 = sem_cells (m_env s)"
  | (other) q where "block_of t (m_env s) = Semaphore q" "q \<noteq> p" "m_pend s t = Some (take_rest q)"
      "sem_cells e1 ! i = sem_cells (m_env s) ! i" "length (sem_cells e1) = length (sem_cells (m_env s))"
  | (own) "block_of t (m_env s) = Semaphore p" "m_pend s t = Some (take_rest p)" "0 < cell_value i s"
      "sem_cells e1 ! i = (sem_cells (m_env s) ! i)\<lparr> sem_value := cell_value i s - 1,
         sem_waiting := sem_waiting (sem_cells (m_env s) ! i) - {t} \<rparr>"
      "length (sem_cells e1) = length (sem_cells (m_env s))"
proof -
  let ?e = "m_env s"
  note pf = pass_frame [OF pass] and g = pass_granted(1) [OF pass] and ok = sem_invD(3) [OF inv]
  have "block_fine (m_pend s t) (opened ?e) (block_of t ?e)"
    using sem_invD(2) [OF inv] pf(1,2) by (simp add: blocks_ok_def)
  from fine_cases [OF this] show ?thesis
  proof (elim disjE conjE exE)
    fix q assume q: "block_of t ?e = Semaphore q" "m_pend s t = Some (take_rest q)" "opened ?e q"
    then obtain j where j: "open_semaphores ?e q = Some j" by (auto simp: opened_def)
    have len: "i < length (sem_cells ?e)" "j < length (sem_cells ?e)"
      using cells_okD(2) [OF ok] cells_okD(3) [OF ok j] .
    have ij: "j = i \<longleftrightarrow> q = p" using cells_okD(4) [OF ok, of q] j by auto
    have got: "0 < sem_value (sem_cells ?e ! j)"
      "sem_cells e1 = (sem_cells ?e)[j := (sem_cells ?e ! j)\<lparr> sem_value := sem_value (sem_cells ?e ! j) - 1,
           sem_waiting := sem_waiting (sem_cells ?e ! j) - {t} \<rparr>]"
      using g q(1) j by (simp_all add: granted_def)
    show ?thesis
    proof (cases "q = p")
      case True
      then show ?thesis using own q got ij len by simp
    next
      case False
      then show ?thesis using other [OF q(1) False q(2)] got ij len by simp
    qed
  qed (use free g in \<open>simp_all add: granted_def\<close>)
qed

lemma picked_sem:
  assumes inv: "sem_inv p i s" and pass: "schedule_pass clk (m_env s) = Some (Run t e1)"
    and e2: "dispatch t e1 = Some e2"
  shows "sem_inv p i (s\<lparr> m_env := e2\<lparr> yielder := True \<rparr>, m_pend := (m_pend s)(t := None) \<rparr>)"
proof -
  let ?e = "m_env s"
  note pf = pass_frame [OF pass] and ok = sem_invD(3) [OF inv]
  have e2': "e2 = e1\<lparr> current_thread := t \<rparr>" using dispatch_env [OF e2] .
  have blk: "block_of u e1 = (if u = t then NotBlocked else block_of u ?e)"
    if "u < length (threads ?e)" "active (threads ?e ! u)" for u
  proof -
    have "\<not> gave_up u ?e e1" using gave_up_not_fine sem_invD(2) [OF inv] that by (auto simp: blocks_ok_def)
    then show ?thesis using pf(3) pf(8) [of u] by auto
  qed
  have b2: "block_of u (e2\<lparr> yielder := True \<rparr>) = block_of u e1" for u by (simp add: e2' block_of_def)
  have op: "opened (e2\<lparr> yielder := True \<rparr>) = opened ?e"
    using pass_open [OF pass] by (simp add: opened_def e2' fun_eq_iff)
  have "running_ok (s\<lparr> m_env := e2\<lparr> yielder := True \<rparr>, m_pend := (m_pend s)(t := None) \<rparr>)"
    using pf(1-3,6,7) b2 [of t] by (simp add: running_ok_def e2')
  moreover have "blocks_ok (s\<lparr> m_env := e2\<lparr> yielder := True \<rparr>, m_pend := (m_pend s)(t := None) \<rparr>)"
    using sem_invD(2) [OF inv] pf(6,7) op blk b2 by (simp add: blocks_ok_def e2')
  moreover have "sem_waiters p (e2\<lparr> yielder := True \<rparr>) = sem_waiters p ?e - {t}"
    using pf(6,7) blk b2 by (auto simp: sem_waiters_def e2' split: if_splits)
  moreover have "cells_ok p i e1 \<and> sem_waiting (sem_cells e1 ! i) = sem_waiters p ?e - {t}"
    using inv pass
  proof (cases rule: picked_cell)
    case free
    then have "t \<notin> sem_waiters p ?e" by (simp add: sem_waiters_def)
    then show ?thesis using free ok sem_invD(4) [OF inv] pass_open [OF pass] by (simp add: cells_ok_def)
  next
    case (other q)
    then have "t \<notin> sem_waiters p ?e" by (simp add: sem_waiters_def)
    then show ?thesis using other ok sem_invD(4) [OF inv] pass_open [OF pass] by (simp add: cells_ok_def)
  next
    case own
    then show ?thesis using ok sem_invD(4) [OF inv] pass_open [OF pass] by (simp add: cells_ok_def)
  qed
  ultimately show ?thesis by (simp add: sem_inv_def e2' cells_ok_def)
qed

lemma inv_resumes:
  assumes inv: "sem_inv p i s" and pass: "schedule_pass clk (m_env s) = Some (Run t e1)"
    and e2: "dispatch t e1 = Some e2" and k: "m_pend s t = Some k" "k e2 = Some (ev, e3)"
  shows "sem_inv p i (s\<lparr> m_env := e3, m_pend := (m_pend s)(t := None) \<rparr>) \<and>
    counter p (cell_value i s) [ev] = Some (sem_value (sem_cells e3 ! i))"
proof -
  have cells: "sem_cells e2 = sem_cells e1" using dispatch_env [OF e2] by simp
  have silent: "ev = Silent \<and> e3 = e2\<lparr> yielder := True \<rparr>" if "k = silent_rest"
    using k(2) that by (auto simp: silent_rest_def bind_eq_Some_conv split: if_splits)
  have take: "ev = Taken q \<and> e3 = e2\<lparr> yielder := True \<rparr>" if "k = take_rest q" for q
    using k(2) that by (auto simp: take_rest_def bind_eq_Some_conv split: if_splits)
  note s2 = picked_sem [OF inv pass e2]
  from inv pass show ?thesis
  proof (cases rule: picked_cell)
    case free
    then show ?thesis using silent k(1) s2 cells by simp
  next
    case (other q)
    then show ?thesis using take [of q] k(1) s2 cells by simp
  next
    case own
    then show ?thesis using take [of p] k(1) s2 cells by simp
  qed
qed

lemma inv_starts:
  assumes "sem_inv p i s" "schedule_pass clk (m_env s) = Some (Run t e1)" "dispatch t e1 = Some e2" "m_pend s t = None"
  shows "sem_inv p i (s\<lparr> m_env := e2\<lparr> yielder := True \<rparr> \<rparr>) \<and> sem_value (sem_cells e2 ! i) = cell_value i s"
proof -
  have "(m_pend s)(t := None) = m_pend s" using assms(4) by (simp add: fun_upd_idem)
  moreover have "s\<lparr> m_env := e2\<lparr> yielder := True \<rparr>, m_pend := m_pend s \<rparr> = s\<lparr> m_env := e2\<lparr> yielder := True \<rparr> \<rparr>" by simp
  ultimately have "sem_inv p i (s\<lparr> m_env := e2\<lparr> yielder := True \<rparr> \<rparr>)" using picked_sem [OF assms(1-3)] by simp
  moreover have "sem_cells e2 = sem_cells e1" using dispatch_env [OF assms(3)] by simp
  moreover from assms(1,2) have "sem_value (sem_cells e1 ! i) = cell_value i s"
    by (cases rule: picked_cell) (use assms(4) in simp_all)
  ultimately show ?thesis by simp
qed

lemma idle_frame:
  assumes "schedule_pass clk e = Some (Idle na e1)"
  shows "passed_over clk [0..<length (threads e)] None e na e1" "scan_frame (cand e ` {..<length (threads e)}) e e1"
proof -
  show p: "passed_over clk [0..<length (threads e)] None e na e1"
    using assms scan_idle by (simp add: schedule_pass_def)
  show "scan_frame (cand e ` {..<length (threads e)}) e e1"
    using passed_over_frame [OF p] by (simp add: atLeast0LessThan)
qed

lemma inv_idles:
  assumes inv: "sem_inv p i s" and y: "\<not> yielder (m_env s)" and idle: "schedule_pass clk (m_env s) = Some (Idle na e1)"
  shows "sem_inv p i (s\<lparr> m_env := e1 \<rparr>) \<and> sem_value (sem_cells e1 ! i) = cell_value i s"
proof -
  note f = idle_frame(2) [OF idle, unfolded scan_frame_def]
  have blk: "block_of u e1 = block_of u (m_env s)" if "u < length (threads (m_env s))" "active (threads (m_env s) ! u)" for u
    using f gave_up_not_fine sem_invD(2) [OF inv] that unfolding blocks_ok_def by blast
  have f1: "current_thread e1 = current_thread (m_env s)" "yielder e1 = yielder (m_env s)"
    "length (threads e1) = length (threads (m_env s))" "sem_cells e1 = sem_cells (m_env s)"
    "open_semaphores e1 = open_semaphores (m_env s)" "active (threads e1 ! u) = active (threads (m_env s) ! u)" for u
    using f by blast+
  have op: "opened e1 = opened (m_env s)" using f1(5) by (simp add: opened_def fun_eq_iff)
  have "running_ok (s\<lparr> m_env := e1 \<rparr>)" using sem_invD(1) [OF inv] y f1 by (simp add: running_ok_def Let_def)
  moreover have "blocks_ok (s\<lparr> m_env := e1 \<rparr>)" using sem_invD(2) [OF inv] f1 op blk by (simp add: blocks_ok_def)
  moreover have "sem_waiters p e1 = sem_waiters p (m_env s)" using f1 blk by (auto simp: sem_waiters_def)
  ultimately show ?thesis using sem_invD(3,4) [OF inv] f1 by (simp add: sem_inv_def cells_ok_def)
qed

section \<open>Runs\<close>

lemma inv_step:
  assumes "sem_step s ev s1" "sem_inv p i s" "0 \<le> cell_value i s" "cell_value i s < 2147483647"
  shows "sem_inv p i s1 \<and> counter p (cell_value i s) [ev] = Some (cell_value i s1)"
  using assms
proof (cases rule: sem_step.cases)
  case (call_returns c e1)
  then show ?thesis using inv_returns [OF assms(2) _ _ assms(3,4)] by simp
next
  case (call_blocks c e1 k)
  then show ?thesis using inv_blocks [OF assms(2)] by simp
next
  case (exits v e1)
  have "sem_cells e1 = sem_cells (m_env s)" using exits(4) by (auto simp: finish_thread_def bind_eq_Some_conv)
  then show ?thesis using inv_exits [OF assms(2) exits(3,4)] exits(1,2) by simp
next
  case (resumes clk t e1 e2 k e3)
  then show ?thesis using inv_resumes [OF assms(2)] by simp
next
  case (starts clk t e1 e2)
  then show ?thesis using inv_starts [OF assms(2)] by simp
next
  case (idles clk na e1)
  then show ?thesis using inv_idles [OF assms(2)] by simp
qed

lemma inv_run:
  assumes "sem_run s0 evs s1" "sem_inv p i s0" "0 \<le> cell_value i s0"
    "cell_value i s0 + int (length evs) \<le> 2147483647"
  shows "sem_inv p i s1 \<and> counter p (cell_value i s0) evs = Some (cell_value i s1)"
  using assms
proof (induction rule: sem_run.induct)
  case (there s evs s1 ev s2)
  then have ih: "sem_inv p i s1" "counter p (cell_value i s) evs = Some (cell_value i s1)" by simp_all
  have "0 \<le> cell_value i s1" "cell_value i s1 < 2147483647"
    using counter_nonneg [OF ih(2)] counter_bound [OF ih(2)] there.prems(2,3) by simp_all
  from inv_step [OF there.hyps(2) ih(1) this] show ?case using ih(2) by (simp add: counter_append)
qed simp

text \<open>A start: nobody is blocked, and the semaphore has no waiter.\<close>

definition sem_start :: "nat \<Rightarrow> nat \<Rightarrow> sem_sys \<Rightarrow> bool" where
  "sem_start p i s = (running_ok s \<and> cells_ok p i (m_env s) \<and> m_pend s = (\<lambda>_. None) \<and>
     (\<forall>th \<in> set (threads (m_env s)). \<not> is_blocked th) \<and> sem_waiting (sem_cells (m_env s) ! i) = {})"

lemma start_inv: "sem_start p i s \<Longrightarrow> sem_inv p i s"
  by (auto simp: sem_start_def sem_inv_def blocks_ok_def sem_waiters_def block_of_def is_blocked_def)

text \<open>
  C37: a semaphore is a counter that never goes below zero.  In every interleaving of calls by any
  number of threads and of passes of the scheduler, the posts and the successful waits, as the
  guest sees them, are a run of the counter, and the value of the semaphore is the counter's; so no
  unit is taken twice, and none is lost.  (At most 2147483647 units, the range of the value.)
\<close>

theorem semaphore_refines_counter:
  assumes "sem_start p i s0" "sem_run s0 evs s1"
    and "0 \<le> sem_value (sem_cells (m_env s0) ! i)" "sem_value (sem_cells (m_env s0) ! i) + int (length evs) \<le> 2147483647"
  shows "counter p (sem_value (sem_cells (m_env s0) ! i)) evs = Some (sem_value (sem_cells (m_env s1) ! i))"
  using inv_run [OF assms(2) start_inv [OF assms(1)] assms(3,4)] by blast

text \<open>A single-threaded start with one semaphore of value \<open>v\<close>, opened by the pointer 5.\<close>

definition one_sem :: "int \<Rightarrow> sem_sys" where
  "one_sem v = \<lparr> m_env = (running [])\<lparr> errnos := [0 \<mapsto> 8192], open_semaphores := [5 \<mapsto> 0],
      sem_cells := [\<lparr> sem_value = v, sem_waiting = {}, guest_sem = Some 5, named = False \<rparr>] \<rparr>,
     m_pend = (\<lambda>_. None) \<rparr>"

lemma one_sem_start: "sem_start 5 0 (one_sem v)"
  by (auto simp: one_sem_def sem_start_def running_ok_def cells_ok_def block_of_def running_def env_new_def is_blocked_def)

lemma set_errno_ordinary:
  assumes "errnos e (current_thread e) = Some p" "ordinary (e_mem e) p 4"
  shows "set_errno v e = Some (e\<lparr> e_mem := (e_mem e)\<lparr> mbytes := put_bytes p (i32_bytes v) (mbytes (e_mem e)) \<rparr> \<rparr>)"
proof -
  have "write_i32 (e_mem e) p v = Some ((e_mem e)\<lparr> mbytes := put_bytes p (i32_bytes v) (mbytes (e_mem e)) \<rparr>)"
    unfolding write_i32_def using assms(2) by (intro write_ordinary) (simp_all flip: length_greater_0_conv)
  then show ?thesis using assms(1) by (simp add: set_errno_def set_errno_for_thread_def errno_ptr_for_thread_def)
qed

text \<open>Taking a unit and posting it again.\<close>

lemma take_and_post:
  assumes "errnos e (current_thread e) = Some q" "ordinary (e_mem e) q 4"
    and "open_semaphores e p = Some i" "sem_value (sem_cells e ! i) = 1" "i < length (sem_cells e)"
  shows "\<exists>e1 e2. sem_call_step (TryWait p) e = Some (Done (Taken p) e1) \<and>
    sem_call_step (Post p) e1 = Some (Done (Posted p) e2) \<and> yielder e1 = yielder e"
proof -
  let ?m = "(e_mem e)\<lparr> mbytes := put_bytes q (i32_bytes 0) (mbytes (e_mem e)) \<rparr>"
  let ?e1 = "put_sem i ((sem_cells e ! i)\<lparr> sem_value := 0 \<rparr>) (e\<lparr> e_mem := ?m \<rparr>)"
  have "sem_trywait p e = Some (Done 0 ?e1)"
    using assms set_errno_ordinary [OF assms(1,2), of 0] by (simp add: sem_trywait_def sem_decrement_def)
  moreover have "errnos ?e1 (current_thread ?e1) = Some q" "ordinary (e_mem ?e1) q 4"
    using assms by (simp_all add: put_sem_def)
  ultimately show ?thesis
    using set_errno_ordinary [of ?e1 q 0] assms(3)
    by (simp add: outcome_def sem_post_def sem_increment_def Let_def)
qed

lemma semaphore_refines_counter_witness:
  "\<exists>s1. sem_run (one_sem 1) [Taken 5, Posted 5] s1 \<and> sem_value (sem_cells (m_env s1) ! 0) = 1"
proof -
  let ?e = "m_env (one_sem 1)"
  have "errnos ?e (current_thread ?e) = Some 8192" "ordinary (e_mem ?e) 8192 4" "open_semaphores ?e 5 = Some 0"
    "sem_value (sem_cells ?e ! 0) = 1" "0 < length (sem_cells ?e)" "yielder ?e"
    by (simp_all add: one_sem_def)
  from take_and_post [OF this(1-5)] this(6) obtain e1 e2 where
    e: "sem_call_step (TryWait 5) ?e = Some (Done (Taken 5) e1)" "yielder e1"
      "sem_call_step (Post 5) e1 = Some (Done (Posted 5) e2)" "yielder ?e" by auto
  let ?s1 = "(one_sem 1)\<lparr> m_env := e1 \<rparr>" and ?s2 = "(one_sem 1)\<lparr> m_env := e2 \<rparr>"
  have "sem_step (one_sem 1) (Taken 5) ?s1" using e(4,1) by (rule sem_step.call_returns)
  moreover have "sem_step ?s1 (Posted 5) (?s1\<lparr> m_env := e2 \<rparr>)" 
    by (rule sem_step.call_returns [where c = "Post 5"]) (use e(2,3) in simp_all)
  ultimately have run: "sem_run (one_sem 1) ([] @ [Taken 5] @ [Posted 5]) ?s2"
    using sem_run.there [OF sem_run.there [OF sem_run.here]] by fastforce
  have v: "sem_value (sem_cells (m_env (one_sem 1)) ! 0) = 1" by (simp add: one_sem_def)
  from semaphore_refines_counter [OF one_sem_start run] run v show ?thesis by auto
qed

section \<open>Waiters\<close>

lemma passed_over_semaphore:
  assumes "passed_over clk is na e na1 e1" "distinct is" "\<forall>i \<in> set is. i < length (threads e)"
    and "i \<in> set is" "active (threads e ! cand e i)" "block_of (cand e i) e = Semaphore q"
      "open_semaphores e q = Some j"
  shows "sem_value (sem_cells e ! j) \<le> 0"
  using assms
proof (induction rule: passed_over.induct)
  case (passed e k na na2 e2 "is" na1 e1)
  have t: "cand e k < length (threads e)" using passed.prems(2) by (auto intro: cand_bound)
  note p = passed.hyps(2)
  note f = try_candidate_scan_frame [OF t p]
  show ?case
  proof (cases "i = k")
    case True
    then show ?thesis using p passed.prems(5,6)
      by (auto simp: try_candidate_def try_semaphore_def Let_def split: if_splits)
  next
    case False
    then have i: "i \<in> set is" "cand e i \<noteq> cand e k"
      using passed.prems(2,3) cand_eqD [of i e k] by auto
    have "sem_value (sem_cells e2 ! j) \<le> 0"
      using passed.IH passed.prems i f scan_frame_cand [OF f] by (simp add: scan_frame_def)
    then show ?thesis using f by (simp add: scan_frame_def)
  qed
qed auto

text \<open>
  a semaphore knows its waiters and wakes them.  In every reachable state \<open>sem_getvalue\<close>
  reports the value, or minus the number of threads that are blocked on the semaphore; and the
  scheduler never goes idle while there are both a unit and a thread waiting for one.
\<close>

theorem semaphore_wakes_waiters:
  assumes "sem_start p i s0" "sem_run s0 evs s1"
    and "0 \<le> sem_value (sem_cells (m_env s0) ! i)" "sem_value (sem_cells (m_env s0) ! i) + int (length evs) \<le> 2147483647"
    and "length (threads (m_env s1)) < 2147483648"
  defines "v \<equiv> sem_value (sem_cells (m_env s1) ! i)"
  shows "sem_reported (sem_cells (m_env s1) ! i) = (if 0 < v then v else - int (card (sem_waiters p (m_env s1)))) \<and>
    (schedule_pass clk (m_env s1) = Some (Idle na e1) \<longrightarrow> v = 0 \<or> sem_waiters p (m_env s1) = {})"
proof -
  let ?e = "m_env s1"
  have inv: "sem_inv p i s1" and c: "counter p (sem_value (sem_cells (m_env s0) ! i)) evs = Some v"
    using inv_run [OF assms(2) start_inv [OF assms(1)] assms(3,4)] by (simp_all add: v_def)
  note nonneg = counter_nonneg [OF c assms(3)]
  have sub: "sem_waiters p ?e \<subseteq> {..<length (threads ?e)}" by (auto simp: sem_waiters_def)
  have "card (sem_waiters p ?e) < 2147483648"
    using card_mono [OF _ sub] assms(5) by simp
  then have "i32 (int (card (sem_waiters p ?e)))" "i32 (- int (card (sem_waiters p ?e)))"
    by (simp_all add: i32_def)
  then have rep: "sem_reported (sem_cells ?e ! i) = (if 0 < v then v else - int (card (sem_waiters p ?e)))"
    using sem_invD(4) [OF inv] by (simp add: sem_reported_def v_def)
  have "v = 0 \<or> sem_waiters p ?e = {}" if idle: "schedule_pass clk ?e = Some (Idle na e1)"
  proof (rule disjCI)
    assume "sem_waiters p ?e \<noteq> {}"
    then obtain t where t: "t < length (threads ?e)" "active (threads ?e ! t)" "block_of t ?e = Semaphore p"
      by (auto simp: sem_waiters_def)
    note r = ring_distance_cand [OF t(1)]
    have "sem_value (sem_cells ?e ! i) \<le> 0"
      by (rule passed_over_semaphore [OF idle_frame(1) [OF idle], of "ring_distance t ?e" p])
        (use r t cells_okD(1) [OF sem_invD(3) [OF inv]] in auto)
    then show "v = 0" using nonneg by (simp add: v_def)
  qed
  then show ?thesis using rep by blast
qed

lemma semaphore_wakes_waiters_witness:
  "sem_reported (sem_cells (m_env (one_sem 1)) ! 0) = 1"
proof -
  have s: "length (threads (m_env (one_sem 1))) < 2147483648"
    "sem_value (sem_cells (m_env (one_sem 1)) ! 0) = 1" by (simp_all add: one_sem_def)
  from semaphore_wakes_waiters [OF one_sem_start sem_run.here _ _ s(1)] s(2) show ?thesis by simp
qed

section \<open>Destroying a semaphore that is waited for\<close>

lemma sem_wait_blocks:
  assumes "sem_wait p e = Some (Blocked e1 k)" "yielder e" "current_thread e < length (threads e)"
  shows "block_of (current_thread e) e1 = Semaphore p" "length (threads e1) = length (threads e)"
    "\<And>e2. current_thread e2 < length (threads e2) \<Longrightarrow> block_of (current_thread e2) e2 = NotBlocked \<Longrightarrow>
       k e2 = Some (0, e2\<lparr> yielder := True \<rparr>)"
proof -
  obtain e0 d where e0: "set_errno 0 e = Some e0" and d: "sem_decrement p True e0 = Some d"
    and c: "bind_call d (\<lambda>ok e2. if ok then Some (0, e2) else fail_with EINVAL (-1) e2) = Some (Blocked e1 k)"
    using assms(1) by (auto simp: sem_wait_def bind_eq_Some_conv)
  note same = errno_frameD [OF set_errno_frame [OF e0]]
  have "yielder e0" using assms(2) same by simp
  with d obtain i k1 where
    d1: "d = Blocked (set_block (current_thread e0) (Semaphore p) (put_sem i ((sem_cells e0 ! i)
           \<lparr> sem_waiting := insert (current_thread e0) (sem_waiting (sem_cells e0 ! i)) \<rparr>) e0)\<lparr> yielder := False \<rparr>) k1"
    and k1: "\<forall>e1. map_option (\<lambda>(r, e2). (outcome (Taken p) (if r then 0 else -1), e2)) (k1 e1) = take_rest p e1"
      "\<forall>e1 r e2. k1 e1 = Some (r, e2) \<longrightarrow> r"
    by (cases rule: decrement_cases) (use c in auto)
  have e1: "e1 = set_block (current_thread e0) (Semaphore p) (put_sem i ((sem_cells e0 ! i)
       \<lparr> sem_waiting := insert (current_thread e0) (sem_waiting (sem_cells e0 ! i)) \<rparr>) e0)\<lparr> yielder := False \<rparr>"
    and k: "k = (\<lambda>e1. Option.bind (k1 e1) (\<lambda>(r, e2). if r then Some (0, e2) else fail_with EINVAL (-1) e2))"
    using c d1 by auto
  show "block_of (current_thread e) e1 = Semaphore p"
    using e1 same assms(3) by (simp add: block_of_def set_block_def)
  show "length (threads e1) = length (threads e)" using e1 same by simp
  show "k e2 = Some (0, e2\<lparr> yielder := True \<rparr>)"
    if "current_thread e2 < length (threads e2)" "block_of (current_thread e2) e2 = NotBlocked" for e2
  proof -
    have "take_rest p e2 = Some (Taken p, e2\<lparr> yielder := True \<rparr>)"
      using that by (simp add: take_rest_def thread_at_def is_blocked_def block_of_def)
    then obtain r where r: "k1 e2 = Some (r, e2\<lparr> yielder := True \<rparr>)" using k1(1) [rule_format, of e2] by auto
    with k1(2) have "r" by blast
    with r show ?thesis by (simp add: k)
  qed
qed

text \<open>
  a thread that is blocked in \<open>sem_wait\<close> when the semaphore is destroyed is woken at the next
  pass, and its wait returns 0, success, although no unit was posted; the scheduler's comment
  promises a failure with \<open>EINVAL\<close>.
\<close>

theorem destroyed_wait_succeeds:
  assumes "yielder e" "current_thread e < length (threads e)" "sem_wait p e = Some (Blocked e1 k)"
    and "sem_destroy p (e1\<lparr> current_thread := u \<rparr>) = Some (0, e2)"
  shows "\<exists>e3 e4. try_candidate now wall (current_thread e) na e2 = Some (Picked e3) \<and> sem_cells e4 = sem_cells e1 \<and>
    k (e3\<lparr> current_thread := current_thread e \<rparr>) = Some (0, e4)"
proof -
  let ?t = "current_thread e" and ?e3 = "set_block (current_thread e) NotBlocked e2"
  note w = sem_wait_blocks [OF assms(3,1,2)]
  have e2: "e2 = e1\<lparr> current_thread := u, open_semaphores := (open_semaphores e1)(p := None) \<rparr>"
    using assms(4) by (auto simp: sem_destroy_def EINVAL_def split: option.splits if_splits)
  have t: "?t < length (threads e2)" using e2 w(2) assms(2) by simp
  have "block_of ?t e2 = Semaphore p" "open_semaphores e2 p = None" using e2 w(1) by (simp_all add: block_of_def)
  then have "try_candidate now wall ?t na e2 = Some (Picked ?e3)"
    by (simp add: try_candidate_def try_semaphore_def)
  moreover have "block_of ?t (?e3\<lparr> current_thread := ?t \<rparr>) = NotBlocked"
    using block_of_set_block [OF t, of ?t] by (simp add: block_of_def)
  then have "k (?e3\<lparr> current_thread := ?t \<rparr>) = Some (0, ?e3\<lparr> current_thread := ?t, yielder := True \<rparr>)"
    using w(3) t by simp
  moreover have "sem_cells (?e3\<lparr> current_thread := ?t, yielder := True \<rparr>) = sem_cells e1" using e2 by simp
  ultimately show ?thesis by blast
qed

lemma destroyed_wait_succeeds_witness:
  "\<exists>e1 k e2 e3 e4. sem_wait 5 (m_env (one_sem 0)) = Some (Blocked e1 k) \<and>
    sem_destroy 5 (e1\<lparr> current_thread := 0 \<rparr>) = Some (0, e2) \<and>
    try_candidate 0 0 0 None e2 = Some (Picked e3) \<and> k (e3\<lparr> current_thread := 0 \<rparr>) = Some (0, e4)"
proof -
  let ?e = "m_env (one_sem 0)"
  have e: "errnos ?e (current_thread ?e) = Some 8192" "ordinary (e_mem ?e) 8192 4" "yielder ?e"
    "current_thread ?e = 0" "length (threads ?e) = 1" "block_of 0 ?e = NotBlocked" "open_semaphores ?e 5 = Some 0"
    "sem_value (sem_cells ?e ! 0) = 0" "\<not> named (sem_cells ?e ! 0)" "0 < length (sem_cells ?e)"
    by (simp_all add: one_sem_def block_of_def running_def env_new_def)
  let ?m = "(e_mem ?e)\<lparr> mbytes := put_bytes 8192 (i32_bytes 0) (mbytes (e_mem ?e)) \<rparr>"
  have "\<exists>e1 k. sem_wait 5 ?e = Some (Blocked e1 k) \<and> open_semaphores e1 = open_semaphores ?e \<and> \<not> named (sem_cells e1 ! 0)"
    using e set_errno_ordinary [OF e(1,2), of 0]
    by (simp add: sem_wait_def sem_decrement_def yield_thread_def thread_at_def is_blocked_def block_of_def Let_def)
  then obtain e1 k where w: "sem_wait 5 ?e = Some (Blocked e1 k)" "open_semaphores e1 = open_semaphores ?e"
    "\<not> named (sem_cells e1 ! 0)" by blast
  let ?e2 = "e1\<lparr> current_thread := 0, open_semaphores := (open_semaphores e1)(5 := None) \<rparr>"
  have d: "sem_destroy 5 (e1\<lparr> current_thread := 0 \<rparr>) = Some (0, ?e2)" using w e by (simp add: sem_destroy_def)
  have "current_thread ?e < length (threads ?e)" using e by simp
  from destroyed_wait_succeeds [OF e(3) this w(1) d, of 0 0 None] w(1) d e(4) show ?thesis by auto
qed

end
