(* ===== verification/ObjC_Sync.thy ===== *)
theory ObjC_Sync
  imports Pthread_Lock_Props Scheduling
begin

text \<open>
  \<open>@synchronized\<close> blocks (\<open>src/objc/synchronization.rs\<close>): an object gets a recursive host mutex
  while at least one thread is inside or waits to get inside, found by the object's address.
\<close>

definition locked_result :: "int + nat \<Rightarrow> env \<Rightarrow> (int \<times> env) option" where
  "locked_result r e = (case r of Inl _ \<Rightarrow> None | Inr _ \<Rightarrow> Some (0, e))"

definition objc_sync_enter :: "nat \<Rightarrow> env \<Rightarrow> int call option" where
  "objc_sync_enter obj e =
     (case sync_mutexes e obj of
        Some mutex_id \<Rightarrow> do {
          c \<leftarrow> lock_mutex mutex_id e;
          bind_call c locked_result }
      | None \<Rightarrow> do {
          (mutex_id, e1) \<leftarrow> init_mutex PTHREAD_MUTEX_RECURSIVE e;
          c \<leftarrow> lock_mutex mutex_id e1;
          bind_call c (\<lambda>r e2. do {
            (_, e3) \<leftarrow> locked_result r e2;
            Some (0, e3\<lparr> sync_mutexes := (sync_mutexes e3)(obj \<mapsto> mutex_id) \<rparr>) }) })"

definition objc_sync_exit :: "nat \<Rightarrow> env \<Rightarrow> (int \<times> env) option" where
  "objc_sync_exit obj e =
     (case sync_mutexes e obj of
        None \<Rightarrow> Some (- 1, e)
      | Some mutex_id \<Rightarrow> do {
          (r, e1) \<leftarrow> unlock_mutex mutex_id e;
          (case r of
             Inl _ \<Rightarrow> Some (- 1, e1)
           | Inr lock_count \<Rightarrow>
               (if lock_count = 0 then do {
                  (d, e2) \<leftarrow> destroy_mutex mutex_id e1;
                  (case d of
                     Inr _ \<Rightarrow> Some (0, e2\<lparr> sync_mutexes := (sync_mutexes e2)(obj := None) \<rparr>)
                   | Inl _ \<Rightarrow> Some (0, e2)) }
                else Some (0, e1))) })"

section \<open>Nested blocks\<close>

fun enters :: "nat \<Rightarrow> nat \<Rightarrow> env \<Rightarrow> env option" where
  "enters 0 obj e = Some e"
| "enters (Suc n) obj e = do {
     e1 \<leftarrow> enters n obj e;
     (case objc_sync_enter obj e1 of Some (Done r e2) \<Rightarrow> if r = 0 then Some e2 else None | _ \<Rightarrow> None) }"

fun exits :: "nat \<Rightarrow> nat \<Rightarrow> env \<Rightarrow> env option" where
  "exits 0 obj e = Some e"
| "exits (Suc n) obj e =
     (case objc_sync_exit obj e of Some (r, e1) \<Rightarrow> if r = 0 then exits n obj e1 else None | _ \<Rightarrow> None)"

text \<open>The environment in which the current thread of \<open>e\<close> has entered \<open>n\<close> times.\<close>

definition entered :: "nat \<Rightarrow> nat \<Rightarrow> env \<Rightarrow> env" where
  "entered n obj e = (put_mutex (mutex_count e)
     \<lparr> mutex_kind = PTHREAD_MUTEX_RECURSIVE, waiting_count = 0, locked = Some (current_thread e, n) \<rparr>
     (e\<lparr> mutex_count := mutex_count e + 1 \<rparr>))\<lparr> sync_mutexes := (sync_mutexes e)(obj \<mapsto> mutex_count e) \<rparr>"

lemma entered_simps [simp]:
  "sync_mutexes (entered n obj e) = (sync_mutexes e)(obj \<mapsto> mutex_count e)"
  "mutexes (entered n obj e) = (mutexes e)(mutex_count e \<mapsto>
     \<lparr> mutex_kind = PTHREAD_MUTEX_RECURSIVE, waiting_count = 0, locked = Some (current_thread e, n) \<rparr>)"
  "current_thread (entered n obj e) = current_thread e" "threads (entered n obj e) = threads e"
  "yielder (entered n obj e) = yielder e"
  by (simp_all add: entered_def)

lemma first_enter:
  assumes "sync_mutexes e obj = None" "mutex_count e + 1 < 18446744073709551616"
  shows "objc_sync_enter obj e = Some (Done 0 (entered 1 obj e))"
proof -
  have "init_mutex PTHREAD_MUTEX_RECURSIVE e = Some (mutex_count e, put_mutex (mutex_count e)
      \<lparr> mutex_kind = PTHREAD_MUTEX_RECURSIVE, waiting_count = 0, locked = None \<rparr> (e\<lparr> mutex_count := mutex_count e + 1 \<rparr>))"
    using assms(2) by (simp add: init_mutex_def Let_def)
  then show ?thesis using assms(1)
    by (simp add: objc_sync_enter_def lock_mutex_def locked_result_def entered_def) (simp add: put_mutex_def)
qed

lemma next_enter:
  assumes "n + 1 < 4294967296"
  shows "objc_sync_enter obj (entered n obj e) = Some (Done 0 (entered (n + 1) obj e))"
proof -
  have "put_mutex (mutex_count e) \<lparr> mutex_kind = PTHREAD_MUTEX_RECURSIVE, waiting_count = 0,
      locked = Some (current_thread e, n + 1) \<rparr> (entered n obj e) = entered (n + 1) obj e"
    by (simp add: entered_def put_mutex_def)
  then show ?thesis using assms by (simp add: objc_sync_enter_def lock_mutex_def locked_result_def)
qed

lemma enters_spec:
  assumes "sync_mutexes e obj = None" "mutex_count e + 1 < 18446744073709551616" "n + 1 < 4294967296"
  shows "enters (Suc n) obj e = Some (entered (Suc n) obj e)"
  using assms(3)
proof (induction n)
  case 0
  then show ?case using first_enter [OF assms(1,2)] by simp
next
  case (Suc n)
  then have "enters (Suc n) obj e = Some (entered (Suc n) obj e)" by simp
  then show ?case using next_enter [of "Suc n" obj e] Suc.prems by simp
qed

lemma exit_inner:
  assumes "0 < n"
  shows "objc_sync_exit obj (entered (Suc n) obj e) = Some (0, entered n obj e)"
proof -
  have "put_mutex (mutex_count e) \<lparr> mutex_kind = PTHREAD_MUTEX_RECURSIVE, waiting_count = 0,
      locked = Some (current_thread e, n) \<rparr> (entered (Suc n) obj e) = entered n obj e"
    by (simp add: entered_def put_mutex_def)
  then show ?thesis using assms by (simp add: objc_sync_exit_def unlock_mutex_def)
qed

lemma exit_last:
  assumes "sync_mutexes e obj = None" "mutexes e (mutex_count e) = None"
  shows "objc_sync_exit obj (entered (Suc 0) obj e) = Some (0, e\<lparr> mutex_count := mutex_count e + 1 \<rparr>)"
proof -
  have "(mutexes e)(mutex_count e := None) = mutexes e" "(sync_mutexes e)(obj := None) = sync_mutexes e"
    using assms by (simp_all add: fun_upd_idem)
  then show ?thesis
    by (simp add: objc_sync_exit_def unlock_mutex_def destroy_mutex_def entered_def put_mutex_def)
qed

lemma exits_spec:
  assumes "sync_mutexes e obj = None" "mutexes e (mutex_count e) = None"
  shows "exits (Suc n) obj (entered (Suc n) obj e) = Some (e\<lparr> mutex_count := mutex_count e + 1 \<rparr>)"
proof (induction n)
  case 0
  then show ?case using exit_last [OF assms] by simp
next
  case (Suc n)
  then show ?case using exit_inner [of "Suc n" obj e] by simp
qed

text \<open>
  C39: \<open>@synchronized\<close> blocks nest and leave nothing behind.  A thread that enters a free object
  \<open>n + 1\<close> times and leaves it as often finds the same mutexes and the same table of objects as
  before.  While it is inside, another thread that leaves the object is told so with -1, with
  no effect, and one that enters blocks on the object's mutex.
\<close>

theorem synchronized_balanced:
  assumes "sync_mutexes e obj = None" "mutexes_ok e" "mutex_count e + 1 < 18446744073709551616" "n + 1 < 4294967296"
    and "yielder e" "u < length (threads e)" "u \<noteq> current_thread e" "block_of u e = NotBlocked"
  shows "\<exists>e1. enters (n + 1) obj e = Some e1 \<and> exits (n + 1) obj e1 = Some (e\<lparr> mutex_count := mutex_count e + 1 \<rparr>) \<and>
    objc_sync_exit obj (e1\<lparr> current_thread := u \<rparr>) = Some (- 1, e1\<lparr> current_thread := u \<rparr>) \<and>
    (\<exists>e2 k. objc_sync_enter obj (e1\<lparr> current_thread := u \<rparr>) = Some (Blocked e2 k) \<and> block_of u e2 = Mutex (mutex_count e))"
proof -
  let ?e1 = "entered (Suc n) obj e"
  have free: "mutexes e (mutex_count e) = None"
    using mutexes_okD [OF assms(2), of "mutex_count e"] by (cases "mutexes e (mutex_count e)") auto
  have "block_of u ?e1 = NotBlocked" using assms(8) by (simp add: block_of_def)
  then have "\<exists>e2 k. objc_sync_enter obj (?e1\<lparr> current_thread := u \<rparr>) = Some (Blocked e2 k) \<and> block_of u e2 = Mutex (mutex_count e)"
    using assms(5-7) by (simp add: objc_sync_enter_def lock_mutex_def block_on_mutex_def yield_thread_def
      thread_at_def is_blocked_def block_of_def set_block_def put_mutex_def Let_def)
  moreover have "objc_sync_exit obj (?e1\<lparr> current_thread := u \<rparr>) = Some (- 1, ?e1\<lparr> current_thread := u \<rparr>)"
    using assms(7) by (simp add: objc_sync_exit_def unlock_mutex_def)
  ultimately show ?thesis
    using enters_spec [OF assms(1,3,4)] exits_spec [OF assms(1) free, of n] by simp
qed

lemma synchronized_balanced_witness:
  "\<exists>e1. enters 3 8192 (three_threads NotBlocked NotBlocked \<lparr> yielder := True \<rparr>) = Some e1 \<and> exits 3 8192 e1 \<noteq> None"
proof -
  let ?e = "three_threads NotBlocked NotBlocked \<lparr> yielder := True \<rparr>"
  have e: "sync_mutexes ?e 8192 = None" "mutexes_ok ?e" "mutex_count ?e + 1 < 18446744073709551616" "yielder ?e"
    "1 < length (threads ?e)" "1 \<noteq> current_thread ?e" "block_of 1 ?e = NotBlocked"
    by (simp_all add: mutexes_ok_def mutex_ok_def three_threads_def env_new_def block_of_def Let_def)
  from synchronized_balanced [OF e(1-3) _ e(4-7), of 2] show ?thesis by auto
qed

end
