(* ===== verification/Pthread_Thread.thy ===== *)
theory Pthread_Thread
  imports Errno Pthread_Mutex Scheduler
begin

text \<open>
  Threads as the guest sees them (\<open>src/libc/pthread/thread.rs\<close>): attribute objects in guest
  memory, the table of thread objects, creation, joining, detaching, cancellation and names.  The
  guest routine that a new thread runs belongs to the CPU and is not state of the model;
  \<open>pthread_exit\<close> is the value with which a thread is redirected to its exit routine.
\<close>

definition MAGIC_ATTR :: nat where "MAGIC_ATTR = 0x54684174"
definition MAGIC_THREAD :: nat where "MAGIC_THREAD = 0x54485244"
definition PTHREAD_CREATE_JOINABLE :: int where "PTHREAD_CREATE_JOINABLE = 1"
definition PTHREAD_CREATE_DETACHED :: int where "PTHREAD_CREATE_DETACHED = 2"
definition PTHREAD_CANCEL_ENABLE :: int where "PTHREAD_CANCEL_ENABLE = 0"
definition PTHREAD_CANCEL_DISABLE :: int where "PTHREAD_CANCEL_DISABLE = 1"
definition PTHREAD_CANCEL_DEFERRED :: int where "PTHREAD_CANCEL_DEFERRED = 0"
definition PTHREAD_CANCEL_ASYNCHRONOUS :: int where "PTHREAD_CANCEL_ASYNCHRONOUS = 1"
definition PTHREAD_CANCELED :: nat where "PTHREAD_CANCELED = 0xFFFFFFFF"
definition PTHREAD_STACK_MIN :: nat where "PTHREAD_STACK_MIN = 2 * PAGE_SIZE"
definition SECONDARY_THREAD_DEFAULT_STACK_SIZE :: nat where "SECONDARY_THREAD_DEFAULT_STACK_SIZE = 512 * 1024"

section \<open>Attribute objects\<close>

definition DEFAULT_ATTR :: pthread_attr where
  "DEFAULT_ATTR = \<lparr> pa_magic = MAGIC_ATTR, detachstate = PTHREAD_CREATE_JOINABLE,
     stacksize = SECONDARY_THREAD_DEFAULT_STACK_SIZE, sched_policy = 1, sched_priority = 0,
     pa_unused = replicate 20 0 \<rparr>"

definition attr_bytes :: "pthread_attr \<Rightarrow> u8 list" where
  "attr_bytes a = to_le_bytes 4 (pa_magic a) @ i32_bytes (detachstate a) @ to_le_bytes 4 (stacksize a) @
     i32_bytes (sched_policy a) @ i32_bytes (sched_priority a) @ pa_unused a"

definition attr_of_bytes :: "u8 list \<Rightarrow> pthread_attr" where
  "attr_of_bytes bs = \<lparr> pa_magic = from_le_bytes (field 0 4 bs), detachstate = i32_of_bytes (field 4 4 bs),
     stacksize = from_le_bytes (field 8 4 bs), sched_policy = i32_of_bytes (field 12 4 bs),
     sched_priority = i32_of_bytes (field 16 4 bs), pa_unused = field 20 20 bs \<rparr>"

definition read_attr :: "mem \<Rightarrow> nat \<Rightarrow> pthread_attr option" where
  "read_attr m p = map_option attr_of_bytes (mem_read 40 m p)"

definition write_attr :: "nat \<Rightarrow> pthread_attr \<Rightarrow> env \<Rightarrow> (int \<times> env) option" where
  "write_attr p a e = put_mem e (mem_write (e_mem e) p (attr_bytes a)) 0"

text \<open>The setters copy the object, change one field and write it back.\<close>

definition update_attr :: "nat \<Rightarrow> (pthread_attr \<Rightarrow> pthread_attr) \<Rightarrow> env \<Rightarrow> (int \<times> env) option" where
  "update_attr p f e = Option.bind (read_attr (e_mem e) p) (\<lambda>a. write_attr p (f a) e)"

definition detachstate_valid :: "int \<Rightarrow> bool" where
  "detachstate_valid d = (d = PTHREAD_CREATE_JOINABLE \<or> d = PTHREAD_CREATE_DETACHED)"

definition pthread_attr_init :: "nat \<Rightarrow> env \<Rightarrow> (int \<times> env) option" where
  "pthread_attr_init attr e = write_attr attr DEFAULT_ATTR e"

definition pthread_attr_getdetachstate :: "nat \<Rightarrow> nat \<Rightarrow> env \<Rightarrow> (int \<times> env) option" where
  "pthread_attr_getdetachstate attr detachstate_ptr e = check_magic MAGIC_ATTR attr e (do {
     a \<leftarrow> read_attr (e_mem e) attr;
     (if \<not> detachstate_valid (detachstate a) then None
      else put_mem e (write_i32 (e_mem e) detachstate_ptr (detachstate a)) 0) })"

definition pthread_attr_setdetachstate :: "nat \<Rightarrow> int \<Rightarrow> env \<Rightarrow> (int \<times> env) option" where
  "pthread_attr_setdetachstate attr d e = check_magic MAGIC_ATTR attr e
     (if \<not> detachstate_valid d then None else update_attr attr (\<lambda>a. a\<lparr> detachstate := d \<rparr>) e)"

definition pthread_attr_getstacksize :: "nat \<Rightarrow> nat \<Rightarrow> env \<Rightarrow> (int \<times> env) option" where
  "pthread_attr_getstacksize attr stacksize_ptr e =
     (if attr = 0 then Some (EINVAL, e)
      else check_magic MAGIC_ATTR attr e (do {
        a \<leftarrow> read_attr (e_mem e) attr;
        put_mem e (write_u32 (e_mem e) stacksize_ptr (stacksize a)) 0 }))"

definition stacksize_refused :: "nat \<Rightarrow> nat \<Rightarrow> bool" where
  "stacksize_refused attr n = (attr = 0 \<or> n < PTHREAD_STACK_MIN \<or> n mod PAGE_SIZE \<noteq> 0)"

definition pthread_attr_setstacksize :: "nat \<Rightarrow> nat \<Rightarrow> env \<Rightarrow> (int \<times> env) option" where
  "pthread_attr_setstacksize attr n e =
     (if stacksize_refused attr n then Some (EINVAL, e)
      else check_magic MAGIC_ATTR attr e (update_attr attr (\<lambda>a. a\<lparr> stacksize := n \<rparr>) e))"

definition pthread_attr_setstack :: "nat \<Rightarrow> nat \<Rightarrow> nat \<Rightarrow> env \<Rightarrow> (int \<times> env) option" where
  "pthread_attr_setstack attr stackaddr n e =
     (if stacksize_refused attr n then Some (EINVAL, e)
      else check_magic MAGIC_ATTR attr e (update_attr attr (\<lambda>a. a\<lparr> stacksize := n \<rparr>) e))"

definition pthread_attr_setstackaddr :: "nat \<Rightarrow> nat \<Rightarrow> env \<Rightarrow> (int \<times> env) option" where
  "pthread_attr_setstackaddr attr stackaddr e =
     (if attr = 0 then Some (EINVAL, e) else check_magic MAGIC_ATTR attr e (Some (0, e)))"

definition pthread_attr_setinheritsched :: "nat \<Rightarrow> int \<Rightarrow> env \<Rightarrow> (int \<times> env) option" where
  "pthread_attr_setinheritsched attr inheritsched e = check_magic MAGIC_ATTR attr e (Some (0, e))"

definition pthread_attr_setschedpolicy :: "nat \<Rightarrow> int \<Rightarrow> env \<Rightarrow> (int \<times> env) option" where
  "pthread_attr_setschedpolicy attr policy e =
     check_magic MAGIC_ATTR attr e (update_attr attr (\<lambda>a. a\<lparr> sched_policy := policy \<rparr>) e)"

definition pthread_attr_setschedparam :: "nat \<Rightarrow> nat \<Rightarrow> env \<Rightarrow> (int \<times> env) option" where
  "pthread_attr_setschedparam attr param e = check_magic MAGIC_ATTR attr e (do {
     new_param \<leftarrow> read_i32 (e_mem e) param;
     update_attr attr (\<lambda>a. a\<lparr> sched_priority := new_param \<rparr>) e })"

definition pthread_attr_destroy :: "nat \<Rightarrow> env \<Rightarrow> (int \<times> env) option" where
  "pthread_attr_destroy attr e = check_magic MAGIC_ATTR attr e
     (write_attr attr \<lparr> pa_magic = 0, detachstate = 0, stacksize = 0, sched_policy = 0,
        sched_priority = 0, pa_unused = replicate 20 0 \<rparr> e)"

definition pthread_attr_setscope :: "nat \<Rightarrow> int \<Rightarrow> env \<Rightarrow> (int \<times> env) option" where
  "pthread_attr_setscope attr scope e = Some (0, e)"

section \<open>Thread objects\<close>

definition new_host_object :: "nat \<Rightarrow> pthread_attr \<Rightarrow> thread_host_object" where
  "new_host_object t a = \<lparr> ho_thread_id = t, joined_by = None, ho_attr = a, cancel_requested = False,
     cancel_disabled = False, cancel_async = False, ho_name = [] \<rparr>"

definition host_thread :: "nat \<Rightarrow> env \<Rightarrow> thread_host_object option" where
  "host_thread p e = map_of (host_threads e) p"

definition put_host_thread :: "nat \<Rightarrow> thread_host_object \<Rightarrow> env \<Rightarrow> env" where
  "put_host_thread p h e =
     e\<lparr> host_threads := map (\<lambda>(q, g). if q = p then (q, h) else (q, g)) (host_threads e) \<rparr>"

text \<open>A new opaque handle, with a check that the address is not one already.\<close>

definition new_handle :: "thread_host_object \<Rightarrow> env \<Rightarrow> (nat \<times> env) option" where
  "new_handle h e = do {
     (opaque, m1) \<leftarrow> alloc_and_write (to_le_bytes 4 MAGIC_THREAD) (e_mem e);
     (if map_of (host_threads e) opaque \<noteq> None then None
      else Some (opaque, e\<lparr> e_mem := m1, host_threads := host_threads e @ [(opaque, h)] \<rparr>)) }"

definition pthread_create :: "nat \<Rightarrow> nat \<Rightarrow> env \<Rightarrow> (int \<times> env) option" where
  "pthread_create thread_ptr attr e =
     (let create = (\<lambda>a. do {
        (thread_id, e1) \<leftarrow> new_thread (stacksize a) e;
        (opaque, e2) \<leftarrow> new_handle (new_host_object thread_id a) e1;
        m3 \<leftarrow> write_u32 (e_mem e2) thread_ptr opaque;
        Some (0, e2\<lparr> e_mem := m3 \<rparr>) })
      in if attr \<noteq> 0 then check_magic MAGIC_ATTR attr e (Option.bind (read_attr (e_mem e) attr) create)
         else create DEFAULT_ATTR)"

definition pthread_create_suspended_np :: "nat \<Rightarrow> nat \<Rightarrow> env \<Rightarrow> int call option" where
  "pthread_create_suspended_np thread_ptr attr e = do {
     (ret, e1) \<leftarrow> pthread_create thread_ptr attr e;
     (if ret \<noteq> 0 then Some (Done ret e1)
      else do {
        opaque \<leftarrow> read_u32 (e_mem e1) thread_ptr;
        h \<leftarrow> host_thread opaque e1;
        c \<leftarrow> suspend_thread (ho_thread_id h) e1;
        Some (map_call (\<lambda>_. 0) c) }) }"

definition pthread_equal :: "nat \<Rightarrow> nat \<Rightarrow> env \<Rightarrow> int" where
  "pthread_equal thread1 thread2 e =
     (if thread1 = thread2 then 1
      else case (host_thread thread1 e, host_thread thread2 e) of
             (Some h1, Some h2) \<Rightarrow> if ho_thread_id h1 = ho_thread_id h2 then 1 else 0
           | _ \<Rightarrow> 0)"

definition find_handle :: "nat \<Rightarrow> env \<Rightarrow> nat option" where
  "find_handle t e = map_option fst (List.find (\<lambda>(p, h). ho_thread_id h = t) (host_threads e))"

definition pthread_self :: "env \<Rightarrow> (nat \<times> env) option" where
  "pthread_self e = do {
     e2 \<leftarrow> (if current_thread e = 0 \<and> \<not> main_thread_object_created e
            then map_option snd (new_handle (new_host_object 0 DEFAULT_ATTR) (e\<lparr> main_thread_object_created := True \<rparr>))
            else Some e);
     p \<leftarrow> find_handle (current_thread e) e2;
     Some (p, e2) }"

definition pthread_exit :: "nat \<Rightarrow> env \<Rightarrow> nat option \<times> env" where
  "pthread_exit retval e = (Some retval, e)"

definition pthread_join :: "nat \<Rightarrow> nat \<Rightarrow> env \<Rightarrow> int call option" where
  "pthread_join thread retval e = do {
     (curr_pthread_t, e1) \<leftarrow> pthread_self e;
     joinee \<leftarrow> host_thread thread e1;
     let joinee_thread = ho_thread_id joinee;
     (if joinee_thread = 0 then None
      else if joinee_thread = current_thread e1 then Some (Done EDEADLK e1)
      else do {
        host_obj_curr \<leftarrow> host_thread curr_pthread_t e1;
        (if joined_by host_obj_curr = Some joinee_thread then Some (Done EDEADLK e1)
         else if detachstate (ho_attr joinee) = PTHREAD_CREATE_DETACHED then Some (Done EINVAL e1)
         else join_with_thread joinee_thread retval
                (put_host_thread thread (joinee\<lparr> joined_by := Some (current_thread e1) \<rparr>) e1)
                (\<lambda>e2. Some (0, e2))) }) }"

definition pthread_detach :: "nat \<Rightarrow> env \<Rightarrow> int \<times> env" where
  "pthread_detach thread e =
     (case host_thread thread e of
        None \<Rightarrow> (ESRCH, e)
      | Some h \<Rightarrow>
          (if detachstate (ho_attr h) = PTHREAD_CREATE_DETACHED then (EINVAL, e)
           else (0, put_host_thread thread (h\<lparr> ho_attr := (ho_attr h)\<lparr> detachstate := PTHREAD_CREATE_DETACHED \<rparr> \<rparr>) e)))"

section \<open>Cancellation\<close>

definition pthread_cancel :: "nat \<Rightarrow> env \<Rightarrow> int \<times> env" where
  "pthread_cancel thread e =
     (case host_thread thread e of
        None \<Rightarrow> (ESRCH, e)
      | Some h \<Rightarrow>
          (if cancel_requested h then (0, e)
           else (0, put_host_thread thread (h\<lparr> cancel_requested := True \<rparr>) e)))"

text \<open>Both setters report the previous setting where they are asked to and store the new one.\<close>

definition swap_setting ::
    "(thread_host_object \<Rightarrow> int) \<Rightarrow> (thread_host_object \<Rightarrow> thread_host_object) \<Rightarrow> nat \<Rightarrow> env \<Rightarrow> (int \<times> env) option" where
  "swap_setting previous change old_ptr e = do {
     (self_t, e1) \<leftarrow> pthread_self e;
     h \<leftarrow> host_thread self_t e1;
     m2 \<leftarrow> (if old_ptr \<noteq> 0 then write_i32 (e_mem e1) old_ptr (previous h) else Some (e_mem e1));
     Some (0, put_host_thread self_t (change h) (e1\<lparr> e_mem := m2 \<rparr>)) }"

definition pthread_setcancelstate :: "int \<Rightarrow> nat \<Rightarrow> env \<Rightarrow> (int \<times> env) option" where
  "pthread_setcancelstate state oldstate e =
     (if state \<noteq> PTHREAD_CANCEL_ENABLE \<and> state \<noteq> PTHREAD_CANCEL_DISABLE then Some (EINVAL, e)
      else swap_setting (\<lambda>h. if cancel_disabled h then PTHREAD_CANCEL_DISABLE else PTHREAD_CANCEL_ENABLE)
             (\<lambda>h. h\<lparr> cancel_disabled := (state = PTHREAD_CANCEL_DISABLE) \<rparr>) oldstate e)"

definition pthread_setcanceltype :: "int \<Rightarrow> nat \<Rightarrow> env \<Rightarrow> (int \<times> env) option" where
  "pthread_setcanceltype cancel_type oldtype e =
     (if cancel_type \<noteq> PTHREAD_CANCEL_DEFERRED \<and> cancel_type \<noteq> PTHREAD_CANCEL_ASYNCHRONOUS then Some (EINVAL, e)
      else swap_setting (\<lambda>h. if cancel_async h then PTHREAD_CANCEL_ASYNCHRONOUS else PTHREAD_CANCEL_DEFERRED)
             (\<lambda>h. h\<lparr> cancel_async := (cancel_type = PTHREAD_CANCEL_ASYNCHRONOUS) \<rparr>) oldtype e)"

definition pthread_testcancel :: "env \<Rightarrow> (nat option \<times> env) option" where
  "pthread_testcancel e = do {
     (self_t, e1) \<leftarrow> pthread_self e;
     h \<leftarrow> host_thread self_t e1;
     (if cancel_disabled h \<or> \<not> cancel_requested h then Some (None, e1)
      else Some (pthread_exit PTHREAD_CANCELED e1)) }"

section \<open>Darwin extensions and scheduling parameters\<close>

definition pthread_mach_thread_np :: "nat \<Rightarrow> env \<Rightarrow> nat option" where
  "pthread_mach_thread_np thread e =
     (case host_thread thread e of
        None \<Rightarrow> Some 0
      | Some h \<Rightarrow> if 4294967296 \<le> ho_thread_id h + 1 then None else Some (ho_thread_id h + 1))"

definition pthread_get_stackaddr_np :: "nat \<Rightarrow> env \<Rightarrow> nat option" where
  "pthread_get_stackaddr_np thread e =
     (case host_thread thread e of
        None \<Rightarrow> Some 0
      | Some h \<Rightarrow> do {
          th \<leftarrow> thread_at (ho_thread_id h) e;
          (_, stack_end) \<leftarrow> stack th;
          Some stack_end })"

definition pthread_get_stacksize_np :: "nat \<Rightarrow> env \<Rightarrow> nat option" where
  "pthread_get_stacksize_np thread e =
     (case host_thread thread e of
        None \<Rightarrow> Some 0
      | Some h \<Rightarrow> do {
          th \<leftarrow> thread_at (ho_thread_id h) e;
          (start_unadjusted, stack_end) \<leftarrow> stack th;
          let start = (if ho_thread_id h = 0 then wadd32 start_unadjusted PAGE_SIZE else start_unadjusted);
          Some (wsub32 (wadd32 stack_end 1) start) })"

definition pthread_getschedparam :: "nat \<Rightarrow> nat \<Rightarrow> nat \<Rightarrow> env \<Rightarrow> (int \<times> env) option" where
  "pthread_getschedparam thread policy param e =
     (if host_thread thread e = None then map_option (Pair ESRCH) (set_errno ESRCH e)
      else do {
        m1 \<leftarrow> write_i32 (e_mem e) policy 1;
        put_mem e (write_i32 m1 param 0) 0 })"

definition pthread_setschedparam :: "nat \<Rightarrow> int \<Rightarrow> nat \<Rightarrow> env \<Rightarrow> (int \<times> env) option" where
  "pthread_setschedparam thread policy param e =
     (if host_thread thread e = None then map_option (Pair ESRCH) (set_errno ESRCH e)
      else if \<not> (1 \<le> policy \<and> policy \<le> 3) then map_option (Pair EINVAL) (set_errno EINVAL e)
      else do {
        _ \<leftarrow> read_i32 (e_mem e) param;
        Some (0, e) })"

definition pthread_sigmask :: "int \<Rightarrow> nat \<Rightarrow> nat \<Rightarrow> env \<Rightarrow> int \<times> env" where
  "pthread_sigmask how set_ptr old_set e = (0, e)"

definition pthread_kill :: "nat \<Rightarrow> int \<Rightarrow> env \<Rightarrow> int \<times> env" where
  "pthread_kill thread sig e = (0, e)"

definition pthread_getname_np :: "nat \<Rightarrow> nat \<Rightarrow> nat \<Rightarrow> env \<Rightarrow> (int \<times> env) option" where
  "pthread_getname_np thread buf len e =
     (if buf = 0 \<or> len = 0 then Some (EINVAL, e)
      else case host_thread thread e of
             None \<Rightarrow> Some (ESRCH, e)
           | Some h \<Rightarrow>
               (let name_bytes = ho_name h;
                    copy_len = min (length name_bytes) (len - 1);
                    dst = bytes_at_mut (e_mem e) buf len
                in if slice_len dst \<le> copy_len then None
                   else Some (0, e\<lparr> e_mem := slice_store dst copy_len [0]
                          (slice_store dst 0 (take copy_len name_bytes) (e_mem e)) \<rparr>)))"

definition pthread_setname_np :: "nat \<Rightarrow> env \<Rightarrow> (int \<times> env) option" where
  "pthread_setname_np name e = do {
     name_str \<leftarrow> (if name = 0 then Some []
       else map_option (\<lambda>r. case r of Inl _ \<Rightarrow> [] | Inr s \<Rightarrow> s) (cstr_at_utf8 (e_mem e) name));
     (self_t, e1) \<leftarrow> pthread_self e;
     Some (0, (case host_thread self_t e1 of
         None \<Rightarrow> e1
       | Some h \<Rightarrow> put_host_thread self_t (h\<lparr> ho_name := utf8_take 63 name_str \<rparr>) e1)) }"

definition pthread_threadid_np :: "nat \<Rightarrow> nat \<Rightarrow> env \<Rightarrow> (int \<times> env) option" where
  "pthread_threadid_np thread thread_id e =
     (if thread_id = 0 then Some (0, e)
      else put_mem e (mem_write (e_mem e) thread_id (to_le_bytes 8 (current_thread e + 1))) 0)"

end
