(* ===== verification/Pthread_Thread_Props.thy ===== *)
theory Pthread_Thread_Props
  imports Pthread_Thread Scheduler_Facts Pthread_Lock_Props
begin

text \<open>
  The table of thread objects: every handle belongs to one thread and every thread has at most
  one handle, so that the search in \<open>pthread_self\<close> has one answer; and joining, from the call to
  the value that arrives.
\<close>

section \<open>The table of handles\<close>

definition handle_ids :: "env \<Rightarrow> nat list" where
  "handle_ids e = map (\<lambda>x. ho_thread_id (snd x)) (host_threads e)"

definition handles_ok :: "env \<Rightarrow> bool" where
  "handles_ok e = (distinct (map fst (host_threads e)) \<and> distinct (handle_ids e) \<and>
     (\<forall>t \<in> set (handle_ids e). t < length (threads e)) \<and>
     main_thread_object_created e = (0 \<in> set (handle_ids e)) \<and> threads e \<noteq> [])"

lemma handle_find:
  assumes "handles_ok e" "host_thread p e = Some h"
  shows "find_handle (ho_thread_id h) e = Some p"
proof -
  have "(p, h) \<in> set xs \<Longrightarrow> distinct (map (\<lambda>x. ho_thread_id (snd x)) xs) \<Longrightarrow>
      map_option fst (List.find (\<lambda>(q, g). ho_thread_id g = ho_thread_id h) xs) = Some p" for xs
  proof (induction xs)
    case (Cons x xs)
    show ?case
    proof (cases "x = (p, h)")
      case False
      then have m: "(p, h) \<in> set xs" using Cons.prems by simp
      have "ho_thread_id (snd x) \<noteq> ho_thread_id h"
        using Cons.prems(2) m by (force simp: image_iff)
      then show ?thesis using Cons m by (simp add: case_prod_beta)
    qed simp
  qed simp
  then show ?thesis using assms map_of_SomeD
    unfolding handles_ok_def handle_ids_def host_thread_def find_handle_def by metis
qed

lemma handle_unique:
  assumes "handles_ok e" "host_thread p e = Some h" "host_thread q e = Some g" "ho_thread_id g = ho_thread_id h"
  shows "q = p"
  using handle_find [OF assms(1,2)] handle_find [OF assms(1,3)] assms(4) by simp

lemma handle_bound: "handles_ok e \<Longrightarrow> host_thread p e = Some h \<Longrightarrow> ho_thread_id h < length (threads e)"
  unfolding handles_ok_def handle_ids_def host_thread_def using map_of_SomeD by fastforce

text \<open>Changing an object but not its thread keeps the table.\<close>

lemma put_host_thread_simps [simp]:
  "threads (put_host_thread p h e) = threads e" "current_thread (put_host_thread p h e) = current_thread e"
  "yielder (put_host_thread p h e) = yielder e" "e_mem (put_host_thread p h e) = e_mem e"
  "main_thread_object_created (put_host_thread p h e) = main_thread_object_created e"
  "block_of t (put_host_thread p h e) = block_of t e" "thread_at t (put_host_thread p h e) = thread_at t e"
  by (simp_all add: put_host_thread_def block_of_def thread_at_def)

lemma host_thread_put:
  "host_thread q (put_host_thread p h e) =
     (if q = p then map_option (\<lambda>_. h) (host_thread p e) else host_thread q e)"
proof -
  have "map_of (map (\<lambda>(q, g). if q = p then (q, h) else (q, g)) xs) q =
      (if q = p then map_option (\<lambda>_. h) (map_of xs p) else map_of xs q)" for xs :: "(nat \<times> thread_host_object) list"
    by (induction xs) auto
  then show ?thesis by (simp add: host_thread_def put_host_thread_def)
qed

lemma put_keeps_table:
  assumes "handles_ok e" "host_thread p e = Some g" "ho_thread_id h = ho_thread_id g"
  shows "handles_ok (put_host_thread p h e)"
proof -
  let ?upd = "\<lambda>(q, g). if q = p then (q, h) else (q, g)"
  have d: "distinct (map fst (host_threads e))" using assms(1) by (simp add: handles_ok_def)
  have "ho_thread_id (snd (?upd x)) = ho_thread_id (snd x)" if "x \<in> set (host_threads e)" for x
  proof (cases "fst x = p")
    case True
    then have "map_of (host_threads e) p = Some (snd x)"
      using map_of_is_SomeI [OF d, of "fst x" "snd x"] that by (metis prod.collapse)
    then show ?thesis using assms(2,3) True by (simp add: host_thread_def split_beta)
  qed (simp add: split_beta)
  then have "handle_ids (put_host_thread p h e) = handle_ids e"
    by (simp add: handle_ids_def put_host_thread_def)
  moreover have "map fst (host_threads (put_host_thread p h e)) = map fst (host_threads e)"
    by (simp add: put_host_thread_def split_beta)
  ultimately show ?thesis using assms(1) by (simp add: handles_ok_def)
qed

lemma new_handle_spec:
  assumes "new_handle h e = Some (p, e1)"
  shows "\<exists>m. e1 = e\<lparr> e_mem := m, host_threads := host_threads e @ [(p, h)] \<rparr>" "host_thread p e = None"
  using assms by (auto simp: new_handle_def host_thread_def bind_eq_Some_conv split: if_splits)

lemma new_handle_fields:
  assumes "new_handle h e = Some (p, e1)"
  shows "host_threads e1 = host_threads e @ [(p, h)]" "threads e1 = threads e" "current_thread e1 = current_thread e"
    "main_thread_object_created e1 = main_thread_object_created e" "yielder e1 = yielder e" "block_of t e1 = block_of t e"
    "host_thread q e1 = (if q = p then Some h else host_thread q e)"
  using new_handle_spec [OF assms] by (auto simp: block_of_def host_thread_def map_add_def split: option.splits)

lemma new_handle_table:
  assumes "handles_ok e" "new_handle h e = Some (p, e1)" "ho_thread_id h \<notin> set (handle_ids e)"
    and "ho_thread_id h < length (threads e)" "ho_thread_id h \<noteq> 0"
  shows "handles_ok e1"
proof -
  have "p \<notin> fst ` set (host_threads e)"
    using new_handle_spec(2) [OF assms(2)] by (simp add: host_thread_def map_of_eq_None_iff)
  then show ?thesis using assms new_handle_fields [OF assms(2)] by (auto simp: handles_ok_def handle_ids_def)
qed

lemma self_table:
  assumes "handles_ok e" "pthread_self e = Some (p, e1)"
  shows "handles_ok e1" "host_thread p e1 \<noteq> None" "ho_thread_id (the (host_thread p e1)) = current_thread e"
    "threads e1 = threads e" "current_thread e1 = current_thread e" "yielder e1 = yielder e"
    "host_thread q e \<noteq> None \<Longrightarrow> host_thread q e1 = host_thread q e"
proof -
  have found: "find_handle (current_thread e) e1 = Some p" and
    e1: "e1 = e \<or> (\<exists>q. current_thread e = 0 \<and> \<not> main_thread_object_created e \<and>
       new_handle (new_host_object 0 DEFAULT_ATTR) (e\<lparr> main_thread_object_created := True \<rparr>) = Some (q, e1))"
    using assms(2) by (auto simp: pthread_self_def bind_eq_Some_conv split: if_splits)
  then have "handles_ok e1 \<and> threads e1 = threads e \<and> current_thread e1 = current_thread e \<and> yielder e1 = yielder e \<and>
      (host_thread q e \<noteq> None \<longrightarrow> host_thread q e1 = host_thread q e)"
  proof (elim disjE exE conjE)
    fix r assume n: "\<not> main_thread_object_created e"
      "new_handle (new_host_object 0 DEFAULT_ATTR) (e\<lparr> main_thread_object_created := True \<rparr>) = Some (r, e1)"
    note f = new_handle_fields [OF n(2)] and s = new_handle_spec(2) [OF n(2)]
    have s1: "host_thread r e = None" using s by (simp add: host_thread_def)
    have "r \<notin> fst ` set (host_threads e)" using s1 by (simp add: host_thread_def map_of_eq_None_iff)
    then have "handles_ok e1" using assms(1) n(1) f by (auto simp: handles_ok_def handle_ids_def new_host_object_def)
    then show ?thesis using f s1 by (auto simp: host_thread_def)
  qed (use assms(1) in simp)
  then show "handles_ok e1" "threads e1 = threads e" "current_thread e1 = current_thread e" "yielder e1 = yielder e"
    "host_thread q e \<noteq> None \<Longrightarrow> host_thread q e1 = host_thread q e" by blast+
  then have d: "distinct (map fst (host_threads e1))" by (simp add: handles_ok_def)
  obtain h where h: "(p, h) \<in> set (host_threads e1)" "ho_thread_id h = current_thread e"
    using found by (auto simp: find_handle_def find_Some_iff set_conv_nth split: prod.splits) (metis prod.collapse)
  have "host_thread p e1 = Some h" using map_of_is_SomeI [OF d h(1)] by (simp add: host_thread_def)
  then show "host_thread p e1 \<noteq> None" "ho_thread_id (the (host_thread p e1)) = current_thread e" using h(2) by simp_all
qed

section \<open>Creating a thread\<close>

lemma new_thread_fields:
  assumes "new_thread n e = Some (t, e1)"
  shows "t = length (threads e)" "length (threads e1) = Suc (length (threads e))" "host_threads e1 = host_threads e"
    "main_thread_object_created e1 = main_thread_object_created e" "current_thread e1 = current_thread e"
    "yielder e1 = yielder e" "block_of t e1 = NotBlocked" "active (threads e1 ! t)"
    "u < length (threads e) \<Longrightarrow> threads e1 ! u = threads e ! u"
  using assms by (auto simp: new_thread_def bind_eq_Some_conv Let_def block_of_def nth_append split: if_splits)

text \<open>What \<open>pthread_create\<close> does once it has its attributes.\<close>

lemma created:
  assumes ok: "handles_ok e"
    and t: "new_thread n e = Some (t, e1)" and h: "new_handle (new_host_object t a) e1 = Some (p, e2)"
  shows "handles_ok e2" "host_thread p e2 = Some (new_host_object (length (threads e)) a)" "host_thread p e = None"
    "q \<noteq> p \<Longrightarrow> host_thread q e2 = host_thread q e" "length (threads e2) = Suc (length (threads e))"
proof -
  note tf = new_thread_fields [OF t] and hf = new_handle_fields [OF h] and hs = new_handle_spec(2) [OF h]
  have ids: "handle_ids e1 = handle_ids e" using tf(3) by (simp add: handle_ids_def)
  have ok1: "handles_ok e1" using ok tf ids by (auto simp: handles_ok_def intro: less_SucI)
  have fresh: "t \<notin> set (handle_ids e1)" using ok tf(1) ids by (auto simp: handles_ok_def)
  have "t \<noteq> 0" using ok tf(1) by (simp add: handles_ok_def)
  then show "handles_ok e2"
    by (intro new_handle_table [OF ok1 h]) (use fresh tf in \<open>simp_all add: new_host_object_def\<close>)
  show "host_thread p e2 = Some (new_host_object (length (threads e)) a)" using hf(7) tf(1) by simp
  show "host_thread p e = None" using hs tf(3) by (simp add: host_thread_def)
  show "q \<noteq> p \<Longrightarrow> host_thread q e2 = host_thread q e" using hf(7) tf(3) by (simp add: host_thread_def)
  show "length (threads e2) = Suc (length (threads e))" using hf(2) tf(2) by simp
qed

lemma create_cases:
  assumes "pthread_create tp attr e = Some (0, e1)"
  obtains a t e0 p e2 m where "new_thread (stacksize a) e = Some (t, e0)" "new_handle (new_host_object t a) e0 = Some (p, e2)"
    "write_u32 (e_mem e2) tp p = Some m" "e1 = e2\<lparr> e_mem := m \<rparr>"
    "attr = 0 \<and> a = DEFAULT_ATTR \<or> attr \<noteq> 0 \<and> read_attr (e_mem e) attr = Some a"
  using assms
  by (auto simp: pthread_create_def check_magic_def bind_eq_Some_conv EINVAL_def Let_def split: if_splits)

text \<open>Allocating and filling a small object always works; without room it lands in the null page.\<close>

lemma alloc_and_write_total:
  assumes ok: "mem_ok m" and len: "0 < length bs" "length bs \<le> 4096"
  shows "\<exists>p m1. alloc_and_write bs m = Some (p, m1) \<and> mem_ok m1 \<and> p < 4294967296 \<and>
    null_segment_size m1 = null_segment_size m"
proof -
  have n: "length bs < 4294967296" using len by simp
  from mem_alloc_facts [OF ok n] obtain p m0 where a: "mem_alloc (length bs) m = Some (p, m0)" "mem_ok m0"
      "null_segment_size m0 = null_segment_size m"
    and f: "p \<noteq> 0 \<Longrightarrow> fresh_block (heap m) p (length bs) (heap m0)" by force
  have z: "0 < null_segment_size m0"
    using a(2) alloc_wf_used [of "heap m0" 0] by (auto simp: mem_ok_def alloc_inv_def span_ok_def)
  show ?thesis
  proof (cases "p = 0")
    case True
    have "bytes_at_mut m0 0 (length bs) = Sink 0 (length bs)"
      using z len by (simp add: bytes_at_mut_def PAGE_SIZE_def)
    then have "alloc_and_write bs m = Some (0, m0\<lparr> null_write_sink := put_bytes 0 bs (null_write_sink m0) \<rparr>)"
      using a(1) True len by (simp add: alloc_and_write_def mem_write_def)
    then show ?thesis using a(2,3) by (auto simp: mem_ok_def)
  next
    case False
    then obtain k where k: "length bs \<le> k" "used_view (heap m0) p = Some k"
      using f unfolding fresh_block_def by auto
    note u = used_block [OF a(2) k(2) False]
    have "ordinary m0 p (length bs)" using u k(1) by (simp add: ordinary_def)
    then have "mem_write m0 p bs = Some (m0\<lparr> mbytes := put_bytes p bs (mbytes m0) \<rparr>)"
      using len by (intro write_ordinary) auto
    moreover have "p < 4294967296" using u(3) k(1) len by linarith
    ultimately show ?thesis using a by (auto simp: alloc_and_write_def mem_ok_def)
  qed
qed

lemma alloc_and_write_ok:
  assumes "alloc_and_write bs m = Some (p, m1)" "mem_ok m" "0 < length bs" "length bs \<le> 4096"
  shows "mem_ok m1" "p < 4294967296" "null_segment_size m1 = null_segment_size m"
  using alloc_and_write_total [OF assms(2-4)] assms(1) by auto

lemma new_thread_mem:
  assumes "new_thread n e = Some (t, e1)" "mem_ok (e_mem e)" "n < 4294967296"
  shows "mem_ok (e_mem e1)" "null_segment_size (e_mem e1) = null_segment_size (e_mem e)"
  using assms(1) mem_alloc_facts [OF assms(2,3)]
  by (auto simp: new_thread_def bind_eq_Some_conv Let_def split: if_splits)

lemma new_handle_mem:
  assumes "new_handle h e = Some (p, e1)" "mem_ok (e_mem e)"
  shows "mem_ok (e_mem e1)" "p < 4294967296" "null_segment_size (e_mem e1) = null_segment_size (e_mem e)"
  using assms(1) alloc_and_write_ok [OF _ assms(2), of "to_le_bytes 4 MAGIC_THREAD" p]
  by (auto simp: new_handle_def bind_eq_Some_conv split: if_splits)

lemma attr_stack: "length bs = 40 \<Longrightarrow> stacksize (attr_of_bytes bs) < 4294967296"
  using from_le_bytes_bound [of "field 8 4 bs"] by (simp add: attr_of_bytes_def field_def)

text \<open>
  C40: a created thread knows its own handle.  \<open>pthread_create\<close> stores a handle that named no thread
  before, \<open>pthread_self\<close> in the new thread answers the same handle, the handles of all other
  threads are as before, and the table keeps one handle per thread.
\<close>

theorem created_thread_identity:
  assumes "handles_ok e" "mem_ok (e_mem e)" "ordinary (e_mem e) tp 4" "pthread_create tp attr e = Some (0, e1)"
  defines "t \<equiv> length (threads e)"
  shows "handles_ok e1 \<and> (\<forall>q. host_thread q e \<noteq> None \<longrightarrow> host_thread q e1 = host_thread q e) \<and>
    (\<exists>p. read_u32 (e_mem e1) tp = Some p \<and> host_thread p e = None \<and>
       map_option ho_thread_id (host_thread p e1) = Some t \<and>
       pthread_self (e1\<lparr> current_thread := t \<rparr>) = Some (p, e1\<lparr> current_thread := t \<rparr>))"
proof -
  from assms(4) obtain a u e0 p e2 m where c: "new_thread (stacksize a) e = Some (u, e0)"
    "new_handle (new_host_object u a) e0 = Some (p, e2)" "write_u32 (e_mem e2) tp p = Some m" "e1 = e2\<lparr> e_mem := m \<rparr>"
    "attr = 0 \<and> a = DEFAULT_ATTR \<or> attr \<noteq> 0 \<and> read_attr (e_mem e) attr = Some a"
    by (rule create_cases)
  have "stacksize a < 4294967296"
    using c(5) attr_stack mem_read_length
    by (auto simp: DEFAULT_ATTR_def SECONDARY_THREAD_DEFAULT_STACK_SIZE_def read_attr_def)
  note m0 = new_thread_mem [OF c(1) assms(2) this] and new = created [OF assms(1) c(1,2)]
  note m2 = new_handle_mem [OF c(2) m0(1)]
  have tp: "ordinary (e_mem e2) tp 4" using assms(3) m0(2) m2(3) by (simp add: ordinary_def)
  then have "m = (e_mem e2)\<lparr> mbytes := put_bytes tp (to_le_bytes 4 p) (mbytes (e_mem e2)) \<rparr>"
    using c(3) write_ordinary [of "e_mem e2" tp "to_le_bytes 4 p"] by (simp add: write_u32_def flip: length_greater_0_conv)
  then have rd: "read_u32 (e_mem e1) tp = Some p"
    using read_prefix [of "e_mem e2" tp "to_le_bytes 4 p" 4] tp m2(2) c(4) by (simp add: read_u32_def from_to_le)
  have same: "host_thread q e1 = host_thread q e2" for q using c(4) by (simp add: host_thread_def)
  have ok: "handles_ok e1" using new(1) c(4) by (simp add: handles_ok_def handle_ids_def)
  have h: "host_thread p e1 = Some (new_host_object t a)" using new(2) same by (simp add: t_def)
  have "t \<noteq> 0" using assms(1) by (simp add: handles_ok_def t_def)
  moreover have "find_handle t (e1\<lparr> current_thread := t \<rparr>) = Some p"
    using handle_find [OF ok h] by (simp add: find_handle_def new_host_object_def)
  ultimately have "pthread_self (e1\<lparr> current_thread := t \<rparr>) = Some (p, e1\<lparr> current_thread := t \<rparr>)"
    by (simp add: pthread_self_def)
  moreover have "host_thread q e1 = host_thread q e" if "host_thread q e \<noteq> None" for q
    using that new(3,4) same by (cases "q = p") auto
  ultimately show ?thesis using ok rd new(3) h by (simp add: new_host_object_def)
qed

lemma sample_alloc:
  assumes "n < 4294967296"
  shows "\<exists>p m. mem_alloc n (sample bs) = Some (p, m) \<and> (p = 0 \<or> p = 4096)"
proof -
  let ?a = "heap (sample bs)"
  obtain m0 where m0: "mem_boot 4096 = Some m0" "free_view (heap m0) = [4096 \<mapsto> 4293914624]"
    using mem_boot_spec [of 4096] by auto
  then have fv: "free_view ?a = [4096 \<mapsto> 4293914624]" by (simp add: sample_def)
  have "alloc_inv ?a" using sample_facts(3) by (simp add: mem_ok_def)
  from allocator_alloc_cases [OF alloc_inv_parts(1) [OF this] assms]
  obtain b a' where "allocator_alloc n ?a = Some (b, a')" "b = 0 \<or> (\<exists>r. alloc_effect r ?a b a')" by blast
  moreover have "b = 4096" if "alloc_effect r ?a b a'" for r
  proof -
    have "free_view ?a b \<noteq> None" using that unfolding alloc_effect_def by blast
    then show ?thesis using fv by (simp split: if_splits)
  qed
  ultimately show ?thesis by (auto simp: mem_alloc_def Let_def)
qed

lemma created_thread_identity_witness:
  "\<exists>e1 p. pthread_create 8192 0 (running []) = Some (0, e1) \<and> pthread_self (e1\<lparr> current_thread := 1 \<rparr>) =
     Some (p, e1\<lparr> current_thread := 1 \<rparr>)"
proof -
  let ?e = "running []" and ?n = "524288 :: nat"
  have ok: "handles_ok ?e" "mem_ok (e_mem ?e)" "ordinary (e_mem ?e) 8192 4"
    by (simp_all add: sample_facts) (simp add: handles_ok_def handle_ids_def running_def env_new_def)
  obtain q m where q: "mem_alloc ?n (sample []) = Some (q, m)" "q = 0 \<or> q = 4096"
    using sample_alloc [of ?n "[]"] by auto
  then have "wadd32 q ?n mod 4 = 0" by (auto simp: wadd32_def)
  then obtain t e0 where t: "new_thread ?n ?e = Some (t, e0)" using q(1) by (simp add: new_thread_def Let_def)
  note m0 = new_thread_mem [OF t ok(2)] and f0 = new_thread_fields [OF t]
  from alloc_and_write_total [OF m0(1), of "to_le_bytes 4 MAGIC_THREAD"]
  obtain p m1 where p: "alloc_and_write (to_le_bytes 4 MAGIC_THREAD) (e_mem e0) = Some (p, m1)"
    "null_segment_size m1 = null_segment_size (e_mem e0)" by auto
  have "host_threads e0 = []" using f0(3) by (simp add: running_def env_new_def)
  then have h: "new_handle (new_host_object t DEFAULT_ATTR) e0 =
      Some (p, e0\<lparr> e_mem := m1, host_threads := [(p, new_host_object t DEFAULT_ATTR)] \<rparr>)"
    using p by (simp add: new_handle_def)
  have "ordinary m1 8192 4" using ok(3) m0(2) p(2) by (simp add: ordinary_def)
  then have "\<exists>m2. write_u32 m1 8192 p = Some m2"
    using write_ordinary [of m1 8192 "to_le_bytes 4 p"] by (simp add: write_u32_def flip: length_greater_0_conv)
  then have "\<exists>e1. pthread_create 8192 0 ?e = Some (0, e1)"
    using t h by (auto simp: pthread_create_def DEFAULT_ATTR_def SECONDARY_THREAD_DEFAULT_STACK_SIZE_def)
  then obtain e1 where e1: "pthread_create 8192 0 ?e = Some (0, e1)" by blast
  from created_thread_identity [OF ok e1] e1 show ?thesis by auto
qed

section \<open>Joining\<close>

text \<open>
  joining returns what the joined thread returned.  The caller blocks, and no pass picks it
  while the other thread runs; once that has finished with a value, the next pass stores the value
  where the caller asked for it and lets the call return 0.  In between, the joined thread cannot
  join its joiner: it is told \<open>EDEADLK\<close>, or the host panics if the joiner is the main thread.
\<close>

theorem join_returns_value:
  assumes ok: "handles_ok e" and y: "yielder e" and t: "current_thread e < length (threads e)"
      "block_of (current_thread e) e = NotBlocked"
    and self: "host_thread me e = Some g" "ho_thread_id g = current_thread e"
    and other: "host_thread thread e = Some h" "ho_thread_id h \<noteq> 0" "ho_thread_id h \<noteq> current_thread e"
      "detachstate (ho_attr h) \<noteq> PTHREAD_CREATE_DETACHED" "joined_by g \<noteq> Some (ho_thread_id h)"
    and run: "active (threads e ! ho_thread_id h)"
    and out: "ordinary (e_mem e) retval 4" "0 < retval" "v < 4294967296"
  shows "\<exists>e1 k. pthread_join thread retval e = Some (Blocked e1 k) \<and>
    try_candidate now wall (current_thread e) na e1 = Some (Passed na e1) \<and>
    (let e2 = e1\<lparr> current_thread := ho_thread_id h, yielder := True \<rparr> in
       pthread_join me r e2 = (if current_thread e = 0 then None else Some (Done EDEADLK e2))) \<and>
    (\<exists>e2 e3 e4. finish_thread v (e1\<lparr> current_thread := ho_thread_id h \<rparr>) = Some e2 \<and>
       try_candidate now wall (current_thread e) na e2 = Some (Picked e3) \<and>
       k (e3\<lparr> current_thread := current_thread e \<rparr>) = Some (0, e4) \<and> read_u32 (e_mem e4) retval = Some v)"
proof -
  let ?t = "current_thread e" and ?j = "ho_thread_id h"
  let ?h = "h\<lparr> joined_by := Some (current_thread e) \<rparr>"
  let ?e0 = "put_host_thread thread ?h e"
  let ?e1 = "set_block ?t (Joining ?j retval) ?e0\<lparr> yielder := False \<rparr>"
  let ?k = "\<lambda>e1. do { th1 \<leftarrow> thread_at (current_thread e1) e1;
                if is_blocked th1 then None else Some (0 :: int, e1\<lparr> yielder := True \<rparr>) }"
  have j: "?j < length (threads e)" using handle_bound [OF ok other(1)] .
  have "ho_thread_id g \<in> set (handle_ids e)"
    using self(1) map_of_SomeD [of "host_threads e" me g] by (force simp: handle_ids_def host_thread_def)
  then have created: "?t = 0 \<Longrightarrow> main_thread_object_created e" using ok self(2) by (simp add: handles_ok_def)
  have "find_handle ?t e = Some me" using handle_find [OF ok self(1)] self(2) by simp
  then have ps: "pthread_self e = Some (me, e)" using created by (auto simp: pthread_self_def)
  have "yield_thread (Joining ?j retval) ?e0 (\<lambda>e2. Some (0, e2)) = Some (Blocked ?e1 ?k)"
    using t y by (simp add: yield_thread_def thread_at_def is_blocked_def block_of_def put_host_thread_def)
  then have join: "pthread_join thread retval e = Some (Blocked ?e1 ?k)"
    using ps self(1) other by (simp add: pthread_join_def join_with_thread_def Let_def)
  have blk: "block_of ?t ?e1 = Joining ?j retval"
    using t(1) by (simp add: block_of_def set_block_def)
  have "active (threads ?e1 ! ?j)" "?j < length (threads ?e1)" using run j by simp_all
  then have passed: "try_candidate now wall ?t na ?e1 = Some (Passed na ?e1)"
    using blk by (simp add: try_candidate_def try_join_def thread_at_def)
  have ok0: "handles_ok ?e0" using put_keeps_table [OF ok other(1), of ?h] by simp
  have thr: "host_thread thread ?e0 = Some ?h" using other(1) by (simp add: host_thread_put)
  have meh: "host_thread me ?e0 = Some g"
    using self other(3) by (cases "me = thread") (use other(1) in \<open>auto simp: host_thread_put\<close>)
  let ?e5 = "?e1\<lparr> current_thread := ?j, yielder := True \<rparr>"
  have ht: "host_threads ?e5 = host_threads ?e0" by simp
  have "find_handle ?j ?e5 = Some thread" using handle_find [OF ok0 thr] by (simp add: find_handle_def)
  then have "pthread_self ?e5 = Some (thread, ?e5)" using other(2) by (simp add: pthread_self_def)
  moreover have "host_thread me ?e5 = Some g" "host_thread thread ?e5 = Some ?h"
    using meh thr by (simp_all add: host_thread_def)
  ultimately have refused: "pthread_join me r ?e5 = (if ?t = 0 then None else Some (Done EDEADLK ?e5))"
    using self(2) other(3) by (simp add: pthread_join_def Let_def)
  let ?e2 = "?e1\<lparr> current_thread := ?j, threads := (threads ?e1)[?j := (threads ?e1 ! ?j)\<lparr> return_value := Some v, active := False \<rparr>] \<rparr>"
  have fin: "finish_thread v (?e1\<lparr> current_thread := ?j \<rparr>) = Some ?e2"
    using j by (simp add: finish_thread_def thread_at_def)
  let ?m = "(e_mem e)\<lparr> mbytes := put_bytes retval (to_le_bytes 4 v) (mbytes (e_mem e)) \<rparr>"
  have wr: "mem_write (e_mem e) retval (to_le_bytes 4 v) = Some ?m"
    using write_ordinary [of "e_mem e" retval "to_le_bytes 4 v"] out(1) by (simp flip: length_greater_0_conv)
  have blk2: "block_of ?t ?e2 = Joining ?j retval"
    using blk other(3) by (simp add: block_of_def)
  have th2: "thread_at ?j ?e2 = Some ((threads ?e1 ! ?j)\<lparr> return_value := Some v, active := False \<rparr>)"
    using j by (simp add: thread_at_def)
  let ?e3 = "set_block ?t NotBlocked (?e2\<lparr> e_mem := ?m \<rparr>)"
  have pick: "try_candidate now wall ?t na ?e2 = Some (Picked ?e3)"
    using blk2 th2 wr out(2) by (simp add: try_candidate_def try_join_def)
  have "?t < length (threads ?e3)" "block_of ?t ?e3 = NotBlocked"
    using t(1) block_of_set_block [of ?t "?e2\<lparr> e_mem := ?m \<rparr>" ?t NotBlocked] by simp_all
  then have fin2: "?k (?e3\<lparr> current_thread := ?t \<rparr>) = Some (0, ?e3\<lparr> current_thread := ?t, yielder := True \<rparr>)"
    by (simp add: thread_at_def is_blocked_def block_of_def)
  have "read_u32 (e_mem (?e3\<lparr> current_thread := ?t, yielder := True \<rparr>)) retval = Some v"
    using read_prefix [of "e_mem e" retval "to_le_bytes 4 v" 4] out by (simp add: read_u32_def from_to_le)
  then show ?thesis using join passed refused fin pick fin2 unfolding Let_def by blast
qed

text \<open>The main thread and a worker, with the handles 16 and 32.\<close>

definition main_and_worker :: env where
  "main_and_worker = (running [])\<lparr>
     threads := threads (running []) @ [\<lparr> active = True, blocked_by = NotBlocked, return_value = None, stack = None \<rparr>],
     host_threads := [(16, new_host_object 0 DEFAULT_ATTR), (32, new_host_object 1 DEFAULT_ATTR)],
     main_thread_object_created := True \<rparr>"

lemma join_returns_value_witness:
  "\<exists>e1 k e2 e3 e4. pthread_join 32 8192 main_and_worker = Some (Blocked e1 k) \<and>
     finish_thread 7 (e1\<lparr> current_thread := 1 \<rparr>) = Some e2 \<and> try_candidate 0 0 0 None e2 = Some (Picked e3) \<and>
     k (e3\<lparr> current_thread := 0 \<rparr>) = Some (0, e4) \<and> read_u32 (e_mem e4) 8192 = Some 7"
proof -
  let ?e = main_and_worker and ?g = "new_host_object 0 DEFAULT_ATTR" and ?h = "new_host_object 1 DEFAULT_ATTR"
  have e: "handles_ok ?e" "yielder ?e" "current_thread ?e < length (threads ?e)" "block_of (current_thread ?e) ?e = NotBlocked"
    "host_thread 16 ?e = Some ?g" "ho_thread_id ?g = current_thread ?e"
    "host_thread 32 ?e = Some ?h" "ho_thread_id ?h \<noteq> 0" "ho_thread_id ?h \<noteq> current_thread ?e"
    "detachstate (ho_attr ?h) \<noteq> PTHREAD_CREATE_DETACHED" "joined_by ?g \<noteq> Some (ho_thread_id ?h)"
    "active (threads ?e ! ho_thread_id ?h)" "ordinary (e_mem ?e) 8192 4" "0 < (8192 :: nat)" "7 < (4294967296 :: nat)"
    by (simp_all add: main_and_worker_def handles_ok_def handle_ids_def new_host_object_def host_thread_def
      DEFAULT_ATTR_def PTHREAD_CREATE_JOINABLE_def PTHREAD_CREATE_DETACHED_def running_def env_new_def block_of_def)
  show ?thesis using join_returns_value [OF e, of 0 0 None 0] e(6) by (simp add: new_host_object_def) blast
qed

end
