(* ===== verification/Load_Order.thy ===== *)
theory Load_Order
  imports Utf8
begin

text \<open>
  The order in which the loaded binaries are initialised: \<open>generate_binary_load_order\<close> of
  \<open>src/environment.rs\<close>, Kahn's topological sort.  The iteration order of a Rust \<open>HashMap\<close> is not
  specified, so it is a parameter: the list \<open>order\<close> of the keys of the in-degree map, the same
  for both iterations because the keys do not change in between.
\<close>

record binary_node =
  bn_name :: "u8 list"
  bn_dependencies :: "u8 list list"

section \<open>The graph\<close>

definition node_to_index :: "binary_node list \<Rightarrow> u8 list \<Rightarrow> nat option" where
  "node_to_index graph = map_of (rev (zip (map bn_name graph) [0..<length graph]))"

definition strip_usr_lib :: "u8 list \<Rightarrow> u8 list" where
  "strip_usr_lib path =
     (let prefix = bytes_of ''/usr/lib/''
      in if take (length prefix) path = prefix then drop (length prefix) path else path)"

type_synonym degrees = "nat \<Rightarrow> int option"
type_synonym dependents = "nat \<Rightarrow> nat list"

definition add_dependency ::
    "(u8 list \<Rightarrow> nat option) \<Rightarrow> nat \<Rightarrow> u8 list \<Rightarrow> dependents \<times> degrees \<Rightarrow> dependents \<times> degrees" where
  "add_dependency idx bin_index path = (\<lambda>(deps, degs).
     (case idx (strip_usr_lib path) of
        None \<Rightarrow> (deps, degs)
      | Some dylib_index \<Rightarrow>
          (deps(dylib_index := deps dylib_index @ [bin_index]),
           degs(bin_index := map_option (\<lambda>k. k + 1) (degs bin_index)))))"

definition add_node ::
    "(u8 list \<Rightarrow> nat option) \<Rightarrow> binary_node \<Rightarrow> dependents \<times> degrees \<Rightarrow> (dependents \<times> degrees) option" where
  "add_node idx node st =
     (case idx (bn_name node) of
        None \<Rightarrow> None
      | Some bin_index \<Rightarrow> Some (fold (add_dependency idx bin_index) (bn_dependencies node) st))"

fun add_nodes ::
    "(u8 list \<Rightarrow> nat option) \<Rightarrow> binary_node list \<Rightarrow> dependents \<times> degrees \<Rightarrow> (dependents \<times> degrees) option" where
  "add_nodes idx [] st = Some st"
| "add_nodes idx (node # nodes) st = Option.bind (add_node idx node st) (add_nodes idx nodes)"

definition initial_degrees :: "binary_node list \<Rightarrow> degrees" where
  "initial_degrees graph = (\<lambda>i. if i \<in> ran (node_to_index graph) then Some 0 else None)"

section \<open>The sort\<close>

fun relax :: "nat list \<Rightarrow> degrees \<Rightarrow> nat list \<Rightarrow> degrees \<times> nat list" where
  "relax [] degs leaf_nodes = (degs, leaf_nodes)"
| "relax (d # ds) degs leaf_nodes =
     (case degs d of
        None \<Rightarrow> relax ds degs leaf_nodes
      | Some k \<Rightarrow> relax ds (degs(d \<mapsto> k - 1)) (if k - 1 = 0 then leaf_nodes @ [d] else leaf_nodes))"

partial_function (option) kahn ::
    "dependents \<Rightarrow> nat list \<Rightarrow> nat list \<Rightarrow> degrees \<Rightarrow> (nat list \<times> degrees) option" where
  "kahn deps sorted_indices leaf_nodes degs =
     (case leaf_nodes of
        [] \<Rightarrow> Some (sorted_indices, degs)
      | node # rest \<Rightarrow>
          (case relax (deps node) degs rest of
             (degs1, leaf_nodes1) \<Rightarrow> kahn deps (sorted_indices @ [node]) leaf_nodes1 degs1))"

text \<open>\<open>Inl\<close> is the error, with the index it names; a missing name mapping is one as well.\<close>

datatype load_error = NoMapping | CycleWith nat

definition generate_binary_load_order ::
    "nat list \<Rightarrow> binary_node list \<Rightarrow> (load_error + nat list) option" where
  "generate_binary_load_order order graph =
     (case add_nodes (node_to_index graph) graph (\<lambda>_. [], initial_degrees graph) of
        None \<Rightarrow> Some (Inl NoMapping)
      | Some (deps, degs) \<Rightarrow> do {
          (sorted_indices, degs1) \<leftarrow> kahn deps [] (filter (\<lambda>i. degs i = Some 0) order) degs;
          (case List.find (\<lambda>i. \<exists>k. degs1 i = Some k \<and> 0 < k) order of
             Some index \<Rightarrow> Some (Inl (CycleWith index))
           | None \<Rightarrow> Some (Inr sorted_indices)) })"

section \<open>Dependencies between indices\<close>

text \<open>The pairs of a library and a binary that needs it, as often as the binary names it.\<close>

definition node_edges :: "(u8 list \<Rightarrow> nat option) \<Rightarrow> nat \<Rightarrow> u8 list list \<Rightarrow> (nat \<times> nat) list" where
  "node_edges idx b paths =
     concat (map (\<lambda>path. case idx (strip_usr_lib path) of None \<Rightarrow> [] | Some d \<Rightarrow> [(d, b)]) paths)"

definition edges_of :: "(u8 list \<Rightarrow> nat option) \<Rightarrow> binary_node list \<Rightarrow> (nat \<times> nat) list" where
  "edges_of idx nodes =
     concat (map (\<lambda>n. case idx (bn_name n) of None \<Rightarrow> [] | Some b \<Rightarrow> node_edges idx b (bn_dependencies n)) nodes)"

abbreviation dependency_edges :: "binary_node list \<Rightarrow> (nat \<times> nat) list" where
  "dependency_edges graph \<equiv> edges_of (node_to_index graph) graph"

definition binaries :: "binary_node list \<Rightarrow> nat set" where
  "binaries graph = ran (node_to_index graph)"

lemma binaries_bound: "binaries graph \<subseteq> {..<length graph}"
proof
  fix i assume "i \<in> binaries graph"
  then obtain name where "node_to_index graph name = Some i" by (auto simp: binaries_def ran_def)
  then have "(name, i) \<in> set (zip (map bn_name graph) [0..<length graph])"
    unfolding node_to_index_def by (auto dest: map_of_SomeD)
  then show "i \<in> {..<length graph}" by (auto dest: set_zip_rightD)
qed

lemma named: "n \<in> set graph \<Longrightarrow> node_to_index graph (bn_name n) \<noteq> None"
proof -
  assume "n \<in> set graph"
  then have "bn_name n \<in> fst ` set (zip (map bn_name graph) [0..<length graph])"
    by (simp add: set_map [symmetric] del: set_map) simp
  then show ?thesis unfolding node_to_index_def by (simp add: map_of_eq_None_iff)
qed

text \<open>What building the maps means: the dependents and the in-degrees of the edges seen so far.\<close>

definition built :: "degrees \<Rightarrow> (nat \<times> nat) list \<Rightarrow> dependents \<times> degrees" where
  "built degs0 es = (\<lambda>d. map snd (filter (\<lambda>x. fst x = d) es),
     \<lambda>b. map_option (\<lambda>k. k + int (count_list (map snd es) b)) (degs0 b))"

lemma add_dependency_built:
  "add_dependency idx b path (built degs0 es) =
     built degs0 (es @ (case idx (strip_usr_lib path) of None \<Rightarrow> [] | Some d \<Rightarrow> [(d, b)]))"
  by (auto simp: add_dependency_def built_def fun_eq_iff option.map_comp o_def add.assoc split: option.splits)

lemma add_node_built:
  "idx (bn_name n) = Some b \<Longrightarrow>
   add_node idx n (built degs0 es) = Some (built degs0 (es @ node_edges idx b (bn_dependencies n)))"
proof -
  have "fold (add_dependency idx b) paths (built degs0 es) = built degs0 (es @ node_edges idx b paths)" for paths es
    by (induction paths arbitrary: es) (simp_all add: node_edges_def add_dependency_built)
  then show "idx (bn_name n) = Some b \<Longrightarrow> ?thesis" by (simp add: add_node_def)
qed

lemma add_nodes_built:
  "\<forall>n \<in> set nodes. idx (bn_name n) \<noteq> None \<Longrightarrow>
   add_nodes idx nodes (built degs0 es) = Some (built degs0 (es @ edges_of idx nodes))"
proof (induction nodes arbitrary: es)
  case (Cons n nodes)
  then obtain b where b: "idx (bn_name n) = Some b" by auto
  have "add_nodes idx nodes (built degs0 (es @ node_edges idx b (bn_dependencies n))) =
      Some (built degs0 ((es @ node_edges idx b (bn_dependencies n)) @ edges_of idx nodes))"
    using Cons by simp
  then show ?case using b by (simp add: add_node_built edges_of_def)
qed (simp add: edges_of_def)

lemma edge_nodes:
  assumes "(d, b) \<in> set (dependency_edges graph)"
  shows "d \<in> binaries graph" "b \<in> binaries graph"
  using assms by (auto simp: edges_of_def node_edges_def binaries_def ran_def split: option.splits)

section \<open>One round\<close>

lemma relax_spec:
  assumes "\<forall>b \<in> set ds. \<exists>k. degs b = Some k \<and> int (count_list ds b) \<le> k"
  shows "\<exists>new. relax ds degs q = (\<lambda>b. map_option (\<lambda>k. k - int (count_list ds b)) (degs b), q @ new) \<and>
    distinct new \<and> set new = {b \<in> set ds. degs b = Some (int (count_list ds b))}"
  using assms
proof (induction ds arbitrary: degs q)
  case Nil
  then show ?case by (simp add: option.map_ident)
next
  case (Cons d ds)
  obtain k where k: "degs d = Some k" "int (count_list ds d) + 1 \<le> k" using Cons.prems by auto
  let ?degs = "degs(d \<mapsto> k - 1)"
  have "\<forall>b \<in> set ds. \<exists>j. ?degs b = Some j \<and> int (count_list ds b) \<le> j"
  proof
    fix b assume b: "b \<in> set ds"
    then have "\<exists>j. degs b = Some j \<and> int (count_list (d # ds) b) \<le> j" using Cons.prems by simp
    then show "\<exists>j. ?degs b = Some j \<and> int (count_list ds b) \<le> j" using k by auto
  qed
  from Cons.IH [OF this, of "if k - 1 = 0 then q @ [d] else q"] obtain new where
    new: "relax ds ?degs (if k - 1 = 0 then q @ [d] else q) =
        (\<lambda>b. map_option (\<lambda>k. k - int (count_list ds b)) (?degs b), (if k - 1 = 0 then q @ [d] else q) @ new)"
      "distinct new" "set new = {b \<in> set ds. ?degs b = Some (int (count_list ds b))}" by blast
  have degs: "(\<lambda>b. map_option (\<lambda>k. k - int (count_list ds b)) (?degs b)) =
      (\<lambda>b. map_option (\<lambda>k. k - int (count_list (d # ds) b)) (degs b))"
    using k by (auto simp: fun_eq_iff)
  show ?case
  proof (cases "k = 1")
    case True
    then have "d \<notin> set ds" using k(2) by (auto simp: count_list_0_iff)
    then have "distinct (d # new)" "set (d # new) = {b \<in> set (d # ds). degs b = Some (int (count_list (d # ds) b))}"
      using new k True by (auto simp: count_list_0_iff)
    then show ?thesis using new(1) k(1) True degs by (intro exI [of _ "d # new"]) simp
  next
    case False
    have "set new = {b \<in> set (d # ds). degs b = Some (int (count_list (d # ds) b))}"
    proof (cases "d \<in> set ds")
      case True
      then show ?thesis using new(3) k False by auto
    next
      case F: False
      then have "count_list ds d = 0" by (simp add: count_list_0_iff)
      then show ?thesis using new(3) k False F by auto
    qed
    then show ?thesis using new(1,2) k(1) False degs by (intro exI [of _ new]) simp
  qed
qed

text \<open>How many edges into \<open>b\<close> come from outside \<open>xs\<close>.\<close>

definition missing :: "(nat \<times> nat) list \<Rightarrow> nat list \<Rightarrow> nat \<Rightarrow> nat" where
  "missing E xs b = length (filter (\<lambda>x. snd x = b \<and> fst x \<notin> set xs) E)"

lemma missing_step:
  assumes "n \<notin> set xs"
  shows "missing E xs b = missing E (xs @ [n]) b + count_list (map snd (filter (\<lambda>x. fst x = n) E)) b"
  using assms by (induction E) (auto simp: missing_def)

lemma missing_zero: "missing E xs b = 0 \<longleftrightarrow> (\<forall>d. (d, b) \<in> set E \<longrightarrow> d \<in> set xs)"
  by (auto simp: missing_def filter_empty_conv)

definition kahn_inv :: "(nat \<times> nat) list \<Rightarrow> nat set \<Rightarrow> nat list \<Rightarrow> nat list \<Rightarrow> degrees \<Rightarrow> bool" where
  "kahn_inv E V xs q degs = (distinct (xs @ q) \<and> set (xs @ q) \<subseteq> V \<and>
     (\<forall>b \<in> V. degs b = Some (int (missing E xs b))) \<and>
     (\<forall>b \<in> V. missing E xs b = 0 \<longleftrightarrow> b \<in> set (xs @ q)) \<and>
     (\<forall>i < length xs. \<forall>d. (d, xs ! i) \<in> set E \<longrightarrow> d \<in> set (take i xs)))"

lemma kahn_inv_step:
  assumes inv: "kahn_inv E V xs (n # q) degs" and E: "\<forall>(d, b) \<in> set E. b \<in> V"
    and round: "relax (map snd (filter (\<lambda>x. fst x = n) E)) degs q = (degs1, q1)"
  shows "kahn_inv E V (xs @ [n]) q1 degs1"
proof -
  let ?ds = "map snd (filter (\<lambda>x. fst x = n) E)"
  have dist: "distinct (xs @ n # q)" and sub: "set (xs @ n # q) \<subseteq> V"
    and degs: "\<And>b. b \<in> V \<Longrightarrow> degs b = Some (int (missing E xs b))"
    and zero: "\<And>b. b \<in> V \<Longrightarrow> missing E xs b = 0 \<longleftrightarrow> b \<in> set (xs @ n # q)"
    and topo: "\<And>i d. i < length xs \<Longrightarrow> (d, xs ! i) \<in> set E \<Longrightarrow> d \<in> set (take i xs)"
    using inv unfolding kahn_inv_def by blast+
  have n: "n \<notin> set xs" using dist by simp
  have ds: "b \<in> V" if "b \<in> set ?ds" for b using that E by auto
  have "\<forall>b \<in> set ?ds. \<exists>k. degs b = Some k \<and> int (count_list ?ds b) \<le> k"
    using ds degs missing_step [OF n] by fastforce
  from relax_spec [OF this, of q] round obtain new where
    new: "degs1 = (\<lambda>b. map_option (\<lambda>k. k - int (count_list ?ds b)) (degs b))" "q1 = q @ new" "distinct new"
      "set new = {b \<in> set ?ds. degs b = Some (int (count_list ?ds b))}" by auto
  have new_mem: "b \<in> set new \<longleftrightarrow> missing E xs b \<noteq> 0 \<and> missing E (xs @ [n]) b = 0" if "b \<in> V" for b
    using that degs [OF that] missing_step [OF n, of E b] new(4) count_list_0_iff [of ?ds b] by auto
  have new_sub: "set new \<subseteq> V" using new(4) ds by blast
  have "set new \<inter> set (xs @ n # q) = {}" using new_mem zero new_sub sub by blast
  then have "distinct ((xs @ [n]) @ q1)" using dist new(2,3) by auto
  moreover have "set ((xs @ [n]) @ q1) \<subseteq> V" using sub new(2) new_sub by auto
  moreover have "degs1 b = Some (int (missing E (xs @ [n]) b))" if "b \<in> V" for b
    using degs [OF that] missing_step [OF n, of E b] new(1) by simp
  moreover have "missing E (xs @ [n]) b = 0 \<longleftrightarrow> b \<in> set ((xs @ [n]) @ q1)" if "b \<in> V" for b
    using new_mem [OF that] zero [OF that] missing_step [OF n, of E b] new(2) by auto
  moreover have "d \<in> set (take i (xs @ [n]))" if "i < length (xs @ [n])" "(d, (xs @ [n]) ! i) \<in> set E" for i d
  proof (cases "i < length xs")
    case True
    then show ?thesis using topo [of i d] that by (simp add: nth_append)
  next
    case False
    then have i: "i = length xs" using that(1) by simp
    have "missing E xs n = 0" using zero [of n] sub by simp
    then show ?thesis using that(2) i by (simp add: missing_zero)
  qed
  ultimately show ?thesis unfolding kahn_inv_def by blast
qed

lemma kahn_total:
  assumes "kahn_inv E V xs q degs" "\<forall>(d, b) \<in> set E. b \<in> V" "finite V"
    and deps: "deps = (\<lambda>d. map snd (filter (\<lambda>x. fst x = d) E))"
  shows "\<exists>xs1 degs1. kahn deps xs q degs = Some (xs1, degs1) \<and> kahn_inv E V xs1 [] degs1"
  using assms(1)
proof (induction "card V - length xs" arbitrary: xs q degs rule: less_induct)
  case less
  show ?case
  proof (cases q)
    case Nil
    then show ?thesis using less.prems by (simp add: kahn.simps)
  next
    case (Cons n rest)
    obtain degs1 q1 where r: "relax (deps n) degs rest = (degs1, q1)" by fastforce
    have inv: "kahn_inv E V (xs @ [n]) q1 degs1"
      using kahn_inv_step [OF less.prems [unfolded Cons] assms(2)] r deps by simp
    have "length (xs @ n # rest) \<le> card V"
      using less.prems Cons assms(3) unfolding kahn_inv_def
      by (metis card_mono distinct_card)
    then have "card V - length (xs @ [n]) < card V - length xs" by simp
    from less.hyps [OF this inv] show ?thesis
      using Cons r by (subst kahn.simps) simp
  qed
qed

section \<open>The whole sort\<close>

definition topological :: "(nat \<times> nat) list \<Rightarrow> nat list \<Rightarrow> bool" where
  "topological E xs = (\<forall>i < length xs. \<forall>d. (d, xs ! i) \<in> set E \<longrightarrow> d \<in> set (take i xs))"

lemma topological_acyclic:
  assumes topo: "topological E xs" and sub: "\<forall>(d, b) \<in> set E. b \<in> set xs" and "distinct xs"
  shows "acyclic (set E)"
proof -
  define pos where "pos b = (THE i. i < length xs \<and> xs ! i = b)" for b
  have pos: "pos (xs ! i) = i" if "i < length xs" for i
    unfolding pos_def using that assms(3) by (auto simp: nth_eq_iff_index_eq)
  have "set E \<subseteq> measure pos"
  proof clarsimp
    fix d b assume e: "(d, b) \<in> set E"
    then have "b \<in> set xs" using sub by auto
    then obtain i where i: "i < length xs" "xs ! i = b" by (auto simp: in_set_conv_nth)
    then have "d \<in> set (take i xs)" using topo e unfolding topological_def by blast
    then obtain j where "j < i" "xs ! j = d" using i(1) by (auto simp: in_set_conv_nth)
    then show "pos d < pos b" using pos i by auto
  qed
  then show ?thesis by (meson acyclic_subset wf_acyclic wf_measure)
qed

lemma stuck_cyclic:
  assumes inv: "kahn_inv E V xs [] degs" and E: "\<forall>(d, b) \<in> set E. d \<in> V" and "b \<in> V" "b \<notin> set xs"
  shows "\<not> acyclic (set E)"
proof
  assume "acyclic (set E)"
  then have "wf (set E)" by (rule finite_acyclic_wf [OF finite_set])
  then obtain m where m: "m \<in> V - set xs" and least: "\<And>d. (d, m) \<in> set E \<Longrightarrow> d \<notin> V - set xs"
    using wfE_min [of "set E" b "V - set xs"] assms(3,4) by blast
  have "missing E xs m \<noteq> 0" using inv m unfolding kahn_inv_def by simp
  then obtain d where d: "(d, m) \<in> set E" "d \<notin> set xs" by (auto simp: missing_zero)
  then have "d \<in> V" using E by auto
  then show False using least [OF d(1)] d(2) by simp
qed

lemma kahn_inv_start:
  assumes V: "V = binaries graph" and E: "E = dependency_edges graph"
    and order: "distinct order" "set order = V"
    and degs: "degs = snd (built (initial_degrees graph) E)"
  shows "kahn_inv E V [] (filter (\<lambda>i. degs i = Some 0) order) degs"
proof -
  have m: "missing E [] b = count_list (map snd E) b" for b
    by (induction E) (auto simp: missing_def)
  have d: "degs b = Some (int (missing E [] b))" if "b \<in> V" for b
    using that V unfolding degs built_def initial_degrees_def binaries_def by (simp add: m)
  show ?thesis unfolding kahn_inv_def using order d by auto
qed

lemma load_order_run:
  assumes V: "V = binaries graph" and E: "E = dependency_edges graph"
    and order: "distinct order" "set order = V"
  obtains xs degs where "kahn_inv E V xs [] degs"
    "generate_binary_load_order order graph =
       (case List.find (\<lambda>i. \<exists>k. degs i = Some k \<and> 0 < k) order of
          Some index \<Rightarrow> Some (Inl (CycleWith index)) | None \<Rightarrow> Some (Inr xs))"
proof -
  define degs where "degs = snd (built (initial_degrees graph) E)"
  define deps where "deps = (\<lambda>d. map snd (filter (\<lambda>x. fst x = d) E))"
  have "(\<lambda>_. [], initial_degrees graph) = built (initial_degrees graph) []"
    by (simp add: built_def option.map_ident)
  then have add: "add_nodes (node_to_index graph) graph (\<lambda>_. [], initial_degrees graph) = Some (deps, degs)"
    using add_nodes_built [of graph "node_to_index graph" "initial_degrees graph" "[]"] named
    by (simp add: degs_def deps_def E built_def)
  have fin: "finite V" using finite_subset [OF binaries_bound] V by blast
  have tgt: "\<forall>(d, b) \<in> set E. b \<in> V" using edge_nodes(2) E V by blast
  obtain xs degs1 where
    run: "kahn deps [] (filter (\<lambda>i. degs i = Some 0) order) degs = Some (xs, degs1)" "kahn_inv E V xs [] degs1"
    using kahn_total [OF kahn_inv_start [OF V E order degs_def] tgt fin deps_def] by blast
  then show thesis using that add by (simp add: generate_binary_load_order_def)
qed

text \<open>
  C33: whatever order the hash map is iterated in, \<open>generate_binary_load_order\<close> terminates; it
  returns an order exactly when the dependencies have no cycle, and then every binary comes once,
  after all the libraries it depends on; with a cycle it reports one of the binaries.
\<close>

theorem load_order_correct:
  assumes "distinct order" "set order = binaries graph"
  shows "if acyclic (set (dependency_edges graph))
    then \<exists>xs. generate_binary_load_order order graph = Some (Inr xs) \<and> distinct xs \<and>
      set xs = binaries graph \<and> topological (dependency_edges graph) xs
    else \<exists>i \<in> binaries graph. generate_binary_load_order order graph = Some (Inl (CycleWith i))"
proof -
  let ?E = "dependency_edges graph" and ?V = "binaries graph"
  obtain xs degs where inv: "kahn_inv ?E ?V xs [] degs" and
    gen: "generate_binary_load_order order graph =
       (case List.find (\<lambda>i. \<exists>k. degs i = Some k \<and> 0 < k) order of
          Some index \<Rightarrow> Some (Inl (CycleWith index)) | None \<Rightarrow> Some (Inr xs))"
    using load_order_run [OF refl refl assms] by blast
  have xs: "distinct xs" "set xs \<subseteq> ?V" "topological ?E xs"
    using inv unfolding kahn_inv_def topological_def by simp_all
  have left: "(\<exists>k. degs i = Some k \<and> 0 < k) \<longleftrightarrow> i \<notin> set xs" if "i \<in> ?V" for i
    using inv that unfolding kahn_inv_def by (metis append_Nil2 not_gr_zero of_nat_0_less_iff option.inject less_irrefl)
  have src: "\<forall>(d, b) \<in> set ?E. d \<in> ?V" using edge_nodes(1) by blast
  show ?thesis
  proof (cases "List.find (\<lambda>i. \<exists>k. degs i = Some k \<and> 0 < k) order")
    case None
    then have "\<not> (\<exists>k. degs i = Some k \<and> 0 < k)" if "i \<in> ?V" for i
      using that assms(2) unfolding find_None_iff by blast
    then have all: "set xs = ?V" using left xs(2) by blast
    then have "\<forall>(d, b) \<in> set ?E. b \<in> set xs" using edge_nodes(2) by blast
    then have "acyclic (set ?E)" using topological_acyclic xs by blast
    then show ?thesis using None gen xs all by simp
  next
    case (Some i)
    then have "i \<in> ?V" "\<exists>k. degs i = Some k \<and> 0 < k" using assms(2) by (auto simp: find_Some_iff)
    then have i: "i \<in> ?V" "i \<notin> set xs" using left by blast+
    then show ?thesis using stuck_cyclic [OF inv src] Some gen by auto
  qed
qed

definition example_graph :: "binary_node list" where
  "example_graph = [\<lparr>bn_name = bytes_of ''app'', bn_dependencies = [bytes_of ''/usr/lib/b'', bytes_of ''a'']\<rparr>,
     \<lparr>bn_name = bytes_of ''a'', bn_dependencies = []\<rparr>,
     \<lparr>bn_name = bytes_of ''b'', bn_dependencies = [bytes_of ''/usr/lib/a'', bytes_of ''/usr/lib/c'']\<rparr>]"

lemma load_order_correct_witness:
  "\<exists>xs. generate_binary_load_order [2, 0, 1] example_graph = Some (Inr xs) \<and> distinct xs \<and>
    set xs = {0, 1, 2} \<and> topological [(2, 0), (1, 0), (1, 2)] xs"
proof -
  have idx: "node_to_index example_graph =
      [bytes_of ''app'' \<mapsto> 0, bytes_of ''a'' \<mapsto> 1, bytes_of ''b'' \<mapsto> 2]"
    by (simp add: node_to_index_def example_graph_def bytes_of_def upt_rec numeral_2_eq_2)
  have bins: "binaries example_graph = {0, 1, 2}"
    unfolding binaries_def idx by (auto simp: bytes_of_def ran_map_upd)
  have edges: "dependency_edges example_graph = [(2, 0), (1, 0), (1, 2)]"
    unfolding edges_of_def node_edges_def idx by (simp add: example_graph_def strip_usr_lib_def bytes_of_def)
  have "acyclic (set (dependency_edges example_graph))"
    unfolding edges by (rule acyclic_subset [OF wf_acyclic [OF wf_measure [of "\<lambda>i. if i = 0 then 3 else i"]]]) simp
  then show ?thesis using load_order_correct [of "[2, 0, 1]" example_graph] bins edges
    by (simp add: insert_commute)
qed

end
