(* ===== verification/Fnmatch.thy ===== *)
theory Fnmatch
  imports Utf8
begin

text \<open>
  Filename patterns: \<open>fnmatch_impl\<close> and \<open>fnmatch\<close> of \<open>src/libc/fnmatch.rs\<close>.  The matcher walks
  through pattern and string by index and remembers the last \<open>*\<close>; the reference reads the pattern
  as a list of items and matches by recursion.
\<close>

definition FNM_NOMATCH :: int where "FNM_NOMATCH = 1"
definition FNM_CASEFOLD :: u32 where "FNM_CASEFOLD = 16"

definition to_ascii_lowercase :: "u8 \<Rightarrow> u8" where
  "to_ascii_lowercase b = (if 0x41 \<le> b \<and> b \<le> 0x5A then b + 32 else b)"

section \<open>The matcher\<close>

text \<open>The bytes of \<open>*\<close>, \<open>?\<close>, \<open>[\<close>, \<open>]\<close>, \<open>!\<close> and \<open>-\<close> are 0x2A, 0x3F, 0x5B, 0x5D, 0x21 and 0x2D.\<close>

function skip_stars :: "u8 list \<Rightarrow> nat \<Rightarrow> nat" where
  "skip_stars pattern p = (if p < length pattern \<and> pattern ! p = 0x2A then skip_stars pattern (p + 1) else p)"
  by pat_completeness auto
termination by (relation "measure (\<lambda>(pattern, p). length pattern - p)") auto

declare skip_stars.simps [simp del]

function scan_class :: "(u8 \<Rightarrow> u8) \<Rightarrow> u8 list \<Rightarrow> u8 \<Rightarrow> nat \<Rightarrow> bool \<Rightarrow> nat \<times> bool" where
  "scan_class norm pattern sc p matched =
     (if p < length pattern \<and> pattern ! p \<noteq> 0x5D
      then if p + 2 < length pattern \<and> pattern ! (p + 1) = 0x2D \<and> pattern ! (p + 2) \<noteq> 0x5D
           then scan_class norm pattern sc (p + 3)
                  (matched \<or> norm (pattern ! p) \<le> sc \<and> sc \<le> norm (pattern ! (p + 2)))
           else scan_class norm pattern sc (p + 1) (matched \<or> norm (pattern ! p) = sc)
      else (p, matched))"
  by pat_completeness auto
termination by (relation "measure (\<lambda>(norm, pattern, sc, p, matched). length pattern - p)") auto

declare scan_class.simps [simp del]

text \<open>\<open>None\<close>: there is no \<open>*\<close> to go back to, or no byte left for it to take.\<close>

definition backtrack :: "u8 list \<Rightarrow> (nat \<times> nat) option \<Rightarrow> (nat \<times> nat) option" where
  "backtrack string star =
     (case star of
        None \<Rightarrow> None
      | Some (spi, ssi) \<Rightarrow> (if length string < ssi + 1 then None else Some (spi, ssi + 1)))"

partial_function (option) fnmatch_loop ::
    "(u8 \<Rightarrow> u8) \<Rightarrow> u8 list \<Rightarrow> u8 list \<Rightarrow> nat \<Rightarrow> nat \<Rightarrow> (nat \<times> nat) option \<Rightarrow> bool option" where
  "fnmatch_loop norm pattern string p i star =
     (if p < length pattern then
        (if pattern ! p = 0x2A then
           (let p1 = skip_stars pattern (p + 1)
            in if p1 = length pattern then Some True
               else fnmatch_loop norm pattern string p1 i (Some (p1, i)))
         else if pattern ! p = 0x3F then
           (if length string \<le> i then Some False
            else fnmatch_loop norm pattern string (p + 1) (i + 1) star)
         else if pattern ! p = 0x5B then
           (if length string \<le> i then Some False
            else let negate = (p + 1 < length pattern \<and> pattern ! (p + 1) = 0x21);
                     (p1, matched) =
                       scan_class norm pattern (norm (string ! i)) (if negate then p + 2 else p + 1) False;
                     p2 = (if p1 < length pattern then p1 + 1 else p1)
                 in if matched = negate then Some False
                    else fnmatch_loop norm pattern string p2 (i + 1) star)
         else if length string \<le> i \<or> norm (pattern ! p) \<noteq> norm (string ! i) then
           (case backtrack string star of
              None \<Rightarrow> Some False
            | Some (p1, i1) \<Rightarrow> fnmatch_loop norm pattern string p1 i1 (Some (p1, i1)))
         else fnmatch_loop norm pattern string (p + 1) (i + 1) star)
      else if i = length string then Some True
      else (case backtrack string star of
              None \<Rightarrow> Some False
            | Some (p1, i1) \<Rightarrow> fnmatch_loop norm pattern string p1 i1 (Some (p1, i1))))"

definition fnmatch_norm :: "u32 \<Rightarrow> u8 \<Rightarrow> u8" where
  "fnmatch_norm flags b =
     (let casefold = (and flags FNM_CASEFOLD \<noteq> 0) in if casefold then to_ascii_lowercase b else b)"

definition fnmatch_impl :: "u8 list \<Rightarrow> u8 list \<Rightarrow> u32 \<Rightarrow> bool option" where
  "fnmatch_impl pattern string flags = fnmatch_loop (fnmatch_norm flags) pattern string 0 0 None"

definition fnmatch :: "nat \<Rightarrow> nat \<Rightarrow> u32 \<Rightarrow> mem \<Rightarrow> int option" where
  "fnmatch pattern string flags m = do {
     pat \<leftarrow> cstr_at m pattern;
     s \<leftarrow> cstr_at m string;
     r \<leftarrow> fnmatch_impl (slice_bytes m pat) (slice_bytes m s) flags;
     Some (if r then 0 else FNM_NOMATCH) }"

section \<open>The reference\<close>

text \<open>A class is a list of ranges; an unterminated one reaches to the end of the pattern.\<close>

datatype item = Star | AnyByte | Literal u8 | is_class: Class bool "(u8 \<times> u8) list"

fun class_ranges :: "u8 list \<Rightarrow> (u8 \<times> u8) list \<times> u8 list" where
  "class_ranges [] = ([], [])"
| "class_ranges [c] = (if c = 0x5D then ([], []) else ([(c, c)], []))"
| "class_ranges [c, d] = (if c = 0x5D then ([], [d]) else apfst (Cons (c, c)) (class_ranges [d]))"
| "class_ranges (c # d # e # cs) =
     (if c = 0x5D then ([], d # e # cs)
      else if d = 0x2D \<and> e \<noteq> 0x5D then apfst (Cons (c, e)) (class_ranges cs)
      else apfst (Cons (c, c)) (class_ranges (d # e # cs)))"

lemma class_ranges_length: "length (snd (class_ranges cs)) \<le> length cs"
  by (induction cs rule: class_ranges.induct) auto

fun class_body :: "u8 list \<Rightarrow> bool \<times> u8 list" where
  "class_body (c # cs) = (if c = 0x21 then (True, cs) else (False, c # cs))"
| "class_body [] = (False, [])"

lemma class_body_length: "length (snd (class_body cs)) \<le> length cs"
  by (cases cs) auto

function items :: "u8 list \<Rightarrow> item list" where
  "items [] = []"
| "items (c # cs) =
     (if c = 0x2A then Star # items cs
      else if c = 0x3F then AnyByte # items cs
      else if c = 0x5B
      then Class (fst (class_body cs)) (fst (class_ranges (snd (class_body cs))))
             # items (snd (class_ranges (snd (class_body cs))))
      else Literal c # items cs)"
  by pat_completeness auto
termination
proof (relation "measure length")
  fix c :: u8 and cs
  have "length (snd (class_ranges (snd (class_body cs)))) \<le> length cs"
    using class_ranges_length class_body_length le_trans by blast
  then show "(snd (class_ranges (snd (class_body cs))), c # cs) \<in> measure length" by simp
qed auto

fun accepts :: "(u8 \<Rightarrow> u8) \<Rightarrow> item \<Rightarrow> u8 \<Rightarrow> bool" where
  "accepts norm Star b = False"
| "accepts norm AnyByte b = True"
| "accepts norm (Literal c) b = (norm c = norm b)"
| "accepts norm (Class negate rs) b =
     ((\<exists>(lo, hi) \<in> set rs. norm lo \<le> norm b \<and> norm b \<le> norm hi) \<noteq> negate)"

fun glob :: "(u8 \<Rightarrow> u8) \<Rightarrow> item list \<Rightarrow> u8 list \<Rightarrow> bool" where
  "glob norm [] s = (s = [])"
| "glob norm (Star # xs) s = (\<exists>k \<le> length s. glob norm xs (drop k s))"
| "glob norm (x # xs) s = (case s of [] \<Rightarrow> False | b # bs \<Rightarrow> accepts norm x b \<and> glob norm xs bs)"

section \<open>Stars and segments\<close>

lemma glob_star_step:
  "glob norm (Star # xs) s \<longleftrightarrow> glob norm xs s \<or> (s \<noteq> [] \<and> glob norm (Star # xs) (tl s))"
proof
  assume "glob norm (Star # xs) s"
  then obtain k where k: "k \<le> length s" "glob norm xs (drop k s)" by auto
  show "glob norm xs s \<or> (s \<noteq> [] \<and> glob norm (Star # xs) (tl s))"
  proof (cases k)
    case 0
    then show ?thesis using k by simp
  next
    case (Suc j)
    then have "s \<noteq> []" "j \<le> length (tl s)" "glob norm xs (drop j (tl s))"
      using k by (auto simp: drop_Suc)
    then show ?thesis by auto
  qed
next
  assume "glob norm xs s \<or> (s \<noteq> [] \<and> glob norm (Star # xs) (tl s))"
  then show "glob norm (Star # xs) s"
  proof
    assume "glob norm xs s"
    then show ?thesis by (auto intro: exI [of _ 0])
  next
    assume "s \<noteq> [] \<and> glob norm (Star # xs) (tl s)"
    then obtain k where "s \<noteq> []" "k \<le> length (tl s)" "glob norm xs (drop k (tl s))" by auto
    then show ?thesis by (cases s) (auto intro: exI [of _ "Suc k"])
  qed
qed

lemma glob_star_drop: "glob norm (Star # xs) (drop k s) \<Longrightarrow> glob norm (Star # xs) s"
proof (induction k arbitrary: s)
  case (Suc k)
  show ?case
  proof (cases s)
    case (Cons b bs)
    then have "glob norm (Star # xs) bs" using Suc by simp
    then show ?thesis using Cons glob_star_step [of norm xs s] by simp
  qed (use Suc in simp)
qed simp

lemma glob_star_star: "glob norm (Star # Star # xs) s = glob norm (Star # xs) s"
proof
  assume "glob norm (Star # Star # xs) s"
  then obtain k where "glob norm (Star # xs) (drop k s)" by (auto simp del: glob.simps(2) simp: glob.simps(2) [of norm "Star # xs"])
  then show "glob norm (Star # xs) s" by (rule glob_star_drop)
next
  assume "glob norm (Star # xs) s"
  then show "glob norm (Star # Star # xs) s" using glob_star_step by blast
qed

lemma glob_last_star: "glob norm [Star] s"
  by (auto intro: exI [of _ "length s"])

lemma glob_item:
  "x \<noteq> Star \<Longrightarrow> glob norm (x # xs) s \<longleftrightarrow> s \<noteq> [] \<and> accepts norm x (hd s) \<and> glob norm xs (tl s)"
  by (cases x; cases s) auto

text \<open>Items without a star match a prefix of their own length.\<close>

lemma glob_segment:
  "Star \<notin> set seg \<Longrightarrow>
   glob norm (seg @ xs) s \<longleftrightarrow>
     length seg \<le> length s \<and> list_all2 (accepts norm) seg (take (length seg) s) \<and>
     glob norm xs (drop (length seg) s)"
proof (induction seg arbitrary: s)
  case (Cons x seg)
  note seg_IH = Cons.IH
  have x: "x \<noteq> Star" "Star \<notin> set seg" using Cons.prems by auto
  show ?case
  proof (cases s)
    case Nil
    then show ?thesis using glob_item [OF x(1), of norm "seg @ xs" s] by simp
  next
    case (Cons b bs)
    then show ?thesis using glob_item [OF x(1), of norm "seg @ xs" s] seg_IH [OF x(2), of bs] by auto
  qed
qed simp

section \<open>Index and list views of the pattern\<close>

lemma drop_at: "p < length xs \<Longrightarrow> drop p xs = xs ! p # drop (p + 1) xs"
  using Cons_nth_drop_Suc [of p xs] by simp

lemma skip_stars_step:
  "p < length pattern \<Longrightarrow> pattern ! p = 0x2A \<Longrightarrow> skip_stars pattern p = skip_stars pattern (p + 1)"
  "\<not> (p < length pattern \<and> pattern ! p = 0x2A) \<Longrightarrow> skip_stars pattern p = p"
  by (subst skip_stars.simps; simp)+

lemma skip_stars_spec:
  assumes "p \<le> length pattern"
  shows "p \<le> skip_stars pattern p \<and> skip_stars pattern p \<le> length pattern \<and>
    glob norm (Star # items (drop (skip_stars pattern p) pattern)) s = glob norm (Star # items (drop p pattern)) s"
  using assms
proof (induction pattern p rule: skip_stars.induct)
  case (1 pattern p)
  show ?case
  proof (cases "p < length pattern \<and> pattern ! p = 0x2A")
    case True
    then have "items (drop p pattern) = Star # items (drop (p + 1) pattern)" by (simp add: drop_at)
    then show ?thesis using 1 True
      by (simp add: skip_stars_step glob_star_star del: glob.simps(2))
  next
    case False
    then show ?thesis using 1 by (simp add: skip_stars_step(2) del: glob.simps(2))
  qed
qed

lemma skip_stars_items:
  assumes "p \<le> length pattern"
  shows "\<exists>k. items (drop p pattern) = replicate k Star @ items (drop (skip_stars pattern p) pattern)"
  using assms
proof (induction pattern p rule: skip_stars.induct)
  case (1 pattern p)
  show ?case
  proof (cases "p < length pattern \<and> pattern ! p = 0x2A")
    case True
    then have "items (drop p pattern) = Star # items (drop (p + 1) pattern)" by (simp add: drop_at)
    moreover obtain k where "items (drop (p + 1) pattern) =
        replicate k Star @ items (drop (skip_stars pattern (p + 1)) pattern)" using 1 True by auto
    ultimately show ?thesis using True
      by (intro exI [of _ "Suc k"]) (simp add: skip_stars_step)
  next
    case False
    then show ?thesis by (intro exI [of _ 0]) (simp add: skip_stars_step(2))
  qed
qed

definition in_ranges :: "(u8 \<Rightarrow> u8) \<Rightarrow> u8 \<Rightarrow> (u8 \<times> u8) list \<Rightarrow> bool" where
  "in_ranges norm sc rs = (\<exists>(lo, hi) \<in> set rs. norm lo \<le> sc \<and> sc \<le> norm hi)"

lemma in_ranges_simps [simp]:
  "in_ranges norm sc [] = False"
  "in_ranges norm sc ((lo, hi) # rs) = (norm lo \<le> sc \<and> sc \<le> norm hi \<or> in_ranges norm sc rs)"
  by (auto simp: in_ranges_def)

lemma class_ranges_bracket: "class_ranges (0x5D # cs) = ([], cs)"
  by (cases cs; cases "tl cs") auto

lemma class_ranges_at:
  assumes "p < length pattern" "pattern ! p \<noteq> 0x5D"
  shows "class_ranges (drop p pattern) =
    (if p + 2 < length pattern \<and> pattern ! (p + 1) = 0x2D \<and> pattern ! (p + 2) \<noteq> 0x5D
     then apfst (Cons (pattern ! p, pattern ! (p + 2))) (class_ranges (drop (p + 3) pattern))
     else apfst (Cons (pattern ! p, pattern ! p)) (class_ranges (drop (p + 1) pattern)))"
proof -
  consider "p + 2 < length pattern" | "p + 2 = length pattern" | "p + 1 = length pattern"
    using assms(1) by linarith
  then show ?thesis
  proof cases
    case 1
    then have "drop p pattern = pattern ! p # pattern ! (p + 1) # pattern ! (p + 2) # drop (p + 3) pattern"
      "drop (p + 1) pattern = pattern ! (p + 1) # pattern ! (p + 2) # drop (p + 3) pattern"
      by (simp_all add: drop_at numeral_3_eq_3)
    then show ?thesis using 1 assms(2) by simp
  next
    case 2
    then have "drop p pattern = [pattern ! p, pattern ! (p + 1)]" "drop (p + 1) pattern = [pattern ! (p + 1)]"
      by (simp_all add: drop_at)
    then show ?thesis using 2 assms(2) by simp
  next
    case 3
    then have "drop p pattern = [pattern ! p]" "drop (p + 1) pattern = []" by (simp_all add: drop_at)
    then show ?thesis using 3 assms(2) by simp
  qed
qed

lemma scan_class_step:
  "p < length pattern \<Longrightarrow> pattern ! p \<noteq> 0x5D \<Longrightarrow>
   p + 2 < length pattern \<and> pattern ! (p + 1) = 0x2D \<and> pattern ! (p + 2) \<noteq> 0x5D \<Longrightarrow>
   scan_class norm pattern sc p matched =
     scan_class norm pattern sc (p + 3) (matched \<or> norm (pattern ! p) \<le> sc \<and> sc \<le> norm (pattern ! (p + 2)))"
  "p < length pattern \<Longrightarrow> pattern ! p \<noteq> 0x5D \<Longrightarrow>
   \<not> (p + 2 < length pattern \<and> pattern ! (p + 1) = 0x2D \<and> pattern ! (p + 2) \<noteq> 0x5D) \<Longrightarrow>
   scan_class norm pattern sc p matched = scan_class norm pattern sc (p + 1) (matched \<or> norm (pattern ! p) = sc)"
  "\<not> (p < length pattern \<and> pattern ! p \<noteq> 0x5D) \<Longrightarrow> scan_class norm pattern sc p matched = (p, matched)"
  by (subst scan_class.simps; simp only: if_True if_False simp_thms)+

lemma scan_class_spec:
  assumes "p \<le> length pattern" "scan_class norm pattern sc p matched = (p1, m)"
  shows "p \<le> p1 \<and> p1 \<le> length pattern \<and>
    drop (if p1 < length pattern then p1 + 1 else p1) pattern = snd (class_ranges (drop p pattern)) \<and>
    m = (matched \<or> in_ranges norm sc (fst (class_ranges (drop p pattern))))"
  using assms
proof (induction norm pattern sc p matched rule: scan_class.induct)
  case (1 norm pattern sc p matched)
  show ?case
  proof (cases "p < length pattern \<and> pattern ! p \<noteq> 0x5D")
    case True
    show ?thesis
    proof (cases "p + 2 < length pattern \<and> pattern ! (p + 1) = 0x2D \<and> pattern ! (p + 2) \<noteq> 0x5D")
      case range: True
      then have "scan_class norm pattern sc (p + 3) (matched \<or> norm (pattern ! p) \<le> sc \<and> sc \<le> norm (pattern ! (p + 2))) = (p1, m)"
        using "1.prems"(2) True scan_class_step(1) [OF _ _ range] by simp
      from "1.IH"(1) [OF True range _ this] range show ?thesis
        using class_ranges_at [of p pattern] True by auto
    next
      case single: False
      then have "scan_class norm pattern sc (p + 1) (matched \<or> norm (pattern ! p) = sc) = (p1, m)"
        using "1.prems"(2) True scan_class_step(2) [OF _ _ single] by simp
      from "1.IH"(2) [OF True single _ this] True single show ?thesis
        using class_ranges_at [of p pattern] by (auto simp: not_le) 
    qed
  next
    case False
    then have "p1 = p" "m = matched" using "1.prems"(2) scan_class_step(3) [OF False] by auto
    then show ?thesis using False "1.prems"(1) by (cases "p < length pattern") (auto simp: class_ranges_bracket drop_at)
  qed
qed

section \<open>The loop\<close>

text \<open>No class behind a star.\<close>

fun star_exact :: "item list \<Rightarrow> bool" where
  "star_exact [] = True"
| "star_exact (x # xs) = (if x = Star then list_all (\<lambda>y. \<not> is_class y) xs else star_exact xs)"

text \<open>What is left to decide: the rest of the pattern, or everything behind the last star.\<close>

fun pending :: "(u8 \<Rightarrow> u8) \<Rightarrow> u8 list \<Rightarrow> u8 list \<Rightarrow> nat \<Rightarrow> nat \<Rightarrow> (nat \<times> nat) option \<Rightarrow> bool" where
  "pending norm pat str p i None = glob norm (items (drop p pat)) (drop i str)"
| "pending norm pat str p i (Some (sp, si)) = glob norm (Star # items (drop sp pat)) (drop si str)"

fun segment :: "(u8 \<Rightarrow> u8) \<Rightarrow> u8 list \<Rightarrow> u8 list \<Rightarrow> nat \<Rightarrow> nat \<Rightarrow> (nat \<times> nat) option \<Rightarrow> bool" where
  "segment norm pat str p i None = True"
| "segment norm pat str p i (Some (sp, si)) = (sp \<le> p \<and>
     (\<exists>seg. Star \<notin> set seg \<and> items (drop sp pat) = seg @ items (drop p pat) \<and> i = si + length seg \<and>
        list_all2 (accepts norm) seg (take (length seg) (drop si str))))"

fun exact_left :: "u8 list \<Rightarrow> nat \<Rightarrow> (nat \<times> nat) option \<Rightarrow> bool" where
  "exact_left pat p None = star_exact (items (drop p pat))"
| "exact_left pat p (Some (sp, si)) = list_all (\<lambda>y. \<not> is_class y) (items (drop sp pat))"

definition loop_inv ::
    "(u8 \<Rightarrow> u8) \<Rightarrow> u8 list \<Rightarrow> u8 list \<Rightarrow> bool \<Rightarrow> bool \<Rightarrow> nat \<Rightarrow> nat \<Rightarrow> (nat \<times> nat) option \<Rightarrow> bool" where
  "loop_inv norm pat str G exact p i star = (p \<le> length pat \<and> i \<le> length str \<and>
     (pending norm pat str p i star \<longrightarrow> G) \<and> (exact \<longrightarrow> G \<longrightarrow> pending norm pat str p i star) \<and>
     segment norm pat str p i star \<and> (exact \<longrightarrow> exact_left pat p star))"

lemma loop_inv_segment:
  assumes "loop_inv norm pat str G exact p i (Some (sp, si))"
  obtains seg where "Star \<notin> set seg" "items (drop sp pat) = seg @ items (drop p pat)" "i = si + length seg"
    "list_all2 (accepts norm) seg (take (length seg) (drop si str))" "sp \<le> p"
proof -
  have "segment norm pat str p i (Some (sp, si))" using assms unfolding loop_inv_def by (elim conjE)
  then show thesis using that unfolding segment.simps by blast
qed

lemma loop_inv_advance:
  assumes inv: "loop_inv norm pat str G exact p i star" and i: "i < length str" and p1: "p < p1" "p1 \<le> length pat"
    and x: "items (drop p pat) = x # items (drop p1 pat)" "x \<noteq> Star" "accepts norm x (str ! i)"
  shows "loop_inv norm pat str G exact p1 (i + 1) star"
proof (cases star)
  case None
  have "glob norm (items (drop p pat)) (drop i str) = glob norm (items (drop p1 pat)) (drop (i + 1) str)"
    using x i by (simp add: glob_item drop_at)
  then show ?thesis using inv None i p1 x(1,2) unfolding loop_inv_def by simp
next
  case (Some st)
  obtain sp si where st: "st = (sp, si)" by fastforce
  obtain seg where
    seg: "Star \<notin> set seg" "items (drop sp pat) = seg @ items (drop p pat)" "i = si + length seg"
      "list_all2 (accepts norm) seg (take (length seg) (drop si str))" and sp: "sp \<le> p"
    using inv unfolding Some st by (rule loop_inv_segment)
  have snoc: "take (length (seg @ [x])) (drop si str) = take (length seg) (drop si str) @ [str ! i]"
    using i seg(3) by (simp add: take_Suc_conv_app_nth)
  have "list_all2 (accepts norm) (seg @ [x]) (take (length (seg @ [x])) (drop si str))"
    unfolding snoc by (rule list_all2_appendI [OF seg(4)]) (simp add: x(3))
  then have "segment norm pat str p1 (i + 1) (Some (sp, si))"
    using seg(1,2,3) x(1,2) sp p1(1) unfolding segment.simps
    by (intro conjI exI [of _ "seg @ [x]"]) simp_all
  then show ?thesis using inv i p1(2) unfolding Some st loop_inv_def pending.simps exact_left.simps
    by linarith
qed

lemma segment_fails:
  assumes "segment norm pat str p i (Some (sp, si))" "\<not> glob norm (items (drop p pat)) (drop i str)"
  shows "\<not> glob norm (items (drop sp pat)) (drop si str)"
proof -
  from assms(1) obtain seg where
    seg: "Star \<notin> set seg" "items (drop sp pat) = seg @ items (drop p pat)" "i = si + length seg" by auto
  then show ?thesis using assms(2) glob_segment [OF seg(1), of norm "items (drop p pat)" "drop si str"]
    by (simp add: add.commute)
qed

lemma loop_inv_backtrack:
  assumes inv: "loop_inv norm pat str G exact p i star" and no: "\<not> glob norm (items (drop p pat)) (drop i str)"
  shows "backtrack str star = None \<Longrightarrow> exact \<Longrightarrow> \<not> G"
    and "backtrack str star = Some (p1, i1) \<Longrightarrow> loop_inv norm pat str G exact p1 i1 (Some (p1, i1)) \<and>
      (\<exists>i0. star = Some (p1, i0) \<and> i1 = i0 + 1 \<and> i0 < length str)"
proof -
  have si: "star = Some (sp, si) \<Longrightarrow> si \<le> length str" for sp si
    using inv unfolding loop_inv_def by auto
  have step: "star = Some (sp, si) \<Longrightarrow> pending norm pat str p i star \<longleftrightarrow>
      si < length str \<and> pending norm pat str sp (si + 1) (Some (sp, si + 1))" for sp si
  proof -
    assume s: "star = Some (sp, si)"
    have "\<not> glob norm (items (drop sp pat)) (drop si str)"
      using segment_fails [OF _ no] inv s unfolding loop_inv_def by blast
    then show ?thesis using s glob_star_step [of norm "items (drop sp pat)" "drop si str"]
      by (simp add: tl_drop drop_Suc not_le del: glob.simps)
  qed
  show "\<not> G" if "backtrack str star = None" exact
  proof (cases star)
    case None
    then show ?thesis using inv that(2) no unfolding loop_inv_def by auto
  next
    case (Some st)
    obtain sp si0 where st: "star = Some (sp, si0)" using Some by (cases st) auto
    then have "\<not> si0 < length str" using that(1) by (auto simp: backtrack_def split: if_splits)
    then have "\<not> pending norm pat str p i star" using step [OF st] by blast
    then show ?thesis using inv that(2) unfolding loop_inv_def by blast
  qed
  show "loop_inv norm pat str G exact p1 i1 (Some (p1, i1)) \<and>
      (\<exists>i0. star = Some (p1, i0) \<and> i1 = i0 + 1 \<and> i0 < length str)" if bt: "backtrack str star = Some (p1, i1)"
  proof -
    obtain i0 where st: "star = Some (p1, i0)" "i1 = i0 + 1" "i0 < length str"
      using bt by (auto simp: backtrack_def split: option.splits if_splits prod.splits)
    have "pending norm pat str p i star \<longleftrightarrow> pending norm pat str p1 i1 (Some (p1, i1))"
      using step [OF st(1)] st by blast
    moreover have "p1 \<le> length pat" using inv st(1) unfolding loop_inv_def by simp
    moreover have "exact_left pat p star = exact_left pat p1 (Some (p1, i1))" using st(1) by simp
    moreover have "segment norm pat str p1 i1 (Some (p1, i1))" by simp
    moreover have "i1 \<le> length str" using st by simp
    ultimately have "loop_inv norm pat str G exact p1 i1 (Some (p1, i1))"
      using inv unfolding loop_inv_def by (simp del: pending.simps exact_left.simps segment.simps)
    then show ?thesis using st by blast
  qed
qed

lemma loop_inv_short:
  assumes inv: "loop_inv norm pat str G exact p i star" and i: "i = length str"
    and x: "items (drop p pat) = x # xs" "x \<noteq> Star" and exact
  shows "\<not> G"
proof (cases star)
  case None
  then show ?thesis using inv i x assms(5) glob_item [OF x(2), of norm xs "[]"] unfolding loop_inv_def by auto
next
  case (Some st)
  obtain sp si where st: "star = Some (sp, si)" using Some by (cases st) auto
  obtain seg where
    seg: "Star \<notin> set seg" "items (drop sp pat) = seg @ items (drop p pat)" "i = si + length seg"
    using inv unfolding st by (rule loop_inv_segment)
  have "\<not> glob norm (items (drop sp pat)) (drop k (drop si str))" for k
    using glob_segment [OF seg(1), of norm "x # xs" "drop k (drop si str)"] seg(2,3) i x
      glob_item [OF x(2), of norm xs] by auto
  then show ?thesis using inv st assms(5) unfolding loop_inv_def by auto
qed

lemma exact_left_suffix:
  assumes "star_exact xs" "xs = Star # ys"
  shows "list_all (\<lambda>y. \<not> is_class y) ys"
  using assms by simp

lemma loop_inv_star:
  assumes inv: "loop_inv norm pat str G exact p i star" and p: "p < length pat" "pat ! p = 0x2A"
    and p1: "p1 = skip_stars pat (p + 1)"
  shows "p < p1" "p1 = length pat \<Longrightarrow> G" "loop_inv norm pat str G exact p1 i (Some (p1, i))"
proof -
  have here: "items (drop p pat) = Star # items (drop (p + 1) pat)" using p by (simp add: drop_at)
  note skip = skip_stars_spec [of "p + 1" pat norm, folded p1]
  have bounds: "p < p1" "p1 \<le> length pat" using skip p(1) by (simp_all add: Suc_le_eq)
  then show "p < p1" by blast
  have rest: "pending norm pat str p1 i (Some (p1, i)) = glob norm (items (drop p pat)) (drop i str)"
    using skip [of "drop i str"] p(1) unfolding here pending.simps by (simp del: glob.simps)
  have pend: "pending norm pat str p i star = pending norm pat str p1 i (Some (p1, i))"
  proof (cases star)
    case (Some st)
    obtain sp si where st: "st = (sp, si)" by fastforce
    obtain seg where
      seg: "Star \<notin> set seg" "items (drop sp pat) = seg @ items (drop p pat)" "i = si + length seg"
        "list_all2 (accepts norm) seg (take (length seg) (drop si str))"
      using inv unfolding Some st by (rule loop_inv_segment)
    let ?R = "items (drop p pat)"
    have "glob norm (Star # seg @ ?R) (drop si str) \<longleftrightarrow> glob norm ?R (drop i str)"
    proof
      assume "glob norm (Star # seg @ ?R) (drop si str)"
      then obtain k where "glob norm (seg @ ?R) (drop k (drop si str))" by auto
      then have "glob norm ?R (drop k (drop i str))"
        using glob_segment [OF seg(1)] seg(3) by (simp add: ac_simps)
      then show "glob norm ?R (drop i str)" unfolding here by (rule glob_star_drop)
    next
      assume r: "glob norm ?R (drop i str)"
      have "length seg \<le> length (drop si str)"
        using seg(3) inv unfolding loop_inv_def by (elim conjE) simp
      then have "glob norm (seg @ ?R) (drop si str)"
        using glob_segment [OF seg(1)] seg(3,4) r by (simp add: ac_simps)
      then show "glob norm (Star # seg @ ?R) (drop si str)" using glob_star_step by blast
    qed
    then show ?thesis unfolding rest by (simp only: Some st pending.simps seg(2))
  next
    case None
    then show ?thesis using rest by (simp only: pending.simps)
  qed
  have left: "exact \<longrightarrow> exact_left pat p1 (Some (p1, i))"
  proof
    assume exact
    then have "exact_left pat p star" using inv unfolding loop_inv_def by (elim conjE) simp
    moreover have "set (items (drop p1 pat)) \<subseteq> set (items (drop (p + 1) pat))"
      using skip_stars_items [of "p + 1" pat] p unfolding p1 by auto
    moreover have "star = Some (sp, si) \<Longrightarrow> set (items (drop p pat)) \<subseteq> set (items (drop sp pat))" for sp si
      using inv by (auto elim!: loop_inv_segment)
    ultimately show "exact_left pat p1 (Some (p1, i))"
      unfolding here by (cases star; simp add: here list_all_iff split_paired_all; blast)
  qed
  show "loop_inv norm pat str G exact p1 i (Some (p1, i))"
    using inv bounds(2) left unfolding loop_inv_def pend
    by (simp del: pending.simps exact_left.simps)
  show G if "p1 = length pat"
  proof -
    have "pending norm pat str p1 i (Some (p1, i))" using that by (simp add: glob_last_star del: glob.simps)
    then show ?thesis using inv pend unfolding loop_inv_def by blast
  qed
qed

text \<open>A class in the pattern, as the reference reads it.\<close>

lemma class_item:
  assumes p: "p < length pat" "pat ! p = 0x5B"
    and negate: "negate = (p + 1 < length pat \<and> pat ! (p + 1) = 0x21)"
    and scan: "scan_class norm pat (norm b) (if negate then p + 2 else p + 1) False = (p1, matched)"
    and p2: "p2 = (if p1 < length pat then p1 + 1 else p1)"
  shows "\<exists>rs. items (drop p pat) = Class negate rs # items (drop p2 pat) \<and>
    accepts norm (Class negate rs) b = (matched \<noteq> negate) \<and> p < p2 \<and> p2 \<le> length pat"
proof -
  let ?q = "if negate then p + 2 else p + 1"
  have q: "?q \<le> length pat" using p(1) negate by auto
  note spec = scan_class_spec [OF q scan, folded p2]
  have body: "class_body (drop (p + 1) pat) = (negate, drop ?q pat)"
  proof (cases "p + 1 < length pat")
    case True
    then have "drop (p + 1) pat = pat ! (p + 1) # drop (p + 2) pat" using drop_at [of "p + 1" pat] by simp
    then show ?thesis using negate True by simp
  next
    case False
    then show ?thesis using negate by simp
  qed
  have "items (drop p pat) = items (0x5B # drop (p + 1) pat)" using p by (simp add: drop_at)
  also have "\<dots> = Class negate (fst (class_ranges (drop ?q pat))) # items (drop p2 pat)"
    using spec body by simp
  finally have "items (drop p pat) = Class negate (fst (class_ranges (drop ?q pat))) # items (drop p2 pat)" .
  moreover have "accepts norm (Class negate rs) b = (in_ranges norm (norm b) rs \<noteq> negate)" for rs
    by (simp add: in_ranges_def)
  moreover have "p < ?q" by simp
  then have "p < p2" "p2 \<le> length pat" using spec p2 by (simp_all del: split_paired_All)
  ultimately show ?thesis using spec by blast
qed

lemma loop_inv_match:
  assumes inv: "loop_inv norm pat str G exact p i star" and match: "glob norm (items (drop p pat)) (drop i str)"
  shows G
proof -
  have "pending norm pat str p i star"
  proof (cases star)
    case (Some st)
    obtain sp si where st: "star = Some (sp, si)" using Some by (cases st) auto
    obtain seg where
      seg: "Star \<notin> set seg" "items (drop sp pat) = seg @ items (drop p pat)" "i = si + length seg"
        "list_all2 (accepts norm) seg (take (length seg) (drop si str))"
      using inv unfolding st by (rule loop_inv_segment)
    have "length seg \<le> length (drop si str)"
      using seg(3) inv unfolding loop_inv_def by (elim conjE) simp
    then have "glob norm (items (drop sp pat)) (drop si str)"
      using glob_segment [OF seg(1)] seg(2,3,4) match by (simp add: ac_simps)
    then show ?thesis unfolding st pending.simps using glob_star_step by blast
  qed (simp only: match pending.simps)
  then show ?thesis using inv unfolding loop_inv_def by (elim conjE) (erule mp)
qed

definition answers :: "bool \<Rightarrow> bool \<Rightarrow> bool option \<Rightarrow> bool" where
  "answers G exact r = (\<exists>b. r = Some b \<and> (b \<longrightarrow> G) \<and> (exact \<longrightarrow> G \<longrightarrow> b))"

lemma answers_simps [simp]:
  "answers G exact (Some True) = G" "answers G exact (Some False) = (exact \<longrightarrow> \<not> G)"
  by (auto simp: answers_def)

definition progress :: "u8 list \<Rightarrow> u8 list \<Rightarrow> ((nat \<times> (nat \<times> nat) option) \<times> (nat \<times> (nat \<times> nat) option)) set" where
  "progress pat str = measures
     [\<lambda>(p, star). case star of None \<Rightarrow> length pat + 1 | Some (sp, si) \<Rightarrow> length pat - sp,
      \<lambda>(p, star). case star of None \<Rightarrow> 0 | Some (sp, si) \<Rightarrow> length str - si,
      \<lambda>(p, star). length pat - p]"

lemma class_miss:
  assumes inv: "loop_inv norm pat str G exact p i star" and it: "items (drop p pat) = Class negate rs # xs"
    and no: "\<not> accepts norm (Class negate rs) (str ! i)" "i < length str"
  shows "exact \<longrightarrow> \<not> G"
proof
  assume exact
  then have left: "exact_left pat p star" and pend: "G \<longrightarrow> pending norm pat str p i star"
    using inv unfolding loop_inv_def by simp_all
  show "\<not> G"
  proof (cases star)
    case None
    have "\<not> glob norm (items (drop p pat)) (drop i str)" unfolding it using no by (simp add: drop_at)
    then show ?thesis using pend None by simp
  next
    case (Some st)
    obtain sp si where st: "star = Some (sp, si)" using Some by (cases st) auto
    have "Class negate rs \<in> set (items (drop sp pat))"
      using inv it unfolding st by (auto elim!: loop_inv_segment)
    then have False using left unfolding st by (auto simp: list_all_iff)
    then show ?thesis ..
  qed
qed

lemma fnmatch_loop_step:
  assumes inv: "loop_inv norm pat str G exact p i star"
    and less: "\<And>p1 i1 star1. loop_inv norm pat str G exact p1 i1 star1 \<Longrightarrow>
      ((p1, star1), (p, star)) \<in> progress pat str \<Longrightarrow>
      answers G exact (fnmatch_loop norm pat str p1 i1 star1)"
  shows "answers G exact (fnmatch_loop norm pat str p i star)"
proof -
  let ?retry = "case backtrack str star of None \<Rightarrow> Some False
     | Some (p1, i1) \<Rightarrow> fnmatch_loop norm pat str p1 i1 (Some (p1, i1))"
  have i: "i \<le> length str" using inv unfolding loop_inv_def by (elim conjE)
  have later: "answers G exact (fnmatch_loop norm pat str p1 i1 star)"
    if "loop_inv norm pat str G exact p1 i1 star" "p < p1" "p1 \<le> length pat" for p1 i1
    using less [OF that(1)] that(2,3)
    by (auto simp: progress_def)
  have retry: "answers G exact ?retry" if no: "\<not> glob norm (items (drop p pat)) (drop i str)"
  proof (cases "backtrack str star")
    case None
    then show ?thesis using loop_inv_backtrack(1) [OF inv no] by auto
  next
    case (Some st)
    obtain p1 i1 where st: "st = (p1, i1)" by fastforce
    note again = loop_inv_backtrack(2) [OF inv no Some [unfolded st]]
    have "((p1, Some (p1, i1)), (p, star)) \<in> progress pat str"
      using again by (auto simp: progress_def)
    then show ?thesis using Some st less again by simp
  qed
  have short: "answers G exact (Some False)"
    if "i = length str" "items (drop p pat) = x # xs" "x \<noteq> Star" for x xs
    using loop_inv_short [OF inv that] by auto
  show ?thesis
  proof (cases "p < length pat")
    case False
    then have nil: "items (drop p pat) = []" by simp
    show ?thesis
    proof (cases "i = length str")
      case True
      then have G using loop_inv_match [OF inv] nil by simp
      then show ?thesis using False True by (simp add: fnmatch_loop.simps [of norm pat str p])
    next
      case F: False
      then have "\<not> glob norm (items (drop p pat)) (drop i str)" using i nil by simp
      from retry [OF this] show ?thesis
        using False F by (simp only: fnmatch_loop.simps [of norm pat str p] if_False)
    qed
  next
    case True
    consider (st) "pat ! p = 0x2A" | (any) "pat ! p = 0x3F" | (cls) "pat ! p = 0x5B"
      | (lit) "pat ! p \<noteq> 0x2A" "pat ! p \<noteq> 0x3F" "pat ! p \<noteq> 0x5B" by blast
    then show ?thesis
    proof cases
      case st
      let ?p1 = "skip_stars pat (p + 1)"
      note new = loop_inv_star [OF inv True st refl]
      have "sp \<le> p" if "star = Some (sp, si)" for sp si
        using inv that by (auto elim!: loop_inv_segment)
      moreover have "?p1 \<le> length pat" using new(3) unfolding loop_inv_def by (elim conjE)
      ultimately have "((?p1, Some (?p1, i)), (p, star)) \<in> progress pat str"
        using new(1) by (cases star) (force simp: progress_def)+
      then have "answers G exact (fnmatch_loop norm pat str ?p1 i (Some (?p1, i)))" by (rule less [OF new(3)])
      then show ?thesis using True st new(2) by (simp add: fnmatch_loop.simps [of norm pat str p] Let_def)
    next
      case any
      have it: "items (drop p pat) = AnyByte # items (drop (p + 1) pat)" using True any by (simp add: drop_at)
      show ?thesis
      proof (cases "length str \<le> i")
        case at_end: True
        then show ?thesis using short [OF _ it] i True any by (simp add: fnmatch_loop.simps [of norm pat str p])
      next
        case False
        then have "answers G exact (fnmatch_loop norm pat str (p + 1) (i + 1) star)"
          using loop_inv_advance [OF inv _ _ _ it] True by (intro later) auto
        then show ?thesis using False True any by (simp add: fnmatch_loop.simps [of norm pat str p])
      qed
    next
      case cls
      let ?negate = "p + 1 < length pat \<and> pat ! (p + 1) = 0x21"
      let ?scan = "scan_class norm pat (norm (str ! i)) (if ?negate then p + 2 else p + 1) False"
      obtain p1 matched where scan: "?scan = (p1, matched)" by fastforce
      let ?p2 = "if p1 < length pat then p1 + 1 else p1"
      obtain rs where it: "items (drop p pat) = Class ?negate rs # items (drop ?p2 pat)"
        and acc: "accepts norm (Class ?negate rs) (str ! i) = (matched \<noteq> ?negate)"
        and p2: "p < ?p2" "?p2 \<le> length pat"
        using class_item [OF True cls refl scan refl] by blast
      show ?thesis
      proof (cases "length str \<le> i")
        case at_end: True
        then show ?thesis using short [OF _ it] i True cls by (simp add: fnmatch_loop.simps [of norm pat str p])
      next
        case more: False
        then have run: "fnmatch_loop norm pat str p i star =
            (if matched = ?negate then Some False else fnmatch_loop norm pat str ?p2 (i + 1) star)"
          using True cls scan by (subst fnmatch_loop.simps) (simp add: Let_def)
        show ?thesis
        proof (cases "matched = ?negate")
          case False
          then have "answers G exact (fnmatch_loop norm pat str ?p2 (i + 1) star)"
            using loop_inv_advance [OF inv _ p2 it _] acc more p2 by (intro later) (simp_all del: accepts.simps)
          then show ?thesis unfolding run if_not_P [OF False] .
        next
          case miss: True
          have "exact \<longrightarrow> \<not> G" by (rule class_miss [OF inv it]) (use acc miss more in simp_all)
          then show ?thesis unfolding run using miss by simp
        qed
      qed
    next
      case lit
      have it: "items (drop p pat) = Literal (pat ! p) # items (drop (p + 1) pat)"
        using True lit by (simp add: drop_at)
      show ?thesis
      proof (cases "length str \<le> i \<or> norm (pat ! p) \<noteq> norm (str ! i)")
        case miss: True
        then have "\<not> glob norm (items (drop p pat)) (drop i str)"
          unfolding it by (cases "i < length str") (auto simp: drop_at)
        from retry [OF this] show ?thesis using lit True miss
          by (simp only: fnmatch_loop.simps [of norm pat str p] if_True if_False)
      next
        case hit: False
        then have "answers G exact (fnmatch_loop norm pat str (p + 1) (i + 1) star)"
          using loop_inv_advance [OF inv _ _ _ it] True by (intro later) auto
        then show ?thesis using lit True hit by (simp only: fnmatch_loop.simps [of norm pat str p] if_True if_False)
      qed
    qed
  qed
qed

lemma wf_progress: "wf (progress pat str)"
  unfolding progress_def by (rule wf_measures)

lemma fnmatch_loop_correct:
  "loop_inv norm pat str G exact p i star \<Longrightarrow> answers G exact (fnmatch_loop norm pat str p i star)"
proof (induction "(p, star)" arbitrary: p i star rule: wf_induct_rule [OF wf_progress [of pat str]])
  case (1 p star)
  show ?case by (rule fnmatch_loop_step [OF "1.prems"]) (rule "1.hyps")
qed

lemma loop_inv_start:
  "loop_inv norm pat str (glob norm (items pat) str) (star_exact (items pat)) 0 0 None"
  by (simp add: loop_inv_def)

section \<open>Correctness\<close>

text \<open>
  C9: \<open>fnmatch_impl\<close> always ends.  When it says that the string matches, the string does match the
  pattern; and unless a character class stands behind a \<open>*\<close>, its answer is the right one.
\<close>

theorem fnmatch_correct:
  "\<exists>r. fnmatch_impl pattern string flags = Some r \<and>
     (r \<longrightarrow> glob (fnmatch_norm flags) (items pattern) string) \<and>
     (star_exact (items pattern) \<longrightarrow> r = glob (fnmatch_norm flags) (items pattern) string)"
  using fnmatch_loop_correct [OF loop_inv_start [of "fnmatch_norm flags" pattern string]]
  unfolding answers_def fnmatch_impl_def by blast

lemma fnmatch_correct_witness:
  "fnmatch_impl (bytes_of ''*.Pn?'') (bytes_of ''a.b.pNg'') 16 = Some True \<and>
   fnmatch_impl (bytes_of ''[!a-c]*.pn?'') (bytes_of ''b.png'') 0 = Some False"
proof -
  have "items (bytes_of ''*.Pn?'') = [Star, Literal 46, Literal 80, Literal 110, AnyByte]"
    "items (bytes_of ''[!a-c]*.pn?'') = [Class True [(97, 99)], Star, Literal 46, Literal 112, Literal 110, AnyByte]"
    by (simp_all add: bytes_of_def)
  moreover have "glob (fnmatch_norm 16) [Star, Literal 46, Literal 80, Literal 110, AnyByte] (bytes_of ''a.b.pNg'')"
    by (rule exI [of _ 3, THEN iffD2 [OF glob.simps(2)]])
      (simp add: bytes_of_def fnmatch_norm_def FNM_CASEFOLD_def to_ascii_lowercase_def)
  moreover have "\<not> glob (fnmatch_norm 0) [Class True [(97, 99)], Star, Literal 46, Literal 112, Literal 110, AnyByte] (bytes_of ''b.png'')"
    by (simp add: bytes_of_def fnmatch_norm_def del: glob.simps(2))
  ultimately show ?thesis
    using fnmatch_correct [of "bytes_of ''*.Pn?''" "bytes_of ''a.b.pNg''" 16]
      fnmatch_correct [of "bytes_of ''[!a-c]*.pn?''" "bytes_of ''b.png''" 0] by auto
qed

text \<open>With a class behind the star the matcher gives up instead of going back to the star.\<close>

lemma fnmatch_class_after_star:
  "fnmatch_impl (bytes_of ''*[0-9]'') (bytes_of ''a1'') 0 = Some False"
  "glob (fnmatch_norm 0) (items (bytes_of ''*[0-9]'')) (bytes_of ''a1'')"
proof -
  let ?p = "bytes_of ''*[0-9]''" and ?s = "bytes_of ''a1''"
  have stars: "skip_stars ?p 1 = 1" by (simp add: skip_stars_step bytes_of_def)
  have scan: "scan_class (fnmatch_norm 0) ?p (fnmatch_norm 0 (?s ! 0)) 2 False = (5, False)"
    by (subst scan_class_step(1); simp add: bytes_of_def fnmatch_norm_def scan_class_step(3))
  show "fnmatch_impl ?p ?s 0 = Some False"
    unfolding fnmatch_impl_def using stars scan [unfolded numeral_2_eq_2]
    by (subst fnmatch_loop.simps, subst fnmatch_loop.simps) (simp add: bytes_of_def)
  show "glob (fnmatch_norm 0) (items ?p) ?s"
    by (auto simp: bytes_of_def fnmatch_norm_def intro: exI [of _ 1])
qed

end
