(* ===== verification/Qsort.thy ===== *)
theory Qsort
  imports Environment C_Strings_Read "HOL-Library.Multiset"
begin

text \<open>
  Sorting: \<open>qsort\<close> and \<open>qsort_generic\<close> of \<open>src/libc/stdlib/qsort.rs\<close>, and the sorting methods of
  \<open>NSMutableArray\<close> and \<open>NSDictionary\<close> that call it.  The algorithm knows its data only through the
  comparison and the exchange of two indices; the locale \<open>exchangeable\<close> states what an exchange
  has to do, and is interpreted for items in guest memory, for a vector and for a pair of vectors.
\<close>

declare Option.bind_cong [fundef_cong]

section \<open>The algorithm\<close>

fun partition_loop ::
    "(nat \<Rightarrow> nat \<Rightarrow> 's \<Rightarrow> (int \<times> 's) option) \<Rightarrow> (nat \<Rightarrow> nat \<Rightarrow> 's \<Rightarrow> 's option) \<Rightarrow>
     nat \<Rightarrow> nat list \<Rightarrow> nat \<Rightarrow> 's \<Rightarrow> (nat \<times> 's) option" where
  "partition_loop compar swap pivot [] separator s = Some (separator, s)"
| "partition_loop compar swap pivot (i # rest) separator s = do {
     (c, s1) \<leftarrow> compar i pivot s;
     (if c < 0 then do {
        s2 \<leftarrow> swap i separator s1;
        partition_loop compar swap pivot rest (separator + 1) s2 }
      else partition_loop compar swap pivot rest separator s1) }"

lemma partition_loop_bound:
  "partition_loop compar swap pivot rest separator s = Some (sep, s1) \<Longrightarrow>
   separator \<le> sep \<and> sep \<le> separator + length rest"
  by (induction compar swap pivot rest separator s rule: partition_loop.induct)
    (fastforce split: bind_splits if_splits)+

function qsort_rec ::
    "(nat \<Rightarrow> nat \<Rightarrow> 's \<Rightarrow> (int \<times> 's) option) \<Rightarrow> (nat \<Rightarrow> nat \<Rightarrow> 's \<Rightarrow> 's option) \<Rightarrow>
     nat \<Rightarrow> nat \<Rightarrow> 's \<Rightarrow> 's option" where
  "qsort_rec compar swap low hi s =
     (if hi \<le> low then Some s
      else do {
        (separator, s1) \<leftarrow> partition_loop compar swap low [low + 1..<hi + 1] (low + 1) s;
        s2 \<leftarrow> swap low (separator - 1) s1;
        s3 \<leftarrow> (if 1 < separator then qsort_rec compar swap low (separator - 2) s2 else Some s2);
        qsort_rec compar swap separator hi s3 })"
  by pat_completeness auto
termination
  by (relation "measure (\<lambda>(compar, swap, low, hi, s). hi + 1 - low)")
    (auto dest!: partition_loop_bound)

declare qsort_rec.simps [simp del]

definition qsort_generic ::
    "nat \<Rightarrow> (nat \<Rightarrow> nat \<Rightarrow> 's \<Rightarrow> (int \<times> 's) option) \<Rightarrow> (nat \<Rightarrow> nat \<Rightarrow> 's \<Rightarrow> 's option) \<Rightarrow> 's \<Rightarrow> 's option" where
  "qsort_generic nitems compar swap s =
     (if nitems < 2 then Some s else qsort_rec compar swap 0 (nitems - 1) s)"

section \<open>Its callers\<close>

text \<open>A guest function called by the host: it may change the whole environment, or panic.\<close>

type_synonym guest_compare = "nat \<Rightarrow> nat \<Rightarrow> env \<Rightarrow> (int \<times> env) option"

definition qsort_compar :: "nat \<Rightarrow> nat \<Rightarrow> guest_compare \<Rightarrow> guest_compare" where
  "qsort_compar base sz call i j e = do {
     i_ptr \<leftarrow> ptr_add 1 base ((i * sz) mod 4294967296);
     j_ptr \<leftarrow> ptr_add 1 base ((j * sz) mod 4294967296);
     call i_ptr j_ptr e }"

text \<open>The two \<open>split_at_mut\<close> and the two slices up to \<open>size\<close> panic when they are out of range.\<close>

definition swap_slices :: "slice \<Rightarrow> nat \<Rightarrow> nat \<Rightarrow> nat \<Rightarrow> mem \<Rightarrow> mem option" where
  "swap_slices base_slice first offset sz m =
     (if slice_len base_slice < first then None
      else if slice_len base_slice - first < offset then None
      else if offset < sz \<or> slice_len base_slice - first - offset < sz then None
      else let left = map (\<lambda>k. slice_byte m base_slice (first + k)) [0..<sz];
               right = map (\<lambda>k. slice_byte m base_slice (first + offset + k)) [0..<sz]
           in Some (slice_store base_slice (first + offset) left (slice_store base_slice first right m)))"

definition qsort_swap :: "nat \<Rightarrow> nat \<Rightarrow> nat \<Rightarrow> nat \<Rightarrow> nat \<Rightarrow> env \<Rightarrow> env option" where
  "qsort_swap base nitems sz i j e =
     (if i = j then Some e
      else let (i, j) = (if j < i then (j, i) else (i, j));
               base_slice = bytes_at_mut (e_mem e) base ((nitems * sz) mod 4294967296);
               first = (i * sz) mod 4294967296;
               offset = wsub32 ((j * sz) mod 4294967296) ((i * sz) mod 4294967296)
           in map_option (\<lambda>m. e\<lparr> e_mem := m \<rparr>) (swap_slices base_slice first offset sz (e_mem e)))"

definition qsort :: "nat \<Rightarrow> nat \<Rightarrow> nat \<Rightarrow> guest_compare \<Rightarrow> env \<Rightarrow> env option" where
  "qsort base nitems sz compar =
     qsort_generic nitems (qsort_compar base sz compar) (qsort_swap base nitems sz)"

text \<open>
  A vector of objects beside the environment \<open>'e\<close>; an index out of range panics.  \<open>call\<close> is what
  compares two objects: a guest function, a message or a block.
\<close>

definition vec_swap :: "nat \<Rightarrow> nat \<Rightarrow> 'a list \<Rightarrow> 'a list option" where
  "vec_swap l r xs =
     (if l < length xs \<and> r < length xs then Some (xs[l := xs ! r, r := xs ! l]) else None)"

definition vec_compar :: "('a \<Rightarrow> 'a \<Rightarrow> 'e \<Rightarrow> (int \<times> 'e) option) \<Rightarrow>
    nat \<Rightarrow> nat \<Rightarrow> 'e \<times> 'a list \<Rightarrow> (int \<times> ('e \<times> 'a list)) option" where
  "vec_compar call l r = (\<lambda>(e, array).
     if l < length array \<and> r < length array
     then map_option (\<lambda>(c, e1). (c, (e1, array))) (call (array ! l) (array ! r) e)
     else None)"

definition array_swap :: "nat \<Rightarrow> nat \<Rightarrow> 'e \<times> 'a list \<Rightarrow> ('e \<times> 'a list) option" where
  "array_swap l r = (\<lambda>(e, array). map_option (Pair e) (vec_swap l r array))"

text \<open>The array of the object is empty while the comparison runs.\<close>

definition sort_using :: "(nat \<Rightarrow> nat \<Rightarrow> (nat \<Rightarrow> nat list option) \<times> 'e \<Rightarrow> (int \<times> ((nat \<Rightarrow> nat list option) \<times> 'e)) option) \<Rightarrow>
    nat \<Rightarrow> (nat \<Rightarrow> nat list option) \<times> 'e \<Rightarrow> ((nat \<Rightarrow> nat list option) \<times> 'e) option" where
  "sort_using call this = (\<lambda>(arrays, e). do {
     array \<leftarrow> arrays this;
     (if 4294967296 \<le> length array then None
      else do {
        ((arrays1, e1), array1) \<leftarrow>
          qsort_generic (length array) (vec_compar call) array_swap ((arrays(this \<mapsto> []), e), array);
        (if arrays1 this = None then None else Some (arrays1(this \<mapsto> array1), e1)) }) })"

definition pair_compar :: "('v \<Rightarrow> 'v \<Rightarrow> 'e \<Rightarrow> (int \<times> 'e) option) \<Rightarrow>
    nat \<Rightarrow> nat \<Rightarrow> 'e \<times> 'k list \<times> 'v list \<Rightarrow> (int \<times> ('e \<times> 'k list \<times> 'v list)) option" where
  "pair_compar call l r = (\<lambda>(e, ks, vs).
     if l < length vs \<and> r < length vs
     then map_option (\<lambda>(c, e1). (c, (e1, ks, vs))) (call (vs ! l) (vs ! r) e)
     else None)"

definition pair_swap :: "nat \<Rightarrow> nat \<Rightarrow> 'e \<times> 'k list \<times> 'v list \<Rightarrow> ('e \<times> 'k list \<times> 'v list) option" where
  "pair_swap l r = (\<lambda>(e, ks, vs). do {
     ks1 \<leftarrow> vec_swap l r ks;
     vs1 \<leftarrow> vec_swap l r vs;
     Some (e, ks1, vs1) })"

definition keys_sorted_by_value :: "('v \<Rightarrow> 'v \<Rightarrow> 'e \<Rightarrow> (int \<times> 'e) option) \<Rightarrow> 'k list \<Rightarrow> 'v list \<Rightarrow> 'e \<Rightarrow> ('k list \<times> 'e) option" where
  "keys_sorted_by_value call ks vs e =
     (if 4294967296 \<le> length ks then None
      else do {
        (e1, ks1, vs1) \<leftarrow> qsort_generic (length ks) (pair_compar call) pair_swap (e, ks, vs);
        Some (ks1, e1) })"

section \<open>What an exchange has to do\<close>

text \<open>A comparison that ends and leaves the data alone, and one that decides an order.\<close>

definition fair :: "('s \<Rightarrow> 'a list) \<Rightarrow> ('s \<Rightarrow> bool) \<Rightarrow> (nat \<Rightarrow> nat \<Rightarrow> 's \<Rightarrow> (int \<times> 's) option) \<Rightarrow> bool" where
  "fair view ok compar = (\<forall>s i j. ok s \<longrightarrow> i < length (view s) \<longrightarrow> j < length (view s) \<longrightarrow>
     (\<exists>c s1. compar i j s = Some (c, s1) \<and> ok s1 \<and> view s1 = view s))"

definition decides ::
    "('s \<Rightarrow> 'a list) \<Rightarrow> ('s \<Rightarrow> bool) \<Rightarrow> (nat \<Rightarrow> nat \<Rightarrow> 's \<Rightarrow> (int \<times> 's) option) \<Rightarrow> ('a \<Rightarrow> 'a \<Rightarrow> bool) \<Rightarrow> bool" where
  "decides view ok compar lt = (\<forall>s i j c s1. ok s \<longrightarrow> i < length (view s) \<longrightarrow> j < length (view s) \<longrightarrow>
     compar i j s = Some (c, s1) \<longrightarrow> (c < 0 \<longleftrightarrow> lt (view s ! i) (view s ! j)))"

text \<open>A step that permutes the positions \<open>low..hi\<close> and leaves the others alone.\<close>

definition rearranged :: "nat \<Rightarrow> nat \<Rightarrow> 'a list \<Rightarrow> 'a list \<Rightarrow> bool" where
  "rearranged low hi xs ys = (length ys = length xs \<and> mset ys = mset xs \<and>
     (\<forall>k < length xs. k < low \<or> hi < k \<longrightarrow> ys ! k = xs ! k))"

lemma rearranged_refl [simp]: "rearranged low hi xs xs"
  by (simp add: rearranged_def)

lemma rearranged_trans [trans]:
  "rearranged low hi xs ys \<Longrightarrow> rearranged low hi ys zs \<Longrightarrow> rearranged low hi xs zs"
  by (simp add: rearranged_def)

lemma rearranged_widen:
  "rearranged low hi xs ys \<Longrightarrow> low' \<le> low \<Longrightarrow> hi \<le> hi' \<Longrightarrow> rearranged low' hi' xs ys"
  by (auto simp: rearranged_def)

lemma rearranged_swap:
  assumes "i < length xs" "j < length xs" "low \<le> i" "i \<le> hi" "low \<le> j" "j \<le> hi"
  shows "rearranged low hi xs (xs[i := xs ! j, j := xs ! i])"
  using assms by (auto simp: rearranged_def mset_swap nth_list_update)

text \<open>The items of the changed part are the items that were there.\<close>

lemma rearranged_member:
  assumes "rearranged low hi xs ys" "low \<le> k" "k \<le> hi" "hi < length xs"
  shows "\<exists>j. low \<le> j \<and> j \<le> hi \<and> ys ! k = xs ! j"
proof -
  have len: "length ys = length xs" and ms: "mset ys = mset xs"
    and out: "\<And>k. k < length xs \<Longrightarrow> k < low \<or> hi < k \<Longrightarrow> ys ! k = xs ! k"
    using assms(1) by (auto simp: rearranged_def)
  have same: "take low ys = take low xs" "drop (hi + 1) ys = drop (hi + 1) xs"
    using len out assms(4) by (auto simp: list_eq_iff_nth_eq)
  have split: "mset zs = mset (take low zs) + mset (take (hi + 1 - low) (drop low zs)) + mset (drop (hi + 1) zs)"
    for zs :: "'a list"
  proof -
    have "drop (hi + 1 - low) (drop low zs) = drop (hi + 1) zs" using assms(2,3) by simp
    then have "mset (drop low zs) = mset (take (hi + 1 - low) (drop low zs)) + mset (drop (hi + 1) zs)"
      by (metis append_take_drop_id mset_append)
    moreover have "mset zs = mset (take low zs) + mset (drop low zs)"
      by (metis append_take_drop_id mset_append)
    ultimately show ?thesis by (simp only: add.assoc)
  qed
  have "mset (take low xs) + mset (take (hi + 1 - low) (drop low ys)) + mset (drop (hi + 1) xs) =
      mset (take low xs) + mset (take (hi + 1 - low) (drop low xs)) + mset (drop (hi + 1) xs)"
    using trans [OF trans [OF split [of ys, symmetric] ms] split [of xs]] unfolding same .
  then have "mset (take (hi + 1 - low) (drop low ys)) = mset (take (hi + 1 - low) (drop low xs))"
    by (simp only: add_left_cancel add_right_cancel)
  then have "set (take (hi + 1 - low) (drop low ys)) = set (take (hi + 1 - low) (drop low xs))"
    by (rule mset_eq_setD)
  moreover have "ys ! k \<in> set (take (hi + 1 - low) (drop low ys))"
    using assms(2-4) len by (auto simp: in_set_conv_nth intro!: exI [of _ "k - low"])
  ultimately obtain j where "j < hi + 1 - low" "ys ! k = take (hi + 1 - low) (drop low xs) ! j"
    using assms(4) by (auto simp: in_set_conv_nth)
  then show ?thesis using assms(2-4) by (intro exI [of _ "low + j"]) auto
qed

text \<open>The part that was looked at: items below the pivot, then items that are not.\<close>

definition split_at :: "('a \<Rightarrow> 'a \<Rightarrow> bool) \<Rightarrow> 'a list \<Rightarrow> nat \<Rightarrow> nat \<Rightarrow> nat \<Rightarrow> bool" where
  "split_at lt xs low sep i = ((\<forall>k. low < k \<and> k < sep \<longrightarrow> lt (xs ! k) (xs ! low)) \<and>
     (\<forall>k. sep \<le> k \<and> k < i \<longrightarrow> \<not> lt (xs ! k) (xs ! low)))"

lemma split_at_take:
  assumes "split_at lt xs low sep i" "low < sep" "sep \<le> i" "i < length xs" "lt (xs ! i) (xs ! low)"
  shows "split_at lt (xs[i := xs ! sep, sep := xs ! i]) low (sep + 1) (i + 1)"
  using assms unfolding split_at_def by (auto simp: nth_list_update less_Suc_eq)

lemma split_at_skip:
  "split_at lt xs low sep i \<Longrightarrow> \<not> lt (xs ! i) (xs ! low) \<Longrightarrow> split_at lt xs low sep (i + 1)"
  unfolding split_at_def by (auto simp: less_Suc_eq)

text \<open>Once the pivot stands in the middle, the two parts can be sorted on their own.\<close>

definition parted :: "('a \<Rightarrow> 'a \<Rightarrow> bool) \<Rightarrow> 'a list \<Rightarrow> nat \<Rightarrow> nat \<Rightarrow> nat \<Rightarrow> bool" where
  "parted lt xs low m hi = ((\<forall>k. low \<le> k \<and> k < m \<longrightarrow> lt (xs ! k) (xs ! m)) \<and>
     (\<forall>k. m < k \<and> k \<le> hi \<longrightarrow> \<not> lt (xs ! k) (xs ! m)))"

definition ordered :: "('a \<Rightarrow> 'a \<Rightarrow> bool) \<Rightarrow> 'a list \<Rightarrow> nat \<Rightarrow> nat \<Rightarrow> bool" where
  "ordered lt xs low hi = (\<forall>i j. low \<le> i \<and> i < j \<and> j \<le> hi \<longrightarrow> \<not> lt (xs ! j) (xs ! i))"

lemma parted_pivot:
  assumes "split_at lt xs low (m + 1) (hi + 1)" "low \<le> m" "m \<le> hi" "hi < length xs"
  shows "parted lt (xs[low := xs ! m, m := xs ! low]) low m hi"
  using assms unfolding split_at_def parted_def by (auto simp: nth_list_update)

lemma parted_rearranged:
  assumes "parted lt xs low m hi" "m \<le> hi" "hi < length xs"
    and "rearranged a b xs ys" "low \<le> a \<and> b < m \<or> m < a \<and> b \<le> hi"
  shows "parted lt ys low m hi"
proof -
  have len: "b < length xs" using assms by auto
  have out: "k < length xs \<Longrightarrow> k < a \<or> b < k \<Longrightarrow> ys ! k = xs ! k" for k
    using assms(4) unfolding rearranged_def by blast
  have inside: "\<not> (k < a \<or> b < k) \<Longrightarrow> \<exists>j. a \<le> j \<and> j \<le> b \<and> ys ! k = xs ! j" for k
    by (rule rearranged_member [OF assms(4) _ _ len]) auto
  have "\<exists>j. ys ! k = xs ! j \<and> low \<le> j \<and> j < m" if "low \<le> k" "k < m" for k
    using inside [of k] out [of k] assms(2,3,5) that by (cases "k < a \<or> b < k") fastforce+
  moreover have "\<exists>j. ys ! k = xs ! j \<and> m < j \<and> j \<le> hi" if "m < k" "k \<le> hi" for k
    using inside [of k] out [of k] assms(2,3,5) that by (cases "k < a \<or> b < k") fastforce+
  moreover have "ys ! m = xs ! m" using out [of m] assms(2,3,5) by auto
  ultimately show ?thesis using assms(1) unfolding parted_def by metis
qed

lemma ordered_rearranged:
  assumes "ordered lt xs low hi" "rearranged a b xs ys" "hi < a" "hi < length xs"
  shows "ordered lt ys low hi"
  using assms unfolding ordered_def rearranged_def by simp

lemma ordered_join:
  assumes "transp lt" "asymp lt" "parted lt xs low m hi" "ordered lt xs (m + 1) hi"
    and "0 < m \<Longrightarrow> ordered lt xs low (m - 1)"
  shows "ordered lt xs low hi"
  unfolding ordered_def
proof (intro allI impI, elim conjE)
  fix i j assume ij: "low \<le> i" "i < j" "j \<le> hi"
  consider "j < m" | "j = m" | "m < j" "i < m" | "m < j" "i = m" | "m < i" by linarith
  then show "\<not> lt (xs ! j) (xs ! i)"
  proof cases
    case 1
    then show ?thesis using assms(5) ij unfolding ordered_def by auto
  next
    case 2
    then show ?thesis using assms(2,3) ij unfolding parted_def by (meson asympD)
  next
    case 3
    then have "lt (xs ! i) (xs ! m)" "\<not> lt (xs ! j) (xs ! m)" using assms(3) ij unfolding parted_def by auto
    then show ?thesis using assms(1) by (meson transpD)
  next
    case 4
    then show ?thesis using assms(3) ij unfolding parted_def by simp
  next
    case 5
    then show ?thesis using assms(4) ij unfolding ordered_def by simp
  qed
qed

locale exchangeable =
  fixes swap :: "nat \<Rightarrow> nat \<Rightarrow> 's \<Rightarrow> 's option"
    and view :: "'s \<Rightarrow> 'a list"
    and ok :: "'s \<Rightarrow> bool"
  assumes swap_law: "ok s \<Longrightarrow> i < length (view s) \<Longrightarrow> j < length (view s) \<Longrightarrow>
    \<exists>s1. swap i j s = Some s1 \<and> ok s1 \<and> view s1 = (view s)[i := view s ! j, j := view s ! i]"
begin

lemma partition_loop_run:
  assumes "fair view ok compar" "ok s" "low < sep" "sep \<le> i" "i \<le> hi + 1" "hi < length (view s)"
  shows "\<exists>sep1 s1. partition_loop compar swap low [i..<hi + 1] sep s = Some (sep1, s1) \<and> ok s1 \<and>
    sep \<le> sep1 \<and> sep1 \<le> hi + 1 \<and> rearranged (low + 1) hi (view s) (view s1) \<and>
    (decides view ok compar lt \<longrightarrow> split_at lt (view s) low sep i \<longrightarrow> split_at lt (view s1) low sep1 (hi + 1))"
  using assms(2-)
proof (induction "hi + 1 - i" arbitrary: i sep s)
  case 0
  then show ?case by (auto simp: le_Suc_eq)
next
  case (Suc n)
  then have i: "i \<le> hi" "[i..<hi + 1] = i # [i + 1..<hi + 1]" by (auto simp: upt_rec)
  have inr: "i < length (view s)" "low < length (view s)" "sep < length (view s)" using Suc.prems i by auto
  obtain c s1 where c: "compar i low s = Some (c, s1)" "ok s1" "view s1 = view s"
    using assms(1) Suc.prems(1) inr unfolding fair_def by blast
  have lt: "decides view ok compar lt \<Longrightarrow> c < 0 \<longleftrightarrow> lt (view s ! i) (view s ! low)"
    unfolding decides_def using c(1) Suc.prems(1) inr by blast
  have n: "n = hi + 1 - (i + 1)" using Suc.hyps(2) by simp
  note again = Suc.hyps(1) [OF n]
  show ?case
  proof (cases "c < 0")
    case True
    obtain s2 where s2: "swap i sep s1 = Some s2" "ok s2"
      "view s2 = (view s)[i := view s ! sep, sep := view s ! i]"
      using swap_law [OF c(2), of i sep] inr c(3) by auto
    have bounds: "low < sep + 1" "sep + 1 \<le> i + 1" "i + 1 \<le> hi + 1" "hi < length (view s2)"
      using Suc.prems i(1) s2(3) by auto
    have re: "rearranged (low + 1) hi (view s) (view s2)"
      unfolding s2(3) using inr Suc.prems i by (intro rearranged_swap) auto
    have "decides view ok compar lt \<Longrightarrow> split_at lt (view s) low sep i \<Longrightarrow> split_at lt (view s2) low (sep + 1) (i + 1)"
      unfolding s2(3) using inr Suc.prems i lt True by (intro split_at_take) auto
    moreover obtain sep1 s3 where
      "partition_loop compar swap low [i + 1..<hi + 1] (sep + 1) s2 = Some (sep1, s3)" "ok s3"
      "sep + 1 \<le> sep1" "sep1 \<le> hi + 1" "rearranged (low + 1) hi (view s2) (view s3)"
      "decides view ok compar lt \<longrightarrow> split_at lt (view s2) low (sep + 1) (i + 1) \<longrightarrow> split_at lt (view s3) low sep1 (hi + 1)"
      using again [OF s2(2) bounds] by blast
    ultimately show ?thesis using i(2) c(1) s2(1) True rearranged_trans [OF re]
      by (intro exI [of _ sep1] exI [of _ s3]) simp
  next
    case False
    have bounds: "low < sep" "sep \<le> i + 1" "i + 1 \<le> hi + 1" "hi < length (view s1)"
      using Suc.prems i(1) c(3) by auto
    have "decides view ok compar lt \<Longrightarrow> split_at lt (view s) low sep i \<Longrightarrow> split_at lt (view s1) low sep (i + 1)"
      unfolding c(3) using lt False by (intro split_at_skip) auto
    moreover obtain sep1 s3 where
      "partition_loop compar swap low [i + 1..<hi + 1] sep s1 = Some (sep1, s3)" "ok s3"
      "sep \<le> sep1" "sep1 \<le> hi + 1" "rearranged (low + 1) hi (view s1) (view s3)"
      "decides view ok compar lt \<longrightarrow> split_at lt (view s1) low sep (i + 1) \<longrightarrow> split_at lt (view s3) low sep1 (hi + 1)"
      using again [OF c(2) bounds] by blast
    ultimately show ?thesis using i(2) c(1,3) False
      by (intro exI [of _ sep1] exI [of _ s3]) simp
  qed
qed

lemma qsort_rec_run:
  assumes "fair view ok compar" "ok s" "hi < length (view s) \<or> hi \<le> low"
  shows "\<exists>s1. qsort_rec compar swap low hi s = Some s1 \<and> ok s1 \<and> rearranged low hi (view s) (view s1) \<and>
    (decides view ok compar lt \<longrightarrow> transp lt \<longrightarrow> asymp lt \<longrightarrow> ordered lt (view s1) low hi)"
  using assms(2,3)
proof (induction "hi + 1 - low" arbitrary: low hi s rule: less_induct)
  case less
  show ?case
  proof (cases "hi \<le> low")
    case True
    then show ?thesis using less.prems(1) by (auto simp: qsort_rec.simps ordered_def)
  next
    case False
    then have hi: "low < hi" "hi < length (view s)" using less.prems by auto
    obtain sep s1 where s1: "partition_loop compar swap low [low + 1..<hi + 1] (low + 1) s = Some (sep, s1)"
      "ok s1" "low + 1 \<le> sep" "sep \<le> hi + 1" "rearranged (low + 1) hi (view s) (view s1)"
      and split: "decides view ok compar lt \<longrightarrow> split_at lt (view s) low (low + 1) (low + 1) \<longrightarrow>
        split_at lt (view s1) low sep (hi + 1)"
      using partition_loop_run [OF assms(1) less.prems(1), of low "low + 1" "low + 1" hi lt] hi by auto
    define m where "m = sep - 1"
    have m: "sep = m + 1" "low \<le> m" "m \<le> hi" using s1(3,4) by (auto simp: m_def)
    have len1: "length (view s1) = length (view s)" using s1(5) by (simp add: rearranged_def)
    obtain s2 where s2: "swap low m s1 = Some s2" "ok s2" "view s2 = (view s1)[low := view s1 ! m, m := view s1 ! low]"
      using swap_law [OF s1(2), of low m] m hi len1 by auto
    have len2: "length (view s2) = length (view s)" using s2(3) len1 by simp
    have re2: "rearranged low hi (view s) (view s2)"
    proof (rule rearranged_trans)
      show "rearranged low hi (view s) (view s1)" using s1(5) by (rule rearranged_widen) auto
      show "rearranged low hi (view s1) (view s2)" unfolding s2(3) using m hi len1 by (intro rearranged_swap) auto
    qed
    have part2: "decides view ok compar lt \<longrightarrow> parted lt (view s2) low m hi"
      unfolding s2(3) using split m hi len1 by (auto simp: split_at_def intro!: parted_pivot)
    obtain s3 where s3: "(if 1 < sep then qsort_rec compar swap low (sep - 2) s2 else Some s2) = Some s3" "ok s3"
      "m = 0 \<and> s3 = s2 \<or> 0 < m \<and> rearranged low (m - 1) (view s2) (view s3) \<and>
       (decides view ok compar lt \<longrightarrow> transp lt \<longrightarrow> asymp lt \<longrightarrow> ordered lt (view s3) low (m - 1))"
    proof (cases "m = 0")
      case True
      then show ?thesis using that m(1) s2(2) by simp
    next
      case False
      have "m - 1 + 1 - low < hi + 1 - low" using False m(2,3) hi(1) by simp
      moreover have "m - 1 < length (view s2) \<or> m - 1 \<le> low" using m hi len2 by auto
      ultimately show ?thesis using less.hyps [of "m - 1" low s2] s2(2) that m(1) False by auto
    qed
    have re3: "rearranged low hi (view s2) (view s3)"
      using s3(3) m by (auto intro: rearranged_widen)
    have len3: "length (view s3) = length (view s)" using re3 len2 by (simp add: rearranged_def)
    have "hi + 1 - sep < hi + 1 - low" "hi < length (view s3) \<or> hi \<le> sep" using m hi len3 by auto
    then obtain s4 where s4: "qsort_rec compar swap sep hi s3 = Some s4" "ok s4" "rearranged sep hi (view s3) (view s4)"
      "decides view ok compar lt \<longrightarrow> transp lt \<longrightarrow> asymp lt \<longrightarrow> ordered lt (view s4) sep hi"
      using less.hyps [of hi sep s3] s3(2) by auto
    have re4: "rearranged low hi (view s3) (view s4)" using s4(3) by (rule rearranged_widen) (use m in auto)
    have mid: "swap low (sep - 1) s1 = Some s2" using s2(1) by (simp add: m_def)
    have "qsort_rec compar swap low hi s = Some s4"
      by (subst qsort_rec.simps) (simp only: False s1(1) mid s3(1) s4(1) if_False Option.bind.simps prod.case)
    moreover have "ordered lt (view s4) low hi" if "decides view ok compar lt" "transp lt" "asymp lt"
    proof (rule ordered_join [OF that(2,3)])
      have "parted lt (view s3) low m hi"
      proof (cases "m = 0")
        case True
        then show ?thesis using s3(3) part2 that(1) by simp
      next
        case False
        then have "rearranged low (m - 1) (view s2) (view s3)" using s3(3) by simp
        from parted_rearranged [OF _ m(3) _ this] show ?thesis
          using part2 that(1) hi len2 m False by simp
      qed
      from parted_rearranged [OF this m(3) _ s4(3)] show "parted lt (view s4) low m hi"
        using hi len3 m by simp
      show "ordered lt (view s4) (m + 1) hi" using s4(4) that m(1) by simp
      show "ordered lt (view s4) low (m - 1)" if "0 < m"
        using ordered_rearranged [OF _ s4(3)] s3(3) \<open>decides view ok compar lt\<close> \<open>transp lt\<close> \<open>asymp lt\<close> that m hi len3 by auto
    qed
    ultimately show ?thesis
      using s4(2) rearranged_trans [OF rearranged_trans [OF re2 re3] re4] by blast
  qed
qed

theorem qsort_generic_run:
  assumes "fair view ok compar" "ok s"
  shows "\<exists>s1. qsort_generic (length (view s)) compar swap s = Some s1 \<and> ok s1 \<and> mset (view s1) = mset (view s) \<and>
    (decides view ok compar lt \<longrightarrow> transp lt \<longrightarrow> asymp lt \<longrightarrow> sorted_wrt (\<lambda>x y. \<not> lt y x) (view s1))"
proof (cases "length (view s) < 2")
  case True
  then have "sorted_wrt (\<lambda>x y. \<not> lt y x) (view s)" by (auto simp: sorted_wrt_iff_nth_less)
  then show ?thesis using True assms(2) by (simp add: qsort_generic_def)
next
  case False
  then obtain s1 where s1: "qsort_rec compar swap 0 (length (view s) - 1) s = Some s1" "ok s1"
    "rearranged 0 (length (view s) - 1) (view s) (view s1)"
    "decides view ok compar lt \<longrightarrow> transp lt \<longrightarrow> asymp lt \<longrightarrow> ordered lt (view s1) 0 (length (view s) - 1)"
    using qsort_rec_run [OF assms, of "length (view s) - 1" 0 lt] False by fastforce
  moreover have "ordered lt (view s1) 0 (length (view s) - 1) \<Longrightarrow> sorted_wrt (\<lambda>x y. \<not> lt y x) (view s1)"
    using s1(3) unfolding ordered_def rearranged_def sorted_wrt_iff_nth_less by auto
  ultimately show ?thesis using False by (auto simp: qsort_generic_def rearranged_def)
qed

end

section \<open>The exchanges of the callers\<close>

lemma vec_swap_spec:
  "l < length xs \<Longrightarrow> r < length xs \<Longrightarrow> vec_swap l r xs = Some (xs[l := xs ! r, r := xs ! l])"
  by (simp add: vec_swap_def)

interpretation vec: exchangeable array_swap snd "\<lambda>s. keeps (fst s)" for keeps
  by unfold_locales (auto simp: array_swap_def vec_swap_spec)

definition zipped :: "'e \<times> 'k list \<times> 'v list \<Rightarrow> ('k \<times> 'v) list" where
  "zipped = (\<lambda>(e, ks, vs). zip ks vs)"

definition same_length :: "'e \<times> 'k list \<times> 'v list \<Rightarrow> bool" where
  "same_length = (\<lambda>(e, ks, vs). length ks = length vs)"

lemma zip_swap:
  "length xs = length ys \<Longrightarrow> i < length xs \<Longrightarrow> j < length xs \<Longrightarrow>
   zip (xs[i := xs ! j, j := xs ! i]) (ys[i := ys ! j, j := ys ! i]) =
     (zip xs ys)[i := zip xs ys ! j, j := zip xs ys ! i]"
  by (simp add: zip_update [symmetric])

interpretation pair: exchangeable pair_swap zipped same_length
  by unfold_locales (auto simp: pair_swap_def zipped_def same_length_def vec_swap_spec zip_swap)

definition array_items :: "nat \<Rightarrow> nat \<Rightarrow> nat \<Rightarrow> env \<Rightarrow> u8 list list" where
  "array_items base n sz e = map (\<lambda>i. map (\<lambda>k. mbytes (e_mem e) (base + i * sz + k)) [0..<sz]) [0..<n]"

text \<open>The environment \<open>e0\<close> with other bytes in the array.\<close>

definition sortable :: "nat \<Rightarrow> nat \<Rightarrow> nat \<Rightarrow> env \<Rightarrow> env \<Rightarrow> bool" where
  "sortable base n sz e0 e = (ordinary (e_mem e0) base (n * sz) \<and> n * sz < 4294967296 \<and>
     (\<exists>f. e = e0\<lparr> e_mem := (e_mem e0)\<lparr> mbytes := f \<rparr> \<rparr> \<and>
        (\<forall>a. a < base \<or> base + n * sz \<le> a \<longrightarrow> f a = mbytes (e_mem e0) a)))"

lemma item_address:
  assumes "t < sz" "i * sz \<le> k * sz + t" "k * sz + t < i * sz + sz"
  shows "k = (i :: nat)"
proof -
  have "(k * sz + t) div sz = k" using assms(1) by simp
  moreover have "(k * sz + t) div sz = i"
    using assms(2,3) by (intro div_nat_eqI) (auto simp: algebra_simps)
  ultimately show ?thesis by simp
qed

lemma item_end: "i < n \<Longrightarrow> i * sz + sz \<le> n * (sz :: nat)"
  by (metis Suc_leI add.commute mult_Suc mult_le_mono1)

definition exchange :: "nat \<Rightarrow> nat \<Rightarrow> nat \<Rightarrow> (nat \<Rightarrow> u8) \<Rightarrow> (nat \<Rightarrow> u8)" where
  "exchange p q sz f = put_bytes q (map (\<lambda>k. f (p + k)) [0..<sz]) (put_bytes p (map (\<lambda>k. f (q + k)) [0..<sz]) f)"

lemma exchange_item:
  assumes "i < j" "t < sz"
  shows "exchange (base + i * sz) (base + j * sz) sz f (base + k * sz + t) =
    f (base + (if k = i then j else if k = j then i else k) * sz + t)"
proof -
  have other: "base + i * sz \<le> base + k * sz + t \<and> base + k * sz + t < base + i * sz + sz \<longleftrightarrow> k = i" for i
    using item_address [OF assms(2), of i k] assms(2) by auto
  show ?thesis using assms other [of i] other [of j] by (auto simp: exchange_def put_bytes_def)
qed

lemma exchange_outside:
  assumes "i < n" "j < n" "a < base \<or> base + n * sz \<le> a"
  shows "exchange (base + i * sz) (base + j * sz) sz f a = f a"
  using item_end [OF assms(1), of sz] item_end [OF assms(2), of sz] assms(3)
  by (auto simp: exchange_def put_bytes_def)

lemma swap_slices_guest:
  assumes "p + sz \<le> q" "q + sz \<le> N"
  shows "swap_slices (Guest base N) p (q - p) sz m = Some (m\<lparr> mbytes := exchange (base + p) (base + q) sz (mbytes m) \<rparr>)"
proof -
  have "\<not> q - p < sz" "\<not> N - q < sz" "\<not> N - p < q - p" "\<not> N < p" "p + (q - p) = q" using assms by linarith+
  then show ?thesis by (simp add: swap_slices_def exchange_def Let_def add.assoc)
qed

lemma qsort_swap_exchange:
  assumes "ordinary (e_mem e) base (n * sz)" "n * sz < 4294967296" "i < j" "j < n"
  shows "qsort_swap base n sz i j e =
      Some (e\<lparr> e_mem := (e_mem e)\<lparr> mbytes := exchange (base + i * sz) (base + j * sz) sz (mbytes (e_mem e)) \<rparr> \<rparr>)"
    "qsort_swap base n sz j i e = qsort_swap base n sz i j e"
proof -
  have le: "i * sz + sz \<le> j * sz" "j * sz + sz \<le> n * sz" using assms(3,4) by (simp_all add: item_end)
  have guest: "bytes_at_mut (e_mem e) base (n * sz) = Guest base (n * sz)"
    using assms(1) by (intro bytes_at_mut_guest) (auto simp: ordinary_def BYTES_LEN_def)
  have mod: "(n * sz) mod 4294967296 = n * sz" "(i * sz) mod 4294967296 = i * sz" "(j * sz) mod 4294967296 = j * sz"
    using le assms(2) by simp_all
  have off: "wsub32 (j * sz) (i * sz) = j * sz - i * sz" using le assms(2) by (intro wsub32_exact) linarith+
  have "swap_slices (Guest base (n * sz)) (i * sz) (j * sz - i * sz) sz (e_mem e) =
      Some ((e_mem e)\<lparr> mbytes := exchange (base + i * sz) (base + j * sz) sz (mbytes (e_mem e)) \<rparr>)"
    using le by (rule swap_slices_guest)
  then show "qsort_swap base n sz i j e =
      Some (e\<lparr> e_mem := (e_mem e)\<lparr> mbytes := exchange (base + i * sz) (base + j * sz) sz (mbytes (e_mem e)) \<rparr> \<rparr>)"
    using assms(3) by (simp add: qsort_swap_def guest mod off Let_def)
  show "qsort_swap base n sz j i e = qsort_swap base n sz i j e"
    using assms(3) by (simp add: qsort_swap_def)
qed

lemma array_items_exchange:
  assumes "i < j" "j < n"
  shows "array_items base n sz (e\<lparr> e_mem := m\<lparr> mbytes := exchange (base + i * sz) (base + j * sz) sz (mbytes (e_mem e)) \<rparr> \<rparr>) =
    (array_items base n sz e)[i := array_items base n sz e ! j, j := array_items base n sz e ! i]"
  using assms by (intro nth_equalityI) (auto simp: array_items_def exchange_item nth_list_update)

lemma guest_swap_law:
  assumes ok: "sortable base n sz e0 e" and ij: "i < j" "j < n"
  shows "\<exists>e1. qsort_swap base n sz i j e = Some e1 \<and> sortable base n sz e0 e1 \<and>
    array_items base n sz e1 = (array_items base n sz e)[i := array_items base n sz e ! j, j := array_items base n sz e ! i]"
proof -
  obtain f where f: "e = e0\<lparr> e_mem := (e_mem e0)\<lparr> mbytes := f \<rparr> \<rparr>"
    "\<forall>a. a < base \<or> base + n * sz \<le> a \<longrightarrow> f a = mbytes (e_mem e0) a"
    and ord: "ordinary (e_mem e0) base (n * sz)" "n * sz < 4294967296"
    using ok unfolding sortable_def by blast
  let ?g = "exchange (base + i * sz) (base + j * sz) sz f"
  let ?e1 = "e\<lparr> e_mem := (e_mem e)\<lparr> mbytes := exchange (base + i * sz) (base + j * sz) sz (mbytes (e_mem e)) \<rparr> \<rparr>"
  have "ordinary (e_mem e) base (n * sz)" using ord(1) f(1) by simp
  then have "qsort_swap base n sz i j e = Some ?e1" using qsort_swap_exchange(1) ord(2) ij by blast
  moreover have "?e1 = e0\<lparr> e_mem := (e_mem e0)\<lparr> mbytes := ?g \<rparr> \<rparr>" using f(1) by simp
  moreover have "\<forall>a. a < base \<or> base + n * sz \<le> a \<longrightarrow> ?g a = mbytes (e_mem e0) a"
    using f(2) exchange_outside [of i n j _ base sz f] ij by auto
  ultimately show ?thesis using ord array_items_exchange [OF ij, of base sz e "e_mem e"]
    unfolding sortable_def by (intro exI [of _ ?e1]) blast
qed

interpretation guest: exchangeable "qsort_swap base n sz" "array_items base n sz" "sortable base n sz e0"
  for base n sz e0
proof unfold_locales
  fix e i j
  assume ok: "sortable base n sz e0 e" and "i < length (array_items base n sz e)" "j < length (array_items base n sz e)"
  then have ij: "i < n" "j < n" by (simp_all add: array_items_def)
  let ?xs = "array_items base n sz e"
  consider "i < j" | "i = j" | "j < i" by linarith
  then show "\<exists>e1. qsort_swap base n sz i j e = Some e1 \<and> sortable base n sz e0 e1 \<and>
      array_items base n sz e1 = ?xs[i := ?xs ! j, j := ?xs ! i]"
  proof cases
    case 1
    then show ?thesis using guest_swap_law [OF ok] ij by blast
  next
    case 2
    then show ?thesis using ok by (simp add: qsort_swap_def)
  next
    case 3
    have "ordinary (e_mem e) base (n * sz)" "n * sz < 4294967296" using ok unfolding sortable_def by auto
    then have "qsort_swap base n sz i j e = qsort_swap base n sz j i e" using qsort_swap_exchange(2) 3 ij by blast
    then show ?thesis using guest_swap_law [OF ok 3 ij(1)] list_update_swap [of i j ?xs] 3 by simp
  qed
qed

section \<open>Correctness\<close>

text \<open>A guest comparison that answers by the bytes of the two items and changes nothing.\<close>

definition compares_by :: "(u8 list \<Rightarrow> u8 list \<Rightarrow> int) \<Rightarrow> nat \<Rightarrow> guest_compare \<Rightarrow> bool" where
  "compares_by cmp sz call = (\<forall>p q e. call p q e =
     Some (cmp (map (\<lambda>k. mbytes (e_mem e) (p + k)) [0..<sz]) (map (\<lambda>k. mbytes (e_mem e) (q + k)) [0..<sz]), e))"

lemma qsort_compar_items:
  assumes "compares_by cmp sz call" "sortable base n sz e0 e" "i < n" "j < n"
  shows "qsort_compar base sz call i j e = Some (cmp (array_items base n sz e ! i) (array_items base n sz e ! j), e)"
proof (cases "sz = 0")
  case True
  then show ?thesis using assms(1,3,4)
    by (simp add: compares_by_def qsort_compar_def ptr_add_def array_items_def)
next
  case False
  have top: "base + n * sz \<le> 4294967296" using assms(2) unfolding sortable_def ordinary_def by blast
  have address: "ptr_add 1 base ((k * sz) mod 4294967296) = Some (base + k * sz)" if "k < n" for k
  proof -
    have "base + k * sz < 4294967296" using item_end [OF that, of sz] top False by linarith
    then show ?thesis by (simp add: ptr_add_def wadd32_exact)
  qed
  have "qsort_compar base sz call i j e = call (base + i * sz) (base + j * sz) e"
    unfolding qsort_compar_def address [OF assms(3)] address [OF assms(4)] by simp
  then show ?thesis using assms(1,3,4) by (simp add: compares_by_def array_items_def)
qed

text \<open>
  C10: on an array in ordinary memory, \<open>qsort\<close> with a comparison by content ends without a panic,
  permutes the items of the array and changes nothing else; and if the comparison is a strict order,
  no item of the result is below an earlier one.
\<close>

theorem qsort_sorts:
  assumes "ordinary (e_mem e) base (nitems * sz)" "nitems * sz < 4294967296" "compares_by cmp sz call"
  shows "\<exists>f. qsort base nitems sz call e = Some (e\<lparr> e_mem := (e_mem e)\<lparr> mbytes := f \<rparr> \<rparr>) \<and>
    (\<forall>a. a < base \<or> base + nitems * sz \<le> a \<longrightarrow> f a = mbytes (e_mem e) a) \<and>
    mset (array_items base nitems sz (e\<lparr> e_mem := (e_mem e)\<lparr> mbytes := f \<rparr> \<rparr>)) = mset (array_items base nitems sz e) \<and>
    (transp (\<lambda>x y. cmp x y < 0) \<and> asymp (\<lambda>x y. cmp x y < 0) \<longrightarrow>
       sorted_wrt (\<lambda>x y. \<not> cmp y x < 0) (array_items base nitems sz (e\<lparr> e_mem := (e_mem e)\<lparr> mbytes := f \<rparr> \<rparr>)))"
proof -
  let ?view = "array_items base nitems sz" and ?ok = "sortable base nitems sz e" and ?lt = "\<lambda>x y. cmp x y < 0"
  have start: "?ok e" unfolding sortable_def using assms(1,2) by (intro conjI exI [of _ "mbytes (e_mem e)"]) simp_all
  have len: "length (?view e') = nitems" for e' by (simp add: array_items_def)
  have "fair ?view ?ok (qsort_compar base sz call)" "decides ?view ?ok (qsort_compar base sz call) ?lt"
    unfolding fair_def decides_def len using qsort_compar_items [OF assms(3)] by simp_all
  then obtain e1 where e1: "qsort base nitems sz call e = Some e1" "?ok e1" "mset (?view e1) = mset (?view e)"
    "transp ?lt \<longrightarrow> asymp ?lt \<longrightarrow> sorted_wrt (\<lambda>x y. \<not> cmp y x < 0) (?view e1)"
    using guest.qsort_generic_run [of base nitems sz e "qsort_compar base sz call" e ?lt] start
    unfolding len qsort_def by blast
  obtain f where f: "e1 = e\<lparr> e_mem := (e_mem e)\<lparr> mbytes := f \<rparr> \<rparr>"
    "\<forall>a. a < base \<or> base + nitems * sz \<le> a \<longrightarrow> f a = mbytes (e_mem e) a"
    using e1(2) unfolding sortable_def by blast
  show ?thesis by (intro exI [of _ f]) (use e1 f in simp)
qed

definition first_byte :: "u8 list \<Rightarrow> u8 list \<Rightarrow> int" where
  "first_byte xs ys = (if hd xs < hd ys then -1 else if hd ys < hd xs then 1 else 0)"

definition first_byte_call :: guest_compare where
  "first_byte_call p q e = Some (first_byte [mbytes (e_mem e) p] [mbytes (e_mem e) q], e)"

lemma qsort_sorts_witness:
  "\<exists>e1. qsort 8192 3 1 first_byte_call (env_new (sample [3, 1, 2])) = Some e1 \<and>
     mset (array_items 8192 3 1 e1) = {# [3], [1], [2] #} \<and>
     sorted_wrt (\<lambda>x y. hd x \<le> hd y) (array_items 8192 3 1 e1)"
proof -
  let ?e = "env_new (sample [3, 1, 2])"
  have "ordinary (e_mem ?e) 8192 (3 * 1)" by (simp add: env_new_def sample_ordinary)
  moreover have "compares_by first_byte 1 first_byte_call" by (simp add: compares_by_def first_byte_call_def)
  moreover have "transp (\<lambda>x y. first_byte x y < 0)" "asymp (\<lambda>x y. first_byte x y < 0)"
    by (auto simp: first_byte_def transp_def asymp_on_def split: if_splits)
  moreover have "(\<lambda>x y. \<not> first_byte y x < 0) = (\<lambda>x y. hd x \<le> hd y)"
    by (auto simp: first_byte_def fun_eq_iff)
  moreover have "array_items 8192 3 1 ?e = [[3], [1], [2]]"
    using sample_byte [of "[3, 1, 2]" 0] sample_byte [of "[3, 1, 2]" 1] sample_byte [of "[3, 1, 2]" 2]
    by (simp add: array_items_def env_new_def upt_rec)
  ultimately show ?thesis
    using qsort_sorts [of ?e 8192 3 1 first_byte first_byte_call] by auto
qed

text \<open>The sorting methods of the frameworks, for a comparison that does not touch the arrays.\<close>

lemma sort_using_sorts:
  fixes call :: "nat \<Rightarrow> nat \<Rightarrow> (nat \<Rightarrow> nat list option) \<times> 'e \<Rightarrow> (int \<times> ((nat \<Rightarrow> nat list option) \<times> 'e)) option"
  assumes "arrays this = Some array" "length array < 4294967296"
    and "\<forall>x y st. \<exists>st1. call x y st = Some (cmp x y, st1) \<and> fst st1 = fst st"
    and "transp (\<lambda>x y. cmp x y < 0)" "asymp (\<lambda>x y. cmp x y < 0)"
  shows "\<exists>array1 e1. sort_using call this (arrays, e) = Some (arrays(this \<mapsto> array1), e1) \<and>
    mset array1 = mset array \<and> sorted_wrt (\<lambda>x y. \<not> cmp y x < 0) array1"
proof -
  let ?st = "((arrays(this \<mapsto> []), e), array)" and ?ok = "\<lambda>s. fst (fst s) = arrays(this \<mapsto> [])"
  have step: "\<exists>st1. vec_compar call i j (st, xs) = Some (cmp (xs ! i) (xs ! j), st1, xs) \<and> fst st1 = fst st"
    if "i < length xs" "j < length xs" for i j st xs
  proof -
    obtain st1 where "call (xs ! i) (xs ! j) st = Some (cmp (xs ! i) (xs ! j), st1)" "fst st1 = fst st"
      using assms(3) by blast
    then show ?thesis using that by (simp add: vec_compar_def)
  qed
  have cmp: "fair snd ?ok (vec_compar call)"
    unfolding fair_def
  proof (intro allI impI)
    fix s :: "((nat \<Rightarrow> nat list option) \<times> 'e) \<times> nat list" and i j
    assume "?ok s" "i < length (snd s)" "j < length (snd s)"
    then show "\<exists>c s1. vec_compar call i j s = Some (c, s1) \<and> ?ok s1 \<and> snd s1 = snd s"
      using step [of i "snd s" j "fst s"] by auto
  qed
  have dec: "decides snd ?ok (vec_compar call) (\<lambda>x y. cmp x y < 0)"
    unfolding decides_def
  proof (intro allI impI)
    fix s i j c s1 assume "i < length (snd s)" "j < length (snd s)" "vec_compar call i j s = Some (c, s1)"
    then show "c < 0 \<longleftrightarrow> cmp (snd s ! i) (snd s ! j) < 0"
      using step [of i "snd s" j "fst s"] by auto
  qed
  obtain s1 where s1: "qsort_generic (length array) (vec_compar call) array_swap ?st = Some s1" "?ok s1"
    "mset (snd s1) = mset array" "sorted_wrt (\<lambda>x y. \<not> cmp y x < 0) (snd s1)"
    using vec.qsort_generic_run [of "\<lambda>s. fst s = arrays(this \<mapsto> [])" "vec_compar call" ?st "\<lambda>x y. cmp x y < 0"] cmp dec assms(4,5)
    by auto
  obtain a1 e1 array1 where "s1 = ((a1, e1), array1)" by (metis surj_pair)
  then show ?thesis using s1 assms(1,2)
    by (intro exI [of _ array1] exI [of _ e1]) (simp add: sort_using_def)
qed

lemma keys_sorted_by_value_sorts:
  fixes ks :: "'k list" and vs :: "'v list" and e :: 'e
  assumes "length ks = length vs" "length ks < 4294967296"
    and "\<forall>x y e. \<exists>e1. call x y e = Some (cmp x y, e1)"
    and "transp (\<lambda>x y. cmp x y < 0)" "asymp (\<lambda>x y. cmp x y < 0)"
  shows "\<exists>ks1 vs1 e1. keys_sorted_by_value call ks vs e = Some (ks1, e1) \<and> length vs1 = length ks1 \<and>
    mset (zip ks1 vs1) = mset (zip ks vs) \<and> sorted_wrt (\<lambda>x y. \<not> cmp y x < 0) vs1"
proof -
  have step: "\<exists>e1. pair_compar call i j (e, xs, ys) = Some (cmp (ys ! i) (ys ! j), e1, xs, ys)"
    if "i < length ys" "j < length ys" for i j and e :: 'e and xs :: "'k list" and ys
  proof -
    obtain e1 where "call (ys ! i) (ys ! j) e = Some (cmp (ys ! i) (ys ! j), e1)" using assms(3) by blast
    then show ?thesis using that by (simp add: pair_compar_def)
  qed
  have run: "\<exists>e1. pair_compar call i j s = Some (cmp (snd (zipped s ! i)) (snd (zipped s ! j)), e1, snd s)"
    if "same_length s" "i < length (zipped s)" "j < length (zipped s)" for s :: "'e \<times> 'k list \<times> 'v list" and i j
  proof -
    obtain e xs ys where s: "s = (e, xs, ys)" by (metis surj_pair)
    then show ?thesis using that step [of i ys j e xs] by (simp add: zipped_def same_length_def)
  qed
  have cmp: "fair (zipped :: 'e \<times> 'k list \<times> 'v list \<Rightarrow> ('k \<times> 'v) list) same_length (pair_compar call)"
    unfolding fair_def
  proof (intro allI impI)
    fix s :: "'e \<times> 'k list \<times> 'v list" and i j
    assume "same_length s" "i < length (zipped s)" "j < length (zipped s)"
    moreover from run [OF this] obtain c e1 where "pair_compar call i j s = Some (c, e1, snd s)" by blast
    ultimately show "\<exists>c s1. pair_compar call i j s = Some (c, s1) \<and> same_length s1 \<and> zipped s1 = zipped s"
      by (intro exI [of _ c] exI [of _ "(e1, snd s)"]) (simp add: same_length_def zipped_def split_beta)
  qed
  have dec: "decides (zipped :: 'e \<times> 'k list \<times> 'v list \<Rightarrow> ('k \<times> 'v) list) same_length (pair_compar call) (\<lambda>x y. cmp (snd x) (snd y) < 0)"
    unfolding decides_def
  proof (intro allI impI)
    fix s :: "'e \<times> 'k list \<times> 'v list" and i j c s1
    assume s: "same_length s" "i < length (zipped s)" "j < length (zipped s)"
    assume "pair_compar call i j s = Some (c, s1)"
    then show "c < 0 \<longleftrightarrow> cmp (snd (zipped s ! i)) (snd (zipped s ! j)) < 0"
      using run [OF s] by (elim exE) simp
  qed
  have order: "transp (\<lambda>x y :: 'k \<times> 'v. cmp (snd x) (snd y) < 0)" "asymp (\<lambda>x y :: 'k \<times> 'v. cmp (snd x) (snd y) < 0)"
    using transpI [of "\<lambda>x y :: 'k \<times> 'v. cmp (snd x) (snd y) < 0"] transpD [OF assms(4)]
      asympI [of "\<lambda>x y :: 'k \<times> 'v. cmp (snd x) (snd y) < 0"] asympD [OF assms(5)] by blast+
  have start: "same_length (e, ks, vs)" "length (zipped (e, ks, vs)) = length ks" "zipped (e, ks, vs) = zip ks vs"
    using assms(1) by (simp_all add: same_length_def zipped_def)
  obtain s1 where s1: "qsort_generic (length ks) (pair_compar call) pair_swap (e, ks, vs) = Some s1" "same_length s1"
    "mset (zipped s1) = mset (zip ks vs)" "sorted_wrt (\<lambda>x y. \<not> cmp (snd y) (snd x) < 0) (zipped s1)"
    using pair.qsort_generic_run [OF cmp start(1), of "\<lambda>x y. cmp (snd x) (snd y) < 0"] dec order
    unfolding start(2) unfolding start(3) by blast
  obtain e1 ks1 vs1 where st: "s1 = (e1, ks1, vs1)" by (metis surj_pair)
  have "sorted_wrt (\<lambda>x y. \<not> cmp y x < 0) (map snd (zip ks1 vs1))"
    using s1(4) unfolding st sorted_wrt_map by (simp add: zipped_def)
  then show ?thesis using s1 assms(2) unfolding st
    by (intro exI [of _ ks1] exI [of _ vs1] exI [of _ e1]) (simp add: keys_sorted_by_value_def zipped_def same_length_def)
qed

end
