(* ===== verification/Guest_Paths.thy ===== *)
theory Guest_Paths
  imports Utf8
begin

text \<open>
  Paths of the guest file system: \<open>GuestPath\<close> and \<open>resolve_path\<close> of \<open>src/fs.rs\<close>.  A path is its
  bytes; the separator and the dot are ASCII, so splitting the bytes is splitting the characters.
\<close>

section \<open>Strings\<close>

definition SLASH :: u8 where "SLASH = 0x2F"
definition DOT :: u8 where "DOT = 0x2E"

fun split_slash :: "u8 list \<Rightarrow> u8 list list" where
  "split_slash [] = [[]]"
| "split_slash (c # cs) =
     (if c = SLASH then [] # split_slash cs
      else (c # hd (split_slash cs)) # tl (split_slash cs))"

fun starts_with_slash :: "u8 list \<Rightarrow> bool" where
  "starts_with_slash [] = False"
| "starts_with_slash (c # cs) = (c = SLASH)"

definition trim_end_slashes :: "u8 list \<Rightarrow> u8 list" where
  "trim_end_slashes s = rev (dropWhile (\<lambda>c. c = SLASH) (rev s))"

definition rsplit_once_slash :: "u8 list \<Rightarrow> (u8 list \<times> u8 list) option" where
  "rsplit_once_slash s =
     (let n = length (takeWhile (\<lambda>c. c \<noteq> SLASH) (rev s))
      in if n = length s then None
         else Some (take (length s - n - 1) s, drop (length s - n) s))"

section \<open>Guest paths\<close>

definition guest_join :: "u8 list \<Rightarrow> u8 list \<Rightarrow> u8 list" where
  "guest_join p component = p @ SLASH # component"

definition parent_and_file_name :: "u8 list \<Rightarrow> (u8 list \<times> u8 list) option" where
  "parent_and_file_name p =
     (let path_str = trim_end_slashes p
      in if path_str = [] then None
         else do {
           (parent_name, file_name) \<leftarrow> rsplit_once_slash path_str;
           (if file_name = [] then None else Some (parent_name, file_name)) })"

definition file_name :: "u8 list \<Rightarrow> u8 list option" where
  "file_name p = map_option snd (parent_and_file_name p)"

definition parent :: "u8 list \<Rightarrow> u8 list option" where
  "parent p = map_option fst (parent_and_file_name p)"

definition apply_path_component :: "u8 list \<Rightarrow> u8 list list \<Rightarrow> u8 list list" where
  "apply_path_component component components =
     (if component = [] then components
      else if component = [DOT] then components
      else if component = [DOT, DOT] then butlast components
      else components @ [component])"

definition marker :: "u8 list list" where
  "marker = [bytes_of ''var'', bytes_of ''mobile'', bytes_of ''Applications'']"

text \<open>The first window of the list that equals \<open>m\<close>.\<close>

fun window_position :: "'a list \<Rightarrow> 'a list \<Rightarrow> nat option" where
  "window_position m [] = None"
| "window_position m (x # xs) =
     (if take (length m) (x # xs) = m then Some 0 else map_option Suc (window_position m xs))"

definition strip_duplicate :: "u8 list list \<Rightarrow> u8 list list" where
  "strip_duplicate components =
     (if 6 < length components then
        (case window_position marker components of
           None \<Rightarrow> components
         | Some dup_start \<Rightarrow>
             (case window_position marker (drop (dup_start + 1) components) of
                None \<Rightarrow> components
              | Some second_pos \<Rightarrow> drop (dup_start + 1 + second_pos) components))
      else components)"

definition resolve_path :: "u8 list \<Rightarrow> u8 list option \<Rightarrow> u8 list list option" where
  "resolve_path path relative_to = do {
     components \<leftarrow> (if starts_with_slash path then Some []
       else do {
         relative_to \<leftarrow> relative_to;
         (if starts_with_slash relative_to
          then Some (fold apply_path_component (split_slash relative_to) []) else None) });
     Some (strip_duplicate (fold apply_path_component (split_slash path) components)) }"

text \<open>The absolute path of a list of components, as \<open>change_working_directory\<close> puts it together.\<close>

definition absolute_path :: "u8 list list \<Rightarrow> u8 list" where
  "absolute_path resolved =
     (if resolved = [] then [SLASH] else concat (map (\<lambda>component. SLASH # component) resolved))"

section \<open>Splitting\<close>

lemma split_slash_nonempty [simp]: "split_slash s \<noteq> []"
  by (induction s) auto

lemma split_slash_parts: "\<forall>c \<in> set (split_slash s). SLASH \<notin> set c"
  by (induction s) (auto simp: hd_in_set list.set_sel(2))

lemma split_slash_plain: "SLASH \<notin> set c \<Longrightarrow> split_slash c = [c]"
  by (induction c) auto

lemma split_slash_append: "split_slash (s @ SLASH # t) = split_slash s @ split_slash t"
  by (induction s) auto

lemma rsplit_once_slash_append:
  assumes "SLASH \<notin> set c"
  shows "rsplit_once_slash (s @ SLASH # c) = Some (s, c)"
proof -
  have "takeWhile (\<lambda>x. x \<noteq> SLASH) (rev (s @ SLASH # c)) = rev c"
    using assms by (simp add: takeWhile_append)
  then show ?thesis by (simp add: rsplit_once_slash_def)
qed

lemma trim_end_slashes_plain: "c \<noteq> [] \<Longrightarrow> SLASH \<notin> set c \<Longrightarrow> trim_end_slashes (s @ c) = s @ c"
  by (cases c rule: rev_cases) (auto simp: trim_end_slashes_def)

section \<open>Components\<close>

definition component_ok :: "u8 list \<Rightarrow> bool" where
  "component_ok c = (c \<noteq> [] \<and> c \<noteq> [DOT] \<and> c \<noteq> [DOT, DOT] \<and> SLASH \<notin> set c)"

abbreviation components_ok :: "u8 list list \<Rightarrow> bool" where
  "components_ok cs \<equiv> list_all component_ok cs"

definition walk :: "u8 list list \<Rightarrow> u8 list list \<Rightarrow> u8 list list" where
  "walk = fold apply_path_component"

lemma walk_simps [simp]:
  "walk [] cs = cs" "walk (c # ps) cs = walk ps (apply_path_component c cs)"
  "walk (ps @ qs) cs = walk qs (walk ps cs)"
  by (simp_all add: walk_def)

lemma walk_ok:
  "components_ok cs \<Longrightarrow> \<forall>c \<in> set ps. SLASH \<notin> set c \<Longrightarrow> components_ok (walk ps cs)"
proof (induction ps arbitrary: cs)
  case (Cons c ps)
  have "components_ok (apply_path_component c cs)"
    using Cons.prems by (auto simp: apply_path_component_def component_ok_def list_all_iff dest: in_set_butlastD)
  then show ?case using Cons by simp
qed simp

lemma walk_components: "components_ok ps \<Longrightarrow> walk ps cs = cs @ ps"
  by (induction ps arbitrary: cs) (auto simp: apply_path_component_def component_ok_def)

lemma walk_split_ok: "components_ok cs \<Longrightarrow> components_ok (walk (split_slash s) cs)"
  by (rule walk_ok) (use split_slash_parts in auto)

lemma strip_duplicate_suffix: "\<exists>n. strip_duplicate cs = drop n cs"
  by (auto simp: strip_duplicate_def split: option.splits intro: exI [of _ 0])

lemma strip_duplicate_ok: "components_ok cs \<Longrightarrow> components_ok (strip_duplicate cs)"
  using strip_duplicate_suffix [of cs] set_drop_subset by (fastforce simp: list_all_iff)

lemma resolve_path_walk:
  "resolve_path path rel = (if starts_with_slash path then Some (strip_duplicate (walk (split_slash path) []))
     else case rel of
       None \<Rightarrow> None
     | Some r \<Rightarrow> (if starts_with_slash r then Some (strip_duplicate (walk (split_slash path) (walk (split_slash r) []))) else None))"
  by (simp add: resolve_path_def walk_def split: option.splits)

lemma resolve_path_ok:
  "resolve_path path rel = Some cs \<Longrightarrow> components_ok cs"
  by (auto simp: resolve_path_walk strip_duplicate_ok walk_split_ok split: if_splits option.splits)

lemma split_absolute_path:
  "components_ok cs \<Longrightarrow> cs \<noteq> [] \<Longrightarrow> split_slash (absolute_path cs) = [] # cs"
proof -
  have "components_ok cs \<Longrightarrow> split_slash (concat (map (\<lambda>c. SLASH # c) cs)) = (if cs = [] then [[]] else [] # cs)"
  proof (induction cs rule: rev_induct)
    case (snoc c cs)
    then show ?case by (auto simp: split_slash_append split_slash_plain component_ok_def)
  qed simp
  then show "components_ok cs \<Longrightarrow> cs \<noteq> [] \<Longrightarrow> split_slash (absolute_path cs) = [] # cs"
    by (simp add: absolute_path_def)
qed

lemma walk_absolute_path: "components_ok cs \<Longrightarrow> walk (split_slash (absolute_path cs)) [] = cs"
proof (cases "cs = []")
  case True
  then show ?thesis by (simp add: absolute_path_def apply_path_component_def)
next
  case False
  then show "components_ok cs \<Longrightarrow> walk (split_slash (absolute_path cs)) [] = cs"
    using split_absolute_path [of cs] walk_components [of cs "[]"] by (simp add: apply_path_component_def)
qed

lemma absolute_path_starts: "starts_with_slash (absolute_path cs)"
  by (cases cs) (auto simp: absolute_path_def)

lemma resolve_absolute_path: "components_ok cs \<Longrightarrow> resolve_path (absolute_path cs) rel = Some (strip_duplicate cs)"
  by (simp add: resolve_path_walk absolute_path_starts walk_absolute_path)

lemma parent_and_file_name_last:
  assumes "components_ok (cs @ [c])"
  shows "parent_and_file_name (absolute_path (cs @ [c])) =
    Some (if cs = [] then [] else absolute_path cs, c)"
proof -
  let ?p = "concat (map (\<lambda>c. SLASH # c) cs)"
  have c: "c \<noteq> []" "SLASH \<notin> set c" using assms by (simp_all add: component_ok_def)
  have "absolute_path (cs @ [c]) = (?p @ [SLASH]) @ c" by (simp add: absolute_path_def)
  moreover have "trim_end_slashes ((?p @ [SLASH]) @ c) = (?p @ [SLASH]) @ c" using c by (rule trim_end_slashes_plain)
  moreover have "rsplit_once_slash (?p @ SLASH # c) = Some (?p, c)" using c(2) by (rule rsplit_once_slash_append)
  ultimately show ?thesis using c by (simp add: parent_and_file_name_def absolute_path_def)
qed

section \<open>Correctness\<close>

text \<open>
  The reference reads the parts of the path from the end: a name is kept unless a later \<open>..\<close> cancels it, and
  each \<open>..\<close> cancels the nearest name before it that is still kept.
\<close>

fun kept_from_end :: "nat \<Rightarrow> u8 list list \<Rightarrow> u8 list list" where
  "kept_from_end n [] = []"
| "kept_from_end n (c # cs) =
     (if c = [] \<or> c = [DOT] then kept_from_end n cs
      else if c = [DOT, DOT] then kept_from_end (Suc n) cs
      else if n = 0 then c # kept_from_end 0 cs
      else kept_from_end (n - 1) cs)"

definition kept_names :: "u8 list list \<Rightarrow> u8 list list" where
  "kept_names parts = rev (kept_from_end 0 (rev parts))"

lemma kept_from_end_drop: "kept_from_end n cs = drop n (kept_from_end 0 cs)"
proof (induction cs arbitrary: n)
  case (Cons c cs)
  show ?case
  proof (cases "c = [] \<or> c = [DOT] \<or> c = [DOT, DOT]")
    case True
    then show ?thesis
      using Cons [of n] Cons [of "Suc n"] Cons [of 1]
      by (auto simp: drop_Suc drop_tl tl_drop [symmetric])
  next
    case False
    then show ?thesis using Cons [of "n - 1"] by (cases n) simp_all
  qed
qed simp

lemma walk_kept: "walk parts [] = kept_names parts"
proof (induction parts rule: rev_induct)
  case (snoc c parts)
  show ?case
  proof (cases "c = [] \<or> c = [DOT]")
    case True
    then show ?thesis using snoc by (auto simp: kept_names_def apply_path_component_def)
  next
    case False
    show ?thesis
    proof (cases "c = [DOT, DOT]")
      case True
      have "rev (drop 1 (kept_from_end 0 (rev parts))) = butlast (rev (kept_from_end 0 (rev parts)))"
        by (simp add: butlast_rev drop_Suc)
      then show ?thesis using True False snoc kept_from_end_drop [of "Suc 0" "rev parts"]
        by (simp add: kept_names_def apply_path_component_def)
    next
      case c: False
      then show ?thesis using False snoc by (simp add: kept_names_def apply_path_component_def)
    qed
  qed
qed (simp add: kept_names_def)

text \<open>The places where the path of the application directory begins; the text from the second one on is kept.\<close>

definition marker_places :: "u8 list list \<Rightarrow> nat list" where
  "marker_places names = filter (\<lambda>i. take (length marker) (drop i names) = marker) [0..<length names]"

definition without_duplicate :: "u8 list list \<Rightarrow> u8 list list" where
  "without_duplicate names =
     (if length names \<le> 6 then names
      else case marker_places names of i # j # _ \<Rightarrow> drop j names | _ \<Rightarrow> names)"

lemma marker_places_Cons:
  "marker_places (x # xs) = (if take (length marker) (x # xs) = marker then [0] else []) @ map Suc (marker_places xs)"
proof -
  have "[0..<length (x # xs)] = 0 # map Suc [0..<length xs]" by (simp add: upt_conv_Cons map_Suc_upt del: upt_Suc)
  then show ?thesis unfolding marker_places_def by (simp add: filter_map comp_def)
qed

lemma marker_places_Nil: "marker_places [] = []"
  by (simp add: marker_places_def)

lemma window_position_places:
  "window_position marker xs = (case marker_places xs of [] \<Rightarrow> None | i # _ \<Rightarrow> Some i)"
proof (induction xs)
  case Nil
  then show ?case by (simp add: marker_places_Nil)
next
  case (Cons x xs)
  then show ?case by (cases "marker_places xs") (simp_all add: marker_places_Cons)
qed

lemma marker_places_rest:
  "marker_places xs = i # rest \<Longrightarrow> map (\<lambda>k. i + 1 + k) (marker_places (drop (i + 1) xs)) = rest"
proof (induction xs arbitrary: i rest)
  case Nil
  then show ?case by (simp add: marker_places_Nil)
next
  case (Cons x xs)
  show ?case
  proof (cases "take (length marker) (x # xs) = marker")
    case True
    then have "i = 0" "rest = map Suc (marker_places xs)" using Cons.prems by (simp_all add: marker_places_Cons)
    then show ?thesis by (simp add: comp_def)
  next
    case False
    then have "map Suc (marker_places xs) = i # rest" using Cons.prems by (simp add: marker_places_Cons)
    then obtain i' rest' where r: "marker_places xs = i' # rest'" "i = Suc i'" "rest = map Suc rest'"
      by (cases "marker_places xs") auto
    from Cons.IH [OF r(1)] show ?thesis unfolding r(2,3) by (auto simp: comp_def)
  qed
qed

lemma strip_duplicate_spec: "strip_duplicate names = without_duplicate names"
proof (cases "6 < length names")
  case False
  then show ?thesis by (simp add: strip_duplicate_def without_duplicate_def)
next
  case True
  show ?thesis
  proof (cases "marker_places names")
    case Nil
    then show ?thesis using True by (simp add: strip_duplicate_def without_duplicate_def window_position_places)
  next
    case (Cons i rest)
    have rest: "map (\<lambda>k. i + 1 + k) (marker_places (drop (i + 1) names)) = rest"
      by (rule marker_places_rest [OF Cons])
    show ?thesis
    proof (cases "marker_places (drop (i + 1) names)")
      case Nil
      then show ?thesis using True Cons rest
        by (simp add: strip_duplicate_def without_duplicate_def window_position_places)
    next
      case (Cons k ks)
      then show ?thesis using True \<open>marker_places names = i # rest\<close> rest
        by (auto simp: strip_duplicate_def without_duplicate_def window_position_places)
    qed
  qed
qed

text \<open>
  C14: against an absolute directory every path resolves without a panic, to the names of the path, joined
  to the directory if it is relative, that no later \<open>..\<close> cancels, in order, without empty parts and dots; if more than
  six remain and the path of the application directory occurs in them twice, to those from the second occurrence on.
  The parent and the file name of the resulting path are the components before the last one, and the last one.
\<close>

theorem resolve_path_correct:
  assumes "starts_with_slash dir"
  shows "\<exists>cs. resolve_path path (Some dir) = Some cs \<and>
    cs = without_duplicate (kept_names (split_slash (if starts_with_slash path then path else guest_join dir path))) \<and>
    components_ok cs \<and>
    (cs \<noteq> [] \<longrightarrow> parent_and_file_name (absolute_path cs) =
       Some (if butlast cs = [] then [] else absolute_path (butlast cs), last cs))"
proof -
  obtain cs where cs: "resolve_path path (Some dir) = Some cs"
    using assms by (cases "starts_with_slash path") (simp_all add: resolve_path_walk)
  then have ok: "components_ok cs" by (rule resolve_path_ok)
  have "cs = without_duplicate (kept_names (split_slash (if starts_with_slash path then path else guest_join dir path)))"
    using cs assms by (auto simp: resolve_path_walk strip_duplicate_spec guest_join_def split_slash_append
        walk_kept [symmetric] split: if_splits)
  moreover have "parent_and_file_name (absolute_path cs) =
      Some (if butlast cs = [] then [] else absolute_path (butlast cs), last cs)" if "cs \<noteq> []"
    using parent_and_file_name_last [of "butlast cs" "last cs"] ok that by simp
  ultimately show ?thesis using cs ok by blast
qed

lemma resolve_path_correct_witness:
  "resolve_path (bytes_of ''../x/./y//z'') (Some (bytes_of ''/a/b'')) = Some [bytes_of ''a'', bytes_of ''x'', bytes_of ''y'', bytes_of ''z'']"
proof -
  have "starts_with_slash (bytes_of ''/a/b'')" "\<not> starts_with_slash (bytes_of ''../x/./y//z'')"
    by (simp_all add: bytes_of_def SLASH_def)
  moreover have "without_duplicate (kept_names (split_slash (guest_join (bytes_of ''/a/b'') (bytes_of ''../x/./y//z''))))
      = [bytes_of ''a'', bytes_of ''x'', bytes_of ''y'', bytes_of ''z'']"
    by (simp add: bytes_of_def SLASH_def DOT_def guest_join_def kept_names_def without_duplicate_def)
  ultimately show ?thesis using resolve_path_correct [of "bytes_of ''/a/b''" "bytes_of ''../x/./y//z''"] by simp
qed

text \<open>The parent of a path in the root directory is the empty path, which is relative.\<close>

lemma parent_in_root:
  "parent (bytes_of ''/x'') = Some []"
  "resolve_path [] (Some (bytes_of ''/a/b'')) = Some [bytes_of ''a'', bytes_of ''b'']"
  by (simp_all add: parent_def parent_and_file_name_def trim_end_slashes_def rsplit_once_slash_def bytes_of_def
      SLASH_def DOT_def resolve_path_def apply_path_component_def strip_duplicate_def)

end
