(* ===== verification/Guest_Fs.thy ===== *)
theory Guest_Fs
  imports Guest_Paths "HOL-Library.AList"
begin

text \<open>
  The guest file system: the tree of nodes and the operations of \<open>Fs\<close> in \<open>src/fs.rs\<close>.  The host
  file system is a parameter: a record of the host calls the code makes, on an arbitrary host state.
  A host path is the list of its components; joining a name appends it.
\<close>

section \<open>Nodes\<close>

type_synonym hpath = "u8 list list"

text \<open>A reference to a member of the application archive is its number.\<close>

datatype location = HostPath hpath | IpaFileRef nat | ResourceFilePath "u8 list"

datatype fs_error =
  AccessDenied | AlreadyExist | DirectoryNotEmpty | DoesNotExist | InvalidParentDir
| NonexistentParentDir | ReadonlyParentDir

datatype fs_node = File location bool | Directory "(u8 list \<times> fs_node) list" "hpath option"

definition fs_dir :: fs_node where
  "fs_dir = Directory [] None"

fun with_child :: "u8 list \<Rightarrow> fs_node \<Rightarrow> fs_node \<Rightarrow> fs_node option" where
  "with_child name child (File _ _) = None"
| "with_child name child (Directory children w) =
     (if map_of children name = None then Some (Directory (AList.update name child children) w) else None)"

definition resource_file :: "u8 list \<Rightarrow> fs_node" where
  "resource_file name = File (ResourceFilePath name) False"

definition bundle_zip_file :: "nat \<Rightarrow> fs_node" where
  "bundle_zip_file file_ref = File (IpaFileRef file_ref) False"

fun update_host_paths_recursively :: "fs_node \<Rightarrow> hpath \<Rightarrow> fs_node" where
  "update_host_paths_recursively (File (HostPath p) w) new_host_path = File (HostPath new_host_path) w"
| "update_host_paths_recursively (Directory children (Some p)) new_host_path =
     Directory (map (\<lambda>(name, child). (name, update_host_paths_recursively child (new_host_path @ [name]))) children)
       (Some new_host_path)"
| "update_host_paths_recursively node new_host_path = node"

text \<open>What a directory of the host holds, links followed; anything else than files and directories panics.\<close>

datatype host_entry = HostFileEntry | HostDirEntry "(u8 list \<times> host_entry) list" | HostOther

fun from_host :: "hpath \<Rightarrow> bool \<Rightarrow> host_entry \<Rightarrow> fs_node option" where
  "from_host host_path writeable HostFileEntry = Some (File (HostPath host_path) writeable)"
| "from_host host_path writeable (HostDirEntry entries) =
     map_option (\<lambda>children. Directory children (if writeable then Some host_path else None))
       (those (map (\<lambda>(name, entry). map_option (Pair name) (from_host (host_path @ [name]) writeable entry)) entries))"
| "from_host host_path writeable HostOther = None"

text \<open>Adding, replacing and removing one child; the callers have checked that the node is a directory.\<close>

fun set_child :: "u8 list \<Rightarrow> fs_node \<Rightarrow> fs_node \<Rightarrow> fs_node" where
  "set_child name child (Directory children w) = Directory (AList.update name child children) w"
| "set_child name child (File l w) = File l w"

fun del_child :: "u8 list \<Rightarrow> fs_node \<Rightarrow> fs_node" where
  "del_child name (Directory children w) = Directory (AList.delete name children) w"
| "del_child name (File l w) = File l w"

section \<open>The host and the open flags\<close>

record open_options =
  o_read :: bool
  o_write :: bool
  o_append :: bool
  o_create :: bool
  o_create_new :: bool
  o_truncate :: bool

definition guest_open_options_new :: open_options where
  "guest_open_options_new = \<lparr> o_read = False, o_write = False, o_append = False, o_create = False,
     o_create_new = False, o_truncate = False \<rparr>"

datatype create_result = Created | AlreadyExists | CreateFailed

record 'h host =
  host_exists :: "hpath \<Rightarrow> 'h \<Rightarrow> bool"
  host_open :: "hpath \<Rightarrow> open_options \<Rightarrow> 'h \<Rightarrow> bool \<times> 'h"
  host_write :: "hpath \<Rightarrow> u8 list \<Rightarrow> 'h \<Rightarrow> bool \<times> 'h"
  host_create_dir :: "hpath \<Rightarrow> 'h \<Rightarrow> create_result \<times> 'h"
  host_create_dir_all :: "hpath \<Rightarrow> 'h \<Rightarrow> bool \<times> 'h"
  host_remove_file :: "hpath \<Rightarrow> 'h \<Rightarrow> bool \<times> 'h"
  host_remove_dir :: "hpath \<Rightarrow> 'h \<Rightarrow> bool \<times> 'h"
  host_rename :: "hpath \<Rightarrow> hpath \<Rightarrow> 'h \<Rightarrow> bool \<times> 'h"
  host_resource :: "u8 list \<Rightarrow> bool"
  ipa_read :: "nat \<Rightarrow> u8 list option"

text \<open>An opened file: where it is, with the flags the host was given.\<close>

datatype guest_file =
  HostFile hpath open_options | IpaBundleFile nat | ResourceFile "u8 list" | DirectoryFile

section \<open>The file system\<close>

record fs =
  root :: fs_node
  working_directory :: "u8 list"
  home_directory :: "u8 list"
  cow_dir :: "hpath option"

definition new_fake_fs :: fs where
  "new_fake_fs = \<lparr> root = fs_dir, working_directory = [], home_directory = [], cow_dir = None \<rparr>"

fun lookup_node_inner :: "fs_node \<Rightarrow> u8 list list \<Rightarrow> fs_node option" where
  "lookup_node_inner node [] = Some node"
| "lookup_node_inner (File _ _) (component # rest) = None"
| "lookup_node_inner (Directory children w) (component # rest) =
     (case map_of children component of None \<Rightarrow> None | Some node \<Rightarrow> lookup_node_inner node rest)"

text \<open>Changing the node a path leads to.\<close>

fun update_node :: "(fs_node \<Rightarrow> fs_node) \<Rightarrow> fs_node \<Rightarrow> u8 list list \<Rightarrow> fs_node" where
  "update_node f node [] = f node"
| "update_node f (File l w) (component # rest) = File l w"
| "update_node f (Directory children w) (component # rest) =
     (case map_of children component of
        None \<Rightarrow> Directory children w
      | Some node \<Rightarrow> Directory (AList.update component (update_node f node rest) children) w)"

definition resolved :: "fs \<Rightarrow> u8 list \<Rightarrow> u8 list list option" where
  "resolved s path = resolve_path path (Some (working_directory s))"

definition lookup_node :: "fs \<Rightarrow> u8 list \<Rightarrow> fs_node option option" where
  "lookup_node s path = map_option (lookup_node_inner (root s)) (resolved s path)"

text \<open>The components of the parent, the parent and the last component.\<close>

definition lookup_parent_node :: "fs \<Rightarrow> u8 list \<Rightarrow> (u8 list list \<times> fs_node \<times> u8 list) option option" where
  "lookup_parent_node s path = do {
     components \<leftarrow> resolved s path;
     Some (if components = [] then None
       else map_option (\<lambda>parent. (butlast components, parent, last components))
              (lookup_node_inner (root s) (butlast components))) }"

definition change_root :: "(fs_node \<Rightarrow> fs_node) \<Rightarrow> u8 list list \<Rightarrow> fs \<Rightarrow> fs" where
  "change_root f components s = s\<lparr> root := update_node f (root s) components \<rparr>"

fun is_directory :: "fs_node \<Rightarrow> bool" where
  "is_directory (Directory _ _) = True"
| "is_directory (File _ _) = False"

definition change_working_directory :: "u8 list \<Rightarrow> fs \<Rightarrow> ((unit + u8 list) \<times> fs) option" where
  "change_working_directory new_path s = do {
     resolved \<leftarrow> resolved s new_path;
     (case lookup_node_inner (root s) resolved of
        Some (Directory _ _) \<Rightarrow>
          (let new_path = absolute_path resolved
           in Some (Inr new_path, s\<lparr> working_directory := new_path \<rparr>))
      | _ \<Rightarrow> Some (Inl (), s)) }"

definition fs_exists :: "fs \<Rightarrow> u8 list \<Rightarrow> bool option" where
  "fs_exists s path = map_option (\<lambda>n. n \<noteq> None) (lookup_node s path)"

fun node_access :: "fs_node option \<Rightarrow> bool \<times> bool \<times> bool \<times> bool" where
  "node_access None = (False, False, False, False)"
| "node_access (Some (File _ writeable)) = (True, True, writeable, False)"
| "node_access (Some (Directory _ writeable)) = (True, True, writeable \<noteq> None, True)"

definition fs_access :: "fs \<Rightarrow> u8 list \<Rightarrow> (bool \<times> bool \<times> bool \<times> bool) option" where
  "fs_access s path = map_option node_access (lookup_node s path)"

definition fs_is_file :: "fs \<Rightarrow> u8 list \<Rightarrow> bool option" where
  "fs_is_file s path = map_option (\<lambda>n. case n of Some (File _ _) \<Rightarrow> True | _ \<Rightarrow> False) (lookup_node s path)"

definition fs_is_dir :: "fs \<Rightarrow> u8 list \<Rightarrow> bool option" where
  "fs_is_dir s path = map_option (\<lambda>n. case n of Some (Directory _ _) \<Rightarrow> True | _ \<Rightarrow> False) (lookup_node s path)"

definition fs_enumerate :: "fs \<Rightarrow> u8 list \<Rightarrow> (unit + u8 list list) option" where
  "fs_enumerate s path = map_option
     (\<lambda>n. case n of Some (Directory children _) \<Rightarrow> Inr (map fst children) | _ \<Rightarrow> Inl ()) (lookup_node s path)"

definition fs_enumerate_with_types :: "fs \<Rightarrow> u8 list \<Rightarrow> (unit + (u8 list \<times> bool) list) option" where
  "fs_enumerate_with_types s path = map_option
     (\<lambda>n. case n of Some (Directory children _) \<Rightarrow> Inr (map (\<lambda>(name, node). (name, is_directory node)) children)
        | _ \<Rightarrow> Inl ()) (lookup_node s path)"

text \<open>The two stacks of \<open>enumerate_recursive\<close>, with their tops in front.\<close>

fun join_components :: "u8 list list \<Rightarrow> u8 list" where
  "join_components [] = []"
| "join_components [c] = c"
| "join_components (c # cs) = c @ SLASH # join_components cs"

partial_function (option) enumerate_loop ::
    "u8 list list \<Rightarrow> (u8 list \<times> fs_node) list list \<Rightarrow> u8 list list \<Rightarrow> u8 list list option" where
  "enumerate_loop component_stack iterator_stack paths =
     (case iterator_stack of
        [] \<Rightarrow> None
      | [] # iterators \<Rightarrow>
          (case component_stack of
             [] \<Rightarrow> (if iterators = [] then Some paths else None)
           | _ # components \<Rightarrow> enumerate_loop components iterators paths)
      | ((next_component, next_node) # siblings) # iterators \<Rightarrow>
          (let stack = next_component # component_stack;
               paths1 = paths @ [join_components (rev stack)]
           in (case next_node of
                 Directory children _ \<Rightarrow> enumerate_loop stack (children # siblings # iterators) paths1
               | File _ _ \<Rightarrow> enumerate_loop component_stack (siblings # iterators) paths1)))"

definition enumerate_recursive :: "fs \<Rightarrow> u8 list \<Rightarrow> (unit + u8 list list) option" where
  "enumerate_recursive s path = do {
     node \<leftarrow> lookup_node s path;
     (case node of
        Some (Directory children _) \<Rightarrow> map_option Inr (enumerate_loop [] [children] [])
      | _ \<Rightarrow> Some (Inl ())) }"

section \<open>Changing the tree\<close>

text \<open>The result of an operation with the file system and the host it leaves.\<close>

type_synonym ('a, 'h) fs_result = "('a \<times> fs \<times> 'h) option"

definition fs_create_dir :: "'h host \<Rightarrow> u8 list \<Rightarrow> fs \<Rightarrow> 'h \<Rightarrow> (fs_error + unit, 'h) fs_result" where
  "fs_create_dir ops path s h = do {
     found \<leftarrow> lookup_parent_node s path;
     (case found of
        None \<Rightarrow> Some (Inl NonexistentParentDir, s, h)
      | Some (_, File _ _, _) \<Rightarrow> Some (Inl InvalidParentDir, s, h)
      | Some (parents, Directory children dir_host_path, new_dir_name) \<Rightarrow>
          (if map_of children new_dir_name \<noteq> None then Some (Inl AlreadyExist, s, h)
           else case dir_host_path of
             None \<Rightarrow> Some (Inl ReadonlyParentDir, s, h)
           | Some dir_host_path \<Rightarrow>
               (if SLASH \<in> set new_dir_name then None
                else let host_path = dir_host_path @ [new_dir_name] in
                  case host_create_dir ops host_path h of
                    (CreateFailed, h1) \<Rightarrow> None
                  | (_, h1) \<Rightarrow>
                      Some (Inr (), change_root (set_child new_dir_name (Directory [] (Some host_path))) parents s, h1)))) }"

fun create_dirs :: "'h host \<Rightarrow> u8 list \<Rightarrow> u8 list list \<Rightarrow> fs \<Rightarrow> 'h \<Rightarrow> (fs_error + unit, 'h) fs_result" where
  "create_dirs ops current_path [] s h = Some (Inr (), s, h)"
| "create_dirs ops current_path (component # rest) s h = do {
     let current_path = current_path @ SLASH # component;
     (r, s1, h1) \<leftarrow> fs_create_dir ops current_path s h;
     (if r = Inr () \<or> r = Inl AlreadyExist then create_dirs ops current_path rest s1 h1 else Some (r, s1, h1)) }"

definition fs_create_dir_all :: "'h host \<Rightarrow> u8 list \<Rightarrow> fs \<Rightarrow> 'h \<Rightarrow> (fs_error + unit, 'h) fs_result" where
  "fs_create_dir_all ops path s h = do {
     components \<leftarrow> resolved s path;
     create_dirs ops [] components s h }"

definition fs_remove :: "'h host \<Rightarrow> u8 list \<Rightarrow> fs \<Rightarrow> 'h \<Rightarrow> (fs_error + unit, 'h) fs_result" where
  "fs_remove ops path s h = do {
     found \<leftarrow> lookup_parent_node s path;
     (case found of
        None \<Rightarrow> Some (Inl NonexistentParentDir, s, h)
      | Some (_, File _ _, _) \<Rightarrow> Some (Inl InvalidParentDir, s, h)
      | Some (parents, Directory children dir_writeable, node_name) \<Rightarrow>
          (if dir_writeable = None then Some (Inl ReadonlyParentDir, s, h)
           else case map_of children node_name of
             None \<Rightarrow> Some (Inl DoesNotExist, s, h)
           | Some (File location writeable) \<Rightarrow>
               (if \<not> writeable then Some (Inl AccessDenied, s, h)
                else case location of
                  HostPath host_path \<Rightarrow>
                    (case host_remove_file ops host_path h of (removed, h1) \<Rightarrow>
                       if removed then Some (Inr (), change_root (del_child node_name) parents s, h1) else None)
                | _ \<Rightarrow> None)
           | Some (Directory children writeable) \<Rightarrow>
               (if children \<noteq> [] then Some (Inl DirectoryNotEmpty, s, h)
                else case writeable of
                  None \<Rightarrow> Some (Inl AccessDenied, s, h)
                | Some host_path \<Rightarrow>
                    (case host_remove_dir ops host_path h of (removed, h1) \<Rightarrow>
                       if removed then Some (Inr (), change_root (del_child node_name) parents s, h1) else None)))) }"

text \<open>The host path of a node that may be moved.\<close>

fun movable :: "fs_node option \<Rightarrow> hpath option" where
  "movable (Some (File (HostPath p) True)) = Some p"
| "movable (Some (Directory children (Some p))) = Some p"
| "movable node = None"

text \<open>The writeable host path of the new parent.\<close>

fun new_home :: "(u8 list list \<times> fs_node \<times> u8 list) option \<Rightarrow> hpath option" where
  "new_home (Some (parents, Directory children (Some p), name)) = Some p"
| "new_home found = None"

text \<open>Taking a node out; an unwrap or \<open>unreachable!\<close> when it is not there.\<close>

definition take_node :: "fs \<Rightarrow> u8 list \<Rightarrow> (fs_node \<times> fs) option" where
  "take_node s path = do {
     found \<leftarrow> lookup_parent_node s path;
     (parents, parent, name) \<leftarrow> found;
     (case parent of
        File _ _ \<Rightarrow> None
      | Directory children _ \<Rightarrow> do {
          node \<leftarrow> map_of children name;
          Some (node, change_root (del_child name) parents s) }) }"

definition put_node :: "fs \<Rightarrow> u8 list \<Rightarrow> fs_node \<Rightarrow> fs option" where
  "put_node s path node = do {
     found \<leftarrow> lookup_parent_node s path;
     (parents, parent, name) \<leftarrow> found;
     (case parent of
        File _ _ \<Rightarrow> None
      | Directory children _ \<Rightarrow> Some (change_root (set_child name node) parents s)) }"

definition fs_rename :: "'h host \<Rightarrow> u8 list \<Rightarrow> u8 list \<Rightarrow> fs \<Rightarrow> 'h \<Rightarrow> (unit + unit, 'h) fs_result" where
  "fs_rename ops from_path to_path s h =
     (if from_path = to_path then Some (Inr (), s, h)
      else do {
        from_node \<leftarrow> lookup_node s from_path;
        (case movable from_node of
           None \<Rightarrow> Some (Inl (), s, h)
         | Some from_host_path \<Rightarrow> do {
             found \<leftarrow> lookup_parent_node s to_path;
             (case (new_home found, found) of
                (Some to_parent_host_path, Some (_, _, to_name)) \<Rightarrow>
                  (let to_host_path = to_parent_host_path @ [to_name] in
                   case host_rename ops from_host_path to_host_path h of (renamed, h1) \<Rightarrow>
                     if \<not> renamed then Some (Inl (), s, h1)
                     else do {
                       (moving_node, s1) \<leftarrow> take_node s from_path;
                       s2 \<leftarrow> put_node s1 to_path (update_host_paths_recursively moving_node to_host_path);
                       Some (Inr (), s2, h1) })
              | _ \<Rightarrow> Some (Inl (), s, h)) }) })"

section \<open>Opening files\<close>

definition fs_open :: "'h host \<Rightarrow> fs \<Rightarrow> 'h \<Rightarrow> u8 list \<Rightarrow> ((unit + guest_file) \<times> 'h) option" where
  "fs_open ops s h path = do {
     node \<leftarrow> lookup_node s path;
     (case node of
        Some (File (HostPath host_path) _) \<Rightarrow>
          (let options = guest_open_options_new\<lparr> o_read := True \<rparr> in
           case host_open ops host_path options h of (opened, h1) \<Rightarrow>
             if opened then Some (Inr (HostFile host_path options), h1) else None)
      | Some (File (IpaFileRef file) _) \<Rightarrow> Some (Inr (IpaBundleFile file), h)
      | Some (File (ResourceFilePath name) _) \<Rightarrow>
          (if host_resource ops name then Some (Inr (ResourceFile name), h) else None)
      | _ \<Rightarrow> Some (Inl (), h)) }"

datatype open_action =
  OpenPath hpath | OpenIpa | OpenResource "u8 list" | OpenDir | Reject | CowIpa hpath "u8 list"

text \<open>Where the copy of a bundle file goes: the path string itself, below the shadow directory.\<close>

definition cow_host_path :: "hpath \<Rightarrow> u8 list \<Rightarrow> hpath" where
  "cow_host_path cow_base path = fold (\<lambda>c acc. acc @ [c]) (split_slash (dropWhile (\<lambda>c. c = SLASH) path)) cow_base"

text \<open>\<open>None\<close>: reading the archive failed, and the whole call returns an error.\<close>

definition open_action :: "'h host \<Rightarrow> hpath option \<Rightarrow> u8 list \<Rightarrow> open_options \<Rightarrow> 'h \<Rightarrow> fs_node option \<Rightarrow> open_action option" where
  "open_action ops cow_base_opt path opts h existing =
     (case existing of
        Some (File location writeable) \<Rightarrow>
          (if \<not> writeable \<and> (o_append opts \<or> o_write opts) then
             (case (location, cow_base_opt) of
                (IpaFileRef ipa_ref, Some cow_base) \<Rightarrow>
                  (let host_path = cow_host_path cow_base path
                   in if host_exists ops host_path h then Some (CowIpa host_path [])
                      else map_option (CowIpa host_path) (ipa_read ops ipa_ref))
              | _ \<Rightarrow> Some Reject)
           else case location of
                  HostPath p \<Rightarrow> Some (OpenPath p)
                | IpaFileRef _ \<Rightarrow> Some OpenIpa
                | ResourceFilePath n \<Rightarrow> Some (OpenResource n))
      | Some (Directory _ _) \<Rightarrow> Some (if o_write opts then Reject else OpenDir)
      | None \<Rightarrow> Some Reject)"

text \<open>A host file opened with the flags of the call, without creating it; a failure panics.\<close>

definition open_existing :: "'h host \<Rightarrow> hpath \<Rightarrow> open_options \<Rightarrow> 'h \<Rightarrow> (guest_file \<times> 'h) option" where
  "open_existing ops host_path opts h =
     (let options = opts\<lparr> o_create := False, o_create_new := False \<rparr> in
      case host_open ops host_path options h of (opened, h1) \<Rightarrow>
        if opened then Some (HostFile host_path options, h1) else None)"

definition open_cow :: "'h host \<Rightarrow> hpath \<Rightarrow> u8 list \<Rightarrow> u8 list \<Rightarrow> open_options \<Rightarrow> fs \<Rightarrow> 'h \<Rightarrow> (unit + guest_file, 'h) fs_result" where
  "open_cow ops host_path content path opts s h =
     (case (if content = [] then (True, h)
            else case host_create_dir_all ops (butlast host_path) h of (made, h1) \<Rightarrow>
              if \<not> made then (False, h1) else host_write ops host_path content h1) of
        (ready, h2) \<Rightarrow>
          (if \<not> ready then Some (Inl (), s, h2)
           else do {
             found \<leftarrow> lookup_parent_node s path;
             let s1 = (case found of
                         Some (parents, _, fname) \<Rightarrow>
                           change_root (set_child fname (File (HostPath host_path) True)) parents s
                       | None \<Rightarrow> s);
             (file, h3) \<leftarrow> open_existing ops host_path opts h2;
             Some (Inr file, s1, h3) }))"

definition create_file :: "'h host \<Rightarrow> u8 list \<Rightarrow> open_options \<Rightarrow> fs \<Rightarrow> 'h \<Rightarrow> (unit + guest_file, 'h) fs_result" where
  "create_file ops path opts s h =
     (if \<not> o_create opts \<and> \<not> o_create_new opts then Some (Inl (), s, h)
      else do {
        found \<leftarrow> lookup_parent_node s path;
        (case found of
           Some (parents, Directory children (Some dir_host_path), new_filename) \<Rightarrow>
             (if SLASH \<in> set new_filename then None
              else let host_path = dir_host_path @ [new_filename];
                       options = opts\<lparr> o_create := True, o_create_new := False \<rparr> in
                case host_open ops host_path options h of (opened, h1) \<Rightarrow>
                  if opened
                  then Some (Inr (HostFile host_path options),
                         change_root (set_child new_filename (File (HostPath host_path) True)) parents s, h1)
                  else None)
         | _ \<Rightarrow> Some (Inl (), s, h)) })"

text \<open>Creating or truncating implies writing.\<close>

definition forced_write :: "open_options \<Rightarrow> open_options" where
  "forced_write opts =
     (if (o_truncate opts \<or> o_create opts \<or> o_create_new opts) \<and> \<not> o_write opts \<and> \<not> o_append opts
      then opts\<lparr> o_write := True \<rparr> else opts)"

definition open_with_options :: "'h host \<Rightarrow> u8 list \<Rightarrow> open_options \<Rightarrow> fs \<Rightarrow> 'h \<Rightarrow> (unit + guest_file, 'h) fs_result" where
  "open_with_options ops path options s h = do {
     let opts = forced_write options;
     found \<leftarrow> lookup_parent_node s path;
     (case found of
        Some (parents, Directory children _, new_filename) \<Rightarrow>
          (if o_create_new opts \<and> map_of children new_filename \<noteq> None then Some (Inl (), s, h)
           else case open_action ops (cow_dir s) path opts h (map_of children new_filename) of
             None \<Rightarrow> Some (Inl (), s, h)
           | Some (OpenPath host_path) \<Rightarrow>
               map_option (\<lambda>(file, h1). (Inr file, s, h1)) (open_existing ops host_path opts h)
           | Some OpenIpa \<Rightarrow>
               (case map_of children new_filename of
                  Some (File (IpaFileRef f) _) \<Rightarrow> Some (Inr (IpaBundleFile f), s, h)
                | _ \<Rightarrow> Some (Inl (), s, h))
           | Some (OpenResource name) \<Rightarrow>
               (if host_resource ops name then Some (Inr (ResourceFile name), s, h) else None)
           | Some OpenDir \<Rightarrow> Some (Inr DirectoryFile, s, h)
           | Some Reject \<Rightarrow> create_file ops path opts s h
           | Some (CowIpa host_path content) \<Rightarrow> open_cow ops host_path content path opts s h)
      | _ \<Rightarrow> Some (Inl (), s, h)) }"

section \<open>The initial layout\<close>

definition APPLICATIONS :: "u8 list" where
  "APPLICATIONS = bytes_of ''/var/mobile/Applications''"

definition FAKE_UUID :: "u8 list" where
  "FAKE_UUID = bytes_of ''00000000-0000-0000-0000-000000000000''"

fun with_children :: "(u8 list \<times> fs_node) list \<Rightarrow> fs_node \<Rightarrow> fs_node option" where
  "with_children [] node = Some node"
| "with_children ((name, child) # rest) node = Option.bind (with_child name child node) (with_children rest)"

definition dylibs :: "(string \<times> string) list" where
  "dylibs = [(''libgcc_s.1.dylib'', ''libgcc_s.1.dylib''), (''libstdc++.6.dylib'', ''libstdc++.6.0.9.dylib''),
     (''libstdc++.6.0.9.dylib'', ''libstdc++.6.0.9.dylib''), (''libc++.1.dylib'', ''libc++.1.dylib''),
     (''libz.1.2.3.dylib'', ''libz.1.2.3.dylib''), (''libz.1.dylib'', ''libz.1.2.3.dylib''),
     (''libz.dylib'', ''libz.1.2.3.dylib''), (''libz.1.1.3.dylib'', ''libz.1.2.3.dylib''),
     (''libiconv.2.dylib'', ''libiconv.2.dylib''), (''libc++abi.dylib'', ''libc++abi.dylib''),
     (''libsqlite3.dylib'', ''libsqlite3.dylib''), (''libsqlite3.0.dylib'', ''libsqlite3.dylib'')]"

definition usr_lib :: "u8 list \<Rightarrow> fs_node option" where
  "usr_lib dylibs_dir = with_children
     (map (\<lambda>(name, file). (bytes_of name, resource_file (dylibs_dir @ SLASH # bytes_of file))) dylibs) fs_dir"

text \<open>
  \<open>dirs\<close> are the nodes of \<open>Documents\<close>, \<open>Library\<close> and \<open>tmp\<close> as read from the host, missing in
  read-only mode; \<open>library_node\<close>, \<open>root_node\<close>, \<open>sandbox\<close> and \<open>cow\<close> depend on the mode likewise.
\<close>

definition insert_dir :: "u8 list \<times> fs_node option \<Rightarrow> (u8 list \<times> fs_node) list \<Rightarrow> (u8 list \<times> fs_node) list" where
  "insert_dir = (\<lambda>(dir, node) children. case node of None \<Rightarrow> children | Some n \<Rightarrow> AList.update dir n children)"

definition fs_new ::
    "u8 list \<Rightarrow> u8 list \<Rightarrow> fs_node \<Rightarrow> fs_node option list \<Rightarrow> fs_node \<Rightarrow> fs_node \<Rightarrow> hpath option \<Rightarrow> hpath option \<Rightarrow>
     (fs \<times> u8 list) option" where
  "fs_new dylibs_dir bundle_dir_name app_bundle dirs library_node root_node sandbox cow = do {
     let home_directory = guest_join APPLICATIONS FAKE_UUID;
     let bundle_guest_path = guest_join home_directory bundle_dir_name;
     lib \<leftarrow> usr_lib dylibs_dir;
     let app_dir_children = fold insert_dir
       (zip [bytes_of ''Documents'', bytes_of ''Library'', bytes_of ''tmp''] dirs) [(bundle_dir_name, app_bundle)];
     applications \<leftarrow> with_child FAKE_UUID (Directory app_dir_children sandbox) fs_dir;
     mobile0 \<leftarrow> with_child (bytes_of ''Applications'') applications fs_dir;
     mobile \<leftarrow> with_child (bytes_of ''Library'') library_node mobile0;
     var \<leftarrow> with_child (bytes_of ''mobile'') mobile fs_dir;
     root1 \<leftarrow> with_child (bytes_of ''var'') var root_node;
     usr \<leftarrow> with_child (bytes_of ''lib'') lib fs_dir;
     root2 \<leftarrow> with_child (bytes_of ''usr'') usr root1;
     let s = \<lparr> root = root2, working_directory = bundle_guest_path, home_directory = home_directory, cow_dir = cow \<rparr>;
     node \<leftarrow> lookup_node s bundle_guest_path;
     (if node = None then None else Some (s, bundle_guest_path)) }"

end
