(* ===== verification/Guest_Fs_Props.thy ===== *)
theory Guest_Fs_Props
  imports Guest_Fs "HOL-Library.Sublist"
begin

text \<open>
  The guest file system as a map from paths to what they name: every operation of \<open>src/fs.rs\<close> that
  changes the tree is an update of that map, or leaves it alone and reports why.
\<close>

section \<open>The view\<close>

datatype label = FileLabel location bool | DirLabel "hpath option"

fun label_of :: "fs_node \<Rightarrow> label" where
  "label_of (File l w) = FileLabel l w"
| "label_of (Directory children w) = DirLabel w"

definition tree_view :: "fs_node \<Rightarrow> u8 list list \<Rightarrow> label option" where
  "tree_view node p = map_option label_of (lookup_node_inner node p)"

abbreviation fs_view :: "fs \<Rightarrow> u8 list list \<Rightarrow> label option" where
  "fs_view s \<equiv> tree_view (root s)"

fun tree_ok :: "fs_node \<Rightarrow> bool" where
  "tree_ok (File l w) = (w \<longrightarrow> (\<exists>p. l = HostPath p))"
| "tree_ok (Directory children w) = (distinct (map fst children) \<and>
     (\<forall>(name, child) \<in> set children. component_ok name \<and> tree_ok child))"

definition fs_ok :: "fs \<Rightarrow> bool" where
  "fs_ok s = (tree_ok (root s) \<and> starts_with_slash (working_directory s))"

lemma lookup_append:
  "lookup_node_inner node (p @ q) = Option.bind (lookup_node_inner node p) (\<lambda>n. lookup_node_inner n q)"
  by (induction node p rule: lookup_node_inner.induct) (auto split: option.splits)

lemma lookup_ok: "tree_ok node \<Longrightarrow> lookup_node_inner node p = Some n \<Longrightarrow> tree_ok n"
  by (induction node p rule: lookup_node_inner.induct) (auto split: option.splits dest!: map_of_SomeD)

lemma update_children_ok:
  assumes "tree_ok (Directory children w)" "component_ok name" "tree_ok child"
  shows "tree_ok (Directory (AList.update name child children) w)"
proof -
  have "set (AList.update name child children) \<subseteq> insert (name, child) (set children)"
    by (induction children) auto
  then show ?thesis using assms by (auto simp: distinct_update)
qed

lemma delete_children_ok:
  assumes "tree_ok (Directory children w)"
  shows "tree_ok (Directory (AList.delete name children) w)"
proof -
  have "set (AList.delete name children) \<subseteq> set children" by (auto simp: AList.delete_eq)
  then show ?thesis using assms by (auto simp: distinct_delete)
qed

lemma update_node_ok:
  assumes "tree_ok node" "\<And>n. lookup_node_inner node p = Some n \<Longrightarrow> tree_ok n \<Longrightarrow> tree_ok (f n)"
  shows "tree_ok (update_node f node p)"
  using assms
proof (induction f node p rule: update_node.induct)
  case (3 f children w component rest)
  show ?case
  proof (cases "map_of children component")
    case None
    then show ?thesis using "3.prems"(1) by simp
  next
    case (Some n)
    then have n: "(component, n) \<in> set children" by (rule map_of_SomeD)
    then have "tree_ok (update_node f n rest)" "component_ok component" using 3 Some by auto
    then show ?thesis using update_children_ok [OF "3.prems"(1)] Some by simp
  qed
qed auto

text \<open>Changing the node a path leads to is seen below that path only.\<close>

lemma update_node_view:
  assumes "lookup_node_inner node p = Some n"
  shows "tree_view (update_node f node p) q =
    (if prefix p q then tree_view (f n) (drop (length p) q) else tree_view node q)"
  using assms
proof (induction f node p arbitrary: q rule: update_node.induct)
  case (1 f node)
  then show ?case by (simp add: tree_view_def)
next
  case (2 f l w component rest)
  then show ?case by simp
next
  case (3 f children w component rest)
  then obtain c where c: "map_of children component = Some c" "lookup_node_inner c rest = Some n"
    by (auto split: option.splits)
  show ?case
  proof (cases q)
    case Nil
    then show ?thesis using c by (simp add: tree_view_def)
  next
    case (Cons x xs)
    have ih: "tree_view (update_node f c rest) xs =
        (if prefix rest xs then tree_view (f n) (drop (length rest) xs) else tree_view c xs)"
      by (rule "3.IH" [OF c(1) c(2)])
    show ?thesis
    proof (cases "x = component")
      case True
      then show ?thesis using ih c Cons by (simp add: tree_view_def update_conv')
    next
      case False
      then show ?thesis using c Cons by (simp add: tree_view_def update_conv')
    qed
  qed
qed

lemma set_child_view:
  assumes "lookup_node_inner (root s) ps = Some (Directory children w)"
  shows "fs_view (change_root (set_child name child) ps s) q =
    (if prefix (ps @ [name]) q then tree_view child (drop (length ps + 1) q) else fs_view s q)"
proof (cases "prefix ps q")
  case True
  then obtain r where q: "q = ps @ r" by (auto simp: prefix_def)
  have old: "fs_view s q = tree_view (Directory children w) r"
    unfolding q by (simp add: tree_view_def lookup_append assms)
  show ?thesis
    using update_node_view [OF assms, of "set_child name child" q] old q
    by (cases r) (auto simp: change_root_def tree_view_def update_conv')
next
  case False
  then have "\<not> prefix (ps @ [name]) q" by (meson append_prefixD)
  then show ?thesis using update_node_view [OF assms, of "set_child name child" q] False
    by (simp add: change_root_def)
qed

lemma del_child_view:
  assumes "lookup_node_inner (root s) ps = Some (Directory children w)"
  shows "fs_view (change_root (del_child name) ps s) q = (if prefix (ps @ [name]) q then None else fs_view s q)"
proof (cases "prefix ps q")
  case True
  then obtain r where q: "q = ps @ r" by (auto simp: prefix_def)
  have old: "fs_view s q = tree_view (Directory children w) r"
    unfolding q by (simp add: tree_view_def lookup_append assms)
  show ?thesis
    using update_node_view [OF assms, of "del_child name" q] old q
    by (cases r) (auto simp: change_root_def tree_view_def delete_conv')
next
  case False
  then have "\<not> prefix (ps @ [name]) q" by (meson append_prefixD)
  then show ?thesis using update_node_view [OF assms, of "del_child name" q] False
    by (simp add: change_root_def)
qed

lemma set_child_ok:
  assumes "fs_ok s" "lookup_node_inner (root s) ps = Some (Directory children w)" "component_ok name" "tree_ok child"
  shows "fs_ok (change_root (set_child name child) ps s)"
proof -
  have "tree_ok (update_node (set_child name child) (root s) ps)"
    using assms update_children_ok by (intro update_node_ok) (auto simp: fs_ok_def)
  then show ?thesis using assms(1) by (simp add: fs_ok_def change_root_def)
qed

lemma del_child_ok:
  assumes "fs_ok s" "lookup_node_inner (root s) ps = Some (Directory children w)"
  shows "fs_ok (change_root (del_child name) ps s)"
proof -
  have "tree_ok (update_node (del_child name) (root s) ps)"
    using assms delete_children_ok by (intro update_node_ok) (auto simp: fs_ok_def)
  then show ?thesis using assms(1) by (simp add: fs_ok_def change_root_def)
qed

lemma resolved_ok:
  assumes "fs_ok s"
  obtains cs where "resolved s path = Some cs" "components_ok cs"
proof -
  obtain cs where "resolved s path = Some cs"
    using assms by (cases "starts_with_slash path") (simp_all add: resolved_def resolve_path_walk fs_ok_def)
  then show thesis using that resolve_path_ok unfolding resolved_def by blast
qed

lemma parent_found:
  assumes "resolved s path = Some cs"
  shows "lookup_parent_node s path = Some (if cs = [] then None
    else map_option (\<lambda>parent. (butlast cs, parent, last cs)) (lookup_node_inner (root s) (butlast cs)))"
  using assms by (simp add: lookup_parent_node_def)

text \<open>What is seen at and below a child.\<close>

lemma child_view:
  assumes "lookup_node_inner (root s) ps = Some (Directory children w)"
  shows "fs_view s ps = Some (DirLabel w)"
    "fs_view s (ps @ name # r) = Option.bind (map_of children name) (\<lambda>n. tree_view n r)"
  using assms by (auto simp: tree_view_def lookup_append split: option.splits)

lemma child_here:
  assumes "lookup_node_inner (root s) (butlast cs) = Some (Directory children w)" "cs = butlast cs @ [last cs]"
  shows "fs_view s cs = map_option label_of (map_of children (last cs))"
proof -
  have "fs_view s (butlast cs @ [last cs]) = Option.bind (map_of children (last cs)) (\<lambda>n. tree_view n [])"
    using child_view(2) [OF assms(1), of "last cs" "[]"] by simp
  then have "fs_view s cs = Option.bind (map_of children (last cs)) (\<lambda>n. tree_view n [])"
    using assms(2) by metis
  then show ?thesis by (cases "map_of children (last cs)") (simp_all add: tree_view_def)
qed


section \<open>Directories and removal\<close>








section \<open>Renaming\<close>

text \<open>
  What renaming does to a label: a host file or a directory with a host path gets the new host path.
  The walk goes down through directories that have a host path, and stops at the others.
\<close>

fun relabel :: "hpath \<Rightarrow> label \<Rightarrow> label" where
  "relabel p (FileLabel (HostPath _) w) = FileLabel (HostPath p) w"
| "relabel p (DirLabel (Some _)) = DirLabel (Some p)"
| "relabel p l = l"

definition hosted :: "(u8 list list \<Rightarrow> label option) \<Rightarrow> u8 list list \<Rightarrow> bool" where
  "hosted v r = (\<forall>k < length r. \<exists>p. v (take k r) = Some (DirLabel (Some p)))"

definition relabelled :: "hpath \<Rightarrow> (u8 list list \<Rightarrow> label option) \<Rightarrow> u8 list list \<Rightarrow> label option" where
  "relabelled hp v r = map_option (if hosted v r then relabel (hp @ r) else id) (v r)"

lemma view_below:
  "tree_view (Directory children w) (c # cs) = Option.bind (map_of children c) (\<lambda>n. tree_view n cs)"
  by (simp add: tree_view_def split: option.split)

lemma hosted_below:
  assumes "map_of children c = Some child"
  shows "hosted (tree_view (Directory children w)) (c # cs) \<longleftrightarrow> w \<noteq> None \<and> hosted (tree_view child) cs"
proof -
  have "tree_view (Directory children w) (c # take k cs) = tree_view child (take k cs)" for k
    using assms by (simp add: view_below)
  moreover have "tree_view (Directory children w) [] = Some (DirLabel w)" by (simp add: tree_view_def)
  ultimately show ?thesis by (simp add: hosted_def All_less_Suc2)
qed

lemma relabelled_file:
  "\<forall>p. l \<noteq> HostPath p \<Longrightarrow> relabelled hp (tree_view (File l w)) r = tree_view (File l w) r"
  by (cases r; cases l) (simp_all add: relabelled_def tree_view_def)

lemma relabelled_directory:
  "relabelled hp (tree_view (Directory children None)) r = tree_view (Directory children None) r"
proof (cases r)
  case (Cons c cs)
  then show ?thesis
    using hosted_below [of children c _ None cs]
    by (cases "map_of children c") (simp_all add: relabelled_def view_below option.map_id)
qed (simp add: relabelled_def tree_view_def)

lemma update_host_paths_view:
  "tree_view (update_host_paths_recursively node hp) r = relabelled hp (tree_view node) r"
proof (induction node hp arbitrary: r rule: update_host_paths_recursively.induct)
  case (1 p w hp)
  show ?case by (cases r) (simp_all add: relabelled_def hosted_def tree_view_def)
next
  case (2 children q hp)
  show ?case
  proof (cases r)
    case Nil
    then show ?thesis by (simp add: relabelled_def hosted_def tree_view_def)
  next
    case (Cons c cs)
    have entry: "map_of (map (\<lambda>(name, child). (name, update_host_paths_recursively child (hp @ [name]))) children) c =
        map_option (\<lambda>child. update_host_paths_recursively child (hp @ [c])) (map_of children c)"
      by (induction children) auto
    show ?thesis
    proof (cases "map_of children c")
      case None
      then show ?thesis using entry Cons by (simp add: relabelled_def view_below)
    next
      case (Some child)
      have "tree_view (update_host_paths_recursively child (hp @ [c])) cs = relabelled (hp @ [c]) (tree_view child) cs"
        using "2.IH" [OF map_of_SomeD [OF Some] refl] by simp
      then show ?thesis
        using entry Some Cons hosted_below [OF Some, of "Some q" cs] by (simp add: relabelled_def view_below)
    qed
  qed
qed (simp_all add: relabelled_file relabelled_directory)

lemma update_host_paths_ok: "tree_ok node \<Longrightarrow> tree_ok (update_host_paths_recursively node hp)"
proof (induction node hp rule: update_host_paths_recursively.induct)
  case (2 children p new_host_path)
  have "map fst (map (\<lambda>(name, child). (name, update_host_paths_recursively child (new_host_path @ [name]))) children) =
      map fst children" by (induction children) auto
  moreover have "\<forall>(name, child) \<in> set (map (\<lambda>(name, child). (name, update_host_paths_recursively child (new_host_path @ [name]))) children).
      component_ok name \<and> tree_ok child"
    using 2 by fastforce
  ultimately show ?case using "2.prems" by (simp only: update_host_paths_recursively.simps tree_ok.simps)
qed auto

lemma movable_cases:
  "movable node = Some p \<Longrightarrow> \<exists>n. node = Some n"
  by (cases node) auto

text \<open>Looking a node up and looking its parent up agree.\<close>

lemma lookup_last:
  assumes "cs \<noteq> []" "lookup_node_inner node cs = Some n"
  obtains children w where "lookup_node_inner node (butlast cs) = Some (Directory children w)" "map_of children (last cs) = Some n"
proof -
  have "lookup_node_inner node (butlast cs @ [last cs]) = Some n" using assms by simp
  then obtain m where m: "lookup_node_inner node (butlast cs) = Some m" "lookup_node_inner m [last cs] = Some n"
    unfolding lookup_append by (auto simp: bind_eq_Some_conv)
  then show thesis using that by (cases m) (auto split: option.splits)
qed

lemma take_node_spec:
  assumes "resolved s path = Some cs" "cs \<noteq> []" "lookup_node_inner (root s) cs = Some n" "fs_ok s"
  shows "\<exists>s1. take_node s path = Some (n, s1) \<and> fs_ok s1 \<and> working_directory s1 = working_directory s \<and>
    fs_view s1 = (\<lambda>q. if prefix cs q then None else fs_view s q)"
proof -
  obtain children w where dir: "lookup_node_inner (root s) (butlast cs) = Some (Directory children w)"
    and child: "map_of children (last cs) = Some n"
    using lookup_last [OF assms(2,3)] .
  let ?s1 = "change_root (del_child (last cs)) (butlast cs) s"
  have "take_node s path = Some (n, ?s1)"
    using parent_found [OF assms(1)] assms(2) dir child by (simp add: take_node_def)
  moreover have "fs_ok ?s1" using del_child_ok [OF assms(4) dir] .
  moreover have "fs_view ?s1 = (\<lambda>q. if prefix cs q then None else fs_view s q)"
    using del_child_view [OF dir, of "last cs"] assms(2) by (simp add: fun_eq_iff)
  ultimately show ?thesis by (intro exI [of _ ?s1]) (simp add: change_root_def)
qed

lemma take_node_root: "resolved s path = Some [] \<Longrightarrow> take_node s path = None"
  by (simp add: take_node_def lookup_parent_node_def)

lemma view_directory: "tree_view node p = Some (DirLabel w) \<longleftrightarrow> (\<exists>children. lookup_node_inner node p = Some (Directory children w))"
proof -
  have "label_of n = DirLabel w \<longleftrightarrow> (\<exists>children. n = Directory children w)" for n by (cases n) auto
  then show ?thesis by (auto simp: tree_view_def)
qed

lemma put_node_spec:
  assumes "resolved s path = Some cs" "components_ok cs" "cs \<noteq> []" "fs_view s (butlast cs) = Some (DirLabel w)"
    "fs_ok s" "tree_ok n"
  shows "\<exists>s1. put_node s path n = Some s1 \<and> fs_ok s1 \<and> working_directory s1 = working_directory s \<and>
    fs_view s1 = (\<lambda>q. if prefix cs q then tree_view n (drop (length cs) q) else fs_view s q)"
proof -
  obtain children where dir: "lookup_node_inner (root s) (butlast cs) = Some (Directory children w)"
    using assms(4) view_directory by blast
  let ?s1 = "change_root (set_child (last cs) n) (butlast cs) s"
  have "put_node s path n = Some ?s1"
    using parent_found [OF assms(1)] assms(3) dir by (simp add: put_node_def)
  moreover have "component_ok (last cs)" using assms(2,3) by (simp add: list_all_iff)
  then have "fs_ok ?s1" using set_child_ok [OF assms(5) dir] assms(6) by blast
  moreover have "length (butlast cs) + 1 = length cs" using assms(3) by (cases cs rule: rev_cases) auto
  then have "fs_view ?s1 = (\<lambda>q. if prefix cs q then tree_view n (drop (length cs) q) else fs_view s q)"
    using set_child_view [OF dir, of "last cs" n] assms(3) by (simp add: fun_eq_iff)
  ultimately show ?thesis by (intro exI [of _ ?s1]) (simp add: change_root_def)
qed

lemma resolved_same: "working_directory s1 = working_directory s \<Longrightarrow> resolved s1 path = resolved s path"
  by (simp add: resolved_def)

lemma put_node_gone:
  assumes "resolved s path = Some cs" "cs \<noteq> []" "fs_view s (butlast cs) = None"
  shows "put_node s path n = None"
proof -
  have "lookup_node_inner (root s) (butlast cs) = None" using assms(3) by (simp add: tree_view_def)
  then show ?thesis using assms(1,2) by (simp add: put_node_def lookup_parent_node_def)
qed

text \<open>The view after a move that the host has made.\<close>

definition moved :: "u8 list list \<Rightarrow> u8 list list \<Rightarrow> hpath \<Rightarrow> (u8 list list \<Rightarrow> label option) \<Rightarrow> u8 list list \<Rightarrow> label option" where
  "moved fcs tcs hp v q =
     (if prefix tcs q then relabelled hp (\<lambda>r. v (fcs @ r)) (drop (length tcs) q)
      else if prefix fcs q then None else v q)"

lemma take_and_put:
  assumes "fs_ok s" "resolved s from_path = Some fcs" "resolved s to_path = Some tcs"
    and "lookup_node_inner (root s) fcs = Some n" "fcs \<noteq> []" "\<not> strict_prefix fcs tcs"
    and "tcs \<noteq> []" "fs_view s (butlast tcs) = Some (DirLabel (Some to_parent))"
  shows "\<exists>s1 s2. take_node s from_path = Some (n, s1) \<and>
    put_node s1 to_path (update_host_paths_recursively n hp) = Some s2 \<and> fs_ok s2 \<and>
    working_directory s2 = working_directory s \<and> fs_view s2 = moved fcs tcs hp (fs_view s)"
proof -
  obtain s1 where s1: "take_node s from_path = Some (n, s1)" "fs_ok s1" "working_directory s1 = working_directory s"
    "fs_view s1 = (\<lambda>q. if prefix fcs q then None else fs_view s q)"
    using take_node_spec [OF assms(2,5,4,1)] by blast
  have res: "resolved s1 to_path = Some tcs" using resolved_same [OF s1(3)] assms(3) by simp
  have "\<not> prefix fcs (butlast tcs)"
    using assms(6,7) by (cases tcs rule: rev_cases) (auto simp: strict_prefix_def dest: prefix_length_le)
  then have "fs_view s1 (butlast tcs) = Some (DirLabel (Some to_parent))" using s1(4) assms(8) by simp
  moreover have "tree_ok (update_host_paths_recursively n hp)"
    using lookup_ok [OF _ assms(4)] assms(1) update_host_paths_ok by (simp add: fs_ok_def)
  moreover have "components_ok tcs" using assms(3) resolve_path_ok by (simp add: resolved_def)
  ultimately obtain s2 where s2: "put_node s1 to_path (update_host_paths_recursively n hp) = Some s2" "fs_ok s2"
    "working_directory s2 = working_directory s1"
    "fs_view s2 = (\<lambda>q. if prefix tcs q then tree_view (update_host_paths_recursively n hp) (drop (length tcs) q) else fs_view s1 q)"
    using put_node_spec [OF res _ assms(7) _ s1(2)] by blast
  have below: "tree_view n = (\<lambda>r. fs_view s (fcs @ r))"
    by (rule ext) (simp add: tree_view_def lookup_append assms(4))
  have "fs_view s2 = moved fcs tcs hp (fs_view s)"
    by (rule ext) (simp add: s2(4) s1(4) moved_def update_host_paths_view below)
  then show ?thesis using s1 s2 by auto
qed

lemma new_home_view:
  "resolved s to_path = Some tcs \<Longrightarrow> lookup_parent_node s to_path = Some found \<Longrightarrow>
   new_home found = Some p \<longleftrightarrow> tcs \<noteq> [] \<and> fs_view s (butlast tcs) = Some (DirLabel (Some p))"
  using parent_found [of s to_path tcs] view_directory [of "root s" "butlast tcs" "Some p"]
  by (cases "tcs = []"; cases "lookup_node_inner (root s) (butlast tcs)") (auto elim!: new_home.elims)

text \<open>
  C38: \<open>rename\<close> refuses and changes nothing when the node is not a writeable host node, when the new
  parent is not a writeable directory, or when the host refuses (as it does for a directory moved
  into itself).  When the host has renamed, the whole subtree moves with its host paths rewritten
  below the new one, replacing what was at the target, and no other path changes.
\<close>

theorem rename_moves_subtree:
  assumes "fs_ok s" "resolved s from_path = Some fcs" "resolved s to_path = Some tcs" "from_path \<noteq> to_path"
  shows "case (movable (lookup_node_inner (root s) fcs), if tcs = [] then None else fs_view s (butlast tcs)) of
      (Some old_host, Some (DirLabel (Some to_parent))) \<Rightarrow>
        (let hp = to_parent @ [last tcs]; (renamed, h1) = host_rename ops old_host hp h
         in if \<not> renamed then fs_rename ops from_path to_path s h = Some (Inl (), s, h1)
            else \<not> strict_prefix fcs tcs \<longrightarrow>
              (\<exists>s1. fs_rename ops from_path to_path s h = Some (Inr (), s1, h1) \<and> fs_ok s1 \<and>
                 working_directory s1 = working_directory s \<and> fs_view s1 = moved fcs tcs hp (fs_view s)))
    | _ \<Rightarrow> fs_rename ops from_path to_path s h = Some (Inl (), s, h)"
proof -
  obtain found where found: "lookup_parent_node s to_path = Some found"
    using parent_found [OF assms(3)] by simp
  have look: "lookup_node s from_path = Some (lookup_node_inner (root s) fcs)" using assms(2) by (simp add: lookup_node_def)
  note home = new_home_view [OF assms(3) found]
  show ?thesis
  proof (cases "movable (lookup_node_inner (root s) fcs)")
    case None
    then show ?thesis using assms(4) look by (simp add: fs_rename_def)
  next
    case old: (Some old_host)
    show ?thesis
    proof (cases "new_home found")
      case None
      then have "\<forall>p. (if tcs = [] then None else fs_view s (butlast tcs)) \<noteq> Some (DirLabel (Some p))"
        using home by auto
      moreover have "fs_rename ops from_path to_path s h = Some (Inl (), s, h)"
        using None assms(4) look old found by (simp add: fs_rename_def)
      ultimately show ?thesis using old by (auto split: option.split label.split)
    next
      case (Some to_parent)
      then have tcs: "tcs \<noteq> []" "fs_view s (butlast tcs) = Some (DirLabel (Some to_parent))" using home by auto
      then obtain children where "lookup_node_inner (root s) (butlast tcs) = Some (Directory children (Some to_parent))"
        using view_directory by blast
      then have f: "found = Some (butlast tcs, Directory children (Some to_parent), last tcs)"
        using found parent_found [OF assms(3)] tcs(1) by simp
      let ?hp = "to_parent @ [last tcs]"
      obtain renamed h1 where host: "host_rename ops old_host ?hp h = (renamed, h1)" by fastforce
      have run: "fs_rename ops from_path to_path s h =
          (if \<not> renamed then Some (Inl (), s, h1)
           else do { (moving_node, s1) \<leftarrow> take_node s from_path;
             s2 \<leftarrow> put_node s1 to_path (update_host_paths_recursively moving_node ?hp);
             Some (Inr (), s2, h1) })"
        using assms(4) look old found Some f host by (simp add: fs_rename_def)
      have moves: "\<exists>s1. fs_rename ops from_path to_path s h = Some (Inr (), s1, h1) \<and> fs_ok s1 \<and>
          working_directory s1 = working_directory s \<and> fs_view s1 = moved fcs tcs ?hp (fs_view s)"
        if "renamed" "\<not> strict_prefix fcs tcs"
      proof -
        obtain n where n: "lookup_node_inner (root s) fcs = Some n" using movable_cases [OF old] by blast
        have "fcs \<noteq> []" using that(2) tcs(1) by (cases tcs) (auto simp: strict_prefix_def)
        from take_and_put [OF assms(1-3) n this that(2) tcs, of ?hp] show ?thesis using run that(1) by auto
      qed
      show ?thesis using old tcs host run moves by (simp add: Let_def)
    qed
  qed
qed

section \<open>Opening\<close>

text \<open>What an operation may do to the view: nothing, or put a writeable host file at one path.\<close>

definition file_at :: "u8 list list \<Rightarrow> hpath \<Rightarrow> (u8 list list \<Rightarrow> label option) \<Rightarrow> u8 list list \<Rightarrow> label option" where
  "file_at cs host v q =
     (if q = cs then Some (FileLabel (HostPath host) True) else if prefix cs q then None else v q)"

lemma set_file_view:
  assumes "lookup_node_inner (root s) (butlast cs) = Some (Directory children w)" "cs \<noteq> []"
  shows "fs_view (change_root (set_child (last cs) (File (HostPath host) True)) (butlast cs) s) = file_at cs host (fs_view s)"
proof
  fix q
  have cs: "butlast cs @ [last cs] = cs" "length (butlast cs) + 1 = length cs"
    using assms(2) by (simp, cases cs rule: rev_cases) auto
  show "fs_view (change_root (set_child (last cs) (File (HostPath host) True)) (butlast cs) s) q = file_at cs host (fs_view s) q"
  proof (cases "prefix cs q")
    case True
    then obtain r where q: "q = cs @ r" by (auto simp: prefix_def)
    then have "drop (length (butlast cs) + 1) q = r" using cs(2) by simp
    then have eq: "fs_view (change_root (set_child (last cs) (File (HostPath host) True)) (butlast cs) s) q =
        tree_view (File (HostPath host) True) r"
      using set_child_view [OF assms(1), of "last cs" _ q] True cs(1) by simp
    show ?thesis unfolding eq using q by (cases r) (simp_all add: file_at_def tree_view_def)
  next
    case False
    then show ?thesis using set_child_view [OF assms(1), of "last cs" _ q] cs(1) by (auto simp: file_at_def)
  qed
qed

lemma set_file_ok:
  assumes "fs_ok s" "resolved s path = Some cs" "cs \<noteq> []"
    "lookup_node_inner (root s) (butlast cs) = Some (Directory children w)"
  shows "fs_ok (change_root (set_child (last cs) (File (HostPath host) True)) (butlast cs) s)"
proof -
  have "component_ok (last cs)"
    using assms(2,3) resolve_path_ok [of path _ cs] by (auto simp: resolved_def list_all_iff)
  then show ?thesis using set_child_ok [OF assms(1,4)] by simp
qed

lemma create_file_cases:
  assumes "resolved s path = Some cs" "cs \<noteq> []" "lookup_node_inner (root s) (butlast cs) = Some (Directory children w)"
  shows "create_file ops path opts s h =
    (case (if o_create opts \<or> o_create_new opts then w else None) of
       None \<Rightarrow> Some (Inl (), s, h)
     | Some host \<Rightarrow>
         (let options = opts\<lparr> o_create := True, o_create_new := False \<rparr>;
              (opened, h1) = host_open ops (host @ [last cs]) options h
          in if opened then Some (Inr (HostFile (host @ [last cs]) options),
               change_root (set_child (last cs) (File (HostPath (host @ [last cs])) True)) (butlast cs) s, h1)
             else None))"
proof -
  have "lookup_parent_node s path = Some (Some (butlast cs, Directory children w, last cs))"
    using parent_found [OF assms(1)] assms(2,3) by simp
  moreover have "SLASH \<notin> set (last cs)"
    using assms(1,2) resolve_path_ok [of path _ cs] by (auto simp: resolved_def list_all_iff component_ok_def)
  ultimately show ?thesis by (simp add: create_file_def Let_def split: option.split)
qed

text \<open>
  The host file that a call puts in the place of the node at its path, if it puts one: a writeable
  node and a read-only one that is only read stay; a bundle file opened for writing is replaced by
  its copy when there is a shadow directory; the rest is created when the flags ask for it and the
  parent can be written.
\<close>

fun created_in :: "open_options \<Rightarrow> label option \<Rightarrow> u8 list \<Rightarrow> hpath option" where
  "created_in opts (Some (DirLabel (Some host))) name =
     (if o_create opts \<or> o_create_new opts then Some (host @ [name]) else None)"
| "created_in opts place name = None"

definition replaced_by :: "fs \<Rightarrow> u8 list \<Rightarrow> u8 list list \<Rightarrow> open_options \<Rightarrow> hpath option" where
  "replaced_by s path cs options =
     (let opts = forced_write options;
          created = created_in opts (fs_view s (butlast cs)) (last cs)
      in if cs = [] \<or> o_create_new opts \<and> fs_view s cs \<noteq> None then None
         else case fs_view s cs of
           None \<Rightarrow> created
         | Some (DirLabel _) \<Rightarrow> (if o_write opts then created else None)
         | Some (FileLabel location writeable) \<Rightarrow>
             (if writeable \<or> \<not> (o_append opts \<or> o_write opts) then None
              else case (location, cow_dir s) of
                (IpaFileRef _, Some cow_base) \<Rightarrow> Some (cow_host_path cow_base path)
              | _ \<Rightarrow> created))"

text \<open>What opening an existing node gives, and which permissions it needs.\<close>

fun opens_node :: "label option \<Rightarrow> open_options \<Rightarrow> guest_file \<Rightarrow> bool" where
  "opens_node None opts f = False"
| "opens_node (Some (DirLabel _)) opts f = (\<not> o_write opts \<and> f = DirectoryFile)"
| "opens_node (Some (FileLabel l writeable)) opts f =
     ((writeable \<or> \<not> (o_append opts \<or> o_write opts)) \<and>
      f = (case l of
             HostPath p \<Rightarrow> HostFile p (opts\<lparr> o_create := False, o_create_new := False \<rparr>)
           | IpaFileRef n \<Rightarrow> IpaBundleFile n
           | ResourceFilePath name \<Rightarrow> ResourceFile name))"

text \<open>
  What a call may end with: a panic only when the host refuses to open a file or lacks a resource; an
  error without any change; the file at the path, which its permissions allow to be opened, without
  any change; or the host file by which the node has been replaced.
\<close>

definition open_outcome ::
    "'h host \<Rightarrow> fs \<Rightarrow> u8 list list \<Rightarrow> open_options \<Rightarrow> hpath option \<Rightarrow> (unit + guest_file, 'h) fs_result \<Rightarrow> bool" where
  "open_outcome ops s cs opts replaced result =
     (case result of
        None \<Rightarrow> (\<exists>p opts h. \<not> fst (host_open ops p opts h)) \<or> (\<exists>name. \<not> host_resource ops name)
      | Some (Inl _, s1, _) \<Rightarrow> s1 = s
      | Some (Inr f, s1, _) \<Rightarrow>
          (case replaced of
             None \<Rightarrow> s1 = s \<and> opens_node (fs_view s cs) (forced_write opts) f
           | Some host \<Rightarrow> fs_ok s1 \<and> fs_view s1 = file_at cs host (fs_view s) \<and> (\<exists>options. f = HostFile host options)))"

lemma outcome_refused: "open_outcome ops s cs opts replaced (Some (Inl (), s, h))"
  by (simp add: open_outcome_def)

lemma outcome_panic:
  "\<not> fst (host_open ops p options h) \<Longrightarrow> open_outcome ops s cs opts replaced None"
  unfolding open_outcome_def by auto

lemma outcome_existing:
  assumes "opens_node (fs_view s cs) (forced_write opts) (HostFile p ((forced_write opts)\<lparr> o_create := False, o_create_new := False \<rparr>))"
  shows "open_outcome ops s cs opts None
    (map_option (\<lambda>(file, h1). (Inr file, s, h1)) (open_existing ops p (forced_write opts) h))"
proof -
  let ?options = "(forced_write opts)\<lparr> o_create := False, o_create_new := False \<rparr>"
  obtain opened h1 where o: "host_open ops p ?options h = (opened, h1)" by fastforce
  show ?thesis
  proof (cases opened)
    case False
    then have "\<not> fst (host_open ops p ?options h)" using o by simp
    moreover have "open_existing ops p (forced_write opts) h = None" using o False by (simp add: open_existing_def Let_def)
    ultimately show ?thesis using outcome_panic by (metis option.map_disc_iff)
  next
    case True
    then show ?thesis using o assms by (simp add: open_existing_def Let_def open_outcome_def)
  qed
qed

lemma outcome_created:
  assumes "fs_ok s" "resolved s path = Some cs" "cs \<noteq> []"
    and dir: "lookup_node_inner (root s) (butlast cs) = Some (Directory children w)"
  shows "open_outcome ops s cs opts (created_in (forced_write opts) (fs_view s (butlast cs)) (last cs)) (create_file ops path (forced_write opts) s h)"
proof -
  have parent: "fs_view s (butlast cs) = Some (DirLabel w)" using child_view(1) [OF dir] .
  note run = create_file_cases [OF assms(2,3) dir, of ops "forced_write opts" h]
  show ?thesis
  proof (cases "(o_create (forced_write opts) \<or> o_create_new (forced_write opts)) \<and> w \<noteq> None")
    case False
    then have "create_file ops path (forced_write opts) s h = Some (Inl (), s, h)" using run by (auto split: option.split)
    then show ?thesis by (simp add: outcome_refused)
  next
    case True
    then obtain host where host: "w = Some host" by auto
    let ?options = "(forced_write opts)\<lparr> o_create := True, o_create_new := False \<rparr>"
    obtain opened h1 where o: "host_open ops (host @ [last cs]) ?options h = (opened, h1)" by fastforce
    show ?thesis
    proof (cases opened)
      case False
      then have "\<not> fst (host_open ops (host @ [last cs]) ?options h)" using o by simp
      moreover have "create_file ops path (forced_write opts) s h = None" using run True host o False by simp
      ultimately show ?thesis using outcome_panic by metis
    next
      case opened: True
      then show ?thesis
        using run True host o parent set_file_view [OF dir assms(3)] set_file_ok [OF assms(1-3) dir]
        by (simp add: open_outcome_def)
    qed
  qed
qed

lemma outcome_copied:
  assumes "fs_ok s" "resolved s path = Some cs" "cs \<noteq> []"
    and dir: "lookup_node_inner (root s) (butlast cs) = Some (Directory children w)"
  shows "open_outcome ops s cs opts (Some host) (open_cow ops host content path (forced_write opts) s h)"
proof -
  have found: "lookup_parent_node s path = Some (Some (butlast cs, Directory children w, last cs))"
    using parent_found [OF assms(2)] assms(3) dir by simp
  obtain ready h2 where ready: "(if content = [] then (True, h)
      else case host_create_dir_all ops (butlast host) h of (made, h1) \<Rightarrow>
        if \<not> made then (False, h1) else host_write ops host content h1) = (ready, h2)" by fastforce
  let ?options = "(forced_write opts)\<lparr> o_create := False, o_create_new := False \<rparr>"
  obtain opened h3 where o: "host_open ops host ?options h2 = (opened, h3)" by fastforce
  show ?thesis
  proof (cases "ready \<and> opened")
    case True
    then show ?thesis
      using found ready o set_file_view [OF dir assms(3)] set_file_ok [OF assms(1-3) dir]
      by (simp add: open_cow_def open_existing_def Let_def open_outcome_def)
  next
    case False
    have panic: "open_outcome ops s cs opts (Some host) None" if "\<not> opened"
      using outcome_panic [of ops host ?options h2] that o by simp
    show ?thesis
    proof (cases ready)
      case True
      then show ?thesis using False found ready o panic by (simp add: open_cow_def open_existing_def Let_def)
    next
      case N: False
      then show ?thesis using ready by (simp add: open_cow_def outcome_refused)
    qed
  qed
qed

lemma replaced_below:
  assumes "\<forall>w. fs_view s cs \<noteq> Some (DirLabel w)" "q \<noteq> cs"
  shows "file_at cs host (fs_view s) q = fs_view s q"
proof -
  have "fs_view s q = None" if below: "prefix cs q"
  proof -
    obtain t where "q = cs @ t" using below by (auto simp: prefix_def)
    then obtain c r where q: "q = cs @ c # r" using assms(2) by (cases t) auto
    show ?thesis
    proof (cases "lookup_node_inner (root s) cs")
      case (Some n)
      then obtain l w where "n = File l w" using assms(1) view_directory by (cases n) blast+
      then show ?thesis using q Some by (simp add: tree_view_def lookup_append)
    qed (simp add: q tree_view_def lookup_append)
  qed
  then show ?thesis using assms(2) by (simp add: file_at_def)
qed

lemma open_with_options_outcome:
  assumes "fs_ok s" "resolved s path = Some cs" "cs \<noteq> []"
    and dir: "lookup_node_inner (root s) (butlast cs) = Some (Directory children w)"
    and fresh: "\<not> (o_create_new opts \<and> map_of children (last cs) \<noteq> None)"
  shows "open_outcome ops s cs opts (replaced_by s path cs opts) (open_with_options ops path opts s h)"
proof -
  let ?opts = "forced_write opts" and ?here = "map_of children (last cs)"
  let ?created = "created_in ?opts (fs_view s (butlast cs)) (last cs)"
  have found: "lookup_parent_node s path = Some (Some (butlast cs, Directory children w, last cs))"
    using parent_found [OF assms(2)] assms(3) dir by simp
  have view: "fs_view s cs = map_option label_of ?here" using child_here [OF dir] assms(3) by simp
  have new: "o_create_new ?opts = o_create_new opts" by (simp add: forced_write_def)
  have create: "open_outcome ops s cs opts ?created (create_file ops path ?opts s h)"
    by (rule outcome_created [OF assms(1-3) dir])
  have copy: "open_outcome ops s cs opts (Some host) (open_cow ops host content path ?opts s h)" for host content
    by (rule outcome_copied [OF assms(1-3) dir])
  have quiet: "open_outcome ops s cs opts None (Some (Inr f, s, h))" if "opens_node (fs_view s cs) ?opts f" for f
    using that by (simp add: open_outcome_def)
  have run: "open_with_options ops path opts s h =
      (case open_action ops (cow_dir s) path ?opts h ?here of
         None \<Rightarrow> Some (Inl (), s, h)
       | Some (OpenPath host_path) \<Rightarrow> map_option (\<lambda>(file, h1). (Inr file, s, h1)) (open_existing ops host_path ?opts h)
       | Some OpenIpa \<Rightarrow>
           (case ?here of Some (File (IpaFileRef f) _) \<Rightarrow> Some (Inr (IpaBundleFile f), s, h) | _ \<Rightarrow> Some (Inl (), s, h))
       | Some (OpenResource name) \<Rightarrow>
           (if host_resource ops name then Some (Inr (ResourceFile name), s, h) else None)
       | Some OpenDir \<Rightarrow> Some (Inr DirectoryFile, s, h)
       | Some Reject \<Rightarrow> create_file ops path ?opts s h
       | Some (CowIpa host_path content) \<Rightarrow> open_cow ops host_path content path ?opts s h)"
    using found fresh new by (cases ?here) (simp_all add: open_with_options_def Let_def)
  show ?thesis
  proof (cases ?here)
    case None
    then have "replaced_by s path cs opts = ?created" using assms(3) view by (simp add: replaced_by_def Let_def)
    moreover have "open_with_options ops path opts s h = create_file ops path ?opts s h"
      using run None by (simp add: open_action_def)
    ultimately show ?thesis using create by simp
  next
    case (Some n)
    show ?thesis
    proof (cases n)
      case (Directory sub sw)
      then have "replaced_by s path cs opts = (if o_write ?opts then ?created else None)"
        using Some assms(3) view fresh new by (simp add: replaced_by_def Let_def)
      moreover have "open_with_options ops path opts s h =
          (if o_write ?opts then create_file ops path ?opts s h else Some (Inr DirectoryFile, s, h))"
        using run Some Directory by (simp add: open_action_def)
      moreover have "opens_node (fs_view s cs) ?opts DirectoryFile" if "\<not> o_write ?opts"
        using that view Some Directory by simp
      ultimately show ?thesis using create quiet by simp
    next
      case (File l fw)
      show ?thesis
      proof (cases "fw \<or> \<not> (o_append ?opts \<or> o_write ?opts)")
        case True
        then have none: "replaced_by s path cs opts = None"
          using Some File assms(3) view fresh new by (auto simp: replaced_by_def Let_def)
        have here: "fs_view s cs = Some (FileLabel l fw)" using view Some File by simp
        show ?thesis
        proof (cases l)
          case (HostPath p)
          have "open_outcome ops s cs opts None
              (map_option (\<lambda>(file, h1). (Inr file, s, h1)) (open_existing ops p ?opts h))"
            by (rule outcome_existing) (use here HostPath True in simp)
          then show ?thesis unfolding none using run Some File True HostPath by (auto simp: open_action_def)
        next
          case (IpaFileRef f)
          then show ?thesis unfolding none using run Some File True quiet [of "IpaBundleFile f"] here
            by (auto simp: open_action_def)
        next
          case (ResourceFilePath name)
          then have "open_with_options ops path opts s h =
              (if host_resource ops name then Some (Inr (ResourceFile name), s, h) else None)"
            using run Some File True by (auto simp: open_action_def)
          moreover have "open_outcome ops s cs opts None None" if "\<not> host_resource ops name"
            using that by (auto simp: open_outcome_def)
          ultimately show ?thesis unfolding none using quiet [of "ResourceFile name"] here True ResourceFilePath by simp
        qed
      next
        case False
        show ?thesis
        proof (cases "(\<exists>f. l = IpaFileRef f) \<and> cow_dir s \<noteq> None")
          case True
          then obtain f base where l: "l = IpaFileRef f" "cow_dir s = Some base" by auto
          then have "replaced_by s path cs opts = Some (cow_host_path base path)"
            using Some File assms(3) view fresh new False by (simp add: replaced_by_def Let_def)
          then show ?thesis
            using run Some File False l copy outcome_refused
            by (cases "ipa_read ops f") (auto simp: open_action_def Let_def)
        next
          case rest: False
          then have "replaced_by s path cs opts = ?created"
            using Some File assms(3) view fresh new False
            by (cases l; cases "cow_dir s") (simp_all add: replaced_by_def Let_def)
          moreover have "open_with_options ops path opts s h = create_file ops path ?opts s h"
            using run Some File False rest by (cases l; cases "cow_dir s") (simp_all add: open_action_def)
          ultimately show ?thesis using create by simp
        qed
      qed
    qed
  qed
qed

lemma outcome_frame:
  assumes "open_outcome ops s cs opts replaced (Some (r, s1, h1))"
    and "\<forall>w. fs_view s cs \<noteq> Some (DirLabel w)" "q \<noteq> cs"
  shows "fs_view s1 q = fs_view s q"
  using assms(1) replaced_below [OF assms(2,3)]
  by (auto simp: open_outcome_def split: sum.splits option.splits)

text \<open>
  C36: opening a file panics only when the host refuses to open the file of a node, or a resource is
  missing.  When it reports an error, nothing has changed.  When it gives a file, then either nothing
  has changed and the file is what the node at the path names, writeable if the flags ask for
  writing or appending; or the node at the path has become the writeable host file, now open, that
  the flags, the permissions of the node and its parent and the shadow directory determine (see
  \<open>replaced_by\<close>), and the tree is still well-formed.  With \<open>O_EXCL\<close> an existing node is refused.
  Unless there was a directory at the path, no other path changes.
\<close>

theorem open_effect:
  assumes "fs_ok s" "resolved s path = Some cs"
  shows "open_outcome ops s cs opts (replaced_by s path cs opts) (open_with_options ops path opts s h) \<and>
    (o_create_new opts \<and> fs_view s cs \<noteq> None \<longrightarrow> open_with_options ops path opts s h = Some (Inl (), s, h)) \<and>
    (\<forall>r s1 h1 q. open_with_options ops path opts s h = Some (r, s1, h1) \<and>
       (\<forall>w. fs_view s cs \<noteq> Some (DirLabel w)) \<and> q \<noteq> cs \<longrightarrow> fs_view s1 q = fs_view s q)"
    (is "?outcome \<and> ?excl \<and> ?frame")
proof -
  have "?outcome \<and> ?excl"
  proof (cases "cs \<noteq> [] \<and> (\<exists>children w. lookup_node_inner (root s) (butlast cs) = Some (Directory children w))")
    case False
    have "open_with_options ops path opts s h = Some (Inl (), s, h)"
    proof (cases "cs = [] \<or> lookup_node_inner (root s) (butlast cs) = None")
      case True
      then show ?thesis using parent_found [OF assms(2)] by (auto simp: open_with_options_def Let_def)
    next
      case T: False
      then obtain l w where "lookup_node_inner (root s) (butlast cs) = Some (File l w)"
        using False by (metis fs_node.exhaust not_None_eq)
      then show ?thesis using parent_found [OF assms(2)] T by (simp add: open_with_options_def Let_def)
    qed
    then show ?thesis by (simp add: outcome_refused)
  next
    case True
    then obtain children w where cs: "cs \<noteq> []" and dir: "lookup_node_inner (root s) (butlast cs) = Some (Directory children w)"
      by blast
    have here: "fs_view s cs = map_option label_of (map_of children (last cs))"
      using child_here [OF dir] cs by simp
    show ?thesis
    proof (cases "o_create_new opts \<and> map_of children (last cs) \<noteq> None")
      case True
      have "o_create_new (forced_write opts) = o_create_new opts" by (simp add: forced_write_def)
      then have "open_with_options ops path opts s h = Some (Inl (), s, h)"
        using True cs dir parent_found [OF assms(2)] by (simp add: open_with_options_def Let_def)
      then show ?thesis by (simp add: outcome_refused)
    next
      case fresh: False
      then have "\<not> (o_create_new opts \<and> fs_view s cs \<noteq> None)" using here by auto
      then show ?thesis using open_with_options_outcome [OF assms cs dir fresh] by (simp only: simp_thms)
    qed
  qed
  then have outcome: ?outcome and excl: ?excl by (rule conjunct1, rule conjunct2)
  have ?frame
  proof (intro allI impI, elim conjE)
    fix r s1 h1 q
    assume "open_with_options ops path opts s h = Some (r, s1, h1)"
    then have "open_outcome ops s cs opts (replaced_by s path cs opts) (Some (r, s1, h1))" using outcome by simp
    moreover assume "\<forall>w. fs_view s cs \<noteq> Some (DirLabel w)" "q \<noteq> cs"
    ultimately show "fs_view s1 q = fs_view s q" by (rule outcome_frame)
  qed
  then show ?thesis by (intro conjI outcome excl)
qed

text \<open>
  C32: opening a directory for writing with \<open>O_CREAT\<close> should fail, and the comment says it does; but
  the rejection falls through to the creation of a new file below the host path of the parent.  When
  the host has a directory there it refuses, and the emulator panics.  When it has none, as for the
  bundle directory, which is put in the tree of the sandbox and is not in its host directory, the
  host makes the file, and the guest directory is replaced by it, with everything below.
\<close>

theorem create_over_directory_destroys:
  assumes "fs_ok s" "resolved s path = Some cs" "cs \<noteq> []"
    and "fs_view s cs = Some (DirLabel w)" "fs_view s (butlast cs) = Some (DirLabel (Some host))"
    and "o_write opts" "o_create opts" "\<not> o_create_new opts"
  shows "case host_open ops (host @ [last cs]) opts h of
      (True, h1) \<Rightarrow> \<exists>f s1. open_with_options ops path opts s h = Some (Inr f, s1, h1) \<and>
        fs_view s1 cs = Some (FileLabel (HostPath (host @ [last cs])) True) \<and>
        (\<forall>q. strict_prefix cs q \<longrightarrow> fs_view s1 q = None)
    | (False, h1) \<Rightarrow> open_with_options ops path opts s h = None"
proof -
  obtain children where dir: "lookup_node_inner (root s) (butlast cs) = Some (Directory children (Some host))"
    using assms(5) view_directory by blast
  have found: "lookup_parent_node s path = Some (Some (butlast cs, Directory children (Some host), last cs))"
    using parent_found [OF assms(2)] assms(3) dir by simp
  have "map_option label_of (map_of children (last cs)) = Some (DirLabel w)"
    using child_here [OF dir] assms(3,4) by simp
  then obtain n where n: "map_of children (last cs) = Some n" "label_of n = DirLabel w" by auto
  then obtain sub where sub: "n = Directory sub w" by (cases n) auto
  have opts: "forced_write opts = opts" using assms(6) by (simp add: forced_write_def)
  have same: "opts\<lparr> o_create := True, o_create_new := False \<rparr> = opts" using assms(7,8) by simp
  have "open_with_options ops path opts s h = create_file ops path opts s h"
    using found n(1) sub assms(6,8) opts by (simp add: open_with_options_def open_action_def Let_def)
  also note create_file_cases [OF assms(2,3) dir]
  finally have run: "open_with_options ops path opts s h =
      (case host_open ops (host @ [last cs]) opts h of (opened, h1) \<Rightarrow>
         if opened then Some (Inr (HostFile (host @ [last cs]) opts),
           change_root (set_child (last cs) (File (HostPath (host @ [last cs])) True)) (butlast cs) s, h1)
         else None)"
    using assms(7) same by (simp add: Let_def)
  obtain opened h1 where host: "host_open ops (host @ [last cs]) opts h = (opened, h1)" by fastforce
  have gone: "file_at cs p (fs_view s) cs = Some (FileLabel (HostPath p) True)"
    "\<forall>q. strict_prefix cs q \<longrightarrow> file_at cs p (fs_view s) q = None" for p
    by (simp_all add: file_at_def strict_prefix_def)
  show ?thesis
    using run host set_file_view [OF dir assms(3)] gone by (cases opened) simp_all
qed

section \<open>Recursive listings\<close>

text \<open>The paths below a directory, each directory before what it holds.\<close>

fun descend :: "u8 list list \<Rightarrow> (u8 list \<times> fs_node) list \<Rightarrow> u8 list list list" where
  "descend p [] = []"
| "descend p ((name, File l w) # rest) = (p @ [name]) # descend p rest"
| "descend p ((name, Directory children w) # rest) =
     (p @ [name]) # descend (p @ [name]) children @ descend p rest"

lemma enumerate_loop_descend:
  "enumerate_loop stack (children # iterators) paths =
     enumerate_loop stack ([] # iterators) (paths @ map join_components (descend (rev stack) children))"
proof (induction "rev stack" children arbitrary: stack iterators paths rule: descend.induct)
  case (2 name l w rest)
  have "enumerate_loop stack (((name, File l w) # rest) # iterators) paths =
      enumerate_loop stack (rest # iterators) (paths @ [join_components (rev (name # stack))])"
    by (subst enumerate_loop.simps) (simp add: Let_def)
  then show ?case using 2 by simp
next
  case (3 name children w rest)
  let ?paths = "paths @ [join_components (rev (name # stack))]"
  have "enumerate_loop stack (((name, Directory children w) # rest) # iterators) paths =
      enumerate_loop (name # stack) (children # rest # iterators) ?paths"
    by (subst enumerate_loop.simps) (simp add: Let_def)
  also have "\<dots> = enumerate_loop (name # stack) ([] # rest # iterators)
      (?paths @ map join_components (descend (rev (name # stack)) children))"
    by (rule 3(1)) simp
  also have "\<dots> = enumerate_loop stack (rest # iterators) (?paths @ map join_components (descend (rev (name # stack)) children))"
    by (subst enumerate_loop.simps) simp
  finally show ?case using 3(2) by simp
qed simp

text \<open>The non-empty paths that lead somewhere.\<close>

fun inside :: "(u8 list \<times> fs_node) list \<Rightarrow> u8 list list \<Rightarrow> bool" where
  "inside children [] = False"
| "inside children (c # r) = (case map_of children c of None \<Rightarrow> False | Some n \<Rightarrow> lookup_node_inner n r \<noteq> None)"

lemma inside_lookup: "inside children q \<longleftrightarrow> q \<noteq> [] \<and> lookup_node_inner (Directory children w) q \<noteq> None"
  by (cases q) (auto split: option.splits)

lemma inside_absent: "name \<notin> fst ` set children \<Longrightarrow> \<not> inside children (name # r)"
  using map_of_eq_None_iff [of children name] by simp

lemma inside_file:
  assumes "name \<notin> fst ` set rest"
  shows "inside ((name, File l w) # rest) q \<longleftrightarrow> q = [name] \<or> inside rest q"
proof (cases q)
  case (Cons c r)
  then show ?thesis using inside_absent [OF assms, of r] by (cases r) auto
qed simp

lemma inside_directory:
  assumes "name \<notin> fst ` set rest"
  shows "inside ((name, Directory children w) # rest) q \<longleftrightarrow>
    q = [name] \<or> (\<exists>r. q = name # r \<and> inside children r) \<or> inside rest q"
proof (cases q)
  case (Cons c r)
  have "lookup_node_inner (Directory children w) r \<noteq> None \<longleftrightarrow> r = [] \<or> inside children r"
    using inside_lookup [of children r w] by auto
  then show ?thesis using Cons inside_absent [OF assms, of r] by auto
qed simp

lemma descend_inside:
  "tree_ok (Directory children w) \<Longrightarrow>
   distinct (descend p children) \<and> set (descend p children) = (\<lambda>q. p @ q) ` {q. inside children q}"
proof (induction p children arbitrary: w rule: descend.induct)
  case (1 p)
  have "\<not> inside [] q" for q by (cases q) auto
  then show ?case by simp
next
  case (2 p name l lw rest)
  then have name: "name \<notin> fst ` set rest" and rest: "tree_ok (Directory rest w)" by (auto simp: image_iff)
  have "{q. inside ((name, File l lw) # rest) q} = insert [name] {q. inside rest q}"
    using inside_file [OF name] by auto
  then show ?case using 2(1) [OF rest] inside_absent [OF name] by auto
next
  case (3 p name children cw rest)
  then have name: "name \<notin> fst ` set rest" and rest: "tree_ok (Directory rest w)" "tree_ok (Directory children cw)"
    by (auto simp: image_iff)
  have eq: "{q. inside ((name, Directory children cw) # rest) q} =
      insert [name] ((\<lambda>r. name # r) ` {r. inside children r} \<union> {q. inside rest q})"
    using inside_directory [OF name] by auto
  note ih = 3(1) [OF rest(2)] 3(2) [OF rest(1)]
  have "p @ [name] \<notin> set (descend (p @ [name]) children)" using ih(1) by auto
  moreover have "p @ [name] \<notin> set (descend p rest)" using ih(2) inside_absent [OF name] by auto
  moreover have "set (descend (p @ [name]) children) \<inter> set (descend p rest) = {}"
    using ih inside_absent [OF name] by auto
  moreover have "set (descend p ((name, Directory children cw) # rest)) =
      (\<lambda>q. p @ q) ` insert [name] ((\<lambda>r. name # r) ` {r. inside children r} \<union> {q. inside rest q})"
    using ih by (auto simp: image_iff)
  ultimately show ?case using ih eq by simp
qed

text \<open>No path of the listing leads to a directory that comes later.\<close>

lemma inside_head:
  "inside children q \<Longrightarrow> \<exists>c r. q = c # r \<and> c \<in> fst ` set children"
  using inside_absent by (cases q) auto

lemma descend_member:
  assumes "tree_ok (Directory children w)" "q \<in> set (descend p children)"
  shows "\<exists>c r. q = p @ c # r \<and> c \<in> fst ` set children"
  using descend_inside [OF assms(1), of p] assms(2) inside_head by fastforce

lemma descend_parents_first:
  "tree_ok (Directory children w) \<Longrightarrow> sorted_wrt (\<lambda>q r. \<not> strict_prefix r q) (descend p children)"
proof (induction p children arbitrary: w rule: descend.induct)
  case (2 p name l lw rest)
  then have rest: "tree_ok (Directory rest w)" by auto
  have "\<not> strict_prefix q (p @ [name])" if "q \<in> set (descend p rest)" for q
    using descend_member [OF rest that] by (auto simp: strict_prefix_def prefix_def)
  then show ?case using 2(1) [OF rest] by simp
next
  case (3 p name children cw rest)
  then have name: "name \<notin> fst ` set rest" and rest: "tree_ok (Directory rest w)" "tree_ok (Directory children cw)"
    by (auto simp: image_iff)
  have "\<not> strict_prefix q (p @ [name])" if "q \<in> set (descend (p @ [name]) children) \<union> set (descend p rest)" for q
    using that descend_member [OF rest(1)] descend_member [OF rest(2)] by (fastforce simp: strict_prefix_def prefix_def)
  moreover have "\<not> strict_prefix r q" if q: "q \<in> set (descend (p @ [name]) children)" and r: "r \<in> set (descend p rest)" for q r
  proof
    assume "strict_prefix r q"
    moreover obtain a b where "q = p @ name # a # b" using descend_member [OF rest(2) q] by auto
    moreover obtain c d where "r = p @ c # d" "c \<in> fst ` set rest" using descend_member [OF rest(1) r] by blast
    ultimately show False using name by (auto simp: strict_prefix_def)
  qed
  ultimately show ?case using 3(1) [OF rest(2)] 3(2) [OF rest(1)] by (auto simp: sorted_wrt_append)
qed simp

text \<open>
  C15: \<open>enumerate_recursive\<close> ends, fails exactly when the path is not a directory, and otherwise lists
  every path below the directory once, and nothing else, each directory before what it holds.
\<close>

theorem enumerate_recursive_complete:
  assumes "fs_ok s" "resolved s path = Some cs"
  shows "if \<exists>w. fs_view s cs = Some (DirLabel w)
    then \<exists>ps. enumerate_recursive s path = Some (Inr (map join_components ps)) \<and> distinct ps \<and>
      set ps = {q. q \<noteq> [] \<and> fs_view s (cs @ q) \<noteq> None} \<and> sorted_wrt (\<lambda>q r. \<not> strict_prefix r q) ps
    else enumerate_recursive s path = Some (Inl ())"
proof (cases "\<exists>w. fs_view s cs = Some (DirLabel w)")
  case True
  then obtain children w where n: "lookup_node_inner (root s) cs = Some (Directory children w)"
    using view_directory by blast
  have "enumerate_loop [] [children] [] = Some (map join_components (descend [] children))"
    using enumerate_loop_descend [of "[]" children "[]" "[]"] by (simp add: enumerate_loop.simps)
  then have "enumerate_recursive s path = Some (Inr (map join_components (descend [] children)))"
    using assms(2) n by (simp add: enumerate_recursive_def lookup_node_def)
  moreover have "tree_ok (Directory children w)" using lookup_ok [OF _ n] assms(1) by (simp add: fs_ok_def)
  moreover have "inside children q \<longleftrightarrow> q \<noteq> [] \<and> fs_view s (cs @ q) \<noteq> None" for q
    using inside_lookup [of children q w] by (simp add: tree_view_def lookup_append n)
  ultimately show ?thesis
    using True descend_inside [of children w "[]"] descend_parents_first [of children w "[]"] by auto
next
  case False
  then have "\<not> (\<exists>children w. lookup_node_inner (root s) cs = Some (Directory children w))"
    using view_directory by blast
  then have "enumerate_recursive s path = Some (Inl ())"
    using assms(2) by (auto simp: enumerate_recursive_def lookup_node_def split: option.splits fs_node.splits)
  then show ?thesis using False by simp
qed

section \<open>An example\<close>

definition example_tree :: fs_node where
  "example_tree = Directory
     [(bytes_of ''d'', Directory [(bytes_of ''x'', File (HostPath [bytes_of ''h'', bytes_of ''d'', bytes_of ''x'']) True)]
        (Some [bytes_of ''h'', bytes_of ''d'']))] (Some [bytes_of ''h''])"

definition example_fs :: fs where
  "example_fs = \<lparr> root = example_tree, working_directory = bytes_of ''/d'', home_directory = bytes_of ''/'', cow_dir = None \<rparr>"

text \<open>A host on which everything succeeds.\<close>

definition kind_host :: "unit host" where
  "kind_host = \<lparr> host_exists = (\<lambda>_ _. False), host_open = (\<lambda>_ _ h. (True, h)), host_write = (\<lambda>_ _ h. (True, h)),
     host_create_dir = (\<lambda>_ h. (Created, h)), host_create_dir_all = (\<lambda>_ h. (True, h)),
     host_remove_file = (\<lambda>_ h. (True, h)), host_remove_dir = (\<lambda>_ h. (True, h)),
     host_rename = (\<lambda>_ _ h. (True, h)), host_resource = (\<lambda>_. True), ipa_read = (\<lambda>_. None) \<rparr>"


lemma example_fs_ok: "fs_ok example_fs"
  by (simp add: fs_ok_def example_fs_def example_tree_def component_ok_def bytes_of_def SLASH_def DOT_def)

lemma example_resolved:
  "resolved example_fs (bytes_of ''y'') = Some [bytes_of ''d'', bytes_of ''y'']"
  "resolved example_fs (bytes_of ''x'') = Some [bytes_of ''d'', bytes_of ''x'']"
  "resolved example_fs (bytes_of ''/d'') = Some [bytes_of ''d'']"
  "resolved example_fs (bytes_of ''/d/x/z'') = Some [bytes_of ''d'', bytes_of ''x'', bytes_of ''z'']"
  "resolved example_fs (bytes_of ''/e'') = Some [bytes_of ''e'']"
  by (simp_all add: resolved_def example_fs_def bytes_of_def SLASH_def DOT_def resolve_path_def
      apply_path_component_def strip_duplicate_def)


lemma rename_moves_subtree_witness:
  "\<exists>s1. fs_rename kind_host (bytes_of ''/d'') (bytes_of ''/e'') example_fs () = Some (Inr (), s1, ()) \<and>
     fs_view s1 [bytes_of ''e'', bytes_of ''x''] =
       Some (FileLabel (HostPath [bytes_of ''h'', bytes_of ''e'', bytes_of ''x'']) True) \<and>
     fs_view s1 [bytes_of ''d''] = None"
proof -
  let ?f = "[bytes_of ''d'']" and ?t = "[bytes_of ''e'']" and ?hp = "[bytes_of ''h'', bytes_of ''e'']"
  have "\<not> prefix ?f ?t" "\<not> prefix ?t ?f" by (simp_all add: bytes_of_def)
  moreover have "bytes_of ''/d'' \<noteq> bytes_of ''/e''" by (simp add: bytes_of_def)
  moreover have "movable (lookup_node_inner (root example_fs) ?f) = Some [bytes_of ''h'', bytes_of ''d'']"
    "fs_view example_fs (butlast ?t) = Some (DirLabel (Some [bytes_of ''h'']))"
    by (simp_all add: example_fs_def example_tree_def tree_view_def bytes_of_def)
  moreover have "moved ?f ?t ?hp (fs_view example_fs) [bytes_of ''e'', bytes_of ''x''] =
      Some (FileLabel (HostPath (?hp @ [bytes_of ''x''])) True)"
    "moved ?f ?t ?hp (fs_view example_fs) ?f = None"
    by (simp_all add: moved_def relabelled_def hosted_def example_fs_def example_tree_def tree_view_def bytes_of_def)
  moreover have "host_rename kind_host p q () = (True, ())" for p q by (simp add: kind_host_def)
  ultimately show ?thesis
    using rename_moves_subtree [OF example_fs_ok example_resolved(3) example_resolved(5), of kind_host "()"]
    by (auto simp: strict_prefix_def)
qed

lemma open_effect_witness:
  "open_outcome kind_host example_fs [bytes_of ''d'', bytes_of ''y''] (guest_open_options_new\<lparr> o_create := True \<rparr>)
     (Some [bytes_of ''h'', bytes_of ''d'', bytes_of ''y''])
     (open_with_options kind_host (bytes_of ''y'') (guest_open_options_new\<lparr> o_create := True \<rparr>) example_fs ())"
proof -
  have "replaced_by example_fs (bytes_of ''y'') [bytes_of ''d'', bytes_of ''y''] (guest_open_options_new\<lparr> o_create := True \<rparr>) =
      Some [bytes_of ''h'', bytes_of ''d'', bytes_of ''y'']"
    by (simp add: replaced_by_def forced_write_def guest_open_options_new_def example_fs_def example_tree_def
        tree_view_def bytes_of_def)
  then show ?thesis
    using open_effect [OF example_fs_ok example_resolved(1), of kind_host "guest_open_options_new\<lparr> o_create := True \<rparr>" "()",
      THEN conjunct1] by (simp only:)
qed

text \<open>
  A host that does not open a directory for writing, and a tree with a bundle directory \<open>b\<close>, which
  the host does not have below \<open>h\<close>.
\<close>

definition directory_host :: "hpath list \<Rightarrow> unit host" where
  "directory_host dirs = kind_host\<lparr> host_open := (\<lambda>p opts h. (\<not> (o_write opts \<and> p \<in> set dirs), h)) \<rparr>"

definition bundle_fs :: fs where
  "bundle_fs = \<lparr> root = Directory
       [(bytes_of ''b'', Directory [(bytes_of ''x'', File (IpaFileRef 0) False)] None),
        (bytes_of ''d'', Directory [] (Some [bytes_of ''h'', bytes_of ''d'']))] (Some [bytes_of ''h'']),
     working_directory = bytes_of ''/'', home_directory = bytes_of ''/'', cow_dir = None \<rparr>"

lemma bundle_fs_ok: "fs_ok bundle_fs"
  by (simp add: fs_ok_def bundle_fs_def component_ok_def bytes_of_def SLASH_def DOT_def)

lemma bundle_resolved:
  "resolved bundle_fs (bytes_of ''/b'') = Some [bytes_of ''b'']"
  "resolved bundle_fs (bytes_of ''/d'') = Some [bytes_of ''d'']"
  by (simp_all add: resolved_def bundle_fs_def bytes_of_def SLASH_def DOT_def resolve_path_def
      apply_path_component_def strip_duplicate_def)

lemma create_over_directory_destroys_witness:
  "let ops = directory_host [[bytes_of ''h''], [bytes_of ''h'', bytes_of ''d'']];
       opts = guest_open_options_new\<lparr> o_create := True, o_write := True \<rparr>
   in (\<exists>f s1. open_with_options ops (bytes_of ''/b'') opts bundle_fs () = Some (Inr f, s1, ()) \<and>
         fs_view s1 [bytes_of ''b'', bytes_of ''x''] = None) \<and>
      open_with_options ops (bytes_of ''/d'') opts bundle_fs () = None"
proof -
  let ?ops = "directory_host [[bytes_of ''h''], [bytes_of ''h'', bytes_of ''d'']]"
  let ?opts = "guest_open_options_new\<lparr> o_create := True, o_write := True \<rparr>"
  have flags: "o_write ?opts" "o_create ?opts" "\<not> o_create_new ?opts" by (simp_all add: guest_open_options_new_def)
  have b: "fs_view bundle_fs [bytes_of ''b''] = Some (DirLabel None)"
    and d: "fs_view bundle_fs [bytes_of ''d''] = Some (DirLabel (Some [bytes_of ''h'', bytes_of ''d'']))"
    and parent: "fs_view bundle_fs (butlast [c]) = Some (DirLabel (Some [bytes_of ''h'']))" for c
    by (simp_all add: bundle_fs_def tree_view_def bytes_of_def)
  have "host_open ?ops ([bytes_of ''h''] @ [last [bytes_of ''b'']]) ?opts () = (True, ())"
    "host_open ?ops ([bytes_of ''h''] @ [last [bytes_of ''d'']]) ?opts () = (False, ())"
    using flags by (simp_all add: directory_host_def kind_host_def bytes_of_def)
  then show ?thesis
    using create_over_directory_destroys [OF bundle_fs_ok bundle_resolved(1) _ b parent flags, of ?ops "()"]
      create_over_directory_destroys [OF bundle_fs_ok bundle_resolved(2) _ d parent flags, of ?ops "()"]
    unfolding Let_def by (auto simp: strict_prefix_def)
qed

lemma enumerate_recursive_complete_witness:
  "\<exists>ps. enumerate_recursive example_fs (bytes_of ''/e'') = Some (Inl ()) \<and>
     enumerate_recursive example_fs (bytes_of ''/d'') = Some (Inr (map join_components ps)) \<and> [bytes_of ''x''] \<in> set ps"
proof -
  have "fs_view example_fs [bytes_of ''d''] = Some (DirLabel (Some [bytes_of ''h'', bytes_of ''d'']))"
    "fs_view example_fs ([bytes_of ''d''] @ [bytes_of ''x'']) \<noteq> None" "fs_view example_fs [bytes_of ''e''] = None"
    by (simp_all add: example_fs_def example_tree_def tree_view_def bytes_of_def)
  then show ?thesis
    using enumerate_recursive_complete [OF example_fs_ok example_resolved(3)]
      enumerate_recursive_complete [OF example_fs_ok example_resolved(5)] by auto
qed

end
