(* ===== verification/Guest_Files.thy ===== *)
theory Guest_Files
  imports Prelude
begin

unbundle bit_operations_syntax

text \<open>
  The open files that are not host files: pipes and the random device of \<open>src/fs.rs\<close>
  (\<open>PipeBuffer\<close>, \<open>RandomFile\<close> and their cases of \<open>GuestFile\<close>).  The two ends of a pipe share its buffer.
\<close>

section \<open>Pipes\<close>

record pipe_buffer =
  pipe_bytes :: "u8 list"
  read_handles :: nat
  write_handles :: nat

definition pipe_new :: pipe_buffer where
  "pipe_new = \<lparr> pipe_bytes = [], read_handles = 1, write_handles = 1 \<rparr>"

datatype io_error = WouldBlock | BrokenPipe | Unsupported | PermissionDenied | IsADirectory

datatype pipe_end = ReadEnd | WriteEnd

fun pipe_clone :: "pipe_end \<Rightarrow> pipe_buffer \<Rightarrow> pipe_buffer" where
  "pipe_clone ReadEnd p = p\<lparr> read_handles := read_handles p + 1 \<rparr>"
| "pipe_clone WriteEnd p = p\<lparr> write_handles := write_handles p + 1 \<rparr>"

text \<open>\<open>saturating_sub\<close> is subtraction of natural numbers.\<close>

fun close_pipe_endpoint :: "pipe_end \<Rightarrow> pipe_buffer \<Rightarrow> pipe_buffer" where
  "close_pipe_endpoint ReadEnd p = p\<lparr> read_handles := read_handles p - 1 \<rparr>"
| "close_pipe_endpoint WriteEnd p = p\<lparr> write_handles := write_handles p - 1 \<rparr>"

text \<open>Reading into a buffer of \<open>n\<close> bytes: the bytes read, or the error.\<close>

fun pipe_read :: "pipe_end \<Rightarrow> nat \<Rightarrow> pipe_buffer \<Rightarrow> (io_error + u8 list) \<times> pipe_buffer" where
  "pipe_read ReadEnd n p =
     (if n = 0 then (Inr [], p)
      else if pipe_bytes p = [] then
        (if write_handles p = 0 then (Inr [], p) else (Inl WouldBlock, p))
      else let count = min n (length (pipe_bytes p))
           in (Inr (take count (pipe_bytes p)), p\<lparr> pipe_bytes := drop count (pipe_bytes p) \<rparr>))"
| "pipe_read WriteEnd n p = (Inl Unsupported, p)"

fun pipe_write :: "pipe_end \<Rightarrow> u8 list \<Rightarrow> pipe_buffer \<Rightarrow> (io_error + nat) \<times> pipe_buffer" where
  "pipe_write ReadEnd buf p = (Inl BrokenPipe, p)"
| "pipe_write WriteEnd buf p =
     (if read_handles p = 0 then (Inl BrokenPipe, p)
      else (Inr (length buf), p\<lparr> pipe_bytes := pipe_bytes p @ buf \<rparr>))"

section \<open>The random device\<close>

record random_file =
  prng_state :: u64

definition next_u64 :: "random_file \<Rightarrow> u64 \<times> random_file" where
  "next_u64 r =
     (let x = prng_state r;
          x = x XOR drop_bit 12 x;
          x = x XOR push_bit 25 x;
          x = x XOR drop_bit 27 x
      in (x * 0x2545F4914F6CDD1D, r\<lparr> prng_state := x \<rparr>))"

definition u64_le_bytes :: "u64 \<Rightarrow> u8 list" where
  "u64_le_bytes w = map (\<lambda>i. ucast (drop_bit (8 * i) w)) [0..<8]"

text \<open>Filling a buffer of \<open>n\<close> bytes eight at a time.\<close>

function fill_from_prng :: "nat \<Rightarrow> random_file \<Rightarrow> u8 list \<times> random_file" where
  "fill_from_prng n r =
     (if n = 0 then ([], r)
      else case next_u64 r of (w, r1) \<Rightarrow>
        (case fill_from_prng (n - 8) r1 of (rest, r2) \<Rightarrow> (take n (u64_le_bytes w) @ rest, r2)))"
  by pat_completeness auto
termination by (relation "measure fst") auto

declare fill_from_prng.simps [simp del]

text \<open>
  The host source is a parameter: \<open>None\<close> where there is none, otherwise the bytes the host returned,
  or nothing when it failed and is given up.
\<close>

datatype host_random = HostBytes "u8 list" | HostFailed

definition random_fill :: "host_random option \<Rightarrow> nat \<Rightarrow> random_file \<Rightarrow> u8 list \<times> random_file" where
  "random_fill source n r =
     (case source of
        Some (HostBytes bs) \<Rightarrow>
          (if length bs = n then (bs, r)
           else case fill_from_prng (n - length bs) r of (rest, r1) \<Rightarrow> (bs @ rest, r1))
      | _ \<Rightarrow> fill_from_prng n r)"

lemma u64_le_bytes_length [simp]: "length (u64_le_bytes w) = 8"
  by (simp add: u64_le_bytes_def)

lemma fill_from_prng_length: "length (fst (fill_from_prng n r)) = n"
proof (induction n r rule: fill_from_prng.induct)
  case (1 n r)
  then show ?case by (subst fill_from_prng.simps) (auto split: prod.splits)
qed

lemma xor_eq_zero: "(x :: u64) XOR y = 0 \<Longrightarrow> x = y"
proof -
  assume "x XOR y = 0"
  moreover have "x = (x XOR y) XOR y" by (simp add: xor.assoc)
  ultimately show ?thesis by simp
qed

lemma xor_drop_zero:
  assumes "0 < k" "(x :: u64) XOR drop_bit k x = 0"
  shows "x = 0"
proof -
  have eq: "x = drop_bit k x" using assms(2) by (rule xor_eq_zero)
  have "x = drop_bit (k * n) x" for n
  proof (induction n)
    case (Suc n)
    have "drop_bit (k * Suc n) x = drop_bit (k * n) (drop_bit k x)" by (simp add: drop_bit_drop_bit add.commute)
    then show ?case using Suc eq by simp
  qed simp
  then have "x = drop_bit (k * 64) x" .
  moreover have "drop_bit (k * 64) x = 0"
    using assms(1) by (intro bit_word_eqI) (auto simp: bit_drop_bit_eq dest: bit_imp_le_length)
  ultimately show ?thesis by simp
qed

lemma xor_push_zero:
  assumes "0 < k" "(x :: u64) XOR push_bit k x = 0"
  shows "x = 0"
proof -
  have eq: "x = push_bit k x" using assms(2) by (rule xor_eq_zero)
  have "x = push_bit (k * n) x" for n
  proof (induction n)
    case (Suc n)
    have "push_bit (k * Suc n) x = push_bit (k * n) (push_bit k x)" by (simp add: push_bit_push_bit add.commute)
    then show ?case using Suc eq by simp
  qed simp
  then have "x = push_bit (k * 64) x" .
  moreover have "push_bit (k * 64) x = 0"
    using assms(1) by (intro bit_word_eqI) (auto simp: bit_push_bit_iff)
  ultimately show ?thesis by simp
qed

text \<open>The state is never zero, as its comment says, so the generator does not get stuck.\<close>

lemma prng_never_zero:
  assumes "prng_state r \<noteq> 0"
  shows "prng_state (snd (next_u64 r)) \<noteq> 0"
proof -
  let ?a = "prng_state r XOR drop_bit 12 (prng_state r)"
  let ?b = "?a XOR push_bit 25 ?a"
  have "?a \<noteq> 0" using xor_drop_zero [of 12 "prng_state r"] assms by auto
  then have "?b \<noteq> 0" using xor_push_zero [of 25 ?a] by auto
  then have "?b XOR drop_bit 27 ?b \<noteq> 0" using xor_drop_zero [of 27 ?b] by auto
  then show ?thesis by (simp add: next_u64_def Let_def)
qed

section \<open>A pipe in use\<close>

text \<open>What the users of a pipe do, with all bytes written and read so far.\<close>

inductive pipe_step :: "pipe_buffer \<times> u8 list \<times> u8 list \<Rightarrow> pipe_buffer \<times> u8 list \<times> u8 list \<Rightarrow> bool" where
  wrote: "pipe_write e buf p = (Inr n, p1) \<Longrightarrow> pipe_step (p, ws, rs) (p1, ws @ take n buf, rs)"
| write_failed: "pipe_write e buf p = (Inl err, p1) \<Longrightarrow> pipe_step (p, ws, rs) (p1, ws, rs)"
| got: "pipe_read e n p = (Inr bs, p1) \<Longrightarrow> pipe_step (p, ws, rs) (p1, ws, rs @ bs)"
| read_failed: "pipe_read e n p = (Inl err, p1) \<Longrightarrow> pipe_step (p, ws, rs) (p1, ws, rs)"
| dup: "pipe_step (p, ws, rs) (pipe_clone e p, ws, rs)"
| closed: "pipe_step (p, ws, rs) (close_pipe_endpoint e p, ws, rs)"

inductive_cases pipe_stepE: "pipe_step (p, ws, rs) st"

fun pipe_log :: "pipe_buffer \<times> u8 list \<times> u8 list \<Rightarrow> bool" where
  "pipe_log (p, ws, rs) = (ws = rs @ pipe_bytes p)"

lemma pipe_step_log: "pipe_step st st1 \<Longrightarrow> pipe_log st \<Longrightarrow> pipe_log st1"
proof (induction rule: pipe_step.induct)
  case (wrote e buf p n p1 ws rs)
  then show ?case by (cases e) (auto split: if_splits)
next
  case (write_failed e buf p err p1 ws rs)
  then show ?case by (cases e) (auto split: if_splits)
next
  case (got e n p bs p1 ws rs)
  then show ?case by (cases e) (auto simp: Let_def split: if_splits)
next
  case (read_failed e n p err p1 ws rs)
  then show ?case by (cases e) (auto simp: Let_def split: if_splits)
next
  case (dup p ws rs e)
  then show ?case by (cases e) auto
next
  case (closed p ws rs e)
  then show ?case by (cases e) auto
qed

text \<open>
  In every use of a pipe the bytes read are the first bytes written, in order, and the buffer
  holds the others; a read reports the end of the file only when all of them were read and nobody
  can write any more.
\<close>

theorem pipe_is_fifo:
  assumes "pipe_step\<^sup>*\<^sup>* (pipe_new, [], []) (p, ws, rs)"
  shows "ws = rs @ pipe_bytes p \<and>
    (\<forall>n. 0 < n \<longrightarrow> pipe_read ReadEnd n p = (Inr [], p) \<longrightarrow> rs = ws \<and> write_handles p = 0)"
proof -
  have "pipe_log st" if "pipe_step\<^sup>*\<^sup>* (pipe_new, [], []) st" for st
    using that by (induction rule: rtranclp_induct) (auto simp: pipe_new_def intro: pipe_step_log)
  from this [OF assms] have log: "ws = rs @ pipe_bytes p" by simp
  have "rs = ws \<and> write_handles p = 0" if "0 < n" "pipe_read ReadEnd n p = (Inr [], p)" for n
    using that log by (auto simp: Let_def min_def split: if_splits)
  then show ?thesis using log by blast
qed

lemma pipe_is_fifo_witness:
  "\<exists>p rs. pipe_step\<^sup>*\<^sup>* (pipe_new, [], []) (p, [1, 2, 3], rs) \<and> rs = [1, 2] \<and> pipe_bytes p = [3]"
proof -
  let ?p1 = "pipe_new\<lparr> pipe_bytes := [1, 2, 3] \<rparr>"
  have "pipe_step (pipe_new, [], []) (?p1, [] @ take 3 [1, 2, 3], [])"
    by (rule pipe_step.wrote [of WriteEnd]) (simp add: pipe_new_def)
  moreover have "pipe_step (?p1, [1, 2, 3], []) (?p1\<lparr> pipe_bytes := [3] \<rparr>, [1, 2, 3], [] @ [1, 2])"
    by (rule pipe_step.got [of ReadEnd 2]) (simp add: pipe_new_def numeral_2_eq_2)
  ultimately have run: "pipe_step\<^sup>*\<^sup>* (pipe_new, [], []) (?p1\<lparr> pipe_bytes := [3] \<rparr>, [1, 2, 3], [1, 2])"
    by (simp add: numeral_3_eq_3)
  then show ?thesis using pipe_is_fifo [OF run] by auto
qed

end
