(* ===== verification/ObjC_Objects.thy ===== *)
theory ObjC_Objects
  imports Guest_Values
begin

text \<open>
  Objective-C objects (\<open>src/objc/objects.rs\<close>) and the weak references of automatic reference
  counting (\<open>src/objc/weak.rs\<close>).  An object is an address; its guest memory starts with the pointer
  to its class, and the runtime keeps a host object and a reference count for it.  The messages
  \<open>retain\<close> and \<open>release\<close> of \<open>NSObject\<close> (\<open>src/frameworks/foundation/ns_object.rs\<close>) are included.
\<close>

section \<open>Host objects\<close>

text \<open>
  A host object of a framework class has a Rust type, here a number, a value of that type, and
  possibly the host object of its superclass inside it.
\<close>

datatype 'v host_object =
    ClassHostObject (class_size: u32)
  | TrivialHostObject
  | HostObject nat 'v "'v host_object option"

text \<open>The object itself or the first superclass part of the type that is asked for.\<close>

fun downcast :: "nat \<Rightarrow> 'v host_object \<Rightarrow> 'v option" where
  "downcast T (HostObject ty v None) = (if ty = T then Some v else None)"
| "downcast T (HostObject ty v (Some superclass)) = (if ty = T then Some v else downcast T superclass)"
| "downcast T _ = None"

text \<open>What a write through the reference changes.\<close>

fun downcast_mut :: "nat \<Rightarrow> 'v \<Rightarrow> 'v host_object \<Rightarrow> 'v host_object" where
  "downcast_mut T w (HostObject ty v None) = (if ty = T then HostObject ty w None else HostObject ty v None)"
| "downcast_mut T w (HostObject ty v (Some superclass)) =
     (if ty = T then HostObject ty w (Some superclass)
      else HostObject ty v (Some (downcast_mut T w superclass)))"
| "downcast_mut T w h = h"

record 'v host_object_entry =
  host_object :: "'v host_object"
  refcount :: "nat option"

text \<open>The part of the runtime state these operations use, with the process-wide phantom objects.\<close>

record 'v objc =
  objects :: "nat \<Rightarrow> 'v host_object_entry option"
  weak_refs :: "nat \<Rightarrow> nat list option"
  phantom_store :: "nat \<times> nat \<Rightarrow> 'v option"

definition objc_new :: "'v objc" where
  "objc_new = \<lparr> objects = (\<lambda>_. None), weak_refs = (\<lambda>_. None), phantom_store = (\<lambda>_. None) \<rparr>"

definition get_host_object :: "nat \<Rightarrow> 'v objc \<Rightarrow> 'v host_object option" where
  "get_host_object object rt = (if object = 0 then None else map_option host_object (objects rt object))"

definition class_instance_size :: "nat \<Rightarrow> 'v objc \<Rightarrow> nat" where
  "class_instance_size class rt =
     (case get_host_object class rt of Some (ClassHostObject n) \<Rightarrow> unat n | _ \<Rightarrow> 4)"

text \<open>The backing value of an object without a host object of the type, created on first use.\<close>

definition phantom_buffer_for :: "nat \<Rightarrow> nat \<Rightarrow> 'v \<Rightarrow> 'v objc \<Rightarrow> 'v \<times> 'v objc" where
  "phantom_buffer_for T object init rt =
     (case phantom_store rt (T, object) of
        Some v \<Rightarrow> (v, rt)
      | None \<Rightarrow> (init, rt\<lparr> phantom_store := (phantom_store rt)((T, object) \<mapsto> init) \<rparr>))"

definition real_part :: "nat \<Rightarrow> nat \<Rightarrow> 'v objc \<Rightarrow> 'v option" where
  "real_part T object rt = do { entry \<leftarrow> objects rt object; downcast T (host_object entry) }"

definition borrow :: "nat \<Rightarrow> 'v \<Rightarrow> nat \<Rightarrow> 'v objc \<Rightarrow> 'v \<times> 'v objc" where
  "borrow T init object rt =
     (case real_part T object rt of
        Some v \<Rightarrow> (v, rt)
      | None \<Rightarrow> phantom_buffer_for T object init rt)"

text \<open>Writing \<open>w\<close> through the reference that \<open>borrow_mut\<close> returns.\<close>

definition borrow_mut :: "nat \<Rightarrow> 'v \<Rightarrow> nat \<Rightarrow> 'v \<Rightarrow> 'v objc \<Rightarrow> 'v objc" where
  "borrow_mut T init object w rt =
     (case objects rt object of
        Some entry \<Rightarrow>
          (if downcast T (host_object entry) \<noteq> None
           then rt\<lparr> objects := (objects rt)(object \<mapsto>
                  entry\<lparr> host_object := downcast_mut T w (host_object entry) \<rparr>) \<rparr>
           else rt\<lparr> phantom_store := (phantom_store rt)((T, object) \<mapsto> w) \<rparr>)
      | None \<Rightarrow> rt\<lparr> phantom_store := (phantom_store rt)((T, object) \<mapsto> w) \<rparr>)"

section \<open>Creating objects\<close>

definition read_isa :: "nat \<Rightarrow> mem \<Rightarrow> nat option" where
  "read_isa object m = (if object = 0 then Some 0 else read_u32 m object)"

definition alloc_object_inner ::
    "nat \<Rightarrow> nat \<Rightarrow> 'v host_object \<Rightarrow> nat option \<Rightarrow> 'v objc \<times> mem \<Rightarrow> (nat \<times> 'v objc \<times> mem) option" where
  "alloc_object_inner isa sz ho rc w = do {
     (p, m1) \<leftarrow> mem_alloc sz (snd w);
     m2 \<leftarrow> write_u32 m1 p isa;
     Some (p, (fst w)\<lparr> objects := (objects (fst w))(p \<mapsto> \<lparr> host_object = ho, refcount = rc \<rparr>) \<rparr>, m2) }"

definition alloc_object :: "nat \<Rightarrow> 'v host_object \<Rightarrow> 'v objc \<times> mem \<Rightarrow> (nat \<times> 'v objc \<times> mem) option" where
  "alloc_object isa ho w = alloc_object_inner isa (class_instance_size isa (fst w)) ho (Some 1) w"

definition alloc_object_sized ::
    "nat \<Rightarrow> nat \<Rightarrow> 'v host_object \<Rightarrow> 'v objc \<times> mem \<Rightarrow> (nat \<times> 'v objc \<times> mem) option" where
  "alloc_object_sized isa sz ho w = alloc_object_inner isa sz ho (Some 1) w"

definition alloc_static_object ::
    "nat \<Rightarrow> 'v host_object \<Rightarrow> 'v objc \<times> mem \<Rightarrow> (nat \<times> 'v objc \<times> mem) option" where
  "alloc_static_object isa ho w = alloc_object_inner isa 4 ho None w"

definition register_static_object :: "nat \<Rightarrow> 'v host_object \<Rightarrow> 'v objc \<Rightarrow> 'v objc" where
  "register_static_object object ho rt =
     (if object = 0 then rt
      else rt\<lparr> objects := (objects rt)(object \<mapsto> \<lparr> host_object = ho, refcount = None \<rparr>) \<rparr>)"

text \<open>\<open>copy_from_slice\<close> panics when the two slices have different lengths.\<close>

definition object_copy :: "nat \<Rightarrow> nat \<Rightarrow> 'v objc \<times> mem \<Rightarrow> (nat \<times> 'v objc \<times> mem) option" where
  "object_copy object extra_bytes w =
     (if object = 0 then Some (0, w)
      else do {
        isa \<leftarrow> read_isa object (snd w);
        let sz = class_instance_size isa (fst w);
        (new_object, m1) \<leftarrow> mem_alloc (min (sz + extra_bytes) 4294967295) (snd w);
        let src = slice_bytes m1 (bytes_at m1 object sz);
        let dst = bytes_at_mut m1 new_object sz;
        (if slice_len dst \<noteq> length src then None
         else Some (new_object,
                (fst w)\<lparr> objects := (objects (fst w))(new_object \<mapsto>
                           \<lparr> host_object = TrivialHostObject, refcount = Some 1 \<rparr>) \<rparr>,
                slice_store dst 0 src m1)) })"

section \<open>Reference counts\<close>

definition get_refcount :: "nat \<Rightarrow> 'v objc \<Rightarrow> nat" where
  "get_refcount object rt =
     (if object = 0 then 1
      else case objects rt object of
        None \<Rightarrow> 1
      | Some entry \<Rightarrow> (case refcount entry of None \<Rightarrow> 1 | Some c \<Rightarrow> c))"

definition set_refcount :: "nat \<Rightarrow> nat option \<Rightarrow> 'v objc \<Rightarrow> 'v objc" where
  "set_refcount object rc rt =
     (case objects rt object of
        None \<Rightarrow> rt
      | Some entry \<Rightarrow> rt\<lparr> objects := (objects rt)(object \<mapsto> entry\<lparr> refcount := rc \<rparr>) \<rparr>)"

definition increment_refcount :: "nat \<Rightarrow> 'v objc \<Rightarrow> 'v objc" where
  "increment_refcount object rt =
     (if object = 0 then rt
      else case objects rt object of
        None \<Rightarrow> rt
      | Some entry \<Rightarrow>
          (case refcount entry of
             None \<Rightarrow> rt
           | Some c \<Rightarrow> (if c + 1 < 4294967296 then set_refcount object (Some (c + 1)) rt else rt)))"

text \<open>Whether the object has to be deallocated.  The count is gone then, so that only happens once.\<close>

definition decrement_refcount :: "nat \<Rightarrow> 'v objc \<Rightarrow> bool \<times> 'v objc" where
  "decrement_refcount object rt =
     (if object = 0 then (False, rt)
      else case objects rt object of
        None \<Rightarrow> (False, rt)
      | Some entry \<Rightarrow>
          (case refcount entry of
             None \<Rightarrow> (False, rt)
           | Some c \<Rightarrow> (if c = 1 then (True, set_refcount object None rt)
                       else (False, set_refcount object (Some (c - 1)) rt))))"

text \<open>\<open>retain\<close> and \<open>release\<close> of \<open>NSObject\<close>; the latter says whether it sends \<open>dealloc\<close>.\<close>

definition nsobject_retain :: "nat \<Rightarrow> 'v objc \<times> mem \<Rightarrow> ('v objc \<times> mem) option" where
  "nsobject_retain this w = Some (increment_refcount this (fst w), snd w)"

definition nsobject_release :: "nat \<Rightarrow> 'v objc \<Rightarrow> bool \<times> 'v objc" where
  "nsobject_release this rt = decrement_refcount this rt"

section \<open>Weak references\<close>

definition register_weak :: "nat \<Rightarrow> nat \<Rightarrow> 'v objc \<Rightarrow> 'v objc" where
  "register_weak target loc rt =
     (if target = 0 then rt
      else rt\<lparr> weak_refs := (weak_refs rt)(target \<mapsto>
             (case weak_refs rt target of None \<Rightarrow> [] | Some list \<Rightarrow> list) @ [loc]) \<rparr>)"

definition unregister_weak :: "nat \<Rightarrow> nat \<Rightarrow> 'v objc \<Rightarrow> 'v objc" where
  "unregister_weak target loc rt =
     (if target = 0 then rt
      else case weak_refs rt target of
        None \<Rightarrow> rt
      | Some list \<Rightarrow>
          (let kept = filter (\<lambda>l. l \<noteq> loc) list
           in rt\<lparr> weak_refs := (weak_refs rt)(target := (if kept = [] then None else Some kept)) \<rparr>))"

fun zero_slots :: "nat \<Rightarrow> nat list \<Rightarrow> mem \<Rightarrow> mem option" where
  "zero_slots object [] m = Some m"
| "zero_slots object (slot # rest) m = do {
     v \<leftarrow> read_u32 m slot;
     m1 \<leftarrow> (if v = object then write_u32 m slot 0 else Some m);
     zero_slots object rest m1 }"

definition zero_weak_references_for :: "nat \<Rightarrow> 'v objc \<times> mem \<Rightarrow> ('v objc \<times> mem) option" where
  "zero_weak_references_for object w =
     (case weak_refs (fst w) object of
        None \<Rightarrow> Some w
      | Some list \<Rightarrow> do {
          m1 \<leftarrow> zero_slots object list (snd w);
          Some ((fst w)\<lparr> weak_refs := (weak_refs (fst w))(object := None) \<rparr>, m1) })"

definition dealloc_object :: "nat \<Rightarrow> 'v objc \<times> mem \<Rightarrow> ('v objc \<times> mem) option" where
  "dealloc_object object w =
     (if object = 0 then Some w
      else do {
        (rt, m1) \<leftarrow> zero_weak_references_for object w;
        (case objects rt object of
           None \<Rightarrow> Some (rt, m1)
         | Some _ \<Rightarrow> do {
             m2 \<leftarrow> mem_free object m1;
             Some (rt\<lparr> objects := (objects rt)(object := None) \<rparr>, m2) }) })"

definition objc_initWeak :: "nat \<Rightarrow> nat \<Rightarrow> 'v objc \<times> mem \<Rightarrow> (nat \<times> 'v objc \<times> mem) option" where
  "objc_initWeak loc new_obj w =
     (if loc = 0 then Some (new_obj, w)
      else do {
        m1 \<leftarrow> write_u32 (snd w) loc new_obj;
        Some (new_obj, (if new_obj \<noteq> 0 then register_weak new_obj loc (fst w) else fst w), m1) })"

definition objc_storeWeak :: "nat \<Rightarrow> nat \<Rightarrow> 'v objc \<times> mem \<Rightarrow> (nat \<times> 'v objc \<times> mem) option" where
  "objc_storeWeak loc new_obj w =
     (if loc = 0 then Some (new_obj, w)
      else do {
        old \<leftarrow> read_u32 (snd w) loc;
        let rt = (if old \<noteq> 0 then unregister_weak old loc (fst w) else fst w);
        m1 \<leftarrow> write_u32 (snd w) loc new_obj;
        Some (new_obj, (if new_obj \<noteq> 0 then register_weak new_obj loc rt else rt), m1) })"

definition objc_storeWeakOrNil :: "nat \<Rightarrow> nat \<Rightarrow> 'v objc \<times> mem \<Rightarrow> (nat \<times> 'v objc \<times> mem) option" where
  "objc_storeWeakOrNil = objc_storeWeak"

text \<open>
  The \<open>retain\<close> and \<open>autorelease\<close> messages are arguments, since a class may override them; the result
  of \<open>retain\<close> is not used.
\<close>

type_synonym 'v message = "nat \<Rightarrow> 'v objc \<times> mem \<Rightarrow> ('v objc \<times> mem) option"

definition objc_loadWeakRetained ::
    "'v message \<Rightarrow> nat \<Rightarrow> 'v objc \<times> mem \<Rightarrow> (nat \<times> 'v objc \<times> mem) option" where
  "objc_loadWeakRetained retain loc w =
     (if loc = 0 then Some (0, w)
      else do {
        val \<leftarrow> read_u32 (snd w) loc;
        (if val = 0 then Some (0, w)
         else do { w1 \<leftarrow> retain val w; Some (val, w1) }) })"

definition objc_loadWeak ::
    "'v message \<Rightarrow> (nat \<Rightarrow> 'v objc \<times> mem \<Rightarrow> (nat \<times> 'v objc \<times> mem) option) \<Rightarrow> nat \<Rightarrow>
     'v objc \<times> mem \<Rightarrow> (nat \<times> 'v objc \<times> mem) option" where
  "objc_loadWeak retain autorelease loc w = do {
     (val, w1) \<leftarrow> objc_loadWeakRetained retain loc w;
     (if val = 0 then Some (0, w1)
      else autorelease val w1) }"

definition objc_destroyWeak :: "nat \<Rightarrow> 'v objc \<times> mem \<Rightarrow> ('v objc \<times> mem) option" where
  "objc_destroyWeak loc w =
     (if loc = 0 then Some w
      else do {
        old \<leftarrow> read_u32 (snd w) loc;
        (if old \<noteq> 0 then do {
           m1 \<leftarrow> write_u32 (snd w) loc 0;
           Some (unregister_weak old loc (fst w), m1) }
         else Some w) })"

definition objc_copyWeak :: "nat \<Rightarrow> nat \<Rightarrow> 'v objc \<times> mem \<Rightarrow> ('v objc \<times> mem) option" where
  "objc_copyWeak dst src w =
     (if dst = 0 \<or> src = 0 then Some w
      else do {
        val \<leftarrow> read_u32 (snd w) src;
        (_, w1) \<leftarrow> objc_initWeak dst val w;
        Some w1 })"

definition objc_moveWeak :: "nat \<Rightarrow> nat \<Rightarrow> 'v objc \<times> mem \<Rightarrow> ('v objc \<times> mem) option" where
  "objc_moveWeak dst src w =
     (if dst = 0 \<or> src = 0 then Some w
      else do {
        val \<leftarrow> read_u32 (snd w) src;
        let rt = (if val \<noteq> 0 then register_weak val dst (unregister_weak val src (fst w)) else fst w);
        m1 \<leftarrow> write_u32 (snd w) dst val;
        m2 \<leftarrow> write_u32 m1 src 0;
        Some (rt, m2) })"

end
