(* ===== verification/ObjC_Weak.thy ===== *)
theory ObjC_Weak
  imports ObjC_Objects
begin

text \<open>
  The safety of weak references: a program that keeps to the rules of automatic reference counting
  never finds a dangling pointer in a weak slot.  The program is a step relation over the runtime,
  the guest memory and the set of slots it has initialised.
\<close>

section \<open>Programs\<close>

text \<open>A new slot lies in memory the program owns and overlaps no other slot.\<close>

definition slot_ok :: "mem \<Rightarrow> nat set \<Rightarrow> nat \<Rightarrow> bool" where
  "slot_ok m S s = (inside_block m s 4 \<and> (\<forall>s' \<in> S. s' \<noteq> s \<longrightarrow> ranges_apart s 4 s' 4))"

text \<open>A pointer that may be stored: nil or an object.\<close>

definition live_or_nil :: "'v objc \<Rightarrow> nat \<Rightarrow> bool" where
  "live_or_nil rt x = (x < 4294967296 \<and> (x = 0 \<or> objects rt x \<noteq> None))"

text \<open>The block at an address holds no slot, so it may be freed.\<close>

definition no_slot_in_block :: "mem \<Rightarrow> nat set \<Rightarrow> nat \<Rightarrow> bool" where
  "no_slot_in_block m S p = (\<forall>k. used_view (heap m) p = Some k \<longrightarrow> (\<forall>s \<in> S. ranges_apart s 4 p k))"

inductive arc_reach :: "'v objc \<Rightarrow> mem \<Rightarrow> nat set \<Rightarrow> bool" where
  boot: "mem_boot n = Some m \<Longrightarrow> 0 < n \<Longrightarrow> n < 4293918720 \<Longrightarrow> arc_reach objc_new m {}"
| new: "arc_reach rt m S \<Longrightarrow> isa < 4294967296 \<Longrightarrow> 4 \<le> n \<Longrightarrow> n < 4294967296 \<Longrightarrow>
    alloc_object_inner isa n ho rc (rt, m) = Some (x, rt', m') \<Longrightarrow> arc_reach rt' m' S"
| copy: "arc_reach rt m S \<Longrightarrow> object_copy x extra (rt, m) = Some (y, rt', m') \<Longrightarrow> arc_reach rt' m' S"
| static: "arc_reach rt m S \<Longrightarrow> arc_reach (register_static_object x ho rt) m S"
| retain: "arc_reach rt m S \<Longrightarrow> arc_reach (increment_refcount x rt) m S"
| release: "arc_reach rt m S \<Longrightarrow> arc_reach (snd (decrement_refcount x rt)) m S"
| dealloc: "arc_reach rt m S \<Longrightarrow> no_slot_in_block m S x \<Longrightarrow>
    dealloc_object x (rt, m) = Some (rt', m') \<Longrightarrow> arc_reach rt' m' S"
| malloc: "arc_reach rt m S \<Longrightarrow> n < 4294967296 \<Longrightarrow> mem_alloc n m = Some (p, m') \<Longrightarrow> arc_reach rt m' S"
| free: "arc_reach rt m S \<Longrightarrow> no_slot_in_block m S p \<Longrightarrow> mem_free p m = Some m' \<Longrightarrow> arc_reach rt m' S"
| guest_store: "arc_reach rt m S \<Longrightarrow> inside_block m p (length bs) \<Longrightarrow> \<forall>s \<in> S. ranges_apart s 4 p (length bs) \<Longrightarrow>
    mem_write m p bs = Some m' \<Longrightarrow> arc_reach rt m' S"
| init: "arc_reach rt m S \<Longrightarrow> slot_ok m S s \<Longrightarrow> s \<notin> S \<Longrightarrow> live_or_nil rt x \<Longrightarrow>
    objc_initWeak s x (rt, m) = Some (y, rt', m') \<Longrightarrow> arc_reach rt' m' (insert s S)"
| store: "arc_reach rt m S \<Longrightarrow> s \<in> S \<Longrightarrow> live_or_nil rt x \<Longrightarrow>
    objc_storeWeak s x (rt, m) = Some (y, rt', m') \<Longrightarrow> arc_reach rt' m' S"
| load: "arc_reach rt m S \<Longrightarrow> s \<in> S \<Longrightarrow>
    objc_loadWeakRetained nsobject_retain s (rt, m) = Some (y, rt', m') \<Longrightarrow> arc_reach rt' m' S"
| destroy: "arc_reach rt m S \<Longrightarrow> s \<in> S \<Longrightarrow>
    objc_destroyWeak s (rt, m) = Some (rt', m') \<Longrightarrow> arc_reach rt' m' (S - {s})"
| copy_weak: "arc_reach rt m S \<Longrightarrow> s \<in> S \<Longrightarrow> slot_ok m S d \<Longrightarrow> d \<notin> S \<Longrightarrow>
    objc_copyWeak d s (rt, m) = Some (rt', m') \<Longrightarrow> arc_reach rt' m' (insert d S)"
| move_weak: "arc_reach rt m S \<Longrightarrow> s \<in> S \<Longrightarrow> slot_ok m S d \<Longrightarrow> d \<notin> S \<Longrightarrow>
    objc_moveWeak d s (rt, m) = Some (rt', m') \<Longrightarrow> arc_reach rt' m' (insert d (S - {s}))"

section \<open>The invariant\<close>

definition refs_of :: "'v objc \<Rightarrow> nat \<Rightarrow> nat list" where
  "refs_of rt t = (case weak_refs rt t of None \<Rightarrow> [] | Some list \<Rightarrow> list)"

definition slots_ok :: "mem \<Rightarrow> nat set \<Rightarrow> bool" where
  "slots_ok m S = (\<forall>s \<in> S. slot_ok m S s)"

text \<open>The side table lists every slot under the object it points to, exactly once.\<close>

definition table_ok :: "'v objc \<Rightarrow> mem \<Rightarrow> nat set \<Rightarrow> bool" where
  "table_ok rt m S = (refs_of rt 0 = [] \<and>
     (\<forall>t. t \<noteq> 0 \<longrightarrow> distinct (refs_of rt t) \<and> set (refs_of rt t) = {s \<in> S. read_u32 m s = Some t}))"

definition values_ok :: "'v objc \<Rightarrow> mem \<Rightarrow> nat set \<Rightarrow> bool" where
  "values_ok rt m S = (\<forall>s \<in> S. \<exists>v. read_u32 m s = Some v \<and> live_or_nil rt v)"

definition arc_inv :: "'v objc \<Rightarrow> mem \<Rightarrow> nat set \<Rightarrow> bool" where
  "arc_inv rt m S = (mem_ok m \<and> slots_ok m S \<and> table_ok rt m S \<and> values_ok rt m S)"

text \<open>Only the values of the slots and the blocks they lie in matter.\<close>

definition same_slots :: "mem \<Rightarrow> mem \<Rightarrow> nat set \<Rightarrow> bool" where
  "same_slots m m' S = (\<forall>s \<in> S. read_u32 m' s = read_u32 m s \<and> inside_block m' s 4)"

lemma arc_inv_frame:
  assumes "arc_inv rt m S" "mem_ok m'" "same_slots m m' S"
    "\<And>x. x \<noteq> 0 \<Longrightarrow> objects rt x \<noteq> None \<Longrightarrow> objects rt' x \<noteq> None" "weak_refs rt' = weak_refs rt"
  shows "arc_inv rt' m' S"
proof -
  have r: "refs_of rt' = refs_of rt" by (simp add: refs_of_def fun_eq_iff assms(5))
  have v: "{s \<in> S. read_u32 m' s = Some t} = {s \<in> S. read_u32 m s = Some t}" for t
    using assms(3) by (auto simp: same_slots_def)
  have "slots_ok m' S" using assms(1,3) by (simp add: arc_inv_def slots_ok_def slot_ok_def same_slots_def)
  moreover have "table_ok rt' m' S" using assms(1) by (simp add: arc_inv_def table_ok_def r v)
  moreover have "values_ok rt' m' S"
    using assms(1,3,4) unfolding arc_inv_def values_ok_def same_slots_def live_or_nil_def by metis
  ultimately show ?thesis using assms(2) by (simp add: arc_inv_def)
qed

text \<open>Slots survive changes of the memory outside them.\<close>

lemma slot_read_frame:
  assumes "mem_ok m" "inside_block m s 4" "mem_ok m'" "inside_block m' s 4"
    "\<And>i. i < 4 \<Longrightarrow> mbytes m' (s + i) = mbytes m (s + i)"
  shows "read_u32 m' s = read_u32 m s"
proof -
  have "mem_read 4 m' s = mem_read 4 m s"
    using read_ordinary [OF inside_block_ordinary [OF assms(1,2)]]
      read_ordinary [OF inside_block_ordinary [OF assms(3,4)]] assms(5) by simp
  then show ?thesis by (simp add: read_u32_def)
qed

lemma slot_write:
  assumes "mem_ok m" "inside_block m s 4" "v < 4294967296"
  shows "\<exists>m1. write_u32 m s v = Some m1 \<and> mem_ok m1 \<and> heap m1 = heap m \<and> read_u32 m1 s = Some v
    \<and> (\<forall>q. inside_block m q 4 \<and> ranges_apart q 4 s 4 \<longrightarrow> read_u32 m1 q = read_u32 m q)"
proof -
  have o: "ordinary m s 4" by (rule inside_block_ordinary [OF assms(1,2)])
  from word_write [OF o assms(3)] obtain m1 where m1: "write_u32 m s v = Some m1"
    "m1 = m\<lparr> mbytes := put_bytes s (to_le_bytes 4 v) (mbytes m) \<rparr>" "read_u32 m1 s = Some v"
    "\<forall>q. ordinary m q 4 \<and> ranges_apart q 4 s 4 \<longrightarrow> read_u32 m1 q = read_u32 m q" by blast
  have "mem_ok m1" "heap m1 = heap m" using assms(1) m1(2) by (simp_all add: mem_ok_def)
  moreover have "\<forall>q. inside_block m q 4 \<and> ranges_apart q 4 s 4 \<longrightarrow> read_u32 m1 q = read_u32 m q"
    using m1(4) inside_block_ordinary [OF assms(1)] by blast
  ultimately show ?thesis using m1(1,3) by blast
qed

section \<open>The heap and the slots\<close>

lemma same_slots_refl: "slots_ok m S \<Longrightarrow> same_slots m m S"
  by (simp add: same_slots_def slots_ok_def slot_ok_def)

lemma inside_block_heap: "used_view (heap m') = used_view (heap m) \<Longrightarrow> inside_block m' s n = inside_block m s n"
  by (simp add: inside_block_def)

lemma same_slots_bytes:
  assumes "mem_ok m" "mem_ok m'" "slots_ok m S" "\<And>s. s \<in> S \<Longrightarrow> inside_block m' s 4"
    "\<And>s i. s \<in> S \<Longrightarrow> i < 4 \<Longrightarrow> mbytes m' (s + i) = mbytes m (s + i)"
  shows "same_slots m m' S"
  unfolding same_slots_def
proof
  fix s assume s: "s \<in> S"
  then have "inside_block m s 4" using assms(3) by (simp add: slots_ok_def slot_ok_def)
  then have "read_u32 m' s = read_u32 m s"
    using s assms(1,2,4,5) by (intro slot_read_frame) simp_all
  then show "read_u32 m' s = read_u32 m s \<and> inside_block m' s 4" using assms(4) [OF s] by simp
qed

text \<open>A new block overlaps no slot, since every slot lies in a block of its own or another object's.\<close>

lemma alloc_slots:
  assumes ok: "mem_ok m" and n: "n < 4294967296" and run: "mem_alloc n m = Some (p, m')" and so: "slots_ok m S"
  shows "mem_ok m' \<and> same_slots m m' S
    \<and> (p \<noteq> 0 \<longrightarrow> inside_block m' p n \<and> (\<forall>s \<in> S. ranges_apart s 4 p n))"
proof -
  from mem_alloc_facts [OF ok n] run have ok': "mem_ok m'"
    and c: "if p = 0 then heap m' = heap m \<and> mbytes m' = mbytes m
       else fresh_block (heap m) p n (heap m') \<and>
         mbytes m' = (\<lambda>x. if \<not> zero_memory_on_free m \<and> p \<le> x \<and> x < p + n then 0 else mbytes m x)"
    by auto
  have ib: "inside_block m s 4" if "s \<in> S" for s using so that by (simp add: slots_ok_def slot_ok_def)
  show ?thesis
  proof (cases "p = 0")
    case True
    then have "same_slots m m' S"
      using c ib inside_block_heap [of m' m] by (intro same_slots_bytes [OF ok ok' so]) simp_all
    then show ?thesis using ok' True by simp
  next
    case False
    then obtain k where k: "n \<le> k" "used_view (heap m) p = None"
      "used_view (heap m') = (used_view (heap m))(p \<mapsto> k)" "avoids (used_view (heap m)) p k"
      using c unfolding fresh_block_def by (simp only: if_False) blast
    have away: "inside_block m' s 4 \<and> ranges_apart s 4 p k" if s: "s \<in> S" for s
    proof -
      obtain b l where bl: "b \<noteq> 0" "used_view (heap m) b = Some l" "b \<le> s" "s + 4 \<le> b + l"
        using ib [OF s] unfolding inside_block_def by blast
      have "b \<noteq> p" using bl(2) k(2) by auto
      then have "used_view (heap m') b = Some l" using bl(2) k(3) by simp
      moreover have "b + l \<le> p \<or> p + k \<le> b" using k(4) bl(2) unfolding avoids_def by blast
      ultimately show ?thesis using bl unfolding inside_block_def ranges_apart_def by (meson le_trans)
    qed
    have bytes: "mbytes m' x = mbytes m x" if "\<not> (p \<le> x \<and> x < p + n)" for x using c False that by auto
    have "same_slots m m' S"
    proof (rule same_slots_bytes [OF ok ok' so])
      fix s assume "s \<in> S"
      then show "inside_block m' s 4" using away by blast
    next
      fix s i :: nat assume s: "s \<in> S" "i < 4"
      then have "ranges_apart s 4 p k" using away by blast
      then show "mbytes m' (s + i) = mbytes m (s + i)" using s k(1) by (intro bytes) (auto simp: ranges_apart_def)
    qed
    moreover have "inside_block m' p n" unfolding inside_block_def
      using k False by (intro exI [of _ p] exI [of _ k]) simp
    moreover have "\<forall>s \<in> S. ranges_apart s 4 p n" using away k(1) unfolding ranges_apart_def by fastforce
    ultimately show ?thesis using ok' by blast
  qed
qed

lemma free_slots:
  assumes ok: "mem_ok m" and so: "slots_ok m S" and apart: "no_slot_in_block m S p"
    and run: "mem_free p m = Some m'"
  shows "mem_ok m' \<and> same_slots m m' S"
proof (cases "ignored_by_free m p")
  case True
  then show ?thesis using mem_free_ignored [OF True] run ok same_slots_refl [OF so] by simp
next
  case False
  then obtain n where n: "used_view (heap m) p = Some n" by (auto simp: ignored_by_free_def)
  from mem_free_facts [OF ok False n] run have m': "mem_ok m'" "used_view (heap m') = (used_view (heap m))(p := None)"
    "mbytes m' = (\<lambda>x. if zero_memory_on_free m \<and> p \<le> x \<and> x < p + n then 0 else mbytes m x)" by auto
  have away: "ranges_apart s 4 p n" if "s \<in> S" for s using apart n that by (simp add: no_slot_in_block_def)
  have "same_slots m m' S"
  proof (rule same_slots_bytes [OF ok m'(1) so])
    fix s assume s: "s \<in> S"
    then obtain b l where bl: "b \<noteq> 0" "used_view (heap m) b = Some l" "b \<le> s" "s + 4 \<le> b + l"
      using so unfolding slots_ok_def slot_ok_def inside_block_def by blast
    have "b \<noteq> p" using away [OF s] bl n by (auto simp: ranges_apart_def)
    then show "inside_block m' s 4" using bl m'(2) unfolding inside_block_def by (metis fun_upd_other)
  next
    fix s i :: nat assume s: "s \<in> S" "i < 4"
    then show "mbytes m' (s + i) = mbytes m (s + i)" using away [OF s(1)] m'(3) by (auto simp: ranges_apart_def)
  qed
  then show ?thesis using m'(1) by blast
qed

text \<open>A write of the program outside the slots.\<close>

lemma put_slots:
  assumes ok: "mem_ok m" and so: "slots_ok m S" and ap: "\<forall>s \<in> S. ranges_apart s 4 p (length bs)"
  shows "mem_ok (m\<lparr> mbytes := put_bytes p bs (mbytes m) \<rparr>) \<and> same_slots m (m\<lparr> mbytes := put_bytes p bs (mbytes m) \<rparr>) S"
proof -
  let ?m = "m\<lparr> mbytes := put_bytes p bs (mbytes m) \<rparr>"
  have ok': "mem_ok ?m" using ok by (simp add: mem_ok_def)
  have "same_slots m ?m S"
  proof (rule same_slots_bytes [OF ok ok' so])
    fix s assume "s \<in> S"
    then show "inside_block ?m s 4" using so by (simp add: slots_ok_def slot_ok_def inside_block_def)
  next
    fix s i :: nat assume s: "s \<in> S" "i < 4"
    have "ranges_apart s 4 p (length bs)" using ap s(1) by blast
    then have "s + i < p \<or> p + length bs \<le> s + i" using s(2) unfolding ranges_apart_def by linarith
    then show "mbytes ?m (s + i) = mbytes m (s + i)" by (simp add: put_bytes_other)
  qed
  then show ?thesis using ok' by blast
qed

text \<open>What is written to the null page is not seen anywhere.\<close>

lemma null_store:
  assumes "mem_ok m"
  shows "\<exists>k. bytes_at_mut m 0 n = Sink 0 k"
proof -
  have "0 < null_segment_size m" using assms alloc_wf_used [of "heap m" 0]
    by (auto simp: mem_ok_def alloc_inv_def span_ok_def)
  then show ?thesis by (simp add: bytes_at_mut_def)
qed

lemma null_slots:
  assumes "mem_ok m" "slots_ok m S"
  shows "mem_ok (slice_store (Sink p k) i bs m) \<and> same_slots m (slice_store (Sink p k) i bs m) S"
proof -
  let ?m = "slice_store (Sink p k) i bs m"
  have ok: "mem_ok ?m" using assms(1) by (rule mem_ok_store)
  have "same_slots m ?m S"
    by (rule same_slots_bytes [OF assms(1) ok assms(2)])
      (use assms(2) in \<open>simp_all add: slots_ok_def slot_ok_def inside_block_def\<close>)
  then show ?thesis using ok by blast
qed

lemma same_slots_trans: "same_slots m m1 S \<Longrightarrow> same_slots m1 m2 S \<Longrightarrow> same_slots m m2 S"
  by (simp add: same_slots_def)

lemma same_slots_ok: "same_slots m m' S \<Longrightarrow> slots_ok m S \<Longrightarrow> slots_ok m' S"
  by (simp add: same_slots_def slots_ok_def slot_ok_def)

section \<open>Objects come and go\<close>

lemma objects_put:
  "x \<noteq> 0 \<Longrightarrow> objects rt x \<noteq> None \<Longrightarrow> objects (rt\<lparr> objects := (objects rt)(p \<mapsto> e) \<rparr>) x \<noteq> None"
  by simp

lemma new_inv:
  assumes inv: "arc_inv rt m S" and n: "4 \<le> n" "n < 4294967296"
    and run: "alloc_object_inner isa n ho rc (rt, m) = Some (x, rt', m')"
  shows "arc_inv rt' m' S"
proof -
  have ok: "mem_ok m" and so: "slots_ok m S" using inv by (simp_all add: arc_inv_def)
  obtain m1 where m1: "mem_alloc n m = Some (x, m1)" "write_u32 m1 x isa = Some m'"
    and rt': "rt' = rt\<lparr> objects := (objects rt)(x \<mapsto> \<lparr> host_object = ho, refcount = rc \<rparr>) \<rparr>"
    using run by (auto simp: alloc_object_inner_def bind_eq_Some_conv)
  from alloc_slots [OF ok n(2) m1(1) so] have a: "mem_ok m1" "same_slots m m1 S"
    and blk: "x \<noteq> 0 \<Longrightarrow> inside_block m1 x n \<and> (\<forall>s \<in> S. ranges_apart s 4 x n)" by simp_all
  have so1: "slots_ok m1 S" by (rule same_slots_ok [OF a(2) so])
  have len: "length (to_le_bytes 4 isa) = 4" by simp
  have "mem_ok m' \<and> same_slots m1 m' S"
  proof (cases "x = 0")
    case True
    obtain k where k: "bytes_at_mut m1 0 (length (to_le_bytes 4 isa)) = Sink 0 k" using null_store [OF a(1)] by blast
    have "m' = slice_store (Sink 0 k) 0 (to_le_bytes 4 isa) m1"
      using m1(2) k True by (simp add: write_u32_def mem_write_def Let_def split: if_splits)
    then show ?thesis using null_slots [OF a(1) so1] by blast
  next
    case False
    then have ib: "inside_block m1 x 4" using blk n(1) unfolding inside_block_def by (meson add_left_mono le_trans)
    have ne: "to_le_bytes 4 isa \<noteq> []" using len by (metis list.size(3) zero_neq_numeral)
    have "ordinary m1 x (length (to_le_bytes 4 isa))" using inside_block_ordinary [OF a(1) ib] by simp
    then have "m' = m1\<lparr> mbytes := put_bytes x (to_le_bytes 4 isa) (mbytes m1) \<rparr>"
      using write_ordinary [OF _ ne] m1(2) by (simp add: write_u32_def)
    moreover have "\<forall>s \<in> S. ranges_apart s 4 x (length (to_le_bytes 4 isa))"
      using blk [OF False] n(1) len unfolding ranges_apart_def by fastforce
    ultimately show ?thesis using put_slots [OF a(1) so1] by blast
  qed
  then show ?thesis using a(2) rt'
    by (intro arc_inv_frame [OF inv]) (auto intro: same_slots_trans)
qed

lemma copy_inv:
  assumes inv: "arc_inv rt m S" and run: "object_copy x extra (rt, m) = Some (y, rt', m')"
  shows "arc_inv rt' m' S"
proof (cases "x = 0")
  case True
  then show ?thesis using run inv by (simp add: object_copy_def)
next
  case False
  have ok: "mem_ok m" and so: "slots_ok m S" using inv by (simp_all add: arc_inv_def)
  obtain isa m1 where m1: "mem_alloc (min (class_instance_size isa rt + extra) 4294967295) m = Some (y, m1)"
    and len: "slice_len (bytes_at_mut m1 y (class_instance_size isa rt)) =
        length (slice_bytes m1 (bytes_at m1 x (class_instance_size isa rt)))"
    and m': "m' = slice_store (bytes_at_mut m1 y (class_instance_size isa rt)) 0
        (slice_bytes m1 (bytes_at m1 x (class_instance_size isa rt))) m1"
    and rt': "rt' = rt\<lparr> objects := (objects rt)(y \<mapsto> \<lparr> host_object = TrivialHostObject, refcount = Some 1 \<rparr>) \<rparr>"
    using run False by (auto simp: object_copy_def bind_eq_Some_conv Let_def split: if_splits)
  let ?sz = "class_instance_size isa rt" and ?n = "min (class_instance_size isa rt + extra) 4294967295"
  let ?bs = "slice_bytes m1 (bytes_at m1 x ?sz)"
  have u: "unat (c :: u32) \<le> 4294967295" for c
  proof -
    have "unat c < 2 ^ LENGTH(32)" by (rule unsigned_less)
    then show ?thesis by simp
  qed
  have sz: "?sz \<le> ?n"
    by (auto simp: class_instance_size_def u split: option.splits host_object.splits)
  have n: "?n < 4294967296" by simp
  from alloc_slots [OF ok n m1 so] have a: "mem_ok m1" "same_slots m m1 S"
    and blk: "y \<noteq> 0 \<Longrightarrow> inside_block m1 y ?n \<and> (\<forall>s \<in> S. ranges_apart s 4 y ?n)" by simp_all
  have so1: "slots_ok m1 S" by (rule same_slots_ok [OF a(2) so])
  have "mem_ok m' \<and> same_slots m1 m' S"
  proof (cases "y = 0")
    case True
    obtain k where "bytes_at_mut m1 0 ?sz = Sink 0 k" using null_store [OF a(1)] by blast
    then have "m' = slice_store (Sink 0 k) 0 ?bs m1" using m' True by (simp only:)
    then show ?thesis using null_slots [OF a(1) so1] by blast
  next
    case False
    then have "ordinary m1 y ?sz"
      using inside_block_ordinary [OF a(1)] blk sz ordinary_sub [of m1 y ?n y ?sz] by simp
    then have g: "bytes_at_mut m1 y ?sz = Guest y ?sz"
      by (intro bytes_at_mut_guest) (simp_all add: ordinary_def BYTES_LEN_def)
    have l: "length ?bs = ?sz" using len by (simp add: g)
    have "m' = m1\<lparr> mbytes := put_bytes y ?bs (mbytes m1) \<rparr>" using m' by (simp add: g)
    moreover have "\<forall>s \<in> S. ranges_apart s 4 y (length ?bs)"
      using blk [OF False] sz unfolding l ranges_apart_def by fastforce
    ultimately show ?thesis using put_slots [OF a(1) so1] by blast
  qed
  then show ?thesis using a(2) rt'
    by (intro arc_inv_frame [OF inv]) (auto intro: same_slots_trans)
qed

section \<open>Slots come and go\<close>

text \<open>A slot that is taken out of the side table; its value does not matter any more.\<close>

lemma refs_unregister: "old \<noteq> 0 \<Longrightarrow> refs_of (unregister_weak old s rt) t =
    (if t = old then filter (\<lambda>l. l \<noteq> s) (refs_of rt t) else refs_of rt t)"
  by (auto simp: refs_of_def unregister_weak_def Let_def split: option.splits)

lemma refs_register: "x \<noteq> 0 \<Longrightarrow> refs_of (register_weak x s rt) t =
    (if t = x then refs_of rt t @ [s] else refs_of rt t)"
  by (auto simp: refs_of_def register_weak_def split: option.splits)

lemma weak_objects [simp]:
  "objects (unregister_weak x s rt) = objects rt"
  "objects (register_weak x s rt) = objects rt"
  by (auto simp: unregister_weak_def register_weak_def Let_def split: option.splits)

lemma live_or_nil_weak [simp]:
  "live_or_nil (unregister_weak x s rt) = live_or_nil rt"
  "live_or_nil (register_weak x s rt) = live_or_nil rt"
  by (simp_all add: live_or_nil_def fun_eq_iff)

lemma slot_ok_sub: "slot_ok m S s \<Longrightarrow> T \<subseteq> S \<Longrightarrow> slot_ok m T s"
  by (auto simp: slot_ok_def)

lemma take_out:
  assumes inv: "arc_inv rt m S" and s: "s \<in> S" and old: "read_u32 m s = Some old"
  shows "arc_inv (if old \<noteq> 0 then unregister_weak old s rt else rt) m (S - {s})"
proof -
  let ?rt = "if old \<noteq> 0 then unregister_weak old s rt else rt"
  have tab: "distinct (refs_of rt t) \<and> set (refs_of rt t) = {q \<in> S. read_u32 m q = Some t}" if "t \<noteq> 0" for t
    using inv that by (simp add: arc_inv_def table_ok_def)
  have "refs_of rt 0 = []" using inv by (simp add: arc_inv_def table_ok_def)
  then have z: "refs_of ?rt 0 = []" by (simp add: refs_unregister)
  have "distinct (refs_of ?rt t) \<and> set (refs_of ?rt t) = {q \<in> S - {s}. read_u32 m q = Some t}" if t: "t \<noteq> 0" for t
  proof (cases "t = old")
    case True
    then show ?thesis using tab [OF t] t by (auto simp: refs_unregister)
  next
    case False
    then have "refs_of ?rt t = refs_of rt t" by (simp add: refs_unregister)
    then show ?thesis using tab [OF t] old False by auto
  qed
  then have "table_ok ?rt m (S - {s})" using z by (simp add: table_ok_def)
  moreover have "slots_ok m (S - {s})"
    using inv slot_ok_sub [of m S _ "S - {s}"] by (auto simp: arc_inv_def slots_ok_def)
  moreover have "values_ok ?rt m (S - {s})"
    using inv by (simp add: arc_inv_def values_ok_def)
  ultimately show ?thesis using inv by (simp add: arc_inv_def)
qed

text \<open>A slot that is written before it is in the table, and one that is entered with its value.\<close>

lemma slot_written:
  assumes inv: "arc_inv rt m S" and so: "slot_ok m S s" and s: "s \<notin> S" and v: "v < 4294967296"
  shows "\<exists>m1. write_u32 m s v = Some m1 \<and> arc_inv rt m1 S \<and> heap m1 = heap m \<and> read_u32 m1 s = Some v
    \<and> slot_ok m1 S s \<and> (\<forall>q \<in> S. read_u32 m1 q = read_u32 m q)"
proof -
  have ok: "mem_ok m" using inv by (simp add: arc_inv_def)
  have ib: "inside_block m s 4" using so by (simp add: slot_ok_def)
  from slot_write [OF ok ib v] obtain m1 where m1: "write_u32 m s v = Some m1" "mem_ok m1" "heap m1 = heap m"
    "read_u32 m1 s = Some v" and other: "\<forall>q. inside_block m q 4 \<and> ranges_apart q 4 s 4 \<longrightarrow> read_u32 m1 q = read_u32 m q"
    by blast
  have blocks: "inside_block m1 q 4 = inside_block m q 4" for q by (rule inside_block_heap) (simp add: m1(3))
  have q: "read_u32 m1 q = read_u32 m q \<and> inside_block m q 4" if "q \<in> S" for q
  proof -
    have "slot_ok m S q" using inv that by (simp add: arc_inv_def slots_ok_def)
    then have ibq: "inside_block m q 4" by (simp add: slot_ok_def)
    have "q \<noteq> s" using s that by blast
    then have "ranges_apart s 4 q 4" using so that unfolding slot_ok_def by blast
    then have "ranges_apart q 4 s 4" unfolding ranges_apart_def by linarith
    then show ?thesis using other ibq by blast
  qed
  then have same: "same_slots m m1 S" by (simp add: same_slots_def blocks)
  have "arc_inv rt m1 S" by (rule arc_inv_frame [OF inv m1(2) same]) simp_all
  moreover have "slot_ok m1 S s" using so by (simp add: slot_ok_def blocks)
  ultimately show ?thesis using m1 q by blast
qed

lemma put_in:
  assumes inv: "arc_inv rt m S" and so: "slot_ok m S s" and s: "s \<notin> S"
    and x: "live_or_nil rt x" "read_u32 m s = Some x"
  shows "arc_inv (if x \<noteq> 0 then register_weak x s rt else rt) m (insert s S)"
proof -
  let ?rt = "if x \<noteq> 0 then register_weak x s rt else rt"
  have tab: "distinct (refs_of rt t) \<and> set (refs_of rt t) = {q \<in> S. read_u32 m q = Some t}" if "t \<noteq> 0" for t
    using inv that by (simp add: arc_inv_def table_ok_def)
  have "refs_of rt 0 = []" using inv by (simp add: arc_inv_def table_ok_def)
  then have z: "refs_of ?rt 0 = []" by (simp add: refs_register)
  have "distinct (refs_of ?rt t) \<and> set (refs_of ?rt t) = {q \<in> insert s S. read_u32 m q = Some t}" if t: "t \<noteq> 0" for t
  proof (cases "t = x")
    case True
    then have "refs_of ?rt t = refs_of rt t @ [s]" using t by (simp add: refs_register)
    then show ?thesis using tab [OF t] s x(2) True by auto
  next
    case False
    then have "refs_of ?rt t = refs_of rt t" by (simp add: refs_register)
    then show ?thesis using tab [OF t] x(2) False by auto
  qed
  then have "table_ok ?rt m (insert s S)" using z by (simp add: table_ok_def)
  moreover have "slots_ok m (insert s S)"
    unfolding slots_ok_def
  proof
    fix q assume q: "q \<in> insert s S"
    show "slot_ok m (insert s S) q"
    proof (cases "q = s")
      case True
      then show ?thesis using so by (simp add: slot_ok_def)
    next
      case False
      then have qS: "q \<in> S" using q by simp
      then have "slot_ok m S q" using inv by (simp add: arc_inv_def slots_ok_def)
      moreover have "ranges_apart s 4 q 4" using so qS False unfolding slot_ok_def by blast
      then have "ranges_apart q 4 s 4" unfolding ranges_apart_def by linarith
      ultimately show ?thesis by (simp add: slot_ok_def)
    qed
  qed
  moreover have "live_or_nil ?rt = live_or_nil rt" by simp
  then have "values_ok ?rt m (insert s S)"
    using inv x by (simp only: arc_inv_def values_ok_def ball_simps) blast
  ultimately show ?thesis using inv by (simp add: arc_inv_def)
qed

lemma enter:
  assumes inv: "arc_inv rt m S" and so: "slot_ok m S s" and s: "s \<notin> S" and x: "live_or_nil rt x"
    and run: "write_u32 m s x = Some m1"
  shows "arc_inv (if x \<noteq> 0 then register_weak x s rt else rt) m1 (insert s S) \<and> heap m1 = heap m"
proof -
  have "x < 4294967296" using x by (simp add: live_or_nil_def)
  from slot_written [OF inv so s this] run have "arc_inv rt m1 S" "read_u32 m1 s = Some x" "slot_ok m1 S s" "heap m1 = heap m"
    by auto
  then show ?thesis using put_in [of rt m1 S s x] s x by blast
qed

lemma slot_value:
  assumes "arc_inv rt m S" "s \<in> S"
  shows "\<exists>v. read_u32 m s = Some v \<and> live_or_nil rt v"
  using assms by (simp add: arc_inv_def values_ok_def)

lemma slot_nonnull: "arc_inv rt m S \<Longrightarrow> slot_ok m T s \<Longrightarrow> s \<noteq> 0"
proof
  assume inv: "arc_inv rt m S" and so: "slot_ok m T s" and z: "s = 0"
  obtain b where b: "b \<noteq> 0" "b \<le> s" using so unfolding slot_ok_def inside_block_def by blast
  then show False using z by simp
qed

text \<open>The operations are taking out, writing and entering.\<close>

lemma init_inv:
  assumes inv: "arc_inv rt m S" and so: "slot_ok m S s" "s \<notin> S" and x: "live_or_nil rt x"
    and run: "objc_initWeak s x (rt, m) = Some (y, rt', m')"
  shows "arc_inv rt' m' (insert s S)"
proof -
  have "s \<noteq> 0" by (rule slot_nonnull [OF inv so(1)])
  then have "write_u32 m s x = Some m'" "rt' = (if x \<noteq> 0 then register_weak x s rt else rt)"
    using run by (auto simp: objc_initWeak_def bind_eq_Some_conv)
  then show ?thesis using enter [OF inv so x] by blast
qed

lemma store_inv:
  assumes inv: "arc_inv rt m S" and s: "s \<in> S" and x: "live_or_nil rt x"
    and run: "objc_storeWeak s x (rt, m) = Some (y, rt', m')"
  shows "arc_inv rt' m' S"
proof -
  have so: "slot_ok m S s" using inv s by (simp add: arc_inv_def slots_ok_def)
  then have nz: "s \<noteq> 0" by (rule slot_nonnull [OF inv])
  obtain old where old: "read_u32 m s = Some old" using slot_value [OF inv s] by blast
  let ?rt = "if old \<noteq> 0 then unregister_weak old s rt else rt"
  have out: "arc_inv ?rt m (S - {s})" by (rule take_out [OF inv s old])
  have x': "live_or_nil ?rt x" using x by simp
  have w: "write_u32 m s x = Some m'" "rt' = (if x \<noteq> 0 then register_weak x s ?rt else ?rt)"
    using run nz old by (auto simp: objc_storeWeak_def Let_def bind_eq_Some_conv)
  have "arc_inv rt' m' (insert s (S - {s}))"
    using enter [OF out slot_ok_sub [OF so] _ x' w(1)] w(2) by auto
  then show ?thesis using s by (simp add: insert_absorb)
qed

lemma destroy_inv:
  assumes inv: "arc_inv rt m S" and s: "s \<in> S" and run: "objc_destroyWeak s (rt, m) = Some (rt', m')"
  shows "arc_inv rt' m' (S - {s})"
proof -
  have so: "slot_ok m S s" using inv s by (simp add: arc_inv_def slots_ok_def)
  then have nz: "s \<noteq> 0" by (rule slot_nonnull [OF inv])
  obtain old where old: "read_u32 m s = Some old" using slot_value [OF inv s] by blast
  have out: "arc_inv (if old \<noteq> 0 then unregister_weak old s rt else rt) m (S - {s})"
    by (rule take_out [OF inv s old])
  show ?thesis
  proof (cases "old = 0")
    case True
    then show ?thesis using run nz old out by (simp add: objc_destroyWeak_def)
  next
    case False
    then obtain m1 where m1: "write_u32 m s 0 = Some m1" "rt' = unregister_weak old s rt" "m' = m1"
      using run nz old by (auto simp: objc_destroyWeak_def bind_eq_Some_conv)
    from slot_written [OF out slot_ok_sub [OF so], of 0] m1 False show ?thesis by auto
  qed
qed

lemma copy_weak_inv:
  assumes inv: "arc_inv rt m S" and s: "s \<in> S" and so: "slot_ok m S d" "d \<notin> S"
    and run: "objc_copyWeak d s (rt, m) = Some (rt', m')"
  shows "arc_inv rt' m' (insert d S)"
proof -
  have "slot_ok m S s" using inv s by (simp add: arc_inv_def slots_ok_def)
  then have "s \<noteq> 0" by (rule slot_nonnull [OF inv])
  moreover have "d \<noteq> 0" by (rule slot_nonnull [OF inv so(1)])
  moreover obtain v where v: "read_u32 m s = Some v" "live_or_nil rt v" using slot_value [OF inv s] by blast
  ultimately obtain y where "objc_initWeak d v (rt, m) = Some (y, rt', m')"
    using run by (auto simp: objc_copyWeak_def bind_eq_Some_conv)
  then show ?thesis by (rule init_inv [OF inv so v(2)])
qed

lemma move_weak_inv:
  assumes inv: "arc_inv rt m S" and s: "s \<in> S" and so: "slot_ok m S d" "d \<notin> S"
    and run: "objc_moveWeak d s (rt, m) = Some (rt', m')"
  shows "arc_inv rt' m' (insert d (S - {s}))"
proof -
  have ss: "slot_ok m S s" using inv s by (simp add: arc_inv_def slots_ok_def)
  then have nz: "s \<noteq> 0" "d \<noteq> 0" using slot_nonnull [OF inv] so(1) by blast+
  obtain v where v: "read_u32 m s = Some v" "live_or_nil rt v" using slot_value [OF inv s] by blast
  let ?rt = "if v \<noteq> 0 then unregister_weak v s rt else rt"
  let ?rt2 = "if v \<noteq> 0 then register_weak v d ?rt else ?rt"
  have out: "arc_inv ?rt m (S - {s})" by (rule take_out [OF inv s v(1)])
  have "d \<notin> S - {s}" "live_or_nil ?rt v" "slot_ok m (S - {s}) d"
    using so(2) v(2) slot_ok_sub [OF so(1), of "S - {s}"] by auto
  note into = enter [OF out this(3,1,2)]
  obtain m1 where w: "write_u32 m d v = Some m1" "write_u32 m1 s 0 = Some m'" "rt' = ?rt2"
    using run nz v by (auto simp: objc_moveWeak_def Let_def bind_eq_Some_conv)
  have inv2: "arc_inv ?rt2 m1 (insert d (S - {s}))" and h: "heap m1 = heap m" using into [OF w(1)] by auto
  have "slot_ok m1 (insert d (S - {s})) s"
  proof -
    have "inside_block m1 s 4" using ss inside_block_heap [of m1 m] h by (simp add: slot_ok_def)
    moreover have "ranges_apart d 4 s 4" using so s by (auto simp: slot_ok_def)
    then have "ranges_apart s 4 d 4" unfolding ranges_apart_def by linarith
    ultimately show ?thesis using ss by (auto simp: slot_ok_def)
  qed
  moreover have "s \<notin> insert d (S - {s})" using s so(2) by auto
  ultimately have "arc_inv ?rt2 m' (insert d (S - {s}))"
    using slot_written [OF inv2, of s 0] w(2) by auto
  then show ?thesis using w(3) by simp
qed

lemma zero_slots_spec:
  assumes "mem_ok m" "slots_ok m S" "set list \<subseteq> S" "distinct list" "\<forall>s \<in> set list. read_u32 m s = Some x"
  shows "\<exists>m1. zero_slots x list m = Some m1 \<and> mem_ok m1 \<and> heap m1 = heap m
    \<and> (\<forall>s \<in> S. read_u32 m1 s = (if s \<in> set list then Some 0 else read_u32 m s))"
  using assms
proof (induction list arbitrary: m)
  case Nil
  then show ?case by simp
next
  case (Cons s rest)
  have so: "slot_ok m S s" using Cons.prems(2,3) by (simp add: slots_ok_def)
  have ibs: "inside_block m q 4" if "q \<in> S" for q using Cons.prems(2) that by (simp add: slots_ok_def slot_ok_def)
  have "inside_block m s 4" using so by (simp add: slot_ok_def)
  from slot_write [OF Cons.prems(1) this, of 0] obtain m1 where m1: "write_u32 m s 0 = Some m1" "mem_ok m1"
    "heap m1 = heap m" "read_u32 m1 s = Some 0"
    and other: "\<forall>q. inside_block m q 4 \<and> ranges_apart q 4 s 4 \<longrightarrow> read_u32 m1 q = read_u32 m q" by auto
  have others: "read_u32 m1 q = read_u32 m q" if "q \<in> S" "q \<noteq> s" for q
  proof -
    have "ranges_apart s 4 q 4" using so that by (auto simp: slot_ok_def)
    then have "ranges_apart q 4 s 4" unfolding ranges_apart_def by linarith
    then show ?thesis using other ibs [OF that(1)] by blast
  qed
  have so1: "slots_ok m1 S"
    using Cons.prems(2) inside_block_heap [of m1 m] m1(3) by (simp add: slots_ok_def slot_ok_def)
  have "\<forall>q \<in> set rest. read_u32 m1 q = Some x"
  proof
    fix q assume q: "q \<in> set rest"
    then have "q \<in> S" "q \<noteq> s" "read_u32 m q = Some x" using Cons.prems(3-5) by auto
    then show "read_u32 m1 q = Some x" using others by simp
  qed
  with Cons.IH [OF m1(2) so1] Cons.prems(3,4) obtain m2 where m2: "zero_slots x rest m1 = Some m2" "mem_ok m2"
    "heap m2 = heap m1" "\<forall>q \<in> S. read_u32 m2 q = (if q \<in> set rest then Some 0 else read_u32 m1 q)" by auto
  have "read_u32 m s = Some x" using Cons.prems(5) by simp
  then have "zero_slots x (s # rest) m = Some m2" using m1(1) m2(1) by simp
  moreover have "\<forall>q \<in> S. read_u32 m2 q = (if q \<in> set (s # rest) then Some 0 else read_u32 m q)"
  proof
    fix q assume q: "q \<in> S"
    show "read_u32 m2 q = (if q \<in> set (s # rest) then Some 0 else read_u32 m q)"
      using m2(4) q others [OF q] m1(4) by (cases "q = s") auto
  qed
  ultimately show ?case using m2(2,3) m1(3) by auto
qed

text \<open>Deallocation empties the slots that point to the object and keeps the others.\<close>

lemma dealloc_inv:
  assumes inv: "arc_inv rt m S" and ap: "no_slot_in_block m S x" and x: "x \<noteq> 0"
  shows "\<exists>rt' m'. dealloc_object x (rt, m) = Some (rt', m') \<and> arc_inv rt' m' S
    \<and> objects rt' = (objects rt)(x := None) \<and> weak_refs rt' x = None
    \<and> (\<forall>s \<in> S. read_u32 m' s = (if read_u32 m s = Some x then Some 0 else read_u32 m s))"
proof -
  have ok: "mem_ok m" and so: "slots_ok m S" using inv by (simp_all add: arc_inv_def)
  let ?list = "refs_of rt x" and ?rt = "rt\<lparr> weak_refs := (weak_refs rt)(x := None) \<rparr>"
  have tab: "distinct ?list" "set ?list = {s \<in> S. read_u32 m s = Some x}"
    using inv x by (simp_all add: arc_inv_def table_ok_def)
  have sub: "set ?list \<subseteq> S" "\<forall>s \<in> set ?list. read_u32 m s = Some x" unfolding tab(2) by blast+
  from zero_slots_spec [OF ok so sub(1) tab(1) sub(2)] obtain m1 where
    m1: "zero_slots x ?list m = Some m1" "mem_ok m1" "heap m1 = heap m"
    and val: "\<forall>s \<in> S. read_u32 m1 s = (if s \<in> set ?list then Some 0 else read_u32 m s)"
    by blast
  have z: "zero_weak_references_for x (rt, m) = Some (?rt, m1)"
  proof (cases "weak_refs rt x")
    case None
    then have "(weak_refs rt)(x := None) = weak_refs rt" by (rule fun_upd_idem)
    then have "?rt = rt\<lparr> weak_refs := weak_refs rt \<rparr>"
      by (rule arg_cong [of _ _ "\<lambda>f. rt\<lparr> weak_refs := f \<rparr>"])
    also have "\<dots> = rt" by simp
    finally have "?rt = rt" .
    moreover have "?list = []" using None by (simp add: refs_of_def)
    ultimately show ?thesis using m1(1) None by (simp add: zero_weak_references_for_def)
  next
    case (Some l)
    then show ?thesis using m1(1) by (simp add: zero_weak_references_for_def refs_of_def)
  qed
  have so1: "slots_ok m1 S"
    using so inside_block_heap [of m1 m] m1(3) by (simp add: slots_ok_def slot_ok_def)
  have val': "read_u32 m1 s = (if read_u32 m s = Some x then Some 0 else read_u32 m s)" if "s \<in> S" for s
    using val that tab(2) by simp
  let ?gone = "?rt\<lparr> objects := (objects rt)(x := None) \<rparr>"
  have inv1: "arc_inv ?gone m1 S"
  proof -
    have "table_ok ?gone m1 S"
      unfolding table_ok_def
    proof (intro conjI allI impI)
      show "refs_of ?gone 0 = []" using inv x by (simp add: arc_inv_def table_ok_def refs_of_def)
    next
      fix t :: nat assume t: "t \<noteq> 0"
      have old: "distinct (refs_of rt t)" "set (refs_of rt t) = {s \<in> S. read_u32 m s = Some t}"
        using inv t by (simp_all add: arc_inv_def table_ok_def)
      have r: "refs_of ?gone t = (if t = x then [] else refs_of rt t)" by (simp add: refs_of_def)
      show "distinct (refs_of ?gone t)" using old r by simp
      show "set (refs_of ?gone t) = {s \<in> S. read_u32 m1 s = Some t}"
        using old(2) r val' t by (auto split: if_splits)
    qed
    moreover have "values_ok ?gone m1 S"
      unfolding values_ok_def
    proof
      fix s assume s: "s \<in> S"
      obtain v where v: "read_u32 m s = Some v" "live_or_nil rt v" using slot_value [OF inv s] by blast
      show "\<exists>v. read_u32 m1 s = Some v \<and> live_or_nil ?gone v"
        using val' [OF s] v by (cases "v = x") (auto simp: live_or_nil_def)
    qed
    ultimately show ?thesis using m1(2) so1 by (simp add: arc_inv_def)
  qed
  show ?thesis
  proof (cases "objects rt x")
    case None
    then have o: "(objects rt)(x := None) = objects rt" by (rule fun_upd_idem)
    then have "?gone = ?rt\<lparr> objects := objects rt \<rparr>"
      by (rule arg_cong [of _ _ "\<lambda>f. ?rt\<lparr> objects := f \<rparr>"])
    also have "\<dots> = ?rt" by simp
    finally have "?gone = ?rt" .
    then have "arc_inv ?rt m1 S" using inv1 by simp
    moreover have "dealloc_object x (rt, m) = Some (?rt, m1)" using x z None by (simp add: dealloc_object_def)
    ultimately show ?thesis using val' o by auto
  next
    case (Some e)
    have ap1: "no_slot_in_block m1 S x" using ap m1(3) by (simp add: no_slot_in_block_def)
    obtain m2 where m2: "mem_free x m1 = Some m2" using mem_free_total [OF m1(2)] by blast
    from free_slots [OF m1(2) so1 ap1 m2] have f: "mem_ok m2" "same_slots m1 m2 S" by simp_all
    have "arc_inv ?gone m2 S" by (rule arc_inv_frame [OF inv1 f]) simp_all
    moreover have "\<forall>s \<in> S. read_u32 m2 s = read_u32 m1 s" using f(2) by (simp add: same_slots_def)
    ultimately show ?thesis using x z Some m2 val'
      by (intro exI [of _ ?gone] exI [of _ m2]) (auto simp: dealloc_object_def)
  qed
qed

section \<open>Every reachable state\<close>

lemma objects_kept:
  "objects (snd (decrement_refcount x rt)) y = None \<longleftrightarrow> objects rt y = None"
  "objects (increment_refcount x rt) y = None \<longleftrightarrow> objects rt y = None"
  by (auto simp: decrement_refcount_def increment_refcount_def set_refcount_def split: option.splits)

lemma weak_refs_kept:
  "weak_refs (snd (decrement_refcount x rt)) = weak_refs rt"
  "weak_refs (increment_refcount x rt) = weak_refs rt"
  by (auto simp: decrement_refcount_def increment_refcount_def set_refcount_def split: option.splits)

lemma count_inv:
  assumes "arc_inv rt m S"
  shows "arc_inv (snd (decrement_refcount x rt)) m S" "arc_inv (increment_refcount x rt) m S"
proof -
  have s: "mem_ok m" "same_slots m m S" using assms same_slots_refl by (auto simp: arc_inv_def)
  show "arc_inv (snd (decrement_refcount x rt)) m S"
    by (rule arc_inv_frame [OF assms s]) (simp_all only: objects_kept weak_refs_kept not_False_eq_True)
  show "arc_inv (increment_refcount x rt) m S"
    by (rule arc_inv_frame [OF assms s]) (simp_all only: objects_kept weak_refs_kept not_False_eq_True)
qed

lemma memory_inv:
  assumes "arc_inv rt m S" "mem_ok m' \<and> same_slots m m' S"
  shows "arc_inv rt m' S"
  using assms by (intro arc_inv_frame [OF assms(1)]) simp_all

lemma boot_inv: "mem_boot n = Some m \<Longrightarrow> 0 < n \<Longrightarrow> n < 4293918720 \<Longrightarrow> arc_inv objc_new m {}"
  using mem_boot_spec [of n] mem_boot_aligned [of n m]
  by (auto simp: arc_inv_def slots_ok_def table_ok_def values_ok_def refs_of_def objc_new_def)

lemma arc_reach_inv: "arc_reach rt m S \<Longrightarrow> arc_inv rt m S"
proof (induction rule: arc_reach.induct)
  case (boot n m)
  then show ?case by (rule boot_inv)
next
  case (static rt m S x ho)
  have s: "mem_ok m" "same_slots m m S" using static.IH same_slots_refl by (auto simp: arc_inv_def)
  show ?case by (rule arc_inv_frame [OF static.IH s]) (simp_all add: register_static_object_def)
next
  case (dealloc rt m S x rt' m')
  then show ?case using dealloc_inv [of rt m S x] by (cases "x = 0") (auto simp: dealloc_object_def)
next
  case (guest_store rt m S p bs m')
  have ne: "bs \<noteq> []" using guest_store.hyps(4) by (auto simp: mem_write_def)
  have ok: "mem_ok m" "slots_ok m S" using guest_store.IH by (simp_all add: arc_inv_def)
  have "m' = m\<lparr> mbytes := put_bytes p bs (mbytes m) \<rparr>"
    using inside_block_write [OF ok(1) guest_store.hyps(2) ne] guest_store.hyps(4) by simp
  then show ?case using put_slots [OF ok guest_store.hyps(3)] memory_inv [OF guest_store.IH] by simp
next
  case (load rt m S s y rt' m')
  then have "rt' = rt \<or> (\<exists>v. rt' = increment_refcount v rt)" "m' = m"
    by (auto simp: objc_loadWeakRetained_def nsobject_retain_def bind_eq_Some_conv split: if_splits)
  then show ?case using count_inv(2) [OF load.IH] load.IH by auto
next
  case (malloc rt m S n p m')
  have ok: "mem_ok m" "slots_ok m S" using malloc.IH by (simp_all add: arc_inv_def)
  show ?case using memory_inv [OF malloc.IH] alloc_slots [OF ok(1) malloc.hyps(2,3) ok(2)] by blast
next
  case (free rt m S p m')
  have ok: "mem_ok m" "slots_ok m S" using free.IH by (simp_all add: arc_inv_def)
  show ?case by (rule memory_inv [OF free.IH free_slots [OF ok free.hyps(2,3)]])
qed (blast intro: new_inv copy_inv count_inv init_inv store_inv destroy_inv copy_weak_inv move_weak_inv)+

section \<open>The theorems\<close>

lemma count_one: "distinct xs \<Longrightarrow> x \<in> set xs \<Longrightarrow> count_list xs x = 1"
  by (induction xs) auto

text \<open>C21: consider programs that keep to ARC's rule that the weak slots inside a block are destroyed
  (\<open>objc_destroyWeak\<close>, which the ivar destructor calls) before the block is freed or its object deallocated, and
  that do not write to a slot directly.  In every state such a program reaches a weak slot holds nil or an object that is
  still in the table, under which it is registered exactly once.  Loading it returns that value; it adds one to the
  object's count if the object has one below the maximum, and changes no count otherwise (a static object, or one
  whose \<open>dealloc\<close> message is running).  Deallocating an object with no slot left inside it empties exactly the slots that
  point to it.\<close>

theorem weak_references_safe:
  assumes "arc_reach rt m S" "s \<in> S"
  shows "\<exists>v. read_u32 m s = Some v
      \<and> objc_loadWeakRetained nsobject_retain s (rt, m) = Some (v, increment_refcount v rt, m)
      \<and> (\<forall>entry c. v \<noteq> 0 \<and> objects rt v = Some entry \<and> refcount entry = Some c \<and> c + 1 < 4294967296 \<longrightarrow>
           objects (increment_refcount v rt) = (objects rt)(v \<mapsto> entry\<lparr>refcount := Some (c + 1)\<rparr>))
      \<and> ((\<forall>entry. objects rt v = Some entry \<longrightarrow> refcount entry = None) \<longrightarrow> increment_refcount v rt = rt)
      \<and> (v \<noteq> 0 \<longrightarrow> objects rt v \<noteq> None \<and> (\<exists>list. weak_refs rt v = Some list \<and> count_list list s = 1))
      \<and> (\<forall>x. x \<noteq> 0 \<and> no_slot_in_block m S x \<longrightarrow> (\<exists>rt' m'. dealloc_object x (rt, m) = Some (rt', m')
           \<and> arc_reach rt' m' S \<and> objects rt' = (objects rt)(x := None)
           \<and> read_u32 m' s = Some (if v = x then 0 else v)))"
proof -
  have inv: "arc_inv rt m S" by (rule arc_reach_inv [OF assms(1)])
  obtain v where v: "read_u32 m s = Some v" "live_or_nil rt v" using slot_value [OF inv assms(2)] by blast
  have "slot_ok m S s" using inv assms(2) by (simp add: arc_inv_def slots_ok_def)
  then have nz: "s \<noteq> 0" by (rule slot_nonnull [OF inv])
  have load: "objc_loadWeakRetained nsobject_retain s (rt, m) = Some (v, increment_refcount v rt, m)"
    using nz v by (simp add: objc_loadWeakRetained_def nsobject_retain_def increment_refcount_def)
  have reg: "objects rt v \<noteq> None \<and> (\<exists>list. weak_refs rt v = Some list \<and> count_list list s = 1)" if nv: "v \<noteq> 0"
  proof -
    have tab: "distinct (refs_of rt v)" "set (refs_of rt v) = {q \<in> S. read_u32 m q = Some v}"
      using inv nv by (simp_all add: arc_inv_def table_ok_def)
    then have s: "s \<in> set (refs_of rt v)" using assms(2) v(1) by simp
    then obtain list where l: "weak_refs rt v = Some list" "refs_of rt v = list"
      by (cases "weak_refs rt v") (simp_all add: refs_of_def)
    then have "count_list list s = 1" using tab(1) s by (metis count_one l(2))
    then show ?thesis using v(2) nv l(1) by (simp add: live_or_nil_def)
  qed
  have gone: "\<exists>rt' m'. dealloc_object x (rt, m) = Some (rt', m') \<and> arc_reach rt' m' S
      \<and> objects rt' = (objects rt)(x := None) \<and> read_u32 m' s = Some (if v = x then 0 else v)"
    if x: "x \<noteq> 0" "no_slot_in_block m S x" for x
  proof -
    from dealloc_inv [OF inv x(2,1)] obtain rt' m' where d: "dealloc_object x (rt, m) = Some (rt', m')"
      "objects rt' = (objects rt)(x := None)"
      "\<forall>s \<in> S. read_u32 m' s = (if read_u32 m s = Some x then Some 0 else read_u32 m s)" by blast
    have "arc_reach rt' m' S" by (rule arc_reach.dealloc [OF assms(1) x(2) d(1)])
    moreover have "read_u32 m' s = Some (if v = x then 0 else v)" using d(3) assms(2) v(1) by simp
    ultimately show ?thesis using d by blast
  qed
  have counted: "objects (increment_refcount v rt) = (objects rt)(v \<mapsto> entry\<lparr>refcount := Some (c + 1)\<rparr>)"
    if "v \<noteq> 0" "objects rt v = Some entry" "refcount entry = Some c" "c + 1 < 4294967296" for entry c
    using that by (simp add: increment_refcount_def set_refcount_def)
  have uncounted: "increment_refcount v rt = rt" if "\<forall>entry. objects rt v = Some entry \<longrightarrow> refcount entry = None"
    using that by (cases "objects rt v") (simp_all add: increment_refcount_def)
  show ?thesis using v(1) load reg gone counted uncounted by blast
qed

lemma weak_references_safe_witness:
  "\<exists>(rt :: nat objc) m S s x rt' m'. arc_reach rt m S \<and> x \<noteq> 0 \<and> read_u32 m s = Some x
     \<and> dealloc_object x (rt, m) = Some (rt', m') \<and> objects rt' x = None \<and> read_u32 m' s = Some 0"
proof -
  from boot_alloc [of 4] obtain m p m1 where b: "mem_boot 4096 = Some m" "mem_ok m"
    "mem_alloc 4 m = Some (p, m1)" "p \<noteq> 0" by auto
  let ?s = "4293918720 :: nat"
  have used: "used_view (heap m) ?s = Some 1048576" using mem_boot_spec [of 4096] b(1) by auto
  have r0: "arc_reach (objc_new :: nat objc) m {}" by (rule arc_reach.boot [OF b(1)]) simp_all
  have so0: "slots_ok m {}" by (simp add: slots_ok_def)
  from alloc_slots [OF b(2) _ b(3) so0] b(4) have m1: "mem_ok m1" "inside_block m1 p 4" by simp_all
  from mem_alloc_fresh [OF b(2) _ b(3,4)] have "fresh_block (heap m) p 4 (heap m1)" by simp
  then obtain k where k: "used_view (heap m) p = None" "used_view (heap m1) = (used_view (heap m))(p \<mapsto> k)"
    "avoids (used_view (heap m)) p k" unfolding fresh_block_def by blast
  have ps: "p \<noteq> ?s" using k(1) used by auto
  from slot_write [OF m1, of 0] obtain m2 where m2: "write_u32 m1 p 0 = Some m2" "mem_ok m2" "heap m2 = heap m1" by auto
  let ?rt = "(objc_new :: nat objc)\<lparr> objects := (objects objc_new)(p \<mapsto> \<lparr> host_object = TrivialHostObject, refcount = Some 1 \<rparr>) \<rparr>"
  have "alloc_object_inner 0 4 TrivialHostObject (Some 1) (objc_new :: nat objc, m) = Some (p, ?rt, m2)"
    using b(3) m2(1) by (simp add: alloc_object_inner_def)
  then have r1: "arc_reach ?rt m2 {}" using arc_reach.new [OF r0, of 0 4] by simp
  have u2: "used_view (heap m2) ?s = Some 1048576" "used_view (heap m2) p = Some k"
    using used k(2) ps m2(3) by simp_all
  have ib: "inside_block m2 ?s 4" unfolding inside_block_def using u2(1)
    by (intro exI [of _ ?s] exI [of _ "1048576 :: nat"]) simp
  have p32: "p < 4294967296" using used_block [OF m2(2) u2(2) b(4)] by simp
  from slot_write [OF m2(2) ib p32] obtain m3 where m3: "write_u32 m2 ?s p = Some m3" "heap m3 = heap m2" by auto
  let ?rt3 = "register_weak p ?s ?rt"
  have "objc_initWeak ?s p (?rt, m2) = Some (p, ?rt3, m3)" using m3(1) b(4) by (simp add: objc_initWeak_def)
  moreover have "slot_ok m2 {} ?s" using ib by (simp add: slot_ok_def)
  moreover have "live_or_nil ?rt p" using p32 by (simp add: live_or_nil_def)
  ultimately have r3: "arc_reach ?rt3 m3 {?s}" using arc_reach.init [OF r1] by blast
  have "?s + 1048576 \<le> p \<or> p + k \<le> ?s" using k(3) used unfolding avoids_def by blast
  then have ns: "no_slot_in_block m3 {?s} p" using u2(2) m3(2) by (auto simp: no_slot_in_block_def ranges_apart_def)
  from weak_references_safe [OF r3, of ?s] obtain v where v: "read_u32 m3 ?s = Some v"
    "\<forall>x. x \<noteq> 0 \<and> no_slot_in_block m3 {?s} x \<longrightarrow> (\<exists>rt' m'. dealloc_object x (?rt3, m3) = Some (rt', m')
       \<and> arc_reach rt' m' {?s} \<and> objects rt' = (objects ?rt3)(x := None)
       \<and> read_u32 m' ?s = Some (if v = x then 0 else v))" by blast
  moreover have "v = p"
  proof -
    from slot_write [OF m2(2) ib p32] m3(1) have "read_u32 m3 ?s = Some p" by auto
    then show ?thesis using v(1) by simp
  qed
  moreover obtain rt' m' where "dealloc_object p (?rt3, m3) = Some (rt', m')"
     "objects rt' = (objects ?rt3)(p := None)" "read_u32 m' ?s = Some (if v = p then 0 else v)"
    using v(2) ns b(4) by blast
  ultimately have "arc_reach ?rt3 m3 {?s} \<and> p \<noteq> 0 \<and> read_u32 m3 ?s = Some p
     \<and> dealloc_object p (?rt3, m3) = Some (rt', m') \<and> objects rt' p = None \<and> read_u32 m' ?s = Some 0"
    using r3 b(4) by simp
  then show ?thesis by blast
qed

section \<open>Reference counts\<close>

text \<open>A sequence of retains (\<open>True\<close>) and releases, and for each whether it makes the object be deallocated.\<close>

fun count_ops :: "nat \<Rightarrow> bool list \<Rightarrow> 'v objc \<Rightarrow> bool list" where
  "count_ops x [] rt = []"
| "count_ops x (True # ops) rt = False # count_ops x ops (increment_refcount x rt)"
| "count_ops x (False # ops) rt = (case nsobject_release x rt of (freed, rt1) \<Rightarrow> freed # count_ops x ops rt1)"

definition balance :: "nat \<Rightarrow> bool list \<Rightarrow> int" where
  "balance c ops = int c + (\<Sum>b\<leftarrow>ops. if b then 1 else - 1)"

lemma balance_Nil [simp]: "balance c [] = int c"
  by (simp add: balance_def)

lemma balance_Cons: "balance c (b # ops) = balance c ops + (if b then 1 else - 1)"
  by (simp add: balance_def)

lemma balance_shift:
  "balance (Suc c) ops = balance c ops + 1"
  "0 < c \<Longrightarrow> balance (c - Suc 0) ops = balance c ops - 1"
  by (simp_all add: balance_def)

lemma uncounted: "objects rt x = Some e \<Longrightarrow> refcount e = None \<Longrightarrow> i < length ops \<Longrightarrow> \<not> count_ops x ops rt ! i"
proof (induction ops arbitrary: i)
  case (Cons b ops)
  have "increment_refcount x rt = rt" "decrement_refcount x rt = (False, rt)"
    using Cons.prems(1,2) by (auto simp: increment_refcount_def decrement_refcount_def)
  then show ?case using Cons by (cases b; cases i) (simp_all add: nsobject_release_def)
qed simp

lemma all_le_Suc: "(\<forall>j \<le> Suc i. P j) \<longleftrightarrow> P 0 \<and> (\<forall>j \<le> i. P (Suc j))"
  by (metis Suc_le_mono le0 not0_implies_Suc)

text \<open>C30: the object is deallocated by the release that brings the number of references to zero, by no
  other and never twice; this is the code's counter against the sum of all retains and releases.\<close>

theorem deallocated_by_last_release:
  assumes "objects rt x = Some e" "refcount e = Some c" "0 < c" "x \<noteq> 0" "c + length ops < 4294967296"
    "i < length ops"
  shows "count_ops x ops rt ! i \<longleftrightarrow>
    balance c (take (Suc i) ops) = 0 \<and> (\<forall>j \<le> i. 0 < balance c (take j ops))"
  using assms
proof (induction ops arbitrary: rt e c i)
  case (Cons b ops)
  show ?case
  proof (cases b)
    case True
    let ?rt = "increment_refcount x rt" and ?e = "e\<lparr> refcount := Some (Suc c) \<rparr>"
    have "objects ?rt x = Some ?e" using Cons.prems by (simp add: increment_refcount_def set_refcount_def)
    then have IH: "count_ops x ops ?rt ! k \<longleftrightarrow>
        balance (Suc c) (take (Suc k) ops) = 0 \<and> (\<forall>j \<le> k. 0 < balance (Suc c) (take j ops))"
      if "k < length ops" for k
      using Cons.IH [of ?rt ?e "Suc c" k] Cons.prems(3-5) that by simp
    show ?thesis
    proof (cases i)
      case 0
      then show ?thesis using True Cons.prems(3) by (simp add: balance_Cons)
    next
      case (Suc k)
      then show ?thesis using True IH [of k] Cons.prems(3,6)
        by (simp add: all_le_Suc balance_Cons balance_shift)
    qed
  next
    case False
    show ?thesis
    proof (cases "c = 1")
      case True
      let ?rt = "set_refcount x None rt"
      have "objects ?rt x = Some (e\<lparr> refcount := None \<rparr>)" using Cons.prems(1) by (simp add: set_refcount_def)
      from uncounted [OF this] have no: "k < length ops \<Longrightarrow> \<not> count_ops x ops ?rt ! k" for k by simp
      have rel: "nsobject_release x rt = (True, ?rt)"
        using Cons.prems True by (simp add: nsobject_release_def decrement_refcount_def)
      show ?thesis
      proof (cases i)
        case 0
        then show ?thesis using True False rel by (simp add: balance_Cons)
      next
        case (Suc k)
        then show ?thesis using True False rel no [of k] Cons.prems(6)
          by (auto simp: balance_Cons all_le_Suc dest!: spec [of _ 0])
      qed
    next
      case c: False
      let ?rt = "set_refcount x (Some (c - 1)) rt" and ?e = "e\<lparr> refcount := Some (c - 1) \<rparr>"
      have "objects ?rt x = Some ?e" using Cons.prems(1) by (simp add: set_refcount_def)
      then have IH: "count_ops x ops ?rt ! k \<longleftrightarrow>
          balance (c - 1) (take (Suc k) ops) = 0 \<and> (\<forall>j \<le> k. 0 < balance (c - 1) (take j ops))"
        if "k < length ops" for k
        using Cons.IH [of ?rt ?e "c - 1" k] Cons.prems(3-5) c that by simp
      have rel: "nsobject_release x rt = (False, ?rt)"
        using Cons.prems c by (simp add: nsobject_release_def decrement_refcount_def)
      show ?thesis
      proof (cases i)
        case 0
        then show ?thesis using False rel c Cons.prems(3) by (simp add: balance_Cons)
      next
        case (Suc k)
        then show ?thesis using False rel IH [of k] Cons.prems(3,6)
          by (simp add: all_le_Suc balance_Cons balance_shift)
      qed
    qed
  qed
qed simp

lemma deallocated_by_last_release_witness:
  "\<exists>rt :: nat objc. objects rt 8 \<noteq> None \<and> count_ops 8 [True, False, False, False] rt ! 2"
proof -
  let ?e = "\<lparr> host_object = TrivialHostObject, refcount = Some 1 \<rparr> :: nat host_object_entry"
  let ?rt = "objc_new\<lparr> objects := [8 \<mapsto> ?e] \<rparr>"
  have "objects ?rt 8 = Some ?e" by simp
  from deallocated_by_last_release [OF this, of 1 "[True, False, False, False]" 2]
  have "count_ops 8 [True, False, False, False] ?rt ! 2"
    by (simp add: balance_def numeral_2_eq_2 le_Suc_eq)
  then show ?thesis by (intro exI [of _ ?rt]) simp
qed

text \<open>While the message \<open>dealloc\<close> runs, the count is gone and a weak slot still holds the object: loading it
  returns the object without a reference.\<close>

lemma deallocating_object_loads_unretained:
  assumes "objects rt x = Some e" "refcount e = None" "x \<noteq> 0" "read_u32 m s = Some x" "s \<noteq> 0"
  shows "objc_loadWeakRetained nsobject_retain s (rt, m) = Some (x, rt, m)"
  using assms by (simp add: objc_loadWeakRetained_def nsobject_retain_def increment_refcount_def)

section \<open>Borrowing host objects\<close>

lemma downcast_mut_same: "downcast T h \<noteq> None \<Longrightarrow> downcast T (downcast_mut T w h) = Some w"
  by (induction T w h rule: downcast_mut.induct) (auto split: if_splits)

lemma downcast_mut_other: "T' \<noteq> T \<Longrightarrow> downcast T' (downcast_mut T w h) = downcast T' h"
  by (induction T w h rule: downcast_mut.induct) auto

text \<open>What is written through \<open>borrow_mut\<close> is borrowed back, with or without a host object of the type, and
  no other object or type sees it.\<close>

lemma borrow_after_borrow_mut:
  "fst (borrow T init x (borrow_mut T init' x w rt)) = w"
  "(T', y) \<noteq> (T, x) \<Longrightarrow> fst (borrow T' init y (borrow_mut T init' x w rt)) = fst (borrow T' init y rt)"
proof -
  show "fst (borrow T init x (borrow_mut T init' x w rt)) = w"
    by (auto simp: borrow_def borrow_mut_def real_part_def phantom_buffer_for_def downcast_mut_same split: option.splits)
  assume "(T', y) \<noteq> (T, x)"
  then show "fst (borrow T' init y (borrow_mut T init' x w rt)) = fst (borrow T' init y rt)"
    by (auto simp: borrow_def borrow_mut_def real_part_def phantom_buffer_for_def downcast_mut_other split: option.splits)
qed

end
