(* ===== verification/Guest_Abi.thy ===== *)
theory Guest_Abi
  imports Guest_Values
begin

unbundle bit_operations_syntax

text \<open>
  Calls between the host and the guest (\<open>src/abi.rs\<close>): how arguments and results are laid out in
  registers and on the stack, in both directions.  The emulated processor itself is an argument; of
  \<open>src/cpu.rs\<close> only the branches are needed.
\<close>

section \<open>Arguments\<close>

text \<open>
  The types that implement \<open>GuestArg\<close>.  Signed integers and floating-point numbers are their bit
  patterns.  A structure of \<open>src/frameworks/core_graphics/cg_geometry.rs\<close> is passed as its fields
  one after the other.
\<close>

datatype arg_type =
    U32Ty | I32Ty | U16Ty | I16Ty | U8Ty | I8Ty | UsizeTy | BoolTy | F32Ty | PtrTy | FunctionTy | VaListTy
  | U64Ty | I64Ty | F64Ty | StructTy "arg_type list"

datatype arg =
    ArgU32 u32 | ArgI32 u32 | ArgU16 u16 | ArgI16 u16 | ArgU8 u8 | ArgI8 u8 | ArgUsize u64 | ArgBool bool
  | ArgF32 u32 | ArgPtr u32 | ArgFunction u32 | ArgVaList nat u32
  | ArgU64 u64 | ArgI64 u64 | ArgF64 u64 | ArgStruct "arg list"

fun type_of :: "arg \<Rightarrow> arg_type" where
  "type_of (ArgU32 _) = U32Ty" | "type_of (ArgI32 _) = I32Ty" | "type_of (ArgU16 _) = U16Ty"
| "type_of (ArgI16 _) = I16Ty" | "type_of (ArgU8 _) = U8Ty" | "type_of (ArgI8 _) = I8Ty"
| "type_of (ArgUsize _) = UsizeTy" | "type_of (ArgBool _) = BoolTy" | "type_of (ArgF32 _) = F32Ty"
| "type_of (ArgPtr _) = PtrTy" | "type_of (ArgFunction _) = FunctionTy" | "type_of (ArgVaList _ _) = VaListTy"
| "type_of (ArgU64 _) = U64Ty" | "type_of (ArgI64 _) = I64Ty" | "type_of (ArgF64 _) = F64Ty"
| "type_of (ArgStruct parts) = StructTy (map type_of parts)"

fun reg_count :: "arg_type \<Rightarrow> nat" where
  "reg_count U64Ty = 2" | "reg_count I64Ty = 2" | "reg_count F64Ty = 2"
| "reg_count (StructTy tys) = sum_list (map reg_count tys)"
| "reg_count _ = 1"

definition u64_of_regs :: "u32 list \<Rightarrow> u64" where
  "u64_of_regs rs = of_nat (from_le_bytes (to_le_bytes 4 (unat (rs ! 0)) @ to_le_bytes 4 (unat (rs ! 1))))"

definition regs_of_u64 :: "u64 \<Rightarrow> u32 list" where
  "regs_of_u64 w = (let bytes = to_le_bytes 8 (unat w)
     in [of_nat (from_le_bytes (take 4 bytes)), of_nat (from_le_bytes (drop 4 bytes))])"

fun from_regs :: "arg_type \<Rightarrow> u32 list \<Rightarrow> arg" and from_regs_fields :: "arg_type list \<Rightarrow> u32 list \<Rightarrow> arg list" where
  "from_regs U32Ty rs = ArgU32 (rs ! 0)"
| "from_regs I32Ty rs = ArgI32 (rs ! 0)"
| "from_regs U16Ty rs = ArgU16 (ucast (rs ! 0))"
| "from_regs I16Ty rs = ArgI16 (ucast (rs ! 0))"
| "from_regs U8Ty rs = ArgU8 (ucast (rs ! 0))"
| "from_regs I8Ty rs = ArgI8 (ucast (rs ! 0))"
| "from_regs UsizeTy rs = ArgUsize (ucast (rs ! 0))"
| "from_regs BoolTy rs = ArgBool (rs ! 0 \<noteq> 0)"
| "from_regs F32Ty rs = ArgF32 (rs ! 0)"
| "from_regs PtrTy rs = ArgPtr (rs ! 0)"
| "from_regs FunctionTy rs = ArgFunction (rs ! 0)"
| "from_regs VaListTy rs = ArgVaList 4 (rs ! 0)"
| "from_regs U64Ty rs = ArgU64 (u64_of_regs rs)"
| "from_regs I64Ty rs = ArgI64 (u64_of_regs rs)"
| "from_regs F64Ty rs = ArgF64 (u64_of_regs rs)"
| "from_regs (StructTy tys) rs = ArgStruct (from_regs_fields tys rs)"
| "from_regs_fields [] rs = []"
| "from_regs_fields (ty # tys) rs = from_regs ty rs # from_regs_fields tys (drop (reg_count ty) rs)"

text \<open>Writing an argument into registers that are all zero; a \<open>va_list\<close> leaves them alone.\<close>

fun to_regs :: "arg \<Rightarrow> u32 list" where
  "to_regs (ArgU32 w) = [w]" | "to_regs (ArgI32 w) = [w]"
| "to_regs (ArgU16 w) = [ucast w]" | "to_regs (ArgI16 w) = [scast w]"
| "to_regs (ArgU8 w) = [ucast w]" | "to_regs (ArgI8 w) = [scast w]"
| "to_regs (ArgUsize w) = [ucast w]" | "to_regs (ArgBool b) = [of_bool b]"
| "to_regs (ArgF32 w) = [w]" | "to_regs (ArgPtr w) = [w]" | "to_regs (ArgFunction w) = [w]"
| "to_regs (ArgVaList _ _) = [0]"
| "to_regs (ArgU64 w) = regs_of_u64 w" | "to_regs (ArgI64 w) = regs_of_u64 w" | "to_regs (ArgF64 w) = regs_of_u64 w"
| "to_regs (ArgStruct parts) = concat (map to_regs parts)"

text \<open>Points, sizes and rectangles.\<close>

definition CGPointTy :: arg_type where "CGPointTy = StructTy [F32Ty, F32Ty]"
definition CGSizeTy :: arg_type where "CGSizeTy = StructTy [F32Ty, F32Ty]"
definition CGRectTy :: arg_type where "CGRectTy = StructTy [CGPointTy, CGSizeTy]"

section \<open>Registers and stack\<close>

definition SP :: nat where "SP = 13"
definition LR :: nat where "LR = 14"
definition PC :: nat where "PC = 15"
definition FRAME_POINTER :: nat where "FRAME_POINTER = 7"

text \<open>The words of an argument from position \<open>off\<close> of the argument words: registers 0 to 3, then the stack.\<close>

fun read_words :: "nat \<Rightarrow> nat \<Rightarrow> u32 list \<Rightarrow> nat \<Rightarrow> mem \<Rightarrow> u32 list option" where
  "read_words 0 off rs sp m = Some []"
| "read_words (Suc n) off rs sp m = do {
     w \<leftarrow> (if off < 4 then Some (rs ! off)
          else do { p \<leftarrow> ptr_add 4 sp (off - 4); v \<leftarrow> read_u32 m p; Some (of_nat v) });
     ws \<leftarrow> read_words n (off + 1) rs sp m;
     Some (w # ws) }"

fun write_words :: "u32 list \<Rightarrow> nat \<Rightarrow> u32 list \<times> mem \<Rightarrow> (u32 list \<times> mem) option" where
  "write_words [] off s = Some s"
| "write_words (w # ws) off (rs, m) = do {
     s1 \<leftarrow> (if off < 4 then Some (rs[off := w], m)
           else do { p \<leftarrow> ptr_add 4 (unat (rs ! SP)) (off - 4); m1 \<leftarrow> write_u32 m p (unat w); Some (rs, m1) });
     write_words ws (off + 1) s1 }"

text \<open>There is room for sixteen registers; a larger argument panics.\<close>

definition read_next_arg :: "arg_type \<Rightarrow> nat \<Rightarrow> u32 list \<Rightarrow> nat \<Rightarrow> mem \<Rightarrow> (arg \<times> nat) option" where
  "read_next_arg ty off rs sp m =
     (if 16 < reg_count ty then None
      else do { ws \<leftarrow> read_words (reg_count ty) off rs sp m; Some (from_regs ty ws, off + reg_count ty) })"

definition write_next_arg :: "arg \<Rightarrow> nat \<Rightarrow> u32 list \<times> mem \<Rightarrow> (nat \<times> u32 list \<times> mem) option" where
  "write_next_arg a off s =
     (if 16 < reg_count (type_of a) then None
      else do { s1 \<leftarrow> write_words (to_regs a) off s; Some (off + reg_count (type_of a), s1) })"

fun read_args :: "arg_type list \<Rightarrow> nat \<Rightarrow> u32 list \<Rightarrow> nat \<Rightarrow> mem \<Rightarrow> (arg list \<times> nat) option" where
  "read_args [] off rs sp m = Some ([], off)"
| "read_args (ty # tys) off rs sp m = do {
     (a, off1) \<leftarrow> read_next_arg ty off rs sp m;
     (as, off2) \<leftarrow> read_args tys off1 rs sp m;
     Some (a # as, off2) }"

fun write_args :: "arg list \<Rightarrow> nat \<Rightarrow> u32 list \<times> mem \<Rightarrow> (nat \<times> u32 list \<times> mem) option" where
  "write_args [] off s = Some (off, s)"
| "write_args (a # as) off s = do { (off1, s1) \<leftarrow> write_next_arg a off s; write_args as off1 s1 }"

text \<open>The old stack pointer and the registers with room on the stack.\<close>

definition extend_stack_for_args :: "nat \<Rightarrow> u32 list \<Rightarrow> (u32 \<times> u32 list) option" where
  "extend_stack_for_args reg_count_sum rs =
     (if 4 < reg_count_sum then do {
        p \<leftarrow> ptr_sub 4 (unat (rs ! SP)) (reg_count_sum - 4);
        Some (rs ! SP, rs[SP := of_nat p]) }
      else Some (rs ! SP, rs))"

text \<open>The next variable argument.\<close>

definition va_next :: "arg_type \<Rightarrow> arg \<Rightarrow> u32 list \<Rightarrow> mem \<Rightarrow> (arg \<times> arg) option" where
  "va_next ty va rs m =
     (case va of
        ArgVaList off sp \<Rightarrow> do { (a, off1) \<leftarrow> read_next_arg ty off rs (unat sp) m; Some (a, ArgVaList off1 sp) }
      | _ \<Rightarrow> None)"

section \<open>Results\<close>

text \<open>Nothing, a value in registers, or a large structure in memory the caller provides.\<close>

datatype ret_type = RetUnit | RetRegs arg_type | RetMem nat

datatype ret = UnitValue | RegsValue arg | MemValue "u8 list"

definition size_in_mem :: "ret_type \<Rightarrow> nat option" where
  "size_in_mem rt = (case rt of RetMem n \<Rightarrow> Some n | _ \<Rightarrow> None)"

fun ret_to_regs :: "ret \<Rightarrow> u32 list \<Rightarrow> u32 list" where
  "ret_to_regs UnitValue rs = rs"
| "ret_to_regs (RegsValue a) rs = to_regs a @ drop (length (to_regs a)) rs"
| "ret_to_regs (MemValue _) rs = rs"

fun ret_from_regs :: "ret_type \<Rightarrow> u32 list \<Rightarrow> ret option" where
  "ret_from_regs RetUnit rs = Some UnitValue"
| "ret_from_regs (RetRegs ty) rs = Some (RegsValue (from_regs ty rs))"
| "ret_from_regs (RetMem _) rs = None"

section \<open>Calls\<close>

text \<open>The environment: registers, the status word, guest memory and everything else.\<close>

record 's genv =
  cpu_regs :: "u32 list"
  cpsr :: u32
  guest_mem :: mem
  others :: 's

text \<open>
  A host function takes its arguments and the variable ones (which most functions ignore), may change
  the whole environment, and may panic.
\<close>

type_synonym 's host_function = "arg list \<Rightarrow> arg \<Rightarrow> 's genv \<Rightarrow> (ret \<times> 's genv) option"

definition call_from_guest ::
    "ret_type \<Rightarrow> arg_type list \<Rightarrow> 's host_function \<Rightarrow> 's genv \<Rightarrow> (ret \<times> 's genv) option" where
  "call_from_guest rt tys f e = do {
     let rs = cpu_regs e;
     let sp = unat (cpu_regs e ! SP);
     (retval_ptr, off) \<leftarrow> (if size_in_mem rt = None then Some (None, 0)
        else do { (p, off) \<leftarrow> read_next_arg PtrTy 0 rs sp (guest_mem e); Some (Some p, off) });
     (args, off1) \<leftarrow> read_args tys off rs sp (guest_mem e);
     (retval, e1) \<leftarrow> f args (ArgVaList off1 (cpu_regs e ! SP)) e;
     (case (retval_ptr, retval) of
        (Some (ArgPtr p), MemValue bs) \<Rightarrow> do {
          m1 \<leftarrow> mem_write (guest_mem e1) (unat p) bs;
          Some (retval, e1\<lparr> guest_mem := m1 \<rparr>) }
      | _ \<Rightarrow> Some (retval, e1\<lparr> cpu_regs := ret_to_regs retval (cpu_regs e1) \<rparr>)) }"

text \<open>
  Host code that calls a host function through the guest's conventions: \<open>callee\<close> is
  \<open>call_from_guest\<close> of the function.
\<close>

definition call_host_function ::
    "ret_type \<Rightarrow> ('s genv \<Rightarrow> 's genv option) \<Rightarrow> arg list \<Rightarrow> 's genv \<Rightarrow> (ret \<times> 's genv) option" where
  "call_host_function rt callee args e = do {
     (retval_ptr, off, rs, m) \<leftarrow> (case size_in_mem rt of
        None \<Rightarrow> Some (None, 0, cpu_regs e, guest_mem e)
      | Some sz \<Rightarrow> do {
          let rs = (cpu_regs e)[SP := cpu_regs e ! SP - of_nat sz];
          (off, rs1, m1) \<leftarrow> write_next_arg (ArgPtr (rs ! SP)) 0 (rs, guest_mem e);
          Some (Some (rs ! SP), off, rs1, m1) });
     (old_sp, rs2) \<leftarrow> extend_stack_for_args (sum_list (map (\<lambda>a. reg_count (type_of a)) args)) rs;
     (off1, rs3, m3) \<leftarrow> write_args args off (rs2, m);
     e1 \<leftarrow> callee (e\<lparr> cpu_regs := rs3, guest_mem := m3 \<rparr>);
     let rs4 = (cpu_regs e1)[SP := old_sp];
     (case (retval_ptr, size_in_mem rt) of
        (Some p, Some sz) \<Rightarrow> do {
          bs \<leftarrow> mem_read sz (guest_mem e1) (unat p);
          Some (MemValue bs, e1\<lparr> cpu_regs := rs4[SP := rs4 ! SP + of_nat sz] \<rparr>) }
      | _ \<Rightarrow> do {
          r \<leftarrow> ret_from_regs rt rs4;
          Some (r, e1\<lparr> cpu_regs := rs4 \<rparr>) }) }"

subsection \<open>Guest functions\<close>

definition THUMB_BIT :: u32 where "THUMB_BIT = 1"
definition CPSR_THUMB :: u32 where "CPSR_THUMB = 32"

definition from_addr_and_thumb_flag :: "u32 \<Rightarrow> bool \<Rightarrow> u32" where
  "from_addr_and_thumb_flag pc thumb = (pc OR (of_bool thumb * THUMB_BIT))"

definition is_thumb :: "u32 \<Rightarrow> bool" where
  "is_thumb f \<longleftrightarrow> f AND THUMB_BIT = THUMB_BIT"

definition addr_without_thumb_bit :: "u32 \<Rightarrow> u32" where
  "addr_without_thumb_bit f = f AND NOT THUMB_BIT"

definition pc_with_thumb_bit :: "'s genv \<Rightarrow> u32" where
  "pc_with_thumb_bit e = from_addr_and_thumb_flag (cpu_regs e ! PC) (cpsr e AND CPSR_THUMB = CPSR_THUMB)"

definition branch :: "u32 \<Rightarrow> 's genv \<Rightarrow> 's genv" where
  "branch new_pc e =
     e\<lparr> cpu_regs := (cpu_regs e)[PC := addr_without_thumb_bit new_pc],
        cpsr := (cpsr e AND NOT CPSR_THUMB) OR (of_bool (is_thumb new_pc) * CPSR_THUMB) \<rparr>"

definition branch_with_link :: "u32 \<Rightarrow> u32 \<Rightarrow> 's genv \<Rightarrow> (u32 \<times> u32) \<times> 's genv" where
  "branch_with_link new_pc new_lr e =
     (let old_pc = pc_with_thumb_bit e; old_lr = cpu_regs e ! LR; e1 = branch new_pc e
      in ((old_pc, old_lr), e1\<lparr> cpu_regs := (cpu_regs e1)[LR := new_lr] \<rparr>))"

text \<open>
  \<open>run_call\<close> runs the guest until it returns to the routine at \<open>return_to_host\<close>.
\<close>

definition call_without_pushing_stack_frame ::
    "('s genv \<Rightarrow> 's genv option) \<Rightarrow> u32 \<Rightarrow> u32 \<Rightarrow> 's genv \<Rightarrow> 's genv option" where
  "call_without_pushing_stack_frame run_call return_to_host fn e = do {
     let ((old_pc, old_lr), e1) = branch_with_link fn return_to_host e;
     e2 \<leftarrow> run_call e1;
     let e3 = branch old_pc e2;
     Some (e3\<lparr> cpu_regs := (cpu_regs e3)[LR := old_lr] \<rparr>) }"

definition call_guest_function ::
    "('s genv \<Rightarrow> 's genv option) \<Rightarrow> u32 \<Rightarrow> u32 \<Rightarrow> ret_type \<Rightarrow> arg list \<Rightarrow> 's genv \<Rightarrow> (ret \<times> 's genv) option" where
  "call_guest_function run_call return_to_host fn rt args e = do {
     let ((old_pc, old_lr), e1) = branch_with_link fn return_to_host e;
     let rs = cpu_regs e1;
     let old_sp = rs ! SP;
     let old_fp = rs ! FRAME_POINTER;
     let rs1 = rs[SP := old_sp - 8];
     let rs2 = rs1[FRAME_POINTER := rs1 ! SP];
     m1 \<leftarrow> write_u32 (guest_mem e1) (unat (rs2 ! SP)) (unat old_fp);
     m2 \<leftarrow> write_u32 m1 (unat (rs2 ! SP + 4)) (unat old_lr);
     (if size_in_mem rt \<noteq> None then None
      else do {
        (_, rs3) \<leftarrow> extend_stack_for_args (sum_list (map (\<lambda>a. reg_count (type_of a)) args)) rs2;
        (off, rs4, m3) \<leftarrow> write_args args 0 (rs3, m2);
        e2 \<leftarrow> run_call (e1\<lparr> cpu_regs := rs4, guest_mem := m3 \<rparr>);
        let e3 = branch old_pc e2;
        let rs5 = (cpu_regs e3)[LR := old_lr, SP := old_sp, FRAME_POINTER := old_fp];
        r \<leftarrow> ret_from_regs rt rs5;
        Some (r, e3\<lparr> cpu_regs := rs5 \<rparr>) }) }"

end
