(* ===== verification/Guest_Abi_Props.thy ===== *)
theory Guest_Abi_Props
  imports Guest_Abi
begin

text \<open>
  What the calling conventions promise: an argument and a result arrive as they were passed, and a call
  leaves the stack pointer and the memory above it as they were.
\<close>

section \<open>Single values\<close>

text \<open>
  Values that can be passed: no \<open>va_list\<close>, which is only ever read, and no \<open>usize\<close> of the host that does
  not fit in a register of the guest.
\<close>

fun arg_ok :: "arg \<Rightarrow> bool" where
  "arg_ok (ArgVaList _ _) = False"
| "arg_ok (ArgUsize w) = (unat w < 4294967296)"
| "arg_ok (ArgStruct parts) = list_all arg_ok parts"
| "arg_ok _ = True"

lemma to_from_le: "to_le_bytes (length bs) (from_le_bytes bs) = bs"
proof (induction bs)
  case (Cons b bs)
  have b: "unat b < 2 ^ LENGTH(8)" by (rule unsigned_less)
  have z: "(of_nat 256 :: u8) = 0" by simp
  show ?case using Cons b by (simp add: from_le_Cons z del: of_nat_numeral)
qed simp

lemma u64_length [simp]: "length (regs_of_u64 w) = 2"
  by (simp add: regs_of_u64_def Let_def)

lemma unat_word_of_bytes: "length bs = 4 \<Longrightarrow> unat (of_nat (from_le_bytes bs) :: u32) = from_le_bytes bs"
  using from_le_bytes_bound [of bs] by (simp add: unat_of_nat)

lemma u64_roundtrip: "u64_of_regs (regs_of_u64 w @ rs) = w"
proof -
  let ?bs = "to_le_bytes 8 (unat w)"
  have half: "to_le_bytes 4 (unat (of_nat (from_le_bytes bs) :: u32)) = bs" if "length bs = 4" for bs
    using to_from_le [of bs] that by (simp add: unat_word_of_bytes)
  have "u64_of_regs (regs_of_u64 w @ rs) = of_nat (from_le_bytes (take 4 ?bs @ drop 4 ?bs))"
    by (simp add: u64_of_regs_def regs_of_u64_def Let_def nth_append half)
  also have "\<dots> = of_nat (unat w mod 256 ^ 8)" by (simp only: append_take_drop_id from_to_le)
  also have "unat w mod 256 ^ 8 = unat w"
  proof -
    have "unat w < 2 ^ LENGTH(64)" by (rule unsigned_less)
    then show ?thesis by simp
  qed
  finally show ?thesis by simp
qed

lemma narrow_roundtrip:
  "ucast (ucast (a :: u16) :: u32) = a" "ucast (scast (a :: u16) :: u32) = a"
  "ucast (ucast (b :: u8) :: u32) = b" "ucast (scast (b :: u8) :: u32) = b"
  by (simp_all add: bit_eq_iff bit_simps)

lemma usize_roundtrip:
  assumes "unat (w :: u64) < 4294967296"
  shows "ucast (ucast w :: u32) = w"
proof -
  have "unat (ucast (ucast w :: u32) :: u64) = unat w"
    using assms by (simp add: unsigned_ucast_eq unsigned_take_bit_eq take_bit_nat_eq_self)
  then show ?thesis by (rule unsigned_word_eqI)
qed

lemma to_regs_length: "length (to_regs a) = reg_count (type_of a)"
proof (induction a)
  case (ArgStruct parts)
  then have "map (length \<circ> to_regs) parts = map (reg_count \<circ> type_of) parts" by simp
  then show ?case by (simp only: to_regs.simps type_of.simps reg_count.simps length_concat map_map)
qed simp_all

lemma from_to_regs: "arg_ok a \<Longrightarrow> from_regs (type_of a) (to_regs a @ rs) = a"
proof (induction a arbitrary: rs)
  case (ArgStruct parts)
  have "list_all arg_ok parts \<Longrightarrow> (\<And>x. x \<in> set parts \<Longrightarrow> arg_ok x \<Longrightarrow> (\<forall>rs. from_regs (type_of x) (to_regs x @ rs) = x)) \<Longrightarrow>
      from_regs_fields (map type_of parts) (concat (map to_regs parts) @ rs) = parts" for parts
  proof (induction parts)
    case (Cons x parts)
    then show ?case by (simp add: to_regs_length)
  qed simp
  then show ?case using ArgStruct by simp
qed (simp_all add: u64_roundtrip narrow_roundtrip usize_roundtrip)

section \<open>Words in registers and on the stack\<close>

text \<open>The argument word at position \<open>k\<close>.\<close>

definition word_at :: "nat \<Rightarrow> u32 list \<Rightarrow> nat \<Rightarrow> mem \<Rightarrow> u32 option" where
  "word_at k rs sp m = (if k < 4 then Some (rs ! k) else map_option of_nat (read_u32 m (sp + 4 * (k - 4))))"

definition stack_room :: "mem \<Rightarrow> nat \<Rightarrow> nat \<Rightarrow> bool" where
  "stack_room m sp n = (ordinary m sp (4 * (n - 4)) \<and> sp < 4294967296)"

lemma stack_address:
  assumes "stack_room m sp n" "4 \<le> k" "k < n"
  shows "ptr_add 4 sp (k - 4) = Some (sp + 4 * (k - 4))" "ordinary m (sp + 4 * (k - 4)) 4"
proof -
  have o: "null_segment_size m \<le> sp" "sp + 4 * (n - 4) \<le> 4294967296"
    using assms(1) by (simp_all add: stack_room_def ordinary_def)
  have lt: "4 * (k - 4) + 4 \<le> 4 * (n - 4)" using assms(2,3) by simp
  then have "sp + 4 * (k - 4) < 4294967296" using o(2) by linarith
  moreover have "(k - 4) * 4 mod 4294967296 = 4 * (k - 4)" using lt o(2) by simp
  ultimately show "ptr_add 4 sp (k - 4) = Some (sp + 4 * (k - 4))" by (simp add: ptr_add_def wadd32_exact)
  show "ordinary m (sp + 4 * (k - 4)) 4" using o lt by (simp add: ordinary_def)
qed

text \<open>Memory that differs only in the argument words of the stack.\<close>

definition stack_written :: "nat \<Rightarrow> nat \<Rightarrow> mem \<Rightarrow> mem \<Rightarrow> bool" where
  "stack_written sp n m m' = (\<exists>f. m' = m\<lparr> mbytes := f \<rparr>
     \<and> (\<forall>x. x < sp \<or> sp + 4 * (n - 4) \<le> x \<longrightarrow> f x = mbytes m x))"

lemma stack_written_refl: "stack_written sp n m m"
  unfolding stack_written_def by (rule exI [of _ "mbytes m"]) simp

lemma stack_written_trans: "stack_written sp n m m1 \<Longrightarrow> stack_written sp n m1 m2 \<Longrightarrow> stack_written sp n m m2"
  unfolding stack_written_def by fastforce

lemma stack_room_written: "stack_written sp n m m' \<Longrightarrow> stack_room m' sp' n' = stack_room m sp' n'"
  by (auto simp: stack_written_def stack_room_def)

lemma write_one:
  assumes room: "stack_room m sp n" and k: "4 \<le> k" "k < n"
  shows "\<exists>m1. write_u32 m (sp + 4 * (k - 4)) (unat (w :: u32)) = Some m1 \<and> stack_written sp n m m1
    \<and> word_at k rs sp m1 = Some w \<and> (\<forall>j < n. j \<noteq> k \<longrightarrow> word_at j rs sp m1 = word_at j rs sp m)"
proof -
  let ?p = "sp + 4 * (k - 4)"
  have w: "unat w < 4294967296" using unsigned_less [of w] by simp
  from word_write [OF stack_address(2) [OF room k] w] obtain m1 where m1: "write_u32 m ?p (unat w) = Some m1"
    "m1 = m\<lparr> mbytes := put_bytes ?p (to_le_bytes 4 (unat w)) (mbytes m) \<rparr>" "read_u32 m1 ?p = Some (unat w)"
    and other: "\<forall>q. ordinary m q 4 \<and> ranges_apart q 4 ?p 4 \<longrightarrow> read_u32 m1 q = read_u32 m q" by blast
  have "stack_written sp n m m1"
    unfolding stack_written_def
  proof (intro exI conjI allI impI)
    show "m1 = m\<lparr> mbytes := put_bytes ?p (to_le_bytes 4 (unat w)) (mbytes m) \<rparr>" by (rule m1(2))
    fix x assume "x < sp \<or> sp + 4 * (n - 4) \<le> x"
    then show "put_bytes ?p (to_le_bytes 4 (unat w)) (mbytes m) x = mbytes m x"
      using k by (intro put_bytes_other) auto
  qed
  moreover have "word_at k rs sp m1 = Some w" using k m1(3) by (simp add: word_at_def)
  moreover have "word_at j rs sp m1 = word_at j rs sp m" if j: "j < n" "j \<noteq> k" for j
  proof (cases "j < 4")
    case False
    then have "ordinary m (sp + 4 * (j - 4)) 4" using stack_address(2) [OF room _ j(1)] by simp
    moreover have "ranges_apart (sp + 4 * (j - 4)) 4 ?p 4" using False j(2) k by (auto simp: ranges_apart_def)
    ultimately show ?thesis using other False by (simp add: word_at_def)
  qed (simp add: word_at_def)
  ultimately show ?thesis using m1(1) by blast
qed

definition words_written :: "u32 list \<Rightarrow> nat \<Rightarrow> nat \<Rightarrow> u32 list \<Rightarrow> mem \<Rightarrow> u32 list \<Rightarrow> mem \<Rightarrow> bool" where
  "words_written ws off n rs m rs' m' = (length rs' = length rs \<and> (\<forall>j \<ge> 4. rs' ! j = rs ! j)
     \<and> stack_written (unat (rs ! SP)) n m m'
     \<and> (\<forall>k < off. k < n \<longrightarrow> word_at k rs' (unat (rs ! SP)) m' = word_at k rs (unat (rs ! SP)) m)
     \<and> (\<forall>i < length ws. word_at (off + i) rs' (unat (rs ! SP)) m' = Some (ws ! i)))"

lemma write_words_spec:
  assumes "length rs = 16" "stack_room m (unat (rs ! SP)) n" "off + length ws \<le> n"
  shows "\<exists>rs' m'. write_words ws off (rs, m) = Some (rs', m') \<and> words_written ws off n rs m rs' m'"
  using assms
proof (induction ws arbitrary: off rs m)
  case Nil
  then show ?case by (simp add: words_written_def stack_written_refl)
next
  case (Cons w ws)
  let ?sp = "unat (rs ! SP)"
  obtain rs1 m1 where s1: "write_words (w # ws) off (rs, m) = write_words ws (off + 1) (rs1, m1)"
      "length rs1 = 16" "\<forall>j \<ge> 4. rs1 ! j = rs ! j" "stack_written ?sp n m m1" "word_at off rs1 ?sp m1 = Some w"
      "\<forall>k < off. k < n \<longrightarrow> word_at k rs1 ?sp m1 = word_at k rs ?sp m"
  proof (cases "off < 4")
    case True
    show ?thesis
      by (rule that [of "rs[off := w]" m])
        (use True Cons.prems(1) in \<open>auto simp: stack_written_refl word_at_def nth_list_update\<close>)
  next
    case False
    then have k: "4 \<le> off" "off < n" using Cons.prems(3) by simp_all
    from write_one [OF Cons.prems(2) k, of w rs] obtain m1 where m1:
      "write_u32 m (?sp + 4 * (off - 4)) (unat w) = Some m1" "stack_written ?sp n m m1"
      "word_at off rs ?sp m1 = Some w" "\<forall>j < n. j \<noteq> off \<longrightarrow> word_at j rs ?sp m1 = word_at j rs ?sp m" by blast
    show ?thesis
      by (rule that [of rs m1])
        (use False k m1 stack_address(1) [OF Cons.prems(2) k] Cons.prems(1) in auto)
  qed
  have sp1: "rs1 ! SP = rs ! SP" using s1(3) by (simp add: SP_def)
  have "stack_room m1 (unat (rs1 ! SP)) n" using Cons.prems(2) stack_room_written [OF s1(4)] sp1 by simp
  with Cons.IH [OF s1(2), of m1 "off + 1"] Cons.prems(3) obtain rs' m' where
    r: "write_words ws (off + 1) (rs1, m1) = Some (rs', m')" "words_written ws (off + 1) n rs1 m1 rs' m'" by auto
  have ww: "length rs' = length rs1" "\<forall>j \<ge> 4. rs' ! j = rs1 ! j" "stack_written ?sp n m1 m'"
    "\<forall>k < off + 1. k < n \<longrightarrow> word_at k rs' ?sp m' = word_at k rs1 ?sp m1"
    "\<forall>i < length ws. word_at (off + 1 + i) rs' ?sp m' = Some (ws ! i)"
    using r(2) sp1 by (simp_all add: words_written_def)
  have "word_at (off + i) rs' ?sp m' = Some ((w # ws) ! i)" if i: "i < length (w # ws)" for i
  proof (cases i)
    case 0
    have "word_at off rs' ?sp m' = word_at off rs1 ?sp m1" using ww(4) Cons.prems(3) by simp
    then show ?thesis using 0 s1(5) by simp
  next
    case (Suc j)
    then show ?thesis using ww(5) i by simp
  qed
  moreover have "\<forall>k < off. k < n \<longrightarrow> word_at k rs' ?sp m' = word_at k rs ?sp m" using ww(4) s1(6) by simp
  ultimately have "words_written (w # ws) off n rs m rs' m'"
    using ww(1,2) s1(2,3) Cons.prems(1) stack_written_trans [OF s1(4) ww(3)] by (simp add: words_written_def)
  then show ?case using s1(1) r(1) by simp
qed

lemma read_words_at:
  assumes "stack_room m sp n" "off + length ws \<le> n" "\<forall>i < length ws. word_at (off + i) rs sp m = Some (ws ! i)"
  shows "read_words (length ws) off rs sp m = Some ws"
  using assms(2,3)
proof (induction ws arbitrary: off)
  case (Cons w ws)
  have w: "word_at off rs sp m = Some w" using Cons.prems(2) by (auto dest: spec [of _ 0])
  have "\<forall>i < length ws. word_at (off + 1 + i) rs sp m = Some (ws ! i)"
  proof (intro allI impI)
    fix i assume "i < length ws"
    then show "word_at (off + 1 + i) rs sp m = Some (ws ! i)" using spec [OF Cons.prems(2), of "Suc i"] by simp
  qed
  then have rest: "read_words (length ws) (off + 1) rs sp m = Some ws" using Cons.IH [of "off + 1"] Cons.prems(1) by simp
  show ?case
  proof (cases "off < 4")
    case True
    then show ?thesis using w rest by (simp add: word_at_def)
  next
    case False
    then have k: "4 \<le> off" "off < n" using Cons.prems(1) by simp_all
    obtain v where "read_u32 m (sp + 4 * (off - 4)) = Some v" "w = of_nat v"
      using w False by (auto simp: word_at_def)
    then show ?thesis using False rest stack_address(1) [OF assms(1) k] by simp
  qed
qed simp

section \<open>Argument lists\<close>

definition words_of :: "arg list \<Rightarrow> u32 list" where
  "words_of as = concat (map to_regs as)"

definition passable :: "arg \<Rightarrow> bool" where
  "passable a = (arg_ok a \<and> reg_count (type_of a) \<le> 16)"

definition total_regs :: "arg list \<Rightarrow> nat" where
  "total_regs as = sum_list (map (\<lambda>a. reg_count (type_of a)) as)"

lemma words_of_length: "length (words_of as) = total_regs as"
  by (induction as) (simp_all add: words_of_def total_regs_def to_regs_length)

lemma write_words_append:
  "write_words (xs @ ys) off s = Option.bind (write_words xs off s) (write_words ys (off + length xs))"
  by (induction xs off s rule: write_words.induct) (auto simp: Option.bind_assoc intro!: Option.bind_cong)

lemma write_args_words:
  assumes "\<forall>a \<in> set as. passable a"
  shows "write_args as off s = map_option (\<lambda>s'. (off + total_regs as, s')) (write_words (words_of as) off s)"
  using assms
proof (induction as arbitrary: off s)
  case Nil
  then show ?case by (simp add: words_of_def total_regs_def)
next
  case (Cons a as)
  have "words_of (a # as) = to_regs a @ words_of as" "total_regs (a # as) = reg_count (type_of a) + total_regs as"
    by (simp_all add: words_of_def total_regs_def)
  then show ?case using Cons
    by (cases "write_words (to_regs a) off s")
      (simp_all add: write_next_arg_def passable_def write_words_append to_regs_length option.map_comp o_def add.assoc)
qed

lemma read_words_split:
  "read_words (n + k) off rs sp m = Some ws \<Longrightarrow> length ws = n + k \<Longrightarrow>
   read_words n off rs sp m = Some (take n ws) \<and> read_words k (off + n) rs sp m = Some (drop n ws)"
proof (induction n arbitrary: off ws)
  case (Suc n)
  from Suc.prems obtain w v where w: "ws = w # v" "read_words (n + k) (off + 1) rs sp m = Some v"
    "(if off < 4 then Some (rs ! off) else do { p \<leftarrow> ptr_add 4 sp (off - 4); v \<leftarrow> read_u32 m p; Some (of_nat v) }) = Some w"
    by (auto simp: bind_eq_Some_conv split: if_splits)
  with Suc.IH [OF w(2)] Suc.prems(2) show ?case by (simp add: bind_eq_Some_conv)
qed simp

lemma read_args_words:
  assumes "\<forall>a \<in> set as. passable a" "read_words (total_regs as) off rs sp m = Some (words_of as)"
  shows "read_args (map type_of as) off rs sp m = Some (as, off + total_regs as)"
  using assms
proof (induction as arbitrary: off)
  case Nil
  then show ?case by (simp add: total_regs_def)
next
  case (Cons a as)
  let ?n = "reg_count (type_of a)"
  have split: "words_of (a # as) = to_regs a @ words_of as" "total_regs (a # as) = ?n + total_regs as"
    by (simp_all add: words_of_def total_regs_def)
  have "length (words_of (a # as)) = ?n + total_regs as" using words_of_length split(2) by metis
  then have r: "read_words ?n off rs sp m = Some (to_regs a)" "read_words (total_regs as) (off + ?n) rs sp m = Some (words_of as)"
    using read_words_split [of ?n "total_regs as" off rs sp m "words_of (a # as)"] Cons.prems(2) split
    by (simp_all add: to_regs_length)
  have a: "passable a" "\<forall>x \<in> set as. passable x" using Cons.prems(1) by simp_all
  have "read_next_arg (type_of a) off rs sp m = Some (a, off + ?n)"
    using a(1) r(1) from_to_regs [of a "[]"] by (simp add: read_next_arg_def passable_def)
  then show ?case using Cons.IH [OF a(2) r(2)] split(2) by (simp add: add.assoc)
qed

lemma arguments_written:
  assumes "length rs = 16" "stack_room m (unat (rs ! SP)) (off + total_regs as)" "\<forall>a \<in> set as. passable a"
  shows "\<exists>rs' m'. write_args as off (rs, m) = Some (off + total_regs as, rs', m')
    \<and> words_written (words_of as) off (off + total_regs as) rs m rs' m'
    \<and> read_args (map type_of as) off rs' (unat (rs ! SP)) m' = Some (as, off + total_regs as)"
proof -
  let ?n = "off + total_regs as"
  have "off + length (words_of as) \<le> ?n" by (simp add: words_of_length)
  from write_words_spec [OF assms(1,2) this] obtain rs' m' where
    w: "write_words (words_of as) off (rs, m) = Some (rs', m')" "words_written (words_of as) off ?n rs m rs' m'" by blast
  have "stack_room m' (unat (rs ! SP)) ?n"
    using w(2) assms(2) stack_room_written [of "unat (rs ! SP)" ?n m m'] by (simp add: words_written_def)
  then have "read_words (length (words_of as)) off rs' (unat (rs ! SP)) m' = Some (words_of as)"
    by (rule read_words_at) (use w(2) in \<open>simp_all add: words_of_length words_written_def\<close>)
  then show ?thesis
    using w read_args_words [OF assms(3), of off rs' "unat (rs ! SP)" m'] write_args_words [OF assms(3), of off "(rs, m)"]
    by (simp add: words_of_length)
qed

section \<open>Whole calls\<close>

definition frame :: "ret_type \<Rightarrow> arg list \<Rightarrow> nat" where
  "frame rt as = (case size_in_mem rt of None \<Rightarrow> 0 | Some sz \<Rightarrow> sz) + 4 * (total_regs as - 4)"

fun ret_fits :: "ret_type \<Rightarrow> ret \<Rightarrow> bool" where
  "ret_fits RetUnit UnitValue = True"
| "ret_fits (RetRegs ty) (RegsValue a) = (arg_ok a \<and> type_of a = ty \<and> reg_count ty \<le> 4)"
| "ret_fits (RetMem n) (MemValue bs) = (length bs = n)"
| "ret_fits _ _ = False"

lemma extend_stack:
  assumes "length rs = 16" "4 * (total_regs as - 4) \<le> unat (rs ! SP)"
  shows "\<exists>rs'. extend_stack_for_args (sum_list (map (\<lambda>a. reg_count (type_of a)) as)) rs = Some (rs ! SP, rs')
    \<and> length rs' = 16 \<and> (\<forall>j. j \<noteq> SP \<longrightarrow> rs' ! j = rs ! j) \<and> unat (rs' ! SP) = unat (rs ! SP) - 4 * (total_regs as - 4)"
proof (cases "4 < total_regs as")
  case True
  let ?k = "4 * (total_regs as - 4)"
  have sp: "unat (rs ! SP) < 2 ^ LENGTH(32)" by (rule unsigned_less)
  then have k: "?k < 4294967296" "unat (rs ! SP) < 4294967296" using assms(2) by simp_all
  then have "ptr_sub 4 (unat (rs ! SP)) (total_regs as - 4) = Some (unat (rs ! SP) - ?k)"
    using assms(2) by (simp add: ptr_sub_def mult.commute wsub32_exact)
  then have "extend_stack_for_args (total_regs as) rs = Some (rs ! SP, rs[SP := of_nat (unat (rs ! SP) - ?k)])"
    using True by (simp add: extend_stack_for_args_def)
  moreover have "unat (of_nat (unat (rs ! SP) - ?k) :: u32) = unat (rs ! SP) - ?k"
    using k(2) by (simp add: unat_of_nat)
  ultimately show ?thesis using assms(1) unfolding total_regs_def
    by (intro exI [of _ "rs[SP := of_nat (unat (rs ! SP) - ?k)]"]) (simp add: SP_def total_regs_def)
next
  case False
  then show ?thesis using assms(1) by (simp add: extend_stack_for_args_def total_regs_def)
qed

text \<open>How the environment looks to the callee.\<close>

definition entered :: "ret_type \<Rightarrow> arg list \<Rightarrow> 's genv \<Rightarrow> 's genv \<Rightarrow> bool" where
  "entered rt as e e0 = (cpsr e0 = cpsr e \<and> others e0 = others e \<and> length (cpu_regs e0) = 16
     \<and> (\<forall>j \<ge> 4. j \<noteq> SP \<longrightarrow> cpu_regs e0 ! j = cpu_regs e ! j)
     \<and> unat (cpu_regs e0 ! SP) = unat (cpu_regs e ! SP) - frame rt as
     \<and> (\<exists>g. guest_mem e0 = (guest_mem e)\<lparr> mbytes := g \<rparr>
         \<and> (\<forall>x. x < unat (cpu_regs e ! SP) - frame rt as \<or> unat (cpu_regs e ! SP) \<le> x \<longrightarrow> g x = mbytes (guest_mem e) x)))"

text \<open>Calls whose result is returned in registers.\<close>

lemma call_in_registers:
  assumes e: "length (cpu_regs e) = 16" "\<forall>a \<in> set as. passable a" and rt: "size_in_mem rt = None"
    and room: "frame rt as \<le> unat (cpu_regs e ! SP)" "ordinary (guest_mem e) (unat (cpu_regs e ! SP) - frame rt as) (frame rt as)"
  shows "\<exists>e0. entered rt as e e0
    \<and> (\<forall>callee. call_host_function rt callee as e = do {
          e1 \<leftarrow> callee e0;
          let rs4 = (cpu_regs e1)[SP := cpu_regs e ! SP];
          r \<leftarrow> ret_from_regs rt rs4;
          Some (r, e1\<lparr> cpu_regs := rs4 \<rparr>) })
    \<and> (\<forall>f. call_from_guest rt (map type_of as) f e0 = do {
          (r, e1) \<leftarrow> f as (ArgVaList (total_regs as) (cpu_regs e0 ! SP)) e0;
          Some (r, e1\<lparr> cpu_regs := ret_to_regs r (cpu_regs e1) \<rparr>) })"
proof -
  let ?rs = "cpu_regs e" and ?k = "4 * (total_regs as - 4)"
  have fr: "frame rt as = ?k" using rt by (simp add: frame_def)
  obtain rs2 where rs2: "extend_stack_for_args (sum_list (map (\<lambda>a. reg_count (type_of a)) as)) ?rs = Some (?rs ! SP, rs2)"
    "length rs2 = 16" "\<forall>j. j \<noteq> SP \<longrightarrow> rs2 ! j = ?rs ! j" "unat (rs2 ! SP) = unat (?rs ! SP) - ?k"
    using extend_stack [OF e(1), of as] room(1) fr by auto
  have "unat (rs2 ! SP) < 2 ^ LENGTH(32)" by (rule unsigned_less)
  then have sr: "stack_room (guest_mem e) (unat (rs2 ! SP)) (0 + total_regs as)"
    using room(2) fr rs2(4) by (simp add: stack_room_def)
  from arguments_written [OF rs2(2) sr e(2)] obtain rs3 m3 where
    w: "write_args as 0 (rs2, guest_mem e) = Some (total_regs as, rs3, m3)"
    "words_written (words_of as) 0 (total_regs as) rs2 (guest_mem e) rs3 m3"
    "read_args (map type_of as) 0 rs3 (unat (rs2 ! SP)) m3 = Some (as, total_regs as)" by auto
  have sp3: "rs3 ! SP = rs2 ! SP" using w(2) by (simp add: words_written_def SP_def)
  let ?e0 = "e\<lparr> cpu_regs := rs3, guest_mem := m3 \<rparr>"
  have "entered rt as e ?e0"
  proof -
    have "\<exists>g. m3 = (guest_mem e)\<lparr> mbytes := g \<rparr> \<and> (\<forall>x. x < unat (?rs ! SP) - ?k \<or> unat (?rs ! SP) \<le> x \<longrightarrow> g x = mbytes (guest_mem e) x)"
      using w(2) room(1) rs2(4) fr by (auto simp: words_written_def stack_written_def)
    then show ?thesis using w(2) rs2 sp3 fr by (simp add: entered_def words_written_def)
  qed
  moreover have "call_host_function rt callee as e = do {
          e1 \<leftarrow> callee ?e0;
          let rs4 = (cpu_regs e1)[SP := cpu_regs e ! SP];
          r \<leftarrow> ret_from_regs rt rs4;
          Some (r, e1\<lparr> cpu_regs := rs4 \<rparr>) }" for callee
    using rs2(1) w(1) rt by (simp add: call_host_function_def)
  moreover have "call_from_guest rt (map type_of as) f ?e0 = do {
          (r, e1) \<leftarrow> f as (ArgVaList (total_regs as) (cpu_regs ?e0 ! SP)) ?e0;
          Some (r, e1\<lparr> cpu_regs := ret_to_regs r (cpu_regs e1) \<rparr>) }" for f
    using w(3) sp3 rt by (simp add: call_from_guest_def)
  ultimately show ?thesis by blast
qed

text \<open>Calls that return a large structure through a pointer in the first register.\<close>

lemma call_in_memory:
  assumes e: "length (cpu_regs e) = 16" "\<forall>a \<in> set as. passable a" and sz: "4 \<le> sz"
    and room: "frame (RetMem sz) as \<le> unat (cpu_regs e ! SP)"
      "ordinary (guest_mem e) (unat (cpu_regs e ! SP) - frame (RetMem sz) as) (frame (RetMem sz) as)"
  defines "p \<equiv> cpu_regs e ! SP - of_nat sz"
  shows "\<exists>e0. entered (RetMem sz) as e e0
    \<and> (\<forall>callee. call_host_function (RetMem sz) callee as e = do {
          e1 \<leftarrow> callee e0;
          bs \<leftarrow> mem_read sz (guest_mem e1) (unat p);
          Some (MemValue bs, e1\<lparr> cpu_regs := ((cpu_regs e1)[SP := p])[SP := (cpu_regs e1)[SP := p] ! SP + of_nat sz] \<rparr>) })
    \<and> (\<forall>f. call_from_guest (RetMem sz) (map type_of as) f e0 = do {
          (r, e1) \<leftarrow> f as (ArgVaList (1 + total_regs as) (cpu_regs e0 ! SP)) e0;
          (case r of
             MemValue bs \<Rightarrow> do { m1 \<leftarrow> mem_write (guest_mem e1) (unat p) bs; Some (r, e1\<lparr> guest_mem := m1 \<rparr>) }
           | _ \<Rightarrow> Some (r, e1\<lparr> cpu_regs := ret_to_regs r (cpu_regs e1) \<rparr>)) })"
proof -
  let ?rs = "cpu_regs e" and ?k = "4 * (total_regs as - 4)"
  have fr: "frame (RetMem sz) as = sz + ?k" by (simp add: frame_def size_in_mem_def)
  have "unat (?rs ! SP) < 2 ^ LENGTH(32)" by (rule unsigned_less)
  then have sz32: "sz < 4294967296" using room(1) fr by simp
  then have "unat (of_nat sz :: u32) = sz" by (simp add: unat_of_nat)
  then have up: "unat p = unat (?rs ! SP) - sz"
    using room(1) fr unfolding p_def by (subst unat_sub) (simp_all add: word_le_nat_alt)
  let ?rs1 = "?rs[SP := p, 0 := p]"
  have rs1: "length ?rs1 = 16" "?rs1 ! SP = p" using e(1) by (simp_all add: SP_def)
  obtain rs2 where rs2: "extend_stack_for_args (sum_list (map (\<lambda>a. reg_count (type_of a)) as)) ?rs1 = Some (p, rs2)"
    "length rs2 = 16" "\<forall>j. j \<noteq> SP \<longrightarrow> rs2 ! j = ?rs1 ! j" "unat (rs2 ! SP) = unat (?rs ! SP) - frame (RetMem sz) as"
  proof -
    have "?k \<le> unat (?rs1 ! SP)" unfolding rs1(2) up using room(1) fr by simp
    from extend_stack [OF rs1(1) this] show ?thesis using that rs1(2) up fr by auto
  qed
  have "unat (rs2 ! SP) < 2 ^ LENGTH(32)" by (rule unsigned_less)
  moreover have "4 * (1 + total_regs as - 4) \<le> frame (RetMem sz) as" using sz fr by simp
  ultimately have sr: "stack_room (guest_mem e) (unat (rs2 ! SP)) (1 + total_regs as)"
    using room(1) rs2(4) ordinary_sub [OF room(2)] by (simp add: stack_room_def)
  from arguments_written [OF rs2(2) sr e(2)] obtain rs3 m3 where
    w: "write_args as 1 (rs2, guest_mem e) = Some (1 + total_regs as, rs3, m3)"
    "words_written (words_of as) 1 (1 + total_regs as) rs2 (guest_mem e) rs3 m3"
    "read_args (map type_of as) 1 rs3 (unat (rs2 ! SP)) m3 = Some (as, 1 + total_regs as)" by auto
  have sp3: "rs3 ! SP = rs2 ! SP" using w(2) by (simp add: words_written_def SP_def)
  have r0: "rs3 ! 0 = p"
  proof -
    have "word_at 0 rs3 (unat (rs2 ! SP)) m3 = word_at 0 rs2 (unat (rs2 ! SP)) (guest_mem e)"
      using w(2) by (simp add: words_written_def)
    then show ?thesis using rs2(3) e(1) by (simp add: word_at_def SP_def)
  qed
  let ?e0 = "e\<lparr> cpu_regs := rs3, guest_mem := m3 \<rparr>"
  have "entered (RetMem sz) as e ?e0"
  proof -
    have "\<exists>g. m3 = (guest_mem e)\<lparr> mbytes := g \<rparr> \<and> (\<forall>x. x < unat (?rs ! SP) - frame (RetMem sz) as \<or> unat (?rs ! SP) \<le> x \<longrightarrow>
        g x = mbytes (guest_mem e) x)"
      using w(2) room(1) rs2(4) \<open>4 * (1 + total_regs as - 4) \<le> frame (RetMem sz) as\<close>
      by (auto simp: words_written_def stack_written_def)
    then show ?thesis using w(2) rs2 sp3 e(1) by (simp add: entered_def words_written_def SP_def)
  qed
  moreover have "call_host_function (RetMem sz) callee as e = do {
          e1 \<leftarrow> callee ?e0;
          bs \<leftarrow> mem_read sz (guest_mem e1) (unat p);
          Some (MemValue bs, e1\<lparr> cpu_regs := ((cpu_regs e1)[SP := p])[SP := (cpu_regs e1)[SP := p] ! SP + of_nat sz] \<rparr>) }" for callee
  proof -
    have "write_next_arg (ArgPtr p) 0 (?rs[SP := p], guest_mem e) = Some (1, ?rs1, guest_mem e)"
      by (simp add: write_next_arg_def)
    moreover have "?rs[SP := p] ! SP = p" using e(1) by (simp add: SP_def)
    ultimately show ?thesis using rs2(1) w(1) by (simp add: call_host_function_def size_in_mem_def p_def)
  qed
  moreover have "call_from_guest (RetMem sz) (map type_of as) f ?e0 = do {
          (r, e1) \<leftarrow> f as (ArgVaList (1 + total_regs as) (cpu_regs ?e0 ! SP)) ?e0;
          (case r of
             MemValue bs \<Rightarrow> do { m1 \<leftarrow> mem_write (guest_mem e1) (unat p) bs; Some (r, e1\<lparr> guest_mem := m1 \<rparr>) }
           | _ \<Rightarrow> Some (r, e1\<lparr> cpu_regs := ret_to_regs r (cpu_regs e1) \<rparr>)) }" for f
  proof -
    have "read_next_arg PtrTy 0 rs3 (unat (rs3 ! SP)) m3 = Some (ArgPtr p, 1)"
      using r0 by (simp add: read_next_arg_def)
    then show ?thesis using w(3) sp3
      by (auto simp: call_from_guest_def size_in_mem_def intro!: Option.bind_cong split: ret.split)
  qed
  ultimately show ?thesis by blast
qed

section \<open>The theorem\<close>

text \<open>The result itself changes memory only where it is returned in memory, and only in the \<open>sz\<close> bytes below the
  caller's stack pointer that are reserved for it.\<close>

definition result_written :: "ret_type \<Rightarrow> nat \<Rightarrow> mem \<Rightarrow> mem \<Rightarrow> bool" where
  "result_written rt sp m m' = (case size_in_mem rt of
       None \<Rightarrow> m' = m
     | Some sz \<Rightarrow> (\<exists>g. m' = m\<lparr> mbytes := g \<rparr> \<and> (\<forall>x. x < sp - sz \<or> sp \<le> x \<longrightarrow> g x = mbytes m x)))"

text \<open>C3: a host function that is called through the guest's conventions, with room for the frame on the stack,
  receives exactly the arguments that were passed, split over registers and stack where need be; the caller receives
  exactly the result, in registers or in memory; the stack pointer is restored; passing the arguments writes only the
  frame below it, and returning the result writes only the slot for the result in that frame.\<close>

theorem call_passes_arguments_and_result:
  fixes e :: "'a genv"
  assumes "length (cpu_regs e) = 16" "\<forall>a \<in> set as. passable a"
    "frame rt as \<le> unat (cpu_regs e ! SP)" "ordinary (guest_mem e) (unat (cpu_regs e ! SP) - frame rt as) (frame rt as)"
    "\<forall>sz. size_in_mem rt = Some sz \<longrightarrow> 4 \<le> sz"
  shows "\<exists>e0 n. entered rt as e e0 \<and> (\<forall>f.
     (f as (ArgVaList n (cpu_regs e0 ! SP)) e0 = None \<longrightarrow>
        call_host_function rt (\<lambda>s. map_option snd (call_from_guest rt (map type_of as) f s)) as e = None) \<and>
     (\<forall>r e1. f as (ArgVaList n (cpu_regs e0 ! SP)) e0 = Some (r, e1) \<and> ret_fits rt r \<and> length (cpu_regs e1) = 16
          \<and> null_segment_size (guest_mem e1) = null_segment_size (guest_mem e) \<longrightarrow>
        (\<exists>e2. call_host_function rt (\<lambda>s. map_option snd (call_from_guest rt (map type_of as) f s)) as e = Some (r, e2)
          \<and> cpu_regs e2 ! SP = cpu_regs e ! SP \<and> others e2 = others e1 \<and> cpsr e2 = cpsr e1
          \<and> result_written rt (unat (cpu_regs e ! SP)) (guest_mem e1) (guest_mem e2))))"
proof (cases "size_in_mem rt")
  case None
  from call_in_registers [OF assms(1,2) None assms(3,4)] obtain e0 where e0: "entered rt as e e0"
    and host: "\<And>callee. call_host_function rt callee as e = do {
          e1 \<leftarrow> callee e0;
          let rs4 = (cpu_regs e1)[SP := cpu_regs e ! SP];
          r \<leftarrow> ret_from_regs rt rs4;
          Some (r, e1\<lparr> cpu_regs := rs4 \<rparr>) }"
    and guest: "\<And>f :: 'a host_function. call_from_guest rt (map type_of as) f e0 = do {
          (r, e1) \<leftarrow> f as (ArgVaList (total_regs as) (cpu_regs e0 ! SP)) e0;
          Some (r, e1\<lparr> cpu_regs := ret_to_regs r (cpu_regs e1) \<rparr>) }" by blast
  have returned: "ret_from_regs rt ((ret_to_regs r rs)[SP := w]) = Some r \<and> length (ret_to_regs r rs) = 16"
    if r: "ret_fits rt r" "length rs = 16" for r rs w
  proof (cases rt)
    case RetUnit
    then show ?thesis using r by (cases r) simp_all
  next
    case (RetRegs ty)
    then obtain a where a: "r = RegsValue a" "arg_ok a" "type_of a = ty" "reg_count ty \<le> 4" using r(1) by (cases r) auto
    have l: "length (to_regs a) \<le> 4" using a to_regs_length by simp
    then have "(to_regs a @ drop (length (to_regs a)) rs)[SP := w] = to_regs a @ (drop (length (to_regs a)) rs)[SP - length (to_regs a) := w]"
      by (simp add: list_update_append SP_def)
    then show ?thesis using RetRegs a from_to_regs [OF a(2)] l r(2) by simp
  next
    case (RetMem n)
    then show ?thesis using None by (simp add: size_in_mem_def)
  qed
  show ?thesis
  proof (rule exI [of _ e0], rule exI [of _ "total_regs as"], intro conjI allI impI)
    show "entered rt as e e0" by (rule e0)
  next
    fix f :: "'a host_function" assume "f as (ArgVaList (total_regs as) (cpu_regs e0 ! SP)) e0 = None"
    then show "call_host_function rt (\<lambda>s. map_option snd (call_from_guest rt (map type_of as) f s)) as e = None"
      by (simp add: host guest)
  next
    fix f :: "'a host_function" and r e1
    assume f: "f as (ArgVaList (total_regs as) (cpu_regs e0 ! SP)) e0 = Some (r, e1) \<and> ret_fits rt r \<and> length (cpu_regs e1) = 16
        \<and> null_segment_size (guest_mem e1) = null_segment_size (guest_mem e)"
    from returned [of r "cpu_regs e1" "cpu_regs e ! SP"] f have b: "ret_from_regs rt ((ret_to_regs r (cpu_regs e1))[SP := cpu_regs e ! SP]) = Some r"
      "length (ret_to_regs r (cpu_regs e1)) = 16" by simp_all
    then show "\<exists>e2. call_host_function rt (\<lambda>s. map_option snd (call_from_guest rt (map type_of as) f s)) as e = Some (r, e2)
          \<and> cpu_regs e2 ! SP = cpu_regs e ! SP \<and> others e2 = others e1 \<and> cpsr e2 = cpsr e1
          \<and> result_written rt (unat (cpu_regs e ! SP)) (guest_mem e1) (guest_mem e2)"
      using f None by (simp add: host guest SP_def result_written_def)
  qed
next
  case (Some sz)
  then have rt: "rt = RetMem sz" by (cases rt) (simp_all add: size_in_mem_def)
  have sz: "4 \<le> sz" using assms(5) Some by simp
  define p where "p = cpu_regs e ! SP - of_nat sz"
  from call_in_memory [OF assms(1,2) sz] assms(3,4) rt obtain e0 where e0: "entered rt as e e0"
    and host: "\<And>callee. call_host_function rt callee as e = do {
          e1 \<leftarrow> callee e0;
          bs \<leftarrow> mem_read sz (guest_mem e1) (unat p);
          Some (MemValue bs, e1\<lparr> cpu_regs := ((cpu_regs e1)[SP := p])[SP := (cpu_regs e1)[SP := p] ! SP + of_nat sz] \<rparr>) }"
    and guest: "\<And>f :: 'a host_function. call_from_guest rt (map type_of as) f e0 = do {
          (r, e1) \<leftarrow> f as (ArgVaList (1 + total_regs as) (cpu_regs e0 ! SP)) e0;
          (case r of
             MemValue bs \<Rightarrow> do { m1 \<leftarrow> mem_write (guest_mem e1) (unat p) bs; Some (r, e1\<lparr> guest_mem := m1 \<rparr>) }
           | _ \<Rightarrow> Some (r, e1\<lparr> cpu_regs := ret_to_regs r (cpu_regs e1) \<rparr>)) }"
    unfolding p_def by blast
  have "unat (cpu_regs e ! SP) < 2 ^ LENGTH(32)" by (rule unsigned_less)
  then have sz32: "sz < 4294967296" using assms(3) Some by (simp add: frame_def)
  have le: "sz \<le> unat (cpu_regs e ! SP)" using assms(3) Some by (simp add: frame_def)
  then have up: "unat p = unat (cpu_regs e ! SP) - sz"
    unfolding p_def using sz32 by (subst unat_sub) (simp_all add: word_le_nat_alt unat_of_nat)
  have "ordinary (guest_mem e) (unat p) sz"
    using ordinary_sub [OF assms(4), of "unat p" sz] assms(3) Some up by (simp add: frame_def)
  then have o: "ordinary m (unat p) sz" if "null_segment_size m = null_segment_size (guest_mem e)" for m
    using that by (simp add: ordinary_def)
  show ?thesis
  proof (rule exI [of _ e0], rule exI [of _ "1 + total_regs as"], intro conjI allI impI)
    show "entered rt as e e0" by (rule e0)
  next
    fix f :: "'a host_function" assume "f as (ArgVaList (1 + total_regs as) (cpu_regs e0 ! SP)) e0 = None"
    then show "call_host_function rt (\<lambda>s. map_option snd (call_from_guest rt (map type_of as) f s)) as e = None"
      by (simp add: host guest)
  next
    fix f :: "'a host_function" and r e1
    assume f: "f as (ArgVaList (1 + total_regs as) (cpu_regs e0 ! SP)) e0 = Some (r, e1) \<and> ret_fits rt r \<and> length (cpu_regs e1) = 16
        \<and> null_segment_size (guest_mem e1) = null_segment_size (guest_mem e)"
    then obtain bs where bs: "r = MemValue bs" "length bs = sz" using rt by (cases r) simp_all
    have ob: "ordinary (guest_mem e1) (unat p) (length bs)" using o f bs(2) by simp
    have ne: "bs \<noteq> []" using bs(2) sz by auto
    let ?m = "(guest_mem e1)\<lparr> mbytes := put_bytes (unat p) bs (mbytes (guest_mem e1)) \<rparr>"
    have "mem_write (guest_mem e1) (unat p) bs = Some ?m" by (rule write_ordinary [OF ob ne])
    moreover have "mem_read sz ?m (unat p) = Some bs"
      using read_prefix [OF ob, of sz] bs(2) sz32 by simp
    moreover have written: "result_written rt (unat (cpu_regs e ! SP)) (guest_mem e1) ?m"
      unfolding result_written_def Some option.case
      by (intro exI [of _ "put_bytes (unat p) bs (mbytes (guest_mem e1))"]) (use up le bs(2) in \<open>auto simp: put_bytes_def\<close>)
    ultimately show "\<exists>e2. call_host_function rt (\<lambda>s. map_option snd (call_from_guest rt (map type_of as) f s)) as e = Some (r, e2)
          \<and> cpu_regs e2 ! SP = cpu_regs e ! SP \<and> others e2 = others e1 \<and> cpsr e2 = cpsr e1
          \<and> result_written rt (unat (cpu_regs e ! SP)) (guest_mem e1) (guest_mem e2)"
      using f bs(1) Some written [unfolded SP_def p_def] by (simp add: host guest SP_def p_def)
  qed
qed

lemma call_passes_arguments_and_result_witness:
  "\<exists>(e :: unit genv) e2. call_host_function (RetRegs I16Ty)
      (\<lambda>s. map_option snd (call_from_guest (RetRegs I16Ty) [U64Ty, U64Ty, I16Ty] (\<lambda>as va s. Some (RegsValue (as ! 2), s)) s))
      [ArgU64 7, ArgU64 8, ArgI16 (- 1)] e = Some (RegsValue (ArgI16 (- 1)), e2) \<and> cpu_regs e2 ! SP = cpu_regs e ! SP"
proof -
  obtain m where m: "mem_boot 4096 = Some m" "null_segment_size m = 4096" using mem_boot_spec [of 4096] by auto
  let ?e = "\<lparr> cpu_regs = (replicate 16 0)[13 := 65536], cpsr = 0, guest_mem = m, others = () \<rparr> :: unit genv"
  let ?as = "[ArgU64 7, ArgU64 8, ArgI16 (- 1)]" and ?rt = "RetRegs I16Ty"
  let ?f = "(\<lambda>as va s. Some (RegsValue (as ! 2), s)) :: unit host_function"
  have fr: "frame ?rt ?as = 4" by (simp add: frame_def size_in_mem_def total_regs_def)
  have o: "ordinary m 65532 4" using m(2) by (simp add: ordinary_def)
  have "\<exists>e0 n. entered ?rt ?as ?e e0 \<and> (\<forall>f.
     (f ?as (ArgVaList n (cpu_regs e0 ! SP)) e0 = None \<longrightarrow>
        call_host_function ?rt (\<lambda>s. map_option snd (call_from_guest ?rt (map type_of ?as) f s)) ?as ?e = None) \<and>
     (\<forall>r e1. f ?as (ArgVaList n (cpu_regs e0 ! SP)) e0 = Some (r, e1) \<and> ret_fits ?rt r \<and> length (cpu_regs e1) = 16
          \<and> null_segment_size (guest_mem e1) = null_segment_size (guest_mem ?e) \<longrightarrow>
        (\<exists>e2. call_host_function ?rt (\<lambda>s. map_option snd (call_from_guest ?rt (map type_of ?as) f s)) ?as ?e = Some (r, e2)
          \<and> cpu_regs e2 ! SP = cpu_regs ?e ! SP \<and> others e2 = others e1 \<and> cpsr e2 = cpsr e1
          \<and> result_written ?rt (unat (cpu_regs ?e ! SP)) (guest_mem e1) (guest_mem e2))))"
    by (rule call_passes_arguments_and_result) (simp_all add: fr o passable_def size_in_mem_def SP_def)
  then obtain e0 n where e0: "entered ?rt ?as ?e e0" and f: "\<forall>f.
     (f ?as (ArgVaList n (cpu_regs e0 ! SP)) e0 = None \<longrightarrow>
        call_host_function ?rt (\<lambda>s. map_option snd (call_from_guest ?rt (map type_of ?as) f s)) ?as ?e = None) \<and>
     (\<forall>r e1. f ?as (ArgVaList n (cpu_regs e0 ! SP)) e0 = Some (r, e1) \<and> ret_fits ?rt r \<and> length (cpu_regs e1) = 16
          \<and> null_segment_size (guest_mem e1) = null_segment_size (guest_mem ?e) \<longrightarrow>
        (\<exists>e2. call_host_function ?rt (\<lambda>s. map_option snd (call_from_guest ?rt (map type_of ?as) f s)) ?as ?e = Some (r, e2)
          \<and> cpu_regs e2 ! SP = cpu_regs ?e ! SP \<and> others e2 = others e1 \<and> cpsr e2 = cpsr e1
          \<and> result_written ?rt (unat (cpu_regs ?e ! SP)) (guest_mem e1) (guest_mem e2)))" by blast
  have "?f ?as (ArgVaList n (cpu_regs e0 ! SP)) e0 = Some (RegsValue (ArgI16 (- 1)), e0) \<and> ret_fits ?rt (RegsValue (ArgI16 (- 1)))
      \<and> length (cpu_regs e0) = 16 \<and> null_segment_size (guest_mem e0) = null_segment_size (guest_mem ?e)"
    using e0 by (auto simp: entered_def)
  with spec [OF f, of ?f] obtain e2 where
    "call_host_function ?rt (\<lambda>s. map_option snd (call_from_guest ?rt (map type_of ?as) ?f s)) ?as ?e = Some (RegsValue (ArgI16 (- 1)), e2)"
    "cpu_regs e2 ! SP = cpu_regs ?e ! SP" by blast
  then show ?thesis by (intro exI [of _ ?e] exI [of _ e2]) simp
qed

section \<open>Guest functions\<close>

lemma return_address:
  assumes "\<not> bit pc 0"
  shows "addr_without_thumb_bit (from_addr_and_thumb_flag pc t) = pc" "is_thumb (from_addr_and_thumb_flag pc t) = t"
proof -
  show "addr_without_thumb_bit (from_addr_and_thumb_flag pc t) = pc"
    unfolding addr_without_thumb_bit_def from_addr_and_thumb_flag_def THUMB_BIT_def
    using assms by (intro bit_word_eqI) (auto simp: bit_simps intro: gr0I)
  have "is_thumb f = bit f 0" for f
    by (simp add: is_thumb_def THUMB_BIT_def and_one_eq mod_2_eq_odd bit_0)
  then show "is_thumb (from_addr_and_thumb_flag pc t) = t"
    using assms by (simp add: from_addr_and_thumb_flag_def THUMB_BIT_def bit_simps)
qed

text \<open>What a guest function finds: its return address, a stack frame that links to the caller's, and its
  arguments.\<close>

definition guest_entry :: "u32 \<Rightarrow> u32 \<Rightarrow> arg list \<Rightarrow> 's genv \<Rightarrow> 's genv \<Rightarrow> bool" where
  "guest_entry return_to_host fn as e e0 =
     (cpu_regs e0 ! PC = addr_without_thumb_bit fn \<and> cpu_regs e0 ! LR = return_to_host
      \<and> read_u32 (guest_mem e0) (unat (cpu_regs e0 ! FRAME_POINTER)) = Some (unat (cpu_regs e ! FRAME_POINTER))
      \<and> read_u32 (guest_mem e0) (unat (cpu_regs e0 ! FRAME_POINTER) + 4) = Some (unat (cpu_regs e ! LR))
      \<and> read_args (map type_of as) 0 (cpu_regs e0) (unat (cpu_regs e0 ! SP)) (guest_mem e0) = Some (as, total_regs as))"

text \<open>The registers a call gives back.\<close>

definition given_back :: "'s genv \<Rightarrow> 's genv \<Rightarrow> bool" where
  "given_back e e3 = (cpu_regs e3 ! SP = cpu_regs e ! SP \<and> cpu_regs e3 ! LR = cpu_regs e ! LR
     \<and> cpu_regs e3 ! PC = cpu_regs e ! PC \<and> cpu_regs e3 ! FRAME_POINTER = cpu_regs e ! FRAME_POINTER
     \<and> pc_with_thumb_bit e3 = pc_with_thumb_bit e)"

lemma thumb_restored: "((c AND NOT CPSR_THUMB) OR (of_bool t * CPSR_THUMB)) AND CPSR_THUMB = CPSR_THUMB \<longleftrightarrow> t"
proof -
  have n: "(32 :: u32) = 2 ^ 5" by simp
  have z: "(32 :: u32) \<noteq> 0" by simp
  have "((c AND NOT 32) OR (of_bool t * 32)) AND 32 = (of_bool t * 32 :: u32)"
    by (cases t) (auto simp: bit_eq_iff bit_simps n simp del: power_numeral)
  then show ?thesis using z by (cases t) (simp_all add: CPSR_THUMB_def)
qed

lemma guest_frame:
  assumes "ordinary m p 8" "v < 4294967296" "w < 4294967296"
  shows "\<exists>m1 m2. write_u32 m p v = Some m1 \<and> write_u32 m1 (p + 4) w = Some m2
    \<and> (\<exists>g. m2 = m\<lparr> mbytes := g \<rparr>) \<and> read_u32 m2 p = Some v \<and> read_u32 m2 (p + 4) = Some w"
proof -
  have o: "ordinary m p 4" "ordinary m (p + 4) 4" using assms(1) by (simp_all add: ordinary_def)
  from word_write [OF o(1) assms(2)] obtain m1 where m1: "write_u32 m p v = Some m1"
    "m1 = m\<lparr> mbytes := put_bytes p (to_le_bytes 4 v) (mbytes m) \<rparr>" "read_u32 m1 p = Some v" by blast
  have o1: "ordinary m1 p 4" "ordinary m1 (p + 4) 4" using o m1(2) by simp_all
  from word_write [OF o1(2) assms(3)] obtain m2 where m2: "write_u32 m1 (p + 4) w = Some m2"
    "m2 = m1\<lparr> mbytes := put_bytes (p + 4) (to_le_bytes 4 w) (mbytes m1) \<rparr>" "read_u32 m2 (p + 4) = Some w"
    "\<forall>q. ordinary m1 q 4 \<and> ranges_apart q 4 (p + 4) 4 \<longrightarrow> read_u32 m2 q = read_u32 m1 q" by blast
  have "read_u32 m2 p = Some v" using m2(4) o1(1) m1(3) by (simp add: ranges_apart_def)
  then show ?thesis using m1 m2 by auto
qed

lemma branch_back:
  assumes "length (cpu_regs e2) = 16" "\<not> bit (cpu_regs e ! PC) 0"
  shows "given_back e ((branch (pc_with_thumb_bit e) e2)\<lparr> cpu_regs := (cpu_regs (branch (pc_with_thumb_bit e) e2))
     [LR := cpu_regs e ! LR, SP := cpu_regs e ! SP, FRAME_POINTER := cpu_regs e ! FRAME_POINTER] \<rparr>)"
  using assms return_address [OF assms(2), of "cpsr e AND CPSR_THUMB = CPSR_THUMB"]
    thumb_restored [of "cpsr e2" "cpsr e AND CPSR_THUMB = CPSR_THUMB"]
  by (simp add: given_back_def branch_def pc_with_thumb_bit_def LR_def SP_def PC_def FRAME_POINTER_def)

text \<open>C31: a guest function that the host calls finds its arguments, a return address and a linked stack
  frame; when it returns, the program counter with its instruction set, the link register, the stack
  pointer and the frame pointer are those of before the call, whatever the guest did to them.\<close>

theorem guest_call_restores:
  fixes e :: "'s genv"
  assumes "length (cpu_regs e) = 16" "\<forall>a \<in> set as. passable a" "size_in_mem rt = None" "\<not> bit (cpu_regs e ! PC) 0"
    "8 + 4 * (total_regs as - 4) \<le> unat (cpu_regs e ! SP)"
    "ordinary (guest_mem e) (unat (cpu_regs e ! SP) - (8 + 4 * (total_regs as - 4))) (8 + 4 * (total_regs as - 4))"
  shows "\<exists>e0. guest_entry return_to_host fn as e e0 \<and> others e0 = others e \<and> (\<forall>run.
    (run e0 = None \<longrightarrow> call_guest_function run return_to_host fn rt as e = None) \<and>
    (\<forall>e2. run e0 = Some e2 \<and> length (cpu_regs e2) = 16 \<longrightarrow>
       (\<exists>r e3. call_guest_function run return_to_host fn rt as e = Some (r, e3) \<and> given_back e e3
          \<and> guest_mem e3 = guest_mem e2 \<and> others e3 = others e2 \<and> ret_from_regs rt (cpu_regs e3) = Some r)))"
proof -
  let ?rs = "cpu_regs e" and ?m = "guest_mem e" and ?k = "4 * (total_regs as - 4)"
  let ?sp = "?rs ! SP - 8"
  let ?rs2 = "?rs[PC := addr_without_thumb_bit fn, LR := return_to_host, SP := ?sp, FRAME_POINTER := ?sp]"
  have u8: "unat (8 :: u32) = 8" by simp
  have usp: "unat ?sp = unat (?rs ! SP) - 8"
    using assms(5) by (subst unat_sub) (simp_all add: word_le_nat_alt u8)
  have "unat (?rs ! SP) < 2 ^ LENGTH(32)" by (rule unsigned_less)
  then have usp4: "unat (?sp + 4) = unat ?sp + 4"
    using assms(5) usp by (subst unat_word_ariths) simp
  have o8: "ordinary ?m (unat ?sp) 8" using ordinary_sub [OF assms(6), of "unat ?sp" 8] usp assms(5) by simp
  have b: "unat (?rs ! FRAME_POINTER) < 4294967296" "unat (?rs ! LR) < 4294967296"
  proof -
    have "unat w < 2 ^ LENGTH(32)" for w :: u32 by (rule unsigned_less)
    then show "unat (?rs ! FRAME_POINTER) < 4294967296" "unat (?rs ! LR) < 4294967296" by simp_all
  qed
  from guest_frame [OF o8 b] obtain m1 m2 g where fr: "write_u32 ?m (unat ?sp) (unat (?rs ! FRAME_POINTER)) = Some m1"
    "write_u32 m1 (unat ?sp + 4) (unat (?rs ! LR)) = Some m2" "m2 = ?m\<lparr> mbytes := g \<rparr>"
    "read_u32 m2 (unat ?sp) = Some (unat (?rs ! FRAME_POINTER))" "read_u32 m2 (unat ?sp + 4) = Some (unat (?rs ! LR))" by blast
  have rs2: "length ?rs2 = 16" "?rs2 ! SP = ?sp" "?rs2 ! FRAME_POINTER = ?sp" "?rs2 ! LR = return_to_host"
    "?rs2 ! PC = addr_without_thumb_bit fn"
    using assms(1) by (simp_all add: SP_def FRAME_POINTER_def LR_def PC_def)
  have k: "?k \<le> unat (?rs2 ! SP)" unfolding rs2(2) usp using assms(5) by simp
  from extend_stack [OF rs2(1) k] rs2(2) obtain rs3 where
    ext: "extend_stack_for_args (sum_list (map (\<lambda>a. reg_count (type_of a)) as)) ?rs2 = Some (?sp, rs3)"
    and rs3: "length rs3 = 16" "\<forall>j. j \<noteq> SP \<longrightarrow> rs3 ! j = ?rs2 ! j" "unat (rs3 ! SP) = unat ?sp - ?k" by auto
  have "unat (rs3 ! SP) < 2 ^ LENGTH(32)" by (rule unsigned_less)
  then have sr: "stack_room m2 (unat (rs3 ! SP)) (0 + total_regs as)"
    using ordinary_sub [OF assms(6), of "unat (rs3 ! SP)" ?k] rs3(3) usp assms(5) fr(3) by (simp add: stack_room_def)
  from arguments_written [OF rs3(1) sr assms(2)] obtain rs4 m4 where
    w: "write_args as 0 (rs3, m2) = Some (total_regs as, rs4, m4)"
    "words_written (words_of as) 0 (total_regs as) rs3 m2 rs4 m4"
    "read_args (map type_of as) 0 rs4 (unat (rs3 ! SP)) m4 = Some (as, total_regs as)" by auto
  let ?e0 = "e\<lparr> cpsr := cpsr (branch fn e), cpu_regs := rs4, guest_mem := m4 \<rparr>"
  have rs4: "rs4 ! SP = rs3 ! SP" "rs4 ! FRAME_POINTER = ?sp" "rs4 ! LR = return_to_host" "rs4 ! PC = addr_without_thumb_bit fn"
    using w(2) rs3(2) rs2 by (simp_all add: words_written_def SP_def FRAME_POINTER_def LR_def PC_def)
  have kept: "read_u32 m4 q = read_u32 m2 q" if q: "unat ?sp \<le> q" "q + 4 \<le> unat (?rs ! SP)" for q
  proof -
    have o: "ordinary m2 q 4" using ordinary_sub [OF assms(6), of q 4] q usp assms(5) fr(3) by simp
    obtain h where h: "m4 = m2\<lparr> mbytes := h \<rparr>" "\<forall>x. x < unat (rs3 ! SP) \<or> unat (rs3 ! SP) + ?k \<le> x \<longrightarrow> h x = mbytes m2 x"
      using w(2) unfolding words_written_def stack_written_def by blast
    have "mem_read 4 m4 q = mem_read 4 m2 q"
      using read_ordinary [OF o] read_ordinary [of m4 q 4] o h q rs3(3) k rs2(2) by simp
    then show ?thesis by (simp add: read_u32_def)
  qed
  have entry: "guest_entry return_to_host fn as e ?e0"
    using w(3) rs4 fr(4,5) kept [of "unat ?sp"] kept [of "unat ?sp + 4"] usp assms(5) by (simp add: guest_entry_def)
  let ?done = "\<lambda>e2. (branch (pc_with_thumb_bit e) e2)\<lparr> cpu_regs := (cpu_regs (branch (pc_with_thumb_bit e) e2))
     [LR := ?rs ! LR, SP := ?rs ! SP, FRAME_POINTER := ?rs ! FRAME_POINTER] \<rparr>"
  have call: "call_guest_function run return_to_host fn rt as e = do {
      e2 \<leftarrow> run ?e0; r \<leftarrow> ret_from_regs rt (cpu_regs (?done e2)); Some (r, ?done e2) }" for run
  proof -
    have regs: "(?rs[PC := addr_without_thumb_bit fn, LR := return_to_host]) ! SP = ?rs ! SP"
      "(?rs[PC := addr_without_thumb_bit fn, LR := return_to_host, SP := ?sp]) ! SP = ?sp"
      "(?rs[PC := addr_without_thumb_bit fn, LR := return_to_host]) ! FRAME_POINTER = ?rs ! FRAME_POINTER"
      using assms(1) by (simp_all add: SP_def FRAME_POINTER_def LR_def PC_def)
    have "?sp + 4 = ?rs ! SP - 4" by simp
    then have u4: "unat (?rs ! SP - 4) = unat ?sp + 4" using usp4 by (simp only:)
    show ?thesis
      using fr(1,2) ext w(1) assms(3) rs2(2)
      by (simp add: call_guest_function_def branch_with_link_def branch_def regs u4 Let_def del: list_update_overwrite)
  qed
  have back_in: "\<exists>r. ret_from_regs rt rs = Some r" for rs using assms(3) by (cases rt) (simp_all add: size_in_mem_def)
  show ?thesis
  proof (rule exI [of _ ?e0], intro conjI allI impI)
    show "guest_entry return_to_host fn as e ?e0" by (rule entry)
    show "others ?e0 = others e" by simp
  next
    fix run :: "'s genv \<Rightarrow> 's genv option" assume "run ?e0 = None"
    then show "call_guest_function run return_to_host fn rt as e = None" by (simp only: call Option.bind.simps)
  next
    fix run :: "'s genv \<Rightarrow> 's genv option" and e2 assume run: "run ?e0 = Some e2 \<and> length (cpu_regs e2) = 16"
    obtain r where r: "ret_from_regs rt (cpu_regs (?done e2)) = Some r" using back_in by blast
    have "call_guest_function run return_to_host fn rt as e = Some (r, ?done e2)"
      using run r by (simp only: call Option.bind.simps)
    moreover have "given_back e (?done e2)" using branch_back [OF _ assms(4)] run by blast
    moreover have "guest_mem (?done e2) = guest_mem e2" "others (?done e2) = others e2" by (simp_all add: branch_def)
    ultimately show "\<exists>r e3. call_guest_function run return_to_host fn rt as e = Some (r, e3) \<and> given_back e e3
          \<and> guest_mem e3 = guest_mem e2 \<and> others e3 = others e2 \<and> ret_from_regs rt (cpu_regs e3) = Some r"
      using r by blast
  qed
qed

text \<open>A guest that leaves every register at 7.\<close>

lemma guest_call_restores_witness:
  "\<exists>(e :: unit genv) r e3. call_guest_function (\<lambda>s. Some (s\<lparr> cpu_regs := replicate 16 7 \<rparr>)) 256 4097 (RetRegs U32Ty)
      [ArgU32 1, ArgU64 2, ArgU64 3] e = Some (r, e3) \<and> cpu_regs e3 ! SP = 65536 \<and> cpu_regs e3 ! PC = 32768"
proof -
  obtain m where m: "mem_boot 4096 = Some m" "null_segment_size m = 4096" using mem_boot_spec [of 4096] by auto
  let ?e = "\<lparr> cpu_regs = (replicate 16 0)[13 := 65536, 15 := 32768], cpsr = 0, guest_mem = m, others = () \<rparr> :: unit genv"
  let ?as = "[ArgU32 1, ArgU64 2, ArgU64 3]" and ?rt = "RetRegs U32Ty"
  let ?run = "\<lambda>s. Some (s\<lparr> cpu_regs := replicate 16 7 \<rparr>) :: unit genv option"
  have n: "total_regs ?as = 5" by (simp add: total_regs_def)
  have o: "ordinary m 65524 12" using m(2) by (simp add: ordinary_def)
  have "\<exists>e0. guest_entry 256 4097 ?as ?e e0 \<and> others e0 = others ?e \<and> (\<forall>run.
    (run e0 = None \<longrightarrow> call_guest_function run 256 4097 ?rt ?as ?e = None) \<and>
    (\<forall>e2. run e0 = Some e2 \<and> length (cpu_regs e2) = 16 \<longrightarrow>
       (\<exists>r e3. call_guest_function run 256 4097 ?rt ?as ?e = Some (r, e3) \<and> given_back ?e e3
          \<and> guest_mem e3 = guest_mem e2 \<and> others e3 = others e2 \<and> ret_from_regs ?rt (cpu_regs e3) = Some r)))"
    by (rule guest_call_restores) (use o in \<open>simp_all add: n passable_def size_in_mem_def SP_def PC_def bit_0\<close>)
  then obtain e0 where f: "\<forall>run.
    (run e0 = None \<longrightarrow> call_guest_function run 256 4097 ?rt ?as ?e = None) \<and>
    (\<forall>e2. run e0 = Some e2 \<and> length (cpu_regs e2) = 16 \<longrightarrow>
       (\<exists>r e3. call_guest_function run 256 4097 ?rt ?as ?e = Some (r, e3) \<and> given_back ?e e3
          \<and> guest_mem e3 = guest_mem e2 \<and> others e3 = others e2 \<and> ret_from_regs ?rt (cpu_regs e3) = Some r))" by blast
  have "?run e0 = Some (e0\<lparr> cpu_regs := replicate 16 7 \<rparr>) \<and> length (cpu_regs (e0\<lparr> cpu_regs := replicate 16 7 \<rparr>)) = 16" by simp
  with spec [OF f, of ?run] obtain r e3 where "call_guest_function ?run 256 4097 ?rt ?as ?e = Some (r, e3)" "given_back ?e e3" by blast
  then show ?thesis by (intro exI [of _ ?e] exI [of _ r] exI [of _ e3]) (simp add: given_back_def SP_def PC_def)
qed

end
