(* ===== verification/ObjC_Classes.thy ===== *)
theory ObjC_Classes
  imports Guest_Values
begin

text \<open>
  The Objective-C class table (\<open>src/objc/classes.rs\<close>, \<open>src/objc/methods.rs\<close>): methods and their lookup
  along the superclasses, the handles and function pointers the guest sees for them, exchanging
  implementations, the loop of \<open>objc_msgSend\<close> (\<open>src/objc/messages.rs\<close>) that finds the method, and the
  order in which classes are initialised.  A hierarchy may contain a cycle, so the loops over the
  superclasses are partial.
\<close>

section \<open>Classes\<close>

text \<open>A method is implemented by a host function, here a number, or by guest code at an address.\<close>

datatype imp = HostImp nat | GuestImp nat

record class_data =
  class_name :: "u8 list"
  is_metaclass :: bool
  superclass :: nat
  methods :: "nat \<Rightarrow> imp option"
  guest_method_signatures :: "nat \<Rightarrow> nat option"
  ivars :: "(u8 list \<times> nat \<times> nat) list"
  instance_start :: nat
  instance_size :: nat

definition default_class :: class_data where
  "default_class = \<lparr> class_name = [], is_metaclass = False, superclass = 0, methods = (\<lambda>_. None),
     guest_method_signatures = (\<lambda>_. None), ivars = [], instance_start = 0, instance_size = 0 \<rparr>"

text \<open>The host objects of classes, placeholders, and of objects that are no class.\<close>

datatype class_object =
    ClassHost class_data
  | UnimplementedClass "u8 list" bool
  | FakeClass "u8 list" bool
  | OtherObject

text \<open>
  The runtime state.  The handles are an association list because decoding one looks through the values.
\<close>

record class_state =
  class_table :: "nat \<Rightarrow> class_object option"
  phantom_classes :: "nat \<Rightarrow> class_data option"
  method_handles :: "((nat \<times> nat) \<times> nat) list"
  imp_tokens :: "nat \<Rightarrow> imp option"
  host_imp_tokens :: "nat \<times> nat \<Rightarrow> nat option"
  initialized_classes :: "nat set"

definition class_at :: "class_state \<Rightarrow> nat \<Rightarrow> class_data option" where
  "class_at st c = (if c = 0 then None
     else case class_table st c of Some (ClassHost d) \<Rightarrow> Some d | _ \<Rightarrow> None)"

text \<open>\<open>borrow::<ClassHostObject>\<close>: a class that does not exist is an empty phantom.\<close>

definition borrow_class :: "class_state \<Rightarrow> nat \<Rightarrow> class_data" where
  "borrow_class st c =
     (case class_table st c of
        Some (ClassHost d) \<Rightarrow> d
      | _ \<Rightarrow> (case phantom_classes st c of Some d \<Rightarrow> d | None \<Rightarrow> default_class))"

definition borrow_class_mut :: "nat \<Rightarrow> (class_data \<Rightarrow> class_data) \<Rightarrow> class_state \<Rightarrow> class_state" where
  "borrow_class_mut c f st =
     (case class_table st c of
        Some (ClassHost d) \<Rightarrow> st\<lparr> class_table := (class_table st)(c \<mapsto> ClassHost (f d)) \<rparr>
      | _ \<Rightarrow> st\<lparr> phantom_classes := (phantom_classes st)(c \<mapsto> f (borrow_class st c)) \<rparr>)"

definition get_superclass :: "class_state \<Rightarrow> nat \<Rightarrow> nat" where
  "get_superclass st c = superclass (borrow_class st c)"

definition try_get_class_name :: "class_state \<Rightarrow> nat \<Rightarrow> u8 list option" where
  "try_get_class_name st c =
     (if c = 0 then None
      else case class_table st c of
        Some (ClassHost d) \<Rightarrow> Some (class_name d)
      | Some (UnimplementedClass name _) \<Rightarrow> Some name
      | Some (FakeClass name _) \<Rightarrow> Some name
      | _ \<Rightarrow> None)"

definition is_unimplemented_class :: "class_state \<Rightarrow> nat \<Rightarrow> bool" where
  "is_unimplemented_class st c \<longleftrightarrow> c \<noteq> 0 \<and>
     (case class_table st c of Some (UnimplementedClass _ _) \<Rightarrow> True | _ \<Rightarrow> False)"

definition is_fake_class :: "class_state \<Rightarrow> nat \<Rightarrow> bool" where
  "is_fake_class st c \<longleftrightarrow> c \<noteq> 0 \<and> (case class_table st c of Some (FakeClass _ _) \<Rightarrow> True | _ \<Rightarrow> False)"

definition class_getSuperclass :: "class_state \<Rightarrow> nat \<Rightarrow> nat" where
  "class_getSuperclass st c = (if c = 0 then 0 else get_superclass st c)"

definition class_setSuperclass :: "nat \<Rightarrow> nat \<Rightarrow> class_state \<Rightarrow> nat \<times> class_state" where
  "class_setSuperclass c new_super st =
     (if c = 0 then (0, st)
      else (get_superclass st c, borrow_class_mut c (\<lambda>d. d\<lparr> superclass := new_super \<rparr>) st))"

section \<open>Looking up along the superclasses\<close>

partial_function (option) class_has_method :: "class_state \<Rightarrow> nat \<Rightarrow> nat \<Rightarrow> bool option" where
  "class_has_method st c sel =
     (if methods (borrow_class st c) sel \<noteq> None then Some True
      else if superclass (borrow_class st c) = 0 then Some False
      else class_has_method st (superclass (borrow_class st c)) sel)"

definition class_has_uninherited_method :: "class_state \<Rightarrow> nat \<Rightarrow> nat \<Rightarrow> bool" where
  "class_has_uninherited_method st c sel \<longleftrightarrow> methods (borrow_class st c) sel \<noteq> None"

partial_function (option) class_get_method_signature :: "class_state \<Rightarrow> nat \<Rightarrow> nat \<Rightarrow> nat option option" where
  "class_get_method_signature st c sel =
     (if methods (borrow_class st c) sel \<noteq> None then Some (guest_method_signatures (borrow_class st c) sel)
      else if superclass (borrow_class st c) = 0 then Some None
      else class_get_method_signature st (superclass (borrow_class st c)) sel)"

partial_function (option) subclass_loop :: "class_state \<Rightarrow> nat \<Rightarrow> nat \<Rightarrow> bool option" where
  "subclass_loop st c target =
     (let next_class = superclass (borrow_class st c)
      in if next_class = 0 then Some False
         else if next_class = target then Some True
         else subclass_loop st next_class target)"

definition class_is_subclass_of :: "class_state \<Rightarrow> nat \<Rightarrow> nat \<Rightarrow> bool option" where
  "class_is_subclass_of st c target = (if c = target then Some True else subclass_loop st c target)"

partial_function (option) class_overrides_method_of_superclass ::
    "class_state \<Rightarrow> nat \<Rightarrow> nat \<Rightarrow> nat \<Rightarrow> bool option" where
  "class_overrides_method_of_superclass st c sel target =
     (if c = target then Some False
      else if methods (borrow_class st c) sel \<noteq> None then Some True
      else if superclass (borrow_class st c) = 0 then Some False
      else class_overrides_method_of_superclass st (superclass (borrow_class st c)) sel target)"

definition object_has_method :: "class_state \<Rightarrow> mem \<Rightarrow> nat \<Rightarrow> nat \<Rightarrow> bool option" where
  "object_has_method st m obj sel = do {
     isa \<leftarrow> (if obj = 0 then Some 0 else read_u32 m obj);
     class_has_method st isa sel }"

definition object_has_uninherited_method :: "class_state \<Rightarrow> mem \<Rightarrow> nat \<Rightarrow> nat \<Rightarrow> bool option" where
  "object_has_uninherited_method st m obj sel = do {
     isa \<leftarrow> (if obj = 0 then Some 0 else read_u32 m obj);
     Some (class_has_uninherited_method st isa sel) }"

text \<open>The method an object's own class and its superclasses define, without phantoms.\<close>

definition defines_method :: "class_state \<Rightarrow> nat \<Rightarrow> nat \<Rightarrow> bool" where
  "defines_method st c sel \<longleftrightarrow> (case class_at st c of None \<Rightarrow> False | Some d \<Rightarrow> methods d sel \<noteq> None)"

partial_function (option) find_defining_class :: "class_state \<Rightarrow> nat \<Rightarrow> nat \<Rightarrow> nat option" where
  "find_defining_class st c sel =
     (if c = 0 then Some 0
      else if defines_method st c sel then Some c
      else let next_class = get_superclass st c
           in if next_class = c then Some 0 else find_defining_class st next_class sel)"

partial_function (option) responds_loop :: "class_state \<Rightarrow> nat \<Rightarrow> nat \<Rightarrow> bool option" where
  "responds_loop st c sel =
     (if c = 0 then Some False
      else if defines_method st c sel then Some True
      else let next_class = get_superclass st c
           in if next_class = c then Some False else responds_loop st next_class sel)"

definition class_respondsToSelector :: "class_state \<Rightarrow> nat \<Rightarrow> nat \<Rightarrow> bool option" where
  "class_respondsToSelector st c sel = (if c = 0 \<or> sel = 0 then Some False else responds_loop st c sel)"

text \<open>
  Three functions answer the class itself: two of them under names that promise something else.
\<close>

definition class_getInstanceSize :: "class_state \<Rightarrow> nat \<Rightarrow> nat \<Rightarrow> nat option" where
  "class_getInstanceSize st c sel = (if c = 0 then Some 0 else find_defining_class st c sel)"

definition objc_getMetaClass :: "class_state \<Rightarrow> nat \<Rightarrow> nat \<Rightarrow> nat option" where
  "objc_getMetaClass st c sel = (if c = 0 then Some 0 else find_defining_class st c sel)"

definition class_getClassMethod :: "class_state \<Rightarrow> mem \<Rightarrow> nat \<Rightarrow> nat \<Rightarrow> nat option" where
  "class_getClassMethod st m c sel =
     (if c = 0 then Some 0 else do { metaclass \<leftarrow> read_u32 m c; find_defining_class st metaclass sel })"

text \<open>What the loop of \<open>objc_msgSend\<close> finds.\<close>

datatype dispatch = Found imp | DoesNotRespond | NoHostObject | UnimplementedReceiver | FakeReceiver | NotAClass

text \<open>\<open>super\<close>: the search of a call to \<open>super\<close> begins behind the class it starts from.\<close>

partial_function (option) msgSend_loop :: "class_state \<Rightarrow> bool \<Rightarrow> nat \<Rightarrow> nat \<Rightarrow> nat \<Rightarrow> dispatch option" where
  "msgSend_loop st super orig_class c sel =
     (if c = 0 then (if orig_class = 0 then None else Some DoesNotRespond)
      else case class_table st c of
        None \<Rightarrow> Some NoHostObject
      | Some (ClassHost d) \<Rightarrow>
          (if super \<and> c = orig_class then msgSend_loop st super orig_class (superclass d) sel
           else case methods d sel of
             Some imp \<Rightarrow> Some (Found imp)
           | None \<Rightarrow> msgSend_loop st super orig_class (superclass d) sel)
      | Some (UnimplementedClass _ _) \<Rightarrow> Some UnimplementedReceiver
      | Some (FakeClass _ _) \<Rightarrow> Some FakeReceiver
      | Some OtherObject \<Rightarrow> Some NotAClass)"

section \<open>Handles and function pointers\<close>

definition imp_at :: "class_state \<Rightarrow> nat \<Rightarrow> nat \<Rightarrow> imp option" where
  "imp_at st c sel = (case class_at st c of None \<Rightarrow> None | Some d \<Rightarrow> methods d sel)"

definition set_imp_at :: "nat \<Rightarrow> nat \<Rightarrow> imp \<Rightarrow> class_state \<Rightarrow> class_state" where
  "set_imp_at c sel i = borrow_class_mut c (\<lambda>d. d\<lparr> methods := (methods d)(sel \<mapsto> i) \<rparr>)"

definition signature_at :: "class_state \<Rightarrow> nat \<Rightarrow> nat \<Rightarrow> nat option" where
  "signature_at st c sel = (case class_at st c of None \<Rightarrow> None | Some d \<Rightarrow> guest_method_signatures d sel)"

definition set_signature_at :: "nat \<Rightarrow> nat \<Rightarrow> nat option \<Rightarrow> class_state \<Rightarrow> class_state" where
  "set_signature_at c sel types =
     borrow_class_mut c (\<lambda>d. d\<lparr> guest_method_signatures := (guest_method_signatures d)(sel := types) \<rparr>)"

definition method_handle_for :: "nat \<Rightarrow> nat \<Rightarrow> class_state \<times> mem \<Rightarrow> (nat \<times> class_state \<times> mem) option" where
  "method_handle_for c sel w =
     (case map_of (method_handles (fst w)) (c, sel) of
        Some existing \<Rightarrow> Some (existing, w)
      | None \<Rightarrow> do {
          (handle, m1) \<leftarrow> mem_alloc 8 (snd w);
          m2 \<leftarrow> write_u32 m1 handle c;
          p \<leftarrow> ptr_add 4 handle 1;
          m3 \<leftarrow> write_u32 m2 p sel;
          Some (handle, (fst w)\<lparr> method_handles := ((c, sel), handle) # method_handles (fst w) \<rparr>, m3) })"

text \<open>A handle is decoded from guest memory; a pointer that is no handle has no method.\<close>

definition method_handle_decode :: "nat \<Rightarrow> class_state \<times> mem \<Rightarrow> (nat \<times> nat) option option" where
  "method_handle_decode h w =
     (if h = 0 \<or> h \<notin> snd ` set (method_handles (fst w)) then Some None
      else do {
        c \<leftarrow> read_u32 (snd w) h;
        p \<leftarrow> ptr_add 4 h 1;
        sel \<leftarrow> read_u32 (snd w) p;
        Some (Some (c, sel)) })"

definition imp_to_guest_ptr :: "nat \<Rightarrow> nat \<Rightarrow> imp \<Rightarrow> class_state \<times> mem \<Rightarrow> (nat \<times> class_state \<times> mem) option" where
  "imp_to_guest_ptr c sel i w =
     (case i of
        GuestImp p \<Rightarrow> Some (p, w)
      | HostImp _ \<Rightarrow> do {
          (token, st1, m1) \<leftarrow> (case host_imp_tokens (fst w) (c, sel) of
             Some t \<Rightarrow> Some (t, w)
           | None \<Rightarrow> do {
               (t, m1) \<leftarrow> mem_alloc 4 (snd w);
               Some (t, (fst w)\<lparr> host_imp_tokens := (host_imp_tokens (fst w))((c, sel) \<mapsto> t) \<rparr>, m1) });
          Some (token, st1\<lparr> imp_tokens := (imp_tokens st1)(token \<mapsto> i) \<rparr>, m1) })"

definition guest_ptr_to_imp :: "class_state \<Rightarrow> nat \<Rightarrow> imp option" where
  "guest_ptr_to_imp st p =
     (if p = 0 then None
      else case imp_tokens st p of Some i \<Rightarrow> Some i | None \<Rightarrow> Some (GuestImp p))"

text \<open>The pointer for an implementation that may be missing.\<close>

definition maybe_guest_ptr :: "nat \<Rightarrow> nat \<Rightarrow> imp option \<Rightarrow> class_state \<times> mem \<Rightarrow> (nat \<times> class_state \<times> mem) option" where
  "maybe_guest_ptr c sel oi w = (case oi of None \<Rightarrow> Some (0, w) | Some i \<Rightarrow> imp_to_guest_ptr c sel i w)"

definition class_getInstanceMethod :: "nat \<Rightarrow> nat \<Rightarrow> class_state \<times> mem \<Rightarrow> (nat \<times> class_state \<times> mem) option" where
  "class_getInstanceMethod c sel w =
     (if c = 0 \<or> sel = 0 then Some (0, w)
      else do {
        defining \<leftarrow> find_defining_class (fst w) c sel;
        (if defining = 0 then Some (0, w) else method_handle_for defining sel w) })"

definition method_getImplementation :: "nat \<Rightarrow> class_state \<times> mem \<Rightarrow> (nat \<times> class_state \<times> mem) option" where
  "method_getImplementation h w = do {
     d \<leftarrow> method_handle_decode h w;
     (case d of None \<Rightarrow> Some (0, w) | Some (c, sel) \<Rightarrow> maybe_guest_ptr c sel (imp_at (fst w) c sel) w) }"

definition method_setImplementation :: "nat \<Rightarrow> nat \<Rightarrow> class_state \<times> mem \<Rightarrow> (nat \<times> class_state \<times> mem) option" where
  "method_setImplementation h p w = do {
     d \<leftarrow> method_handle_decode h w;
     (case d of
        None \<Rightarrow> Some (0, w)
      | Some (c, sel) \<Rightarrow>
          maybe_guest_ptr c sel (imp_at (fst w) c sel)
            (case guest_ptr_to_imp (fst w) p of None \<Rightarrow> w | Some i \<Rightarrow> (set_imp_at c sel i (fst w), snd w))) }"

definition method_getTypeEncoding :: "nat \<Rightarrow> class_state \<times> mem \<Rightarrow> nat option" where
  "method_getTypeEncoding h w = do {
     d \<leftarrow> method_handle_decode h w;
     Some (case d of None \<Rightarrow> 0 | Some (c, sel) \<Rightarrow>
       (case signature_at (fst w) c sel of None \<Rightarrow> 0 | Some t \<Rightarrow> t)) }"

definition method_getName :: "nat \<Rightarrow> class_state \<times> mem \<Rightarrow> nat option" where
  "method_getName h w = do {
     d \<leftarrow> method_handle_decode h w;
     Some (case d of None \<Rightarrow> 0 | Some (c, sel) \<Rightarrow> sel) }"

definition class_getMethodImplementation :: "nat \<Rightarrow> nat \<Rightarrow> class_state \<times> mem \<Rightarrow> (nat \<times> class_state \<times> mem) option" where
  "class_getMethodImplementation c sel w =
     (if c = 0 \<or> sel = 0 then Some (0, w)
      else do {
        defining \<leftarrow> find_defining_class (fst w) c sel;
        (if defining = 0 then Some (0, w)
         else maybe_guest_ptr defining sel (imp_at (fst w) defining sel) w) })"

definition class_replaceMethod ::
    "nat \<Rightarrow> nat \<Rightarrow> nat \<Rightarrow> nat \<Rightarrow> class_state \<times> mem \<Rightarrow> (nat \<times> class_state \<times> mem) option" where
  "class_replaceMethod c sel p types w =
     (if c = 0 \<or> sel = 0 then Some (0, w)
      else let old = imp_at (fst w) c sel;
               st1 = (case guest_ptr_to_imp (fst w) p of
                        None \<Rightarrow> fst w
                      | Some i \<Rightarrow>
                          let st = set_imp_at c sel i (fst w)
                          in if types \<noteq> 0 then set_signature_at c sel (Some types) st else st)
           in maybe_guest_ptr c sel old (st1, snd w))"

definition class_addMethod :: "nat \<Rightarrow> nat \<Rightarrow> nat \<Rightarrow> nat \<Rightarrow> class_state \<Rightarrow> bool \<times> class_state" where
  "class_addMethod c sel p types st =
     (if c = 0 \<or> sel = 0 \<or> p = 0 \<or> defines_method st c sel then (False, st)
      else let st1 = set_imp_at c sel (GuestImp p) st
           in (True, if types \<noteq> 0 then set_signature_at c sel (Some types) st1 else st1))"

definition method_exchangeImplementations :: "nat \<Rightarrow> nat \<Rightarrow> class_state \<times> mem \<Rightarrow> class_state option" where
  "method_exchangeImplementations h1 h2 w = do {
     d1 \<leftarrow> method_handle_decode h1 w;
     d2 \<leftarrow> method_handle_decode h2 w;
     Some (case (d1, d2) of
        (Some (c1, sel1), Some (c2, sel2)) \<Rightarrow>
          let st = fst w;
              imp1 = imp_at st c1 sel1; imp2 = imp_at st c2 sel2;
              types1 = signature_at st c1 sel1; types2 = signature_at st c2 sel2;
              st1 = (case imp2 of None \<Rightarrow> st | Some i \<Rightarrow> set_imp_at c1 sel1 i st);
              st2 = (case imp1 of None \<Rightarrow> st1 | Some i \<Rightarrow> set_imp_at c2 sel2 i st1)
          in set_signature_at c2 sel2 types1 (set_signature_at c1 sel1 types2 st2)
      | _ \<Rightarrow> fst w) }"

section \<open>Initialising classes\<close>

text \<open>
  The environment of a dispatch: the classes, guest memory, the first four registers and the rest.
\<close>

record 's dispatch_env =
  classes :: class_state
  dmem :: mem
  arg_regs :: "u32 list"
  drest :: 's

definition mark_initialized :: "nat \<Rightarrow> 's dispatch_env \<Rightarrow> 's dispatch_env" where
  "mark_initialized c e =
     e\<lparr> classes := (classes e)\<lparr> initialized_classes := insert c (initialized_classes (classes e)) \<rparr> \<rparr>"

text \<open>
  \<open>sel_initialize\<close> looks the selector up and \<open>send\<close> sends the message to the class; both are arguments.
\<close>

partial_function (option) ensure_class_initialized ::
    "('s dispatch_env \<Rightarrow> nat option) \<Rightarrow> (nat \<Rightarrow> 's dispatch_env \<Rightarrow> 's dispatch_env option) \<Rightarrow>
     nat \<Rightarrow> 's dispatch_env \<Rightarrow> 's dispatch_env option" where
  "ensure_class_initialized sel_initialize send c e =
     (if c = 0 \<or> c \<in> initialized_classes (classes e) then Some e
      else case class_table (classes e) c of
        Some (ClassHost d) \<Rightarrow> do {
          e1 \<leftarrow> ensure_class_initialized sel_initialize send (superclass d) e;
          (if c \<in> initialized_classes (classes e1) then Some e1
           else do {
             let e2 = mark_initialized c e1;
             metaclass \<leftarrow> read_u32 (dmem e2) c;
             (case sel_initialize e2 of
                None \<Rightarrow> Some e2
              | Some sel \<Rightarrow> do {
                  has \<leftarrow> class_has_method (classes e2) metaclass sel;
                  (if has then do {
                     e3 \<leftarrow> send c e2;
                     Some (e3\<lparr> arg_regs := arg_regs e2 \<rparr>) }
                   else Some e2) }) }) }
      | _ \<Rightarrow> Some (mark_initialized c e))"

end
