(* ===== verification/ObjC_Classes_Props.thy ===== *)
theory ObjC_Classes_Props
  imports ObjC_Classes
begin

text \<open>
  Method lookup, method handles, exchanging implementations and the initialisation of classes do what
  the Objective-C runtime promises, for hierarchies without cycles.
\<close>

section \<open>Lookup\<close>

text \<open>A hierarchy: every superclass is nil or a class again, and its rank is smaller.\<close>

definition hierarchy :: "class_state \<Rightarrow> (nat \<Rightarrow> nat) \<Rightarrow> bool" where
  "hierarchy st rank = (class_table st 0 = None \<and> phantom_classes st 0 = None \<and>
     (\<forall>c d. class_at st c = Some d \<longrightarrow>
        superclass d = 0 \<or> (class_at st (superclass d) \<noteq> None \<and> rank (superclass d) < rank c)))"

text \<open>The \<open>n\<close>-th superclass, and the nearest class that defines a method: the reference.\<close>

fun ancestor :: "class_state \<Rightarrow> nat \<Rightarrow> nat \<Rightarrow> nat" where
  "ancestor st 0 c = c"
| "ancestor st (Suc n) c = ancestor st n (get_superclass st c)"

definition nearest :: "class_state \<Rightarrow> nat \<Rightarrow> nat \<Rightarrow> nat \<Rightarrow> bool" where
  "nearest st c sel d = (if d = 0 then (\<forall>n. \<not> defines_method st (ancestor st n c) sel)
     else (\<exists>n. ancestor st n c = d \<and> defines_method st d sel \<and> (\<forall>k < n. \<not> defines_method st (ancestor st k c) sel)))"

lemma class_at_borrow: "class_at st c = Some d \<Longrightarrow> borrow_class st c = d \<and> c \<noteq> 0 \<and> class_table st c = Some (ClassHost d)"
  by (auto simp: class_at_def borrow_class_def split: if_splits option.splits class_object.splits)

lemma ancestor_nil:
  assumes "hierarchy st rank"
  shows "ancestor st n 0 = 0 \<and> \<not> defines_method st 0 sel"
proof -
  have "get_superclass st 0 = 0" using assms by (simp add: hierarchy_def get_superclass_def borrow_class_def default_class_def)
  then have "ancestor st n 0 = 0" by (induction n) simp_all
  then show ?thesis by (simp add: defines_method_def class_at_def)
qed

lemma nearest_here: "defines_method st c sel \<Longrightarrow> c \<noteq> 0 \<Longrightarrow> nearest st c sel c"
  unfolding nearest_def by (auto intro: exI [of _ 0])

lemma nearest_above:
  assumes "\<not> defines_method st c sel" "nearest st (get_superclass st c) sel d"
  shows "nearest st c sel d"
proof (cases "d = 0")
  case True
  have "\<not> defines_method st (ancestor st n c) sel" for n
    using assms True by (cases n) (simp_all add: nearest_def)
  then show ?thesis using True by (simp add: nearest_def)
next
  case False
  then obtain n where n: "ancestor st n (get_superclass st c) = d" "defines_method st d sel"
    "\<forall>k < n. \<not> defines_method st (ancestor st k (get_superclass st c)) sel"
    using assms(2) by (auto simp: nearest_def)
  have "\<forall>k < Suc n. \<not> defines_method st (ancestor st k c) sel"
  proof (intro allI impI)
    fix k assume "k < Suc n"
    then show "\<not> defines_method st (ancestor st k c) sel" using n(3) assms(1) by (cases k) simp_all
  qed
  then show ?thesis using n(1,2) False unfolding nearest_def
    by (auto intro!: exI [of _ "Suc n"])
qed

lemma nearest_unique: "nearest st c sel d \<Longrightarrow> nearest st c sel d' \<Longrightarrow> hierarchy st rank \<Longrightarrow> d = d'"
proof -
  assume h: "nearest st c sel d" "nearest st c sel d'" "hierarchy st rank"
  show "d = d'"
  proof (cases "d = 0 \<or> d' = 0")
    case True
    then show ?thesis using h(1,2) ancestor_nil [OF h(3)] unfolding nearest_def by (auto split: if_splits)
  next
    case False
    then obtain n n' where n: "ancestor st n c = d" "defines_method st d sel" "\<forall>k < n. \<not> defines_method st (ancestor st k c) sel"
      "ancestor st n' c = d'" "defines_method st d' sel" "\<forall>k < n'. \<not> defines_method st (ancestor st k c) sel"
      using h(1,2) by (auto simp: nearest_def)
    then have "n = n'" by (metis linorder_neqE_nat)
    then show ?thesis using n by simp
  qed
qed

text \<open>Lookup depends only on the classes and the phantoms.\<close>

lemma same_classes:
  assumes "class_table st' = class_table st" "phantom_classes st' = phantom_classes st"
  shows "class_at st' = class_at st" "hierarchy st' = hierarchy st" "nearest st' = nearest st" "imp_at st' = imp_at st"
proof -
  show c: "class_at st' = class_at st" using assms by (simp add: class_at_def fun_eq_iff)
  show "imp_at st' = imp_at st" by (simp add: imp_at_def fun_eq_iff c)
  show "hierarchy st' = hierarchy st" by (simp add: hierarchy_def fun_eq_iff c assms)
  have g: "get_superclass st' x = get_superclass st x" for x unfolding get_superclass_def borrow_class_def assms ..
  have "ancestor st' n x = ancestor st n x" for n x by (induction n arbitrary: x) (simp_all add: g)
  moreover have "defines_method st' = defines_method st" by (simp add: defines_method_def fun_eq_iff c)
  ultimately show "nearest st' = nearest st" by (simp add: nearest_def fun_eq_iff)
qed

lemma nearest_none: "hierarchy st rank \<Longrightarrow> \<not> defines_method st c sel \<Longrightarrow> get_superclass st c = 0 \<Longrightarrow> nearest st c sel 0"
proof -
  assume h: "hierarchy st rank" and n: "\<not> defines_method st c sel" "get_superclass st c = 0"
  have "nearest st 0 sel 0" using ancestor_nil [OF h] by (simp add: nearest_def)
  then show ?thesis using nearest_above [of st c sel 0] n by simp
qed

lemma lookup_main:
  assumes "hierarchy st rank" "class_at st c \<noteq> None"
  shows "\<exists>d. find_defining_class st c sel = Some d \<and> nearest st c sel d
    \<and> responds_loop st c sel = Some (d \<noteq> 0) \<and> class_has_method st c sel = Some (d \<noteq> 0)
    \<and> (\<forall>orig. orig \<noteq> 0 \<longrightarrow> msgSend_loop st False orig c sel = Some (if d = 0 then DoesNotRespond else Found (the (imp_at st d sel))))
    \<and> (d \<noteq> 0 \<and> d \<noteq> c \<longrightarrow> subclass_loop st c d = Some True)"
  using assms(2)
proof (induction "rank c" arbitrary: c rule: less_induct)
  case less
  obtain k where k: "class_at st c = Some k" using less.prems by blast
  note b = class_at_borrow [OF k]
  have def_m: "defines_method st c sel \<longleftrightarrow> methods k sel \<noteq> None" by (simp add: defines_method_def k)
  have sup: "get_superclass st c = superclass k" using b by (simp add: get_superclass_def)
  show ?case
  proof (cases "methods k sel")
    case (Some i)
    then have "nearest st c sel c" using nearest_here def_m b by simp
    then show ?thesis
      using b Some def_m k
      by (intro exI [of _ c]) (simp add: find_defining_class.simps responds_loop.simps class_has_method.simps
        msgSend_loop.simps imp_at_def)
  next
    case None
    show ?thesis
    proof (cases "superclass k = 0")
      case True
      then have "nearest st c sel 0" using nearest_none [OF assms(1)] def_m None sup by simp
      then show ?thesis
        using b None def_m k sup True
        by (intro exI [of _ 0]) (simp add: find_defining_class.simps responds_loop.simps class_has_method.simps
          msgSend_loop.simps)
    next
      case False
      moreover have "superclass k = 0 \<or> (class_at st (superclass k) \<noteq> None \<and> rank (superclass k) < rank c)"
        using assms(1) k unfolding hierarchy_def by blast
      ultimately have s: "class_at st (superclass k) \<noteq> None" "rank (superclass k) < rank c" by simp_all
      from less.hyps [OF s(2,1)] obtain d where d: "find_defining_class st (superclass k) sel = Some d"
        "nearest st (superclass k) sel d" "responds_loop st (superclass k) sel = Some (d \<noteq> 0)"
        "class_has_method st (superclass k) sel = Some (d \<noteq> 0)"
        "\<forall>orig. orig \<noteq> 0 \<longrightarrow> msgSend_loop st False orig (superclass k) sel =
           Some (if d = 0 then DoesNotRespond else Found (the (imp_at st d sel)))"
        "d \<noteq> 0 \<and> d \<noteq> superclass k \<longrightarrow> subclass_loop st (superclass k) d = Some True" by blast
      have ne: "superclass k \<noteq> c" using s(2) by auto
      have "nearest st c sel d" using nearest_above [of st c sel d] def_m None sup d(2) by simp
      moreover have "find_defining_class st c sel = Some d" "responds_loop st c sel = Some (d \<noteq> 0)"
        using b None def_m sup ne d(1,3)
        by (simp_all add: find_defining_class.simps [of st c] responds_loop.simps [of st c])
      moreover have "class_has_method st c sel = Some (d \<noteq> 0)"
        using b None False d(4) by (simp add: class_has_method.simps [of st c])
      moreover have "\<forall>orig. orig \<noteq> 0 \<longrightarrow> msgSend_loop st False orig c sel =
           Some (if d = 0 then DoesNotRespond else Found (the (imp_at st d sel)))"
        using b None d(5) by (simp add: msgSend_loop.simps [of st False _ c])
      moreover have "d \<noteq> 0 \<and> d \<noteq> c \<longrightarrow> subclass_loop st c d = Some True"
        using b False d(6) by (simp add: subclass_loop.simps [of st c] Let_def)
      ultimately show ?thesis by blast
    qed
  qed
qed

text \<open>C26: on a hierarchy without cycles every lookup ends, and all of them agree: the loop of
  \<open>objc_msgSend\<close>, \<open>class_has_method\<close>, \<open>class_respondsToSelector\<close> and \<open>find_defining_class\<close> find the
  nearest class that defines the method, which is the class itself or one of its superclasses.\<close>

theorem lookups_agree:
  assumes "hierarchy st rank" "class_at st c \<noteq> None" "sel \<noteq> 0"
  shows "\<exists>d. find_defining_class st c sel = Some d \<and> nearest st c sel d
    \<and> class_respondsToSelector st c sel = Some (d \<noteq> 0) \<and> class_has_method st c sel = Some (d \<noteq> 0)
    \<and> msgSend_loop st False c c sel = Some (if d = 0 then DoesNotRespond else Found (the (imp_at st d sel)))
    \<and> (d \<noteq> 0 \<longrightarrow> class_is_subclass_of st c d = Some True)"
proof -
  have "c \<noteq> 0" using assms(2) class_at_borrow by blast
  then have nz: "\<not> (c = 0 \<or> sel = 0)" using assms(3) by simp
  from lookup_main [OF assms(1,2)] obtain d where d: "find_defining_class st c sel = Some d" "nearest st c sel d"
    "responds_loop st c sel = Some (d \<noteq> 0)" "class_has_method st c sel = Some (d \<noteq> 0)"
    "\<forall>orig. orig \<noteq> 0 \<longrightarrow> msgSend_loop st False orig c sel = Some (if d = 0 then DoesNotRespond else Found (the (imp_at st d sel)))"
    "d \<noteq> 0 \<and> d \<noteq> c \<longrightarrow> subclass_loop st c d = Some True" by blast
  have "class_respondsToSelector st c sel = Some (d \<noteq> 0)"
    unfolding class_respondsToSelector_def if_not_P [OF nz] by (rule d(3))
  moreover have "d \<noteq> 0 \<longrightarrow> class_is_subclass_of st c d = Some True"
    unfolding class_is_subclass_of_def using d(6) by presburger
  moreover have "msgSend_loop st False c c sel = Some (if d = 0 then DoesNotRespond else Found (the (imp_at st d sel)))"
    using d(5) nz by blast
  ultimately show ?thesis using d(1,2,4) by blast
qed

section \<open>Exchanging implementations\<close>

text \<open>What a change of one method or signature does.\<close>

lemma borrow_mut_table:
  "class_at st c = Some d \<Longrightarrow> borrow_class_mut c f st = st\<lparr> class_table := (class_table st)(c \<mapsto> ClassHost (f d)) \<rparr>"
  using class_at_borrow [of st c d] by (simp add: borrow_class_mut_def)

lemma class_at_put:
  "c \<noteq> 0 \<Longrightarrow> class_at (st\<lparr> class_table := (class_table st)(c \<mapsto> ClassHost d) \<rparr>) c' = (if c' = c then Some d else class_at st c')"
  by (simp add: class_at_def)

lemma set_imp_frame:
  assumes "class_at st c = Some d"
  shows "imp_at (set_imp_at c sel i st) c' sel' = (if c' = c \<and> sel' = sel then Some i else imp_at st c' sel')"
    "signature_at (set_imp_at c sel i st) = signature_at st"
    "class_at (set_imp_at c sel i st) c' = None \<longleftrightarrow> class_at st c' = None"
    "method_handles (set_imp_at c sel i st) = method_handles st" "imp_tokens (set_imp_at c sel i st) = imp_tokens st"
    "host_imp_tokens (set_imp_at c sel i st) = host_imp_tokens st"
  using assms class_at_borrow [OF assms]
  by (auto simp: imp_at_def signature_at_def set_imp_at_def borrow_mut_table class_at_put fun_eq_iff)

lemma set_signature_frame:
  assumes "class_at st c = Some d"
  shows "signature_at (set_signature_at c sel types st) c' sel' =
      (if c' = c \<and> sel' = sel then types else signature_at st c' sel')"
    "imp_at (set_signature_at c sel types st) = imp_at st"
    "class_at (set_signature_at c sel types st) c' = None \<longleftrightarrow> class_at st c' = None"
    "method_handles (set_signature_at c sel types st) = method_handles st"
    "host_imp_tokens (set_signature_at c sel types st) = host_imp_tokens st"
    "imp_tokens (set_signature_at c sel types st) = imp_tokens st"
  using assms class_at_borrow [OF assms]
  by (auto simp: imp_at_def signature_at_def set_signature_at_def borrow_mut_table class_at_put fun_eq_iff)

text \<open>The exchange of two methods that exist.\<close>

definition swapped :: "nat \<Rightarrow> nat \<Rightarrow> imp \<Rightarrow> nat \<Rightarrow> nat \<Rightarrow> imp \<Rightarrow> class_state \<Rightarrow> class_state" where
  "swapped c1 s1 i1 c2 s2 i2 st =
     set_signature_at c2 s2 (signature_at st c1 s1) (set_signature_at c1 s1 (signature_at st c2 s2)
       (set_imp_at c2 s2 i1 (set_imp_at c1 s1 i2 st)))"

lemma imp_class: "imp_at st c s = Some i \<Longrightarrow> \<exists>d. class_at st c = Some d \<and> methods d s = Some i"
  by (auto simp: imp_at_def split: option.splits)

lemma swapped_views:
  assumes "imp_at st c1 s1 = Some i1" "imp_at st c2 s2 = Some i2"
  shows "imp_at (swapped c1 s1 i1 c2 s2 i2 st) c s =
      (if c = c2 \<and> s = s2 then Some i1 else if c = c1 \<and> s = s1 then Some i2 else imp_at st c s)"
    "signature_at (swapped c1 s1 i1 c2 s2 i2 st) c s =
      (if c = c2 \<and> s = s2 then signature_at st c1 s1 else if c = c1 \<and> s = s1 then signature_at st c2 s2
       else signature_at st c s)"
    "method_handles (swapped c1 s1 i1 c2 s2 i2 st) = method_handles st"
    "host_imp_tokens (swapped c1 s1 i1 c2 s2 i2 st) = host_imp_tokens st"
    "imp_tokens (swapped c1 s1 i1 c2 s2 i2 st) = imp_tokens st"
proof -
  let ?s1 = "set_imp_at c1 s1 i2 st" let ?s2 = "set_imp_at c2 s2 i1 ?s1"
  let ?s3 = "set_signature_at c1 s1 (signature_at st c2 s2) ?s2"
  have "class_at st c1 \<noteq> None" "class_at st c2 \<noteq> None" using assms imp_class by fastforce+
  then obtain a where a: "class_at st c1 = Some a" by blast
  note f1 = set_imp_frame [OF a, of s1 i2]
  obtain b where b: "class_at ?s1 c2 = Some b" using f1(3) [of c2] \<open>class_at st c2 \<noteq> None\<close> by (cases "class_at ?s1 c2") auto
  note f2 = set_imp_frame [OF b, of s2 i1]
  obtain d where d: "class_at ?s2 c1 = Some d" using f2(3) [of c1] f1(3) [of c1] a by (cases "class_at ?s2 c1") auto
  note f3 = set_signature_frame [OF d, of s1 "signature_at st c2 s2"]
  obtain e where e: "class_at ?s3 c2 = Some e" using f3(3) [of c2] f2(3) [of c2] b by (cases "class_at ?s3 c2") auto
  note f4 = set_signature_frame [OF e, of s2 "signature_at st c1 s1"]
  show "imp_at (swapped c1 s1 i1 c2 s2 i2 st) c s =
      (if c = c2 \<and> s = s2 then Some i1 else if c = c1 \<and> s = s1 then Some i2 else imp_at st c s)"
    by (simp add: swapped_def f4(2) f3(2) f2(1) f1(1))
  show "signature_at (swapped c1 s1 i1 c2 s2 i2 st) c s =
      (if c = c2 \<and> s = s2 then signature_at st c1 s1 else if c = c1 \<and> s = s1 then signature_at st c2 s2
       else signature_at st c s)"
    by (simp add: swapped_def f4(1) f3(1) f2(2) f1(2))
  show "method_handles (swapped c1 s1 i1 c2 s2 i2 st) = method_handles st"
    by (simp add: swapped_def f4(4) f3(4) f2(4) f1(4))
  show "host_imp_tokens (swapped c1 s1 i1 c2 s2 i2 st) = host_imp_tokens st"
    by (simp add: swapped_def f4(5) f3(5) f2(6) f1(6))
  show "imp_tokens (swapped c1 s1 i1 c2 s2 i2 st) = imp_tokens st"
    by (simp add: swapped_def f4(6) f3(6) f2(5) f1(5))
qed

lemma exchange_swapped:
  assumes "method_handle_decode h1 (st, m) = Some (Some (c1, s1))" "method_handle_decode h2 (st, m) = Some (Some (c2, s2))"
    "imp_at st c1 s1 = Some i1" "imp_at st c2 s2 = Some i2"
  shows "method_exchangeImplementations h1 h2 (st, m) = Some (swapped c1 s1 i1 c2 s2 i2 st)"
  using assms by (simp add: method_exchangeImplementations_def swapped_def Let_def)

text \<open>C28: exchanging two methods through their handles makes each selector run the other implementation,
  with the other type encoding, changes no other method, and keeps the handles valid; exchanging them
  again restores every method and encoding.\<close>

theorem exchange_swaps_methods:
  assumes "method_handle_decode h1 (st, m) = Some (Some (c1, s1))" "method_handle_decode h2 (st, m) = Some (Some (c2, s2))"
    "imp_at st c1 s1 = Some i1" "imp_at st c2 s2 = Some i2"
  shows "\<exists>st1 st2. method_exchangeImplementations h1 h2 (st, m) = Some st1
    \<and> imp_at st1 c1 s1 = Some i2 \<and> imp_at st1 c2 s2 = Some i1
    \<and> signature_at st1 c1 s1 = signature_at st c2 s2 \<and> signature_at st1 c2 s2 = signature_at st c1 s1
    \<and> (\<forall>c s. (c, s) \<noteq> (c1, s1) \<and> (c, s) \<noteq> (c2, s2) \<longrightarrow>
          imp_at st1 c s = imp_at st c s \<and> signature_at st1 c s = signature_at st c s)
    \<and> (\<forall>h. method_handle_decode h (st1, m) = method_handle_decode h (st, m))
    \<and> method_exchangeImplementations h1 h2 (st1, m) = Some st2
    \<and> imp_at st2 = imp_at st \<and> signature_at st2 = signature_at st"
proof -
  let ?st1 = "swapped c1 s1 i1 c2 s2 i2 st"
  note v1 = swapped_views [OF assms(3,4)]
  have dec: "method_handle_decode h (?st1, m) = method_handle_decode h (st, m)" for h
    by (simp add: method_handle_decode_def v1(3))
  have swap: "imp_at ?st1 c1 s1 = Some i2" "imp_at ?st1 c2 s2 = Some i1"
    using v1(1) assms(3,4) by auto
  let ?st2 = "swapped c1 s1 i2 c2 s2 i1 ?st1"
  note v2 = swapped_views [OF swap]
  have dec1: "method_handle_decode h1 (?st1, m) = Some (Some (c1, s1))" "method_handle_decode h2 (?st1, m) = Some (Some (c2, s2))"
    using assms(1,2) dec by simp_all
  have "method_exchangeImplementations h1 h2 (?st1, m) = Some ?st2" by (rule exchange_swapped [OF dec1 swap])
  moreover have "imp_at ?st2 = imp_at st"
    using v2(1) v1(1) assms(3,4) by (intro ext) auto
  moreover have "signature_at ?st2 = signature_at st"
    using v2(2) v1(2) by (intro ext) auto
  moreover have "signature_at ?st1 c1 s1 = signature_at st c2 s2" "signature_at ?st1 c2 s2 = signature_at st c1 s1"
    using v1(2) by auto
  ultimately show ?thesis
    using exchange_swapped [OF assms] swap dec v1(1,2) by (intro exI [of _ ?st1] exI [of _ ?st2]) auto
qed

section \<open>Handles\<close>

text \<open>Every handle is a block of its own that holds the class and the selector.\<close>

definition handle_ok :: "mem \<Rightarrow> (nat \<times> nat) \<times> nat \<Rightarrow> bool" where
  "handle_ok m e = (snd e \<noteq> 0 \<longrightarrow> (\<exists>k \<ge> 8. used_view (heap m) (snd e) = Some k)
     \<and> read_u32 m (snd e) = Some (fst (fst e)) \<and> read_u32 m (snd e + 4) = Some (snd (fst e)))"

definition handles_ok :: "class_state \<times> mem \<Rightarrow> bool" where
  "handles_ok w = (mem_ok (snd w) \<and> (\<forall>e \<in> set (method_handles (fst w)). handle_ok (snd w) e))"

lemma read_u32_same:
  assumes "ordinary m q 4" "ordinary m' q 4" "\<And>i. i < 4 \<Longrightarrow> mbytes m' (q + i) = mbytes m (q + i)"
  shows "read_u32 m' q = read_u32 m q"
proof -
  have "map (\<lambda>i. mbytes m' (q + i)) [0..<4] = map (\<lambda>i. mbytes m (q + i)) [0..<4]" using assms(3) by (intro map_cong) simp_all
  then have "mem_read 4 m' q = mem_read 4 m q" using read_ordinary [OF assms(1)] read_ordinary [OF assms(2)] by simp
  then show ?thesis by (simp add: read_u32_def)
qed

lemma handle_ordinary:
  assumes "mem_ok m" "used_view (heap m) h = Some k" "8 \<le> k" "h \<noteq> 0"
  shows "ordinary m h 4" "ordinary m (h + 4) 4" "ordinary m h 8" "ptr_add 4 h 1 = Some (h + 4)"
proof -
  have b: "null_segment_size m \<le> h" "h + k \<le> 4294967296" using used_block [OF assms(1,2,4)] by simp_all
  then show "ordinary m h 4" "ordinary m (h + 4) 4" "ordinary m h 8" using assms(3) by (simp_all add: ordinary_def)
  show "ptr_add 4 h 1 = Some (h + 4)" using b assms(3) by (simp add: ptr_add_def wadd32_exact)
qed

lemma handle_decodes:
  assumes "handles_ok (st, m)" "((c, s), h) \<in> set (method_handles st)" "h \<noteq> 0"
  shows "method_handle_decode h (st, m) = Some (Some (c, s))"
proof -
  have "handle_ok m ((c, s), h)" "mem_ok m" using assms(1,2) by (auto simp: handles_ok_def)
  then obtain k where k: "8 \<le> k" "used_view (heap m) h = Some k" "read_u32 m h = Some c" "read_u32 m (h + 4) = Some s"
    using assms(3) by (auto simp: handle_ok_def)
  have "h \<in> snd ` set (method_handles st)" using assms(2) by force
  then show ?thesis
    using assms(3) k handle_ordinary(4) [OF \<open>mem_ok m\<close> k(2,1) assms(3)] by (simp add: method_handle_decode_def)
qed

text \<open>Changes of the memory outside the blocks of the handles.\<close>

lemma handle_frame:
  assumes ok: "mem_ok m" "mem_ok m'" and h: "handle_ok m e"
    and keep: "\<And>k. used_view (heap m) (snd e) = Some k \<Longrightarrow> snd e \<noteq> 0 \<Longrightarrow> 8 \<le> k \<Longrightarrow>
      used_view (heap m') (snd e) = Some k \<and> (\<forall>i < 8. mbytes m' (snd e + i) = mbytes m (snd e + i))"
  shows "handle_ok m' e"
proof (cases "snd e = 0")
  case False
  then obtain k where k: "8 \<le> k" "used_view (heap m) (snd e) = Some k" using h by (auto simp: handle_ok_def)
  note o = handle_ordinary [OF ok(1) k(2,1) False]
  have k': "used_view (heap m') (snd e) = Some k" and b: "\<forall>i < 8. mbytes m' (snd e + i) = mbytes m (snd e + i)"
    using keep k False by blast+
  note o' = handle_ordinary [OF ok(2) k' k(1) False]
  have "read_u32 m' (snd e) = read_u32 m (snd e)" using b by (intro read_u32_same [OF o(1) o'(1)]) simp
  moreover have "read_u32 m' (snd e + 4) = read_u32 m (snd e + 4)"
    by (intro read_u32_same [OF o(2) o'(2)]) (simp add: add.assoc b)
  ultimately show ?thesis using h k(1) k' False by (auto simp: handle_ok_def)
qed (simp add: handle_ok_def)

lemma null_words:
  assumes "mem_ok m"
  shows "\<exists>m1 m2. write_u32 m 0 v = Some m1 \<and> write_u32 m1 4 w = Some m2 \<and> mem_ok m2
    \<and> heap m2 = heap m \<and> mbytes m2 = mbytes m \<and> ptr_add 4 0 1 = Some 4"
proof -
  have "0 < null_segment_size m" using assms alloc_wf_used [of "heap m" 0]
    by (auto simp: mem_ok_def alloc_inv_def span_ok_def)
  moreover have "null_segment_size m mod 4096 = 0" using assms by (simp add: mem_ok_def)
  ultimately have n: "8 \<le> null_segment_size m" by (cases "null_segment_size m < 4096") simp_all
  have "write_u32 m' p u = Some (slice_store (Sink p 4) 0 (to_le_bytes 4 u) m')" if "null_segment_size m' = null_segment_size m" "p \<le> 4" for m' p u
  proof -
    have "bytes_at_mut m' p 4 = Sink p 4" using n that by (simp add: bytes_at_mut_def PAGE_SIZE_def)
    then show ?thesis by (simp add: write_u32_def mem_write_def Let_def)
  qed
  from this [of m 0 v] this [of "slice_store (Sink 0 4) 0 (to_le_bytes 4 v) m" 4 w] show ?thesis
    using assms by (simp add: ptr_add_def wadd32_def mem_ok_def)
qed

lemma new_handle:
  assumes ok: "handles_ok (st, m)" and cs: "c < 4294967296" "sel < 4294967296"
    and run: "mem_alloc 8 m = Some (h, m1)"
  shows "\<exists>m2 m3. write_u32 m1 h c = Some m2 \<and> ptr_add 4 h 1 = Some (h + 4) \<and> write_u32 m2 (h + 4) sel = Some m3
    \<and> mem_ok m3 \<and> heap m3 = heap m1
    \<and> (\<forall>e \<in> set (method_handles st). handle_ok m3 e) \<and> handle_ok m3 ((c, sel), h)"
proof -
  have m: "mem_ok m" and old: "\<forall>e \<in> set (method_handles st). handle_ok m e" using ok by (simp_all add: handles_ok_def)
  from mem_alloc_facts [OF m, of 8] run have m1: "mem_ok m1"
    and c1: "if h = 0 then heap m1 = heap m \<and> mbytes m1 = mbytes m
       else fresh_block (heap m) h 8 (heap m1) \<and>
         mbytes m1 = (\<lambda>x. if \<not> zero_memory_on_free m \<and> h \<le> x \<and> x < h + 8 then 0 else mbytes m x)" by auto
  show ?thesis
  proof (cases "h = 0")
    case True
    from null_words [OF m1, of c sel] obtain m2 m3 where w: "write_u32 m1 0 c = Some m2" "write_u32 m2 4 sel = Some m3"
      "mem_ok m3" "heap m3 = heap m1" "mbytes m3 = mbytes m1" "ptr_add 4 0 1 = Some 4" by blast
    have "handle_ok m3 e" if "e \<in> set (method_handles st)" for e
    proof (rule handle_frame [OF m w(3)])
      show "handle_ok m e" using old that by blast
    qed (use c1 True w(4,5) in simp)
    moreover have "handle_ok m3 ((c, sel), h)" using True by (simp add: handle_ok_def)
    ultimately show ?thesis using True w by simp
  next
    case False
    then obtain k where k: "used_view (heap m) h = None" "8 \<le> k" "used_view (heap m1) = (used_view (heap m))(h \<mapsto> k)"
      "avoids (used_view (heap m)) h k" using c1 unfolding fresh_block_def by (simp only: if_False) blast
    have u1: "used_view (heap m1) h = Some k" using k(3) by simp
    note o = handle_ordinary [OF m1 u1 k(2) False]
    from word_write [OF o(1) cs(1)] obtain m2 where m2: "write_u32 m1 h c = Some m2"
      "m2 = m1\<lparr> mbytes := put_bytes h (to_le_bytes 4 c) (mbytes m1) \<rparr>" "read_u32 m2 h = Some c" by blast
    have o2: "ordinary m2 (h + 4) 4" "ordinary m2 h 4" using o m2(2) by simp_all
    from word_write [OF o2(1) cs(2)] obtain m3 where m3: "write_u32 m2 (h + 4) sel = Some m3"
      "m3 = m2\<lparr> mbytes := put_bytes (h + 4) (to_le_bytes 4 sel) (mbytes m2) \<rparr>" "read_u32 m3 (h + 4) = Some sel"
      "\<forall>q. ordinary m2 q 4 \<and> ranges_apart q 4 (h + 4) 4 \<longrightarrow> read_u32 m3 q = read_u32 m2 q" by blast
    have ok3: "mem_ok m3" using m1 m2(2) m3(2) by (simp add: mem_ok_def)
    have h3: "heap m3 = heap m1" using m2(2) m3(2) by simp
    have bytes: "mbytes m3 x = mbytes m x" if "x < h \<or> h + 8 \<le> x" for x
    proof -
      have "mbytes m3 x = mbytes m1 x" using that m2(2) m3(2) by (auto simp: put_bytes_def)
      then show ?thesis using c1 False that by auto
    qed
    have "handle_ok m3 e" if e: "e \<in> set (method_handles st)" for e
    proof (rule handle_frame [OF m ok3])
      show "handle_ok m e" using old e by blast
      fix j assume j: "used_view (heap m) (snd e) = Some j" "snd e \<noteq> 0" "8 \<le> j"
      have "snd e \<noteq> h" using j(1) k(1) by auto
      moreover have "snd e + j \<le> h \<or> h + k \<le> snd e" using k(4) j(1) unfolding avoids_def by blast
      ultimately show "used_view (heap m3) (snd e) = Some j \<and> (\<forall>i < 8. mbytes m3 (snd e + i) = mbytes m (snd e + i))"
        using k(2,3) j h3 by (auto intro!: bytes)
    qed
    moreover have "handle_ok m3 ((c, sel), h)"
      using m3(3,4) m2(3) o2(2) u1 k(2) h3 by (auto simp: handle_ok_def ranges_apart_def)
    ultimately show ?thesis using m2(1) m3(1) o(4) ok3 h3 by blast
  qed
qed

lemma handle_for:
  assumes ok: "handles_ok (st, m)" and cs: "c < 4294967296" "sel < 4294967296"
  shows "\<exists>h st' m'. method_handle_for c sel (st, m) = Some (h, st', m') \<and> handles_ok (st', m')
    \<and> map_of (method_handles st') (c, sel) = Some h \<and> class_table st' = class_table st
    \<and> phantom_classes st' = phantom_classes st \<and> set (method_handles st) \<subseteq> set (method_handles st')"
proof (cases "map_of (method_handles st) (c, sel)")
  case (Some h)
  then show ?thesis using ok by (simp add: method_handle_for_def)
next
  case None
  have "mem_ok m" using ok by (simp add: handles_ok_def)
  then obtain h m1 where a: "mem_alloc 8 m = Some (h, m1)" using mem_alloc_total [of m 8] by auto
  from new_handle [OF ok cs a] obtain m2 m3 where w: "write_u32 m1 h c = Some m2" "ptr_add 4 h 1 = Some (h + 4)"
    "write_u32 m2 (h + 4) sel = Some m3" "mem_ok m3" "\<forall>e \<in> set (method_handles st). handle_ok m3 e"
    "handle_ok m3 ((c, sel), h)" by blast
  let ?st = "st\<lparr> method_handles := ((c, sel), h) # method_handles st \<rparr>"
  have "method_handle_for c sel (st, m) = Some (h, ?st, m3)" using None a w by (simp add: method_handle_for_def)
  moreover have "handles_ok (?st, m3)" using w by (simp add: handles_ok_def)
  ultimately show ?thesis by (intro exI [of _ h] exI [of _ ?st] exI [of _ m3]) auto
qed

text \<open>the handle \<open>class_getInstanceMethod\<close> returns decodes to the nearest class that defines the method
  and to the selector; asking again returns the same handle, and all other handles stay valid.\<close>

theorem method_handles_stable:
  assumes "handles_ok (st, m)" "hierarchy st rank" "class_at st c \<noteq> None" "sel \<noteq> 0" "sel < 4294967296"
    "\<forall>c. class_at st c \<noteq> None \<longrightarrow> c < 4294967296"
  shows "\<exists>h st' m'. class_getInstanceMethod c sel (st, m) = Some (h, st', m') \<and> handles_ok (st', m')
    \<and> imp_at st' = imp_at st
    \<and> (h \<noteq> 0 \<longrightarrow> (\<exists>d. d \<noteq> 0 \<and> nearest st c sel d \<and> method_handle_decode h (st', m') = Some (Some (d, sel))))
    \<and> class_getInstanceMethod c sel (st', m') = Some (h, st', m')
    \<and> (\<forall>g e. g \<noteq> 0 \<and> (e, g) \<in> set (method_handles st) \<longrightarrow> method_handle_decode g (st', m') = Some (Some e))"
proof -
  have "c \<noteq> 0" using assms(3) class_at_borrow by blast
  then have nz: "\<not> (c = 0 \<or> sel = 0)" using assms(4) by simp
  from lookup_main [OF assms(2,3), of sel] obtain d where d: "find_defining_class st c sel = Some d" "nearest st c sel d"
    by blast
  have dec: "\<forall>g e. g \<noteq> 0 \<and> (e, g) \<in> set (method_handles st0) \<longrightarrow> method_handle_decode g (st0, m0) = Some (Some e)"
    if "handles_ok (st0, m0)" for st0 m0
    using handle_decodes [OF that] by auto
  show ?thesis
  proof (cases "d = 0")
    case True
    then have run: "class_getInstanceMethod c sel (st, m) = Some (0, st, m)" using d(1) nz by (simp add: class_getInstanceMethod_def)
    show ?thesis using run assms(1) dec [OF assms(1)] by (intro exI [of _ 0] exI [of _ st] exI [of _ m]) simp
  next
    case False
    then have "class_at st d \<noteq> None" using d(2) by (auto simp: nearest_def defines_method_def split: option.splits)
    then have "d < 4294967296" using assms(6) by blast
    from handle_for [OF assms(1) this assms(5)] obtain h st' m' where h: "method_handle_for d sel (st, m) = Some (h, st', m')"
      "handles_ok (st', m')" "map_of (method_handles st') (d, sel) = Some h" "class_table st' = class_table st"
      "phantom_classes st' = phantom_classes st" "set (method_handles st) \<subseteq> set (method_handles st')" by blast
    note s = same_classes [OF h(4,5)]
    have run: "class_getInstanceMethod c sel (st, m) = Some (h, st', m')"
      using d(1) nz False h(1) by (simp add: class_getInstanceMethod_def)
    have "hierarchy st' rank" "class_at st' c \<noteq> None" using assms(2,3) s(1,2) by simp_all
    from lookup_main [OF this, of sel] obtain d' where d': "find_defining_class st' c sel = Some d'" "nearest st' c sel d'" by blast
    have "d' = d" using nearest_unique [OF _ d(2) assms(2)] d'(2) s(3) by simp
    then have again: "class_getInstanceMethod c sel (st', m') = Some (h, st', m')"
      using d'(1) nz False h(3) by (simp add: class_getInstanceMethod_def method_handle_for_def)
    have "((d, sel), h) \<in> set (method_handles st')" using h(3) by (rule map_of_SomeD)
    then have "h \<noteq> 0 \<longrightarrow> method_handle_decode h (st', m') = Some (Some (d, sel))" using dec [OF h(2)] by blast
    moreover have "\<forall>g e. g \<noteq> 0 \<and> (e, g) \<in> set (method_handles st) \<longrightarrow> method_handle_decode g (st', m') = Some (Some e)"
      using dec [OF h(2)] h(6) by blast
    ultimately show ?thesis
      using run again h(2) s(4) d(2) False by (intro exI [of _ h] exI [of _ st'] exI [of _ m']) blast
  qed
qed

section \<open>Function pointers of host methods\<close>

lemma alloc_handles:
  assumes "handles_ok (st, m)" "n < 4294967296" "mem_alloc n m = Some (t, m1)"
  shows "handles_ok (st, m1)"
proof -
  have m: "mem_ok m" and h: "\<forall>e \<in> set (method_handles st). handle_ok m e" using assms(1) by (simp_all add: handles_ok_def)
  from mem_alloc_facts [OF m assms(2)] assms(3) have m1: "mem_ok m1"
    and c: "if t = 0 then heap m1 = heap m \<and> mbytes m1 = mbytes m
       else fresh_block (heap m) t n (heap m1) \<and>
         mbytes m1 = (\<lambda>x. if \<not> zero_memory_on_free m \<and> t \<le> x \<and> x < t + n then 0 else mbytes m x)" by auto
  have "handle_ok m1 e" if e: "e \<in> set (method_handles st)" for e
  proof (rule handle_frame [OF m m1])
    show "handle_ok m e" using h e by blast
    fix j assume j: "used_view (heap m) (snd e) = Some j" "snd e \<noteq> 0" "8 \<le> j"
    show "used_view (heap m1) (snd e) = Some j \<and> (\<forall>i < 8. mbytes m1 (snd e + i) = mbytes m (snd e + i))"
    proof (cases "t = 0")
      case True
      then show ?thesis using c j(1) by simp
    next
      case False
      then obtain k where k: "used_view (heap m) t = None" "n \<le> k" "used_view (heap m1) = (used_view (heap m))(t \<mapsto> k)"
        "avoids (used_view (heap m)) t k" using c unfolding fresh_block_def by (simp only: if_False) blast
      have "snd e \<noteq> t" using j(1) k(1) by auto
      moreover have "snd e + j \<le> t \<or> t + k \<le> snd e" using k(4) j(1) unfolding avoids_def by blast
      ultimately show ?thesis using c False k(2,3) j(1,3) by auto
    qed
  qed
  then show ?thesis using m1 by (simp add: handles_ok_def)
qed

text \<open>The pointer of a host method is a token of the slot, whatever the slot holds.\<close>

lemma token_of_slot:
  assumes "handles_ok (st, m)"
  shows "\<exists>t st1 m1. imp_to_guest_ptr c s (HostImp f) (st, m) = Some (t, st1, m1) \<and> handles_ok (st1, m1)
    \<and> host_imp_tokens st1 (c, s) = Some t \<and> imp_tokens st1 = (imp_tokens st)(t \<mapsto> HostImp f)
    \<and> imp_at st1 = imp_at st \<and> signature_at st1 = signature_at st \<and> method_handles st1 = method_handles st"
proof (cases "host_imp_tokens st (c, s)")
  case (Some t)
  have "class_at (st\<lparr> imp_tokens := u \<rparr>) = class_at st" for u by (simp add: class_at_def fun_eq_iff)
  then show ?thesis using Some assms
    by (auto simp: imp_to_guest_ptr_def imp_at_def signature_at_def handles_ok_def fun_eq_iff)
next
  case None
  have "mem_ok m" using assms by (simp add: handles_ok_def)
  then obtain t m1 where a: "mem_alloc 4 m = Some (t, m1)" using mem_alloc_total [of m 4] by auto
  have "class_at (st\<lparr> host_imp_tokens := v, imp_tokens := u \<rparr>) = class_at st" for u v by (simp add: class_at_def fun_eq_iff)
  then show ?thesis using None a alloc_handles [OF assms _ a]
    by (auto simp: imp_to_guest_ptr_def imp_at_def signature_at_def handles_ok_def fun_eq_iff)
qed

lemma decode_frame: "method_handles st' = method_handles st \<Longrightarrow> method_handle_decode h (st', m) = method_handle_decode h (st, m)"
  unfolding method_handle_decode_def fst_conv by simp

lemma imp_at_tokens: "imp_at (st\<lparr> imp_tokens := u \<rparr>) = imp_at st"
  by (simp add: imp_at_def class_at_def fun_eq_iff)

lemma set_to_token:
  assumes "method_handle_decode h (st, m) = Some (Some (c, s))" "imp_at st c s = Some (HostImp g)"
    "host_imp_tokens st (c, s) = Some t" "imp_tokens st t = Some (HostImp g)"
  shows "\<exists>u st' m'. method_setImplementation h t (st, m) = Some (u, st', m') \<and> imp_at st' c s = Some (HostImp g)"
proof -
  obtain d where d: "class_at st c = Some d" using imp_class [OF assms(2)] by blast
  note f = set_imp_frame [OF d, of s "HostImp g"]
  show ?thesis
    using assms f by (simp add: method_setImplementation_def maybe_guest_ptr_def imp_to_guest_ptr_def guest_ptr_to_imp_def imp_at_tokens)
qed

text \<open>C29: the pointer a program gets for a host method does not keep standing for it.  Right after the method
  has been exchanged with another host method the pointer still names the saved implementation; but the next
  time the program asks for the implementation of the method, it gets the same pointer, which from then on names
  the other implementation, so that installing the saved pointer leaves that one in place instead of restoring
  the saved one.\<close>

theorem saved_pointer_is_retargeted:
  assumes "handles_ok (st, m)" "((c1, s1), h1) \<in> set (method_handles st)" "((c2, s2), h2) \<in> set (method_handles st)"
    "h1 \<noteq> 0" "h2 \<noteq> 0" "(c1, s1) \<noteq> (c2, s2)"
    "imp_at st c1 s1 = Some (HostImp f)" "imp_at st c2 s2 = Some (HostImp g)"
  shows "\<exists>t st1 m1 st2 st3. method_getImplementation h1 (st, m) = Some (t, st1, m1)
    \<and> guest_ptr_to_imp st1 t = (if t = 0 then None else Some (HostImp f))
    \<and> method_exchangeImplementations h1 h2 (st1, m1) = Some st2
    \<and> guest_ptr_to_imp st2 t = (if t = 0 then None else Some (HostImp f))
    \<and> method_getImplementation h1 (st2, m1) = Some (t, st3, m1)
    \<and> guest_ptr_to_imp st3 t = (if t = 0 then None else Some (HostImp g))
    \<and> (\<exists>u st4 m4. method_setImplementation h1 t (st3, m1) = Some (u, st4, m4) \<and> imp_at st4 c1 s1 = Some (HostImp g))"
proof -
  from token_of_slot [OF assms(1), of c1 s1 f] obtain t st1 m1 where
    t: "imp_to_guest_ptr c1 s1 (HostImp f) (st, m) = Some (t, st1, m1)" "handles_ok (st1, m1)"
    "host_imp_tokens st1 (c1, s1) = Some t" "imp_tokens st1 = (imp_tokens st)(t \<mapsto> HostImp f)"
    "imp_at st1 = imp_at st" "method_handles st1 = method_handles st" by blast
  have h1: "method_handle_decode h1 (st, m) = Some (Some (c1, s1))" by (rule handle_decodes [OF assms(1,2,4)])
  have get: "method_getImplementation h1 (st, m) = Some (t, st1, m1)"
    using h1 assms(7) t(1) by (simp add: method_getImplementation_def maybe_guest_ptr_def)
  have d: "method_handle_decode h1 (st1, m1) = Some (Some (c1, s1))" "method_handle_decode h2 (st1, m1) = Some (Some (c2, s2))"
    using handle_decodes [OF t(2)] assms(2-5) t(6) by simp_all
  have i: "imp_at st1 c1 s1 = Some (HostImp f)" "imp_at st1 c2 s2 = Some (HostImp g)" using t(5) assms(7,8) by simp_all
  let ?st2 = "swapped c1 s1 (HostImp f) c2 s2 (HostImp g) st1"
  note v = swapped_views [OF i]
  have ex: "method_exchangeImplementations h1 h2 (st1, m1) = Some ?st2" by (rule exchange_swapped [OF d i])
  have i2: "imp_at ?st2 c1 s1 = Some (HostImp g)" using v(1) assms(6) by auto
  have d2: "method_handle_decode h1 (?st2, m1) = Some (Some (c1, s1))" using d(1) decode_frame [OF v(3)] by simp
  let ?st3 = "?st2\<lparr> imp_tokens := (imp_tokens ?st2)(t \<mapsto> HostImp g) \<rparr>"
  have tok: "host_imp_tokens ?st2 (c1, s1) = Some t" using t(3) v(4) by simp
  then have get2: "method_getImplementation h1 (?st2, m1) = Some (t, ?st3, m1)"
    using d2 i2 by (simp add: method_getImplementation_def maybe_guest_ptr_def imp_to_guest_ptr_def)
  have "method_handle_decode h1 (?st3, m1) = Some (Some (c1, s1))"
    using d2 decode_frame [of ?st3 ?st2 h1 m1] by simp
  moreover have "imp_at ?st3 c1 s1 = Some (HostImp g)" unfolding imp_at_tokens by (rule i2)
  moreover have "host_imp_tokens ?st3 (c1, s1) = Some t" "imp_tokens ?st3 t = Some (HostImp g)" using tok by simp_all
  ultimately have last: "\<exists>u st4 m4. method_setImplementation h1 t (?st3, m1) = Some (u, st4, m4) \<and> imp_at st4 c1 s1 = Some (HostImp g)"
    by (rule set_to_token)
  have "guest_ptr_to_imp st1 t = (if t = 0 then None else Some (HostImp f))" using t(4) by (simp add: guest_ptr_to_imp_def)
  moreover have "guest_ptr_to_imp ?st2 t = (if t = 0 then None else Some (HostImp f))"
    using t(4) v(5) by (simp add: guest_ptr_to_imp_def)
  moreover have "guest_ptr_to_imp ?st3 t = (if t = 0 then None else Some (HostImp g))" by (simp add: guest_ptr_to_imp_def)
  ultimately show ?thesis using get ex get2 last by blast
qed

end
