(* ===== verification/ObjC_Class_Init.thy ===== *)
theory ObjC_Class_Init
  imports ObjC_Classes_Props
begin

text \<open>
  The initialisation of classes, for \<open>+initialize\<close> methods that send messages themselves: every class is
  initialised once, after its superclasses, and the registers of the outer message survive.
\<close>

section \<open>Programs whose \<open>+initialize\<close> methods send messages\<close>

fun message_all :: "(nat \<Rightarrow> 's \<Rightarrow> 's option) \<Rightarrow> nat list \<Rightarrow> 's \<Rightarrow> 's option" where
  "message_all f [] e = Some e"
| "message_all f (t # ts) e = do { e1 \<leftarrow> f t e; message_all f ts e1 }"

text \<open>
  The method of class \<open>c\<close> spoils the registers, is noted in a log and messages the classes of \<open>script c\<close>,
  each of which is initialised before it gets its message.  The depth of the nesting is bounded by fuel.
\<close>

type_synonym init_env = "nat list dispatch_env"

fun run_initialize :: "(nat \<Rightarrow> nat list) \<Rightarrow> nat \<Rightarrow> nat \<Rightarrow> nat \<Rightarrow> init_env \<Rightarrow> init_env option" where
  "run_initialize script sel 0 c e = None"
| "run_initialize script sel (Suc n) c e =
     message_all (ensure_class_initialized (\<lambda>_. Some sel) (run_initialize script sel n)) (script c)
       (e\<lparr> arg_regs := [], drest := drest e @ [c] \<rparr>)"

abbreviation ensure_n :: "(nat \<Rightarrow> nat list) \<Rightarrow> nat \<Rightarrow> nat \<Rightarrow> nat \<Rightarrow> init_env \<Rightarrow> init_env option" where
  "ensure_n script sel n \<equiv> ensure_class_initialized (\<lambda>_. Some sel) (run_initialize script sel n)"

text \<open>The classes whose metaclass or its superclasses implement the method.\<close>

definition initializes :: "class_state \<Rightarrow> mem \<Rightarrow> nat \<Rightarrow> nat \<Rightarrow> bool" where
  "initializes st m sel c = (\<exists>mc. read_u32 m c = Some mc \<and> class_has_method st mc sel = Some True)"

text \<open>\<open>a\<close> is a superclass of \<open>c\<close>, at any distance.\<close>

definition above :: "class_state \<Rightarrow> nat \<Rightarrow> nat \<Rightarrow> bool" where
  "above st a c = (\<exists>n. ancestor st (Suc n) c = a \<and> class_at st a \<noteq> None)"

text \<open>The classes of the program: a hierarchy, finitely many, each with a metaclass.\<close>

definition init_world :: "class_state \<Rightarrow> mem \<Rightarrow> (nat \<Rightarrow> nat) \<Rightarrow> bool" where
  "init_world st m rank = (hierarchy st rank \<and> finite {c. class_at st c \<noteq> None} \<and>
     (\<forall>c. class_at st c \<noteq> None \<longrightarrow> (\<exists>mc. read_u32 m c = Some mc \<and> class_at st mc \<noteq> None)))"

text \<open>
  What is true between messages: the classes that were initialised are closed under superclasses, those
  of them that have the method are in the log once, and behind their superclasses.
\<close>

definition init_ok :: "class_state \<Rightarrow> mem \<Rightarrow> nat \<Rightarrow> init_env \<Rightarrow> bool" where
  "init_ok st m sel e =
     (class_table (classes e) = class_table st \<and> phantom_classes (classes e) = phantom_classes st \<and> dmem e = m
     \<and> (\<forall>c d. c \<in> initialized_classes (classes e) \<and> class_at st c = Some d \<longrightarrow>
          (superclass d = 0 \<or> superclass d \<in> initialized_classes (classes e)))
     \<and> (\<forall>c. c \<in> set (drest e) \<longleftrightarrow> c \<in> initialized_classes (classes e) \<and> class_at st c \<noteq> None \<and> initializes st m sel c)
     \<and> distinct (drest e)
     \<and> (\<forall>xs c ys a. drest e = xs @ c # ys \<and> above st a c \<and> initializes st m sel a \<longrightarrow> a \<in> set xs))"

lemma init_okI:
  assumes "class_table (classes e) = class_table st" "phantom_classes (classes e) = phantom_classes st" "dmem e = m"
    "\<And>c d. c \<in> initialized_classes (classes e) \<Longrightarrow> class_at st c = Some d \<Longrightarrow>
       superclass d = 0 \<or> superclass d \<in> initialized_classes (classes e)"
    "\<And>c. c \<in> set (drest e) \<longleftrightarrow> c \<in> initialized_classes (classes e) \<and> class_at st c \<noteq> None \<and> initializes st m sel c"
    "distinct (drest e)"
    "\<And>xs c ys a. drest e = xs @ c # ys \<Longrightarrow> above st a c \<Longrightarrow> initializes st m sel a \<Longrightarrow> a \<in> set xs"
  shows "init_ok st m sel e"
  unfolding init_ok_def using assms by (intro conjI allI impI) (erule conjE | assumption | metis)+

definition grows :: "init_env \<Rightarrow> init_env \<Rightarrow> bool" where
  "grows e e' = (initialized_classes (classes e) \<subseteq> initialized_classes (classes e') \<and> (\<exists>new. drest e' = drest e @ new))"

lemma grows_refl: "grows e e" by (simp add: grows_def)

lemma grows_trans: "grows e1 e2 \<Longrightarrow> grows e2 e3 \<Longrightarrow> grows e1 e3"
  unfolding grows_def by auto

text \<open>The classes still to be initialised bound the nesting.\<close>

definition pending :: "class_state \<Rightarrow> init_env \<Rightarrow> nat set" where
  "pending st e = {c. class_at st c \<noteq> None} - initialized_classes (classes e)"

lemma pending_grows: "grows e e' \<Longrightarrow> finite (pending st e) \<Longrightarrow> card (pending st e') \<le> card (pending st e)"
  by (rule card_mono) (auto simp: pending_def grows_def)

lemma init_ok_regs: "init_ok st m sel (e\<lparr> arg_regs := r \<rparr>) = init_ok st m sel e"
  by (simp add: init_ok_def)

lemma grows_regs: "grows e (e'\<lparr> arg_regs := r \<rparr>) = grows e e'"
  by (simp add: grows_def)

text \<open>Superclasses of initialised classes are initialised.\<close>

lemma above_closed:
  assumes ok: "init_ok st m sel e" and h: "hierarchy st rank"
    and c: "class_at st c = Some d" "superclass d = 0 \<or> superclass d \<in> initialized_classes (classes e)"
    and a: "above st a c"
  shows "a \<in> initialized_classes (classes e)"
proof -
  obtain n where n: "ancestor st (Suc n) c = a" "class_at st a \<noteq> None" using a by (auto simp: above_def)
  have *: "x = 0 \<or> x \<in> initialized_classes (classes e) \<Longrightarrow> x = 0 \<or> class_at st x \<noteq> None \<Longrightarrow> ancestor st k x \<noteq> 0
      \<Longrightarrow> ancestor st k x \<in> initialized_classes (classes e)" for k x
  proof (induction k arbitrary: x)
    case (Suc k)
    have "x \<noteq> 0" using Suc.prems(3) ancestor_nil [OF h, of "Suc k"] by metis
    then obtain b where b: "class_at st x = Some b" "x \<in> initialized_classes (classes e)" using Suc.prems by auto
    have s: "get_superclass st x = superclass b" using class_at_borrow [OF b(1)] by (simp add: get_superclass_def)
    have "superclass b = 0 \<or> superclass b \<in> initialized_classes (classes e)"
      using ok b unfolding init_ok_def by blast
    moreover have "superclass b = 0 \<or> class_at st (superclass b) \<noteq> None" using h b(1) unfolding hierarchy_def by blast
    moreover have "ancestor st k (superclass b) \<noteq> 0" using Suc.prems(3) s by simp
    ultimately show ?case using Suc.IH [of "superclass b"] s by simp
  qed simp
  have s: "get_superclass st c = superclass d" using class_at_borrow [OF c(1)] by (simp add: get_superclass_def)
  have "a \<noteq> 0" using n(2) class_at_borrow by blast
  moreover have "superclass d = 0 \<or> class_at st (superclass d) \<noteq> None" using h c(1) unfolding hierarchy_def by blast
  ultimately show ?thesis using * [of "superclass d" n] c(2) n(1) s by simp
qed

text \<open>Entering a class.\<close>

lemma init_ok_enter:
  assumes ok: "init_ok st m sel e" and h: "hierarchy st rank"
    and c: "class_at st c = Some d" "superclass d = 0 \<or> superclass d \<in> initialized_classes (classes e)"
      "c \<notin> initialized_classes (classes e)"
  shows "initializes st m sel c \<Longrightarrow> init_ok st m sel ((mark_initialized c e)\<lparr> arg_regs := r, drest := drest e @ [c] \<rparr>)"
    "\<not> initializes st m sel c \<Longrightarrow> init_ok st m sel (mark_initialized c e)"
proof -
  let ?new = "insert c (initialized_classes (classes e))"
  have frame: "class_table (classes e) = class_table st" "phantom_classes (classes e) = phantom_classes st" "dmem e = m"
    "distinct (drest e)" using ok unfolding init_ok_def by blast+
  have closed: "superclass d' = 0 \<or> superclass d' \<in> ?new" if a: "c' \<in> ?new" "class_at st c' = Some d'" for c' d'
  proof (cases "c' = c")
    case True
    then show ?thesis using a(2) c(1,2) by auto
  next
    case False
    then have "c' \<in> initialized_classes (classes e)" using a(1) by blast
    then show ?thesis using ok a(2) unfolding init_ok_def by blast
  qed
  have log: "x \<in> set (drest e) \<longleftrightarrow> x \<in> initialized_classes (classes e) \<and> class_at st x \<noteq> None \<and> initializes st m sel x" for x
    using ok unfolding init_ok_def by blast
  have order: "a \<in> set xs" if "drest e = xs @ x # ys" "above st a x" "initializes st m sel a" for xs x ys a
    using ok that unfolding init_ok_def by blast
  have new: "initialized_classes (classes (mark_initialized c e)) = ?new" "drest (mark_initialized c e) = drest e"
    "class_table (classes (mark_initialized c e)) = class_table (classes e)" "dmem (mark_initialized c e) = dmem e"
    "phantom_classes (classes (mark_initialized c e)) = phantom_classes (classes e)"
    by (simp_all add: mark_initialized_def)
  show "init_ok st m sel (mark_initialized c e)" if n: "\<not> initializes st m sel c"
  proof (rule init_okI, unfold new)
    show "x \<in> set (drest e) \<longleftrightarrow> x \<in> ?new \<and> class_at st x \<noteq> None \<and> initializes st m sel x" for x
      using log n by blast
  qed (fact frame closed | rule order, assumption+)+
  assume i: "initializes st m sel c"
  have later: "a \<in> set xs" if eq: "drest e @ [c] = xs @ x # ys" and a: "above st a x" "initializes st m sel a" for xs x ys a
  proof (cases ys rule: rev_cases)
    case Nil
    then have x: "x = c" "xs = drest e" using eq by simp_all
    have "a \<in> initialized_classes (classes e)" using above_closed [OF ok h c(1,2)] a(1) x(1) by blast
    then show ?thesis using log a x(2) by (auto simp: above_def)
  next
    case (snoc zs z)
    then show ?thesis using order [of xs x zs a] eq a by simp
  qed
  have dist: "distinct (drest e @ [c])" using frame(4) log c(3) by auto
  have log': "x \<in> set (drest e @ [c]) \<longleftrightarrow> x \<in> ?new \<and> class_at st x \<noteq> None \<and> initializes st m sel x" for x
    using log i c(1) by auto
  show "init_ok st m sel ((mark_initialized c e)\<lparr> arg_regs := r, drest := drest e @ [c] \<rparr>)"
  proof (rule init_okI)
    let ?e = "(mark_initialized c e)\<lparr> arg_regs := r, drest := drest e @ [c] \<rparr>"
    have v: "initialized_classes (classes ?e) = ?new" "drest ?e = drest e @ [c]" "dmem ?e = dmem e"
      "class_table (classes ?e) = class_table (classes e)" "phantom_classes (classes ?e) = phantom_classes (classes e)"
      by (simp_all add: mark_initialized_def)
    show "class_table (classes ?e) = class_table st" "phantom_classes (classes ?e) = phantom_classes st" "dmem ?e = m"
      unfolding v by (fact frame)+
    show "superclass d' = 0 \<or> superclass d' \<in> initialized_classes (classes ?e)"
      if "c' \<in> initialized_classes (classes ?e)" "class_at st c' = Some d'" for c' d'
      using closed [OF _ that(2)] that(1) unfolding v .
    show "distinct (drest ?e)" unfolding v by (fact dist)
    show "x \<in> set (drest ?e) \<longleftrightarrow> x \<in> initialized_classes (classes ?e) \<and> class_at st x \<noteq> None \<and> initializes st m sel x" for x
      unfolding v by (fact log')
    show "a \<in> set xs" if "drest ?e = xs @ x # ys" "above st a x" "initializes st m sel a" for xs x ys a
      using later that unfolding v by blast
  qed
qed

text \<open>The set of classes changes only in what is initialised, so a metaclass answers the same.\<close>

lemma has_method_same:
  assumes "init_world st m rank" "class_at st c \<noteq> None"
    and t: "class_table (classes e) = class_table st" "phantom_classes (classes e) = phantom_classes st" "dmem e = m"
  shows "\<exists>mc. read_u32 (dmem e) c = Some mc \<and> class_has_method (classes e) mc sel = Some (initializes st m sel c)"
proof -
  obtain mc where mc: "read_u32 m c = Some mc" "class_at st mc \<noteq> None" using assms(1,2) unfolding init_world_def by blast
  have h: "hierarchy st rank" using assms(1) by (simp add: init_world_def)
  note s = same_classes [OF t(1,2)]
  from lookup_main [OF h mc(2), of sel] obtain d where d: "nearest st mc sel d" "class_has_method st mc sel = Some (d \<noteq> 0)"
    by blast
  have "hierarchy (classes e) rank" "class_at (classes e) mc \<noteq> None" using h mc(2) s(1,2) by simp_all
  from lookup_main [OF this, of sel] obtain d' where d': "nearest st mc sel d'"
    "class_has_method (classes e) mc sel = Some (d' \<noteq> 0)" using s(3) by auto
  have "d' = d" by (rule nearest_unique [OF d'(1) d(1) h])
  moreover have "initializes st m sel c \<longleftrightarrow> d \<noteq> 0" using mc(1) d(2) by (simp add: initializes_def)
  ultimately show ?thesis using mc(1) d'(2) t(3) by auto
qed

text \<open>What a message to a class does, when the nesting it can cause is covered by the fuel.\<close>

definition ensures :: "class_state \<Rightarrow> mem \<Rightarrow> nat \<Rightarrow> nat \<Rightarrow> init_env \<Rightarrow> init_env option \<Rightarrow> bool" where
  "ensures st m sel c e r = (\<exists>e'. r = Some e' \<and> init_ok st m sel e' \<and> grows e e'
     \<and> (c \<noteq> 0 \<longrightarrow> c \<in> initialized_classes (classes e')) \<and> arg_regs e' = arg_regs e)"

lemma message_all_ok:
  assumes step: "\<And>t e. init_ok st m sel e \<Longrightarrow> card (pending st e) \<le> n \<Longrightarrow> ensures st m sel t e (f t e)"
    and fin: "finite {c. class_at st c \<noteq> None}"
  shows "init_ok st m sel e \<Longrightarrow> card (pending st e) \<le> n \<Longrightarrow>
    \<exists>e'. message_all f ts e = Some e' \<and> init_ok st m sel e' \<and> grows e e'"
proof (induction ts arbitrary: e)
  case Nil
  then show ?case using grows_refl by simp
next
  case (Cons t ts)
  from step [OF Cons.prems] obtain e1 where e1: "f t e = Some e1" "init_ok st m sel e1" "grows e e1"
    unfolding ensures_def by blast
  have "finite (pending st e)" using fin by (simp add: pending_def)
  then have "card (pending st e1) \<le> n" using pending_grows [OF e1(3)] Cons.prems(2) by fastforce
  from Cons.IH [OF e1(2) this] obtain e' where "message_all f ts e1 = Some e'" "init_ok st m sel e'" "grows e1 e'" by blast
  then show ?case using e1 grows_trans by auto
qed

lemma init_ok_mark_other:
  assumes ok: "init_ok st m sel e" and c: "class_at st c = None"
  shows "init_ok st m sel (mark_initialized c e)"
proof (rule init_okI)
  let ?e = "mark_initialized c e"
  have v: "initialized_classes (classes ?e) = insert c (initialized_classes (classes e))" "drest ?e = drest e" "dmem ?e = dmem e"
    "class_table (classes ?e) = class_table (classes e)" "phantom_classes (classes ?e) = phantom_classes (classes e)"
    by (simp_all add: mark_initialized_def)
  show "class_table (classes ?e) = class_table st" "phantom_classes (classes ?e) = phantom_classes st" "dmem ?e = m"
    "distinct (drest ?e)" unfolding v using ok unfolding init_ok_def by blast+
  show "superclass d' = 0 \<or> superclass d' \<in> initialized_classes (classes ?e)"
    if a: "c' \<in> initialized_classes (classes ?e)" "class_at st c' = Some d'" for c' d'
  proof -
    have "c' \<noteq> c" using a(2) c by auto
    then have "c' \<in> initialized_classes (classes e)" using a(1) unfolding v by blast
    then show ?thesis using ok a(2) unfolding v init_ok_def by blast
  qed
  have "x \<in> set (drest e) \<longleftrightarrow> x \<in> initialized_classes (classes e) \<and> class_at st x \<noteq> None \<and> initializes st m sel x" for x
    using ok unfolding init_ok_def by blast
  then show "x \<in> set (drest ?e) \<longleftrightarrow> x \<in> initialized_classes (classes ?e) \<and> class_at st x \<noteq> None \<and> initializes st m sel x" for x
    unfolding v using c by blast
  show "a \<in> set xs" if "drest ?e = xs @ x # ys" "above st a x" "initializes st m sel a" for xs x ys a
    using that ok unfolding v init_ok_def by blast
qed

lemma ensure_class:
  assumes w: "init_world st m rank" and ok: "init_ok st m sel e" and n: "card (pending st e) \<le> n"
    and deep: "\<And>k t e. n = Suc k \<Longrightarrow> init_ok st m sel e \<Longrightarrow> card (pending st e) \<le> k \<Longrightarrow>
      ensures st m sel t e (ensure_n script sel k t e)"
  shows "ensures st m sel c e (ensure_n script sel n c e)"
  using ok n
proof (induction "rank c" arbitrary: c e rule: less_induct)
  case less
  have h: "hierarchy st rank" and fin: "finite {c. class_at st c \<noteq> None}" using w by (simp_all add: init_world_def)
  have t: "class_table (classes e) = class_table st" using less.prems(1) unfolding init_ok_def by blast
  show ?case
  proof (cases "c = 0 \<or> c \<in> initialized_classes (classes e)")
    case True
    then show ?thesis using less.prems(1) grows_refl [of e]
      by (auto simp: ensures_def ensure_class_initialized.simps [of _ _ c])
  next
    case False
    note run = ensure_class_initialized.simps [of "\<lambda>_. Some sel" "run_initialize script sel n" c e, unfolded if_not_P [OF False]]
    show ?thesis
    proof (cases "class_at st c")
      case None
      have "ensure_n script sel n c e = Some (mark_initialized c e)"
        using run None False t by (auto simp: class_at_def split: option.splits class_object.splits)
      moreover have "init_ok st m sel (mark_initialized c e)"
        by (rule init_ok_mark_other [OF less.prems(1) None])
      ultimately show ?thesis by (auto simp: ensures_def grows_def mark_initialized_def)
    next
      case (Some d)
      have tab: "class_table (classes e) c = Some (ClassHost d)" using class_at_borrow [OF Some] t by simp
      have up: "superclass d = 0 \<or> (class_at st (superclass d) \<noteq> None \<and> rank (superclass d) < rank c)"
        using h Some unfolding hierarchy_def by blast
      have "ensures st m sel (superclass d) e (ensure_n script sel n (superclass d) e)"
      proof (cases "superclass d = 0")
        case True
        then show ?thesis using less.prems(1) grows_refl [of e]
          by (auto simp: ensures_def ensure_class_initialized.simps [of _ _ 0])
      next
        case False
        then have "rank (superclass d) < rank c" using up by simp
        then show ?thesis by (rule less.hyps [OF _ less.prems])
      qed
      then obtain e1 where e1: "ensure_n script sel n (superclass d) e = Some e1" "init_ok st m sel e1" "grows e e1"
        "superclass d \<noteq> 0 \<longrightarrow> superclass d \<in> initialized_classes (classes e1)" "arg_regs e1 = arg_regs e"
        unfolding ensures_def by blast
      note run1 = run [unfolded tab option.case class_object.case e1(1) bind.bind_lunit]
      show ?thesis
      proof (cases "c \<in> initialized_classes (classes e1)")
        case True
        then show ?thesis using run1 e1 by (simp add: ensures_def)
      next
        case new: False
        let ?e2 = "mark_initialized c e1"
        have t1: "class_table (classes e1) = class_table st" "phantom_classes (classes e1) = phantom_classes st" "dmem e1 = m"
          using e1(2) unfolding init_ok_def by blast+
        obtain mc where mc: "read_u32 (dmem ?e2) c = Some mc" "class_has_method (classes ?e2) mc sel = Some (initializes st m sel c)"
          using has_method_same [OF w, of c ?e2] Some t1 by (auto simp: mark_initialized_def)
        have sup: "superclass d = 0 \<or> superclass d \<in> initialized_classes (classes e1)" using e1(4) by blast
        note enter = init_ok_enter [OF e1(2) h Some sup new]
        have g2: "grows e ?e2" "arg_regs ?e2 = arg_regs e" "c \<in> initialized_classes (classes ?e2)"
          using e1(3,5) by (auto simp: grows_def mark_initialized_def)
        show ?thesis
        proof (cases "initializes st m sel c")
          case False
          then have "ensure_n script sel n c e = Some ?e2" using run1 new mc by (simp add: Let_def)
          then show ?thesis using enter(2) [OF False] g2 by (simp add: ensures_def)
        next
          case True
          let ?e3 = "?e2\<lparr> arg_regs := [], drest := drest ?e2 @ [c] \<rparr>"
          have ok3: "init_ok st m sel ?e3" using enter(1) [OF True, of "[]"] by (simp add: mark_initialized_def)
          have fin1: "finite (pending st e)" "finite (pending st e1)" using fin by (simp_all add: pending_def)
          have "pending st ?e3 = pending st e1 - {c}" "c \<in> pending st e1"
            using Some new by (auto simp: pending_def mark_initialized_def)
          then have less1: "card (pending st ?e3) < card (pending st e1)" using card_Diff1_less [OF fin1(2)] by simp
          have "card (pending st e1) \<le> n" using pending_grows [OF e1(3) fin1(1)] less.prems(2) by simp
          then obtain k where k: "n = Suc k" "card (pending st ?e3) \<le> k" using less1 by (cases n) simp_all
          from message_all_ok [OF deep [OF k(1)] fin ok3 k(2), of "script c"] obtain e' where
            e': "message_all (ensure_n script sel k) (script c) ?e3 = Some e'" "init_ok st m sel e'" "grows ?e3 e'" by blast
          have "run_initialize script sel n c ?e2 = Some e'" using e'(1) k(1) by simp
          then have "ensure_n script sel n c e = Some (e'\<lparr> arg_regs := arg_regs ?e2 \<rparr>)"
            using run1 new mc True by (simp add: Let_def)
          moreover have "grows ?e2 e'" using e'(3) by (auto simp: grows_def)
          ultimately show ?thesis
            using e'(2) g2 grows_trans [OF g2(1)] by (auto simp: ensures_def init_ok_regs grows_regs grows_def)
        qed
      qed
    qed
  qed
qed

lemma ensure_all:
  assumes w: "init_world st m rank"
  shows "init_ok st m sel e \<Longrightarrow> card (pending st e) \<le> n \<Longrightarrow> ensures st m sel c e (ensure_n script sel n c e)"
proof (induction n arbitrary: c e)
  case 0
  show ?case by (rule ensure_class [OF w 0]) simp
next
  case (Suc n)
  show ?case by (rule ensure_class [OF w Suc.prems]) (use Suc.IH in simp)
qed

text \<open>C27: whatever messages the \<open>+initialize\<close> methods send, also to classes that are being initialised, the
  first message to a class ends with the class and all its superclasses initialised; each method that exists
  has run exactly once, a superclass before its subclasses, the registers with the arguments of the outer
  message are unchanged, and a second message does nothing.\<close>

theorem initialized_once_in_order:
  assumes "init_world st m rank" "initialized_classes st = {}" "class_at st c \<noteq> None"
    "card {c. class_at st c \<noteq> None} \<le> n" "e = \<lparr> classes = st, dmem = m, arg_regs = regs, drest = [] \<rparr>"
  shows "\<exists>e'. ensure_n script sel n c e = Some e' \<and> arg_regs e' = regs \<and> distinct (drest e')
    \<and> (\<forall>a. a = c \<or> above st a c \<longrightarrow> a \<in> initialized_classes (classes e'))
    \<and> (\<forall>a. a \<in> set (drest e') \<longleftrightarrow> a \<in> initialized_classes (classes e') \<and> class_at st a \<noteq> None \<and> initializes st m sel a)
    \<and> (\<forall>xs x ys a. drest e' = xs @ x # ys \<and> above st a x \<and> initializes st m sel a \<longrightarrow> a \<in> set xs)
    \<and> ensure_n script sel n c e' = Some e'"
proof -
  have h: "hierarchy st rank" using assms(1) by (simp add: init_world_def)
  have ok: "init_ok st m sel e" using assms(2,5) by (simp add: init_ok_def)
  have "card (pending st e) \<le> n" using assms(2,4,5) by (simp add: pending_def)
  from ensure_all [OF assms(1) ok this, of c script] obtain e' where e': "ensure_n script sel n c e = Some e'"
    "init_ok st m sel e'" "c \<noteq> 0 \<longrightarrow> c \<in> initialized_classes (classes e')" "arg_regs e' = arg_regs e"
    unfolding ensures_def by blast
  obtain d where d: "class_at st c = Some d" using assms(3) by blast
  have c: "c \<in> initialized_classes (classes e')" using e'(3) class_at_borrow [OF d] by blast
  have "superclass d = 0 \<or> superclass d \<in> initialized_classes (classes e')"
    using e'(2) c d unfolding init_ok_def by blast
  then have up: "\<forall>a. a = c \<or> above st a c \<longrightarrow> a \<in> initialized_classes (classes e')"
    using above_closed [OF e'(2) h d] c by blast
  have "ensure_n script sel n c e' = Some e'" using c by (simp add: ensure_class_initialized.simps)
  moreover have "distinct (drest e')"
    "\<forall>a. a \<in> set (drest e') \<longleftrightarrow> a \<in> initialized_classes (classes e') \<and> class_at st a \<noteq> None \<and> initializes st m sel a"
    "\<forall>xs x ys a. drest e' = xs @ x # ys \<and> above st a x \<and> initializes st m sel a \<longrightarrow> a \<in> set xs"
    using e'(2) unfolding init_ok_def by blast+
  moreover have "arg_regs e' = regs" using e'(4) assms(5) by simp
  ultimately show ?thesis using e'(1) up by blast
qed

end
