(* ===== verification/ObjC_Class_Samples.thy ===== *)
theory ObjC_Class_Samples
  imports ObjC_Class_Init
begin

text \<open>
  A small program with two classes and their metaclasses, and the properties of the class table applied to it.
\<close>

section \<open>A program with four classes\<close>

text \<open>
  The class 8192 and its subclass 12288, with the metaclasses 16384 and 20480; the root metaclass implements
  \<open>initialize\<close>, selector 7, and the class messages its own subclass from it.
\<close>

definition sample_class :: "nat \<Rightarrow> (nat \<Rightarrow> imp option) \<Rightarrow> class_object" where
  "sample_class above_it ms = ClassHost (default_class\<lparr> superclass := above_it, methods := ms \<rparr>)"

definition sample_classes :: class_state where
  "sample_classes = \<lparr> class_table = [8192 \<mapsto> sample_class 0 [5 \<mapsto> HostImp 1], 12288 \<mapsto> sample_class 8192 [6 \<mapsto> HostImp 2],
      16384 \<mapsto> sample_class 0 [7 \<mapsto> GuestImp 64], 20480 \<mapsto> sample_class 16384 Map.empty],
     phantom_classes = Map.empty, method_handles = [], imp_tokens = Map.empty, host_imp_tokens = Map.empty,
     initialized_classes = {} \<rparr>"

definition sample_rank :: "nat \<Rightarrow> nat" where
  "sample_rank c = (if c = 12288 \<or> c = 20480 then 1 else 0)"

lemma sample_class_at:
  "class_at sample_classes c =
     (if c = 8192 then Some (default_class\<lparr> superclass := 0, methods := [5 \<mapsto> HostImp 1] \<rparr>)
      else if c = 12288 then Some (default_class\<lparr> superclass := 8192, methods := [6 \<mapsto> HostImp 2] \<rparr>)
      else if c = 16384 then Some (default_class\<lparr> superclass := 0, methods := [7 \<mapsto> GuestImp 64] \<rparr>)
      else if c = 20480 then Some (default_class\<lparr> superclass := 16384, methods := Map.empty \<rparr>)
      else None)"
  by (simp add: class_at_def sample_classes_def sample_class_def)

lemma sample_hierarchy: "hierarchy sample_classes sample_rank"
proof -
  have "class_table sample_classes 0 = None" "phantom_classes sample_classes 0 = None" by (simp_all add: sample_classes_def)
  then show ?thesis unfolding hierarchy_def sample_class_at by (auto simp: sample_rank_def default_class_def)
qed

section \<open>Its memory\<close>

definition sample_memory :: mem where
  "sample_memory = (the (mem_boot 4096))\<lparr> mbytes := (\<lambda>_. 0)(8193 := 64, 12289 := 80, 16385 := 64, 20481 := 64) \<rparr>"

lemma sample_memory_facts:
  "mem_ok sample_memory" "null_segment_size sample_memory = 4096" "free_view (heap sample_memory) = [4096 \<mapsto> 4293914624]"
proof -
  obtain m where m: "mem_boot 4096 = Some m" "mem_ok m" "null_segment_size m = 4096"
    "free_view (heap m) = [4096 \<mapsto> 4293914624]"
    using mem_boot_spec [of 4096] by auto
  then show "mem_ok sample_memory" "null_segment_size sample_memory = 4096"
    "free_view (heap sample_memory) = [4096 \<mapsto> 4293914624]"
    by (simp_all add: sample_memory_def mem_ok_def)
qed

lemma sample_isa:
  "read_u32 sample_memory 8192 = Some 16384" "read_u32 sample_memory 12288 = Some 20480"
  "read_u32 sample_memory 16384 = Some 16384" "read_u32 sample_memory 20480 = Some 16384"
proof -
  have r: "mem_read 4 sample_memory p = Some (map (\<lambda>i. mbytes sample_memory (p + i)) [0..<4])"
    if "4096 \<le> p" "p < 65536" for p
    by (rule read_ordinary) (use that sample_memory_facts(2) in \<open>simp_all add: ordinary_def\<close>)
  have u: "[0..<4] = [0, 1, 2, 3 :: nat]" by (simp add: upt_rec)
  have b: "mbytes sample_memory = (\<lambda>_. 0)(8193 := 64, 12289 := 80, 16385 := 64, 20481 := 64)"
    by (simp add: sample_memory_def)
  show "read_u32 sample_memory 8192 = Some 16384" "read_u32 sample_memory 12288 = Some 20480"
    "read_u32 sample_memory 16384 = Some 16384" "read_u32 sample_memory 20480 = Some 16384"
    by (simp_all add: read_u32_def r u b from_le_bytes_def)
qed

lemma sample_world: "init_world sample_classes sample_memory sample_rank"
proof -
  have "{c. class_at sample_classes c \<noteq> None} \<subseteq> {8192, 12288, 16384, 20480}" by (auto simp: sample_class_at split: if_splits)
  then have "finite {c. class_at sample_classes c \<noteq> None}" by (rule finite_subset) simp
  moreover have "\<exists>mc. read_u32 sample_memory c = Some mc \<and> class_at sample_classes mc \<noteq> None"
    if "class_at sample_classes c \<noteq> None" for c
  proof -
    have "c = 8192 \<or> c = 12288 \<or> c = 16384 \<or> c = 20480" using that by (auto simp: sample_class_at split: if_splits)
    then show ?thesis using sample_isa by (elim disjE) (simp_all add: sample_class_at)
  qed
  ultimately show ?thesis using sample_hierarchy by (simp add: init_world_def)
qed

text \<open>Two handles for the methods 5 and 6 of the two classes.\<close>

lemma room_after_alloc:
  assumes "mem_ok m" "free_view (heap m) = [4096 \<mapsto> 4293914624]" "mem_alloc 8 m = Some (p, m1)"
  shows "p \<noteq> 0 \<and> (\<exists>q l. free_view (heap m1) q = Some l \<and> 16 \<le> l)"
proof -
  have inv: "alloc_inv (heap m)" using assms(1) by (simp add: mem_ok_def)
  have r: "aligned_size_opt 8 = Some 16" by (simp add: aligned_size_opt_def PAGE_SIZE_def MIN_CHUNK_SIZE_def align_def checked_add32_def)
  from allocator_alloc_cases [OF alloc_inv_parts(1) [OF inv], of 8] r assms(2) obtain b a' where
    b: "allocator_alloc 8 (heap m) = Some (b, a')" "alloc_effect 16 (heap m) b a'" by (auto split: if_splits)
  have "p = b" "heap m1 = a'" using assms(3) b(1) by (auto simp: mem_alloc_def Let_def frames split: if_splits)
  moreover have "b = 4096" using b(2) assms(2) by (auto simp: alloc_effect_def split: if_splits)
  moreover obtain k where "carve (free_view (heap m)) b 4293914624 16 k (free_view a')"
    using b(2) assms(2) by (auto simp: alloc_effect_def split: if_splits)
  ultimately show ?thesis using assms(2) by (auto simp: carve_def)
qed

lemma sample_handles:
  "\<exists>st m h1 h2. handles_ok (st, m) \<and> st = sample_classes\<lparr> method_handles := [((12288, 6), h2), ((8192, 5), h1)] \<rparr>
    \<and> h1 \<noteq> 0 \<and> h2 \<noteq> 0"
proof -
  have m: "mem_ok sample_memory" by (rule sample_memory_facts)
  have ok: "handles_ok (sample_classes, sample_memory)" using m by (simp add: handles_ok_def sample_classes_def)
  obtain h1 ma where a: "mem_alloc 8 sample_memory = Some (h1, ma)" using mem_alloc_total [OF m, of 8] by auto
  from new_handle [OF ok _ _ a, of 8192 5] obtain m1 where m1: "mem_ok m1" "heap m1 = heap ma" "handle_ok m1 ((8192, 5), h1)"
    by auto
  from room_after_alloc [OF m sample_memory_facts(3) a] obtain q l where q: "h1 \<noteq> 0" "free_view (heap m1) q = Some l" "16 \<le> l"
    using m1(2) by auto
  have r: "aligned_size_opt 8 = Some 16" by (simp add: aligned_size_opt_def PAGE_SIZE_def MIN_CHUNK_SIZE_def align_def checked_add32_def)
  from mem_alloc_succeeds [OF m1(1) _ r q(2,3)] obtain h2 mb where b: "mem_alloc 8 m1 = Some (h2, mb)" "h2 \<noteq> 0" by auto
  let ?st1 = "sample_classes\<lparr> method_handles := [((8192, 5), h1)] \<rparr>"
  have ok1: "handles_ok (?st1, m1)" using m1 by (simp add: handles_ok_def)
  from new_handle [OF ok1 _ _ b(1), of 12288 6] obtain m2 where m2: "mem_ok m2" "handle_ok m2 ((8192, 5), h1)"
    "handle_ok m2 ((12288, 6), h2)" by auto
  then have "handles_ok (sample_classes\<lparr> method_handles := [((12288, 6), h2), ((8192, 5), h1)] \<rparr>, m2)"
    by (simp add: handles_ok_def)
  then show ?thesis using q(1) b(2) by blast
qed

lemma sample_with_handles:
  "class_at (sample_classes\<lparr> method_handles := hs \<rparr>) = class_at sample_classes"
  "hierarchy (sample_classes\<lparr> method_handles := hs \<rparr>) = hierarchy sample_classes"
  "imp_at (sample_classes\<lparr> method_handles := hs \<rparr>) 8192 5 = Some (HostImp 1)"
  "imp_at (sample_classes\<lparr> method_handles := hs \<rparr>) 12288 6 = Some (HostImp 2)"
proof -
  note s = same_classes [of "sample_classes\<lparr> method_handles := hs \<rparr>" sample_classes]
  show "class_at (sample_classes\<lparr> method_handles := hs \<rparr>) = class_at sample_classes"
    "hierarchy (sample_classes\<lparr> method_handles := hs \<rparr>) = hierarchy sample_classes" using s(1,2) by simp_all
  show "imp_at (sample_classes\<lparr> method_handles := hs \<rparr>) 8192 5 = Some (HostImp 1)"
    "imp_at (sample_classes\<lparr> method_handles := hs \<rparr>) 12288 6 = Some (HostImp 2)"
    using s(4) by (simp_all add: imp_at_def sample_class_at)
qed

section \<open>The properties applied\<close>

lemma lookups_agree_witness:
  "\<exists>d. find_defining_class sample_classes 12288 5 = Some d \<and> class_respondsToSelector sample_classes 12288 5 = Some (d \<noteq> 0)
    \<and> class_has_method sample_classes 12288 5 = Some (d \<noteq> 0)"
  using lookups_agree [OF sample_hierarchy, of 12288 5] by (auto simp: sample_class_at)

lemma exchange_swaps_methods_witness:
  "\<exists>st m h1 h2 st1. method_exchangeImplementations h1 h2 (st, m) = Some st1
    \<and> imp_at st 8192 5 = Some (HostImp 1) \<and> imp_at st1 8192 5 = Some (HostImp 2) \<and> imp_at st1 12288 6 = Some (HostImp 1)"
proof -
  obtain st m h1 h2 where s: "handles_ok (st, m)" "st = sample_classes\<lparr> method_handles := [((12288, 6), h2), ((8192, 5), h1)] \<rparr>"
    "h1 \<noteq> 0" "h2 \<noteq> 0" using sample_handles by blast
  have i: "imp_at st 8192 5 = Some (HostImp 1)" "imp_at st 12288 6 = Some (HostImp 2)"
    using sample_with_handles(3,4) s(2) by simp_all
  have d: "method_handle_decode h1 (st, m) = Some (Some (8192, 5))" "method_handle_decode h2 (st, m) = Some (Some (12288, 6))"
    using handle_decodes [OF s(1)] s(2-4) by simp_all
  show ?thesis using exchange_swaps_methods [OF d i] i(1) by blast
qed

lemma method_handles_stable_witness:
  "\<exists>st m h st' m'. class_getInstanceMethod 12288 5 (st, m) = Some (h, st', m')
    \<and> class_getInstanceMethod 12288 5 (st', m') = Some (h, st', m')"
proof -
  obtain st m h1 h2 where s: "handles_ok (st, m)" "st = sample_classes\<lparr> method_handles := [((12288, 6), h2), ((8192, 5), h1)] \<rparr>"
    using sample_handles by blast
  have "hierarchy st sample_rank" using sample_hierarchy sample_with_handles(2) s(2) by simp
  moreover have "class_at st 12288 \<noteq> None" "\<forall>c. class_at st c \<noteq> None \<longrightarrow> c < 4294967296"
    unfolding s(2) sample_with_handles(1) by (simp_all add: sample_class_at)
  ultimately obtain h st' m' where "class_getInstanceMethod 12288 5 (st, m) = Some (h, st', m')"
    "class_getInstanceMethod 12288 5 (st', m') = Some (h, st', m')"
    using method_handles_stable [OF s(1), of sample_rank 12288 5] by auto
  then show ?thesis by blast
qed

lemma saved_pointer_is_retargeted_witness:
  "\<exists>st m h1 h2 t st1 m1 st2 st3. imp_at st 8192 5 = Some (HostImp 1)
    \<and> method_getImplementation h1 (st, m) = Some (t, st1, m1)
    \<and> method_exchangeImplementations h1 h2 (st1, m1) = Some st2
    \<and> method_getImplementation h1 (st2, m1) = Some (t, st3, m1)
    \<and> guest_ptr_to_imp st3 t = (if t = 0 then None else Some (HostImp 2))"
proof -
  obtain st m h1 h2 where s: "handles_ok (st, m)" "st = sample_classes\<lparr> method_handles := [((12288, 6), h2), ((8192, 5), h1)] \<rparr>"
    "h1 \<noteq> 0" "h2 \<noteq> 0" using sample_handles by blast
  have i: "imp_at st 8192 5 = Some (HostImp 1)" "imp_at st 12288 6 = Some (HostImp 2)"
    using sample_with_handles(3,4) s(2) by simp_all
  have l: "((8192, 5), h1) \<in> set (method_handles st)" "((12288, 6), h2) \<in> set (method_handles st)" using s(2) by simp_all
  have "(8192, 5) \<noteq> (12288, 6 :: nat)" by simp
  from saved_pointer_is_retargeted [OF s(1) l s(3,4) this i] i(1) show ?thesis by blast
qed

lemma initialized_once_in_order_witness:
  "\<exists>e'. ensure_n (\<lambda>_. [12288]) 7 4 12288 \<lparr> classes = sample_classes, dmem = sample_memory, arg_regs = [1, 2, 3, 4], drest = [] \<rparr>
      = Some e' \<and> arg_regs e' = [1, 2, 3, 4] \<and> distinct (drest e')"
proof -
  have "{c. class_at sample_classes c \<noteq> None} \<subseteq> {8192, 12288, 16384, 20480}" by (auto simp: sample_class_at split: if_splits)
  then have "card {c. class_at sample_classes c \<noteq> None} \<le> card {8192, 12288, 16384, 20480 :: nat}" by (rule card_mono [rotated]) simp
  then have n: "card {c. class_at sample_classes c \<noteq> None} \<le> 4" by simp
  have "initialized_classes sample_classes = {}" "class_at sample_classes 12288 \<noteq> None"
    by (simp_all add: sample_classes_def class_at_def sample_class_def)
  from initialized_once_in_order [OF sample_world this n refl, where script = "\<lambda>_. [12288]" and sel = 7 and regs = "[1, 2, 3, 4]"] show ?thesis by blast
qed

end
