(* ===== verification/Calendar.thy ===== *)
theory Calendar
  imports Guest_Values "HOL-Library.Signed_Division"
begin

text \<open>
  Calendar dates (\<open>src/libc/time.rs\<close>): timestamps of 32 bits to broken-down times in UTC and back, with
  the tables the code computes at compile time.  The proleptic Gregorian calendar is the reference.
\<close>

section \<open>The calendar of the code\<close>

text \<open>\<open>struct tm\<close>: every field is an \<open>i32\<close>, the time zone a guest pointer.\<close>

record tm =
  tm_sec :: int
  tm_min :: int
  tm_hour :: int
  tm_mday :: int
  tm_mon :: int
  tm_year :: int
  tm_wday :: int
  tm_yday :: int
  tm_isdst :: int
  tm_gmtoff :: int
  tm_zone :: nat

definition wrap_i32 :: "int \<Rightarrow> int" where
  "wrap_i32 v = (v + 2147483648) mod 4294967296 - 2147483648"

definition clamp :: "int \<Rightarrow> int \<Rightarrow> int \<Rightarrow> int" where
  "clamp lo hi v = max lo (min v hi)"

text \<open>Archives carry dates of smaller types; \<open>from\<close> brings them into range.\<close>

definition tm_from :: "nat \<Rightarrow> nat \<Rightarrow> nat \<Rightarrow> nat \<Rightarrow> nat \<Rightarrow> nat \<Rightarrow> tm" where
  "tm_from year month day hour minute second =
     \<lparr> tm_sec = int (min second 60), tm_min = int (min minute 59), tm_hour = int (min hour 23),
       tm_mday = clamp 1 31 (int day), tm_mon = clamp 1 12 (int month) - 1,
       tm_year = int (max year 1970) - 1900, tm_wday = 0, tm_yday = 0, tm_isdst = 0, tm_gmtoff = 0, tm_zone = 0 \<rparr>"

definition is_leap_year :: "int \<Rightarrow> bool" where
  "is_leap_year year \<longleftrightarrow> year smod 4 = 0 \<and> (year smod 100 \<noteq> 0 \<or> year smod 400 = 0)"

definition CYCLE_YEARS :: int where "CYCLE_YEARS = 400"

function calc_year_to_day_loop :: "int \<Rightarrow> int \<Rightarrow> int list \<Rightarrow> int list \<times> int" where
  "calc_year_to_day_loop year day table =
     (if year < CYCLE_YEARS
      then calc_year_to_day_loop (year + 1) (day + (if is_leap_year year then 366 else 365)) (table[nat year := day])
      else (table, day))"
  by pat_completeness auto
termination by (relation "measure (\<lambda>(year, _, _). nat (CYCLE_YEARS - year))") (auto simp: CYCLE_YEARS_def)

declare calc_year_to_day_loop.simps [simp del]

definition calc_year_to_day :: "int list \<times> int" where
  "calc_year_to_day = calc_year_to_day_loop 0 0 (replicate 400 0)"

definition YEAR_TO_DAY :: "int list" where "YEAR_TO_DAY = fst calc_year_to_day"
definition CYCLE_DAYS :: int where "CYCLE_DAYS = snd calc_year_to_day"

definition DAYS_IN_MONTH :: "int list" where
  "DAYS_IN_MONTH = [31, 28, 31, 30, 31, 30, 31, 31, 30, 31, 30, 31]"

function calc_month_to_day_loop :: "bool \<Rightarrow> nat \<Rightarrow> int \<Rightarrow> int list \<Rightarrow> int list" where
  "calc_month_to_day_loop leap_year month day table =
     (if month < 12
      then calc_month_to_day_loop leap_year (month + 1)
             (day + (DAYS_IN_MONTH ! month + (if leap_year \<and> month = 1 then 1 else 0))) (table[month := day])
      else table)"
  by pat_completeness auto
termination by (relation "measure (\<lambda>(_, month, _, _). 12 - month)") auto

declare calc_month_to_day_loop.simps [simp del]

definition calc_month_to_day :: "bool \<Rightarrow> int list" where
  "calc_month_to_day leap_year = calc_month_to_day_loop leap_year 0 0 (replicate 12 0)"

definition MONTH_TO_DAY_NONLEAP :: "int list" where "MONTH_TO_DAY_NONLEAP = calc_month_to_day False"
definition MONTH_TO_DAY_LEAP :: "int list" where "MONTH_TO_DAY_LEAP = calc_month_to_day True"

text \<open>\<open>slice::partition_point\<close> on a slice whose accepted elements come first, and checked indexing.\<close>

definition partition_point :: "('a \<Rightarrow> bool) \<Rightarrow> 'a list \<Rightarrow> nat" where
  "partition_point P xs = length (takeWhile P xs)"

definition get_index :: "'a list \<Rightarrow> int \<Rightarrow> 'a option" where
  "get_index xs i = (if 0 \<le> i \<and> i < int (length xs) then Some (xs ! nat i) else None)"

definition timestamp_to_calendar_date :: "int \<Rightarrow> tm option" where
  "timestamp_to_calendar_date timestamp = do {
     let days_since_unix_epoch = timestamp div 86400;
     let second_in_day = timestamp mod 86400;
     let days_since_y2k = days_since_unix_epoch - 10957;
     let cycles_since_y2k = days_since_y2k div CYCLE_DAYS;
     let day_in_cycle = days_since_y2k mod CYCLE_DAYS;
     let year_in_cycle = int (partition_point (\<lambda>day. day \<le> day_in_cycle) YEAR_TO_DAY) - 1;
     let year = 2000 + cycles_since_y2k * CYCLE_YEARS + year_in_cycle;
     year_start \<leftarrow> get_index YEAR_TO_DAY year_in_cycle;
     let day_in_year = day_in_cycle - year_start;
     let leap = is_leap_year year_in_cycle;
     (if day_in_year < 365 + (if leap then 1 else 0) then do {
        let month_to_day = (if leap then MONTH_TO_DAY_LEAP else MONTH_TO_DAY_NONLEAP);
        let month_in_year = int (partition_point (\<lambda>day. day \<le> day_in_year) month_to_day) - 1;
        month_start \<leftarrow> get_index month_to_day month_in_year;
        let day_in_month = day_in_year - month_start;
        month_days \<leftarrow> get_index DAYS_IN_MONTH month_in_year;
        (if day_in_month < month_days + (if leap then 1 else 0) then
           Some \<lparr> tm_sec = second_in_day mod 60, tm_min = second_in_day mod 3600 div 60,
                  tm_hour = second_in_day div 3600, tm_mday = day_in_month + 1, tm_mon = month_in_year,
                  tm_year = year - 1900, tm_wday = (4 + days_since_unix_epoch) mod 7, tm_yday = day_in_year,
                  tm_isdst = 0, tm_gmtoff = 0, tm_zone = 0 \<rparr>
         else None) }
      else None) }"

text \<open>\<open>for y in a..b\<close>: the days of the years, added up.\<close>

definition add_years :: "int \<Rightarrow> int \<Rightarrow> int \<Rightarrow> int \<Rightarrow> int" where
  "add_years a b step s = foldl (\<lambda>s y. s + (if is_leap_year y then 366 else 365) * step) s [a..b - 1]"

definition calendar_date_to_timestamp :: "tm \<Rightarrow> int" where
  "calendar_date_to_timestamp t =
     (let y = tm_year t + 1900 + tm_mon t div 12;
          month = tm_mon t mod 12;
          year = wrap_i32 y;
          seconds = add_years 1970 year 86400 0;
          seconds = seconds + (if is_leap_year year then MONTH_TO_DAY_LEAP ! nat month
                               else MONTH_TO_DAY_NONLEAP ! nat month) * 86400;
          seconds = seconds + (tm_mday t - 1) * 86400;
          seconds = seconds + tm_hour t * 3600;
          seconds = seconds + tm_min t * 60;
          seconds = seconds + tm_sec t;
          seconds = (if year < 1970 then seconds - add_years year 1970 1 0 * 86400 else seconds)
      in if i32 seconds then seconds else if seconds > 0 then 2147483647 else -2147483648)"

section \<open>The reference: days before a year\<close>

definition days_before :: "int \<Rightarrow> int" where
  "days_before y = 365 * y + (y + 3) div 4 - (y + 99) div 100 + (y + 399) div 400"

lemma smod_zero: "0 < (n :: int) \<Longrightarrow> y smod n = 0 \<longleftrightarrow> n dvd y"
proof -
  assume n: "0 < n"
  have "y smod n = sgn y * (\<bar>y\<bar> mod n)" using n by (simp add: signed_modulo_int_def)
  then show ?thesis using n by (cases "y = 0") (auto simp: sgn_if dvd_eq_mod_eq_0 [symmetric])
qed

lemma leap_iff: "is_leap_year y \<longleftrightarrow> 4 dvd y \<and> (\<not> 100 dvd y \<or> 400 dvd y)"
  by (simp add: is_leap_year_def smod_zero)

lemma div_step:
  assumes "0 < (n :: int)"
  shows "(y + n) div n = (y + (n - 1)) div n + (if n dvd y then 1 else 0)"
proof -
  have y: "y = n * (y div n) + y mod n" by simp
  have r: "0 \<le> y mod n" "y mod n < n" using assms by simp_all
  have "(y + n) div n = y div n + 1" by (rule div_add_self2) (use assms in simp)
  moreover have "(y + (n - 1)) div n = y div n + (if n dvd y then 0 else 1)"
  proof (cases "n dvd y")
    case True
    then have "(y + (n - 1)) div n = y div n + (n - 1) div n" by (rule div_plus_div_distrib_dvd_left)
    then show ?thesis using True assms by simp
  next
    case False
    then have "1 \<le> y mod n" using r by (simp add: dvd_eq_mod_eq_0)
    have "(y + (n - 1)) div n = (y mod n - 1 + n * (y div n + 1)) div n" using y by (simp add: algebra_simps)
    also have "\<dots> = y div n + 1 + (y mod n - 1) div n" using assms by simp
    also have "(y mod n - 1) div n = 0" using \<open>1 \<le> y mod n\<close> r by simp
    finally show ?thesis using False by simp
  qed
  ultimately show ?thesis by simp
qed

lemma days_before_Suc: "days_before (y + 1) = days_before y + (if is_leap_year y then 366 else 365)"
proof -
  have s: "(y + 4) div 4 = (y + 3) div 4 + (if 4 dvd y then 1 else 0)"
    "(y + 100) div 100 = (y + 99) div 100 + (if 100 dvd y then 1 else 0)"
    "(y + 400) div 400 = (y + 399) div 400 + (if 400 dvd y then 1 else 0)"
    using div_step [of 4 y] div_step [of 100 y] div_step [of 400 y] by simp_all
  have d: "400 dvd y \<Longrightarrow> 100 dvd y" "100 dvd y \<Longrightarrow> 4 dvd y"
    using dvd_trans [of 100 400 y] dvd_trans [of 4 100 y] by simp_all
  have *: "days_before (y + 1) = 365 * (y + 1) + (y + 4) div 4 - (y + 100) div 100 + (y + 400) div 400"
    by (simp only: days_before_def add.assoc one_plus_numeral semiring_norm)
  obtain a b c where abc: "a = (y + 3) div 4" "b = (y + 99) div 100" "c = (y + 399) div 400" by blast
  obtain P Q R where pqr: "P \<longleftrightarrow> 4 dvd y" "Q \<longleftrightarrow> 100 dvd y" "R \<longleftrightarrow> 400 dvd y" by blast
  have "days_before (y + 1) = 365 * (y + 1) + (a + (if P then 1 else 0)) - (b + (if Q then 1 else 0)) + (c + (if R then 1 else 0))"
    unfolding * s abc pqr ..
  moreover have "days_before y = 365 * y + a - b + c" unfolding days_before_def abc ..
  moreover have "is_leap_year y \<longleftrightarrow> P \<and> (\<not> Q \<or> R)" unfolding leap_iff pqr ..
  moreover have "R \<longrightarrow> Q" "Q \<longrightarrow> P" using d pqr by blast+
  ultimately show ?thesis
    by (cases P; cases Q; cases R) (simp_all only: if_True if_False simp_thms, simp_all)
qed

lemma days_before_cycle: "days_before (y + 400 * k) = days_before y + 146097 * k"
proof -
  have "(y + 400 * k + 3) div 4 = (y + 3) div 4 + 100 * k"
    "(y + 400 * k + 99) div 100 = (y + 99) div 100 + 4 * k"
    "(y + 400 * k + 399) div 400 = (y + 399) div 400 + k"
  proof -
    have "y + 400 * k + 3 = y + 3 + 100 * k * 4" "y + 400 * k + 99 = y + 99 + 4 * k * 100" "y + 400 * k + 399 = y + 399 + k * 400"
      by simp_all
    then show "(y + 400 * k + 3) div 4 = (y + 3) div 4 + 100 * k"
      "(y + 400 * k + 99) div 100 = (y + 99) div 100 + 4 * k"
      "(y + 400 * k + 399) div 400 = (y + 399) div 400 + k"
      by (simp_all only: div_mult_self1 zero_neq_numeral [symmetric] not_False_eq_True add.commute)
  qed
  then show ?thesis by (simp add: days_before_def)
qed

lemma days_before_mono: "a \<le> b \<Longrightarrow> days_before a + 365 * (b - a) \<le> days_before b"
proof (induction "nat (b - a)" arbitrary: b)
  case (Suc n)
  have "n = nat (b - 1 - a)" "a \<le> b - 1" using Suc.hyps(2) Suc.prems by simp_all
  then have "days_before a + 365 * (b - 1 - a) \<le> days_before (b - 1)" by (rule Suc.hyps(1))
  then show ?case using days_before_Suc [of "b - 1"] by (simp split: if_splits)
qed simp

lemma days_before_le: "a \<le> b \<Longrightarrow> days_before a \<le> days_before b"
  using days_before_mono [of a b] by (smt (verit))

section \<open>The tables\<close>

lemma year_loop:
  assumes "0 \<le> y" "y \<le> 400" "length t = 400" "day = days_before y" "\<forall>k < nat y. t ! k = days_before (int k)"
  shows "\<exists>t'. calc_year_to_day_loop y day t = (t', days_before 400) \<and> length t' = 400
    \<and> (\<forall>k < 400. t' ! k = days_before (int k))"
  using assms
proof (induction y day t rule: calc_year_to_day_loop.induct)
  case (1 y day t)
  show ?case
  proof (cases "y < 400")
    case False
    then have y: "y = 400" using "1.prems"(2) by simp
    then have "calc_year_to_day_loop y day t = (t, day)" by (subst calc_year_to_day_loop.simps) (simp add: CYCLE_YEARS_def)
    then show ?thesis using "1.prems"(3-5) y by simp
  next
    case True
    let ?day = "day + (if is_leap_year y then 366 else 365)" and ?t = "t[nat y := day]"
    have d: "?day = days_before (y + 1)" using "1.prems"(4) days_before_Suc [of y] by simp
    have "?t ! k = days_before (int k)" if k: "k < nat (y + 1)" for k
    proof (cases "k = nat y")
      case True
      then show ?thesis using "1.prems"(1-4) \<open>y < 400\<close> by simp
    next
      case False
      then have "k < nat y" using k by simp
      then show ?thesis using "1.prems"(5) False by simp
    qed
    moreover have "y < CYCLE_YEARS" "0 \<le> y + 1" "y + 1 \<le> 400" "length ?t = 400"
      using "1.prems"(1,3) True by (simp_all add: CYCLE_YEARS_def)
    ultimately show ?thesis using "1.IH" d unfolding calc_year_to_day_loop.simps [of y] by simp
  qed
qed

lemma year_table:
  "length YEAR_TO_DAY = 400" "k < 400 \<Longrightarrow> YEAR_TO_DAY ! k = days_before (int k)" "CYCLE_DAYS = 146097"
proof -
  have z: "days_before 0 = 0" "days_before 400 = 146097" by (simp_all add: days_before_def)
  from year_loop [of 0 "replicate 400 0" 0] z(1) obtain t where
    t: "calc_year_to_day = (t, days_before 400)" "length t = 400" "\<forall>k < 400. t ! k = days_before (int k)"
    unfolding calc_year_to_day_def by auto
  have f: "YEAR_TO_DAY = t" "CYCLE_DAYS = 146097" unfolding YEAR_TO_DAY_def CYCLE_DAYS_def t(1) z(2) by simp_all
  then show "length YEAR_TO_DAY = 400" "k < 400 \<Longrightarrow> YEAR_TO_DAY ! k = days_before (int k)" "CYCLE_DAYS = 146097"
    using t(2,3) by simp_all
qed

lemma month_tables:
  "MONTH_TO_DAY_NONLEAP = [0, 31, 59, 90, 120, 151, 181, 212, 243, 273, 304, 334]"
  "MONTH_TO_DAY_LEAP = [0, 31, 60, 91, 121, 152, 182, 213, 244, 274, 305, 335]"
  by (simp_all add: MONTH_TO_DAY_NONLEAP_def MONTH_TO_DAY_LEAP_def calc_month_to_day_def
      calc_month_to_day_loop.simps DAYS_IN_MONTH_def numeral_eq_Suc)

text \<open>The point where a sorted table passes a value.\<close>

lemma partition_point_eq:
  assumes "i < length xs" "P (xs ! i)" "\<forall>j \<le> i. P (xs ! j)" "Suc i < length xs \<longrightarrow> \<not> P (xs ! Suc i)"
  shows "partition_point P xs = Suc i"
proof -
  have "takeWhile P xs = take (Suc i) xs"
    by (rule takeWhile_eq_take_P_nth) (use assms in \<open>auto simp: less_Suc_eq_le\<close>)
  then show ?thesis using assms(1) by (simp add: partition_point_def)
qed

text \<open>The table finds the year of a day in the cycle.\<close>

lemma year_lookup:
  assumes "0 \<le> y" "y < 400" "days_before y \<le> d" "d < days_before (y + 1)"
  shows "partition_point (\<lambda>day. day \<le> d) YEAR_TO_DAY = Suc (nat y)"
proof (rule partition_point_eq)
  have mono: "days_before (int j) \<le> d" if "j \<le> nat y" for j
  proof -
    have "int j \<le> y" using that assms(1) by simp
    then show ?thesis using days_before_le assms(3) by (meson order_trans)
  qed
  show "nat y < length YEAR_TO_DAY" using assms(1,2) by (simp add: year_table)
  show "YEAR_TO_DAY ! nat y \<le> d" using assms by (simp add: year_table)
  show "\<forall>j \<le> nat y. YEAR_TO_DAY ! j \<le> d" using mono assms(2) by (auto simp: year_table)
  show "Suc (nat y) < length YEAR_TO_DAY \<longrightarrow> \<not> YEAR_TO_DAY ! Suc (nat y) \<le> d"
    using assms by (simp add: year_table add.commute)
qed

text \<open>The months of a year.\<close>

definition month_table :: "bool \<Rightarrow> int list" where
  "month_table leap = (if leap then MONTH_TO_DAY_LEAP else MONTH_TO_DAY_NONLEAP)"

definition month_days :: "bool \<Rightarrow> nat \<Rightarrow> int" where
  "month_days leap m = DAYS_IN_MONTH ! m + (if leap \<and> m = 1 then 1 else 0)"

lemmas month_values = month_table_def month_days_def month_tables DAYS_IN_MONTH_def

lemma month_next: "m < 11 \<Longrightarrow> month_table leap ! Suc m = month_table leap ! m + month_days leap m"
  by (cases leap) (simp_all add: month_values less_Suc_eq numeral_eq_Suc, auto)

lemma month_end: "month_table leap ! 11 + month_days leap 11 = 365 + (if leap then 1 else 0)"
  by (simp add: month_values)

lemma month_lookup:
  assumes "m < 12" "month_table leap ! m \<le> d" "d < month_table leap ! m + month_days leap m"
  shows "partition_point (\<lambda>day. day \<le> d) (month_table leap) = Suc m"
proof (rule partition_point_eq)
  have len: "length (month_table leap) = 12" by (simp add: month_values)
  show "m < length (month_table leap)" "month_table leap ! m \<le> d" using assms len by simp_all
  have "month_table leap ! j \<le> month_table leap ! m" if "j \<le> m" for j
    using that assms(1)
  proof (induction m)
    case (Suc m)
    have "0 \<le> month_days leap m" using Suc.prems(2) by (auto simp: month_values less_Suc_eq numeral_eq_Suc)
    then show ?case using Suc month_next [of m leap] by (cases "j = Suc m") auto
  qed simp
  then show "\<forall>j \<le> m. month_table leap ! j \<le> d" using assms(2) by (meson order_trans)
  show "Suc m < length (month_table leap) \<longrightarrow> \<not> month_table leap ! Suc m \<le> d"
    using assms(3) len month_next [of m leap] by auto
qed

lemma month_exists:
  assumes "0 \<le> d" "d < 365 + (if leap then 1 else 0)"
  shows "\<exists>m < 12. month_table leap ! m \<le> d \<and> d < month_table leap ! m + month_days leap m"
proof (rule ccontr)
  assume no: "\<not> ?thesis"
  have "month_table leap ! m \<le> d" if "m < 12" for m
    using that
  proof (induction m)
    case 0
    then show ?case using assms(1) by (simp add: month_values)
  next
    case (Suc m)
    then have "month_table leap ! m + month_days leap m \<le> d" using no by (metis Suc_lessD not_less)
    then show ?case using month_next [of m leap] Suc.prems by simp
  qed
  then have "month_table leap ! 11 \<le> d" by simp
  moreover have "(11 :: nat) < 12" by simp
  ultimately have "month_table leap ! 11 + month_days leap 11 \<le> d" using no by (meson not_less)
  then show False using month_end [of leap] assms(2) by simp
qed

section \<open>Dates and seconds\<close>

definition year_of :: "tm \<Rightarrow> int" where
  "year_of t = tm_year t + 1900"

definition date_ok :: "tm \<Rightarrow> bool" where
  "date_ok t \<longleftrightarrow> 0 \<le> tm_sec t \<and> tm_sec t < 60 \<and> 0 \<le> tm_min t \<and> tm_min t < 60 \<and> 0 \<le> tm_hour t \<and> tm_hour t < 24
     \<and> 0 \<le> tm_mon t \<and> tm_mon t < 12
     \<and> 1 \<le> tm_mday t \<and> tm_mday t \<le> month_days (is_leap_year (year_of t)) (nat (tm_mon t))"

definition date_yday :: "tm \<Rightarrow> int" where
  "date_yday t = month_table (is_leap_year (year_of t)) ! nat (tm_mon t) + tm_mday t - 1"

definition date_days :: "tm \<Rightarrow> int" where
  "date_days t = days_before (year_of t) - days_before 1970 + date_yday t"

definition date_seconds :: "tm \<Rightarrow> int" where
  "date_seconds t = date_days t * 86400 + (tm_hour t * 3600 + tm_min t * 60 + tm_sec t)"

lemma leap_cycle: "is_leap_year (y + 400 * k) = is_leap_year y"
proof -
  have "y + 400 * k = y + 4 * (100 * k)" "y + 400 * k = y + 100 * (4 * k)" by simp_all
  then have "4 dvd y + 400 * k \<longleftrightarrow> 4 dvd y" "100 dvd y + 400 * k \<longleftrightarrow> 100 dvd y" "400 dvd y + 400 * k \<longleftrightarrow> 400 dvd y"
    by (metis dvd_add_left_iff dvd_triv_left)+
  then show ?thesis unfolding leap_iff by simp
qed

lemma yday_bounds:
  assumes "date_ok t"
  shows "0 \<le> date_yday t" "date_yday t < 365 + (if is_leap_year (year_of t) then 1 else 0)"
proof -
  let ?l = "is_leap_year (year_of t)"
  have m: "nat (tm_mon t) < 12" "1 \<le> tm_mday t" "tm_mday t \<le> month_days ?l (nat (tm_mon t))"
    using assms by (simp_all add: date_ok_def nat_less_iff)
  have "k < 12 \<Longrightarrow> 0 \<le> month_table ?l ! k \<and> month_table ?l ! k + month_days ?l k \<le> 365 + (if ?l then 1 else 0)" for k
    by (auto simp: month_values less_Suc_eq numeral_eq_Suc)
  from this [OF m(1)] m show "0 \<le> date_yday t" "date_yday t < 365 + (if ?l then 1 else 0)"
    unfolding date_yday_def by linarith+
qed

lemma cycle_split:
  assumes "0 \<le> d" "d < 365 + (if is_leap_year y then 1 else 0)"
  shows "\<exists>c k. 0 \<le> k \<and> k < 400 \<and> y = 2000 + c * 400 + k \<and> is_leap_year k = is_leap_year y
    \<and> (days_before y - days_before 1970 + d - 10957) div 146097 = c
    \<and> (days_before y - days_before 1970 + d - 10957) mod 146097 = days_before k + d
    \<and> days_before k \<le> days_before k + d \<and> days_before k + d < days_before (k + 1)"
proof -
  obtain c k where ck: "c = (y - 2000) div 400" "k = (y - 2000) mod 400" by blast
  have k: "0 \<le> k" "k < 400" unfolding ck by simp_all
  have "c * 400 + k = y - 2000" unfolding ck by (rule div_mult_mod_eq)
  then have y: "y = 2000 + c * 400 + k" by linarith
  then have y': "y = k + 400 * (c + 5)" by (simp add: algebra_simps)
  have leap: "is_leap_year k = is_leap_year y" unfolding y' by (rule leap_cycle [symmetric])
  have "days_before y = days_before k + 146097 * (c + 5)" unfolding y' by (rule days_before_cycle)
  moreover have "days_before 1970 + 10957 = 146097 * 5" by (simp add: days_before_def)
  ultimately have n: "days_before y - days_before 1970 + d - 10957 = (days_before k + d) + c * 146097"
    by (simp add: algebra_simps)
  have up: "days_before k + d < days_before (k + 1)" using days_before_Suc [of k] assms(2) leap
    by (cases "is_leap_year y") simp_all
  have "days_before 0 \<le> days_before k" "days_before (k + 1) \<le> days_before 400" using k by (intro days_before_le; simp)+
  moreover have "days_before 0 = 0" "days_before 400 = 146097" by (simp_all add: days_before_def)
  ultimately have r: "0 \<le> days_before k + d" "days_before k + d < 146097" using assms(1) up by linarith+
  have "((days_before k + d) + c * 146097) div 146097 = c" "((days_before k + d) + c * 146097) mod 146097 = days_before k + d"
    using r by simp_all
  then show ?thesis using k y leap up assms(1) unfolding n by (intro exI [of _ c] exI [of _ k]) simp
qed

text \<open>The fields the code computes for a date, and that it computes them.\<close>

lemma to_calendar:
  assumes "date_ok t" "date_seconds t = s"
  shows "timestamp_to_calendar_date s = Some \<lparr> tm_sec = tm_sec t, tm_min = tm_min t, tm_hour = tm_hour t,
     tm_mday = tm_mday t, tm_mon = tm_mon t, tm_year = tm_year t, tm_wday = (4 + date_days t) mod 7,
     tm_yday = date_yday t, tm_isdst = 0, tm_gmtoff = 0, tm_zone = 0 \<rparr>"
proof -
  obtain h mi se where hms: "h = tm_hour t" "mi = tm_min t" "se = tm_sec t" by blast
  have b: "0 \<le> h" "h < 24" "0 \<le> mi" "mi < 60" "0 \<le> se" "se < 60" using assms(1) hms by (simp_all add: date_ok_def)
  obtain q where q: "q = h * 3600 + mi * 60 + se" by blast
  have qb: "0 \<le> q" "q < 86400" using b q by linarith+
  have s: "s = q + date_days t * 86400" using assms(2) hms q by (simp add: date_seconds_def)
  have day: "s div 86400 = date_days t" "s mod 86400 = q" unfolding s using qb by simp_all
  have time: "q mod 60 = se" "q mod 3600 div 60 = mi" "q div 3600 = h"
  proof -
    have "q = se + (h * 60 + mi) * 60" using q by simp
    then have "q mod 60 = se mod 60" by (simp only: mod_mult_self1)
    then show "q mod 60 = se" using b by simp
    obtain r where r: "r = mi * 60 + se" by blast
    have rb: "0 \<le> r" "r < 3600" "q = r + h * 3600" using r q b by linarith+
    have rm: "r div 60 = mi" using r b by simp
    have "q div 3600 = h + r div 3600" "q mod 3600 = r mod 3600" using rb(3) by simp_all
    then show "q div 3600 = h" "q mod 3600 div 60 = mi" using rb(1,2) rm by simp_all
  qed
  let ?l = "is_leap_year (year_of t)" and ?m = "nat (tm_mon t)"
  from cycle_split [OF yday_bounds [OF assms(1)]] obtain c k where ck: "0 \<le> k" "k < 400"
    "year_of t = 2000 + c * 400 + k" "is_leap_year k = ?l"
    "(date_days t - 10957) div 146097 = c" "(date_days t - 10957) mod 146097 = days_before k + date_yday t"
    "days_before k \<le> days_before k + date_yday t" "days_before k + date_yday t < days_before (k + 1)"
    unfolding date_days_def by blast
  have y: "partition_point (\<lambda>day. day \<le> days_before k + date_yday t) YEAR_TO_DAY = Suc (nat k)"
    by (rule year_lookup [OF ck(1,2,7,8)])
  have m: "?m < 12" "1 \<le> tm_mday t" "tm_mday t \<le> month_days ?l ?m" "0 \<le> tm_mon t"
    using assms(1) by (simp_all add: date_ok_def nat_less_iff)
  have mo: "partition_point (\<lambda>day. day \<le> date_yday t) (month_table ?l) = Suc ?m"
    by (rule month_lookup [OF m(1)]) (use m in \<open>simp_all add: date_yday_def\<close>)
  have gy: "get_index YEAR_TO_DAY k = Some (days_before k)"
    using ck(1,2) by (simp add: get_index_def year_table nat_less_iff)
  have gm: "get_index (month_table ?l) (tm_mon t) = Some (month_table ?l ! ?m)"
    "get_index DAYS_IN_MONTH (tm_mon t) = Some (DAYS_IN_MONTH ! ?m)"
    using m(1,4) by (simp_all add: get_index_def month_values)
  have ok: "tm_mday t - 1 < DAYS_IN_MONTH ! ?m + (if ?l then 1 else 0)" using m(3) by (simp add: month_days_def split: if_splits)
  have yd: "date_yday t - month_table ?l ! ?m = tm_mday t - 1" by (simp add: date_yday_def)
  have yr: "2000 + c * 400 + k - 1900 = tm_year t" using ck(3) by (simp add: year_of_def)
  show ?thesis
    unfolding timestamp_to_calendar_date_def Let_def day time year_table(3) CYCLE_YEARS_def ck(5,6) y
    using gy gm ok yd yr yday_bounds(2) [OF assms(1)] ck(1,4) m(4) mo hms
    by (simp add: month_table_def [symmetric])
qed

section \<open>From dates to seconds\<close>

lemma add_years_eq:
  assumes "a \<le> b"
  shows "add_years a b step s = s + (days_before b - days_before a) * step"
  using assms
proof (induction "nat (b - a)" arbitrary: b)
  case 0
  then show ?case by (simp add: add_years_def)
next
  case (Suc n)
  have p: "n = nat (b - 1 - a)" "a \<le> b - 1" using Suc.hyps(2) Suc.prems by simp_all
  have "[a..b - 1] = [a..b - 1 - 1] @ [b - 1]" using p(2) by (rule upto_rec2)
  then have "add_years a b step s = add_years a (b - 1) step s + (if is_leap_year (b - 1) then 366 else 365) * step"
    by (simp add: add_years_def)
  also have "\<dots> = s + (days_before (b - 1) - days_before a) * step + (if is_leap_year (b - 1) then 366 else 365) * step"
    using Suc.hyps(1) [OF p] by simp
  also have "\<dots> = s + (days_before b - days_before a) * step"
    using days_before_Suc [of "b - 1"] by (simp add: algebra_simps)
  finally show ?case .
qed

lemma add_years_empty: "b \<le> a \<Longrightarrow> add_years a b step s = s"
  by (simp add: add_years_def)

definition saturate :: "int \<Rightarrow> int" where
  "saturate s = (if i32 s then s else if s > 0 then 2147483647 else -2147483648)"

lemma wrap_i32_exact: "i32 v \<Longrightarrow> wrap_i32 v = v"
  by (simp add: wrap_i32_def i32_def)

text \<open>Also for fields that are out of range: months carry into the year, all else into the seconds.\<close>

lemma from_calendar:
  assumes "i32 (tm_year t + 1900 + tm_mon t div 12)"
  shows "calendar_date_to_timestamp t =
    saturate ((days_before (tm_year t + 1900 + tm_mon t div 12) - days_before 1970
        + (month_table (is_leap_year (tm_year t + 1900 + tm_mon t div 12)) ! nat (tm_mon t mod 12) + tm_mday t - 1)) * 86400
      + (tm_hour t * 3600 + tm_min t * 60 + tm_sec t))"
proof -
  let ?y = "tm_year t + 1900 + tm_mon t div 12"
  have w: "wrap_i32 ?y = ?y" by (rule wrap_i32_exact [OF assms])
  have years: "(if ?y < 1970 then add_years 1970 ?y 86400 0 + x - add_years ?y 1970 1 0 * 86400 else add_years 1970 ?y 86400 0 + x)
      = (days_before ?y - days_before 1970) * 86400 + x" for x
  proof (cases "?y < 1970")
    case True
    then show ?thesis using add_years_eq [of ?y 1970 1 0] add_years_empty [of ?y 1970 86400 0] by (simp add: algebra_simps)
  next
    case False
    then show ?thesis using add_years_eq [of 1970 ?y 86400 0] by simp
  qed
  let ?x = "month_table (is_leap_year ?y) ! nat (tm_mon t mod 12) * 86400 + (tm_mday t - 1) * 86400
      + tm_hour t * 3600 + tm_min t * 60 + tm_sec t"
  have "calendar_date_to_timestamp t = saturate (if ?y < 1970 then add_years 1970 ?y 86400 0 + ?x - add_years ?y 1970 1 0 * 86400
      else add_years 1970 ?y 86400 0 + ?x)"
    unfolding calendar_date_to_timestamp_def Let_def w saturate_def month_table_def
    by (simp only: add.assoc if_distrib [of "\<lambda>tab. tab ! nat (tm_mon t mod 12)"])
  also have "\<dots> = saturate ((days_before ?y - days_before 1970) * 86400 + ?x)" unfolding years ..
  finally show ?thesis by (simp add: algebra_simps)
qed

lemma from_valid_date:
  assumes "date_ok t" "i32 (year_of t)"
  shows "calendar_date_to_timestamp t = saturate (date_seconds t)"
proof -
  have m: "tm_mon t div 12 = 0" "tm_mon t mod 12 = tm_mon t" using assms(1) by (simp_all add: date_ok_def)
  have "i32 (tm_year t + 1900 + tm_mon t div 12)" using assms(2) m by (simp add: year_of_def)
  from from_calendar [OF this] show ?thesis
    unfolding m date_seconds_def date_days_def date_yday_def year_of_def add_0_right .
qed

text \<open>Every second belongs to a date.\<close>

lemma year_exists: "\<exists>y. days_before y \<le> d \<and> d < days_before (y + 1)"
proof -
  obtain c r where cr: "c = d div 146097" "r = d mod 146097" by blast
  have r: "0 \<le> r" "r < 146097" "d = r + 146097 * c" unfolding cr by simp_all
  have "\<exists>k. days_before k \<le> r \<and> r < days_before (k + 1)"
  proof (rule ccontr)
    assume no: "\<not> ?thesis"
    have "days_before (int n) \<le> r" for n
    proof (induction n)
      case 0
      then show ?case using r(1) by (simp add: days_before_def)
    next
      case (Suc n)
      then show ?case using no by (metis not_less of_nat_Suc add.commute)
    qed
    from this [of 400] show False using r(2) by (simp add: days_before_def)
  qed
  then obtain k where k: "days_before k \<le> r" "r < days_before (k + 1)" by blast
  have "days_before (k + 400 * c) = days_before k + 146097 * c" "days_before (k + 400 * c + 1) = days_before (k + 1) + 146097 * c"
    using days_before_cycle [of k c] days_before_cycle [of "k + 1" c] by (simp_all add: ac_simps)
  then show ?thesis using k r(3) by (intro exI [of _ "k + 400 * c"]) simp
qed

lemma date_exists: "\<exists>t. date_ok t \<and> date_seconds t = s"
proof -
  obtain d q where dq: "d = s div 86400" "q = s mod 86400" by blast
  have q: "0 \<le> q" "q < 86400" "s = d * 86400 + q" unfolding dq by simp_all
  obtain y where y: "days_before y \<le> d + days_before 1970" "d + days_before 1970 < days_before (y + 1)"
    using year_exists by blast
  let ?yd = "d + days_before 1970 - days_before y"
  have "0 \<le> ?yd" "?yd < 365 + (if is_leap_year y then 1 else 0)" using y days_before_Suc [of y] by (simp_all split: if_splits)
  from month_exists [OF this] obtain m where m: "m < 12" "month_table (is_leap_year y) ! m \<le> ?yd"
    "?yd < month_table (is_leap_year y) ! m + month_days (is_leap_year y) m" by blast
  let ?t = "\<lparr> tm_sec = q mod 60, tm_min = q mod 3600 div 60, tm_hour = q div 3600, tm_mday = ?yd - month_table (is_leap_year y) ! m + 1,
      tm_mon = int m, tm_year = y - 1900, tm_wday = 0, tm_yday = 0, tm_isdst = 0, tm_gmtoff = 0, tm_zone = 0 \<rparr>"
  have "q mod 3600 mod 60 = q mod 60" by (rule mod_mod_cancel) simp
  then have "q mod 3600 = q mod 3600 div 60 * 60 + q mod 60" by (metis div_mult_mod_eq)
  then have "q = q div 3600 * 3600 + q mod 3600 div 60 * 60 + q mod 60" by (metis div_mult_mod_eq add.assoc)
  then have sec: "date_seconds ?t = s" using q(3) by (simp add: date_seconds_def date_days_def date_yday_def year_of_def)
  have "0 \<le> q mod 3600 div 60" "q mod 3600 div 60 < 60" "q div 3600 < 24" "0 \<le> q div 3600"
  proof -
    have r: "0 \<le> q mod 3600" "q mod 3600 < 3600" by simp_all
    have "q mod 3600 div 60 \<le> 3599 div 60" "q div 3600 \<le> 86399 div 3600" using r q(2) by (intro zdiv_mono1; simp)+
    moreover have "0 div 60 \<le> q mod 3600 div 60" "0 div 3600 \<le> q div 3600" using r q(1) by (intro zdiv_mono1; simp)+
    ultimately show "0 \<le> q mod 3600 div 60" "q mod 3600 div 60 < 60" "q div 3600 < 24" "0 \<le> q div 3600" by simp_all
  qed
  then have "date_ok ?t" using m by (simp add: date_ok_def year_of_def)
  then show ?thesis using sec by blast
qed

section \<open>Round trip\<close>

lemma year_in_range:
  assumes "date_ok t" "i32 (date_seconds t)"
  shows "i32 (year_of t)"
proof -
  have s: "-2147483648 \<le> date_seconds t" "date_seconds t < 2147483648" using assms(2) by (simp_all add: i32_def)
  have q: "0 \<le> tm_hour t * 3600 + tm_min t * 60 + tm_sec t" "tm_hour t * 3600 + tm_min t * 60 + tm_sec t < 86400"
    using assms(1) unfolding date_ok_def by linarith+
  have d: "-24856 \<le> date_days t" "date_days t < 24856" using s q unfolding date_seconds_def by linarith+
  have yd: "0 \<le> date_yday t" "date_yday t < 366" using yday_bounds [OF assms(1)] by (simp_all split: if_splits)
  have b: "-25222 < days_before (year_of t) - days_before 1970" "days_before (year_of t) - days_before 1970 < 24856"
    using d yd unfolding date_days_def by linarith+
  have "year_of t < 2147483648"
  proof (rule ccontr)
    assume "\<not> ?thesis"
    then have "1970 \<le> year_of t" "100000 \<le> year_of t - 1970" by linarith+
    then have "days_before 1970 + 365 * (year_of t - 1970) \<le> days_before (year_of t)" by (intro days_before_mono)
    then show False using b(2) \<open>100000 \<le> year_of t - 1970\<close> by (simp add: algebra_simps)
  qed
  moreover have "-2147483648 \<le> year_of t"
  proof (rule ccontr)
    assume "\<not> ?thesis"
    then have "year_of t \<le> 1970" "100000 \<le> 1970 - year_of t" by linarith+
    then have "days_before (year_of t) + 365 * (1970 - year_of t) \<le> days_before 1970" by (intro days_before_mono)
    then show False using b(1) \<open>100000 \<le> 1970 - year_of t\<close> by (simp add: algebra_simps)
  qed
  ultimately show ?thesis by (simp add: i32_def)
qed

lemma calendar_main:
  assumes "i32 s"
  shows "\<exists>t. timestamp_to_calendar_date s = Some t \<and> date_ok t \<and> calendar_date_to_timestamp t = s
    \<and> date_seconds t = s \<and> tm_yday t = date_yday t \<and> tm_wday t = (4 + s div 86400) mod 7"
proof -
  obtain t0 where t0: "date_ok t0" "date_seconds t0 = s" using date_exists by blast
  let ?t = "\<lparr> tm_sec = tm_sec t0, tm_min = tm_min t0, tm_hour = tm_hour t0, tm_mday = tm_mday t0, tm_mon = tm_mon t0,
     tm_year = tm_year t0, tm_wday = (4 + date_days t0) mod 7, tm_yday = date_yday t0, tm_isdst = 0, tm_gmtoff = 0, tm_zone = 0 \<rparr>"
  have run: "timestamp_to_calendar_date s = Some ?t" by (rule to_calendar [OF t0])
  have same: "date_ok ?t" "date_seconds ?t = s" "date_yday ?t = date_yday t0"
    using t0 by (simp_all add: date_ok_def date_seconds_def date_days_def date_yday_def year_of_def)
  have "calendar_date_to_timestamp ?t = saturate s"
    using from_valid_date [OF same(1)] year_in_range [OF same(1)] same(2) assms by simp
  then have b: "calendar_date_to_timestamp ?t = s" using assms by (simp add: saturate_def)
  have q: "0 \<le> tm_hour t0 * 3600 + tm_min t0 * 60 + tm_sec t0" "tm_hour t0 * 3600 + tm_min t0 * 60 + tm_sec t0 < 86400"
    using t0(1) unfolding date_ok_def by linarith+
  have "s div 86400 = date_days t0" using t0(2) q unfolding date_seconds_def by auto
  then show ?thesis using run same b by (intro exI [of _ ?t]) simp
qed

text \<open>C11: every timestamp of 32 bits is turned into a date without a panic: the fields are those of a
  date of the calendar, with the right day of the year and of the week; turning it back gives the
  timestamp, and no other date stands for the same second.\<close>

theorem calendar_roundtrip:
  assumes "i32 s"
  shows "\<exists>t. timestamp_to_calendar_date s = Some t \<and> date_ok t \<and> calendar_date_to_timestamp t = s
    \<and> date_seconds t = s \<and> tm_yday t = date_yday t \<and> tm_wday t = (4 + s div 86400) mod 7
    \<and> (\<forall>u. date_ok u \<and> date_seconds u = s \<longrightarrow>
          tm_year u = tm_year t \<and> tm_mon u = tm_mon t \<and> tm_mday u = tm_mday t
          \<and> tm_hour u = tm_hour t \<and> tm_min u = tm_min t \<and> tm_sec u = tm_sec t)"
proof -
  from calendar_main [OF assms] obtain t where t: "timestamp_to_calendar_date s = Some t" "date_ok t"
    "calendar_date_to_timestamp t = s" "date_seconds t = s" "tm_yday t = date_yday t" "tm_wday t = (4 + s div 86400) mod 7"
    by blast
  have "tm_year u = tm_year t \<and> tm_mon u = tm_mon t \<and> tm_mday u = tm_mday t
      \<and> tm_hour u = tm_hour t \<and> tm_min u = tm_min t \<and> tm_sec u = tm_sec t"
    if u: "date_ok u" "date_seconds u = s" for u
  proof -
    note same = trans [OF t(1) [symmetric] to_calendar [OF u]]
    show ?thesis using same by simp
  qed
  then show ?thesis using t by (intro exI [of _ t] conjI allI impI) (assumption | blast)+
qed

lemma calendar_roundtrip_witness:
  "\<exists>t. timestamp_to_calendar_date 951827696 = Some t \<and> calendar_date_to_timestamp t = 951827696"
  using calendar_roundtrip [of 951827696] by (auto simp: i32_def)

end
