(* ===== verification/Time_Calls.thy ===== *)
theory Time_Calls
  imports Calendar Errno C_Chars
begin

text \<open>
  The functions of \<open>time.h\<close> over guest memory (\<open>src/libc/time.rs\<close>) and the locale they ask for
  (\<open>src/libc/clocale.rs\<close>).  What the host answers, its clock and its time zone, are arguments; the
  code differs between hosts with a time zone database and hosts without one, so the conversion of the
  former is an optional argument.
\<close>

section \<open>State\<close>

record time_state =
  gmtime_tmp :: "nat option"
  asctime_tmp :: "nat option"
  timezone_offset_seconds :: int
  daylight_flag :: int
  tzname_std_ptr :: "nat option"
  tzname_dst_ptr :: "nat option"
  tzname_array_ptr :: "nat option"
  timezone_global_ptr :: "nat option"
  daylight_global_ptr :: "nat option"

type_synonym tw = "time_state \<times> mem"

text \<open>\<open>struct tm\<close> in guest memory: eleven words, packed.\<close>

definition tm_bytes :: "tm \<Rightarrow> u8 list" where
  "tm_bytes t = concat (map i32_bytes [tm_sec t, tm_min t, tm_hour t, tm_mday t, tm_mon t, tm_year t,
      tm_wday t, tm_yday t, tm_isdst t, tm_gmtoff t]) @ to_le_bytes 4 (tm_zone t)"

definition tm_of_bytes :: "u8 list \<Rightarrow> tm" where
  "tm_of_bytes bs = (let w = \<lambda>i. i32_of_bytes (field (4 * i) 4 bs)
     in \<lparr> tm_sec = w 0, tm_min = w 1, tm_hour = w 2, tm_mday = w 3, tm_mon = w 4, tm_year = w 5,
          tm_wday = w 6, tm_yday = w 7, tm_isdst = w 8, tm_gmtoff = w 9,
          tm_zone = from_le_bytes (field 40 4 bs) \<rparr>)"

definition read_tm :: "mem \<Rightarrow> nat \<Rightarrow> tm option" where
  "read_tm m p = map_option tm_of_bytes (mem_read 44 m p)"

definition write_tm :: "mem \<Rightarrow> nat \<Rightarrow> tm \<Rightarrow> mem option" where
  "write_tm m p t = mem_write m p (tm_bytes t)"

definition saturating_sub_i32 :: "int \<Rightarrow> int \<Rightarrow> int" where
  "saturating_sub_i32 a b = saturate (a - b)"

definition saturating_add_i32 :: "int \<Rightarrow> int \<Rightarrow> int" where
  "saturating_add_i32 a b = saturate (a + b)"

section \<open>Conversions\<close>

definition gmtime_r :: "nat \<Rightarrow> nat \<Rightarrow> mem \<Rightarrow> (nat \<times> mem) option" where
  "gmtime_r timestamp res m = do {
     ts \<leftarrow> read_i32 m timestamp;
     date \<leftarrow> timestamp_to_calendar_date ts;
     m1 \<leftarrow> write_tm m res date;
     Some (res, m1) }"

text \<open>The static result of \<open>gmtime\<close> and \<open>localtime\<close> is allocated on first use.\<close>

definition get_gmtime_tmp :: "tw \<Rightarrow> (nat \<times> tw) option" where
  "get_gmtime_tmp w =
     (case gmtime_tmp (fst w) of
        Some p \<Rightarrow> Some (p, w)
      | None \<Rightarrow> do {
          (p, m1) \<leftarrow> mem_alloc 44 (snd w);
          Some (p, (fst w)\<lparr> gmtime_tmp := Some p \<rparr>, m1) })"

definition gmtime :: "nat \<Rightarrow> tw \<Rightarrow> (nat \<times> tw) option" where
  "gmtime timestamp w = do {
     (tmp, st, m) \<leftarrow> get_gmtime_tmp w;
     (r, m1) \<leftarrow> gmtime_r timestamp tmp m;
     Some (r, st, m1) }"

definition zone_name :: "time_state \<Rightarrow> int \<Rightarrow> nat" where
  "zone_name st isdst =
     (case (if isdst > 0 then tzname_dst_ptr st else tzname_std_ptr st) of Some p \<Rightarrow> p | None \<Rightarrow> 0)"

definition localtime_r :: "(int \<Rightarrow> int) option \<Rightarrow> nat \<Rightarrow> nat \<Rightarrow> tw \<Rightarrow> (nat \<times> tw) option" where
  "localtime_r host_isdst timestamp res w = do {
     ts \<leftarrow> read_i32 (snd w) timestamp;
     let offset = timezone_offset_seconds (fst w);
     date \<leftarrow> timestamp_to_calendar_date (saturating_sub_i32 ts offset);
     let isdst = (case host_isdst of Some f \<Rightarrow> f ts | None \<Rightarrow> daylight_flag (fst w));
     m1 \<leftarrow> write_tm (snd w) res (date\<lparr> tm_isdst := isdst, tm_gmtoff := wrap_i32 (- offset), tm_zone := zone_name (fst w) isdst \<rparr>);
     Some (res, fst w, m1) }"

definition localtime :: "(int \<Rightarrow> int) option \<Rightarrow> nat \<Rightarrow> tw \<Rightarrow> (nat \<times> tw) option" where
  "localtime host_isdst timestamp w = do {
     (tmp, w1) \<leftarrow> get_gmtime_tmp w;
     localtime_r host_isdst timestamp tmp w1 }"

text \<open>The host's own conversion normalises the fields and answers the timestamp.\<close>

definition mktime :: "(tm \<Rightarrow> int \<times> tm) option \<Rightarrow> nat \<Rightarrow> tw \<Rightarrow> (int \<times> tw) option" where
  "mktime host_mktime p w = do {
     value \<leftarrow> read_tm (snd w) p;
     let offset = timezone_offset_seconds (fst w);
     (res, normalized) \<leftarrow> (case host_mktime of
        Some f \<Rightarrow> (let (host_res, host_tm) = f value in Some (wrap_i32 host_res, host_tm))
      | None \<Rightarrow> do {
          let utc = calendar_date_to_timestamp value;
          date \<leftarrow> timestamp_to_calendar_date utc;
          Some (saturating_add_i32 utc offset, date\<lparr> tm_isdst := daylight_flag (fst w) \<rparr>) });
     m1 \<leftarrow> write_tm (snd w) p
       (normalized\<lparr> tm_gmtoff := wrap_i32 (- offset), tm_zone := zone_name (fst w) (tm_isdst normalized) \<rparr>);
     Some (res, fst w, m1) }"

section \<open>Clocks\<close>

text \<open>\<open>now\<close> is the time of the host since 1970, in seconds and microseconds.\<close>

definition time_call :: "nat \<Rightarrow> nat \<Rightarrow> env \<Rightarrow> (int \<times> env) option" where
  "time_call now out e = do {
     e1 \<leftarrow> set_errno 0 e;
     let t = wrap_i32 (int now);
     (if out = 0 then Some (t, e1)
      else do { m1 \<leftarrow> write_i32 (e_mem e1) out t; Some (t, e1\<lparr> e_mem := m1 \<rparr>) }) }"

definition gettimeofday :: "nat \<Rightarrow> nat \<Rightarrow> time_state \<Rightarrow> nat \<Rightarrow> nat \<Rightarrow> env \<Rightarrow> (int \<times> env) option" where
  "gettimeofday now_secs now_micros st tv tz e = do {
     e1 \<leftarrow> set_errno 0 e;
     m1 \<leftarrow> (if tz = 0 then Some (e_mem e1)
             else mem_write (e_mem e1) tz (i32_bytes (timezone_offset_seconds st sdiv 60) @ i32_bytes (daylight_flag st)));
     (if tv = 0 then Some (0, e1\<lparr> e_mem := m1 \<rparr>)
      else do {
        m2 \<leftarrow> mem_write m1 tv (i32_bytes (wrap_i32 (int now_secs)) @ i32_bytes (int now_micros));
        Some (0, e1\<lparr> e_mem := m2 \<rparr>) }) }"

text \<open>Negative parts of a duration count as zero; the clock of the scheduler is in nanoseconds.\<close>

definition nanosleep :: "nat \<Rightarrow> nat \<Rightarrow> env \<Rightarrow> int call option" where
  "nanosleep now rqtp e = do {
     e1 \<leftarrow> set_errno 0 e;
     bs \<leftarrow> mem_read 8 (e_mem e1) rqtp;
     let secs = nat (max 0 (i32_of_bytes (field 0 4 bs)));
     let nanos = nat (max 0 (i32_of_bytes (field 4 4 bs)));
     c \<leftarrow> sleep now (secs * 1000000000 + nanos) e1;
     Some (map_call (\<lambda>_. 0) c) }"

section \<open>Time zones\<close>

text \<open>A slice shorter than the text, at the end of a page of the null segment, is out of range: a panic.\<close>

definition write_cstr_to_buffer :: "nat \<Rightarrow> u8 list \<Rightarrow> nat \<Rightarrow> mem \<Rightarrow> mem option" where
  "write_cstr_to_buffer p s buf_size m =
     (let buf = bytes_at_mut m p buf_size;
          m1 = slice_fill buf 0 m;
          len = min (length s) (wsub32 buf_size 1)
      in if slice_len buf < len then None else Some (slice_store buf 0 (take len s) m1))"

text \<open>The name of the zone now and half a year away tell the standard name from the other.\<close>

definition query_host_timezone ::
    "(nat \<Rightarrow> int \<times> int \<times> u8 list option) option \<Rightarrow> nat \<Rightarrow> int \<times> int \<times> u8 list \<times> u8 list" where
  "query_host_timezone host_localtime now =
     (case host_localtime of
        None \<Rightarrow> (0, 0, bytes_of ''GMT'', bytes_of ''GMT'')
      | Some f \<Rightarrow>
          let (gmtoff, isdst, zone) = f now;
              offset = wrap_i32 (- wrap_i32 gmtoff);
              current_zone = (case zone of Some z \<Rightarrow> z | None \<Rightarrow> bytes_of ''GMT'');
              six_months = 183 * 24 * 3600;
              other_time = (if now > six_months then now - six_months else now + six_months);
              (_, other_isdst, other) = f other_time;
              other_zone = (case other of Some z \<Rightarrow> z | None \<Rightarrow> bytes_of ''GMT'');
              has_dst = (if current_zone \<noteq> other_zone \<or> isdst > 0 \<or> other_isdst > 0 then 1 else 0);
              (std_name, dst_name) =
                (if current_zone = other_zone then (current_zone, current_zone)
                 else if isdst > 0 then (other_zone, current_zone)
                 else (current_zone, other_zone))
          in (offset, has_dst, std_name, dst_name))"

definition zone_buffer :: "nat option \<Rightarrow> mem \<Rightarrow> (nat \<times> mem) option" where
  "zone_buffer existing m =
     (case existing of
        Some p \<Rightarrow> Some (p, m)
      | None \<Rightarrow> do {
          (p, m1) \<leftarrow> mem_alloc 32 m;
          Some (p, slice_fill (bytes_at_mut m1 p 32) 0 m1) })"

definition tzset :: "int \<times> int \<times> u8 list \<times> u8 list \<Rightarrow> tw \<Rightarrow> tw option" where
  "tzset zone w = do {
     let (offset_sec, dst, std_name, dst_name) = zone;
     let st = (fst w)\<lparr> timezone_offset_seconds := offset_sec, daylight_flag := dst \<rparr>;
     m1 \<leftarrow> (case timezone_global_ptr st of None \<Rightarrow> Some (snd w) | Some p \<Rightarrow> write_i32 (snd w) p offset_sec);
     m2 \<leftarrow> (case daylight_global_ptr st of None \<Rightarrow> Some m1 | Some p \<Rightarrow> write_i32 m1 p dst);
     (std_buf, m3) \<leftarrow> zone_buffer (tzname_std_ptr st) m2;
     (dst_buf, m4) \<leftarrow> zone_buffer (tzname_dst_ptr st) m3;
     m5 \<leftarrow> write_cstr_to_buffer std_buf std_name 32 m4;
     m6 \<leftarrow> write_cstr_to_buffer dst_buf dst_name 32 m5;
     m7 \<leftarrow> (case tzname_array_ptr st of
              None \<Rightarrow> Some m6
            | Some p \<Rightarrow> do {
                m \<leftarrow> write_u32 m6 p std_buf;
                q \<leftarrow> ptr_add 4 p 1;
                write_u32 m q dst_buf });
     Some (st\<lparr> tzname_std_ptr := Some std_buf, tzname_dst_ptr := Some dst_buf \<rparr>, m7) }"

section \<open>Locales\<close>

text \<open>
  The locale is a name for every category; a query of a category that was never set creates the name
  \<open>C\<close>.
\<close>

type_synonym locale_state = "int \<Rightarrow> nat option"

definition setlocale :: "int \<Rightarrow> nat \<Rightarrow> locale_state \<times> mem \<Rightarrow> (nat \<times> locale_state \<times> mem) option" where
  "setlocale category loc w =
     (if \<not> (0 \<le> category \<and> category \<le> 6) then None
      else if loc \<noteq> 0 then do {
        s \<leftarrow> cstr_at (snd w) loc;
        let name = slice_bytes (snd w) s;
        (new_locale, m1) \<leftarrow> alloc_and_write_cstr (if name = [] then bytes_of ''C'' else name) (snd w);
        m2 \<leftarrow> (case fst w category of None \<Rightarrow> Some m1 | Some old \<Rightarrow> mem_free old m1);
        Some (new_locale, (fst w)(category \<mapsto> new_locale), m2) }
      else
        (case fst w category of
           Some p \<Rightarrow> Some (p, w)
         | None \<Rightarrow> do {
             (p, m1) \<leftarrow> alloc_and_write_cstr (bytes_of ''C'') (snd w);
             Some (p, (fst w)(category \<mapsto> p), m1) }))"

definition newlocale :: nat where "newlocale = 1"

definition localeconv :: "mem \<Rightarrow> (nat \<times> mem) option" where
  "localeconv m = do {
     (block, m1) \<leftarrow> mem_alloc 128 m;
     m2 \<leftarrow> for_each (\<lambda>i m. wr u8_ty m block i 0) [0..<128] m1;
     (dot, m3) \<leftarrow> alloc_and_write_cstr (bytes_of ''.'') m2;
     (comma, m4) \<leftarrow> alloc_and_write_cstr [] m3;
     m5 \<leftarrow> write_u32 m4 block dot;
     p \<leftarrow> ptr_add 4 block 1;
     m6 \<leftarrow> write_u32 m5 p comma;
     Some (block, m6) }"

definition nl_langinfo :: "int \<Rightarrow> mem \<Rightarrow> (nat \<times> mem) option" where
  "nl_langinfo item m =
     alloc_and_write_cstr
       (if item = 0 then bytes_of ''UTF-8''
        else if item = 1 then bytes_of ''%a %b %e %H:%M:%S %Y''
        else if item = 2 then bytes_of ''%m/%d/%y''
        else if item = 3 then bytes_of ''%H:%M:%S''
        else if item = 65536 then bytes_of ''.''
        else []) m"

section \<open>Formatting numbers\<close>

fun show_nat :: "nat \<Rightarrow> u8 list" where
  "show_nat n = (if n < 10 then [of_nat (48 + n)] else show_nat (n div 10) @ [of_nat (48 + n mod 10)])"

declare show_nat.simps [simp del]

definition show_int :: "int \<Rightarrow> u8 list" where
  "show_int v = (if v < 0 then [45] else []) @ show_nat (nat \<bar>v\<bar>)"

text \<open>\<open>{:02}\<close>: zeros between the sign and the digits; \<open>{:3}\<close>: blanks before the sign.\<close>

definition fmt_zero :: "nat \<Rightarrow> int \<Rightarrow> u8 list" where
  "fmt_zero width v =
     (let digits = show_nat (nat \<bar>v\<bar>); sign = (if v < 0 then [45] else [])
      in sign @ replicate (width - length sign - length digits) 48 @ digits)"

definition fmt_blank :: "nat \<Rightarrow> int \<Rightarrow> u8 list" where
  "fmt_blank width v = replicate (width - length (show_int v)) 32 @ show_int v"

definition WDAY_ABBRS :: "string list" where
  "WDAY_ABBRS = [''Sun'', ''Mon'', ''Tue'', ''Wed'', ''Thu'', ''Fri'', ''Sat'']"

definition MONTH_ABBRS :: "string list" where
  "MONTH_ABBRS = [''Jan'', ''Feb'', ''Mar'', ''Apr'', ''May'', ''Jun'', ''Jul'', ''Aug'', ''Sep'', ''Oct'', ''Nov'', ''Dec'']"

section \<open>\<open>strftime\<close>\<close>

text \<open>What one conversion produces; \<open>%z\<close> has the offset from UTC.\<close>

definition week_number :: "int \<Rightarrow> int \<Rightarrow> int" where
  "week_number yday wday = wrap_i32 (wrap_i32 (yday - wday) + 7) sdiv 7"

definition strftime_zone :: "int \<Rightarrow> u8 list" where
  "strftime_zone gmtoff =
     (let (sign, a) = (if gmtoff < 0 then (45, wrap_i32 (- gmtoff)) else (43, gmtoff))
      in sign # fmt_zero 2 (a sdiv 3600) @ fmt_zero 2 (a smod 3600 sdiv 60))"

definition strftime_item :: "mem \<Rightarrow> tm \<Rightarrow> u8 \<Rightarrow> u8 list option" where
  "strftime_item m t c =
     (if c = 109 then Some (fmt_zero 2 (clamp 1 12 (wrap_i32 (tm_mon t + 1))))
      else if c = 87 then Some (fmt_zero 2 (week_number (tm_yday t) (wrap_i32 (tm_wday t + 6) smod 7)))
      else if c = 85 then Some (fmt_zero 2 (week_number (tm_yday t) (tm_wday t)))
      else if c = 119 then Some (show_int (tm_wday t))
      else if c = 122 then Some (strftime_zone (tm_gmtoff t))
      else if c = 100 then Some (fmt_zero 2 (clamp 1 31 (tm_mday t)))
      else if c = 72 then Some (fmt_zero 2 (clamp 0 23 (tm_hour t)))
      else if c = 77 then Some (fmt_zero 2 (clamp 0 59 (tm_min t)))
      else if c = 98 \<or> c = 104 then Some (bytes_of (MONTH_ABBRS ! nat (clamp 0 11 (tm_mon t))))
      else if c = 97 then Some (bytes_of (WDAY_ABBRS ! nat (clamp 0 6 (tm_wday t))))
      else if c = 89 then Some (fmt_zero 4 (wrap_i32 (tm_year t + 1900)))
      else if c = 121 then Some (fmt_zero 2 (wrap_i32 (tm_year t + 1900) smod 100))
      else if c = 90 then
        (if tm_zone t = 0 then Some (bytes_of ''GMT'')
         else do {
           r \<leftarrow> cstr_at_utf8 m (tm_zone t);
           Some (case r of Inl _ \<Rightarrow> bytes_of ''GMT'' | Inr z \<Rightarrow> z) })
      else if c = 83 then Some (fmt_zero 2 (clamp 0 60 (tm_sec t)))
      else Some [37, c])"

partial_function (option) strftime_loop :: "mem \<Rightarrow> nat \<Rightarrow> tm \<Rightarrow> nat \<Rightarrow> u8 list \<Rightarrow> u8 list option" where
  "strftime_loop m fmt t i res = do {
     c \<leftarrow> rd u8_ty m fmt i;
     (if c = 0 then Some res
      else if c \<noteq> 37 then strftime_loop m fmt t (wadd32 i 1) (res @ [c])
      else do {
        specifier \<leftarrow> rd u8_ty m fmt (wadd32 i 1);
        out \<leftarrow> strftime_item m t specifier;
        strftime_loop m fmt t (wadd32 (wadd32 i 1) 1) (res @ out) }) }"

text \<open>The stores go through the slice, so a slice shorter than the text is a panic.\<close>

definition strftime :: "nat \<Rightarrow> nat \<Rightarrow> nat \<Rightarrow> nat \<Rightarrow> locale_state \<times> mem \<Rightarrow> (nat \<times> locale_state \<times> mem) option" where
  "strftime s max_size fmt time_ptr w = do {
     (ctype_locale, ls, m) \<leftarrow> setlocale 2 0 w;
     _ \<leftarrow> rd u8_ty m ctype_locale 0;
     t \<leftarrow> read_tm m time_ptr;
     res \<leftarrow> strftime_loop m fmt t 0 [];
     (if max_size = 0 then Some (0, ls, m)
      else do {
        let middle = (if max_size - 1 < length res then take (max_size - 1) res else res);
        let dest_slice = bytes_at_mut m s max_size;
        m1 \<leftarrow> (if slice_len dest_slice < length middle + 1 then None else Some (slice_store dest_slice 0 (middle @ [0]) m));
        Some (if length res < 4294967296 then length res else U32_MAX, ls, m1) }) }"

section \<open>\<open>strptime\<close>\<close>

definition isspace_inner :: "u8 \<Rightarrow> bool" where
  "isspace_inner c \<longleftrightarrow> c = 32 \<or> c = 9 \<or> c = 10 \<or> c = 12 \<or> c = 13 \<or> c = 11"

function digits_loop :: "mem \<Rightarrow> nat \<Rightarrow> nat \<Rightarrow> int \<Rightarrow> nat \<Rightarrow> (int \<times> nat \<times> nat) option" where
  "digits_loop m buf idx num count =
     (case rd u8_ty m buf idx of
        None \<Rightarrow> None
      | Some c \<Rightarrow>
          (if 48 \<le> c \<and> c \<le> 57 then
             (if 2 \<le> count then Some (num, count, idx)
              else digits_loop m buf (wadd32 idx 1) (num * 10 + (int (unat c) - 48)) (count + 1))
           else Some (num, count, idx)))"
  by pat_completeness auto
termination by (relation "measure (\<lambda>(_, _, _, _, count). 3 - count)") auto

declare digits_loop.simps [simp del]

text \<open>A number of two digits below a bound, and the index behind it; it fails otherwise.\<close>

definition parse_2_digits :: "mem \<Rightarrow> nat \<Rightarrow> int \<Rightarrow> nat \<Rightarrow> (int option \<times> nat) option" where
  "parse_2_digits m buf bound idx = do {
     (num, count, idx1) \<leftarrow> digits_loop m buf idx 0 0;
     Some (if count \<noteq> 2 \<or> \<not> (0 \<le> num \<and> num < bound) then None else Some num, idx1) }"

partial_function (option) skip_spaces :: "mem \<Rightarrow> nat \<Rightarrow> nat \<Rightarrow> nat option" where
  "skip_spaces m buf idx = do {
     cc \<leftarrow> rd u8_ty m buf idx;
     (if isspace_inner cc then skip_spaces m buf (wadd32 idx 1) else Some idx) }"

partial_function (option) strptime_loop ::
    "mem \<Rightarrow> nat \<Rightarrow> nat \<Rightarrow> nat \<Rightarrow> nat \<Rightarrow> tm \<Rightarrow> (tm \<times> bool \<times> nat) option" where
  "strptime_loop m buf fmt i j t = do {
     c \<leftarrow> rd u8_ty m fmt i;
     (if c = 0 then Some (t, False, j)
      else if c \<noteq> 37 then do {
        cc \<leftarrow> rd u8_ty m buf j;
        (if isspace_inner c then do {
           j1 \<leftarrow> skip_spaces m buf j;
           strptime_loop m buf fmt (wadd32 i 1) j1 t }
         else if c \<noteq> cc then Some (t, True, j)
         else strptime_loop m buf fmt (wadd32 i 1) (wadd32 j 1) t) }
      else do {
        specifier \<leftarrow> rd u8_ty m fmt (wadd32 i 1);
        let i2 = wadd32 (wadd32 i 1) 1;
        (if specifier = 72 then do {
           (r, j1) \<leftarrow> parse_2_digits m buf 24 j;
           (case r of None \<Rightarrow> Some (t, True, j1) | Some v \<Rightarrow> strptime_loop m buf fmt i2 j1 (t\<lparr> tm_hour := v \<rparr>)) }
         else if specifier = 77 then do {
           (r, j1) \<leftarrow> parse_2_digits m buf 60 j;
           (case r of None \<Rightarrow> Some (t, True, j1) | Some v \<Rightarrow> strptime_loop m buf fmt i2 j1 (t\<lparr> tm_min := v \<rparr>)) }
         else if specifier = 83 then do {
           (r, j1) \<leftarrow> parse_2_digits m buf 61 j;
           (case r of None \<Rightarrow> Some (t, True, j1) | Some v \<Rightarrow> strptime_loop m buf fmt i2 j1 (t\<lparr> tm_sec := v \<rparr>)) }
         else Some (t, True, j)) }) }"

definition strptime :: "nat \<Rightarrow> nat \<Rightarrow> nat \<Rightarrow> mem \<Rightarrow> (nat \<times> mem) option" where
  "strptime buf fmt time_ptr m = do {
     t \<leftarrow> read_tm m time_ptr;
     (t1, conversion_failed, j) \<leftarrow> strptime_loop m buf fmt 0 0 t;
     m1 \<leftarrow> write_tm m time_ptr t1;
     (if conversion_failed then Some (0, m1)
      else do { p \<leftarrow> ptr_add 1 buf j; Some (p, m1) }) }"

section \<open>\<open>asctime\<close> and \<open>ctime\<close>\<close>

definition ASCTIME_BUF_SIZE :: nat where "ASCTIME_BUF_SIZE = 64"

definition format_asctime :: "tm \<Rightarrow> u8 list" where
  "format_asctime t =
     bytes_of (WDAY_ABBRS ! nat (tm_wday t mod 7)) @ [32] @ bytes_of (MONTH_ABBRS ! nat (tm_mon t mod 12))
     @ fmt_blank 3 (tm_mday t) @ [32] @ fmt_zero 2 (tm_hour t) @ [58] @ fmt_zero 2 (tm_min t) @ [58]
     @ fmt_zero 2 (tm_sec t) @ [32] @ show_int (wrap_i32 (tm_year t + 1900)) @ [10]"

definition asctime_buf :: "tw \<Rightarrow> (nat \<times> tw) option" where
  "asctime_buf w =
     (case asctime_tmp (fst w) of
        Some p \<Rightarrow> Some (p, w)
      | None \<Rightarrow> do {
          (p, m1) \<leftarrow> mem_alloc ASCTIME_BUF_SIZE (snd w);
          Some (p, (fst w)\<lparr> asctime_tmp := Some p \<rparr>, slice_fill (bytes_at_mut m1 p ASCTIME_BUF_SIZE) 0 m1) })"

definition asctime :: "nat \<Rightarrow> tw \<Rightarrow> (nat \<times> tw) option" where
  "asctime timeptr w =
     (if timeptr = 0 then Some (0, w)
      else do {
        date \<leftarrow> read_tm (snd w) timeptr;
        (buf, st, m1) \<leftarrow> asctime_buf w;
        m2 \<leftarrow> write_cstr_to_buffer buf (format_asctime date) ASCTIME_BUF_SIZE m1;
        Some (buf, st, m2) })"

definition ctime :: "nat \<Rightarrow> tw \<Rightarrow> (nat \<times> tw) option" where
  "ctime timep w =
     (if timep = 0 then Some (0, w)
      else do {
        ts \<leftarrow> read_i32 (snd w) timep;
        date \<leftarrow> timestamp_to_calendar_date (saturating_sub_i32 ts (timezone_offset_seconds (fst w)));
        (buf, st, m1) \<leftarrow> asctime_buf w;
        m2 \<leftarrow> write_cstr_to_buffer buf (format_asctime date) ASCTIME_BUF_SIZE m1;
        Some (buf, st, m2) })"

end
