(* ===== verification/Time_Props.thy ===== *)
theory Time_Props
  imports Time_Calls C_Strings_Read
begin

text \<open>
  Broken-down times in guest memory: local times convert back to their timestamps, \<open>strftime\<close> stays in
  its buffer, and \<open>strptime\<close> reads back what it wrote.
\<close>

section \<open>The struct in memory\<close>

definition tm_fits :: "tm \<Rightarrow> bool" where
  "tm_fits t \<longleftrightarrow> i32 (tm_sec t) \<and> i32 (tm_min t) \<and> i32 (tm_hour t) \<and> i32 (tm_mday t) \<and> i32 (tm_mon t) \<and> i32 (tm_year t)
     \<and> i32 (tm_wday t) \<and> i32 (tm_yday t) \<and> i32 (tm_isdst t) \<and> i32 (tm_gmtoff t) \<and> tm_zone t < 4294967296"

lemma tm_bytes_length [simp]: "length (tm_bytes t) = 44"
  by (simp add: tm_bytes_def)

lemma tm_roundtrip: "tm_fits t \<Longrightarrow> tm_of_bytes (tm_bytes t) = t"
  unfolding tm_of_bytes_def tm_bytes_def Let_def
  by (cases t) (simp add: tm_fits_def i32_roundtrip from_to_le)

lemma write_tm_ok:
  assumes "ordinary m p 44" "tm_fits t"
  shows "write_tm m p t = Some (m\<lparr> mbytes := put_bytes p (tm_bytes t) (mbytes m) \<rparr>)"
    "read_tm (m\<lparr> mbytes := put_bytes p (tm_bytes t) (mbytes m) \<rparr>) p = Some t"
proof -
  have ne: "tm_bytes t \<noteq> []" using tm_bytes_length [of t] by (metis list.size(3) zero_neq_numeral)
  have o: "ordinary m p (length (tm_bytes t))" using assms(1) by simp
  show "write_tm m p t = Some (m\<lparr> mbytes := put_bytes p (tm_bytes t) (mbytes m) \<rparr>)"
    unfolding write_tm_def by (rule write_ordinary [OF o ne])
  have "mem_read 44 (m\<lparr> mbytes := put_bytes p (tm_bytes t) (mbytes m) \<rparr>) p = Some (take 44 (tm_bytes t))"
    by (rule read_prefix [OF o]) simp_all
  then show "read_tm (m\<lparr> mbytes := put_bytes p (tm_bytes t) (mbytes m) \<rparr>) p = Some t"
    using tm_roundtrip [OF assms(2)] by (simp add: read_tm_def)
qed

text \<open>Dates of timestamps fit, whatever the zone.\<close>

lemma date_fits:
  assumes "date_ok t" "i32 (date_seconds t)" "i32 (tm_wday t)" "tm_yday t = date_yday t" "i32 (tm_isdst t)" "i32 (tm_gmtoff t)"
    "tm_zone t < 4294967296"
  shows "tm_fits t"
proof -
  have "i32 (year_of t)" by (rule year_in_range [OF assms(1,2)])
  have y: "i32 (tm_year t)"
  proof -
    have s: "-2147483648 \<le> date_seconds t" using assms(2) by (simp add: i32_def)
    have q: "tm_hour t * 3600 + tm_min t * 60 + tm_sec t < 86400" using assms(1) unfolding date_ok_def by linarith
    have yd: "date_yday t < 366" using yday_bounds(2) [OF assms(1)] by (simp split: if_splits)
    have "-24856 \<le> date_days t" using s q unfolding date_seconds_def by linarith
    then have b: "-25222 < days_before (year_of t) - days_before 1970" using yd unfolding date_days_def by linarith
    have "0 \<le> year_of t"
    proof (rule ccontr)
      assume "\<not> ?thesis"
      then have "days_before (year_of t) \<le> days_before 0" by (intro days_before_le) simp
      moreover have "days_before 0 = 0" "days_before 1970 = 719528" by (simp_all add: days_before_def)
      ultimately show False using b by linarith
    qed
    then show ?thesis using \<open>i32 (year_of t)\<close> by (simp add: year_of_def i32_def)
  qed
  have "month_days l m \<le> 31" if "m < 12" for l m
    using that by (auto simp: month_values less_Suc_eq numeral_eq_Suc)
  from this [of "nat (tm_mon t)" "is_leap_year (year_of t)"] have md: "i32 (tm_mday t)"
    using assms(1) by (simp add: date_ok_def i32_def nat_less_iff)
  have "i32 (tm_yday t)" using yday_bounds [OF assms(1)] assms(4) by (simp add: i32_def split: if_splits)
  then show ?thesis using assms y md by (simp add: tm_fits_def date_ok_def i32_def)
qed

section \<open>Local times\<close>

definition zones_ok :: "time_state \<Rightarrow> bool" where
  "zones_ok st \<longleftrightarrow> i32 (timezone_offset_seconds st) \<and> i32 (daylight_flag st)
     \<and> (\<forall>p. tzname_std_ptr st = Some p \<or> tzname_dst_ptr st = Some p \<longrightarrow> p < 4294967296)"

lemma zone_name_bound: "zones_ok st \<Longrightarrow> zone_name st d < 4294967296"
  by (auto simp: zone_name_def zones_ok_def split: option.splits)

lemma wrap_i32_range: "i32 (wrap_i32 v)"
proof -
  have "0 \<le> (v + 2147483648) mod 4294967296" "(v + 2147483648) mod 4294967296 < 4294967296" by simp_all
  then show ?thesis by (simp add: wrap_i32_def i32_def)
qed

lemma put_bytes_again: "put_bytes p bs (put_bytes p bs f) = put_bytes p bs f"
  by (simp add: put_bytes_def fun_eq_iff)

text \<open>without a time zone database on the host, \<open>localtime_r\<close> writes a date of the calendar whose second
  is the timestamp moved by the zone, and \<open>mktime\<close> answers the timestamp again and finds nothing to
  normalise: the memory stays as it is.\<close>

theorem localtime_mktime_roundtrip:
  assumes "ordinary m tp 4" "read_i32 m tp = Some ts" "ordinary m res 44" "zones_ok st"
    "i32 ts" "i32 (ts - timezone_offset_seconds st)"
  shows "\<exists>m1 t. localtime_r None tp res (st, m) = Some (res, st, m1) \<and> read_tm m1 res = Some t
    \<and> date_ok t \<and> date_seconds t = ts - timezone_offset_seconds st \<and> tm_zone t = zone_name st (daylight_flag st)
    \<and> mktime None res (st, m1) = Some (ts, st, m1)
    \<and> (\<forall>q. q < res \<or> res + 44 \<le> q \<longrightarrow> mbytes m1 q = mbytes m q)"
proof -
  let ?o = "timezone_offset_seconds st"
  have sub: "saturating_sub_i32 ts ?o = ts - ?o" using assms(6) by (simp add: saturating_sub_i32_def saturate_def)
  from calendar_main [OF assms(6)] obtain d where d: "timestamp_to_calendar_date (ts - ?o) = Some d" "date_ok d"
    "calendar_date_to_timestamp d = ts - ?o" "date_seconds d = ts - ?o" "tm_yday d = date_yday d"
    "tm_wday d = (4 + (ts - ?o) div 86400) mod 7" by blast
  let ?t = "d\<lparr> tm_isdst := daylight_flag st, tm_gmtoff := wrap_i32 (- ?o), tm_zone := zone_name st (daylight_flag st) \<rparr>"
  have same: "date_ok ?t" "date_seconds ?t = ts - ?o" "date_yday ?t = date_yday d" "calendar_date_to_timestamp ?t = ts - ?o"
    using d(2,3,4) by (simp_all add: date_ok_def date_seconds_def date_days_def date_yday_def year_of_def calendar_date_to_timestamp_def)
  have "0 \<le> tm_wday d" "tm_wday d < 7" using d(6) by simp_all
  then have "i32 (tm_wday ?t)" by (simp add: i32_def)
  then have fits: "tm_fits ?t"
    using same(1-3) d(5) assms(4,6) wrap_i32_range zone_name_bound [OF assms(4)]
    by (intro date_fits) (simp_all add: zones_ok_def)
  note w = write_tm_ok [OF assms(3) fits]
  let ?m1 = "m\<lparr> mbytes := put_bytes res (tm_bytes ?t) (mbytes m) \<rparr>"
  have run: "localtime_r None tp res (st, m) = Some (res, st, ?m1)"
    using assms(2) d(1) w(1) by (simp add: localtime_r_def sub Let_def)
  have o1: "ordinary ?m1 res 44" using assms(3) by simp
  have again: "write_tm ?m1 res ?t = Some ?m1"
    using write_tm_ok(1) [OF o1 fits] by (simp add: put_bytes_again)
  have add: "saturating_add_i32 (ts - ?o) ?o = ts" using assms(5) by (simp add: saturating_add_i32_def saturate_def)
  have "mktime None res (st, ?m1) = Some (ts, st, ?m1)"
    using w(2) same(4) d(1) again add by (simp add: mktime_def Let_def)
  moreover have "\<forall>q. q < res \<or> res + 44 \<le> q \<longrightarrow> mbytes ?m1 q = mbytes m q" by (auto simp: put_bytes_def)
  ultimately show ?thesis using run w(2) same(1,2) by (intro exI [of _ ?m1] exI [of _ ?t]) simp
qed

section \<open>What \<open>strftime\<close> produces\<close>

text \<open>The reference: conversions replaced one after the other; a format must not end inside one.\<close>

fun render :: "mem \<Rightarrow> tm \<Rightarrow> u8 list \<Rightarrow> u8 list option" where
  "render m t [] = Some []"
| "render m t (c # F) =
     (if c \<noteq> 37 then map_option (\<lambda>out. c # out) (render m t F)
      else case F of
        [] \<Rightarrow> None
      | d # G \<Rightarrow> do { item \<leftarrow> strftime_item m t d; map_option (\<lambda>out. item @ out) (render m t G) })"

fun complete :: "u8 list \<Rightarrow> bool" where
  "complete [] = True"
| "complete [c] = (c \<noteq> 37)"
| "complete (c # d # F) = (if c = 37 then complete F else complete (d # F))"

lemma strftime_loop_render:
  assumes "byte.cstr m fmt F"
  shows "i \<le> length F \<Longrightarrow> render m t (drop i F) = Some out \<Longrightarrow> strftime_loop m fmt t i res = Some (res @ out)"
proof (induction "length F - i" arbitrary: i res out rule: less_induct)
  case less
  note rd = byte.cstr_rd [OF assms] and st = byte.cstr_step [OF assms]
  show ?case
  proof (cases "i = length F")
    case True
    then show ?thesis using less.prems(2) rd(2) by (subst strftime_loop.simps) (simp add: u8_ty_def)
  next
    case False
    then have i: "i < length F" using less.prems(1) by simp
    then have dr: "drop i F = F ! i # drop (Suc i) F" by (simp add: Cons_nth_drop_Suc)
    have c: "F ! i \<noteq> 0" using byte.cstr_nonnull [OF assms i] by (simp add: u8_ty_def)
    show ?thesis
    proof (cases "F ! i = 37")
      case False
      then obtain out1 where o: "render m t (drop (Suc i) F) = Some out1" "out = F ! i # out1"
        using less.prems(2) dr by auto
      have "strftime_loop m fmt t (Suc i) (res @ [F ! i]) = Some ((res @ [F ! i]) @ out1)"
        using i o(1) by (intro less.hyps) simp_all
      then show ?thesis using rd(1) [OF i] c False o(2) st [OF i] by (subst strftime_loop.simps) simp
    next
      case True
      obtain item out1 where o: "Suc i < length F" "strftime_item m t (F ! Suc i) = Some item"
        "render m t (drop (Suc (Suc i)) F) = Some out1" "out = item @ out1"
      proof (cases "Suc i < length F")
        case True
        then have "drop (Suc i) F = F ! Suc i # drop (Suc (Suc i)) F" by (simp add: Cons_nth_drop_Suc)
        then show ?thesis using less.prems(2) dr \<open>F ! i = 37\<close> that True by (auto simp: bind_eq_Some_conv)
      next
        case False
        then show ?thesis using less.prems(2) dr True by simp
      qed
      have "strftime_loop m fmt t (Suc (Suc i)) (res @ item) = Some ((res @ item) @ out1)"
        using o(1,3) by (intro less.hyps) simp_all
      then show ?thesis using rd(1) [OF i] rd(1) [OF o(1)] c True o(2,4) st [OF i] st [OF o(1)]
        by (subst strftime_loop.simps) simp
    qed
  qed
qed

text \<open>A format that ends inside a conversion is read beyond its terminator.\<close>

lemma strftime_reads_past_format:
  assumes "rd u8_ty m fmt i = Some 37" "rd u8_ty m fmt (wadd32 i 1) = Some 0"
  shows "strftime_loop m fmt t i res = strftime_loop m fmt t (wadd32 (wadd32 i 1) 1) (res @ [37, 0])"
  using assms by (subst strftime_loop.simps) (simp add: strftime_item_def)

lemma render_total: "complete F \<Longrightarrow> tm_zone t = 0 \<or> cstr_at_utf8 m (tm_zone t) \<noteq> None \<Longrightarrow> \<exists>out. render m t F = Some out"
proof (induction F rule: complete.induct)
  case (3 c d F)
  have "\<exists>item. strftime_item m t d = Some item" using 3(4) by (auto simp: strftime_item_def)
  then show ?case using 3 by (auto split: if_splits)
qed auto

text \<open>The buffer after the call.\<close>

lemma setlocale_query: "ls 2 = Some l \<Longrightarrow> setlocale 2 0 (ls, m) = Some (l, ls, m)"
  by (simp add: setlocale_def)

lemma store_at_front:
  assumes "ordinary m s n" "length bs \<le> n"
  shows "slice_store (bytes_at_mut m s n) 0 bs m = m\<lparr> mbytes := put_bytes s bs (mbytes m) \<rparr>"
    and "slice_len (bytes_at_mut m s n) = n"
proof -
  have "bytes_at_mut m s n = Guest s n" using assms(1) by (intro bytes_at_mut_guest) (auto simp: ordinary_def BYTES_LEN_def)
  then show "slice_store (bytes_at_mut m s n) 0 bs m = m\<lparr> mbytes := put_bytes s bs (mbytes m) \<rparr>"
    "slice_len (bytes_at_mut m s n) = n" by simp_all
qed

lemma strftime_run:
  assumes "ls 2 = Some l" "ordinary m l 1" "byte.cstr m fmt F" "read_tm m tp = Some t" "render m t F = Some out"
    "ordinary m s n" "length out < 4294967296"
  shows "strftime s n fmt tp (ls, m) =
    (if n = 0 then Some (0, ls, m)
     else Some (length out, ls, m\<lparr> mbytes := put_bytes s (take (n - 1) out @ [0]) (mbytes m) \<rparr>))"
proof -
  have "byte.cells_ok m l 1" using assms(2) unfolding byte.cells_ok_def by (simp add: u8_ty_def)
  then obtain c where c: "rd u8_ty m l 0 = Some c" using byte.rd_ok [of m l 1 0] by simp
  have loop: "strftime_loop m fmt t 0 [] = Some out" using strftime_loop_render [OF assms(3), of 0 t out "[]"] assms(5) by simp
  have "(if n - 1 < length out then take (n - 1) out else out) = take (n - 1) out" by simp
  moreover have "length (take (n - 1) out @ [0 :: u8]) \<le> n" if "n \<noteq> 0" using that by simp
  note store = store_at_front [OF assms(6) this]
  ultimately show ?thesis
    using setlocale_query [of ls l m] assms(1) c assms(4,7) loop store
    by (cases "n = 0") (simp_all add: strftime_def Let_def)
qed

text \<open>C13: let the locale of \<open>LC_CTYPE\<close> be set, the format not end inside a conversion, the name of the zone
  be null or readable, and the buffer be ordinary memory of \<open>n\<close> bytes outside the null segment.  Then \<open>strftime\<close>
  ends without a panic and writes a terminated string, the first bytes of the formatted time, and nothing outside
  its buffer; the number it answers is the length of the whole formatted time (which is less than 4 GB) even if
  the buffer is too small, except that it answers 0 and writes nothing when \<open>n\<close> is 0.\<close>

theorem strftime_bounded:
  assumes "ls 2 = Some l" "ordinary m l 1" "byte.cstr m fmt F" "complete F" "read_tm m tp = Some t"
    "tm_zone t = 0 \<or> cstr_at_utf8 m (tm_zone t) \<noteq> None"
    "ordinary m s n" "length (the (render m t F)) < 4294967296"
  shows "\<exists>out m1. render m t F = Some out \<and> strftime s n fmt tp (ls, m) = Some (if n = 0 then 0 else length out, ls, m1)
    \<and> (n = 0 \<longrightarrow> m1 = m)
    \<and> (0 < n \<longrightarrow> (\<forall>i < min (n - 1) (length out). mbytes m1 (s + i) = out ! i) \<and> mbytes m1 (s + min (n - 1) (length out)) = 0)
    \<and> (\<forall>q. q < s \<or> s + n \<le> q \<longrightarrow> mbytes m1 q = mbytes m q)"
proof -
  obtain out where out: "render m t F = Some out" using render_total [OF assms(4,6)] by blast
  then have "length out < 4294967296" using assms(8) by simp
  from strftime_run [of ls l m fmt F tp t out s n] this assms(1-3,5,7) out
  have run: "strftime s n fmt tp (ls, m) =
    (if n = 0 then Some (0, ls, m)
     else Some (length out, ls, m\<lparr> mbytes := put_bytes s (take (n - 1) out @ [0]) (mbytes m) \<rparr>))" by blast
  show ?thesis
  proof (cases "n = 0")
    case True
    then show ?thesis using run out by auto
  next
    case False
    let ?bs = "take (n - 1) out @ [0 :: u8]"
    have len: "length ?bs = min (n - 1) (length out) + 1" by simp
    then have "length ?bs \<le> n" using False by simp
    then have "\<forall>q. q < s \<or> s + n \<le> q \<longrightarrow> put_bytes s ?bs (mbytes m) q = mbytes m q" by (auto simp: put_bytes_def)
    moreover have "put_bytes s ?bs (mbytes m) (s + i) = ?bs ! i" if "i < length ?bs" for i
      using that by (simp add: put_bytes_def)
    moreover have "\<forall>i < min (n - 1) (length out). ?bs ! i = out ! i" "?bs ! min (n - 1) (length out) = 0"
      by (simp_all add: nth_append min_def)
    ultimately show ?thesis using run out False len by (intro exI [of _ out]) auto
  qed
qed

section \<open>Reading a formatted time back\<close>

text \<open>Formats of literal characters, no blanks, and the three conversions \<open>strptime\<close> knows.\<close>

fun plain :: "u8 list \<Rightarrow> bool" where
  "plain [] = True"
| "plain [c] = (c \<noteq> 37 \<and> \<not> isspace_inner c)"
| "plain (c # d # F) = (if c = 37 then (d = 72 \<or> d = 77 \<or> d = 83) \<and> plain F else \<not> isspace_inner c \<and> plain (d # F))"

fun mentions :: "u8 \<Rightarrow> u8 list \<Rightarrow> bool" where
  "mentions x [] = False"
| "mentions x [c] = False"
| "mentions x (c # d # F) = (if c = 37 then d = x \<or> mentions x F else mentions x (d # F))"

definition taken :: "tm \<Rightarrow> u8 list \<Rightarrow> tm \<Rightarrow> tm" where
  "taken t F t0 = t0\<lparr> tm_sec := (if mentions 83 F then tm_sec t else tm_sec t0),
     tm_min := (if mentions 77 F then tm_min t else tm_min t0), tm_hour := (if mentions 72 F then tm_hour t else tm_hour t0) \<rparr>"

lemma show_nat_digits:
  "n < 10 \<Longrightarrow> show_nat n = [of_nat (48 + n)]"
  "10 \<le> n \<Longrightarrow> n < 100 \<Longrightarrow> show_nat n = [of_nat (48 + n div 10), of_nat (48 + n mod 10)]"
  by (simp_all add: show_nat.simps [of n] show_nat.simps [of "n div 10"])

lemma fmt_two:
  assumes "0 \<le> v" "v < 100"
  shows "fmt_zero 2 v = [of_nat (48 + nat v div 10), of_nat (48 + nat v mod 10)]"
proof (cases "nat v < 10")
  case True
  then show ?thesis using assms show_nat_digits(1) [OF True] by (simp add: fmt_zero_def Let_def)
next
  case False
  then have "10 \<le> nat v" "nat v < 100" using assms by simp_all
  then show ?thesis using assms(1) show_nat_digits(2) by (simp add: fmt_zero_def Let_def)
qed

lemma digit_byte:
  assumes "a < 10"
  shows "48 \<le> (of_nat (48 + a) :: u8) \<and> (of_nat (48 + a) :: u8) \<le> 57" "unat (of_nat (48 + a) :: u8) = 48 + a"
    "(of_nat (48 + a) :: u8) \<noteq> 0"
proof -
  show u: "unat (of_nat (48 + a) :: u8) = 48 + a" using assms unfolding unat_of_nat by simp
  show "48 \<le> (of_nat (48 + a) :: u8) \<and> (of_nat (48 + a) :: u8) \<le> 57" unfolding word_le_nat_alt u using assms by simp
  show "(of_nat (48 + a) :: u8) \<noteq> 0" using u by auto
qed

lemma parse_two:
  assumes S: "byte.cstr m buf S" and j: "Suc j < length S" and ab: "a < 10" "b < 10"
    "S ! j = of_nat (48 + a)" "S ! Suc j = of_nat (48 + b)" and bound: "int (10 * a + b) < bound"
  shows "parse_2_digits m buf bound j = Some (Some (int (10 * a + b)), Suc (Suc j))"
proof -
  note rd = byte.cstr_rd [OF S] and st = byte.cstr_step [OF S]
  have j0: "j < length S" using j by simp
  have "\<exists>c. rd u8_ty m buf (Suc (Suc j)) = Some c"
    using rd(1) [of "Suc (Suc j)"] rd(2) j by (cases "Suc (Suc j) = length S") auto
  then obtain c where c: "rd u8_ty m buf (Suc (Suc j)) = Some c" by blast
  have last: "digits_loop m buf (Suc (Suc j)) n 2 = Some (n, 2, Suc (Suc j))" for n
    using c by (subst digits_loop.simps) simp
  have "digits_loop m buf (Suc j) (int a) 1 = digits_loop m buf (Suc (Suc j)) (int a * 10 + int b) 2"
    using rd(1) [OF j] ab(4) digit_byte [OF ab(2)] st [OF j]
    by (subst digits_loop.simps) (simp add: numeral_2_eq_2)
  then have mid: "digits_loop m buf (Suc j) (int a) 1 = Some (int a * 10 + int b, 2, Suc (Suc j))" using last by simp
  have "digits_loop m buf j 0 0 = digits_loop m buf (Suc j) (int a) 1"
    using rd(1) [OF j0] ab(3) digit_byte [OF ab(1)] st [OF j0] by (subst digits_loop.simps) simp
  then show ?thesis using mid bound by (simp add: parse_2_digits_def)
qed

text \<open>The field behind each of the three conversions.\<close>

lemma item_fields:
  assumes "date_ok t"
  shows "strftime_item m t 72 = Some (fmt_zero 2 (tm_hour t))" "strftime_item m t 77 = Some (fmt_zero 2 (tm_min t))"
    "strftime_item m t 83 = Some (fmt_zero 2 (tm_sec t))"
  using assms by (simp_all add: strftime_item_def clamp_def date_ok_def)

text \<open>One conversion read back.\<close>

lemma plain_cases:
  assumes "plain (c # F)" "c = 37"
  obtains d G where "F = d # G" "d = 72 \<or> d = 77 \<or> d = 83" "plain G"
  using assms by (cases F) auto

definition conversion_field :: "u8 \<Rightarrow> tm \<Rightarrow> int" where
  "conversion_field d t = (if d = 72 then tm_hour t else if d = 77 then tm_min t else tm_sec t)"

definition conversion_bound :: "u8 \<Rightarrow> int" where
  "conversion_bound d = (if d = 72 then 24 else if d = 77 then 60 else 61)"

lemma conversion_range:
  assumes "date_ok t" "d = 72 \<or> d = 77 \<or> d = 83"
  shows "0 \<le> conversion_field d t" "conversion_field d t < conversion_bound d" "conversion_field d t < 100"
    "strftime_item m t d = Some (fmt_zero 2 (conversion_field d t))"
  using assms item_fields [OF assms(1), of m] by (auto simp: conversion_field_def conversion_bound_def date_ok_def)

lemma parse_conversion:
  assumes S: "byte.cstr m buf S" and t: "date_ok t" "d = 72 \<or> d = 77 \<or> d = 83"
    and dr: "drop j S = fmt_zero 2 (conversion_field d t) @ rest"
  shows "parse_2_digits m buf (conversion_bound d) j = Some (Some (conversion_field d t), Suc (Suc j))"
    "drop (Suc (Suc j)) S = rest" "Suc j < length S"
proof -
  let ?v = "nat (conversion_field d t)"
  note r = conversion_range [OF t]
  have v: "?v < 100" "int ?v = conversion_field d t" using r(1,3) by simp_all
  have dr2: "drop j S = of_nat (48 + ?v div 10) # of_nat (48 + ?v mod 10) # rest"
    using dr fmt_two [OF r(1,3)] by simp
  have len: "length S - j = Suc (Suc (length rest))" using dr2 by (metis length_Cons length_drop)
  then show j: "Suc j < length S" by simp
  have "S ! j = drop j S ! 0" "S ! Suc j = drop j S ! 1" using j by simp_all
  then have s: "S ! j = of_nat (48 + ?v div 10)" "S ! Suc j = of_nat (48 + ?v mod 10)" unfolding dr2 by simp_all
  have ab: "?v div 10 < 10" "?v mod 10 < 10" "10 * (?v div 10) + ?v mod 10 = ?v" using v(1) by simp_all
  have "int (10 * (?v div 10) + ?v mod 10) < conversion_bound d" unfolding ab(3) v(2) by (rule r(2))
  from parse_two [OF S j ab(1,2) s this] show "parse_2_digits m buf (conversion_bound d) j = Some (Some (conversion_field d t), Suc (Suc j))"
    unfolding ab(3) v(2) .
  have "drop 2 (drop j S) = rest" unfolding dr2 by simp
  then show "drop (Suc (Suc j)) S = rest" by simp
qed

lemma strptime_loop_reads:
  assumes F: "byte.cstr m fmt F" and S: "byte.cstr m buf S" and t: "date_ok t"
  shows "i \<le> length F \<Longrightarrow> j \<le> length S \<Longrightarrow> plain (drop i F) \<Longrightarrow> render m' t (drop i F) = Some (drop j S) \<Longrightarrow>
    strptime_loop m buf fmt i j t0 = Some (taken t (drop i F) t0, False, length S)"
proof (induction "length F - i" arbitrary: i j t0 rule: less_induct)
  case less
  note rd = byte.cstr_rd [OF F] and st = byte.cstr_step [OF F] and rS = byte.cstr_rd [OF S] and sS = byte.cstr_step [OF S]
  show ?case
  proof (cases "i = length F")
    case True
    then have "j = length S" using less.prems(2,4) by simp
    then show ?thesis using True rd(2) by (subst strptime_loop.simps) (simp add: taken_def byte_null)
  next
    case False
    then have i: "i < length F" using less.prems(1) by simp
    then have dr: "drop i F = F ! i # drop (Suc i) F" by (simp add: Cons_nth_drop_Suc)
    have c: "F ! i \<noteq> 0" using byte.cstr_nonnull [OF F i] by (simp add: byte_null)
    show ?thesis
    proof (cases "F ! i = 37")
      case False
      then obtain out1 where o: "render m' t (drop (Suc i) F) = Some out1" "drop j S = F ! i # out1"
        using less.prems(4) dr by auto
      have j: "j < length S" using o(2) by (cases "j < length S") simp_all
      have sj: "S ! j = F ! i" "drop (Suc j) S = out1" using o(2) j by (simp_all add: Cons_nth_drop_Suc [symmetric])
      have p: "\<not> isspace_inner (F ! i)" "plain (drop (Suc i) F)" "\<And>x. mentions x (drop i F) = mentions x (drop (Suc i) F)"
        using less.prems(3) False unfolding dr by (cases "drop (Suc i) F"; simp)+
      have "strptime_loop m buf fmt (Suc i) (Suc j) t0 = Some (taken t (drop (Suc i) F) t0, False, length S)"
        using i j p(2) o(1) sj(2) by (intro less.hyps) simp_all
      moreover have "taken t (drop (Suc i) F) t0 = taken t (drop i F) t0" using p(3) by (simp add: taken_def)
      ultimately show ?thesis using rd(1) [OF i] rS(1) [OF j] c False sj(1) p(1) st [OF i] sS [OF j]
        by (subst strptime_loop.simps) simp
    next
      case True
      obtain d G where d: "drop (Suc i) F = d # G" "d = 72 \<or> d = 77 \<or> d = 83" "plain G"
        using plain_cases [of "F ! i" "drop (Suc i) F"] less.prems(3) True unfolding dr by blast
      have i1: "Suc i < length F" using d(1) by (cases "Suc i < length F") simp_all
      then have dG: "F ! Suc i = d" "drop (Suc (Suc i)) F = G" using d(1) by (simp_all add: Cons_nth_drop_Suc [symmetric])
      obtain rest where r: "render m' t G = Some rest" "drop j S = fmt_zero 2 (conversion_field d t) @ rest"
        using less.prems(4) dr d(1) True conversion_range(4) [OF t d(2), of m'] by auto
      note pc = parse_conversion [OF S t d(2) r(2)]
      define u where "u = (if d = 72 then t0\<lparr> tm_hour := tm_hour t \<rparr> else if d = 77 then t0\<lparr> tm_min := tm_min t \<rparr> else t0\<lparr> tm_sec := tm_sec t \<rparr>)"
      have rest: "strptime_loop m buf fmt (Suc (Suc i)) (Suc (Suc j)) u = Some (taken t G u, False, length S)"
        using i1 pc(2,3) d(3) r(1) dG(2) less.hyps [of "Suc (Suc i)" "Suc (Suc j)" u] by simp
      have fin: "taken t G u = taken t (drop i F) t0"
        using True d(2) unfolding dr d(1) u_def taken_def by (cases t0) auto
      have "strptime_loop m buf fmt i j t0 = strptime_loop m buf fmt (Suc (Suc i)) (Suc (Suc j)) u"
        using rd(1) [OF i] rd(1) [OF i1] c True dG(1) st [OF i] st [OF i1] pc(1) d(2)
        by (subst strptime_loop.simps) (auto simp: u_def conversion_field_def conversion_bound_def)
      then show ?thesis using rest fin by simp
    qed
  qed
qed

lemma render_plain:
  assumes "date_ok t"
  shows "plain F \<Longrightarrow> 0 \<notin> set F \<Longrightarrow> \<exists>out. render m t F = Some out \<and> 0 \<notin> set out"
proof (induction F rule: plain.induct)
  case (3 c d F)
  show ?case
  proof (cases "c = 37")
    case True
    then have d: "d = 72 \<or> d = 77 \<or> d = 83" using 3(3) by simp
    obtain out where out: "render m t F = Some out" "0 \<notin> set out" using 3 True by auto
    note r = conversion_range [OF assms d]
    have "0 \<notin> set (fmt_zero 2 (conversion_field d t))"
    proof -
      have "nat (conversion_field d t) div 10 < 10" "nat (conversion_field d t) mod 10 < 10" using r(1,3) by simp_all
      then show ?thesis unfolding fmt_two [OF r(1,3)] using digit_byte(3) [symmetric] by (simp del: of_nat_add)
    qed
    then show ?thesis using True out r(4) by simp
  next
    case False
    then show ?thesis using 3 by auto
  qed
qed auto

text \<open>C12: let the locale of \<open>LC_CTYPE\<close> be set.  For a format of \<open>%H\<close>, \<open>%M\<close>, \<open>%S\<close> and literal characters
  that are no blanks, a valid time formatted with \<open>strftime\<close> into a buffer of ordinary memory that holds it, apart from the format and the result, is read
  back by \<open>strptime\<close> with the same format: it answers the end of the string and sets exactly the fields the format
  mentions, leaving the other fields as they were.\<close>

theorem strptime_reads_strftime:
  assumes "ls 2 = Some l" "ordinary m l 1" "byte.cstr m fmt F" "plain F" "read_tm m tp = Some t" "date_ok t"
    "ordinary m s n" "length (the (render m t F)) < n"
    "ordinary m tp2 44" "read_tm m tp2 = Some t0" "tm_fits t0"
    "ranges_apart fmt (length F + 1) s n" "ranges_apart tp2 44 s n"
  shows "\<exists>k m1 m2 t1. strftime s n fmt tp (ls, m) = Some (k, ls, m1) \<and> strptime s fmt tp2 m1 = Some (s + k, m2)
    \<and> read_tm m2 tp2 = Some t1
    \<and> t1 = t0\<lparr> tm_sec := (if mentions 83 F then tm_sec t else tm_sec t0),
         tm_min := (if mentions 77 F then tm_min t else tm_min t0),
         tm_hour := (if mentions 72 F then tm_hour t else tm_hour t0) \<rparr>"
proof -
  have "0 \<notin> set F" using assms(3) by (simp add: byte.cstr_def byte_null)
  from render_plain [OF assms(6,4) this] obtain out where out: "render m t F = Some out" "0 \<notin> set out" by blast
  have n: "length out < n" using assms(8) out(1) by simp
  have top: "s + n \<le> 4294967296" using assms(7) by (simp add: ordinary_def)
  have small: "length out < 4294967296" using n top by linarith
  let ?bs = "out @ [0 :: u8]" let ?m1 = "m\<lparr> mbytes := put_bytes s (out @ [0]) (mbytes m) \<rparr>"
  from strftime_run [of ls l m fmt F tp t out s n] assms(1-3,5,7) out(1) small n
  have run: "strftime s n fmt tp (ls, m) = Some (length out, ls, ?m1)" by simp
  have blen: "length ?bs \<le> n" using n by simp
  have oF: "ordinary m fmt (length F + 1)" using assms(3) by (simp add: byte.cstr_def byte.cells_ok_def byte_size)
  have other: "mbytes ?m1 q = mbytes m q" if "q < s \<or> s + n \<le> q" for q
    using that blen by (auto simp: put_bytes_def)
  have F1: "byte.cstr ?m1 fmt F"
  proof (rule byte_cstrI)
    show "ordinary ?m1 fmt (length F + 1)" using oF by simp
    show "0 \<notin> set F" by fact
    have "mbytes ?m1 (fmt + i) = mbytes m (fmt + i)" if "i < length F + 1" for i
      using other that assms(12) by (auto simp: ranges_apart_def)
    then show "\<forall>i < length F. mbytes ?m1 (fmt + i) = F ! i" "mbytes ?m1 (fmt + length F) = 0"
      using assms(3) by (simp_all add: byte.cstr_def byte_cell byte_size byte_null)
  qed
  have S1: "byte.cstr ?m1 s out"
  proof (rule byte_cstrI)
    show "ordinary ?m1 s (length out + 1)" using assms(7) n by (simp add: ordinary_def)
  qed (use out(2) in \<open>simp_all add: put_bytes_def nth_append\<close>)
  have loop: "strptime_loop ?m1 s fmt 0 0 t0 = Some (taken t F t0, False, length out)"
    using strptime_loop_reads [OF F1 S1 assms(6), of 0 0 m t0] assms(4) out(1) by simp
  have o2: "ordinary ?m1 tp2 44" using assms(9) by simp
  have "mem_read 44 ?m1 tp2 = mem_read 44 m tp2"
    using assms(9,13) blen by (intro read_apart) (auto simp: ranges_apart_def)
  then have rt0: "read_tm ?m1 tp2 = Some t0" using assms(10) by (simp add: read_tm_def)
  have fits: "tm_fits (taken t F t0)" using assms(6,11) by (simp add: tm_fits_def taken_def date_ok_def i32_def)
  note w = write_tm_ok [OF o2 fits]
  have add: "ptr_add 1 s (length out) = Some (s + length out)" using small n top by (simp add: ptr_add_def wadd32_exact)
  have "strptime s fmt tp2 ?m1 = Some (s + length out, ?m1\<lparr> mbytes := put_bytes tp2 (tm_bytes (taken t F t0)) (mbytes ?m1) \<rparr>)"
    unfolding strptime_def rt0 using loop w(1) add by simp
  then show ?thesis using run w(2) unfolding taken_def by blast
qed

section \<open>Concrete calls\<close>

lemma time_sample_read:
  assumes "8192 \<le> p" "p - 8192 + n \<le> length bs" "length bs < 65536"
  shows "mem_read n (sample bs) p = Some (take n (drop (p - 8192) bs))"
proof -
  have "ordinary (sample bs) p n" using assms sample_facts(1) [of bs] by (simp add: ordinary_def)
  then have "mem_read n (sample bs) p = Some (map (\<lambda>i. mbytes (sample bs) (p + i)) [0..<n])"
    using assms by (intro read_ordinary) simp_all
  moreover have "map (\<lambda>i. mbytes (sample bs) (p + i)) [0..<n] = take n (drop (p - 8192) bs)"
    by (rule nth_equalityI) (use assms in \<open>auto simp: sample_facts(2) put_bytes_def add.commute\<close>)
  ultimately show ?thesis by simp
qed

lemma time_sample_cstr:
  assumes "0 \<notin> set str" "length (pre @ str @ [0] @ post) < 65536"
  shows "byte.cstr (sample (pre @ str @ [0] @ post)) (8192 + length pre) str"
proof (rule byte_cstrI)
  let ?bs = "pre @ str @ [0] @ post"
  show "ordinary (sample ?bs) (8192 + length pre) (length str + 1)"
    using assms(2) by (simp add: ordinary_def sample_facts(1))
  have b: "mbytes (sample ?bs) (8192 + length pre + i) = ?bs ! (length pre + i)" if "i \<le> length str" for i
    using that unfolding sample_facts(2) put_bytes_def by (simp add: add.assoc)
  show "\<forall>i < length str. mbytes (sample ?bs) (8192 + length pre + i) = str ! i"
    "mbytes (sample ?bs) (8192 + length pre + length str) = 0"
    using b by (simp_all add: nth_append)
qed (fact assms(1))

text \<open>The name of the locale, a format, half past eleven on a day in 2009, and a struct of zeros.\<close>

definition sample_date :: tm where
  "sample_date = \<lparr> tm_sec = 30, tm_min = 31, tm_hour = 23, tm_mday = 13, tm_mon = 1, tm_year = 109,
     tm_wday = 5, tm_yday = 43, tm_isdst = 0, tm_gmtoff = 0, tm_zone = 0 \<rparr>"

definition zero_date :: tm where
  "zero_date = \<lparr> tm_sec = 0, tm_min = 0, tm_hour = 0, tm_mday = 0, tm_mon = 0, tm_year = 0,
     tm_wday = 0, tm_yday = 0, tm_isdst = 0, tm_gmtoff = 0, tm_zone = 0 \<rparr>"

definition sample_format :: "u8 list" where
  "sample_format = [37, 72, 58, 37, 77]"

definition time_sample :: mem where
  "time_sample = sample ([67, 0] @ sample_format @ [0] @ tm_bytes sample_date @ tm_bytes zero_date)"

lemma time_sample_facts:
  "null_segment_size time_sample = 4096" "ordinary time_sample 8192 1" "byte.cstr time_sample 8194 sample_format"
  "read_tm time_sample 8200 = Some sample_date" "read_tm time_sample 8244 = Some zero_date"
  "date_ok sample_date" "plain sample_format" "complete sample_format" "ordinary time_sample 12288 16" "ordinary time_sample 8244 44"
  "tm_fits zero_date" "tm_fits sample_date"
proof -
  show n: "null_segment_size time_sample = 4096" by (simp add: time_sample_def sample_facts)
  show o: "ordinary time_sample 8192 1" "ordinary time_sample 12288 16" "ordinary time_sample 8244 44"
    using n by (simp_all add: ordinary_def)
  have "0 \<notin> set sample_format" by (simp add: sample_format_def)
  moreover have "length ([67, 0] @ sample_format @ [0] @ tm_bytes sample_date @ tm_bytes zero_date) < 65536"
    by (simp add: sample_format_def)
  ultimately have "byte.cstr time_sample (8192 + length [67, 0 :: u8]) sample_format"
    unfolding time_sample_def by (rule time_sample_cstr)
  then show "byte.cstr time_sample 8194 sample_format" by simp
  show f: "tm_fits zero_date" "tm_fits sample_date" by (simp_all add: tm_fits_def zero_date_def sample_date_def i32_def)
  have len: "length sample_format = 5" by (simp add: sample_format_def)
  show "read_tm time_sample 8200 = Some sample_date" "read_tm time_sample 8244 = Some zero_date"
    using tm_roundtrip [OF f(1)] tm_roundtrip [OF f(2)] len
    by (simp_all add: read_tm_def time_sample_def time_sample_read)
  show "date_ok sample_date"
    by (simp add: date_ok_def sample_date_def month_days_def DAYS_IN_MONTH_def)
  show "plain sample_format" "complete sample_format" by (simp_all add: sample_format_def isspace_inner_def)
qed

lemma sample_rendered: "render time_sample sample_date sample_format = Some [50, 51, 58, 51, 49]"
proof -
  have f: "strftime_item time_sample sample_date 72 = Some (fmt_zero 2 23)" "strftime_item time_sample sample_date 77 = Some (fmt_zero 2 31)"
    using item_fields [OF time_sample_facts(6), of time_sample] by (simp_all add: sample_date_def)
  show ?thesis by (simp add: sample_format_def f fmt_two)
qed

lemma strptime_reads_strftime_witness:
  "\<exists>k m1 m2. strftime 12288 16 8194 8200 ([2 \<mapsto> 8192], time_sample) = Some (k, [2 \<mapsto> 8192], m1)
    \<and> strptime 12288 8194 8244 m1 = Some (12288 + k, m2)
    \<and> read_tm m2 8244 = Some (zero_date\<lparr> tm_hour := 23, tm_min := 31 \<rparr>)"
proof -
  note f = time_sample_facts
  have ls: "[2 \<mapsto> 8192] 2 = Some (8192 :: nat)" by simp
  have n: "length (the (render time_sample sample_date sample_format)) < 16" by (simp add: sample_rendered)
  have ap: "ranges_apart 8194 (length sample_format + 1) 12288 16" "ranges_apart 8244 44 12288 16"
    by (simp_all add: ranges_apart_def sample_format_def)
  from strptime_reads_strftime [of "[2 \<mapsto> 8192]" 8192 time_sample 8194 sample_format 8200 sample_date 12288 16 8244 zero_date]
    ls f(2,3,7,4,6,9) n f(10,5,11) ap
  obtain k m1 m2 t1 where r: "strftime 12288 16 8194 8200 ([2 \<mapsto> 8192], time_sample) = Some (k, [2 \<mapsto> 8192], m1)"
    "strptime 12288 8194 8244 m1 = Some (12288 + k, m2)" "read_tm m2 8244 = Some t1"
    "t1 = zero_date\<lparr> tm_sec := (if mentions 83 sample_format then tm_sec sample_date else tm_sec zero_date),
         tm_min := (if mentions 77 sample_format then tm_min sample_date else tm_min zero_date),
         tm_hour := (if mentions 72 sample_format then tm_hour sample_date else tm_hour zero_date) \<rparr>" by blast
  have "t1 = zero_date\<lparr> tm_hour := 23, tm_min := 31 \<rparr>"
    unfolding r(4) by (simp add: sample_format_def sample_date_def zero_date_def)
  then show ?thesis using r(1-3) by blast
qed

lemma strftime_bounded_witness:
  "\<exists>m1. strftime 12288 4 8194 8200 ([2 \<mapsto> 8192], time_sample) = Some (5, [2 \<mapsto> 8192], m1) \<and> mbytes m1 12291 = 0"
proof -
  note f = time_sample_facts
  have n: "length (the (render time_sample sample_date sample_format)) < 4294967296" by (simp add: sample_rendered)
  have o: "ordinary time_sample 12288 4" using f(1) by (simp add: ordinary_def)
  have z: "tm_zone sample_date = 0 \<or> cstr_at_utf8 time_sample (tm_zone sample_date) \<noteq> None" by (simp add: sample_date_def)
  obtain ls :: locale_state where ls: "ls = [2 \<mapsto> 8192]" "ls 2 = Some 8192" by simp
  from strftime_bounded [of ls, OF ls(2) f(2,3,8,4) z o n] obtain out m1 where
    r: "render time_sample sample_date sample_format = Some out"
    "strftime 12288 4 8194 8200 (ls, time_sample) = Some (if (4 :: nat) = 0 then 0 else length out, ls, m1)"
    "0 < (4 :: nat) \<longrightarrow> (\<forall>i < min (4 - 1) (length out). mbytes m1 (12288 + i) = out ! i) \<and> mbytes m1 (12288 + min (4 - 1) (length out)) = 0"
    by (elim exE conjE) (rule that)
  have "length out = 5" using r(1) by (auto simp: sample_rendered)
  then have "strftime 12288 4 8194 8200 (ls, time_sample) = Some (5, ls, m1)" "mbytes m1 12291 = 0"
    using r(2,3) by simp_all
  then show ?thesis unfolding ls(1) by blast
qed

definition sample_times :: time_state where
  "sample_times = \<lparr> gmtime_tmp = None, asctime_tmp = None, timezone_offset_seconds = -3600, daylight_flag = 0, tzname_std_ptr = None,
     tzname_dst_ptr = None, tzname_array_ptr = None, timezone_global_ptr = None, daylight_global_ptr = None \<rparr>"

lemma localtime_mktime_roundtrip_witness:
  "\<exists>m m1 t. localtime_r None 8192 8200 (sample_times, m) = Some (8200, sample_times, m1) \<and> read_tm m1 8200 = Some t
     \<and> mktime None 8200 (sample_times, m1) = Some (1234567890, sample_times, m1)"
proof -
  obtain m where m: "m = sample (i32_bytes 1234567890)" by blast
  have o: "ordinary m 8192 4" "ordinary m 8200 44" unfolding m by (simp_all add: ordinary_def sample_facts(1))
  have "i32 1234567890" by (simp add: i32_def)
  then have r: "read_i32 m 8192 = Some 1234567890"
    using time_sample_read [of 8192 4 "i32_bytes 1234567890"] unfolding m by (simp add: read_i32_def i32_roundtrip)
  have z: "zones_ok sample_times" "i32 1234567890" "i32 (1234567890 - timezone_offset_seconds sample_times)"
    by (simp_all add: zones_ok_def i32_def sample_times_def)
  from localtime_mktime_roundtrip [OF o(1) r o(2) z] show ?thesis
    by (elim exE conjE) (intro exI conjI; assumption)
qed

end
