(* ===== verification/NS_Dictionary.thy ===== *)
theory NS_Dictionary
  imports Guest_Values
begin

text \<open>
  Dictionaries (\<open>src/frameworks/foundation/ns_dictionary.rs\<close>): the hash table that holds the entries of an
  \<open>NSDictionary\<close>, its operations, and the methods of the immutable and the mutable class on them.
  The hash, equality and copy of a key are methods of guest objects, so they are parameters; the references the
  table takes and gives up are counted in a ledger.  The iteration order of a Rust \<open>HashMap\<close> is a parameter too:
  a list of the hashes in the table.
\<close>

section \<open>Messages to the keys\<close>

record key_ops =
  guest_hash :: "nat \<Rightarrow> nat"
  guest_is_equal :: "nat \<Rightarrow> nat \<Rightarrow> bool"
  guest_copy :: "nat \<Rightarrow> nat"

text \<open>A message to nil answers 0.\<close>

definition msg_hash :: "key_ops \<Rightarrow> nat \<Rightarrow> nat" where
  "msg_hash ops k = (if k = 0 then 0 else guest_hash ops k)"

definition msg_is_equal :: "key_ops \<Rightarrow> nat \<Rightarrow> nat \<Rightarrow> bool" where
  "msg_is_equal ops a b = (a \<noteq> 0 \<and> guest_is_equal ops a b)"

definition msg_copy :: "key_ops \<Rightarrow> nat \<Rightarrow> nat" where
  "msg_copy ops k = (if k = 0 then 0 else guest_copy ops k)"

text \<open>What \<open>NSObject\<close> does, for a class that overrides none of the three but can be copied.\<close>

definition nsobject_ops :: key_ops where
  "nsobject_ops = \<lparr> guest_hash = (\<lambda>this. this), guest_is_equal = (\<lambda>this other. this = other),
     guest_copy = (\<lambda>this. this) \<rparr>"

text \<open>The ledger: how many references to each object the modelled code holds.\<close>

type_synonym ledger = "nat \<Rightarrow> int"

definition retain_id :: "nat \<Rightarrow> ledger \<Rightarrow> ledger" where
  "retain_id x r = (if x = 0 then r else r(x := r x + 1))"

definition release_id :: "nat \<Rightarrow> ledger \<Rightarrow> ledger" where
  "release_id x r = (if x = 0 then r else r(x := r x - 1))"

section \<open>DictionaryHostObject\<close>

record dict =
  dict_map :: "nat \<Rightarrow> (nat \<times> nat) list option"
  dict_count :: nat

definition empty_dict :: dict where
  "empty_dict = \<lparr> dict_map = (\<lambda>_. None), dict_count = 0 \<rparr>"

fun collision_value :: "(nat \<Rightarrow> bool) \<Rightarrow> (nat \<times> nat) list \<Rightarrow> nat" where
  "collision_value matches [] = 0"
| "collision_value matches ((candidate_key, value) # rest) =
     (if matches candidate_key then value else collision_value matches rest)"

definition same_key :: "key_ops \<Rightarrow> nat \<Rightarrow> nat \<Rightarrow> bool" where
  "same_key ops candidate_key key = (candidate_key = key \<or> msg_is_equal ops candidate_key key)"

definition dict_lookup :: "key_ops \<Rightarrow> dict \<Rightarrow> nat \<Rightarrow> nat" where
  "dict_lookup ops d key =
     (case dict_map d (msg_hash ops key) of
        None \<Rightarrow> 0
      | Some collisions \<Rightarrow> collision_value (\<lambda>c. same_key ops c key) collisions)"

text \<open>The first matching entry gets the new value; the result has the value it replaces.\<close>

fun replace_value :: "(nat \<Rightarrow> bool) \<Rightarrow> nat \<Rightarrow> (nat \<times> nat) list \<Rightarrow> (nat \<times> (nat \<times> nat) list) option" where
  "replace_value matches value [] = None"
| "replace_value matches value ((candidate_key, existing_value) # rest) =
     (if matches candidate_key then Some (existing_value, (candidate_key, value) # rest)
      else (case replace_value matches value rest of
              None \<Rightarrow> None
            | Some (old, rest') \<Rightarrow> Some (old, (candidate_key, existing_value) # rest')))"

definition dict_insert :: "key_ops \<Rightarrow> bool \<Rightarrow> nat \<Rightarrow> nat \<Rightarrow> dict \<times> ledger \<Rightarrow> dict \<times> ledger" where
  "dict_insert ops copy_key key0 value s =
     (let d = fst s;
          key = (if copy_key then msg_copy ops key0 else key0);
          r1 = retain_id key (snd s);
          h = msg_hash ops key;
          r2 = retain_id value r1
      in case dict_map d h of
           None \<Rightarrow> (d\<lparr>dict_map := (dict_map d)(h \<mapsto> [(key, value)]), dict_count := wadd32 (dict_count d) 1\<rparr>, r2)
         | Some collisions \<Rightarrow>
             (case replace_value (\<lambda>c. same_key ops c key) value collisions of
                Some (existing_value, collisions') \<Rightarrow>
                  (d\<lparr>dict_map := (dict_map d)(h \<mapsto> collisions')\<rparr>, release_id existing_value r2)
              | None \<Rightarrow> (d\<lparr>dict_map := (dict_map d)(h \<mapsto> collisions @ [(key, value)]),
                           dict_count := wadd32 (dict_count d) 1\<rparr>, r2)))"

text \<open>\<open>iter().position\<close> followed by \<open>Vec::remove\<close>: the first matching entry and the others.\<close>

fun take_first :: "(nat \<Rightarrow> bool) \<Rightarrow> (nat \<times> nat) list \<Rightarrow> ((nat \<times> nat) \<times> (nat \<times> nat) list) option" where
  "take_first matches [] = None"
| "take_first matches (e # rest) =
     (if matches (fst e) then Some (e, rest)
      else (case take_first matches rest of None \<Rightarrow> None | Some (x, rest') \<Rightarrow> Some (x, e # rest')))"

definition dict_remove :: "key_ops \<Rightarrow> nat \<Rightarrow> dict \<times> ledger \<Rightarrow> dict \<times> ledger" where
  "dict_remove ops key s =
     (let d = fst s; h = msg_hash ops key
      in case dict_map d h of
           None \<Rightarrow> s
         | Some collisions \<Rightarrow>
             (case take_first (\<lambda>c. same_key ops c key) collisions of
                None \<Rightarrow> s
              | Some ((existing_key, value), collisions') \<Rightarrow>
                  (d\<lparr>dict_map := (dict_map d)(h \<mapsto> collisions'), dict_count := wsub32 (dict_count d) 1\<rparr>,
                   release_id value (release_id existing_key (snd s)))))"

text \<open>\<open>map.values().flatten()\<close>, the hashes in the order the table yields them.\<close>

definition entries :: "nat list \<Rightarrow> dict \<Rightarrow> (nat \<times> nat) list" where
  "entries order d = concat (map (\<lambda>h. case dict_map d h of None \<Rightarrow> [] | Some cs \<Rightarrow> cs) order)"

definition dict_release :: "nat list \<Rightarrow> dict \<Rightarrow> ledger \<Rightarrow> ledger" where
  "dict_release order d r = fold (\<lambda>(key, value) r. release_id value (release_id key r)) (entries order d) r"

definition iter_keys :: "nat list \<Rightarrow> dict \<Rightarrow> nat list" where
  "iter_keys order d = map fst (entries order d)"

section \<open>Objects\<close>

text \<open>
  The callbacks of a \<open>CFDictionary\<close>: guest functions on the keys and values, \<open>None\<close> for the null pointer.
  The retain callback answers the pointer to store.
\<close>

record cf_key_callbacks =
  key_retain :: "(nat \<Rightarrow> ledger \<Rightarrow> nat \<times> ledger) option"
  key_release :: "(nat \<Rightarrow> ledger \<Rightarrow> ledger) option"
  key_equal :: "(nat \<Rightarrow> nat \<Rightarrow> bool) option"
  key_hash :: "(nat \<Rightarrow> nat) option"

record cf_value_callbacks =
  value_retain :: "(nat \<Rightarrow> ledger \<Rightarrow> nat \<times> ledger) option"
  value_release :: "(nat \<Rightarrow> ledger \<Rightarrow> ledger) option"

text \<open>The host object of a dictionary: the table of an \<open>NSDictionary\<close>, or one with callbacks beside it.\<close>

datatype dict_object =
    NSDict dict
  | CFDict dict cf_key_callbacks cf_value_callbacks

fun table_of :: "dict_object \<Rightarrow> dict" where
  "table_of (NSDict d) = d"
| "table_of (CFDict d _ _) = d"

fun put_table :: "dict \<Rightarrow> dict_object \<Rightarrow> dict_object" where
  "put_table d (NSDict _) = NSDict d"
| "put_table d (CFDict _ kc vc) = CFDict d kc vc"

text \<open>\<open>pool\<close> lists the references that the arrays answered by the accessors hold until the autorelease pool drains.\<close>

record dict_env =
  dicts :: "nat \<Rightarrow> dict_object"
  refs :: ledger
  pool :: "nat list"

text \<open>\<open>mem::take\<close> of the table, an operation on it, and putting it back.\<close>

definition on_table :: "nat \<Rightarrow> (dict \<times> ledger \<Rightarrow> dict \<times> ledger) \<Rightarrow> dict_env \<Rightarrow> dict_env" where
  "on_table this f env =
     (let s = f (table_of (dicts env this), refs env)
      in env\<lparr>dicts := (dicts env)(this := put_table (fst s) (dicts env this)), refs := snd s\<rparr>)"

definition set_table :: "nat \<Rightarrow> dict \<Rightarrow> dict_env \<Rightarrow> dict_env" where
  "set_table this d env = env\<lparr>dicts := (dicts env)(this := put_table d (dicts env this))\<rparr>"

section \<open>Initialisers\<close>

definition insert_all :: "key_ops \<Rightarrow> (nat \<times> nat) list \<Rightarrow> dict \<times> ledger \<Rightarrow> dict \<times> ledger" where
  "insert_all ops kvs s = fold (\<lambda>(key, value). dict_insert ops True key value) kvs s"

text \<open>
  The object--key arguments after the first object; \<open>args\<close> are the remaining variadic words, and reading past
  them is \<open>None\<close>.
\<close>

fun read_pairs :: "key_ops \<Rightarrow> nat list \<Rightarrow> dict \<times> ledger \<Rightarrow> (dict \<times> ledger) option" where
  "read_pairs ops [] s = None"
| "read_pairs ops (obj # args) s =
     (if obj = 0 then Some s
      else (case args of
              [] \<Rightarrow> None
            | key # args' \<Rightarrow>
                (if key = 0 then Some s
                 else read_pairs ops args' (dict_insert ops True key obj s))))"

definition init_with_objects_and_keys :: "key_ops \<Rightarrow> nat \<Rightarrow> nat \<Rightarrow> nat list \<Rightarrow> dict_env \<Rightarrow> dict_env option" where
  "init_with_objects_and_keys ops this first_object args env =
     (if first_object = 0 then Some (set_table this empty_dict env)
      else (case args of
              [] \<Rightarrow> None
            | first_key # rest \<Rightarrow>
                (let s = (empty_dict, refs env);
                     s' = (if first_key = 0 then s else dict_insert ops True first_key first_object s)
                 in case read_pairs ops rest s' of
                      None \<Rightarrow> None
                    | Some (d, r) \<Rightarrow> Some ((set_table this d env)\<lparr>refs := r\<rparr>))))"

definition init_with_dictionary_common :: "key_ops \<Rightarrow> nat list \<Rightarrow> nat \<Rightarrow> nat \<Rightarrow> dict_env \<Rightarrow> dict_env" where
  "init_with_dictionary_common ops order this other env =
     (if other = 0 then set_table this empty_dict env
      else let other_table = table_of (dicts env other);
               s = insert_all ops (map (\<lambda>k. (k, dict_lookup ops other_table k)) (iter_keys order other_table))
                     (empty_dict, refs env)
           in set_table other other_table ((set_table this (fst s) env)\<lparr>refs := snd s\<rparr>))"

text \<open>\<open>next_key\<close> and \<open>next_object\<close> come from the enumerators of two arrays, which end with nil.\<close>

fun zip_until_nil :: "nat list \<Rightarrow> nat list \<Rightarrow> (nat \<times> nat) list" where
  "zip_until_nil (k # ks) (v # vs) = (if k = 0 \<or> v = 0 then [] else (k, v) # zip_until_nil ks vs)"
| "zip_until_nil _ _ = []"

definition init_with_objects_for_keys_common :: "key_ops \<Rightarrow> nat \<Rightarrow> nat list \<Rightarrow> nat list \<Rightarrow> dict_env \<Rightarrow> dict_env" where
  "init_with_objects_for_keys_common ops this objects ks env =
     (let s = insert_all ops (zip_until_nil ks objects) (empty_dict, refs env)
      in (set_table this (fst s) env)\<lparr>refs := snd s\<rparr>)"

text \<open>The two C arrays, already read from guest memory; a nil key skips its pair.\<close>

definition init_with_objects_for_keys_count_common :: "key_ops \<Rightarrow> nat \<Rightarrow> (nat \<times> nat) list \<Rightarrow> dict_env \<Rightarrow> dict_env" where
  "init_with_objects_for_keys_count_common ops this pairs env =
     (let s = insert_all ops (filter (\<lambda>(key, _). key \<noteq> 0) pairs) (empty_dict, refs env)
      in (set_table this (fst s) env)\<lparr>refs := snd s\<rparr>)"

text \<open>\<open>this\<close> is the object that \<open>alloc\<close> answers, with an empty table.\<close>

definition dict_from_keys_and_objects :: "key_ops \<Rightarrow> nat \<Rightarrow> (nat \<times> nat) list \<Rightarrow> dict_env \<Rightarrow> dict_env" where
  "dict_from_keys_and_objects ops this kvs env =
     (let s = insert_all ops kvs (empty_dict, refs env)
      in env\<lparr>dicts := (dicts env)(this := NSDict (fst s)), refs := snd s\<rparr>)"

section \<open>Accessors\<close>

text \<open>\<open>from_vec\<close> takes over the references; the array is autoreleased.\<close>

definition autoreleased :: "nat list \<Rightarrow> dict_env \<Rightarrow> dict_env" where
  "autoreleased xs env = env\<lparr>refs := fold retain_id xs (refs env), pool := pool env @ xs\<rparr>"

definition ns_count :: "nat \<Rightarrow> dict_env \<Rightarrow> nat" where
  "ns_count this env = dict_count (table_of (dicts env this))"

definition ns_object_for_key :: "key_ops \<Rightarrow> nat \<Rightarrow> nat \<Rightarrow> dict_env \<Rightarrow> nat" where
  "ns_object_for_key ops this key env = dict_lookup ops (table_of (dicts env this)) key"

definition all_keys_common :: "nat list \<Rightarrow> nat \<Rightarrow> dict_env \<Rightarrow> nat list \<times> dict_env" where
  "all_keys_common order this env =
     (let ks = iter_keys order (table_of (dicts env this)) in (ks, autoreleased ks env))"

definition ns_all_values :: "nat list \<Rightarrow> nat \<Rightarrow> dict_env \<Rightarrow> nat list \<times> dict_env" where
  "ns_all_values order this env =
     (let vs = map snd (entries order (table_of (dicts env this))) in (vs, autoreleased vs env))"

text \<open>
  \<open>allKeysForObject:\<close> of the two classes: only the immutable one also accepts the object itself.  The values'
  \<open>isEqual:\<close> is asked of the object.
\<close>

definition ns_all_keys_for_object :: "(nat \<Rightarrow> nat \<Rightarrow> bool) \<Rightarrow> nat list \<Rightarrow> nat \<Rightarrow> nat \<Rightarrow> dict_env \<Rightarrow> nat list \<times> dict_env" where
  "ns_all_keys_for_object equal order this obj env =
     (let ks = map fst (filter (\<lambda>(_, value). value = obj \<or> (obj \<noteq> 0 \<and> equal obj value))
                 (entries order (table_of (dicts env this))))
      in (ks, autoreleased ks env))"

definition ns_mutable_all_keys_for_object :: "(nat \<Rightarrow> nat \<Rightarrow> bool) \<Rightarrow> nat list \<Rightarrow> nat \<Rightarrow> nat \<Rightarrow> dict_env \<Rightarrow> nat list \<times> dict_env" where
  "ns_mutable_all_keys_for_object equal order this obj env =
     (let ks = map fst (filter (\<lambda>(_, value). obj \<noteq> 0 \<and> equal obj value)
                 (entries order (table_of (dicts env this))))
      in (ks, autoreleased ks env))"

definition objects_for_keys :: "(nat \<Rightarrow> nat) \<Rightarrow> nat list \<Rightarrow> nat \<Rightarrow> nat list" where
  "objects_for_keys object_for_key ks marker =
     map (\<lambda>key. let obj = (if key = 0 then 0 else object_for_key key)
                in if obj = 0 then marker else obj) ks"

text \<open>\<open>isEqual:\<close> of the values is a parameter like the methods of the keys.\<close>

definition is_equal_to_dictionary ::
    "key_ops \<Rightarrow> (nat \<Rightarrow> nat \<Rightarrow> bool) \<Rightarrow> nat list \<Rightarrow> nat \<Rightarrow> nat \<Rightarrow> dict_env \<Rightarrow> bool \<times> dict_env" where
  "is_equal_to_dictionary ops equal order this other env =
     (if other = 0 then (False, env)
      else if ns_count this env \<noteq> ns_count other env then (False, env)
      else let (keys_arr, env') = all_keys_common order this env
           in (list_all (\<lambda>key. let value = ns_object_for_key ops this key env';
                                  other_value = ns_object_for_key ops other key env'
                              in value \<noteq> 0 \<and> equal value other_value) keys_arr, env'))"

section \<open>Mutation\<close>

definition ns_set_object :: "key_ops \<Rightarrow> nat \<Rightarrow> nat \<Rightarrow> nat \<Rightarrow> dict_env \<Rightarrow> dict_env" where
  "ns_set_object ops this obj key env =
     (if obj = 0 then env
      else if key = 0 then env
      else on_table this (dict_insert ops True key obj) env)"

definition ns_remove_object_for_key :: "key_ops \<Rightarrow> nat \<Rightarrow> nat \<Rightarrow> dict_env \<Rightarrow> dict_env" where
  "ns_remove_object_for_key ops this key env =
     (if key = 0 then env else on_table this (dict_remove ops key) env)"

definition remove_objects_for_keys :: "key_ops \<Rightarrow> nat \<Rightarrow> nat list \<Rightarrow> dict_env \<Rightarrow> dict_env" where
  "remove_objects_for_keys ops this key_array env = fold (ns_remove_object_for_key ops this) key_array env"

definition set_object_for_keyed_subscript :: "key_ops \<Rightarrow> nat \<Rightarrow> nat \<Rightarrow> nat \<Rightarrow> dict_env \<Rightarrow> dict_env" where
  "set_object_for_keyed_subscript ops this obj key env =
     (if obj = 0 then ns_remove_object_for_key ops this key env else ns_set_object ops this obj key env)"

text \<open>\<open>mem::take\<close> leaves an empty table behind.\<close>

definition remove_all_objects :: "nat list \<Rightarrow> nat \<Rightarrow> dict_env \<Rightarrow> dict_env" where
  "remove_all_objects order this env =
     on_table this (\<lambda>(d, r). (empty_dict, dict_release order d r)) env"

definition add_entries_from_dictionary :: "key_ops \<Rightarrow> nat list \<Rightarrow> nat \<Rightarrow> nat \<Rightarrow> dict_env \<Rightarrow> dict_env" where
  "add_entries_from_dictionary ops order this other env =
     (if other = 0 then env
      else let (keys_arr, env1) = all_keys_common order other env;
               ks = takeWhile (\<lambda>k. k \<noteq> 0) keys_arr;
               env2 = env1\<lparr>refs := fold retain_id ks (refs env1)\<rparr>
           in fold (\<lambda>key e.
                 let val = ns_object_for_key ops other key e;
                     e' = (if val \<noteq> 0 then ns_set_object ops this val key e else e)
                 in e'\<lparr>refs := release_id key (refs e')\<rparr>) ks env2)"

definition set_dictionary :: "key_ops \<Rightarrow> nat list \<Rightarrow> nat list \<Rightarrow> nat \<Rightarrow> nat \<Rightarrow> dict_env \<Rightarrow> dict_env" where
  "set_dictionary ops order other_order this other env =
     (if other = this then env
      else add_entries_from_dictionary ops other_order this other (remove_all_objects order this env))"

definition set_value :: "key_ops \<Rightarrow> nat \<Rightarrow> nat \<Rightarrow> nat \<Rightarrow> dict_env \<Rightarrow> dict_env" where
  "set_value ops this val key env =
     (if val = 0 then ns_remove_object_for_key ops this key env else ns_set_object ops this val key env)"

definition set_values_for_keys_with_dictionary :: "key_ops \<Rightarrow> nat \<Rightarrow> nat list \<Rightarrow> nat \<Rightarrow> nat \<Rightarrow> dict_env \<Rightarrow> dict_env" where
  "set_values_for_keys_with_dictionary ops ns_null order this other env =
     (if other = 0 then env
      else let (keys_arr, env1) = all_keys_common order other env;
               ks = takeWhile (\<lambda>k. k \<noteq> 0) keys_arr;
               env2 = env1\<lparr>refs := fold retain_id ks (refs env1)\<rparr>
           in fold (\<lambda>key e.
                 let val = ns_object_for_key ops other key e;
                     arg = (if val = ns_null then 0 else val);
                     e' = set_value ops this arg key e
                 in e'\<lparr>refs := release_id key (refs e')\<rparr>) ks env2)"

section \<open>Copies and deallocation\<close>

definition ns_copy_with_zone :: "nat \<Rightarrow> dict_env \<Rightarrow> nat \<times> dict_env" where
  "ns_copy_with_zone this env = (this, env\<lparr>refs := retain_id this (refs env)\<rparr>)"

definition mutable_dictionary_copy :: "key_ops \<Rightarrow> nat list \<Rightarrow> nat \<Rightarrow> nat \<Rightarrow> dict_env \<Rightarrow> nat \<times> dict_env" where
  "mutable_dictionary_copy ops order new this env =
     (new, dict_from_keys_and_objects ops new (entries order (table_of (dicts env this))) env)"

definition mutable_copy_with_zone :: "key_ops \<Rightarrow> nat list \<Rightarrow> nat \<Rightarrow> nat \<Rightarrow> dict_env \<Rightarrow> nat \<times> dict_env" where
  "mutable_copy_with_zone ops order new this env =
     (let env1 = env\<lparr>dicts := (dicts env)(new := NSDict empty_dict)\<rparr>
      in (new, fold (\<lambda>(k, v). ns_set_object ops new v k) (entries order (table_of (dicts env this))) env1))"

definition ns_dealloc :: "nat list \<Rightarrow> nat \<Rightarrow> dict_env \<Rightarrow> dict_env" where
  "ns_dealloc order this env =
     on_table this (\<lambda>(d, r). (empty_dict, dict_release order d r)) env"

end
