(* ===== verification/NS_Dictionary_Laws.thy ===== *)
theory NS_Dictionary_Laws
  imports NS_Dictionary
begin

text \<open>
  What the dictionary operations guarantee.  A locale states what any dictionary promises about lookups; the
  table of \<open>NSDictionary\<close> satisfies it whenever the keys satisfy the contract of \<open>hash\<close> and \<open>isEqual:\<close>.  The
  ledger of references shows who owns what.
\<close>

section \<open>The interface of a dictionary\<close>

text \<open>The operations on a dictionary, as a client performs them, and the value a key has after them.\<close>

datatype dict_op = Put nat nat | Del nat

fun op_key :: "dict_op \<Rightarrow> nat" where
  "op_key (Put k _) = k"
| "op_key (Del k) = k"

fun last_bound :: "(nat \<Rightarrow> nat \<Rightarrow> bool) \<Rightarrow> dict_op list \<Rightarrow> nat \<Rightarrow> nat \<Rightarrow> nat" where
  "last_bound same [] k v = v"
| "last_bound same (Put k' v' # rest) k v = last_bound same rest k (if same k' k then v' else v)"
| "last_bound same (Del k' # rest) k v = last_bound same rest k (if same k' k then 0 else v)"

fun perform :: "(nat \<Rightarrow> nat \<Rightarrow> 'd \<Rightarrow> 'd) \<Rightarrow> (nat \<Rightarrow> 'd \<Rightarrow> 'd) \<Rightarrow> dict_op \<Rightarrow> 'd \<Rightarrow> 'd" where
  "perform ins del (Put k v) d = ins k v d"
| "perform ins del (Del k) d = del k d"

locale dictionary =
  fixes ok :: "'d \<Rightarrow> bool"
    and lookup :: "'d \<Rightarrow> nat \<Rightarrow> nat"
    and has :: "'d \<Rightarrow> nat \<Rightarrow> bool"
    and tally :: "'d \<Rightarrow> nat"
    and ins :: "nat \<Rightarrow> nat \<Rightarrow> 'd \<Rightarrow> 'd"
    and del :: "nat \<Rightarrow> 'd \<Rightarrow> 'd"
    and same :: "nat \<Rightarrow> nat \<Rightarrow> bool"
  assumes ok_insert: "ok d \<Longrightarrow> k \<noteq> 0 \<Longrightarrow> ok (ins k v d)"
    and ok_remove: "ok d \<Longrightarrow> ok (del k d)"
    and same_sym: "ok d \<Longrightarrow> same k k' \<Longrightarrow> same k' k"
    and same_trans: "ok d \<Longrightarrow> same k c \<Longrightarrow> same k' c \<Longrightarrow> same k k'"
    and lookup_insert: "ok d \<Longrightarrow> k \<noteq> 0 \<Longrightarrow> lookup (ins k v d) k' = (if same k k' then v else lookup d k')"
    and lookup_remove: "ok d \<Longrightarrow> lookup (del k d) k' = (if same k k' then 0 else lookup d k')"
    and has_insert: "ok d \<Longrightarrow> k \<noteq> 0 \<Longrightarrow> has (ins k v d) k' = (same k k' \<or> has d k')"
    and has_remove: "ok d \<Longrightarrow> has (del k d) k' = (has d k' \<and> \<not> same k k')"
    and tally_insert: "ok d \<Longrightarrow> k \<noteq> 0 \<Longrightarrow> tally (ins k v d) = (if has d k then tally d else wadd32 (tally d) 1)"
    and tally_remove: "ok d \<Longrightarrow> tally (del k d) = (if has d k then wsub32 (tally d) 1 else tally d)"
begin

lemma performed:
  assumes "ok d" "\<forall>opn \<in> set trace. op_key opn \<noteq> 0"
  shows "ok (fold (perform ins del) trace d)
    \<and> lookup (fold (perform ins del) trace d) k = last_bound same trace k (lookup d k)"
  using assms
proof (induction trace arbitrary: d)
  case Nil
  then show ?case by simp
next
  case (Cons opn rest)
  show ?case
  proof (cases opn)
    case (Put k' v')
    have "ok (ins k' v' d)" using Cons.prems Put by (simp add: ok_insert)
    from Cons.IH [OF this] Cons.prems Put show ?thesis by (simp add: lookup_insert)
  next
    case (Del k')
    have "ok (del k' d)" using Cons.prems by (simp add: ok_remove)
    from Cons.IH [OF this] Cons.prems Del show ?thesis by (simp add: lookup_remove)
  qed
qed

text \<open>Putting in entries whose keys differ from each other and from those in the dictionary.\<close>

lemma put_fresh:
  assumes "ok d" "\<forall>e \<in> set kvs. fst e \<noteq> 0 \<and> \<not> has d (fst e)"
    and "sorted_wrt (\<lambda>p q. \<not> same (fst p) (fst q)) kvs"
  shows "ok (fold (\<lambda>(k, v). ins k v) kvs d)
    \<and> tally (fold (\<lambda>(k, v). ins k v) kvs d) mod 4294967296 = (tally d + length kvs) mod 4294967296"
  using assms
proof (induction kvs arbitrary: d)
  case Nil
  then show ?case by simp
next
  case (Cons e rest)
  obtain k' v' where e: "e = (k', v')" by (cases e)
  have k': "k' \<noteq> 0" "\<not> has d k'" using Cons.prems e by simp_all
  have ok': "ok (ins k' v' d)" using Cons.prems(1) k' by (simp add: ok_insert)
  have fresh: "\<forall>e \<in> set rest. fst e \<noteq> 0 \<and> \<not> has (ins k' v' d) (fst e)"
    using Cons.prems e k' by (simp add: has_insert)
  have "sorted_wrt (\<lambda>p q. \<not> same (fst p) (fst q)) rest" using Cons.prems by simp
  note IH = Cons.IH [OF ok' fresh this]
  have "tally (ins k' v' d) mod 4294967296 = (tally d + 1) mod 4294967296"
    using Cons.prems(1) k' by (simp add: tally_insert wadd32_def)
  then have "(tally (ins k' v' d) + length rest) mod 4294967296 = (tally d + length (e # rest)) mod 4294967296"
    using mod_add_cong [of "tally (ins k' v' d)" 4294967296 "tally d + 1" "length rest" "length rest"] by simp
  with IH e show ?case by simp
qed

lemma put_fresh_lookup:
  assumes "ok d" "\<forall>e \<in> set kvs. fst e \<noteq> 0" "\<forall>k. lookup d k = 0"
    and "sorted_wrt (\<lambda>p q. \<not> same (fst p) (fst q)) kvs"
  shows "lookup (fold (\<lambda>(k, v). ins k v) kvs d) k = collision_value (\<lambda>c. same c k) kvs"
proof -
  have other: "lookup (fold (\<lambda>(k, v). ins k v) kvs d) k = lookup d k"
    if "ok d" "\<forall>e \<in> set kvs. fst e \<noteq> 0" "\<forall>e \<in> set kvs. \<not> same (fst e) k" for kvs d
    using that
  proof (induction kvs arbitrary: d)
    case Nil
    then show ?case by simp
  next
    case (Cons e rest)
    obtain k' v' where e: "e = (k', v')" by (cases e)
    have "ok (ins k' v' d)" using Cons.prems e by (simp add: ok_insert)
    from Cons.IH [OF this] Cons.prems e show ?case by (simp add: lookup_insert)
  qed
  have "lookup (fold (\<lambda>(k, v). ins k v) kvs d) k = (if \<exists>e \<in> set kvs. same (fst e) k
      then collision_value (\<lambda>c. same c k) kvs else lookup d k)"
    using assms(1,2,4)
  proof (induction kvs arbitrary: d)
    case Nil
    then show ?case by simp
  next
    case (Cons e rest)
    obtain k' v' where e: "e = (k', v')" by (cases e)
    have ok': "ok (ins k' v' d)" using Cons.prems e by (simp add: ok_insert)
    show ?case
    proof (cases "same k' k")
      case True
      have "\<not> same (fst x) k" if "x \<in> set rest" for x
      proof
        assume "same (fst x) k"
        with True have "same k' (fst x)" by (rule same_trans [OF Cons.prems(1)])
        with Cons.prems(3) e that show False by simp
      qed
      then have "\<forall>e \<in> set rest. \<not> same (fst e) k" by blast
      from other [OF ok' _ this] Cons.prems(1,2) e True show ?thesis by (simp add: lookup_insert)
    next
      case False
      with Cons.IH [OF ok'] Cons.prems e show ?thesis by (simp add: lookup_insert)
    qed
  qed
  moreover have "\<not> (\<exists>e \<in> set kvs. same (fst e) k) \<Longrightarrow> collision_value (\<lambda>c. same c k) kvs = 0"
    by (induction kvs) (auto split: if_splits)
  ultimately show ?thesis using assms(3) by (metis (no_types, lifting))
qed

end


section \<open>Buckets\<close>

definition bucket :: "dict \<Rightarrow> nat \<Rightarrow> (nat \<times> nat) list" where
  "bucket d h = (case dict_map d h of None \<Rightarrow> [] | Some cs \<Rightarrow> cs)"

definition total :: "((nat \<times> nat) list \<Rightarrow> nat) \<Rightarrow> dict \<Rightarrow> nat" where
  "total f d = (\<Sum>h \<in> dom (dict_map d). f (bucket d h))"

lemma bucket_update [simp]:
  "bucket (d\<lparr>dict_map := (dict_map d)(h \<mapsto> cs)\<rparr>) h' = (if h' = h then cs else bucket d h')"
  "bucket (d\<lparr>dict_map := (dict_map d)(h \<mapsto> cs), dict_count := n\<rparr>) h' = (if h' = h then cs else bucket d h')"
  by (simp_all add: bucket_def)

lemma bucket_empty [simp]: "bucket empty_dict h = []"
  by (simp add: bucket_def empty_dict_def)

lemma total_update:
  assumes fin: "finite (dom (dict_map d))" and zero: "f [] = 0"
    and m: "dict_map d' = (dict_map d)(h \<mapsto> cs)"
  shows "total f d' + f (bucket d h) = total f d + f cs"
proof -
  let ?D = "dom (dict_map d) - {h}"
  have b: "bucket d' h' = (if h' = h then cs else bucket d h')" for h'
    using m by (simp add: bucket_def)
  have "dom (dict_map d') = insert h ?D" using m by auto
  then have "total f d' = (\<Sum>h' \<in> insert h ?D. f (bucket d' h'))"
    by (simp only: total_def)
  also have "\<dots> = f (bucket d' h) + (\<Sum>h' \<in> ?D. f (bucket d' h'))"
    by (rule sum.insert) (use fin in simp_all)
  finally have "total f d' = f cs + (\<Sum>h' \<in> ?D. f (bucket d' h'))" using b by simp
  moreover have "(\<Sum>h' \<in> ?D. f (bucket d' h')) = (\<Sum>h' \<in> ?D. f (bucket d h'))"
    using b by (intro sum.cong) auto
  moreover have "total f d = f (bucket d h) + (\<Sum>h' \<in> ?D. f (bucket d h'))"
  proof (cases "h \<in> dom (dict_map d)")
    case True
    with fin show ?thesis unfolding total_def by (simp add: sum.remove)
  next
    case False
    then have "bucket d h = []" by (auto simp: bucket_def split: option.splits)
    with False zero show ?thesis by (simp add: total_def)
  qed
  ultimately show ?thesis by simp
qed

text \<open>Any order in which the table yields its hashes.\<close>

definition table_order :: "nat list \<Rightarrow> dict \<Rightarrow> bool" where
  "table_order order d \<longleftrightarrow> distinct order \<and> set order = dom (dict_map d)"

lemma entries_buckets: "entries order d = concat (map (bucket d) order)"
  by (simp add: entries_def bucket_def [abs_def])

lemma total_entries:
  assumes "table_order order d" "f [] = 0" "\<And>xs ys. f (xs @ ys) = f xs + f ys"
  shows "total f d = f (entries order d)"
proof -
  have "f (concat (map (bucket d) hs)) = sum_list (map (\<lambda>h. f (bucket d h)) hs)" for hs
    using assms(2,3) by (induction hs) simp_all
  moreover have "total f d = sum_list (map (\<lambda>h. f (bucket d h)) order)"
    using assms(1) by (simp add: total_def table_order_def sum_list_distinct_conv_sum_set)
  ultimately show ?thesis by (simp add: entries_buckets)
qed

lemma replace_value_None: "replace_value p v cs = None \<longleftrightarrow> (\<forall>e \<in> set cs. \<not> p (fst e))"
proof (induction cs)
  case Nil
  then show ?case by simp
next
  case (Cons e rest)
  then show ?case by (cases e; cases "replace_value p v rest") auto
qed

lemma replace_value_Some:
  "replace_value p v cs = Some (old, cs') \<Longrightarrow>
     \<exists>xs c ys. cs = xs @ (c, old) # ys \<and> cs' = xs @ (c, v) # ys \<and> p c \<and> (\<forall>e \<in> set xs. \<not> p (fst e))"
proof (induction cs arbitrary: cs')
  case Nil
  then show ?case by simp
next
  case (Cons e rest)
  obtain c w where e: "e = (c, w)" by (cases e)
  show ?case
  proof (cases "p c")
    case True
    with Cons.prems e have "old = w" "cs' = (c, v) # rest" by simp_all
    with True e have "e # rest = [] @ (c, old) # rest \<and> cs' = [] @ (c, v) # rest \<and> p c \<and> (\<forall>e \<in> set []. \<not> p (fst e))"
      by simp
    then show ?thesis by blast
  next
    case False
    with Cons.prems e obtain rest' where r: "replace_value p v rest = Some (old, rest')" "cs' = (c, w) # rest'"
      by (auto split: option.splits)
    from Cons.IH [OF r(1)] obtain xs c' ys where
      "rest = xs @ (c', old) # ys" "rest' = xs @ (c', v) # ys" "p c'" "\<forall>e \<in> set xs. \<not> p (fst e)" by blast
    with r e False have "e # rest = ((c, w) # xs) @ (c', old) # ys \<and> cs' = ((c, w) # xs) @ (c', v) # ys \<and> p c'
        \<and> (\<forall>e \<in> set ((c, w) # xs). \<not> p (fst e))" by simp
    then show ?thesis by blast
  qed
qed

lemma take_first_None: "take_first p cs = None \<longleftrightarrow> (\<forall>e \<in> set cs. \<not> p (fst e))"
proof (induction cs)
  case Nil
  then show ?case by simp
next
  case (Cons e rest)
  then show ?case by (cases "take_first p rest") auto
qed

lemma take_first_Some:
  "take_first p cs = Some (e, cs') \<Longrightarrow>
     \<exists>xs ys. cs = xs @ e # ys \<and> cs' = xs @ ys \<and> p (fst e) \<and> (\<forall>e \<in> set xs. \<not> p (fst e))"
proof (induction cs arbitrary: cs')
  case Nil
  then show ?case by simp
next
  case (Cons a rest)
  show ?case
  proof (cases "p (fst a)")
    case True
    with Cons.prems have "a # rest = [] @ e # cs' \<and> cs' = [] @ cs' \<and> p (fst e) \<and> (\<forall>e \<in> set []. \<not> p (fst e))"
      by simp
    then show ?thesis by blast
  next
    case False
    with Cons.prems obtain rest' where r: "take_first p rest = Some (e, rest')" "cs' = a # rest'"
      by (auto split: option.splits)
    from Cons.IH [OF r(1)] obtain xs ys where
      "rest = xs @ e # ys" "rest' = xs @ ys" "p (fst e)" "\<forall>e \<in> set xs. \<not> p (fst e)" by blast
    with r False have "a # rest = (a # xs) @ e # ys \<and> cs' = (a # xs) @ ys \<and> p (fst e)
        \<and> (\<forall>e \<in> set (a # xs). \<not> p (fst e))" by simp
    then show ?thesis by blast
  qed
qed

lemma collision_value_append:
  "collision_value p (xs @ ys) = (if \<exists>e \<in> set xs. p (fst e) then collision_value p xs else collision_value p ys)"
proof (induction xs)
  case Nil
  then show ?case by simp
next
  case (Cons e rest)
  then show ?case by (cases e) simp
qed

lemma collision_value_none: "\<forall>e \<in> set cs. \<not> p (fst e) \<Longrightarrow> collision_value p cs = 0"
  by (induction cs) auto

section \<open>The table of an NSDictionary\<close>

text \<open>
  The contract of the keys' methods: equality is an equivalence on which the hash agrees, and a copy is an
  object equal to the original.
\<close>

definition key_contract :: "key_ops \<Rightarrow> bool" where
  "key_contract ops \<longleftrightarrow>
     (\<forall>a b. same_key ops a b \<longrightarrow> same_key ops b a \<and> msg_hash ops a = msg_hash ops b)
   \<and> (\<forall>a b c. same_key ops a b \<longrightarrow> same_key ops b c \<longrightarrow> same_key ops a c)
   \<and> (\<forall>k. k \<noteq> 0 \<longrightarrow> guest_copy ops k \<noteq> 0 \<and> same_key ops (guest_copy ops k) k)"

definition bucket_ok :: "key_ops \<Rightarrow> nat \<Rightarrow> (nat \<times> nat) list \<Rightarrow> bool" where
  "bucket_ok ops h cs \<longleftrightarrow> (\<forall>e \<in> set cs. fst e \<noteq> 0 \<and> msg_hash ops (fst e) = h)
     \<and> sorted_wrt (\<lambda>p q. \<not> same_key ops (fst p) (fst q)) cs"

definition dict_ok :: "key_ops \<Rightarrow> dict \<Rightarrow> bool" where
  "dict_ok ops d \<longleftrightarrow> finite (dom (dict_map d)) \<and> (\<forall>h. bucket_ok ops h (bucket d h))
     \<and> dict_count d = total length d mod 4294967296"

definition dict_has :: "key_ops \<Rightarrow> dict \<Rightarrow> nat \<Rightarrow> bool" where
  "dict_has ops d k = list_ex (\<lambda>e. same_key ops (fst e) k) (bucket d (msg_hash ops k))"

lemma contractD:
  assumes "key_contract ops"
  shows "same_key ops a b \<Longrightarrow> same_key ops b a"
    and "same_key ops a b \<Longrightarrow> msg_hash ops a = msg_hash ops b"
    and "same_key ops a b \<Longrightarrow> same_key ops b c \<Longrightarrow> same_key ops a c"
    and "k \<noteq> 0 \<Longrightarrow> msg_copy ops k \<noteq> 0 \<and> same_key ops (msg_copy ops k) k"
  using assms unfolding key_contract_def msg_copy_def by (blast, blast, blast, auto)

lemma dict_lookup_bucket:
  "dict_lookup ops d k = collision_value (\<lambda>c. same_key ops c k) (bucket d (msg_hash ops k))"
  by (simp add: dict_lookup_def bucket_def split: option.splits)

lemma empty_dict_ok: "dict_ok ops empty_dict"
  by (simp add: dict_ok_def bucket_ok_def) (simp add: empty_dict_def total_def)

lemma empty_dict_facts: "dict_lookup ops empty_dict k = 0" "\<not> dict_has ops empty_dict k"
  by (simp_all add: dict_lookup_bucket dict_has_def)


lemma copied_key:
  assumes "key_contract ops" "k \<noteq> 0"
  shows "msg_hash ops (msg_copy ops k) = msg_hash ops k"
    and "same_key ops c (msg_copy ops k) = same_key ops c k"
    and "same_key ops (msg_copy ops k) c = same_key ops k c"
proof -
  have s: "same_key ops (msg_copy ops k) k" using assms by (simp add: contractD(4))
  have s': "same_key ops k (msg_copy ops k)" by (rule contractD(1) [OF assms(1) s])
  show "msg_hash ops (msg_copy ops k) = msg_hash ops k" by (rule contractD(2) [OF assms(1) s])
  show "same_key ops c (msg_copy ops k) = same_key ops c k"
    using contractD(3) [OF assms(1) _ s] contractD(3) [OF assms(1) _ s'] by blast
  show "same_key ops (msg_copy ops k) c = same_key ops k c"
    using contractD(3) [OF assms(1) s] contractD(3) [OF assms(1) s'] by blast
qed

lemma dict_insert_cases:
  assumes contract: "key_contract ops" and k: "k \<noteq> 0"
  obtains (absent) "\<not> dict_has ops d k"
      "dict_insert ops True k v (d, r) =
         (d\<lparr>dict_map := (dict_map d)(msg_hash ops k \<mapsto> bucket d (msg_hash ops k) @ [(msg_copy ops k, v)]),
            dict_count := wadd32 (dict_count d) 1\<rparr>, retain_id v (retain_id (msg_copy ops k) r))"
    | (present) xs c old ys where "dict_has ops d k"
      "bucket d (msg_hash ops k) = xs @ (c, old) # ys" "same_key ops c k"
      "\<forall>e \<in> set xs. \<not> same_key ops (fst e) k"
      "dict_insert ops True k v (d, r) =
         (d\<lparr>dict_map := (dict_map d)(msg_hash ops k \<mapsto> xs @ (c, v) # ys)\<rparr>,
          release_id old (retain_id v (retain_id (msg_copy ops k) r)))"
proof (cases "dict_map d (msg_hash ops k)")
  case None
  with copied_key [OF contract k] have "\<not> dict_has ops d k"
    "dict_insert ops True k v (d, r) =
       (d\<lparr>dict_map := (dict_map d)(msg_hash ops k \<mapsto> bucket d (msg_hash ops k) @ [(msg_copy ops k, v)]),
          dict_count := wadd32 (dict_count d) 1\<rparr>, retain_id v (retain_id (msg_copy ops k) r))"
    by (simp_all add: dict_has_def dict_insert_def bucket_def Let_def)
  then show thesis by (rule absent)
next
  case (Some cs)
  then have b: "bucket d (msg_hash ops k) = cs" by (simp add: bucket_def)
  show thesis
  proof (cases "replace_value (\<lambda>c. same_key ops c k) v cs")
    case None
    then have "\<forall>e \<in> set cs. \<not> same_key ops (fst e) k" by (simp add: replace_value_None)
    then have "\<not> dict_has ops d k" using b by (simp add: dict_has_def list_ex_iff)
    moreover have "dict_insert ops True k v (d, r) =
         (d\<lparr>dict_map := (dict_map d)(msg_hash ops k \<mapsto> bucket d (msg_hash ops k) @ [(msg_copy ops k, v)]),
            dict_count := wadd32 (dict_count d) 1\<rparr>, retain_id v (retain_id (msg_copy ops k) r))"
      using Some None b copied_key [OF contract k] by (simp add: dict_insert_def Let_def)
    ultimately show thesis by (rule absent)
  next
    case (Some p)
    obtain old cs' where p: "p = (old, cs')" by (cases p)
    with Some have r: "replace_value (\<lambda>c. same_key ops c k) v cs = Some (old, cs')" by simp
    from replace_value_Some [OF r] obtain xs c ys where
      split: "cs = xs @ (c, old) # ys" "cs' = xs @ (c, v) # ys" "same_key ops c k"
        "\<forall>e \<in> set xs. \<not> same_key ops (fst e) k" by blast
    show thesis
    proof (rule present [of xs c old ys])
      show "dict_has ops d k" using b split by (simp add: dict_has_def)
      show "bucket d (msg_hash ops k) = xs @ (c, old) # ys" using b split by simp
      show "dict_insert ops True k v (d, r) =
         (d\<lparr>dict_map := (dict_map d)(msg_hash ops k \<mapsto> xs @ (c, v) # ys)\<rparr>,
          release_id old (retain_id v (retain_id (msg_copy ops k) r)))"
        using \<open>dict_map d (msg_hash ops k) = Some cs\<close> r split(2) copied_key [OF contract k]
        by (simp add: dict_insert_def Let_def)
    qed (use split in simp_all)
  qed
qed

lemma dict_remove_cases:
  obtains (absent) "\<not> dict_has ops d k" "dict_remove ops k (d, r) = (d, r)"
    | (present) xs c old ys where "dict_has ops d k"
      "bucket d (msg_hash ops k) = xs @ (c, old) # ys" "same_key ops c k"
      "dict_remove ops k (d, r) =
         (d\<lparr>dict_map := (dict_map d)(msg_hash ops k \<mapsto> xs @ ys), dict_count := wsub32 (dict_count d) 1\<rparr>,
          release_id old (release_id c r))"
proof (cases "dict_map d (msg_hash ops k)")
  case None
  then have "\<not> dict_has ops d k" "dict_remove ops k (d, r) = (d, r)"
    by (simp_all add: dict_has_def dict_remove_def bucket_def Let_def)
  then show thesis by (rule absent)
next
  case (Some cs)
  then have b: "bucket d (msg_hash ops k) = cs" by (simp add: bucket_def)
  show thesis
  proof (cases "take_first (\<lambda>c. same_key ops c k) cs")
    case None
    then have "\<forall>e \<in> set cs. \<not> same_key ops (fst e) k" by (simp add: take_first_None)
    then have "\<not> dict_has ops d k" using b by (simp add: dict_has_def list_ex_iff)
    moreover have "dict_remove ops k (d, r) = (d, r)"
      using Some None by (simp add: dict_remove_def Let_def)
    ultimately show thesis by (rule absent)
  next
    case (Some p)
    obtain c old cs' where p: "p = ((c, old), cs')" by (metis surj_pair)
    with Some have r: "take_first (\<lambda>c. same_key ops c k) cs = Some ((c, old), cs')" by simp
    from take_first_Some [OF r] obtain xs ys where
      split: "cs = xs @ (c, old) # ys" "cs' = xs @ ys" "same_key ops c k" by auto
    show thesis
    proof (rule present [of xs c old ys])
      show "dict_has ops d k" using b split by (simp add: dict_has_def)
      show "bucket d (msg_hash ops k) = xs @ (c, old) # ys" using b split by simp
      show "dict_remove ops k (d, r) =
         (d\<lparr>dict_map := (dict_map d)(msg_hash ops k \<mapsto> xs @ ys), dict_count := wsub32 (dict_count d) 1\<rparr>,
          release_id old (release_id c r))"
        using \<open>dict_map d (msg_hash ops k) = Some cs\<close> r split(2) by (simp add: dict_remove_def Let_def)
    qed (use split in simp)
  qed
qed

lemma dict_okD:
  assumes "dict_ok ops d"
  shows "finite (dom (dict_map d))" and "bucket_ok ops h (bucket d h)"
    and "dict_count d = total length d mod 4294967296"
  using assms by (simp_all add: dict_ok_def)

lemma mod_cancel:
  fixes a b c m :: nat
  assumes "(a + c) mod m = (b + c) mod m"
  shows "a mod m = b mod m"
proof -
  have "(int a + int c) mod int m = (int b + int c) mod int m"
    using assms by (metis of_nat_add zmod_int)
  then have "int a mod int m = int b mod int m" by (simp add: mod_eq_dvd_iff)
  then show ?thesis by (metis of_nat_eq_iff zmod_int)
qed

text \<open>A table in which one bucket has changed.\<close>

lemma dict_ok_update:
  assumes d: "dict_ok ops d" and cs: "bucket_ok ops h cs"
    and n: "(n + length (bucket d h)) mod 4294967296 = (total length d + length cs) mod 4294967296" "n < 4294967296"
  shows "dict_ok ops (d\<lparr>dict_map := (dict_map d)(h \<mapsto> cs), dict_count := n\<rparr>)" (is "dict_ok ops ?d")
proof -
  have "total length ?d + length (bucket d h) = total length d + length cs"
    by (rule total_update [OF dict_okD(1) [OF d]]) simp_all
  then have "(n + length (bucket d h)) mod 4294967296 = (total length ?d + length (bucket d h)) mod 4294967296"
    using n by simp
  then have "n mod 4294967296 = total length ?d mod 4294967296" by (rule mod_cancel)
  moreover have "bucket_ok ops h' (bucket ?d h')" for h' using dict_okD(2) [OF d] cs by simp
  moreover have "finite (dom (dict_map ?d))" using dict_okD(1) [OF d] by simp
  ultimately show ?thesis using n by (simp add: dict_ok_def)
qed


lemma bucket_ok_append:
  assumes "bucket_ok ops h cs" "key \<noteq> 0" "msg_hash ops key = h" "\<forall>e \<in> set cs. \<not> same_key ops (fst e) key"
  shows "bucket_ok ops h (cs @ [(key, v)])"
  using assms by (auto simp: bucket_ok_def sorted_wrt_append)

lemma bucket_ok_replace: "bucket_ok ops h (xs @ (c, old) # ys) \<Longrightarrow> bucket_ok ops h (xs @ (c, v) # ys)"
  by (auto simp: bucket_ok_def sorted_wrt_append)

lemma bucket_ok_drop: "bucket_ok ops h (xs @ e # ys) \<Longrightarrow> bucket_ok ops h (xs @ ys)"
  by (auto simp: bucket_ok_def sorted_wrt_append)

lemma not_has: "\<not> dict_has ops d k \<longleftrightarrow> (\<forall>e \<in> set (bucket d (msg_hash ops k)). \<not> same_key ops (fst e) k)"
  by (simp add: dict_has_def list_ex_iff)

lemma insert_laws:
  assumes contract: "key_contract ops" and d: "dict_ok ops d" and k: "k \<noteq> 0"
  shows "dict_ok ops (fst (dict_insert ops True k v (d, r)))
    \<and> dict_lookup ops (fst (dict_insert ops True k v (d, r))) k' = (if same_key ops k k' then v else dict_lookup ops d k')
    \<and> dict_has ops (fst (dict_insert ops True k v (d, r))) k' = (same_key ops k k' \<or> dict_has ops d k')
    \<and> dict_count (fst (dict_insert ops True k v (d, r)))
        = (if dict_has ops d k then dict_count d else wadd32 (dict_count d) 1)"
  using contract k
proof (cases rule: dict_insert_cases [of ops k d v r])
  case absent
  let ?h = "msg_hash ops k" and ?key = "msg_copy ops k"
  note key = copied_key [OF contract k] contractD(4) [OF contract k]
  have none: "\<forall>e \<in> set (bucket d ?h). \<not> same_key ops (fst e) k" using absent(1) by (simp only: not_has not_not)
  have cs: "bucket_ok ops ?h (bucket d ?h @ [(?key, v)])"
    by (rule bucket_ok_append [OF dict_okD(2) [OF d]]) (use key none in simp_all)
  have "(wadd32 (dict_count d) 1 + length (bucket d ?h)) mod 4294967296
      = (total length d + length (bucket d ?h @ [(?key, v)])) mod 4294967296"
    unfolding dict_okD(3) [OF d] wadd32_def by (simp add: mod_simps)
  from dict_ok_update [OF d cs this] have "dict_ok ops (fst (dict_insert ops True k v (d, r)))"
    unfolding absent(2) by (simp add: wadd32_bound)
  moreover have "dict_lookup ops (fst (dict_insert ops True k v (d, r))) k'
      = (if same_key ops k k' then v else dict_lookup ops d k')"
  proof (cases "same_key ops k k'")
    case True
    then have h: "msg_hash ops k' = ?h" using contractD(2) [OF contract True] by simp
    have "\<not> same_key ops (fst e) k'" if "e \<in> set (bucket d ?h)" for e
      using none that contractD(1) [OF contract True] contractD(3) [OF contract, of "fst e" k' k] by blast
    with True h key(3) show ?thesis by (simp add: absent(2) dict_lookup_bucket collision_value_append)
  next
    case False
    then show ?thesis using key(3)
      by (simp add: absent(2) dict_lookup_bucket collision_value_append collision_value_none)
  qed
  moreover have "dict_has ops (fst (dict_insert ops True k v (d, r))) k' = (same_key ops k k' \<or> dict_has ops d k')"
    using key(3) contractD(2) [OF contract, of k k'] by (auto simp: absent(2) dict_has_def)
  moreover have "dict_count (fst (dict_insert ops True k v (d, r)))
        = (if dict_has ops d k then dict_count d else wadd32 (dict_count d) 1)"
    using absent by simp
  ultimately show ?thesis by blast
next
  case (present xs c old ys)
  let ?h = "msg_hash ops k"
  have b: "bucket_ok ops ?h (xs @ (c, old) # ys)" using dict_okD(2) [OF d, of ?h] present(2) by simp
  then have cs: "bucket_ok ops ?h (xs @ (c, v) # ys)" by (rule bucket_ok_replace)
  have len: "length (xs @ (c, v) # ys) = length (bucket d ?h)" using present(2) by simp
  have n: "(dict_count d + length (bucket d ?h)) mod 4294967296
      = (total length d + length (xs @ (c, v) # ys)) mod 4294967296" "dict_count d < 4294967296"
    unfolding dict_okD(3) [OF d] len by (rule mod_add_left_eq) simp
  have same: "d\<lparr>dict_map := (dict_map d)(?h \<mapsto> xs @ (c, v) # ys), dict_count := dict_count d\<rparr>
      = d\<lparr>dict_map := (dict_map d)(?h \<mapsto> xs @ (c, v) # ys)\<rparr>" by simp
  from dict_ok_update [OF d cs n] have "dict_ok ops (fst (dict_insert ops True k v (d, r)))"
    unfolding present(5) same by simp
  moreover have "dict_lookup ops (fst (dict_insert ops True k v (d, r))) k'
      = (if same_key ops k k' then v else dict_lookup ops d k')"
  proof (cases "same_key ops k k'")
    case True
    then have h: "msg_hash ops k' = ?h" using contractD(2) [OF contract True] by simp
    have "\<not> same_key ops (fst e) k'" if "e \<in> set xs" for e
      using present(4) that contractD(1) [OF contract True] contractD(3) [OF contract, of "fst e" k' k] by blast
    with True h contractD(3) [OF contract present(3) True]
    show ?thesis by (simp add: present(5) dict_lookup_bucket collision_value_append)
  next
    case False
    then have "\<not> same_key ops c k'"
      using contractD(1) [OF contract present(3)] contractD(3) [OF contract, of k c k'] by blast
    with False present(2) show ?thesis
      by (simp add: present(5) dict_lookup_bucket collision_value_append)
  qed
  moreover have "dict_has ops (fst (dict_insert ops True k v (d, r))) k' = (same_key ops k k' \<or> dict_has ops d k')"
  proof -
    have "same_key ops c k'" "msg_hash ops k' = ?h" if "same_key ops k k'"
      using that contractD(2,3) [OF contract] present(3) by (blast, metis)
    then show ?thesis using present(2) by (auto simp: present(5) dict_has_def)
  qed
  moreover have "dict_count (fst (dict_insert ops True k v (d, r)))
        = (if dict_has ops d k then dict_count d else wadd32 (dict_count d) 1)"
    using present by simp
  ultimately show ?thesis by blast
qed


lemma remove_laws:
  assumes contract: "key_contract ops" and d: "dict_ok ops d"
  shows "dict_ok ops (fst (dict_remove ops k (d, r)))
    \<and> dict_lookup ops (fst (dict_remove ops k (d, r))) k' = (if same_key ops k k' then 0 else dict_lookup ops d k')
    \<and> dict_has ops (fst (dict_remove ops k (d, r))) k' = (dict_has ops d k' \<and> \<not> same_key ops k k')
    \<and> dict_count (fst (dict_remove ops k (d, r)))
        = (if dict_has ops d k then wsub32 (dict_count d) 1 else dict_count d)"
proof (cases rule: dict_remove_cases [of ops d k r])
  case absent
  have "dict_lookup ops d k' = 0 \<and> \<not> dict_has ops d k'" if s: "same_key ops k k'"
  proof -
    have h: "msg_hash ops k' = msg_hash ops k" using contractD(2) [OF contract s] by simp
    have "\<forall>e \<in> set (bucket d (msg_hash ops k)). \<not> same_key ops (fst e) k"
      using absent(1) by (simp only: not_has not_not)
    then have "\<forall>e \<in> set (bucket d (msg_hash ops k)). \<not> same_key ops (fst e) k'"
      using contractD(1) [OF contract s] contractD(3) [OF contract, of _ k' k] by blast
    then show ?thesis using h by (simp add: dict_lookup_bucket collision_value_none not_has)
  qed
  with absent d show ?thesis by simp
next
  case (present xs c old ys)
  let ?h = "msg_hash ops k"
  have b: "bucket_ok ops ?h (xs @ (c, old) # ys)" using dict_okD(2) [OF d, of ?h] present(2) by simp
  then have cs: "bucket_ok ops ?h (xs @ ys)" by (rule bucket_ok_drop)
  have len: "length (bucket d ?h) = Suc (length (xs @ ys))" using present(2) by simp
  have ws: "wsub32 (dict_count d) 1 = (dict_count d + 4294967295) mod 4294967296" by (simp add: wsub32_def)
  have "(wsub32 (dict_count d) 1 + length (bucket d ?h)) mod 4294967296
      = (dict_count d + 4294967295 + Suc (length (xs @ ys))) mod 4294967296"
    by (simp only: len ws mod_add_left_eq)
  also have "\<dots> = (dict_count d + length (xs @ ys) + 4294967296) mod 4294967296" by simp
  also have "\<dots> = (dict_count d + length (xs @ ys)) mod 4294967296" by (rule mod_add_self2)
  also have "\<dots> = (total length d + length (xs @ ys)) mod 4294967296"
    unfolding dict_okD(3) [OF d] by (rule mod_add_left_eq)
  finally have n: "(wsub32 (dict_count d) 1 + length (bucket d ?h)) mod 4294967296
      = (total length d + length (xs @ ys)) mod 4294967296" .
  have "dict_ok ops (fst (dict_remove ops k (d, r)))"
    unfolding present(4) fst_conv by (rule dict_ok_update [OF d cs n]) (simp add: wsub32_def)
  moreover have apart: "\<not> same_key ops (fst e) k'" if ck: "same_key ops c k'" and "e \<in> set (xs @ ys)" for e
  proof
    assume e: "same_key ops (fst e) k'"
    then have "same_key ops (fst e) c" "same_key ops c (fst e)"
      using contractD(1) [OF contract] contractD(3) [OF contract] ck by blast+
    with b that show False by (auto simp: bucket_ok_def sorted_wrt_append)
  qed
  moreover have ck_iff: "same_key ops c k' \<longleftrightarrow> same_key ops k k'"
    using contractD(1) [OF contract present(3)] contractD(3) [OF contract present(3)]
      contractD(3) [OF contract, of k c k'] by blast
  moreover have "dict_has ops (fst (dict_remove ops k (d, r))) k' = (dict_has ops d k' \<and> \<not> same_key ops k k')"
  proof (cases "same_key ops k k'")
    case True
    then have "msg_hash ops k' = ?h" using contractD(2) [OF contract True] by simp
    with True apart ck_iff show ?thesis by (auto simp: present(4) not_has)
  next
    case False
    with ck_iff present(2) show ?thesis by (auto simp: present(4) dict_has_def)
  qed
  moreover have "dict_lookup ops (fst (dict_remove ops k (d, r))) k'
      = (if same_key ops k k' then 0 else dict_lookup ops d k')"
  proof (cases "same_key ops k k'")
    case True
    then have h: "msg_hash ops k' = ?h" using contractD(2) [OF contract True] by simp
    from apart ck_iff True have "\<not> same_key ops (fst e) k'" if "e \<in> set (xs @ ys)" for e using that by blast
    with True h show ?thesis by (simp add: present(4) dict_lookup_bucket collision_value_none)
  next
    case False
    then have "\<not> same_key ops c k'"
      using contractD(1) [OF contract present(3)] contractD(3) [OF contract, of k c k'] by blast
    with False present(2) show ?thesis
      by (simp add: present(4) dict_lookup_bucket collision_value_append)
  qed
  ultimately show ?thesis using present by simp
qed

interpretation ns: dictionary "\<lambda>s. key_contract ops \<and> dict_ok ops (fst s)" "\<lambda>s. dict_lookup ops (fst s)"
    "\<lambda>s. dict_has ops (fst s)" "\<lambda>s. dict_count (fst s)" "dict_insert ops True" "dict_remove ops" "same_key ops"
  for ops
proof (unfold_locales, goal_cases)
  case (1 s k v)
  then show ?case using insert_laws [of ops "fst s" k v "snd s"] by simp
next
  case (2 s k)
  then show ?case using remove_laws [of ops "fst s" k "snd s"] by simp
next
  case (3 s k k')
  then show ?case using contractD(1) by blast
next
  case (4 s k c k')
  then show ?case using contractD(1,3) by blast
next
  case (5 s k v k')
  then show ?case using insert_laws [of ops "fst s" k v "snd s"] by simp
next
  case (6 s k k')
  then show ?case using remove_laws [of ops "fst s" k "snd s"] by simp
next
  case (7 s k v k')
  then show ?case using insert_laws [of ops "fst s" k v "snd s"] by simp
next
  case (8 s k k')
  then show ?case using remove_laws [of ops "fst s" k "snd s"] by simp
next
  case (9 s k v)
  then show ?case using insert_laws [of ops "fst s" k v "snd s"] by simp
next
  case (10 s k)
  then show ?case using remove_laws [of ops "fst s" k "snd s"] by simp
qed

end
