(* ===== verification/CF_Dictionary.thy ===== *)
theory CF_Dictionary
  imports NS_Dictionary_Laws
begin

text \<open>
  \<open>CFDictionary\<close>: the table with callbacks (\<open>CFDictionaryHostObject\<close> in
  \<open>src/frameworks/foundation/ns_dictionary.rs\<close>) and the C functions on dictionaries
  (\<open>src/frameworks/core_foundation/cf_dictionary.rs\<close>), which send the same messages to both kinds of dictionary.
  The operations whose \<open>unwrap\<close> or assertion can fail return an option.
\<close>

section \<open>The callbacks\<close>

definition CFRetain :: "nat \<Rightarrow> ledger \<Rightarrow> nat \<times> ledger" where
  "CFRetain x r = (if x = 0 then (x, r) else (x, retain_id x r))"

definition CFRelease :: "nat \<Rightarrow> ledger \<Rightarrow> ledger" where
  "CFRelease x r = (if x = 0 then r else release_id x r)"

definition CFHash :: "(nat \<Rightarrow> nat) \<Rightarrow> nat \<Rightarrow> nat" where
  "CFHash hash x = (if x = 0 then 0 else hash x)"

text \<open>\<open>CFEqual\<close> on strings, which its assertions demand unless the pointers are equal or null.\<close>

definition CFEqual :: "(nat \<Rightarrow> nat \<Rightarrow> bool) \<Rightarrow> nat \<Rightarrow> nat \<Rightarrow> bool" where
  "CFEqual is_equal_to_string a b =
     (if a = b then True else if a = 0 \<or> b = 0 then False else is_equal_to_string a b)"

definition kCFTypeDictionaryKeyCallBacks :: "(nat \<Rightarrow> nat) \<Rightarrow> (nat \<Rightarrow> nat \<Rightarrow> bool) \<Rightarrow> cf_key_callbacks" where
  "kCFTypeDictionaryKeyCallBacks hash is_equal_to_string =
     \<lparr> key_retain = Some CFRetain, key_release = Some CFRelease, key_equal = Some (CFEqual is_equal_to_string),
       key_hash = Some (CFHash hash) \<rparr>"

definition kCFTypeDictionaryValueCallBacks :: cf_value_callbacks where
  "kCFTypeDictionaryValueCallBacks = \<lparr> value_retain = Some CFRetain, value_release = Some CFRelease \<rparr>"

definition null_key_callbacks :: cf_key_callbacks where
  "null_key_callbacks = \<lparr> key_retain = None, key_release = None, key_equal = None, key_hash = None \<rparr>"

definition null_value_callbacks :: cf_value_callbacks where
  "null_value_callbacks = \<lparr> value_retain = None, value_release = None \<rparr>"

section \<open>CFDictionaryHostObject\<close>

definition cf_hash :: "cf_key_callbacks \<Rightarrow> nat \<Rightarrow> nat" where
  "cf_hash kc key = (case key_hash kc of None \<Rightarrow> key | Some f \<Rightarrow> f key)"

definition cf_equal_keys :: "cf_key_callbacks \<Rightarrow> nat \<Rightarrow> nat \<Rightarrow> bool" where
  "cf_equal_keys kc key1 key2 = (case key_equal kc of None \<Rightarrow> key1 = key2 | Some f \<Rightarrow> f key1 key2)"

definition cf_retain_key :: "cf_key_callbacks \<Rightarrow> nat \<Rightarrow> ledger \<Rightarrow> nat \<times> ledger" where
  "cf_retain_key kc key r = (case key_retain kc of None \<Rightarrow> (key, r) | Some f \<Rightarrow> f key r)"

definition cf_release_key :: "cf_key_callbacks \<Rightarrow> nat \<Rightarrow> ledger \<Rightarrow> ledger" where
  "cf_release_key kc key r = (case key_release kc of None \<Rightarrow> r | Some f \<Rightarrow> f key r)"

definition cf_retain_value :: "cf_value_callbacks \<Rightarrow> nat \<Rightarrow> ledger \<Rightarrow> nat \<times> ledger" where
  "cf_retain_value vc val r = (case value_retain vc of None \<Rightarrow> (val, r) | Some f \<Rightarrow> f val r)"

definition cf_release_value :: "cf_value_callbacks \<Rightarrow> nat \<Rightarrow> ledger \<Rightarrow> ledger" where
  "cf_release_value vc val r = (case value_release vc of None \<Rightarrow> r | Some f \<Rightarrow> f val r)"

definition cf_lookup :: "cf_key_callbacks \<Rightarrow> dict \<Rightarrow> nat \<Rightarrow> nat" where
  "cf_lookup kc d key =
     (case dict_map d (cf_hash kc key) of
        None \<Rightarrow> 0
      | Some collisions \<Rightarrow> collision_value (\<lambda>c. cf_equal_keys kc c key) collisions)"

definition cf_remove :: "cf_key_callbacks \<Rightarrow> cf_value_callbacks \<Rightarrow> nat \<Rightarrow> dict \<times> ledger \<Rightarrow> bool \<times> dict \<times> ledger" where
  "cf_remove kc vc key s =
     (let d = fst s; h = cf_hash kc key
      in case dict_map d h of
           None \<Rightarrow> (False, s)
         | Some collisions \<Rightarrow>
             (case take_first (\<lambda>c. cf_equal_keys kc c key) collisions of
                Some ((existing_key, existing_value), collisions') \<Rightarrow>
                  (True, d\<lparr>dict_map := (dict_map d)(h \<mapsto> collisions'), dict_count := wsub32 (dict_count d) 1\<rparr>,
                   cf_release_value vc existing_value (cf_release_key kc existing_key (snd s)))
              | None \<Rightarrow> (False, s)))"

definition cf_insert :: "cf_key_callbacks \<Rightarrow> cf_value_callbacks \<Rightarrow> nat \<Rightarrow> nat \<Rightarrow> dict \<times> ledger \<Rightarrow> (dict \<times> ledger) option" where
  "cf_insert kc vc key0 val0 s =
     (let h = cf_hash kc key0;
          (key, r1) = cf_retain_key kc key0 (snd s);
          (val, r2) = cf_retain_value vc val0 r1;
          d1 = (fst s)\<lparr>dict_count := wadd32 (dict_count (fst s)) 1\<rparr>
      in case dict_map d1 h of
           None \<Rightarrow> Some (d1\<lparr>dict_map := (dict_map d1)(h \<mapsto> [(key, val)])\<rparr>, r2)
         | Some _ \<Rightarrow>
             (let (_, d2, r3) = cf_remove kc vc key (d1, r2)
              in case dict_map d2 h of
                   None \<Rightarrow> None
                 | Some collisions \<Rightarrow> Some (d2\<lparr>dict_map := (dict_map d2)(h \<mapsto> collisions @ [(key, val)])\<rparr>, r3)))"

section \<open>Messages to either kind of dictionary\<close>

definition object_for_key :: "key_ops \<Rightarrow> nat \<Rightarrow> nat \<Rightarrow> dict_env \<Rightarrow> nat" where
  "object_for_key ops this key env =
     (case dicts env this of
        NSDict _ \<Rightarrow> ns_object_for_key ops this key env
      | CFDict d kc _ \<Rightarrow> cf_lookup kc d key)"

definition set_object_for_key :: "key_ops \<Rightarrow> nat \<Rightarrow> nat \<Rightarrow> nat \<Rightarrow> dict_env \<Rightarrow> dict_env option" where
  "set_object_for_key ops this obj key env =
     (case dicts env this of
        NSDict _ \<Rightarrow> Some (ns_set_object ops this obj key env)
      | CFDict d kc vc \<Rightarrow>
          (if obj = 0 then Some env
           else if key = 0 then Some env
           else (case cf_insert kc vc key obj (d, refs env) of
                   None \<Rightarrow> None
                 | Some (d', r') \<Rightarrow> Some (env\<lparr>dicts := (dicts env)(this := CFDict d' kc vc), refs := r'\<rparr>))))"

definition remove_object_for_key :: "key_ops \<Rightarrow> nat \<Rightarrow> nat \<Rightarrow> dict_env \<Rightarrow> dict_env" where
  "remove_object_for_key ops this key env =
     (case dicts env this of
        NSDict _ \<Rightarrow> ns_remove_object_for_key ops this key env
      | CFDict d kc vc \<Rightarrow>
          (if key = 0 then env
           else let (_, d', r') = cf_remove kc vc key (d, refs env)
                in env\<lparr>dicts := (dicts env)(this := CFDict d' kc vc), refs := r'\<rparr>))"

definition all_keys :: "nat list \<Rightarrow> nat \<Rightarrow> dict_env \<Rightarrow> nat list \<times> dict_env" where
  "all_keys order this env =
     (case dicts env this of
        NSDict _ \<Rightarrow> all_keys_common order this env
      | CFDict d _ _ \<Rightarrow> (map fst (entries order d), env))"

text \<open>The \<open>dealloc\<close> of a dictionary with callbacks frees the object only.\<close>

definition dict_dealloc :: "nat list \<Rightarrow> nat \<Rightarrow> dict_env \<Rightarrow> dict_env" where
  "dict_dealloc order this env =
     (case dicts env this of
        NSDict _ \<Rightarrow> ns_dealloc order this env
      | CFDict _ _ _ \<Rightarrow> env\<lparr>dicts := (dicts env)(this := NSDict empty_dict)\<rparr>)"

definition init_with_key_callbacks ::
    "cf_key_callbacks option \<Rightarrow> cf_value_callbacks option \<Rightarrow> nat \<Rightarrow> dict_env \<Rightarrow> dict_env" where
  "init_with_key_callbacks kcs vcs this env =
     (case kcs of
        None \<Rightarrow> env
      | Some kc \<Rightarrow>
          (case dicts env this of
             NSDict _ \<Rightarrow> env
           | CFDict d _ vc \<Rightarrow>
               env\<lparr>dicts := (dicts env)(this := CFDict d kc (case vcs of None \<Rightarrow> vc | Some vc' \<Rightarrow> vc'))\<rparr>))"

section \<open>The C functions\<close>

text \<open>\<open>allocator_ok\<close> is the assertion on the allocator; \<open>new\<close> is the object \<open>alloc\<close> answers.\<close>

definition CFDictionaryCreateMutable ::
    "bool \<Rightarrow> cf_key_callbacks option \<Rightarrow> cf_value_callbacks option \<Rightarrow> nat \<Rightarrow> dict_env \<Rightarrow> dict_env option" where
  "CFDictionaryCreateMutable allocator_ok kcs vcs new env =
     (if \<not> allocator_ok then None
      else Some (init_with_key_callbacks kcs vcs new
             (env\<lparr>dicts := (dicts env)(new := CFDict empty_dict null_key_callbacks null_value_callbacks)\<rparr>)))"

definition CFDictionarySetValue :: "key_ops \<Rightarrow> nat \<Rightarrow> nat \<Rightarrow> nat \<Rightarrow> dict_env \<Rightarrow> dict_env option" where
  "CFDictionarySetValue ops this key val env = set_object_for_key ops this val key env"

fun set_values :: "key_ops \<Rightarrow> nat \<Rightarrow> (nat \<times> nat) list \<Rightarrow> dict_env \<Rightarrow> dict_env option" where
  "set_values ops this [] env = Some env"
| "set_values ops this ((key, val) # rest) env = do {
     env' \<leftarrow> CFDictionarySetValue ops this key val env;
     set_values ops this rest env'
   }"

text \<open>\<open>kvs\<close> are the first \<open>count\<close> elements of the two arrays.\<close>

definition CFDictionaryCreate ::
    "key_ops \<Rightarrow> bool \<Rightarrow> (nat \<times> nat) list \<Rightarrow> cf_key_callbacks option \<Rightarrow> cf_value_callbacks option \<Rightarrow> nat
     \<Rightarrow> dict_env \<Rightarrow> dict_env option" where
  "CFDictionaryCreate ops allocator_ok kvs kcs vcs new env = do {
     env' \<leftarrow> CFDictionaryCreateMutable allocator_ok kcs vcs new env;
     set_values ops new kvs env'
   }"

text \<open>The immutable and the mutable copy differ in the class only.\<close>

definition CFDictionaryCreateCopy :: "key_ops \<Rightarrow> bool \<Rightarrow> nat list \<Rightarrow> nat \<Rightarrow> nat \<Rightarrow> dict_env \<Rightarrow> dict_env option" where
  "CFDictionaryCreateCopy ops allocator_ok order new this env =
     (if \<not> allocator_ok then None
      else Some (init_with_dictionary_common ops order new this (env\<lparr>dicts := (dicts env)(new := NSDict empty_dict)\<rparr>)))"

definition CFDictionaryAddValue :: "key_ops \<Rightarrow> nat \<Rightarrow> nat \<Rightarrow> nat \<Rightarrow> dict_env \<Rightarrow> dict_env option" where
  "CFDictionaryAddValue ops this key val env =
     (if object_for_key ops this key env = 0 then set_object_for_key ops this val key env else Some env)"

definition CFDictionaryReplaceValue :: "key_ops \<Rightarrow> nat \<Rightarrow> nat \<Rightarrow> nat \<Rightarrow> dict_env \<Rightarrow> dict_env option" where
  "CFDictionaryReplaceValue ops this key val env =
     (if object_for_key ops this key env \<noteq> 0 then set_object_for_key ops this val key env else Some env)"

definition CFDictionaryRemoveValue :: "key_ops \<Rightarrow> nat \<Rightarrow> nat \<Rightarrow> dict_env \<Rightarrow> dict_env" where
  "CFDictionaryRemoveValue ops this key env = remove_object_for_key ops this key env"

definition CFDictionaryRemoveAllValues :: "key_ops \<Rightarrow> nat list \<Rightarrow> nat \<Rightarrow> dict_env \<Rightarrow> dict_env" where
  "CFDictionaryRemoveAllValues ops order this env =
     (let (keys_arr, env') = all_keys order this env
      in fold (CFDictionaryRemoveValue ops this) (takeWhile (\<lambda>k. k \<noteq> 0) keys_arr) env')"

definition CFDictionaryGetValue :: "key_ops \<Rightarrow> nat \<Rightarrow> nat \<Rightarrow> dict_env \<Rightarrow> nat" where
  "CFDictionaryGetValue ops this key env = object_for_key ops this key env"

text \<open>The answer, and what is written through the result pointer, if anything.\<close>

definition CFDictionaryGetValueIfPresent :: "key_ops \<Rightarrow> nat \<Rightarrow> nat \<Rightarrow> bool \<Rightarrow> dict_env \<Rightarrow> bool \<times> nat option" where
  "CFDictionaryGetValueIfPresent ops this key value_is_null env =
     (let res = object_for_key ops this key env
      in if res \<noteq> 0 then (True, if value_is_null then None else Some res) else (False, None))"

definition CFDictionaryContainsKey :: "key_ops \<Rightarrow> nat \<Rightarrow> nat \<Rightarrow> dict_env \<Rightarrow> bool" where
  "CFDictionaryContainsKey ops this key env = (object_for_key ops this key env \<noteq> 0)"

definition CFDictionaryContainsValue :: "(nat \<Rightarrow> nat \<Rightarrow> bool) \<Rightarrow> nat list \<Rightarrow> nat \<Rightarrow> nat \<Rightarrow> dict_env \<Rightarrow> bool \<times> dict_env" where
  "CFDictionaryContainsValue equal order this val env =
     (let (values_arr, env') = ns_all_values order this env
      in (list_ex (\<lambda>v. v \<noteq> 0 \<and> equal v val) values_arr, env'))"

text \<open>The conversion to the signed \<open>CFIndex\<close> fails for a large count.\<close>

definition CFDictionaryGetCount :: "nat \<Rightarrow> dict_env \<Rightarrow> nat option" where
  "CFDictionaryGetCount this env =
     (let n = ns_count this env in if n < 2147483648 then Some n else None)"

text \<open>The elements written to the two arrays, either of which may be null.\<close>

definition CFDictionaryGetKeysAndValues ::
    "key_ops \<Rightarrow> nat list \<Rightarrow> bool \<Rightarrow> bool \<Rightarrow> nat \<Rightarrow> dict_env \<Rightarrow> (nat list \<times> nat list) \<times> dict_env" where
  "CFDictionaryGetKeysAndValues ops order keys_null values_null this env =
     (let (keys_arr, env') = all_keys order this env;
          ks = takeWhile (\<lambda>k. k \<noteq> 0) keys_arr
      in ((if keys_null then [] else ks,
           if values_null then [] else map (\<lambda>k. object_for_key ops this k env') ks), env'))"

text \<open>The calls of the applier function.\<close>

definition CFDictionaryApplyFunction :: "key_ops \<Rightarrow> nat list \<Rightarrow> nat \<Rightarrow> nat \<Rightarrow> dict_env \<Rightarrow> (nat \<times> nat \<times> nat) list \<times> dict_env" where
  "CFDictionaryApplyFunction ops order this context_ptr env =
     (let (keys_arr, env') = all_keys order this env
      in (map (\<lambda>key. (key, object_for_key ops this key env', context_ptr)) keys_arr, env'))"

section \<open>The table with callbacks obeys the same laws\<close>

text \<open>
  The contract of the callbacks: equality is an equivalence on which the hash agrees, nil is equal to itself only and
  has hash 0, and the retain callbacks answer the pointer they are given.
\<close>

definition ops_of :: "cf_key_callbacks \<Rightarrow> key_ops" where
  "ops_of kc = \<lparr> guest_hash = cf_hash kc, guest_is_equal = cf_equal_keys kc, guest_copy = (\<lambda>k. k) \<rparr>"

definition callback_contract :: "cf_key_callbacks \<Rightarrow> cf_value_callbacks \<Rightarrow> bool" where
  "callback_contract kc vc \<longleftrightarrow> key_contract (ops_of kc) \<and> (\<forall>a. cf_equal_keys kc a a)
     \<and> (\<forall>a. cf_equal_keys kc 0 a \<longrightarrow> a = 0) \<and> cf_hash kc 0 = 0
     \<and> (\<forall>k r. fst (cf_retain_key kc k r) = k) \<and> (\<forall>v r. fst (cf_retain_value vc v r) = v)"

lemma callbacks_as_ops:
  assumes "callback_contract kc vc"
  shows "key_contract (ops_of kc)" and "cf_hash kc = msg_hash (ops_of kc)"
    and "cf_equal_keys kc = same_key (ops_of kc)" and "msg_copy (ops_of kc) k = k"
proof -
  show "key_contract (ops_of kc)" using assms by (simp add: callback_contract_def)
  show "cf_hash kc = msg_hash (ops_of kc)"
    using assms by (auto simp: callback_contract_def ops_of_def msg_hash_def)
  have "cf_equal_keys kc a b = same_key (ops_of kc) a b" for a b
    using assms by (cases "a = 0") (auto simp: callback_contract_def ops_of_def same_key_def msg_is_equal_def)
  then show "cf_equal_keys kc = same_key (ops_of kc)" by blast
  show "msg_copy (ops_of kc) k = k" by (simp add: ops_of_def msg_copy_def)
qed

lemma cf_lookup_eq:
  assumes "callback_contract kc vc"
  shows "cf_lookup kc d k = dict_lookup (ops_of kc) d k"
  by (simp add: cf_lookup_def dict_lookup_def callbacks_as_ops(2,3) [OF assms] split: option.split)

lemma cf_remove_table:
  assumes "callback_contract kc vc"
  shows "fst (snd (cf_remove kc vc k (d, r))) = fst (dict_remove (ops_of kc) k (d, r'))"
  by (simp add: cf_remove_def dict_remove_def Let_def callbacks_as_ops(2,3) [OF assms] split: option.split prod.split)

lemma retained:
  assumes "callback_contract kc vc"
  obtains rk rv where "cf_retain_key kc k r = (k, rk)" "cf_retain_value vc v rk = (v, rv)"
  using assms that unfolding callback_contract_def by (metis prod.collapse)

text \<open>An insertion is the removal of the key followed by the insertion of a key that is not there.\<close>

lemma cf_insert_table:
  assumes "callback_contract kc vc" "dict_ok (ops_of kc) d"
  shows "\<exists>s'. cf_insert kc vc k v (d, r) = Some s'
    \<and> fst s' = fst (dict_insert (ops_of kc) True k v (fst (dict_remove (ops_of kc) k (d, r')), r''))"
proof -
  obtain rk rv where ret: "cf_retain_key kc k r = (k, rk)" "cf_retain_value vc v rk = (v, rv)"
    by (rule retained [OF assms(1)])
  note as_ops = callbacks_as_ops(2,3) [OF assms(1)] callbacks_as_ops(4) [OF assms(1)]
  let ?h = "msg_hash (ops_of kc) k" and ?same = "\<lambda>c. same_key (ops_of kc) c k"
  show ?thesis
  proof (cases "dict_map d ?h")
    case None
    then show ?thesis using ret as_ops by (simp add: cf_insert_def dict_insert_def dict_remove_def Let_def)
  next
    case (Some cs)
    show ?thesis
    proof (cases "take_first ?same cs")
      case None
      then have "replace_value ?same v cs = None" by (simp add: take_first_None replace_value_None)
      with Some None ret as_ops show ?thesis
        by (simp add: cf_insert_def cf_remove_def dict_insert_def dict_remove_def Let_def)
    next
      case t: (Some p)
      obtain c old cs' where p: "p = ((c, old), cs')" by (metis surj_pair)
      let ?d = "fst (dict_remove (ops_of kc) k (d, r'))"
      have removed: "?d = d\<lparr>dict_map := (dict_map d)(?h \<mapsto> cs'), dict_count := wsub32 (dict_count d) 1\<rparr>"
        using Some t p by (simp add: dict_remove_def Let_def)
      have "same_key (ops_of kc) k k" by (simp add: same_key_def)
      then have "\<not> dict_has (ops_of kc) ?d k"
        using remove_laws [OF callbacks_as_ops(1) [OF assms(1)] assms(2), of k r' k] by blast
      then have "\<forall>e \<in> set cs'. \<not> ?same (fst e)"
        unfolding not_has removed by simp
      then have absent: "replace_value ?same v cs' = None" by (simp only: replace_value_None)
      have n: "wadd32 (wsub32 (dict_count d) 1) 1 = wsub32 (wadd32 (dict_count d) 1) 1"
        by (simp add: wadd32_def wsub32_def mod_simps)
      show ?thesis
        using Some t p ret as_ops absent n unfolding removed
        by (simp add: cf_insert_def cf_remove_def dict_insert_def Let_def)
    qed
  qed
qed

lemma cf_insert_laws:
  assumes "callback_contract kc vc" "dict_ok (ops_of kc) d" "k \<noteq> 0"
  obtains d' r' where "cf_insert kc vc k v (d, r) = Some (d', r')" "dict_ok (ops_of kc) d'"
    "\<And>k'. cf_lookup kc d' k' = (if same_key (ops_of kc) k k' then v else cf_lookup kc d k')"
    "\<And>k'. dict_has (ops_of kc) d' k' = (same_key (ops_of kc) k k' \<or> dict_has (ops_of kc) d k')"
    "dict_count d' = (if dict_has (ops_of kc) d k then dict_count d else wadd32 (dict_count d) 1)"
proof -
  let ?ops = "ops_of kc"
  let ?d = "fst (dict_remove ?ops k (d, r))"
  note contract = callbacks_as_ops(1) [OF assms(1)]
  note removed = remove_laws [OF contract assms(2), of k r]
  obtain d' r' where s': "cf_insert kc vc k v (d, r) = Some (d', r')"
    and d': "d' = fst (dict_insert ?ops True k v (?d, r))"
    using cf_insert_table [OF assms(1,2), of k v r r r] by (metis prod.collapse)
  have ok: "dict_ok ?ops ?d" using removed by blast
  note inserted = insert_laws [OF contract ok assms(3), of v r]
  have refl: "same_key ?ops k k" by (simp add: same_key_def)
  have low: "dict_count d < 4294967296" by (simp add: dict_okD(3) [OF assms(2)])
  have n: "wadd32 (wsub32 (dict_count d) 1) 1 = dict_count d"
    using low by (simp add: wadd32_def wsub32_def mod_simps)
  have has: "\<not> dict_has ?ops ?d k" using removed [of k] refl by blast
  show thesis
  proof (rule that [OF s'])
    show "dict_ok ?ops d'" unfolding d' using inserted by blast
    show "cf_lookup kc d' k' = (if same_key ?ops k k' then v else cf_lookup kc d k')" for k'
      unfolding d' cf_lookup_eq [OF assms(1)] using inserted [of k'] removed [of k'] by simp
    show "dict_has ?ops d' k' = (same_key ?ops k k' \<or> dict_has ?ops d k')" for k'
      unfolding d' using inserted [of k'] removed [of k'] by blast
    show "dict_count d' = (if dict_has ?ops d k then dict_count d else wadd32 (dict_count d) 1)"
      unfolding d' using inserted [of k] removed [of k] has n by simp
  qed
qed

definition cf_put :: "cf_key_callbacks \<Rightarrow> cf_value_callbacks \<Rightarrow> nat \<Rightarrow> nat \<Rightarrow> dict \<times> ledger \<Rightarrow> dict \<times> ledger" where
  "cf_put kc vc k v s = (case cf_insert kc vc k v s of None \<Rightarrow> s | Some s' \<Rightarrow> s')"

interpretation cf: dictionary "\<lambda>s. callback_contract kc vc \<and> dict_ok (ops_of kc) (fst s)" "\<lambda>s. cf_lookup kc (fst s)"
    "\<lambda>s. dict_has (ops_of kc) (fst s)" "\<lambda>s. dict_count (fst s)" "cf_put kc vc"
    "\<lambda>k s. snd (cf_remove kc vc k s)" "same_key (ops_of kc)"
  for kc vc
proof (unfold_locales, goal_cases)
  case (1 s k v)
  then show ?case
    using cf_insert_laws [of kc vc "fst s" k v "snd s"] by (metis cf_put_def option.simps(5) fst_conv prod.collapse)
next
  case (2 s k)
  then show ?case
    using remove_laws [OF callbacks_as_ops(1), of kc vc "fst s" k "snd s"] cf_remove_table [of kc vc k "fst s" "snd s" "snd s"]
    by simp
next
  case (3 s k k')
  then show ?case using contractD(1) callbacks_as_ops(1) by blast
next
  case (4 s k c k')
  then show ?case using contractD(1,3) callbacks_as_ops(1) by blast
next
  case (5 s k v k')
  then show ?case
    using cf_insert_laws [of kc vc "fst s" k v "snd s"] by (metis cf_put_def option.simps(5) fst_conv prod.collapse)
next
  case (6 s k k')
  then show ?case
    using remove_laws [OF callbacks_as_ops(1), of kc vc "fst s" k "snd s" k'] cf_remove_table [of kc vc k "fst s" "snd s" "snd s"]
    by (simp add: cf_lookup_eq [of kc vc])
next
  case (7 s k v k')
  then show ?case
    using cf_insert_laws [of kc vc "fst s" k v "snd s"] by (metis cf_put_def option.simps(5) fst_conv prod.collapse)
next
  case (8 s k k')
  then show ?case
    using remove_laws [OF callbacks_as_ops(1), of kc vc "fst s" k "snd s" k'] cf_remove_table [of kc vc k "fst s" "snd s" "snd s"]
    by simp
next
  case (9 s k v)
  then show ?case
    using cf_insert_laws [of kc vc "fst s" k v "snd s"] by (metis cf_put_def option.simps(5) fst_conv prod.collapse)
next
  case (10 s k)
  then show ?case
    using remove_laws [OF callbacks_as_ops(1), of kc vc "fst s" k "snd s"] cf_remove_table [of kc vc k "fst s" "snd s" "snd s"]
    by simp
qed

end
