(* ===== verification/NS_Dictionary_Props.thy ===== *)
theory NS_Dictionary_Props
  imports NS_Dictionary_Laws
begin

text \<open>
  The properties of dictionaries: what a sequence of operations leaves in the table, who owns the references, and
  what the copies contain.
\<close>

section \<open>Sequences of operations\<close>

definition run_ops :: "key_ops \<Rightarrow> dict_op list \<Rightarrow> dict \<times> ledger \<Rightarrow> dict \<times> ledger" where
  "run_ops ops trace s = fold (perform (dict_insert ops True) (dict_remove ops)) trace s"

lemma run_ops_ok:
  assumes "key_contract ops" "dict_ok ops (fst s)" "\<forall>opn \<in> set trace. op_key opn \<noteq> 0"
  shows "dict_ok ops (fst (run_ops ops trace s))"
    and "dict_lookup ops (fst (run_ops ops trace s)) k = last_bound (same_key ops) trace k (dict_lookup ops (fst s) k)"
  using ns.performed [of ops s trace k] assms by (simp_all add: run_ops_def)

lemma entries_differ:
  assumes contract: "key_contract ops" and d: "dict_ok ops d" and "distinct order"
  shows "sorted_wrt (\<lambda>p q. \<not> same_key ops (fst p) (fst q)) (entries order d)"
    and "e \<in> set (entries order d) \<Longrightarrow> fst e \<noteq> 0"
proof -
  show "sorted_wrt (\<lambda>p q. \<not> same_key ops (fst p) (fst q)) (entries order d)"
    using assms(3)
  proof (induction order)
    case Nil
    then show ?case by (simp add: entries_buckets)
  next
    case (Cons h hs)
    have "\<not> same_key ops (fst p) (fst q)" if "p \<in> set (bucket d h)" "h' \<in> set hs" "q \<in> set (bucket d h')" for p q h'
    proof
      assume "same_key ops (fst p) (fst q)"
      then have "msg_hash ops (fst p) = msg_hash ops (fst q)" by (rule contractD(2) [OF contract])
      moreover have "msg_hash ops (fst p) = h" "msg_hash ops (fst q) = h'"
        using that dict_okD(2) [OF d] by (simp_all add: bucket_ok_def)
      ultimately show False using that Cons.prems by auto
    qed
    moreover have "sorted_wrt (\<lambda>p q. \<not> same_key ops (fst p) (fst q)) (bucket d h)"
      using dict_okD(2) [OF d, of h] by (simp add: bucket_ok_def)
    ultimately show ?case using Cons by (auto simp: entries_buckets sorted_wrt_append)
  qed
  show "fst e \<noteq> 0" if "e \<in> set (entries order d)"
    using that dict_okD(2) [OF d] by (auto simp: entries_buckets bucket_ok_def)
qed

lemma lookup_entries:
  assumes contract: "key_contract ops" and d: "dict_ok ops d" and o: "table_order order d"
  shows "collision_value (\<lambda>c. same_key ops c k) (entries order d) = dict_lookup ops d k"
proof -
  let ?p = "\<lambda>c. same_key ops c k" and ?h = "msg_hash ops k"
  have other: "\<forall>e \<in> set (bucket d h). \<not> ?p (fst e)" if "h \<noteq> ?h" for h
  proof
    fix e assume e: "e \<in> set (bucket d h)"
    then have "msg_hash ops (fst e) = h" using dict_okD(2) [OF d, of h] by (simp add: bucket_ok_def)
    with that contractD(2) [OF contract, of "fst e" k] show "\<not> ?p (fst e)" by blast
  qed
  have "collision_value ?p (entries hs d) = (if ?h \<in> set hs then collision_value ?p (bucket d ?h) else 0)" for hs
  proof (induction hs)
    case Nil
    then show ?case by (simp add: entries_buckets)
  next
    case (Cons h hs)
    show ?case
    proof (cases "h = ?h")
      case True
      with Cons show ?thesis
        by (cases "\<exists>e \<in> set (bucket d ?h). ?p (fst e)")
          (simp_all add: entries_buckets collision_value_append collision_value_none)
    next
      case False
      from Cons other [OF False] False show ?thesis
        by (simp add: entries_buckets collision_value_append)
    qed
  qed
  moreover have "bucket d ?h = []" if "?h \<notin> set order"
  proof -
    have "dict_map d ?h = None" using that o by (simp add: table_order_def domIff)
    then show ?thesis by (simp add: bucket_def)
  qed
  ultimately show ?thesis by (simp add: dict_lookup_bucket)
qed

text \<open>
  C16: A table filled by any sequence of insertions and removals answers each key with the value last bound to an
  equal key, its entries have pairwise different keys in whatever order they are yielded, and its count is
  their number.
\<close>

theorem dictionary_remembers_last_binding:
  assumes "key_contract ops" "\<forall>opn \<in> set trace. op_key opn \<noteq> 0"
    and "run_ops ops trace (empty_dict, r) = (d, r')" and "table_order order d"
  shows "dict_lookup ops d k = last_bound (same_key ops) trace k 0
    \<and> dict_count d = length (entries order d) mod 4294967296
    \<and> sorted_wrt (\<lambda>p q. \<not> same_key ops (fst p) (fst q)) (entries order d)
    \<and> collision_value (\<lambda>c. same_key ops c k) (entries order d) = dict_lookup ops d k"
proof -
  have d: "dict_ok ops d" and l: "dict_lookup ops d k = last_bound (same_key ops) trace k 0"
    using run_ops_ok(1) [of ops "(empty_dict, r)" trace] run_ops_ok(2) [of ops "(empty_dict, r)" trace k] assms by (simp_all add: empty_dict_ok empty_dict_facts)
  have "total length d = length (entries order d)"
    by (rule total_entries [OF assms(4)]) simp_all
  with d l assms(4) entries_differ(1) [OF assms(1) d] lookup_entries [OF assms(1) d assms(4)]
  show ?thesis by (simp add: dict_okD(3) [OF d] table_order_def)
qed

section \<open>Ownership\<close>

text \<open>How often the table holds an object, as a key or as a value.\<close>

definition held_in :: "nat \<Rightarrow> (nat \<times> nat) list \<Rightarrow> nat" where
  "held_in z cs = count_list (map fst cs) z + count_list (map snd cs) z"

text \<open>
  The references nobody gives up: the copy (or the retained key) that an insertion over an equal key takes.
\<close>

fun leaked_keys :: "key_ops \<Rightarrow> dict_op list \<Rightarrow> dict \<times> ledger \<Rightarrow> nat list" where
  "leaked_keys ops [] s = []"
| "leaked_keys ops (Put k v # rest) s =
     (if dict_has ops (fst s) k then [msg_copy ops k] else [])
       @ leaked_keys ops rest (dict_insert ops True k v s)"
| "leaked_keys ops (Del k # rest) s = leaked_keys ops rest (dict_remove ops k s)"

lemma held_in_append: "held_in z (xs @ ys) = held_in z xs + held_in z ys"
  by (simp add: held_in_def)

lemma held_in_simps [simp]:
  "held_in z [] = 0"
  "held_in z (e # rest) = (if fst e = z then 1 else 0) + (if snd e = z then 1 else 0) + held_in z rest"
  by (simp_all add: held_in_def)

lemma retain_at: "z \<noteq> 0 \<Longrightarrow> retain_id x r z = r z + (if x = z then 1 else 0)"
  by (simp add: retain_id_def)

lemma release_at: "z \<noteq> 0 \<Longrightarrow> release_id x r z = r z - (if x = z then 1 else 0)"
  by (simp add: release_id_def)

lemma nil_uncounted: "retain_id x r 0 = r 0" "release_id x r 0 = r 0"
  by (simp_all add: retain_id_def release_id_def)

lemma insert_ledger:
  assumes contract: "key_contract ops" and d: "dict_ok ops d" and k: "k \<noteq> 0" and z: "z \<noteq> 0"
    and s': "dict_insert ops True k v (d, r) = (d', r')"
  shows "r' z = r z + int (total (held_in z) d') - int (total (held_in z) d)
      + int (count_list (if dict_has ops d k then [msg_copy ops k] else []) z)"
  using contract k
proof (cases rule: dict_insert_cases [of ops k d v r])
  case absent
  have "total (held_in z) d' + held_in z (bucket d (msg_hash ops k))
      = total (held_in z) d + held_in z (bucket d (msg_hash ops k) @ [(msg_copy ops k, v)])"
    by (rule total_update [OF dict_okD(1) [OF d]]) (use absent(2) s' in auto)
  with absent s' z show ?thesis by (auto simp: held_in_append retain_at)
next
  case (present xs c old ys)
  have "total (held_in z) d' + held_in z (bucket d (msg_hash ops k))
      = total (held_in z) d + held_in z (xs @ (c, v) # ys)"
    by (rule total_update [OF dict_okD(1) [OF d]]) (use present(5) s' in auto)
  with present s' z show ?thesis by (auto simp: held_in_append retain_at release_at)
qed

lemma remove_ledger:
  assumes d: "dict_ok ops d" and z: "z \<noteq> 0" and s': "dict_remove ops k (d, r) = (d', r')"
  shows "r' z = r z + int (total (held_in z) d') - int (total (held_in z) d)"
proof (cases rule: dict_remove_cases [of ops d k r])
  case absent
  with s' show ?thesis by simp
next
  case (present xs c old ys)
  have "total (held_in z) d' + held_in z (bucket d (msg_hash ops k)) = total (held_in z) d + held_in z (xs @ ys)"
    by (rule total_update [OF dict_okD(1) [OF d]]) (use present(4) s' in auto)
  with present s' z show ?thesis by (auto simp: held_in_append release_at)
qed

lemma run_ledger:
  assumes "key_contract ops" "dict_ok ops (fst s)" "\<forall>opn \<in> set trace. op_key opn \<noteq> 0" "z \<noteq> 0"
  shows "snd (run_ops ops trace s) z = snd s z + int (total (held_in z) (fst (run_ops ops trace s)))
      - int (total (held_in z) (fst s)) + int (count_list (leaked_keys ops trace s) z)"
  using assms(2,3)
proof (induction trace arbitrary: s)
  case Nil
  then show ?case by (simp add: run_ops_def)
next
  case (Cons opn rest)
  obtain d r where s: "s = (d, r)" by (cases s)
  show ?case
  proof (cases opn)
    case (Put k v)
    obtain d' r' where s': "dict_insert ops True k v (d, r) = (d', r')" by (metis surj_pair)
    have k: "k \<noteq> 0" using Cons.prems(2) Put by simp
    have d: "dict_ok ops d" using Cons.prems(1) s by simp
    have "dict_ok ops (fst (d', r'))" using insert_laws [OF assms(1) d k, of v r] s' by simp
    from Cons.IH [OF this] Cons.prems(2)
    have "snd (run_ops ops rest (d', r')) z = r' z + int (total (held_in z) (fst (run_ops ops rest (d', r'))))
      - int (total (held_in z) d') + int (count_list (leaked_keys ops rest (d', r')) z)" by simp
    with insert_ledger [OF assms(1) d k assms(4) s'] show ?thesis
      using s s' Put by (simp add: run_ops_def)
  next
    case (Del k)
    obtain d' r' where s': "dict_remove ops k (d, r) = (d', r')" by (metis surj_pair)
    have d: "dict_ok ops d" using Cons.prems(1) s by simp
    have "dict_ok ops (fst (d', r'))" using remove_laws [OF assms(1) d, of k r] s' by simp
    from Cons.IH [OF this] Cons.prems(2)
    have "snd (run_ops ops rest (d', r')) z = r' z + int (total (held_in z) (fst (run_ops ops rest (d', r'))))
      - int (total (held_in z) d') + int (count_list (leaked_keys ops rest (d', r')) z)" by simp
    with remove_ledger [OF d assms(4) s'] show ?thesis
      using s s' Del by (simp add: run_ops_def)
  qed
qed

lemma release_ledger:
  assumes "table_order order d" "z \<noteq> 0"
  shows "dict_release order d r z = r z - int (total (held_in z) d)"
proof -
  have "fold (\<lambda>(key, v) r. release_id v (release_id key r)) es r z = r z - int (held_in z es)" for es r
    by (induction es arbitrary: r) (auto simp: release_at assms(2))
  moreover have "total (held_in z) d = held_in z (entries order d)"
    by (rule total_entries [OF assms(1)]) (simp_all add: held_in_append)
  ultimately show ?thesis by (simp add: dict_release_def)
qed

lemma nil_unowned:
  "snd (dict_insert ops b k v s) 0 = snd s 0"
  "snd (dict_remove ops k s) 0 = snd s 0"
  "dict_release order d r 0 = r 0"
proof -
  show "snd (dict_insert ops b k v s) 0 = snd s 0"
    by (simp add: dict_insert_def Let_def nil_uncounted split: option.split prod.split)
  show "snd (dict_remove ops k s) 0 = snd s 0"
    by (simp add: dict_remove_def Let_def nil_uncounted split: option.split prod.split)
  have "fold (\<lambda>(key, v) r. release_id v (release_id key r)) es r 0 = r 0" for es r
    by (induction es arbitrary: r) (auto simp: nil_uncounted)
  then show "dict_release order d r 0 = r 0" by (simp add: dict_release_def)
qed

lemma run_nil:
  assumes "key_contract ops" "\<forall>opn \<in> set trace. op_key opn \<noteq> 0"
  shows "snd (run_ops ops trace s) 0 = snd s 0 \<and> 0 \<notin> set (leaked_keys ops trace s)"
  using assms(2)
proof (induction trace arbitrary: s)
  case Nil
  then show ?case by (simp add: run_ops_def)
next
  case (Cons opn rest)
  then show ?case
    by (cases opn) (simp_all add: run_ops_def nil_unowned contractD(4) [OF assms(1)])
qed

text \<open>
  C19: Deallocating a dictionary after any sequence of insertions and removals gives back every reference it took,
  except one to the copied key for each insertion over a key that was already there.
\<close>

theorem dictionary_leaks_replaced_keys:
  assumes "key_contract ops" "\<forall>opn \<in> set trace. op_key opn \<noteq> 0"
    and "run_ops ops trace (empty_dict, r) = (d, r')" and "table_order order d"
  shows "dict_release order d r' z = r z + int (count_list (leaked_keys ops trace (empty_dict, r)) z)"
proof (cases "z = 0")
  case True
  with run_nil [OF assms(1,2), of "(empty_dict, r)"] assms(3) show ?thesis
    by (simp add: nil_unowned count_list_0_iff)
next
  case False
  have "total (held_in z) empty_dict = 0" by (simp add: total_def)
  with run_ledger [OF assms(1) _ assms(2) False, of "(empty_dict, r)"] assms(3) release_ledger [OF assms(4) False]
  show ?thesis by (simp add: empty_dict_ok)
qed


section \<open>Copies\<close>

lemma put_table_simps [simp]:
  "table_of (put_table d x) = d"
  "put_table d (put_table d' x) = put_table d x"
  "put_table (table_of x) x = x"
  by (cases x; simp)+

lemma on_table_twice: "on_table this g (on_table this f env) = on_table this (\<lambda>s. g (f s)) env"
  by (simp add: on_table_def Let_def)

lemma set_objects:
  assumes "\<forall>e \<in> set es. fst e \<noteq> 0 \<and> snd e \<noteq> 0"
  shows "fold (\<lambda>(k, v). ns_set_object ops this v k) es env = on_table this (insert_all ops es) env"
  using assms
proof (induction es arbitrary: env)
  case Nil
  then show ?case by (simp add: insert_all_def on_table_def)
next
  case (Cons e es)
  then show ?case by (cases e) (simp add: ns_set_object_def on_table_twice insert_all_def)
qed

lemma value_of_entry:
  assumes "sorted_wrt (\<lambda>p q. \<not> same_key ops (fst p) (fst q)) es" "e \<in> set es"
  shows "collision_value (\<lambda>c. same_key ops c (fst e)) es = snd e"
  using assms
proof (induction es)
  case Nil
  then show ?case by simp
next
  case (Cons a es)
  obtain k v where a: "a = (k, v)" by (cases a)
  show ?case
  proof (cases "e = a")
    case True
    with a show ?thesis by (simp add: same_key_def)
  next
    case False
    with Cons a show ?thesis by auto
  qed
qed

lemma copied_table:
  assumes contract: "key_contract ops" and d: "dict_ok ops d" and o: "table_order order d"
  shows "dict_ok ops (fst (insert_all ops (entries order d) (empty_dict, r)))
    \<and> dict_lookup ops (fst (insert_all ops (entries order d) (empty_dict, r))) k = dict_lookup ops d k
    \<and> dict_count (fst (insert_all ops (entries order d) (empty_dict, r))) = dict_count d"
proof -
  let ?s = "fold (\<lambda>(k, v). dict_insert ops True k v) (entries order d) (empty_dict, r)"
  have dist: "distinct order" using o by (simp add: table_order_def)
  have s0: "key_contract ops \<and> dict_ok ops (fst (empty_dict, r))" using contract by (simp add: empty_dict_ok)
  have nz: "\<forall>e \<in> set (entries order d). fst e \<noteq> 0" using entries_differ(2) [OF contract d dist] by blast
  then have fresh: "\<forall>e \<in> set (entries order d). fst e \<noteq> 0 \<and> \<not> dict_has ops (fst (empty_dict, r)) (fst e)"
    by (simp add: empty_dict_facts)
  have none: "\<forall>k. dict_lookup ops (fst (empty_dict, r)) k = 0" by (simp add: empty_dict_facts)
  note sorted = entries_differ(1) [OF contract d dist]
  from ns.put_fresh [OF s0 fresh sorted] have
    ok': "dict_ok ops (fst ?s)" and n: "dict_count (fst ?s) mod 4294967296 = length (entries order d) mod 4294967296"
    by (simp_all add: empty_dict_def)
  have "total length d = length (entries order d)" by (rule total_entries [OF o]) simp_all
  with n dict_okD(3) [OF ok'] dict_okD(3) [OF d] have "dict_count (fst ?s) = dict_count d" by simp
  moreover have "dict_lookup ops (fst ?s) k = dict_lookup ops d k"
    using ns.put_fresh_lookup [OF s0 nz none sorted, of k] lookup_entries [OF contract d o, of k] by simp
  ultimately show ?thesis using ok' by (simp add: insert_all_def)
qed

definition copies :: "key_ops \<Rightarrow> nat list \<Rightarrow> nat \<Rightarrow> nat \<Rightarrow> dict_env \<Rightarrow> dict_env list" where
  "copies ops order new this env =
     [snd (mutable_dictionary_copy ops order new this env), snd (mutable_copy_with_zone ops order new this env),
      init_with_dictionary_common ops order new this env]"

lemma copy_tables:
  assumes contract: "key_contract ops" and d: "dict_ok ops (table_of (dicts env this))"
    and o: "table_order order (table_of (dicts env this))"
    and vs: "\<forall>e \<in> set (entries order (table_of (dicts env this))). snd e \<noteq> 0" and new: "this \<noteq> 0" "new \<noteq> this"
    and copy: "copy \<in> set (copies ops order new this env)"
  shows "table_of (dicts copy new) = fst (insert_all ops (entries order (table_of (dicts env this))) (empty_dict, refs env))
    \<and> dicts copy this = dicts env this"
proof -
  let ?d = "table_of (dicts env this)"
  have dist: "distinct order" using o by (simp add: table_order_def)
  have nz: "\<forall>e \<in> set (entries order ?d). fst e \<noteq> 0 \<and> snd e \<noteq> 0"
    using entries_differ(2) [OF contract d dist] vs by blast
  have "snd (mutable_copy_with_zone ops order new this env)
      = on_table new (insert_all ops (entries order ?d)) (env\<lparr>dicts := (dicts env)(new := NSDict empty_dict)\<rparr>)"
    using set_objects [OF nz] by (simp add: mutable_copy_with_zone_def Let_def)
  moreover have "(k, dict_lookup ops ?d k) = e" if "e \<in> set (entries order ?d)" "k = fst e" for e k
    using value_of_entry [OF entries_differ(1) [OF contract d dist] that(1)] lookup_entries [OF contract d o, of k] that
    by (cases e) simp
  then have "map (\<lambda>k. (k, dict_lookup ops ?d k)) (iter_keys order ?d) = entries order ?d"
    by (simp add: iter_keys_def comp_def map_idI)
  ultimately show ?thesis
    using copy new
    by (auto simp: copies_def mutable_dictionary_copy_def dict_from_keys_and_objects_def Let_def on_table_def
        init_with_dictionary_common_def set_table_def empty_dict_facts)
qed

text \<open>
  C17: take an \<open>NSDictionary\<close> or \<open>NSMutableDictionary\<close> whose keys meet the contract of hashing and equality
  and which holds no nil value (the initialiser from C arrays can put one in).  A copy made of it by the copy or
  mutable copy of a mutable dictionary, by a mutable copy of an immutable one or by \<open>initWithDictionary:\<close> answers
  every key as the original does, whatever order the table yields its entries in, has the same count and is equal to
  it by \<open>isEqualToDictionary:\<close>, and leaves the original as it was.  Copies of Core Foundation dictionaries made with
  other callbacks are not meant here.
\<close>

theorem dictionary_copies_agree:
  assumes "key_contract ops" "dict_ok ops (table_of (dicts env this))"
    and "table_order order (table_of (dicts env this))"
    and "\<forall>e \<in> set (entries order (table_of (dicts env this))). snd e \<noteq> 0"
    and "this \<noteq> 0" "new \<noteq> 0" "new \<noteq> this" and "copy \<in> set (copies ops order new this env)" and "\<forall>x. equal x x"
  shows "ns_object_for_key ops new k copy = ns_object_for_key ops this k env
    \<and> ns_count new copy = ns_count this env
    \<and> fst (is_equal_to_dictionary ops equal order this new copy)
    \<and> dicts copy this = dicts env this"
proof -
  let ?d = "table_of (dicts env this)"
  note tables = copy_tables [OF assms(1-5,7,8)]
  note table = copied_table [OF assms(1-3), of "refs env"]
  have look: "ns_object_for_key ops new k copy = dict_lookup ops ?d k" for k
    using tables table [of k] by (simp add: ns_object_for_key_def)
  have n: "ns_count new copy = dict_count ?d" using tables table by (simp add: ns_count_def)
  have dist: "distinct order" using assms(3) by (simp add: table_order_def)
  have val: "dict_lookup ops ?d (fst e) \<noteq> 0" if "e \<in> set (entries order ?d)" for e
    using value_of_entry [OF entries_differ(1) [OF assms(1,2) dist] that] lookup_entries [OF assms(1-3), of "fst e"]
      assms(4) that by simp
  have "fst (is_equal_to_dictionary ops equal order this new copy)"
    using n look tables assms(6,9) val
    by (auto simp: is_equal_to_dictionary_def ns_count_def all_keys_common_def Let_def autoreleased_def
        ns_object_for_key_def iter_keys_def list_all_iff)
  with look n tables show ?thesis by (simp add: ns_object_for_key_def ns_count_def)
qed

section \<open>Sample dictionaries\<close>

lemma nsobject_contract: "key_contract nsobject_ops"
  by (simp add: key_contract_def nsobject_ops_def same_key_def msg_is_equal_def msg_hash_def)

text \<open>Keys 3 and 7 share a hash value, 7 and 107 are equal, and a copy of an object is the object below 100.\<close>

definition sample_ops :: key_ops where
  "sample_ops = \<lparr> guest_hash = (\<lambda>k. k mod 4), guest_is_equal = (\<lambda>a b. b \<noteq> 0 \<and> a mod 100 = b mod 100),
     guest_copy = (\<lambda>k. if k mod 100 = 0 then k else k mod 100) \<rparr>"

lemma sample_same:
  "same_key sample_ops a b \<longleftrightarrow> a = b \<or> a \<noteq> 0 \<and> b \<noteq> 0 \<and> a mod 100 = b mod 100"
  by (simp add: sample_ops_def same_key_def msg_is_equal_def)

lemma sample_ops_contract: "key_contract sample_ops"
  unfolding key_contract_def
proof (intro conjI allI impI)
  fix a b assume s: "same_key sample_ops a b"
  then show "same_key sample_ops b a" unfolding sample_same by metis
  have "a mod 100 = b mod 100" using s unfolding sample_same by metis
  then have "a mod 100 mod 4 = b mod 100 mod 4" by (simp only:)
  then have "a mod 4 = b mod 4" by (simp add: mod_mod_cancel)
  then show "msg_hash sample_ops a = msg_hash sample_ops b"
    using s unfolding sample_same by (simp add: msg_hash_def sample_ops_def) (metis mod_0)
next
  fix a b c assume "same_key sample_ops a b" "same_key sample_ops b c"
  then show "same_key sample_ops a c" unfolding sample_same by metis
next
  fix k :: nat assume k: "k \<noteq> 0"
  show "guest_copy sample_ops k \<noteq> 0" using k by (simp add: sample_ops_def)
  show "same_key sample_ops (guest_copy sample_ops k) k"
    unfolding sample_same using k by (simp add: sample_ops_def)
qed

definition sample_trace :: "dict_op list" where
  "sample_trace = [Put 3 10, Put 107 20, Put 7 30, Put 6 40, Del 3]"

definition sample_dict :: dict where
  "sample_dict = \<lparr> dict_map = [2 \<mapsto> [(6, 40)], 3 \<mapsto> [(7, 30)]], dict_count = 2 \<rparr>"


definition sample_ledger :: ledger where
  "sample_ledger = (\<lambda>_. 0)(7 := 2, 30 := 1, 20 := 0, 6 := 1, 40 := 1, 3 := 0, 10 := 0)"

lemma sample_run: "run_ops sample_ops sample_trace (empty_dict, \<lambda>_. 0) = (sample_dict, sample_ledger)"
  by (simp add: run_ops_def sample_trace_def dict_insert_def dict_remove_def Let_def sample_ops_def msg_copy_def
      msg_hash_def retain_id_def release_id_def empty_dict_def same_key_def msg_is_equal_def wadd32_def wsub32_def
      sample_dict_def sample_ledger_def)

lemma sample_keys: "\<forall>opn \<in> set sample_trace. op_key opn \<noteq> 0"
  by (simp add: sample_trace_def)

lemma sample_order: "table_order [3, 2] sample_dict"
  by (auto simp: table_order_def sample_dict_def)

lemma sample_entries: "entries [3, 2] sample_dict = [(7, 30), (6, 40)]"
  by (simp add: entries_def sample_dict_def)

lemma sample_dict_ok: "dict_ok sample_ops sample_dict"
  using run_ops_ok(1) [OF sample_ops_contract _ sample_keys, of "(empty_dict, \<lambda>_. 0)"]
  by (simp add: sample_run empty_dict_ok)

theorem dictionary_remembers_last_binding_witness:
  "dict_lookup sample_ops sample_dict 107 = 30 \<and> dict_lookup sample_ops sample_dict 3 = 0 \<and> dict_count sample_dict = 2"
  using dictionary_remembers_last_binding [OF sample_ops_contract sample_keys sample_run sample_order, of 107]
    dictionary_remembers_last_binding [OF sample_ops_contract sample_keys sample_run sample_order, of 3]
  by (simp add: sample_entries sample_trace_def sample_same)

theorem dictionary_leaks_replaced_keys_witness:
  "dict_release [3, 2] sample_dict sample_ledger 7 = 1 \<and> dict_release [3, 2] sample_dict sample_ledger 30 = 0"
proof -
  have "leaked_keys sample_ops sample_trace (empty_dict, \<lambda>_. 0) = [7]"
    by (simp add: sample_trace_def dict_insert_def dict_remove_def Let_def sample_ops_def msg_copy_def
        msg_hash_def empty_dict_def same_key_def msg_is_equal_def dict_has_def bucket_def)
  with dictionary_leaks_replaced_keys [OF sample_ops_contract sample_keys sample_run sample_order, of 7]
    dictionary_leaks_replaced_keys [OF sample_ops_contract sample_keys sample_run sample_order, of 30]
  show ?thesis by simp
qed

definition sample_env :: dict_env where
  "sample_env = \<lparr> dicts = (\<lambda>_. NSDict empty_dict)(9 := NSDict sample_dict), refs = sample_ledger, pool = [] \<rparr>"

theorem dictionary_copies_agree_witness:
  "ns_object_for_key sample_ops 2 7 (init_with_dictionary_common sample_ops [3, 2] 2 9 sample_env) = 30
   \<and> ns_count 2 (snd (mutable_copy_with_zone sample_ops [3, 2] 2 9 sample_env)) = 2"
proof -
  have t: "table_of (dicts sample_env 9) = sample_dict" by (simp add: sample_env_def)
  have agree: "ns_object_for_key sample_ops 2 7 copy = ns_object_for_key sample_ops 9 7 sample_env
      \<and> ns_count 2 copy = ns_count 9 sample_env"
    if "copy \<in> set (copies sample_ops [3, 2] 2 9 sample_env)" for copy
    using dictionary_copies_agree [of sample_ops sample_env 9 "[3, 2]" 2 copy "(=)" 7] that
    by (simp add: t sample_ops_contract sample_dict_ok sample_order sample_entries)
  have "ns_object_for_key sample_ops 9 7 sample_env = 30" "ns_count 9 sample_env = 2"
    by (simp_all add: ns_object_for_key_def ns_count_def t dict_lookup_def sample_dict_def sample_ops_def
        msg_hash_def same_key_def)
  with agree show ?thesis by (simp add: copies_def)
qed

end
