(* ===== verification/CF_Dictionary_Props.thy ===== *)
theory CF_Dictionary_Props
  imports CF_Dictionary NS_Dictionary_Props
begin

text \<open>
  The properties of \<open>CFDictionary\<close>: what a sequence of calls leaves in the dictionary and in the ledger, and what a
  copy of a dictionary without callbacks contains.
\<close>

section \<open>Sequences of calls\<close>

datatype cf_op = SetValue nat nat | AddValue nat nat | ReplaceValue nat nat | RemoveValue nat

fun cf_call :: "key_ops \<Rightarrow> nat \<Rightarrow> cf_op \<Rightarrow> dict_env \<Rightarrow> dict_env option" where
  "cf_call ops this (SetValue key val) env = CFDictionarySetValue ops this key val env"
| "cf_call ops this (AddValue key val) env = CFDictionaryAddValue ops this key val env"
| "cf_call ops this (ReplaceValue key val) env = CFDictionaryReplaceValue ops this key val env"
| "cf_call ops this (RemoveValue key) env = Some (CFDictionaryRemoveValue ops this key env)"

fun cf_calls :: "key_ops \<Rightarrow> nat \<Rightarrow> cf_op list \<Rightarrow> dict_env \<Rightarrow> dict_env option" where
  "cf_calls ops this [] env = Some env"
| "cf_calls ops this (opn # rest) env = do { env' \<leftarrow> cf_call ops this opn env; cf_calls ops this rest env' }"

text \<open>What the calls mean: a function from keys to values, 0 where there is none; calls with NULL change nothing.\<close>

definition spec_set :: "(nat \<Rightarrow> nat \<Rightarrow> bool) \<Rightarrow> nat \<Rightarrow> nat \<Rightarrow> (nat \<Rightarrow> nat) \<Rightarrow> nat \<Rightarrow> nat" where
  "spec_set same key val f = (if key = 0 \<or> val = 0 then f else (\<lambda>k. if same key k then val else f k))"

fun spec_call :: "(nat \<Rightarrow> nat \<Rightarrow> bool) \<Rightarrow> cf_op \<Rightarrow> (nat \<Rightarrow> nat) \<Rightarrow> nat \<Rightarrow> nat" where
  "spec_call same (SetValue key val) f = spec_set same key val f"
| "spec_call same (AddValue key val) f = (if f key = 0 then spec_set same key val f else f)"
| "spec_call same (ReplaceValue key val) f = (if f key \<noteq> 0 then spec_set same key val f else f)"
| "spec_call same (RemoveValue key) f = (if key = 0 then f else (\<lambda>k. if same key k then 0 else f k))"

definition cf_env :: "nat \<Rightarrow> cf_key_callbacks \<Rightarrow> cf_value_callbacks \<Rightarrow> dict_env \<Rightarrow> dict \<times> ledger \<Rightarrow> dict_env" where
  "cf_env this kc vc env s = env\<lparr>dicts := (dicts env)(this := CFDict (fst s) kc vc), refs := snd s\<rparr>"

lemma cf_env_simps [simp]:
  "dicts (cf_env this kc vc env s) this = CFDict (fst s) kc vc"
  "refs (cf_env this kc vc env s) = snd s"
  "cf_env this kc vc (cf_env this kc vc env s) s' = cf_env this kc vc env s'"
  by (simp_all add: cf_env_def)

lemma cf_env_self: "dicts env this = CFDict d kc vc \<Longrightarrow> cf_env this kc vc env (d, refs env) = env"
  by (simp add: cf_env_def fun_upd_idem)

section \<open>The ledger under the callbacks for objects\<close>

lemma object_callback_effects:
  "cf_retain_key (kCFTypeDictionaryKeyCallBacks hash equal) x r = (x, retain_id x r)"
  "cf_release_key (kCFTypeDictionaryKeyCallBacks hash equal) x r = release_id x r"
  "cf_retain_value kCFTypeDictionaryValueCallBacks x r = (x, retain_id x r)"
  "cf_release_value kCFTypeDictionaryValueCallBacks x r = release_id x r"
  by (simp_all add: kCFTypeDictionaryKeyCallBacks_def kCFTypeDictionaryValueCallBacks_def cf_retain_key_def
      cf_release_key_def cf_retain_value_def cf_release_value_def CFRetain_def CFRelease_def retain_id_def release_id_def)

lemma cf_remove_object:
  assumes "callback_contract (kCFTypeDictionaryKeyCallBacks hash equal) kCFTypeDictionaryValueCallBacks"
  shows "snd (cf_remove (kCFTypeDictionaryKeyCallBacks hash equal) kCFTypeDictionaryValueCallBacks k s)
    = dict_remove (ops_of (kCFTypeDictionaryKeyCallBacks hash equal)) k s"
  by (simp add: cf_remove_def dict_remove_def Let_def callbacks_as_ops(2,3) [OF assms] object_callback_effects
      split: option.split prod.split)

lemma cf_insert_ledger:
  assumes c: "callback_contract (kCFTypeDictionaryKeyCallBacks hash equal) kCFTypeDictionaryValueCallBacks"
    and d: "dict_ok (ops_of (kCFTypeDictionaryKeyCallBacks hash equal)) d" and k: "k \<noteq> 0" and z: "z \<noteq> 0"
    and s': "cf_insert (kCFTypeDictionaryKeyCallBacks hash equal) kCFTypeDictionaryValueCallBacks k v (d, r)
      = Some (d', r')"
  shows "r' z = r z + int (total (held_in z) d') - int (total (held_in z) d)"
proof -
  let ?kc = "kCFTypeDictionaryKeyCallBacks hash equal" and ?vc = kCFTypeDictionaryValueCallBacks
  let ?ops = "ops_of ?kc"
  let ?r = "retain_id v (retain_id k r)"
  note contract = callbacks_as_ops(1) [OF c]
  obtain d1 r1 where rem: "dict_remove ?ops k (d, ?r) = (d1, r1)" by (metis surj_pair)
  have d': "d' = fst (dict_insert ?ops True k v (d1, ?r))"
    using cf_insert_table [OF c d, of k v r ?r ?r] s' rem by auto
  have bump: "snd (dict_remove ?ops k (d\<lparr>dict_count := n\<rparr>, ?r)) = snd (dict_remove ?ops k (d, ?r))" for n
    by (simp add: dict_remove_def Let_def split: option.split prod.split)
  have r': "r' = r1 \<or> r' = ?r \<and> dict_map d (msg_hash ?ops k) = None"
    using s' bump rem cf_remove_object [OF c, of k]
    by (auto simp: cf_insert_def Let_def object_callback_effects callbacks_as_ops(2) [OF c]
        split: option.splits prod.splits) (metis snd_conv)+
  moreover have "dict_map d (msg_hash ?ops k) = None \<Longrightarrow> r1 = ?r"
    using rem by (simp add: dict_remove_def Let_def)
  ultimately have r': "r' = r1" by blast
  have d1: "dict_ok ?ops d1" and gone: "\<not> dict_has ?ops d1 k"
    using remove_laws [OF contract d, of k ?r k] rem by (simp_all add: same_key_def)
  obtain d2 r2 where ins: "dict_insert ?ops True k v (d1, ?r) = (d2, r2)" by (metis surj_pair)
  from contract k have "r2 = retain_id v (retain_id k ?r)"
  proof (cases rule: dict_insert_cases [of ?ops k d1 v ?r])
    case absent
    with ins show ?thesis by (simp add: callbacks_as_ops(4) [OF c])
  next
    case (present xs c old ys)
    with gone show ?thesis by simp
  qed
  with insert_ledger [OF contract d1 k z ins] gone ins d' remove_ledger [OF d z rem] r' z
  show ?thesis by (simp add: retain_at)
qed

lemma cf_set_step:
  assumes c: "callback_contract (kCFTypeDictionaryKeyCallBacks hash equal) kCFTypeDictionaryValueCallBacks"
    and d: "dict_ok (ops_of (kCFTypeDictionaryKeyCallBacks hash equal)) d"
    and here: "dicts env this = CFDict d (kCFTypeDictionaryKeyCallBacks hash equal) kCFTypeDictionaryValueCallBacks"
  obtains d1 r1 where "set_object_for_key ops this v k env
      = Some (cf_env this (kCFTypeDictionaryKeyCallBacks hash equal) kCFTypeDictionaryValueCallBacks env (d1, r1))"
    "dict_ok (ops_of (kCFTypeDictionaryKeyCallBacks hash equal)) d1"
    "cf_lookup (kCFTypeDictionaryKeyCallBacks hash equal) d1
      = spec_set (same_key (ops_of (kCFTypeDictionaryKeyCallBacks hash equal))) k v
          (cf_lookup (kCFTypeDictionaryKeyCallBacks hash equal) d)"
    "\<forall>z. z \<noteq> 0 \<longrightarrow> r1 z = refs env z + int (total (held_in z) d1) - int (total (held_in z) d)"
proof (cases "k = 0 \<or> v = 0")
  case True
  show thesis
    by (rule that [of d "refs env"])
      (use True here d cf_env_self [OF here] in \<open>auto simp: set_object_for_key_def spec_set_def\<close>)
next
  case False
  let ?kc = "kCFTypeDictionaryKeyCallBacks hash equal" and ?vc = kCFTypeDictionaryValueCallBacks
  have k: "k \<noteq> 0" using False by simp
  obtain d1 r1 where s1: "cf_insert ?kc ?vc k v (d, refs env) = Some (d1, r1)" and ok: "dict_ok (ops_of ?kc) d1"
    and l: "\<And>k'. cf_lookup ?kc d1 k' = (if same_key (ops_of ?kc) k k' then v else cf_lookup ?kc d k')"
    using cf_insert_laws [OF c d k, of v "refs env"] by metis
  show thesis
  proof (rule that [of d1 r1, OF _ ok])
    show "set_object_for_key ops this v k env = Some (cf_env this ?kc ?vc env (d1, r1))"
      using False s1 here by (simp add: set_object_for_key_def cf_env_def)
    show "cf_lookup ?kc d1 = spec_set (same_key (ops_of ?kc)) k v (cf_lookup ?kc d)"
      using False l by (auto simp: spec_set_def)
  qed (use cf_insert_ledger [OF c d k _ s1] in blast)
qed

lemma cf_calls_run:
  assumes c: "callback_contract (kCFTypeDictionaryKeyCallBacks hash equal) kCFTypeDictionaryValueCallBacks"
    and "dict_ok (ops_of (kCFTypeDictionaryKeyCallBacks hash equal)) d"
    and "dicts env this = CFDict d (kCFTypeDictionaryKeyCallBacks hash equal) kCFTypeDictionaryValueCallBacks"
  shows "\<exists>d' r'. cf_calls ops this trace env
      = Some (cf_env this (kCFTypeDictionaryKeyCallBacks hash equal) kCFTypeDictionaryValueCallBacks env (d', r'))
    \<and> dict_ok (ops_of (kCFTypeDictionaryKeyCallBacks hash equal)) d'
    \<and> cf_lookup (kCFTypeDictionaryKeyCallBacks hash equal) d'
        = fold (spec_call (same_key (ops_of (kCFTypeDictionaryKeyCallBacks hash equal)))) trace
            (cf_lookup (kCFTypeDictionaryKeyCallBacks hash equal) d)
    \<and> (\<forall>z. z \<noteq> 0 \<longrightarrow> r' z = refs env z + int (total (held_in z) d') - int (total (held_in z) d))"
  using assms(2,3)
proof (induction trace arbitrary: env d)
  case Nil
  let ?kc = "kCFTypeDictionaryKeyCallBacks hash equal"
  show ?case using Nil cf_env_self [of env this d ?kc kCFTypeDictionaryValueCallBacks]
    by (intro exI [of _ d] exI [of _ "refs env"]) simp
next
  case (Cons opn rest)
  let ?kc = "kCFTypeDictionaryKeyCallBacks hash equal" and ?vc = kCFTypeDictionaryValueCallBacks
  let ?ops = "ops_of ?kc"
  note contract = callbacks_as_ops(1) [OF c]
  have stay: "cf_env this ?kc ?vc env (d, refs env) = env" by (rule cf_env_self [OF Cons.prems(2)])
  have obj: "object_for_key ops this k env = cf_lookup ?kc d k" for k
    using Cons.prems(2) by (simp add: object_for_key_def)
  have step: "\<exists>d1 r1. cf_call ops this opn env = Some (cf_env this ?kc ?vc env (d1, r1)) \<and> dict_ok ?ops d1
    \<and> cf_lookup ?kc d1 = spec_call (same_key ?ops) opn (cf_lookup ?kc d)
    \<and> (\<forall>z. z \<noteq> 0 \<longrightarrow> r1 z = refs env z + int (total (held_in z) d1) - int (total (held_in z) d))"
  proof (cases opn)
    case (SetValue k v)
    then show ?thesis
      by (rule_tac cf_set_step [OF c Cons.prems, of ops v k]) (auto simp: CFDictionarySetValue_def)
  next
    case (AddValue k v)
    obtain d1 r1 where st: "set_object_for_key ops this v k env = Some (cf_env this ?kc ?vc env (d1, r1))"
      "dict_ok ?ops d1" "cf_lookup ?kc d1 = spec_set (same_key ?ops) k v (cf_lookup ?kc d)"
      "\<forall>z. z \<noteq> 0 \<longrightarrow> r1 z = refs env z + int (total (held_in z) d1) - int (total (held_in z) d)"
      by (rule cf_set_step [OF c Cons.prems, of ops v k])
    show ?thesis
    proof (cases "cf_lookup ?kc d k = 0")
      case True
      with AddValue st show ?thesis by (intro exI [of _ d1] exI [of _ r1]) (simp add: CFDictionaryAddValue_def obj)
    next
      case False
      with AddValue stay Cons.prems(1) show ?thesis
        by (intro exI [of _ d] exI [of _ "refs env"]) (simp add: CFDictionaryAddValue_def obj)
    qed
  next
    case (ReplaceValue k v)
    obtain d1 r1 where st: "set_object_for_key ops this v k env = Some (cf_env this ?kc ?vc env (d1, r1))"
      "dict_ok ?ops d1" "cf_lookup ?kc d1 = spec_set (same_key ?ops) k v (cf_lookup ?kc d)"
      "\<forall>z. z \<noteq> 0 \<longrightarrow> r1 z = refs env z + int (total (held_in z) d1) - int (total (held_in z) d)"
      by (rule cf_set_step [OF c Cons.prems, of ops v k])
    show ?thesis
    proof (cases "cf_lookup ?kc d k = 0")
      case False
      with ReplaceValue st show ?thesis by (intro exI [of _ d1] exI [of _ r1]) (simp add: CFDictionaryReplaceValue_def obj)
    next
      case True
      with ReplaceValue stay Cons.prems(1) show ?thesis
        by (intro exI [of _ d] exI [of _ "refs env"]) (simp add: CFDictionaryReplaceValue_def obj)
    qed
  next
    case (RemoveValue k)
    show ?thesis
    proof (cases "k = 0")
      case True
      then show ?thesis using RemoveValue stay Cons.prems
        by (intro exI [of _ d] exI [of _ "refs env"])
          (simp add: CFDictionaryRemoveValue_def remove_object_for_key_def)
    next
      case False
      obtain d1 r1 where s1: "dict_remove ?ops k (d, refs env) = (d1, r1)" by (metis surj_pair)
      have "snd (cf_remove ?kc ?vc k (d, refs env)) = (d1, r1)" using cf_remove_object [OF c] s1 by simp
      then obtain b where "cf_remove ?kc ?vc k (d, refs env) = (b, d1, r1)" by (metis prod.collapse)
      then have "cf_call ops this opn env = Some (cf_env this ?kc ?vc env (d1, r1))"
        using RemoveValue False Cons.prems(2)
        by (simp add: CFDictionaryRemoveValue_def remove_object_for_key_def cf_env_def)
      moreover have "dict_ok ?ops d1" "\<And>k'. cf_lookup ?kc d1 k' = (if same_key ?ops k k' then 0 else cf_lookup ?kc d k')"
        using remove_laws [OF contract Cons.prems(1), of k "refs env"] s1 by (simp_all add: cf_lookup_eq [OF c])
      ultimately show ?thesis
        using RemoveValue False remove_ledger [OF Cons.prems(1) _ s1]
        by (intro exI [of _ d1] exI [of _ r1]) (simp add: fun_eq_iff)
    qed
  qed
  then obtain d1 r1 where call: "cf_call ops this opn env = Some (cf_env this ?kc ?vc env (d1, r1))"
    and d1: "dict_ok ?ops d1"
    and l1: "cf_lookup ?kc d1 = spec_call (same_key ?ops) opn (cf_lookup ?kc d)"
    and r1: "\<And>z. z \<noteq> 0 \<Longrightarrow> r1 z = refs env z + int (total (held_in z) d1) - int (total (held_in z) d)" by blast
  have "dicts (cf_env this ?kc ?vc env (d1, r1)) this = CFDict d1 ?kc ?vc" by simp
  from Cons.IH [OF d1 this] obtain d' r' where
    "cf_calls ops this rest (cf_env this ?kc ?vc env (d1, r1)) = Some (cf_env this ?kc ?vc env (d', r'))"
    "dict_ok ?ops d'"
    "cf_lookup ?kc d' = fold (spec_call (same_key ?ops)) rest (cf_lookup ?kc d1)"
    "\<forall>z. z \<noteq> 0 \<longrightarrow> r' z = r1 z + int (total (held_in z) d') - int (total (held_in z) d1)" by auto
  then show ?case using call l1 r1 by (intro exI [of _ d'] exI [of _ r']) auto
qed

section \<open>Emptying a dictionary\<close>

lemma entry_found:
  assumes "dict_ok ops d" "e \<in> set (bucket d h)"
  shows "dict_has ops d (fst e)"
proof -
  have "msg_hash ops (fst e) = h" using assms dict_okD(2) [OF assms(1), of h] by (simp add: bucket_ok_def)
  with assms(2) show ?thesis by (auto simp: dict_has_def list_ex_iff same_key_def)
qed

lemma remove_all:
  assumes "key_contract ops" "dict_ok ops (fst s)"
  shows "dict_ok ops (fst (fold (dict_remove ops) ks s))
    \<and> (dict_has ops (fst (fold (dict_remove ops) ks s)) k'
        \<longleftrightarrow> dict_has ops (fst s) k' \<and> (\<forall>k \<in> set ks. \<not> same_key ops k k'))
    \<and> (z \<noteq> 0 \<longrightarrow> snd (fold (dict_remove ops) ks s) z
        = snd s z + int (total (held_in z) (fst (fold (dict_remove ops) ks s))) - int (total (held_in z) (fst s)))"
  using assms(2)
proof (induction ks arbitrary: s)
  case Nil
  then show ?case by simp
next
  case (Cons k ks)
  obtain d r where s: "s = (d, r)" by (cases s)
  obtain d1 r1 where s1: "dict_remove ops k (d, r) = (d1, r1)" by (metis surj_pair)
  have d: "dict_ok ops d" using Cons.prems s by simp
  note laws = remove_laws [OF assms(1) d, of k r]
  have "dict_ok ops (fst (d1, r1))" using laws s1 by simp
  note IH = Cons.IH [OF this]
  have "dict_has ops d1 k' = (dict_has ops d k' \<and> \<not> same_key ops k k')" using laws [of k'] s1 by simp
  moreover have "z \<noteq> 0 \<Longrightarrow> r1 z = r z + int (total (held_in z) d1) - int (total (held_in z) d)"
    by (rule remove_ledger [OF d _ s1])
  ultimately show ?case using IH s s1 by auto
qed

lemma cf_remove_values:
  assumes c: "callback_contract (kCFTypeDictionaryKeyCallBacks hash equal) kCFTypeDictionaryValueCallBacks"
    and "\<forall>k \<in> set ks. k \<noteq> 0"
    and "dicts env this = CFDict d (kCFTypeDictionaryKeyCallBacks hash equal) kCFTypeDictionaryValueCallBacks"
  shows "fold (CFDictionaryRemoveValue ops this) ks env
    = cf_env this (kCFTypeDictionaryKeyCallBacks hash equal) kCFTypeDictionaryValueCallBacks env
        (fold (dict_remove (ops_of (kCFTypeDictionaryKeyCallBacks hash equal))) ks (d, refs env))"
  using assms(2,3)
proof (induction ks arbitrary: env d)
  case Nil
  then show ?case by (simp add: cf_env_self)
next
  case (Cons k ks)
  let ?kc = "kCFTypeDictionaryKeyCallBacks hash equal" and ?vc = kCFTypeDictionaryValueCallBacks
  obtain d1 r1 where s1: "dict_remove (ops_of ?kc) k (d, refs env) = (d1, r1)" by (metis surj_pair)
  have "snd (cf_remove ?kc ?vc k (d, refs env)) = (d1, r1)" using cf_remove_object [OF c] s1 by simp
  then obtain b where "cf_remove ?kc ?vc k (d, refs env) = (b, d1, r1)" by (metis prod.collapse)
  then have "CFDictionaryRemoveValue ops this k env = cf_env this ?kc ?vc env (d1, r1)"
    using Cons.prems by (simp add: CFDictionaryRemoveValue_def remove_object_for_key_def cf_env_def)
  with Cons.IH [of "cf_env this ?kc ?vc env (d1, r1)" d1] Cons.prems s1 show ?case by simp
qed

text \<open>
  C18: let a dictionary of string keys, whose hash and equality meet their contract, be made by
  \<open>CFDictionaryCreateMutable\<close> with the default allocator and the callbacks for objects.  No sequence of
  \<open>CFDictionarySetValue\<close>, \<open>CFDictionaryAddValue\<close>, \<open>CFDictionaryReplaceValue\<close> and \<open>CFDictionaryRemoveValue\<close>
  calls on it panics, whatever the arguments (NULL ones change nothing), and \<open>CFDictionaryGetValue\<close> answers as a
  map with these operations does.  Then \<open>CFDictionaryRemoveAllValues\<close> empties the dictionary and gives back every
  reference it took, but deallocating it without that call gives back none.
\<close>

theorem cf_dictionary_releases_on_removal_only:
  assumes kc: "kc = kCFTypeDictionaryKeyCallBacks hash equal"
    and contract: "callback_contract kc kCFTypeDictionaryValueCallBacks"
  shows "\<exists>env0 env' d'. CFDictionaryCreateMutable True (Some kc) (Some kCFTypeDictionaryValueCallBacks) this env = Some env0
    \<and> cf_calls ops this trace env0 = Some env'
    \<and> dicts env' this = CFDict d' kc kCFTypeDictionaryValueCallBacks
    \<and> (\<forall>k. CFDictionaryGetValue ops this k env' = fold (spec_call (same_key (ops_of kc))) trace (\<lambda>_. 0) k)
    \<and> (\<forall>order z. table_order order d' \<longrightarrow> z \<noteq> 0 \<longrightarrow>
          refs (CFDictionaryRemoveAllValues ops order this env') z = refs env z
          \<and> CFDictionaryGetValue ops this z (CFDictionaryRemoveAllValues ops order this env') = 0
          \<and> refs (dict_dealloc order this env') z = refs env z + int (held_in z (entries order d')))"
proof -
  let ?kc = "kCFTypeDictionaryKeyCallBacks hash equal" and ?vc = kCFTypeDictionaryValueCallBacks
  let ?ops = "ops_of ?kc"
  note cc = contract [unfolded kc]
  let ?env0 = "env\<lparr>dicts := (dicts env)(this := CFDict empty_dict ?kc ?vc)\<rparr>"
  have made: "CFDictionaryCreateMutable True (Some ?kc) (Some ?vc) this env = Some ?env0"
    by (simp add: CFDictionaryCreateMutable_def init_with_key_callbacks_def)
  have fresh: "dicts ?env0 this = CFDict empty_dict ?kc ?vc" by simp
  note keys_ok = callbacks_as_ops(1) [OF cc]
  have zero: "total (held_in z) empty_dict = 0" for z by (simp add: total_def)
  obtain d' r' where run: "cf_calls ops this trace ?env0 = Some (cf_env this ?kc ?vc ?env0 (d', r'))"
    and d': "dict_ok ?ops d'"
    and l: "cf_lookup ?kc d' = fold (spec_call (same_key ?ops)) trace (cf_lookup ?kc empty_dict)"
    and r: "\<forall>z. z \<noteq> 0 \<longrightarrow> r' z = refs ?env0 z + int (total (held_in z) d') - int (total (held_in z) empty_dict)"
    using cf_calls_run [OF cc empty_dict_ok fresh, of ops trace] by blast
  let ?env' = "cf_env this ?kc ?vc ?env0 (d', r')"
  have "refs (CFDictionaryRemoveAllValues ops order this ?env') z = refs env z
      \<and> CFDictionaryGetValue ops this z (CFDictionaryRemoveAllValues ops order this ?env') = 0
      \<and> refs (dict_dealloc order this ?env') z = refs env z + int (held_in z (entries order d'))"
    if o: "table_order order d'" and z: "z \<noteq> 0" for order z
  proof -
    let ?ks = "map fst (entries order d')"
    have dist: "distinct order" using o by (simp add: table_order_def)
    have nz: "\<forall>k \<in> set ?ks. k \<noteq> 0" using entries_differ(2) [OF keys_ok d' dist] by auto
    then have tw: "takeWhile (\<lambda>k. k \<noteq> 0) ?ks = ?ks" by (simp add: takeWhile_eq_all_conv)
    have "CFDictionaryRemoveAllValues ops order this ?env'
        = fold (CFDictionaryRemoveValue ops this) (takeWhile (\<lambda>k. k \<noteq> 0) ?ks) ?env'"
      by (simp add: CFDictionaryRemoveAllValues_def all_keys_def)
    then have emptied: "CFDictionaryRemoveAllValues ops order this ?env'
        = cf_env this ?kc ?vc ?env0 (fold (dict_remove ?ops) ?ks (d', r'))"
      using cf_remove_values [OF cc nz, of ?env' this d' ops] unfolding tw by simp
    obtain d2 r2 where s2: "fold (dict_remove ?ops) ?ks (d', r') = (d2, r2)" by (metis surj_pair)
    have "dict_ok ?ops (fst (d', r'))" using d' by simp
    note all = remove_all [OF keys_ok this, of ?ks, unfolded s2]
    have none: "\<not> dict_has ?ops d2 k" for k
    proof
      assume has: "dict_has ?ops d2 k"
      then have "dict_has ?ops d' k" using all [of k] by simp
      then obtain e where e: "e \<in> set (bucket d' (msg_hash ?ops k))" "same_key ?ops (fst e) k"
        by (auto simp: dict_has_def list_ex_iff)
      then have "msg_hash ?ops k \<in> set order"
        using o by (auto simp: table_order_def bucket_def split: option.splits)
      with e have "fst e \<in> set ?ks" by (auto simp: entries_buckets)
      moreover have "\<forall>k' \<in> set ?ks. \<not> same_key ?ops k' k" using all [of k] has unfolding fst_conv by blast
      ultimately show False using e(2) by blast
    qed
    have "bucket d2 h = []" for h
      using entry_found [of ?ops d2 _ h] none all by (cases "bucket d2 h") auto
    then have empty: "total (held_in z) d2 = 0" by (simp add: total_def)
    have "cf_lookup ?kc d2 z = 0"
      using none [of z] by (simp add: cf_lookup_eq [OF cc] dict_lookup_bucket not_has collision_value_none)
    then have "CFDictionaryGetValue ops this z (CFDictionaryRemoveAllValues ops order this ?env') = 0"
      by (simp add: emptied s2 CFDictionaryGetValue_def object_for_key_def)
    moreover have "refs (CFDictionaryRemoveAllValues ops order this ?env') z = refs env z"
      using all r z zero empty by (simp add: emptied s2)
    moreover have "total (held_in z) d' = held_in z (entries order d')"
      by (rule total_entries [OF o]) (simp_all add: held_in_append)
    then have "refs (dict_dealloc order this ?env') z = refs env z + int (held_in z (entries order d'))"
      using r z zero by (simp add: dict_dealloc_def)
    ultimately show ?thesis by blast
  qed
  moreover have "cf_lookup ?kc empty_dict = (\<lambda>_. 0)" by (simp add: fun_eq_iff cf_lookup_eq [OF cc] empty_dict_facts)
  then have "CFDictionaryGetValue ops this k ?env' = fold (spec_call (same_key ?ops)) trace (\<lambda>_. 0) k" for k
    using l by (simp add: CFDictionaryGetValue_def object_for_key_def)
  ultimately show ?thesis using made run unfolding kc
    by (intro exI [of _ ?env0] exI [of _ ?env'] exI [of _ d']) simp
qed


section \<open>Copies of dictionaries without callbacks\<close>

text \<open>
  \<open>CFDictionaryCreateCopy\<close> of a dictionary whose key callbacks are NULL looks the keys up with their \<open>hash\<close> method,
  while the table was filled with the pointers as hashes: when no key's \<open>hash\<close> is the address of a key, the copy
  answers NULL for every key, although the original answers each with its value.
\<close>

theorem cf_copy_loses_pointer_keys:
  assumes "key_contract ops" "dicts env this = CFDict d null_key_callbacks vc"
    and "dict_ok (ops_of null_key_callbacks) d" "table_order order d"
    and "\<forall>e \<in> set (entries order d). dict_map d (msg_hash ops (fst e)) = None"
    and "this \<noteq> 0" "new \<noteq> this"
  shows "\<exists>env'. CFDictionaryCreateCopy ops True order new this env = Some env'
    \<and> CFDictionaryGetValue ops new k env' = 0
    \<and> (\<forall>e \<in> set (entries order d). CFDictionaryGetValue ops this (fst e) env' = snd e)"
proof -
  let ?kvs = "map (\<lambda>k. (k, dict_lookup ops d k)) (iter_keys order d)"
  let ?s = "insert_all ops ?kvs (empty_dict, refs env)"
  have null: "callback_contract null_key_callbacks null_value_callbacks"
    by (auto simp: callback_contract_def key_contract_def ops_of_def null_key_callbacks_def null_value_callbacks_def
        cf_hash_def cf_equal_keys_def cf_retain_key_def cf_retain_value_def same_key_def msg_is_equal_def msg_hash_def)
  have dist: "distinct order" using assms(4) by (simp add: table_order_def)
  note contract = callbacks_as_ops(1) [OF null]
  have kvs: "?kvs = map (\<lambda>e. (fst e, 0)) (entries order d)"
    using assms(5) by (simp add: iter_keys_def dict_lookup_def)
  have trace: "fold (\<lambda>(k, v). dict_insert ops True k v) (map (\<lambda>e. (fst e, 0)) es) s
      = fold (perform (dict_insert ops True) (dict_remove ops)) (map (\<lambda>e. Put (fst e) 0) es) s" for es :: "(nat \<times> nat) list" and s
    by (induction es arbitrary: s) simp_all
  have "last_bound (same_key ops) (map (\<lambda>e. Put (fst e) 0) es) k 0 = 0" for es :: "(nat \<times> nat) list"
    by (induction es) simp_all
  moreover have "\<forall>opn \<in> set (map (\<lambda>e. Put (fst e) 0) (entries order d)). op_key opn \<noteq> 0"
    using entries_differ(2) [OF contract assms(3) dist] by auto
  ultimately have none: "dict_lookup ops (fst ?s) k = 0"
    unfolding kvs insert_all_def trace
    using run_ops_ok(2) [OF assms(1), of "(empty_dict, refs env)" "map (\<lambda>e. Put (fst e) 0) (entries order d)" k]
    by (simp add: run_ops_def empty_dict_ok empty_dict_facts)
  let ?env1 = "env\<lparr>dicts := (dicts env)(new := NSDict empty_dict)\<rparr>"
  let ?env' = "init_with_dictionary_common ops order new this ?env1"
  have "table_of (dicts ?env1 this) = d" using assms(2,7) by simp
  then have "dicts ?env' new = NSDict (fst ?s)" "dicts ?env' this = dicts env this"
    using assms(2,6,7) by (simp_all add: init_with_dictionary_common_def Let_def set_table_def)
  moreover have "cf_lookup null_key_callbacks d (fst e) = snd e" if "e \<in> set (entries order d)" for e
    using value_of_entry [OF entries_differ(1) [OF contract assms(3) dist] that]
      lookup_entries [OF contract assms(3,4), of "fst e"] by (simp add: cf_lookup_eq [OF null])
  ultimately show ?thesis
    using none assms(2)
    by (simp add: CFDictionaryCreateCopy_def CFDictionaryGetValue_def object_for_key_def ns_object_for_key_def)
qed

section \<open>Sample calls\<close>

text \<open>Objects equal to their likes modulo 100, for the callbacks as for the methods.\<close>

definition sample_callbacks :: cf_key_callbacks where
  "sample_callbacks = kCFTypeDictionaryKeyCallBacks (\<lambda>k. k mod 4) (\<lambda>a b. a mod 100 = b mod 100)"

lemma sample_callbacks_same: "same_key (ops_of sample_callbacks) = same_key sample_ops"
  by (auto simp: fun_eq_iff sample_same)
    (auto simp: same_key_def msg_is_equal_def ops_of_def sample_callbacks_def kCFTypeDictionaryKeyCallBacks_def
      cf_equal_keys_def CFEqual_def split: if_splits)

lemma sample_callbacks_contract: "callback_contract sample_callbacks kCFTypeDictionaryValueCallBacks"
proof -
  have hash: "msg_hash (ops_of sample_callbacks) = msg_hash sample_ops"
    by (auto simp: fun_eq_iff msg_hash_def ops_of_def sample_callbacks_def kCFTypeDictionaryKeyCallBacks_def
        cf_hash_def CFHash_def sample_ops_def)
  have "key_contract (ops_of sample_callbacks)"
    using sample_ops_contract unfolding key_contract_def sample_callbacks_same hash
    by (simp add: ops_of_def sample_same)
  then show ?thesis
    by (auto simp: callback_contract_def sample_callbacks_def kCFTypeDictionaryKeyCallBacks_def cf_equal_keys_def
        CFEqual_def cf_hash_def CFHash_def cf_retain_key_def CFRetain_def cf_retain_value_def
        kCFTypeDictionaryValueCallBacks_def)
qed


definition sample_pointers :: dict where
  "sample_pointers = \<lparr> dict_map = [200 \<mapsto> [(200, 50)]], dict_count = 1 \<rparr>"

definition sample_cf_env :: dict_env where
  "sample_cf_env = \<lparr> dicts = (\<lambda>_. NSDict empty_dict)
     (9 := CFDict empty_dict sample_callbacks kCFTypeDictionaryValueCallBacks,
      8 := CFDict sample_pointers null_key_callbacks null_value_callbacks),
     refs = (\<lambda>_. 0), pool = [] \<rparr>"

theorem cf_dictionary_releases_on_removal_only_witness:
  "\<exists>env0 env'. CFDictionaryCreateMutable True (Some sample_callbacks) (Some kCFTypeDictionaryValueCallBacks) 9 sample_cf_env = Some env0
    \<and> cf_calls sample_ops 9 [SetValue 107 20, ReplaceValue 7 30, AddValue 7 60, AddValue 3 40, RemoveValue 3, SetValue 5 0] env0 = Some env'
    \<and> CFDictionaryGetValue sample_ops 9 207 env' = 30 \<and> CFDictionaryGetValue sample_ops 9 3 env' = 0"
proof -
  let ?trace = "[SetValue 107 20, ReplaceValue 7 30, AddValue 7 60, AddValue 3 40, RemoveValue 3, SetValue 5 0]"
  from cf_dictionary_releases_on_removal_only [OF sample_callbacks_def sample_callbacks_contract, of 9 sample_cf_env sample_ops ?trace]
  obtain env0 env' where
    "CFDictionaryCreateMutable True (Some sample_callbacks) (Some kCFTypeDictionaryValueCallBacks) 9 sample_cf_env = Some env0"
    "cf_calls sample_ops 9 ?trace env0 = Some env'"
    "\<forall>k. CFDictionaryGetValue sample_ops 9 k env' = fold (spec_call (same_key (ops_of sample_callbacks))) ?trace (\<lambda>_. 0) k"
    by blast
  then show ?thesis
    by (intro exI [of _ env0] exI [of _ env']) (simp add: sample_callbacks_same sample_same spec_set_def)
qed

theorem cf_copy_loses_pointer_keys_witness:
  "\<exists>env'. CFDictionaryCreateCopy sample_ops True [200] 5 8 sample_cf_env = Some env'
    \<and> CFDictionaryGetValue sample_ops 5 200 env' = 0 \<and> CFDictionaryGetValue sample_ops 8 200 env' = 50"
proof -
  have here: "dicts sample_cf_env 8 = CFDict sample_pointers null_key_callbacks null_value_callbacks"
    by (simp add: sample_cf_env_def)
  have b: "bucket sample_pointers h = (if h = 200 then [(200, 50)] else [])" for h by (simp add: bucket_def sample_pointers_def)
  have ok: "dict_ok (ops_of null_key_callbacks) sample_pointers"
    unfolding dict_ok_def bucket_ok_def b
    by (simp add: total_def bucket_def sample_pointers_def ops_of_def msg_hash_def cf_hash_def null_key_callbacks_def)
  have o: "table_order [200] sample_pointers" by (simp add: table_order_def sample_pointers_def)
  have e: "entries [200] sample_pointers = [(200, 50)]" by (simp add: entries_def sample_pointers_def)
  have hash: "dict_map sample_pointers (msg_hash sample_ops 200) = None"
    by (simp add: msg_hash_def sample_ops_def sample_pointers_def)
  from cf_copy_loses_pointer_keys [OF sample_ops_contract here ok o, of 5 200]
  show ?thesis by (simp add: e hash)
qed

end
