(* ===== verification/Spec2Isabelle.thy ===== *)
theory Spec2Isabelle
  imports C_Strings_Write Pthread_Sync_Props Semaphore_Safety ObjC_Sync Pthread_Thread_Props
    Load_Order Fnmatch Qsort Guest_Fs_Props Guest_Files ObjC_Weak
    Guest_Abi_Props ObjC_Class_Samples Calendar Time_Props CF_Dictionary_Props
begin

text \<open>
  HyperHLE runs iPhone OS applications by emulating the ARM processor and implementing the system
  libraries in Rust (high-level emulation).  A guest function call that reaches a system library
  leaves the emulated processor, runs Rust code on the \<open>Environment\<close> (guest memory, threads, host
  objects) and returns.  This library models the Rust code of that layer and proves what it
  promises to the guest.  Paths are relative to \<open>src/\<close> of the crate.

  \<^bold>\<open>Conventions.\<close>  A Rust function is an Isabelle function of the same name.  State it changes is
  passed and returned; \<open>None\<close> is a panic of the emulator or undefined behaviour of the host, so a
  theorem that a function returns \<open>Some\<close> says that it does not crash.  Results that Rust returns
  as \<open>Result\<close> are sums with the error on the left.  Guest addresses and sizes are natural numbers
  below \<open>2 ^ 32\<close> whose arithmetic is wrapped explicitly (\<open>wadd32\<close>, \<open>wsub32\<close> and \<open>mod 4294967296\<close>);
  bytes are 8-bit words.  Loops are structural recursion, \<open>function\<close> with a measure, or
  \<open>partial_function (option)\<close> where only an invariant bounds them; then termination is a theorem
  and the definitions need no fuel; only the programs of \<open>ObjC_Class_Init\<close>, whose methods send
  messages to each other, bound the nesting by the number of classes, which is proved enough.

  \<^bold>\<open>Guest memory\<close> (\<open>mem.rs\<close>, \<open>mem/allocator.rs\<close>).  \<open>Chunk_Map\<close> and \<open>Chunk_Buckets\<close> are the two
  collections of chunks behind one locale \<open>chunk_store\<close>; \<open>Allocator\<close> is \<open>alloc\<close>, \<open>free\<close>,
  \<open>reserve\<close> and \<open>grow_in_place\<close>, and \<open>Allocator_Safety\<close> states its contract (blocks never overlap,
  no byte is lost).  \<open>Guest_Memory\<close> has slices, the null segment and the entry points of the heap,
  \<open>Heap_Safety\<close> that no sequence of heap calls panics and what a \<open>realloc\<close> keeps,
  \<open>Memory_Access\<close> reading, writing and strings, \<open>Guest_Values\<close> numbers in memory.

  \<^bold>\<open>Calls\<close> (\<open>abi.rs\<close>).  \<open>Guest_Abi\<close> lays arguments and results out in registers and on the stack and
  calls host functions and guest functions through the guest's conventions; \<open>Guest_Abi_Props\<close>
  proves that they arrive unchanged and that a call restores the stack and the registers.

  \<^bold>\<open>C library\<close> (\<open>libc/\<close>).  \<open>C_Chars\<close> is \<open>generic_char.rs\<close> over the locale \<open>char_type\<close> with bytes and
  wide characters as instances; \<open>C_Strings_Read\<close> and \<open>C_Strings_Write\<close> hold its theorems.
  \<open>Fnmatch\<close> is \<open>fnmatch.rs\<close>, proved against a recursive matcher; \<open>Qsort\<close> is \<open>stdlib/qsort.rs\<close> and the
  sorting methods of \<open>NSMutableArray\<close> and \<open>NSDictionary\<close>, over the locale \<open>exchangeable\<close>; \<open>Calendar\<close>
  is the conversion of timestamps in \<open>time.rs\<close>, proved against the Gregorian calendar, \<open>Time_Calls\<close>
  the other functions of that file and \<open>clocale.rs\<close>, and \<open>Time_Props\<close> that times in memory convert
  back and are read as they were formatted; \<open>Errno\<close> is
  \<open>errno.rs\<close> and \<open>Utf8\<close> the string conversions of the standard library that the code uses.

  \<^bold>\<open>Threads\<close> (\<open>environment.rs\<close>, \<open>environment/mutex.rs\<close>, \<open>libc/pthread/\<close>, \<open>libc/semaphore.rs\<close>).
  \<open>Environment\<close> is the state the calls share; \<open>Mutexes\<close> is the table of host mutexes; \<open>Scheduler\<close>
  is the loop that picks the next thread and \<open>Scheduler_Facts\<close> and \<open>Scheduling\<close> its theorems.
  \<open>Mutex_System\<close> and \<open>Mutex_Safety\<close> run threads that lock and unlock in any order, as a step
  relation, and prove for every reachable state mutual exclusion and that the search for the next
  thread panics only in a deadlock.
  \<open>Pthread_Mutex\<close>, \<open>Pthread_Locks\<close> and \<open>Pthread_Lock_Props\<close> are mutexes and read-write locks over
  the locale \<open>guest_lock_ops\<close>; \<open>Pthread_Cond\<close> and \<open>Pthread_Sync_Props\<close> condition variables, once and
  thread-specific data; \<open>Pthread_Thread\<close> and \<open>Pthread_Thread_Props\<close> threads and their attributes;
  \<open>Semaphores\<close>, \<open>Semaphore_Props\<close> and \<open>Semaphore_Safety\<close> semaphores and their refinement of a
  counter; \<open>ObjC_Sync\<close> the \<open>@synchronized\<close> blocks of \<open>objc/synchronization.rs\<close>.

  \<^bold>\<open>Files\<close> (\<open>fs.rs\<close>).  \<open>Guest_Paths\<close> resolves guest paths; \<open>Guest_Fs\<close> is the tree of nodes and every
  operation on it, with the host file system as a record of functions (\<open>host\<close>) over an abstract
  host state; \<open>Guest_Fs_Props\<close> compares the directory operations with a map from paths to kinds and
  states what opening and renaming change, including the host paths of the nodes.  \<open>Guest_Files\<close> is pipes and the random device.

  \<^bold>\<open>Objective-C\<close> (\<open>objc/objects.rs\<close>, \<open>objc/weak.rs\<close>, \<open>objc/classes.rs\<close>, \<open>objc/methods.rs\<close>).  \<open>ObjC_Objects\<close> is the table of objects, their
  reference counts, host objects and weak references; \<open>ObjC_Weak\<close> runs a program that keeps to the
  rules of reference counting as a step relation and proves that its weak slots never dangle.
  \<open>ObjC_Classes\<close> is the class table with method lookup, method handles and swizzling;
  \<open>ObjC_Classes_Props\<close> proves that the lookups agree and what an exchange changes, \<open>ObjC_Class_Init\<close>
  the order in which classes are initialised, and \<open>ObjC_Class_Samples\<close> applies both to a small
  program.

  \<^bold>\<open>Collections\<close> (\<open>frameworks/foundation/ns_dictionary.rs\<close>,
  \<open>frameworks/core_foundation/cf_dictionary.rs\<close>).  \<open>NS_Dictionary\<close> is the hash table of \<open>NSDictionary\<close> and
  the methods over it, with a ledger of the references it takes; \<open>NS_Dictionary_Laws\<close> states the
  interface of a dictionary as a locale and proves it for the table, given the contract of \<open>hash\<close> and
  \<open>isEqual:\<close>; \<open>CF_Dictionary\<close> is the table with callbacks, a second instance of the locale, and the C
  functions.  \<open>NS_Dictionary_Props\<close> and \<open>CF_Dictionary_Props\<close> compare sequences of operations with the
  last binding of each key, count the references that remain, and compare copies with the original.

  \<^bold>\<open>Loading.\<close>  \<open>Load_Order\<close> is the order in which binaries are initialised (\<open>environment.rs\<close>).

  \<^bold>\<open>Parameters.\<close>  The emulated processor is never modelled: a guest function that the host calls
  (a comparison, an initialisation routine) is an argument of the definition that calls it.  The
  iteration order of a hash map and the clock are arguments as well.

  \<^bold>\<open>Not modelled.\<close>  The recompiler behind \<open>cpu.rs\<close>, graphics, audio and network output, and the user
  interface call third-party code or the host; their behaviour is not in this repository.
\<close>

end
